(* ===== verification/Prelude.thy ===== *)
theory Prelude
  imports Main "HOL-Library.Word"
begin

unbundle bit_operations_syntax

text \<open>
  Shared vocabulary of the development: the driver's integer types
  (\<open>platforms/os/linux/inc/osTIType.h\<close>), its status values, and the generic lemmas on
  lists, updates and words that several components use.

  Conventions used by every theory: a \<open>TI_UINT8/16/32\<close> is a word of that width, so
  \<open>+\<close> and \<open>-\<close> wrap as in C; a handle or object address is a \<^typ>\<open>nat\<close> with
  \<open>0\<close> for NULL; the driver is built with \<open>TI_DBG\<close> (both branches of
  \<open>stad/build/linux/common.inc\<close> define it) for a little-endian host, so the
  \<open>#ifdef TI_DBG\<close> code is part of the model and \<open>ENDIAN_HANDLE_\<close>* is the identity.
  Trace and report output is left out.
\<close>

section \<open>Integer and status types\<close>

type_synonym u8 = "8 word"
type_synonym u16 = "16 word"
type_synonym u32 = "32 word"

type_synonym addr = nat

text \<open>\<open>TI_STATUS\<close> values the modelled functions return (\<open>utils/commonTypes.h\<close>).\<close>

datatype ti_status = TI_OK | TI_NOK | PARAM_VALUE_NOT_VALID

text \<open>A fault is what C leaves undefined: the model makes it a value.\<close>

datatype fault = NullDeref | OutOfBounds | UseAfterFree

section \<open>Shared facts\<close>

named_theorems driver_simps "definitions of small driver helpers that proofs unfold together"

lemma unat_plus_one:
  assumes "unat (x :: 'a::len word) < unat (y :: 'a word)"
  shows "unat (x + 1) = Suc (unat x)"
proof -
  have "1 + x \<noteq> 0"
  proof
    assume "1 + x = 0"
    then have "x = - 1" by (metis add_eq_0_iff equation_minus_iff)
    then have "y \<le> x" by simp
    with assms show False by (simp add: word_le_nat_alt)
  qed
  then show ?thesis by (simp add: unatSuc add.commute)
qed

lemma unat_minus_one_pos:
  assumes "(x :: 'a::len word) \<noteq> 0"
  shows "unat (x - 1) = unat x - 1"
  using assms by (simp add: unat_minus_one)

lemma unat_max: "unat (max x y) = max (unat x) (unat y)"
  by (simp add: max_def word_le_nat_alt)

lemma length_fold_update [simp]:
  "length (fold (\<lambda>i xs. xs[i := g i (xs ! i)]) is xs) = length xs"
  by (induction "is" arbitrary: xs) auto

text \<open>A loop that rewrites the entries of a table one by one.\<close>

lemma fold_update_nth:
  assumes "distinct is" "set is \<subseteq> {..<length xs}" "j < length xs"
  shows "fold (\<lambda>i xs. xs[i := g i (xs ! i)]) is xs ! j = (if j \<in> set is then g j (xs ! j) else xs ! j)"
  using assms by (induction "is" arbitrary: xs) (auto simp: nth_list_update)

lemma fold_update_all:
  "n = length xs \<Longrightarrow> j < length xs \<Longrightarrow>
   fold (\<lambda>i xs. xs[i := g i (xs ! i)]) [0..<n] xs ! j = g j (xs ! j)"
  by (subst fold_update_nth) auto

lemma unat_bound: "unat (x :: 'a::len word) < 2 ^ LENGTH('a)"
  by (rule unsigned_less)

lemma unat_add_small:
  "unat (a :: 'a::len word) + unat b < 2 ^ LENGTH('a) \<Longrightarrow> unat (a + b) = unat a + unat b"
  by (simp add: unat_add_lem)

lemma unat_sub_le: "unat (b :: 'a::len word) \<le> unat a \<Longrightarrow> unat (a - b) = unat a - unat b"
  by (simp add: unat_sub word_le_nat_alt)

lemma unat_min: "unat (min x y) = min (unat x) (unat y)"
  by (simp add: min_def word_le_nat_alt)

lemma sum_map_update:
  "k < length xs \<Longrightarrow> sum_list (map f (xs[k := x])) + f (xs ! k) = sum_list (map f xs) + (f x :: nat)"
  by (induction xs arbitrary: k) (auto split: nat.splits)

lemma elem_le_sum_map: "k < length xs \<Longrightarrow> f (xs ! k) \<le> (sum_list (map f xs) :: nat)"
  using elem_le_sum_list [of k "map f xs"] by simp

text \<open>Widening a word keeps its value.\<close>

lemma unat_ucast_16_32 [simp]: "unat (ucast (x :: u16) :: u32) = unat x"
  using unat_bound [of x] by (simp add: unsigned_ucast_eq take_bit_nat_eq_self)

lemma unat_ucast_8_32 [simp]: "unat (ucast (x :: u8) :: u32) = unat x"
  using unat_bound [of x] by (simp add: unsigned_ucast_eq take_bit_nat_eq_self)

lemma unat_ucast_8_16 [simp]: "unat (ucast (x :: u8) :: u16) = unat x"
  using unat_bound [of x] by (simp add: unsigned_ucast_eq take_bit_nat_eq_self)

lemma ucast_8_32_inj [simp]: "(ucast (x :: u8) :: u32) = ucast y \<longleftrightarrow> x = y"
  by (metis unat_ucast_8_32 word_unat_eq_iff)

lemma ucast_16_32_inj [simp]: "(ucast (x :: u16) :: u32) = ucast y \<longleftrightarrow> x = y"
  by (metis unat_ucast_16_32 word_unat_eq_iff)

end
