(* ===== verification/TxnTypes.thy ===== *)
theory TxnTypes
  imports Prelude
begin

text \<open>
  \<open>Txn/BusDrv.h\<close>, \<open>Txn/TxnDefs.h\<close>: the bus transaction structure that the Xfer layer,
  TwIf, the transaction queue and the bus driver hand to each other, with the bit fields of its
  \<open>uTxnParams\<close> word.
\<close>

section \<open>The transaction structure\<close>

datatype ETxnStatus =
    TXN_STATUS_NONE | TXN_STATUS_OK | TXN_STATUS_COMPLETE | TXN_STATUS_PENDING | TXN_STATUS_ERROR

record TTxnStruct =
  uTxnParams :: u32
  uHwAddr :: u32
  fTxnDoneCb :: addr  \<comment> \<open>\<open>0\<close> for no callback\<close>
  hCbHandle :: addr
  aLen :: "u16 list"
  aBuf :: "addr list"

definition MAX_XFER_BUFS :: nat where "MAX_XFER_BUFS = 4"

definition TTxnStruct_zero :: TTxnStruct where
  "TTxnStruct_zero = \<lparr>uTxnParams = 0, uHwAddr = 0, fTxnDoneCb = 0, hCbHandle = 0,
     aLen = replicate MAX_XFER_BUFS 0, aBuf = replicate MAX_XFER_BUFS 0\<rparr>"

definition TXN_DIRECTION_WRITE :: u32 where "TXN_DIRECTION_WRITE = 0"
definition TXN_DIRECTION_READ :: u32 where "TXN_DIRECTION_READ = 1"
definition TXN_HIGH_PRIORITY :: u32 where "TXN_HIGH_PRIORITY = 0"
definition TXN_LOW_PRIORITY :: u32 where "TXN_LOW_PRIORITY = 1"
definition TXN_NUM_PRIORITYS :: nat where "TXN_NUM_PRIORITYS = 2"
definition TXN_INC_ADDR :: u32 where "TXN_INC_ADDR = 0"
definition TXN_FIXED_ADDR :: u32 where "TXN_FIXED_ADDR = 1"
definition TXN_AGGREGATE_OFF :: u32 where "TXN_AGGREGATE_OFF = 0"
definition TXN_AGGREGATE_ON :: u32 where "TXN_AGGREGATE_ON = 1"
definition TXN_NON_SLEEP_ELP :: u32 where "TXN_NON_SLEEP_ELP = 1"
definition TXN_SLEEP_ELP :: u32 where "TXN_SLEEP_ELP = 0"
definition TXN_FUNC_ID_WLAN :: u32 where "TXN_FUNC_ID_WLAN = 2"

lemmas txn_const_defs = TXN_DIRECTION_WRITE_def TXN_DIRECTION_READ_def TXN_HIGH_PRIORITY_def
  TXN_LOW_PRIORITY_def TXN_NUM_PRIORITYS_def TXN_INC_ADDR_def TXN_FIXED_ADDR_def
  TXN_AGGREGATE_OFF_def TXN_AGGREGATE_ON_def TXN_NON_SLEEP_ELP_def TXN_SLEEP_ELP_def
  TXN_FUNC_ID_WLAN_def

section \<open>The bit fields of \<open>uTxnParams\<close>\<close>

definition TXN_PARAM_GET_PRIORITY :: "TTxnStruct \<Rightarrow> u32" where
  "TXN_PARAM_GET_PRIORITY t = drop_bit 0 (uTxnParams t AND 0x00000003)"
definition TXN_PARAM_GET_FUNC_ID :: "TTxnStruct \<Rightarrow> u32" where
  "TXN_PARAM_GET_FUNC_ID t = drop_bit 2 (uTxnParams t AND 0x0000000C)"
definition TXN_PARAM_GET_DIRECTION :: "TTxnStruct \<Rightarrow> u32" where
  "TXN_PARAM_GET_DIRECTION t = drop_bit 4 (uTxnParams t AND 0x00000010)"
definition TXN_PARAM_GET_FIXED_ADDR :: "TTxnStruct \<Rightarrow> u32" where
  "TXN_PARAM_GET_FIXED_ADDR t = drop_bit 5 (uTxnParams t AND 0x00000020)"
definition TXN_PARAM_GET_MORE :: "TTxnStruct \<Rightarrow> u32" where
  "TXN_PARAM_GET_MORE t = drop_bit 6 (uTxnParams t AND 0x00000040)"
definition TXN_PARAM_GET_SINGLE_STEP :: "TTxnStruct \<Rightarrow> u32" where
  "TXN_PARAM_GET_SINGLE_STEP t = drop_bit 7 (uTxnParams t AND 0x00000080)"
definition TXN_PARAM_GET_STATUS :: "TTxnStruct \<Rightarrow> u32" where
  "TXN_PARAM_GET_STATUS t = drop_bit 8 (uTxnParams t AND 0x00000F00)"
definition TXN_PARAM_GET_AGGREGATE :: "TTxnStruct \<Rightarrow> u32" where
  "TXN_PARAM_GET_AGGREGATE t = drop_bit 12 (uTxnParams t AND 0x00001000)"
definition TXN_PARAM_GET_END_OF_BURST :: "TTxnStruct \<Rightarrow> u32" where
  "TXN_PARAM_GET_END_OF_BURST t = drop_bit 13 (uTxnParams t AND 0x00002000)"

definition TXN_PARAM_SET_PRIORITY :: "TTxnStruct \<Rightarrow> u32 \<Rightarrow> TTxnStruct" where
  "TXN_PARAM_SET_PRIORITY t v = t\<lparr>uTxnParams := (uTxnParams t AND NOT 0x00000003) OR push_bit 0 v\<rparr>"
definition TXN_PARAM_SET_FUNC_ID :: "TTxnStruct \<Rightarrow> u32 \<Rightarrow> TTxnStruct" where
  "TXN_PARAM_SET_FUNC_ID t v = t\<lparr>uTxnParams := (uTxnParams t AND NOT 0x0000000C) OR push_bit 2 v\<rparr>"
definition TXN_PARAM_SET_DIRECTION :: "TTxnStruct \<Rightarrow> u32 \<Rightarrow> TTxnStruct" where
  "TXN_PARAM_SET_DIRECTION t v = t\<lparr>uTxnParams := (uTxnParams t AND NOT 0x00000010) OR push_bit 4 v\<rparr>"
definition TXN_PARAM_SET_FIXED_ADDR :: "TTxnStruct \<Rightarrow> u32 \<Rightarrow> TTxnStruct" where
  "TXN_PARAM_SET_FIXED_ADDR t v = t\<lparr>uTxnParams := (uTxnParams t AND NOT 0x00000020) OR push_bit 5 v\<rparr>"
definition TXN_PARAM_SET_MORE :: "TTxnStruct \<Rightarrow> u32 \<Rightarrow> TTxnStruct" where
  "TXN_PARAM_SET_MORE t v = t\<lparr>uTxnParams := (uTxnParams t AND NOT 0x00000040) OR push_bit 6 v\<rparr>"
definition TXN_PARAM_SET_SINGLE_STEP :: "TTxnStruct \<Rightarrow> u32 \<Rightarrow> TTxnStruct" where
  "TXN_PARAM_SET_SINGLE_STEP t v = t\<lparr>uTxnParams := (uTxnParams t AND NOT 0x00000080) OR push_bit 7 v\<rparr>"
definition TXN_PARAM_SET_STATUS :: "TTxnStruct \<Rightarrow> u32 \<Rightarrow> TTxnStruct" where
  "TXN_PARAM_SET_STATUS t v = t\<lparr>uTxnParams := (uTxnParams t AND NOT 0x00000F00) OR push_bit 8 v\<rparr>"
definition TXN_PARAM_SET_AGGREGATE :: "TTxnStruct \<Rightarrow> u32 \<Rightarrow> TTxnStruct" where
  "TXN_PARAM_SET_AGGREGATE t v = t\<lparr>uTxnParams := (uTxnParams t AND NOT 0x00001000) OR push_bit 12 v\<rparr>"
definition TXN_PARAM_SET_END_OF_BURST :: "TTxnStruct \<Rightarrow> u32 \<Rightarrow> TTxnStruct" where
  "TXN_PARAM_SET_END_OF_BURST t v = t\<lparr>uTxnParams := (uTxnParams t AND NOT 0x00002000) OR push_bit 13 v\<rparr>"

definition TXN_PARAM_SET :: "TTxnStruct \<Rightarrow> u32 \<Rightarrow> u32 \<Rightarrow> u32 \<Rightarrow> u32 \<Rightarrow> TTxnStruct" where
  "TXN_PARAM_SET t uPriority uId uDirection uAddrMode =
     TXN_PARAM_SET_FIXED_ADDR
       (TXN_PARAM_SET_DIRECTION
         (TXN_PARAM_SET_FUNC_ID
           (TXN_PARAM_SET_PRIORITY t uPriority) uId) uDirection) uAddrMode"

definition BUILD_TTxnStruct ::
  "TTxnStruct \<Rightarrow> u32 \<Rightarrow> addr \<Rightarrow> u32 \<Rightarrow> addr \<Rightarrow> addr \<Rightarrow> TTxnStruct" where
  "BUILD_TTxnStruct t uAddr pBuf uLen fCB hCB =
     t\<lparr>aBuf := (aBuf t)[0 := pBuf], aLen := (aLen t)[0 := ucast uLen, 1 := 0],
       uHwAddr := uAddr, hCbHandle := hCB, fTxnDoneCb := fCB\<rparr>"

lemmas txn_get_defs = TXN_PARAM_GET_PRIORITY_def TXN_PARAM_GET_FUNC_ID_def
  TXN_PARAM_GET_DIRECTION_def TXN_PARAM_GET_FIXED_ADDR_def TXN_PARAM_GET_MORE_def
  TXN_PARAM_GET_SINGLE_STEP_def TXN_PARAM_GET_STATUS_def TXN_PARAM_GET_AGGREGATE_def
  TXN_PARAM_GET_END_OF_BURST_def

lemmas txn_set_defs = TXN_PARAM_SET_PRIORITY_def TXN_PARAM_SET_FUNC_ID_def
  TXN_PARAM_SET_DIRECTION_def TXN_PARAM_SET_FIXED_ADDR_def TXN_PARAM_SET_MORE_def
  TXN_PARAM_SET_SINGLE_STEP_def TXN_PARAM_SET_STATUS_def TXN_PARAM_SET_AGGREGATE_def
  TXN_PARAM_SET_END_OF_BURST_def

section \<open>Fields are independent\<close>

lemma field_read_back:
  fixes w v m :: u32
  assumes "push_bit n v AND NOT m = 0" "drop_bit n (push_bit n v) = v"
  shows "drop_bit n ((w AND NOT m OR push_bit n v) AND m) = v"
proof -
  have "(w AND NOT m OR push_bit n v) AND m = push_bit n v"
  proof (rule bit_word_eqI)
    fix i
    assume "i < LENGTH(32)"
    have "bit (push_bit n v AND NOT m) i = bit (0::u32) i" using assms(1) by simp
    then show "bit ((w AND NOT m OR push_bit n v) AND m) i = bit (push_bit n v) i"
      using \<open>i < LENGTH(32)\<close> by (auto simp: bit_simps)
  qed
  with assms(2) show ?thesis by simp
qed

lemma field_other:
  fixes w v m m' :: u32
  assumes "push_bit n v AND NOT m = 0" "m AND m' = 0"
  shows "(w AND NOT m OR push_bit n v) AND m' = w AND m'"
proof (rule bit_word_eqI)
  fix i
  assume i: "i < LENGTH(32)"
  have "bit (push_bit n v AND NOT m) i = bit (0::u32) i" "bit (m AND m') i = bit (0::u32) i"
    using assms by simp_all
  then show "bit ((w AND NOT m OR push_bit n v) AND m') i = bit (w AND m') i"
    using i by (auto simp: bit_simps)
qed

lemma push_in_mask:
  fixes v :: u32
  assumes "unat v < 2 ^ k" "n + k \<le> 32"
  shows "push_bit n v AND NOT (push_bit n (mask k)) = 0 \<and> drop_bit n (push_bit n v) = v"
proof (rule conjI)
  have "take_bit k (unat v) = unat v" using assms(1) by (simp add: take_bit_nat_eq_self)
  then have "take_bit k v = v" by (simp add: word_unat_eq_iff unsigned_take_bit_eq)
  then have v: "\<not> bit v i" if "k \<le> i" for i
    using that by (metis bit_take_bit_iff not_le)
  show "push_bit n v AND NOT (push_bit n (mask k)) = 0"
    by (rule bit_word_eqI) (use v in \<open>auto simp: bit_simps not_less\<close>)
  show "drop_bit n (push_bit n v) = v"
  proof (rule bit_word_eqI)
    fix i
    assume "i < LENGTH(32)"
    show "bit (drop_bit n (push_bit n v)) i = bit v i"
      using v [of i] assms(2) by (cases "k \<le> i") (auto simp: bit_simps)
  qed
qed

text \<open>The masks of the fields, as \<open>2 ^ k - 1\<close> shifted to the field's place.\<close>

lemma txn_masks:
  "(0x00000003 :: u32) = push_bit 0 (mask 2)" "(0x0000000C :: u32) = push_bit 2 (mask 2)"
  "(0x00000010 :: u32) = push_bit 4 (mask 1)" "(0x00000020 :: u32) = push_bit 5 (mask 1)"
  "(0x00000040 :: u32) = push_bit 6 (mask 1)" "(0x00000080 :: u32) = push_bit 7 (mask 1)"
  "(0x00000F00 :: u32) = push_bit 8 (mask 4)" "(0x00001000 :: u32) = push_bit 12 (mask 1)"
  "(0x00002000 :: u32) = push_bit 13 (mask 1)"
  by (simp_all add: mask_eq_exp_minus_1 push_bit_eq_mult)

lemma txn_in_mask:
  "(v :: u32) < 4 \<Longrightarrow> push_bit 0 v AND NOT 0x00000003 = 0 \<and> drop_bit 0 (push_bit 0 v) = v"
  "v < 4 \<Longrightarrow> push_bit 2 v AND NOT 0x0000000C = 0 \<and> drop_bit 2 (push_bit 2 v) = v"
  "v < 2 \<Longrightarrow> push_bit 4 v AND NOT 0x00000010 = 0 \<and> drop_bit 4 (push_bit 4 v) = v"
  "v < 2 \<Longrightarrow> push_bit 5 v AND NOT 0x00000020 = 0 \<and> drop_bit 5 (push_bit 5 v) = v"
  "v < 2 \<Longrightarrow> push_bit 6 v AND NOT 0x00000040 = 0 \<and> drop_bit 6 (push_bit 6 v) = v"
  "v < 2 \<Longrightarrow> push_bit 7 v AND NOT 0x00000080 = 0 \<and> drop_bit 7 (push_bit 7 v) = v"
  "unat v < 16 \<Longrightarrow> push_bit 8 v AND NOT 0x00000F00 = 0 \<and> drop_bit 8 (push_bit 8 v) = v"
  "v < 2 \<Longrightarrow> push_bit 12 v AND NOT 0x00001000 = 0 \<and> drop_bit 12 (push_bit 12 v) = v"
  "v < 2 \<Longrightarrow> push_bit 13 v AND NOT 0x00002000 = 0 \<and> drop_bit 13 (push_bit 13 v) = v"
  unfolding txn_masks(1,2,3,4,5,6,8,9) txn_masks(7) [symmetric, THEN sym]
  by (rule push_in_mask; simp add: word_less_nat_alt)+

lemma txn_masks_disjoint:
  "(0x00000003 :: u32) AND 0x0000000C = 0"  "(0x00000003 :: u32) AND 0x00000010 = 0"
  "(0x00000003 :: u32) AND 0x00000020 = 0"  "(0x00000003 :: u32) AND 0x00000040 = 0"
  "(0x00000003 :: u32) AND 0x00000080 = 0"  "(0x00000003 :: u32) AND 0x00000F00 = 0"
  "(0x00000003 :: u32) AND 0x00001000 = 0"  "(0x00000003 :: u32) AND 0x00002000 = 0"
  "(0x0000000C :: u32) AND 0x00000003 = 0"  "(0x0000000C :: u32) AND 0x00000010 = 0"
  "(0x0000000C :: u32) AND 0x00000020 = 0"  "(0x0000000C :: u32) AND 0x00000040 = 0"
  "(0x0000000C :: u32) AND 0x00000080 = 0"  "(0x0000000C :: u32) AND 0x00000F00 = 0"
  "(0x0000000C :: u32) AND 0x00001000 = 0"  "(0x0000000C :: u32) AND 0x00002000 = 0"
  "(0x00000010 :: u32) AND 0x00000003 = 0"  "(0x00000010 :: u32) AND 0x0000000C = 0"
  "(0x00000010 :: u32) AND 0x00000020 = 0"  "(0x00000010 :: u32) AND 0x00000040 = 0"
  "(0x00000010 :: u32) AND 0x00000080 = 0"  "(0x00000010 :: u32) AND 0x00000F00 = 0"
  "(0x00000010 :: u32) AND 0x00001000 = 0"  "(0x00000010 :: u32) AND 0x00002000 = 0"
  "(0x00000020 :: u32) AND 0x00000003 = 0"  "(0x00000020 :: u32) AND 0x0000000C = 0"
  "(0x00000020 :: u32) AND 0x00000010 = 0"  "(0x00000020 :: u32) AND 0x00000040 = 0"
  "(0x00000020 :: u32) AND 0x00000080 = 0"  "(0x00000020 :: u32) AND 0x00000F00 = 0"
  "(0x00000020 :: u32) AND 0x00001000 = 0"  "(0x00000020 :: u32) AND 0x00002000 = 0"
  by simp_all

text \<open>The bit fields of a transaction are independent: after the driver sets priority, function,
  direction and address mode, each of them reads back as set and the other five fields are
  unchanged.\<close>

theorem TXN_PARAM_SET_fields:
  fixes t :: TTxnStruct
  assumes "p < 4" "f < 4" "d < 2" "a < 2"
  defines "t' \<equiv> TXN_PARAM_SET t p f d a"
  shows "TXN_PARAM_GET_PRIORITY t' = p \<and> TXN_PARAM_GET_FUNC_ID t' = f \<and>
    TXN_PARAM_GET_DIRECTION t' = d \<and> TXN_PARAM_GET_FIXED_ADDR t' = a \<and>
    TXN_PARAM_GET_MORE t' = TXN_PARAM_GET_MORE t \<and>
    TXN_PARAM_GET_SINGLE_STEP t' = TXN_PARAM_GET_SINGLE_STEP t \<and>
    TXN_PARAM_GET_STATUS t' = TXN_PARAM_GET_STATUS t \<and>
    TXN_PARAM_GET_AGGREGATE t' = TXN_PARAM_GET_AGGREGATE t \<and>
    TXN_PARAM_GET_END_OF_BURST t' = TXN_PARAM_GET_END_OF_BURST t"
proof -
  note v = txn_in_mask(1) [OF assms(1)] txn_in_mask(2) [OF assms(2)] txn_in_mask(3) [OF assms(3)]
    txn_in_mask(4) [OF assms(4)]
  have e: "uTxnParams t' =
      ((((uTxnParams t AND NOT 0x00000003 OR push_bit 0 p) AND NOT 0x0000000C OR push_bit 2 f)
        AND NOT 0x00000010 OR push_bit 4 d) AND NOT 0x00000020 OR push_bit 5 a)"
    unfolding t'_def TXN_PARAM_SET_def txn_set_defs by simp
  show ?thesis
    unfolding txn_get_defs e
    by (simp only: v field_other field_read_back txn_masks_disjoint refl simp_thms)
qed

theorem TXN_PARAM_SET_fields_witness:
  "TXN_PARAM_GET_FUNC_ID
     (TXN_PARAM_SET TTxnStruct_zero TXN_LOW_PRIORITY TXN_FUNC_ID_WLAN TXN_DIRECTION_WRITE TXN_FIXED_ADDR)
   = TXN_FUNC_ID_WLAN"
  using TXN_PARAM_SET_fields [of TXN_LOW_PRIORITY TXN_FUNC_ID_WLAN TXN_DIRECTION_WRITE TXN_FIXED_ADDR]
  by (simp add: txn_const_defs)

end
