(* ===== verification/TxCtrlBlk.thy ===== *)
theory TxCtrlBlk
  imports TxnTypes
begin

text \<open>
  \<open>TWD/Data_Service/txCtrlBlk.c\<close>: the table of Tx control blocks, one per packet between the
  upper driver and the firmware. The free entries form a singly linked list through
  \<open>pNextFreeEntry\<close> that starts at entry 0, which is never allocated; a pointer to an entry is its
  index in the table, NULL is \<^term>\<open>None\<close>. The entry types are those of
  \<open>TWD/TWDriver/TWDriver.h\<close> and \<open>TWD/FirmwareApi/public_descriptors.h\<close>.
\<close>

section \<open>Types\<close>

definition CTRL_BLK_ENTRIES_NUM :: nat where "CTRL_BLK_ENTRIES_NUM = 160"
definition MAX_HEADER_SIZE :: u32 where "MAX_HEADER_SIZE = 48"

record TxIfDescriptor_t =
  td_length :: u16
  extraMemBlks :: u8
  totalMemBlks :: u8
  startTime :: u32
  lifeTime :: u16
  txAttr :: u16
  descID :: u8
  tid :: u8
  aid :: u8
  td_reserved :: u8

record TTxPktParams =
  pInputPkt :: addr
  uInputPktLen :: u32
  uDriverDelay :: u32
  uPktType :: u8
  uHeadroomSize :: u8
  uFlags :: u16

record TTxCtrlBlk =
  tTxnStruct :: TTxnStruct
  tTxDescriptor :: TxIfDescriptor_t
  aPktHdr :: "u8 list"
  tTxPktParams :: TTxPktParams
  pNextFreeEntry :: "nat option"
  pNextAggregEntry :: "nat option"

record TTxCtrlBlkObj =
  aTxCtrlBlkTbl :: "TTxCtrlBlk list"
  uNumUsedEntries :: u32

section \<open>Operations\<close>

definition TTxCtrlBlk_zero :: TTxCtrlBlk where
  "TTxCtrlBlk_zero =
     \<lparr>tTxnStruct = TTxnStruct_zero,
      tTxDescriptor = \<lparr>td_length = 0, extraMemBlks = 0, totalMemBlks = 0, startTime = 0,
        lifeTime = 0, txAttr = 0, descID = 0, tid = 0, aid = 0, td_reserved = 0\<rparr>,
      aPktHdr = replicate (unat MAX_HEADER_SIZE) 0,
      tTxPktParams = \<lparr>pInputPkt = 0, uInputPktLen = 0, uDriverDelay = 0, uPktType = 0,
        uHeadroomSize = 0, uFlags = 0\<rparr>,
      pNextFreeEntry = None, pNextAggregEntry = None\<rparr>"

text \<open>\<open>bAlloc\<close>: \<open>os_memoryAlloc\<close> succeeded; the object is zeroed.\<close>

definition txCtrlBlk_Create :: "bool \<Rightarrow> TTxCtrlBlkObj option" where
  "txCtrlBlk_Create bAlloc =
     (if bAlloc
      then Some \<lparr>aTxCtrlBlkTbl = replicate CTRL_BLK_ENTRIES_NUM TTxCtrlBlk_zero, uNumUsedEntries = 0\<rparr>
      else None)"

definition txCtrlBlk_InitEntry :: "nat \<Rightarrow> TTxCtrlBlk \<Rightarrow> TTxCtrlBlk" where
  "txCtrlBlk_InitEntry entry b =
     b\<lparr>tTxDescriptor := (tTxDescriptor b)\<lparr>descID := of_nat entry, aid := 1, td_reserved := 0\<rparr>,
       pNextFreeEntry := Some (entry + 1),
       tTxnStruct := TXN_PARAM_SET (tTxnStruct b)
         TXN_LOW_PRIORITY TXN_FUNC_ID_WLAN TXN_DIRECTION_WRITE TXN_FIXED_ADDR\<rparr>"

definition txCtrlBlk_Init :: "TTxCtrlBlkObj \<Rightarrow> ti_status \<times> TTxCtrlBlkObj" where
  "txCtrlBlk_Init s =
     (let tbl = fold (\<lambda>entry tbl. tbl[entry := txCtrlBlk_InitEntry entry (tbl ! entry)])
                  [0..<CTRL_BLK_ENTRIES_NUM] (aTxCtrlBlkTbl s);
          last = CTRL_BLK_ENTRIES_NUM - 1;
          tbl = tbl[last := (tbl ! last)\<lparr>pNextFreeEntry := None\<rparr>]
      in (TI_OK, s\<lparr>aTxCtrlBlkTbl := tbl, uNumUsedEntries := 0\<rparr>))"

definition txCtrlBlk_Alloc :: "TTxCtrlBlkObj \<Rightarrow> fault + (nat option \<times> TTxCtrlBlkObj)" where
  "txCtrlBlk_Alloc s =
     (let tbl = aTxCtrlBlkTbl s in
      case pNextFreeEntry (tbl ! 0) of
        None \<Rightarrow> Inl NullDeref
      | Some cur \<Rightarrow>
          if pNextFreeEntry (tbl ! cur) = None then Inr (None, s)
          else
            (let s = s\<lparr>uNumUsedEntries := uNumUsedEntries s + 1\<rparr>;
                 tbl = tbl[0 := (tbl ! 0)\<lparr>pNextFreeEntry := pNextFreeEntry (tbl ! cur)\<rparr>];
                 b = (tbl ! cur)\<lparr>pNextFreeEntry := None\<rparr>;
                 b = b\<lparr>tTxPktParams := (tTxPktParams b)\<lparr>uFlags := 0, uHeadroomSize := 0\<rparr>\<rparr>
             in Inr (Some cur, s\<lparr>aTxCtrlBlkTbl := tbl[cur := b]\<rparr>)))"

definition txCtrlBlk_Free :: "TTxCtrlBlkObj \<Rightarrow> nat \<Rightarrow> TTxCtrlBlkObj" where
  "txCtrlBlk_Free s cur =
     (let tbl = aTxCtrlBlkTbl s in
      if pNextFreeEntry (tbl ! cur) \<noteq> None then s
      else
        (let s = s\<lparr>uNumUsedEntries := uNumUsedEntries s - 1\<rparr>;
             tbl = tbl[cur := (tbl ! cur)\<lparr>pNextFreeEntry := pNextFreeEntry (tbl ! 0)\<rparr>];
             tbl = tbl[0 := (tbl ! 0)\<lparr>pNextFreeEntry := Some cur\<rparr>]
         in s\<lparr>aTxCtrlBlkTbl := tbl\<rparr>))"

text \<open>The address computed for a descriptor id; reading through it is only defined inside the table.\<close>

definition txCtrlBlk_GetPointer :: "u8 \<Rightarrow> nat" where
  "txCtrlBlk_GetPointer descId = unat descId"

section \<open>The free list\<close>

fun chain :: "TTxCtrlBlk list \<Rightarrow> nat \<Rightarrow> nat list \<Rightarrow> bool" where
  "chain tbl i [] \<longleftrightarrow> pNextFreeEntry (tbl ! i) = None"
| "chain tbl i (f # fs) \<longleftrightarrow> pNextFreeEntry (tbl ! i) = Some f \<and> chain tbl f fs"

text \<open>
  \<open>blk_inv s fs\<close>: the free entries are \<open>fs\<close> followed by the last entry of the table, in the order
  of the list; the other entries other than 0 are allocated, marked by a NULL link and counted.
\<close>

definition LAST_BLK :: nat where "LAST_BLK = CTRL_BLK_ENTRIES_NUM - 1"

definition blk_inv :: "TTxCtrlBlkObj \<Rightarrow> nat list \<Rightarrow> bool" where
  "blk_inv s fs \<longleftrightarrow>
     length (aTxCtrlBlkTbl s) = CTRL_BLK_ENTRIES_NUM \<and>
     chain (aTxCtrlBlkTbl s) 0 (fs @ [LAST_BLK]) \<and> distinct (0 # fs @ [LAST_BLK]) \<and>
     set fs \<subseteq> {..<CTRL_BLK_ENTRIES_NUM} \<and>
     (\<forall>i < CTRL_BLK_ENTRIES_NUM. i \<notin> set (0 # fs) \<longrightarrow> pNextFreeEntry (aTxCtrlBlkTbl s ! i) = None) \<and>
     unat (uNumUsedEntries s) + length fs = CTRL_BLK_ENTRIES_NUM - 2 \<and>
     (\<forall>i < CTRL_BLK_ENTRIES_NUM. descID (tTxDescriptor (aTxCtrlBlkTbl s ! i)) = of_nat i)"

text \<open>What the module promises its users: a pool of entries handed out last freed, first.\<close>

definition pool_Alloc :: "nat list \<Rightarrow> nat option \<times> nat list" where
  "pool_Alloc fs = (case fs of [] \<Rightarrow> (None, []) | f # fs \<Rightarrow> (Some f, fs))"

definition pool_Free :: "nat \<Rightarrow> nat list \<Rightarrow> nat list" where
  "pool_Free i fs = (if i \<in> set fs then fs else i # fs)"

lemma chain_agree:
  "chain tbl i fs \<Longrightarrow> \<forall>j \<in> set (i # fs). pNextFreeEntry (tbl' ! j) = pNextFreeEntry (tbl ! j) \<Longrightarrow>
   chain tbl' i fs"
  by (induction fs arbitrary: i) auto

lemma chain_next:
  "chain tbl i (fs @ [l]) \<Longrightarrow> j \<in> set (i # fs) \<Longrightarrow> pNextFreeEntry (tbl ! j) \<noteq> None"
  by (induction fs arbitrary: i) auto

lemma chain_last: "chain tbl i (fs @ [l]) \<Longrightarrow> pNextFreeEntry (tbl ! l) = None"
  by (induction fs arbitrary: i) auto

lemma chain_upt:
  assumes "\<forall>j. i \<le> j \<and> j < n \<longrightarrow> pNextFreeEntry (tbl ! j) = Some (Suc j)" "pNextFreeEntry (tbl ! n) = None"
    and "i \<le> n"
  shows "chain tbl i [Suc i..<Suc n]"
  using assms
proof (induction "n - i" arbitrary: i)
  case 0
  then show ?case by simp
next
  case (Suc d)
  then have "i < n" by simp
  then have "[Suc i..<Suc n] = Suc i # [Suc (Suc i)..<Suc n]" by (subst upt_conv_Cons) auto
  then show ?case using Suc \<open>i < n\<close> by auto
qed

lemma blk_inv_Init:
  assumes "length (aTxCtrlBlkTbl s) = CTRL_BLK_ENTRIES_NUM"
  shows "blk_inv (snd (txCtrlBlk_Init s)) [1..<LAST_BLK]"
proof -
  define tbl where "tbl = aTxCtrlBlkTbl (snd (txCtrlBlk_Init s))"
  have nth: "tbl ! j = (let b = txCtrlBlk_InitEntry j (aTxCtrlBlkTbl s ! j)
      in if j = LAST_BLK then b\<lparr>pNextFreeEntry := None\<rparr> else b)" if "j < CTRL_BLK_ENTRIES_NUM" for j
    using that assms by (auto simp: tbl_def txCtrlBlk_Init_def Let_def nth_list_update LAST_BLK_def
        fold_update_all)
  have next_j: "pNextFreeEntry (tbl ! j) = (if j = LAST_BLK then None else Some (Suc j))"
    if "j < CTRL_BLK_ENTRIES_NUM" for j
    using nth [OF that] by (auto simp: txCtrlBlk_InitEntry_def Let_def)
  have "chain tbl 0 [Suc 0..<Suc LAST_BLK]"
    by (rule chain_upt) (auto simp: next_j LAST_BLK_def CTRL_BLK_ENTRIES_NUM_def)
  moreover have "Suc 0 \<le> LAST_BLK" by (simp add: LAST_BLK_def CTRL_BLK_ENTRIES_NUM_def)
  then have "[Suc 0..<Suc LAST_BLK] = [1..<LAST_BLK] @ [LAST_BLK]" by (simp add: upt_Suc_append)
  moreover have "\<forall>i < CTRL_BLK_ENTRIES_NUM. i \<notin> set (0 # [1..<LAST_BLK]) \<longrightarrow> pNextFreeEntry (tbl ! i) = None"
    using next_j by (auto simp: LAST_BLK_def)
  moreover have "\<forall>i < CTRL_BLK_ENTRIES_NUM. descID (tTxDescriptor (tbl ! i)) = of_nat i"
    using nth by (auto simp: txCtrlBlk_InitEntry_def Let_def)
  moreover have "length tbl = CTRL_BLK_ENTRIES_NUM" "uNumUsedEntries (snd (txCtrlBlk_Init s)) = 0"
    using assms by (simp_all add: tbl_def txCtrlBlk_Init_def Let_def)
  ultimately show ?thesis
    unfolding blk_inv_def tbl_def [symmetric]
    by (auto simp: LAST_BLK_def CTRL_BLK_ENTRIES_NUM_def)
qed

lemma blk_invD:
  assumes "blk_inv s fs"
  shows "length (aTxCtrlBlkTbl s) = CTRL_BLK_ENTRIES_NUM"
    "chain (aTxCtrlBlkTbl s) 0 (fs @ [LAST_BLK])" "distinct (0 # fs @ [LAST_BLK])"
    "set fs \<subseteq> {..<CTRL_BLK_ENTRIES_NUM}"
    "i < CTRL_BLK_ENTRIES_NUM \<Longrightarrow> i \<notin> set (0 # fs) \<Longrightarrow> pNextFreeEntry (aTxCtrlBlkTbl s ! i) = None"
    "unat (uNumUsedEntries s) + length fs = CTRL_BLK_ENTRIES_NUM - 2"
    "i < CTRL_BLK_ENTRIES_NUM \<Longrightarrow> descID (tTxDescriptor (aTxCtrlBlkTbl s ! i)) = of_nat i"
  using assms unfolding blk_inv_def by blast+

lemma blk_num_lt: "0 < CTRL_BLK_ENTRIES_NUM" "LAST_BLK < CTRL_BLK_ENTRIES_NUM"
  by (simp_all add: CTRL_BLK_ENTRIES_NUM_def LAST_BLK_def)

lemma txCtrlBlk_Alloc_empty:
  assumes "blk_inv s []"
  shows "txCtrlBlk_Alloc s = Inr (None, s)"
proof -
  have "pNextFreeEntry (aTxCtrlBlkTbl s ! 0) = Some LAST_BLK"
      "pNextFreeEntry (aTxCtrlBlkTbl s ! LAST_BLK) = None"
    using blk_invD(2) [OF assms] by auto
  then show ?thesis by (simp add: txCtrlBlk_Alloc_def Let_def)
qed

lemma txCtrlBlk_Alloc_free:
  assumes "blk_inv s (f # fs)"
  obtains s' where "txCtrlBlk_Alloc s = Inr (Some f, s')" "blk_inv s' fs" "f \<noteq> 0" "f \<noteq> LAST_BLK"
proof -
  note D = blk_invD [OF assms]
  define tbl where "tbl = aTxCtrlBlkTbl s"
  obtain n where n: "pNextFreeEntry (tbl ! f) = Some n" and c: "chain tbl f (fs @ [LAST_BLK])"
      and z: "pNextFreeEntry (tbl ! 0) = Some f"
    using D(2) by (cases fs) (auto simp: tbl_def)
  define b where "b = (tbl ! f)\<lparr>pNextFreeEntry := None,
      tTxPktParams := (tTxPktParams (tbl ! f))\<lparr>uFlags := 0, uHeadroomSize := 0\<rparr>\<rparr>"
  define s' where "s' = s\<lparr>uNumUsedEntries := uNumUsedEntries s + 1,
      aTxCtrlBlkTbl := (tbl[0 := (tbl ! 0)\<lparr>pNextFreeEntry := Some n\<rparr>])[f := b]\<rparr>"
  have f: "f \<noteq> 0" "f \<noteq> LAST_BLK" "f < CTRL_BLK_ENTRIES_NUM" using D(3,4) by auto
  have run: "txCtrlBlk_Alloc s = Inr (Some f, s')"
    using f by (simp add: txCtrlBlk_Alloc_def Let_def z n tbl_def [symmetric] b_def s'_def)
  have len: "length tbl = CTRL_BLK_ENTRIES_NUM" using D(1) by (simp add: tbl_def)
  have nth: "aTxCtrlBlkTbl s' ! j = (if j = f then b else if j = 0 then (tbl ! 0)\<lparr>pNextFreeEntry := Some n\<rparr>
      else tbl ! j)" if "j < CTRL_BLK_ENTRIES_NUM" for j
    using f that len by (simp add: s'_def nth_list_update)
  have "chain (aTxCtrlBlkTbl s') 0 (fs @ [LAST_BLK])"
  proof -
    obtain g gs where g: "fs @ [LAST_BLK] = g # gs" by (cases fs) auto
    then have "g = n" "chain tbl g gs" using c n by auto
    moreover have "chain (aTxCtrlBlkTbl s') g gs"
    proof (rule chain_agree [OF \<open>chain tbl g gs\<close>], rule ballI)
      fix j
      assume "j \<in> set (g # gs)"
      then have "j \<in> set (fs @ [LAST_BLK])" using g by simp
      then have "j \<noteq> f" "j \<noteq> 0" "j < CTRL_BLK_ENTRIES_NUM"
        using D(3,4) blk_num_lt by (auto intro!: gr0I)
      then show "pNextFreeEntry (aTxCtrlBlkTbl s' ! j) = pNextFreeEntry (tbl ! j)" by (simp add: nth)
    qed
    ultimately show ?thesis using g nth [OF blk_num_lt(1)] f by simp
  qed
  moreover have "\<forall>i < CTRL_BLK_ENTRIES_NUM. i \<notin> set (0 # fs) \<longrightarrow>
      pNextFreeEntry (aTxCtrlBlkTbl s' ! i) = None"
    using nth D(5) by (auto simp: b_def tbl_def)
  moreover have "\<forall>i < CTRL_BLK_ENTRIES_NUM. descID (tTxDescriptor (aTxCtrlBlkTbl s' ! i)) = of_nat i"
    using nth D(7) f(3) by (auto simp: b_def tbl_def)
  moreover have "unat (uNumUsedEntries s') + length fs = CTRL_BLK_ENTRIES_NUM - 2"
    using D(6) unat_plus_one [of "uNumUsedEntries s" "of_nat CTRL_BLK_ENTRIES_NUM"]
    by (simp add: s'_def CTRL_BLK_ENTRIES_NUM_def)
  ultimately have "blk_inv s' fs"
    using D(3,4) len by (auto simp: blk_inv_def s'_def)
  with run f that show ?thesis by blast
qed

lemma txCtrlBlk_Free_allocated:
  assumes "blk_inv s fs" "i < CTRL_BLK_ENTRIES_NUM" "i \<notin> set (0 # fs @ [LAST_BLK])"
  shows "blk_inv (txCtrlBlk_Free s i) (i # fs)"
proof -
  note D = blk_invD [OF assms(1)]
  define tbl where "tbl = aTxCtrlBlkTbl s"
  obtain n where z: "pNextFreeEntry (tbl ! 0) = Some n" and c: "chain tbl 0 (fs @ [LAST_BLK])"
    using D(2) by (cases fs) (auto simp: tbl_def)
  have i: "pNextFreeEntry (tbl ! i) = None" "i \<noteq> 0"
    using D(5) [OF assms(2)] assms(3) by (auto simp: tbl_def)
  define s' where "s' = txCtrlBlk_Free s i"
  have s': "s' = s\<lparr>uNumUsedEntries := uNumUsedEntries s - 1,
      aTxCtrlBlkTbl := (tbl[i := (tbl ! i)\<lparr>pNextFreeEntry := Some n\<rparr>])
        [0 := (tbl ! 0)\<lparr>pNextFreeEntry := Some i\<rparr>]\<rparr>"
    using i z by (simp add: s'_def txCtrlBlk_Free_def Let_def tbl_def [symmetric])
  have len: "length tbl = CTRL_BLK_ENTRIES_NUM" using D(1) by (simp add: tbl_def)
  have nth: "aTxCtrlBlkTbl s' ! j = (if j = 0 then (tbl ! 0)\<lparr>pNextFreeEntry := Some i\<rparr>
      else if j = i then (tbl ! i)\<lparr>pNextFreeEntry := Some n\<rparr> else tbl ! j)"
    if "j < CTRL_BLK_ENTRIES_NUM" for j
    using i that len by (simp add: s' nth_list_update)
  have "chain (aTxCtrlBlkTbl s') 0 (i # fs @ [LAST_BLK])"
  proof -
    obtain g gs where g: "fs @ [LAST_BLK] = g # gs" by (cases fs) auto
    then have gn: "g = n" "chain tbl g gs" using c z by auto
    have "chain (aTxCtrlBlkTbl s') g gs"
    proof (rule chain_agree [OF gn(2)], rule ballI)
      fix j
      assume "j \<in> set (g # gs)"
      then have "j \<in> set (fs @ [LAST_BLK])" using g by simp
      then have "j \<noteq> i" "j \<noteq> 0" "j < CTRL_BLK_ENTRIES_NUM"
        using D(3,4) assms(3) blk_num_lt by (auto intro!: gr0I)
      then show "pNextFreeEntry (aTxCtrlBlkTbl s' ! j) = pNextFreeEntry (tbl ! j)" by (simp add: nth)
    qed
    then show ?thesis using g gn nth [OF assms(2)] nth [OF blk_num_lt(1)] i by simp
  qed
  moreover have "\<forall>j < CTRL_BLK_ENTRIES_NUM. j \<notin> set (0 # i # fs) \<longrightarrow>
      pNextFreeEntry (aTxCtrlBlkTbl s' ! j) = None"
    using nth D(5) by (auto simp: tbl_def)
  moreover have "\<forall>j < CTRL_BLK_ENTRIES_NUM. descID (tTxDescriptor (aTxCtrlBlkTbl s' ! j)) = of_nat j"
    using nth D(7) by (auto simp: tbl_def)
  moreover have "unat (uNumUsedEntries s') + length (i # fs) = CTRL_BLK_ENTRIES_NUM - 2"
  proof -
    have "set (0 # i # fs @ [LAST_BLK]) \<subseteq> {..<CTRL_BLK_ENTRIES_NUM}"
      using D(4) assms(2) blk_num_lt by auto
    moreover have "distinct (0 # i # fs @ [LAST_BLK])" using D(3) assms(3) by auto
    ultimately have "length (0 # i # fs @ [LAST_BLK]) \<le> CTRL_BLK_ENTRIES_NUM"
      by (metis card_mono distinct_card card_lessThan finite_lessThan)
    then have "uNumUsedEntries s \<noteq> 0" using D(6) by (auto simp: CTRL_BLK_ENTRIES_NUM_def)
    moreover have "0 < unat (uNumUsedEntries s)" using calculation by (simp add: unat_gt_0)
    ultimately show ?thesis using D(6) by (simp add: s' unat_minus_one_pos)
  qed
  ultimately have "blk_inv s' (i # fs)"
    using D(3,4) len assms(2,3) by (auto simp: blk_inv_def s')
  then show ?thesis by (simp add: s'_def)
qed

lemma txCtrlBlk_Free_double:
  assumes "blk_inv s fs" "i \<in> set fs"
  shows "txCtrlBlk_Free s i = s"
proof -
  have "pNextFreeEntry (aTxCtrlBlkTbl s ! i) \<noteq> None"
    using chain_next [OF blk_invD(2) [OF assms(1)]] assms(2) by simp
  then show ?thesis by (simp add: txCtrlBlk_Free_def)
qed

section \<open>Properties\<close>

text \<open>A pool of entries, as the senders use it: every operation keeps the free list.\<close>

text \<open>C34: Allocation and release refine a last-in-first-out pool: an allocation hands out the most
  recently freed entry, never entry 0, the last entry or one in use, and fails exactly when the pool is
  empty; a release of an allocated entry puts it at the head and a second release of a pooled entry is
  detected; the free list, the NULL marks of the allocated entries and the usage count stay consistent.\<close>

theorem txCtrlBlk_refines_pool:
  assumes "blk_inv s fs"
  shows "(case txCtrlBlk_Alloc s of
            Inl f \<Rightarrow> False
          | Inr (r, s') \<Rightarrow> r = fst (pool_Alloc fs) \<and> blk_inv s' (snd (pool_Alloc fs)) \<and>
              (\<forall>i. r = Some i \<longrightarrow> 0 < i \<and> i < LAST_BLK)) \<and>
         (\<forall>i \<in> {1..<LAST_BLK}. blk_inv (txCtrlBlk_Free s i) (pool_Free i fs))"
proof (rule conjI)
  show "case txCtrlBlk_Alloc s of
            Inl f \<Rightarrow> False
          | Inr (r, s') \<Rightarrow> r = fst (pool_Alloc fs) \<and> blk_inv s' (snd (pool_Alloc fs)) \<and>
              (\<forall>i. r = Some i \<longrightarrow> 0 < i \<and> i < LAST_BLK)"
  proof (cases fs)
    case Nil
    then show ?thesis using assms txCtrlBlk_Alloc_empty [of s] by (simp add: pool_Alloc_def)
  next
    case (Cons f gs)
    then have f: "f < CTRL_BLK_ENTRIES_NUM" using blk_invD(4) [OF assms] by simp
    from assms Cons obtain s' where "txCtrlBlk_Alloc s = Inr (Some f, s')" "blk_inv s' gs"
        "f \<noteq> 0" "f \<noteq> LAST_BLK"
      using txCtrlBlk_Alloc_free by blast
    then show ?thesis using f Cons by (simp add: pool_Alloc_def LAST_BLK_def)
  qed
next
  show "\<forall>i \<in> {1..<LAST_BLK}. blk_inv (txCtrlBlk_Free s i) (pool_Free i fs)"
    using assms txCtrlBlk_Free_allocated [OF assms] txCtrlBlk_Free_double [OF assms]
    by (auto simp: pool_Free_def LAST_BLK_def)
qed

theorem txCtrlBlk_refines_pool_witness:
  "case txCtrlBlk_Alloc (snd (txCtrlBlk_Init (the (txCtrlBlk_Create True)))) of
     Inl f \<Rightarrow> False
   | Inr (r, s') \<Rightarrow> blk_inv s' (snd (pool_Alloc [1..<LAST_BLK])) \<and> (\<forall>i. r = Some i \<longrightarrow> 0 < i)"
proof -
  have "blk_inv (snd (txCtrlBlk_Init (the (txCtrlBlk_Create True)))) [1..<LAST_BLK]"
    by (rule blk_inv_Init) (simp add: txCtrlBlk_Create_def)
  from txCtrlBlk_refines_pool [OF this] show ?thesis by (auto split: sum.splits)
qed

text \<open>The entries a burst of \<open>n\<close> allocations hands out; \<^term>\<open>None\<close> for a fault.\<close>

fun txCtrlBlk_Allocs :: "nat \<Rightarrow> TTxCtrlBlkObj \<Rightarrow> nat option list option" where
  "txCtrlBlk_Allocs 0 s = Some []"
| "txCtrlBlk_Allocs (Suc n) s =
     (case txCtrlBlk_Alloc s of
        Inl f \<Rightarrow> None
      | Inr (r, s') \<Rightarrow> map_option (Cons r) (txCtrlBlk_Allocs n s'))"

lemma txCtrlBlk_Allocs_pool:
  "blk_inv s fs \<Longrightarrow> txCtrlBlk_Allocs (length fs + k) s = Some (map Some fs @ replicate k None)"
proof (induction fs arbitrary: s)
  case Nil
  then show ?case by (induction k) (simp_all add: txCtrlBlk_Alloc_empty)
next
  case (Cons f fs)
  then obtain s' where "txCtrlBlk_Alloc s = Inr (Some f, s')" "blk_inv s' fs"
    using txCtrlBlk_Alloc_free by blast
  then show ?case using Cons.IH [of s'] by simp
qed

text \<open>The capacity of the initialised table is 158 packets: a burst of allocations hands out the
  entries 1 to 158, each once and in this order, every further one fails, and none faults. Entry 159
  is free and is never handed out.\<close>

theorem txCtrlBlk_capacity:
  "txCtrlBlk_Allocs (158 + k) (snd (txCtrlBlk_Init (the (txCtrlBlk_Create True)))) =
   Some (map Some [1..<159] @ replicate k None)"
proof -
  have "blk_inv (snd (txCtrlBlk_Init (the (txCtrlBlk_Create True)))) [1..<LAST_BLK]"
    by (rule blk_inv_Init) (simp add: txCtrlBlk_Create_def)
  from txCtrlBlk_Allocs_pool [OF this, of k] show ?thesis
    by (simp add: LAST_BLK_def CTRL_BLK_ENTRIES_NUM_def)
qed

end
