(* ===== verification/TxHwQueue.thy ===== *)
theory TxHwQueue
  imports TxCtrlBlk
begin

text \<open>
  \<open>TWD/Data_Service/txHwQueue.c\<close>: the accounting of the firmware's Tx memory blocks and
  descriptors. Each access category has a low threshold of blocks reserved for it; a packet is sent
  only if enough blocks are free that no other queue has reserved. All counters are 32-bit (the two
  packet counters 8-bit) and wrap as in the code.
\<close>

section \<open>Types\<close>

datatype EAcTrfcType = QOS_AC_BE | QOS_AC_BK | QOS_AC_VI | QOS_AC_VO

definition MAX_NUM_OF_AC :: nat where "MAX_NUM_OF_AC = 4"
definition MAX_NUM_OF_802_1d_TAGS :: nat where "MAX_NUM_OF_802_1d_TAGS = 8"
definition NUM_TX_DESCRIPTORS :: u32 where "NUM_TX_DESCRIPTORS = 32"
definition BLKS_HW_ALLOC_SPARE :: u32 where "BLKS_HW_ALLOC_SPARE = 2"

fun ac_index :: "EAcTrfcType \<Rightarrow> nat" where
  "ac_index QOS_AC_BE = 0" | "ac_index QOS_AC_BK = 1" | "ac_index QOS_AC_VI = 2" | "ac_index QOS_AC_VO = 3"

definition WMEQosTagToACTable :: "EAcTrfcType list" where
  "WMEQosTagToACTable =
     [QOS_AC_BE, QOS_AC_BK, QOS_AC_BK, QOS_AC_BE, QOS_AC_VI, QOS_AC_VI, QOS_AC_VO, QOS_AC_VO]"

datatype ETxHwQueStatus =
    TX_HW_QUE_STATUS_SUCCESS | TX_HW_QUE_STATUS_STOP_CURRENT | TX_HW_QUE_STATUS_STOP_NEXT

record TTxHwQueueInfo =
  uNumBlksThresh :: u32
  uNumBlksUsed :: u32
  uNumBlksReserved :: u32
  uAllocatedBlksCntr :: u32
  uFwFreedBlksCntr :: u32
  uNumBlksCausedBusy :: u32
  bQueueBusy :: bool
  uPercentOfBlkLowThresh :: u16
  uPercentOfBlkHighThresh :: u16

record TTxHwQueue =
  fUpdateBusyMapCb :: addr
  hUpdateBusyMapHndl :: addr
  uNumTotalBlks :: u32
  uNumTotalBlksFree :: u32
  uNumTotalBlksReserved :: u32
  uNumUsedDescriptors :: u32
  uFwTxResultsCntr :: u8
  uDrvTxPacketsCntr :: u8
  aTxHwQueueInfo :: "TTxHwQueueInfo list"

text \<open>The fields of \<open>FwStatus_t\<close> read here; \<open>TDmaParams.NumTxBlocks\<close> and the thresholds of
  \<open>TTwdInitParams\<close> are passed as values.\<close>

record FwStatus_t =
  fw_counters :: u32
  txReleasedBlks :: "u32 list"

section \<open>Operations\<close>

definition txHwQueue_Create :: "bool \<Rightarrow> TTxHwQueue option" where
  "txHwQueue_Create bAlloc =
     (if bAlloc
      then Some \<lparr>fUpdateBusyMapCb = 0, hUpdateBusyMapHndl = 0, uNumTotalBlks = 0, uNumTotalBlksFree = 0,
        uNumTotalBlksReserved = 0, uNumUsedDescriptors = 0, uFwTxResultsCntr = 0, uDrvTxPacketsCntr = 0,
        aTxHwQueueInfo = replicate MAX_NUM_OF_AC
          \<lparr>uNumBlksThresh = 0, uNumBlksUsed = 0, uNumBlksReserved = 0, uAllocatedBlksCntr = 0,
           uFwFreedBlksCntr = 0, uNumBlksCausedBusy = 0, bQueueBusy = False,
           uPercentOfBlkLowThresh = 0, uPercentOfBlkHighThresh = 0\<rparr>\<rparr>
      else None)"

definition txHwQueue_Config :: "TTxHwQueue \<Rightarrow> u8 list \<Rightarrow> TTxHwQueue" where
  "txHwQueue_Config p TxBlocksThresholdPerAc =
     p\<lparr>aTxHwQueueInfo :=
         fold (\<lambda>q infos. infos[q := (infos ! q)\<lparr>uNumBlksThresh := ucast (TxBlocksThresholdPerAc ! q)\<rparr>])
           [0..<MAX_NUM_OF_AC] (aTxHwQueueInfo p)\<rparr>"

definition txHwQueue_RestartQueue :: "nat \<Rightarrow> TTxHwQueue \<Rightarrow> TTxHwQueue" where
  "txHwQueue_RestartQueue q p =
     (let info = (aTxHwQueueInfo p ! q)\<lparr>uNumBlksUsed := 0, uAllocatedBlksCntr := 0,
            uFwFreedBlksCntr := 0, uNumBlksCausedBusy := 0, bQueueBusy := False\<rparr>;
          info = info\<lparr>uNumBlksReserved := uNumBlksThresh info\<rparr>
      in p\<lparr>aTxHwQueueInfo := (aTxHwQueueInfo p)[q := info],
           uNumTotalBlksReserved := uNumTotalBlksReserved p + uNumBlksReserved info\<rparr>)"

definition txHwQueue_Restart :: "TTxHwQueue \<Rightarrow> TTxHwQueue" where
  "txHwQueue_Restart p =
     fold txHwQueue_RestartQueue [0..<MAX_NUM_OF_AC]
       (p\<lparr>uNumTotalBlksFree := uNumTotalBlks p, uNumTotalBlksReserved := 0,
          uNumUsedDescriptors := 0, uFwTxResultsCntr := 0, uDrvTxPacketsCntr := 0\<rparr>)"

definition txHwQueue_SetHwInfo :: "TTxHwQueue \<Rightarrow> u32 \<Rightarrow> TTxHwQueue" where
  "txHwQueue_SetHwInfo p NumTxBlocks =
     txHwQueue_Restart (p\<lparr>uNumTotalBlks := NumTxBlocks - 1\<rparr>)"

definition txHwQueue_CheckResources :: "TTxHwQueue \<Rightarrow> TTxHwQueueInfo \<Rightarrow> u32" where
  "txHwQueue_CheckResources p info =
     (if uNumUsedDescriptors p < NUM_TX_DESCRIPTORS
      then uNumTotalBlksFree p - (uNumTotalBlksReserved p - uNumBlksReserved info)
      else 0)"

text \<open>The block estimate at the head of \<open>txHwQueue_AllocResources\<close>.\<close>

definition txHwQueue_NumBlks :: "u16 \<Rightarrow> u32" where
  "txHwQueue_NumBlks len =
     (let uNumBlksToAlloc = drop_bit 8 (ucast len + 20 :: u32);
          uExcludedLength = push_bit 2 uNumBlksToAlloc + ((ucast len + 20) AND 0xFF) + MAX_HEADER_SIZE - 14;
          uNumBlksToAlloc = uNumBlksToAlloc + (if uExcludedLength > 252 then 2 else 1)
      in uNumBlksToAlloc + BLKS_HW_ALLOC_SPARE)"

text \<open>The update of a queue and of the totals once the packet is accepted.\<close>

definition txHwQueue_TakeBlks :: "TTxHwQueue \<Rightarrow> nat \<Rightarrow> u32 \<Rightarrow> TTxHwQueue" where
  "txHwQueue_TakeBlks p q n =
     (let p = p\<lparr>uNumUsedDescriptors := uNumUsedDescriptors p + 1,
                uDrvTxPacketsCntr := uDrvTxPacketsCntr p + 1\<rparr>;
          info = aTxHwQueueInfo p ! q;
          info = info\<lparr>uAllocatedBlksCntr := uAllocatedBlksCntr info + n\<rparr>;
          uReservedBlks = uNumBlksReserved info;
          (info, p) =
            (if uReservedBlks \<noteq> 0 then
               (if n > uReservedBlks then
                  (info\<lparr>uNumBlksReserved := 0\<rparr>,
                   p\<lparr>uNumTotalBlksReserved := uNumTotalBlksReserved p - uReservedBlks\<rparr>)
                else
                  (info\<lparr>uNumBlksReserved := uNumBlksReserved info - n\<rparr>,
                   p\<lparr>uNumTotalBlksReserved := uNumTotalBlksReserved p - n\<rparr>))
             else (info, p));
          p = p\<lparr>uNumTotalBlksFree := uNumTotalBlksFree p - n\<rparr>;
          info = info\<lparr>uNumBlksUsed := uNumBlksUsed info + n\<rparr>
      in p\<lparr>aTxHwQueueInfo := (aTxHwQueueInfo p)[q := info]\<rparr>)"

definition txHwQueue_SetBusy :: "TTxHwQueue \<Rightarrow> nat \<Rightarrow> u32 \<Rightarrow> TTxHwQueue" where
  "txHwQueue_SetBusy p q n =
     p\<lparr>aTxHwQueueInfo := (aTxHwQueueInfo p)
        [q := (aTxHwQueueInfo p ! q)\<lparr>uNumBlksCausedBusy := n, bQueueBusy := True\<rparr>]\<rparr>"

definition txHwQueue_AllocResources ::
  "TTxHwQueue \<Rightarrow> TTxCtrlBlk \<Rightarrow> fault + (ETxHwQueStatus \<times> TTxHwQueue \<times> TTxCtrlBlk)" where
  "txHwQueue_AllocResources p b =
     (if unat (tid (tTxDescriptor b)) \<ge> MAX_NUM_OF_802_1d_TAGS then Inl OutOfBounds
      else
        (let q = ac_index (WMEQosTagToACTable ! unat (tid (tTxDescriptor b)));
             n = txHwQueue_NumBlks (td_length (tTxDescriptor b));
             uAvailableBlks = txHwQueue_CheckResources p (aTxHwQueueInfo p ! q)
         in if n > uAvailableBlks
            then Inr (TX_HW_QUE_STATUS_STOP_CURRENT, txHwQueue_SetBusy p q n, b)
            else
              (let b = b\<lparr>tTxDescriptor := (tTxDescriptor b)\<lparr>extraMemBlks := ucast BLKS_HW_ALLOC_SPARE,
                           totalMemBlks := ucast n\<rparr>\<rparr>;
                   p = txHwQueue_TakeBlks p q n
               in if push_bit 1 n > uAvailableBlks
                  then Inr (TX_HW_QUE_STATUS_STOP_NEXT, txHwQueue_SetBusy p q n, b)
                  else Inr (TX_HW_QUE_STATUS_SUCCESS, p, b))))"

definition txHwQueue_UpdateFreeBlocks :: "TTxHwQueue \<Rightarrow> nat \<Rightarrow> u32 \<Rightarrow> TTxHwQueue" where
  "txHwQueue_UpdateFreeBlocks p q uFreeBlocks =
     (let info = aTxHwQueueInfo p ! q in
      if uFreeBlocks = uFwFreedBlksCntr info then p
      else
        (let info = info\<lparr>uFwFreedBlksCntr := uFreeBlocks\<rparr>;
             newUsedBlks = uAllocatedBlksCntr info - uFreeBlocks;
             numBlksToFree = uNumBlksUsed info - newUsedBlks;
             p = p\<lparr>uNumTotalBlksFree := uNumTotalBlksFree p + numBlksToFree\<rparr>;
             info = info\<lparr>uNumBlksUsed := newUsedBlks\<rparr>;
             lowThreshold = uNumBlksThresh info;
             (info, p) =
               (if newUsedBlks < lowThreshold then
                  (let newReserved = lowThreshold - newUsedBlks in
                   (info\<lparr>uNumBlksReserved := newReserved\<rparr>,
                    if numBlksToFree > newReserved
                    then p\<lparr>uNumTotalBlksReserved := uNumTotalBlksReserved p + newReserved\<rparr>
                    else p\<lparr>uNumTotalBlksReserved := uNumTotalBlksReserved p + numBlksToFree\<rparr>))
                else (info, p))
         in p\<lparr>aTxHwQueueInfo := (aTxHwQueueInfo p)[q := info]\<rparr>))"

text \<open>The descriptor part of \<open>txHwQueue_UpdateFreeResources\<close>; \<open>txResultsCntr\<close> is the
  last byte of the counters word.\<close>

definition txHwQueue_UpdateDescriptors :: "TTxHwQueue \<Rightarrow> u32 \<Rightarrow> TTxHwQueue" where
  "txHwQueue_UpdateDescriptors p counters =
     (let txResultsCntr = (ucast (drop_bit 24 counters) :: u8) in
      if txResultsCntr \<noteq> uFwTxResultsCntr p then
        (let p = p\<lparr>uFwTxResultsCntr := txResultsCntr\<rparr>;
             n = (if uFwTxResultsCntr p \<le> uDrvTxPacketsCntr p
                  then ucast (uDrvTxPacketsCntr p) - ucast (uFwTxResultsCntr p)
                  else 0x100 - (ucast (uFwTxResultsCntr p) - ucast (uDrvTxPacketsCntr p)) :: u32)
         in p\<lparr>uNumUsedDescriptors := n\<rparr>)
      else p)"

definition txHwQueue_WakeQueue :: "nat \<Rightarrow> TTxHwQueue \<times> u32 \<Rightarrow> TTxHwQueue \<times> u32" where
  "txHwQueue_WakeQueue q s =
     (let (p, uBackpressure) = s; info = aTxHwQueueInfo p ! q in
      if bQueueBusy info then
        (let uAvailableBlks = txHwQueue_CheckResources p info in
         if uNumBlksCausedBusy info \<le> uAvailableBlks
         then (p\<lparr>aTxHwQueueInfo := (aTxHwQueueInfo p)[q := info\<lparr>bQueueBusy := False\<rparr>]\<rparr>,
               uBackpressure OR push_bit q 1)
         else (p, uBackpressure))
      else (p, uBackpressure))"

text \<open>Returns the object, the status and the call of \<open>fUpdateBusyMapCb\<close> with its map, if any.\<close>

definition txHwQueue_UpdateFreeResources ::
  "TTxHwQueue \<Rightarrow> FwStatus_t \<Rightarrow> ETxnStatus \<times> TTxHwQueue \<times> (addr \<times> addr \<times> u32) option" where
  "txHwQueue_UpdateFreeResources p st =
     (let p = txHwQueue_UpdateDescriptors p (fw_counters st);
          p = fold (\<lambda>q p. txHwQueue_UpdateFreeBlocks p q (txReleasedBlks st ! q)) [0..<MAX_NUM_OF_AC] p;
          (p, uBackpressure) = fold txHwQueue_WakeQueue [0..<MAX_NUM_OF_AC] (p, 0)
      in (TXN_STATUS_COMPLETE, p,
          if uBackpressure > 0 \<and> fUpdateBusyMapCb p \<noteq> 0
          then Some (fUpdateBusyMapCb p, hUpdateBusyMapHndl p, uBackpressure) else None))"

definition TWD_INT_UPDATE_BUSY_MAP :: u32 where "TWD_INT_UPDATE_BUSY_MAP = 2"

definition txHwQueue_RegisterCb :: "TTxHwQueue \<Rightarrow> u32 \<Rightarrow> addr \<Rightarrow> addr \<Rightarrow> TTxHwQueue" where
  "txHwQueue_RegisterCb p uCallBackId fCbFunc hCbHndl =
     (if uCallBackId = TWD_INT_UPDATE_BUSY_MAP
      then p\<lparr>fUpdateBusyMapCb := fCbFunc, hUpdateBusyMapHndl := hCbHndl\<rparr> else p)"

section \<open>The accounting invariant\<close>

definition hwq_sum :: "(TTxHwQueueInfo \<Rightarrow> u32) \<Rightarrow> TTxHwQueue \<Rightarrow> nat" where
  "hwq_sum f p = sum_list (map (\<lambda>info. unat (f info)) (aTxHwQueueInfo p))"

text \<open>What holds of one queue: it reserves what it is short of its threshold, and its used blocks are
  the difference of the two accumulating counters.\<close>

definition hwq_info_inv :: "TTxHwQueueInfo \<Rightarrow> bool" where
  "hwq_info_inv info \<longleftrightarrow>
     unat (uNumBlksReserved info) = unat (uNumBlksThresh info) - unat (uNumBlksUsed info) \<and>
     uNumBlksUsed info = uAllocatedBlksCntr info - uFwFreedBlksCntr info"

definition hwq_inv :: "TTxHwQueue \<Rightarrow> bool" where
  "hwq_inv p \<longleftrightarrow>
     length (aTxHwQueueInfo p) = MAX_NUM_OF_AC \<and>
     hwq_sum uNumBlksUsed p + unat (uNumTotalBlksFree p) = unat (uNumTotalBlks p) \<and>
     hwq_sum uNumBlksReserved p = unat (uNumTotalBlksReserved p) \<and>
     unat (uNumTotalBlksReserved p) \<le> unat (uNumTotalBlksFree p) \<and>
     (\<forall>info \<in> set (aTxHwQueueInfo p). hwq_info_inv info) \<and>
     unat (uNumUsedDescriptors p) = unat (uDrvTxPacketsCntr p - uFwTxResultsCntr p) \<and>
     uNumUsedDescriptors p \<le> NUM_TX_DESCRIPTORS"

lemma hwq_invD:
  assumes "hwq_inv p"
  shows "length (aTxHwQueueInfo p) = MAX_NUM_OF_AC"
    "hwq_sum uNumBlksUsed p + unat (uNumTotalBlksFree p) = unat (uNumTotalBlks p)"
    "hwq_sum uNumBlksReserved p = unat (uNumTotalBlksReserved p)"
    "unat (uNumTotalBlksReserved p) \<le> unat (uNumTotalBlksFree p)"
    "q < MAX_NUM_OF_AC \<Longrightarrow> hwq_info_inv (aTxHwQueueInfo p ! q)"
    "unat (uNumUsedDescriptors p) = unat (uDrvTxPacketsCntr p - uFwTxResultsCntr p)"
    "uNumUsedDescriptors p \<le> NUM_TX_DESCRIPTORS"
  using assms unfolding hwq_inv_def by auto

lemma hwq_sum_update:
  assumes "q < length (aTxHwQueueInfo p)"
  shows "hwq_sum f (p\<lparr>aTxHwQueueInfo := (aTxHwQueueInfo p)[q := info]\<rparr>) + unat (f (aTxHwQueueInfo p ! q)) =
    hwq_sum f p + unat (f info)"
  using sum_map_update [OF assms, of "\<lambda>info. unat (f info)" info] by (simp add: hwq_sum_def)

lemma hwq_sum_elem:
  "q < length (aTxHwQueueInfo p) \<Longrightarrow> unat (f (aTxHwQueueInfo p ! q)) \<le> hwq_sum f p"
  unfolding hwq_sum_def by (rule elem_le_sum_map)

lemma hwq_sum_cong: "aTxHwQueueInfo p' = aTxHwQueueInfo p \<Longrightarrow> hwq_sum f p' = hwq_sum f p"
  by (simp add: hwq_sum_def)

text \<open>The blocks available to a queue: all free blocks but those the other queues reserve.\<close>

lemma hwq_available:
  assumes "hwq_inv p" "q < MAX_NUM_OF_AC" "uNumUsedDescriptors p < NUM_TX_DESCRIPTORS"
  shows "unat (txHwQueue_CheckResources p (aTxHwQueueInfo p ! q)) =
    unat (uNumTotalBlksFree p) -
      (unat (uNumTotalBlksReserved p) - unat (uNumBlksReserved (aTxHwQueueInfo p ! q)))"
proof -
  have "unat (uNumBlksReserved (aTxHwQueueInfo p ! q)) \<le> unat (uNumTotalBlksReserved p)"
    using hwq_sum_elem [of q p uNumBlksReserved] hwq_invD(1,3) [OF assms(1)] assms(2) by simp
  then show ?thesis
    using assms(3) hwq_invD(4) [OF assms(1)] by (simp add: txHwQueue_CheckResources_def unat_sub_le)
qed

lemma txHwQueue_TakeBlks_eq:
  "txHwQueue_TakeBlks p q n =
     (let info = aTxHwQueueInfo p ! q; m = min n (uNumBlksReserved info) in
      p\<lparr>uNumUsedDescriptors := uNumUsedDescriptors p + 1, uDrvTxPacketsCntr := uDrvTxPacketsCntr p + 1,
        uNumTotalBlksReserved := uNumTotalBlksReserved p - m,
        uNumTotalBlksFree := uNumTotalBlksFree p - n,
        aTxHwQueueInfo := (aTxHwQueueInfo p)[q := info\<lparr>uAllocatedBlksCntr := uAllocatedBlksCntr info + n,
          uNumBlksReserved := uNumBlksReserved info - m, uNumBlksUsed := uNumBlksUsed info + n\<rparr>]\<rparr>)"
  unfolding txHwQueue_TakeBlks_def
  by (cases "aTxHwQueueInfo p ! q"; cases p) (auto simp: Let_def min_def not_le)

lemma hwq_inv_TakeBlks:
  assumes "hwq_inv p" "q < MAX_NUM_OF_AC" "uNumUsedDescriptors p < NUM_TX_DESCRIPTORS"
    and "n \<le> txHwQueue_CheckResources p (aTxHwQueueInfo p ! q)"
  shows "hwq_inv (txHwQueue_TakeBlks p q n)"
proof -
  note D = hwq_invD [OF assms(1)]
  define info where "info = aTxHwQueueInfo p ! q"
  define m where "m = min n (uNumBlksReserved info)"
  define info' where "info' = info\<lparr>uAllocatedBlksCntr := uAllocatedBlksCntr info + n,
    uNumBlksReserved := uNumBlksReserved info - m, uNumBlksUsed := uNumBlksUsed info + n\<rparr>"
  define p1 where "p1 = p\<lparr>uNumUsedDescriptors := uNumUsedDescriptors p + 1,
    uDrvTxPacketsCntr := uDrvTxPacketsCntr p + 1, uNumTotalBlksReserved := uNumTotalBlksReserved p - m,
    uNumTotalBlksFree := uNumTotalBlksFree p - n\<rparr>"
  have p': "txHwQueue_TakeBlks p q n = p1\<lparr>aTxHwQueueInfo := (aTxHwQueueInfo p1)[q := info']\<rparr>" (is "_ = ?p'")
    by (simp add: txHwQueue_TakeBlks_eq Let_def p1_def info'_def m_def info_def)
  have q: "q < length (aTxHwQueueInfo p1)" using D(1) assms(2) by (simp add: p1_def)
  have info: "aTxHwQueueInfo p1 ! q = info" by (simp add: p1_def info_def)
  have I: "hwq_info_inv info" using D(5) assms(2) by (simp add: info_def)
  have eqs: "hwq_sum f p1 = hwq_sum f p" for f by (rule hwq_sum_cong) (simp add: p1_def)
  have le: "unat (uNumBlksReserved info) \<le> unat (uNumTotalBlksReserved p)"
      "unat (uNumBlksUsed info) \<le> hwq_sum uNumBlksUsed p"
    using hwq_sum_elem [OF q, of uNumBlksReserved] hwq_sum_elem [OF q, of uNumBlksUsed] D(3)
    by (simp_all add: info eqs)
  have n: "unat n \<le> unat (uNumTotalBlksFree p) - (unat (uNumTotalBlksReserved p) - unat (uNumBlksReserved info))"
    using assms(4) hwq_available [OF assms(1-3)] by (simp add: word_le_nat_alt info_def)
  have m: "unat m = min (unat n) (unat (uNumBlksReserved info))" by (simp add: m_def unat_min)
  have "unat (uNumBlksUsed info) + unat n < 2 ^ 32"
    using le(2) n D(2) unat_bound [of "uNumTotalBlks p"] by simp
  then have used: "unat (uNumBlksUsed info') = unat (uNumBlksUsed info) + unat n"
    by (simp add: info'_def unat_add_small)
  have res: "unat (uNumBlksReserved info') = unat (uNumBlksReserved info) - unat m"
    using m by (simp add: info'_def unat_sub_le)
  have tot: "unat (uNumTotalBlksReserved p1) = unat (uNumTotalBlksReserved p) - unat m"
      "unat (uNumTotalBlksFree p1) = unat (uNumTotalBlksFree p) - unat n"
    using m le n by (simp_all add: p1_def unat_sub_le)
  have "hwq_info_inv info'"
    using I used res m by (simp add: hwq_info_inv_def) (simp add: info'_def)
  then have infos: "\<forall>i \<in> set (aTxHwQueueInfo ?p'). hwq_info_inv i"
    using D(5) assms(1) by (auto simp: p1_def hwq_inv_def dest: set_update_subset_insert [THEN subsetD])
  have "unat (uNumUsedDescriptors p1) = Suc (unat (uNumUsedDescriptors p))"
    using assms(3) unat_plus_one [of "uNumUsedDescriptors p" NUM_TX_DESCRIPTORS]
    by (simp add: p1_def word_less_nat_alt)
  moreover have "unat (uDrvTxPacketsCntr p1 - uFwTxResultsCntr p1) =
      Suc (unat (uDrvTxPacketsCntr p - uFwTxResultsCntr p))"
  proof -
    have "unat (uDrvTxPacketsCntr p - uFwTxResultsCntr p) < unat (32 :: u8)"
      using D(6) assms(3) by (simp add: word_less_nat_alt NUM_TX_DESCRIPTORS_def)
    from unat_plus_one [OF this] show ?thesis by (simp add: p1_def algebra_simps)
  qed
  ultimately have desc: "unat (uNumUsedDescriptors ?p') = unat (uDrvTxPacketsCntr ?p' - uFwTxResultsCntr ?p')"
      "uNumUsedDescriptors ?p' \<le> NUM_TX_DESCRIPTORS"
    using D(6) assms(3) by (simp_all add: word_less_nat_alt word_le_nat_alt)
  have ml: "unat m \<le> unat (uNumBlksReserved info)" "unat m \<le> unat n"
      "unat m = unat n \<or> unat m = unat (uNumBlksReserved info)"
    using m by auto
  have s1: "hwq_sum uNumBlksUsed ?p' = hwq_sum uNumBlksUsed p + unat n"
    using hwq_sum_update [OF q, of uNumBlksUsed info'] used by (simp add: info eqs)
  have s2: "hwq_sum uNumBlksReserved ?p' = unat (uNumTotalBlksReserved p) - unat m"
    using hwq_sum_update [OF q, of uNumBlksReserved info'] res D(3) ml(1) le(1) by (simp add: info eqs)
  have "unat (uNumTotalBlksReserved p) - unat m \<le> unat (uNumTotalBlksFree p) - unat n"
    using ml n D(4) le(1) by arith
  moreover have "unat n \<le> unat (uNumTotalBlksFree p)" using n by simp
  ultimately show ?thesis
    unfolding p' hwq_inv_def s1 s2
    using D(1,2) tot infos desc by (simp add: p1_def)
qed



text \<open>A change of a queue's busy state leaves the accounting alone.\<close>

lemma hwq_inv_busy:
  assumes "hwq_inv p" "q < MAX_NUM_OF_AC"
    and "info = (aTxHwQueueInfo p ! q)\<lparr>uNumBlksCausedBusy := n, bQueueBusy := b\<rparr>"
  shows "hwq_inv (p\<lparr>aTxHwQueueInfo := (aTxHwQueueInfo p)[q := info]\<rparr>)" (is "hwq_inv ?p")
proof -
  note D = hwq_invD [OF assms(1)]
  have q: "q < length (aTxHwQueueInfo p)" using D(1) assms(2) by simp
  have "hwq_sum uNumBlksUsed ?p = hwq_sum uNumBlksUsed p"
      "hwq_sum uNumBlksReserved ?p = hwq_sum uNumBlksReserved p"
    using hwq_sum_update [OF q, of uNumBlksUsed info] hwq_sum_update [OF q, of uNumBlksReserved info]
    by (simp_all add: assms(3))
  moreover have "hwq_info_inv info"
    using D(5) [OF assms(2)] by (simp add: hwq_info_inv_def assms(3))
  then have "\<forall>i \<in> set (aTxHwQueueInfo ?p). hwq_info_inv i"
    using assms(1) by (auto simp: hwq_inv_def dest: set_update_subset_insert [THEN subsetD])
  ultimately show ?thesis using D by (simp add: hwq_inv_def)
qed

lemma hwq_inv_SetBusy: "hwq_inv p \<Longrightarrow> q < MAX_NUM_OF_AC \<Longrightarrow> hwq_inv (txHwQueue_SetBusy p q n)"
  unfolding txHwQueue_SetBusy_def by (rule hwq_inv_busy) auto

text \<open>The firmware reports blocks it has freed of those in use.\<close>

definition fw_frees :: "TTxHwQueueInfo \<Rightarrow> u32 \<Rightarrow> bool" where
  "fw_frees info uFreeBlocks \<longleftrightarrow> unat (uFreeBlocks - uFwFreedBlksCntr info) \<le> unat (uNumBlksUsed info)"

lemma txHwQueue_UpdateFreeBlocks_eq:
  assumes "hwq_info_inv (aTxHwQueueInfo p ! q)" "uFree \<noteq> uFwFreedBlksCntr (aTxHwQueueInfo p ! q)"
  shows "txHwQueue_UpdateFreeBlocks p q uFree =
     (let info = aTxHwQueueInfo p ! q; k = uFree - uFwFreedBlksCntr info; new = uNumBlksUsed info - k;
          res = uNumBlksThresh info - new in
      p\<lparr>uNumTotalBlksFree := uNumTotalBlksFree p + k,
        uNumTotalBlksReserved := uNumTotalBlksReserved p + (if new < uNumBlksThresh info then min k res else 0),
        aTxHwQueueInfo := (aTxHwQueueInfo p)[q := info\<lparr>uFwFreedBlksCntr := uFree, uNumBlksUsed := new,
          uNumBlksReserved := (if new < uNumBlksThresh info then res else uNumBlksReserved info)\<rparr>]\<rparr>)"
proof -
  obtain info where info: "aTxHwQueueInfo p ! q = info" by simp
  obtain k new where k: "uFree - uFwFreedBlksCntr info = k" and new: "uNumBlksUsed info - k = new" by simp
  have "uAllocatedBlksCntr info - uFree = new"
    using assms(1) new k by (auto simp: hwq_info_inv_def info)
  moreover have "uNumBlksUsed info - new = k" using new by auto
  ultimately show ?thesis
    using assms(2) unfolding txHwQueue_UpdateFreeBlocks_def
    by (cases "new < uNumBlksThresh info") (simp_all add: Let_def info k new min_def not_le)
qed

lemma hwq_inv_UpdateFreeBlocks:
  assumes "hwq_inv p" "q < MAX_NUM_OF_AC" "fw_frees (aTxHwQueueInfo p ! q) uFree"
  shows "hwq_inv (txHwQueue_UpdateFreeBlocks p q uFree)"
proof (cases "uFree = uFwFreedBlksCntr (aTxHwQueueInfo p ! q)")
  case True
  then show ?thesis using assms(1) by (simp add: txHwQueue_UpdateFreeBlocks_def)
next
  case False
  note D = hwq_invD [OF assms(1)]
  define info where "info = aTxHwQueueInfo p ! q"
  define k where "k = uFree - uFwFreedBlksCntr info"
  define new where "new = uNumBlksUsed info - k"
  define res where "res = (if new < uNumBlksThresh info then uNumBlksThresh info - new
    else uNumBlksReserved info)"
  define a where "a = (if new < uNumBlksThresh info then min k (uNumBlksThresh info - new) else 0)"
  define info' where "info' = info\<lparr>uFwFreedBlksCntr := uFree, uNumBlksUsed := new, uNumBlksReserved := res\<rparr>"
  define p1 where "p1 = p\<lparr>uNumTotalBlksFree := uNumTotalBlksFree p + k,
    uNumTotalBlksReserved := uNumTotalBlksReserved p + a\<rparr>"
  have I: "hwq_info_inv info" using D(5) assms(2) by (simp add: info_def)
  have p': "txHwQueue_UpdateFreeBlocks p q uFree = p1\<lparr>aTxHwQueueInfo := (aTxHwQueueInfo p1)[q := info']\<rparr>"
      (is "_ = ?p'")
    using txHwQueue_UpdateFreeBlocks_eq [OF I [unfolded info_def] False]
    by (simp add: Let_def p1_def info'_def res_def a_def new_def k_def info_def)
  have q: "q < length (aTxHwQueueInfo p1)" using D(1) assms(2) by (simp add: p1_def)
  have info: "aTxHwQueueInfo p1 ! q = info" by (simp add: p1_def info_def)
  have eqs: "hwq_sum f p1 = hwq_sum f p" for f by (rule hwq_sum_cong) (simp add: p1_def)
  have k: "unat k \<le> unat (uNumBlksUsed info)" using assms(3) by (simp add: fw_frees_def k_def info_def)
  then have new: "unat new = unat (uNumBlksUsed info) - unat k" by (simp add: new_def unat_sub_le)
  have le: "unat (uNumBlksReserved info) \<le> unat (uNumTotalBlksReserved p)"
      "unat (uNumBlksUsed info) \<le> hwq_sum uNumBlksUsed p"
    using hwq_sum_elem [OF q, of uNumBlksReserved] hwq_sum_elem [OF q, of uNumBlksUsed] D(3)
    by (simp_all add: info eqs)
  have r: "unat (uNumBlksReserved info) = unat (uNumBlksThresh info) - unat (uNumBlksUsed info)"
    using I by (simp add: hwq_info_inv_def)
  have res: "unat res = unat (uNumBlksThresh info) - unat new"
    using r new by (auto simp: res_def word_less_nat_alt unat_sub_le)
  have a: "unat a + unat (uNumBlksReserved info) = unat res" "unat a \<le> unat k"
    using r new k res by (auto simp: a_def res_def word_less_nat_alt unat_sub_le unat_min)
  have free: "unat (uNumTotalBlksFree p1) = unat (uNumTotalBlksFree p) + unat k"
    unfolding p1_def using k le(2) D(2) unat_bound [of "uNumTotalBlks p"] by (simp add: unat_add_small)
  have tres: "unat (uNumTotalBlksReserved p1) = unat (uNumTotalBlksReserved p) + unat a"
  proof -
    have "unat (uNumTotalBlksReserved p) + unat a \<le> unat (uNumTotalBlksFree p) + unat k"
      using D(4) a(2) by simp
    also have "\<dots> < 2 ^ 32" using unat_bound [of "uNumTotalBlksFree p1"] free by simp
    finally show ?thesis by (simp add: p1_def unat_add_small)
  qed
  have s1: "hwq_sum uNumBlksUsed ?p' = hwq_sum uNumBlksUsed p - unat k"
    using hwq_sum_update [OF q, of uNumBlksUsed info'] new k le(2) by (simp add: info eqs info'_def)
  have s2: "hwq_sum uNumBlksReserved ?p' = unat (uNumTotalBlksReserved p) + unat a"
    using hwq_sum_update [OF q, of uNumBlksReserved info'] a(1) D(3) by (simp add: info eqs info'_def)
  have "hwq_info_inv info'"
    using I res by (simp add: hwq_info_inv_def info'_def) (simp add: new_def k_def hwq_info_inv_def)
  then have infos: "\<forall>i \<in> set (aTxHwQueueInfo ?p'). hwq_info_inv i"
    using assms(1) by (auto simp: p1_def hwq_inv_def dest: set_update_subset_insert [THEN subsetD])
  show ?thesis
    unfolding p' hwq_inv_def s1 s2
    using D infos free tres a(2) k le(2) by (simp add: p1_def)
qed

text \<open>The firmware reports results of packets it was given.\<close>

definition fw_results :: "TTxHwQueue \<Rightarrow> u32 \<Rightarrow> bool" where
  "fw_results p counters \<longleftrightarrow>
     unat (ucast (drop_bit 24 counters) - uFwTxResultsCntr p) \<le> unat (uNumUsedDescriptors p)"

lemma unat_ucast_u8 [simp]: "unat (ucast (x :: u8) :: u32) = unat x"
  using unat_bound [of x] by (simp add: unsigned_ucast_eq take_bit_nat_eq_self)

lemma u8_difference:
  "(if c \<le> d then ucast d - ucast c else 0x100 - (ucast c - ucast d) :: u32) = ucast (d - c :: u8)"
proof -
  have "unat d < 256" "unat c < 256" using unat_bound [of d] unat_bound [of c] by simp_all
  then show ?thesis
    by (simp add: word_unat_eq_iff unat_sub_if' word_le_nat_alt) arith
qed

lemma txHwQueue_UpdateDescriptors_eq:
  "txHwQueue_UpdateDescriptors p counters =
     (let c = ucast (drop_bit 24 counters) in
      if c \<noteq> uFwTxResultsCntr p
      then p\<lparr>uFwTxResultsCntr := c, uNumUsedDescriptors := ucast (uDrvTxPacketsCntr p - c)\<rparr> else p)"
  by (simp add: txHwQueue_UpdateDescriptors_def Let_def u8_difference)

lemma hwq_inv_UpdateDescriptors:
  assumes "hwq_inv p" "fw_results p counters"
  shows "hwq_inv (txHwQueue_UpdateDescriptors p counters)"
proof -
  define c :: u8 where "c = ucast (drop_bit 24 counters)"
  have "unat (uDrvTxPacketsCntr p - c) =
      unat (uDrvTxPacketsCntr p - uFwTxResultsCntr p) - unat (c - uFwTxResultsCntr p)"
  proof -
    have "unat (c - uFwTxResultsCntr p) \<le> unat (uDrvTxPacketsCntr p - uFwTxResultsCntr p)"
      using assms hwq_invD(6) [OF assms(1)] by (simp add: fw_results_def c_def)
    from unat_sub_le [OF this] show ?thesis by simp
  qed
  moreover have "unat (uNumUsedDescriptors p) \<le> unat NUM_TX_DESCRIPTORS"
    using hwq_invD(7) [OF assms(1)] by (simp add: word_le_nat_alt)
  ultimately have "unat (uDrvTxPacketsCntr p - c) \<le> unat NUM_TX_DESCRIPTORS"
    using hwq_invD(6) [OF assms(1)] by simp
  then show ?thesis
    using assms(1)
    by (simp add: txHwQueue_UpdateDescriptors_eq Let_def c_def [symmetric] hwq_inv_def
        hwq_sum_def word_le_nat_alt)
qed

lemma UpdateFreeBlocks_other:
  assumes "q \<noteq> r"
  shows "aTxHwQueueInfo (txHwQueue_UpdateFreeBlocks p q u) ! r = aTxHwQueueInfo p ! r"
  using assms by (simp add: txHwQueue_UpdateFreeBlocks_def Let_def split: prod.splits)

lemma UpdateDescriptors_infos [simp]:
  "aTxHwQueueInfo (txHwQueue_UpdateDescriptors p c) = aTxHwQueueInfo p"
  by (simp add: txHwQueue_UpdateDescriptors_def Let_def)

lemma hwq_inv_fold_FreeBlocks:
  assumes "hwq_inv p" "distinct qs" "set qs \<subseteq> {..<MAX_NUM_OF_AC}"
    and "\<forall>q \<in> set qs. fw_frees (aTxHwQueueInfo p ! q) (blks ! q)"
  shows "hwq_inv (fold (\<lambda>q p. txHwQueue_UpdateFreeBlocks p q (blks ! q)) qs p)"
  using assms
proof (induction qs arbitrary: p)
  case (Cons q qs)
  have "hwq_inv (txHwQueue_UpdateFreeBlocks p q (blks ! q))"
    using Cons.prems by (intro hwq_inv_UpdateFreeBlocks) auto
  moreover have "\<forall>r \<in> set qs. fw_frees (aTxHwQueueInfo (txHwQueue_UpdateFreeBlocks p q (blks ! q)) ! r) (blks ! r)"
  proof
    fix r
    assume "r \<in> set qs"
    moreover from this have "q \<noteq> r" using Cons.prems(2) by auto
    ultimately show "fw_frees (aTxHwQueueInfo (txHwQueue_UpdateFreeBlocks p q (blks ! q)) ! r) (blks ! r)"
      using UpdateFreeBlocks_other [of q r] Cons.prems(4) by auto
  qed
  ultimately show ?case using Cons.IH Cons.prems by simp
qed simp

lemma hwq_inv_WakeQueue:
  assumes "hwq_inv (fst s)" "q < MAX_NUM_OF_AC"
  shows "hwq_inv (fst (txHwQueue_WakeQueue q s))"
proof -
  obtain p b where s: "s = (p, b)" by (cases s)
  have "hwq_inv (p\<lparr>aTxHwQueueInfo := (aTxHwQueueInfo p)[q := (aTxHwQueueInfo p ! q)\<lparr>bQueueBusy := False\<rparr>]\<rparr>)"
    by (rule hwq_inv_busy [where n = "uNumBlksCausedBusy (aTxHwQueueInfo p ! q)" and b = False])
      (use assms s in auto)
  then show ?thesis using assms by (simp add: txHwQueue_WakeQueue_def s Let_def)
qed

lemma hwq_inv_fold_WakeQueue:
  "hwq_inv (fst s) \<Longrightarrow> set qs \<subseteq> {..<MAX_NUM_OF_AC} \<Longrightarrow> hwq_inv (fst (fold txHwQueue_WakeQueue qs s))"
  by (induction qs arbitrary: s) (simp_all add: hwq_inv_WakeQueue)

text \<open>Restart: with thresholds that fit the total, every queue starts with its full reservation.\<close>

lemma txHwQueue_Restart_eq:
  assumes "length (aTxHwQueueInfo p) = MAX_NUM_OF_AC"
  shows "txHwQueue_Restart p =
    p\<lparr>uNumTotalBlksFree := uNumTotalBlks p,
      uNumTotalBlksReserved := sum_list (map uNumBlksThresh (aTxHwQueueInfo p)),
      uNumUsedDescriptors := 0, uFwTxResultsCntr := 0, uDrvTxPacketsCntr := 0,
      aTxHwQueueInfo := map (\<lambda>info. info\<lparr>uNumBlksUsed := 0, uNumBlksReserved := uNumBlksThresh info,
        uAllocatedBlksCntr := 0, uFwFreedBlksCntr := 0, uNumBlksCausedBusy := 0, bQueueBusy := False\<rparr>)
        (aTxHwQueueInfo p)\<rparr>"
proof -
  obtain a b c d where "aTxHwQueueInfo p = [a, b, c, d]"
    using assms by (auto simp: MAX_NUM_OF_AC_def numeral_eq_Suc length_Suc_conv)
  then show ?thesis
    by (simp add: txHwQueue_Restart_def txHwQueue_RestartQueue_def MAX_NUM_OF_AC_def upt_rec Let_def
        add.assoc)
qed

lemma unat_sum_list:
  "sum_list (map unat ws) < 2 ^ LENGTH('a) \<Longrightarrow> unat (sum_list (ws :: 'a::len word list)) = sum_list (map unat ws)"
  by (induction ws) (simp_all add: unat_add_small)

lemma hwq_inv_Restart:
  assumes "length (aTxHwQueueInfo p) = MAX_NUM_OF_AC" "hwq_sum uNumBlksThresh p \<le> unat (uNumTotalBlks p)"
  shows "hwq_inv (txHwQueue_Restart p)"
proof -
  have "unat (sum_list (map uNumBlksThresh (aTxHwQueueInfo p))) = hwq_sum uNumBlksThresh p"
    using unat_sum_list [of "map uNumBlksThresh (aTxHwQueueInfo p)"] assms(2)
      unat_bound [of "uNumTotalBlks p"] by (simp add: hwq_sum_def comp_def)
  then show ?thesis
    using assms by (auto simp: txHwQueue_Restart_eq hwq_inv_def hwq_sum_def hwq_info_inv_def comp_def
        NUM_TX_DESCRIPTORS_def)
qed

lemma hwq_inv_UpdateFreeResources:
  assumes "hwq_inv p" "fw_results p (fw_counters st)"
    and "\<forall>q < MAX_NUM_OF_AC. fw_frees (aTxHwQueueInfo p ! q) (txReleasedBlks st ! q)"
  shows "hwq_inv (fst (snd (txHwQueue_UpdateFreeResources p st)))"
proof -
  define p1 where "p1 = fold (\<lambda>q p. txHwQueue_UpdateFreeBlocks p q (txReleasedBlks st ! q))
    [0..<MAX_NUM_OF_AC] (txHwQueue_UpdateDescriptors p (fw_counters st))"
  have "hwq_inv p1"
    unfolding p1_def using assms hwq_inv_UpdateDescriptors by (intro hwq_inv_fold_FreeBlocks) auto
  then have "hwq_inv (fst (fold txHwQueue_WakeQueue [0..<MAX_NUM_OF_AC] (p1, 0)))"
    by (intro hwq_inv_fold_WakeQueue) auto
  then show ?thesis
    by (simp add: txHwQueue_UpdateFreeResources_def p1_def [symmetric] split_def Let_def)
qed

section \<open>Properties\<close>

lemma ac_range: "[0..<MAX_NUM_OF_AC] = [0, Suc 0, Suc (Suc 0), Suc (Suc (Suc 0))]"
  by (simp add: MAX_NUM_OF_AC_def upt_rec)

lemma replicate_ac: "replicate MAX_NUM_OF_AC x = [x, x, x, x]"
  by (simp add: MAX_NUM_OF_AC_def numeral_eq_Suc)

text \<open>The state after the driver is configured for 4 queues of 20 guaranteed blocks and 150 in total.\<close>

definition ex_hwq :: TTxHwQueue where
  "ex_hwq = txHwQueue_SetHwInfo (txHwQueue_Config (the (txHwQueue_Create True)) [20, 20, 20, 20]) 151"

lemma ex_hwq_inv: "hwq_inv ex_hwq"
  unfolding ex_hwq_def txHwQueue_SetHwInfo_def
  by (rule hwq_inv_Restart)
    (simp_all add: txHwQueue_Config_def txHwQueue_Create_def ac_range replicate_ac hwq_sum_def,
      simp_all add: MAX_NUM_OF_AC_def)

lemma ex_hwq_fields:
  "aTxHwQueueInfo ex_hwq ! 2 = \<lparr>uNumBlksThresh = 20, uNumBlksUsed = 0, uNumBlksReserved = 20,
     uAllocatedBlksCntr = 0, uFwFreedBlksCntr = 0, uNumBlksCausedBusy = 0, bQueueBusy = False,
     uPercentOfBlkLowThresh = 0, uPercentOfBlkHighThresh = 0\<rparr>"
  "uNumUsedDescriptors ex_hwq = 0"
proof -
  have four: "Suc (Suc (Suc (Suc 0))) = MAX_NUM_OF_AC" by (simp add: MAX_NUM_OF_AC_def)
  show "aTxHwQueueInfo ex_hwq ! 2 = \<lparr>uNumBlksThresh = 20, uNumBlksUsed = 0, uNumBlksReserved = 20,
     uAllocatedBlksCntr = 0, uFwFreedBlksCntr = 0, uNumBlksCausedBusy = 0, bQueueBusy = False,
     uPercentOfBlkLowThresh = 0, uPercentOfBlkHighThresh = 0\<rparr>" "uNumUsedDescriptors ex_hwq = 0"
    by (simp_all add: ex_hwq_def txHwQueue_SetHwInfo_def txHwQueue_Config_def
        txHwQueue_Create_def ac_range replicate_ac txHwQueue_Restart_eq four)
qed

definition ex_pkt :: "u16 \<Rightarrow> u8 \<Rightarrow> TTxCtrlBlk" where
  "ex_pkt len t = TTxCtrlBlk_zero\<lparr>tTxDescriptor := (tTxDescriptor TTxCtrlBlk_zero)\<lparr>td_length := len, tid := t\<rparr>\<rparr>"

lemma ac_index_lt [simp]: "ac_index a < MAX_NUM_OF_AC"
  by (cases a) (simp_all add: MAX_NUM_OF_AC_def)

text \<open>The block estimate as natural-number arithmetic.\<close>

lemma unat_NumBlks:
  "unat (txHwQueue_NumBlks len) =
     (let n = unat len + 20; a = n div 256 in a + (if 4 * a + n mod 256 + 34 > 252 then 2 else 1) + 2)"
proof -
  define x :: u32 where "x = ucast len + 20"
  define n where "n = unat len + 20"
  have "unat len < 65536" using unat_bound [of len] by simp
  then have x: "unat x = n" "n < 65556"
    by (simp_all add: x_def n_def unsigned_ucast_eq take_bit_nat_eq_self unat_add_small)
  define a :: u32 where "a = drop_bit 8 x"
  have a: "unat a = n div 256" by (simp add: a_def x(1) drop_bit_eq_div unat_div)
  define r :: u32 where "r = x AND 0xFF"
  have "r = take_bit 8 x" by (simp add: r_def take_bit_eq_mask mask_eq_exp_minus_1)
  then have r: "unat r = n mod 256" by (simp add: take_bit_eq_mod unat_mod x(1))
  have "unat (push_bit 2 a) = 4 * (n div 256)"
    using x(2) by (simp add: push_bit_eq_mult unat_mult_lem [THEN iffD1] a)
  moreover have "n div 256 \<le> 256" using x(2) by simp
  moreover have "n mod 256 < 256" by simp
  ultimately have e: "unat (push_bit 2 a + r + MAX_HEADER_SIZE - 14) = 4 * (n div 256) + n mod 256 + 34"
    by (simp add: MAX_HEADER_SIZE_def unat_add_small r unat_sub_le)
  have "unat (a + (if push_bit 2 a + r + MAX_HEADER_SIZE - 14 > 252 then 2 else 1) + BLKS_HW_ALLOC_SPARE) =
      n div 256 + (if 4 * (n div 256) + n mod 256 + 34 > 252 then 2 else 1) + 2"
    using \<open>n div 256 \<le> 256\<close> e a by (simp add: BLKS_HW_ALLOC_SPARE_def unat_add_small word_less_nat_alt)
  then show ?thesis
    by (simp add: txHwQueue_NumBlks_def Let_def a_def r_def x_def n_def)
qed

text \<open>The estimate covers the packet: for every length below 13,000 bytes the estimated blocks,
  without the two spare ones, hold the packet with its 20 bytes of descriptor overhead and the header
  growth of 34 bytes in 252-byte blocks, and the count fits the descriptor's 8-bit field.\<close>

theorem txHwQueue_NumBlks_enough:
  assumes "unat len < 13000"
  shows "unat len + 20 + 34 \<le> 252 * (unat (txHwQueue_NumBlks len) - 2) \<and>
    unat (ucast (txHwQueue_NumBlks len) :: u8) = unat (txHwQueue_NumBlks len)"
proof -
  define n where "n = unat len + 20"
  have n: "n < 13020" using assms by (simp add: n_def)
  obtain a r where ar: "n div 256 = a" "n mod 256 = r" by simp
  then have "n = 256 * a + r" "r < 256" by auto
  moreover have "a \<le> 50" using n ar(1) by auto
  moreover have "unat (txHwQueue_NumBlks len) = a + (if 4 * a + r + 34 > 252 then 2 else 1) + 2"
    by (simp add: unat_NumBlks Let_def n_def [symmetric] ar)
  ultimately have *: "unat len + 20 + 34 \<le> 252 * (unat (txHwQueue_NumBlks len) - 2)"
      "unat (txHwQueue_NumBlks len) \<le> 54"
    by (auto simp: n_def)
  then show ?thesis by (simp add: unsigned_ucast_eq take_bit_nat_eq_self)
qed

theorem txHwQueue_NumBlks_enough_witness:
  "unat (1500 :: u16) + 20 + 34 \<le> 252 * (unat (txHwQueue_NumBlks 1500) - 2)"
  using txHwQueue_NumBlks_enough [of 1500] by simp

text \<open>The bound matters: for the longest lengths the field can hold the estimate is short.\<close>

lemma txHwQueue_NumBlks_short: "252 * (unat (txHwQueue_NumBlks 60000) - 2) < 60000 + 20 + 34"
  by (simp add: unat_NumBlks Let_def)

definition pkt_queue :: "TTxCtrlBlk \<Rightarrow> nat" where
  "pkt_queue b = ac_index (WMEQosTagToACTable ! unat (tid (tTxDescriptor b)))"

lemma pkt_queue_lt [simp]: "pkt_queue b < MAX_NUM_OF_AC"
  by (simp add: pkt_queue_def)

lemma NumBlks_le_available:
  assumes "hwq_inv p" "q < MAX_NUM_OF_AC"
  shows "txHwQueue_NumBlks len \<le> txHwQueue_CheckResources p (aTxHwQueueInfo p ! q) \<longleftrightarrow>
    uNumUsedDescriptors p < NUM_TX_DESCRIPTORS \<and>
    unat (txHwQueue_NumBlks len) + unat (uNumTotalBlksReserved p) \<le>
      unat (uNumTotalBlksFree p) + unat (uNumBlksReserved (aTxHwQueueInfo p ! q))"
proof (cases "uNumUsedDescriptors p < NUM_TX_DESCRIPTORS")
  case True
  have "unat (uNumBlksReserved (aTxHwQueueInfo p ! q)) \<le> unat (uNumTotalBlksReserved p)"
    using hwq_sum_elem [of q p uNumBlksReserved] hwq_invD(1,3) [OF assms(1)] assms(2) by simp
  then show ?thesis
    using True hwq_available [OF assms True] hwq_invD(4) [OF assms(1)] by (simp add: word_le_nat_alt) arith
next
  case False
  have "0 < unat (txHwQueue_NumBlks len)" by (simp add: unat_NumBlks Let_def)
  then show ?thesis using False by (simp add: txHwQueue_CheckResources_def word_le_nat_alt)
qed

lemma txHwQueue_Alloc_cases:
  fixes p :: TTxHwQueue
  assumes "unat (tid (tTxDescriptor b)) < MAX_NUM_OF_802_1d_TAGS"
  defines "n \<equiv> txHwQueue_NumBlks (td_length (tTxDescriptor b))"
    and "av \<equiv> txHwQueue_CheckResources p (aTxHwQueueInfo p ! pkt_queue b)"
  obtains (stop) "\<not> n \<le> av"
      "txHwQueue_AllocResources p b = Inr (TX_HW_QUE_STATUS_STOP_CURRENT, txHwQueue_SetBusy p (pkt_queue b) n, b)"
  | (take) st p' b' where "n \<le> av" "txHwQueue_AllocResources p b = Inr (st, p', b')"
      "st \<noteq> TX_HW_QUE_STATUS_STOP_CURRENT"
      "p' = txHwQueue_TakeBlks p (pkt_queue b) n \<or>
       p' = txHwQueue_SetBusy (txHwQueue_TakeBlks p (pkt_queue b) n) (pkt_queue b) n"
      "totalMemBlks (tTxDescriptor b') = ucast n"
proof (cases "n \<le> av")
  case False
  then show ?thesis
    using assms by (intro stop) (auto simp: txHwQueue_AllocResources_def pkt_queue_def Let_def not_le)
next
  case True
  define b' where "b' = b\<lparr>tTxDescriptor := (tTxDescriptor b)\<lparr>extraMemBlks := ucast BLKS_HW_ALLOC_SPARE,
    totalMemBlks := ucast n\<rparr>\<rparr>"
  have run: "txHwQueue_AllocResources p b =
      (if push_bit 1 n > av
       then Inr (TX_HW_QUE_STATUS_STOP_NEXT,
              txHwQueue_SetBusy (txHwQueue_TakeBlks p (pkt_queue b) n) (pkt_queue b) n, b')
       else Inr (TX_HW_QUE_STATUS_SUCCESS, txHwQueue_TakeBlks p (pkt_queue b) n, b'))"
    using True assms(1) unfolding txHwQueue_AllocResources_def Let_def b'_def n_def av_def pkt_queue_def
    by (simp add: not_less [symmetric])
  show ?thesis
    by (cases "push_bit 1 n > av")
      (rule take [OF True], rule run [THEN trans, OF if_P], simp_all add: b'_def,
       rule take [OF True], rule run [THEN trans, OF if_not_P], simp_all add: b'_def)
qed

lemma TakeBlks_fields:
  "q < length (aTxHwQueueInfo p) \<Longrightarrow>
   uNumBlksUsed (aTxHwQueueInfo (txHwQueue_TakeBlks p q n) ! q) = uNumBlksUsed (aTxHwQueueInfo p ! q) + n"
  "uNumTotalBlksFree (txHwQueue_TakeBlks p q n) = uNumTotalBlksFree p - n"
  "length (aTxHwQueueInfo (txHwQueue_TakeBlks p q n)) = length (aTxHwQueueInfo p)"
  by (simp_all add: txHwQueue_TakeBlks_eq Let_def)

lemma SetBusy_fields:
  "q < length (aTxHwQueueInfo p) \<Longrightarrow>
   uNumBlksUsed (aTxHwQueueInfo (txHwQueue_SetBusy p q n) ! q) = uNumBlksUsed (aTxHwQueueInfo p ! q)"
  "uNumTotalBlksFree (txHwQueue_SetBusy p q n) = uNumTotalBlksFree p"
  by (simp_all add: txHwQueue_SetBusy_def)

text \<open>C31: The block accounting is an invariant of packet transfer: used and free blocks add up to the
  total, every queue reserves exactly what it is short of its threshold, the reservations fit in the
  free blocks, used equals allocated minus freed, and at most 32 descriptors are in the firmware. The
  packet is refused exactly when the descriptors are exhausted or the free blocks not reserved by other
  queues are too few, and then nothing is allocated; otherwise its estimate moves from free to used.\<close>

theorem txHwQueue_AllocResources_inv:
  assumes "hwq_inv p" "unat (tid (tTxDescriptor b)) < MAX_NUM_OF_802_1d_TAGS"
  defines "n \<equiv> txHwQueue_NumBlks (td_length (tTxDescriptor b))" and "q \<equiv> pkt_queue b"
  shows "case txHwQueue_AllocResources p b of
     Inl f \<Rightarrow> False
   | Inr (st, p', b') \<Rightarrow>
       hwq_inv p' \<and>
       (st \<noteq> TX_HW_QUE_STATUS_STOP_CURRENT \<longleftrightarrow>
          uNumUsedDescriptors p < NUM_TX_DESCRIPTORS \<and>
          unat n + unat (uNumTotalBlksReserved p) \<le>
            unat (uNumTotalBlksFree p) + unat (uNumBlksReserved (aTxHwQueueInfo p ! q))) \<and>
       (if st = TX_HW_QUE_STATUS_STOP_CURRENT
        then uNumTotalBlksFree p' = uNumTotalBlksFree p \<and> b' = b
        else uNumTotalBlksFree p' = uNumTotalBlksFree p - n \<and>
             uNumBlksUsed (aTxHwQueueInfo p' ! q) = uNumBlksUsed (aTxHwQueueInfo p ! q) + n \<and>
             totalMemBlks (tTxDescriptor b') = ucast n)"
proof -
  have q: "q < MAX_NUM_OF_AC" "q < length (aTxHwQueueInfo p)"
    using hwq_invD(1) [OF assms(1)] by (simp_all add: q_def)
  note avail = NumBlks_le_available [OF assms(1) q(1), of "td_length (tTxDescriptor b)"]
  from assms(2) show ?thesis
  proof (cases rule: txHwQueue_Alloc_cases [where p = p])
    case stop
    then show ?thesis
      using avail hwq_inv_SetBusy [OF assms(1) q(1)]
      by (simp add: SetBusy_fields n_def q_def del: not_le)
  next
    case (take st p' b')
    have inv: "hwq_inv (txHwQueue_TakeBlks p q n)"
      by (rule hwq_inv_TakeBlks [OF assms(1) q(1)]) (use take(1) avail in \<open>simp_all add: n_def q_def\<close>)
    have "hwq_inv p' \<and> uNumTotalBlksFree p' = uNumTotalBlksFree p - n \<and>
        uNumBlksUsed (aTxHwQueueInfo p' ! q) = uNumBlksUsed (aTxHwQueueInfo p ! q) + n"
      using take(4) inv hwq_inv_SetBusy [OF inv q(1)] q(2)
      by (auto simp: TakeBlks_fields SetBusy_fields n_def [symmetric] q_def [symmetric])
    then show ?thesis using take avail by (simp add: n_def q_def)
  qed
qed

theorem txHwQueue_AllocResources_inv_witness:
  "case txHwQueue_AllocResources ex_hwq (ex_pkt 1500 5) of
     Inl f \<Rightarrow> False | Inr (st, p', b') \<Rightarrow> hwq_inv p'"
  using txHwQueue_AllocResources_inv [OF ex_hwq_inv, of "ex_pkt 1500 5"]
  by (auto simp: ex_pkt_def MAX_NUM_OF_802_1d_TAGS_def split: sum.splits)

text \<open>The low-threshold guarantee: whatever the other queues hold, a packet that keeps its queue
  within its threshold is accepted as long as a descriptor is free.\<close>

theorem txHwQueue_guarantee:
  assumes "hwq_inv p" "unat (tid (tTxDescriptor b)) < MAX_NUM_OF_802_1d_TAGS"
    and "uNumUsedDescriptors p < NUM_TX_DESCRIPTORS"
    and "unat (uNumBlksUsed (aTxHwQueueInfo p ! pkt_queue b)) +
           unat (txHwQueue_NumBlks (td_length (tTxDescriptor b)))
         \<le> unat (uNumBlksThresh (aTxHwQueueInfo p ! pkt_queue b))"
  shows "\<exists>st p' b'. txHwQueue_AllocResources p b = Inr (st, p', b') \<and> st \<noteq> TX_HW_QUE_STATUS_STOP_CURRENT"
proof -
  have "hwq_info_inv (aTxHwQueueInfo p ! pkt_queue b)" using hwq_invD(5) [OF assms(1)] by simp
  then have "unat (txHwQueue_NumBlks (td_length (tTxDescriptor b))) \<le>
      unat (uNumBlksReserved (aTxHwQueueInfo p ! pkt_queue b))"
    using assms(4) by (simp add: hwq_info_inv_def)
  then have "txHwQueue_NumBlks (td_length (tTxDescriptor b)) \<le>
      txHwQueue_CheckResources p (aTxHwQueueInfo p ! pkt_queue b)"
    using NumBlks_le_available [OF assms(1) pkt_queue_lt] hwq_invD(4) [OF assms(1)] assms(3)
    by simp
  with assms(2) show ?thesis by (cases rule: txHwQueue_Alloc_cases [where p = p]) auto
qed

theorem txHwQueue_guarantee_witness:
  "\<exists>st p' b'. txHwQueue_AllocResources ex_hwq (ex_pkt 1500 5) = Inr (st, p', b') \<and>
     st \<noteq> TX_HW_QUE_STATUS_STOP_CURRENT"
proof (rule txHwQueue_guarantee [OF ex_hwq_inv])
  note infos = ex_hwq_fields
  show "unat (tid (tTxDescriptor (ex_pkt 1500 5))) < MAX_NUM_OF_802_1d_TAGS"
    by (simp add: ex_pkt_def MAX_NUM_OF_802_1d_TAGS_def)
  show "uNumUsedDescriptors ex_hwq < NUM_TX_DESCRIPTORS" by (simp add: infos NUM_TX_DESCRIPTORS_def)
  have "pkt_queue (ex_pkt 1500 5) = 2" by (simp add: pkt_queue_def ex_pkt_def WMEQosTagToACTable_def)
  then show "unat (uNumBlksUsed (aTxHwQueueInfo ex_hwq ! pkt_queue (ex_pkt 1500 5))) +
      unat (txHwQueue_NumBlks (td_length (tTxDescriptor (ex_pkt 1500 5))))
      \<le> unat (uNumBlksThresh (aTxHwQueueInfo ex_hwq ! pkt_queue (ex_pkt 1500 5)))"
    by (simp add: infos unat_NumBlks Let_def ex_pkt_def)
qed

text \<open>The wake-up loop: a queue it leaves stopped cannot be served, and the map names the woken ones.\<close>

lemma CheckResources_busy [simp]:
  "txHwQueue_CheckResources (p\<lparr>aTxHwQueueInfo := xs\<rparr>) info = txHwQueue_CheckResources p info"
  "txHwQueue_CheckResources p (info\<lparr>bQueueBusy := b\<rparr>) = txHwQueue_CheckResources p info"
  by (simp_all add: txHwQueue_CheckResources_def)

definition can_serve :: "TTxHwQueue \<Rightarrow> nat \<Rightarrow> bool" where
  "can_serve p q \<longleftrightarrow>
     uNumBlksCausedBusy (aTxHwQueueInfo p ! q) \<le> txHwQueue_CheckResources p (aTxHwQueueInfo p ! q)"

definition woken :: "TTxHwQueue \<Rightarrow> nat \<Rightarrow> bool" where
  "woken p q \<longleftrightarrow> bQueueBusy (aTxHwQueueInfo p ! q) \<and> can_serve p q"

lemma WakeQueue_eq:
  "txHwQueue_WakeQueue q (p, m) =
     (if woken p q
      then (p\<lparr>aTxHwQueueInfo := (aTxHwQueueInfo p)[q := (aTxHwQueueInfo p ! q)\<lparr>bQueueBusy := False\<rparr>]\<rparr>,
            m OR push_bit q 1)
      else (p, m))"
  by (simp add: txHwQueue_WakeQueue_def woken_def can_serve_def Let_def)

lemma WakeQueue_fold:
  assumes "distinct qs" "set qs \<subseteq> {..<length (aTxHwQueueInfo p)}"
  shows "fold txHwQueue_WakeQueue qs (p, m) =
    (p\<lparr>aTxHwQueueInfo := map (\<lambda>q. (aTxHwQueueInfo p ! q)
        \<lparr>bQueueBusy := bQueueBusy (aTxHwQueueInfo p ! q) \<and> \<not> (q \<in> set qs \<and> woken p q)\<rparr>)
        [0..<length (aTxHwQueueInfo p)]\<rparr>,
     fold (\<lambda>q m. if woken p q then m OR push_bit q 1 else m) qs m)"
  using assms
proof (induction qs arbitrary: p m)
  case Nil
  have "map (\<lambda>q. (aTxHwQueueInfo p ! q)\<lparr>bQueueBusy := bQueueBusy (aTxHwQueueInfo p ! q)\<rparr>)
      [0..<length (aTxHwQueueInfo p)] = aTxHwQueueInfo p"
    by (rule nth_equalityI) auto
  then show ?case by simp
next
  case (Cons q qs)
  show ?case
  proof (cases "woken p q")
    case False
    then have "\<forall>r. (r \<in> set (q # qs) \<and> woken p r) = (r \<in> set qs \<and> woken p r)" by auto
    then show ?thesis using Cons.IH [of p m] Cons.prems False by (simp add: WakeQueue_eq)
  next
    case True
    define p1 where "p1 = p\<lparr>aTxHwQueueInfo := (aTxHwQueueInfo p)
      [q := (aTxHwQueueInfo p ! q)\<lparr>bQueueBusy := False\<rparr>]\<rparr>"
    have w: "woken p1 r = woken p r" if "r \<noteq> q" for r
      using that by (simp add: woken_def can_serve_def p1_def)
    have f: "fold (\<lambda>q m. if woken p1 q then m OR push_bit q 1 else m) qs k =
        fold (\<lambda>q m. if woken p q then m OR push_bit q 1 else m) qs k" for k
    proof (rule fold_cong)
      fix r
      assume "r \<in> set qs"
      then have "woken p1 r = woken p r" using w [of r] Cons.prems by auto
      then show "(\<lambda>m. if woken p1 r then m OR push_bit r 1 else m) =
          (\<lambda>m. if woken p r then m OR push_bit r 1 else m)" by simp
    qed simp_all
    have nth: "aTxHwQueueInfo p1 ! r = (if r = q then (aTxHwQueueInfo p ! q)\<lparr>bQueueBusy := False\<rparr>
        else aTxHwQueueInfo p ! r)" if "r < length (aTxHwQueueInfo p)" for r
      using that by (simp add: p1_def nth_list_update)
    have "map (\<lambda>r. (aTxHwQueueInfo p1 ! r)
          \<lparr>bQueueBusy := bQueueBusy (aTxHwQueueInfo p1 ! r) \<and> \<not> (r \<in> set qs \<and> woken p1 r)\<rparr>)
          [0..<length (aTxHwQueueInfo p)] =
        map (\<lambda>r. (aTxHwQueueInfo p ! r)
          \<lparr>bQueueBusy := bQueueBusy (aTxHwQueueInfo p ! r) \<and> \<not> (r \<in> set (q # qs) \<and> woken p r)\<rparr>)
          [0..<length (aTxHwQueueInfo p)]"
      using Cons.prems w True by (intro map_cong) (auto simp: nth)
    moreover have "length (aTxHwQueueInfo p1) = length (aTxHwQueueInfo p)" by (simp add: p1_def)
    ultimately show ?thesis
      using Cons.IH [of p1 "m OR push_bit q 1"] Cons.prems True f
      by (simp add: WakeQueue_eq p1_def [symmetric]) (simp add: p1_def)
  qed
qed

lemma wake_map_bits:
  fixes m :: u32
  assumes "i < 32"
  shows "bit (fold (\<lambda>q m. if w q then m OR push_bit q 1 else m) qs m) i \<longleftrightarrow>
    bit m i \<or> (i \<in> set qs \<and> w i)"
  using assms by (induction qs arbitrary: m) (auto simp: bit_simps)

lemma UpdateFreeBlocks_length [simp]:
  "length (aTxHwQueueInfo (txHwQueue_UpdateFreeBlocks p q u)) = length (aTxHwQueueInfo p)"
  by (simp add: txHwQueue_UpdateFreeBlocks_def Let_def split: prod.splits)

lemma fold_FreeBlocks_length [simp]:
  "length (aTxHwQueueInfo (fold (\<lambda>q p. txHwQueue_UpdateFreeBlocks p q (blks ! q)) qs p)) =
   length (aTxHwQueueInfo p)"
  by (induction qs arbitrary: p) auto

text \<open>The freed state on which the wake-up loop runs.\<close>

definition hwq_freed :: "TTxHwQueue \<Rightarrow> FwStatus_t \<Rightarrow> TTxHwQueue" where
  "hwq_freed p st = fold (\<lambda>q p. txHwQueue_UpdateFreeBlocks p q (txReleasedBlks st ! q)) [0..<MAX_NUM_OF_AC]
     (txHwQueue_UpdateDescriptors p (fw_counters st))"

text \<open>When the firmware reports results and freed blocks of packets it was given, the block
  accounting stays invariant, no queue is left stopped although the blocks it waits for and a
  descriptor are available, and the upper layer is called with exactly the map of the queues that
  were stopped and can now be served.\<close>

theorem txHwQueue_UpdateFreeResources_inv:
  assumes "hwq_inv p" "fw_results p (fw_counters st)"
    and "\<forall>q < MAX_NUM_OF_AC. fw_frees (aTxHwQueueInfo p ! q) (txReleasedBlks st ! q)"
  shows "case txHwQueue_UpdateFreeResources p st of (status, p', cb) \<Rightarrow>
     status = TXN_STATUS_COMPLETE \<and> hwq_inv p' \<and>
     (\<forall>q < MAX_NUM_OF_AC. bQueueBusy (aTxHwQueueInfo p' ! q) \<longrightarrow> \<not> can_serve p' q) \<and>
     (\<forall>f h m. cb = Some (f, h, m) \<longrightarrow> (\<forall>i < 32. bit m i \<longleftrightarrow> i < MAX_NUM_OF_AC \<and> woken (hwq_freed p st) i))"
proof -
  define p1 where "p1 = hwq_freed p st"
  obtain p' m where e: "fold txHwQueue_WakeQueue [0..<MAX_NUM_OF_AC] (p1, 0) = (p', m)"
    by (cases "fold txHwQueue_WakeQueue [0..<MAX_NUM_OF_AC] (p1, 0)")
  have len: "length (aTxHwQueueInfo p1) = MAX_NUM_OF_AC"
    using hwq_invD(1) [OF assms(1)] by (simp add: p1_def hwq_freed_def)
  have sub: "set [0..<MAX_NUM_OF_AC] \<subseteq> {..<length (aTxHwQueueInfo p1)}" using len by auto
  have p': "p' = p1\<lparr>aTxHwQueueInfo := map (\<lambda>q. (aTxHwQueueInfo p1 ! q)
        \<lparr>bQueueBusy := bQueueBusy (aTxHwQueueInfo p1 ! q) \<and> \<not> (q \<in> set [0..<MAX_NUM_OF_AC] \<and> woken p1 q)\<rparr>)
        [0..<MAX_NUM_OF_AC]\<rparr>"
    and m: "m = fold (\<lambda>q m. if woken p1 q then m OR push_bit q 1 else m) [0..<MAX_NUM_OF_AC] 0"
    using e WakeQueue_fold [OF distinct_upt sub, of 0] len by auto
  have "\<forall>q < MAX_NUM_OF_AC. bQueueBusy (aTxHwQueueInfo p' ! q) \<longrightarrow> \<not> can_serve p' q"
    using len by (auto simp: p' woken_def can_serve_def)
  moreover have "\<forall>i < 32. bit m i \<longleftrightarrow> i < MAX_NUM_OF_AC \<and> woken p1 i"
    by (auto simp: m wake_map_bits)
  moreover have "hwq_inv p'"
    using hwq_inv_UpdateFreeResources [OF assms] e
    by (simp add: txHwQueue_UpdateFreeResources_def p1_def hwq_freed_def)
  ultimately show ?thesis
    using e by (simp add: txHwQueue_UpdateFreeResources_def p1_def hwq_freed_def)
qed

lemma ex_hwq_config:
  "length (aTxHwQueueInfo (txHwQueue_Config (the (txHwQueue_Create True)) [20, 20, 20, 20])) = MAX_NUM_OF_AC"
  by (simp add: txHwQueue_Config_def txHwQueue_Create_def ac_range)

theorem txHwQueue_UpdateFreeResources_inv_witness:
  "hwq_inv (fst (snd (txHwQueue_UpdateFreeResources ex_hwq \<lparr>fw_counters = 0, txReleasedBlks = [0, 0, 0, 0]\<rparr>)))"
proof -
  have "\<forall>q < MAX_NUM_OF_AC. uFwFreedBlksCntr (aTxHwQueueInfo ex_hwq ! q) = [0, 0, 0, 0] ! q"
  proof -
    have "aTxHwQueueInfo ex_hwq = map (\<lambda>info. info\<lparr>uNumBlksUsed := 0, uNumBlksReserved := uNumBlksThresh info,
        uAllocatedBlksCntr := 0, uFwFreedBlksCntr := 0, uNumBlksCausedBusy := 0, bQueueBusy := False\<rparr>)
        (aTxHwQueueInfo (txHwQueue_Config (the (txHwQueue_Create True)) [20, 20, 20, 20]))"
      unfolding ex_hwq_def txHwQueue_SetHwInfo_def
      by (subst txHwQueue_Restart_eq) (simp_all add: ex_hwq_config)
    then show ?thesis
      by (auto simp: MAX_NUM_OF_AC_def txHwQueue_Config_def txHwQueue_Create_def less_Suc_eq numeral_eq_Suc)
  qed
  moreover have "uFwTxResultsCntr ex_hwq = 0"
    unfolding ex_hwq_def txHwQueue_SetHwInfo_def
    by (subst txHwQueue_Restart_eq) (simp_all add: ex_hwq_config)
  ultimately show ?thesis
    using txHwQueue_UpdateFreeResources_inv
      [OF ex_hwq_inv, of "\<lparr>fw_counters = 0, txReleasedBlks = [0, 0, 0, 0]\<rparr>"]
    by (auto simp: fw_results_def fw_frees_def)
qed

end
