(* ===== verification/Queue.thy ===== *)
theory Queue
  imports Prelude
begin

text \<open>
  \<open>utils/queue.c\<close>: the doubly linked queue every module of the driver stores its
  packets, transactions and expired timers in. The node headers live inside the queued
  items, so the model keeps an explicit store of \<open>pNext\<close>/\<open>pPrev\<close> cells
  (\<open>qheap\<close>) that all queues share, and the C functions update it write by write.
  The second half gives the specification the other theories use (\<open>aqueue\<close>, a list with
  the queue's limit and counters) and proves that the pointer code refines it.
\<close>

section \<open>The store and the queue object\<close>

text \<open>\<open>TQueNodeHdr\<close>: the two links of the node header at an address.\<close>

record qheap =
  pNext :: "addr \<Rightarrow> addr"
  pPrev :: "addr \<Rightarrow> addr"

record TQueue =
  tHead :: addr
  uCount :: u32
  uLimit :: u32
  uMaxCount :: u32
  uOverflow :: u32
  uNodeHeaderOffset :: nat

definition InsertNode :: "qheap \<Rightarrow> addr \<Rightarrow> addr \<Rightarrow> addr \<Rightarrow> qheap" where
  "InsertNode h pNode pPrv pNxt =
     (let h = h\<lparr>pPrev := (pPrev h)(pNxt := pNode)\<rparr>;
          h = h\<lparr>pNext := (pNext h)(pNode := pNxt)\<rparr>;
          h = h\<lparr>pPrev := (pPrev h)(pNode := pPrv)\<rparr>
      in h\<lparr>pNext := (pNext h)(pPrv := pNode)\<rparr>)"

definition RemoveNode :: "qheap \<Rightarrow> addr \<Rightarrow> addr \<Rightarrow> qheap" where
  "RemoveNode h pPrv pNxt =
     (let h = h\<lparr>pPrev := (pPrev h)(pNxt := pPrv)\<rparr>
      in h\<lparr>pNext := (pNext h)(pPrv := pNxt)\<rparr>)"

definition AddToHead :: "qheap \<Rightarrow> addr \<Rightarrow> addr \<Rightarrow> qheap" where
  "AddToHead h pNode pListHead = InsertNode h pNode pListHead (pNext h pListHead)"

definition AddToTail :: "qheap \<Rightarrow> addr \<Rightarrow> addr \<Rightarrow> qheap" where
  "AddToTail h pNode pListHead = InsertNode h pNode (pPrev h pListHead) pListHead"

definition DelFromTail :: "qheap \<Rightarrow> addr \<Rightarrow> qheap" where
  "DelFromTail h pNode = RemoveNode h (pPrev h pNode) (pNext h pNode)"

text \<open>
  \<open>que_Create\<close>: \<open>pQue\<close> is the address \<open>os_memoryAlloc\<close> returned (\<open>0\<close> when it
  failed); the queue header sits at that address.
\<close>

definition que_Create :: "qheap \<Rightarrow> addr \<Rightarrow> u32 \<Rightarrow> nat \<Rightarrow> qheap \<times> TQueue option" where
  "que_Create h pQue limit offset =
     (if pQue = 0 then (h, None)
      else (h\<lparr>pPrev := (pPrev h)(pQue := pQue), pNext := (pNext h)(pQue := pQue)\<rparr>,
            Some \<lparr>tHead = pQue, uCount = 0, uLimit = limit, uMaxCount = 0, uOverflow = 0,
                  uNodeHeaderOffset = offset\<rparr>))"

definition que_Enqueue ::
  "qheap \<Rightarrow> TQueue option \<Rightarrow> addr \<Rightarrow> ti_status \<times> qheap \<times> TQueue option" where
  "que_Enqueue h pQue hItem =
     (case pQue of
        None \<Rightarrow> (TI_NOK, h, None)
      | Some q \<Rightarrow>
          if uCount q < uLimit q then
            (let node = hItem + uNodeHeaderOffset q in
             if pNext h node \<noteq> 0 then (TI_NOK, h, Some q)
             else
               (let h' = AddToHead h node (tHead q);
                    q = q\<lparr>uCount := uCount q + 1\<rparr>;
                    q = (if uCount q > uMaxCount q then q\<lparr>uMaxCount := uCount q\<rparr> else q)
                in (TI_OK, h', Some q)))
          else (TI_NOK, h, Some (q\<lparr>uOverflow := uOverflow q + 1\<rparr>)))"

text \<open>
  \<open>que_Dequeue\<close> tests its handle, but the trace it falls through to reads
  \<open>pQue->hReport\<close>, so a NULL queue is a fault.
\<close>

definition que_Dequeue :: "qheap \<Rightarrow> TQueue option \<Rightarrow> fault + (addr option \<times> qheap \<times> TQueue)" where
  "que_Dequeue h pQue =
     (case pQue of
        None \<Rightarrow> Inl NullDeref
      | Some q \<Rightarrow>
          if uCount q \<noteq> 0 then
            (let hItem = pPrev h (tHead q) - uNodeHeaderOffset q;
                 h = DelFromTail h (pPrev h (tHead q));
                 q = q\<lparr>uCount := uCount q - 1\<rparr>;
                 h = h\<lparr>pNext := (pNext h)(hItem + uNodeHeaderOffset q := 0)\<rparr>
             in Inr (Some hItem, h, q))
          else Inr (None, h, q))"

definition que_Requeue ::
  "qheap \<Rightarrow> TQueue option \<Rightarrow> addr \<Rightarrow> fault + (ti_status \<times> qheap \<times> TQueue)" where
  "que_Requeue h pQue hItem =
     (case pQue of
        None \<Rightarrow> Inl NullDeref
      | Some q \<Rightarrow>
          if uCount q < uLimit q then
            (let node = hItem + uNodeHeaderOffset q in
             if pNext h node \<noteq> 0 then Inr (TI_NOK, h, q)
             else
               (let h' = AddToTail h node (tHead q);
                    q = q\<lparr>uCount := uCount q + 1\<rparr>;
                    q = (if uCount q > uMaxCount q then q\<lparr>uMaxCount := uCount q\<rparr> else q)
                in Inr (TI_OK, h', q)))
          else Inr (TI_NOK, h, q\<lparr>uOverflow := uOverflow q + 1\<rparr>))"

definition que_Size :: "TQueue \<Rightarrow> u32" where
  "que_Size q = uCount q"

section \<open>The specification: a bounded list with counters\<close>

record 'a aqueue =
  aq_items :: "'a list"  \<comment> \<open>oldest first: the order of dequeueing\<close>
  aq_limit :: u32
  aq_max :: u32
  aq_overflow :: u32

definition aq_Create :: "u32 \<Rightarrow> 'a aqueue" where
  "aq_Create limit = \<lparr>aq_items = [], aq_limit = limit, aq_max = 0, aq_overflow = 0\<rparr>"

definition aq_Size :: "'a aqueue \<Rightarrow> u32" where
  "aq_Size q = of_nat (length (aq_items q))"

text \<open>
  \<open>busy\<close> says that the item's node header is linked (its \<open>pNext\<close> is not NULL): it is
  in this or in another queue.
\<close>

definition aq_Enqueue :: "bool \<Rightarrow> 'a \<Rightarrow> 'a aqueue \<Rightarrow> ti_status \<times> 'a aqueue" where
  "aq_Enqueue busy x q =
     (if length (aq_items q) < unat (aq_limit q) then
        (if busy then (TI_NOK, q)
         else (TI_OK, q\<lparr>aq_items := aq_items q @ [x],
                        aq_max := max (aq_max q) (aq_Size q + 1)\<rparr>))
      else (TI_NOK, q\<lparr>aq_overflow := aq_overflow q + 1\<rparr>))"

definition aq_Requeue :: "bool \<Rightarrow> 'a \<Rightarrow> 'a aqueue \<Rightarrow> ti_status \<times> 'a aqueue" where
  "aq_Requeue busy x q =
     (if length (aq_items q) < unat (aq_limit q) then
        (if busy then (TI_NOK, q)
         else (TI_OK, q\<lparr>aq_items := x # aq_items q,
                        aq_max := max (aq_max q) (aq_Size q + 1)\<rparr>))
      else (TI_NOK, q\<lparr>aq_overflow := aq_overflow q + 1\<rparr>))"

definition aq_Dequeue :: "'a aqueue \<Rightarrow> 'a option \<times> 'a aqueue" where
  "aq_Dequeue q =
     (case aq_items q of [] \<Rightarrow> (None, q) | x # xs \<Rightarrow> (Some x, q\<lparr>aq_items := xs\<rparr>))"

section \<open>The abstraction\<close>

text \<open>Following \<open>pPrev\<close> from the queue header visits the nodes oldest first.\<close>

fun walk :: "qheap \<Rightarrow> addr \<Rightarrow> nat \<Rightarrow> addr list" where
  "walk h a 0 = []"
| "walk h a (Suc n) = pPrev h a # walk h (pPrev h a) n"

definition que_nodes :: "qheap \<Rightarrow> TQueue \<Rightarrow> addr list" where
  "que_nodes h q = walk h (tHead q) (unat (uCount q))"

definition que_abs :: "qheap \<Rightarrow> TQueue \<Rightarrow> addr aqueue" where
  "que_abs h q =
     \<lparr>aq_items = map (\<lambda>a. a - uNodeHeaderOffset q) (que_nodes h q),
      aq_limit = uLimit q, aq_max = uMaxCount q, aq_overflow = uOverflow q\<rparr>"

text \<open>\<open>links h a ns b\<close>: from \<open>a\<close> the nodes \<open>ns\<close> and then \<open>b\<close>, linked both ways.\<close>

fun links :: "qheap \<Rightarrow> addr \<Rightarrow> addr list \<Rightarrow> addr \<Rightarrow> bool" where
  "links h a [] b \<longleftrightarrow> pPrev h a = b \<and> pNext h b = a"
| "links h a (n # ns) b \<longleftrightarrow> pPrev h a = n \<and> pNext h n = a \<and> links h n ns b"

definition que_wf :: "qheap \<Rightarrow> TQueue \<Rightarrow> bool" where
  "que_wf h q \<longleftrightarrow>
     (let ns = que_nodes h q in
      links h (tHead q) ns (tHead q) \<and> distinct (tHead q # ns) \<and> 0 \<notin> set (tHead q # ns) \<and>
      (\<forall>n \<in> set ns. uNodeHeaderOffset q \<le> n))"


definition que_cells :: "qheap \<Rightarrow> TQueue \<Rightarrow> addr set" where
  "que_cells h q = set (tHead q # que_nodes h q)"

section \<open>Linked segments\<close>

lemma links_snoc:
  "links h a (ns @ [n]) b \<longleftrightarrow> links h a ns n \<and> pPrev h n = b \<and> pNext h b = n"
  by (induction ns arbitrary: a) auto

lemma links_last: "links h a ns b \<Longrightarrow> pNext h b = last (a # ns)"
  by (induction ns arbitrary: a) auto

lemma links_walk: "links h a ns b \<Longrightarrow> walk h a (length ns) = ns"
  by (induction ns arbitrary: a) auto

lemma links_agree:
  assumes "links h a ns b"
    and "\<forall>c \<in> set (a # ns). pPrev h' c = pPrev h c"
    and "\<forall>c \<in> set ns \<union> {b}. pNext h' c = pNext h c"
  shows "links h' a ns b"
  using assms by (induction ns arbitrary: a) auto

lemma links_next_nonzero:
  "links h a ns b \<Longrightarrow> 0 \<notin> set (a # ns) \<Longrightarrow> c \<in> set ns \<union> {b} \<Longrightarrow> pNext h c \<noteq> 0"
  by (induction ns arbitrary: a) auto

lemma walk_agree:
  "\<forall>c \<in> set (a # walk h a n). pPrev h' c = pPrev h c \<Longrightarrow> walk h' a n = walk h a n"
  by (induction n arbitrary: a) auto

lemma length_walk [simp]: "length (walk h a n) = n"
  by (induction n arbitrary: a) auto

lemma length_que_nodes [simp]: "length (que_nodes h q) = unat (uCount q)"
  by (simp add: que_nodes_def)

text \<open>The characterisation the operation proofs use: a list of nodes the cells link.\<close>

lemma que_wfI:
  assumes "links h (tHead q) ns (tHead q)" "length ns = unat (uCount q)"
    and "distinct (tHead q # ns)" "0 \<notin> set (tHead q # ns)" "\<forall>n \<in> set ns. uNodeHeaderOffset q \<le> n"
  shows "que_wf h q" and "que_nodes h q = ns"
proof -
  show ns: "que_nodes h q = ns"
    unfolding que_nodes_def using links_walk [OF assms(1)] assms(2) by simp
  show "que_wf h q"
    unfolding que_wf_def Let_def ns using assms by blast
qed

lemma que_wfD:
  assumes "que_wf h q"
  shows "links h (tHead q) (que_nodes h q) (tHead q)" "distinct (tHead q # que_nodes h q)"
    "0 \<notin> set (tHead q # que_nodes h q)" "\<forall>n \<in> set (que_nodes h q). uNodeHeaderOffset q \<le> n"
  using assms unfolding que_wf_def Let_def by blast+

lemma linked_not_free:
  assumes "que_wf h q" "pNext h node = 0"
  shows "node \<notin> que_cells h q"
proof
  assume "node \<in> que_cells h q"
  then have "node \<in> set (que_nodes h q) \<union> {tHead q}" by (simp add: que_cells_def)
  with assms(2) show False using links_next_nonzero [OF que_wfD(1,3) [OF assms(1)]] by blast
qed

text \<open>The effect of the three link operations on a segment.\<close>

lemma links_AddToHead:
  assumes "links h a ns a" "distinct (a # ns)" "node \<notin> set (a # ns)"
  shows "links (AddToHead h node a) a (ns @ [node]) a"
proof (cases ns rule: rev_cases)
  case Nil
  with assms show ?thesis by (simp add: AddToHead_def InsertNode_def)
next
  case (snoc ms m)
  have next_a: "pNext h a = m" using links_last [OF assms(1)] snoc by simp
  have "links h a ms m" using assms(1) snoc by (simp add: links_snoc)
  then have "links (AddToHead h node a) a ms m"
    by (rule links_agree) (use assms snoc in \<open>auto simp: AddToHead_def InsertNode_def next_a\<close>)
  moreover have "pPrev (AddToHead h node a) m = node" "pNext (AddToHead h node a) node = m"
      "pPrev (AddToHead h node a) node = a" "pNext (AddToHead h node a) a = node"
    using assms snoc by (auto simp: AddToHead_def InsertNode_def next_a)
  ultimately show ?thesis
    using links_snoc [of "AddToHead h node a" a "ms @ [m]" node a] by (simp add: snoc links_snoc)
qed

lemma links_AddToTail:
  assumes "links h a ns a" "distinct (a # ns)" "node \<notin> set (a # ns)"
  shows "links (AddToTail h node a) a (node # ns) a"
proof (cases ns)
  case Nil
  with assms show ?thesis by (simp add: AddToTail_def InsertNode_def)
next
  case (Cons m ms)
  have prev_a: "pPrev h a = m" using assms(1) Cons by simp
  have "links h m ms a" using assms(1) Cons by simp
  then have "links (AddToTail h node a) m ms a"
    by (rule links_agree) (use assms Cons in \<open>auto simp: AddToTail_def InsertNode_def prev_a\<close>)
  moreover have "pPrev (AddToTail h node a) a = node" "pNext (AddToTail h node a) node = a"
      "pPrev (AddToTail h node a) node = m" "pNext (AddToTail h node a) m = node"
    using assms Cons by (auto simp: AddToTail_def InsertNode_def prev_a)
  ultimately show ?thesis by (simp add: Cons)
qed

lemma links_DelFromTail:
  assumes "links h a (m # ms) a" "distinct (a # m # ms)"
  shows "links (DelFromTail h m) a ms a"
proof -
  have next_m: "pNext h m = a" using assms by simp
  show ?thesis
  proof (cases ms)
    case Nil
    with assms show ?thesis by (simp add: DelFromTail_def RemoveNode_def)
  next
    case (Cons k ks)
    have prev_m: "pPrev h m = k" using assms(1) Cons by simp
    have "links h k ks a" using assms(1) Cons by simp
    then have "links (DelFromTail h m) k ks a"
      by (rule links_agree)
        (use assms Cons in \<open>auto simp: DelFromTail_def RemoveNode_def next_m prev_m\<close>)
    then show ?thesis
      using assms Cons by (auto simp: DelFromTail_def RemoveNode_def next_m prev_m)
  qed
qed

lemma links_clear_next:
  assumes "links h a ns b" "m \<notin> set ns \<union> {b}"
  shows "links (h\<lparr>pNext := (pNext h)(m := 0)\<rparr>) a ns b"
  by (rule links_agree [OF assms(1)]) (use assms in auto)

section \<open>The pointer code refines the specification\<close>

lemma unat_count_less:
  "que_nodes h q = ns \<Longrightarrow> uCount q < uLimit q \<longleftrightarrow> length ns < unat (uLimit q)"
  using length_que_nodes [of h q] by (simp add: word_less_nat_alt)

lemma aq_Size_que_abs: "aq_Size (que_abs h q) = que_Size q"
  by (simp add: aq_Size_def que_abs_def que_Size_def)

lemma que_link_head:
  fixes m :: u32
  assumes "que_wf h q" "uCount q < uLimit q" "pNext h (x + uNodeHeaderOffset q) = 0"
    and "x + uNodeHeaderOffset q \<noteq> 0"
  defines "node \<equiv> x + uNodeHeaderOffset q"
    and "q' \<equiv> q\<lparr>uCount := uCount q + 1, uMaxCount := m\<rparr>"
  shows "que_wf (AddToHead h node (tHead q)) q'"
    and "que_nodes (AddToHead h node (tHead q)) q' = que_nodes h q @ [node]"
proof -
  have out: "node \<notin> set (tHead q # que_nodes h q)"
    using linked_not_free [OF assms(1,3)] by (simp add: que_cells_def node_def)
  have "links (AddToHead h node (tHead q)) (tHead q') (que_nodes h q @ [node]) (tHead q')"
    using links_AddToHead [OF que_wfD(1,2) [OF assms(1)] out] by (simp add: q'_def)
  moreover have "length (que_nodes h q @ [node]) = unat (uCount q')"
    using assms(2) unat_plus_one [of "uCount q" "uLimit q"] by (simp add: q'_def word_less_nat_alt)
  moreover have "distinct (tHead q' # que_nodes h q @ [node])"
      "0 \<notin> set (tHead q' # que_nodes h q @ [node])"
      "\<forall>n \<in> set (que_nodes h q @ [node]). uNodeHeaderOffset q' \<le> n"
    using que_wfD [OF assms(1)] out assms(4) by (auto simp: q'_def node_def)
  ultimately show "que_wf (AddToHead h node (tHead q)) q'"
    "que_nodes (AddToHead h node (tHead q)) q' = que_nodes h q @ [node]"
    by (rule que_wfI)+
qed

lemma que_link_tail:
  fixes m :: u32
  assumes "que_wf h q" "uCount q < uLimit q" "pNext h (x + uNodeHeaderOffset q) = 0"
    and "x + uNodeHeaderOffset q \<noteq> 0"
  defines "node \<equiv> x + uNodeHeaderOffset q"
    and "q' \<equiv> q\<lparr>uCount := uCount q + 1, uMaxCount := m\<rparr>"
  shows "que_wf (AddToTail h node (tHead q)) q'"
    and "que_nodes (AddToTail h node (tHead q)) q' = node # que_nodes h q"
proof -
  have out: "node \<notin> set (tHead q # que_nodes h q)"
    using linked_not_free [OF assms(1,3)] by (simp add: que_cells_def node_def)
  have "links (AddToTail h node (tHead q)) (tHead q') (node # que_nodes h q) (tHead q')"
    using links_AddToTail [OF que_wfD(1,2) [OF assms(1)] out] by (simp add: q'_def)
  moreover have "length (node # que_nodes h q) = unat (uCount q')"
    using assms(2) unat_plus_one [of "uCount q" "uLimit q"] by (simp add: q'_def word_less_nat_alt)
  moreover have "distinct (tHead q' # node # que_nodes h q)"
      "0 \<notin> set (tHead q' # node # que_nodes h q)"
      "\<forall>n \<in> set (node # que_nodes h q). uNodeHeaderOffset q' \<le> n"
    using que_wfD [OF assms(1)] out assms(4) by (auto simp: q'_def node_def)
  ultimately show "que_wf (AddToTail h node (tHead q)) q'"
    "que_nodes (AddToTail h node (tHead q)) q' = node # que_nodes h q"
    by (rule que_wfI)+
qed

lemma que_unlink:
  assumes "que_wf h q" "que_nodes h q = m # ms"
  defines "h' \<equiv> DelFromTail h m\<lparr>pNext := (pNext (DelFromTail h m))(m := 0)\<rparr>"
    and "q' \<equiv> q\<lparr>uCount := uCount q - 1\<rparr>"
  shows "que_wf h' q'" and "que_nodes h' q' = ms"
proof -
  have l: "links h (tHead q) (m # ms) (tHead q)" "distinct (tHead q # m # ms)"
    using que_wfD(1,2) [OF assms(1)] assms(2) by simp_all
  have "links h' (tHead q') ms (tHead q')"
    unfolding h'_def using links_clear_next [OF links_DelFromTail [OF l], of m] l(2)
    by (simp add: q'_def)
  moreover have "length ms = unat (uCount q')"
  proof -
    have "unat (uCount q) = Suc (length ms)" using length_que_nodes [of h q] assms(2) by simp
    moreover from this have "uCount q \<noteq> 0" by auto
    ultimately show ?thesis by (simp add: q'_def unat_minus_one_pos)
  qed
  moreover have "distinct (tHead q' # ms)" "0 \<notin> set (tHead q' # ms)"
      "\<forall>n \<in> set ms. uNodeHeaderOffset q' \<le> n"
    using que_wfD [OF assms(1)] assms(2) by (auto simp: q'_def)
  ultimately show "que_wf h' q'" "que_nodes h' q' = ms" by (rule que_wfI)+
qed

lemma que_push_simp:
  "(if uCount q + 1 > uMaxCount q then q\<lparr>uCount := uCount q + 1, uMaxCount := uCount q + 1\<rparr>
     else q\<lparr>uCount := uCount q + 1\<rparr>) =
   q\<lparr>uCount := uCount q + 1, uMaxCount := max (uMaxCount q) (uCount q + 1)\<rparr>"
  by (simp add: max_def)

lemma que_Enqueue_simp:
  "que_Enqueue h (Some q) x =
     (if uCount q < uLimit q then
        (if pNext h (x + uNodeHeaderOffset q) \<noteq> 0 then (TI_NOK, h, Some q)
         else (TI_OK, AddToHead h (x + uNodeHeaderOffset q) (tHead q),
               Some (q\<lparr>uCount := uCount q + 1, uMaxCount := max (uMaxCount q) (uCount q + 1)\<rparr>)))
      else (TI_NOK, h, Some (q\<lparr>uOverflow := uOverflow q + 1\<rparr>)))"
  by (simp add: que_Enqueue_def Let_def que_push_simp [symmetric])

lemma que_Requeue_simp:
  "que_Requeue h (Some q) x =
     (if uCount q < uLimit q then
        (if pNext h (x + uNodeHeaderOffset q) \<noteq> 0 then Inr (TI_NOK, h, q)
         else Inr (TI_OK, AddToTail h (x + uNodeHeaderOffset q) (tHead q),
               q\<lparr>uCount := uCount q + 1, uMaxCount := max (uMaxCount q) (uCount q + 1)\<rparr>))
      else Inr (TI_NOK, h, q\<lparr>uOverflow := uOverflow q + 1\<rparr>))"
  by (simp add: que_Requeue_def Let_def que_push_simp [symmetric])

lemma que_nodes_cong:
  "tHead q' = tHead q \<Longrightarrow> uCount q' = uCount q \<Longrightarrow> que_nodes h q' = que_nodes h q"
  by (simp add: que_nodes_def)

lemma que_wf_overflow [simp]: "que_wf h (q\<lparr>uOverflow := v\<rparr>) = que_wf h q"
  by (simp add: que_wf_def Let_def que_nodes_def)

lemma que_abs_overflow:
  "que_abs h (q\<lparr>uOverflow := v\<rparr>) = que_abs h q\<lparr>aq_overflow := v\<rparr>"
  by (simp add: que_abs_def que_nodes_def)

lemma que_abs_length: "length (aq_items (que_abs h q)) = unat (uCount q)"
  by (simp add: que_abs_def)

lemma que_wf_Enqueue:
  assumes "que_wf h q" "x + uNodeHeaderOffset q \<noteq> 0" "que_Enqueue h (Some q) x = (st, h', Some q')"
  shows "que_wf h' q'"
  using assms que_link_head(1) [OF assms(1) _ _ assms(2)]
  by (auto simp: que_Enqueue_simp split: if_splits)

lemma que_abs_Enqueue:
  assumes "que_wf h q" "x + uNodeHeaderOffset q \<noteq> 0" "que_Enqueue h (Some q) x = (st, h', Some q')"
  shows "aq_Enqueue (pNext h (x + uNodeHeaderOffset q) \<noteq> 0) x (que_abs h q) = (st, que_abs h' q')"
proof (cases "uCount q < uLimit q \<and> pNext h (x + uNodeHeaderOffset q) = 0")
  case True
  then show ?thesis
    using que_link_head(2) [OF assms(1) _ _ assms(2)] assms(3)
    by (auto simp: que_Enqueue_simp aq_Enqueue_def que_abs_length word_less_nat_alt que_abs_def
        aq_Size_def)
next
  case False
  with assms(3) show ?thesis
    by (auto simp: que_Enqueue_simp aq_Enqueue_def que_abs_length word_less_nat_alt
        que_abs_overflow split: if_splits) (simp_all add: que_abs_def)
qed

lemma que_wf_Requeue:
  assumes "que_wf h q" "x + uNodeHeaderOffset q \<noteq> 0" "que_Requeue h (Some q) x = Inr (st, h', q')"
  shows "que_wf h' q'"
  using assms que_link_tail(1) [OF assms(1) _ _ assms(2)]
  by (auto simp: que_Requeue_simp split: if_splits)

lemma que_abs_Requeue:
  assumes "que_wf h q" "x + uNodeHeaderOffset q \<noteq> 0" "que_Requeue h (Some q) x = Inr (st, h', q')"
  shows "aq_Requeue (pNext h (x + uNodeHeaderOffset q) \<noteq> 0) x (que_abs h q) = (st, que_abs h' q')"
proof (cases "uCount q < uLimit q \<and> pNext h (x + uNodeHeaderOffset q) = 0")
  case True
  then show ?thesis
    using que_link_tail(2) [OF assms(1) _ _ assms(2)] assms(3)
    by (auto simp: que_Requeue_simp aq_Requeue_def que_abs_length word_less_nat_alt que_abs_def
        aq_Size_def)
next
  case False
  with assms(3) show ?thesis
    by (auto simp: que_Requeue_simp aq_Requeue_def que_abs_length word_less_nat_alt
        que_abs_overflow split: if_splits) (simp_all add: que_abs_def)
qed

lemma que_Dequeue_empty: "uCount q = 0 \<Longrightarrow> que_Dequeue h (Some q) = Inr (None, h, q)"
  by (simp add: que_Dequeue_def)

lemma que_Dequeue_nodes:
  assumes "que_wf h q" "que_nodes h q = m # ms"
  shows "que_Dequeue h (Some q) =
    Inr (Some (m - uNodeHeaderOffset q),
         DelFromTail h m\<lparr>pNext := (pNext (DelFromTail h m))(m := 0)\<rparr>, q\<lparr>uCount := uCount q - 1\<rparr>)"
proof -
  have "uCount q \<noteq> 0" using assms(2) length_que_nodes [of h q] by (cases "uCount q = 0") auto
  moreover have "pPrev h (tHead q) = m" "uNodeHeaderOffset q \<le> m"
    using que_wfD(1,4) [OF assms(1)] assms(2) by auto
  ultimately show ?thesis by (simp add: que_Dequeue_def Let_def)
qed

lemma que_nodes_Nil: "que_nodes h q = [] \<longleftrightarrow> uCount q = 0"
  using length_que_nodes [of h q] by (metis length_0_conv unat_eq_zero)

text \<open>Dequeueing keeps the queue well formed, refines \<open>aq_Dequeue\<close> and frees the node header.\<close>

lemma que_Dequeue_refines:
  assumes "que_wf h q" "que_Dequeue h (Some q) = Inr (r, h', q')"
  shows "que_wf h' q'" "aq_Dequeue (que_abs h q) = (r, que_abs h' q')"
    "\<forall>x. r = Some x \<longrightarrow> pNext h' (x + uNodeHeaderOffset q) = 0 \<and> x + uNodeHeaderOffset q \<noteq> 0"
proof -
  have "que_wf h' q' \<and> aq_Dequeue (que_abs h q) = (r, que_abs h' q') \<and>
    (\<forall>x. r = Some x \<longrightarrow> pNext h' (x + uNodeHeaderOffset q) = 0 \<and> x + uNodeHeaderOffset q \<noteq> 0)"
  proof (cases "que_nodes h q")
    case Nil
    then have "uCount q = 0" by (simp add: que_nodes_Nil)
    then have "r = None" "h' = h" "q' = q" using que_Dequeue_empty [of q h] assms(2) by simp_all
    with assms(1) show ?thesis by (simp add: aq_Dequeue_def que_abs_def Nil)
  next
    case (Cons m ms)
    then have off: "uNodeHeaderOffset q \<le> m" "m \<noteq> 0" using que_wfD(3,4) [OF assms(1)] by auto
    have eq: "r = Some (m - uNodeHeaderOffset q)" "q' = q\<lparr>uCount := uCount q - 1\<rparr>"
        "h' = DelFromTail h m\<lparr>pNext := (pNext (DelFromTail h m))(m := 0)\<rparr>"
      using assms(2) que_Dequeue_nodes [OF assms(1) Cons] by simp_all
    have "que_nodes h' q' = ms" "que_wf h' q'"
      using que_unlink [OF assms(1) Cons] by (simp_all only: eq)
    moreover from this have "aq_Dequeue (que_abs h q) = (Some (m - uNodeHeaderOffset q), que_abs h' q')"
      by (simp add: aq_Dequeue_def que_abs_def Cons eq(2))
    moreover have "pNext h' m = 0" by (simp add: eq(3))
    moreover have "m - uNodeHeaderOffset q + uNodeHeaderOffset q = m" using off by simp
    ultimately have res: "que_wf h' q'"
      "aq_Dequeue (que_abs h q) = (Some (m - uNodeHeaderOffset q), que_abs h' q')"
      "pNext h' (m - uNodeHeaderOffset q + uNodeHeaderOffset q) = 0 \<and>
       m - uNodeHeaderOffset q + uNodeHeaderOffset q \<noteq> 0"
      using off(2) by simp_all
    show ?thesis
    proof (intro conjI allI impI)
      fix x
      assume "r = Some x"
      then have x: "x = m - uNodeHeaderOffset q" using eq(1) by simp
      show "pNext h' (x + uNodeHeaderOffset q) = 0" "x + uNodeHeaderOffset q \<noteq> 0"
        unfolding x using res(3) by (rule conjunct1, rule conjunct2)
    qed (use res(1,2) eq(1) in simp_all)
  qed
  then show "que_wf h' q'" "aq_Dequeue (que_abs h q) = (r, que_abs h' q')"
    "\<forall>x. r = Some x \<longrightarrow> pNext h' (x + uNodeHeaderOffset q) = 0 \<and> x + uNodeHeaderOffset q \<noteq> 0"
    by - (elim conjE, assumption)+
qed

lemma que_Create_wf:
  assumes "que_Create h a limit off = (h', Some q)"
  shows "que_wf h' q" "que_abs h' q = aq_Create limit" "uNodeHeaderOffset q = off" "tHead q = a"
  using assms by (auto simp: que_Create_def que_wf_def que_nodes_def que_abs_def aq_Create_def
      split: if_splits)

section \<open>The queue interface\<close>

text \<open>
  What the modules that own a queue rely on. \<open>ready x s\<close>: the item's node header is free.
  The laws give the order of delivery whatever the implementation is.
\<close>

locale fifo =
  fixes enq :: "'i \<Rightarrow> 's \<Rightarrow> ti_status \<times> 's"
    and deq :: "'s \<Rightarrow> 'i option \<times> 's"
    and inv :: "'s \<Rightarrow> bool"
    and items :: "'s \<Rightarrow> 'i list"
    and cap :: "'s \<Rightarrow> nat"
    and ready :: "'i \<Rightarrow> 's \<Rightarrow> bool"
  assumes enq_inv: "inv s \<Longrightarrow> ready x s \<Longrightarrow> inv (snd (enq x s))"
    and enq_room: "inv s \<Longrightarrow> ready x s \<Longrightarrow> length (items s) < cap s \<Longrightarrow>
      fst (enq x s) = TI_OK \<and> items (snd (enq x s)) = items s @ [x]"
    and enq_full: "inv s \<Longrightarrow> ready x s \<Longrightarrow> \<not> length (items s) < cap s \<Longrightarrow>
      fst (enq x s) = TI_NOK \<and> items (snd (enq x s)) = items s"
    and enq_cap: "inv s \<Longrightarrow> ready x s \<Longrightarrow> cap (snd (enq x s)) = cap s"
    and enq_ready: "inv s \<Longrightarrow> ready x s \<Longrightarrow> ready y s \<Longrightarrow> x \<noteq> y \<Longrightarrow> ready y (snd (enq x s))"
    and deq_inv: "inv s \<Longrightarrow> inv (snd (deq s))"
    and deq_Nil: "inv s \<Longrightarrow> items s = [] \<Longrightarrow> deq s = (None, s)"
    and deq_Cons: "inv s \<Longrightarrow> items s = x # xs \<Longrightarrow>
      fst (deq s) = Some x \<and> items (snd (deq s)) = xs \<and> ready x (snd (deq s))"

text \<open>Enqueueing a list, and the \<open>while ((p = que_Dequeue (q)) != NULL)\<close> loop of the owners.\<close>

fun enq_all :: "('i \<Rightarrow> 's \<Rightarrow> ti_status \<times> 's) \<Rightarrow> 'i list \<Rightarrow> 's \<Rightarrow> 's" where
  "enq_all enq [] s = s"
| "enq_all enq (x # xs) s = enq_all enq xs (snd (enq x s))"

fun drain :: "('s \<Rightarrow> 'i option \<times> 's) \<Rightarrow> nat \<Rightarrow> 's \<Rightarrow> 'i list \<times> 's" where
  "drain deq 0 s = ([], s)"
| "drain deq (Suc n) s =
     (case deq s of
        (None, s') \<Rightarrow> ([], s')
      | (Some x, s') \<Rightarrow> (let (xs, s'') = drain deq n s' in (x # xs, s'')))"

context fifo begin

lemma enq_all_items:
  assumes "inv s" "distinct xs" "\<forall>x \<in> set xs. ready x s" "length (items s) + length xs \<le> cap s"
  shows "inv (enq_all enq xs s) \<and> items (enq_all enq xs s) = items s @ xs"
  using assms
proof (induction xs arbitrary: s)
  case (Cons x xs)
  then have r: "inv s" "ready x s" "length (items s) < cap s" by auto
  have "\<forall>y \<in> set xs. ready y (snd (enq x s))"
    using Cons.prems r enq_ready by (metis distinct.simps(2) list.set_intros(1,2))
  then show ?case
    using Cons.IH [of "snd (enq x s)"] Cons.prems enq_room [OF r] enq_cap [OF r(1,2)]
      enq_inv [OF r(1,2)] by simp
qed simp

lemma drain_items:
  assumes "inv s" "length (items s) \<le> n"
  shows "fst (drain deq n s) = items s \<and> inv (snd (drain deq n s)) \<and> items (snd (drain deq n s)) = []"
  using assms
proof (induction n arbitrary: s)
  case (Suc n)
  show ?case
  proof (cases "items s")
    case Nil
    then show ?thesis using deq_Nil [OF Suc.prems(1)] Suc.prems(1) by simp
  next
    case (Cons x xs)
    then show ?thesis
      using deq_Cons [OF Suc.prems(1) Cons] deq_inv [OF Suc.prems(1)] Suc.IH [of "snd (deq s)"]
        Suc.prems by (auto simp: split_def split: prod.splits)
  qed
qed simp

lemma fifo_order:
  assumes "inv s" "items s = []" "distinct xs" "\<forall>x \<in> set xs. ready x s" "length xs \<le> cap s"
  shows "fst (drain deq (length xs) (enq_all enq xs s)) = xs"
  using enq_all_items [OF assms(1,3,4)] drain_items [of "enq_all enq xs s" "length xs"] assms by simp

end

lemma aq_Enqueue_items:
  assumes "aq_Enqueue False x q = (st, q')"
  shows "length (aq_items q) < unat (aq_limit q) \<Longrightarrow> st = TI_OK \<and> aq_items q' = aq_items q @ [x]"
    and "\<not> length (aq_items q) < unat (aq_limit q) \<Longrightarrow> st = TI_NOK \<and> aq_items q' = aq_items q"
  using assms by (auto simp: aq_Enqueue_def split: if_splits)

lemma aq_Dequeue_items:
  assumes "aq_Dequeue q = (r, q')"
  shows "aq_items q = [] \<Longrightarrow> r = None \<and> q' = q"
    and "aq_items q = x # xs \<Longrightarrow> r = Some x \<and> aq_items q' = xs"
  using assms by (auto simp: aq_Dequeue_def)

text \<open>The pointer queue, as operations on the store and the queue object.\<close>

definition que_enq :: "addr \<Rightarrow> qheap \<times> TQueue \<Rightarrow> ti_status \<times> (qheap \<times> TQueue)" where
  "que_enq x s =
     (case que_Enqueue (fst s) (Some (snd s)) x of
        (st, h, Some q) \<Rightarrow> (st, (h, q))
      | (st, h, None) \<Rightarrow> (st, s))"

definition que_deq :: "qheap \<times> TQueue \<Rightarrow> addr option \<times> (qheap \<times> TQueue)" where
  "que_deq s =
     (case que_Dequeue (fst s) (Some (snd s)) of
        Inr (r, h, q) \<Rightarrow> (r, (h, q))
      | Inl f \<Rightarrow> (None, s))"

definition que_ready :: "addr \<Rightarrow> qheap \<times> TQueue \<Rightarrow> bool" where
  "que_ready x s \<longleftrightarrow>
     pNext (fst s) (x + uNodeHeaderOffset (snd s)) = 0 \<and> x + uNodeHeaderOffset (snd s) \<noteq> 0"

definition que_items :: "qheap \<times> TQueue \<Rightarrow> addr list" where
  "que_items s = aq_items (que_abs (fst s) (snd s))"

definition que_cap :: "qheap \<times> TQueue \<Rightarrow> nat" where
  "que_cap s = unat (uLimit (snd s))"


lemma que_enq_eq:
  obtains st h' q' where "que_Enqueue h (Some q) x = (st, h', Some q')"
    and "que_enq x (h, q) = (st, (h', q'))" and "uLimit q' = uLimit q"
    and "uNodeHeaderOffset q' = uNodeHeaderOffset q" and "tHead q' = tHead q"
proof -
  obtain st h' q' where "que_Enqueue h (Some q) x = (st, h', Some q')"
    by (cases "que_Enqueue h (Some q) x") (auto simp: que_Enqueue_simp split: if_splits)
  note eq = this
  show ?thesis by (rule that [OF eq]) (use eq in \<open>auto simp: que_enq_def que_Enqueue_simp split: if_splits\<close>)
qed

lemma que_deq_eq:
  obtains r h' q' where "que_Dequeue h (Some q) = Inr (r, h', q')"
    and "que_deq (h, q) = (r, (h', q'))" and "uLimit q' = uLimit q"
    and "uNodeHeaderOffset q' = uNodeHeaderOffset q" and "tHead q' = tHead q"
proof -
  obtain r h' q' where "que_Dequeue h (Some q) = Inr (r, h', q')"
    by (cases "uCount q = 0") (auto simp: que_Dequeue_def Let_def)
  note eq = this
  show ?thesis by (rule that [OF eq]) (use eq in \<open>auto simp: que_deq_def que_Dequeue_def Let_def split: if_splits\<close>)
qed

lemma AddToHead_pNext:
  assumes "y \<noteq> node" "y \<noteq> a"
  shows "pNext (AddToHead h node a) y = pNext h y"
  using assms by (simp add: AddToHead_def InsertNode_def)

lemma que_Enqueue_ready:
  assumes "que_wf h q" "que_ready x (h, q)" "que_ready y (h, q)" "x \<noteq> y"
    and "que_Enqueue h (Some q) x = (st, h', Some q')"
  shows "que_ready y (h', q')"
proof -
  have "y + uNodeHeaderOffset q \<notin> que_cells h q"
    by (rule linked_not_free [OF assms(1)]) (use assms(3) in \<open>simp add: que_ready_def\<close>)
  then have "y + uNodeHeaderOffset q \<noteq> tHead q" by (auto simp: que_cells_def)
  with assms(2-5) show ?thesis
    by (auto simp: que_ready_def que_Enqueue_simp AddToHead_pNext split: if_splits)
qed

interpretation ptr_queue: fifo que_enq que_deq "\<lambda>s. que_wf (fst s) (snd s)" que_items que_cap que_ready
proof
  fix s x
  assume wf: "que_wf (fst s) (snd s)" and rdy: "que_ready x s"
  obtain h q where s: "s = (h, q)" by (cases s)
  obtain st h' q' where e: "que_Enqueue h (Some q) x = (st, h', Some q')" "que_enq x (h, q) = (st, (h', q'))"
      "uLimit q' = uLimit q"
    by (rule que_enq_eq)
  have nz: "x + uNodeHeaderOffset q \<noteq> 0" and "pNext h (x + uNodeHeaderOffset q) = 0"
    using rdy by (simp_all add: que_ready_def s)
  then have abs: "aq_Enqueue False x (que_abs h q) = (st, que_abs h' q')"
    using que_abs_Enqueue [OF _ nz e(1)] wf by (simp add: s)
  show "que_wf (fst (snd (que_enq x s))) (snd (snd (que_enq x s)))"
    using que_wf_Enqueue [OF _ nz e(1)] wf by (simp add: s e(2))
  show "que_cap (snd (que_enq x s)) = que_cap s" by (simp add: e que_cap_def s)
  have lim: "aq_limit (que_abs h q) = uLimit q" by (simp add: que_abs_def)
  note items = aq_Enqueue_items [OF abs, unfolded lim]
  show "fst (que_enq x s) = TI_OK \<and> que_items (snd (que_enq x s)) = que_items s @ [x]"
    if "length (que_items s) < que_cap s"
    using items that by (simp add: e s que_items_def que_cap_def)
  show "fst (que_enq x s) = TI_NOK \<and> que_items (snd (que_enq x s)) = que_items s"
    if "\<not> length (que_items s) < que_cap s"
    using items that by (simp add: e s que_items_def que_cap_def)
  show "que_ready y (snd (que_enq x s))" if "que_ready y s" "x \<noteq> y" for y
    using que_Enqueue_ready [of h q x y st h' q'] wf rdy that e by (simp add: s)
next
  fix s
  assume wf: "que_wf (fst s) (snd s)"
  obtain h q where s: "s = (h, q)" by (cases s)
  obtain r h' q' where e: "que_Dequeue h (Some q) = Inr (r, h', q')" "que_deq (h, q) = (r, (h', q'))"
      "uNodeHeaderOffset q' = uNodeHeaderOffset q"
    by (rule que_deq_eq)
  note ref = que_Dequeue_refines [OF _ e(1)]
  show "que_wf (fst (snd (que_deq s))) (snd (snd (que_deq s)))" using ref(1) wf by (simp add: s e)
  show "que_deq s = (None, s)" if "que_items s = []"
  proof -
    have "que_nodes h q = []" using that by (simp add: que_items_def que_abs_def s)
    then have "uCount q = 0" by (simp add: que_nodes_Nil)
    then show ?thesis by (simp add: que_deq_def s que_Dequeue_empty)
  qed
  show "fst (que_deq s) = Some x \<and> que_items (snd (que_deq s)) = xs \<and> que_ready x (snd (que_deq s))"
    if "que_items s = x # xs" for x xs
  proof -
    have "aq_Dequeue (que_abs h q) = (r, que_abs h' q')" using ref(2) wf by (simp add: s)
    note aq_Dequeue_items(2) [OF this]
    with that have "r = Some x" "aq_items (que_abs h' q') = xs" by (simp_all add: que_items_def s)
    then show ?thesis using ref(3) wf by (simp add: s e que_items_def que_ready_def)
  qed
qed

text \<open>The specification satisfies the same interface; an item's header is free while it is not stored.\<close>

interpretation spec_queue: fifo "aq_Enqueue False" aq_Dequeue "\<lambda>q. distinct (aq_items q)" aq_items
  "\<lambda>q. unat (aq_limit q)" "\<lambda>x q. x \<notin> set (aq_items q)"
  by unfold_locales (auto simp: aq_Enqueue_def aq_Dequeue_def split: list.splits if_splits)

section \<open>Properties\<close>

text \<open>A concrete store for the witnesses: a queue of limit 3 at address 100, items with the
  header at offset 4.\<close>

definition ex_heap :: qheap where
  "ex_heap = \<lparr>pNext = (\<lambda>_. 0), pPrev = (\<lambda>_. 0)\<rparr>"

definition ex_queue :: "qheap \<times> TQueue" where
  "ex_queue =
     (let (h, q) = que_Create ex_heap 100 3 4
      in (h, case q of Some q \<Rightarrow> q
             | None \<Rightarrow> \<lparr>tHead = 0, uCount = 0, uLimit = 0, uMaxCount = 0, uOverflow = 0,
                        uNodeHeaderOffset = 0\<rparr>))"

definition ex_queue1 :: "qheap \<times> TQueue" where
  "ex_queue1 = snd (que_enq 200 ex_queue)"

lemma ex_queue_wf: "que_wf (fst ex_queue) (snd ex_queue)" "que_items ex_queue = []"
    "que_cap ex_queue = 3" "uNodeHeaderOffset (snd ex_queue) = 4"
  by (simp_all add: ex_queue_def que_Create_def ex_heap_def que_wf_def que_nodes_def que_items_def
      que_abs_def que_cap_def)

lemma ex_queue_ready: "x \<noteq> 96 \<Longrightarrow> que_ready x ex_queue"
  by (simp add: ex_queue_def que_Create_def ex_heap_def que_ready_def)

lemma ex_queue1_wf: "que_wf (fst ex_queue1) (snd ex_queue1)"
  unfolding ex_queue1_def by (rule ptr_queue.enq_inv [OF ex_queue_wf(1)]) (simp add: ex_queue_ready)

text \<open>C32: Enqueueing through the node headers refines the bounded-list specification on every
  branch: it appends the item, counts the overflow when the limit is reached, refuses an item whose
  header is already linked, and keeps the queue well formed.\<close>

theorem que_Enqueue_refines:
  assumes "que_wf h q" "x + uNodeHeaderOffset q \<noteq> 0"
  shows "case que_Enqueue h (Some q) x of
     (st, h', Some q') \<Rightarrow>
       que_wf h' q' \<and>
       aq_Enqueue (pNext h (x + uNodeHeaderOffset q) \<noteq> 0) x (que_abs h q) = (st, que_abs h' q')
   | (st, h', None) \<Rightarrow> False"
proof -
  obtain st h' q' where e: "que_Enqueue h (Some q) x = (st, h', Some q')" by (rule que_enq_eq)
  then show ?thesis using que_wf_Enqueue [OF assms e] que_abs_Enqueue [OF assms e] by simp
qed

theorem que_Enqueue_refines_witness:
  "case que_Enqueue (fst ex_queue1) (Some (snd ex_queue1)) 200 of
     (st, h', Some q') \<Rightarrow> que_wf h' q' \<and>
       aq_Enqueue (pNext (fst ex_queue1) (200 + uNodeHeaderOffset (snd ex_queue1)) \<noteq> 0) 200
         (que_abs (fst ex_queue1) (snd ex_queue1)) = (st, que_abs h' q')
   | (st, h', None) \<Rightarrow> False"
  by (rule que_Enqueue_refines [of "fst ex_queue1" "snd ex_queue1" 200])
    (simp_all add: ex_queue1_wf)

text \<open>C33: Dequeueing refines removal of the oldest item, keeps the queue well formed and leaves the
  removed item's header free, so that it can be enqueued again.\<close>

theorem que_Dequeue_refines_spec:
  assumes "que_wf h q"
  shows "case que_Dequeue h (Some q) of
     Inr (r, h', q') \<Rightarrow>
       que_wf h' q' \<and> aq_Dequeue (que_abs h q) = (r, que_abs h' q') \<and>
       (case r of None \<Rightarrow> uCount q = 0 | Some x \<Rightarrow> que_ready x (h', q'))
   | Inl f \<Rightarrow> False"
proof -
  obtain r h' q' where e: "que_Dequeue h (Some q) = Inr (r, h', q')"
    "uNodeHeaderOffset q' = uNodeHeaderOffset q" by (rule que_deq_eq)
  moreover have "uCount q = 0" if "r = None"
    using e(1) that by (auto simp: que_Dequeue_def Let_def split: if_splits)
  ultimately show ?thesis
    using que_Dequeue_refines [OF assms e(1)] by (auto simp: que_ready_def split: option.splits)
qed

theorem que_Dequeue_refines_spec_witness:
  "case que_Dequeue (fst ex_queue1) (Some (snd ex_queue1)) of
     Inr (r, h', q') \<Rightarrow> que_wf h' q' \<and>
       aq_Dequeue (que_abs (fst ex_queue1) (snd ex_queue1)) = (r, que_abs h' q') \<and>
       (case r of None \<Rightarrow> uCount (snd ex_queue1) = 0 | Some x \<Rightarrow> que_ready x (h', q'))
   | Inl f \<Rightarrow> False"
  by (rule que_Dequeue_refines_spec [OF ex_queue1_wf])

text \<open>First in, first out: items enqueued into a well-formed empty queue within its limit
  come out of a dequeueing loop in the order they went in.\<close>

theorem que_fifo_order:
  assumes "que_wf (fst s) (snd s)" "que_items s = []"
    and "distinct xs" "\<forall>x \<in> set xs. que_ready x s" "length xs \<le> que_cap s"
  shows "fst (drain que_deq (length xs) (enq_all que_enq xs s)) = xs"
  using assms by (rule ptr_queue.fifo_order)

theorem que_fifo_order_witness:
  "fst (drain que_deq (length [200::nat, 300, 150]) (enq_all que_enq [200, 300, 150] ex_queue)) = [200, 300, 150]"
  by (rule que_fifo_order) (simp_all add: ex_queue_wf ex_queue_ready)

text \<open>Only cells of the queue and of the moved item are written.\<close>

lemma que_nodes_agree:
  assumes "\<forall>c \<in> que_cells h q. pPrev h' c = pPrev h c"
  shows "que_nodes h' q = que_nodes h q"
  using assms unfolding que_nodes_def que_cells_def by (intro walk_agree) simp

lemma que_wf_agree:
  assumes "que_wf h q" "\<forall>c \<in> que_cells h q. pPrev h' c = pPrev h c \<and> pNext h' c = pNext h c"
  shows "que_wf h' q" "que_abs h' q = que_abs h q"
proof -
  have eq: "que_nodes h' q = que_nodes h q" using assms(2) by (intro que_nodes_agree) simp
  have "links h' (tHead q) (que_nodes h q) (tHead q)"
    by (rule links_agree [OF que_wfD(1) [OF assms(1)]]) (use assms(2) in \<open>auto simp: que_cells_def\<close>)
  then show "que_wf h' q"
    using que_wfD [OF assms(1)] by (simp add: que_wf_def eq)
  show "que_abs h' q = que_abs h q" by (simp add: que_abs_def eq)
qed

lemma que_Enqueue_frame:
  assumes "que_wf h q" "que_Enqueue h (Some q) x = (st, h', Some q')"
    and "c \<notin> que_cells h q" "c \<noteq> x + uNodeHeaderOffset q"
  shows "pPrev h' c = pPrev h c \<and> pNext h' c = pNext h c"
proof -
  have "pNext h (tHead q) \<in> que_cells h q"
    using links_last [OF que_wfD(1) [OF assms(1)]] by (auto simp: que_cells_def)
  with assms show ?thesis
    by (auto simp: que_Enqueue_simp AddToHead_def InsertNode_def que_cells_def split: if_splits)
qed

lemma que_Dequeue_frame:
  assumes "que_wf h q" "que_Dequeue h (Some q) = Inr (r, h', q')" "c \<notin> que_cells h q"
  shows "pPrev h' c = pPrev h c \<and> pNext h' c = pNext h c"
proof (cases "que_nodes h q")
  case Nil
  then show ?thesis using assms(2) by (simp add: que_nodes_Nil que_Dequeue_empty)
next
  case (Cons m ms)
  have l: "links h m ms (tHead q)" "pNext h m = tHead q" using que_wfD(1) [OF assms(1)] Cons by simp_all
  then have "pPrev h m \<in> que_cells h q" "pNext h m \<in> que_cells h q"
    by (cases ms; simp add: que_cells_def Cons)+
  moreover have "m \<in> que_cells h q" using Cons by (simp add: que_cells_def)
  ultimately show ?thesis
    using assms(2,3) que_Dequeue_nodes [OF assms(1) Cons]
    by (auto simp: DelFromTail_def RemoveNode_def)
qed

text \<open>Queues sharing the store do not disturb each other: enqueueing to or dequeueing from one
  queue leaves the contents and the well-formedness of every queue with disjoint cells unchanged.\<close>

theorem que_ops_frame:
  assumes "que_wf h q" "que_wf h r" "que_cells h q \<inter> que_cells h r = {}"
  shows "(case que_Enqueue h (Some q) x of
            (st, h', q') \<Rightarrow> que_wf h' r \<and> que_abs h' r = que_abs h r) \<and>
         (case que_Dequeue h (Some q) of
            Inr (y, h', q') \<Rightarrow> que_wf h' r \<and> que_abs h' r = que_abs h r
          | Inl f \<Rightarrow> False)"
proof (rule conjI)
  obtain st h' q' where e: "que_Enqueue h (Some q) x = (st, h', Some q')" by (rule que_enq_eq)
  have "que_wf h' r \<and> que_abs h' r = que_abs h r"
  proof (cases "pNext h (x + uNodeHeaderOffset q) = 0")
    case True
    then have "\<forall>c \<in> que_cells h r. pPrev h' c = pPrev h c \<and> pNext h' c = pNext h c"
      using que_Enqueue_frame [OF assms(1) e] assms(3) linked_not_free [OF assms(2)] by blast
    then show ?thesis using que_wf_agree [OF assms(2)] by blast
  next
    case False
    then show ?thesis using e assms(2) by (auto simp: que_Enqueue_simp split: if_splits)
  qed
  then show "case que_Enqueue h (Some q) x of
      (st, h', q') \<Rightarrow> que_wf h' r \<and> que_abs h' r = que_abs h r" by (simp add: e)
next
  obtain y h' q' where e: "que_Dequeue h (Some q) = Inr (y, h', q')" by (rule que_deq_eq)
  have "\<forall>c \<in> que_cells h r. pPrev h' c = pPrev h c \<and> pNext h' c = pNext h c"
    using que_Dequeue_frame [OF assms(1) e] assms(3) by blast
  then have "que_wf h' r \<and> que_abs h' r = que_abs h r" using que_wf_agree [OF assms(2)] by blast
  then show "case que_Dequeue h (Some q) of
      Inr (y, h', q') \<Rightarrow> que_wf h' r \<and> que_abs h' r = que_abs h r | Inl f \<Rightarrow> False" by (simp add: e)
qed

text \<open>Two queues in one store, at 100 and 500, the first holding the item 200.\<close>

definition ex_two :: "qheap \<times> TQueue \<times> TQueue" where
  "ex_two =
     (let (h, q) = ex_queue1
      in (h\<lparr>pNext := (pNext h)(500 := 500), pPrev := (pPrev h)(500 := 500)\<rparr>, q,
          \<lparr>tHead = 500, uCount = 0, uLimit = 2, uMaxCount = 0, uOverflow = 0, uNodeHeaderOffset = 0\<rparr>))"

lemma ex_two_wf:
  "que_wf (fst ex_two) (fst (snd ex_two))" "que_wf (fst ex_two) (snd (snd ex_two))"
  "que_cells (fst ex_two) (fst (snd ex_two)) \<inter> que_cells (fst ex_two) (snd (snd ex_two)) = {}"
  by (simp_all add: ex_two_def ex_queue1_def ex_queue_def que_Create_def ex_heap_def que_enq_def
      que_Enqueue_def AddToHead_def InsertNode_def que_wf_def que_nodes_def que_cells_def)

theorem que_ops_frame_witness:
  "(case que_Enqueue (fst ex_two) (Some (fst (snd ex_two))) 300 of
      (st, h', q') \<Rightarrow> que_wf h' (snd (snd ex_two)) \<and>
        que_abs h' (snd (snd ex_two)) = que_abs (fst ex_two) (snd (snd ex_two))) \<and>
   (case que_Dequeue (fst ex_two) (Some (fst (snd ex_two))) of
      Inr (y, h', q') \<Rightarrow> que_wf h' (snd (snd ex_two)) \<and>
        que_abs h' (snd (snd ex_two)) = que_abs (fst ex_two) (snd (snd ex_two))
    | Inl f \<Rightarrow> False)"
  by (rule que_ops_frame [OF ex_two_wf])

end
