(* ===== verification/RxQueue.thy ===== *)
theory RxQueue
  imports Prelude "HOL-Library.While_Combinator"
begin

text \<open>
  \<open>TWD/Data_Service/RxQueue.c\<close>: the receive side of block-ack sessions. For each TID with an
  established session the module keeps a circular array of eight slots, starting at
  \<open>aWinStartArrayInex\<close> with the expected sequence number, in which packets that arrive ahead
  of the expected one wait. The calls of the receive callback and of the timer module are recorded, in
  order, in the field \<open>rx_trace\<close>. The \<open>while\<close> loops are \<^const>\<open>while_option\<close>, so that
  a loop that does not end is the value \<^term>\<open>None\<close>; a received frame is the memory from
  \<open>pFrame\<close> on.
\<close>

section \<open>Types\<close>

definition RX_QUEUE_ARRAY_SIZE :: nat where "RX_QUEUE_ARRAY_SIZE = 8"
definition RX_QUEUE_WIN_SIZE :: nat where "RX_QUEUE_WIN_SIZE = RX_QUEUE_ARRAY_SIZE"
definition RX_QUEUE_ARRAY_SIZE_BIT_MASK :: u32 where "RX_QUEUE_ARRAY_SIZE_BIT_MASK = 0x7"
definition RX_NUM_TAGS :: nat where "RX_NUM_TAGS = 8"

definition TAG_CLASS_QOS_DATA :: u8 where "TAG_CLASS_QOS_DATA = 3"
definition TAG_CLASS_BA_EVENT :: u8 where "TAG_CLASS_BA_EVENT = 6"
definition TAG_CLASS_AMSDU :: u8 where "TAG_CLASS_AMSDU = 7"

text \<open>A receive buffer: its address, the fields of \<open>RxIfDescriptor_t\<close> the module touches, and
  the frame that follows the descriptor.\<close>

record rx_pkt =
  rx_addr :: addr
  rx_status :: u8
  packet_class_tag :: u8
  pFrame :: "nat \<Rightarrow> u8"

datatype rx_event = ReceiveCb rx_pkt | StartTimer | StopTimer

record TRxQueuePacketEntry =
  pPacket :: "rx_pkt option"
  tStatus :: ti_status
  uFrameSn :: u16

record TRxQueueTidDataBase =
  aPaketsQueue :: "TRxQueuePacketEntry list"
  aTidBaEstablished :: bool
  aWinStartArrayInex :: u32
  aTidWinSize :: u32
  aTidExpectedSn :: u16

record TRxQueue =
  tSa1ArrayMng :: "TRxQueueTidDataBase list"
  tReceivePacketCB :: addr
  hReceivePacketCB_handle :: addr
  bPacketMiss :: bool
  aPacketsStored :: u16
  aFrameTid :: u8
  rx_trace :: "rx_event list"

text \<open>\<open>BA_SESSION_IS_A_BIGGER_THAN_B\<close>. The operands are promoted to 32 bits before they are
  compared, so \<open>B\<close> may lie above the 12 bits of a sequence number.\<close>

definition BA_SESSION_IS_A_BIGGER_THAN_B :: "u32 \<Rightarrow> u32 \<Rightarrow> bool" where
  "BA_SESSION_IS_A_BIGGER_THAN_B A B \<longleftrightarrow> (A - B) AND 0xFFF < 0x7FF \<and> A \<noteq> B"

section \<open>Life cycle\<close>

definition rx_empty_entry :: TRxQueuePacketEntry where
  "rx_empty_entry = \<lparr>pPacket = None, tStatus = TI_OK, uFrameSn = 0\<rparr>"

definition RxQueue_Create :: "bool \<Rightarrow> TRxQueue option" where
  "RxQueue_Create bAlloc =
     (if bAlloc
      then Some \<lparr>tSa1ArrayMng = replicate RX_NUM_TAGS
          \<lparr>aPaketsQueue = replicate RX_QUEUE_ARRAY_SIZE rx_empty_entry, aTidBaEstablished = False,
           aWinStartArrayInex = 0, aTidWinSize = 0, aTidExpectedSn = 0\<rparr>,
        tReceivePacketCB = 0, hReceivePacketCB_handle = 0, bPacketMiss = False, aPacketsStored = 0, aFrameTid = 0, rx_trace = []\<rparr>
      else None)"

definition TWD_INT_RECEIVE_PACKET :: u32 where "TWD_INT_RECEIVE_PACKET = 0x10"

definition RxQueue_Register_CB :: "TRxQueue \<Rightarrow> u32 \<Rightarrow> addr \<Rightarrow> addr \<Rightarrow> TRxQueue" where
  "RxQueue_Register_CB q uCallBackID CBFunc CBObj =
     (if uCallBackID = TWD_INT_RECEIVE_PACKET
      then q\<lparr>tReceivePacketCB := CBFunc, hReceivePacketCB_handle := CBObj\<rparr> else q)"

section \<open>Steps shared by the operations\<close>

definition rx_emit :: "rx_event \<Rightarrow> TRxQueue \<Rightarrow> TRxQueue" where
  "rx_emit e q = q\<lparr>rx_trace := rx_trace q @ [e]\<rparr>"

definition RX_DESC_STATUS_MASK :: u8 where "RX_DESC_STATUS_MASK = 7"
definition RX_DESC_STATUS_DRIVER_RX_Q_FAIL :: u8 where "RX_DESC_STATUS_DRIVER_RX_Q_FAIL = 3"

definition rx_mark :: "ti_status \<Rightarrow> rx_pkt \<Rightarrow> rx_pkt" where
  "rx_mark st p =
     (if st = TI_OK then p
      else p\<lparr>rx_status := (rx_status p AND NOT RX_DESC_STATUS_MASK) OR RX_DESC_STATUS_DRIVER_RX_Q_FAIL\<rparr>)"

definition RxQueue_PassPacket :: "ti_status \<Rightarrow> rx_pkt \<Rightarrow> TRxQueue \<Rightarrow> TRxQueue" where
  "RxQueue_PassPacket st p q = rx_emit (ReceiveCb (rx_mark st p)) q"

definition rx_tid :: "TRxQueue \<Rightarrow> nat \<Rightarrow> TRxQueueTidDataBase" where
  "rx_tid q t = tSa1ArrayMng q ! t"

definition rx_set_tid :: "nat \<Rightarrow> TRxQueueTidDataBase \<Rightarrow> TRxQueue \<Rightarrow> TRxQueue" where
  "rx_set_tid t db q = q\<lparr>tSa1ArrayMng := (tSa1ArrayMng q)[t := db]\<rparr>"

text \<open>The slot at the start of the window.\<close>

definition rx_head :: "TRxQueueTidDataBase \<Rightarrow> TRxQueuePacketEntry" where
  "rx_head db = aPaketsQueue db ! unat (aWinStartArrayInex db)"

definition rx_next_index :: "TRxQueueTidDataBase \<Rightarrow> TRxQueueTidDataBase" where
  "rx_next_index db =
     db\<lparr>aWinStartArrayInex := (aWinStartArrayInex db + 1) AND RX_QUEUE_ARRAY_SIZE_BIT_MASK\<rparr>"

definition rx_next_sn :: "TRxQueueTidDataBase \<Rightarrow> TRxQueueTidDataBase" where
  "rx_next_sn db = db\<lparr>aTidExpectedSn := (aTidExpectedSn db + 1) AND 0xfff\<rparr>"

text \<open>Take the packet of the slot at the window start, count it and pass it up.\<close>

definition rx_take :: "nat \<Rightarrow> TRxQueue \<Rightarrow> TRxQueue" where
  "rx_take t q =
     (let db = rx_tid q t; i = unat (aWinStartArrayInex db); e = aPaketsQueue db ! i in
      case pPacket e of
        None \<Rightarrow> q
      | Some p \<Rightarrow>
          (let q = rx_set_tid t (db\<lparr>aPaketsQueue := (aPaketsQueue db)[i := e\<lparr>pPacket := None\<rparr>]\<rparr>) q;
               q = q\<lparr>aPacketsStored := aPacketsStored q - 1\<rparr>
           in RxQueue_PassPacket (tStatus e) p q))"

definition rx_advance :: "nat \<Rightarrow> TRxQueue \<Rightarrow> TRxQueue" where
  "rx_advance t q = rx_set_tid t (rx_next_sn (rx_next_index (rx_tid q t))) q"

definition rx_stop_timer :: "TRxQueue \<Rightarrow> TRxQueue" where
  "rx_stop_timer q = (if bPacketMiss q then (rx_emit StopTimer q)\<lparr>bPacketMiss := False\<rparr> else q)"

definition rx_start_timer :: "nat \<Rightarrow> TRxQueue \<Rightarrow> TRxQueue" where
  "rx_start_timer t q =
     (if aPacketsStored q \<noteq> 0
      then (rx_emit StartTimer q)\<lparr>bPacketMiss := True, aFrameTid := of_nat t\<rparr> else q)"

text \<open>Pass all consecutive packets from the window start.\<close>

definition rx_drain :: "nat \<Rightarrow> TRxQueue \<Rightarrow> TRxQueue option" where
  "rx_drain t q =
     while_option (\<lambda>q. pPacket (rx_head (rx_tid q t)) \<noteq> None) (\<lambda>q. rx_advance t (rx_take t q)) q"

definition rx_store :: "nat \<Rightarrow> nat \<Rightarrow> TRxQueuePacketEntry \<Rightarrow> TRxQueue \<Rightarrow> TRxQueue" where
  "rx_store t i e q =
     (let db = rx_tid q t;
          q = rx_set_tid t (db\<lparr>aPaketsQueue := (aPaketsQueue db)[i := e]\<rparr>) q
      in q\<lparr>aPacketsStored := aPacketsStored q + 1\<rparr>)"

text \<open>The slot for a sequence number ahead of the expected one.\<close>

definition rx_save_index :: "TRxQueueTidDataBase \<Rightarrow> u16 \<Rightarrow> nat" where
  "rx_save_index db sn =
     (let d = (ucast ((ucast sn + 0x1000 - ucast (aTidExpectedSn db) :: u32) AND 0xFFF) :: u16);
          i = (ucast (aWinStartArrayInex db + ucast d) :: u16)
      in unat (i AND ucast RX_QUEUE_ARRAY_SIZE_BIT_MASK))"

definition rx_entry :: "rx_pkt \<Rightarrow> u16 \<Rightarrow> TRxQueuePacketEntry" where
  "rx_entry p sn = \<lparr>pPacket = Some p, tStatus = TI_OK, uFrameSn = sn\<rparr>"

section \<open>Closing a session\<close>

definition RxQueue_CloseBaSession :: "TRxQueue \<Rightarrow> nat \<Rightarrow> TRxQueue" where
  "RxQueue_CloseBaSession q t =
     (if t \<ge> RX_NUM_TAGS then q
      else if aTidBaEstablished (rx_tid q t) then
        (let q = rx_set_tid t ((rx_tid q t)\<lparr>aTidBaEstablished := False\<rparr>) q;
             q = ((\<lambda>q. let q = rx_take t q in rx_set_tid t (rx_next_index (rx_tid q t)) q)
                   ^^ min RX_QUEUE_ARRAY_SIZE RX_QUEUE_WIN_SIZE) q
         in rx_stop_timer q)
      else q)"

section \<open>Data packets\<close>

text \<open>Part 1: the expected packet.\<close>

definition rx_expected :: "nat \<Rightarrow> rx_pkt \<Rightarrow> TRxQueue \<Rightarrow> TRxQueue option" where
  "rx_expected t p q =
     (let q = rx_stop_timer q;
          q = RxQueue_PassPacket TI_OK p q;
          q = rx_advance t q
      in map_option (rx_start_timer t) (rx_drain t q))"

text \<open>Part 2: a packet inside the window.\<close>

definition rx_inside :: "nat \<Rightarrow> rx_pkt \<Rightarrow> u16 \<Rightarrow> TRxQueue \<Rightarrow> TRxQueue" where
  "rx_inside t p sn q =
     (let i = rx_save_index (rx_tid q t) sn in
      if pPacket (aPaketsQueue (rx_tid q t) ! i) = None then
        (let q = rx_store t i (rx_entry p sn) q in
         if \<not> bPacketMiss q
         then (rx_emit StartTimer q)\<lparr>bPacketMiss := True, aFrameTid := of_nat t\<rparr> else q)
      else RxQueue_PassPacket TI_NOK p q)"

text \<open>The bounded loop of part 3 that passes the packets below the new window start; returns the
  loop counter.\<close>

function rx_skip :: "nat \<Rightarrow> u16 \<Rightarrow> nat \<Rightarrow> TRxQueue \<Rightarrow> nat \<times> TRxQueue" where
  "rx_skip t uNewWinStartSn i q =
     (if BA_SESSION_IS_A_BIGGER_THAN_B (ucast uNewWinStartSn) (ucast (aTidExpectedSn (rx_tid q t))) \<and>
         i < RX_QUEUE_ARRAY_SIZE \<and> i < unat (aTidWinSize (rx_tid q t))
      then rx_skip t uNewWinStartSn (i + 1) (rx_advance t (rx_take t q))
      else (i, q))"
  by pat_completeness auto
termination by (relation "measure (\<lambda>(t, sn, i, q). RX_QUEUE_ARRAY_SIZE - i)") auto

text \<open>Part 3: a packet beyond the window.\<close>

definition rx_new_start :: "u16 \<Rightarrow> u32 \<Rightarrow> u16" where
  "rx_new_start sn w = ucast ((ucast sn + 0x1000 - w + 1 :: u32) AND 0xFFF)"

definition rx_beyond_place :: "nat \<Rightarrow> rx_pkt \<Rightarrow> u16 \<Rightarrow> TRxQueue \<Rightarrow> TRxQueue" where
  "rx_beyond_place t p sn q =
     (if aTidExpectedSn (rx_tid q t) = sn
      then rx_set_tid t (rx_next_sn (rx_tid q t)) (RxQueue_PassPacket TI_OK p q)
      else rx_store t (rx_save_index (rx_tid q t) sn) (rx_entry p sn) q)"

definition rx_beyond :: "nat \<Rightarrow> rx_pkt \<Rightarrow> u16 \<Rightarrow> TRxQueue \<Rightarrow> TRxQueue option" where
  "rx_beyond t p sn q =
     (let w = aTidWinSize (rx_tid q t);
          uNewWinStartSn = rx_new_start sn w;
          q = rx_stop_timer q;
          q = rx_advance t q;
          (i, q) = rx_skip t uNewWinStartSn 0 q
      in map_option (\<lambda>q. rx_start_timer t (rx_beyond_place t p sn q))
           (if i = unat w
            then Some (rx_set_tid t ((rx_tid q t)\<lparr>aTidExpectedSn := uNewWinStartSn\<rparr>) q)
            else rx_drain t q))"

definition rx_word :: "rx_pkt \<Rightarrow> nat \<Rightarrow> u16" where
  "rx_word p off = ucast (pFrame p off) OR push_bit 8 (ucast (pFrame p (off + 1)))"

text \<open>Offsets of \<open>dot11_header_t\<close> and sizes of the headers before the frame bodies.\<close>

definition OFS_FC :: nat where "OFS_FC = 0"
definition OFS_SEQ_CTRL :: nat where "OFS_SEQ_CTRL = 22"
definition OFS_QOS_CTRL :: nat where "OFS_QOS_CTRL = 24"
definition BAR_HDR_SIZE :: nat where "BAR_HDR_SIZE = 16"
definition MGMT_HDR_SIZE :: nat where "MGMT_HDR_SIZE = 24"

definition DOT11_SC_SEQ_NUM_MASK :: u16 where "DOT11_SC_SEQ_NUM_MASK = 0xfff0"

definition rx_sn :: "rx_pkt \<Rightarrow> u16" where
  "rx_sn p = drop_bit 4 (rx_word p OFS_SEQ_CTRL AND DOT11_SC_SEQ_NUM_MASK)"

definition rx_established :: "nat \<Rightarrow> rx_pkt \<Rightarrow> TRxQueue \<Rightarrow> TRxQueue option" where
  "rx_established t p q =
     (let sn = rx_sn p; db = rx_tid q t;
          esn = (ucast (aTidExpectedSn db) :: u32);
          winEnd = esn + aTidWinSize db - 1
      in if sn = aTidExpectedSn db then rx_expected t p q
         else if \<not> BA_SESSION_IS_A_BIGGER_THAN_B (ucast sn) esn then Some (RxQueue_PassPacket TI_OK p q)
         else if BA_SESSION_IS_A_BIGGER_THAN_B (ucast sn) esn \<and>
                 \<not> BA_SESSION_IS_A_BIGGER_THAN_B (ucast sn) winEnd
         then Some (rx_inside t p sn q)
         else rx_beyond t p sn q)"

definition DOT11_QOS_CONTROL_FIELD_TID_BITS :: u16 where "DOT11_QOS_CONTROL_FIELD_TID_BITS = 0x000f"
definition DOT11_QOS_CONTROL_FIELD_A_MSDU_BITS :: u16 where "DOT11_QOS_CONTROL_FIELD_A_MSDU_BITS = 0x0080"

definition rx_data :: "rx_pkt \<Rightarrow> TRxQueue \<Rightarrow> TRxQueue option" where
  "rx_data p q =
     (let t = unat (rx_word p OFS_QOS_CTRL AND DOT11_QOS_CONTROL_FIELD_TID_BITS) in
      if t \<ge> RX_NUM_TAGS then Some (RxQueue_PassPacket TI_NOK p q)
      else if \<not> aTidBaEstablished (rx_tid q t) then Some (RxQueue_PassPacket TI_OK p q)
      else rx_established t p q)"

section \<open>Block-ack events\<close>

text \<open>\<open>Inl\<close>: the handler returned; \<open>Inr\<close>: it reached the end, where the event frame is passed.\<close>

function rx_bar_flush :: "nat \<Rightarrow> u16 \<Rightarrow> nat \<Rightarrow> TRxQueue \<Rightarrow> TRxQueue" where
  "rx_bar_flush t uWinStartDelta i q =
     (if (i < unat uWinStartDelta \<or> pPacket (rx_head (rx_tid q t)) \<noteq> None) \<and>
         i < RX_QUEUE_ARRAY_SIZE \<and> i < RX_QUEUE_WIN_SIZE
      then (let q = rx_take t q in rx_bar_flush t uWinStartDelta (i + 1) (rx_set_tid t (rx_next_index (rx_tid q t)) q))
      else q)"
  by pat_completeness auto
termination by (relation "measure (\<lambda>(t, d, i, q). RX_QUEUE_ARRAY_SIZE - i)") auto

definition rx_bar :: "rx_pkt \<Rightarrow> TRxQueue \<Rightarrow> TRxQueue + TRxQueue" where
  "rx_bar p q =
     (let t = unat (drop_bit 12 (rx_word p BAR_HDR_SIZE AND 0xf000)) in
      if t \<ge> RX_NUM_TAGS then Inl (RxQueue_PassPacket TI_NOK p q)
      else if \<not> aTidBaEstablished (rx_tid q t) then Inl (RxQueue_PassPacket TI_NOK p q)
      else
        (let ssn = drop_bit 4 (rx_word p (BAR_HDR_SIZE + 2) AND DOT11_SC_SEQ_NUM_MASK);
             esn = aTidExpectedSn (rx_tid q t)
         in if BA_SESSION_IS_A_BIGGER_THAN_B (ucast ssn) (ucast esn) then
              (let uWinStartDelta = ssn - esn;
                   q = rx_stop_timer q;
                   q = rx_bar_flush t uWinStartDelta 0 q;
                   q = rx_start_timer t q
               in Inr (rx_set_tid t ((rx_tid q t)\<lparr>aTidExpectedSn := ssn\<rparr>) q))
            else Inr q))"

definition rx_addba :: "rx_pkt \<Rightarrow> TRxQueue \<Rightarrow> TRxQueue + TRxQueue" where
  "rx_addba p q =
     (let par = rx_word p (MGMT_HDR_SIZE + 3);
          t = unat (drop_bit 2 (par AND 0x003C))
      in if t \<ge> RX_NUM_TAGS then Inl (RxQueue_PassPacket TI_NOK p q)
         else if aTidBaEstablished (rx_tid q t) then Inl (RxQueue_PassPacket TI_NOK p q)
         else
           (let w = (ucast (drop_bit 6 (par AND 0xffC0)) :: u32);
                w = (if w > of_nat RX_QUEUE_WIN_SIZE then of_nat RX_QUEUE_WIN_SIZE else w);
                ssn = rx_word p (MGMT_HDR_SIZE + 7)
            in Inr (rx_set_tid t \<lparr>aPaketsQueue = replicate RX_QUEUE_ARRAY_SIZE rx_empty_entry,
                 aTidBaEstablished = True, aWinStartArrayInex = 0, aTidWinSize = w,
                 aTidExpectedSn = drop_bit 4 (ssn AND DOT11_SC_SEQ_NUM_MASK)\<rparr> q)))"

definition rx_delba :: "rx_pkt \<Rightarrow> TRxQueue \<Rightarrow> TRxQueue + TRxQueue" where
  "rx_delba p q =
     (let t = unat (drop_bit 12 (rx_word p (MGMT_HDR_SIZE + 2) AND 0xf000)) in
      if t \<ge> RX_NUM_TAGS then Inl (RxQueue_PassPacket TI_NOK p q)
      else if \<not> aTidBaEstablished (rx_tid q t) then Inl (RxQueue_PassPacket TI_NOK p q)
      else Inr (RxQueue_CloseBaSession q t))"

definition DOT11_FC_SUB_MASK :: u16 where "DOT11_FC_SUB_MASK = 0x00f0"
definition DOT11_FC_SUB_BAR :: u16 where "DOT11_FC_SUB_BAR = 0x0080"
definition DOT11_FC_SUB_ACTION :: u16 where "DOT11_FC_SUB_ACTION = 0x00d0"
definition DOT11_BA_ACTION_ADDBA :: u8 where "DOT11_BA_ACTION_ADDBA = 0"
definition DOT11_BA_ACTION_DELBA :: u8 where "DOT11_BA_ACTION_DELBA = 2"

definition rx_ba_event :: "rx_pkt \<Rightarrow> TRxQueue \<Rightarrow> TRxQueue + TRxQueue" where
  "rx_ba_event p q =
     (let sub = rx_word p OFS_FC AND DOT11_FC_SUB_MASK in
      if sub = DOT11_FC_SUB_BAR then rx_bar p q
      else if sub = DOT11_FC_SUB_ACTION then
        (let action = pFrame p (MGMT_HDR_SIZE + 1) in
         if action = DOT11_BA_ACTION_ADDBA then rx_addba p q
         else if action = DOT11_BA_ACTION_DELBA then rx_delba p q
         else Inl (RxQueue_PassPacket TI_NOK p q))
      else Inl (RxQueue_PassPacket TI_NOK p q))"

section \<open>The receive function\<close>

definition IS_QOS_FRAME :: "u16 \<Rightarrow> bool" where
  "IS_QOS_FRAME fc \<longleftrightarrow> fc AND 0x00fc = 0x0088 \<or> fc AND 0x00fc = 0x00c8"

definition rx_fix_tag :: "rx_pkt \<Rightarrow> rx_pkt" where
  "rx_fix_tag p =
     (if IS_QOS_FRAME (rx_word p OFS_FC) \<and> packet_class_tag p \<noteq> TAG_CLASS_QOS_DATA \<and>
         packet_class_tag p \<noteq> TAG_CLASS_AMSDU
      then if rx_word p OFS_QOS_CTRL AND DOT11_QOS_CONTROL_FIELD_A_MSDU_BITS \<noteq> 0
           then p\<lparr>packet_class_tag := TAG_CLASS_AMSDU\<rparr>
           else p\<lparr>packet_class_tag := TAG_CLASS_QOS_DATA\<rparr>
      else p)"

definition RxQueue_ReceivePacket :: "TRxQueue \<Rightarrow> rx_pkt \<Rightarrow> TRxQueue option" where
  "RxQueue_ReceivePacket q p =
     (let p = rx_fix_tag p; tag = packet_class_tag p in
      if tag \<noteq> TAG_CLASS_QOS_DATA \<and> tag \<noteq> TAG_CLASS_BA_EVENT \<and> tag \<noteq> TAG_CLASS_AMSDU
      then Some (RxQueue_PassPacket TI_OK p q)
      else if tag = TAG_CLASS_QOS_DATA \<or> tag = TAG_CLASS_AMSDU then rx_data p q
      else (case rx_ba_event p q of
              Inl q \<Rightarrow> Some q
            | Inr q \<Rightarrow> Some (RxQueue_PassPacket TI_OK p q)))"

section \<open>The packet timer\<close>

text \<open>Find the first stored packet; the loop has no other exit.\<close>

definition rx_find :: "nat \<Rightarrow> TRxQueue \<Rightarrow> TRxQueue option" where
  "rx_find t q = while_option (\<lambda>q. pPacket (rx_head (rx_tid q t)) = None) (rx_advance t) q"

definition rx_send_stored :: "nat \<Rightarrow> TRxQueue \<Rightarrow> TRxQueue option" where
  "rx_send_stored t q =
     while_option (\<lambda>q. aPacketsStored q > 0 \<and> pPacket (rx_head (rx_tid q t)) \<noteq> None)
       (\<lambda>q. rx_advance t (rx_take t q)) q"

definition RxQueue_PacketTimeOut :: "TRxQueue \<Rightarrow> TRxQueue option" where
  "RxQueue_PacketTimeOut q =
     (let q = q\<lparr>bPacketMiss := False\<rparr>;
          t = unat (aFrameTid q)
      in map_option
           (\<lambda>q. if aPacketsStored q \<noteq> 0 then (rx_emit StartTimer q)\<lparr>bPacketMiss := True\<rparr> else q)
           (if aPacketsStored q \<noteq> 0
            then (case rx_find t q of None \<Rightarrow> None | Some q \<Rightarrow> rx_send_stored t q)
            else Some q))"

end
