(* ===== verification/RxWindow.thy ===== *)
theory RxWindow
  imports RxQueue "HOL-Library.Multiset"
begin

text \<open>Proofs about the receive reordering queue, model in theory \<open>RxQueue\<close>: the circular array of one
  TID seen as a window of optional packets that starts at the expected sequence number, what each
  step does to that window, and the invariant of an established session.\<close>

section \<open>The window\<close>

text \<open>The slots in window order: position \<open>k\<close> waits for the sequence number \<open>aTidExpectedSn + k\<close>.\<close>

definition rx_window :: "TRxQueueTidDataBase \<Rightarrow> rx_pkt option list" where
  "rx_window db = rotate (unat (aWinStartArrayInex db)) (map pPacket (aPaketsQueue db))"

definition rx_shift :: "nat \<Rightarrow> 'a option list \<Rightarrow> 'a option list" where
  "rx_shift m xs = map (\<lambda>k. if m + k < length xs then xs ! (m + k) else None) [0..<length xs]"

definition somes :: "'a option list \<Rightarrow> 'a list" where
  "somes xs = map the (filter (\<lambda>x. x \<noteq> None) xs)"

definition rx_passed :: "TRxQueue \<Rightarrow> rx_pkt list" where
  "rx_passed q = List.map_filter (\<lambda>e. case e of ReceiveCb p \<Rightarrow> Some p | _ \<Rightarrow> None) (rx_trace q)"

lemma somes_simps [simp]:
  "somes [] = []" "somes (None # xs) = somes xs" "somes (Some x # xs) = x # somes xs"
  "somes (xs @ ys) = somes xs @ somes ys"
  by (simp_all add: somes_def)

lemma length_rx_shift [simp]: "length (rx_shift m xs) = length xs"
  by (simp add: rx_shift_def)

lemma nth_rx_shift [simp]:
  "k < length xs \<Longrightarrow> rx_shift m xs ! k = (if m + k < length xs then xs ! (m + k) else None)"
  by (simp add: rx_shift_def)

lemma rx_shift_0 [simp]: "rx_shift 0 xs = xs"
  by (rule nth_equalityI) auto

lemma rx_shift_shift: "rx_shift n (rx_shift m xs) = rx_shift (m + n) xs"
  by (rule nth_equalityI) (auto simp: add.assoc)

lemma rx_shift_Suc_Cons: "rx_shift (Suc m) (x # xs) = rx_shift m (xs @ [None])"
  by (rule nth_equalityI) (auto simp: nth_append nth_Cons' not_less)

lemma somes_take_shift: "somes (take n (rx_shift m xs)) = somes (take n (drop m xs))"
proof -
  have "rx_shift m xs = drop m xs @ replicate (min m (length xs)) None"
    by (rule nth_equalityI) (auto simp: nth_append intro!: nth_replicate [symmetric])
  moreover have "somes (replicate j None) = []" for j by (simp add: somes_def)
  ultimately show ?thesis by (simp add: take_replicate)
qed

lemma somes_take_add: "somes (take m xs) @ somes (take n (rx_shift m xs)) = somes (take (m + n) xs)"
  by (simp add: somes_take_shift take_add)

lemma length_somes_shift: "length (somes (take m xs)) + length (somes (rx_shift m xs)) = length (somes xs)"
proof -
  have "somes (rx_shift m xs) = somes (drop m xs)"
    using somes_take_shift [of "length xs" m xs] by simp
  then show ?thesis by (metis append_take_drop_id length_append somes_simps(4))
qed

section \<open>Machine arithmetic of the window\<close>

lemma unat_and_7: "unat (x AND 0x7 :: 'a::len word) = unat x mod 8" if "3 < LENGTH('a)"
proof -
  have e: "x AND 0x7 = take_bit 3 x" by (simp add: take_bit_eq_mask mask_eq_exp_minus_1)
  have "unat (x AND 0x7) = take_bit 3 (unat x)" unfolding e by (rule unsigned_take_bit_eq)
  then show ?thesis by (simp only: take_bit_eq_mod) simp
qed

lemma unat_and_fff: "unat (x AND 0xFFF :: 'a::len word) = unat x mod 4096" if "12 < LENGTH('a)"
proof -
  have e: "x AND 0xFFF = take_bit 12 x" by (simp add: take_bit_eq_mask mask_eq_exp_minus_1)
  have "unat (x AND 0xFFF) = take_bit 12 (unat x)" unfolding e by (rule unsigned_take_bit_eq)
  then show ?thesis by (simp only: take_bit_eq_mod) simp
qed

lemma rx_sn_lt: "unat (rx_sn p) < 4096"
proof -
  have "unat (rx_sn p) = unat (rx_word p OFS_SEQ_CTRL AND DOT11_SC_SEQ_NUM_MASK) div 16"
    by (simp add: rx_sn_def drop_bit_eq_div unat_div)
  also have "\<dots> < 4096" using unat_bound [of "rx_word p OFS_SEQ_CTRL AND DOT11_SC_SEQ_NUM_MASK"] by simp
  finally show ?thesis .
qed

lemma unat_sub_mod:
  fixes A B :: u32
  assumes "unat A < 8192" "unat B < 8192"
  shows "unat ((A - B) AND 0xFFF) = (unat A + 8192 - unat B) mod 4096"
proof -
  have "unat ((A - B) AND 0xFFF) = unat (A - B) mod 4096" by (simp add: unat_and_fff)
  also have "\<dots> = (unat A + 8192 - unat B) mod 4096"
  proof (cases "unat B \<le> unat A")
    case True
    then have "unat A + 8192 - unat B = (unat A - unat B) + 2 * 4096" by simp
    then have "(unat A + 8192 - unat B) mod 4096 = (unat A - unat B) mod 4096"
      by (simp only: mod_mult_self1)
    then show ?thesis using True by (simp add: unat_sub_le)
  next
    case False
    then have "unat (A - B) = (unat A + 8192 - unat B) + 1048574 * 4096"
      using assms by (simp add: unat_sub_if')
    then show ?thesis by (simp only: mod_mult_self1)
  qed
  finally show ?thesis .
qed

lemma BA_BIGGER_nat:
  assumes "unat A < 8192" "unat B < 8192"
  shows "BA_SESSION_IS_A_BIGGER_THAN_B A B \<longleftrightarrow>
    (unat A + 8192 - unat B) mod 4096 < 0x7FF \<and> unat A \<noteq> unat B"
  using unat_sub_mod [OF assms]
  by (simp add: BA_SESSION_IS_A_BIGGER_THAN_B_def word_less_nat_alt word_unat_eq_iff)

text \<open>The distance of a sequence number from the expected one, modulo 4096.\<close>

definition sn_off :: "nat \<Rightarrow> nat \<Rightarrow> nat" where
  "sn_off e s = (s + 4096 - e) mod 4096"

lemma sn_off_lt [simp]: "sn_off e s < 4096"
  by (simp add: sn_off_def)

lemma sn_off_if:
  assumes "e < 4096" "s < 4096"
  shows "sn_off e s = (if e \<le> s then s - e else s + 4096 - e)"
proof (cases "e \<le> s")
  case True
  then have "s + 4096 - e = (s - e) + 4096" by simp
  then show ?thesis using True assms unfolding sn_off_def by (simp only: mod_add_self2) simp
next
  case False
  then show ?thesis using assms by (simp add: sn_off_def)
qed

lemma add_mod_4096:
  assumes "e < 4096" "k < (4096 :: nat)"
  shows "(e + k) mod 4096 = (if e + k < 4096 then e + k else e + k - 4096)"
  using assms by (simp add: mod_if)

lemma sn_off_add:
  assumes "e < 4096" "k < 4096"
  shows "sn_off e ((e + k) mod 4096) = k"
  using assms by (auto simp: sn_off_if add_mod_4096)

lemma sn_off_inv:
  assumes "e < 4096" "s < 4096"
  shows "(e + sn_off e s) mod 4096 = s"
  using assms add_mod_4096 [OF assms(1) sn_off_lt, of e s] by (simp add: sn_off_if split: if_splits)

lemma sn_off_0: "e < 4096 \<Longrightarrow> s < 4096 \<Longrightarrow> sn_off e s = 0 \<longleftrightarrow> s = e"
  by (simp add: sn_off_if)

lemma sn_off_step:
  assumes "e < 4096" "s < 4096" "m \<le> sn_off e s"
  shows "sn_off ((e + m) mod 4096) s = sn_off e s - m"
proof -
  have m: "m < 4096" by (rule le_less_trans [OF assms(3) sn_off_lt])
  show ?thesis
    using assms(3) unfolding add_mod_4096 [OF assms(1) m]
    using assms(1,2) m by (cases "e + m < 4096"; cases "e \<le> s") (simp_all add: sn_off_if)
qed

lemma BA_BIGGER_off:
  assumes "e < 4096" "unat s < 4096" "unat B = e"
  shows "BA_SESSION_IS_A_BIGGER_THAN_B (ucast (s :: u16)) B \<longleftrightarrow> 0 < sn_off e (unat s) \<and> sn_off e (unat s) < 0x7FF"
proof -
  have "(unat s + 8192 - e) mod 4096 = sn_off e (unat s)"
  proof -
    have "unat s + 8192 - e = (unat s + 4096 - e) + 4096" using assms(1) by simp
    then show ?thesis unfolding sn_off_def by (simp only: mod_add_self2)
  qed
  then show ?thesis
    using assms sn_off_0 [OF assms(1,2)] by (auto simp: BA_BIGGER_nat)
qed

section \<open>The state of one TID\<close>

text \<open>The session of TID \<open>t\<close> expects \<open>e\<close> and holds the window \<open>win\<close>.\<close>

definition rx_is :: "nat \<Rightarrow> nat \<Rightarrow> rx_pkt option list \<Rightarrow> TRxQueue \<Rightarrow> bool" where
  "rx_is t e win q \<longleftrightarrow>
     t < length (tSa1ArrayMng q) \<and>
     length (aPaketsQueue (rx_tid q t)) = RX_QUEUE_ARRAY_SIZE \<and>
     unat (aWinStartArrayInex (rx_tid q t)) < RX_QUEUE_ARRAY_SIZE \<and>
     unat (aTidExpectedSn (rx_tid q t)) = e \<and> e < 4096 \<and>
     (\<forall>s \<in> set (aPaketsQueue (rx_tid q t)). tStatus s = TI_OK) \<and>
     rx_window (rx_tid q t) = win"

text \<open>The packets stored for all TIDs, which \<open>aPacketsStored\<close> counts.\<close>

definition rx_stored_of :: "TRxQueueTidDataBase \<Rightarrow> nat" where
  "rx_stored_of db = length (somes (rx_window db))"

definition rx_counted :: "TRxQueue \<Rightarrow> bool" where
  "rx_counted q \<longleftrightarrow>
     unat (aPacketsStored q) = sum_list (map rx_stored_of (tSa1ArrayMng q)) \<and>
     length (tSa1ArrayMng q) = RX_NUM_TAGS \<and>
     (\<forall>db \<in> set (tSa1ArrayMng q). length (aPaketsQueue db) = RX_QUEUE_ARRAY_SIZE)"

text \<open>What an operation on TID \<open>t\<close> leaves alone.\<close>

definition rx_same :: "nat \<Rightarrow> TRxQueue \<Rightarrow> TRxQueue \<Rightarrow> bool" where
  "rx_same t q q' \<longleftrightarrow>
     length (tSa1ArrayMng q') = length (tSa1ArrayMng q) \<and>
     (\<forall>t'. t' \<noteq> t \<longrightarrow> rx_tid q' t' = rx_tid q t') \<and>
     aTidBaEstablished (rx_tid q' t) = aTidBaEstablished (rx_tid q t) \<and>
     aTidWinSize (rx_tid q' t) = aTidWinSize (rx_tid q t)"

lemma rx_same_refl [simp]: "rx_same t q q"
  by (simp add: rx_same_def)

lemma rx_same_trans: "rx_same t q q1 \<Longrightarrow> rx_same t q1 q2 \<Longrightarrow> rx_same t q q2"
  by (simp add: rx_same_def)

lemma rx_window_length [simp]: "length (rx_window db) = length (aPaketsQueue db)"
  by (simp add: rx_window_def)

lemma rx_window_nth:
  "k < length (aPaketsQueue db) \<Longrightarrow> rx_window db ! k =
   pPacket (aPaketsQueue db ! ((unat (aWinStartArrayInex db) + k) mod length (aPaketsQueue db)))"
  by (cases "aPaketsQueue db = []") (simp_all add: rx_window_def nth_rotate)

lemma rx_is_length: "rx_is t e win q \<Longrightarrow> length win = RX_QUEUE_ARRAY_SIZE"
  by (auto simp: rx_is_def)

lemma rx_head_window:
  "rx_is t e win q \<Longrightarrow> pPacket (rx_head (rx_tid q t)) = win ! 0"
  by (auto simp: rx_is_def rx_head_def rx_window_nth RX_QUEUE_ARRAY_SIZE_def)

lemma rx_tid_set [simp]:
  "t < length (tSa1ArrayMng q) \<Longrightarrow> rx_tid (rx_set_tid t db q) t = db"
  "t' \<noteq> t \<Longrightarrow> rx_tid (rx_set_tid t db q) t' = rx_tid q t'"
  by (simp_all add: rx_tid_def rx_set_tid_def)

lemma rx_set_tid_fields [simp]:
  "length (tSa1ArrayMng (rx_set_tid t db q)) = length (tSa1ArrayMng q)"
  "aPacketsStored (rx_set_tid t db q) = aPacketsStored q"
  "bPacketMiss (rx_set_tid t db q) = bPacketMiss q"
  "aFrameTid (rx_set_tid t db q) = aFrameTid q"
  "rx_trace (rx_set_tid t db q) = rx_trace q"
  by (simp_all add: rx_set_tid_def)

lemma rx_emit_fields [simp]:
  "tSa1ArrayMng (rx_emit e q) = tSa1ArrayMng q" "aPacketsStored (rx_emit e q) = aPacketsStored q"
  "bPacketMiss (rx_emit e q) = bPacketMiss q" "aFrameTid (rx_emit e q) = aFrameTid q"
  "rx_tid (rx_emit e q) t = rx_tid q t"
  by (simp_all add: rx_emit_def rx_tid_def)

lemma rx_passed_emit [simp]:
  "rx_passed (rx_emit (ReceiveCb p) q) = rx_passed q @ [p]"
  "rx_passed (rx_emit StartTimer q) = rx_passed q" "rx_passed (rx_emit StopTimer q) = rx_passed q"
  by (simp_all add: rx_passed_def rx_emit_def List.map_filter_def)

lemma rx_passed_cong: "rx_trace q' = rx_trace q \<Longrightarrow> rx_passed q' = rx_passed q"
  by (simp add: rx_passed_def)

lemma rx_mark_OK [simp]: "rx_mark TI_OK p = p"
  by (simp add: rx_mark_def)

lemma rx_is_cong: "rx_tid q' t = rx_tid q t \<Longrightarrow> length (tSa1ArrayMng q') = length (tSa1ArrayMng q) \<Longrightarrow>
   rx_is t e win q' = rx_is t e win q"
  by (simp add: rx_is_def)

lemma rx_counted_update:
  assumes "rx_counted q" "t < RX_NUM_TAGS" "length (aPaketsQueue db) = RX_QUEUE_ARRAY_SIZE"
    and "tSa1ArrayMng q' = (tSa1ArrayMng q)[t := db]"
    and "unat (aPacketsStored q') + rx_stored_of (rx_tid q t) = unat (aPacketsStored q) + rx_stored_of db"
  shows "rx_counted q'"
proof -
  have "t < length (tSa1ArrayMng q)" using assms(1,2) by (simp add: rx_counted_def)
  from sum_map_update [OF this, of rx_stored_of db] assms show ?thesis
    by (auto simp: rx_counted_def rx_tid_def dest!: set_update_subset_insert [THEN subsetD])
qed

lemma rx_stored_of_le: "length (aPaketsQueue db) = RX_QUEUE_ARRAY_SIZE \<Longrightarrow> rx_stored_of db \<le> 8"
proof -
  assume "length (aPaketsQueue db) = RX_QUEUE_ARRAY_SIZE"
  then have "length (rx_window db) = 8" by (simp add: RX_QUEUE_ARRAY_SIZE_def)
  then show ?thesis
    unfolding rx_stored_of_def somes_def length_map by (metis length_filter_le)
qed

lemma rx_counted_bound:
  assumes "rx_counted q"
  shows "unat (aPacketsStored q) \<le> 64"
proof -
  have "sum_list (map rx_stored_of xs) \<le> 8 * length xs"
    if "\<forall>db \<in> set xs. length (aPaketsQueue db) = RX_QUEUE_ARRAY_SIZE" for xs
    using that by (induction xs) (auto dest!: rx_stored_of_le)
  from this [of "tSa1ArrayMng q"] assms show ?thesis by (simp add: rx_counted_def RX_NUM_TAGS_def)
qed

lemma rx_next_index_unat:
  "unat (aWinStartArrayInex db) < 8 \<Longrightarrow>
   unat (aWinStartArrayInex (rx_next_index db)) = (unat (aWinStartArrayInex db) + 1) mod 8"
  by (simp add: rx_next_index_def RX_QUEUE_ARRAY_SIZE_BIT_MASK_def unat_and_7 unat_add_small)

lemma rx_next_sn_unat:
  "unat (aTidExpectedSn db) < 4096 \<Longrightarrow>
   unat (aTidExpectedSn (rx_next_sn db)) = (unat (aTidExpectedSn db) + 1) mod 4096"
  by (simp add: rx_next_sn_def unat_and_fff unat_add_small)

text \<open>Clearing the first slot and moving the window on by one position.\<close>

definition rx_pop :: "TRxQueueTidDataBase \<Rightarrow> TRxQueueTidDataBase" where
  "rx_pop db =
     (let i = unat (aWinStartArrayInex db) in
      rx_next_index (db\<lparr>aPaketsQueue := (aPaketsQueue db)[i := (aPaketsQueue db ! i)\<lparr>pPacket := None\<rparr>]\<rparr>))"

lemma rx_window_pop:
  assumes "length (aPaketsQueue db) = RX_QUEUE_ARRAY_SIZE"
    and "unat (aWinStartArrayInex db) < RX_QUEUE_ARRAY_SIZE"
  shows "rx_window (rx_pop db) = rx_shift 1 (rx_window db)"
proof (rule nth_equalityI)
  show "length (rx_window (rx_pop db)) = length (rx_shift 1 (rx_window db))"
    by (simp add: rx_pop_def rx_next_index_def Let_def)
  fix k
  assume "k < length (rx_window (rx_pop db))"
  then have k: "k < 8" using assms(1) by (simp add: rx_pop_def rx_next_index_def Let_def RX_QUEUE_ARRAY_SIZE_def)
  define i where "i = unat (aWinStartArrayInex db)"
  have i: "i < 8" using assms(2) by (simp add: i_def RX_QUEUE_ARRAY_SIZE_def)
  have l: "length (aPaketsQueue db) = 8" using assms(1) by (simp add: RX_QUEUE_ARRAY_SIZE_def)
  have j: "((i + 1) mod 8 + k) mod 8 = (i + (1 + k)) mod 8" by (simp add: mod_simps add.assoc)
  have ws: "unat (aWinStartArrayInex (rx_pop db)) = (i + 1) mod 8"
    using i rx_next_index_unat by (simp add: rx_pop_def Let_def i_def)
  have sl: "aPaketsQueue (rx_pop db) = (aPaketsQueue db)[i := (aPaketsQueue db ! i)\<lparr>pPacket := None\<rparr>]"
    by (simp add: rx_pop_def Let_def rx_next_index_def i_def)
  have "rx_window (rx_pop db) ! k = pPacket ((aPaketsQueue db)[i := (aPaketsQueue db ! i)\<lparr>pPacket := None\<rparr>]
      ! ((i + (1 + k)) mod 8))"
    using k i l j rx_window_nth [of k "rx_pop db"] by (simp add: ws sl)
  also have "\<dots> = rx_shift 1 (rx_window db) ! k"
  proof (cases "k = 7")
    case True
    then show ?thesis using i l by (simp add: i_def)
  next
    case False
    then have "(i + (1 + k)) mod 8 \<noteq> i" using k i by (cases "i + (1 + k) < 8") (auto simp: mod_if)
    then show ?thesis using False k l i by (simp add: rx_window_nth i_def)
  qed
  finally show "rx_window (rx_pop db) ! k = rx_shift 1 (rx_window db) ! k" .
qed

section \<open>Moving the window on\<close>

text \<open>\<open>rx_moved t m d q q'\<close>: the window of TID \<open>t\<close> moves on by \<open>m\<close> slots and the expected
  number by \<open>d\<close>, passing the packets of those slots in order; nothing else changes.\<close>

definition rx_moved :: "nat \<Rightarrow> nat \<Rightarrow> nat \<Rightarrow> TRxQueue \<Rightarrow> TRxQueue \<Rightarrow> bool" where
  "rx_moved t m d q q' \<longleftrightarrow>
     (\<forall>e win. rx_is t e win q \<longrightarrow>
        rx_is t ((e + d) mod 4096) (rx_shift m win) q' \<and> rx_passed q' = rx_passed q @ somes (take m win)) \<and>
     rx_same t q q' \<and> (rx_counted q \<longrightarrow> rx_counted q') \<and>
     bPacketMiss q' = bPacketMiss q \<and> aFrameTid q' = aFrameTid q"

lemma rx_movedD:
  assumes "rx_moved t m d q q'" "rx_is t e win q"
  shows "rx_is t ((e + d) mod 4096) (rx_shift m win) q'" "rx_passed q' = rx_passed q @ somes (take m win)"
    "rx_same t q q'" "rx_counted q \<Longrightarrow> rx_counted q'" "bPacketMiss q' = bPacketMiss q"
    "aFrameTid q' = aFrameTid q"
  using assms by (simp_all add: rx_moved_def)

lemma rx_moved_refl: "rx_moved t 0 0 q q"
  by (auto simp: rx_moved_def rx_is_def)

lemma rx_moved_trans:
  assumes "rx_moved t m d q q1" "rx_moved t n d' q1 q2"
  shows "rx_moved t (m + n) (d + d') q q2"
proof -
  have "rx_is t ((e + (d + d')) mod 4096) (rx_shift (m + n) win) q2 \<and>
      rx_passed q2 = rx_passed q @ somes (take (m + n) win)" if "rx_is t e win q" for e win
  proof -
    note 1 = rx_movedD(1,2) [OF assms(1) that]
    note 2 = rx_movedD(1,2) [OF assms(2) 1(1)]
    have "((e + d) mod 4096 + d') mod 4096 = (e + (d + d')) mod 4096"
      by (simp only: mod_add_left_eq add.assoc)
    with 2(1) have "rx_is t ((e + (d + d')) mod 4096) (rx_shift (m + n) win) q2"
      by (simp only: rx_shift_shift)
    moreover have "rx_passed q2 = rx_passed q @ somes (take (m + n) win)"
      unfolding 2(2) 1(2) somes_take_add [symmetric] by simp
    ultimately show ?thesis by (rule conjI)
  qed
  moreover have "rx_same t q q2"
    using assms rx_same_trans unfolding rx_moved_def by blast
  ultimately show ?thesis using assms unfolding rx_moved_def by (intro conjI allI impI) simp_all
qed

lemma rx_pop_None:
  assumes "pPacket (aPaketsQueue db ! unat (aWinStartArrayInex db)) = None"
  shows "rx_pop db = rx_next_index db"
proof -
  have "(aPaketsQueue db ! unat (aWinStartArrayInex db))\<lparr>pPacket := None\<rparr> =
      aPaketsQueue db ! unat (aWinStartArrayInex db)"
    using assms by (cases "aPaketsQueue db ! unat (aWinStartArrayInex db)") simp
  then show ?thesis by (simp add: rx_pop_def Let_def)
qed

text \<open>One step of the loops, with \<open>f\<close> the change of the expected number.\<close>

lemma rx_step_moved:
  assumes "rx_is t e win q" "t < RX_NUM_TAGS"
    and "\<And>db. unat (aTidExpectedSn db) = e \<Longrightarrow> unat (aTidExpectedSn (f db)) = (e + d) mod 4096"
    and f: "\<And>db. aPaketsQueue (f db) = aPaketsQueue db" "\<And>db. aWinStartArrayInex (f db) = aWinStartArrayInex db"
      "\<And>db. aTidBaEstablished (f db) = aTidBaEstablished db" "\<And>db. aTidWinSize (f db) = aTidWinSize db"
    and q': "q' = (let q1 = rx_take t q in rx_set_tid t (f (rx_next_index (rx_tid q1 t))) q1)"
  shows "rx_moved t 1 d q q'"
proof -
  define db where "db = rx_tid q t"
  define i where "i = unat (aWinStartArrayInex db)"
  note I = assms(1) [unfolded rx_is_def, folded db_def]
  have t: "t < length (tSa1ArrayMng q)" using I by blast
  have i: "i < length (aPaketsQueue db)" using I by (simp add: i_def)
  have tid: "rx_tid q' t = f (rx_pop db)"
  proof (cases "pPacket (aPaketsQueue db ! i)")
    case None
    then show ?thesis using t
      by (simp add: q' rx_take_def Let_def db_def [symmetric] i_def [symmetric] rx_pop_None)
  next
    case (Some p)
    then show ?thesis using t
      by (simp add: q' rx_take_def Let_def db_def [symmetric] i_def [symmetric] RxQueue_PassPacket_def rx_pop_def)
        (simp add: rx_tid_def rx_set_tid_def)
  qed
  have win: "rx_window (f (rx_pop db)) = rx_shift 1 win"
    using rx_window_pop [of db] I by (simp add: rx_window_def f)
  have head: "win ! 0 = pPacket (aPaketsQueue db ! i)"
    using rx_head_window [OF assms(1)] by (simp add: rx_head_def db_def i_def)
  have wl: "length win = 8" using rx_is_length [OF assms(1)] by (simp add: RX_QUEUE_ARRAY_SIZE_def)
  then obtain xs where xs: "win = win ! 0 # xs" by (cases win) auto
  have st: "tStatus (aPaketsQueue db ! i) = TI_OK" using I i by auto
  have mng: "tSa1ArrayMng q' = (tSa1ArrayMng q)[t := f (rx_pop db)]"
    using tid t by (auto simp: q' rx_take_def Let_def rx_set_tid_def RxQueue_PassPacket_def rx_tid_def
        db_def split: option.splits)
  have pop: "aPaketsQueue (rx_pop db) = (aPaketsQueue db)[i := (aPaketsQueue db ! i)\<lparr>pPacket := None\<rparr>]"
    by (simp add: rx_pop_def Let_def rx_next_index_def i_def)
  have sn: "unat (aTidExpectedSn (f (rx_pop db))) = (e + d) mod 4096"
    by (rule assms(3)) (use I in \<open>simp add: rx_pop_def Let_def rx_next_index_def\<close>)
  have "rx_is t ((e + d) mod 4096) (rx_shift 1 win) q'"
    unfolding rx_is_def tid
    using I win sn st t rx_next_index_unat [of db] i
    by (auto simp: mng f pop in_set_conv_nth nth_list_update RX_QUEUE_ARRAY_SIZE_def)
      (auto simp: rx_pop_def Let_def rx_next_index_def RX_QUEUE_ARRAY_SIZE_BIT_MASK_def unat_and_7 split: if_splits)
  moreover have "rx_passed q' = rx_passed q @ somes (take 1 win)"
  proof -
    have "somes (take 1 win) = (case win ! 0 of None \<Rightarrow> [] | Some p \<Rightarrow> [p])"
      by (subst xs) (cases "win ! 0"; simp)
    then show ?thesis using st
      by (auto simp: head q' rx_take_def Let_def db_def [symmetric] i_def [symmetric] RxQueue_PassPacket_def
          rx_passed_def rx_emit_def List.map_filter_def split: option.splits)
  qed
  moreover have "rx_same t q q'"
    using tid by (auto simp: rx_same_def mng f rx_tid_def rx_pop_def Let_def rx_next_index_def db_def)
  moreover have "rx_counted q'" if "rx_counted q"
  proof (rule rx_counted_update [OF that assms(2) _ mng])
    show "length (aPaketsQueue (f (rx_pop db))) = RX_QUEUE_ARRAY_SIZE" using I by (simp add: f pop)
    have s: "rx_stored_of (f (rx_pop db)) + length (somes (take 1 win)) = rx_stored_of db"
      using length_somes_shift [of 1 win] I by (simp add: rx_stored_of_def win)
    have le: "rx_stored_of db \<le> unat (aPacketsStored q)"
      using that t elem_le_sum_map [of t "tSa1ArrayMng q" rx_stored_of]
      by (simp add: rx_counted_def db_def rx_tid_def)
    have "unat (aPacketsStored q') = unat (aPacketsStored q) - length (somes (take 1 win))"
    proof (cases "win ! 0")
      case None
      then show ?thesis using head
        by (subst xs) (simp add: q' rx_take_def Let_def db_def [symmetric] i_def [symmetric])
    next
      case (Some p)
      then have one: "length (somes (take 1 win)) = 1" by (subst xs) simp
      then have "aPacketsStored q \<noteq> 0" using s le by auto
      then show ?thesis using Some head one
        by (simp add: q' rx_take_def Let_def db_def [symmetric] i_def [symmetric] RxQueue_PassPacket_def
            unat_minus_one_pos)
    qed
    then show "unat (aPacketsStored q') + rx_stored_of (rx_tid q t) =
        unat (aPacketsStored q) + rx_stored_of (f (rx_pop db))"
      using s le by (simp add: db_def)
  qed
  moreover have "bPacketMiss q' = bPacketMiss q" "aFrameTid q' = aFrameTid q"
    by (auto simp: q' rx_take_def Let_def RxQueue_PassPacket_def split: option.splits)
  moreover have "e' = e \<and> win' = win" if "rx_is t e' win' q" for e' win'
    using that assms(1) by (auto simp: rx_is_def)
  ultimately show ?thesis unfolding rx_moved_def by blast
qed

lemma rx_advance_take_moved:
  assumes "rx_is t e win q" "t < RX_NUM_TAGS"
  shows "rx_moved t 1 1 q (rx_advance t (rx_take t q))"
proof (rule rx_step_moved [OF assms, where f = rx_next_sn])
  show "unat (aTidExpectedSn (rx_next_sn db)) = (e + 1) mod 4096" if "unat (aTidExpectedSn db) = e" for db
    using that assms(1) rx_next_sn_unat [of db] by (simp add: rx_is_def)
qed (simp_all add: rx_next_sn_def rx_advance_def Let_def)

lemma rx_index_take_moved:
  assumes "rx_is t e win q" "t < RX_NUM_TAGS"
  shows "rx_moved t 1 0 q (let q = rx_take t q in rx_set_tid t (rx_next_index (rx_tid q t)) q)"
  by (rule rx_step_moved [OF assms, where f = "\<lambda>db. db"])
    (use assms(1) in \<open>auto simp: rx_is_def\<close>)

text \<open>Advancing over an empty slot passes nothing.\<close>

lemma rx_advance_moved:
  assumes "rx_is t e win q" "t < RX_NUM_TAGS" "win ! 0 = None"
  shows "rx_moved t 1 1 q (rx_advance t q)"
proof -
  have "rx_take t q = q"
    using rx_head_window [OF assms(1)] assms(3) by (simp add: rx_take_def Let_def rx_head_def)
  then show ?thesis using rx_advance_take_moved [OF assms(1,2)] by simp
qed

lemma rx_is_moved: "rx_moved t m d q q' \<Longrightarrow> rx_is t e win q \<Longrightarrow> rx_is t ((e + d) mod 4096) (rx_shift m win) q'"
  by (rule rx_movedD(1))

text \<open>The loop that passes consecutive packets ends, at the first empty slot.\<close>

definition rx_run :: "rx_pkt option list \<Rightarrow> nat" where
  "rx_run win = length (takeWhile (\<lambda>x. x \<noteq> None) win)"

lemma rx_run_shift1: "rx_run (x # xs) = (if x = None then 0 else Suc (rx_run (rx_shift 1 (x # xs))))"
proof -
  have "rx_shift 1 (x # xs) = xs @ [None]" using rx_shift_Suc_Cons [of 0 x xs] by simp
  moreover have "takeWhile (\<lambda>x. x \<noteq> None) (xs @ [None]) = takeWhile (\<lambda>x. x \<noteq> None) xs"
    by (induction xs) auto
  ultimately show ?thesis by (simp add: rx_run_def)
qed

lemma rx_run_head: "length win = 8 \<Longrightarrow> rx_shift (rx_run win) win ! 0 = None"
  using nth_length_takeWhile [of "\<lambda>x. x \<noteq> None" win] by (auto simp: rx_run_def)

lemma rx_drain_moved:
  assumes "rx_is t e win q" "t < RX_NUM_TAGS"
  obtains q' where "rx_drain t q = Some q'" "rx_moved t (rx_run win) (rx_run win) q q'"
proof -
  have "\<exists>q'. rx_drain t q = Some q' \<and> rx_moved t (rx_run win) (rx_run win) q q'"
    using assms
  proof (induction "rx_run win" arbitrary: q e win)
    case 0
    then obtain x xs where w: "win = x # xs"
      using rx_is_length [OF "0.prems"(1)] by (cases win) (auto simp: RX_QUEUE_ARRAY_SIZE_def)
    then have "win ! 0 = None" using 0 rx_run_shift1 [of x xs] by (auto split: if_splits)
    then have "rx_drain t q = Some q"
      unfolding rx_drain_def
      by (subst while_option_unfold) (use rx_head_window [OF "0.prems"(1)] in simp)
    then show ?case using 0 rx_moved_refl by metis
  next
    case (Suc n)
    then obtain x xs where w: "win = x # xs" by (cases win) (auto simp: rx_run_def)
    define q1 where "q1 = rx_advance t (rx_take t q)"
    have m1: "rx_moved t 1 1 q q1" unfolding q1_def by (rule rx_advance_take_moved [OF Suc.prems])
    have some: "win ! 0 \<noteq> None" "n = rx_run (rx_shift 1 win)"
      using Suc.hyps(2) rx_run_shift1 [of x xs] w by (auto split: if_splits)
    from Suc.hyps(1) [OF some(2) rx_is_moved [OF m1 Suc.prems(1)] Suc.prems(2)]
    obtain q' where q': "rx_drain t q1 = Some q'" "rx_moved t n n q1 q'" using some(2) by auto
    have "rx_drain t q = rx_drain t q1"
      unfolding rx_drain_def
      by (subst while_option_unfold) (use rx_head_window [OF Suc.prems(1)] some(1) in \<open>simp add: q1_def\<close>)
    then show ?case using q' rx_moved_trans [OF m1 q'(2)] Suc.hyps(2) by auto
  qed
  then show ?thesis using that by blast
qed

declare rx_skip.simps [simp del] rx_bar_flush.simps [simp del]

lemma rx_skip_moved:
  assumes "rx_is t e win q" "t < RX_NUM_TAGS" "unat (aTidWinSize (rx_tid q t)) \<le> 8"
    and "unat new < 4096" "sn_off e (unat new) < 0x7FF"
    and "m = min (sn_off e (unat new)) (unat (aTidWinSize (rx_tid q t)) - i)"
  obtains q' where "rx_skip t new i q = (i + m, q')" "rx_moved t m m q q'"
proof -
  have "\<exists>q'. rx_skip t new i q = (i + m, q') \<and> rx_moved t m m q q'"
    using assms
  proof (induction m arbitrary: i q e win)
    case 0
    have e: "e < 4096" "unat (aTidExpectedSn (rx_tid q t)) = e" using "0.prems"(1) by (auto simp: rx_is_def)
    have "rx_skip t new i q = (i, q)"
      using "0.prems"(6) BA_BIGGER_off [OF e(1) "0.prems"(4), of "ucast (aTidExpectedSn (rx_tid q t))"] e(2)
      by (subst rx_skip.simps) auto
    then show ?case using rx_moved_refl by auto
  next
    case (Suc m)
    have e: "e < 4096" "unat (aTidExpectedSn (rx_tid q t)) = e" using Suc.prems(1) by (auto simp: rx_is_def)
    define q1 where "q1 = rx_advance t (rx_take t q)"
    have m1: "rx_moved t 1 1 q q1" unfolding q1_def by (rule rx_advance_take_moved [OF Suc.prems(1,2)])
    have off: "0 < sn_off e (unat new)" "i < unat (aTidWinSize (rx_tid q t))" using Suc.prems(6) by simp_all
    have w: "aTidWinSize (rx_tid q1 t) = aTidWinSize (rx_tid q t)"
      using rx_movedD(3) [OF m1 Suc.prems(1)] by (simp add: rx_same_def)
    have off1: "sn_off ((e + 1) mod 4096) (unat new) = sn_off e (unat new) - 1"
      by (rule sn_off_step [OF e(1) Suc.prems(4)]) (use off in simp)
    have "rx_skip t new i q = rx_skip t new (i + 1) q1"
      using off Suc.prems(3,5) BA_BIGGER_off [OF e(1) Suc.prems(4), of "ucast (aTidExpectedSn (rx_tid q t))"] e(2)
      by (subst rx_skip.simps) (simp add: q1_def RX_QUEUE_ARRAY_SIZE_def)
    moreover have "\<exists>q'. rx_skip t new (i + 1) q1 = (i + 1 + m, q') \<and> rx_moved t m m q1 q'"
      by (rule Suc.IH [OF rx_is_moved [OF m1 Suc.prems(1)] Suc.prems(2)])
        (use Suc.prems off off1 w in simp_all)
    ultimately show ?case using rx_moved_trans [OF m1] by fastforce
  qed
  then show ?thesis using that by blast
qed

section \<open>Storing a packet\<close>

lemma add_mod_8_cancel:
  assumes "j < 8" "k < (8 :: nat)"
  shows "(a + j) mod 8 = (a + k) mod 8 \<longleftrightarrow> j = k"
proof -
  have *: "j = k" if "(a + k) mod 8 = (a + j) mod 8" "j \<le> k" "k < (8 :: nat)" for j k
  proof -
    have "8 dvd (a + k) - (a + j)" using that mod_eq_dvd_iff_nat [of "a + j" "a + k" 8] by simp
    then show ?thesis using that by (auto dest: dvd_imp_le)
  qed
  show ?thesis using *[of j k] *[of k j] assms by (metis nle_le)
qed

lemma rx_window_update:
  assumes "length (aPaketsQueue db) = 8" "k < 8"
  shows "rx_window (db\<lparr>aPaketsQueue := (aPaketsQueue db)[(unat (aWinStartArrayInex db) + k) mod 8 := s]\<rparr>) =
    (rx_window db)[k := pPacket s]"
proof (rule nth_equalityI)
  fix j
  assume "j < length (rx_window (db\<lparr>aPaketsQueue :=
    (aPaketsQueue db)[(unat (aWinStartArrayInex db) + k) mod 8 := s]\<rparr>))"
  then have j: "j < 8" using assms(1) by simp
  have "(unat (aWinStartArrayInex db) + j) mod 8 = (unat (aWinStartArrayInex db) + k) mod 8 \<longleftrightarrow> j = k"
    using j assms(2) add_mod_8_cancel by simp
  then show "rx_window (db\<lparr>aPaketsQueue := (aPaketsQueue db)[(unat (aWinStartArrayInex db) + k) mod 8 := s]\<rparr>) ! j =
      (rx_window db)[k := pPacket s] ! j"
    using assms j by (auto simp: rx_window_nth nth_list_update)
qed simp

lemma rx_save_index_nat:
  assumes "unat (aTidExpectedSn db) < 4096" "unat sn < 4096" "unat (aWinStartArrayInex db) < 8"
  shows "rx_save_index db sn = (unat (aWinStartArrayInex db) + sn_off (unat (aTidExpectedSn db)) (unat sn)) mod 8"
proof -
  define d where "d = (ucast sn + 0x1000 - ucast (aTidExpectedSn db) :: u32) AND 0xFFF"
  have "unat (ucast sn + 0x1000 - ucast (aTidExpectedSn db) :: u32) = unat sn + 4096 - unat (aTidExpectedSn db)"
    using assms by (simp add: unat_sub_le unat_add_small)
  then have d: "unat d = sn_off (unat (aTidExpectedSn db)) (unat sn)"
    by (simp add: d_def unat_and_fff sn_off_def)
  moreover have "sn_off (unat (aTidExpectedSn db)) (unat sn) < 65536"
    by (rule less_trans [OF sn_off_lt]) simp
  ultimately have d2: "unat (ucast (ucast d :: u16) :: u32) = unat d"
    by (simp add: unsigned_ucast_eq unsigned_take_bit_eq take_bit_nat_eq_self)
  have dlt: "unat d < 4096" unfolding d by (rule sn_off_lt)
  have s: "unat (aWinStartArrayInex db + ucast (ucast d :: u16)) = unat (aWinStartArrayInex db) + unat d"
    using assms(3) dlt d2 by (simp add: unat_add_small)
  moreover have "unat (aWinStartArrayInex db) + unat d < 65536"
    using assms(3) dlt by simp
  ultimately have "unat (ucast (aWinStartArrayInex db + ucast (ucast d :: u16)) :: u16) =
      unat (aWinStartArrayInex db) + unat d"
    by (simp add: unsigned_ucast_eq take_bit_nat_eq_self)
  then show ?thesis
    by (simp add: rx_save_index_def d_def [symmetric] RX_QUEUE_ARRAY_SIZE_BIT_MASK_def unat_and_7 d)
qed

lemma length_somes_update:
  "k < length win \<Longrightarrow> win ! k = None \<Longrightarrow> length (somes (win[k := Some p])) = Suc (length (somes win))"
  by (induction win arbitrary: k) (auto simp: somes_def split: nat.splits)

lemma mset_somes_update:
  "k < length win \<Longrightarrow> win ! k = None \<Longrightarrow> mset (somes (win[k := Some p])) = add_mset p (mset (somes win))"
  by (induction win arbitrary: k) (auto simp: somes_def split: nat.splits)

lemma rx_store_is:
  fixes p :: rx_pkt
  assumes "rx_is t e win q" "t < RX_NUM_TAGS" "unat sn < 4096" "sn_off e (unat sn) < 8"
    and "win ! sn_off e (unat sn) = None"
  defines "q' \<equiv> rx_store t (rx_save_index (rx_tid q t) sn) (rx_entry p sn) q"
  shows "rx_is t e (win[sn_off e (unat sn) := Some p]) q'" "rx_same t q q'" "rx_passed q' = rx_passed q"
    "bPacketMiss q' = bPacketMiss q" "rx_counted q \<Longrightarrow> rx_counted q'"
proof -
  define db where "db = rx_tid q t"
  define k where "k = sn_off e (unat sn)"
  note I = assms(1) [unfolded rx_is_def, folded db_def]
  have t: "t < length (tSa1ArrayMng q)" using I by blast
  have l: "length (aPaketsQueue db) = 8" using I by (simp add: RX_QUEUE_ARRAY_SIZE_def)
  have i: "rx_save_index db sn = (unat (aWinStartArrayInex db) + k) mod 8"
    using rx_save_index_nat [of db sn] I assms(3) by (simp add: k_def RX_QUEUE_ARRAY_SIZE_def)
  define db' where "db' = db\<lparr>aPaketsQueue := (aPaketsQueue db)[rx_save_index db sn := rx_entry p sn]\<rparr>"
  have win: "rx_window db' = win[k := Some p]"
    using rx_window_update [OF l, of k "rx_entry p sn"] assms(4) I
    by (simp add: db'_def i k_def rx_entry_def)
  have q': "q' = rx_set_tid t db' q\<lparr>aPacketsStored := aPacketsStored q + 1\<rparr>"
    by (simp add: q'_def rx_store_def Let_def db'_def db_def)
  have tid: "rx_tid q' t = db'" using t by (simp add: q' rx_tid_def rx_set_tid_def)
  have mng: "tSa1ArrayMng q' = (tSa1ArrayMng q)[t := db']" by (simp add: q' rx_set_tid_def)
  show "rx_is t e (win[sn_off e (unat sn) := Some p]) q'"
    unfolding rx_is_def tid using I t win l
    by (auto simp: mng db'_def k_def rx_entry_def RX_QUEUE_ARRAY_SIZE_def
        dest!: set_update_subset_insert [THEN subsetD])
  show "rx_same t q q'" using tid by (auto simp: rx_same_def mng rx_tid_def db'_def db_def)
  show "rx_passed q' = rx_passed q" by (rule rx_passed_cong) (simp add: q')
  show "bPacketMiss q' = bPacketMiss q" by (simp add: q')
  show "rx_counted q'" if "rx_counted q"
  proof (rule rx_counted_update [OF that assms(2) _ mng])
    show "length (aPaketsQueue db') = RX_QUEUE_ARRAY_SIZE" using l by (simp add: db'_def RX_QUEUE_ARRAY_SIZE_def)
    have "unat (aPacketsStored q + 1) = Suc (unat (aPacketsStored q))"
      using rx_counted_bound [OF that] by (simp add: unat_add_small)
    moreover have "rx_stored_of db' = Suc (rx_stored_of db)"
      using length_somes_update [of k win p] assms(4,5) rx_is_length [OF assms(1)] win I
      by (simp add: rx_stored_of_def k_def RX_QUEUE_ARRAY_SIZE_def)
    ultimately show "unat (aPacketsStored q') + rx_stored_of (rx_tid q t) =
        unat (aPacketsStored q) + rx_stored_of db'"
      by (simp add: q' db_def)
  qed
qed

section \<open>The session invariant\<close>

text \<open>A window position below the window size holds the packet with its sequence number; the first
  position, whose packet is awaited, is empty.\<close>

definition rx_win_ok :: "nat \<Rightarrow> nat \<Rightarrow> rx_pkt option list \<Rightarrow> bool" where
  "rx_win_ok w e win \<longleftrightarrow>
     win ! 0 = None \<and>
     (\<forall>k < 8. \<forall>p. win ! k = Some p \<longrightarrow> k < w \<and> unat (rx_sn p) = (e + k) mod 4096)"

definition rx_session_ok :: "nat \<Rightarrow> TRxQueue \<Rightarrow> bool" where
  "rx_session_ok t q \<longleftrightarrow>
     (\<exists>e win. rx_is t e win q \<and>
        (if aTidBaEstablished (rx_tid q t)
         then 1 \<le> unat (aTidWinSize (rx_tid q t)) \<and> unat (aTidWinSize (rx_tid q t)) \<le> 8 \<and>
              rx_win_ok (unat (aTidWinSize (rx_tid q t))) e win
         else somes win = []))"

definition rx_inv :: "TRxQueue \<Rightarrow> bool" where
  "rx_inv q \<longleftrightarrow> rx_counted q \<and> (\<forall>t < RX_NUM_TAGS. rx_session_ok t q)"

lemma rx_inv_update:
  assumes "rx_inv q" "t < RX_NUM_TAGS" "rx_same t q q'" "rx_counted q'" "rx_is t e win q'"
    and "aTidBaEstablished (rx_tid q t)" "rx_win_ok (unat (aTidWinSize (rx_tid q t))) e win"
  shows "rx_inv q'"
proof -
  have w: "1 \<le> unat (aTidWinSize (rx_tid q t))" "unat (aTidWinSize (rx_tid q t)) \<le> 8"
    using assms(1,2,6) by (auto simp: rx_inv_def rx_session_ok_def)
  have "rx_session_ok t' q'" if "t' < RX_NUM_TAGS" for t'
  proof (cases "t' = t")
    case True
    have "aTidBaEstablished (rx_tid q' t) = aTidBaEstablished (rx_tid q t)"
        "aTidWinSize (rx_tid q' t) = aTidWinSize (rx_tid q t)"
      using assms(3) by (simp_all add: rx_same_def)
    then show ?thesis using assms(5,6,7) w True unfolding rx_session_ok_def by auto
  next
    case False
    then have tid: "rx_tid q' t' = rx_tid q t'" "length (tSa1ArrayMng q') = length (tSa1ArrayMng q)"
      using assms(3) by (simp_all add: rx_same_def)
    moreover have "rx_session_ok t' q" using assms(1) that by (simp add: rx_inv_def)
    ultimately show ?thesis unfolding rx_session_ok_def rx_is_cong [OF tid] by (simp only: tid)
  qed
  with assms(4) show ?thesis by (simp add: rx_inv_def)
qed

text \<open>The offsets of the packets in the first positions, in the order in which they are passed.\<close>

lemma somes_map: "somes (map f ks) = map (\<lambda>k. the (f k)) (filter (\<lambda>k. f k \<noteq> None) ks)"
  by (induction ks) (auto simp: somes_def)

definition pkt_off :: "nat \<Rightarrow> rx_pkt \<Rightarrow> nat" where
  "pkt_off e p = sn_off e (unat (rx_sn p))"

lemma rx_offsets:
  assumes "rx_win_ok w e win" "length win = 8" "e < 4096"
  shows "map (pkt_off e) (somes (take m win)) = filter (\<lambda>k. win ! k \<noteq> None) [0..<min m 8]"
proof -
  have "take m win = map (\<lambda>k. win ! k) [0..<min m 8]"
    by (rule nth_equalityI) (simp_all add: assms(2) min.commute)
  then have "map (pkt_off e) (somes (take m win)) =
      map (\<lambda>k. pkt_off e (the (win ! k))) (filter (\<lambda>k. win ! k \<noteq> None) [0..<min m 8])"
    by (simp add: somes_map)
  also have "\<dots> = filter (\<lambda>k. win ! k \<noteq> None) [0..<min m 8]"
  proof (rule map_idI)
    fix k
    assume "k \<in> set (filter (\<lambda>k. win ! k \<noteq> None) [0..<min m 8])"
    then obtain p where p: "win ! k = Some p" and k: "k < 8" by auto
    then have "unat (rx_sn p) = (e + k) mod 4096" using assms(1) by (auto simp: rx_win_ok_def)
    then show "pkt_off e (the (win ! k)) = k" using p k assms(3) by (simp add: pkt_off_def sn_off_add)
  qed
  finally show ?thesis .
qed

lemma rx_win_ok_shift:
  assumes "rx_win_ok w e win" "length win = 8" "rx_shift m win ! 0 = None" "w \<le> 8"
  shows "rx_win_ok w ((e + m) mod 4096) (rx_shift m win)"
  using assms unfolding rx_win_ok_def by (auto simp: mod_add_left_eq add.assoc split: if_splits)

lemma rx_win_ok_store:
  assumes "rx_win_ok w e win" "length win = 8" "0 < k" "k < w" "k < 8" "unat (rx_sn p) = (e + k) mod 4096"
  shows "rx_win_ok w e (win[k := Some p])"
  using assms unfolding rx_win_ok_def by (auto simp: nth_list_update split: if_splits)

text \<open>What a data packet must achieve: the window moves on by \<open>adv\<close> numbers, everything passed is
  in order and below the new expected number, and no packet is lost or doubled.\<close>

definition rx_stored :: "nat \<Rightarrow> TRxQueue \<Rightarrow> rx_pkt list" where
  "rx_stored t q = somes (rx_window (rx_tid q t))"

definition rx_delivers :: "nat \<Rightarrow> rx_pkt \<Rightarrow> TRxQueue \<Rightarrow> TRxQueue \<Rightarrow> bool" where
  "rx_delivers t p q q' \<longleftrightarrow>
     (let e = unat (aTidExpectedSn (rx_tid q t)) in
      \<exists>adv ds. unat (aTidExpectedSn (rx_tid q' t)) = (e + adv) mod 4096 \<and>
        rx_passed q' = rx_passed q @ ds \<and>
        sorted_wrt (<) (map (pkt_off e) ds) \<and> (\<forall>d \<in> set ds. pkt_off e d < adv) \<and>
        mset ds + mset (rx_stored t q') = mset (rx_stored t q) + {#p#})"

text \<open>The timer runs while packets wait.\<close>

definition rx_timer_ok :: "TRxQueue \<Rightarrow> bool" where
  "rx_timer_ok q \<longleftrightarrow> (aPacketsStored q \<noteq> 0 \<longrightarrow> bPacketMiss q)"

lemma rx_stop_timer_fields [simp]:
  "tSa1ArrayMng (rx_stop_timer q) = tSa1ArrayMng q" "rx_tid (rx_stop_timer q) t = rx_tid q t"
  "aPacketsStored (rx_stop_timer q) = aPacketsStored q" "rx_passed (rx_stop_timer q) = rx_passed q"
  by (simp_all add: rx_stop_timer_def rx_tid_def rx_emit_def rx_passed_def List.map_filter_def)

lemma rx_start_timer_fields [simp]:
  "tSa1ArrayMng (rx_start_timer t q) = tSa1ArrayMng q" "rx_tid (rx_start_timer t q) t' = rx_tid q t'"
  "aPacketsStored (rx_start_timer t q) = aPacketsStored q" "rx_passed (rx_start_timer t q) = rx_passed q"
  "rx_timer_ok (rx_start_timer t q)"
  by (simp_all add: rx_start_timer_def rx_tid_def rx_emit_def rx_passed_def List.map_filter_def rx_timer_ok_def)

lemma rx_mng_cong:
  assumes "tSa1ArrayMng q' = tSa1ArrayMng q"
  shows "rx_tid q' t = rx_tid q t" "rx_is t e win q' = rx_is t e win q" "rx_same t q q'"
    "rx_same t q' r = rx_same t q r" "rx_same t r q' = rx_same t r q"
    "aPacketsStored q' = aPacketsStored q \<Longrightarrow> rx_counted q' = rx_counted q"
  using assms by (simp_all add: rx_tid_def rx_is_def rx_same_def rx_counted_def)

lemma sorted_filter_upt: "sorted_wrt (<) (filter P [0..<n])"
  by (simp add: sorted_wrt_filter)

lemma rx_stored_is: "rx_is t e win q \<Longrightarrow> rx_stored t q = somes win"
  by (simp add: rx_stored_def rx_is_def)

lemma mset_somes_shift: "mset (somes (take m win)) + mset (somes (rx_shift m win)) = mset (somes win)"
proof -
  have "somes (rx_shift m win) = somes (drop m win)"
    using somes_take_shift [of "length win" m win] by simp
  then show ?thesis by (metis append_take_drop_id mset_append somes_simps(4))
qed

text \<open>Part 1.\<close>

end
