(* ===== verification/RxOrder.thy ===== *)
theory RxOrder
  imports RxWindow
begin

text \<open>The receive reordering queue, part by part: what the expected packet, one inside the window and
  one beyond it do to the session, and the in-order property of \<open>RxQueue_ReceivePacket\<close>.\<close>

lemma rx_expected_delivers:
  assumes "rx_inv q" "t < RX_NUM_TAGS" "aTidBaEstablished (rx_tid q t)"
    and "unat (rx_sn p) = unat (aTidExpectedSn (rx_tid q t))"
  obtains q' where "rx_expected t p q = Some q'" "rx_inv q'" "rx_delivers t p q q'" "rx_timer_ok q'"
    "rx_same t q q'"
proof -
  define w where "w = unat (aTidWinSize (rx_tid q t))"
  obtain e win where isq: "rx_is t e win q" and ok: "rx_win_ok w e win" "1 \<le> w" "w \<le> 8"
    using assms(1-3) by (auto simp: rx_inv_def rx_session_ok_def w_def)
  have e: "e < 4096" "unat (aTidExpectedSn (rx_tid q t)) = e" "length win = 8"
    using isq rx_is_length [OF isq] by (auto simp: rx_is_def RX_QUEUE_ARRAY_SIZE_def)
  define q1 where "q1 = RxQueue_PassPacket TI_OK p (rx_stop_timer q)"
  have q1: "tSa1ArrayMng q1 = tSa1ArrayMng q" "aPacketsStored q1 = aPacketsStored q"
      "rx_passed q1 = rx_passed q @ [p]"
    by (simp_all add: q1_def RxQueue_PassPacket_def)
  have is1: "rx_is t e win q1" using isq rx_mng_cong(2) [OF q1(1)] by simp
  define q2 where "q2 = rx_advance t q1"
  have m2: "rx_moved t 1 1 q1 q2" unfolding q2_def
    by (rule rx_advance_moved [OF is1 assms(2)]) (use ok in \<open>simp add: rx_win_ok_def\<close>)
  define n where "n = rx_run (rx_shift 1 win)"
  obtain q3 where d: "rx_drain t q2 = Some q3" and m3: "rx_moved t n n q2 q3"
    using rx_drain_moved [OF rx_is_moved [OF m2 is1] assms(2)] by (auto simp: n_def)
  have m: "rx_moved t (1 + n) (1 + n) q1 q3" by (rule rx_moved_trans [OF m2 m3])
  note M = rx_movedD [OF m is1]
  define q' where "q' = rx_start_timer t q3"
  have q': "tSa1ArrayMng q' = tSa1ArrayMng q3" "aPacketsStored q' = aPacketsStored q3"
      "rx_passed q' = rx_passed q3"
    by (simp_all add: q'_def)
  have is': "rx_is t ((e + (1 + n)) mod 4096) (rx_shift (1 + n) win) q'"
    using M(1) rx_mng_cong(2) [OF q'(1)] by simp
  have same: "rx_same t q q'"
    using M(3) rx_mng_cong(4,5) [OF q1(1)] rx_mng_cong(4,5) [OF q'(1)] by simp
  have run: "rx_expected t p q = Some q'"
    using d by (simp add: rx_expected_def Let_def q1_def [symmetric] q2_def [symmetric] q'_def)
  have head: "rx_shift (1 + n) win ! 0 = None"
    using rx_run_head [of "rx_shift 1 win"] e(3) unfolding n_def by (simp add: rx_shift_shift)
  have "rx_counted q'"
    using M(4) assms(1) rx_mng_cong(6) [OF q1(1,2)] rx_mng_cong(6) [OF q'(1,2)] by (simp add: rx_inv_def)
  then have inv: "rx_inv q'"
    using rx_inv_update [OF assms(1,2) same _ is' assms(3)] rx_win_ok_shift [OF ok(1) e(3) head ok(3)]
    by (simp add: w_def)
  define ds where "ds = p # somes (take (1 + n) win)"
  have offs: "map (pkt_off e) ds = 0 # filter (\<lambda>k. win ! k \<noteq> None) [0..<min (1 + n) 8]"
    using rx_offsets [OF ok(1) e(3,1)] assms(4) e(2) sn_off_0 [OF e(1,1)]
    by (simp add: ds_def pkt_off_def)
  have pos: "\<forall>k \<in> set (filter (\<lambda>k. win ! k \<noteq> None) [0..<min (1 + n) 8]). 0 < k \<and> k < 1 + n"
    using ok(1) by (auto simp: rx_win_ok_def intro!: gr0I)
  then have "sorted_wrt (<) (map (pkt_off e) ds)"
    unfolding offs sorted_wrt.simps(2) by (intro conjI sorted_filter_upt) blast
  moreover have "\<forall>k \<in> set (map (pkt_off e) ds). k < 1 + n"
    using pos unfolding offs by simp
  moreover have "rx_passed q' = rx_passed q @ ds" using M(2) q1(3) q'(3) by (simp add: ds_def)
  moreover have "mset ds + mset (rx_stored t q') = mset (rx_stored t q) + {#p#}"
    using mset_somes_shift [of "1 + n" win] rx_stored_is [OF isq] rx_stored_is [OF is'] by (simp add: ds_def)
  moreover have "unat (aTidExpectedSn (rx_tid q' t)) = (e + (1 + n)) mod 4096" using is' by (simp add: rx_is_def)
  ultimately have "rx_delivers t p q q'" unfolding rx_delivers_def Let_def e(2)
    by (intro exI [of _ "1 + n"] exI [of _ ds]) simp
  with run inv same show ?thesis using that by (simp add: q'_def)
qed

text \<open>Part 2.\<close>

lemma rx_inside_delivers:
  assumes "rx_inv q" "t < RX_NUM_TAGS" "aTidBaEstablished (rx_tid q t)"
    and "rx_is t e win q" "k = pkt_off e p" "0 < k" "k < unat (aTidWinSize (rx_tid q t))" "win ! k = None"
  shows "rx_inv (rx_inside t p (rx_sn p) q)" "rx_delivers t p q (rx_inside t p (rx_sn p) q)"
    "rx_same t q (rx_inside t p (rx_sn p) q)" "rx_timer_ok (rx_inside t p (rx_sn p) q)"
proof -
  define w where "w = unat (aTidWinSize (rx_tid q t))"
  have ok: "rx_win_ok w e win" "w \<le> 8"
    using assms(1-4) by (auto simp: rx_inv_def rx_session_ok_def w_def rx_is_def)
  have e: "e < 4096" "unat (aTidExpectedSn (rx_tid q t)) = e" "length win = 8"
    using assms(4) rx_is_length [OF assms(4)] by (auto simp: rx_is_def RX_QUEUE_ARRAY_SIZE_def)
  have k: "sn_off e (unat (rx_sn p)) = k" "k < 8" "k < w" using assms(5-7) ok(2) by (simp_all add: pkt_off_def w_def)
  define q1 where "q1 = rx_store t (rx_save_index (rx_tid q t) (rx_sn p)) (rx_entry p (rx_sn p)) q"
  note S = rx_store_is [OF assms(4,2) rx_sn_lt [of p], of p, unfolded k(1), OF k(2) assms(8), folded q1_def]
  define q' where "q' = rx_inside t p (rx_sn p) q"
  have idx: "pPacket (aPaketsQueue (rx_tid q t) ! rx_save_index (rx_tid q t) (rx_sn p)) = win ! k"
    using rx_save_index_nat [of "rx_tid q t" "rx_sn p"] assms(4) rx_sn_lt [of p] k
    by (auto simp: rx_is_def RX_QUEUE_ARRAY_SIZE_def rx_window_nth)
  have q': "q' = (if \<not> bPacketMiss q1 then (rx_emit StartTimer q1)\<lparr>bPacketMiss := True, aFrameTid := of_nat t\<rparr> else q1)"
    using idx assms(8) by (simp add: q'_def rx_inside_def Let_def q1_def)
  have f: "tSa1ArrayMng q' = tSa1ArrayMng q1" "aPacketsStored q' = aPacketsStored q1" "bPacketMiss q'"
      "rx_passed q' = rx_passed q1"
    by (simp_all add: q' rx_passed_def rx_emit_def List.map_filter_def)
  have is': "rx_is t e (win[k := Some p]) q'" using S(1) rx_mng_cong(2) [OF f(1)] by simp
  show same: "rx_same t q (rx_inside t p (rx_sn p) q)"
    using S(2) rx_mng_cong(5) [OF f(1)] by (simp add: q'_def)
  have "rx_counted q'" using S(5) assms(1) rx_mng_cong(6) [OF f(1,2)] by (simp add: rx_inv_def)
  moreover have "rx_win_ok w e (win[k := Some p])"
    by (rule rx_win_ok_store [OF ok(1) e(3) assms(6) k(3,2)])
      (use sn_off_inv [OF e(1) rx_sn_lt [of p]] k(1) in simp)
  ultimately show "rx_inv (rx_inside t p (rx_sn p) q)"
    using rx_inv_update [OF assms(1,2) _ _ is' assms(3)] same by (simp add: q'_def w_def)
  show "rx_timer_ok (rx_inside t p (rx_sn p) q)" using f(3) by (simp add: rx_timer_ok_def q'_def)
  have "mset (rx_stored t q') = mset (rx_stored t q) + {#p#}"
    using mset_somes_update [of k win p] e(3) k(2) assms(8) rx_stored_is [OF assms(4)] rx_stored_is [OF is'] by simp
  moreover have "unat (aTidExpectedSn (rx_tid q' t)) = e" "rx_passed q' = rx_passed q"
    using is' f(4) S(3) by (simp_all add: rx_is_def)
  ultimately show "rx_delivers t p q (rx_inside t p (rx_sn p) q)"
    using e(1,2) unfolding rx_delivers_def Let_def q'_def
    by (intro exI [of _ 0] exI [of _ "[]"]) simp
qed

text \<open>Part 3. The end of the operation places the packet at the offset left of its own.\<close>

lemma rx_place_delivers:
  assumes "rx_inv q" "t < RX_NUM_TAGS" "aTidBaEstablished (rx_tid q t)" "rx_is t e win q"
    and "w = unat (aTidWinSize (rx_tid q t))"
    and q1: "rx_is t ((e + a) mod 4096) (rx_shift m win) q1" "rx_same t q q1" "rx_counted q1"
      "rx_passed q1 = rx_passed q @ somes (take m win)"
    and am: "a \<le> pkt_off e p" "m \<le> a" "a \<le> m \<or> w \<le> m" "pkt_off e p < a + w" "w \<le> pkt_off e p"
      "m \<noteq> 0" "rx_shift m win ! 0 = None"
    and q': "q' = rx_start_timer t (rx_beyond_place t p (rx_sn p) q1)"
  shows "rx_inv q'" "rx_delivers t p q q'" "rx_same t q q'" "rx_timer_ok q'"
proof -
  have ok: "rx_win_ok w e win" "w \<le> 8"
    using assms(1-5) by (auto simp: rx_inv_def rx_session_ok_def rx_is_def)
  have e: "e < 4096" "unat (aTidExpectedSn (rx_tid q t)) = e" "length win = 8"
    using assms(4) rx_is_length [OF assms(4)] by (auto simp: rx_is_def RX_QUEUE_ARRAY_SIZE_def)
  define d where "d = pkt_off e p"
  have d: "d < 4096" by (simp add: d_def pkt_off_def)
  have snp: "(e + d) mod 4096 = unat (rx_sn p)"
    unfolding d_def pkt_off_def by (rule sn_off_inv [OF e(1) rx_sn_lt])
  have e1: "unat (aTidExpectedSn (rx_tid q1 t)) = (e + a) mod 4096" using q1(1) by (simp add: rx_is_def)
  have off: "sn_off ((e + a) mod 4096) (unat (rx_sn p)) = d - a"
    unfolding d_def pkt_off_def by (rule sn_off_step [OF e(1) rx_sn_lt]) (use am(1) in \<open>simp add: pkt_off_def\<close>)
  have eq: "aTidExpectedSn (rx_tid q1 t) = rx_sn p \<longleftrightarrow> d = a"
    using off sn_off_0 [of "(e + a) mod 4096" "unat (rx_sn p)"] rx_sn_lt [of p] e1 am(1)
    by (auto simp: word_unat_eq_iff d_def)
  define ds where "ds = somes (take m win)"
  have offs: "map (pkt_off e) ds = filter (\<lambda>k. win ! k \<noteq> None) [0..<min m 8]"
    using rx_offsets [OF ok(1) e(3,1)] by (simp add: ds_def)
  have below: "\<forall>x \<in> set ds. pkt_off e x < m"
  proof -
    have "\<forall>k \<in> set (map (pkt_off e) ds). k < m" unfolding offs by simp
    then show ?thesis by simp
  qed
  have srt: "sorted_wrt (<) (map (pkt_off e) ds)" unfolding offs by (rule sorted_filter_upt)
  have cons: "mset ds + mset (somes (rx_shift m win)) = mset (somes win)"
    unfolding ds_def by (rule mset_somes_shift)
  have shiftok: "rx_win_ok w ((e + a) mod 4096) (rx_shift m win)"
  proof (cases "a = m")
    case True
    then show ?thesis using rx_win_ok_shift [OF ok(1) e(3) am(7) ok(2)] by simp
  next
    case False
    then have "w \<le> m" using am(2,3) by simp
    then have "rx_shift m win ! k = None" if "k < 8" for k
      using that ok(1) e(3) by (auto simp: rx_win_ok_def)
    then show ?thesis by (simp add: rx_win_ok_def)
  qed
  define qp where "qp = rx_beyond_place t p (rx_sn p) q1"
  have f: "tSa1ArrayMng q' = tSa1ArrayMng qp" "aPacketsStored q' = aPacketsStored qp" "rx_timer_ok q'"
      "rx_passed q' = rx_passed qp"
    by (simp_all add: q' qp_def)
  have main: "\<exists>e2 win2 adv ds2. rx_is t e2 win2 qp \<and> rx_same t q qp \<and> rx_counted qp \<and> rx_win_ok w e2 win2 \<and>
      e2 = (e + adv) mod 4096 \<and> rx_passed qp = rx_passed q @ ds2 \<and> sorted_wrt (<) (map (pkt_off e) ds2) \<and>
      (\<forall>x \<in> set ds2. pkt_off e x < adv) \<and> mset ds2 + mset (somes win2) = mset (somes win) + {#p#}"
  proof (cases "d = a")
    case True
    define db where "db = rx_next_sn (rx_tid q1 t)"
    have qp: "qp = rx_set_tid t db (RxQueue_PassPacket TI_OK p q1)"
      using True eq by (simp add: qp_def rx_beyond_place_def db_def)
    have t: "t < length (tSa1ArrayMng q1)" using q1(1) by (simp add: rx_is_def)
    have tid: "rx_tid qp t = db" using t by (simp add: qp RxQueue_PassPacket_def)
    have none: "rx_shift m win ! k = None" if "k < 8" for k
      using that ok(1) e(3) am(2,3,5) True unfolding rx_win_ok_def d_def
      by (auto simp: not_less)
    have "unat (aTidExpectedSn db) = (e + (d + 1)) mod 4096"
      using rx_next_sn_unat [of "rx_tid q1 t"] e1 True by (simp add: db_def mod_add_left_eq mod_Suc_eq)
    then have "rx_is t ((e + (d + 1)) mod 4096) (rx_shift m win) qp"
      using q1(1) t unfolding rx_is_def tid
      by (simp add: qp RxQueue_PassPacket_def) (simp add: db_def rx_next_sn_def rx_window_def)
    moreover have "rx_same t q qp"
      by (rule rx_same_trans [OF q1(2)])
        (use tid in \<open>auto simp: rx_same_def db_def rx_next_sn_def qp RxQueue_PassPacket_def\<close>)
    moreover have "rx_counted qp"
    proof (rule rx_counted_update [OF q1(3) assms(2)])
      show "tSa1ArrayMng qp = (tSa1ArrayMng q1)[t := db]" by (simp add: qp RxQueue_PassPacket_def rx_set_tid_def)
      show "length (aPaketsQueue db) = RX_QUEUE_ARRAY_SIZE"
        using q1(1) by (simp add: db_def rx_next_sn_def rx_is_def)
      show "unat (aPacketsStored qp) + rx_stored_of (rx_tid q1 t) = unat (aPacketsStored q1) + rx_stored_of db"
        by (simp add: qp RxQueue_PassPacket_def db_def rx_next_sn_def rx_stored_of_def rx_window_def)
    qed
    moreover have "rx_win_ok w ((e + (d + 1)) mod 4096) (rx_shift m win)"
      using none by (simp add: rx_win_ok_def)
    moreover have "rx_passed qp = rx_passed q @ (ds @ [p])"
      using q1(4) by (simp add: qp RxQueue_PassPacket_def ds_def rx_passed_def rx_set_tid_def rx_emit_def
          List.map_filter_def)
    moreover have "sorted_wrt (<) (map (pkt_off e) (ds @ [p]))" "\<forall>x \<in> set (ds @ [p]). pkt_off e x < d + 1"
      using srt below am(2) True by (auto simp: sorted_wrt_append d_def)
    ultimately show ?thesis using cons
      by (intro exI [of _ "(e + (d + 1)) mod 4096"] exI [of _ "rx_shift m win"] exI [of _ "d + 1"]
          exI [of _ "ds @ [p]"]) simp
  next
    case False
    then have k: "0 < d - a" "d - a < w" "d - a < 8" using am(1,4) ok(2) by (simp_all add: d_def)
    have vac: "rx_shift m win ! (d - a) = None"
    proof -
      have "w \<le> m + (d - a)" using am(1,2,3,5) by (auto simp: d_def)
      then show ?thesis using k(3) e(3) ok(1) unfolding rx_win_ok_def
        by simp (meson leD not_Some_eq)
    qed
    have qp: "qp = rx_store t (rx_save_index (rx_tid q1 t) (rx_sn p)) (rx_entry p (rx_sn p)) q1"
      using False eq by (simp add: qp_def rx_beyond_place_def)
    note S = rx_store_is [OF q1(1) assms(2) rx_sn_lt [of p], of p, unfolded off, OF k(3) vac, folded qp]
    have "rx_win_ok w ((e + a) mod 4096) ((rx_shift m win)[d - a := Some p])"
    proof (rule rx_win_ok_store [OF shiftok _ k])
      have "((e + a) mod 4096 + (d - a)) mod 4096 = (e + d) mod 4096"
        unfolding mod_add_left_eq using am(1) by (simp add: d_def)
      with snp show "unat (rx_sn p) = ((e + a) mod 4096 + (d - a)) mod 4096" by simp
    qed (use e(3) in simp)
    moreover have "mset (somes ((rx_shift m win)[d - a := Some p])) = add_mset p (mset (somes (rx_shift m win)))"
      by (rule mset_somes_update) (use k e(3) vac in simp_all)
    moreover have "\<forall>x \<in> set ds. pkt_off e x < a" using below am(2) by fastforce
    ultimately show ?thesis using S(1,3) S(5) [OF q1(3)] rx_same_trans [OF q1(2) S(2)] q1(4) srt cons
      by (intro exI [of _ "(e + a) mod 4096"] exI [of _ "(rx_shift m win)[d - a := Some p]"] exI [of _ a]
          exI [of _ ds]) (simp add: ds_def)
  qed
  then obtain e2 win2 adv ds2 where R: "rx_is t e2 win2 qp" "rx_same t q qp" "rx_counted qp"
      "rx_win_ok w e2 win2" "e2 = (e + adv) mod 4096" "rx_passed qp = rx_passed q @ ds2"
      "sorted_wrt (<) (map (pkt_off e) ds2)" "\<forall>x \<in> set ds2. pkt_off e x < adv"
      "mset ds2 + mset (somes win2) = mset (somes win) + {#p#}"
    by blast
  have is': "rx_is t e2 win2 q'" using R(1) rx_mng_cong(2) [OF f(1)] by simp
  show same: "rx_same t q q'" using R(2) rx_mng_cong(5) [OF f(1)] by simp
  have "rx_counted q'" using R(3) rx_mng_cong(6) [OF f(1,2)] by simp
  then show "rx_inv q'"
    using rx_inv_update [OF assms(1,2) same _ is' assms(3)] R(4) assms(5) by simp
  show "rx_timer_ok q'" by (rule f(3))
  have "unat (aTidExpectedSn (rx_tid q' t)) = (e + adv) mod 4096" using is' R(5) by (simp add: rx_is_def)
  then show "rx_delivers t p q q'"
    using R(6-9) f(4) rx_stored_is [OF assms(4)] rx_stored_is [OF is'] unfolding rx_delivers_def Let_def e(2)
    by (intro exI [of _ adv] exI [of _ ds2]) simp
qed

lemma rx_new_start_nat:
  assumes "e < 4096" "1 \<le> unat w" "unat w \<le> 8" "unat w \<le> sn_off e (unat sn) + 1" "unat sn < 4096"
  shows "unat (rx_new_start sn w) < 4096" "sn_off e (unat (rx_new_start sn w)) = sn_off e (unat sn) + 1 - unat w"
proof -
  define d where "d = sn_off e (unat sn)"
  have "unat (ucast sn + 0x1000 - w + 1 :: u32) = unat sn + 4096 - unat w + 1"
  proof -
    obtain x :: u32 where x: "x = ucast sn + 0x1000" by simp
    then have "unat x = unat sn + 4096" using assms(5) by (simp add: unat_add_small)
    moreover from this have "unat (x - w) = unat sn + 4096 - unat w" using assms(3) by (simp add: unat_sub_le)
    ultimately have "unat (x - w + 1) = unat sn + 4096 - unat w + 1"
      using assms(3,5) by (subst unat_add_small) simp_all
    then show ?thesis by (simp only: x)
  qed
  then have "unat ((ucast sn + 0x1000 - w + 1 :: u32) AND 0xFFF) = (unat sn + 4096 - unat w + 1) mod 4096"
    by (simp add: unat_and_fff)
  moreover have "(unat sn + 4096 - unat w + 1) mod 4096 < 65536"
    by (rule less_trans [of _ 4096]) simp_all
  ultimately have n: "unat (rx_new_start sn w) = (unat sn + 4096 - unat w + 1) mod 4096"
    unfolding rx_new_start_def by (simp add: unsigned_ucast_eq take_bit_nat_eq_self)
  then show "unat (rx_new_start sn w) < 4096" by simp
  have "unat sn = (e + d) mod 4096" unfolding d_def using sn_off_inv [OF assms(1,5)] by simp
  moreover have "(e + (d + 1 - unat w)) mod 4096 = ((e + d) mod 4096 + (4096 - unat w + 1)) mod 4096"
  proof -
    have "e + d + (4096 - unat w + 1) = (e + (d + 1 - unat w)) + 4096"
      using assms(2-4) by (simp add: d_def)
    then have "(e + (d + 1 - unat w)) mod 4096 = (e + d + (4096 - unat w + 1)) mod 4096" by (simp only: mod_add_self2)
    then show ?thesis by (simp only: mod_add_left_eq)
  qed
  moreover have "unat sn + 4096 - unat w + 1 = unat sn + (4096 - unat w + 1)" using assms(3) by simp
  ultimately have "unat (rx_new_start sn w) = (e + (d + 1 - unat w)) mod 4096" using n by simp
  moreover have "d < 4096" unfolding d_def by (rule sn_off_lt)
  then have "d + 1 - unat w < 4096" using assms(2) by linarith
  ultimately show "sn_off e (unat (rx_new_start sn w)) = sn_off e (unat sn) + 1 - unat w"
    using sn_off_add [OF assms(1)] by (simp add: d_def)
qed

lemma rx_run_le:
  assumes "rx_win_ok w e win" "length win = 8" "m \<le> w"
  shows "m + rx_run (rx_shift m win) \<le> w"
proof (cases "rx_run (rx_shift m win)")
  case (Suc n)
  have "n < length (takeWhile (\<lambda>x. x \<noteq> None) (rx_shift m win))" using Suc by (simp add: rx_run_def)
  moreover from this have "rx_shift m win ! n \<noteq> None"
    using nth_mem [of n "takeWhile (\<lambda>x. x \<noteq> None) (rx_shift m win)"]
    by (metis set_takeWhileD takeWhile_nth)
  ultimately have "rx_shift m win ! n \<noteq> None" "n < 8"
    using assms(2) length_takeWhile_le [of "\<lambda>x. x \<noteq> None" "rx_shift m win"] by simp_all
  then have "m + n < 8 \<and> win ! (m + n) \<noteq> None"
    using nth_rx_shift [of n win m] assms(2) by (simp split: if_splits)
  then have "m + n < w" using assms(1) by (auto simp: rx_win_ok_def)
  with Suc show ?thesis by simp
qed (use assms(3) in simp)

lemma rx_beyond_delivers:
  assumes "rx_inv q" "t < RX_NUM_TAGS" "aTidBaEstablished (rx_tid q t)" "rx_is t e win q"
    and "unat (aTidWinSize (rx_tid q t)) \<le> pkt_off e p" "pkt_off e p < 0x7FF"
  obtains q' where "rx_beyond t p (rx_sn p) q = Some q'" "rx_inv q'" "rx_delivers t p q q'"
    "rx_same t q q'" "rx_timer_ok q'"
proof -
  define w where "w = unat (aTidWinSize (rx_tid q t))"
  have ok: "rx_win_ok w e win" "1 \<le> w" "w \<le> 8"
    using assms(1-4) by (auto simp: rx_inv_def rx_session_ok_def rx_is_def w_def)
  have e: "e < 4096" "length win = 8"
    using assms(4) rx_is_length [OF assms(4)] by (auto simp: rx_is_def RX_QUEUE_ARRAY_SIZE_def)
  define D where "D = pkt_off e p + 1 - w"
  have D: "1 \<le> D" "D \<le> pkt_off e p" "pkt_off e p < D + w" "D < 0x7FF"
    using assms(5,6) ok(2) by (simp_all add: D_def w_def)
  define new where "new = rx_new_start (rx_sn p) (aTidWinSize (rx_tid q t))"
  have new: "unat new < 4096" "sn_off e (unat new) = D"
    using rx_new_start_nat [OF e(1), of "aTidWinSize (rx_tid q t)" "rx_sn p"] ok(2,3) assms(5) rx_sn_lt [of p]
    by (simp_all add: new_def w_def D_def pkt_off_def)
  define q1 where "q1 = rx_advance t (rx_stop_timer q)"
  have is0: "rx_is t e win (rx_stop_timer q)" using assms(4) rx_mng_cong(2) [of "rx_stop_timer q" q] by simp
  have m1: "rx_moved t 1 1 (rx_stop_timer q) q1" unfolding q1_def
    by (rule rx_advance_moved [OF is0 assms(2)]) (use ok(1) in \<open>simp add: rx_win_ok_def\<close>)
  have w1: "aTidWinSize (rx_tid q1 t) = aTidWinSize (rx_tid q t)"
    using rx_movedD(3) [OF m1 is0] by (simp add: rx_same_def)
  have off1: "sn_off ((e + 1) mod 4096) (unat new) = D - 1"
    using sn_off_step [OF e(1) new(1), of 1] new(2) D(1) by simp
  define m where "m = min (D - 1) w"
  obtain q2 where sk: "rx_skip t new 0 q1 = (m, q2)" and m2: "rx_moved t m m q1 q2"
  proof (rule rx_skip_moved [OF rx_is_moved [OF m1 is0] assms(2) _ new(1), of m 0])
    show "sn_off ((e + 1) mod 4096) (unat new) < 0x7FF" using off1 D(4) by simp
  qed (use off1 w1 ok(3) in \<open>simp_all add: m_def w_def\<close>)
  have m12: "rx_moved t (1 + m) (1 + m) (rx_stop_timer q) q2" by (rule rx_moved_trans [OF m1 m2])
  note M = rx_movedD [OF m12 is0]
  have inv0: "rx_counted (rx_stop_timer q)"
    using assms(1) rx_mng_cong(6) [of "rx_stop_timer q" q] by (simp add: rx_inv_def)
  have same0: "rx_same t q r = rx_same t (rx_stop_timer q) r" for r
    using rx_mng_cong(4) [of "rx_stop_timer q" q t r] by simp
  show ?thesis
  proof (cases "m = w")
    case True
    define q3 where "q3 = rx_set_tid t ((rx_tid q2 t)\<lparr>aTidExpectedSn := new\<rparr>) q2"
    define q' where "q' = rx_start_timer t (rx_beyond_place t p (rx_sn p) q3)"
    have run: "rx_beyond t p (rx_sn p) q = Some q'"
      using sk True by (simp add: rx_beyond_def Let_def new_def [symmetric] q1_def [symmetric] w_def [symmetric]
          q3_def q'_def)
    have t: "t < length (tSa1ArrayMng q2)" using M(1) by (simp add: rx_is_def)
    have tid: "rx_tid q3 t = (rx_tid q2 t)\<lparr>aTidExpectedSn := new\<rparr>" using t by (simp add: q3_def)
    have "unat new = (e + D) mod 4096" using sn_off_inv [OF e(1) new(1)] new(2) by simp
    then have is3: "rx_is t ((e + D) mod 4096) (rx_shift (1 + w) win) q3"
      using M(1) t True unfolding rx_is_def tid by (simp add: q3_def) (simp add: rx_window_def)
    have same3: "rx_same t q q3"
      using M(3) tid unfolding same0 by (auto simp: rx_same_def q3_def)
    have cnt3: "rx_counted q3"
    proof (rule rx_counted_update [OF M(4) [OF inv0] assms(2)])
      show "tSa1ArrayMng q3 = (tSa1ArrayMng q2)[t := (rx_tid q2 t)\<lparr>aTidExpectedSn := new\<rparr>]"
        by (simp add: q3_def rx_set_tid_def)
      show "length (aPaketsQueue ((rx_tid q2 t)\<lparr>aTidExpectedSn := new\<rparr>)) = RX_QUEUE_ARRAY_SIZE"
        using M(1) by (simp add: rx_is_def)
    qed (simp add: q3_def rx_stored_of_def rx_window_def)
    have pas3: "rx_passed q3 = rx_passed q @ somes (take (1 + w) win)"
    proof -
      have "rx_passed q3 = rx_passed q2" by (rule rx_passed_cong) (simp add: q3_def)
      then show ?thesis using M(2) True by simp
    qed
    have head: "rx_shift (1 + w) win ! 0 = None"
    proof -
      have "win ! (1 + w) = None" if "1 + w < 8"
        using that ok(1) unfolding rx_win_ok_def by (cases "win ! (1 + w)") (auto dest!: spec [of _ "1 + w"])
      then show ?thesis using e(2) by simp
    qed
    have Dw: "1 + w \<le> D" using True D(1) by (simp add: m_def min_def split: if_splits)
    have "rx_inv q'" "rx_delivers t p q q'" "rx_same t q q'" "rx_timer_ok q'"
      by (rule rx_place_delivers [OF assms(1-4) w_def is3 same3 cnt3 pas3 D(2) Dw _ D(3) _ _ head q'_def];
          use assms(5) in \<open>simp add: w_def\<close>)+
    with run show ?thesis by (rule that)
  next
    case False
    then have mD: "1 + m = D" "D \<le> w" using D(1) by (auto simp: m_def)
    define n where "n = rx_run (rx_shift D win)"
    obtain q3 where dr: "rx_drain t q2 = Some q3" and m3: "rx_moved t n n q2 q3"
      using rx_drain_moved [OF M(1) assms(2)] mD(1) by (auto simp: n_def)
    have m123: "rx_moved t (D + n) (D + n) (rx_stop_timer q) q3"
      using rx_moved_trans [OF m12 m3] unfolding mD(1) .
    note N = rx_movedD [OF m123 is0]
    define q' where "q' = rx_start_timer t (rx_beyond_place t p (rx_sn p) q3)"
    have run: "rx_beyond t p (rx_sn p) q = Some q'"
      using sk False dr by (simp add: rx_beyond_def Let_def new_def [symmetric] q1_def [symmetric] w_def [symmetric]
          q'_def)
    have le: "D + n \<le> w" unfolding n_def by (rule rx_run_le [OF ok(1) e(2) mD(2)])
    have pas3: "rx_passed q3 = rx_passed q @ somes (take (D + n) win)" using N(2) by simp
    have head: "rx_shift (D + n) win ! 0 = None"
      using rx_run_head [of "rx_shift D win"] e(2) by (simp add: n_def rx_shift_shift)
    have same3: "rx_same t q q3" using N(3) unfolding same0 .
    have "D + n \<le> pkt_off e p" using le assms(5) by (simp add: w_def)
    note P = rx_place_delivers [OF assms(1-4) w_def N(1) same3 N(4) [OF inv0] pas3 this le_refl _ _ _ _ head q'_def]
    have "rx_inv q'" "rx_delivers t p q q'" "rx_same t q q'" "rx_timer_ok q'"
      by (rule P; use D assms(5) in \<open>simp add: w_def\<close>)+
    with run show ?thesis by (rule that)
  qed
qed

text \<open>Which part a packet falls into. When the window's last number is above 4095 and the packet
  carries that number, the comparison in the code takes it to be beyond the window.\<close>

lemma rx_win_end:
  assumes "e < 4096" "1 \<le> w" "w \<le> 8" "unat esn = e" "unat win = w" "unat s < 4096"
    and "d = sn_off e (unat (s :: u16))" "0 < d" "d < 0x7FF" "\<not> (d + 1 = w \<and> 4096 \<le> e + d)"
  shows "BA_SESSION_IS_A_BIGGER_THAN_B (ucast s) (esn + win - 1) \<longleftrightarrow> w \<le> d"
proof -
  have we: "unat (esn + win - 1) = e + w - 1"
  proof -
    have "unat (esn + win) = e + w" using assms(1-5) by (simp add: unat_add_small)
    moreover have "esn + win \<noteq> 0" using calculation assms(2) by auto
    ultimately show ?thesis by (simp add: unat_minus_one_pos)
  qed
  have d: "d < 4096" using assms(9) by simp
  have s: "unat s = (if e + d < 4096 then e + d else e + d - 4096)"
    using sn_off_inv [OF assms(1,6)] assms(7) add_mod_4096 [OF assms(1) d] by simp
  have "(unat s + 8192 - (e + w - 1)) mod 4096 = sn_off (w - 1) d"
  proof (cases "e + d < 4096")
    case True
    then have "unat s + 8192 - (e + w - 1) = (d + 4096 - (w - 1)) + 4096" using s assms(2,3) by simp
    then show ?thesis unfolding sn_off_def by (simp only: mod_add_self2)
  next
    case False
    then have "unat s + 8192 - (e + w - 1) = d + 4096 - (w - 1)" using s assms(2,3) by simp
    then show ?thesis by (simp only: sn_off_def)
  qed
  moreover have "sn_off (w - 1) d = (if w - 1 \<le> d then d - (w - 1) else d + 4096 - (w - 1))"
    using assms(3) d by (simp add: sn_off_if)
  moreover have "unat s = e + w - 1 \<longleftrightarrow> d + 1 = w \<and> e + d < 4096"
    using s assms(1,2,3,9) by (auto split: if_splits)
  moreover have "BA_SESSION_IS_A_BIGGER_THAN_B (ucast s) (esn + win - 1) \<longleftrightarrow>
      (unat s + 8192 - (e + w - 1)) mod 4096 < 0x7FF \<and> unat s \<noteq> e + w - 1"
    using BA_BIGGER_nat [of "ucast s" "esn + win - 1"] assms(1,3,6) unfolding we by simp
  ultimately have big: "BA_SESSION_IS_A_BIGGER_THAN_B (ucast s) (esn + win - 1) \<longleftrightarrow>
      (if w - 1 \<le> d then d - (w - 1) else d + 4096 - (w - 1)) < 0x7FF \<and>
      \<not> (d + 1 = w \<and> e + d < 4096)"
    by simp
  consider "d + 1 < w" | "d + 1 = w" | "w \<le> d" by linarith
  then show ?thesis
  proof cases
    case 1
    then have "\<not> w - 1 \<le> d" "\<not> d + 4096 - (w - 1) < 0x7FF" "\<not> w \<le> d" using assms(3) by linarith+
    then show ?thesis unfolding big by simp
  next
    case 2
    then show ?thesis unfolding big using assms(10) by simp
  next
    case 3
    then have "w - 1 \<le> d" "d - (w - 1) < 0x7FF" "d + 1 \<noteq> w" using assms(9) by linarith+
    then show ?thesis unfolding big using 3 by simp
  qed
qed

definition rx_packet_tid :: "rx_pkt \<Rightarrow> nat" where
  "rx_packet_tid p = unat (rx_word p OFS_QOS_CTRL AND DOT11_QOS_CONTROL_FIELD_TID_BITS)"

lemma rx_receive_data:
  assumes "packet_class_tag p = TAG_CLASS_QOS_DATA \<or> packet_class_tag p = TAG_CLASS_AMSDU"
    and "rx_packet_tid p < RX_NUM_TAGS" "aTidBaEstablished (rx_tid q (rx_packet_tid p))"
  shows "RxQueue_ReceivePacket q p = rx_established (rx_packet_tid p) p q"
proof -
  have "rx_fix_tag p = p" using assms(1) by (auto simp: rx_fix_tag_def)
  then show ?thesis
    using assms by (auto simp: RxQueue_ReceivePacket_def Let_def rx_data_def rx_packet_tid_def)
qed

section \<open>Properties\<close>

text \<open>C1: In-order delivery: while a session is established, a packet that is not behind the window and
  not a duplicate of a waiting one is handled to the end of the call; the packets passed up have
  strictly increasing sequence numbers, all below the new expected number; together with the waiting
  ones they are the previously waiting packets and the new one, none lost or doubled; the session
  invariant holds again, the timer runs if a packet waits, and other TIDs are untouched. The
  excluded case is a packet with the number of the window's last position when that lies past 4095.\<close>

theorem RxQueue_in_order:
  assumes "rx_inv q" "packet_class_tag p = TAG_CLASS_QOS_DATA \<or> packet_class_tag p = TAG_CLASS_AMSDU"
    and "t = rx_packet_tid p" "t < RX_NUM_TAGS" "aTidBaEstablished (rx_tid q t)"
    and "e = unat (aTidExpectedSn (rx_tid q t))" "pkt_off e p < 0x7FF"
    and "\<forall>r \<in> set (rx_stored t q). rx_sn r \<noteq> rx_sn p"
    and "\<not> (0 < pkt_off e p \<and> pkt_off e p + 1 = unat (aTidWinSize (rx_tid q t)) \<and> 4096 \<le> e + pkt_off e p)"
  shows "\<exists>q'. RxQueue_ReceivePacket q p = Some q' \<and> rx_inv q' \<and> rx_delivers t p q q' \<and> rx_timer_ok q' \<and>
    (\<forall>t'. t' \<noteq> t \<longrightarrow> rx_tid q' t' = rx_tid q t')"
proof -
  define w where "w = unat (aTidWinSize (rx_tid q t))"
  obtain win where isq: "rx_is t e win q" and ok: "rx_win_ok w e win" "1 \<le> w" "w \<le> 8"
    using assms(1,4,5,6) by (auto simp: rx_inv_def rx_session_ok_def w_def rx_is_def)
  have e: "e < 4096" "length win = 8"
    using isq rx_is_length [OF isq] by (auto simp: rx_is_def RX_QUEUE_ARRAY_SIZE_def)
  define d where "d = pkt_off e p"
  have off: "sn_off e (unat (rx_sn p)) = d" by (simp add: d_def pkt_off_def)
  have rec: "RxQueue_ReceivePacket q p = rx_established t p q"
    using rx_receive_data [of p q] assms(2-5) by simp
  have big: "BA_SESSION_IS_A_BIGGER_THAN_B (ucast (rx_sn p)) (ucast (aTidExpectedSn (rx_tid q t))) \<longleftrightarrow> 0 < d"
    using BA_BIGGER_off [OF e(1) rx_sn_lt [of p]] assms(6,7) off by (simp add: d_def)
  have eq: "rx_sn p = aTidExpectedSn (rx_tid q t) \<longleftrightarrow> d = 0"
    using sn_off_0 [OF e(1) rx_sn_lt [of p]] off assms(6) by (simp add: word_unat_eq_iff)
  have bend: "BA_SESSION_IS_A_BIGGER_THAN_B (ucast (rx_sn p))
      (ucast (aTidExpectedSn (rx_tid q t)) + aTidWinSize (rx_tid q t) - 1) \<longleftrightarrow> w \<le> d" if "0 < d"
    by (rule rx_win_end [OF e(1) ok(2,3) _ _ rx_sn_lt off [symmetric]])
      (use that assms(6,7,9) in \<open>simp_all add: w_def d_def\<close>)
  consider "d = 0" | "0 < d" "d < w" | "0 < d" "w \<le> d" by linarith
  then have "\<exists>q'. rx_established t p q = Some q' \<and> rx_inv q' \<and> rx_delivers t p q q' \<and> rx_timer_ok q' \<and>
      rx_same t q q'"
  proof cases
    case 1
    then have "unat (rx_sn p) = unat (aTidExpectedSn (rx_tid q t))" using eq by simp
    then obtain q' where "rx_expected t p q = Some q'" "rx_inv q'" "rx_delivers t p q q'"
        "rx_timer_ok q'" "rx_same t q q'"
      by (rule rx_expected_delivers [OF assms(1,4,5)])
    moreover have "rx_established t p q = rx_expected t p q"
      using 1 eq by (simp add: rx_established_def Let_def)
    ultimately show ?thesis by auto
  next
    case 2
    have "win ! d = None"
    proof (rule ccontr)
      assume "win ! d \<noteq> None"
      then obtain r where r: "win ! d = Some r" by blast
      then have "unat (rx_sn r) = (e + d) mod 4096" using ok 2 by (auto simp: rx_win_ok_def)
      also have "\<dots> = unat (rx_sn p)" using sn_off_inv [OF e(1) rx_sn_lt [of p]] off by simp
      finally have "rx_sn r = rx_sn p" by (simp add: word_unat_eq_iff)
      moreover have "r \<in> set (rx_stored t q)"
      proof -
        have "Some r \<in> set win" using r 2 ok(3) e(2) by (metis nth_mem less_le_trans)
        then show ?thesis unfolding rx_stored_is [OF isq] somes_def by force
      qed
      ultimately show False using assms(8) by blast
    qed
    note I = rx_inside_delivers [OF assms(1,4,5) isq d_def 2(1) _ this]
    have "rx_established t p q = Some (rx_inside t p (rx_sn p) q)"
      using 2 eq big bend by (simp add: rx_established_def Let_def)
    then show ?thesis using I 2(2) by (simp add: w_def)
  next
    case 3
    have run: "rx_established t p q = rx_beyond t p (rx_sn p) q"
      using 3 eq big bend by (simp add: rx_established_def Let_def)
    obtain q' where "rx_beyond t p (rx_sn p) q = Some q'" "rx_inv q'" "rx_delivers t p q q'"
        "rx_same t q q'" "rx_timer_ok q'"
      by (rule rx_beyond_delivers [OF assms(1,4,5) isq]) (use 3 assms(7) in \<open>simp_all add: w_def d_def\<close>)
    then show ?thesis using run by auto
  qed
  then show ?thesis unfolding rec by (auto simp: rx_same_def)
qed

end
