(* ===== verification/RxProps.thy ===== *)
theory RxProps
  imports RxOrder
begin

text \<open>The receive reordering queue: life cycle of sessions, refused packets, closing a session and
  the packet timer.\<close>

section \<open>Life cycle\<close>

definition rx_new_session :: "u32 \<Rightarrow> u16 \<Rightarrow> TRxQueueTidDataBase" where
  "rx_new_session w sn =
     \<lparr>aPaketsQueue = replicate RX_QUEUE_ARRAY_SIZE rx_empty_entry, aTidBaEstablished = True,
      aWinStartArrayInex = 0, aTidWinSize = w, aTidExpectedSn = sn\<rparr>"

lemma somes_replicate_None [simp]: "somes (replicate n None) = []"
  by (induction n) simp_all

lemma rx_window_empty:
  "aPaketsQueue db = replicate n rx_empty_entry \<Longrightarrow> rx_window db = replicate n None"
  by (rule nth_equalityI) (simp_all add: rx_window_def rx_empty_entry_def nth_rotate)

lemma rx_inv_cong:
  assumes "tSa1ArrayMng q' = tSa1ArrayMng q" "aPacketsStored q' = aPacketsStored q"
  shows "rx_inv q' = rx_inv q"
  unfolding rx_inv_def rx_session_ok_def rx_mng_cong(6) [OF assms] rx_mng_cong(1,2) [OF assms(1)] ..

lemma rx_inv_replace:
  assumes "rx_inv q" "t < RX_NUM_TAGS" "\<not> aTidBaEstablished (rx_tid q t)"
    and "1 \<le> unat w" "unat w \<le> 8" "unat sn < 4096"
  shows "rx_inv (rx_set_tid t (rx_new_session w sn) q)"
proof -
  define q' where "q' = rx_set_tid t (rx_new_session w sn) q"
  have win: "rx_window (rx_new_session w sn) = replicate 8 None"
    by (rule rx_window_empty) (simp add: rx_new_session_def RX_QUEUE_ARRAY_SIZE_def)
  obtain e win0 where isq: "rx_is t e win0 q" "somes win0 = []"
    using assms(1-3) by (auto simp: rx_inv_def rx_session_ok_def)
  then have l: "t < length (tSa1ArrayMng q)" and z: "rx_stored_of (rx_tid q t) = 0"
    by (auto simp: rx_is_def rx_stored_of_def)
  have "rx_counted q'"
    by (rule rx_counted_update [OF _ assms(2), where db = "rx_new_session w sn" and q = q])
      (use assms(1) z win in \<open>simp_all add: rx_inv_def q'_def rx_set_tid_def rx_stored_of_def rx_new_session_def
         RX_QUEUE_ARRAY_SIZE_def\<close>)
  moreover have "rx_session_ok t' q'" if "t' < RX_NUM_TAGS" for t'
  proof (cases "t' = t")
    case True
    have "rx_is t (unat sn) (replicate 8 None) q'"
      using l win assms(6) by (simp add: rx_is_def q'_def rx_new_session_def rx_empty_entry_def
          RX_QUEUE_ARRAY_SIZE_def)
    moreover have "rx_win_ok (unat w) (unat sn) (replicate 8 None)" by (simp add: rx_win_ok_def)
    ultimately show ?thesis
      unfolding rx_session_ok_def True using assms(4,5) l by (auto simp: q'_def rx_new_session_def)
  next
    case False
    have tid: "rx_tid q' t' = rx_tid q t'" "length (tSa1ArrayMng q') = length (tSa1ArrayMng q)"
      using False by (simp_all add: q'_def)
    have "rx_session_ok t' q" using assms(1) that by (simp add: rx_inv_def)
    then show ?thesis unfolding rx_session_ok_def rx_is_cong [OF tid] by (simp only: tid)
  qed
  ultimately show ?thesis by (simp add: rx_inv_def q'_def)
qed

lemma rx_created:
  "\<exists>q. RxQueue_Create True = Some q \<and> rx_inv q \<and> aPacketsStored q = 0 \<and> \<not> bPacketMiss q \<and>
     rx_trace q = [] \<and> (\<forall>t < RX_NUM_TAGS. \<not> aTidBaEstablished (rx_tid q t))"
proof -
  define q where "q = the (RxQueue_Create True)"
  define db where "db = \<lparr>aPaketsQueue = replicate RX_QUEUE_ARRAY_SIZE rx_empty_entry,
    aTidBaEstablished = False, aWinStartArrayInex = 0, aTidWinSize = 0, aTidExpectedSn = 0\<rparr>"
  have q: "RxQueue_Create True = Some q" by (simp add: q_def RxQueue_Create_def)
  have f: "tSa1ArrayMng q = replicate RX_NUM_TAGS db" "aPacketsStored q = 0" "\<not> bPacketMiss q"
      "rx_trace q = []"
    by (simp_all add: q_def RxQueue_Create_def db_def)
  have tid: "rx_tid q t = db" if "t < RX_NUM_TAGS" for t using that by (simp add: rx_tid_def f)
  have win: "rx_window db = replicate 8 None"
    by (rule rx_window_empty) (simp add: db_def RX_QUEUE_ARRAY_SIZE_def)
  have "rx_counted q"
    using win by (simp add: rx_counted_def f rx_stored_of_def db_def)
  moreover have "rx_session_ok t q" if "t < RX_NUM_TAGS" for t
  proof -
    have "rx_is t 0 (replicate 8 None) q"
      using that win by (simp add: rx_is_def tid f db_def rx_empty_entry_def RX_QUEUE_ARRAY_SIZE_def)
    then show ?thesis using that unfolding rx_session_ok_def
      by (intro exI [of _ 0] exI [of _ "replicate 8 None"]) (simp add: tid db_def)
  qed
  ultimately show ?thesis using q f tid by (auto simp: rx_inv_def db_def)
qed


text \<open>A newly created queue satisfies the session invariant, holds no packet, has no session and
  its timer is not running.\<close>

theorem RxQueue_Create_inv:
  "\<exists>q. RxQueue_Create True = Some q \<and> rx_inv q \<and> aPacketsStored q = 0 \<and> \<not> bPacketMiss q \<and>
     rx_trace q = [] \<and> map aTidBaEstablished (tSa1ArrayMng q) = replicate RX_NUM_TAGS False"
  using rx_created by (auto simp: RxQueue_Create_def)

lemma drop_and_masks:
  "drop_bit 6 x AND 1023 = drop_bit 6 (x :: u16)" "drop_bit 4 x AND 4095 = drop_bit 4 x"
proof -
  have "drop_bit 6 x AND 1023 = take_bit 10 (drop_bit 6 x)"
    by (simp add: take_bit_eq_mask mask_eq_exp_minus_1)
  also have "\<dots> = drop_bit 6 x" by (rule bit_word_eqI) (auto simp: bit_simps dest: bit_imp_le_length)
  finally show "drop_bit 6 x AND 1023 = drop_bit 6 x" .
  have "drop_bit 4 x AND 4095 = take_bit 12 (drop_bit 4 x)"
    by (simp add: take_bit_eq_mask mask_eq_exp_minus_1)
  also have "\<dots> = drop_bit 4 x" by (rule bit_word_eqI) (auto simp: bit_simps dest: bit_imp_le_length)
  finally show "drop_bit 4 x AND 4095 = drop_bit 4 x" .
qed

text \<open>An ADDBA request for a TID without a session, with a buffer size that is not zero, opens one:
  the window has the requested size cut to eight, starts at the requested number and is empty; the
  frame is passed up, the invariant holds and the other TIDs are untouched.\<close>

theorem RxQueue_ADDBA_opens:
  assumes "rx_inv q" "packet_class_tag p = TAG_CLASS_BA_EVENT" "rx_word p OFS_FC AND 0xfc = 0xd0"
    and "pFrame p (MGMT_HDR_SIZE + 1) = DOT11_BA_ACTION_ADDBA" "par = rx_word p (MGMT_HDR_SIZE + 3)"
    and "t = unat (drop_bit 2 (par AND 0x3C))" "t < RX_NUM_TAGS" "\<not> aTidBaEstablished (rx_tid q t)"
    and "1 \<le> unat (drop_bit 6 par)"
  shows "\<exists>q'. RxQueue_ReceivePacket q p = Some q' \<and> rx_inv q' \<and> aTidBaEstablished (rx_tid q' t) \<and>
    unat (aTidWinSize (rx_tid q' t)) = min (unat (drop_bit 6 par)) 8 \<and>
    aTidExpectedSn (rx_tid q' t) = drop_bit 4 (rx_word p (MGMT_HDR_SIZE + 7)) \<and> rx_stored t q' = [] \<and>
    rx_passed q' = rx_passed q @ [p] \<and> (\<forall>t'. t' \<noteq> t \<longrightarrow> rx_tid q' t' = rx_tid q t')"
proof -
  define fc where "fc = rx_word p OFS_FC"
  have sub: "fc AND DOT11_FC_SUB_MASK = DOT11_FC_SUB_ACTION"
  proof -
    have "fc AND DOT11_FC_SUB_MASK = (fc AND 0xfc) AND 0xf0"
      by (simp add: and.assoc DOT11_FC_SUB_MASK_def)
    then show ?thesis using assms(3) by (simp add: fc_def DOT11_FC_SUB_ACTION_def)
  qed
  have tag: "rx_fix_tag p = p" using assms(3) by (simp add: rx_fix_tag_def IS_QOS_FRAME_def)
  define bs where "bs = unat (drop_bit 6 par)"
  define w :: u32 where "w = (let w = ucast (drop_bit 6 par) in if w > of_nat RX_QUEUE_WIN_SIZE then of_nat RX_QUEUE_WIN_SIZE else w)"
  have "unat (ucast (drop_bit 6 par) :: u32) = bs" by (simp add: bs_def)
  then have w: "unat w = min bs 8"
    by (auto simp: w_def Let_def RX_QUEUE_WIN_SIZE_def RX_QUEUE_ARRAY_SIZE_def word_less_nat_alt)
  define sn where "sn = drop_bit 4 (rx_word p (MGMT_HDR_SIZE + 7))"
  have sn: "unat sn < 4096"
    using unat_bound [of "rx_word p (MGMT_HDR_SIZE + 7)"] by (simp add: sn_def drop_bit_eq_div unat_div)
  define q1 where "q1 = rx_set_tid t (rx_new_session w sn) q"
  have "rx_ba_event p q = Inr q1"
    using sub assms(4-8)
    by (simp add: rx_ba_event_def Let_def fc_def DOT11_FC_SUB_ACTION_def DOT11_FC_SUB_BAR_def
        rx_addba_def drop_and_masks q1_def rx_new_session_def w_def sn_def DOT11_SC_SEQ_NUM_MASK_def)
  then have run: "RxQueue_ReceivePacket q p = Some (RxQueue_PassPacket TI_OK p q1)"
    using assms(2) by (simp add: RxQueue_ReceivePacket_def Let_def tag TAG_CLASS_BA_EVENT_def
        TAG_CLASS_QOS_DATA_def TAG_CLASS_AMSDU_def)
  have l: "t < length (tSa1ArrayMng q)" using assms(1,7) by (simp add: rx_inv_def rx_counted_def)
  have inv: "rx_inv q1"
    unfolding q1_def by (rule rx_inv_replace [OF assms(1,7,8)]) (use w sn assms(9) in \<open>simp_all add: bs_def\<close>)
  define q' where "q' = RxQueue_PassPacket TI_OK p q1"
  have c: "tSa1ArrayMng q' = tSa1ArrayMng q1" "aPacketsStored q' = aPacketsStored q1"
    by (simp_all add: q'_def RxQueue_PassPacket_def)
  have tid: "rx_tid q' s = rx_tid q1 s" for s using c(1) by (simp add: rx_tid_def)
  have inv': "rx_inv q'"
    using inv rx_inv_cong [OF c] by simp
  have pas: "rx_passed q' = rx_passed q @ [p]"
    by (simp add: q'_def q1_def RxQueue_PassPacket_def rx_passed_cong [of "rx_set_tid t (rx_new_session w sn) q" q])
  have win: "rx_window (rx_new_session w sn) = replicate 8 None"
    by (rule rx_window_empty) (simp add: rx_new_session_def RX_QUEUE_ARRAY_SIZE_def)
  have me: "rx_tid q' t = rx_new_session w sn" using l by (simp add: tid q1_def)
  then have "rx_stored t q' = []" by (simp add: rx_stored_def win)
  then show ?thesis
    using run inv' pas w me by (simp add: q'_def [symmetric] bs_def sn_def rx_new_session_def)
      (simp add: tid q1_def)
qed


section \<open>Packets of an established session that are not kept\<close>

text \<open>A duplicate of a waiting packet is passed up at once with the driver's failure status, and
  nothing else changes: the waiting packet stays in its slot.\<close>

theorem RxQueue_duplicate:
  assumes "rx_inv q" "packet_class_tag p = TAG_CLASS_QOS_DATA \<or> packet_class_tag p = TAG_CLASS_AMSDU"
    and "t = rx_packet_tid p" "t < RX_NUM_TAGS" "aTidBaEstablished (rx_tid q t)"
    and "r \<in> set (rx_stored t q)" "rx_sn r = rx_sn p" "e = unat (aTidExpectedSn (rx_tid q t))"
    and "\<not> (pkt_off e p + 1 = unat (aTidWinSize (rx_tid q t)) \<and> 4096 \<le> e + pkt_off e p)"
  shows "RxQueue_ReceivePacket q p = Some (q\<lparr>rx_trace := rx_trace q @
    [ReceiveCb (p\<lparr>rx_status := (rx_status p AND NOT RX_DESC_STATUS_MASK) OR RX_DESC_STATUS_DRIVER_RX_Q_FAIL\<rparr>)]\<rparr>)"
proof -
  define w where "w = unat (aTidWinSize (rx_tid q t))"
  obtain win where isq: "rx_is t e win q" and ok: "rx_win_ok w e win" "1 \<le> w" "w \<le> 8"
    using assms(1,4,5,8) by (auto simp: rx_inv_def rx_session_ok_def w_def rx_is_def)
  have e: "e < 4096" "length win = 8"
    using isq rx_is_length [OF isq] by (auto simp: rx_is_def RX_QUEUE_ARRAY_SIZE_def)
  have "Some r \<in> set win" using assms(6) rx_stored_is [OF isq] by (auto simp: somes_def)
  then obtain d where d: "d < 8" "win ! d = Some r" using e(2) by (auto simp: in_set_conv_nth)
  then have dw: "d < w" "unat (rx_sn p) = (e + d) mod 4096" "0 < d"
    using ok(1) assms(7) by (auto simp: rx_win_ok_def intro!: gr0I)
  have off: "sn_off e (unat (rx_sn p)) = d" using dw d e(1) by (simp add: sn_off_add)
  then have po: "pkt_off e p = d" by (simp add: pkt_off_def)
  have big: "BA_SESSION_IS_A_BIGGER_THAN_B (ucast (rx_sn p)) (ucast (aTidExpectedSn (rx_tid q t)))"
    using BA_BIGGER_off [OF e(1) rx_sn_lt [of p]] assms(8) off dw(3) d by simp
  have neq: "rx_sn p \<noteq> aTidExpectedSn (rx_tid q t)"
    using sn_off_0 [OF e(1) rx_sn_lt [of p]] off assms(8) dw(3) by auto
  have bend: "\<not> BA_SESSION_IS_A_BIGGER_THAN_B (ucast (rx_sn p))
      (ucast (aTidExpectedSn (rx_tid q t)) + aTidWinSize (rx_tid q t) - 1)"
  proof (subst rx_win_end [OF e(1) ok(2,3) _ _ rx_sn_lt off [symmetric] dw(3)])
    show "\<not> (d + 1 = w \<and> 4096 \<le> e + d)" using assms(9) po by (simp add: w_def)
  qed (use d dw assms(8) in \<open>simp_all add: w_def\<close>)
  have idx: "pPacket (aPaketsQueue (rx_tid q t) ! rx_save_index (rx_tid q t) (rx_sn p)) = win ! d"
    using rx_save_index_nat [of "rx_tid q t" "rx_sn p"] isq rx_sn_lt [of p] d off
    by (auto simp: rx_is_def RX_QUEUE_ARRAY_SIZE_def rx_window_nth)
  have "rx_established t p q = Some (RxQueue_PassPacket TI_NOK p q)"
    using big neq bend idx d(2) by (simp add: rx_established_def Let_def rx_inside_def)
  then show ?thesis
    using rx_receive_data [of p q] assms(2-5) by (simp add: RxQueue_PassPacket_def rx_emit_def rx_mark_def)
qed

text \<open>A packet behind the window is passed up at once, unchanged, and does not touch the session.\<close>

theorem RxQueue_behind:
  assumes "rx_inv q" "packet_class_tag p = TAG_CLASS_QOS_DATA \<or> packet_class_tag p = TAG_CLASS_AMSDU"
    and "t = rx_packet_tid p" "t < RX_NUM_TAGS" "aTidBaEstablished (rx_tid q t)"
    and "0x7FF \<le> pkt_off (unat (aTidExpectedSn (rx_tid q t))) p"
  shows "RxQueue_ReceivePacket q p = Some (q\<lparr>rx_trace := rx_trace q @ [ReceiveCb p]\<rparr>)"
proof -
  define e where "e = unat (aTidExpectedSn (rx_tid q t))"
  have e: "e < 4096" using assms(1,4) by (auto simp: rx_inv_def rx_session_ok_def rx_is_def e_def)
  have off: "\<not> sn_off e (unat (rx_sn p)) < 0x7FF" using assms(6) by (simp add: pkt_off_def e_def)
  then have "\<not> BA_SESSION_IS_A_BIGGER_THAN_B (ucast (rx_sn p)) (ucast (aTidExpectedSn (rx_tid q t)))"
    using BA_BIGGER_off [OF e rx_sn_lt [of p]] by (simp add: e_def)
  moreover have "rx_sn p \<noteq> aTidExpectedSn (rx_tid q t)"
    using sn_off_0 [OF e rx_sn_lt [of p]] off by (auto simp: e_def)
  ultimately have "rx_established t p q = Some (RxQueue_PassPacket TI_OK p q)"
    by (simp add: rx_established_def Let_def)
  then show ?thesis
    using rx_receive_data [of p q] assms(2-5) by (simp add: RxQueue_PassPacket_def rx_emit_def)
qed


section \<open>Closing a session\<close>

text \<open>Passing all the slots of the array.\<close>

lemma rx_pass_all_moved:
  assumes "rx_is t e win q" "t < RX_NUM_TAGS"
  shows "rx_moved t n 0 q (((\<lambda>q. let q = rx_take t q in rx_set_tid t (rx_next_index (rx_tid q t)) q) ^^ n) q)"
proof (induction n)
  case 0
  then show ?case using rx_moved_refl by simp
next
  case (Suc n)
  from rx_moved_trans [OF Suc rx_index_take_moved [OF rx_is_moved [OF Suc assms(1)] assms(2)]]
  show ?case by simp
qed

lemma somes_shift_all: "length win \<le> m \<Longrightarrow> somes (rx_shift m win) = []"
  using somes_take_shift [of "length win" m win] by simp

lemma rx_session_other:
  assumes "rx_session_ok t' q" "rx_tid q' t' = rx_tid q t'" "length (tSa1ArrayMng q') = length (tSa1ArrayMng q)"
  shows "rx_session_ok t' q'"
  using assms(1) unfolding rx_session_ok_def rx_is_cong [OF assms(2,3)] by (simp only: assms(2))

lemma rx_close_flushes:
  assumes "rx_inv q" "t < RX_NUM_TAGS" "aTidBaEstablished (rx_tid q t)"
    and "q' = RxQueue_CloseBaSession q t"
  shows "rx_passed q' = rx_passed q @ rx_stored t q \<and>
    sorted_wrt (<) (map (pkt_off (unat (aTidExpectedSn (rx_tid q t)))) (rx_stored t q)) \<and>
    rx_stored t q' = [] \<and> \<not> aTidBaEstablished (rx_tid q' t) \<and> rx_inv q' \<and>
    (\<forall>t'. t' \<noteq> t \<longrightarrow> rx_tid q' t' = rx_tid q t')"
proof -
  define w where "w = unat (aTidWinSize (rx_tid q t))"
  obtain e win where isq: "rx_is t e win q" and ok: "rx_win_ok w e win" "w \<le> 8"
    using assms(1-3) by (auto simp: rx_inv_def rx_session_ok_def w_def)
  have e: "e < 4096" "unat (aTidExpectedSn (rx_tid q t)) = e" "length win = 8"
    using isq rx_is_length [OF isq] by (auto simp: rx_is_def RX_QUEUE_ARRAY_SIZE_def)
  have l: "t < length (tSa1ArrayMng q)" using isq by (simp add: rx_is_def)
  define q1 where "q1 = rx_set_tid t ((rx_tid q t)\<lparr>aTidBaEstablished := False\<rparr>) q"
  have is1: "rx_is t e win q1" using isq l by (simp add: rx_is_def q1_def rx_window_def)
  have cnt1: "rx_counted q1"
    by (rule rx_counted_update [OF _ assms(2), where db = "(rx_tid q t)\<lparr>aTidBaEstablished := False\<rparr>" and q = q])
      (use assms(1) isq in \<open>simp_all add: q1_def rx_set_tid_def rx_inv_def rx_is_def rx_stored_of_def rx_window_def\<close>)
  define q2 where "q2 = ((\<lambda>q. let q = rx_take t q in rx_set_tid t (rx_next_index (rx_tid q t)) q) ^^ 8) q1"
  have m: "rx_moved t 8 0 q1 q2" unfolding q2_def by (rule rx_pass_all_moved [OF is1 assms(2)])
  note M = rx_movedD [OF m is1]
  have q': "q' = rx_stop_timer q2"
    using assms(2,3) by (simp add: assms(4) RxQueue_CloseBaSession_def Let_def q1_def [symmetric] q2_def
        RX_QUEUE_ARRAY_SIZE_def RX_QUEUE_WIN_SIZE_def)
  have c: "tSa1ArrayMng q' = tSa1ArrayMng q2" "aPacketsStored q' = aPacketsStored q2"
    by (simp_all add: q')
  have is': "rx_is t e (rx_shift 8 win) q'" using M(1) rx_mng_cong(2) [OF c(1)] e(1) by simp
  have empty: "somes (rx_shift 8 win) = []" by (rule somes_shift_all) (simp add: e(3))
  have same: "rx_same t q1 q'" using M(3) rx_mng_cong(5) [OF c(1)] by simp
  then have est: "\<not> aTidBaEstablished (rx_tid q' t)" using l by (simp add: rx_same_def q1_def)
  have others: "rx_tid q' t' = rx_tid q t'" if "t' \<noteq> t" for t'
    using same that by (simp add: rx_same_def q1_def)
  have len: "length (tSa1ArrayMng q') = length (tSa1ArrayMng q)"
    using same by (simp add: rx_same_def q1_def)
  have "rx_session_ok t' q'" if "t' < RX_NUM_TAGS" for t'
  proof (cases "t' = t")
    case True
    then show ?thesis using is' empty est unfolding rx_session_ok_def by auto
  next
    case False
    show ?thesis
      by (rule rx_session_other [OF _ others [OF False] len]) (use assms(1) that in \<open>simp add: rx_inv_def\<close>)
  qed
  moreover have "rx_counted q'" using M(4) [OF cnt1] rx_mng_cong(6) [OF c] by simp
  ultimately have "rx_inv q'" by (simp add: rx_inv_def)
  moreover have "rx_passed q' = rx_passed q @ rx_stored t q"
    using M(2) rx_stored_is [OF isq] e(3) rx_passed_cong [of q1 q] by (simp add: q' q1_def)
  moreover have "sorted_wrt (<) (map (pkt_off e) (rx_stored t q))"
    using rx_offsets [OF ok(1) e(3,1), of 8] e(3) sorted_filter_upt [of "\<lambda>k. win ! k \<noteq> None" 8]
    unfolding rx_stored_is [OF isq] by simp
  moreover have "rx_stored t q' = []" using rx_stored_is [OF is'] empty by simp
  ultimately show ?thesis using est others e(2) by simp
qed


text \<open>C30: Closing a session passes all its waiting packets up, in the order of their sequence numbers,
  and leaves the TID without a session and without packets; the other TIDs and their count are kept.\<close>

theorem RxQueue_CloseBaSession_flushes:
  assumes "rx_inv q" "t < RX_NUM_TAGS" "aTidBaEstablished (rx_tid q t)"
    and "q' = RxQueue_CloseBaSession q t"
  shows "rx_passed q' = rx_passed q @ rx_stored t q \<and>
    sorted_wrt (<) (map (pkt_off (unat (aTidExpectedSn (rx_tid q t)))) (rx_stored t q)) \<and>
    rx_stored t q' = [] \<and> \<not> aTidBaEstablished (rx_tid q' t) \<and> rx_inv q' \<and>
    (\<forall>t'. t' \<noteq> t \<longrightarrow> rx_tid q' t' = rx_tid q t')"
  by (rule rx_close_flushes [OF assms])

section \<open>The packet timer\<close>

lemma rx_find_moved:
  assumes "rx_is t e win q" "t < RX_NUM_TAGS" "somes win \<noteq> []"
  obtains q' k where "rx_find t q = Some q'" "rx_moved t k k q q'" "somes (take k win) = []"
    "rx_shift k win ! 0 \<noteq> None" "k < 8"
proof -
  define k where "k = length (takeWhile (\<lambda>x. x = None) win)"
  have l: "length win = 8" using rx_is_length [OF assms(1)] by (simp add: RX_QUEUE_ARRAY_SIZE_def)
  have "\<exists>x \<in> set win. x \<noteq> None" using assms(3) by (auto simp: somes_def filter_empty_conv)
  then have "k \<noteq> length win" unfolding k_def by (metis (mono_tags, lifting) takeWhile_eq_all_conv takeWhile_eq_take take_all_iff order_refl)
  moreover have "k \<le> length win" unfolding k_def by (rule length_takeWhile_le)
  ultimately have k: "k < length win" by simp
  have nth: "win ! k \<noteq> None" using nth_length_takeWhile [of "\<lambda>x. x = None" win] k by (simp add: k_def)
  have before: "win ! j = None" if "j < k" for j
  proof -
    have "takeWhile (\<lambda>x. x = None) win ! j \<in> set (takeWhile (\<lambda>x. x = None) win)"
      using that by (simp add: k_def)
    then show ?thesis using that takeWhile_nth [of j "\<lambda>x. x = None" win] by (auto dest: set_takeWhileD simp: k_def)
  qed
  have none: "somes (take j win) = []" if "j \<le> k" for j
    using before that k by (auto simp: somes_def filter_empty_conv in_set_conv_nth)
  have sh: "rx_shift j win ! 0 = win ! j" if "j \<le> k" for j
  proof -
    have "0 < length win" using k by (rule le_less_trans [OF le0])
    from nth_rx_shift [OF this, of j] show ?thesis using that k by simp
  qed
  have step: "\<exists>q'. rx_find t q1 = Some q' \<and> rx_moved t (k - j) (k - j) q1 q'"
    if "rx_is t e1 (rx_shift j win) q1" "j \<le> k" for q1 j e1
    using that
  proof (induction "k - j" arbitrary: j q1 e1)
    case 0
    then have "pPacket (rx_head (rx_tid q1 t)) \<noteq> None"
      using rx_head_window [OF "0.prems"(1)] nth "0.hyps" "0.prems"(2) sh [of j] by simp
    then have "rx_find t q1 = Some q1" unfolding rx_find_def by (subst while_option_unfold) auto
    then show ?case using rx_moved_refl 0 by auto
  next
    case (Suc n)
    then have jk: "j < k" by simp
    then have h: "rx_shift j win ! 0 = None" using before sh by simp
    have m: "rx_moved t 1 1 q1 (rx_advance t q1)" by (rule rx_advance_moved [OF Suc.prems(1) assms(2) h])
    have is2: "rx_is t ((e1 + 1) mod 4096) (rx_shift (j + 1) win) (rx_advance t q1)"
      using rx_is_moved [OF m Suc.prems(1)] by (simp add: rx_shift_shift)
    have n: "n = k - (j + 1)" "j + 1 \<le> k" using Suc.hyps(2) jk by linarith+
    obtain q' where q': "rx_find t (rx_advance t q1) = Some q'"
        "rx_moved t (k - (j + 1)) (k - (j + 1)) (rx_advance t q1) q'"
      using Suc.hyps(1) [OF n(1) is2 n(2)] by blast
    have "rx_find t q1 = rx_find t (rx_advance t q1)"
      unfolding rx_find_def
      by (subst while_option_unfold) (use rx_head_window [OF Suc.prems(1)] h in simp)
    moreover have "1 + (k - (j + 1)) = k - j" using jk by simp
    ultimately show ?case using q' rx_moved_trans [OF m q'(2)] by auto
  qed
  obtain q' where "rx_find t q = Some q'" "rx_moved t k k q q'"
    using step [of e 0 q] assms(1) by auto
  then show ?thesis by (rule that) (use none nth k l sh in auto)
qed

text \<open>While packets of the TID wait, the counter is not zero, so the sending loop is the draining one.\<close>

lemma rx_send_stored_moved:
  assumes "rx_is t e win q" "t < RX_NUM_TAGS" "rx_counted q"
  obtains q' where "rx_send_stored t q = Some q'" "rx_moved t (rx_run win) (rx_run win) q q'"
proof -
  have "\<exists>q'. rx_send_stored t q = Some q' \<and> rx_moved t (rx_run win) (rx_run win) q q'"
    using assms
  proof (induction "rx_run win" arbitrary: q e win)
    case 0
    then obtain x xs where w: "win = x # xs"
      using rx_is_length [OF "0.prems"(1)] by (cases win) (auto simp: RX_QUEUE_ARRAY_SIZE_def)
    then have "win ! 0 = None" using 0 rx_run_shift1 [of x xs] by (auto split: if_splits)
    then have "rx_send_stored t q = Some q"
      unfolding rx_send_stored_def
      by (subst while_option_unfold) (use rx_head_window [OF "0.prems"(1)] in simp)
    then show ?case using 0 rx_moved_refl by auto
  next
    case (Suc n)
    then obtain x xs where w: "win = x # xs" by (cases win) (auto simp: rx_run_def)
    define q1 where "q1 = rx_advance t (rx_take t q)"
    have m1: "rx_moved t 1 1 q q1" unfolding q1_def by (rule rx_advance_take_moved [OF Suc.prems(1,2)])
    have some: "win ! 0 \<noteq> None" "n = rx_run (rx_shift 1 win)"
      using Suc.hyps(2) rx_run_shift1 [of x xs] w by (auto split: if_splits)
    have "rx_stored_of (rx_tid q t) \<noteq> 0"
      using some(1) Suc.prems(1) w by (auto simp: rx_is_def rx_stored_of_def)
    moreover have "rx_stored_of (rx_tid q t) \<le> unat (aPacketsStored q)"
      using Suc.prems(1,3) elem_le_sum_map [of t "tSa1ArrayMng q" rx_stored_of]
      by (simp add: rx_counted_def rx_tid_def rx_is_def)
    ultimately have "aPacketsStored q > 0" by (simp add: word_less_nat_alt)
    from Suc.hyps(1) [OF some(2) rx_is_moved [OF m1 Suc.prems(1)] Suc.prems(2) rx_movedD(4) [OF m1 Suc.prems(1,3)]]
    obtain q' where q': "rx_send_stored t q1 = Some q'" "rx_moved t n n q1 q'" using some(2) by auto
    have "rx_send_stored t q = rx_send_stored t q1"
      unfolding rx_send_stored_def
      by (subst while_option_unfold)
        (use rx_head_window [OF Suc.prems(1)] some(1) \<open>aPacketsStored q > 0\<close> in \<open>simp add: q1_def\<close>)
    then show ?case using q' rx_moved_trans [OF m1 q'(2)] Suc.hyps(2) by auto
  qed
  then show ?thesis using that by blast
qed


text \<open>C13: When the packet timer expires and the TID it was started for has waiting packets, the handler
  ends: it gives up the missing numbers before the first waiting packet and passes up, in order, that
  packet and those that follow it without a gap; the rest keeps waiting, the timer runs again if any
  packet of any TID waits, and the session invariant holds.\<close>

theorem RxQueue_PacketTimeOut_delivers:
  assumes "rx_inv q" "t = unat (aFrameTid q)" "t < RX_NUM_TAGS" "rx_stored t q \<noteq> []"
    and "e = unat (aTidExpectedSn (rx_tid q t))"
  shows "\<exists>q' ds. RxQueue_PacketTimeOut q = Some q' \<and> rx_passed q' = rx_passed q @ ds \<and> ds \<noteq> [] \<and>
    rx_stored t q = ds @ rx_stored t q' \<and> sorted_wrt (<) (map (pkt_off e) ds) \<and>
    rx_inv q' \<and> rx_timer_ok q' \<and> (\<forall>t'. t' \<noteq> t \<longrightarrow> rx_tid q' t' = rx_tid q t')"
proof -
  define w where "w = unat (aTidWinSize (rx_tid q t))"
  obtain e' win where is0: "rx_is t e' win q" and
    ok0: "if aTidBaEstablished (rx_tid q t) then 1 \<le> w \<and> w \<le> 8 \<and> rx_win_ok w e' win else somes win = []"
  proof -
    have "rx_session_ok t q" using assms(1,3) by (simp add: rx_inv_def)
    then show thesis using that unfolding rx_session_ok_def w_def by blast
  qed
  have isq: "rx_is t e win q" using is0 assms(5) by (simp add: rx_is_def)
  have some: "somes win \<noteq> []" using assms(4) rx_stored_is [OF isq] by simp
  then have est: "aTidBaEstablished (rx_tid q t)" and ok: "rx_win_ok w e win" "w \<le> 8"
    using ok0 is0 assms(5) by (auto simp: rx_is_def split: if_splits)
  have e: "e < 4096" "length win = 8"
    using isq rx_is_length [OF isq] by (auto simp: rx_is_def RX_QUEUE_ARRAY_SIZE_def)
  define q1 where "q1 = q\<lparr>bPacketMiss := False\<rparr>"
  have c1: "tSa1ArrayMng q1 = tSa1ArrayMng q" "aPacketsStored q1 = aPacketsStored q"
      "rx_passed q1 = rx_passed q"
    by (simp_all add: q1_def rx_passed_def)
  have is1: "rx_is t e win q1" using isq rx_mng_cong(2) [OF c1(1)] by simp
  have cnt1: "rx_counted q1" using assms(1) rx_mng_cong(6) [OF c1(1,2)] by (simp add: rx_inv_def)
  obtain q2 k where find: "rx_find t q1 = Some q2" and m2: "rx_moved t k k q1 q2"
    and none: "somes (take k win) = []" and hd: "rx_shift k win ! 0 \<noteq> None"
    using rx_find_moved [OF is1 assms(3) some] by metis
  define n where "n = rx_run (rx_shift k win)"
  obtain q3 where send: "rx_send_stored t q2 = Some q3" and m3: "rx_moved t n n q2 q3"
    unfolding n_def by (rule rx_send_stored_moved [OF rx_is_moved [OF m2 is1] assms(3) rx_movedD(4) [OF m2 is1 cnt1]])
  have m: "rx_moved t (k + n) (k + n) q1 q3" by (rule rx_moved_trans [OF m2 m3])
  note M = rx_movedD [OF m is1]
  have stored1: "aPacketsStored q1 \<noteq> 0"
  proof -
    have "rx_stored_of (rx_tid q t) \<noteq> 0" using some isq by (simp add: rx_stored_of_def rx_is_def)
    moreover have "rx_stored_of (rx_tid q t) \<le> unat (aPacketsStored q)"
      using assms(1) isq elem_le_sum_map [of t "tSa1ArrayMng q" rx_stored_of]
      by (simp add: rx_inv_def rx_counted_def rx_tid_def rx_is_def)
    ultimately show ?thesis using c1(2) by auto
  qed
  define q' where "q' = (if aPacketsStored q3 \<noteq> 0 then (rx_emit StartTimer q3)\<lparr>bPacketMiss := True\<rparr> else q3)"
  have run: "RxQueue_PacketTimeOut q = Some q'"
    using stored1 find send assms(2)
    by (simp add: RxQueue_PacketTimeOut_def Let_def q1_def q'_def split del: if_split)
  have c: "tSa1ArrayMng q' = tSa1ArrayMng q3" "aPacketsStored q' = aPacketsStored q3" "rx_passed q' = rx_passed q3"
    by (simp_all add: q'_def rx_passed_def rx_emit_def List.map_filter_def)
  have is': "rx_is t ((e + (k + n)) mod 4096) (rx_shift (k + n) win) q'"
    using M(1) rx_mng_cong(2) [OF c(1)] by simp
  have same: "rx_same t q q'" using M(3) rx_mng_cong(4) [OF c1(1)] rx_mng_cong(5) [OF c(1)] by simp
  have head: "rx_shift (k + n) win ! 0 = None"
    using rx_run_head [of "rx_shift k win"] e(2) unfolding n_def by (simp add: rx_shift_shift)
  have "rx_counted q'" using M(4) [OF cnt1] rx_mng_cong(6) [OF c(1,2)] by simp
  then have inv: "rx_inv q'"
    using rx_inv_update [OF assms(1,3) same _ is' est] rx_win_ok_shift [OF ok(1) e(2) head ok(2)]
    by (simp add: w_def)
  define ds where "ds = somes (take (k + n) win)"
  have lk: "length (rx_shift k win) = 8" using e(2) by simp
  have "n \<noteq> 0"
    using hd lk unfolding n_def rx_run_def by (cases "rx_shift k win") auto
  moreover have "somes (take n (rx_shift k win)) \<noteq> []" if "n \<noteq> 0"
    using hd that lk by (cases "rx_shift k win"; cases n) auto
  ultimately have ne: "ds \<noteq> []" using somes_take_add [of k win n] by (auto simp: ds_def)
  have pas: "rx_passed q' = rx_passed q @ ds" using M(2) c(3) c1(3) by (simp add: ds_def)
  have st: "rx_stored t q = ds @ rx_stored t q'"
  proof -
    have "somes (rx_shift (k + n) win) = somes (drop (k + n) win)"
      using somes_take_shift [of "length win" "k + n" win] by simp
    then show ?thesis unfolding rx_stored_is [OF isq] rx_stored_is [OF is'] ds_def
      by (metis append_take_drop_id somes_simps(4))
  qed
  have "sorted_wrt (<) (map (pkt_off e) ds)"
    unfolding ds_def rx_offsets [OF ok(1) e(2,1)] by (rule sorted_filter_upt)
  moreover have "rx_timer_ok q'" by (simp add: q'_def rx_timer_ok_def)
  ultimately show ?thesis using run pas ne st inv same by (auto simp: rx_same_def)
qed

text \<open>The packet timer remembers one TID only. If that TID has no waiting packet while another
  one has, the handler never ends: its first loop looks for a packet in an empty array.\<close>

theorem RxQueue_PacketTimeOut_hangs:
  assumes "t = unat (aFrameTid q)" "t < length (tSa1ArrayMng q)"
    and "length (aPaketsQueue (rx_tid q t)) = RX_QUEUE_ARRAY_SIZE"
    and "unat (aWinStartArrayInex (rx_tid q t)) < RX_QUEUE_ARRAY_SIZE"
    and "rx_stored t q = []" "aPacketsStored q \<noteq> 0"
  shows "RxQueue_PacketTimeOut q = None"
proof -
  define P where "P = (\<lambda>q. t < length (tSa1ArrayMng q) \<and>
    length (aPaketsQueue (rx_tid q t)) = RX_QUEUE_ARRAY_SIZE \<and>
    unat (aWinStartArrayInex (rx_tid q t)) < RX_QUEUE_ARRAY_SIZE \<and>
    (\<forall>s \<in> set (aPaketsQueue (rx_tid q t)). pPacket s = None))"
  have stay: "P (rx_advance t q)" if "P q" for q
    using that rx_next_index_unat [of "rx_tid q t"]
    by (auto simp: P_def rx_advance_def rx_next_sn_def rx_next_index_def RX_QUEUE_ARRAY_SIZE_def)
  have none: "pPacket (rx_head (rx_tid q t)) = None" if "P q" for q
    using that by (auto simp: P_def rx_head_def)
  have loop: "rx_find t q = None" if "P q" for q
  proof -
    have "P ((rx_advance t ^^ k) q)" for k
      by (induction k) (simp_all add: that stay)
    then show ?thesis using none by (simp add: rx_find_def while_option_def)
  qed
  have "P (q\<lparr>bPacketMiss := False\<rparr>)"
    using assms(2-5) by (auto simp: P_def rx_tid_def rx_stored_def somes_def rx_window_def filter_empty_conv)
  then show ?thesis
    using loop assms(1,6) by (simp add: RxQueue_PacketTimeOut_def Let_def)
qed


section \<open>Concrete instances\<close>

definition rx_demo_frame :: "u8 list \<Rightarrow> nat \<Rightarrow> u8" where
  "rx_demo_frame bs = (\<lambda>i. if i < length bs then bs ! i else 0)"

definition rx_demo_data :: "u8 \<Rightarrow> u16 \<Rightarrow> rx_pkt" where
  "rx_demo_data t sn = \<lparr>rx_addr = 1, rx_status = 0, packet_class_tag = TAG_CLASS_QOS_DATA,
     pFrame = rx_demo_frame (0x88 # replicate 21 0 @ [ucast (push_bit 4 sn), ucast (drop_bit 4 sn), t, 0])\<rparr>"

definition rx_demo_addba :: "u8 \<Rightarrow> u16 \<Rightarrow> u16 \<Rightarrow> rx_pkt" where
  "rx_demo_addba t w sn = \<lparr>rx_addr = 2, rx_status = 0, packet_class_tag = TAG_CLASS_BA_EVENT,
     pFrame = rx_demo_frame (0xd0 # replicate 23 0 @ [3, 0, 1, ucast (push_bit 6 w) OR push_bit 2 t,
       ucast (drop_bit 2 w), 0, 0, ucast (push_bit 4 sn), ucast (drop_bit 4 sn)])\<rparr>"

definition rx_demo_new :: TRxQueue where
  "rx_demo_new = the (RxQueue_Create True)"

definition rx_demo_q :: TRxQueue where
  "rx_demo_q = rx_set_tid 0 (rx_new_session 8 10) rx_demo_new"

definition rx_demo_q2 :: TRxQueue where
  "rx_demo_q2 = rx_inside 0 (rx_demo_data 0 12) 12 rx_demo_q"

lemma rx_demo_new_inv: "rx_inv rx_demo_new" "\<not> aTidBaEstablished (rx_tid rx_demo_new 0)"
  using rx_created by (auto simp: rx_demo_new_def RX_NUM_TAGS_def)

lemma rx_demo_q_inv: "rx_inv rx_demo_q"
  unfolding rx_demo_q_def
  by (rule rx_inv_replace [OF rx_demo_new_inv(1) _ rx_demo_new_inv(2)]) (simp_all add: RX_NUM_TAGS_def)

lemma rx_demo_sn: "rx_sn (rx_demo_data 0 12) = 12" "pkt_off 10 (rx_demo_data 0 12) = 2"
  by code_simp+

lemma rx_demo_q_state:
  "aTidBaEstablished (rx_tid rx_demo_q 0)" "unat (aTidExpectedSn (rx_tid rx_demo_q 0)) = 10"
  "unat (aTidWinSize (rx_tid rx_demo_q 0)) = 8" "rx_packet_tid (rx_demo_data 0 12) = 0"
  by code_simp+

lemma rx_demo_q_window: "rx_window (rx_tid rx_demo_q 0) = replicate 8 None" "rx_stored 0 rx_demo_q = []"
proof -
  have "0 < length (tSa1ArrayMng rx_demo_new)" by code_simp
  then have "rx_tid rx_demo_q 0 = rx_new_session 8 10" by (simp add: rx_demo_q_def)
  then show "rx_window (rx_tid rx_demo_q 0) = replicate 8 None"
    using rx_window_empty [of "rx_new_session 8 10" 8] by (simp add: rx_new_session_def RX_QUEUE_ARRAY_SIZE_def)
  then show "rx_stored 0 rx_demo_q = []" by (simp add: rx_stored_def)
qed

lemma rx_demo_q2_inv: "rx_inv rx_demo_q2"
proof -
  have "rx_session_ok 0 rx_demo_q" using rx_demo_q_inv by (simp add: rx_inv_def RX_NUM_TAGS_def)
  then have "rx_is 0 10 (replicate 8 None) rx_demo_q"
    using rx_demo_q_state rx_demo_q_window by (auto simp: rx_session_ok_def rx_is_def)
  then show ?thesis
    using rx_inside_delivers(1) [OF rx_demo_q_inv _ rx_demo_q_state(1), of 10 "replicate 8 None" 2 "rx_demo_data 0 12"]
    by (simp add: rx_demo_sn rx_demo_q_state rx_demo_q2_def RX_NUM_TAGS_def)
qed

lemma rx_demo_q2_state:
  "aTidBaEstablished (rx_tid rx_demo_q2 0)" "map rx_sn (rx_stored 0 rx_demo_q2) = [12]"
  "unat (aTidExpectedSn (rx_tid rx_demo_q2 0)) = 10" "unat (aTidWinSize (rx_tid rx_demo_q2 0)) = 8"
  "aFrameTid rx_demo_q2 = 0"
  by code_simp+

theorem RxQueue_in_order_witness:
  "\<exists>q'. RxQueue_ReceivePacket rx_demo_q (rx_demo_data 0 12) = Some q' \<and> rx_inv q' \<and>
     rx_delivers 0 (rx_demo_data 0 12) rx_demo_q q' \<and> rx_timer_ok q' \<and>
     (\<forall>t'. t' \<noteq> 0 \<longrightarrow> rx_tid q' t' = rx_tid rx_demo_q t')"
  by (rule RxQueue_in_order [OF rx_demo_q_inv, where e = 10])
    (simp_all add: rx_demo_sn rx_demo_q_state rx_demo_q_window RX_NUM_TAGS_def, simp add: rx_demo_data_def)

theorem RxQueue_ADDBA_opens_witness:
  "\<exists>q'. RxQueue_ReceivePacket rx_demo_new (rx_demo_addba 0 8 10) = Some q' \<and> rx_inv q' \<and>
    aTidBaEstablished (rx_tid q' 0) \<and>
    unat (aTidWinSize (rx_tid q' 0)) = min (unat (drop_bit 6 (rx_word (rx_demo_addba 0 8 10) (MGMT_HDR_SIZE + 3)))) 8 \<and>
    aTidExpectedSn (rx_tid q' 0) = drop_bit 4 (rx_word (rx_demo_addba 0 8 10) (MGMT_HDR_SIZE + 7)) \<and>
    rx_stored 0 q' = [] \<and>
    rx_passed q' = rx_passed rx_demo_new @ [rx_demo_addba 0 8 10] \<and>
    (\<forall>t'. t' \<noteq> 0 \<longrightarrow> rx_tid q' t' = rx_tid rx_demo_new t')"
  by (rule RxQueue_ADDBA_opens [OF rx_demo_new_inv(1) _ _ _ refl]; code_simp)

theorem RxQueue_duplicate_witness:
  "RxQueue_ReceivePacket rx_demo_q2 (rx_demo_data 0 12) = Some (rx_demo_q2\<lparr>rx_trace := rx_trace rx_demo_q2 @
    [ReceiveCb ((rx_demo_data 0 12)\<lparr>rx_status := (rx_status (rx_demo_data 0 12) AND NOT RX_DESC_STATUS_MASK) OR
      RX_DESC_STATUS_DRIVER_RX_Q_FAIL\<rparr>)]\<rparr>)"
proof -
  obtain r where "r \<in> set (rx_stored 0 rx_demo_q2)" "rx_sn r = 12"
    using rx_demo_q2_state(2) by auto
  then show ?thesis
    by (intro RxQueue_duplicate [OF rx_demo_q2_inv, where e = 10 and t = 0 and r = r])
      (simp_all add: rx_demo_sn rx_demo_q_state rx_demo_q2_state RX_NUM_TAGS_def, simp add: rx_demo_data_def)
qed

theorem RxQueue_behind_witness:
  "RxQueue_ReceivePacket rx_demo_q2 (rx_demo_data 0 9) =
     Some (rx_demo_q2\<lparr>rx_trace := rx_trace rx_demo_q2 @ [ReceiveCb (rx_demo_data 0 9)]\<rparr>)"
  by (rule RxQueue_behind [OF rx_demo_q2_inv _ refl]; code_simp)

theorem RxQueue_CloseBaSession_flushes_witness:
  "rx_passed (RxQueue_CloseBaSession rx_demo_q2 0) = rx_passed rx_demo_q2 @ rx_stored 0 rx_demo_q2 \<and>
    sorted_wrt (<) (map (pkt_off (unat (aTidExpectedSn (rx_tid rx_demo_q2 0)))) (rx_stored 0 rx_demo_q2)) \<and>
    rx_stored 0 (RxQueue_CloseBaSession rx_demo_q2 0) = [] \<and>
    \<not> aTidBaEstablished (rx_tid (RxQueue_CloseBaSession rx_demo_q2 0) 0) \<and>
    rx_inv (RxQueue_CloseBaSession rx_demo_q2 0) \<and>
    rx_tid (RxQueue_CloseBaSession rx_demo_q2 0) 1 = rx_tid rx_demo_q2 1"
proof -
  have "(0 :: nat) < RX_NUM_TAGS" by (simp add: RX_NUM_TAGS_def)
  from RxQueue_CloseBaSession_flushes [OF rx_demo_q2_inv this rx_demo_q2_state(1) refl] show ?thesis by simp
qed

theorem RxQueue_PacketTimeOut_delivers_witness:
  "\<exists>q' ds. RxQueue_PacketTimeOut rx_demo_q2 = Some q' \<and> rx_passed q' = rx_passed rx_demo_q2 @ ds \<and> ds \<noteq> [] \<and>
    rx_stored 0 rx_demo_q2 = ds @ rx_stored 0 q' \<and> sorted_wrt (<) (map (pkt_off 10) ds) \<and>
    rx_inv q' \<and> rx_timer_ok q' \<and> (\<forall>t'. t' \<noteq> 0 \<longrightarrow> rx_tid q' t' = rx_tid rx_demo_q2 t')"
  by (rule RxQueue_PacketTimeOut_delivers [OF rx_demo_q2_inv])
    (use rx_demo_q2_state in \<open>auto simp: RX_NUM_TAGS_def\<close>)

text \<open>A sequence of received frames that ends in the state in which the timer handler hangs: two
  sessions, one packet ahead of the expected one in each, then the expected packet of the first.\<close>

definition rx_demo_run :: "rx_pkt list \<Rightarrow> TRxQueue option" where
  "rx_demo_run ps =
     fold (\<lambda>p s. case s of None \<Rightarrow> None | Some q \<Rightarrow> RxQueue_ReceivePacket q p) ps (RxQueue_Create True)"

definition rx_demo_stuck :: TRxQueue where
  "rx_demo_stuck = the (rx_demo_run [rx_demo_addba 0 8 10, rx_demo_addba 1 8 10, rx_demo_data 0 11,
     rx_demo_data 1 11, rx_demo_data 0 10])"

lemma rx_demo_stuck_state:
  "length (tSa1ArrayMng rx_demo_stuck) = 8" "length (aPaketsQueue (rx_tid rx_demo_stuck 0)) = RX_QUEUE_ARRAY_SIZE"
  "unat (aWinStartArrayInex (rx_tid rx_demo_stuck 0)) < RX_QUEUE_ARRAY_SIZE"
  "length (rx_stored 0 rx_demo_stuck) = 0" "aPacketsStored rx_demo_stuck = 1" "aFrameTid rx_demo_stuck = 0"
  by code_simp+

theorem RxQueue_PacketTimeOut_hangs_witness: "RxQueue_PacketTimeOut rx_demo_stuck = None"
  by (rule RxQueue_PacketTimeOut_hangs [where t = 0]) (use rx_demo_stuck_state in simp_all)

section \<open>Concrete runs at the edges\<close>

definition rx_demo_bar :: "u8 \<Rightarrow> u16 \<Rightarrow> rx_pkt" where
  "rx_demo_bar t ssn = \<lparr>rx_addr = 3, rx_status = 0, packet_class_tag = TAG_CLASS_BA_EVENT,
     pFrame = rx_demo_frame (0x84 # replicate 15 0 @ [0, push_bit 4 t, ucast (push_bit 4 ssn), ucast (drop_bit 4 ssn)])\<rparr>"

definition rx_demo_delba :: "u8 \<Rightarrow> rx_pkt" where
  "rx_demo_delba t = \<lparr>rx_addr = 4, rx_status = 0, packet_class_tag = TAG_CLASS_BA_EVENT,
     pFrame = rx_demo_frame (0xd0 # replicate 23 0 @ [3, 2, 0, push_bit 4 t])\<rparr>"

text \<open>Expected number, sequence numbers waiting and passed (data only), and whether the timer runs.\<close>

definition rx_demo_view :: "nat \<Rightarrow> rx_pkt list \<Rightarrow> (u16 \<times> u16 list \<times> u16 list \<times> bool) option" where
  "rx_demo_view t ps = (case rx_demo_run ps of None \<Rightarrow> None | Some q \<Rightarrow>
     Some (aTidExpectedSn (rx_tid q t), map rx_sn (rx_stored t q),
       map rx_sn (filter (\<lambda>p. packet_class_tag p = TAG_CLASS_QOS_DATA) (rx_passed q)), bPacketMiss q))"

text \<open>A packet for the last position of the window waits, but not when that position lies past 4095:
  then the window moves on and the expected packet is given up.\<close>

lemma rx_last_position_wrap:
  "rx_demo_view 0 [rx_demo_addba 0 8 100, rx_demo_data 0 107] = Some (100, [107], [], True)"
  "rx_demo_view 0 [rx_demo_addba 0 8 4090, rx_demo_data 0 1] = Some (4091, [1], [], True)"
  by code_simp+

lemma rx_bar_flush_code [code]:
  "rx_bar_flush t d i q =
     (if (of_nat i < d \<or> pPacket (rx_head (rx_tid q t)) \<noteq> None) \<and> i < RX_QUEUE_ARRAY_SIZE \<and> i < RX_QUEUE_WIN_SIZE
      then (let q = rx_take t q in rx_bar_flush t d (i + 1) (rx_set_tid t (rx_next_index (rx_tid q t)) q))
      else q)"
proof -
  have "of_nat i < d \<longleftrightarrow> i < unat d" if "i < 8"
    using that by (simp add: word_less_nat_alt unat_of_nat)
  then show ?thesis
    unfolding rx_bar_flush.simps [of t d i q] RX_QUEUE_WIN_SIZE_def RX_QUEUE_ARRAY_SIZE_def by auto
qed

text \<open>A BAR passes the packets below its starting number; across the wrap of the numbers it passes all
  waiting packets, also those above.\<close>

lemma rx_bar_wrap:
  "rx_demo_view 0 [rx_demo_addba 0 8 94, rx_demo_data 0 96, rx_demo_data 0 99, rx_demo_bar 0 97] =
     Some (97, [99], [96], True)"
  "rx_demo_view 0 [rx_demo_addba 0 8 4094, rx_demo_data 0 0, rx_demo_data 0 3, rx_demo_bar 0 1] =
     Some (1, [], [0, 3], False)"
  by code_simp+

text \<open>A BAR also passes the packets that follow its starting number without a gap, but leaves that
  number as the expected one: the next packet waits although nothing is missing before it.\<close>

lemma rx_bar_expected_stale:
  "rx_demo_view 0 [rx_demo_addba 0 8 10, rx_demo_data 0 12, rx_demo_data 0 13, rx_demo_bar 0 12, rx_demo_data 0 14] =
     Some (12, [14], [12, 13], True)"
  by code_simp

text \<open>Closing one session stops the timer that the waiting packets of another one need.\<close>

lemma rx_close_stops_timer:
  assumes "rx_inv q" "t < RX_NUM_TAGS" "aTidBaEstablished (rx_tid q t)" "t' \<noteq> t"
  shows "\<not> bPacketMiss (RxQueue_CloseBaSession q t)" "rx_stored t' (RxQueue_CloseBaSession q t) = rx_stored t' q"
proof -
  have "\<not> bPacketMiss (rx_stop_timer r)" for r by (simp add: rx_stop_timer_def)
  then show "\<not> bPacketMiss (RxQueue_CloseBaSession q t)"
    using assms(2,3) by (simp add: RxQueue_CloseBaSession_def Let_def)
  show "rx_stored t' (RxQueue_CloseBaSession q t) = rx_stored t' q"
    using rx_close_flushes [OF assms(1-3) refl] assms(4) by (simp add: rx_stored_def)
qed

text \<open>A session opened with buffer size zero has an empty window: the packet after the expected one is
  beyond it, and waits in the slot before the window start although its number is no longer expected.\<close>

lemma rx_addba_zero:
  "rx_demo_view 0 [rx_demo_addba 0 0 10, rx_demo_data 0 11] = Some (12, [11], [], True)"
  by code_simp

end
