(* ===== verification/Timer.thy ===== *)
theory Timer
  imports Queue
begin

text \<open>
  \<open>utils/timer.c\<close>: the driver's timers. The OS expires a timer in its own context
  (\<open>tmr_GetExpiry\<close>), which only queues it; the driver task calls the users' functions
  (\<open>tmr_HandleExpiry\<close>). There is one queue for timers started while the driver was not operational
  and one for the others. The timer objects are a map from their addresses, so that a freed one is
  seen as such; the queues are the abstract ones of theory \<open>Queue\<close>, with a node header in use when its
  timer is in one of the two. OS calls, schedule requests and user callbacks are recorded in
  \<open>tmr_trace\<close>; what a callback does to the module is a parameter.
\<close>

section \<open>State\<close>

definition QUE_UNLIMITED_SIZE :: u32 where "QUE_UNLIMITED_SIZE = 0xFFFFFFFF"
definition EXPIRY_QUE_SIZE :: u32 where "EXPIRY_QUE_SIZE = QUE_UNLIMITED_SIZE"

record TTimerInfo =
  hTimerModule :: addr
  hOsTimerObj :: addr
  fExpiryCbFunc :: addr
  hExpiryCbHndl :: addr
  uIntervalMsec :: u32
  bPeriodic :: bool
  bOperStateWhenStarted :: bool
  uTwdInitCountWhenStarted :: u32

text \<open>An expired timer is recorded with its address, the two callback words and \<open>bTwdInitOccured\<close>.\<close>

datatype tmr_event =
    OsTimerStart addr u32
  | OsTimerStop addr
  | OsTimerDestroy addr
  | RequestSchedule u32
  | ExpiryCb addr addr addr bool

record TTimerModule =
  tmr_self :: addr
  uContextId :: u32
  hInitQueue :: "addr aqueue option"
  hOperQueue :: "addr aqueue option"
  bOperState :: bool
  uTwdInitCount :: u32
  uTimersCount :: u32
  tmr_objs :: "addr \<Rightarrow> TTimerInfo option"
  tmr_trace :: "tmr_event list"

definition tmr_emit :: "tmr_event \<Rightarrow> TTimerModule \<Rightarrow> TTimerModule" where
  "tmr_emit e m = m\<lparr>tmr_trace := tmr_trace m @ [e]\<rparr>"

section \<open>Life cycle of the module\<close>

text \<open>The address is what \<open>os_memoryAlloc\<close> returned.\<close>

definition tmr_Create :: "addr \<Rightarrow> TTimerModule option" where
  "tmr_Create a =
     (if a = 0 then None
      else Some \<lparr>tmr_self = a, uContextId = 0, hInitQueue = None, hOperQueue = None, bOperState = False,
        uTwdInitCount = 0, uTimersCount = 0, tmr_objs = (\<lambda>_. None), tmr_trace = []\<rparr>)"

text \<open>\<open>bInit\<close> and \<open>bOper\<close>: the queues could be allocated; \<open>uId\<close>: what
  \<open>context_RegisterClient\<close> returned.\<close>

definition tmr_Init :: "TTimerModule option \<Rightarrow> bool \<Rightarrow> bool \<Rightarrow> u32 \<Rightarrow> TTimerModule option" where
  "tmr_Init pModule bInit bOper uId =
     (case pModule of
        None \<Rightarrow> None
      | Some m \<Rightarrow>
          Some (m\<lparr>bOperState := False, uTimersCount := 0, uTwdInitCount := 0,
            hInitQueue := (if bInit then Some (aq_Create EXPIRY_QUE_SIZE) else None),
            hOperQueue := (if bOper then Some (aq_Create EXPIRY_QUE_SIZE) else None),
            uContextId := uId\<rparr>))"

text \<open>Both only free memory; the result is the status and whether timers were left over.\<close>

definition tmr_Destroy :: "TTimerModule option \<Rightarrow> ti_status \<times> bool" where
  "tmr_Destroy pModule = (case pModule of None \<Rightarrow> (TI_NOK, False) | Some m \<Rightarrow> (TI_OK, uTimersCount m \<noteq> 0))"

definition tmr_Free :: "TTimerModule option \<Rightarrow> ti_status" where
  "tmr_Free pModule = (case pModule of None \<Rightarrow> TI_NOK | Some m \<Rightarrow> TI_OK)"

section \<open>The queues\<close>

definition tmr_deq :: "addr aqueue option \<Rightarrow> fault + (addr option \<times> addr aqueue)" where
  "tmr_deq pQue = (case pQue of None \<Rightarrow> Inl NullDeref | Some q \<Rightarrow> Inr (aq_Dequeue q))"

text \<open>The loop \<open>while (que_Dequeue (q) != NULL) {}\<close>.\<close>

function tmr_clear :: "addr aqueue \<Rightarrow> addr aqueue" where
  "tmr_clear q = (case aq_Dequeue q of (None, q') \<Rightarrow> q' | (Some x, q') \<Rightarrow> tmr_clear q')"
  by pat_completeness auto
termination by (relation "measure (\<lambda>q. length (aq_items q))") (auto simp: aq_Dequeue_def split: list.splits)

definition tmr_ClearInitQueue :: "TTimerModule \<Rightarrow> fault + TTimerModule" where
  "tmr_ClearInitQueue m =
     (case hInitQueue m of None \<Rightarrow> Inl NullDeref | Some q \<Rightarrow> Inr (m\<lparr>hInitQueue := Some (tmr_clear q)\<rparr>))"

definition tmr_ClearOperQueue :: "TTimerModule \<Rightarrow> fault + TTimerModule" where
  "tmr_ClearOperQueue m =
     (case hOperQueue m of None \<Rightarrow> Inl NullDeref | Some q \<Rightarrow> Inr (m\<lparr>hOperQueue := Some (tmr_clear q)\<rparr>))"

definition tmr_items :: "addr aqueue option \<Rightarrow> addr list" where
  "tmr_items pQue = (case pQue of None \<Rightarrow> [] | Some q \<Rightarrow> aq_items q)"

definition tmr_queued :: "TTimerModule \<Rightarrow> addr list" where
  "tmr_queued m = tmr_items (hInitQueue m) @ tmr_items (hOperQueue m)"

definition tmr_enq :: "TTimerModule \<Rightarrow> addr \<Rightarrow> addr aqueue option \<Rightarrow> addr aqueue option" where
  "tmr_enq m t pQue = map_option (\<lambda>q. snd (aq_Enqueue (t \<in> set (tmr_queued m)) t q)) pQue"

definition tmr_UpdateDriverState :: "TTimerModule option \<Rightarrow> bool \<Rightarrow> fault + TTimerModule option" where
  "tmr_UpdateDriverState pModule oper =
     (case pModule of
        None \<Rightarrow> Inr None
      | Some m \<Rightarrow>
          if oper = bOperState m then Inr (Some m)
          else
            (let m = m\<lparr>bOperState := oper\<rparr> in
             if oper then
               (case tmr_ClearInitQueue (m\<lparr>uTwdInitCount := uTwdInitCount m + 1\<rparr>) of
                  Inl f \<Rightarrow> Inl f
                | Inr m \<Rightarrow> Inr (Some (tmr_emit (RequestSchedule (uContextId m)) m)))
             else Inr (Some m)))"

section \<open>Timers\<close>

text \<open>\<open>a\<close> and \<open>o\<close>: what \<open>os_memoryAlloc\<close> and \<open>os_timerCreate\<close> returned.\<close>

definition tmr_zero :: TTimerInfo where
  "tmr_zero = \<lparr>hTimerModule = 0, hOsTimerObj = 0, fExpiryCbFunc = 0, hExpiryCbHndl = 0, uIntervalMsec = 0,
     bPeriodic = False, bOperStateWhenStarted = False, uTwdInitCountWhenStarted = 0\<rparr>"

definition tmr_CreateTimer ::
  "TTimerModule option \<Rightarrow> addr \<Rightarrow> addr \<Rightarrow> addr \<times> TTimerModule option" where
  "tmr_CreateTimer pModule a ost =
     (case pModule of
        None \<Rightarrow> (0, None)
      | Some m \<Rightarrow>
          if a = 0 then (0, Some m)
          else if ost = 0 then (0, Some m)
          else (a, Some (m\<lparr>tmr_objs := (tmr_objs m)(a \<mapsto> tmr_zero\<lparr>hOsTimerObj := ost, hTimerModule := tmr_self m\<rparr>),
                 uTimersCount := uTimersCount m + 1\<rparr>)))"

text \<open>The object behind a handle: NULL and freed objects are faults.\<close>

definition tmr_obj :: "TTimerModule \<Rightarrow> addr \<Rightarrow> fault + TTimerInfo" where
  "tmr_obj m t =
     (if t = 0 then Inl NullDeref
      else case tmr_objs m t of None \<Rightarrow> Inl UseAfterFree | Some i \<Rightarrow> Inr i)"

definition tmr_DestroyTimer :: "TTimerModule \<Rightarrow> addr \<Rightarrow> fault + (ti_status \<times> TTimerModule)" where
  "tmr_DestroyTimer m t =
     (if t = 0 then Inr (TI_NOK, m)
      else case tmr_obj m t of
        Inl f \<Rightarrow> Inl f
      | Inr i \<Rightarrow>
          if hTimerModule i = 0 then Inr (TI_NOK, m)
          else
            (let m = (if hOsTimerObj i \<noteq> 0
                      then (tmr_emit (OsTimerDestroy (hOsTimerObj i)) m)\<lparr>uTimersCount := uTimersCount m - 1\<rparr>
                      else m)
             in Inr (TI_OK, m\<lparr>tmr_objs := (tmr_objs m)(t := None)\<rparr>)))"

definition tmr_StartTimer ::
  "TTimerModule \<Rightarrow> addr \<Rightarrow> addr \<Rightarrow> addr \<Rightarrow> u32 \<Rightarrow> bool \<Rightarrow> fault + TTimerModule" where
  "tmr_StartTimer m t fCb hCb ms periodic =
     (case tmr_obj m t of
        Inl f \<Rightarrow> Inl f
      | Inr i \<Rightarrow>
          if hTimerModule i = 0 then Inr m
          else
            (let i = i\<lparr>fExpiryCbFunc := fCb, hExpiryCbHndl := hCb, uIntervalMsec := ms, bPeriodic := periodic,
                       bOperStateWhenStarted := bOperState m, uTwdInitCountWhenStarted := uTwdInitCount m\<rparr>
             in Inr (tmr_emit (OsTimerStart (hOsTimerObj i) ms) (m\<lparr>tmr_objs := (tmr_objs m)(t \<mapsto> i)\<rparr>))))"

definition tmr_StopTimer :: "TTimerModule \<Rightarrow> addr \<Rightarrow> fault + TTimerModule" where
  "tmr_StopTimer m t =
     (case tmr_obj m t of
        Inl f \<Rightarrow> Inl f
      | Inr i \<Rightarrow>
          if hTimerModule i = 0 then Inr m
          else Inr ((tmr_emit (OsTimerStop (hOsTimerObj i)) m)
                 \<lparr>tmr_objs := (tmr_objs m)(t \<mapsto> i\<lparr>bPeriodic := False\<rparr>)\<rparr>))"

section \<open>Expiry\<close>

definition tmr_GetExpiry :: "TTimerModule \<Rightarrow> addr \<Rightarrow> fault + TTimerModule" where
  "tmr_GetExpiry m t =
     (case tmr_obj m t of
        Inl f \<Rightarrow> Inl f
      | Inr i \<Rightarrow>
          if hTimerModule i = 0 then Inr m
          else
            (let m = (if bOperStateWhenStarted i then m\<lparr>hOperQueue := tmr_enq m t (hOperQueue m)\<rparr>
                      else if \<not> bOperState m then m\<lparr>hInitQueue := tmr_enq m t (hInitQueue m)\<rparr>
                      else m)
             in Inr (tmr_emit (RequestSchedule (uContextId m)) m)))"

text \<open>One turn of the loop; \<open>None\<close> when the queue is empty. \<open>cb\<close> is what the user's function does.\<close>

type_synonym tmr_cb = "addr \<Rightarrow> addr \<Rightarrow> bool \<Rightarrow> TTimerModule \<Rightarrow> fault + TTimerModule"

definition tmr_NextExpired :: "TTimerModule \<Rightarrow> fault + (addr option \<times> TTimerModule)" where
  "tmr_NextExpired m =
     (if bOperState m
      then (case tmr_deq (hOperQueue m) of
              Inl f \<Rightarrow> Inl f | Inr (t, q) \<Rightarrow> Inr (t, m\<lparr>hOperQueue := Some q\<rparr>))
      else (case tmr_deq (hInitQueue m) of
              Inl f \<Rightarrow> Inl f | Inr (t, q) \<Rightarrow> Inr (t, m\<lparr>hInitQueue := Some q\<rparr>)))"

definition tmr_CallUser :: "tmr_cb \<Rightarrow> TTimerModule \<Rightarrow> addr \<Rightarrow> fault + TTimerModule" where
  "tmr_CallUser cb m t =
     (case tmr_obj m t of
        Inl f \<Rightarrow> Inl f
      | Inr i \<Rightarrow>
          (let bTwdInitOccured = (uTwdInitCount m \<noteq> uTwdInitCountWhenStarted i);
               m = tmr_emit (ExpiryCb t (fExpiryCbFunc i) (hExpiryCbHndl i) bTwdInitOccured) m
           in case cb (fExpiryCbFunc i) (hExpiryCbHndl i) bTwdInitOccured m of
                Inl f \<Rightarrow> Inl f
              | Inr m \<Rightarrow>
                  (case tmr_obj m t of
                     Inl f \<Rightarrow> Inl f
                   | Inr i \<Rightarrow>
                       if bPeriodic i
                       then tmr_StartTimer m t (fExpiryCbFunc i) (hExpiryCbHndl i) (uIntervalMsec i) (bPeriodic i)
                       else Inr m)))"

partial_function (option) tmr_Loop :: "tmr_cb \<Rightarrow> TTimerModule \<Rightarrow> (fault + TTimerModule) option" where
  "tmr_Loop cb m =
     (case tmr_NextExpired m of
        Inl f \<Rightarrow> Some (Inl f)
      | Inr (None, m) \<Rightarrow> Some (Inr m)
      | Inr (Some t, m) \<Rightarrow>
          (case tmr_CallUser cb m t of
             Inl f \<Rightarrow> Some (Inl f)
           | Inr m \<Rightarrow> tmr_Loop cb m))"

definition tmr_HandleExpiry :: "tmr_cb \<Rightarrow> TTimerModule option \<Rightarrow> (fault + TTimerModule option) option" where
  "tmr_HandleExpiry cb pModule =
     (case pModule of
        None \<Rightarrow> Some (Inr None)
      | Some m \<Rightarrow> map_option (map_sum id Some) (tmr_Loop cb m))"

section \<open>Well-formed states\<close>

definition tmr_wf :: "TTimerModule \<Rightarrow> bool" where
  "tmr_wf m \<longleftrightarrow>
     tmr_self m \<noteq> 0 \<and> hInitQueue m \<noteq> None \<and> hOperQueue m \<noteq> None \<and>
     distinct (tmr_queued m) \<and> set (tmr_queued m) \<subseteq> dom (tmr_objs m) \<and>
     (bOperState m \<longrightarrow> tmr_items (hInitQueue m) = []) \<and>
     finite (dom (tmr_objs m)) \<and> uTimersCount m = of_nat (card (dom (tmr_objs m))) \<and>
     tmr_objs m 0 = None \<and>
     (\<forall>t i. tmr_objs m t = Some i \<longrightarrow> hTimerModule i = tmr_self m \<and> hOsTimerObj i \<noteq> 0)"

lemma tmr_items_simps [simp]: "tmr_items None = []" "tmr_items (Some q) = aq_items q"
  by (simp_all add: tmr_items_def)

lemma tmr_emit_simps [simp]:
  "tmr_objs (tmr_emit e m) = tmr_objs m" "hInitQueue (tmr_emit e m) = hInitQueue m"
  "hOperQueue (tmr_emit e m) = hOperQueue m" "bOperState (tmr_emit e m) = bOperState m"
  "uTwdInitCount (tmr_emit e m) = uTwdInitCount m" "uTimersCount (tmr_emit e m) = uTimersCount m"
  "tmr_self (tmr_emit e m) = tmr_self m" "uContextId (tmr_emit e m) = uContextId m"
  "tmr_trace (tmr_emit e m) = tmr_trace m @ [e]"
  by (simp_all add: tmr_emit_def)

lemma tmr_wf_cong:
  assumes "tmr_objs m' = tmr_objs m" "hInitQueue m' = hInitQueue m" "hOperQueue m' = hOperQueue m"
    "bOperState m' = bOperState m" "uTimersCount m' = uTimersCount m" "tmr_self m' = tmr_self m"
  shows "tmr_wf m' = tmr_wf m"
  using assms by (simp add: tmr_wf_def tmr_queued_def)

lemma tmr_obj_wf: "tmr_wf m \<Longrightarrow> tmr_objs m t = Some i \<Longrightarrow> tmr_obj m t = Inr i"
  by (cases "t = 0") (auto simp: tmr_obj_def tmr_wf_def)

lemma tmr_clear_items: "tmr_clear q = q\<lparr>aq_items := []\<rparr>"
proof (induction q rule: tmr_clear.induct)
  case (1 q)
  then show ?case
    by (subst tmr_clear.simps) (cases "aq_items q"; simp add: aq_Dequeue_def)
qed

declare tmr_clear.simps [simp del]

lemma tmr_Init_wf:
  assumes "a \<noteq> 0" "tmr_Create a = Some m0" "tmr_Init (Some m0) True True uId = Some m"
  shows "tmr_wf m" "tmr_queued m = []"
  using assms by (auto simp: tmr_Create_def tmr_Init_def tmr_wf_def tmr_queued_def aq_Create_def)

lemma tmr_CreateTimer_wf:
  assumes "tmr_wf m" "tmr_objs m a = None"
  shows "\<exists>m'. tmr_CreateTimer (Some m) a ost = (if a \<noteq> 0 \<and> ost \<noteq> 0 then a else 0, Some m') \<and> tmr_wf m'"
proof -
  have "card (dom ((tmr_objs m)(a \<mapsto> (i :: TTimerInfo)))) = Suc (card (dom (tmr_objs m)))" for i
    using assms by (simp add: tmr_wf_def domIff)
  then show ?thesis
    using assms
    by (auto simp: tmr_CreateTimer_def tmr_wf_def tmr_queued_def tmr_zero_def add.commute split: if_splits)
qed

lemma tmr_update_obj_wf:
  assumes "tmr_wf m" "tmr_objs m t = Some i" "hTimerModule i' = hTimerModule i" "hOsTimerObj i' = hOsTimerObj i"
  shows "tmr_wf (m\<lparr>tmr_objs := (tmr_objs m)(t \<mapsto> i')\<rparr>)"
proof -
  have "dom ((tmr_objs m)(t \<mapsto> i')) = dom (tmr_objs m)" using assms(2) by auto
  then show ?thesis using assms by (auto simp: tmr_wf_def tmr_queued_def)
qed

lemma tmr_StartTimer_wf:
  assumes "tmr_wf m" "tmr_objs m t = Some i"
  shows "\<exists>m' i'. tmr_StartTimer m t fCb hCb ms p = Inr m' \<and> tmr_wf m' \<and> tmr_objs m' = (tmr_objs m)(t \<mapsto> i') \<and>
    hInitQueue m' = hInitQueue m \<and> hOperQueue m' = hOperQueue m \<and> bOperState m' = bOperState m \<and>
    uTwdInitCount m' = uTwdInitCount m \<and> tmr_self m' = tmr_self m \<and>
    tmr_trace m' = tmr_trace m @ [OsTimerStart (hOsTimerObj i) ms]"
proof -
  define i' where "i' = i\<lparr>fExpiryCbFunc := fCb, hExpiryCbHndl := hCb, uIntervalMsec := ms, bPeriodic := p,
    bOperStateWhenStarted := bOperState m, uTwdInitCountWhenStarted := uTwdInitCount m\<rparr>"
  define m1 where "m1 = m\<lparr>tmr_objs := (tmr_objs m)(t \<mapsto> i')\<rparr>"
  have "tmr_wf m1"
    unfolding m1_def by (rule tmr_update_obj_wf [OF assms]) (simp_all add: i'_def)
  moreover have "hTimerModule i \<noteq> 0" using assms by (auto simp: tmr_wf_def)
  then have "tmr_StartTimer m t fCb hCb ms p = Inr (tmr_emit (OsTimerStart (hOsTimerObj i) ms) m1)"
    by (simp add: tmr_StartTimer_def tmr_obj_wf [OF assms] i'_def m1_def)
  ultimately show ?thesis
    using tmr_wf_cong [of "tmr_emit (OsTimerStart (hOsTimerObj i) ms) m1" m1]
    by (auto simp: m1_def)
qed

lemma tmr_StopTimer_wf:
  assumes "tmr_wf m" "tmr_objs m t = Some i"
  shows "\<exists>m' i'. tmr_StopTimer m t = Inr m' \<and> tmr_wf m' \<and> tmr_objs m' = (tmr_objs m)(t \<mapsto> i') \<and>
    hInitQueue m' = hInitQueue m \<and> hOperQueue m' = hOperQueue m \<and> bOperState m' = bOperState m \<and>
    uTwdInitCount m' = uTwdInitCount m \<and> tmr_self m' = tmr_self m \<and>
    tmr_trace m' = tmr_trace m @ [OsTimerStop (hOsTimerObj i)]"
proof -
  define m1 where "m1 = m\<lparr>tmr_objs := (tmr_objs m)(t \<mapsto> i\<lparr>bPeriodic := False\<rparr>)\<rparr>"
  have w: "tmr_wf m1"
    unfolding m1_def by (rule tmr_update_obj_wf [OF assms]) simp_all
  define m' where "m' = (tmr_emit (OsTimerStop (hOsTimerObj i)) m)
    \<lparr>tmr_objs := (tmr_objs m)(t \<mapsto> i\<lparr>bPeriodic := False\<rparr>)\<rparr>"
  have "hTimerModule i \<noteq> 0" using assms by (auto simp: tmr_wf_def)
  then have "tmr_StopTimer m t = Inr m'"
    by (simp add: tmr_StopTimer_def tmr_obj_wf [OF assms] m'_def)
  moreover have "tmr_wf m'" using w tmr_wf_cong [of m' m1] by (simp add: m'_def m1_def)
  ultimately show ?thesis by (auto simp: m'_def)
qed

section \<open>The contract of the users' callbacks\<close>

text \<open>The events of expired timers, and the queue that the current state handles.\<close>

definition tmr_expired :: "TTimerModule \<Rightarrow> (addr \<times> addr \<times> addr \<times> bool) list" where
  "tmr_expired m =
     List.map_filter (\<lambda>e. case e of ExpiryCb t f h b \<Rightarrow> Some (t, f, h, b) | _ \<Rightarrow> None) (tmr_trace m)"

definition tmr_active :: "TTimerModule \<Rightarrow> addr list" where
  "tmr_active m = tmr_items (if bOperState m then hOperQueue m else hInitQueue m)"

definition tmr_other :: "TTimerModule \<Rightarrow> addr list" where
  "tmr_other m = tmr_items (if bOperState m then hInitQueue m else hOperQueue m)"

text \<open>What a callback may change: the timers it uses, and the trace but not the expired timers.\<close>

definition tmr_quiet :: "addr set \<Rightarrow> TTimerModule \<Rightarrow> TTimerModule \<Rightarrow> bool" where
  "tmr_quiet uses m m' \<longleftrightarrow>
     hInitQueue m' = hInitQueue m \<and> hOperQueue m' = hOperQueue m \<and> bOperState m' = bOperState m \<and>
     uTwdInitCount m' = uTwdInitCount m \<and> tmr_self m' = tmr_self m \<and> tmr_expired m' = tmr_expired m \<and>
     dom (tmr_objs m') = dom (tmr_objs m) \<and> (\<forall>t. t \<notin> uses \<longrightarrow> tmr_objs m' t = tmr_objs m t)"

lemma tmr_quiet_refl: "tmr_quiet U m m"
  by (simp add: tmr_quiet_def)

lemma tmr_quiet_trans: "tmr_quiet U m m1 \<Longrightarrow> tmr_quiet U m1 m2 \<Longrightarrow> tmr_quiet U m m2"
  by (simp add: tmr_quiet_def)

lemma tmr_quiet_mono: "tmr_quiet U m m' \<Longrightarrow> U \<subseteq> V \<Longrightarrow> tmr_quiet V m m'"
  by (auto simp: tmr_quiet_def)

lemma tmr_expired_simps [simp]:
  "tmr_expired (tmr_emit (ExpiryCb t f h b) m) = tmr_expired m @ [(t, f, h, b)]"
  by (simp add: tmr_expired_def List.map_filter_def)

lemma tmr_expired_trace:
  "tmr_trace m' = tmr_trace m @ [OsTimerStart obj ms] \<Longrightarrow> tmr_expired m' = tmr_expired m"
  "tmr_trace m' = tmr_trace m @ [OsTimerStop obj] \<Longrightarrow> tmr_expired m' = tmr_expired m"
  "tmr_trace m' = tmr_trace m @ [RequestSchedule c] \<Longrightarrow> tmr_expired m' = tmr_expired m"
  "tmr_trace m' = tmr_trace m \<Longrightarrow> tmr_expired m' = tmr_expired m"
  by (simp_all add: tmr_expired_def List.map_filter_def)

lemma tmr_StartTimer_quiet:
  assumes "tmr_wf m" "t \<in> dom (tmr_objs m)"
  shows "\<exists>m'. tmr_StartTimer m t fCb hCb ms p = Inr m' \<and> tmr_wf m' \<and> tmr_quiet {t} m m'"
proof -
  obtain i where i: "tmr_objs m t = Some i" using assms(2) by blast
  obtain m' i' where m': "tmr_StartTimer m t fCb hCb ms p = Inr m'" "tmr_wf m'"
      "tmr_objs m' = (tmr_objs m)(t \<mapsto> i')" "hInitQueue m' = hInitQueue m" "hOperQueue m' = hOperQueue m"
      "bOperState m' = bOperState m" "uTwdInitCount m' = uTwdInitCount m" "tmr_self m' = tmr_self m"
      "tmr_trace m' = tmr_trace m @ [OsTimerStart (hOsTimerObj i) ms]"
    using tmr_StartTimer_wf [OF assms(1) i] by blast
  have "dom (tmr_objs m') = dom (tmr_objs m)" using m'(3) i by auto
  then show ?thesis
    using m' tmr_expired_trace(1) [OF m'(9)] by (simp add: tmr_quiet_def)
qed

lemma tmr_StopTimer_quiet:
  assumes "tmr_wf m" "t \<in> dom (tmr_objs m)"
  shows "\<exists>m'. tmr_StopTimer m t = Inr m' \<and> tmr_wf m' \<and> tmr_quiet {t} m m'"
proof -
  obtain i where i: "tmr_objs m t = Some i" using assms(2) by blast
  obtain m' i' where m': "tmr_StopTimer m t = Inr m'" "tmr_wf m'"
      "tmr_objs m' = (tmr_objs m)(t \<mapsto> i')" "hInitQueue m' = hInitQueue m" "hOperQueue m' = hOperQueue m"
      "bOperState m' = bOperState m" "uTwdInitCount m' = uTwdInitCount m" "tmr_self m' = tmr_self m"
      "tmr_trace m' = tmr_trace m @ [OsTimerStop (hOsTimerObj i)]"
    using tmr_StopTimer_wf [OF assms(1) i] by blast
  have "dom (tmr_objs m') = dom (tmr_objs m)" using m'(3) i by auto
  then show ?thesis
    using m' tmr_expired_trace(2) [OF m'(9)] by (simp add: tmr_quiet_def)
qed

lemma tmr_NextExpired_wf:
  assumes "tmr_wf m"
  shows "tmr_active m = [] \<Longrightarrow> \<exists>m'. tmr_NextExpired m = Inr (None, m') \<and> m' = m"
    and "tmr_active m = t # ts \<Longrightarrow>
      \<exists>m'. tmr_NextExpired m = Inr (Some t, m') \<and> tmr_wf m' \<and> tmr_active m' = ts \<and> tmr_other m' = tmr_other m \<and>
        tmr_objs m' = tmr_objs m \<and> uTwdInitCount m' = uTwdInitCount m \<and> tmr_expired m' = tmr_expired m \<and>
        bOperState m' = bOperState m"
proof -
  obtain qi qo where q: "hInitQueue m = Some qi" "hOperQueue m = Some qo"
    using assms by (auto simp: tmr_wf_def)
  show "\<exists>m'. tmr_NextExpired m = Inr (None, m') \<and> m' = m" if "tmr_active m = []"
    using that q by (auto simp: tmr_NextExpired_def tmr_deq_def aq_Dequeue_def tmr_active_def split: if_splits)
  show "\<exists>m'. tmr_NextExpired m = Inr (Some t, m') \<and> tmr_wf m' \<and> tmr_active m' = ts \<and> tmr_other m' = tmr_other m \<and>
        tmr_objs m' = tmr_objs m \<and> uTwdInitCount m' = uTwdInitCount m \<and> tmr_expired m' = tmr_expired m \<and>
        bOperState m' = bOperState m"
    if "tmr_active m = t # ts"
    using that q assms
    by (cases "bOperState m")
      (auto simp: tmr_NextExpired_def tmr_deq_def aq_Dequeue_def tmr_active_def tmr_other_def tmr_wf_def
        tmr_queued_def tmr_expired_def)
qed

locale tmr_user =
  fixes cb :: tmr_cb
    and uses :: "addr set"
  assumes cb_quiet: "tmr_wf m \<Longrightarrow> uses \<subseteq> dom (tmr_objs m) \<Longrightarrow>
    \<exists>m'. cb f h b m = Inr m' \<and> tmr_wf m' \<and> tmr_quiet uses m m'"

context tmr_user begin

text \<open>Serving one timer: its callback is recorded, and it is started again if it is periodic.\<close>

lemma CallUser_serves:
  assumes "tmr_wf m" "uses \<subseteq> dom (tmr_objs m)" "tmr_objs m t = Some i"
  obtains m' where "tmr_CallUser cb m t = Inr m'" "tmr_wf m'"
    "tmr_expired m' = tmr_expired m @
       [(t, fExpiryCbFunc i, hExpiryCbHndl i, uTwdInitCount m \<noteq> uTwdInitCountWhenStarted i)]"
    "hInitQueue m' = hInitQueue m" "hOperQueue m' = hOperQueue m" "bOperState m' = bOperState m"
    "uTwdInitCount m' = uTwdInitCount m" "dom (tmr_objs m') = dom (tmr_objs m)"
    "\<forall>u. u \<notin> insert t uses \<longrightarrow> tmr_objs m' u = tmr_objs m u"
proof -
  define b where "b = (uTwdInitCount m \<noteq> uTwdInitCountWhenStarted i)"
  define m1 where "m1 = tmr_emit (ExpiryCb t (fExpiryCbFunc i) (hExpiryCbHndl i) b) m"
  have wf1: "tmr_wf m1" using assms(1) tmr_wf_cong [of m1 m] by (simp add: m1_def)
  obtain m2 where m2: "cb (fExpiryCbFunc i) (hExpiryCbHndl i) b m1 = Inr m2" "tmr_wf m2" "tmr_quiet uses m1 m2"
    using cb_quiet [OF wf1, of "fExpiryCbFunc i" "hExpiryCbHndl i" b] assms(2) by (auto simp: m1_def)
  have "t \<in> dom (tmr_objs m2)" using m2(3) assms(3) by (auto simp: tmr_quiet_def m1_def)
  then obtain j where j: "tmr_objs m2 t = Some j" by blast
  obtain m3 where m3: "tmr_StartTimer m2 t (fExpiryCbFunc j) (hExpiryCbHndl j) (uIntervalMsec j) (bPeriodic j) = Inr m3"
      "tmr_wf m3" "tmr_quiet {t} m2 m3"
    using tmr_StartTimer_quiet [OF m2(2) \<open>t \<in> dom (tmr_objs m2)\<close>] by blast
  define m' where "m' = (if bPeriodic j then m3 else m2)"
  have "tmr_quiet (insert t uses) m2 m'"
    using tmr_quiet_mono [OF m3(3), of "insert t uses"] tmr_quiet_refl by (simp add: m'_def)
  then have quiet: "tmr_quiet (insert t uses) m1 m'"
    using tmr_quiet_trans [OF tmr_quiet_mono [OF m2(3)]] by blast
  have "tmr_CallUser cb m t = Inr m'"
    using m2(1) m3(1) tmr_obj_wf [OF m2(2) j] tmr_obj_wf [OF assms(1,3)]
    by (cases "bPeriodic j") (simp_all add: tmr_CallUser_def Let_def b_def [symmetric] m1_def [symmetric] m'_def)
  moreover have "tmr_wf m'" using m2(2) m3(2) by (simp add: m'_def)
  ultimately show ?thesis
    by (rule that) (use quiet in \<open>simp_all add: tmr_quiet_def m1_def b_def\<close>)
qed

text \<open>The loop of \<open>tmr_HandleExpiry\<close> ends, serves the queued timers in order, each once, and nothing
  else.\<close>

lemma Loop_serves:
  assumes "tmr_wf m" "uses \<subseteq> dom (tmr_objs m)"
  shows "\<exists>m' es. tmr_Loop cb m = Some (Inr m') \<and> tmr_wf m' \<and> tmr_expired m' = tmr_expired m @ es \<and>
    map fst es = tmr_active m \<and> tmr_active m' = [] \<and> tmr_other m' = tmr_other m \<and>
    (set (tmr_active m) \<inter> uses = {} \<longrightarrow>
      es = map (\<lambda>t. let i = the (tmr_objs m t) in
        (t, fExpiryCbFunc i, hExpiryCbHndl i, uTwdInitCount m \<noteq> uTwdInitCountWhenStarted i)) (tmr_active m))"
  using assms
proof (induction "tmr_active m" arbitrary: m)
  case Nil
  then have "tmr_Loop cb m = Some (Inr m)"
    using tmr_NextExpired_wf(1) [OF Nil.prems(1)] by (subst tmr_Loop.simps) auto
  then show ?case using Nil by auto
next
  case (Cons t ts)
  note act = Cons.hyps(2) [symmetric]
  obtain m1 where m1: "tmr_NextExpired m = Inr (Some t, m1)" "tmr_wf m1" "tmr_active m1 = ts"
      "tmr_other m1 = tmr_other m" "tmr_objs m1 = tmr_objs m" "uTwdInitCount m1 = uTwdInitCount m"
      "tmr_expired m1 = tmr_expired m" "bOperState m1 = bOperState m"
    using tmr_NextExpired_wf(2) [OF Cons.prems(1) act] by blast
  have dist: "t \<notin> set ts" and dom: "t \<in> dom (tmr_objs m)"
    using act Cons.prems(1) by (auto simp: tmr_wf_def tmr_queued_def tmr_active_def split: if_splits)
  then obtain i where i: "tmr_objs m t = Some i" by blast
  obtain m2 where m2: "tmr_CallUser cb m1 t = Inr m2" "tmr_wf m2"
    "tmr_expired m2 = tmr_expired m1 @
       [(t, fExpiryCbFunc i, hExpiryCbHndl i, uTwdInitCount m1 \<noteq> uTwdInitCountWhenStarted i)]"
    "hInitQueue m2 = hInitQueue m1" "hOperQueue m2 = hOperQueue m1" "bOperState m2 = bOperState m1"
    "uTwdInitCount m2 = uTwdInitCount m1" "dom (tmr_objs m2) = dom (tmr_objs m1)"
    "\<forall>u. u \<notin> insert t uses \<longrightarrow> tmr_objs m2 u = tmr_objs m1 u"
    by (rule CallUser_serves [OF m1(2), of t i]) (use Cons.prems(2) m1(5) i in simp_all)
  have act2: "tmr_active m2 = ts" "tmr_other m2 = tmr_other m"
    using m1(3,4) unfolding tmr_active_def tmr_other_def m2(4-6) by simp_all
  obtain m' es where IH: "tmr_Loop cb m2 = Some (Inr m')" "tmr_wf m'" "tmr_expired m' = tmr_expired m2 @ es"
      "map fst es = ts" "tmr_active m' = []" "tmr_other m' = tmr_other m2"
      "set ts \<inter> uses = {} \<longrightarrow> es = map (\<lambda>t. let i = the (tmr_objs m2 t) in
        (t, fExpiryCbFunc i, hExpiryCbHndl i, uTwdInitCount m2 \<noteq> uTwdInitCountWhenStarted i)) ts"
    using Cons.hyps(1) [OF act2(1) [symmetric] m2(2)] Cons.prems(2) m2(8) m1(5) unfolding act2(1) by auto
  have loop: "tmr_Loop cb m = Some (Inr m')"
    using m1(1) m2(1) IH(1) by (subst tmr_Loop.simps) simp
  have same: "tmr_objs m2 u = tmr_objs m u" if "u \<in> set ts" "set ts \<inter> uses = {}" for u
    using m2(9) m1(5) that dist by auto
  show ?case
    using loop IH m2(3,7) m1(6,7) act2 i same unfolding act
    by (intro exI [of _ m'] exI [of _ "(t, fExpiryCbFunc i, hExpiryCbHndl i,
        uTwdInitCount m \<noteq> uTwdInitCountWhenStarted i) # es"]) auto
qed

end

section \<open>Callbacks that start and stop timers\<close>

text \<open>The calls a callback makes into this module, and the callback that runs a list of them.\<close>

datatype tmr_call = CallStart addr addr addr u32 bool | CallStop addr

fun tmr_call_timer :: "tmr_call \<Rightarrow> addr" where
  "tmr_call_timer (CallStart t f h ms p) = t"
| "tmr_call_timer (CallStop t) = t"

fun tmr_run_calls :: "tmr_call list \<Rightarrow> TTimerModule \<Rightarrow> fault + TTimerModule" where
  "tmr_run_calls [] m = Inr m"
| "tmr_run_calls (c # cs) m =
     (case (case c of CallStart t f h ms p \<Rightarrow> tmr_StartTimer m t f h ms p | CallStop t \<Rightarrow> tmr_StopTimer m t) of
        Inl e \<Rightarrow> Inl e | Inr m \<Rightarrow> tmr_run_calls cs m)"

definition tmr_prog :: "(addr \<Rightarrow> addr \<Rightarrow> bool \<Rightarrow> tmr_call list) \<Rightarrow> tmr_cb" where
  "tmr_prog prog = (\<lambda>f h b m. tmr_run_calls (prog f h b) m)"

definition tmr_prog_uses :: "(addr \<Rightarrow> addr \<Rightarrow> bool \<Rightarrow> tmr_call list) \<Rightarrow> addr set" where
  "tmr_prog_uses prog = {t. \<exists>f h b. t \<in> tmr_call_timer ` set (prog f h b)}"

lemma tmr_run_calls_quiet:
  assumes "tmr_wf m" "tmr_call_timer ` set cs \<subseteq> dom (tmr_objs m)"
  shows "\<exists>m'. tmr_run_calls cs m = Inr m' \<and> tmr_wf m' \<and> tmr_quiet (tmr_call_timer ` set cs) m m'"
  using assms
proof (induction cs arbitrary: m)
  case Nil
  then show ?case using tmr_quiet_refl by simp
next
  case (Cons c cs)
  have c: "tmr_call_timer c \<in> dom (tmr_objs m)" using Cons.prems(2) by simp
  obtain m1 where m1: "(case c of CallStart t f h ms p \<Rightarrow> tmr_StartTimer m t f h ms p | CallStop t \<Rightarrow> tmr_StopTimer m t) = Inr m1"
      "tmr_wf m1" "tmr_quiet {tmr_call_timer c} m m1"
    using tmr_StartTimer_quiet [OF Cons.prems(1) c] tmr_StopTimer_quiet [OF Cons.prems(1) c]
    by (cases c) (simp_all, blast+)
  have "dom (tmr_objs m1) = dom (tmr_objs m)" using m1(3) by (simp add: tmr_quiet_def)
  then obtain m' where m': "tmr_run_calls cs m1 = Inr m'" "tmr_wf m'" "tmr_quiet (tmr_call_timer ` set cs) m1 m'"
    using Cons.IH [OF m1(2)] Cons.prems(2) by auto
  have "tmr_quiet (tmr_call_timer ` set (c # cs)) m m'"
    by (rule tmr_quiet_trans [OF tmr_quiet_mono [OF m1(3)] tmr_quiet_mono [OF m'(3)]]) auto
  then show ?case using m1(1) m'(1,2) by simp
qed

interpretation calls: tmr_user "tmr_prog prog" "tmr_prog_uses prog" for prog
proof unfold_locales
  fix m f h b
  assume m: "tmr_wf m" "tmr_prog_uses prog \<subseteq> dom (tmr_objs m)"
  have sub: "tmr_call_timer ` set (prog f h b) \<subseteq> tmr_prog_uses prog"
    by (auto simp: tmr_prog_uses_def)
  with m(2) have "tmr_call_timer ` set (prog f h b) \<subseteq> dom (tmr_objs m)" by (rule subset_trans [rotated])
  from tmr_run_calls_quiet [OF m(1) this] sub
  show "\<exists>m'. tmr_prog prog f h b m = Inr m' \<and> tmr_wf m' \<and> tmr_quiet (tmr_prog_uses prog) m m'"
    unfolding tmr_prog_def by (blast intro: tmr_quiet_mono)
qed

section \<open>Properties\<close>

text \<open>C14: The expiry handler ends and serves the queue of the current driver state completely and in
  the order of expiry, each queued timer exactly once, whatever timers the users' callbacks start and
  stop; the other queue is untouched and the module stays well formed.\<close>

theorem tmr_HandleExpiry_serves:
  assumes "tmr_wf m" "tmr_prog_uses prog \<subseteq> dom (tmr_objs m)"
  shows "\<exists>m' es. tmr_HandleExpiry (tmr_prog prog) (Some m) = Some (Inr (Some m')) \<and> tmr_wf m' \<and>
    tmr_expired m' = tmr_expired m @ es \<and> map fst es = tmr_active m \<and> tmr_active m' = [] \<and>
    tmr_other m' = tmr_other m"
  using calls.Loop_serves [OF assms] by (auto simp: tmr_HandleExpiry_def)

text \<open>What changes the driver state does to the timers.\<close>

lemma tmr_UpdateDriverState_wf:
  assumes "tmr_wf m"
  shows "\<exists>m'. tmr_UpdateDriverState (Some m) oper = Inr (Some m') \<and> tmr_wf m' \<and> bOperState m' = oper \<and>
    tmr_objs m' = tmr_objs m \<and> hOperQueue m' = hOperQueue m \<and> tmr_expired m' = tmr_expired m \<and>
    uTwdInitCount m' = (if oper \<and> \<not> bOperState m then uTwdInitCount m + 1 else uTwdInitCount m) \<and>
    (if oper \<and> \<not> bOperState m then tmr_items (hInitQueue m') = [] else hInitQueue m' = hInitQueue m)"
proof -
  obtain qi where q: "hInitQueue m = Some qi" using assms by (auto simp: tmr_wf_def)
  show ?thesis
  proof (cases "oper = bOperState m")
    case True
    then show ?thesis using assms by (simp add: tmr_UpdateDriverState_def)
  next
    case False
    show ?thesis
    proof (cases oper)
      case True
      define m' where "m' = tmr_emit (RequestSchedule (uContextId m)) (m\<lparr>bOperState := True,
        uTwdInitCount := uTwdInitCount m + 1, hInitQueue := Some (tmr_clear qi)\<rparr>)"
      have "tmr_UpdateDriverState (Some m) oper = Inr (Some m')"
        using True False q by (simp add: tmr_UpdateDriverState_def tmr_ClearInitQueue_def m'_def)
      moreover have "tmr_wf m'"
        using assms q by (auto simp: m'_def tmr_wf_def tmr_queued_def tmr_clear_items)
      moreover have "tmr_expired m' = tmr_expired m"
        by (rule tmr_expired_trace(3) [of _ _ "uContextId m"]) (simp add: m'_def)
      ultimately show ?thesis using True False by (simp add: m'_def tmr_clear_items)
    next
      case False2: False
      then have "tmr_UpdateDriverState (Some m) oper = Inr (Some (m\<lparr>bOperState := False\<rparr>))"
        using False by (simp add: tmr_UpdateDriverState_def)
      moreover have "tmr_wf (m\<lparr>bOperState := False\<rparr>)"
        using assms by (simp add: tmr_wf_def tmr_queued_def)
      ultimately show ?thesis using False False2 by (simp add: tmr_expired_def)
    qed
  qed
qed

text \<open>After a recovery (the driver leaves the operational state and enters it again) every timer
  that was started before it and expired is reported to its user with the flag bTwdInitOccured set, unless a
  callback uses such a timer in between; the expired timers of the init phase are dropped.\<close>

theorem tmr_recovery_reported:
  assumes "tmr_wf m" "bOperState m" "tmr_prog_uses prog \<subseteq> dom (tmr_objs m)"
    and "set (tmr_active m) \<inter> tmr_prog_uses prog = {}"
    and "\<forall>t \<in> set (tmr_active m). \<forall>i. tmr_objs m t = Some i \<longrightarrow> uTwdInitCountWhenStarted i = uTwdInitCount m"
    and "tmr_UpdateDriverState (Some m) False = Inr (Some m1)" "tmr_UpdateDriverState (Some m1) True = Inr (Some m2)"
  shows "\<exists>m' es. tmr_HandleExpiry (tmr_prog prog) (Some m2) = Some (Inr (Some m')) \<and>
    tmr_expired m' = tmr_expired m @ es \<and> map fst es = tmr_active m \<and>
    map (\<lambda>(t, f, h, b). b) es = replicate (length (tmr_active m)) True"
proof -
  obtain n1 where n1: "tmr_UpdateDriverState (Some m) False = Inr (Some n1)" "tmr_wf n1" "\<not> bOperState n1"
      "tmr_objs n1 = tmr_objs m" "hOperQueue n1 = hOperQueue m" "tmr_expired n1 = tmr_expired m"
      "uTwdInitCount n1 = uTwdInitCount m"
    using tmr_UpdateDriverState_wf [OF assms(1), of False] by auto
  obtain n2 where n2: "tmr_UpdateDriverState (Some n1) True = Inr (Some n2)" "tmr_wf n2" "bOperState n2"
      "tmr_objs n2 = tmr_objs n1" "hOperQueue n2 = hOperQueue n1" "tmr_expired n2 = tmr_expired n1"
      "uTwdInitCount n2 = uTwdInitCount n1 + 1"
    using tmr_UpdateDriverState_wf [OF n1(2), of True] n1(3) by auto
  have m2: "m2 = n2" using assms(6,7) n1(1) n2(1) by simp
  have act: "tmr_active n2 = tmr_active m" using n1(5) n2(3,5) assms(2) by (simp add: tmr_active_def)
  obtain m' es where S: "tmr_Loop (tmr_prog prog) n2 = Some (Inr m')" "tmr_expired m' = tmr_expired n2 @ es"
      "map fst es = tmr_active n2"
      "es = map (\<lambda>t. let i = the (tmr_objs n2 t) in
        (t, fExpiryCbFunc i, hExpiryCbHndl i, uTwdInitCount n2 \<noteq> uTwdInitCountWhenStarted i)) (tmr_active n2)"
    using calls.Loop_serves [OF n2(2), of prog] assms(3,4) n1(4) n2(4) unfolding act by auto
  have "uTwdInitCount n2 \<noteq> uTwdInitCountWhenStarted (the (tmr_objs n2 t))" if "t \<in> set (tmr_active m)" for t
  proof -
    have "t \<in> dom (tmr_objs m)"
      using that assms(1,2) by (auto simp: tmr_wf_def tmr_queued_def tmr_active_def)
    then show ?thesis using assms(5) that n1(4,7) n2(4,7) by auto
  qed
  then have "map (\<lambda>(t, f, h, b). b) es = map (\<lambda>_. True) (tmr_active m)"
    unfolding S(4) act by (auto simp: Let_def)
  then show ?thesis
    using S(1-3) n1(6) n2(6) act by (simp add: tmr_HandleExpiry_def m2 map_replicate_const)
qed

text \<open>Queueing an expired timer.\<close>

lemma tmr_GetExpiry_wf:
  assumes "tmr_wf m" "tmr_objs m t = Some i"
  shows "\<exists>m'. tmr_GetExpiry m t = Inr m' \<and> tmr_wf m' \<and> tmr_objs m' = tmr_objs m \<and> bOperState m' = bOperState m \<and>
    tmr_expired m' = tmr_expired m \<and> uTwdInitCount m' = uTwdInitCount m"
    and "bOperStateWhenStarted i = bOperState m \<Longrightarrow>
      length (aq_items (the (if bOperState m then hOperQueue m else hInitQueue m))) <
        unat (aq_limit (the (if bOperState m then hOperQueue m else hInitQueue m))) \<Longrightarrow>
      tmr_GetExpiry m t = Inr m' \<Longrightarrow>
      tmr_active m' = (if t \<in> set (tmr_queued m) then tmr_active m else tmr_active m @ [t])"
proof -
  obtain qi qo where q: "hInitQueue m = Some qi" "hOperQueue m = Some qo"
    using assms(1) by (auto simp: tmr_wf_def)
  define m1 where "m1 = (if bOperStateWhenStarted i then m\<lparr>hOperQueue := tmr_enq m t (hOperQueue m)\<rparr>
                      else if \<not> bOperState m then m\<lparr>hInitQueue := tmr_enq m t (hInitQueue m)\<rparr> else m)"
  have h: "hTimerModule i \<noteq> 0" using assms by (auto simp: tmr_wf_def)
  have run: "tmr_GetExpiry m t = Inr (tmr_emit (RequestSchedule (uContextId m1)) m1)"
    using h by (simp add: tmr_GetExpiry_def tmr_obj_wf [OF assms] Let_def m1_def)
  have items: "aq_items (snd (aq_Enqueue (t \<in> set (tmr_queued m)) t a)) =
      (if t \<notin> set (tmr_queued m) \<and> length (aq_items a) < unat (aq_limit a) then aq_items a @ [t] else aq_items a)"
    for a by (auto simp: aq_Enqueue_def)
  have fields: "tmr_objs m1 = tmr_objs m" "bOperState m1 = bOperState m" "tmr_self m1 = tmr_self m"
      "uTimersCount m1 = uTimersCount m" "uTwdInitCount m1 = uTwdInitCount m" "tmr_trace m1 = tmr_trace m"
    by (simp_all add: m1_def)
  have "set (tmr_queued m1) \<subseteq> insert t (set (tmr_queued m))" "distinct (tmr_queued m1)"
    using assms(1) q items by (auto simp: m1_def tmr_queued_def tmr_enq_def tmr_wf_def)
  moreover have "hInitQueue m1 \<noteq> None" "hOperQueue m1 \<noteq> None"
      "bOperState m \<longrightarrow> tmr_items (hInitQueue m1) = []"
    using assms(1) q by (auto simp: m1_def tmr_enq_def tmr_wf_def)
  ultimately have wf1: "tmr_wf m1"
    using assms unfolding tmr_wf_def fields by blast
  have "tmr_expired (tmr_emit (RequestSchedule (uContextId m1)) m1) = tmr_expired m"
    by (rule tmr_expired_trace(3) [of _ _ "uContextId m1"]) (simp add: fields)
  then show "\<exists>m'. tmr_GetExpiry m t = Inr m' \<and> tmr_wf m' \<and> tmr_objs m' = tmr_objs m \<and>
    bOperState m' = bOperState m \<and> tmr_expired m' = tmr_expired m \<and> uTwdInitCount m' = uTwdInitCount m"
    using run wf1 fields tmr_wf_cong [of "tmr_emit (RequestSchedule (uContextId m1)) m1" m1] by simp
  show "tmr_active m' = (if t \<in> set (tmr_queued m) then tmr_active m else tmr_active m @ [t])"
    if "bOperStateWhenStarted i = bOperState m" "tmr_GetExpiry m t = Inr m'"
      "length (aq_items (the (if bOperState m then hOperQueue m else hInitQueue m))) <
        unat (aq_limit (the (if bOperState m then hOperQueue m else hInitQueue m)))"
    using that run q items by (auto simp: m1_def tmr_active_def tmr_enq_def split: if_splits)
qed

text \<open>The expiry of a timer that was started in the driver state that still holds reaches its user:
  the handler that runs next calls it exactly once, after the timers that expired before.\<close>

theorem tmr_expiry_reaches_user:
  assumes "tmr_wf m" "tmr_objs m t = Some i" "t \<notin> set (tmr_queued m)" "tmr_prog_uses prog \<subseteq> dom (tmr_objs m)"
    and "bOperStateWhenStarted i = bOperState m"
    and "length (tmr_active m) < unat (aq_limit (the (if bOperState m then hOperQueue m else hInitQueue m)))"
  shows "\<exists>m1 m' es. tmr_GetExpiry m t = Inr m1 \<and> tmr_HandleExpiry (tmr_prog prog) (Some m1) = Some (Inr (Some m')) \<and>
    tmr_expired m' = tmr_expired m @ es \<and> map fst es = tmr_active m @ [t]"
proof -
  obtain m1 where m1: "tmr_GetExpiry m t = Inr m1" "tmr_wf m1" "tmr_objs m1 = tmr_objs m" "tmr_expired m1 = tmr_expired m"
    using tmr_GetExpiry_wf(1) [OF assms(1,2)] by auto
  have "length (aq_items (the (if bOperState m then hOperQueue m else hInitQueue m))) = length (tmr_active m)"
    using assms(1) by (auto simp: tmr_active_def tmr_wf_def)
  then have "tmr_active m1 = tmr_active m @ [t]"
    using tmr_GetExpiry_wf(2) [OF assms(1,2,5) _ m1(1)] assms(3,6) by simp
  then show ?thesis
    using calls.Loop_serves [OF m1(2), of prog] assms(4) m1 by (auto simp: tmr_HandleExpiry_def)
qed

section \<open>Reachable states\<close>

text \<open>The interleavings of the users' calls, the OS expiries and the driver task, whose callbacks start and stop
  timers. The module does not check whether a timer that is destroyed waits in a queue; \<open>D\<close> keeps the timers
  for which it did.\<close>

inductive tmr_reach :: "addr set \<Rightarrow> TTimerModule \<Rightarrow> bool" where
  init: "a \<noteq> 0 \<Longrightarrow> tmr_Create a = Some m0 \<Longrightarrow> tmr_Init (Some m0) True True uId = Some m \<Longrightarrow> tmr_reach {} m"
| create: "tmr_reach D m \<Longrightarrow> tmr_objs m a = None \<Longrightarrow> tmr_CreateTimer (Some m) a ost = (r, Some m') \<Longrightarrow> tmr_reach D m'"
| destroy: "tmr_reach D m \<Longrightarrow> tmr_DestroyTimer m t = Inr (st, m') \<Longrightarrow>
     tmr_reach (if t \<in> set (tmr_queued m) then insert t D else D) m'"
| start: "tmr_reach D m \<Longrightarrow> tmr_StartTimer m t f h ms p = Inr m' \<Longrightarrow> tmr_reach D m'"
| stop: "tmr_reach D m \<Longrightarrow> tmr_StopTimer m t = Inr m' \<Longrightarrow> tmr_reach D m'"
| expire: "tmr_reach D m \<Longrightarrow> tmr_GetExpiry m t = Inr m' \<Longrightarrow> tmr_reach D m'"
| drive: "tmr_reach D m \<Longrightarrow> tmr_UpdateDriverState (Some m) oper = Inr (Some m') \<Longrightarrow> tmr_reach D m'"
| handle: "tmr_reach D m \<Longrightarrow> tmr_HandleExpiry (tmr_prog prog) (Some m) = Some (Inr (Some m')) \<Longrightarrow> tmr_reach D m'"

lemma tmr_obj_Inr: "tmr_obj m t = Inr i \<longleftrightarrow> t \<noteq> 0 \<and> tmr_objs m t = Some i"
  by (auto simp: tmr_obj_def split: option.splits)

text \<open>What holds also when a queued timer was destroyed, and an operation that neither queues nor creates or
  destroys a timer.\<close>

definition tmr_core :: "TTimerModule \<Rightarrow> bool" where
  "tmr_core m \<longleftrightarrow>
     tmr_self m \<noteq> 0 \<and> hInitQueue m \<noteq> None \<and> hOperQueue m \<noteq> None \<and> distinct (tmr_queued m) \<and>
     (bOperState m \<longrightarrow> tmr_items (hInitQueue m) = []) \<and>
     finite (dom (tmr_objs m)) \<and> uTimersCount m = of_nat (card (dom (tmr_objs m))) \<and>
     (\<forall>t i. tmr_objs m t = Some i \<longrightarrow> hTimerModule i = tmr_self m \<and> hOsTimerObj i \<noteq> 0) \<and> tmr_objs m 0 = None"

definition tmr_tame :: "TTimerModule \<Rightarrow> TTimerModule \<Rightarrow> bool" where
  "tmr_tame m m' \<longleftrightarrow> tmr_core m' \<and> set (tmr_queued m') \<subseteq> set (tmr_queued m) \<and> dom (tmr_objs m') = dom (tmr_objs m)"

lemma tmr_wf_core: "tmr_wf m \<longleftrightarrow> tmr_core m \<and> set (tmr_queued m) \<subseteq> dom (tmr_objs m)"
  by (auto simp: tmr_wf_def tmr_core_def)

lemma tmr_core_cong:
  assumes "tmr_objs m' = tmr_objs m" "hInitQueue m' = hInitQueue m" "hOperQueue m' = hOperQueue m"
    "bOperState m' = bOperState m" "uTimersCount m' = uTimersCount m" "tmr_self m' = tmr_self m"
  shows "tmr_core m' = tmr_core m" "tmr_queued m' = tmr_queued m"
  using assms by (simp_all add: tmr_core_def tmr_queued_def)

lemma tmr_tame_refl: "tmr_core m \<Longrightarrow> tmr_tame m m"
  by (simp add: tmr_tame_def)

lemma tmr_tame_trans: "tmr_tame a b \<Longrightarrow> tmr_tame b c \<Longrightarrow> tmr_tame a c"
  by (auto simp: tmr_tame_def)

lemma tmr_tame_core: "tmr_tame m m' \<Longrightarrow> tmr_core m'"
  by (simp add: tmr_tame_def)

lemma tmr_update_tame:
  assumes "tmr_core m" "tmr_objs m t = Some i" "hTimerModule i' = hTimerModule i" "hOsTimerObj i' = hOsTimerObj i"
    and "tmr_objs m' = (tmr_objs m)(t \<mapsto> i')" "hInitQueue m' = hInitQueue m" "hOperQueue m' = hOperQueue m"
    "bOperState m' = bOperState m" "uTimersCount m' = uTimersCount m" "tmr_self m' = tmr_self m"
  shows "tmr_tame m m'"
proof -
  have "dom ((tmr_objs m)(t \<mapsto> i')) = dom (tmr_objs m)" using assms(2) by auto
  then show ?thesis using assms by (auto simp: tmr_tame_def tmr_core_def tmr_queued_def)
qed

lemma tmr_StartTimer_tame:
  assumes c: "tmr_core m" and r: "tmr_StartTimer m t f h ms p = Inr m'"
  shows "tmr_tame m m'"
proof -
  obtain i where i: "tmr_objs m t = Some i" "tmr_obj m t = Inr i"
    using r by (cases "tmr_obj m t") (auto simp: tmr_StartTimer_def tmr_obj_Inr)
  have "hTimerModule i \<noteq> 0" using c i(1) by (auto simp: tmr_core_def)
  then show ?thesis
    using r i(2)
    by (intro tmr_update_tame [OF c i(1), of "i\<lparr>fExpiryCbFunc := f, hExpiryCbHndl := h, uIntervalMsec := ms,
        bPeriodic := p, bOperStateWhenStarted := bOperState m, uTwdInitCountWhenStarted := uTwdInitCount m\<rparr>"])
      (auto simp: tmr_StartTimer_def)
qed

lemma tmr_StopTimer_tame:
  assumes c: "tmr_core m" and r: "tmr_StopTimer m t = Inr m'"
  shows "tmr_tame m m'"
proof -
  obtain i where i: "tmr_objs m t = Some i" "tmr_obj m t = Inr i"
    using r by (cases "tmr_obj m t") (auto simp: tmr_StopTimer_def tmr_obj_Inr)
  have "hTimerModule i \<noteq> 0" using c i(1) by (auto simp: tmr_core_def)
  then have "m' = (tmr_emit (OsTimerStop (hOsTimerObj i)) m)\<lparr>tmr_objs := (tmr_objs m)(t \<mapsto> i\<lparr>bPeriodic := False\<rparr>)\<rparr>"
    using r i(2) by (simp add: tmr_StopTimer_def)
  then show ?thesis by (intro tmr_update_tame [OF c i(1), of "i\<lparr>bPeriodic := False\<rparr>"]) simp_all
qed

lemma tmr_run_calls_tame: "tmr_core m \<Longrightarrow> tmr_run_calls cs m = Inr m' \<Longrightarrow> tmr_tame m m'"
proof (induction cs arbitrary: m)
  case (Cons c cs)
  obtain m1 where m1: "(case c of CallStart t f h ms p \<Rightarrow> tmr_StartTimer m t f h ms p | CallStop t \<Rightarrow> tmr_StopTimer m t) = Inr m1"
    "tmr_run_calls cs m1 = Inr m'" using Cons.prems(2) by (auto split: sum.splits)
  have "tmr_tame m m1" using m1(1) Cons.prems(1) by (cases c) (auto intro: tmr_StartTimer_tame tmr_StopTimer_tame)
  then show ?case using Cons.IH [OF tmr_tame_core m1(2)] tmr_tame_trans by blast
qed (simp add: tmr_tame_refl)

lemma tmr_NextExpired_tame:
  assumes "tmr_core m" "tmr_NextExpired m = Inr (r, m')"
  shows "tmr_tame m m'"
proof -
  obtain qi qo where q: "hInitQueue m = Some qi" "hOperQueue m = Some qo" using assms(1) by (auto simp: tmr_core_def)
  show ?thesis
    using assms q
    by (cases "bOperState m"; cases "aq_items qi"; cases "aq_items qo")
      (auto simp: tmr_NextExpired_def tmr_deq_def aq_Dequeue_def tmr_tame_def tmr_core_def tmr_queued_def)
qed

lemma tmr_CallUser_tame:
  assumes c: "tmr_core m" and r: "tmr_CallUser (tmr_prog prog) m t = Inr m'"
  shows "tmr_tame m m'"
proof -
  obtain i where i: "tmr_obj m t = Inr i" using r by (auto simp: tmr_CallUser_def split: sum.splits)
  define m1 where "m1 = tmr_emit (ExpiryCb t (fExpiryCbFunc i) (hExpiryCbHndl i) (uTwdInitCount m \<noteq> uTwdInitCountWhenStarted i)) m"
  have t1: "tmr_tame m m1" using c tmr_core_cong [of m1 m] by (simp add: m1_def tmr_tame_def)
  obtain m2 where m2: "tmr_run_calls (prog (fExpiryCbFunc i) (hExpiryCbHndl i) (uTwdInitCount m \<noteq> uTwdInitCountWhenStarted i)) m1 = Inr m2"
    using r i by (auto simp: tmr_CallUser_def tmr_prog_def m1_def Let_def split: sum.splits)
  have t2: "tmr_tame m1 m2" by (rule tmr_run_calls_tame [OF tmr_tame_core [OF t1] m2])
  have "tmr_tame m2 m'"
    using r i m2 tmr_tame_core [OF t2] tmr_StartTimer_tame [of m2 t]
    by (auto simp: tmr_CallUser_def tmr_prog_def m1_def Let_def tmr_tame_refl split: sum.splits if_splits)
  then show ?thesis using t1 t2 tmr_tame_trans by blast
qed

lemma tmr_Loop_tame:
  assumes "tmr_Loop (tmr_prog prog) m = Some r" "tmr_core m" "r = Inr m'"
  shows "tmr_tame m m'"
proof -
  have "tmr_core m \<longrightarrow> (\<forall>m'. r = Inr m' \<longrightarrow> tmr_tame m m')" if "tmr_Loop cb m = Some r" "cb = tmr_prog prog" for cb m r
    using that(2)
  proof (induction rule: tmr_Loop.raw_induct [OF _ that(1), consumes 0, case_names step])
    case (step loop cb m r)
    show ?case
    proof (intro allI impI)
      fix m' assume h: "tmr_core m" "r = Inr m'"
      obtain x m1 where m1: "tmr_NextExpired m = Inr (x, m1)" using step(2) h(2) by (cases "tmr_NextExpired m") auto
      have t1: "tmr_tame m m1" by (rule tmr_NextExpired_tame [OF h(1) m1])
      show "tmr_tame m m'"
      proof (cases x)
        case None
        then show ?thesis using step(2) h(2) m1 t1 by simp
      next
        case (Some t)
        then obtain m2 where m2: "tmr_CallUser cb m1 t = Inr m2" "loop cb m2 = Some r"
          using step(2) h(2) m1 by (auto split: sum.splits)
        have t2: "tmr_tame m1 m2" using m2(1) step(3) tmr_CallUser_tame [OF tmr_tame_core [OF t1]] by blast
        have "tmr_tame m2 m'" using step(1) [OF m2(2) step(3)] h(2) tmr_tame_core [OF t2] by blast
        then show ?thesis using t1 t2 tmr_tame_trans by blast
      qed
    qed
  qed
  then show ?thesis using assms by blast
qed

lemma tmr_UpdateDriverState_tame:
  assumes c: "tmr_core m" and r: "tmr_UpdateDriverState (Some m) oper = Inr (Some m')"
  shows "tmr_tame m m'"
proof -
  obtain qi where q: "hInitQueue m = Some qi" using c by (auto simp: tmr_core_def)
  show ?thesis
    using c r q
    by (auto simp: tmr_UpdateDriverState_def tmr_ClearInitQueue_def tmr_tame_def tmr_core_def tmr_queued_def tmr_clear_items
        split: if_splits)
qed

lemma tmr_GetExpiry_core:
  assumes c: "tmr_core m" and r: "tmr_GetExpiry m t = Inr m'"
  shows "tmr_core m' \<and> set (tmr_queued m') \<subseteq> insert t (set (tmr_queued m)) \<and> dom (tmr_objs m') = dom (tmr_objs m) \<and>
    t \<in> dom (tmr_objs m)"
proof -
  obtain i where i: "tmr_obj m t = Inr i" "tmr_objs m t = Some i"
    using r by (cases "tmr_obj m t") (auto simp: tmr_GetExpiry_def tmr_obj_Inr)
  obtain qi qo where q: "hInitQueue m = Some qi" "hOperQueue m = Some qo" using c by (auto simp: tmr_core_def)
  have items: "aq_items (snd (aq_Enqueue (t \<in> set (tmr_queued m)) t a)) =
      (if t \<notin> set (tmr_queued m) \<and> length (aq_items a) < unat (aq_limit a) then aq_items a @ [t] else aq_items a)"
    for a by (auto simp: aq_Enqueue_def)
  define m1 where "m1 = (if bOperStateWhenStarted i then m\<lparr>hOperQueue := tmr_enq m t (hOperQueue m)\<rparr>
                      else if \<not> bOperState m then m\<lparr>hInitQueue := tmr_enq m t (hInitQueue m)\<rparr> else m)"
  have f: "tmr_objs m1 = tmr_objs m" "bOperState m1 = bOperState m" "tmr_self m1 = tmr_self m" "uTimersCount m1 = uTimersCount m"
    by (simp_all add: m1_def)
  have g: "set (tmr_queued m1) \<subseteq> insert t (set (tmr_queued m))" "distinct (tmr_queued m1)" "hInitQueue m1 \<noteq> None" "hOperQueue m1 \<noteq> None"
      "bOperState m \<longrightarrow> tmr_items (hInitQueue m1) = []"
    using c q items by (auto simp: m1_def tmr_queued_def tmr_enq_def tmr_core_def)
  have "tmr_core m1" using c g unfolding tmr_core_def f by blast
  moreover have "m' = tmr_emit (RequestSchedule (uContextId m1)) m1"
    using r i c by (auto simp: tmr_GetExpiry_def Let_def m1_def tmr_core_def split: if_splits)
  ultimately show ?thesis using g(1) i(2) f(1) tmr_core_cong [of m' m1] by auto
qed

lemma tmr_DestroyTimer_core:
  assumes "tmr_core m" "tmr_DestroyTimer m t = Inr (st, m')"
  shows "tmr_core m' \<and> tmr_queued m' = tmr_queued m \<and> dom (tmr_objs m) \<subseteq> insert t (dom (tmr_objs m'))"
proof (cases "t = 0")
  case True
  then show ?thesis using assms by (auto simp: tmr_DestroyTimer_def)
next
  case False
  then obtain i where i: "tmr_objs m t = Some i" "tmr_obj m t = Inr i"
    using assms(2) by (cases "tmr_obj m t") (auto simp: tmr_DestroyTimer_def tmr_obj_Inr)
  have "hTimerModule i \<noteq> 0" "hOsTimerObj i \<noteq> 0" using assms(1) i by (auto simp: tmr_core_def)
  then have m': "m' = (tmr_emit (OsTimerDestroy (hOsTimerObj i)) m)
      \<lparr>uTimersCount := uTimersCount m - 1, tmr_objs := (tmr_objs m)(t := None)\<rparr>"
    using assms(2) False i(2) by (simp add: tmr_DestroyTimer_def Let_def)
  have fin: "finite (dom (tmr_objs m))" using assms(1) by (simp add: tmr_core_def)
  have "card (dom (tmr_objs m)) = Suc (card (dom ((tmr_objs m)(t := None))))"
  proof -
    have "dom (tmr_objs m) = insert t (dom ((tmr_objs m)(t := None)))" using i by auto
    moreover have "t \<notin> dom ((tmr_objs m)(t := None))" by simp
    ultimately show ?thesis using fin by (metis card_insert_disjoint finite_insert)
  qed
  then show ?thesis using assms(1) by (auto simp: m' tmr_core_def tmr_queued_def)
qed

lemma tmr_reach_core: "tmr_reach D m \<Longrightarrow> tmr_core m \<and> set (tmr_queued m) \<subseteq> dom (tmr_objs m) \<union> D"
proof (induction rule: tmr_reach.induct)
  case (init a m0 uId m)
  then have "tmr_wf m" by (rule tmr_Init_wf(1))
  then show ?case by (simp add: tmr_wf_core)
next
  case (create D m a ost r m')
  have "card (dom ((tmr_objs m)(a \<mapsto> (i :: TTimerInfo)))) = Suc (card (dom (tmr_objs m)))" for i
    using create.IH create.hyps(2) by (simp add: tmr_core_def domIff)
  then show ?case
    using create by (auto simp: tmr_CreateTimer_def tmr_core_def tmr_queued_def tmr_zero_def add.commute split: if_splits)
next
  case (destroy D m t st m')
  then show ?case using tmr_DestroyTimer_core [of m t st m'] by auto
next
  case (start D m t f h ms p m')
  then show ?case using tmr_StartTimer_tame [of m t f h ms p m'] by (auto simp: tmr_tame_def)
next
  case (stop D m t m')
  then show ?case using tmr_StopTimer_tame [of m t m'] by (auto simp: tmr_tame_def)
next
  case (expire D m t m')
  then show ?case using tmr_GetExpiry_core [of m t m'] by auto
next
  case (drive D m oper m')
  then show ?case using tmr_UpdateDriverState_tame [of m oper m'] by (auto simp: tmr_tame_def)
next
  case (handle D m prog m')
  then obtain r where r: "tmr_Loop (tmr_prog prog) m = Some r" "map_sum id Some r = Inr (Some m')" by (auto simp: tmr_HandleExpiry_def)
  then have "r = Inr m'" by (cases r) simp_all
  then show ?case using tmr_Loop_tame [OF r(1)] handle.IH by (auto simp: tmr_tame_def)
qed

lemma tmr_reach_wf: "tmr_reach {} m \<Longrightarrow> tmr_wf m"
  using tmr_reach_core [of "{}" m] by (simp add: tmr_wf_core)


text \<open>A timer that is destroyed while it waits in the queue stays there: the expiry handler then
  reads the freed object.\<close>

theorem tmr_destroyed_while_queued:
  assumes "tmr_wf m" "tmr_active m = t # ts" "tmr_DestroyTimer m t = Inr (TI_OK, m1)"
  shows "tmr_HandleExpiry cb (Some m1) = Some (Inl UseAfterFree)"
proof -
  have "t \<in> dom (tmr_objs m)"
    using assms(1,2) by (auto simp: tmr_wf_def tmr_queued_def tmr_active_def split: if_splits)
  then obtain i where i: "tmr_objs m t = Some i" by blast
  have h: "hTimerModule i \<noteq> 0" "hOsTimerObj i \<noteq> 0" "t \<noteq> 0"
    using assms(1) i tmr_obj_wf [OF assms(1) i] by (auto simp: tmr_wf_def tmr_obj_Inr)
  obtain qi qo where q: "hInitQueue m = Some qi" "hOperQueue m = Some qo"
    using assms(1) by (auto simp: tmr_wf_def)
  have m1: "tmr_objs m1 t = None" "hInitQueue m1 = hInitQueue m" "hOperQueue m1 = hOperQueue m"
      "bOperState m1 = bOperState m"
    using assms(3) h by (auto simp: tmr_DestroyTimer_def tmr_obj_wf [OF assms(1) i] Let_def)
  obtain m2 where "tmr_NextExpired m1 = Inr (Some t, m2)" "tmr_objs m2 = tmr_objs m1"
    using assms(2) q m1
    by (cases "bOperState m") (auto simp: tmr_NextExpired_def tmr_deq_def aq_Dequeue_def tmr_active_def)
  then have "tmr_Loop cb m1 = Some (Inl UseAfterFree)"
    using m1(1) h(3) by (subst tmr_Loop.simps) (simp add: tmr_CallUser_def tmr_obj_def)
  then show ?thesis by (simp add: tmr_HandleExpiry_def)
qed

section \<open>Concrete instances\<close>

text \<open>A module with one timer, at address 8: started in the operational state, then expired.\<close>

definition tmr_demo0 :: TTimerModule where
  "tmr_demo0 = the (snd (tmr_CreateTimer (tmr_Init (tmr_Create 4) True True 2) 8 9))"

definition tmr_demo1 :: TTimerModule where
  "tmr_demo1 = the (projr (tmr_UpdateDriverState (Some tmr_demo0) True))"

definition tmr_demo2 :: TTimerModule where
  "tmr_demo2 = projr (tmr_StartTimer tmr_demo1 8 100 200 50 False)"

definition tmr_demo3 :: TTimerModule where
  "tmr_demo3 = projr (tmr_GetExpiry tmr_demo2 8)"

text \<open>A callback that starts its own timer again.\<close>

definition tmr_demo_prog :: "addr \<Rightarrow> addr \<Rightarrow> bool \<Rightarrow> tmr_call list" where
  "tmr_demo_prog f h b = (if f = 100 then [CallStart 8 100 h 50 False] else [])"

lemma projr_eq: "\<not> isl x \<Longrightarrow> x = Inr (projr x)"
  by (cases x) simp_all

lemmas tmr_demo_defs = tmr_demo0_def tmr_demo1_def tmr_demo2_def tmr_demo3_def tmr_Create_def tmr_Init_def
  tmr_CreateTimer_def tmr_UpdateDriverState_def tmr_ClearInitQueue_def tmr_clear_items tmr_StartTimer_def
  tmr_GetExpiry_def tmr_obj_def tmr_zero_def tmr_enq_def tmr_queued_def tmr_active_def aq_Enqueue_def
  aq_Create_def EXPIRY_QUE_SIZE_def QUE_UNLIMITED_SIZE_def tmr_DestroyTimer_def

lemma tmr_demo_reach: "tmr_reach {} tmr_demo0" "tmr_reach {} tmr_demo1" "tmr_reach {} tmr_demo2" "tmr_reach {} tmr_demo3"
proof -
  have new: "tmr_reach {} (the (tmr_Init (tmr_Create 4) True True 2))"
    by (rule tmr_reach.init [of 4 "the (tmr_Create 4)" 2]) (simp_all add: tmr_Create_def tmr_Init_def)
  show 0: "tmr_reach {} tmr_demo0"
    by (rule tmr_reach.create [OF new, of 8 9 8])
      (simp_all add: tmr_demo0_def tmr_Create_def tmr_Init_def tmr_CreateTimer_def)
  have "\<exists>m. tmr_UpdateDriverState (Some tmr_demo0) True = Inr (Some m)"
    using tmr_UpdateDriverState_wf [OF tmr_reach_wf [OF 0], of True] by blast
  then show 1: "tmr_reach {} tmr_demo1"
    unfolding tmr_demo1_def by (auto intro: tmr_reach.drive [OF 0])
  have "\<not> isl (tmr_StartTimer tmr_demo1 8 100 200 50 False)" by (simp add: tmr_demo_defs)
  then show 2: "tmr_reach {} tmr_demo2"
    unfolding tmr_demo2_def by (rule tmr_reach.start [OF 1 projr_eq])
  have "\<not> isl (tmr_GetExpiry tmr_demo2 8)" by (simp add: tmr_demo_defs)
  then show "tmr_reach {} tmr_demo3"
    unfolding tmr_demo3_def by (rule tmr_reach.expire [OF 2 projr_eq])
qed

lemmas tmr_demo_wf = tmr_demo_reach [THEN tmr_reach_wf]

lemma tmr_demo_uses: "tmr_prog_uses tmr_demo_prog \<subseteq> {8}" "tmr_prog_uses (\<lambda>f h b. []) = {}"
  by (auto simp: tmr_prog_uses_def tmr_demo_prog_def)

lemma tmr_demo_dom:
  "\<exists>i. tmr_objs tmr_demo2 8 = Some i \<and> bOperStateWhenStarted i"
  "\<exists>i. tmr_objs tmr_demo3 8 = Some i \<and> uTwdInitCountWhenStarted i = 1"
  by (simp_all add: tmr_demo_defs)

lemma tmr_demo2_state:
  "bOperState tmr_demo2" "tmr_queued tmr_demo2 = []" "tmr_active tmr_demo2 = []"
  "aq_limit (the (hOperQueue tmr_demo2)) = 0xFFFFFFFF"
  by (simp_all add: tmr_demo_defs)

lemma tmr_demo3_state: "tmr_active tmr_demo3 = [8]" "bOperState tmr_demo3" "uTwdInitCount tmr_demo3 = 1"
  by (simp_all add: tmr_demo_defs)

theorem tmr_HandleExpiry_serves_witness:
  "\<exists>m' es. tmr_HandleExpiry (tmr_prog tmr_demo_prog) (Some tmr_demo3) = Some (Inr (Some m')) \<and> tmr_wf m' \<and>
    tmr_expired m' = tmr_expired tmr_demo3 @ es \<and> map fst es = tmr_active tmr_demo3 \<and> tmr_active m' = [] \<and>
    tmr_other m' = tmr_other tmr_demo3"
  by (rule tmr_HandleExpiry_serves [OF tmr_demo_wf(4)]) (use tmr_demo_uses(1) tmr_demo_dom(2) in auto)

theorem tmr_recovery_reported_witness:
  "\<exists>m' es. tmr_HandleExpiry (tmr_prog (\<lambda>f h b. [])) (Some (the (projr (tmr_UpdateDriverState
      (projr (tmr_UpdateDriverState (Some tmr_demo3) False)) True)))) = Some (Inr (Some m')) \<and>
    tmr_expired m' = tmr_expired tmr_demo3 @ es \<and> map fst es = [8] \<and> map (\<lambda>(t, f, h, b). b) es = [True]"
proof -
  obtain m1 where 1: "tmr_UpdateDriverState (Some tmr_demo3) False = Inr (Some m1)" "tmr_wf m1"
    using tmr_UpdateDriverState_wf [OF tmr_demo_wf(4), of False] by blast
  obtain m2 where 2: "tmr_UpdateDriverState (Some m1) True = Inr (Some m2)"
    using tmr_UpdateDriverState_wf [OF 1(2), of True] by blast
  show ?thesis
    using tmr_recovery_reported [OF tmr_demo_wf(4) tmr_demo3_state(2) _ _ _ 1(1) 2, of "\<lambda>f h b. []"]
      tmr_demo_uses(2) tmr_demo3_state tmr_demo_dom(2) by (auto simp: 1 2)
qed

theorem tmr_expiry_reaches_user_witness:
  "\<exists>m1 m' es. tmr_GetExpiry tmr_demo2 8 = Inr m1 \<and>
    tmr_HandleExpiry (tmr_prog tmr_demo_prog) (Some m1) = Some (Inr (Some m')) \<and>
    tmr_expired m' = tmr_expired tmr_demo2 @ es \<and> map fst es = tmr_active tmr_demo2 @ [8]"
proof -
  obtain i where i: "tmr_objs tmr_demo2 8 = Some i" "bOperStateWhenStarted i" using tmr_demo_dom(1) by blast
  show ?thesis
    by (rule tmr_expiry_reaches_user [OF tmr_demo_wf(3) i(1)]) (use tmr_demo_uses(1) i tmr_demo2_state in auto)
qed



theorem tmr_destroyed_while_queued_witness:
  "tmr_HandleExpiry (tmr_prog tmr_demo_prog) (Some (snd (projr (tmr_DestroyTimer tmr_demo3 8)))) =
     Some (Inl UseAfterFree)"
proof -
  have "case tmr_DestroyTimer tmr_demo3 8 of Inl f \<Rightarrow> False | Inr (st, m) \<Rightarrow> st = TI_OK"
    by (simp add: tmr_demo_defs)
  then obtain m1 where "tmr_DestroyTimer tmr_demo3 8 = Inr (TI_OK, m1)" by (auto split: sum.splits)
  with tmr_destroyed_while_queued [OF tmr_demo_wf(4) tmr_demo3_state(1) this] show ?thesis by simp
qed

end
