(* ===== verification/TxDataClsfr.thy ===== *)
theory TxDataClsfr
  imports TxCtrlBlk
begin

text \<open>
  \<open>stad/src/Data_link/TxDataClsfr.c\<close>: the classifier that gives a transmitted packet its TID, from the
  priority the OS set or from a table of up to 16 entries that is searched for the packet's DSCP, its
  UDP port or its IP address and port. The three table classifiers run the same code on different
  members of a union; the model keeps the union's bytes and takes the member by the classifier type.
  A packet is the memory its transaction buffers point to.
\<close>

section \<open>Types\<close>

definition D_TAG_CLSFR :: u32 where "D_TAG_CLSFR = 0"
definition DSCP_CLSFR :: u32 where "DSCP_CLSFR = 1"
definition PORT_CLSFR :: u32 where "PORT_CLSFR = 2"
definition IPPORT_CLSFR :: u32 where "IPPORT_CLSFR = 3"
definition CLSFR_TYPE_MAX :: u32 where "CLSFR_TYPE_MAX = 3"

definition NUM_OF_CLSFR_TABLE_ENTRIES :: nat where "NUM_OF_CLSFR_TABLE_ENTRIES = 16"
definition CLASSIFIER_DTAG_MAX :: u8 where "CLASSIFIER_DTAG_MAX = 7"
definition CLASSIFIER_CODE_POINT_MAX :: u8 where "CLASSIFIER_CODE_POINT_MAX = 63"
definition CLASSIFIER_PORT_MIN :: u16 where "CLASSIFIER_PORT_MIN = 1"
definition CLASSIFIER_PORT_MAX :: u16 where "CLASSIFIER_PORT_MAX = 65535"
definition CLASSIFIER_IPADDRESS_MIN :: u32 where "CLASSIFIER_IPADDRESS_MIN = 0"
definition CLASSIFIER_IPADDRESS_MAX :: u32 where "CLASSIFIER_IPADDRESS_MAX = 0xFFFFFFFF"

text \<open>The union \<open>Dscp\<close> is its first four bytes (\<open>DstIPPort.DstIPAddress\<close>) and the two after them
  (\<open>DstIPPort.DstPortNum\<close>); the other two members overlay the low bytes of the first word.\<close>

record TClsfrTableEntry =
  DstIPAddress :: u32
  IPPort_DstPortNum :: u16
  DTag :: u8

definition Dscp_DstPortNum :: "TClsfrTableEntry \<Rightarrow> u16" where
  "Dscp_DstPortNum e = ucast (DstIPAddress e)"

definition Dscp_CodePoint :: "TClsfrTableEntry \<Rightarrow> u8" where
  "Dscp_CodePoint e = ucast (DstIPAddress e)"

definition set_DstPortNum :: "u16 \<Rightarrow> TClsfrTableEntry \<Rightarrow> TClsfrTableEntry" where
  "set_DstPortNum v e = e\<lparr>DstIPAddress := push_bit 16 (drop_bit 16 (DstIPAddress e)) OR ucast v\<rparr>"

definition set_CodePoint :: "u8 \<Rightarrow> TClsfrTableEntry \<Rightarrow> TClsfrTableEntry" where
  "set_CodePoint v e = e\<lparr>DstIPAddress := push_bit 8 (drop_bit 8 (DstIPAddress e)) OR ucast v\<rparr>"

record TClsfrParams =
  eClsfrType :: u32
  uNumActiveEntries :: u32
  ClsfrTable :: "TClsfrTableEntry list"

section \<open>The table\<close>

text \<open>The comparison and the assignment of entries that the classifier type selects.\<close>

definition clsfr_same :: "u32 \<Rightarrow> TClsfrTableEntry \<Rightarrow> TClsfrTableEntry \<Rightarrow> bool" where
  "clsfr_same ty a b \<longleftrightarrow>
     (if ty = DSCP_CLSFR then Dscp_CodePoint a = Dscp_CodePoint b
      else if ty = PORT_CLSFR then Dscp_DstPortNum a = Dscp_DstPortNum b
      else DstIPAddress a = DstIPAddress b \<and> IPPort_DstPortNum a = IPPort_DstPortNum b)"

definition clsfr_assign :: "u32 \<Rightarrow> TClsfrTableEntry \<Rightarrow> TClsfrTableEntry \<Rightarrow> TClsfrTableEntry" where
  "clsfr_assign ty src dst =
     (if ty = DSCP_CLSFR then set_CodePoint (Dscp_CodePoint src) dst
      else if ty = PORT_CLSFR then set_DstPortNum (Dscp_DstPortNum src) dst
      else dst\<lparr>DstIPAddress := DstIPAddress src, IPPort_DstPortNum := IPPort_DstPortNum src\<rparr>)
     \<lparr>DTag := DTag src\<rparr>"

text \<open>The loops that look for an entry from index \<open>i\<close> below \<open>n\<close>; the result is the index where
  they stop.\<close>

function clsfr_scan :: "(TClsfrTableEntry \<Rightarrow> bool) \<Rightarrow> TClsfrTableEntry list \<Rightarrow> nat \<Rightarrow> nat \<Rightarrow> nat" where
  "clsfr_scan P tbl n i = (if i < n \<and> \<not> P (tbl ! i) then clsfr_scan P tbl n (i + 1) else i)"
  by pat_completeness auto
termination by (relation "measure (\<lambda>(P, tbl, n, i). n - i)") auto

declare clsfr_scan.simps [simp del]

text \<open>The configuration loop: entry \<open>i\<close> of the input is compared with the entries \<open>j < i\<close> of the
  table, then written at \<open>uActualEntryCount\<close>.\<close>

function clsfr_fill ::
  "u32 \<Rightarrow> TClsfrTableEntry list \<Rightarrow> nat \<Rightarrow> nat \<Rightarrow> nat \<Rightarrow> TClsfrTableEntry list \<Rightarrow> nat \<times> TClsfrTableEntry list" where
  "clsfr_fill ty init n i uActualEntryCount tbl =
     (if i < n then
        (let bConflictFound = clsfr_scan (\<lambda>e. clsfr_same ty e (init ! i)) tbl i 0 < i in
         if \<not> bConflictFound
         then clsfr_fill ty init n (i + 1) (uActualEntryCount + 1)
                (tbl[uActualEntryCount := clsfr_assign ty (init ! i) (tbl ! uActualEntryCount)])
         else clsfr_fill ty init n (i + 1) uActualEntryCount tbl)
      else (uActualEntryCount, tbl))"
  by pat_completeness auto
termination by (relation "measure (\<lambda>(ty, init, n, i, c, tbl). n - i)") auto

declare clsfr_fill.simps [simp del]

definition clsfr_is_table :: "u32 \<Rightarrow> bool" where
  "clsfr_is_table ty \<longleftrightarrow> ty = DSCP_CLSFR \<or> ty = PORT_CLSFR \<or> ty = IPPORT_CLSFR"

definition txDataClsfr_Config :: "TClsfrParams \<Rightarrow> TClsfrParams \<Rightarrow> ti_status \<times> TClsfrParams" where
  "txDataClsfr_Config p init =
     (let p = p\<lparr>eClsfrType := eClsfrType init\<rparr>;
          n = (if unat (uNumActiveEntries init) \<le> NUM_OF_CLSFR_TABLE_ENTRIES
               then uNumActiveEntries init else of_nat NUM_OF_CLSFR_TABLE_ENTRIES);
          p = p\<lparr>uNumActiveEntries := n\<rparr>
      in if eClsfrType p = D_TAG_CLSFR then (TI_OK, p\<lparr>uNumActiveEntries := 0\<rparr>)
         else if clsfr_is_table (eClsfrType p) then
           (let (c, tbl) = clsfr_fill (eClsfrType p) (ClsfrTable init) (unat n) 0 0 (ClsfrTable p)
            in (TI_OK, p\<lparr>ClsfrTable := tbl, uNumActiveEntries := of_nat c\<rparr>))
         else (TI_OK, p\<lparr>eClsfrType := D_TAG_CLSFR, uNumActiveEntries := 0\<rparr>))"

text \<open>The range checks of a new entry.\<close>

definition clsfr_bad_entry :: "u32 \<Rightarrow> TClsfrTableEntry \<Rightarrow> bool" where
  "clsfr_bad_entry ty e \<longleftrightarrow>
     (if ty = DSCP_CLSFR then Dscp_CodePoint e > CLASSIFIER_CODE_POINT_MAX \<or> DTag e > CLASSIFIER_DTAG_MAX
      else if ty = PORT_CLSFR then
        DTag e > CLASSIFIER_DTAG_MAX \<or> Dscp_DstPortNum e > CLASSIFIER_PORT_MAX - 1 \<or>
        Dscp_DstPortNum e < CLASSIFIER_PORT_MIN
      else
        DTag e > CLASSIFIER_DTAG_MAX \<or> IPPort_DstPortNum e > CLASSIFIER_PORT_MAX - 1 \<or>
        IPPort_DstPortNum e < CLASSIFIER_PORT_MIN \<or> DstIPAddress e > CLASSIFIER_IPADDRESS_MAX - 1 \<or>
        DstIPAddress e < CLASSIFIER_IPADDRESS_MIN + 1)"

definition txDataClsfr_InsertClsfrEntry ::
  "TClsfrParams \<Rightarrow> TClsfrTableEntry option \<Rightarrow> ti_status \<times> TClsfrParams" where
  "txDataClsfr_InsertClsfrEntry p pNewEntry =
     (case pNewEntry of
        None \<Rightarrow> (PARAM_VALUE_NOT_VALID, p)
      | Some e \<Rightarrow>
          (let ty = eClsfrType p; n = unat (uNumActiveEntries p) in
           if n = NUM_OF_CLSFR_TABLE_ENTRIES then (PARAM_VALUE_NOT_VALID, p)
           else if ty = D_TAG_CLSFR then (PARAM_VALUE_NOT_VALID, p)
           else if clsfr_is_table ty then
             if clsfr_bad_entry ty e then (PARAM_VALUE_NOT_VALID, p)
             else if clsfr_scan (\<lambda>x. clsfr_same ty x e) (ClsfrTable p) n 0 < n then (PARAM_VALUE_NOT_VALID, p)
             else (TI_OK, p\<lparr>ClsfrTable := (ClsfrTable p)[n := clsfr_assign ty e (ClsfrTable p ! n)],
                        uNumActiveEntries := uNumActiveEntries p + 1\<rparr>)
           else (TI_OK, p\<lparr>uNumActiveEntries := uNumActiveEntries p + 1\<rparr>)))"

text \<open>Shifting the entries above the removed one downward, from index \<open>j\<close>.\<close>

function clsfr_shift :: "u32 \<Rightarrow> nat \<Rightarrow> nat \<Rightarrow> TClsfrTableEntry list \<Rightarrow> TClsfrTableEntry list" where
  "clsfr_shift ty n j tbl =
     (if j < n - 1 then clsfr_shift ty n (j + 1) (tbl[j := clsfr_assign ty (tbl ! (j + 1)) (tbl ! j)]) else tbl)"
  by pat_completeness auto
termination by (relation "measure (\<lambda>(ty, n, j, tbl). n - j)") auto

declare clsfr_shift.simps [simp del]

definition txDataClsfr_RemoveClsfrEntry ::
  "TClsfrParams \<Rightarrow> TClsfrTableEntry option \<Rightarrow> ti_status \<times> TClsfrParams" where
  "txDataClsfr_RemoveClsfrEntry p pRemEntry =
     (case pRemEntry of
        None \<Rightarrow> (PARAM_VALUE_NOT_VALID, p)
      | Some e \<Rightarrow>
          (let ty = eClsfrType p; n = unat (uNumActiveEntries p) in
           if n = 0 then (PARAM_VALUE_NOT_VALID, p)
           else if ty = D_TAG_CLSFR then (PARAM_VALUE_NOT_VALID, p)
           else if clsfr_is_table ty then
             (let i = clsfr_scan (\<lambda>x. clsfr_same ty x e \<and> DTag x = DTag e) (ClsfrTable p) n 0 in
              if i = n then (PARAM_VALUE_NOT_VALID, p)
              else (TI_OK, p\<lparr>ClsfrTable := clsfr_shift ty n i (ClsfrTable p),
                         uNumActiveEntries := uNumActiveEntries p - 1\<rparr>))
           else (TI_OK, p\<lparr>uNumActiveEntries := uNumActiveEntries p - 1\<rparr>)))"

definition txDataClsfr_SetClsfrType :: "TClsfrParams \<Rightarrow> u32 \<Rightarrow> ti_status \<times> TClsfrParams" where
  "txDataClsfr_SetClsfrType p eNewClsfrType =
     (if eNewClsfrType > CLSFR_TYPE_MAX then (PARAM_VALUE_NOT_VALID, p)
      else (TI_OK, p\<lparr>eClsfrType := eNewClsfrType, uNumActiveEntries := 0\<rparr>))"

definition txDataClsfr_GetClsfrType :: "TClsfrParams \<Rightarrow> ti_status \<times> u32" where
  "txDataClsfr_GetClsfrType p = (TI_OK, eClsfrType p)"

section \<open>Classification\<close>

definition ETHERTYPE_IP :: u16 where "ETHERTYPE_IP = 0x0800"
definition OFS_ETH_TYPE :: nat where "OFS_ETH_TYPE = 12"

text \<open>A big-endian 16-bit load (\<open>HTOWLANS\<close> of a load on a little-endian host) and a plain 32-bit one.\<close>

definition load16_net :: "(addr \<Rightarrow> u8) \<Rightarrow> addr \<Rightarrow> u16" where
  "load16_net mem a = push_bit 8 (ucast (mem a)) OR ucast (mem (a + 1))"

definition load32 :: "(addr \<Rightarrow> u8) \<Rightarrow> addr \<Rightarrow> u32" where
  "load32 mem a = ucast (mem a) OR push_bit 8 (ucast (mem (a + 1))) OR push_bit 16 (ucast (mem (a + 2))) OR
     push_bit 24 (ucast (mem (a + 3)))"

text \<open>The addresses of the IP and the UDP header, \<open>None\<close> for \<open>TI_NOK\<close>. Both buffer pointers are
  read through before any check.\<close>

definition getIpAndUdpHeader :: "(addr \<Rightarrow> u8) \<Rightarrow> TTxCtrlBlk \<Rightarrow> fault + (addr \<times> addr) option" where
  "getIpAndUdpHeader mem blk =
     (let buf = aBuf (tTxnStruct blk) in
      if buf ! 0 = 0 then Inl NullDeref
      else if load16_net mem (buf ! 0 + OFS_ETH_TYPE) \<noteq> ETHERTYPE_IP then Inr None
      else if buf ! 1 = 0 then Inl NullDeref
      else
        (let pIp = buf ! 1;
             ipHeaderLen = (mem pIp AND 0x0f) * 4 :: u8
         in Inr (Some (pIp,
              if ucast ipHeaderLen = aLen (tTxnStruct blk) ! 1 then buf ! 2 else pIp + unat ipHeaderLen))))"

definition clsfr_set_tid :: "u8 \<Rightarrow> TTxCtrlBlk \<Rightarrow> TTxCtrlBlk" where
  "clsfr_set_tid t blk = blk\<lparr>tTxDescriptor := (tTxDescriptor blk)\<lparr>tid := t\<rparr>\<rparr>"

text \<open>The search of the table; nothing is written when no entry matches.\<close>

definition clsfr_lookup :: "TClsfrParams \<Rightarrow> (TClsfrTableEntry \<Rightarrow> bool) \<Rightarrow> TTxCtrlBlk \<Rightarrow> TTxCtrlBlk" where
  "clsfr_lookup p P blk =
     (let n = unat (uNumActiveEntries p); i = clsfr_scan P (ClsfrTable p) n 0 in
      if i < n then clsfr_set_tid (DTag (ClsfrTable p ! i)) blk else blk)"

definition MAX_NUM_OF_802_1d_TAGS :: u8 where "MAX_NUM_OF_802_1d_TAGS = 8"

definition txDataClsfr_ClassifyTxPacket ::
  "(addr \<Rightarrow> u8) \<Rightarrow> TClsfrParams \<Rightarrow> TTxCtrlBlk \<Rightarrow> u8 \<Rightarrow> fault + (ti_status \<times> TTxCtrlBlk)" where
  "txDataClsfr_ClassifyTxPacket mem p blk uPacketDtag =
     (let blk = clsfr_set_tid 0 blk; ty = eClsfrType p in
      if ty = D_TAG_CLSFR then
        (if uPacketDtag > MAX_NUM_OF_802_1d_TAGS then Inr (PARAM_VALUE_NOT_VALID, blk)
         else Inr (TI_OK, clsfr_set_tid uPacketDtag blk))
      else if clsfr_is_table ty then
        (case getIpAndUdpHeader mem blk of
           Inl f \<Rightarrow> Inl f
         | Inr None \<Rightarrow> Inr (PARAM_VALUE_NOT_VALID, blk)
         | Inr (Some (pIp, pUdp)) \<Rightarrow>
             if ty = DSCP_CLSFR then
               (let uDscp = drop_bit 2 (mem (pIp + 1))
                in Inr (TI_OK, clsfr_lookup p (\<lambda>e. Dscp_CodePoint e = uDscp) blk))
             else if pUdp = 0 then Inr (PARAM_VALUE_NOT_VALID, blk)
             else
               (let uDstUdpPort = load16_net mem (pUdp + 2) in
                if ty = PORT_CLSFR
                then Inr (TI_OK, clsfr_lookup p (\<lambda>e. Dscp_DstPortNum e = uDstUdpPort) blk)
                else
                  (let uDstIpAdd = load32 mem (pIp + 16)
                   in Inr (TI_OK, clsfr_lookup p
                        (\<lambda>e. DstIPAddress e = uDstIpAdd \<and> IPPort_DstPortNum e = uDstUdpPort) blk))))
      else Inr (TI_OK, blk))"

section \<open>The table as a list of keys and TIDs\<close>

definition clsfr_key :: "u32 \<Rightarrow> TClsfrTableEntry \<Rightarrow> u32 \<times> u16" where
  "clsfr_key ty e =
     (if ty = DSCP_CLSFR then (ucast (Dscp_CodePoint e), 0)
      else if ty = PORT_CLSFR then (ucast (Dscp_DstPortNum e), 0)
      else (DstIPAddress e, IPPort_DstPortNum e))"

definition clsfr_kd :: "u32 \<Rightarrow> TClsfrTableEntry \<Rightarrow> (u32 \<times> u16) \<times> u8" where
  "clsfr_kd ty e = (clsfr_key ty e, DTag e)"

definition clsfr_entries :: "TClsfrParams \<Rightarrow> ((u32 \<times> u16) \<times> u8) list" where
  "clsfr_entries p = map (clsfr_kd (eClsfrType p)) (take (unat (uNumActiveEntries p)) (ClsfrTable p))"

lemma clsfr_same_key: "clsfr_same ty a b \<longleftrightarrow> clsfr_key ty a = clsfr_key ty b"
  by (simp add: clsfr_same_def clsfr_key_def)

lemma Dscp_set [simp]: "Dscp_CodePoint (set_CodePoint v e) = v" "Dscp_DstPortNum (set_DstPortNum v' e) = v'"
proof -
  show "Dscp_CodePoint (set_CodePoint v e) = v"
    unfolding Dscp_CodePoint_def set_CodePoint_def
    by (rule bit_word_eqI) (auto simp: bit_simps)
  show "Dscp_DstPortNum (set_DstPortNum v' e) = v'"
    unfolding Dscp_DstPortNum_def set_DstPortNum_def
    by (rule bit_word_eqI) (auto simp: bit_simps)
qed

lemma Dscp_DTag [simp]:
  "Dscp_CodePoint (e\<lparr>DTag := d\<rparr>) = Dscp_CodePoint e" "Dscp_DstPortNum (e\<lparr>DTag := d\<rparr>) = Dscp_DstPortNum e"
  by (simp_all add: Dscp_CodePoint_def Dscp_DstPortNum_def)

lemma clsfr_kd_assign [simp]: "clsfr_kd ty (clsfr_assign ty src dst) = clsfr_kd ty src"
  by (simp add: clsfr_kd_def clsfr_key_def clsfr_assign_def)

lemma clsfr_key_assign [simp]: "clsfr_key ty (clsfr_assign ty src dst) = clsfr_key ty src"
  using clsfr_kd_assign [of ty src dst] by (simp add: clsfr_kd_def)

text \<open>Where a search stops.\<close>

lemma clsfr_scan_stops:
  assumes "i \<le> n"
  shows "i \<le> clsfr_scan P tbl n i \<and> clsfr_scan P tbl n i \<le> n \<and>
    (\<forall>j. i \<le> j \<and> j < clsfr_scan P tbl n i \<longrightarrow> \<not> P (tbl ! j)) \<and>
    (clsfr_scan P tbl n i < n \<longrightarrow> P (tbl ! clsfr_scan P tbl n i))"
  using assms
proof (induction P tbl n i rule: clsfr_scan.induct)
  case (1 P tbl n i)
  show ?case
  proof (cases "i < n \<and> \<not> P (tbl ! i)")
    case True
    then have "clsfr_scan P tbl n i = clsfr_scan P tbl n (i + 1)" by (simp add: clsfr_scan.simps [of _ _ _ i])
    moreover have "\<not> P (tbl ! j)" if "i \<le> j" "j < clsfr_scan P tbl n (i + 1)" for j
      using 1 True that by (cases "j = i") (auto simp: Suc_le_eq)
    ultimately show ?thesis using 1 True by auto
  next
    case False
    then show ?thesis using 1 by (auto simp: clsfr_scan.simps [of _ _ _ i])
  qed
qed

lemma clsfr_scan_found:
  "clsfr_scan P tbl n 0 < n \<longleftrightarrow> (\<exists>j < n. P (tbl ! j))"
  using clsfr_scan_stops [of 0 n P tbl] by (metis le0 le_less_trans leI le_antisym)

text \<open>A search by key is a lookup in the list of entries.\<close>

lemma clsfr_scan_map_of:
  assumes "n \<le> length tbl"
  shows "map_of (map (clsfr_kd ty) (take n tbl)) k =
    (let i = clsfr_scan (\<lambda>e. clsfr_key ty e = k) tbl n 0 in if i < n then Some (DTag (tbl ! i)) else None)"
proof -
  have "map_of (map (clsfr_kd ty) (drop j (take n tbl))) k =
    (let i = clsfr_scan (\<lambda>e. clsfr_key ty e = k) tbl n j in if i < n then Some (DTag (tbl ! i)) else None)"
    if "j \<le> n" for j
    using that
  proof (induction "n - j" arbitrary: j)
    case 0
    then show ?case by (simp add: clsfr_scan.simps)
  next
    case (Suc m)
    then have j: "j < n" "j < length (take n tbl)" "m = n - Suc j" using assms by auto
    have "drop j (take n tbl) = tbl ! j # drop (Suc j) (take n tbl)"
      using Cons_nth_drop_Suc [OF j(2)] j(1) by simp
    then show ?case
      using Suc.hyps(1) [OF j(3)] j(1)
      by (subst clsfr_scan.simps) (simp add: clsfr_kd_def Let_def)
  qed
  from this [of 0] show ?thesis by simp
qed

section \<open>The invariant of the table\<close>

definition clsfr_inv :: "TClsfrParams \<Rightarrow> bool" where
  "clsfr_inv p \<longleftrightarrow>
     length (ClsfrTable p) = NUM_OF_CLSFR_TABLE_ENTRIES \<and>
     unat (uNumActiveEntries p) \<le> NUM_OF_CLSFR_TABLE_ENTRIES \<and> eClsfrType p \<le> CLSFR_TYPE_MAX \<and>
     (eClsfrType p = D_TAG_CLSFR \<longrightarrow> uNumActiveEntries p = 0) \<and>
     distinct (map fst (clsfr_entries p))"

lemma clsfr_type_cases:
  assumes "ty \<le> CLSFR_TYPE_MAX"
  obtains "ty = D_TAG_CLSFR" | "clsfr_is_table ty"
proof -
  have "unat ty \<le> 3" using assms by (simp add: CLSFR_TYPE_MAX_def word_le_nat_alt)
  then have "unat ty \<in> {0, 1, 2, 3}" by auto
  then have "ty = D_TAG_CLSFR \<or> clsfr_is_table ty"
    by (auto simp: clsfr_is_table_def DSCP_CLSFR_def PORT_CLSFR_def IPPORT_CLSFR_def D_TAG_CLSFR_def
        word_unat_eq_iff)
  then show ?thesis using that by blast
qed

lemma clsfr_is_table_DTAG [simp]: "\<not> clsfr_is_table D_TAG_CLSFR"
  by (simp add: clsfr_is_table_def DSCP_CLSFR_def PORT_CLSFR_def IPPORT_CLSFR_def D_TAG_CLSFR_def)

text \<open>The configuration loop.\<close>

lemma clsfr_fill_spec:
  assumes "length tbl = 16" "n \<le> 16" "c \<le> i" "i \<le> n" "distinct (map (clsfr_key ty) (take c tbl))"
    and "clsfr_fill ty init n i c tbl = (c', tbl')"
  shows "length tbl' = 16" "c \<le> c'" "c' \<le> n" "distinct (map (clsfr_key ty) (take c' tbl'))"
proof -
  have "length tbl' = 16 \<and> c \<le> c' \<and> c' \<le> n \<and> distinct (map (clsfr_key ty) (take c' tbl'))"
    using assms
  proof (induction ty init n i c tbl rule: clsfr_fill.induct)
    case (1 ty init n i c tbl)
    show ?case
    proof (cases "i < n")
      case False
      then show ?thesis using "1.prems" by (simp add: clsfr_fill.simps)
    next
      case True
      show ?thesis
      proof (cases "clsfr_scan (\<lambda>e. clsfr_same ty e (init ! i)) tbl i 0 < i")
        case conflict: True
        show ?thesis
        proof (rule "1.IH"(2) [OF True refl _ "1.prems"(1,2) _ _ "1.prems"(5)])
          show "clsfr_fill ty init n (i + 1) c tbl = (c', tbl')"
            using "1.prems"(6) True conflict by (subst (asm) clsfr_fill.simps) simp
        qed (use conflict True "1.prems" in simp_all)
      next
        case new: False
        define tbl1 where "tbl1 = tbl[c := clsfr_assign ty (init ! i) (tbl ! c)]"
        have fresh: "clsfr_key ty (init ! i) \<notin> clsfr_key ty ` set (take c tbl)"
        proof
          assume "clsfr_key ty (init ! i) \<in> clsfr_key ty ` set (take c tbl)"
          then obtain j where "j < c" "clsfr_key ty (init ! i) = clsfr_key ty (tbl ! j)"
            by (auto simp: in_set_conv_nth)
          then have "clsfr_same ty (tbl ! j) (init ! i)" "j < i" using "1.prems"(3) by (simp_all add: clsfr_same_key)
          then show False using new unfolding clsfr_scan_found by blast
        qed
        have "take (c + 1) tbl1 = take c tbl @ [clsfr_assign ty (init ! i) (tbl ! c)]"
          using "1.prems"(1-4) True by (simp add: tbl1_def take_Suc_conv_app_nth)
        then have dist: "distinct (map (clsfr_key ty) (take (c + 1) tbl1))"
          using "1.prems"(5) fresh by auto
        have "length tbl' = 16 \<and> c + 1 \<le> c' \<and> c' \<le> n \<and> distinct (map (clsfr_key ty) (take c' tbl'))"
        proof (rule "1.IH"(1) [OF True refl _ _ "1.prems"(2)])
          show "clsfr_fill ty init n (i + 1) (c + 1) (tbl[c := clsfr_assign ty (init ! i) (tbl ! c)]) = (c', tbl')"
            using "1.prems"(6) True new by (subst (asm) clsfr_fill.simps) simp
        qed (use new True "1.prems" dist in \<open>simp_all add: tbl1_def\<close>)
        then show ?thesis by simp
      qed
    qed
  qed
  then show "length tbl' = 16" "c \<le> c'" "c' \<le> n" "distinct (map (clsfr_key ty) (take c' tbl'))" by auto
qed

text \<open>When the new entries have different keys, all of them are taken, in order.\<close>

lemma clsfr_fill_all:
  assumes "length tbl = 16" "n \<le> 16" "n \<le> length init" "i \<le> n" "distinct (map (clsfr_key ty) (take n init))"
    and "map (clsfr_kd ty) (take i tbl) = map (clsfr_kd ty) (take i init)"
    and "clsfr_fill ty init n i i tbl = (c', tbl')"
  shows "c' = n \<and> map (clsfr_kd ty) (take n tbl') = map (clsfr_kd ty) (take n init)"
  using assms
proof (induction "n - i" arbitrary: i tbl)
  case 0
  then show ?case by (simp add: clsfr_fill.simps)
next
  case (Suc m)
  then have i: "i < n" by simp
  have kd: "clsfr_kd ty (tbl ! j) = clsfr_kd ty (init ! j)" if "j < i" for j
  proof -
    have "map (clsfr_kd ty) (take i tbl) ! j = map (clsfr_kd ty) (take i init) ! j" using Suc.prems(6) by simp
    then show ?thesis using that i Suc.prems(1-3) by simp
  qed
  have "clsfr_key ty (init ! j) \<noteq> clsfr_key ty (init ! i)" if "j < i" for j
  proof -
    have "map (clsfr_key ty) (take n init) ! j \<noteq> map (clsfr_key ty) (take n init) ! i"
      using Suc.prems(3,5) i that by (intro distinct_conv_nth [THEN iffD1, rule_format]) auto
    then show ?thesis using that i Suc.prems(3) by simp
  qed
  then have new: "\<not> clsfr_scan (\<lambda>e. clsfr_same ty e (init ! i)) tbl i 0 < i"
    using kd by (auto simp: clsfr_scan_found clsfr_same_key clsfr_kd_def)
  define tbl1 where "tbl1 = tbl[i := clsfr_assign ty (init ! i) (tbl ! i)]"
  have step: "clsfr_fill ty init n (i + 1) (i + 1) tbl1 = (c', tbl')"
    using Suc.prems(7) i new by (subst (asm) clsfr_fill.simps) (simp add: tbl1_def)
  have t1: "take (i + 1) tbl1 = take i tbl @ [clsfr_assign ty (init ! i) (tbl ! i)]"
    using Suc.prems(1,2) i by (simp add: tbl1_def take_Suc_conv_app_nth)
  have t2: "take (i + 1) init = take i init @ [init ! i]"
    using Suc.prems(3) i by (simp add: take_Suc_conv_app_nth)
  show ?case
  proof (rule Suc.hyps(1) [OF _ _ Suc.prems(2,3) _ Suc.prems(5) _ step])
    show "map (clsfr_kd ty) (take (i + 1) tbl1) = map (clsfr_kd ty) (take (i + 1) init)"
      unfolding t1 t2 using Suc.prems(6) by simp
  qed (use Suc.hyps(2) Suc.prems(1) i in \<open>auto simp: tbl1_def\<close>)
qed

text \<open>Shifting.\<close>

lemma clsfr_shift_nth:
  assumes "n \<le> length tbl" "k < n - 1"
  shows "length (clsfr_shift ty n j tbl) = length tbl"
    "clsfr_kd ty (clsfr_shift ty n j tbl ! k) = clsfr_kd ty (tbl ! (if k < j then k else k + 1))"
proof -
  have "length (clsfr_shift ty n j tbl) = length tbl \<and>
      clsfr_kd ty (clsfr_shift ty n j tbl ! k) = clsfr_kd ty (tbl ! (if k < j then k else k + 1))"
    using assms
  proof (induction ty n j tbl rule: clsfr_shift.induct)
    case (1 ty n j tbl)
    show ?case
    proof (cases "j < n - 1")
      case True
      then show ?thesis
        using 1 by (subst (1 2) clsfr_shift.simps) (auto simp: nth_list_update)
    next
      case False
      then show ?thesis using 1 by (subst (1 2) clsfr_shift.simps) auto
    qed
  qed
  then show "length (clsfr_shift ty n j tbl) = length tbl"
    "clsfr_kd ty (clsfr_shift ty n j tbl ! k) = clsfr_kd ty (tbl ! (if k < j then k else k + 1))" by auto
qed

lemma clsfr_shift_length [simp]: "length (clsfr_shift ty n j tbl) = length tbl"
proof (induction ty n j tbl rule: clsfr_shift.induct)
  case (1 ty n j tbl)
  then show ?case by (subst clsfr_shift.simps) simp
qed

lemma clsfr_shift_entries:
  assumes "n \<le> length tbl" "i < n"
  shows "map (clsfr_kd ty) (take (n - 1) (clsfr_shift ty n i tbl)) =
    take i (map (clsfr_kd ty) (take n tbl)) @ drop (i + 1) (map (clsfr_kd ty) (take n tbl))"
proof (rule nth_equalityI)
  fix k
  assume "k < length (map (clsfr_kd ty) (take (n - 1) (clsfr_shift ty n i tbl)))"
  then have k: "k < n - 1" "k < length tbl" using assms by simp_all
  then show "map (clsfr_kd ty) (take (n - 1) (clsfr_shift ty n i tbl)) ! k =
      (take i (map (clsfr_kd ty) (take n tbl)) @ drop (i + 1) (map (clsfr_kd ty) (take n tbl))) ! k"
    using clsfr_shift_nth(2) [OF assms(1) k(1), of ty i] assms by (auto simp: nth_append min_def)
qed (use assms in auto)

section \<open>What the operations do to the entries\<close>

lemma clsfr_Insert_entries:
  assumes "clsfr_inv p" "txDataClsfr_InsertClsfrEntry p (Some e) = (st, p')"
  shows "(st = TI_OK \<longleftrightarrow> clsfr_is_table (eClsfrType p) \<and> \<not> clsfr_bad_entry (eClsfrType p) e \<and>
      length (clsfr_entries p) < NUM_OF_CLSFR_TABLE_ENTRIES \<and>
      clsfr_key (eClsfrType p) e \<notin> fst ` set (clsfr_entries p))"
    and "st \<noteq> TI_OK \<Longrightarrow> p' = p \<and> st = PARAM_VALUE_NOT_VALID"
    and "st = TI_OK \<Longrightarrow> clsfr_entries p' = clsfr_entries p @ [clsfr_kd (eClsfrType p) e] \<and>
      eClsfrType p' = eClsfrType p \<and> clsfr_inv p'"
proof -
  define n where "n = unat (uNumActiveEntries p)"
  define ty where "ty = eClsfrType p"
  have n: "n \<le> 16" "length (ClsfrTable p) = 16"
    using assms(1) by (simp_all add: clsfr_inv_def NUM_OF_CLSFR_TABLE_ENTRIES_def n_def)
  have len: "length (clsfr_entries p) = n" using n by (simp add: clsfr_entries_def n_def)
  have ty: "\<not> clsfr_is_table ty \<Longrightarrow> ty = D_TAG_CLSFR"
    using assms(1) clsfr_type_cases [of ty] by (auto simp: clsfr_inv_def ty_def)
  have dup: "clsfr_scan (\<lambda>x. clsfr_same ty x e) (ClsfrTable p) n 0 < n \<longleftrightarrow>
      clsfr_key ty e \<in> fst ` set (clsfr_entries p)"
  proof -
    have "set (take n (ClsfrTable p)) = (\<lambda>j. ClsfrTable p ! j) ` {0..<n}"
      using nth_image [of n "ClsfrTable p"] n by simp
    then have "fst ` set (clsfr_entries p) = (\<lambda>j. clsfr_key ty (ClsfrTable p ! j)) ` {0..<n}"
      by (simp add: clsfr_entries_def n_def [symmetric] ty_def [symmetric] image_image clsfr_kd_def)
    then show ?thesis
      unfolding clsfr_scan_found clsfr_same_key by (auto intro: rev_image_eqI [OF _ sym])
  qed
  show ok: "(st = TI_OK \<longleftrightarrow> clsfr_is_table (eClsfrType p) \<and> \<not> clsfr_bad_entry (eClsfrType p) e \<and>
      length (clsfr_entries p) < NUM_OF_CLSFR_TABLE_ENTRIES \<and>
      clsfr_key (eClsfrType p) e \<notin> fst ` set (clsfr_entries p))"
    using assms(2) dup ty n(1) unfolding txDataClsfr_InsertClsfrEntry_def Let_def len
    by (auto simp: n_def [symmetric] ty_def [symmetric] NUM_OF_CLSFR_TABLE_ENTRIES_def split: if_splits)
  show "p' = p \<and> st = PARAM_VALUE_NOT_VALID" if "st \<noteq> TI_OK"
    using that assms(2) by (auto simp: txDataClsfr_InsertClsfrEntry_def Let_def split: if_splits)
  assume st: "st = TI_OK"
  then have c: "clsfr_is_table ty" "n < 16" "clsfr_key ty e \<notin> fst ` set (clsfr_entries p)"
    using ok len by (simp_all add: ty_def NUM_OF_CLSFR_TABLE_ENTRIES_def)
  then have "ty \<noteq> D_TAG_CLSFR" by auto
  then have p': "p' = p\<lparr>ClsfrTable := (ClsfrTable p)[n := clsfr_assign ty e (ClsfrTable p ! n)],
      uNumActiveEntries := uNumActiveEntries p + 1\<rparr>"
    using assms(2) c(1) st by (auto simp: txDataClsfr_InsertClsfrEntry_def Let_def ty_def n_def split: if_splits)
  have n1: "unat (uNumActiveEntries p + 1) = n + 1"
    using c(2) by (simp add: unat_add_small n_def)
  have "take (n + 1) (ClsfrTable p') = take n (ClsfrTable p) @ [clsfr_assign ty e (ClsfrTable p ! n)]"
    using n(2) c(2) by (simp add: p' take_Suc_conv_app_nth)
  then have ent: "clsfr_entries p' = clsfr_entries p @ [clsfr_kd ty e]"
    using n1 by (simp add: clsfr_entries_def p' n_def ty_def)
  have "distinct (map fst (clsfr_entries p'))"
    using assms(1) c(3) unfolding ent by (simp add: clsfr_inv_def clsfr_kd_def)
  then have "clsfr_inv p'"
    using assms(1) n1 c(1,2) by (auto simp: clsfr_inv_def p' NUM_OF_CLSFR_TABLE_ENTRIES_def ty_def)
  with ent show "clsfr_entries p' = clsfr_entries p @ [clsfr_kd (eClsfrType p) e] \<and>
      eClsfrType p' = eClsfrType p \<and> clsfr_inv p'"
    by (simp add: p' ty_def)
qed

lemma clsfr_Remove_entries:
  assumes "clsfr_inv p" "txDataClsfr_RemoveClsfrEntry p (Some e) = (st, p')"
  shows "st = TI_OK \<longleftrightarrow> clsfr_kd (eClsfrType p) e \<in> set (clsfr_entries p)"
    and "st \<noteq> TI_OK \<Longrightarrow> p' = p \<and> st = PARAM_VALUE_NOT_VALID"
    and "st = TI_OK \<Longrightarrow> clsfr_entries p' = remove1 (clsfr_kd (eClsfrType p) e) (clsfr_entries p) \<and>
      eClsfrType p' = eClsfrType p \<and> clsfr_inv p'"
proof -
  define n where "n = unat (uNumActiveEntries p)"
  define ty where "ty = eClsfrType p"
  define es where "es = clsfr_entries p"
  define x where "x = clsfr_kd ty e"
  define i where "i = clsfr_scan (\<lambda>x. clsfr_same ty x e \<and> DTag x = DTag e) (ClsfrTable p) n 0"
  have n: "n \<le> 16" "length (ClsfrTable p) = 16"
    using assms(1) by (simp_all add: clsfr_inv_def NUM_OF_CLSFR_TABLE_ENTRIES_def n_def)
  have es: "length es = n" "\<And>j. j < n \<Longrightarrow> es ! j = clsfr_kd ty (ClsfrTable p ! j)"
    using n by (simp_all add: es_def clsfr_entries_def n_def ty_def)
  have P: "clsfr_same ty y e \<and> DTag y = DTag e \<longleftrightarrow> clsfr_kd ty y = x" for y
    by (simp add: clsfr_same_key clsfr_kd_def x_def)
  note S = clsfr_scan_stops [of 0 n "\<lambda>x. clsfr_same ty x e \<and> DTag x = DTag e" "ClsfrTable p", folded i_def, unfolded P]
  have found: "i < n \<longleftrightarrow> x \<in> set es"
    unfolding i_def clsfr_scan_found P using es by (metis in_set_conv_nth)
  have D: "ty = D_TAG_CLSFR \<Longrightarrow> n = 0" using assms(1) by (simp add: clsfr_inv_def ty_def n_def)
  have tab: "clsfr_is_table ty" if "ty \<noteq> D_TAG_CLSFR"
    using assms(1) clsfr_type_cases [of ty] that by (auto simp: clsfr_inv_def ty_def)
  have run: "txDataClsfr_RemoveClsfrEntry p (Some e) =
      (if i < n then (TI_OK, p\<lparr>ClsfrTable := clsfr_shift ty n i (ClsfrTable p),
                         uNumActiveEntries := uNumActiveEntries p - 1\<rparr>)
       else (PARAM_VALUE_NOT_VALID, p))"
    using D tab S by (auto simp: txDataClsfr_RemoveClsfrEntry_def Let_def n_def [symmetric] ty_def [symmetric]
        i_def [symmetric])
  show "st = TI_OK \<longleftrightarrow> clsfr_kd (eClsfrType p) e \<in> set (clsfr_entries p)"
    using assms(2) found unfolding run by (auto simp: x_def ty_def es_def split: if_splits)
  show "p' = p \<and> st = PARAM_VALUE_NOT_VALID" if "st \<noteq> TI_OK"
    using assms(2) that unfolding run by (auto split: if_splits)
  assume "st = TI_OK"
  then have i: "i < n" and p': "p' = p\<lparr>ClsfrTable := clsfr_shift ty n i (ClsfrTable p),
      uNumActiveEntries := uNumActiveEntries p - 1\<rparr>"
    using assms(2) unfolding run by (auto split: if_splits)
  have n1: "unat (uNumActiveEntries p - 1) = n - 1"
    using i by (metis n_def unat_minus_one_pos unat_0 not_less_zero)
  have ent: "clsfr_entries p' = take i es @ drop (i + 1) es"
    using clsfr_shift_entries [of n "ClsfrTable p" i ty] n i n1
    by (simp add: clsfr_entries_def p' n_def [symmetric] ty_def [symmetric] es_def)
  moreover have "remove1 x es = take i es @ drop (i + 1) es"
  proof -
    have "es ! i = x" using S i es(2) by auto
    then have split: "es = take i es @ x # drop (Suc i) es"
      using i es(1) by (metis id_take_nth_drop)
    have "x \<notin> set (take i es)"
      using S es i by (auto simp: in_set_conv_nth)
    then show ?thesis by (subst split) (simp add: remove1_append)
  qed
  ultimately have rem: "clsfr_entries p' = remove1 x es" by simp
  have "distinct (map fst (take i es @ drop (i + 1) es))"
  proof -
    have "distinct (map fst es)" using assms(1) by (simp add: clsfr_inv_def es_def)
    then have "distinct (map fst (take i es @ es ! i # drop (Suc i) es))"
      using i es(1) by (metis id_take_nth_drop)
    then show ?thesis by auto
  qed
  then have "clsfr_inv p'"
    using assms(1) n1 n ent D i by (auto simp: clsfr_inv_def p' NUM_OF_CLSFR_TABLE_ENTRIES_def ty_def [symmetric] n_def [symmetric])
  with rem show "clsfr_entries p' = remove1 (clsfr_kd (eClsfrType p) e) (clsfr_entries p) \<and>
      eClsfrType p' = eClsfrType p \<and> clsfr_inv p'"
    by (simp add: p' x_def es_def ty_def)
qed

section \<open>Configuration and the states the driver reaches\<close>

lemma clsfr_Config_entries:
  assumes "length (ClsfrTable p) = NUM_OF_CLSFR_TABLE_ENTRIES" "txDataClsfr_Config p init = (st, p')"
  shows "st = TI_OK" "clsfr_inv p'"
proof -
  define n where "n = min (unat (uNumActiveEntries init)) 16"
  have n16: "unat (if unat (uNumActiveEntries init) \<le> NUM_OF_CLSFR_TABLE_ENTRIES
       then uNumActiveEntries init else of_nat NUM_OF_CLSFR_TABLE_ENTRIES) = n"
    by (simp add: n_def NUM_OF_CLSFR_TABLE_ENTRIES_def)
  show "st = TI_OK"
    using assms(2) by (auto simp: txDataClsfr_Config_def Let_def split: if_splits prod.splits)
  show "clsfr_inv p'"
  proof (cases "clsfr_is_table (eClsfrType init)")
    case True
    obtain c tbl where f: "clsfr_fill (eClsfrType init) (ClsfrTable init) n 0 0 (ClsfrTable p) = (c, tbl)"
      by (cases "clsfr_fill (eClsfrType init) (ClsfrTable init) n 0 0 (ClsfrTable p)")
    have S: "length tbl = 16" "c \<le> n" "distinct (map (clsfr_key (eClsfrType init)) (take c tbl))"
      using clsfr_fill_spec [OF _ _ _ _ _ f] assms(1) by (simp_all add: n_def NUM_OF_CLSFR_TABLE_ENTRIES_def)
    have ne: "eClsfrType init \<noteq> D_TAG_CLSFR" "eClsfrType init \<le> CLSFR_TYPE_MAX"
      using True by (auto simp: clsfr_is_table_def DSCP_CLSFR_def PORT_CLSFR_def IPPORT_CLSFR_def D_TAG_CLSFR_def
          CLSFR_TYPE_MAX_def)
    have p': "p' = p\<lparr>eClsfrType := eClsfrType init, ClsfrTable := tbl, uNumActiveEntries := of_nat c\<rparr>"
      using assms(2) ne(1) True f n16
      by (simp add: txDataClsfr_Config_def Let_def split: prod.splits)
    have c: "unat (of_nat c :: u32) = c" using S(2) by (simp add: n_def unat_of_nat)
    have "map fst (clsfr_entries p') = map (clsfr_key (eClsfrType init)) (take c tbl)"
      by (simp add: clsfr_entries_def p' c clsfr_kd_def)
    then show ?thesis using S ne c by (simp add: clsfr_inv_def p' NUM_OF_CLSFR_TABLE_ENTRIES_def n_def)
  next
    case False
    then have "eClsfrType p' = D_TAG_CLSFR" "uNumActiveEntries p' = 0" "ClsfrTable p' = ClsfrTable p"
      using assms(2) by (auto simp: txDataClsfr_Config_def Let_def split: if_splits)
    then show ?thesis using assms(1) by (simp add: clsfr_inv_def clsfr_entries_def D_TAG_CLSFR_def)
  qed
qed

text \<open>The states after configuration, under any sequence of operations.\<close>

inductive clsfr_reach :: "TClsfrParams \<Rightarrow> bool" where
  config: "length (ClsfrTable p) = NUM_OF_CLSFR_TABLE_ENTRIES \<Longrightarrow> txDataClsfr_Config p init = (st, p') \<Longrightarrow>
     clsfr_reach p'"
| insert: "clsfr_reach p \<Longrightarrow> txDataClsfr_InsertClsfrEntry p e = (st, p') \<Longrightarrow> clsfr_reach p'"
| remove: "clsfr_reach p \<Longrightarrow> txDataClsfr_RemoveClsfrEntry p e = (st, p') \<Longrightarrow> clsfr_reach p'"
| set_type: "clsfr_reach p \<Longrightarrow> txDataClsfr_SetClsfrType p ty = (st, p') \<Longrightarrow> clsfr_reach p'"

lemma clsfr_reach_inv: "clsfr_reach p \<Longrightarrow> clsfr_inv p"
proof (induction rule: clsfr_reach.induct)
  case (config p init st p')
  then show ?case by (rule clsfr_Config_entries(2))
next
  case (insert p e st p')
  show ?case
  proof (cases e)
    case (Some x)
    then show ?thesis using insert clsfr_Insert_entries [of p x st p'] by (cases "st = TI_OK") auto
  qed (use insert in \<open>simp add: txDataClsfr_InsertClsfrEntry_def\<close>)
next
  case (remove p e st p')
  show ?case
  proof (cases e)
    case (Some x)
    then show ?thesis using remove clsfr_Remove_entries [of p x st p'] by (cases "st = TI_OK") auto
  qed (use remove in \<open>simp add: txDataClsfr_RemoveClsfrEntry_def\<close>)
next
  case (set_type p ty st p')
  then show ?case
    by (auto simp: txDataClsfr_SetClsfrType_def clsfr_inv_def clsfr_entries_def split: if_splits)
qed

section \<open>Properties\<close>

text \<open>C38: In every state after configuration the table has at most 16 active entries, no two of them
  with the same key, none under the D-tag classifier, and the classifier type is a known one.\<close>

theorem clsfr_reach_invariant:
  assumes "clsfr_reach p"
  shows "length (ClsfrTable p) = 16 \<and> unat (uNumActiveEntries p) \<le> 16 \<and> eClsfrType p \<le> CLSFR_TYPE_MAX \<and>
    (eClsfrType p = D_TAG_CLSFR \<longrightarrow> uNumActiveEntries p = 0) \<and> distinct (map fst (clsfr_entries p))"
  using clsfr_reach_inv [OF assms] by (simp add: clsfr_inv_def NUM_OF_CLSFR_TABLE_ENTRIES_def)

text \<open>C37: Inserting and removing entries are insertion and deletion in a finite map of at most 16 keys:
  an insertion succeeds exactly for a valid entry with a new key while there is room, a removal exactly
  when the key has that TID, the map changes at that key only, and a refused call changes nothing.\<close>

theorem clsfr_table_refines_map:
  assumes "clsfr_inv p" "k = clsfr_key (eClsfrType p) e" "M = map_of (clsfr_entries p)"
    and "txDataClsfr_InsertClsfrEntry p (Some e) = (st1, p1)"
    and "txDataClsfr_RemoveClsfrEntry p (Some e) = (st2, p2)"
  shows "(if clsfr_is_table (eClsfrType p) \<and> \<not> clsfr_bad_entry (eClsfrType p) e \<and> card (dom M) < 16 \<and> M k = None
      then st1 = TI_OK \<and> map_of (clsfr_entries p1) = M(k \<mapsto> DTag e)
      else st1 = PARAM_VALUE_NOT_VALID \<and> p1 = p) \<and>
    (if M k = Some (DTag e)
      then st2 = TI_OK \<and> map_of (clsfr_entries p2) = M(k := None)
      else st2 = PARAM_VALUE_NOT_VALID \<and> p2 = p)"
proof -
  define es where "es = clsfr_entries p"
  have dist: "distinct (map fst es)" using assms(1) by (simp add: clsfr_inv_def es_def)
  have kd: "clsfr_kd (eClsfrType p) e = (k, DTag e)" by (simp add: clsfr_kd_def assms(2))
  have card: "card (dom M) = length es"
    using distinct_card [OF dist] by (simp add: assms(3) es_def [symmetric] dom_map_of_conv_image_fst)
  have Mk: "M k = None \<longleftrightarrow> k \<notin> fst ` set es"
    by (simp add: assms(3) es_def [symmetric] map_of_eq_None_iff)
  have Md: "M k = Some (DTag e) \<longleftrightarrow> (k, DTag e) \<in> set es"
    using map_of_eq_Some_iff [OF dist] by (simp add: assms(3) es_def)
  note I = clsfr_Insert_entries [OF assms(1,4), folded es_def assms(2), unfolded kd]
  note R = clsfr_Remove_entries [OF assms(1,5), folded es_def, unfolded kd]
  have ins: "map_of (es @ [(k, d)]) = M(k \<mapsto> d)" if "k \<notin> fst ` set es" for d
  proof -
    have "map_of es k = None" using that by (simp add: map_of_eq_None_iff)
    then show ?thesis unfolding assms(3) es_def [symmetric]
      by (intro ext) (auto simp: map_add_def split: option.splits)
  qed
  have del: "map_of (remove1 (k, d) es) = M(k := None)" if "(k, d) \<in> set es" for d
  proof -
    have split: "remove1 (k, d) es = filter (\<lambda>x. fst x \<noteq> k) es"
      using dist that
    proof (induction es)
      case (Cons y ys)
      show ?case
      proof (cases "y = (k, d)")
        case True
        then have "filter (\<lambda>x. fst x \<noteq> k) ys = ys"
          using Cons.prems(1) by (intro filter_True) (auto simp: image_iff)
        then show ?thesis using True by simp
      next
        case False
        then have "fst y \<noteq> k" using Cons.prems by (auto simp: image_iff)
        then show ?thesis using Cons False by simp
      qed
    qed simp
    show ?thesis unfolding split assms(3) es_def [symmetric]
      by (rule ext) (induction es; auto)
  qed
  show ?thesis
  proof (rule conjI)
    show "if clsfr_is_table (eClsfrType p) \<and> \<not> clsfr_bad_entry (eClsfrType p) e \<and> card (dom M) < 16 \<and> M k = None
      then st1 = TI_OK \<and> map_of (clsfr_entries p1) = M(k \<mapsto> DTag e)
      else st1 = PARAM_VALUE_NOT_VALID \<and> p1 = p"
      using I ins by (simp add: card Mk NUM_OF_CLSFR_TABLE_ENTRIES_def)
    show "if M k = Some (DTag e)
      then st2 = TI_OK \<and> map_of (clsfr_entries p2) = M(k := None)
      else st2 = PARAM_VALUE_NOT_VALID \<and> p2 = p"
      using R del by (simp add: Md)
  qed
qed

text \<open>Configuration with valid table contents (at most 16 entries, no two with the same key) installs
  exactly these entries, in their order, whatever was in the table before.\<close>

theorem txDataClsfr_Config_installs:
  assumes "length (ClsfrTable p) = NUM_OF_CLSFR_TABLE_ENTRIES" "length (ClsfrTable init) = NUM_OF_CLSFR_TABLE_ENTRIES"
    and "unat (uNumActiveEntries init) \<le> NUM_OF_CLSFR_TABLE_ENTRIES" "clsfr_is_table (eClsfrType init)"
    and "distinct (map fst (clsfr_entries init))"
  shows "\<exists>p'. txDataClsfr_Config p init = (TI_OK, p') \<and> eClsfrType p' = eClsfrType init \<and>
    clsfr_entries p' = clsfr_entries init"
proof -
  define n where "n = unat (uNumActiveEntries init)"
  define ty where "ty = eClsfrType init"
  have ne: "ty \<noteq> D_TAG_CLSFR" using assms(4) by (auto simp: ty_def)
  obtain c tbl where f: "clsfr_fill ty (ClsfrTable init) n 0 0 (ClsfrTable p) = (c, tbl)"
    by (cases "clsfr_fill ty (ClsfrTable init) n 0 0 (ClsfrTable p)")
  have "distinct (map (clsfr_key ty) (take n (ClsfrTable init)))"
    using assms(5) by (simp add: clsfr_entries_def clsfr_kd_def n_def ty_def comp_def)
  then have S: "c = n" "map (clsfr_kd ty) (take n tbl) = map (clsfr_kd ty) (take n (ClsfrTable init))"
    using clsfr_fill_all [OF _ _ _ _ _ _ f] assms(1-3)
    by (simp_all add: NUM_OF_CLSFR_TABLE_ENTRIES_def n_def)
  define p' where "p' = p\<lparr>eClsfrType := ty, ClsfrTable := tbl, uNumActiveEntries := of_nat n\<rparr>"
  have "txDataClsfr_Config p init = (TI_OK, p')"
    using f ne assms(3,4) S(1)
    by (simp add: txDataClsfr_Config_def Let_def n_def [symmetric] ty_def [symmetric] p'_def)
  moreover have "clsfr_entries p' = clsfr_entries init"
    using S(2) by (simp add: clsfr_entries_def p'_def n_def ty_def)
  ultimately show ?thesis by (simp add: p'_def ty_def)
qed

text \<open>The key of a packet, from its headers.\<close>

definition clsfr_pkt_key :: "(addr \<Rightarrow> u8) \<Rightarrow> u32 \<Rightarrow> addr \<Rightarrow> addr \<Rightarrow> u32 \<times> u16" where
  "clsfr_pkt_key mem ty pIp pUdp =
     (if ty = DSCP_CLSFR then (ucast (drop_bit 2 (mem (pIp + 1))), 0)
      else if ty = PORT_CLSFR then (ucast (load16_net mem (pUdp + 2)), 0)
      else (load32 mem (pIp + 16), load16_net mem (pUdp + 2)))"

lemma clsfr_Classify_lookup:
  assumes "clsfr_inv p" "clsfr_is_table (eClsfrType p)"
    and "getIpAndUdpHeader mem (clsfr_set_tid 0 blk) = Inr (Some (pIp, pUdp))" "pUdp \<noteq> 0"
  shows "txDataClsfr_ClassifyTxPacket mem p blk uPacketDtag = Inr (TI_OK, clsfr_set_tid
    (case map_of (clsfr_entries p) (clsfr_pkt_key mem (eClsfrType p) pIp pUdp) of None \<Rightarrow> 0 | Some t \<Rightarrow> t) blk)"
proof -
  define ty where "ty = eClsfrType p"
  define k where "k = clsfr_pkt_key mem ty pIp pUdp"
  have ne: "ty \<noteq> D_TAG_CLSFR" using assms(2) by (auto simp: ty_def)
  have types: "DSCP_CLSFR \<noteq> PORT_CLSFR" "DSCP_CLSFR \<noteq> IPPORT_CLSFR" "PORT_CLSFR \<noteq> IPPORT_CLSFR"
    by (simp_all add: DSCP_CLSFR_def PORT_CLSFR_def IPPORT_CLSFR_def)
  have "txDataClsfr_ClassifyTxPacket mem p blk uPacketDtag =
      Inr (TI_OK, clsfr_lookup p (\<lambda>e. clsfr_key ty e = k) (clsfr_set_tid 0 blk))"
    using assms(2-4) ne types
    by (auto simp: txDataClsfr_ClassifyTxPacket_def Let_def ty_def k_def clsfr_pkt_key_def clsfr_key_def
        clsfr_is_table_def)
  moreover have "clsfr_lookup p (\<lambda>e. clsfr_key ty e = k) (clsfr_set_tid 0 blk) =
      clsfr_set_tid (case map_of (clsfr_entries p) k of None \<Rightarrow> 0 | Some t \<Rightarrow> t) blk"
    using clsfr_scan_map_of [of "unat (uNumActiveEntries p)" "ClsfrTable p" ty k] assms(1)
    by (auto simp: clsfr_lookup_def Let_def clsfr_entries_def ty_def clsfr_inv_def clsfr_set_tid_def split: if_splits)
  ultimately show ?thesis by (simp add: k_def ty_def)
qed

lemma getIp_set_tid [simp]: "getIpAndUdpHeader mem (clsfr_set_tid t blk) = getIpAndUdpHeader mem blk"
  by (simp add: getIpAndUdpHeader_def clsfr_set_tid_def Let_def)

text \<open>An IP packet with an UDP header gets the TID the table maps its key to (its DSCP, its UDP port,
  or its IP address and port, as the classifier type says), and TID 0 when the key is not in the table.\<close>

theorem txDataClsfr_Classify_is_lookup:
  assumes "clsfr_inv p" "clsfr_is_table (eClsfrType p)"
    and "getIpAndUdpHeader mem blk = Inr (Some (pIp, pUdp))" "pUdp \<noteq> 0"
  shows "txDataClsfr_ClassifyTxPacket mem p blk uPacketDtag = Inr (TI_OK, clsfr_set_tid
    (case map_of (clsfr_entries p) (clsfr_pkt_key mem (eClsfrType p) pIp pUdp) of None \<Rightarrow> 0 | Some t \<Rightarrow> t) blk)"
  by (rule clsfr_Classify_lookup [OF assms(1,2) _ assms(4)]) (simp add: assms(3))

text \<open>A successful insertion makes the classifier give the entry's TID to the packets with its key
  and nothing else changes for other packets; removing the entry again restores the entries, and the
  packets get TID 0.\<close>

theorem txDataClsfr_insert_classify_remove:
  assumes "clsfr_inv p" "txDataClsfr_InsertClsfrEntry p (Some e) = (TI_OK, p1)"
    and "txDataClsfr_RemoveClsfrEntry p1 (Some e) = (st, p2)"
    and "getIpAndUdpHeader mem blk = Inr (Some (pIp, pUdp))" "pUdp \<noteq> 0"
    and "k = clsfr_pkt_key mem (eClsfrType p) pIp pUdp"
  shows "txDataClsfr_ClassifyTxPacket mem p1 blk d =
      (if k = clsfr_key (eClsfrType p) e then Inr (TI_OK, clsfr_set_tid (DTag e) blk)
       else txDataClsfr_ClassifyTxPacket mem p blk d) \<and>
    st = TI_OK \<and> clsfr_entries p2 = clsfr_entries p \<and>
    (k = clsfr_key (eClsfrType p) e \<longrightarrow>
      txDataClsfr_ClassifyTxPacket mem p2 blk d = Inr (TI_OK, clsfr_set_tid 0 blk))"
proof -
  define es where "es = clsfr_entries p"
  note I = clsfr_Insert_entries [OF assms(1,2)]
  have tab: "clsfr_is_table (eClsfrType p)" and new: "clsfr_key (eClsfrType p) e \<notin> fst ` set es"
    using I(1) by (simp_all add: es_def)
  have p1: "clsfr_entries p1 = es @ [clsfr_kd (eClsfrType p) e]" "eClsfrType p1 = eClsfrType p" "clsfr_inv p1"
    using I(3) by (simp_all add: es_def)
  note R = clsfr_Remove_entries [OF p1(3) assms(3)]
  have st: "st = TI_OK" using R(1) p1(1,2) by simp
  have "clsfr_kd (eClsfrType p) e \<notin> set es" using new by (force simp: clsfr_kd_def)
  then have p2: "clsfr_entries p2 = es" "eClsfrType p2 = eClsfrType p" "clsfr_inv p2"
    using R(3) st p1(1,2) by (simp_all add: remove1_append)
  have C: "txDataClsfr_ClassifyTxPacket mem p' blk d = Inr (TI_OK, clsfr_set_tid
      (case map_of (clsfr_entries p') k of None \<Rightarrow> 0 | Some t \<Rightarrow> t) blk)"
    if "clsfr_inv p'" "eClsfrType p' = eClsfrType p" for p'
    using clsfr_Classify_lookup [OF that(1), of mem blk pIp pUdp] that(2) tab assms(4,5,6) by simp
  have none: "k = clsfr_key (eClsfrType p) e \<Longrightarrow> map_of es k = None"
    using new by (simp add: map_of_eq_None_iff)
  have p1k: "map_of (clsfr_entries p1) k = (if k = clsfr_key (eClsfrType p) e then Some (DTag e) else map_of es k)"
    using none by (auto simp: p1(1) clsfr_kd_def map_add_def split: option.splits)
  show ?thesis
    using C [OF p1(3,2)] C [OF assms(1) refl] C [OF p2(3,2)] p1k none st p2(1) by (simp add: es_def)
qed

section \<open>Concrete instances and edge cases\<close>

definition clsfr_demo_entry :: "u32 \<Rightarrow> u8 \<Rightarrow> TClsfrTableEntry" where
  "clsfr_demo_entry v d = \<lparr>DstIPAddress = v, IPPort_DstPortNum = 0, DTag = d\<rparr>"

definition clsfr_demo_zero :: TClsfrParams where
  "clsfr_demo_zero = \<lparr>eClsfrType = 0, uNumActiveEntries = 0, ClsfrTable = replicate 16 (clsfr_demo_entry 0 0)\<rparr>"

definition clsfr_demo_init :: "(u32 \<times> u8) list \<Rightarrow> TClsfrParams" where
  "clsfr_demo_init xs = \<lparr>eClsfrType = DSCP_CLSFR, uNumActiveEntries = of_nat (length xs),
     ClsfrTable = map (\<lambda>(v, d). clsfr_demo_entry v d) xs @ replicate (16 - length xs) (clsfr_demo_entry 0 0)\<rparr>"

definition clsfr_demo :: TClsfrParams where
  "clsfr_demo = snd (txDataClsfr_Config clsfr_demo_zero (clsfr_demo_init [(46, 6), (10, 1)]))"

text \<open>A packet with headers at addresses 100, 200 (20 bytes) and 300; DSCP 46.\<close>

definition clsfr_demo_mem :: "addr \<Rightarrow> u8" where
  "clsfr_demo_mem a = (if a = 112 then 8 else if a = 200 then 0x45 else if a = 201 then 184 else 0)"

definition clsfr_demo_blk :: TTxCtrlBlk where
  "clsfr_demo_blk = TTxCtrlBlk_zero\<lparr>tTxnStruct := TTxnStruct_zero\<lparr>aBuf := [100, 200, 300, 0], aLen := [14, 20, 0, 0]\<rparr>\<rparr>"

lemma clsfr_demo_reach: "clsfr_reach clsfr_demo" "clsfr_inv clsfr_demo"
proof -
  have "txDataClsfr_Config clsfr_demo_zero (clsfr_demo_init [(46, 6), (10, 1)]) =
      (fst (txDataClsfr_Config clsfr_demo_zero (clsfr_demo_init [(46, 6), (10, 1)])), clsfr_demo)"
    by (simp add: clsfr_demo_def)
  then show 1: "clsfr_reach clsfr_demo"
    by (rule clsfr_reach.config [rotated]) (simp add: clsfr_demo_zero_def NUM_OF_CLSFR_TABLE_ENTRIES_def)
  show "clsfr_inv clsfr_demo" by (rule clsfr_reach_inv [OF 1])
qed

lemma clsfr_demo_state: "eClsfrType clsfr_demo = DSCP_CLSFR" "clsfr_entries clsfr_demo = [((46, 0), 6), ((10, 0), 1)]"
  by code_simp+

lemma clsfr_demo_pkt:
  "getIpAndUdpHeader clsfr_demo_mem clsfr_demo_blk = Inr (Some (200, 300))"
  "clsfr_pkt_key clsfr_demo_mem DSCP_CLSFR 200 300 = (46, 0)"
  by code_simp+

theorem clsfr_reach_invariant_witness: "distinct (map fst (clsfr_entries clsfr_demo))"
  using clsfr_reach_invariant [OF clsfr_demo_reach(1)] by simp

theorem clsfr_table_refines_map_witness:
  "fst (txDataClsfr_InsertClsfrEntry clsfr_demo (Some (clsfr_demo_entry 20 3))) = TI_OK \<and>
   fst (txDataClsfr_RemoveClsfrEntry clsfr_demo (Some (clsfr_demo_entry 20 3))) = PARAM_VALUE_NOT_VALID"
proof -
  have v: "clsfr_is_table (eClsfrType clsfr_demo)" "\<not> clsfr_bad_entry (eClsfrType clsfr_demo) (clsfr_demo_entry 20 3)"
      "clsfr_key (eClsfrType clsfr_demo) (clsfr_demo_entry 20 3) = (20, 0)"
    by code_simp+
  have d: "dom (map_of (clsfr_entries clsfr_demo)) = {(46, 0), (10, 0)}"
      "map_of (clsfr_entries clsfr_demo) (20, 0) = None"
    unfolding clsfr_demo_state by (auto split: if_splits)
  show ?thesis
    using clsfr_table_refines_map [OF clsfr_demo_reach(2) refl refl prod.collapse [symmetric] prod.collapse [symmetric],
        of "clsfr_demo_entry 20 3"] v d
    by simp
qed

theorem txDataClsfr_Config_installs_witness:
  "\<exists>p'. txDataClsfr_Config clsfr_demo_zero (clsfr_demo_init [(46, 6), (10, 1)]) = (TI_OK, p') \<and>
    eClsfrType p' = eClsfrType (clsfr_demo_init [(46, 6), (10, 1)]) \<and>
    clsfr_entries p' = clsfr_entries (clsfr_demo_init [(46, 6), (10, 1)])"
  by (rule txDataClsfr_Config_installs; code_simp)

theorem txDataClsfr_Classify_is_lookup_witness:
  "txDataClsfr_ClassifyTxPacket clsfr_demo_mem clsfr_demo clsfr_demo_blk 0 = Inr (TI_OK, clsfr_set_tid 6 clsfr_demo_blk)"
  using txDataClsfr_Classify_is_lookup [OF clsfr_demo_reach(2) _ clsfr_demo_pkt(1)] clsfr_demo_state clsfr_demo_pkt(2)
  by (simp add: clsfr_is_table_def)

theorem txDataClsfr_insert_classify_remove_witness:
  "txDataClsfr_ClassifyTxPacket clsfr_demo_mem
     (snd (txDataClsfr_InsertClsfrEntry (snd (txDataClsfr_Config clsfr_demo_zero (clsfr_demo_init [(10, 1)])))
        (Some (clsfr_demo_entry 46 5)))) clsfr_demo_blk 0 = Inr (TI_OK, clsfr_set_tid 5 clsfr_demo_blk)"
proof -
  define p where "p = snd (txDataClsfr_Config clsfr_demo_zero (clsfr_demo_init [(10, 1)]))"
  have l: "length (ClsfrTable clsfr_demo_zero) = NUM_OF_CLSFR_TABLE_ENTRIES" by code_simp
  have inv: "clsfr_inv p"
    unfolding p_def by (rule clsfr_Config_entries(2) [OF l prod.collapse [symmetric]])
  have st: "fst (txDataClsfr_InsertClsfrEntry p (Some (clsfr_demo_entry 46 5))) = TI_OK"
      "eClsfrType p = DSCP_CLSFR" "clsfr_key DSCP_CLSFR (clsfr_demo_entry 46 5) = (46, 0)"
    unfolding p_def by code_simp+
  then have i: "txDataClsfr_InsertClsfrEntry p (Some (clsfr_demo_entry 46 5)) =
      (TI_OK, snd (txDataClsfr_InsertClsfrEntry p (Some (clsfr_demo_entry 46 5))))"
    by (simp add: prod_eq_iff)
  show ?thesis
    using txDataClsfr_insert_classify_remove [OF inv i prod.collapse [symmetric] clsfr_demo_pkt(1) _ refl, of 0]
      st(2,3) clsfr_demo_pkt(2) by (simp add: p_def clsfr_demo_entry_def)
qed

text \<open>The configuration compares new entries with all positions before theirs, also those a dropped
  duplicate left unused: a valid entry is dropped when its key equals old contents there.\<close>

lemma txDataClsfr_Config_stale:
  "clsfr_entries (snd (txDataClsfr_Config clsfr_demo_zero (clsfr_demo_init [(5, 1), (5, 1), (0, 2)]))) = [((5, 0), 1)]"
  by code_simp

text \<open>The D-tag classifier lets the priority 8 through, although there are only the TIDs 0 to 7.\<close>

lemma txDataClsfr_dtag_eight:
  "eClsfrType p = D_TAG_CLSFR \<Longrightarrow> txDataClsfr_ClassifyTxPacket mem p blk 8 = Inr (TI_OK, clsfr_set_tid 8 blk)"
  by (simp add: txDataClsfr_ClassifyTxPacket_def MAX_NUM_OF_802_1d_TAGS_def clsfr_set_tid_def)

end
