(* ===== verification/CmdMBox.thy ===== *)
theory CmdMBox
  imports TxnTypes
begin

unbundle bit_operations_syntax

text \<open>
  \<open>TWD/FW_Transfer/CmdMBox.c\<close>: the host's side of the firmware's command mailbox. A command
  is copied into the module's own buffer and written to the mailbox, a register write triggers the
  firmware, and a timer guards the answer. This theory has the mailbox's state and the operations
  that stay inside it; those that call the command queue above it (\<open>cmdMbox_CommandComplete\<close>,
  \<open>cmdMbox_TransferComplete\<close>, \<open>cmdMbox_TimeOut\<close>) are in theory \<open>CmdQueue\<close>. What TwIf and the timer
  module are asked to do, and the calls out of the driver, are recorded in \<open>mb_trace\<close>; the bytes
  that the bus delivers are a parameter (\<open>resp\<close>).
\<close>

section \<open>Firmware interface\<close>

text \<open>A \<open>TI_STATUS\<close> is a 32 bit number here, because the code mixes the values of both kinds.\<close>

definition ti_rc :: "ti_status \<Rightarrow> u32" where
  "ti_rc s = (case s of TI_OK \<Rightarrow> 0 | TI_NOK \<Rightarrow> 1 | PARAM_VALUE_NOT_VALID \<Rightarrow> 3)"

definition txn_rc :: "ETxnStatus \<Rightarrow> u32" where
  "txn_rc s = (case s of TXN_STATUS_NONE \<Rightarrow> 2 | TXN_STATUS_OK \<Rightarrow> 3 | TXN_STATUS_COMPLETE \<Rightarrow> 4
     | TXN_STATUS_PENDING \<Rightarrow> 5 | TXN_STATUS_ERROR \<Rightarrow> 6)"

definition CMD_INTERROGATE :: u16 where "CMD_INTERROGATE = 1"
definition CMD_CONFIGURE :: u16 where "CMD_CONFIGURE = 2"
definition CMD_TEST :: u16 where "CMD_TEST = 23"

definition CMD_STATUS_SUCCESS :: u16 where "CMD_STATUS_SUCCESS = 1"
definition CMD_STATUS_UNKNOWN_CMD :: u16 where "CMD_STATUS_UNKNOWN_CMD = 2"
definition CMD_STATUS_UNKNOWN_IE :: u16 where "CMD_STATUS_UNKNOWN_IE = 3"
definition CMD_STATUS_REJECT_MEAS_SG_ACTIVE :: u16 where "CMD_STATUS_REJECT_MEAS_SG_ACTIVE = 11"
definition CMD_STATUS_TIMEOUT :: u16 where "CMD_STATUS_TIMEOUT = 21"
definition CMD_STATUS_FW_RESET :: u16 where "CMD_STATUS_FW_RESET = 22"

definition MAX_CMD_PARAMS :: nat where "MAX_CMD_PARAMS = 610"
definition CMDMBOX_WAIT_TIMEOUT :: u32 where "CMDMBOX_WAIT_TIMEOUT = 15000"
definition CMDMBOX_HEADER_LEN :: u32 where "CMDMBOX_HEADER_LEN = 4"
definition REGISTER_SIZE :: u32 where "REGISTER_SIZE = 4"
definition INTR_TRIG_CMD :: u32 where "INTR_TRIG_CMD = 1"
definition REGISTERS_BASE :: u32 where "REGISTERS_BASE = 0x00300000"
definition ACX_REG_INTERRUPT_TRIG :: u32 where "ACX_REG_INTERRUPT_TRIG = REGISTERS_BASE + 0x0474"
definition REG_COMMAND_MAILBOX_PTR :: u32 where "REG_COMMAND_MAILBOX_PTR = REGISTERS_BASE + 0x5608"

record Command_t =
  cmdID :: u16
  cmdStatus :: u16
  parameters :: "u8 list"

definition Command_t_zero :: Command_t where
  "Command_t_zero = \<lparr>cmdID = 0, cmdStatus = 0, parameters = replicate MAX_CMD_PARAMS 0\<rparr>"

text \<open>The structure as the bytes the bus moves, little endian.\<close>

definition u16_bytes :: "u16 \<Rightarrow> u8 list" where
  "u16_bytes w = [ucast w, ucast (drop_bit 8 w)]"

definition u16_of_bytes :: "u8 \<Rightarrow> u8 \<Rightarrow> u16" where
  "u16_of_bytes lo hi = ucast lo OR push_bit 8 (ucast hi)"

definition Command_bytes :: "Command_t \<Rightarrow> u8 list" where
  "Command_bytes c = u16_bytes (cmdID c) @ u16_bytes (cmdStatus c) @ parameters c"

definition Command_of_bytes :: "u8 list \<Rightarrow> Command_t" where
  "Command_of_bytes bs = \<lparr>cmdID = u16_of_bytes (bs ! 0) (bs ! 1), cmdStatus = u16_of_bytes (bs ! 2) (bs ! 3),
     parameters = drop 4 bs\<rparr>"

section \<open>State\<close>

record TCmdTxn =
  ct_txn :: TTxnStruct
  ct_addr :: addr  \<comment> \<open>where \<open>tCmdMbox\<close> lies\<close>
  tCmdMbox :: Command_t

record TRegTxn =
  rt_txn :: TTxnStruct
  rt_addr :: addr  \<comment> \<open>where \<open>uRegister\<close> lies\<close>
  uRegister :: u32

text \<open>A written transaction is recorded with the bytes handed over. \<open>CmdQueued\<close> records that the
  command queue has taken a command, with its type and parameters; nothing reads it back.\<close>

datatype cmd_event =
    CmdQueued u16 "u8 list"
  | CmdWrite TTxnStruct "u8 list"
  | RegWrite TTxnStruct u32
  | CmdRead TTxnStruct
  | RegRead TTxnStruct
  | CmdTmrStart u32
  | CmdTmrStop
  | CmdTmrDestroy
  | TwIfAwake
  | TwIfSleep
  | CopyResult addr "u8 list"
  | CmdCb addr addr u16
  | InterrogateCb addr addr u16 addr
  | GenericCb addr addr u16 u16 u16
  | FailureCb addr addr u16
  | MboxNotifyCb addr addr u32

text \<open>\<open>aCmdTxn\<close> and \<open>aRegTxn\<close> have two entries, for the two directions; each has its own field.\<close>

record TCmdMbox =
  mb_self :: addr
  hCmdMboxTimer :: addr
  mb_fCb :: addr
  mb_hCb :: addr
  fErrorCb :: bool  \<comment> \<open>the only callback ever set is \<open>cmdQueue_Error\<close>\<close>
  aCmdTxn0 :: TCmdTxn
  aCmdTxn1 :: TCmdTxn
  aRegTxn0 :: TRegTxn
  aRegTxn1 :: TRegTxn
  bCmdInProgress :: bool
  uFwAddr :: u32
  uWriteLen :: u32
  uReadLen :: u32
  mb_trace :: "cmd_event list"

definition mb_emit :: "cmd_event \<Rightarrow> TCmdMbox \<Rightarrow> TCmdMbox" where
  "mb_emit e m = m\<lparr>mb_trace := mb_trace m @ [e]\<rparr>"

text \<open>The driver functions that are handed to TwIf, as their addresses.\<close>

definition fn_cmdMbox_TransferComplete :: addr where "fn_cmdMbox_TransferComplete = 1"
definition fn_cmdMbox_ConfigHwCb :: addr where "fn_cmdMbox_ConfigHwCb = 2"

text \<open>\<open>os_memoryCopy\<close> into a buffer of the module.\<close>

definition buf_copy :: "u8 list \<Rightarrow> u8 list \<Rightarrow> nat \<Rightarrow> fault + u8 list" where
  "buf_copy dst src n =
     (if n \<le> length dst \<and> n \<le> length src then Inr (take n src @ drop n dst) else Inl OutOfBounds)"

section \<open>Operations\<close>

text \<open>\<open>a\<close> is what \<open>os_memoryAlloc\<close> returned; \<open>bufs\<close> are the addresses of the four bus buffers.\<close>

definition cmdMbox_Create :: "addr \<Rightarrow> addr \<times> addr \<times> addr \<times> addr \<Rightarrow> TCmdMbox option" where
  "cmdMbox_Create a bufs =
     (if a = 0 then None
      else Some
       (case bufs of (c0, c1, r0, r1) \<Rightarrow>
        \<lparr>mb_self = a, hCmdMboxTimer = 0, mb_fCb = 0, mb_hCb = 0, fErrorCb = False,
         aCmdTxn0 = \<lparr>ct_txn = TTxnStruct_zero, ct_addr = c0, tCmdMbox = Command_t_zero\<rparr>,
         aCmdTxn1 = \<lparr>ct_txn = TTxnStruct_zero, ct_addr = c1, tCmdMbox = Command_t_zero\<rparr>,
         aRegTxn0 = \<lparr>rt_txn = TTxnStruct_zero, rt_addr = r0, uRegister = 0\<rparr>,
         aRegTxn1 = \<lparr>rt_txn = TTxnStruct_zero, rt_addr = r1, uRegister = 0\<rparr>,
         bCmdInProgress = False, uFwAddr = 0, uWriteLen = 0, uReadLen = 0, mb_trace = []\<rparr>))"

definition cmdMbox_Destroy :: "TCmdMbox \<Rightarrow> TCmdMbox" where
  "cmdMbox_Destroy m = (if hCmdMboxTimer m \<noteq> 0 then mb_emit CmdTmrDestroy m else m)"

text \<open>\<open>tmr\<close> is what \<open>tmr_CreateTimer\<close> returned.\<close>

definition cmdMbox_Init :: "addr \<Rightarrow> TCmdMbox \<Rightarrow> ti_status \<times> TCmdMbox" where
  "cmdMbox_Init tmr m =
     (if tmr = 0 then TI_NOK else TI_OK,
      m\<lparr>uFwAddr := 0, uReadLen := 0, uWriteLen := 0, bCmdInProgress := False, fErrorCb := True,
        hCmdMboxTimer := tmr\<rparr>)"

definition cmdMbox_align :: "u32 \<Rightarrow> u32" where
  "cmdMbox_align len = (if len AND 0x3 \<noteq> 0 then (len + 4) AND 0xFFFFFFFC else len)"

definition cmdMbox_SendCommand ::
  "u16 \<Rightarrow> u8 list \<Rightarrow> u32 \<Rightarrow> u32 \<Rightarrow> TCmdMbox \<Rightarrow> fault + u32 \<times> TCmdMbox" where
  "cmdMbox_SendCommand cmdType pParamsBuf writeLen readLen m =
     (if bCmdInProgress m then Inr (ti_rc TI_NOK, m)
      else
        (case buf_copy (parameters (tCmdMbox (aCmdTxn0 m))) pParamsBuf (unat writeLen) of
           Inl f \<Rightarrow> Inl f
         | Inr ps \<Rightarrow>
             (let cmd = \<lparr>cmdID = cmdType, cmdStatus = CMD_STATUS_SUCCESS, parameters = ps\<rparr>;
                  wlen = cmdMbox_align (writeLen + CMDMBOX_HEADER_LEN);
                  pCmdTxn = BUILD_TTxnStruct
                    (TXN_PARAM_SET (ct_txn (aCmdTxn0 m)) TXN_LOW_PRIORITY TXN_FUNC_ID_WLAN
                      TXN_DIRECTION_WRITE TXN_INC_ADDR)
                    (uFwAddr m) (ct_addr (aCmdTxn0 m)) wlen 0 0;
                  pRegTxn = BUILD_TTxnStruct
                    (TXN_PARAM_SET (rt_txn (aRegTxn0 m)) TXN_LOW_PRIORITY TXN_FUNC_ID_WLAN
                      TXN_DIRECTION_WRITE TXN_INC_ADDR)
                    ACX_REG_INTERRUPT_TRIG (rt_addr (aRegTxn0 m)) REGISTER_SIZE 0 0;
                  m = m\<lparr>uReadLen := readLen + CMDMBOX_HEADER_LEN, uWriteLen := wlen,
                    bCmdInProgress := True,
                    aCmdTxn0 := (aCmdTxn0 m)\<lparr>ct_txn := pCmdTxn, tCmdMbox := cmd\<rparr>,
                    aRegTxn0 := (aRegTxn0 m)\<lparr>rt_txn := pRegTxn, uRegister := INTR_TRIG_CMD\<rparr>\<rparr>;
                  m = mb_emit (CmdWrite pCmdTxn (take (unat wlen) (Command_bytes cmd))) m;
                  m = mb_emit (CmdTmrStart CMDMBOX_WAIT_TIMEOUT) m
              in Inr (txn_rc TXN_STATUS_PENDING, mb_emit (RegWrite pRegTxn INTR_TRIG_CMD) m))))"

text \<open>The bus has delivered the transaction's bytes into the read buffer.\<close>

definition cmdMbox_BusRead :: "(nat \<Rightarrow> u8) \<Rightarrow> TCmdMbox \<Rightarrow> fault + TCmdMbox" where
  "cmdMbox_BusRead resp m =
     (let n = unat (aLen (ct_txn (aCmdTxn1 m)) ! 0) in
      case buf_copy (Command_bytes (tCmdMbox (aCmdTxn1 m))) (map resp [0..<n]) n of
        Inl f \<Rightarrow> Inl f
      | Inr bs \<Rightarrow> Inr (m\<lparr>aCmdTxn1 := (aCmdTxn1 m)\<lparr>tCmdMbox := Command_of_bytes bs\<rparr>\<rparr>))"

text \<open>The part of \<open>cmdMbox_CommandComplete\<close> before the bus is involved.\<close>

definition cmdMbox_StartRead :: "TCmdMbox \<Rightarrow> TCmdMbox" where
  "cmdMbox_StartRead m =
     (let m = mb_emit CmdTmrStop m;
          pCmdTxn = BUILD_TTxnStruct
            (TXN_PARAM_SET (ct_txn (aCmdTxn1 m)) TXN_LOW_PRIORITY TXN_FUNC_ID_WLAN
              TXN_DIRECTION_READ TXN_INC_ADDR)
            (uFwAddr m) (ct_addr (aCmdTxn1 m)) (uReadLen m) fn_cmdMbox_TransferComplete (mb_self m)
      in mb_emit (CmdRead pCmdTxn) (m\<lparr>aCmdTxn1 := (aCmdTxn1 m)\<lparr>ct_txn := pCmdTxn\<rparr>\<rparr>))"

text \<open>\<open>rc\<close> is what \<open>twIf_Transact\<close> returned; \<open>reg\<close> is the register's value, in the
  buffer when the read is complete.\<close>

definition cmdMbox_ConfigHw :: "addr \<Rightarrow> addr \<Rightarrow> ETxnStatus \<Rightarrow> u32 \<Rightarrow> TCmdMbox \<Rightarrow> ETxnStatus \<times> TCmdMbox" where
  "cmdMbox_ConfigHw fCb hCb rc reg m =
     (let m = m\<lparr>mb_fCb := fCb, mb_hCb := hCb\<rparr>;
          pRegTxn = BUILD_TTxnStruct
            (TXN_PARAM_SET (rt_txn (aRegTxn1 m)) TXN_LOW_PRIORITY TXN_FUNC_ID_WLAN
              TXN_DIRECTION_READ TXN_INC_ADDR)
            REG_COMMAND_MAILBOX_PTR (rt_addr (aRegTxn1 m)) REGISTER_SIZE fn_cmdMbox_ConfigHwCb (mb_self m);
          m = mb_emit (RegRead pRegTxn) (m\<lparr>aRegTxn1 := (aRegTxn1 m)\<lparr>rt_txn := pRegTxn\<rparr>\<rparr>)
      in (rc,
          if rc = TXN_STATUS_COMPLETE
          then m\<lparr>aRegTxn1 := (aRegTxn1 m)\<lparr>uRegister := reg\<rparr>, uFwAddr := reg\<rparr>
          else m))"

definition cmdMbox_ConfigHwCb :: "u32 \<Rightarrow> TCmdMbox \<Rightarrow> TCmdMbox" where
  "cmdMbox_ConfigHwCb reg m =
     mb_emit (MboxNotifyCb (mb_fCb m) (mb_hCb m) (ti_rc TI_OK))
       (m\<lparr>aRegTxn1 := (aRegTxn1 m)\<lparr>uRegister := reg\<rparr>, uFwAddr := reg\<rparr>)"

definition cmdMbox_Restart :: "TCmdMbox \<Rightarrow> TCmdMbox" where
  "cmdMbox_Restart m =
     (mb_emit CmdTmrStop m)\<lparr>bCmdInProgress := False, uReadLen := 0, uWriteLen := 0\<rparr>"

definition cmdMbox_GetStatus :: "TCmdMbox \<Rightarrow> ti_status \<times> u16" where
  "cmdMbox_GetStatus m =
     (let st = cmdStatus (tCmdMbox (aCmdTxn1 m)) in
      (if st = CMD_STATUS_SUCCESS then TI_OK else TI_NOK, st))"

definition cmdMbox_GetMboxAddress :: "TCmdMbox \<Rightarrow> u32" where
  "cmdMbox_GetMboxAddress m = uFwAddr m"

text \<open>The bytes copied into the caller's buffer.\<close>

definition cmdMbox_GetCmdParams :: "TCmdMbox \<Rightarrow> fault + u8 list" where
  "cmdMbox_GetCmdParams m =
     (let ps = parameters (tCmdMbox (aCmdTxn1 m)); n = unat (uReadLen m - CMDMBOX_HEADER_LEN) in
      if n \<le> length ps then Inr (take n ps) else Inl OutOfBounds)"

section \<open>Bytes and lengths\<close>

lemma u16_of_bytes_bytes [simp]: "u16_of_bytes (ucast (w :: u16)) (ucast (drop_bit 8 w)) = w"
  unfolding u16_of_bytes_def by (rule bit_word_eqI) (auto simp: bit_simps)

lemma length_u16_bytes [simp]: "length (u16_bytes w) = 2"
  by (simp add: u16_bytes_def)

lemma length_Command_bytes [simp]: "length (Command_bytes c) = 4 + length (parameters c)"
  by (simp add: Command_bytes_def)

lemma Command_of_bytes_bytes: "Command_of_bytes (Command_bytes c) = c"
  by (simp add: Command_bytes_def Command_of_bytes_def u16_bytes_def)

lemma buf_copy_Inr:
  "buf_copy dst src n = Inr r \<longleftrightarrow> n \<le> length dst \<and> n \<le> length src \<and> r = take n src @ drop n dst"
  by (auto simp: buf_copy_def)

lemma buf_copy_ok [simp]:
  "n \<le> length dst \<Longrightarrow> n \<le> length src \<Longrightarrow> buf_copy dst src n = Inr (take n src @ drop n dst)"
  by (simp add: buf_copy_def)

lemma and_not_3: "(w :: u32) AND 0xFFFFFFFC = push_bit 2 (drop_bit 2 w)"
proof -
  have "(0xFFFFFFFC :: u32) = NOT (mask 2)" by (simp add: mask_eq_exp_minus_1)
  moreover have "Suc (Suc (n - 2)) = n" if "2 \<le> n" for n :: nat using that by arith
  then have "w AND NOT (mask 2) = push_bit 2 (drop_bit 2 w)"
    by (intro bit_word_eqI) (auto simp: bit_simps not_less)
  ultimately show ?thesis by simp
qed

lemma unat_and_not_3: "unat ((w :: u32) AND 0xFFFFFFFC) = 4 * (unat w div 4)"
proof -
  have "4 * (unat w div 4) < 2 ^ 32" using unat_bound [of w] by simp
  then show ?thesis
    by (simp add: and_not_3 push_bit_eq_mult unat_word_ariths unat_drop_bit_eq drop_bit_eq_div mult.commute)
qed

lemma and_3_zero: "(w :: u32) AND 0x3 = 0 \<longleftrightarrow> unat w mod 4 = 0"
proof -
  have "w AND 3 = take_bit 2 w" by (simp only: take_bit_eq_mask mask_eq_exp_minus_1) simp
  then have "unat (w AND 3) = take_bit 2 (unat w)" by (simp only: unsigned_take_bit_eq)
  then have "unat (w AND 3) = unat w mod 4" by (simp add: take_bit_eq_mod)
  then show ?thesis by (metis unat_eq_zero)
qed

text \<open>The length that goes out: the next multiple of four.\<close>

lemma cmdMbox_align_unat:
  assumes "unat len < 2 ^ 31"
  shows "unat (cmdMbox_align len) = 4 * ((unat len + 3) div 4)"
proof (cases "unat len mod 4 = 0")
  case True
  then show ?thesis by (auto simp: cmdMbox_align_def and_3_zero)
next
  case False
  have "unat (len + 4) = unat len + 4" using assms by (subst unat_add_small) auto
  moreover have "4 * ((unat len + 4) div 4) = 4 * ((unat len + 3) div 4)" using False by presburger
  ultimately show ?thesis using False by (simp add: cmdMbox_align_def and_3_zero unat_and_not_3)
qed

section \<open>Sending\<close>

definition mbox_wf :: "TCmdMbox \<Rightarrow> bool" where
  "mbox_wf m \<longleftrightarrow> length (parameters (tCmdMbox (aCmdTxn0 m))) = MAX_CMD_PARAMS \<and>
     length (parameters (tCmdMbox (aCmdTxn1 m))) = MAX_CMD_PARAMS \<and>
     length (aLen (ct_txn (aCmdTxn0 m))) = MAX_XFER_BUFS \<and>
     length (aLen (ct_txn (aCmdTxn1 m))) = MAX_XFER_BUFS \<and>
     unat (aLen (ct_txn (aCmdTxn1 m)) ! 0) \<le> 4 + MAX_CMD_PARAMS \<and>
     unat (uReadLen m) \<le> 4 + MAX_CMD_PARAMS"

lemma Create_wf: "cmdMbox_Create a bufs = Some m \<Longrightarrow> mbox_wf m \<and> \<not> bCmdInProgress m"
  by (auto simp: cmdMbox_Create_def mbox_wf_def Command_t_zero_def TTxnStruct_zero_def MAX_XFER_BUFS_def
      split: if_splits prod.splits)

text \<open>What the bus write of a command carries.\<close>

definition cmd_carries :: "u16 \<Rightarrow> u8 list \<Rightarrow> u8 list \<Rightarrow> bool" where
  "cmd_carries cmdType payload bytes \<longleftrightarrow>
     take (4 + length payload) bytes = u16_bytes cmdType @ u16_bytes CMD_STATUS_SUCCESS @ payload"

lemma aLen_TXN_PARAM_SET [simp]: "aLen (TXN_PARAM_SET t p f d a) = aLen t"
  by (simp add: TXN_PARAM_SET_def txn_set_defs)

lemma mbox_emit_sel [simp]:
  "bCmdInProgress (mb_emit e m) = bCmdInProgress m" "uReadLen (mb_emit e m) = uReadLen m"
  "uWriteLen (mb_emit e m) = uWriteLen m" "uFwAddr (mb_emit e m) = uFwAddr m"
  "aCmdTxn0 (mb_emit e m) = aCmdTxn0 m" "aCmdTxn1 (mb_emit e m) = aCmdTxn1 m"
  "mb_trace (mb_emit e m) = mb_trace m @ [e]" "fErrorCb (mb_emit e m) = fErrorCb m"
  "mbox_wf (mb_emit e m) = mbox_wf m"
  by (simp_all add: mb_emit_def mbox_wf_def)

lemma carries_take:
  "4 + length p \<le> k \<Longrightarrow>
   cmd_carries ct p (take k (Command_bytes \<lparr>cmdID = ct, cmdStatus = CMD_STATUS_SUCCESS, parameters = p @ x\<rparr>))"
  by (simp add: cmd_carries_def Command_bytes_def min_def)

lemma SendCommand_free:
  assumes wf: "mbox_wf m" and free: "\<not> bCmdInProgress m"
    and len: "unat wl \<le> MAX_CMD_PARAMS" "unat wl \<le> length buf"
      "unat rl \<le> MAX_CMD_PARAMS"
  shows "\<exists>m' txn bytes rtxn. cmdMbox_SendCommand ct buf wl rl m = Inr (txn_rc TXN_STATUS_PENDING, m') \<and>
    mb_trace m' = mb_trace m @
      [CmdWrite txn bytes, CmdTmrStart CMDMBOX_WAIT_TIMEOUT, RegWrite rtxn INTR_TRIG_CMD] \<and>
    cmd_carries ct (take (unat wl) buf) bytes \<and> uHwAddr txn = uFwAddr m \<and>
    unat (aLen txn ! 0) = unat (uWriteLen m') \<and> unat (uWriteLen m') = 4 * ((unat wl + 7) div 4) \<and>
    bCmdInProgress m' \<and> uReadLen m' = rl + CMDMBOX_HEADER_LEN \<and> mbox_wf m' \<and>
    aCmdTxn1 m' = aCmdTxn1 m \<and> uFwAddr m' = uFwAddr m \<and> fErrorCb m' = fErrorCb m"
proof -
  let ?wlen = "cmdMbox_align (wl + CMDMBOX_HEADER_LEN)"
  have "unat (wl + CMDMBOX_HEADER_LEN) = unat wl + 4"
    using len by (subst unat_add_small) (auto simp: CMDMBOX_HEADER_LEN_def MAX_CMD_PARAMS_def)
  then have w: "unat ?wlen = 4 * ((unat wl + 7) div 4)"
    using len by (subst cmdMbox_align_unat) (auto simp: MAX_CMD_PARAMS_def)
  have r: "unat (rl + CMDMBOX_HEADER_LEN) \<le> 4 + MAX_CMD_PARAMS"
    using len by (subst unat_add_small) (auto simp: CMDMBOX_HEADER_LEN_def MAX_CMD_PARAMS_def)
  have "4 * ((unat wl + 7) div 4) < 2 ^ 16" using len by (simp add: MAX_CMD_PARAMS_def)
  then have l: "unat (ucast ?wlen :: u16) = 4 * ((unat wl + 7) div 4)"
    using w by (simp add: unsigned_ucast_eq take_bit_nat_eq_self)
  have "4 + unat wl \<le> 4 * ((unat wl + 7) div 4)" by arith
  then have "cmd_carries ct (take (unat wl) buf) (take (unat ?wlen) (Command_bytes
      \<lparr>cmdID = ct, cmdStatus = CMD_STATUS_SUCCESS,
       parameters = take (unat wl) buf @ drop (unat wl) (parameters (tCmdMbox (aCmdTxn0 m)))\<rparr>))"
    using len by (intro carries_take) (simp add: w)
  then show ?thesis
    using wf free len l r
    by (auto simp: cmdMbox_SendCommand_def Let_def mbox_wf_def BUILD_TTxnStruct_def w MAX_XFER_BUFS_def)
qed

lemma SendCommand_busy:
  "bCmdInProgress m \<Longrightarrow> cmdMbox_SendCommand ct buf wl rl m = Inr (ti_rc TI_NOK, m)"
  by (simp add: cmdMbox_SendCommand_def)

text \<open>C36: Sending a command to a free mailbox writes the command with its header to the
  mailbox address, starts the timer, and only then triggers the firmware; the length of the bus
  write is a multiple of four that covers header and parameters, never more than the parameter
  buffer rounded up.\<close>

theorem cmdMbox_SendCommand_writes:
  assumes "mbox_wf m" "\<not> bCmdInProgress m" "unat wl \<le> MAX_CMD_PARAMS" "unat wl \<le> length buf"
      "unat rl \<le> MAX_CMD_PARAMS"
  shows "\<exists>m' txn bytes rtxn. cmdMbox_SendCommand ct buf wl rl m = Inr (txn_rc TXN_STATUS_PENDING, m') \<and>
    mb_trace m' = mb_trace m @
      [CmdWrite txn bytes, CmdTmrStart CMDMBOX_WAIT_TIMEOUT, RegWrite rtxn INTR_TRIG_CMD] \<and>
    cmd_carries ct (take (unat wl) buf) bytes \<and> uHwAddr txn = uFwAddr m \<and>
    unat (aLen txn ! 0) = unat (uWriteLen m') \<and>
    unat (uWriteLen m') mod 4 = 0 \<and> unat wl + 4 \<le> unat (uWriteLen m') \<and> unat (uWriteLen m') \<le> 616"
proof -
  have "4 * ((unat wl + 7) div 4) \<le> 616" "unat wl + 4 \<le> 4 * ((unat wl + 7) div 4)"
    using assms(3) unfolding MAX_CMD_PARAMS_def by arith+
  with SendCommand_free [OF assms, of ct] show ?thesis by fastforce
qed

definition mbox_demo :: TCmdMbox where
  "mbox_demo = the (cmdMbox_Create 1 (100, 200, 300, 400))"

lemma mbox_demo_wf: "mbox_wf mbox_demo" "\<not> bCmdInProgress mbox_demo"
  using Create_wf [of 1 "(100, 200, 300, 400)" mbox_demo]
  by (simp_all add: mbox_demo_def cmdMbox_Create_def)

theorem cmdMbox_SendCommand_writes_witness:
  "\<exists>m' txn bytes rtxn. cmdMbox_SendCommand CMD_CONFIGURE [7, 0, 2, 0, 9] 5 0 mbox_demo
      = Inr (txn_rc TXN_STATUS_PENDING, m') \<and>
    mb_trace m' = mb_trace mbox_demo @
      [CmdWrite txn bytes, CmdTmrStart CMDMBOX_WAIT_TIMEOUT, RegWrite rtxn INTR_TRIG_CMD] \<and>
    cmd_carries CMD_CONFIGURE [7, 0, 2, 0, 9] bytes"
  using cmdMbox_SendCommand_writes [OF mbox_demo_wf, of 5 "[7, 0, 2, 0, 9]" 0 CMD_CONFIGURE]
  by (auto simp: MAX_CMD_PARAMS_def)

section \<open>The answer\<close>

lemma BusRead_wf:
  assumes "mbox_wf m"
  shows "\<exists>m'. cmdMbox_BusRead resp m = Inr m' \<and> mbox_wf m' \<and> (\<exists>c. m' = m\<lparr>aCmdTxn1 := (aCmdTxn1 m)\<lparr>tCmdMbox := c\<rparr>\<rparr>)"
  using assms by (auto simp: cmdMbox_BusRead_def Let_def mbox_wf_def Command_of_bytes_def)

lemma BusRead_result:
  assumes wf: "mbox_wf m" and n: "unat (aLen (ct_txn (aCmdTxn1 m)) ! 0) = n" "4 \<le> n"
  shows "cmdMbox_BusRead resp m = Inr (m\<lparr>aCmdTxn1 := (aCmdTxn1 m)\<lparr>tCmdMbox :=
    \<lparr>cmdID = u16_of_bytes (resp 0) (resp 1), cmdStatus = u16_of_bytes (resp 2) (resp 3),
     parameters = map resp [4..<n] @ drop (n - 4) (parameters (tCmdMbox (aCmdTxn1 m)))\<rparr>\<rparr>\<rparr>)"
proof -
  let ?c = "tCmdMbox (aCmdTxn1 m)"
  have "drop n (Command_bytes ?c) = drop (n - 4) (parameters ?c)"
    using n(2) by (auto simp: Command_bytes_def u16_bytes_def drop_Cons' numeral_2_eq_2 numeral_3_eq_3
        numeral_eq_Suc)
  moreover have "Command_of_bytes (map resp [0..<n] @ xs) = \<lparr>cmdID = u16_of_bytes (resp 0) (resp 1),
      cmdStatus = u16_of_bytes (resp 2) (resp 3), parameters = map resp [4..<n] @ xs\<rparr>" for xs
    using n(2) by (simp add: Command_of_bytes_def nth_append drop_map) (simp add: numeral_2_eq_2)
  ultimately show ?thesis
    using wf n by (simp add: cmdMbox_BusRead_def Let_def mbox_wf_def)
qed

lemma StartRead_sel [simp]:
  "bCmdInProgress (cmdMbox_StartRead m) = bCmdInProgress m" "uReadLen (cmdMbox_StartRead m) = uReadLen m"
  "tCmdMbox (aCmdTxn1 (cmdMbox_StartRead m)) = tCmdMbox (aCmdTxn1 m)"
  "fErrorCb (cmdMbox_StartRead m) = fErrorCb m" "uFwAddr (cmdMbox_StartRead m) = uFwAddr m"
  by (simp_all add: cmdMbox_StartRead_def Let_def)

lemma StartRead_len:
  assumes "mbox_wf m"
  shows "unat (aLen (ct_txn (aCmdTxn1 (cmdMbox_StartRead m))) ! 0) = unat (uReadLen m)"
proof -
  have "unat (uReadLen m) < 2 ^ 16" using assms by (simp add: mbox_wf_def MAX_CMD_PARAMS_def)
  then have "unat (ucast (uReadLen m) :: u16) = unat (uReadLen m)"
    by (simp add: unsigned_ucast_eq take_bit_nat_eq_self)
  then show ?thesis
    using assms by (simp add: cmdMbox_StartRead_def Let_def BUILD_TTxnStruct_def mbox_wf_def MAX_XFER_BUFS_def)
qed

lemma StartRead_wf [simp]:
  assumes "mbox_wf m"
  shows "mbox_wf (cmdMbox_StartRead m)"
  using assms StartRead_len [OF assms]
  by (auto simp: mbox_wf_def) (simp_all add: cmdMbox_StartRead_def Let_def BUILD_TTxnStruct_def)

text \<open>The answer comes back whole: a command is sent with room for some answer bytes, the firmware's
  answer is read from the mailbox, and then the status the module reports is the answer's status and
  the parameters handed to the client are that many first bytes of the answer's parameters.\<close>

theorem cmdMbox_answer_roundtrip:
  assumes "mbox_wf m" "\<not> bCmdInProgress m" "unat wl \<le> MAX_CMD_PARAMS" "unat wl \<le> length buf"
    "unat rl \<le> MAX_CMD_PARAMS" and "length (parameters c) = MAX_CMD_PARAMS"
    and sent: "cmdMbox_SendCommand ct buf wl rl m = Inr (rc, m1)"
  shows "\<exists>m2. cmdMbox_BusRead (\<lambda>i. Command_bytes c ! i) (cmdMbox_StartRead m1) = Inr m2 \<and>
    cmdMbox_GetStatus m2 = (if cmdStatus c = CMD_STATUS_SUCCESS then TI_OK else TI_NOK, cmdStatus c) \<and>
    cmdMbox_GetCmdParams m2 = Inr (take (unat rl) (parameters c))"
proof -
  from SendCommand_free [OF assms(1-5), of ct] sent
  have m1: "mbox_wf m1" "uReadLen m1 = rl + CMDMBOX_HEADER_LEN" by auto
  have r: "unat (rl + CMDMBOX_HEADER_LEN) = unat rl + 4"
    using assms(5) by (subst unat_add_small) (auto simp: CMDMBOX_HEADER_LEN_def MAX_CMD_PARAMS_def)
  have "map ((!) (Command_bytes c)) [4..<unat rl + 4] = take (unat rl) (parameters c)"
    using assms(5,6) by (intro nth_equalityI) (auto simp: Command_bytes_def nth_append u16_bytes_def)
  moreover obtain m2 where m2: "cmdMbox_BusRead (\<lambda>i. Command_bytes c ! i) (cmdMbox_StartRead m1) = Inr m2"
      "cmdStatus (tCmdMbox (aCmdTxn1 m2)) = u16_of_bytes (Command_bytes c ! 2) (Command_bytes c ! 3)"
      "parameters (tCmdMbox (aCmdTxn1 m2)) = map ((!) (Command_bytes c)) [4..<unat rl + 4] @
         drop (unat rl) (parameters (tCmdMbox (aCmdTxn1 m1)))"
      "uReadLen m2 = rl + CMDMBOX_HEADER_LEN"
    using BusRead_result [OF StartRead_wf [OF m1(1)] StartRead_len [OF m1(1)],
        of "\<lambda>i. Command_bytes c ! i"] m1 r by simp
  moreover have "u16_of_bytes (Command_bytes c ! 2) (Command_bytes c ! 3) = cmdStatus c"
    by (simp add: Command_bytes_def u16_bytes_def)
  ultimately show ?thesis
    using assms(5,6) by (auto simp: cmdMbox_GetStatus_def cmdMbox_GetCmdParams_def Let_def)
qed

theorem cmdMbox_answer_roundtrip_witness:
  "\<exists>m1 m2. cmdMbox_SendCommand CMD_INTERROGATE [7, 0, 2, 0] 4 2 mbox_demo = Inr (txn_rc TXN_STATUS_PENDING, m1) \<and>
    cmdMbox_BusRead (\<lambda>i. Command_bytes \<lparr>cmdID = 1, cmdStatus = 14, parameters = 42 # 43 # replicate 608 0\<rparr> ! i)
      (cmdMbox_StartRead m1) = Inr m2 \<and>
    cmdMbox_GetStatus m2 = (TI_NOK, 14) \<and> cmdMbox_GetCmdParams m2 = Inr [42, 43]"
proof -
  obtain m1 where m1: "cmdMbox_SendCommand CMD_INTERROGATE [7, 0, 2, 0] 4 2 mbox_demo
      = Inr (txn_rc TXN_STATUS_PENDING, m1)"
    using SendCommand_free [OF mbox_demo_wf, of 4 "[7, 0, 2, 0]" 2] by (auto simp: MAX_CMD_PARAMS_def)
  show ?thesis
    using cmdMbox_answer_roundtrip [OF mbox_demo_wf _ _ _ _ m1,
        of "\<lparr>cmdID = 1, cmdStatus = 14, parameters = 42 # 43 # replicate 608 0\<rparr>"] m1
    by (auto simp: MAX_CMD_PARAMS_def CMD_STATUS_SUCCESS_def)
qed

end
