(* ===== verification/CmdQueue.thy ===== *)
theory CmdQueue
  imports CmdMBox
begin

text \<open>
  \<open>TWD/Ctrl/CmdQueue.c\<close> and the operations of \<open>TWD/FW_Transfer/CmdMBox.c\<close> that call it: the
  driver's commands wait in a ring of 30 nodes; the state machine hands the oldest one to the
  mailbox, and when the firmware has answered it calls the command's owner and sends the next. The
  owner's callback may send commands itself: what it sends is the parameter \<open>client\<close>, a function of
  everything recorded so far. The mailbox is part of the queue's state (\<open>hCmdMBox\<close>), and the record of
  what happened outside the two modules is the mailbox's \<open>mb_trace\<close>.
\<close>

section \<open>State\<close>

definition CMDQUEUE_QUEUE_DEPTH :: nat where "CMDQUEUE_QUEUE_DEPTH = 30"
definition CMDQUEUE_INFO_ELEM_HEADER_LEN :: u32 where "CMDQUEUE_INFO_ELEM_HEADER_LEN = 4"
definition SG_REJECT_MEAS_SG_ACTIVE :: u32 where "SG_REJECT_MEAS_SG_ACTIVE = 22"

datatype ECmdQueueSmEvents = CMDQUEUE_EVENT_RUN | CMDQUEUE_EVENT_COMPLETE
datatype ECmdQueueSmStates = CMDQUEUE_STATE_IDLE | CMDQUEUE_STATE_WAIT_FOR_COMPLETION

definition RC_CONVERT :: "u32 \<Rightarrow> ti_status" where
  "RC_CONVERT rc =
     (if rc = txn_rc TXN_STATUS_OK \<or> rc = txn_rc TXN_STATUS_COMPLETE \<or> rc = txn_rc TXN_STATUS_PENDING \<or>
         rc = ti_rc TI_OK then TI_OK else TI_NOK)"

record TCmdQueueNode =
  cmdType :: u16
  uParamsLen :: u32
  nd_fCb :: addr
  nd_hCb :: addr
  aParamsBuf :: "u8 list"
  pInterrogateBuf :: addr

record TCmdQueueRecoveryNode =
  rn_fCb :: addr
  rn_hCb :: addr
  rn_pInterrogateBuf :: addr

definition node_zero :: TCmdQueueNode where
  "node_zero = \<lparr>cmdType = 0, uParamsLen = 0, nd_fCb = 0, nd_hCb = 0, aParamsBuf = replicate MAX_CMD_PARAMS 0,
     pInterrogateBuf = 0\<rparr>"

definition recovery_zero :: TCmdQueueRecoveryNode where
  "recovery_zero = \<lparr>rn_fCb = 0, rn_hCb = 0, rn_pInterrogateBuf = 0\<rparr>"

record TCmdQueue =
  hCmdMBox :: TCmdMbox
  cq_state :: ECmdQueueSmStates
  fCmdCompleteCb :: addr
  hCmdCompleteCb :: addr
  fFailureCb :: addr
  hFailureCb :: addr
  aCmdQueue :: "TCmdQueueNode list"
  aRecoveryQueue :: "TCmdQueueRecoveryNode list"
  cq_head :: nat
  cq_tail :: nat
  uNumberOfCommandInQueue :: nat
  uMaxNumberOfCommandInQueue :: nat
  uNumberOfRecoveryNodes :: nat
  uCmdSendCounter :: u32
  uCmdCompltCounter :: u32
  bErrorFlag :: bool
  bMboxEnabled :: bool
  bAwake :: bool

definition cq_emit :: "cmd_event \<Rightarrow> TCmdQueue \<Rightarrow> TCmdQueue" where
  "cq_emit e q = q\<lparr>hCmdMBox := mb_emit e (hCmdMBox q)\<rparr>"

abbreviation cq_trace :: "TCmdQueue \<Rightarrow> cmd_event list" where
  "cq_trace q \<equiv> mb_trace (hCmdMBox q)"

text \<open>The arguments of a \<open>cmdQueue_SendCommand\<close> call; \<open>rq_buf\<close> is the memory at \<open>pMboxBuf\<close>.\<close>

record cmd_request =
  rq_type :: u16
  rq_buf :: "u8 list"
  rq_len :: u32
  rq_fCb :: addr
  rq_hCb :: addr
  rq_pCb :: addr

type_synonym cmd_client = "cmd_event list \<Rightarrow> cmd_request list"

section \<open>Life cycle\<close>

text \<open>\<open>os_memoryZero\<close> leaves both rings zeroed; \<open>m\<close> is the mailbox object.\<close>

definition cmdQueue_Create :: "addr \<Rightarrow> TCmdMbox \<Rightarrow> TCmdQueue option" where
  "cmdQueue_Create a m =
     (if a = 0 then None
      else Some \<lparr>hCmdMBox = m, cq_state = CMDQUEUE_STATE_IDLE, fCmdCompleteCb = 0, hCmdCompleteCb = 0,
        fFailureCb = 0, hFailureCb = 0, aCmdQueue = replicate CMDQUEUE_QUEUE_DEPTH node_zero,
        aRecoveryQueue = replicate CMDQUEUE_QUEUE_DEPTH recovery_zero, cq_head = 0, cq_tail = 0,
        uNumberOfCommandInQueue = 0, uMaxNumberOfCommandInQueue = 0, uNumberOfRecoveryNodes = 0,
        uCmdSendCounter = 0, uCmdCompltCounter = 0, bErrorFlag = False, bMboxEnabled = False,
        bAwake = False\<rparr>)"

definition cmdQueue_Init :: "addr \<Rightarrow> TCmdQueue \<Rightarrow> ti_status \<times> TCmdQueue" where
  "cmdQueue_Init tmr q =
     (TI_OK,
      q\<lparr>cq_head := 0, cq_tail := 0, uNumberOfCommandInQueue := 0, uMaxNumberOfCommandInQueue := 0,
        cq_state := CMDQUEUE_STATE_IDLE, fCmdCompleteCb := 0, hCmdCompleteCb := 0, fFailureCb := 0,
        hFailureCb := 0, bErrorFlag := False, bMboxEnabled := False, bAwake := False,
        hCmdMBox := snd (cmdMbox_Init tmr (hCmdMBox q))\<rparr>)"

definition cmdQueue_RegisterCmdCompleteGenericCb :: "addr \<Rightarrow> addr \<Rightarrow> TCmdQueue \<Rightarrow> ti_status \<times> TCmdQueue" where
  "cmdQueue_RegisterCmdCompleteGenericCb f h q =
     (if f = 0 \<or> h = 0 then (TI_NOK, q) else (TI_OK, q\<lparr>fCmdCompleteCb := f, hCmdCompleteCb := h\<rparr>))"

definition cmdQueue_RegisterForErrorCb :: "addr \<Rightarrow> addr \<Rightarrow> TCmdQueue \<Rightarrow> ti_status \<times> TCmdQueue" where
  "cmdQueue_RegisterForErrorCb f h q =
     (if f = 0 \<or> h = 0 then (TI_NOK, q) else (TI_OK, q\<lparr>hFailureCb := h, fFailureCb := f\<rparr>))"

definition cmdQueue_EnableMbox :: "TCmdQueue \<Rightarrow> ti_status \<times> TCmdQueue" where
  "cmdQueue_EnableMbox q = (TI_OK, q\<lparr>bMboxEnabled := True\<rparr>)"

definition cmdQueue_DisableMbox :: "TCmdQueue \<Rightarrow> ti_status \<times> TCmdQueue" where
  "cmdQueue_DisableMbox q = (TI_OK, q\<lparr>bMboxEnabled := False\<rparr>)"

definition cmdQueue_GetMaxNumberOfCommands :: "TCmdQueue \<Rightarrow> nat" where
  "cmdQueue_GetMaxNumberOfCommands q = uMaxNumberOfCommandInQueue q"

section \<open>The state machine: event RUN\<close>

definition cmdQueue_lens :: "TCmdQueueNode \<Rightarrow> u32 \<times> u32" where
  "cmdQueue_lens pHead =
     (if cmdType pHead = CMD_INTERROGATE then (CMDQUEUE_INFO_ELEM_HEADER_LEN, uParamsLen pHead)
      else if cmdType pHead = CMD_TEST then (uParamsLen pHead, uParamsLen pHead)
      else (uParamsLen pHead, 0))"

text \<open>State IDLE: send the head of the queue.\<close>

definition cmdQueue_SM_Send :: "TCmdQueue \<Rightarrow> fault + u32 \<times> TCmdQueue" where
  "cmdQueue_SM_Send q =
     (let q = q\<lparr>cq_state := CMDQUEUE_STATE_WAIT_FOR_COMPLETION\<rparr>;
          pHead = aCmdQueue q ! cq_head q;
          q = q\<lparr>uCmdSendCounter := uCmdSendCounter q + 1\<rparr>;
          q = (if \<not> bAwake q then (cq_emit TwIfAwake q)\<lparr>bAwake := True\<rparr> else q);
          (wlen, rlen) = cmdQueue_lens pHead
      in case cmdMbox_SendCommand (cmdType pHead) (aParamsBuf pHead) wlen rlen (hCmdMBox q) of
           Inl f \<Rightarrow> Inl f
         | Inr (rc, m) \<Rightarrow> Inr (rc, q\<lparr>hCmdMBox := m\<rparr>))"

definition cmdQueue_SM_Run :: "TCmdQueue \<Rightarrow> fault + u32 \<times> TCmdQueue" where
  "cmdQueue_SM_Run q =
     (case cq_state q of
        CMDQUEUE_STATE_IDLE \<Rightarrow> cmdQueue_SM_Send q
      | CMDQUEUE_STATE_WAIT_FOR_COMPLETION \<Rightarrow> Inr (txn_rc TXN_STATUS_PENDING, q))"

section \<open>Queueing a command\<close>

text \<open>Filling the node at the tail and advancing it; the fault is the copy running over
  \<open>aParamsBuf\<close>.\<close>

definition cmdQueue_Insert :: "cmd_request \<Rightarrow> TCmdQueue \<Rightarrow> fault + TCmdQueue" where
  "cmdQueue_Insert r q =
     (let nd = aCmdQueue q ! cq_tail q in
      case buf_copy (aParamsBuf nd) (rq_buf r) (unat (rq_len r)) of
        Inl f \<Rightarrow> Inl f
      | Inr ps \<Rightarrow>
          (let nd = \<lparr>cmdType = rq_type r, uParamsLen = rq_len r, nd_fCb = rq_fCb r, nd_hCb = rq_hCb r,
                 aParamsBuf = ps, pInterrogateBuf = rq_pCb r\<rparr>;
               t = cq_tail q + 1;
               n = uNumberOfCommandInQueue q + 1
           in Inr ((cq_emit (CmdQueued (rq_type r) (take (unat (rq_len r)) (rq_buf r))) q)
              \<lparr>aCmdQueue := (aCmdQueue q)[cq_tail q := nd],
                cq_tail := (if t = CMDQUEUE_QUEUE_DEPTH then 0 else t),
                uNumberOfCommandInQueue := n,
                uMaxNumberOfCommandInQueue :=
                  (if uMaxNumberOfCommandInQueue q < n then n else uMaxNumberOfCommandInQueue q)\<rparr>)))"

definition cmdQueue_Push :: "cmd_request \<Rightarrow> TCmdQueue \<Rightarrow> fault + u32 \<times> TCmdQueue" where
  "cmdQueue_Push r q =
     (if \<not> bMboxEnabled q then Inr (ti_rc TI_OK, q)
      else if uNumberOfCommandInQueue q = CMDQUEUE_QUEUE_DEPTH then Inr (ti_rc TI_NOK, q)
      else
        (case cmdQueue_Insert r q of
           Inl f \<Rightarrow> Inl f
         | Inr q \<Rightarrow>
             if uNumberOfCommandInQueue q = 1 then cmdQueue_SM_Run q else Inr (ti_rc TI_OK, q)))"

definition cmdQueue_SendCommand :: "cmd_request \<Rightarrow> TCmdQueue \<Rightarrow> fault + ti_status \<times> TCmdQueue" where
  "cmdQueue_SendCommand r q =
     (if bErrorFlag q then Inr (TI_NOK, q)
      else
        (case cmdQueue_Push r q of
           Inl f \<Rightarrow> Inl f
         | Inr (rc, q) \<Rightarrow> Inr (RC_CONVERT rc, q)))"

text \<open>The commands a callback sends, one after the other; it ignores their results.\<close>

fun cq_send_all :: "cmd_request list \<Rightarrow> TCmdQueue \<Rightarrow> fault + TCmdQueue" where
  "cq_send_all [] q = Inr q"
| "cq_send_all (r # rs) q =
     (case cmdQueue_SendCommand r q of Inl f \<Rightarrow> Inl f | Inr (rc, q) \<Rightarrow> cq_send_all rs q)"

text \<open>A call out of the driver, with the commands that the callee sends.\<close>

definition cq_call :: "cmd_client \<Rightarrow> cmd_event \<Rightarrow> TCmdQueue \<Rightarrow> fault + TCmdQueue" where
  "cq_call client e q = (let q = cq_emit e q in cq_send_all (client (cq_trace q)) q)"

section \<open>The state machine: event COMPLETE\<close>

definition node_uParam :: "TCmdQueueNode \<Rightarrow> u16" where
  "node_uParam nd = u16_of_bytes (aParamsBuf nd ! 0) (aParamsBuf nd ! 1)"

text \<open>The node leaves the ring.\<close>

definition cmdQueue_Remove :: "TCmdQueue \<Rightarrow> TCmdQueue" where
  "cmdQueue_Remove q =
     (let h = cq_head q + 1 in
      q\<lparr>cq_head := (if h \<ge> CMDQUEUE_QUEUE_DEPTH then 0 else h),
        uNumberOfCommandInQueue := uNumberOfCommandInQueue q - 1,
        uCmdCompltCounter := uCmdCompltCounter q + 1\<rparr>)"

text \<open>The status for the callback, and the error flag.\<close>

definition cmdQueue_Status :: "TCmdQueue \<Rightarrow> u32 \<times> TCmdQueue" where
  "cmdQueue_Status q =
     (let (status, cmdStatus) = cmdMbox_GetStatus (hCmdMBox q) in
      if status \<noteq> TI_OK then
        if cmdStatus = CMD_STATUS_REJECT_MEAS_SG_ACTIVE
        then (SG_REJECT_MEAS_SG_ACTIVE, q\<lparr>bErrorFlag := False\<rparr>)
        else (ti_rc status, q\<lparr>bErrorFlag := True\<rparr>)
      else (ti_rc status, q\<lparr>bErrorFlag := False\<rparr>))"

definition cmdQueue_Notify :: "cmd_client \<Rightarrow> TCmdQueueNode \<Rightarrow> u32 \<Rightarrow> TCmdQueue \<Rightarrow> fault + TCmdQueue" where
  "cmdQueue_Notify client nd status q =
     (if nd_fCb nd \<noteq> 0 then
        if pInterrogateBuf nd \<noteq> 0 then
          (case cmdMbox_GetCmdParams (hCmdMBox q) of
             Inl f \<Rightarrow> Inl f
           | Inr bs \<Rightarrow>
               cq_call client (InterrogateCb (nd_fCb nd) (nd_hCb nd) (ucast status) (pInterrogateBuf nd))
                 (cq_emit (CopyResult (pInterrogateBuf nd) bs) q))
        else cq_call client (CmdCb (nd_fCb nd) (nd_hCb nd) (ucast status)) q
      else if fCmdCompleteCb q \<noteq> 0 then
        cq_call client
          (GenericCb (fCmdCompleteCb q) (hCmdCompleteCb q) (cmdType nd) (node_uParam nd) (ucast status)) q
      else Inr q)"

text \<open>State WAIT FOR COMPLETION. The next command goes out at once, in the same call; \<open>rc\<close> is
  \<open>TI_OK\<close> unless it does.\<close>

definition cmdQueue_SM_Complete :: "cmd_client \<Rightarrow> TCmdQueue \<Rightarrow> fault + u32 \<times> TCmdQueue" where
  "cmdQueue_SM_Complete client q =
     (let pHead = aCmdQueue q ! cq_head q;
          (status, q) = cmdQueue_Status (cmdQueue_Remove q)
      in case cmdQueue_Notify client pHead status q of
           Inl f \<Rightarrow> Inl f
         | Inr q \<Rightarrow>
             if uNumberOfCommandInQueue q > 0
             then cmdQueue_SM_Run (q\<lparr>cq_state := CMDQUEUE_STATE_IDLE\<rparr>)
             else Inr (ti_rc TI_OK,
               (cq_emit TwIfSleep q)\<lparr>bAwake := False, cq_state := CMDQUEUE_STATE_IDLE\<rparr>))"

definition cmdQueue_SM :: "cmd_client \<Rightarrow> ECmdQueueSmEvents \<Rightarrow> TCmdQueue \<Rightarrow> fault + u32 \<times> TCmdQueue" where
  "cmdQueue_SM client ev q =
     (case ev of
        CMDQUEUE_EVENT_RUN \<Rightarrow> cmdQueue_SM_Run q
      | CMDQUEUE_EVENT_COMPLETE \<Rightarrow>
          (case cq_state q of
             CMDQUEUE_STATE_IDLE \<Rightarrow> Inr (ti_rc TI_NOK, q)
           | CMDQUEUE_STATE_WAIT_FOR_COMPLETION \<Rightarrow> cmdQueue_SM_Complete client q))"

definition cmdQueue_ResultReceived :: "cmd_client \<Rightarrow> TCmdQueue \<Rightarrow> fault + u32 \<times> TCmdQueue" where
  "cmdQueue_ResultReceived client q = cmdQueue_SM client CMDQUEUE_EVENT_COMPLETE q"

section \<open>The mailbox's events\<close>

text \<open>Called once the bus has filled the read buffer with \<open>resp\<close>.\<close>

definition cmdMbox_TransferComplete ::
  "cmd_client \<Rightarrow> (nat \<Rightarrow> u8) \<Rightarrow> TCmdQueue \<Rightarrow> fault + ti_status \<times> TCmdQueue" where
  "cmdMbox_TransferComplete client resp q =
     (case cmdMbox_BusRead resp (hCmdMBox q) of
        Inl f \<Rightarrow> Inl f
      | Inr m \<Rightarrow>
          (case cmdQueue_ResultReceived client (q\<lparr>hCmdMBox := m\<lparr>bCmdInProgress := False\<rparr>\<rparr>) of
             Inl f \<Rightarrow> Inl f
           | Inr (rc, q) \<Rightarrow> Inr (TI_OK, q)))"

text \<open>\<open>rc\<close> is what \<open>twIf_Transact\<close> returned.\<close>

definition cmdMbox_CommandComplete ::
  "cmd_client \<Rightarrow> ETxnStatus \<Rightarrow> (nat \<Rightarrow> u8) \<Rightarrow> TCmdQueue \<Rightarrow> fault + ETxnStatus \<times> TCmdQueue" where
  "cmdMbox_CommandComplete client rc resp q =
     (let q = q\<lparr>hCmdMBox := cmdMbox_StartRead (hCmdMBox q)\<rparr> in
      if rc = TXN_STATUS_COMPLETE then
        (case cmdMbox_TransferComplete client resp q of
           Inl f \<Rightarrow> Inl f
         | Inr (st, q) \<Rightarrow> Inr (TXN_STATUS_COMPLETE, q))
      else Inr (TXN_STATUS_COMPLETE, q))"

definition cmdQueue_Error :: "cmd_client \<Rightarrow> u16 \<Rightarrow> TCmdQueue \<Rightarrow> fault + ti_status \<times> TCmdQueue" where
  "cmdQueue_Error client status q =
     (if status \<noteq> CMD_STATUS_UNKNOWN_CMD \<and> status \<noteq> CMD_STATUS_UNKNOWN_IE \<and> fFailureCb q \<noteq> 0 then
        (case cq_call client (FailureCb (fFailureCb q) (hFailureCb q) (ucast (ti_rc TI_NOK))) q of
           Inl f \<Rightarrow> Inl f
         | Inr q \<Rightarrow> Inr (TI_OK, q))
      else Inr (TI_OK, q))"

definition cmdMbox_TimeOut :: "cmd_client \<Rightarrow> TCmdQueue \<Rightarrow> fault + TCmdQueue" where
  "cmdMbox_TimeOut client q =
     (if fErrorCb (hCmdMBox q) then
        (case cmdQueue_Error client CMD_STATUS_TIMEOUT q of Inl f \<Rightarrow> Inl f | Inr (st, q) \<Rightarrow> Inr q)
      else Inr q)"

section \<open>Recovery\<close>

fun cmdQueue_Save :: "nat \<Rightarrow> nat \<Rightarrow> TCmdQueue \<Rightarrow> TCmdQueue" where
  "cmdQueue_Save 0 first q = q"
| "cmdQueue_Save (Suc n) first q =
     (let pHead = aCmdQueue q ! first;
          q = (if nd_fCb pHead \<noteq> 0 then
                 q\<lparr>aRecoveryQueue := (aRecoveryQueue q)[uNumberOfRecoveryNodes q :=
                     \<lparr>rn_fCb = nd_fCb pHead, rn_hCb = nd_hCb pHead, rn_pInterrogateBuf = pInterrogateBuf pHead\<rparr>],
                   uNumberOfRecoveryNodes := uNumberOfRecoveryNodes q + 1\<rparr>
               else q)
      in cmdQueue_Save n (if first + 1 = CMDQUEUE_QUEUE_DEPTH then 0 else first + 1) q)"

definition cmdQueue_Restart :: "TCmdQueue \<Rightarrow> ti_status \<times> TCmdQueue" where
  "cmdQueue_Restart q =
     (let q = q\<lparr>cq_state := CMDQUEUE_STATE_IDLE, bAwake := False, uNumberOfRecoveryNodes := 0\<rparr>;
          q = cmdQueue_Save (uNumberOfCommandInQueue q) (cq_head q) q
      in (TI_OK, q\<lparr>cq_head := 0, cq_tail := 0, uNumberOfCommandInQueue := 0\<rparr>))"

definition recovery_event :: "TCmdQueueRecoveryNode \<Rightarrow> cmd_event" where
  "recovery_event rn =
     (if rn_pInterrogateBuf rn \<noteq> 0
      then InterrogateCb (rn_fCb rn) (rn_hCb rn) CMD_STATUS_FW_RESET (rn_pInterrogateBuf rn)
      else CmdCb (rn_fCb rn) (rn_hCb rn) CMD_STATUS_FW_RESET)"

text \<open>The loop over \<open>uCbIndex\<close>: \<open>n\<close> entries from \<open>i\<close> on are left.\<close>

fun cmdQueue_CallSaved :: "cmd_client \<Rightarrow> nat \<Rightarrow> nat \<Rightarrow> TCmdQueue \<Rightarrow> fault + TCmdQueue" where
  "cmdQueue_CallSaved client 0 i q = Inr q"
| "cmdQueue_CallSaved client (Suc n) i q =
     (case cq_call client (recovery_event (aRecoveryQueue q ! i)) q of
        Inl f \<Rightarrow> Inl f
      | Inr q \<Rightarrow> cmdQueue_CallSaved client n (i + 1) q)"

definition cmdQueue_EndReconfig :: "cmd_client \<Rightarrow> TCmdQueue \<Rightarrow> fault + ti_status \<times> TCmdQueue" where
  "cmdQueue_EndReconfig client q =
     (case cmdQueue_CallSaved client (uNumberOfRecoveryNodes q) 0 q of
        Inl f \<Rightarrow> Inl f
      | Inr q \<Rightarrow> Inr (TI_OK, q\<lparr>uNumberOfRecoveryNodes := 0\<rparr>))"

text \<open>The part of \<open>TWD_Stop\<close> that stops the command path.\<close>

definition TWD_Stop_cmd :: "TCmdQueue \<Rightarrow> TCmdQueue" where
  "TWD_Stop_cmd q =
     snd (cmdQueue_DisableMbox
       (snd (cmdQueue_Restart (q\<lparr>hCmdMBox := cmdMbox_Restart (hCmdMBox q)\<rparr>))))"

end
