(* ===== verification/CmdQueueProps.thy ===== *)
theory CmdQueueProps
  imports CmdQueue
begin

text \<open>
  The command queue of theory \<open>CmdQueue\<close>: its invariant, the order in which queued commands reach
  the mailbox, the calls to their owners, recovery and the error flag.
\<close>

section \<open>The ring\<close>

definition cq_list :: "TCmdQueue \<Rightarrow> TCmdQueueNode list" where
  "cq_list q = map (\<lambda>i. aCmdQueue q ! ((cq_head q + i) mod CMDQUEUE_QUEUE_DEPTH)) [0..<uNumberOfCommandInQueue q]"

definition node_ok :: "TCmdQueueNode \<Rightarrow> bool" where
  "node_ok nd \<longleftrightarrow> length (aParamsBuf nd) = MAX_CMD_PARAMS \<and> unat (uParamsLen nd) \<le> MAX_CMD_PARAMS"

definition cq_wf :: "TCmdQueue \<Rightarrow> bool" where
  "cq_wf q \<longleftrightarrow> mbox_wf (hCmdMBox q) \<and> length (aCmdQueue q) = CMDQUEUE_QUEUE_DEPTH \<and>
     length (aRecoveryQueue q) = CMDQUEUE_QUEUE_DEPTH \<and> list_all node_ok (aCmdQueue q) \<and>
     cq_head q < CMDQUEUE_QUEUE_DEPTH \<and> uNumberOfCommandInQueue q \<le> CMDQUEUE_QUEUE_DEPTH \<and>
     cq_tail q = (cq_head q + uNumberOfCommandInQueue q) mod CMDQUEUE_QUEUE_DEPTH \<and>
     uNumberOfRecoveryNodes q \<le> CMDQUEUE_QUEUE_DEPTH"

definition req_ok :: "cmd_request \<Rightarrow> bool" where
  "req_ok r \<longleftrightarrow> unat (rq_len r) \<le> MAX_CMD_PARAMS \<and> unat (rq_len r) \<le> length (rq_buf r)"

definition client_ok :: "cmd_client \<Rightarrow> bool" where
  "client_ok client \<longleftrightarrow> (\<forall>tr. list_all req_ok (client tr))"

lemma length_cq_list [simp]: "length (cq_list q) = uNumberOfCommandInQueue q"
  by (simp add: cq_list_def)

lemma cq_list_hd: "0 < uNumberOfCommandInQueue q \<Longrightarrow> cq_head q < CMDQUEUE_QUEUE_DEPTH \<Longrightarrow>
    cq_list q = (aCmdQueue q ! cq_head q) # tl (cq_list q)"
  by (simp add: cq_list_def upt_conv_Cons)

lemma cq_emit_sel [simp]:
  "aCmdQueue (cq_emit e q) = aCmdQueue q" "cq_head (cq_emit e q) = cq_head q" "cq_tail (cq_emit e q) = cq_tail q"
  "uNumberOfCommandInQueue (cq_emit e q) = uNumberOfCommandInQueue q" "cq_state (cq_emit e q) = cq_state q"
  "bErrorFlag (cq_emit e q) = bErrorFlag q" "bMboxEnabled (cq_emit e q) = bMboxEnabled q"
  "bAwake (cq_emit e q) = bAwake q" "uNumberOfRecoveryNodes (cq_emit e q) = uNumberOfRecoveryNodes q"
  "aRecoveryQueue (cq_emit e q) = aRecoveryQueue q" "hCmdMBox (cq_emit e q) = mb_emit e (hCmdMBox q)"
  "cq_list (cq_emit e q) = cq_list q" "cq_wf (cq_emit e q) = cq_wf q"
  "fCmdCompleteCb (cq_emit e q) = fCmdCompleteCb q" "fFailureCb (cq_emit e q) = fFailureCb q"
  by (simp_all add: cq_emit_def cq_list_def cq_wf_def)

lemma cq_list_cong:
  "aCmdQueue q' = aCmdQueue q \<Longrightarrow> cq_head q' = cq_head q \<Longrightarrow>
   uNumberOfCommandInQueue q' = uNumberOfCommandInQueue q \<Longrightarrow> cq_list q' = cq_list q"
  by (simp add: cq_list_def)

lemma ring_step: "h < CMDQUEUE_QUEUE_DEPTH \<Longrightarrow>
    (if CMDQUEUE_QUEUE_DEPTH \<le> h + 1 then 0 else h + 1) = (h + 1) mod CMDQUEUE_QUEUE_DEPTH"
  "h < CMDQUEUE_QUEUE_DEPTH \<Longrightarrow>
    (if h + 1 = CMDQUEUE_QUEUE_DEPTH then 0 else h + 1) = (h + 1) mod CMDQUEUE_QUEUE_DEPTH"
  by (auto simp: CMDQUEUE_QUEUE_DEPTH_def mod_Suc)

lemma ring_free:
  fixes d :: nat
  assumes "i < n" "n < d"
  shows "(h + i) mod d \<noteq> (h + n) mod d"
proof
  assume "(h + i) mod d = (h + n) mod d"
  then have "d dvd (h + n) - (h + i)" using assms(1) by (metis add_le_cancel_left less_imp_le_nat mod_eq_dvd_iff_nat)
  then show False using assms by (auto dest: dvd_imp_le)
qed

lemma depth_pos [simp]: "0 < CMDQUEUE_QUEUE_DEPTH" "CMDQUEUE_QUEUE_DEPTH \<noteq> 0"
  by (simp_all add: CMDQUEUE_QUEUE_DEPTH_def)

text \<open>A node that holds the command of type \<open>t\<close> with parameters \<open>p\<close>.\<close>

definition node_holds :: "u16 \<times> u8 list \<Rightarrow> TCmdQueueNode \<Rightarrow> bool" where
  "node_holds c nd \<longleftrightarrow> cmdType nd = fst c \<and> unat (uParamsLen nd) = length (snd c) \<and>
     take (length (snd c)) (aParamsBuf nd) = snd c"

definition req_cmd :: "cmd_request \<Rightarrow> u16 \<times> u8 list" where
  "req_cmd r = (rq_type r, take (unat (rq_len r)) (rq_buf r))"

lemma Insert_ok:
  assumes wf: "cq_wf q" and room: "uNumberOfCommandInQueue q < CMDQUEUE_QUEUE_DEPTH" and r: "req_ok r"
  shows "\<exists>q' nd. cmdQueue_Insert r q = Inr q' \<and> cq_wf q' \<and> cq_list q' = cq_list q @ [nd] \<and>
    node_holds (req_cmd r) nd \<and> nd_fCb nd = rq_fCb r \<and> nd_hCb nd = rq_hCb r \<and> pInterrogateBuf nd = rq_pCb r \<and>
    hCmdMBox q' = mb_emit (CmdQueued (rq_type r) (snd (req_cmd r))) (hCmdMBox q) \<and>
    uNumberOfCommandInQueue q' = Suc (uNumberOfCommandInQueue q) \<and>
    cq_state q' = cq_state q \<and> bErrorFlag q' = bErrorFlag q \<and> bMboxEnabled q' = bMboxEnabled q \<and>
    bAwake q' = bAwake q \<and> fCmdCompleteCb q' = fCmdCompleteCb q \<and> fFailureCb q' = fFailureCb q \<and>
    aRecoveryQueue q' = aRecoveryQueue q \<and> uNumberOfRecoveryNodes q' = uNumberOfRecoveryNodes q"
proof -
  let ?D = CMDQUEUE_QUEUE_DEPTH and ?old = "aParamsBuf (aCmdQueue q ! cq_tail q)"
  let ?n = "unat (rq_len r)"
  define nd where "nd = \<lparr>cmdType = rq_type r, uParamsLen = rq_len r, nd_fCb = rq_fCb r, nd_hCb = rq_hCb r,
    aParamsBuf = take ?n (rq_buf r) @ drop ?n ?old, pInterrogateBuf = rq_pCb r\<rparr>"
  have tail: "cq_tail q = (cq_head q + uNumberOfCommandInQueue q) mod ?D" "cq_tail q < length (aCmdQueue q)"
    using wf by (auto simp: cq_wf_def)
  have old: "length ?old = MAX_CMD_PARAMS"
    using wf tail(2) by (auto simp: cq_wf_def list_all_length node_ok_def)
  then have copy: "buf_copy ?old (rq_buf r) ?n = Inr (take ?n (rq_buf r) @ drop ?n ?old)"
    using r by (simp add: req_ok_def)
  define q' where "q' = (cq_emit (CmdQueued (rq_type r) (take ?n (rq_buf r))) q)
    \<lparr>aCmdQueue := (aCmdQueue q)[cq_tail q := nd],
     cq_tail := (if cq_tail q + 1 = ?D then 0 else cq_tail q + 1),
     uNumberOfCommandInQueue := uNumberOfCommandInQueue q + 1,
     uMaxNumberOfCommandInQueue := (if uMaxNumberOfCommandInQueue q < uNumberOfCommandInQueue q + 1
       then uNumberOfCommandInQueue q + 1 else uMaxNumberOfCommandInQueue q)\<rparr>"
  have i: "cmdQueue_Insert r q = Inr q'"
    unfolding cmdQueue_Insert_def Let_def copy q'_def nd_def by simp
  have nd: "node_ok nd" using r old by (auto simp: node_ok_def nd_def req_ok_def)
  have keep: "aCmdQueue q' ! ((cq_head q + i) mod ?D) = aCmdQueue q ! ((cq_head q + i) mod ?D)"
    if "i < uNumberOfCommandInQueue q" for i
  proof -
    have "cq_tail q \<noteq> (cq_head q + i) mod ?D" using ring_free [OF that room] tail(1) by metis
    then show ?thesis by (simp add: q'_def)
  qed
  have "aCmdQueue q' ! ((cq_head q + uNumberOfCommandInQueue q) mod ?D) = nd"
    using tail by (simp add: q'_def)
  with keep have "cq_list q' = cq_list q @ [nd]"
    by (simp add: cq_list_def) (simp add: q'_def)
  moreover have "cq_tail q' = (cq_head q + Suc (uNumberOfCommandInQueue q)) mod ?D"
    using ring_step(2) [of "cq_tail q"] tail wf by (auto simp: q'_def cq_wf_def mod_simps split: if_splits)
  then have "cq_wf q'"
    using wf room nd by (auto simp: q'_def cq_wf_def list_all_length nth_list_update)
  moreover have "node_holds (req_cmd r) nd"
    using r by (auto simp: node_holds_def req_cmd_def nd_def req_ok_def)
  ultimately show ?thesis
    unfolding i by (intro exI [of _ q'] exI [of _ nd]) (simp add: q'_def nd_def req_cmd_def)
qed

lemma Remove_list:
  assumes "cq_wf q" "0 < uNumberOfCommandInQueue q"
  shows "cq_wf (cmdQueue_Remove q) \<and> cq_list q = (aCmdQueue q ! cq_head q) # cq_list (cmdQueue_Remove q)"
proof
  have h: "cq_head q < CMDQUEUE_QUEUE_DEPTH" using assms by (simp add: cq_wf_def)
  have head: "cq_head (cmdQueue_Remove q) = (cq_head q + 1) mod CMDQUEUE_QUEUE_DEPTH"
      "aCmdQueue (cmdQueue_Remove q) = aCmdQueue q"
      "uNumberOfCommandInQueue (cmdQueue_Remove q) = uNumberOfCommandInQueue q - 1"
    using ring_step(1) [OF h] by (auto simp: cmdQueue_Remove_def Let_def split: if_splits)
  then have "cq_list (cmdQueue_Remove q) = tl (cq_list q)"
    using assms(2)
    by (intro nth_equalityI)
      (simp_all add: cq_list_def nth_tl mod_simps nth_upt)
  with cq_list_hd [OF assms(2) h] show "cq_list q = (aCmdQueue q ! cq_head q) # cq_list (cmdQueue_Remove q)"
    by simp
  have "cq_tail q = ((cq_head q + 1) mod CMDQUEUE_QUEUE_DEPTH + (uNumberOfCommandInQueue q - 1))
      mod CMDQUEUE_QUEUE_DEPTH"
    using assms by (subst mod_add_left_eq) (simp add: cq_wf_def)
  then show "cq_wf (cmdQueue_Remove q)"
    using assms(1) head by (auto simp: cq_wf_def) (auto simp: cmdQueue_Remove_def Let_def)
qed

section \<open>What reaches the mailbox\<close>

text \<open>The commands taken by the queue and the commands written to the mailbox, in a record of events.\<close>

definition queued_of :: "cmd_event list \<Rightarrow> (u16 \<times> u8 list) list" where
  "queued_of tr = concat (map (\<lambda>e. case e of CmdQueued t p \<Rightarrow> [(t, p)] | _ \<Rightarrow> []) tr)"

definition writes_of :: "cmd_event list \<Rightarrow> u8 list list" where
  "writes_of tr = concat (map (\<lambda>e. case e of CmdWrite txn bs \<Rightarrow> [bs] | _ \<Rightarrow> []) tr)"

text \<open>An interrogate command's parameters are the header of the information element it asks for.\<close>

definition written_as :: "u16 \<times> u8 list \<Rightarrow> u8 list \<Rightarrow> bool" where
  "written_as c bytes \<longleftrightarrow>
     cmd_carries (fst c) (if fst c = CMD_INTERROGATE then take 4 (snd c) else snd c) bytes"

lemma queued_of_append [simp]: "queued_of (a @ b) = queued_of a @ queued_of b"
  by (simp add: queued_of_def)

lemma writes_of_append [simp]: "writes_of (a @ b) = writes_of a @ writes_of b"
  by (simp add: writes_of_def)

lemma queued_of_simps [simp]:
  "queued_of [] = []" "queued_of (CmdQueued t p # es) = (t, p) # queued_of es"
  "\<forall>t p. e \<noteq> CmdQueued t p \<Longrightarrow> queued_of (e # es) = queued_of es"
  by (auto simp: queued_of_def split: cmd_event.splits)

lemma writes_of_simps [simp]:
  "writes_of [] = []" "writes_of (CmdWrite txn bs # es) = bs # writes_of es"
  "\<forall>txn bs. e \<noteq> CmdWrite txn bs \<Longrightarrow> writes_of (e # es) = writes_of es"
  by (auto simp: writes_of_def split: cmd_event.splits)

text \<open>The relation between the queue and the record from position \<open>base\<close> on (the last restart):
  \<open>done\<close> commands have left the queue, the others are in it, in order; \<open>b\<close> tells whether the
  head has been written.\<close>

definition cq_sim :: "nat \<Rightarrow> bool \<Rightarrow> TCmdQueue \<Rightarrow> bool" where
  "cq_sim base b q \<longleftrightarrow> base \<le> length (cq_trace q) \<and>
     (let tr = drop base (cq_trace q) in
      \<exists>done. list_all2 node_holds (drop done (queued_of tr)) (cq_list q) \<and> done \<le> length (queued_of tr) \<and>
        length (writes_of tr) = done + (if b then 1 else 0) \<and>
        list_all2 written_as (take (length (writes_of tr)) (queued_of tr)) (writes_of tr))"

definition cq_settled :: "TCmdQueue \<Rightarrow> bool" where
  "cq_settled q \<longleftrightarrow> cq_wf q \<and>
     (cq_state q = CMDQUEUE_STATE_WAIT_FOR_COMPLETION \<longleftrightarrow> 0 < uNumberOfCommandInQueue q) \<and>
     (bCmdInProgress (hCmdMBox q) \<longleftrightarrow> cq_state q = CMDQUEUE_STATE_WAIT_FOR_COMPLETION) \<and>
     (bAwake q \<longleftrightarrow> cq_state q = CMDQUEUE_STATE_WAIT_FOR_COMPLETION) \<and>
     (cq_state q = CMDQUEUE_STATE_WAIT_FOR_COMPLETION \<longrightarrow> 4 \<le> unat (uReadLen (hCmdMBox q)))"

text \<open>While the owner of the completed command is being called.\<close>

definition cq_calling :: "TCmdQueue \<Rightarrow> bool" where
  "cq_calling q \<longleftrightarrow> cq_wf q \<and> cq_state q = CMDQUEUE_STATE_WAIT_FOR_COMPLETION \<and>
     \<not> bCmdInProgress (hCmdMBox q) \<and> bAwake q \<and> 4 \<le> unat (uReadLen (hCmdMBox q))"

abbreviation cq_waiting :: "TCmdQueue \<Rightarrow> bool" where
  "cq_waiting q \<equiv> cq_state q = CMDQUEUE_STATE_WAIT_FOR_COMPLETION"

lemma cq_sim_cong:
  "cq_trace q' = cq_trace q \<Longrightarrow> cq_list q' = cq_list q \<Longrightarrow> cq_sim base b q' = cq_sim base b q"
  by (simp add: cq_sim_def)

lemma cq_sim_queued:
  assumes "cq_sim base b q" "cq_trace q' = cq_trace q @ [CmdQueued t p]" "cq_list q' = cq_list q @ [nd]"
    "node_holds (t, p) nd" "b \<longrightarrow> 0 < uNumberOfCommandInQueue q"
  shows "cq_sim base b q'"
proof -
  obtain d where d: "list_all2 node_holds (drop d (queued_of (drop base (cq_trace q)))) (cq_list q)"
      "d \<le> length (queued_of (drop base (cq_trace q)))" "base \<le> length (cq_trace q)"
      "length (writes_of (drop base (cq_trace q))) = d + (if b then 1 else 0)"
      "list_all2 written_as (take (length (writes_of (drop base (cq_trace q)))) (queued_of (drop base (cq_trace q))))
         (writes_of (drop base (cq_trace q)))"
    using assms(1) by (auto simp: cq_sim_def Let_def)
  have "d + (if b then 1 else 0) \<le> length (queued_of (drop base (cq_trace q)))"
    using list_all2_lengthD [OF d(1)] d(2) assms(5) by auto
  then show ?thesis
    using assms(2-4) d by (auto simp: cq_sim_def Let_def intro!: exI [of _ d] list_all2_appendI)
qed

lemma lens_written:
  assumes "node_holds c nd" "node_ok nd" "cmdQueue_lens nd = (wl, rl)"
    and "cmd_carries (cmdType nd) (take (unat wl) (aParamsBuf nd)) bytes"
  shows "written_as c bytes"
proof -
  have pre: "cmd_carries t (take k xs) bytes" if "cmd_carries t xs bytes" for t k xs
  proof -
    have "take (4 + length (take k xs)) bytes = take (4 + length (take k xs)) (take (4 + length xs) bytes)"
      by (simp add: min_def)
    with that show ?thesis by (simp add: cmd_carries_def) (simp add: min_def)
  qed
  show ?thesis
  proof (cases "cmdType nd = CMD_INTERROGATE")
    case True
    then have "unat wl = 4" using assms(3) by (simp add: cmdQueue_lens_def CMDQUEUE_INFO_ELEM_HEADER_LEN_def)
    moreover have "take 4 (snd c) = take (length (snd c)) (take 4 (aParamsBuf nd))"
    proof -
      have "take 4 (snd c) = take 4 (take (length (snd c)) (aParamsBuf nd))"
        using assms(1) by (simp only: node_holds_def)
      then show ?thesis by (simp only: take_take min.commute)
    qed
    ultimately show ?thesis using pre [OF assms(4), of "length (snd c)"] True assms(1)
      by (simp add: written_as_def node_holds_def)
  next
    case False
    then have "wl = uParamsLen nd" using assms(3) by (simp add: cmdQueue_lens_def split: if_splits)
    with False assms(1,4) show ?thesis by (simp add: written_as_def node_holds_def)
  qed
qed

lemma lens_bounds:
  "node_ok nd \<Longrightarrow> cmdQueue_lens nd = (wl, rl) \<Longrightarrow>
   unat wl \<le> MAX_CMD_PARAMS \<and> unat wl \<le> length (aParamsBuf nd) \<and> unat rl \<le> MAX_CMD_PARAMS"
  by (auto simp: node_ok_def cmdQueue_lens_def CMDQUEUE_INFO_ELEM_HEADER_LEN_def MAX_CMD_PARAMS_def
      split: if_splits)

section \<open>One step\<close>

lemma SM_Send_ok:
  assumes wf: "cq_wf q" and sim: "cq_sim base False q" and n: "0 < uNumberOfCommandInQueue q"
    and free: "\<not> bCmdInProgress (hCmdMBox q)"
  shows "\<exists>q'. cmdQueue_SM_Send q = Inr (txn_rc TXN_STATUS_PENDING, q') \<and> cq_settled q' \<and>
    cq_sim base True q' \<and> cq_list q' = cq_list q \<and> bErrorFlag q' = bErrorFlag q \<and>
    bMboxEnabled q' = bMboxEnabled q \<and> cq_waiting q'"
proof -
  let ?nd = "aCmdQueue q ! cq_head q"
  let ?q1 = "q\<lparr>cq_state := CMDQUEUE_STATE_WAIT_FOR_COMPLETION, uCmdSendCounter := uCmdSendCounter q + 1\<rparr>"
  define q2 where "q2 = (if \<not> bAwake q then (cq_emit TwIfAwake ?q1)\<lparr>bAwake := True\<rparr> else ?q1)"
  obtain wl rl where lens: "cmdQueue_lens ?nd = (wl, rl)" by fastforce
  have h: "cq_head q < CMDQUEUE_QUEUE_DEPTH" using wf by (simp add: cq_wf_def)
  have nd: "node_ok ?nd" using wf by (auto simp: cq_wf_def list_all_length)
  have same: "cq_wf q2" "cq_list q2 = cq_list q" "cq_waiting q2" "bAwake q2" "bErrorFlag q2 = bErrorFlag q"
      "bMboxEnabled q2 = bMboxEnabled q" "uNumberOfCommandInQueue q2 = uNumberOfCommandInQueue q"
    using wf by (auto simp: q2_def cq_wf_def cq_list_def)
  have tr: "queued_of (drop base (cq_trace q2)) = queued_of (drop base (cq_trace q))"
      "writes_of (drop base (cq_trace q2)) = writes_of (drop base (cq_trace q))"
      "base \<le> length (cq_trace q2)"
    using sim by (auto simp: q2_def cq_sim_def)
  have m: "mbox_wf (hCmdMBox q2)" "\<not> bCmdInProgress (hCmdMBox q2)"
    using wf free by (auto simp: q2_def cq_wf_def)
  from SendCommand_free [OF m, of wl "aParamsBuf ?nd" rl "cmdType ?nd"] lens_bounds [OF nd lens]
  obtain m' txn bytes rtxn where s:
    "cmdMbox_SendCommand (cmdType ?nd) (aParamsBuf ?nd) wl rl (hCmdMBox q2) = Inr (txn_rc TXN_STATUS_PENDING, m')"
    "mb_trace m' = cq_trace q2 @ [CmdWrite txn bytes, CmdTmrStart CMDMBOX_WAIT_TIMEOUT, RegWrite rtxn INTR_TRIG_CMD]"
    "cmd_carries (cmdType ?nd) (take (unat wl) (aParamsBuf ?nd)) bytes" "bCmdInProgress m'"
    "uReadLen m' = rl + CMDMBOX_HEADER_LEN" "mbox_wf m'"
    by auto
  have r: "4 \<le> unat (uReadLen m')"
    unfolding s(5) using lens_bounds [OF nd lens]
    by (subst unat_add_small) (auto simp: CMDMBOX_HEADER_LEN_def MAX_CMD_PARAMS_def)
  define q' where "q' = q2\<lparr>hCmdMBox := m'\<rparr>"
  have "cmdQueue_SM_Send q = Inr (txn_rc TXN_STATUS_PENDING, q')"
    using s(1) lens by (simp add: cmdQueue_SM_Send_def Let_def q2_def q'_def split del: if_split)
      (simp split: if_splits)
  moreover have list: "cq_list q' = cq_list q"
    using same(2) by (simp add: q'_def cq_list_def)
  moreover have "cq_settled q'"
    using same n s(4,6) r by (auto simp: q'_def cq_settled_def cq_wf_def)
  moreover have "cq_sim base True q'"
  proof -
    let ?qd = "queued_of (drop base (cq_trace q))" and ?ws = "writes_of (drop base (cq_trace q))"
    obtain d where d: "list_all2 node_holds (drop d ?qd) (cq_list q)" "d \<le> length ?qd" "length ?ws = d"
        "list_all2 written_as (take d ?qd) ?ws"
      using sim by (auto simp: cq_sim_def Let_def)
    have len: "d < length ?qd" using list_all2_lengthD [OF d(1)] d(2) n by simp
    have "node_holds (?qd ! d) ?nd"
      using d(1) cq_list_hd [OF n h] len by (metis list_all2_Cons Cons_nth_drop_Suc)
    then have "written_as (?qd ! d) bytes" using lens_written [OF _ nd lens s(3)] by blast
    then have "list_all2 written_as (take (Suc d) ?qd) (?ws @ [bytes])"
      using d(4) len by (simp add: take_Suc_conv_app_nth list_all2_appendI)
    then show ?thesis
      using d(1-3) len tr by (simp add: cq_sim_def Let_def list) (auto simp: q'_def s(2))
  qed
  moreover have "bErrorFlag q' = bErrorFlag q" "bMboxEnabled q' = bMboxEnabled q" "cq_waiting q'"
    using same(3,5,6) by (simp_all add: q'_def)
  ultimately show ?thesis by blast
qed

definition cq_accepts :: "TCmdQueue \<Rightarrow> bool" where
  "cq_accepts q \<longleftrightarrow> \<not> bErrorFlag q \<and> bMboxEnabled q \<and> uNumberOfCommandInQueue q < CMDQUEUE_QUEUE_DEPTH"

lemma SendCommand_refused:
  assumes "cq_wf q" "\<not> cq_accepts q"
  shows "cmdQueue_SendCommand r q =
    Inr (if bErrorFlag q \<or> bMboxEnabled q then TI_NOK else TI_OK, q)"
  using assms by (auto simp: cmdQueue_SendCommand_def cmdQueue_Push_def cq_accepts_def cq_wf_def
      RC_CONVERT_def ti_rc_def txn_rc_def)

lemma RC_CONVERT_simps [simp]:
  "RC_CONVERT (txn_rc TXN_STATUS_PENDING) = TI_OK" "RC_CONVERT (ti_rc TI_OK) = TI_OK"
  by (simp_all add: RC_CONVERT_def)

text \<open>The invariants with the record: between events, and during a call out.\<close>

definition cq_good :: "nat \<Rightarrow> TCmdQueue \<Rightarrow> bool" where
  "cq_good base q \<longleftrightarrow> cq_settled q \<and> cq_sim base (cq_waiting q) q"

definition cq_mid :: "nat \<Rightarrow> TCmdQueue \<Rightarrow> bool" where
  "cq_mid base q \<longleftrightarrow> cq_calling q \<and> cq_sim base False q"

lemma SendCommand_good:
  assumes g: "cq_good base q" and r: "req_ok r"
  shows "\<exists>st q'. cmdQueue_SendCommand r q = Inr (st, q') \<and> cq_good base q' \<and>
    bErrorFlag q' = bErrorFlag q \<and> bMboxEnabled q' = bMboxEnabled q"
proof (cases "cq_accepts q")
  case False
  then show ?thesis using g by (auto simp: SendCommand_refused cq_good_def cq_settled_def)
next
  case True
  have wf: "cq_wf q" using g by (simp add: cq_good_def cq_settled_def)
  obtain q' nd where i: "cmdQueue_Insert r q = Inr q'" "cq_wf q'" "cq_list q' = cq_list q @ [nd]"
      "node_holds (req_cmd r) nd" "hCmdMBox q' = mb_emit (CmdQueued (rq_type r) (snd (req_cmd r))) (hCmdMBox q)"
      "uNumberOfCommandInQueue q' = Suc (uNumberOfCommandInQueue q)" "cq_state q' = cq_state q"
      "bErrorFlag q' = bErrorFlag q" "bMboxEnabled q' = bMboxEnabled q" "bAwake q' = bAwake q"
    using Insert_ok [OF wf _ r] True by (auto simp: cq_accepts_def)
  have sim: "cq_sim base (cq_waiting q) q'"
    using g i(3-5) by (intro cq_sim_queued [of base "cq_waiting q" q q' "rq_type r" "snd (req_cmd r)" nd])
      (auto simp: cq_good_def cq_settled_def req_cmd_def)
  show ?thesis
  proof (cases "uNumberOfCommandInQueue q")
    case 0
    then have idle: "cq_state q' = CMDQUEUE_STATE_IDLE" "\<not> bCmdInProgress (hCmdMBox q')"
      using g i by (auto simp: cq_good_def cq_settled_def intro: ECmdQueueSmStates.exhaust [of "cq_state q"])
    then have s: "cq_sim base False q'" using sim i(7) by simp
    from SM_Send_ok [OF i(2) s] idle i(6)
    obtain q'' where "cmdQueue_SM_Send q' = Inr (txn_rc TXN_STATUS_PENDING, q'')" "cq_settled q''"
        "cq_sim base True q''" "bErrorFlag q'' = bErrorFlag q'" "bMboxEnabled q'' = bMboxEnabled q'" "cq_waiting q''"
      by auto
    then show ?thesis
      using True i 0 idle
      by (simp add: cmdQueue_SendCommand_def cmdQueue_Push_def cq_accepts_def cmdQueue_SM_Run_def cq_good_def)
  next
    case (Suc n)
    have "cq_settled q'"
      using g i Suc by (auto simp: cq_good_def cq_settled_def)
    then show ?thesis
      using True i Suc sim
      by (simp add: cmdQueue_SendCommand_def cmdQueue_Push_def cq_accepts_def cq_good_def)
  qed
qed

lemma SendCommand_mid:
  assumes g: "cq_mid base q" and r: "req_ok r"
  shows "\<exists>st q'. cmdQueue_SendCommand r q = Inr (st, q') \<and> cq_mid base q' \<and>
    bErrorFlag q' = bErrorFlag q \<and> bMboxEnabled q' = bMboxEnabled q"
proof (cases "cq_accepts q")
  case False
  then show ?thesis using g by (auto simp: SendCommand_refused cq_mid_def cq_calling_def)
next
  case True
  have wf: "cq_wf q" using g by (simp add: cq_mid_def cq_calling_def)
  obtain q' nd where i: "cmdQueue_Insert r q = Inr q'" "cq_wf q'" "cq_list q' = cq_list q @ [nd]"
      "node_holds (req_cmd r) nd" "hCmdMBox q' = mb_emit (CmdQueued (rq_type r) (snd (req_cmd r))) (hCmdMBox q)"
      "cq_state q' = cq_state q" "bErrorFlag q' = bErrorFlag q" "bMboxEnabled q' = bMboxEnabled q"
      "bAwake q' = bAwake q"
    using Insert_ok [OF wf _ r] True by (auto simp: cq_accepts_def)
  have sim: "cq_sim base False q'"
    using g i(3-5) by (intro cq_sim_queued [of base False q q' "rq_type r" "snd (req_cmd r)" nd])
      (auto simp: cq_mid_def req_cmd_def)
  moreover have "cq_calling q'" using g i by (auto simp: cq_mid_def cq_calling_def)
  ultimately show ?thesis
    using True i
    by (simp add: cmdQueue_SendCommand_def cmdQueue_Push_def cq_accepts_def cq_mid_def cmdQueue_SM_Run_def
        cq_calling_def)
qed

text \<open>What a property of the queue needs to survive a call out of the driver whose callee sends
  commands.\<close>

definition benign :: "cmd_event \<Rightarrow> bool" where
  "benign e \<longleftrightarrow> queued_of [e] = [] \<and> writes_of [e] = []"

locale callback_safe =
  fixes P :: "TCmdQueue \<Rightarrow> bool"
  assumes send: "req_ok r \<Longrightarrow> P q \<Longrightarrow> \<exists>st q'. cmdQueue_SendCommand r q = Inr (st, q') \<and> P q'"
    and emit: "benign e \<Longrightarrow> P q \<Longrightarrow> P (cq_emit e q)"
begin

lemma send_all: "list_all req_ok rs \<Longrightarrow> P q \<Longrightarrow> \<exists>q'. cq_send_all rs q = Inr q' \<and> P q'"
proof (induction rs arbitrary: q)
  case (Cons r rs)
  then obtain st q' where "cmdQueue_SendCommand r q = Inr (st, q')" "P q'" using send by fastforce
  with Cons show ?case by simp
qed simp

lemma call:
  assumes "client_ok client" "benign e" "P q"
  shows "\<exists>q'. cq_call client e q = Inr q' \<and> P q'"
  using send_all [OF _ emit [OF assms(2,3)], of "client (cq_trace (cq_emit e q))"] assms(1)
  by (simp add: cq_call_def Let_def client_ok_def)

lemma timeout:
  assumes "client_ok client" "P q"
  shows "\<exists>q'. cmdMbox_TimeOut client q = Inr q' \<and> P q'"
  using call [OF assms(1) _ assms(2), of "FailureCb (fFailureCb q) (hFailureCb q) (ucast (ti_rc TI_NOK))"] assms(2)
  by (auto simp: cmdMbox_TimeOut_def cmdQueue_Error_def benign_def)

lemma call_saved:
  "client_ok client \<Longrightarrow> P q \<Longrightarrow> \<exists>q'. cmdQueue_CallSaved client n i q = Inr q' \<and> P q'"
proof (induction n arbitrary: i q)
  case (Suc n)
  have "benign (recovery_event rn)" for rn by (simp add: recovery_event_def benign_def)
  then obtain q' where "cq_call client (recovery_event (aRecoveryQueue q ! i)) q = Inr q'" "P q'"
    using call [OF Suc.prems(1) _ Suc.prems(2)] by blast
  with Suc show ?case by simp
qed simp

end

lemma cq_sim_emit [simp]: "benign e \<Longrightarrow> cq_sim base b q \<Longrightarrow> cq_sim base b (cq_emit e q)"
  by (auto simp: cq_sim_def Let_def benign_def)

lemma cq_mid_emit: "benign e \<Longrightarrow> cq_mid base q \<Longrightarrow> cq_mid base (cq_emit e q)"
  by (auto simp: cq_mid_def cq_calling_def)

lemma cq_good_emit: "benign e \<Longrightarrow> cq_good base q \<Longrightarrow> cq_good base (cq_emit e q)"
  by (auto simp: cq_good_def cq_settled_def)

interpretation good: callback_safe "cq_good base" for base
  by unfold_locales (use SendCommand_good cq_good_emit in blast)+

interpretation mid: callback_safe "\<lambda>q. cq_mid base q \<and> bErrorFlag q = b" for base b
  by unfold_locales (use SendCommand_mid cq_mid_emit in fastforce)+

lemma GetCmdParams_ok:
  assumes "mbox_wf m" "4 \<le> unat (uReadLen m)"
  shows "cmdMbox_GetCmdParams m = Inr (take (unat (uReadLen m) - 4) (parameters (tCmdMbox (aCmdTxn1 m))))"
proof -
  have "unat (uReadLen m - CMDMBOX_HEADER_LEN) = unat (uReadLen m) - 4"
    using assms(2) by (subst unat_sub_le) (simp_all add: CMDMBOX_HEADER_LEN_def)
  with assms show ?thesis by (auto simp: cmdMbox_GetCmdParams_def Let_def mbox_wf_def)
qed

lemma Notify_mid:
  assumes "cq_mid base q" "client_ok client"
  shows "\<exists>q'. cmdQueue_Notify client nd st q = Inr q' \<and> cq_mid base q' \<and> bErrorFlag q' = bErrorFlag q"
proof -
  have "\<exists>bs. cmdMbox_GetCmdParams (hCmdMBox q) = Inr bs"
    using assms(1) by (simp add: GetCmdParams_ok cq_mid_def cq_calling_def cq_wf_def)
  then obtain bs where bs: "cmdMbox_GetCmdParams (hCmdMBox q) = Inr bs" by blast
  have "cq_mid base (cq_emit (CopyResult p bs) q)" for p
    using assms(1) by (intro cq_mid_emit) (simp_all add: benign_def)
  with bs assms(1) mid.call [OF assms(2), of _ base _ "bErrorFlag q"] show ?thesis
    by (auto simp: cmdQueue_Notify_def benign_def)
qed

lemma Status_sel:
  assumes "cmdQueue_Status q = (st, q')"
  shows "q' = q\<lparr>bErrorFlag := (\<not> cmdStatus (tCmdMbox (aCmdTxn1 (hCmdMBox q))) \<in>
      {CMD_STATUS_SUCCESS, CMD_STATUS_REJECT_MEAS_SG_ACTIVE})\<rparr>"
  using assms by (auto simp: cmdQueue_Status_def cmdMbox_GetStatus_def Let_def split: if_splits)

lemma cq_mid_cong:
  "hCmdMBox q' = hCmdMBox q \<Longrightarrow> aCmdQueue q' = aCmdQueue q \<Longrightarrow> cq_head q' = cq_head q \<Longrightarrow>
   uNumberOfCommandInQueue q' = uNumberOfCommandInQueue q \<Longrightarrow> cq_tail q' = cq_tail q \<Longrightarrow>
   cq_state q' = cq_state q \<Longrightarrow> bAwake q' = bAwake q \<Longrightarrow> aRecoveryQueue q' = aRecoveryQueue q \<Longrightarrow>
   uNumberOfRecoveryNodes q' = uNumberOfRecoveryNodes q \<Longrightarrow> cq_mid base q' = cq_mid base q"
  using cq_sim_cong [of q' q base False] cq_list_cong [of q' q]
  by (simp add: cq_mid_def cq_calling_def cq_wf_def)

text \<open>The answer to the command at the head has arrived.\<close>

definition cq_answered :: "nat \<Rightarrow> TCmdQueue \<Rightarrow> bool" where
  "cq_answered base q \<longleftrightarrow> cq_calling q \<and> 0 < uNumberOfCommandInQueue q \<and> cq_sim base True q"

lemma Remove_mid:
  assumes "cq_answered base q"
  shows "cq_mid base (cmdQueue_Remove q)"
proof -
  let ?q' = "cmdQueue_Remove q" and ?qd = "queued_of (drop base (cq_trace q))"
  have wf: "cq_wf q" "0 < uNumberOfCommandInQueue q" using assms by (auto simp: cq_answered_def cq_calling_def)
  note rm = Remove_list [OF wf]
  obtain d where d: "list_all2 node_holds (drop d ?qd) (cq_list q)" "d \<le> length ?qd"
      "length (writes_of (drop base (cq_trace q))) = Suc d"
      "list_all2 written_as (take (Suc d) ?qd) (writes_of (drop base (cq_trace q)))"
      "base \<le> length (cq_trace q)"
    using assms by (auto simp: cq_answered_def cq_sim_def Let_def)
  have "list_all2 node_holds (drop (Suc d) ?qd) (cq_list ?q')"
  proof -
    have "drop (Suc d) ?qd = tl (drop d ?qd)" by (simp add: drop_Suc tl_drop)
    then show ?thesis using d(1) rm by (auto simp: list_all2_Cons2)
  qed
  moreover have "Suc d \<le> length ?qd" using list_all2_lengthD [OF d(1)] wf(2) by simp
  moreover have "cq_trace ?q' = cq_trace q" by (simp add: cmdQueue_Remove_def Let_def)
  ultimately have "cq_sim base False ?q'"
    using d(3-5) by (auto simp: cq_sim_def Let_def intro!: exI [of _ "Suc d"])
  moreover have "cq_calling ?q'"
    using assms rm by (auto simp: cq_answered_def cq_calling_def) (auto simp: cmdQueue_Remove_def Let_def)
  ultimately show ?thesis by (simp add: cq_mid_def)
qed

lemma SM_Complete_good:
  assumes a: "cq_answered base q" and cl: "client_ok client"
  shows "\<exists>rc q'. cmdQueue_SM_Complete client q = Inr (rc, q') \<and> cq_good base q'"
proof -
  let ?nd = "aCmdQueue q ! cq_head q"
  obtain st q1 where s: "cmdQueue_Status (cmdQueue_Remove q) = (st, q1)" by fastforce
  have "cq_mid base q1"
    using Remove_mid [OF a] unfolding Status_sel [OF s] by (subst cq_mid_cong [of _ "cmdQueue_Remove q"]) simp_all
  from Notify_mid [OF this cl] obtain q2 where
    q2: "cmdQueue_Notify client ?nd st q1 = Inr q2" "cq_mid base q2" by blast
  show ?thesis
  proof (cases "0 < uNumberOfCommandInQueue q2")
    case True
    let ?q3 = "q2\<lparr>cq_state := CMDQUEUE_STATE_IDLE\<rparr>"
    have "cq_wf ?q3" "cq_sim base False ?q3" "\<not> bCmdInProgress (hCmdMBox ?q3)" "0 < uNumberOfCommandInQueue ?q3"
      using q2(2) True by (auto simp: cq_mid_def cq_calling_def cq_wf_def cq_sim_def cq_list_def)
    from SM_Send_ok [OF this(1,2,4,3)] show ?thesis
      using s q2 True by (auto simp: cmdQueue_SM_Complete_def Let_def cmdQueue_SM_Run_def cq_good_def)
  next
    case False
    let ?q3 = "(cq_emit TwIfSleep q2)\<lparr>bAwake := False, cq_state := CMDQUEUE_STATE_IDLE\<rparr>"
    have "cq_settled ?q3" using q2(2) False by (auto simp: cq_settled_def cq_mid_def cq_calling_def cq_wf_def)
    moreover have "cq_sim base False ?q3"
      using cq_mid_emit [OF _ q2(2), of TwIfSleep] by (simp add: benign_def cq_mid_def cq_sim_def cq_list_def)
    ultimately show ?thesis
      using s q2 False by (auto simp: cmdQueue_SM_Complete_def Let_def cq_good_def)
  qed
qed

section \<open>The events of the mailbox\<close>

lemma cq_good_mbox:
  assumes "cq_good base q" "mbox_wf m" "bCmdInProgress m = bCmdInProgress (hCmdMBox q)"
    "uReadLen m = uReadLen (hCmdMBox q)" "mb_trace m = cq_trace q @ es"
    "queued_of es = []" "writes_of es = []"
  shows "cq_good base (q\<lparr>hCmdMBox := m\<rparr>)"
  using assms by (auto simp: cq_good_def cq_settled_def cq_wf_def cq_sim_def cq_list_def Let_def)

lemma StartRead_trace:
  "\<exists>txn. mb_trace (cmdMbox_StartRead m) = mb_trace m @ [CmdTmrStop, CmdRead txn]"
  by (simp add: cmdMbox_StartRead_def Let_def mb_emit_def)

lemma StartRead_good:
  assumes "cq_good base q"
  shows "cq_good base (q\<lparr>hCmdMBox := cmdMbox_StartRead (hCmdMBox q)\<rparr>)"
proof -
  obtain txn where "mb_trace (cmdMbox_StartRead (hCmdMBox q)) = cq_trace q @ [CmdTmrStop, CmdRead txn]"
    using StartRead_trace by blast
  then show ?thesis
    using assms by (intro cq_good_mbox) (auto simp: cq_good_def cq_settled_def cq_wf_def)
qed

lemma TransferComplete_good:
  assumes g: "cq_good base q" and cl: "client_ok client"
  shows "\<exists>q'. cmdMbox_TransferComplete client resp q = Inr (TI_OK, q') \<and> cq_good base q'"
proof -
  have "mbox_wf (hCmdMBox q)" using g by (simp add: cq_good_def cq_settled_def cq_wf_def)
  from BusRead_wf [OF this, of resp] obtain m c where m: "cmdMbox_BusRead resp (hCmdMBox q) = Inr m" "mbox_wf m"
      "m = (hCmdMBox q)\<lparr>aCmdTxn1 := (aCmdTxn1 (hCmdMBox q))\<lparr>tCmdMbox := c\<rparr>\<rparr>" by blast
  let ?q1 = "q\<lparr>hCmdMBox := m\<lparr>bCmdInProgress := False\<rparr>\<rparr>"
  have wf: "mbox_wf (m\<lparr>bCmdInProgress := False\<rparr>)" using m(2) by (simp add: mbox_wf_def)
  show ?thesis
  proof (cases "cq_state q")
    case CMDQUEUE_STATE_IDLE
    then have "cq_good base ?q1"
      using g m(3) wf by (intro cq_good_mbox [where es = "[]"]) (auto simp: cq_good_def cq_settled_def)
    then show ?thesis
      using m(1) CMDQUEUE_STATE_IDLE
      by (simp add: cmdMbox_TransferComplete_def cmdQueue_ResultReceived_def cmdQueue_SM_def)
  next
    case CMDQUEUE_STATE_WAIT_FOR_COMPLETION
    have "cq_sim base True ?q1"
      using g m(3) CMDQUEUE_STATE_WAIT_FOR_COMPLETION by (simp add: cq_good_def cq_sim_def cq_list_def)
    then have "cq_answered base ?q1"
      using g m(3) wf CMDQUEUE_STATE_WAIT_FOR_COMPLETION
      by (simp add: cq_answered_def cq_calling_def cq_good_def cq_settled_def cq_wf_def)
    from SM_Complete_good [OF this cl] show ?thesis
      using m(1) CMDQUEUE_STATE_WAIT_FOR_COMPLETION
      by (auto simp: cmdMbox_TransferComplete_def cmdQueue_ResultReceived_def cmdQueue_SM_def)
  qed
qed

lemma CommandComplete_good:
  assumes g: "cq_good base q" and cl: "client_ok client"
  shows "\<exists>q'. cmdMbox_CommandComplete client rc resp q = Inr (TXN_STATUS_COMPLETE, q') \<and> cq_good base q'"
  using TransferComplete_good [OF StartRead_good [OF g] cl, of resp] StartRead_good [OF g]
  by (auto simp: cmdMbox_CommandComplete_def Let_def)

section \<open>Recovery\<close>

definition saved_node :: "TCmdQueueNode \<Rightarrow> TCmdQueueRecoveryNode" where
  "saved_node nd = \<lparr>rn_fCb = nd_fCb nd, rn_hCb = nd_hCb nd, rn_pInterrogateBuf = pInterrogateBuf nd\<rparr>"

definition saved_nodes :: "TCmdQueueNode list \<Rightarrow> TCmdQueueRecoveryNode list" where
  "saved_nodes nds = map saved_node (filter (\<lambda>nd. nd_fCb nd \<noteq> 0) nds)"

lemma length_saved_nodes: "length (saved_nodes nds) \<le> length nds"
  by (simp add: saved_nodes_def)

lemma Save_result:
  assumes "uNumberOfRecoveryNodes q + n \<le> length (aRecoveryQueue q)" "f < CMDQUEUE_QUEUE_DEPTH"
  defines "sv \<equiv> saved_nodes (map (\<lambda>i. aCmdQueue q ! ((f + i) mod CMDQUEUE_QUEUE_DEPTH)) [0..<n])"
  shows "\<exists>rq. cmdQueue_Save n f q = q\<lparr>aRecoveryQueue := rq,
      uNumberOfRecoveryNodes := uNumberOfRecoveryNodes q + length sv\<rparr> \<and> length rq = length (aRecoveryQueue q) \<and>
      take (uNumberOfRecoveryNodes q + length sv) rq = take (uNumberOfRecoveryNodes q) (aRecoveryQueue q) @ sv"
  unfolding sv_def using assms(1,2)
proof (induction n arbitrary: f q)
  case 0
  then show ?case by (auto simp: saved_nodes_def intro!: exI [of _ "aRecoveryQueue q"])
next
  case (Suc n)
  let ?nd = "aCmdQueue q ! f" and ?k = "uNumberOfRecoveryNodes q"
  let ?rest = "map (\<lambda>i. aCmdQueue q ! (((f + 1) mod CMDQUEUE_QUEUE_DEPTH + i) mod CMDQUEUE_QUEUE_DEPTH)) [0..<n]"
  have split: "map (\<lambda>i. aCmdQueue q ! ((f + i) mod CMDQUEUE_QUEUE_DEPTH)) [0..<Suc n] = ?nd # ?rest"
    using Suc.prems(2) by (simp add: upt_conv_Cons map_Suc_upt [symmetric] mod_simps del: upt_Suc)
  note next_f = ring_step(2) [OF Suc.prems(2)]
  have f': "(f + 1) mod CMDQUEUE_QUEUE_DEPTH < CMDQUEUE_QUEUE_DEPTH" by simp
  show ?case
  proof (cases "nd_fCb ?nd \<noteq> 0")
    case True
    let ?q = "q\<lparr>aRecoveryQueue := (aRecoveryQueue q)[?k := saved_node ?nd], uNumberOfRecoveryNodes := ?k + 1\<rparr>"
    have e: "cmdQueue_Save (Suc n) f q = cmdQueue_Save n ((f + 1) mod CMDQUEUE_QUEUE_DEPTH) ?q"
      using True next_f by (simp only: cmdQueue_Save.simps Let_def saved_node_def if_True simp_thms)
    obtain rq where rq: "cmdQueue_Save n ((f + 1) mod CMDQUEUE_QUEUE_DEPTH) ?q = ?q\<lparr>aRecoveryQueue := rq,
        uNumberOfRecoveryNodes := ?k + 1 + length (saved_nodes ?rest)\<rparr>" "length rq = length (aRecoveryQueue q)"
        "take (?k + 1 + length (saved_nodes ?rest)) rq =
          take (?k + 1) ((aRecoveryQueue q)[?k := saved_node ?nd]) @ saved_nodes ?rest"
      using Suc.IH [of ?q, OF _ f'] Suc.prems(1) by auto
    moreover have "take (?k + 1) ((aRecoveryQueue q)[?k := saved_node ?nd]) = take ?k (aRecoveryQueue q) @ [saved_node ?nd]"
      using Suc.prems(1) by (simp add: take_Suc_conv_app_nth)
    moreover have "saved_nodes (?nd # ?rest) = saved_node ?nd # saved_nodes ?rest"
      using True by (simp add: saved_nodes_def)
    ultimately show ?thesis
      unfolding split e by (intro exI [of _ rq]) simp
  next
    case False
    have e: "cmdQueue_Save (Suc n) f q = cmdQueue_Save n ((f + 1) mod CMDQUEUE_QUEUE_DEPTH) q"
      using False next_f by (simp only: cmdQueue_Save.simps Let_def if_False)
    have "saved_nodes (?nd # ?rest) = saved_nodes ?rest" using False by (simp add: saved_nodes_def)
    then show ?thesis
      unfolding split e using Suc.IH [of q, OF _ f'] Suc.prems(1) by simp
  qed
qed

lemma Stop_result:
  assumes "cq_wf q"
  shows "\<exists>rq. TWD_Stop_cmd q = q\<lparr>hCmdMBox := cmdMbox_Restart (hCmdMBox q), cq_state := CMDQUEUE_STATE_IDLE,
      bAwake := False, aRecoveryQueue := rq, uNumberOfRecoveryNodes := length (saved_nodes (cq_list q)),
      cq_head := 0, cq_tail := 0, uNumberOfCommandInQueue := 0, bMboxEnabled := False\<rparr> \<and>
    length rq = CMDQUEUE_QUEUE_DEPTH \<and> take (length (saved_nodes (cq_list q))) rq = saved_nodes (cq_list q)"
proof -
  let ?q = "q\<lparr>hCmdMBox := cmdMbox_Restart (hCmdMBox q), cq_state := CMDQUEUE_STATE_IDLE, bAwake := False,
    uNumberOfRecoveryNodes := 0\<rparr>"
  have "\<exists>rq. cmdQueue_Save (uNumberOfCommandInQueue q) (cq_head q) ?q = ?q\<lparr>aRecoveryQueue := rq,
      uNumberOfRecoveryNodes := length (saved_nodes (cq_list q))\<rparr> \<and> length rq = CMDQUEUE_QUEUE_DEPTH \<and>
      take (length (saved_nodes (cq_list q))) rq = saved_nodes (cq_list q)"
    using Save_result [of ?q "uNumberOfCommandInQueue q" "cq_head q"] assms
    by (auto simp: cq_wf_def cq_list_def)
  then show ?thesis
    by (auto simp: TWD_Stop_cmd_def cmdQueue_Restart_def cmdQueue_DisableMbox_def Let_def)
qed

lemma Stop_good:
  assumes "cq_good base q"
  shows "cq_good (length (cq_trace (TWD_Stop_cmd q))) (TWD_Stop_cmd q)"
proof -
  have wf: "cq_wf q" using assms by (simp add: cq_good_def cq_settled_def)
  have "mbox_wf (cmdMbox_Restart (hCmdMBox q))" "\<not> bCmdInProgress (cmdMbox_Restart (hCmdMBox q))"
    using wf by (simp_all add: cq_wf_def cmdMbox_Restart_def mbox_wf_def mb_emit_def)
  with Stop_result [OF wf] length_saved_nodes [of "cq_list q"] wf show ?thesis
    by (auto simp: cq_good_def cq_settled_def cq_wf_def cq_sim_def cq_list_def)
qed

lemma EndReconfig_good:
  assumes "cq_good base q" "client_ok client"
  shows "\<exists>q'. cmdQueue_EndReconfig client q = Inr (TI_OK, q') \<and> cq_good base q'"
proof -
  obtain q' where "cmdQueue_CallSaved client (uNumberOfRecoveryNodes q) 0 q = Inr q'" "cq_good base q'"
    using good.call_saved [OF assms(2,1)] by blast
  then show ?thesis
    by (auto simp: cmdQueue_EndReconfig_def cq_good_def cq_settled_def cq_wf_def cq_sim_def cq_list_def)
qed

section \<open>Reachable states\<close>

inductive cq_step :: "TCmdQueue \<Rightarrow> TCmdQueue \<Rightarrow> bool" where
  step_send: "req_ok r \<Longrightarrow> cmdQueue_SendCommand r q = Inr (st, q') \<Longrightarrow> cq_step q q'"
| step_complete:
    "client_ok client \<Longrightarrow> cmdMbox_CommandComplete client rc resp q = Inr (st, q') \<Longrightarrow> cq_step q q'"
| step_transfer:
    "client_ok client \<Longrightarrow> cmdMbox_TransferComplete client resp q = Inr (st, q') \<Longrightarrow> cq_step q q'"
| step_timeout: "client_ok client \<Longrightarrow> cmdMbox_TimeOut client q = Inr q' \<Longrightarrow> cq_step q q'"
| step_reconfig: "client_ok client \<Longrightarrow> cmdQueue_EndReconfig client q = Inr (st, q') \<Longrightarrow> cq_step q q'"
| step_enable: "cmdQueue_EnableMbox q = (st, q') \<Longrightarrow> cq_step q q'"
| step_disable: "cmdQueue_DisableMbox q = (st, q') \<Longrightarrow> cq_step q q'"
| step_generic: "cmdQueue_RegisterCmdCompleteGenericCb f h q = (st, q') \<Longrightarrow> cq_step q q'"
| step_failure: "cmdQueue_RegisterForErrorCb f h q = (st, q') \<Longrightarrow> cq_step q q'"
| step_address: "cq_step q (q\<lparr>hCmdMBox := snd (cmdMbox_ConfigHw f h rc reg (hCmdMBox q))\<rparr>)"
| step_address_cb: "cq_step q (q\<lparr>hCmdMBox := cmdMbox_ConfigHwCb reg (hCmdMBox q)\<rparr>)"

text \<open>\<open>base\<close> is the length of the record at the last stop of the driver.\<close>

inductive cq_reach :: "nat \<Rightarrow> TCmdQueue \<Rightarrow> bool" where
  reach_init: "cmdMbox_Create a bufs = Some m \<Longrightarrow> cmdQueue_Create b m = Some q \<Longrightarrow>
    cq_reach 0 (snd (cmdQueue_Init tmr q))"
| reach_step: "cq_reach base q \<Longrightarrow> cq_step q q' \<Longrightarrow> cq_reach base q'"
| reach_stop: "cq_reach base q \<Longrightarrow> cq_reach (length (cq_trace (TWD_Stop_cmd q))) (TWD_Stop_cmd q)"

lemma Init_good:
  assumes "cmdMbox_Create a bufs = Some m" "cmdQueue_Create b m = Some q"
  shows "cq_good 0 (snd (cmdQueue_Init tmr q))"
proof -
  have "mbox_wf m" "mb_trace m = []"
    using Create_wf [OF assms(1)] assms(1) by (auto simp: cmdMbox_Create_def split: if_splits prod.splits)
  moreover have "node_ok node_zero" by (simp add: node_ok_def node_zero_def)
  ultimately show ?thesis
    using assms(2)
    by (auto simp: cmdQueue_Create_def cmdQueue_Init_def cmdMbox_Init_def cq_good_def cq_settled_def cq_wf_def
        mbox_wf_def cq_sim_def cq_list_def list_all_length split: if_splits)
qed

lemma cq_good_cong:
  assumes "cq_good base q" and m: "hCmdMBox q' = hCmdMBox q"
    and r: "aCmdQueue q' = aCmdQueue q" "cq_head q' = cq_head q"
      "uNumberOfCommandInQueue q' = uNumberOfCommandInQueue q"
    and o: "cq_tail q' = cq_tail q" "cq_state q' = cq_state q" "bAwake q' = bAwake q"
      "aRecoveryQueue q' = aRecoveryQueue q" "uNumberOfRecoveryNodes q' = uNumberOfRecoveryNodes q"
  shows "cq_good base q'"
proof -
  have "cq_sim base (cq_waiting q') q'"
    using assms(1) cq_sim_cong [of q' q, OF _ cq_list_cong [OF r]] m o(2) by (simp add: cq_good_def)
  moreover have "cq_settled q'"
    using assms(1) m r o by (simp add: cq_good_def cq_settled_def cq_wf_def)
  ultimately show ?thesis by (simp add: cq_good_def)
qed

lemma step_good:
  assumes "cq_step q q'" "cq_good base q"
  shows "cq_good base q'"
  using assms
proof (induction rule: cq_step.induct)
  case (step_send r q st q') then show ?case using SendCommand_good [of base q r] by auto
next
  case (step_complete client rc resp q st q') then show ?case using CommandComplete_good [of base q client rc resp] by auto
next
  case (step_transfer client resp q st q') then show ?case using TransferComplete_good [of base q client resp] by auto
next
  case (step_timeout client q q') then show ?case using good.timeout [of client base q] by auto
next
  case (step_reconfig client q st q') then show ?case using EndReconfig_good [of base q client] by auto
next
  case (step_enable q st q') then show ?case by (auto simp: cmdQueue_EnableMbox_def intro: cq_good_cong)
next
  case (step_disable q st q') then show ?case by (auto simp: cmdQueue_DisableMbox_def intro: cq_good_cong)
next
  case (step_generic f h q st q')
  then show ?case
    by (auto simp: cmdQueue_RegisterCmdCompleteGenericCb_def intro: cq_good_cong split: if_splits)
next
  case (step_failure f h q st q')
  then show ?case by (auto simp: cmdQueue_RegisterForErrorCb_def intro: cq_good_cong split: if_splits)
next
  case (step_address q f h rc reg)
  have "\<exists>txn. mb_trace (snd (cmdMbox_ConfigHw f h rc reg (hCmdMBox q))) = cq_trace q @ [RegRead txn]"
    by (simp add: cmdMbox_ConfigHw_def Let_def mb_emit_def)
  then obtain txn where "mb_trace (snd (cmdMbox_ConfigHw f h rc reg (hCmdMBox q))) = cq_trace q @ [RegRead txn]" ..
  with step_address show ?case
    by (intro cq_good_mbox [where es = "[RegRead txn]"])
      (auto simp: cmdMbox_ConfigHw_def Let_def mb_emit_def mbox_wf_def cq_good_def cq_settled_def cq_wf_def)
next
  case (step_address_cb q reg)
  then show ?case
    by (intro cq_good_mbox [where es = "[MboxNotifyCb (mb_fCb (hCmdMBox q)) (mb_hCb (hCmdMBox q)) (ti_rc TI_OK)]"])
      (auto simp: cmdMbox_ConfigHwCb_def mb_emit_def mbox_wf_def cq_good_def cq_settled_def cq_wf_def)
qed

lemma reach_good: "cq_reach base q \<Longrightarrow> cq_good base q"
  by (induction rule: cq_reach.induct) (auto intro: Init_good step_good Stop_good)

end
