(* ===== verification/CmdQueueSpec.thy ===== *)
theory CmdQueueSpec
  imports CmdQueueProps
begin

text \<open>
  What the command path of the driver promises: the properties of \<open>CmdQueue\<close> and \<open>CmdMBox\<close> over all
  reachable states, with concrete runs as witnesses, and the cases in which the code does not do
  what its comments say.
\<close>

section \<open>A concrete queue\<close>

definition demo_req :: "u16 \<Rightarrow> addr \<Rightarrow> cmd_request" where
  "demo_req t f = \<lparr>rq_type = t, rq_buf = [7, 0, 2, 0, 9, 9], rq_len = 6, rq_fCb = f, rq_hCb = 70, rq_pCb = 0\<rparr>"

definition demo_queue :: TCmdQueue where
  "demo_queue = snd (cmdQueue_EnableMbox (snd (cmdQueue_Init 5 (the (cmdQueue_Create 2 mbox_demo)))))"

definition silent :: cmd_client where "silent = (\<lambda>tr. [])"

lemma demo_req_ok [simp]: "req_ok (demo_req t f)"
  by (simp add: req_ok_def demo_req_def MAX_CMD_PARAMS_def)

lemma silent_ok [simp]: "client_ok silent"
  by (simp add: client_ok_def silent_def)

lemma silent_call [simp]: "cq_call silent e q = Inr (cq_emit e q)"
  by (simp add: cq_call_def silent_def Let_def)

lemma demo_reach: "cq_reach 0 demo_queue"
proof -
  have "cmdMbox_Create 1 (100, 200, 300, 400) = Some mbox_demo"
    by (simp add: mbox_demo_def cmdMbox_Create_def)
  moreover have "cmdQueue_Create 2 mbox_demo = Some (the (cmdQueue_Create 2 mbox_demo))"
    by (simp add: cmdQueue_Create_def)
  ultimately have "cq_reach 0 (snd (cmdQueue_Init 5 (the (cmdQueue_Create 2 mbox_demo))))"
    by (rule reach_init)
  then show ?thesis
    unfolding demo_queue_def by (rule reach_step) (rule step_enable, simp add: cmdQueue_EnableMbox_def)
qed

lemma demo_empty: "uNumberOfCommandInQueue demo_queue = 0" "cq_state demo_queue = CMDQUEUE_STATE_IDLE"
    "bErrorFlag demo_queue = False" "bMboxEnabled demo_queue" "cq_trace demo_queue = []"
  by (simp_all add: demo_queue_def cmdQueue_EnableMbox_def cmdQueue_Init_def cmdMbox_Init_def
      cmdQueue_Create_def mbox_demo_def cmdMbox_Create_def)

section \<open>Invariant and safety\<close>

text \<open>C25: In every reachable state the ring is well formed (30 nodes, at most 30 of them in use, the
  tail where the head and the count put it), and the parts agree on whether a command is out: the
  state machine waits for an answer exactly when there is a command in the queue, exactly when the
  mailbox is busy, and exactly when the chip is kept awake.\<close>

theorem cmdQueue_reach_invariant:
  assumes "cq_reach base q"
  shows "cq_wf q \<and> (cq_waiting q \<longleftrightarrow> 0 < uNumberOfCommandInQueue q) \<and>
    (bCmdInProgress (hCmdMBox q) \<longleftrightarrow> cq_waiting q) \<and> (bAwake q \<longleftrightarrow> cq_waiting q)"
  using reach_good [OF assms] by (auto simp: cq_good_def cq_settled_def)

theorem cmdQueue_reach_invariant_witness: "cq_wf demo_queue \<and> \<not> bCmdInProgress (hCmdMBox demo_queue)"
  using cmdQueue_reach_invariant [OF demo_reach] by (simp add: demo_empty)

text \<open>No reachable state leads to an access outside a buffer: whatever the owners of the
  commands send from their callbacks and whatever the firmware answers, every operation returns, as
  long as the commands given to the queue fit its nodes.\<close>

theorem cmdQueue_never_overruns:
  assumes "cq_reach base q" "req_ok r" "client_ok client"
  shows "(\<exists>st q'. cmdQueue_SendCommand r q = Inr (st, q')) \<and>
    (\<exists>q'. cmdMbox_CommandComplete client rc resp q = Inr (TXN_STATUS_COMPLETE, q')) \<and>
    (\<exists>q'. cmdMbox_TransferComplete client resp q = Inr (TI_OK, q')) \<and>
    (\<exists>q'. cmdMbox_TimeOut client q = Inr q') \<and> (\<exists>q'. cmdQueue_EndReconfig client q = Inr (TI_OK, q'))"
proof (intro conjI)
  note g = reach_good [OF assms(1)]
  show "\<exists>st q'. cmdQueue_SendCommand r q = Inr (st, q')" using SendCommand_good [OF g assms(2)] by blast
  show "\<exists>q'. cmdMbox_CommandComplete client rc resp q = Inr (TXN_STATUS_COMPLETE, q')"
    using CommandComplete_good [OF g assms(3)] by blast
  show "\<exists>q'. cmdMbox_TransferComplete client resp q = Inr (TI_OK, q')"
    using TransferComplete_good [OF g assms(3)] by blast
  show "\<exists>q'. cmdMbox_TimeOut client q = Inr q'" using good.timeout [OF assms(3) g] by blast
  show "\<exists>q'. cmdQueue_EndReconfig client q = Inr (TI_OK, q')" using EndReconfig_good [OF g assms(3)] by blast
qed

theorem cmdQueue_never_overruns_witness:
  "\<exists>q'. cmdMbox_CommandComplete silent TXN_STATUS_COMPLETE (\<lambda>i. 0) demo_queue = Inr (TXN_STATUS_COMPLETE, q')"
  using cmdQueue_never_overruns [OF demo_reach demo_req_ok silent_ok] by blast

text \<open>A command longer than a node's buffer runs over it: nothing checks the length.\<close>

lemma cmdQueue_long_command:
  assumes "cq_reach base q" "bMboxEnabled q" "\<not> bErrorFlag q"
    "uNumberOfCommandInQueue q < CMDQUEUE_QUEUE_DEPTH" "MAX_CMD_PARAMS < unat (rq_len r)"
  shows "cmdQueue_SendCommand r q = Inl OutOfBounds"
proof -
  have wf: "cq_wf q" using reach_good [OF assms(1)] by (simp add: cq_good_def cq_settled_def)
  then have "length (aParamsBuf (aCmdQueue q ! cq_tail q)) = MAX_CMD_PARAMS"
    by (auto simp: cq_wf_def list_all_length node_ok_def)
  then have "cmdQueue_Insert r q = Inl OutOfBounds"
    using assms(5) by (simp add: cmdQueue_Insert_def Let_def buf_copy_def)
  then show ?thesis using assms(2-4) by (simp add: cmdQueue_SendCommand_def cmdQueue_Push_def)
qed

section \<open>Order\<close>

text \<open>C2: Since the last stop of the driver, the commands written to the mailbox are a prefix of the
  commands the queue has taken: each is written once, in order, with its type and its parameters;
  those not yet written are in the ring, in order, behind the one that is out.\<close>

theorem cmdQueue_commands_in_order:
  assumes "cq_reach base q"
  defines "taken \<equiv> queued_of (drop base (cq_trace q))"
    and "written \<equiv> writes_of (drop base (cq_trace q))"
  shows "length written \<le> length taken \<and>
    list_all2 written_as (take (length written) taken) written \<and>
    list_all2 node_holds (drop (length written - (if cq_waiting q then 1 else 0)) taken) (cq_list q)"
proof -
  have g: "cq_settled q" "cq_sim base (cq_waiting q) q"
    using reach_good [OF assms(1)] by (auto simp: cq_good_def)
  then obtain d where d: "list_all2 node_holds (drop d taken) (cq_list q)" "d \<le> length taken"
      "length written = d + (if cq_waiting q then 1 else 0)"
      "list_all2 written_as (take (length written) taken) written"
    by (auto simp: cq_sim_def Let_def taken_def written_def)
  moreover have "length written \<le> length taken"
    using list_all2_lengthD [OF d(1)] d(2,3) g(1) by (auto simp: cq_settled_def)
  ultimately show ?thesis by simp
qed

theorem cmdQueue_commands_in_order_witness:
  "\<exists>st q. cmdQueue_SendCommand (demo_req CMD_CONFIGURE 0) demo_queue = Inr (st, q) \<and>
    length (writes_of (cq_trace q)) \<le> length (queued_of (cq_trace q))"
proof -
  obtain st q where q: "cmdQueue_SendCommand (demo_req CMD_CONFIGURE 0) demo_queue = Inr (st, q)"
    using SendCommand_good [OF reach_good [OF demo_reach] demo_req_ok] by blast
  have "cq_reach 0 q" using reach_step [OF demo_reach step_send [OF demo_req_ok q]] .
  with cmdQueue_commands_in_order [of 0 q] q show ?thesis by auto
qed

section \<open>Completion\<close>

text \<open>The status the owner of a command is given for the firmware's status word.\<close>

definition owner_status :: "u16 \<Rightarrow> u16" where
  "owner_status st = (if st = CMD_STATUS_SUCCESS then 0
     else if st = CMD_STATUS_REJECT_MEAS_SG_ACTIVE then 22 else 1)"

text \<open>What the owner of node \<open>nd\<close> sees; \<open>bs\<close> are the answer's parameters.\<close>

definition owner_events :: "TCmdQueue \<Rightarrow> TCmdQueueNode \<Rightarrow> u16 \<Rightarrow> u8 list \<Rightarrow> cmd_event list" where
  "owner_events q nd st bs =
     (if nd_fCb nd \<noteq> 0 then
        if pInterrogateBuf nd \<noteq> 0
        then [CopyResult (pInterrogateBuf nd) bs, InterrogateCb (nd_fCb nd) (nd_hCb nd) st (pInterrogateBuf nd)]
        else [CmdCb (nd_fCb nd) (nd_hCb nd) st]
      else if fCmdCompleteCb q \<noteq> 0
      then [GenericCb (fCmdCompleteCb q) (hCmdCompleteCb q) (cmdType nd) (node_uParam nd) st]
      else [])"

lemma SM_Send_trace:
  assumes "cmdQueue_SM_Send q = Inr (rc, q')"
  shows "\<exists>es. cq_trace q' = cq_trace q @ es \<and> queued_of es = []"
proof -
  have "\<exists>es. mb_trace m' = mb_trace m @ es \<and> queued_of es = []"
    if "cmdMbox_SendCommand t p wl rl m = Inr (rc, m')" for t p wl rl m rc m'
    using that by (auto simp: cmdMbox_SendCommand_def Let_def split: if_splits sum.splits)
  with assms show ?thesis
    by (fastforce simp: cmdQueue_SM_Send_def Let_def split: prod.splits sum.splits if_splits)
qed

lemma SendCommand_trace:
  assumes "cmdQueue_SendCommand r q = Inr (st, q')"
  shows "\<exists>es. cq_trace q' = cq_trace q @ es"
  using assms SM_Send_trace
  by (fastforce simp: cmdQueue_SendCommand_def cmdQueue_Push_def cmdQueue_Insert_def cmdQueue_SM_Run_def Let_def
      split: prod.splits sum.splits if_splits ECmdQueueSmStates.splits)

lemma call_trace:
  assumes "cq_call client e q = Inr q'"
  shows "\<exists>es. cq_trace q' = cq_trace q @ e # es"
proof -
  have "cq_send_all rs x = Inr y \<Longrightarrow> \<exists>es. cq_trace y = cq_trace x @ es" for rs x y
  proof (induction rs arbitrary: x)
    case (Cons r rs)
    then show ?case by (fastforce dest: SendCommand_trace split: sum.splits prod.splits)
  qed simp
  from this [of "client (cq_trace (cq_emit e q))" "cq_emit e q" q'] assms show ?thesis
    by (auto simp: cq_call_def Let_def)
qed

lemma Notify_trace:
  assumes "cmdQueue_Notify client nd st q = Inr q'" "cmdMbox_GetCmdParams (hCmdMBox q) = Inr bs"
  shows "\<exists>es. cq_trace q' = cq_trace q @ owner_events q nd (ucast st) bs @ es"
  using assms call_trace
  by (fastforce simp: cmdQueue_Notify_def owner_events_def split: if_splits)

lemma Status_result:
  "cmdQueue_Status q = (st, q1) \<Longrightarrow>
   ucast st = owner_status (cmdStatus (tCmdMbox (aCmdTxn1 (hCmdMBox q)))) \<and>
   (\<exists>b. q1 = q\<lparr>bErrorFlag := b\<rparr>)"
  by (auto simp: cmdQueue_Status_def cmdMbox_GetStatus_def Let_def owner_status_def ti_rc_def
      SG_REJECT_MEAS_SG_ACTIVE_def CMD_STATUS_REJECT_MEAS_SG_ACTIVE_def CMD_STATUS_SUCCESS_def split: if_splits)

lemma SM_Complete_trace:
  assumes c: "cmdQueue_SM_Complete client q = Inr (rc, q')"
    and m: "mbox_wf (hCmdMBox q)" "4 \<le> unat (uReadLen (hCmdMBox q))"
  shows "\<exists>es. cq_trace q' = cq_trace q @ owner_events q (aCmdQueue q ! cq_head q)
      (owner_status (cmdStatus (tCmdMbox (aCmdTxn1 (hCmdMBox q)))))
      (take (unat (uReadLen (hCmdMBox q)) - 4) (parameters (tCmdMbox (aCmdTxn1 (hCmdMBox q))))) @ es"
proof -
  let ?nd = "aCmdQueue q ! cq_head q" and ?m = "hCmdMBox q"
  have rm: "hCmdMBox (cmdQueue_Remove q) = ?m" "fCmdCompleteCb (cmdQueue_Remove q) = fCmdCompleteCb q"
      "hCmdCompleteCb (cmdQueue_Remove q) = hCmdCompleteCb q"
    by (simp_all add: cmdQueue_Remove_def Let_def)
  obtain st q1 where s: "cmdQueue_Status (cmdQueue_Remove q) = (st, q1)" by fastforce
  obtain b where q1: "q1 = (cmdQueue_Remove q)\<lparr>bErrorFlag := b\<rparr>"
      and st: "ucast st = owner_status (cmdStatus (tCmdMbox (aCmdTxn1 ?m)))"
    using Status_result [OF s] rm by auto
  obtain q2 where q2: "cmdQueue_Notify client ?nd st q1 = Inr q2"
    using c s by (auto simp: cmdQueue_SM_Complete_def Let_def split: sum.splits)
  have "cmdMbox_GetCmdParams (hCmdMBox q1) = Inr (take (unat (uReadLen ?m) - 4) (parameters (tCmdMbox (aCmdTxn1 ?m))))"
    using GetCmdParams_ok [OF m] q1 rm by simp
  from Notify_trace [OF q2 this] obtain es where es: "cq_trace q2 = cq_trace q @ owner_events q ?nd
      (owner_status (cmdStatus (tCmdMbox (aCmdTxn1 ?m))))
      (take (unat (uReadLen ?m) - 4) (parameters (tCmdMbox (aCmdTxn1 ?m)))) @ es"
    using q1 rm st by (auto simp: owner_events_def)
  have "\<exists>es'. cq_trace q' = cq_trace q2 @ es'"
  proof (cases "0 < uNumberOfCommandInQueue q2")
    case True
    then have "cmdQueue_SM_Send (q2\<lparr>cq_state := CMDQUEUE_STATE_IDLE\<rparr>) = Inr (rc, q')"
      using c s q2 by (simp add: cmdQueue_SM_Complete_def Let_def cmdQueue_SM_Run_def)
    from SM_Send_trace [OF this] show ?thesis by auto
  next
    case False
    then show ?thesis using c s q2 by (auto simp: cmdQueue_SM_Complete_def Let_def)
  qed
  with es show ?thesis by auto
qed

lemma CommandComplete_trace:
  assumes g: "cq_good base q" and w: "cq_waiting q" and cl: "client_ok client"
  shows "\<exists>q' txn es. cmdMbox_CommandComplete client TXN_STATUS_COMPLETE resp q = Inr (TXN_STATUS_COMPLETE, q') \<and>
    cq_trace q' = cq_trace q @ [CmdTmrStop, CmdRead txn] @
      owner_events q (aCmdQueue q ! cq_head q) (owner_status (u16_of_bytes (resp 2) (resp 3)))
        (map resp [4..<unat (uReadLen (hCmdMBox q))]) @ es"
proof -
  let ?m1 = "cmdMbox_StartRead (hCmdMBox q)" and ?n = "unat (uReadLen (hCmdMBox q))"
  have wf: "mbox_wf (hCmdMBox q)" and n: "4 \<le> ?n"
    using g w by (auto simp: cq_good_def cq_settled_def cq_wf_def)
  obtain txn where txn: "mb_trace ?m1 = cq_trace q @ [CmdTmrStop, CmdRead txn]" using StartRead_trace by blast
  define c where "c = \<lparr>cmdID = u16_of_bytes (resp 0) (resp 1), cmdStatus = u16_of_bytes (resp 2) (resp 3),
     parameters = map resp [4..<?n] @ drop (?n - 4) (parameters (tCmdMbox (aCmdTxn1 (hCmdMBox q))))\<rparr>"
  define m2 where "m2 = ?m1\<lparr>aCmdTxn1 := (aCmdTxn1 ?m1)\<lparr>tCmdMbox := c\<rparr>, bCmdInProgress := False\<rparr>"
  have b: "cmdMbox_BusRead resp ?m1 = Inr (?m1\<lparr>aCmdTxn1 := (aCmdTxn1 ?m1)\<lparr>tCmdMbox := c\<rparr>\<rparr>)"
    using BusRead_result [OF StartRead_wf [OF wf] StartRead_len [OF wf] n] by (simp add: c_def)
  have m2: "mbox_wf m2" "uReadLen m2 = uReadLen (hCmdMBox q)" "tCmdMbox (aCmdTxn1 m2) = c"
      "mb_trace m2 = mb_trace ?m1"
    using BusRead_wf [OF StartRead_wf [OF wf], of resp] b by (auto simp: m2_def mbox_wf_def)
  obtain q' where q': "cmdMbox_CommandComplete client TXN_STATUS_COMPLETE resp q = Inr (TXN_STATUS_COMPLETE, q')"
    using CommandComplete_good [OF g cl] by blast
  obtain rc where "cmdQueue_SM_Complete client (q\<lparr>hCmdMBox := m2\<rparr>) = Inr (rc, q')"
    using q' b w by (auto simp: cmdMbox_CommandComplete_def cmdMbox_TransferComplete_def Let_def
        cmdQueue_ResultReceived_def cmdQueue_SM_def m2_def split: sum.splits)
  from SM_Complete_trace [OF this] m2 n txn q' show ?thesis
    by (auto simp: c_def owner_events_def)
qed

text \<open>C29: When the answer to a command is read, the driver stops the timer and calls the owner of
  the command at the head of the queue before anything else, with the status that the answer's
  status word stands for; an owner that gave a buffer finds the answer's parameters in it first.\<close>

theorem cmdQueue_completion_calls_owner:
  assumes "cq_reach base q" "cq_waiting q" "client_ok client"
  shows "\<exists>q' txn es. cmdMbox_CommandComplete client TXN_STATUS_COMPLETE resp q = Inr (TXN_STATUS_COMPLETE, q') \<and>
    cq_trace q' = cq_trace q @ [CmdTmrStop, CmdRead txn] @
      owner_events q (aCmdQueue q ! cq_head q) (owner_status (u16_of_bytes (resp 2) (resp 3)))
        (map resp [4..<unat (uReadLen (hCmdMBox q))]) @ es"
  by (rule CommandComplete_trace [OF reach_good [OF assms(1)] assms(2,3)])

lemma SendCommand_first:
  assumes g: "cq_good base q" and a: "cq_accepts q" "uNumberOfCommandInQueue q = 0" and r: "req_ok r"
  shows "\<exists>q' nd. cmdQueue_SendCommand r q = Inr (TI_OK, q') \<and> cq_waiting q' \<and> cq_list q' = [nd] \<and>
    aCmdQueue q' ! cq_head q' = nd \<and> node_holds (req_cmd r) nd \<and> nd_fCb nd = rq_fCb r \<and> nd_hCb nd = rq_hCb r \<and>
    pInterrogateBuf nd = rq_pCb r"
proof -
  have wf: "cq_wf q" and idle: "cq_state q = CMDQUEUE_STATE_IDLE" "\<not> bCmdInProgress (hCmdMBox q)"
    using g a(2) by (auto simp: cq_good_def cq_settled_def intro: ECmdQueueSmStates.exhaust [of "cq_state q"])
  obtain q1 nd where i: "cmdQueue_Insert r q = Inr q1" "cq_wf q1" "cq_list q1 = cq_list q @ [nd]"
      "node_holds (req_cmd r) nd" "nd_fCb nd = rq_fCb r" "nd_hCb nd = rq_hCb r" "pInterrogateBuf nd = rq_pCb r"
      "hCmdMBox q1 = mb_emit (CmdQueued (rq_type r) (snd (req_cmd r))) (hCmdMBox q)"
      "uNumberOfCommandInQueue q1 = Suc (uNumberOfCommandInQueue q)" "cq_state q1 = cq_state q"
    using Insert_ok [OF wf _ r] a(1) by (auto simp: cq_accepts_def)
  have "cq_sim base False q1"
    using g idle i(3,4,8) by (intro cq_sim_queued [of base False q q1 "rq_type r" "snd (req_cmd r)" nd])
      (auto simp: cq_good_def req_cmd_def)
  from SM_Send_ok [OF i(2) this] i(8,9) idle obtain q' where q':
      "cmdQueue_SM_Send q1 = Inr (txn_rc TXN_STATUS_PENDING, q')" "cq_list q' = cq_list q1" "cq_waiting q'"
      "cq_settled q'" by auto
  have l: "cq_list q = []" using a(2) by (simp add: cq_list_def)
  moreover have "uNumberOfCommandInQueue q' = 1" using q'(2) i(3) l by (metis length_cq_list append_Nil length_Cons list.size(3) One_nat_def)
  then have "aCmdQueue q' ! cq_head q' = hd (cq_list q')"
    using cq_list_hd [of q'] q'(4) by (metis cq_settled_def cq_wf_def list.sel(1) zero_less_one)
  ultimately show ?thesis
    using q' i a idle by (simp add: cmdQueue_SendCommand_def cmdQueue_Push_def cq_accepts_def cmdQueue_SM_Run_def)
qed

lemma demo_accepts: "cq_accepts demo_queue"
  by (simp add: cq_accepts_def demo_empty)

lemma demo_sent:
  "\<exists>q nd. cmdQueue_SendCommand (demo_req t 60) demo_queue = Inr (TI_OK, q) \<and> cq_reach 0 q \<and> cq_waiting q \<and>
     cq_list q = [nd] \<and> aCmdQueue q ! cq_head q = nd \<and> nd_fCb nd = 60 \<and> nd_hCb nd = 70 \<and> pInterrogateBuf nd = 0"
proof -
  obtain q nd where q: "cmdQueue_SendCommand (demo_req t 60) demo_queue = Inr (TI_OK, q)" "cq_waiting q"
      "cq_list q = [nd]" "aCmdQueue q ! cq_head q = nd" "nd_fCb nd = rq_fCb (demo_req t 60)"
      "nd_hCb nd = rq_hCb (demo_req t 60)" "pInterrogateBuf nd = rq_pCb (demo_req t 60)"
    using SendCommand_first [OF reach_good [OF demo_reach] demo_accepts demo_empty(1) demo_req_ok, of t 60]
    by blast
  moreover have "cq_reach 0 q" using reach_step [OF demo_reach step_send [OF demo_req_ok q(1)]] .
  ultimately show ?thesis by (auto simp: demo_req_def)
qed

theorem cmdQueue_completion_calls_owner_witness:
  "\<exists>q q' txn es. cmdQueue_SendCommand (demo_req CMD_CONFIGURE 60) demo_queue = Inr (TI_OK, q) \<and>
    cmdMbox_CommandComplete silent TXN_STATUS_COMPLETE (\<lambda>i. if i = 2 then 14 else 0) q = Inr (TXN_STATUS_COMPLETE, q') \<and>
    cq_trace q' = cq_trace q @ [CmdTmrStop, CmdRead txn, CmdCb 60 70 1] @ es"
proof -
  obtain q nd where q: "cmdQueue_SendCommand (demo_req CMD_CONFIGURE 60) demo_queue = Inr (TI_OK, q)"
      "cq_reach 0 q" "cq_waiting q" "aCmdQueue q ! cq_head q = nd" "nd_fCb nd = 60" "nd_hCb nd = 70"
      "pInterrogateBuf nd = 0"
    using demo_sent [of CMD_CONFIGURE] by blast
  have "owner_status (u16_of_bytes 14 0) = 1"
    by (simp add: owner_status_def u16_of_bytes_def CMD_STATUS_SUCCESS_def CMD_STATUS_REJECT_MEAS_SG_ACTIVE_def)
  then show ?thesis
    using cmdQueue_completion_calls_owner [OF q(2,3) silent_ok, of "\<lambda>i. if i = 2 then 14 else 0"] q
    by (auto simp: owner_events_def)
qed

section \<open>Every command gets its turn\<close>

lemma Notify_silent:
  assumes "cmdQueue_Notify silent nd st q = Inr q'"
  shows "uNumberOfCommandInQueue q' = uNumberOfCommandInQueue q \<and>
    (\<exists>es. cq_trace q' = cq_trace q @ es \<and> queued_of es = [])"
  using assms by (auto simp: cmdQueue_Notify_def split: if_splits sum.splits)

lemma SM_Complete_silent:
  assumes "cmdQueue_SM_Complete silent q = Inr (rc, q')"
  shows "uNumberOfCommandInQueue q' = uNumberOfCommandInQueue q - 1 \<and>
    (\<exists>es. cq_trace q' = cq_trace q @ es \<and> queued_of es = [])"
proof -
  obtain st q1 where s: "cmdQueue_Status (cmdQueue_Remove q) = (st, q1)" by fastforce
  obtain b where q1: "q1 = (cmdQueue_Remove q)\<lparr>bErrorFlag := b\<rparr>" using Status_result [OF s] by auto
  obtain q2 where q2: "cmdQueue_Notify silent (aCmdQueue q ! cq_head q) st q1 = Inr q2"
    using assms s by (auto simp: cmdQueue_SM_Complete_def Let_def split: sum.splits)
  have q2': "uNumberOfCommandInQueue q2 = uNumberOfCommandInQueue q - 1"
      "\<exists>es. cq_trace q2 = cq_trace q @ es \<and> queued_of es = []"
    using Notify_silent [OF q2] q1 by (auto simp: cmdQueue_Remove_def Let_def)
  show ?thesis
  proof (cases "0 < uNumberOfCommandInQueue q2")
    case True
    then have m: "cmdQueue_SM_Send (q2\<lparr>cq_state := CMDQUEUE_STATE_IDLE\<rparr>) = Inr (rc, q')"
      using assms s q2 by (simp add: cmdQueue_SM_Complete_def Let_def cmdQueue_SM_Run_def)
    then have "uNumberOfCommandInQueue q' = uNumberOfCommandInQueue q2"
      by (auto simp: cmdQueue_SM_Send_def Let_def split: if_splits prod.splits sum.splits)
    then show ?thesis using SM_Send_trace [OF m] q2' by fastforce
  next
    case False
    then show ?thesis using assms s q2 q2' by (auto simp: cmdQueue_SM_Complete_def Let_def)
  qed
qed

lemma CommandComplete_silent:
  assumes g: "cq_good base q" and w: "cq_waiting q"
  shows "\<exists>q'. cmdMbox_CommandComplete silent TXN_STATUS_COMPLETE resp q = Inr (TXN_STATUS_COMPLETE, q') \<and>
    cq_good base q' \<and> uNumberOfCommandInQueue q' = uNumberOfCommandInQueue q - 1 \<and>
    (\<exists>es. cq_trace q' = cq_trace q @ es \<and> queued_of es = [])"
proof -
  obtain txn where txn: "mb_trace (cmdMbox_StartRead (hCmdMBox q)) = cq_trace q @ [CmdTmrStop, CmdRead txn]"
    using StartRead_trace by blast
  obtain q' where q': "cmdMbox_CommandComplete silent TXN_STATUS_COMPLETE resp q = Inr (TXN_STATUS_COMPLETE, q')"
      "cq_good base q'"
    using CommandComplete_good [OF g silent_ok] by blast
  obtain m where m: "cmdMbox_BusRead resp (cmdMbox_StartRead (hCmdMBox q)) = Inr m"
      "mb_trace m = cq_trace q @ [CmdTmrStop, CmdRead txn]"
    using BusRead_wf [OF StartRead_wf, of "hCmdMBox q" resp] g txn
    by (auto simp: cq_good_def cq_settled_def cq_wf_def)
  obtain rc where "cmdQueue_SM_Complete silent (q\<lparr>hCmdMBox := m\<lparr>bCmdInProgress := False\<rparr>\<rparr>) = Inr (rc, q')"
    using q' m w by (auto simp: cmdMbox_CommandComplete_def cmdMbox_TransferComplete_def Let_def
        cmdQueue_ResultReceived_def cmdQueue_SM_def split: sum.splits)
  from SM_Complete_silent [OF this] m q' show ?thesis by auto
qed

text \<open>The firmware answers one command after the other.\<close>

fun cq_answers :: "(nat \<Rightarrow> u8) list \<Rightarrow> TCmdQueue \<Rightarrow> fault + TCmdQueue" where
  "cq_answers [] q = Inr q"
| "cq_answers (resp # rs) q =
     (case cmdMbox_CommandComplete silent TXN_STATUS_COMPLETE resp q of
        Inl f \<Rightarrow> Inl f
      | Inr (st, q) \<Rightarrow> cq_answers rs q)"

lemma answers_drain:
  "cq_good base q \<Longrightarrow> length rs = uNumberOfCommandInQueue q \<Longrightarrow>
   \<exists>q'. cq_answers rs q = Inr q' \<and> cq_good base q' \<and> uNumberOfCommandInQueue q' = 0 \<and>
     (\<exists>es. cq_trace q' = cq_trace q @ es \<and> queued_of es = [])"
proof (induction rs arbitrary: q)
  case (Cons r rs)
  then have "cq_waiting q" by (auto simp: cq_good_def cq_settled_def)
  from CommandComplete_silent [OF Cons.prems(1) this, of r] obtain q1 es where
    "cmdMbox_CommandComplete silent TXN_STATUS_COMPLETE r q = Inr (TXN_STATUS_COMPLETE, q1)"
    "cq_good base q1" "uNumberOfCommandInQueue q1 = uNumberOfCommandInQueue q - 1"
    "cq_trace q1 = cq_trace q @ es" "queued_of es = []" by blast
  moreover from this Cons.IH [of q1] Cons.prems(2) obtain q' es' where "cq_answers rs q1 = Inr q'"
    "cq_good base q'" "uNumberOfCommandInQueue q' = 0" "cq_trace q' = cq_trace q1 @ es'" "queued_of es' = []"
    by fastforce
  ultimately show ?case by auto
qed simp

text \<open>C15: No command is starved: when the firmware answers as many commands as are in the queue and
  nobody sends new ones, every command taken since the last stop has been written to the mailbox,
  the queue is empty, the mailbox is free and the chip may sleep.\<close>

theorem cmdQueue_drains:
  assumes "cq_reach base q" "length rs = uNumberOfCommandInQueue q"
  shows "\<exists>q'. cq_answers rs q = Inr q' \<and> uNumberOfCommandInQueue q' = 0 \<and>
    cq_state q' = CMDQUEUE_STATE_IDLE \<and> \<not> bCmdInProgress (hCmdMBox q') \<and> \<not> bAwake q' \<and>
    list_all2 written_as (queued_of (drop base (cq_trace q))) (writes_of (drop base (cq_trace q')))"
proof -
  have b: "base \<le> length (cq_trace q)" using reach_good [OF assms(1)] by (simp add: cq_good_def cq_sim_def)
  from answers_drain [OF reach_good [OF assms(1)] assms(2)] obtain q' es where q': "cq_answers rs q = Inr q'"
      "cq_good base q'" "uNumberOfCommandInQueue q' = 0" "cq_trace q' = cq_trace q @ es" "queued_of es = []"
    by blast
  have idle: "cq_state q' = CMDQUEUE_STATE_IDLE" "\<not> bCmdInProgress (hCmdMBox q')" "\<not> bAwake q'"
    using q'(2,3) by (auto simp: cq_good_def cq_settled_def intro: ECmdQueueSmStates.exhaust [of "cq_state q'"])
  have "list_all2 written_as (queued_of (drop base (cq_trace q'))) (writes_of (drop base (cq_trace q')))"
    using q'(2,3) idle(1) by (auto simp: cq_good_def cq_sim_def Let_def cq_list_def dest: list_all2_lengthD)
  with q' idle b show ?thesis by auto
qed

theorem cmdQueue_drains_witness:
  "\<exists>q q'. cmdQueue_SendCommand (demo_req CMD_CONFIGURE 60) demo_queue = Inr (TI_OK, q) \<and>
    cq_answers [\<lambda>i. if i = 2 then 1 else 0] q = Inr q' \<and> uNumberOfCommandInQueue q' = 0"
proof -
  obtain q nd where q: "cmdQueue_SendCommand (demo_req CMD_CONFIGURE 60) demo_queue = Inr (TI_OK, q)"
      "cq_reach 0 q" "cq_list q = [nd]"
    using demo_sent [of CMD_CONFIGURE] by blast
  then have "length [\<lambda>i :: nat. if i = 2 then 1 else 0 :: u8] = uNumberOfCommandInQueue q"
    by (metis length_cq_list length_Cons list.size(3))
  from cmdQueue_drains [OF q(2) this] q(1) show ?thesis by auto
qed

section \<open>Recovery\<close>

lemma CallSaved_silent:
  "i + n \<le> length (aRecoveryQueue q) \<Longrightarrow>
   \<exists>m. cmdQueue_CallSaved silent n i q = Inr (q\<lparr>hCmdMBox := m\<rparr>) \<and>
     mb_trace m = cq_trace q @ map recovery_event (take n (drop i (aRecoveryQueue q)))"
proof (induction n arbitrary: i q)
  case 0
  show ?case by (rule exI [of _ "hCmdMBox q"]) simp
next
  case (Suc n)
  let ?e = "recovery_event (aRecoveryQueue q ! i)"
  from Suc.IH [of "i + 1" "cq_emit ?e q"] Suc.prems obtain m where
    "cmdQueue_CallSaved silent n (i + 1) (cq_emit ?e q) = Inr ((cq_emit ?e q)\<lparr>hCmdMBox := m\<rparr>)"
    "mb_trace m = cq_trace q @ ?e # map recovery_event (take n (drop (i + 1) (aRecoveryQueue q)))" by auto
  moreover have "take (Suc n) (drop i (aRecoveryQueue q)) =
      aRecoveryQueue q ! i # take n (drop (i + 1) (aRecoveryQueue q))"
    using Suc.prems by (simp add: Cons_nth_drop_Suc [symmetric])
  ultimately show ?case by (auto simp: cq_emit_def)
qed

lemma Stop_EndReconfig:
  assumes "cq_wf q"
  shows "\<exists>q'. cmdQueue_EndReconfig silent (TWD_Stop_cmd q) = Inr (TI_OK, q') \<and>
    uNumberOfRecoveryNodes q' = 0 \<and>
    cq_trace q' = cq_trace q @ CmdTmrStop # map recovery_event (saved_nodes (cq_list q))"
proof -
  let ?n = "length (saved_nodes (cq_list q))"
  obtain rq where r: "TWD_Stop_cmd q = q\<lparr>hCmdMBox := cmdMbox_Restart (hCmdMBox q), cq_state := CMDQUEUE_STATE_IDLE,
      bAwake := False, aRecoveryQueue := rq, uNumberOfRecoveryNodes := ?n,
      cq_head := 0, cq_tail := 0, uNumberOfCommandInQueue := 0, bMboxEnabled := False\<rparr>"
      "length rq = CMDQUEUE_QUEUE_DEPTH" "take ?n rq = saved_nodes (cq_list q)"
    using Stop_result [OF assms] by blast
  have "0 + ?n \<le> length (aRecoveryQueue (TWD_Stop_cmd q))"
    using r(1,2) assms length_saved_nodes [of "cq_list q"] by (simp add: cq_wf_def)
  from CallSaved_silent [OF this] obtain m where m:
    "cmdQueue_CallSaved silent ?n 0 (TWD_Stop_cmd q) = Inr ((TWD_Stop_cmd q)\<lparr>hCmdMBox := m\<rparr>)"
    "mb_trace m = cq_trace (TWD_Stop_cmd q) @ map recovery_event (take ?n (aRecoveryQueue (TWD_Stop_cmd q)))"
    by auto
  have "uNumberOfRecoveryNodes (TWD_Stop_cmd q) = ?n" "aRecoveryQueue (TWD_Stop_cmd q) = rq"
      "cq_trace (TWD_Stop_cmd q) = cq_trace q @ [CmdTmrStop]"
    using r(1) by (simp_all add: cmdMbox_Restart_def mb_emit_def)
  with m r(3) show ?thesis by (simp add: cmdQueue_EndReconfig_def)
qed

text \<open>A recovery forgets no owner: stopping the driver empties the command queue, and the end of
  the reconfiguration calls, in the order of the queue, the owner of every command that was in it
  and has one, exactly once, with the firmware reset status.\<close>

theorem cmdQueue_recovery_calls_owners:
  assumes "cq_reach base q"
  shows "\<exists>q'. cmdQueue_EndReconfig silent (TWD_Stop_cmd q) = Inr (TI_OK, q') \<and>
    uNumberOfCommandInQueue (TWD_Stop_cmd q) = 0 \<and> uNumberOfRecoveryNodes q' = 0 \<and>
    cq_trace q' = cq_trace q @ CmdTmrStop #
      map (\<lambda>nd. if pInterrogateBuf nd \<noteq> 0
                then InterrogateCb (nd_fCb nd) (nd_hCb nd) CMD_STATUS_FW_RESET (pInterrogateBuf nd)
                else CmdCb (nd_fCb nd) (nd_hCb nd) CMD_STATUS_FW_RESET)
        (filter (\<lambda>nd. nd_fCb nd \<noteq> 0) (cq_list q))"
proof -
  have wf: "cq_wf q" using reach_good [OF assms] by (simp add: cq_good_def cq_settled_def)
  have "map recovery_event (saved_nodes nds) = map (\<lambda>nd. if pInterrogateBuf nd \<noteq> 0
      then InterrogateCb (nd_fCb nd) (nd_hCb nd) CMD_STATUS_FW_RESET (pInterrogateBuf nd)
      else CmdCb (nd_fCb nd) (nd_hCb nd) CMD_STATUS_FW_RESET) (filter (\<lambda>nd. nd_fCb nd \<noteq> 0) nds)" for nds
    by (simp add: saved_nodes_def recovery_event_def saved_node_def)
  with Stop_EndReconfig [OF wf] Stop_result [OF wf] show ?thesis by auto
qed

theorem cmdQueue_recovery_calls_owners_witness:
  "\<exists>q q'. cmdQueue_SendCommand (demo_req CMD_CONFIGURE 60) demo_queue = Inr (TI_OK, q) \<and>
    cmdQueue_EndReconfig silent (TWD_Stop_cmd q) = Inr (TI_OK, q') \<and>
    cq_trace q' = cq_trace q @ [CmdTmrStop, CmdCb 60 70 CMD_STATUS_FW_RESET]"
proof -
  obtain q nd where q: "cmdQueue_SendCommand (demo_req CMD_CONFIGURE 60) demo_queue = Inr (TI_OK, q)"
      "cq_reach 0 q" "cq_list q = [nd]" "nd_fCb nd = 60" "nd_hCb nd = 70" "pInterrogateBuf nd = 0"
    using demo_sent [of CMD_CONFIGURE] by blast
  with cmdQueue_recovery_calls_owners [OF q(2)] show ?thesis by auto
qed

text \<open>Stopping a second time before the reconfiguration ends forgets the owners saved by the first.\<close>

lemma cmdQueue_second_stop_forgets:
  assumes "cq_reach base q"
  shows "\<exists>q'. cmdQueue_EndReconfig silent (TWD_Stop_cmd (TWD_Stop_cmd q)) = Inr (TI_OK, q') \<and>
    cq_trace q' = cq_trace q @ [CmdTmrStop, CmdTmrStop]"
proof -
  have g: "cq_good base q" using reach_good [OF assms] .
  then have wf: "cq_wf q" "cq_wf (TWD_Stop_cmd q)"
    using Stop_good [OF g] by (simp_all add: cq_good_def cq_settled_def)
  have s: "cq_list (TWD_Stop_cmd q) = []" "cq_trace (TWD_Stop_cmd q) = cq_trace q @ [CmdTmrStop]"
    using Stop_result [OF wf(1)] by (auto simp: cq_list_def cmdMbox_Restart_def mb_emit_def)
  then have "saved_nodes (cq_list (TWD_Stop_cmd q)) = []" by (simp add: saved_nodes_def)
  with Stop_EndReconfig [OF wf(2)] s show ?thesis by auto
qed

text \<open>The two statuses an owner is told in these cases are the same number.\<close>

lemma reject_status_is_reset_status:
  "owner_status CMD_STATUS_REJECT_MEAS_SG_ACTIVE = CMD_STATUS_FW_RESET"
  by (simp add: owner_status_def CMD_STATUS_REJECT_MEAS_SG_ACTIVE_def CMD_STATUS_SUCCESS_def CMD_STATUS_FW_RESET_def)

section \<open>The error flag\<close>

definition cq_stuck :: "u8 list list \<Rightarrow> TCmdQueue \<Rightarrow> bool" where
  "cq_stuck ws q \<longleftrightarrow> bErrorFlag q \<and> cq_state q = CMDQUEUE_STATE_IDLE \<and> uNumberOfCommandInQueue q = 0 \<and>
     writes_of (cq_trace q) = ws"

lemma stuck_refuses: "bErrorFlag q \<Longrightarrow> cmdQueue_SendCommand r q = Inr (TI_NOK, q)"
  by (simp add: cmdQueue_SendCommand_def)

interpretation stuck: callback_safe "cq_stuck ws" for ws
  by unfold_locales (auto simp: cq_stuck_def stuck_refuses benign_def)

lemma stuck_mbox:
  "cq_stuck ws q \<Longrightarrow> mb_trace m = cq_trace q @ es \<Longrightarrow> writes_of es = [] \<Longrightarrow> cq_stuck ws (q\<lparr>hCmdMBox := m\<rparr>)"
  by (simp add: cq_stuck_def)

lemma stuck_transfer:
  assumes "cq_stuck ws q" "cmdMbox_TransferComplete client resp q = Inr (st, q')"
  shows "cq_stuck ws q'"
  using assms
  by (auto simp: cmdMbox_TransferComplete_def cmdMbox_BusRead_def cmdQueue_ResultReceived_def cmdQueue_SM_def
      cq_stuck_def Let_def split: sum.splits)

lemma stuck_step:
  assumes "cq_step q q'" "cq_stuck ws q"
  shows "cq_stuck ws q'"
  using assms
proof (induction rule: cq_step.induct)
  case (step_send r q st q') then show ?case by (simp add: stuck_refuses cq_stuck_def)
next
  case (step_complete client rc resp q st q')
  obtain txn where "mb_trace (cmdMbox_StartRead (hCmdMBox q)) = cq_trace q @ [CmdTmrStop, CmdRead txn]"
    using StartRead_trace by blast
  with step_complete have "cq_stuck ws (q\<lparr>hCmdMBox := cmdMbox_StartRead (hCmdMBox q)\<rparr>)"
    by (intro stuck_mbox) auto
  with step_complete stuck_transfer show ?case
    by (fastforce simp: cmdMbox_CommandComplete_def Let_def split: if_splits sum.splits)
next
  case (step_transfer client resp q st q') then show ?case using stuck_transfer by blast
next
  case (step_timeout client q q') then show ?case using stuck.timeout [of client ws q] by auto
next
  case (step_reconfig client q st q')
  obtain q1 where "cmdQueue_CallSaved client (uNumberOfRecoveryNodes q) 0 q = Inr q1" "cq_stuck ws q1"
    using stuck.call_saved [OF step_reconfig(1,3)] by blast
  with step_reconfig show ?case by (auto simp: cmdQueue_EndReconfig_def cq_stuck_def)
next
  case (step_address q f h rc reg)
  then show ?case by (auto simp: cmdMbox_ConfigHw_def Let_def mb_emit_def cq_stuck_def)
next
  case (step_address_cb q reg)
  then show ?case by (auto simp: cmdMbox_ConfigHwCb_def mb_emit_def cq_stuck_def)
qed (auto simp: cq_stuck_def cmdQueue_EnableMbox_def cmdQueue_DisableMbox_def
    cmdQueue_RegisterCmdCompleteGenericCb_def cmdQueue_RegisterForErrorCb_def split: if_splits)

lemma stuck_stop:
  assumes "cq_stuck ws q" "cq_wf q"
  shows "cq_stuck ws (TWD_Stop_cmd q)"
  using assms(1) Stop_result [OF assms(2)] by (auto simp: cq_stuck_def cmdMbox_Restart_def mb_emit_def)

definition cq_life :: "TCmdQueue \<Rightarrow> TCmdQueue \<Rightarrow> bool" where
  "cq_life q q' \<longleftrightarrow> cq_step q q' \<or> q' = TWD_Stop_cmd q"

text \<open>The error flag is never taken back once the queue is empty: after the last command in the
  queue was answered with an error status, the driver refuses every command and writes nothing to
  the mailbox, whatever happens, a stop and a reconfiguration included, until the module is
  initialised anew.\<close>

theorem cmdQueue_error_sticks:
  assumes "cq_reach base q" "bErrorFlag q" "uNumberOfCommandInQueue q = 0" "cq_life\<^sup>*\<^sup>* q q'"
  shows "writes_of (cq_trace q') = writes_of (cq_trace q) \<and> cmdQueue_SendCommand r q' = Inr (TI_NOK, q')"
proof -
  have "cq_state q = CMDQUEUE_STATE_IDLE"
    using reach_good [OF assms(1)] assms(3)
    by (auto simp: cq_good_def cq_settled_def intro: ECmdQueueSmStates.exhaust [of "cq_state q"])
  then have "cq_stuck (writes_of (cq_trace q)) q" using assms(2,3) by (simp add: cq_stuck_def)
  with assms(4) assms(1) have "cq_stuck (writes_of (cq_trace q)) q' \<and> (\<exists>b. cq_reach b q')"
  proof (induction rule: rtranclp_induct)
    case (step y z)
    then obtain b where y: "cq_stuck (writes_of (cq_trace q)) y" "cq_reach b y" by blast
    have "cq_wf y" using reach_good [OF y(2)] by (simp add: cq_good_def cq_settled_def)
    with y step(2) show ?case
      by (auto simp: cq_life_def intro: stuck_step stuck_stop reach_step reach_stop)
  qed auto
  then show ?thesis by (auto simp: cq_stuck_def stuck_refuses)
qed

lemma SM_Complete_flag:
  assumes "cmdQueue_SM_Complete silent q = Inr (rc, q')" "uNumberOfCommandInQueue q = 1"
  shows "bErrorFlag q' \<longleftrightarrow> cmdStatus (tCmdMbox (aCmdTxn1 (hCmdMBox q))) \<notin>
    {CMD_STATUS_SUCCESS, CMD_STATUS_REJECT_MEAS_SG_ACTIVE}"
proof -
  obtain st q1 where s: "cmdQueue_Status (cmdQueue_Remove q) = (st, q1)" by fastforce
  note q1 = Status_sel [OF s]
  obtain q2 where q2: "cmdQueue_Notify silent (aCmdQueue q ! cq_head q) st q1 = Inr q2"
    using assms s by (auto simp: cmdQueue_SM_Complete_def Let_def split: sum.splits)
  have "uNumberOfCommandInQueue q2 = 0"
    using Notify_silent [OF q2] q1 assms(2) by (simp add: cmdQueue_Remove_def Let_def)
  then have "bErrorFlag q' = bErrorFlag q2"
    using assms(1) s q2 by (auto simp: cmdQueue_SM_Complete_def Let_def)
  also have "bErrorFlag q2 = bErrorFlag q1"
    using q2 by (auto simp: cmdQueue_Notify_def split: if_splits sum.splits)
  finally show ?thesis using q1 by (simp add: cmdQueue_Remove_def Let_def)
qed

lemma CommandComplete_flag:
  assumes g: "cq_good base q" and w: "cq_waiting q" and n: "uNumberOfCommandInQueue q = 1"
    and c: "cmdMbox_CommandComplete silent TXN_STATUS_COMPLETE resp q = Inr (st, q')"
  shows "bErrorFlag q' \<longleftrightarrow> u16_of_bytes (resp 2) (resp 3) \<notin>
    {CMD_STATUS_SUCCESS, CMD_STATUS_REJECT_MEAS_SG_ACTIVE}"
proof -
  have wf: "mbox_wf (hCmdMBox q)" "4 \<le> unat (uReadLen (hCmdMBox q))"
    using g w by (auto simp: cq_good_def cq_settled_def cq_wf_def)
  obtain m where m: "cmdMbox_BusRead resp (cmdMbox_StartRead (hCmdMBox q)) = Inr m"
      "cmdStatus (tCmdMbox (aCmdTxn1 m)) = u16_of_bytes (resp 2) (resp 3)"
    using BusRead_result [OF StartRead_wf [OF wf(1)] StartRead_len [OF wf(1)] wf(2), of resp] by simp
  obtain rc where "cmdQueue_SM_Complete silent (q\<lparr>hCmdMBox := m\<lparr>bCmdInProgress := False\<rparr>\<rparr>) = Inr (rc, q')"
    using c m w by (auto simp: cmdMbox_CommandComplete_def cmdMbox_TransferComplete_def Let_def
        cmdQueue_ResultReceived_def cmdQueue_SM_def split: sum.splits)
  from SM_Complete_flag [OF this] n m(2) show ?thesis by simp
qed

theorem cmdQueue_error_sticks_witness:
  "\<exists>q q1. cmdQueue_SendCommand (demo_req CMD_CONFIGURE 60) demo_queue = Inr (TI_OK, q) \<and>
    cmdMbox_CommandComplete silent TXN_STATUS_COMPLETE (\<lambda>i. if i = 2 then 14 else 0) q = Inr (TXN_STATUS_COMPLETE, q1) \<and>
    cmdQueue_SendCommand (demo_req CMD_CONFIGURE 60) (TWD_Stop_cmd q1) = Inr (TI_NOK, TWD_Stop_cmd q1)"
proof -
  obtain q nd where q: "cmdQueue_SendCommand (demo_req CMD_CONFIGURE 60) demo_queue = Inr (TI_OK, q)"
      "cq_reach 0 q" "cq_waiting q" "cq_list q = [nd]"
    using demo_sent [of CMD_CONFIGURE] by blast
  have n: "uNumberOfCommandInQueue q = 1" using q(4) by (metis length_cq_list length_Cons list.size(3) One_nat_def)
  obtain q1 where q1: "cmdMbox_CommandComplete silent TXN_STATUS_COMPLETE (\<lambda>i. if i = 2 then 14 else 0) q
      = Inr (TXN_STATUS_COMPLETE, q1)" "uNumberOfCommandInQueue q1 = 0"
    using CommandComplete_silent [OF reach_good [OF q(2)] q(3), of "\<lambda>i. if i = 2 then 14 else 0"] n by auto
  have "bErrorFlag q1"
    using CommandComplete_flag [OF reach_good [OF q(2)] q(3) n q1(1)]
    by (simp add: u16_of_bytes_def CMD_STATUS_SUCCESS_def CMD_STATUS_REJECT_MEAS_SG_ACTIVE_def)
  moreover have "cq_reach 0 q1" using reach_step [OF q(2) step_complete [OF silent_ok q1(1)]] .
  moreover have "cq_life\<^sup>*\<^sup>* q1 (TWD_Stop_cmd q1)" by (auto simp: cq_life_def)
  ultimately have "cmdQueue_SendCommand (demo_req CMD_CONFIGURE 60) (TWD_Stop_cmd q1) = Inr (TI_NOK, TWD_Stop_cmd q1)"
    using cmdQueue_error_sticks [of 0 q1 "TWD_Stop_cmd q1" "demo_req CMD_CONFIGURE 60"] q1(2) by blast
  with q q1 show ?thesis by blast
qed

text \<open>Two divergences from the comments: a command is dropped with \<open>TI_OK\<close> while the mailbox is
  disabled, its owner is never called, and this is so for every command type.\<close>

lemma cmdQueue_disabled_drops:
  assumes "\<not> bMboxEnabled q" "\<not> bErrorFlag q"
  shows "cmdQueue_SendCommand r q = Inr (TI_OK, q)"
  using assms by (simp add: cmdQueue_SendCommand_def cmdQueue_Push_def)

end
