(* ===== verification/TxXfer.thy ===== *)
theory TxXfer
  imports TxCtrlBlk CmdMBox
begin

text \<open>
  \<open>TWD/FW_Transfer/txXfer.c\<close>: the transfer of Tx packets to the firmware. Packets are collected into
  aggregations, limited in number and in length, whose transactions go to TwIf one after another,
  and after each aggregation the packet counter is written. The packets of an aggregation are linked
  in a ring through \<open>pNextAggregEntry\<close>. The control blocks are \<open>xf_blks\<close>, by their index in the table of
  theory \<open>TxCtrlBlk\<close>. What \<open>twIf_Transact\<close> returns is the parameter \<open>twif\<close>, a function of what has been
  recorded in \<open>xf_trace\<close>; the calls of TwIf and of the upper layer's callback are recorded there.
  The properties are in theory \<open>TxXferProps\<close>.
\<close>

section \<open>State\<close>

definition DBG_MAX_AGGREG_PKTS :: nat where "DBG_MAX_AGGREG_PKTS = 16"
definition SLV_MEM_DATA :: u32 where "SLV_MEM_DATA = REGISTERS_BASE + 0x0018"
definition HOST_WR_ACCESS_REG :: u32 where "HOST_WR_ACCESS_REG = REGISTERS_BASE + 0x09F8"
definition TWD_INT_SEND_PACKET_TRANSFER :: u32 where "TWD_INT_SEND_PACKET_TRANSFER = 0"
definition TWD_TX_AGGREG_PKTS_LIMIT_DEF :: u32 where "TWD_TX_AGGREG_PKTS_LIMIT_DEF = 0"
definition TWD_TX_AGGREG_PKTS_LIMIT_MAX :: u32 where "TWD_TX_AGGREG_PKTS_LIMIT_MAX = 32"

record TPktsCntrTxn =
  pc_tTxnStruct :: TTxnStruct
  pc_uPktsCntr :: u32

text \<open>The packet \<open>k\<close> given to \<open>txXfer_SendPacket\<close> (nothing in the code reads this one), the transaction of
  packet \<open>k\<close> and that of the counter given to TwIf, the call of the upper layer for packet \<open>k\<close>.\<close>

datatype xf_event =
    XfAccepted nat
  | XfTransact nat TTxnStruct
  | XfCounter nat TTxnStruct u32
  | XfTransferred addr addr nat

text \<open>\<open>xf_self\<close> is the address of the object, \<open>xf_fDone\<close> that of \<open>txXfer_TransferDoneCb\<close>.\<close>

record TTxXferObj =
  xf_self :: addr
  uAggregMaxPkts :: u32
  uAggregMaxLen :: u32
  uAggregPktsNum :: u32
  uAggregPktsLen :: u32
  pAggregFirstPkt :: "nat option"
  pAggregLastPkt :: "nat option"
  fSendPacketTransferCb :: addr
  hSendPacketTransferHndl :: addr
  fXferCompleteLocalCb :: addr
  uPktsCntr :: u32
  uPktsCntrTxnIndex :: nat
  aPktsCntrTxn :: "TPktsCntrTxn list"
  aDbgCountPktAggreg :: "u32 list"
  xf_blks :: "nat \<Rightarrow> TTxCtrlBlk"
  xf_trace :: "xf_event list"

type_synonym xf_twif = "xf_event list \<Rightarrow> ETxnStatus"

definition xf_emit :: "xf_event \<Rightarrow> TTxXferObj \<Rightarrow> TTxXferObj" where
  "xf_emit e x = x\<lparr>xf_trace := xf_trace x @ [e]\<rparr>"

definition xf_fDone :: addr where "xf_fDone = 1"

section \<open>Life cycle\<close>

text \<open>\<open>a\<close>: the address \<open>os_memoryAlloc\<close> returned; \<open>blks\<close>: the control blocks.\<close>

definition txXfer_Create :: "addr \<Rightarrow> (nat \<Rightarrow> TTxCtrlBlk) \<Rightarrow> TTxXferObj option" where
  "txXfer_Create a blks =
     (if a = 0 then None
      else Some \<lparr>xf_self = a, uAggregMaxPkts = 0, uAggregMaxLen = 0, uAggregPktsNum = 0, uAggregPktsLen = 0,
        pAggregFirstPkt = None, pAggregLastPkt = None, fSendPacketTransferCb = 0, hSendPacketTransferHndl = 0,
        fXferCompleteLocalCb = 0, uPktsCntr = 0, uPktsCntrTxnIndex = 0,
        aPktsCntrTxn = replicate CTRL_BLK_ENTRIES_NUM \<lparr>pc_tTxnStruct = TTxnStruct_zero, pc_uPktsCntr = 0\<rparr>,
        aDbgCountPktAggreg = replicate DBG_MAX_AGGREG_PKTS 0, xf_blks = blks, xf_trace = []\<rparr>)"

definition txXfer_Restart :: "TTxXferObj \<Rightarrow> TTxXferObj" where
  "txXfer_Restart x = x\<lparr>uPktsCntr := 0, uPktsCntrTxnIndex := 0, uAggregPktsNum := 0\<rparr>"

text \<open>\<open>buf i\<close> is the address of \<open>aPktsCntrTxn[i].uPktsCntr\<close>.\<close>

definition txXfer_InitTxn :: "(nat \<Rightarrow> addr) \<Rightarrow> nat \<Rightarrow> TPktsCntrTxn \<Rightarrow> TPktsCntrTxn" where
  "txXfer_InitTxn buf i c = c\<lparr>pc_tTxnStruct := BUILD_TTxnStruct
     (TXN_PARAM_SET (pc_tTxnStruct c) TXN_LOW_PRIORITY TXN_FUNC_ID_WLAN TXN_DIRECTION_WRITE TXN_INC_ADDR)
     HOST_WR_ACCESS_REG (buf i) REGISTER_SIZE 0 0\<rparr>"

definition txXfer_Init :: "(nat \<Rightarrow> addr) \<Rightarrow> TTxXferObj \<Rightarrow> TTxXferObj" where
  "txXfer_Init buf x = txXfer_Restart
     (x\<lparr>fSendPacketTransferCb := 0, fXferCompleteLocalCb := 0,
        aPktsCntrTxn := map2 (txXfer_InitTxn buf) [0..<length (aPktsCntrTxn x)] (aPktsCntrTxn x)\<rparr>)"

definition txXfer_SetDefaults :: "u32 \<Rightarrow> TTxXferObj \<Rightarrow> TTxXferObj" where
  "txXfer_SetDefaults uTxAggregPktsLimit x = x\<lparr>uAggregMaxPkts := uTxAggregPktsLimit\<rparr>"

definition txXfer_SetBusParams :: "u32 \<Rightarrow> TTxXferObj \<Rightarrow> TTxXferObj" where
  "txXfer_SetBusParams uDmaBufLen x = x\<lparr>uAggregMaxLen := uDmaBufLen\<rparr>"

definition txXfer_RegisterCb :: "u32 \<Rightarrow> addr \<Rightarrow> addr \<Rightarrow> TTxXferObj \<Rightarrow> TTxXferObj" where
  "txXfer_RegisterCb CallBackID fCb hCb x =
     (if CallBackID = TWD_INT_SEND_PACKET_TRANSFER
      then x\<lparr>fSendPacketTransferCb := fCb, hSendPacketTransferHndl := hCb, fXferCompleteLocalCb := xf_fDone\<rparr>
      else x)"

definition txXfer_ClearStats :: "TTxXferObj \<Rightarrow> TTxXferObj" where
  "txXfer_ClearStats x = x\<lparr>aDbgCountPktAggreg := replicate DBG_MAX_AGGREG_PKTS 0\<rparr>"

section \<open>Sending an aggregation\<close>

text \<open>The loop over the packets of the aggregation: \<open>n\<close> of them are left, from \<open>pCurrPkt\<close> on; \<open>eStatus\<close> is
  what TwIf returned last.\<close>

fun txXfer_SendPkts :: "xf_twif \<Rightarrow> nat \<Rightarrow> nat option \<Rightarrow> ETxnStatus \<Rightarrow> TTxXferObj \<Rightarrow> fault + ETxnStatus \<times> TTxXferObj" where
  "txXfer_SendPkts twif 0 pCurrPkt eStatus x = Inr (eStatus, x)"
| "txXfer_SendPkts twif (Suc n) pCurrPkt eStatus x =
     (case pCurrPkt of
        None \<Rightarrow> Inl NullDeref
      | Some k \<Rightarrow>
          (let b = xf_blks x k;
               t = (if n > 0 then (TXN_PARAM_SET_AGGREGATE (tTxnStruct b) TXN_AGGREGATE_ON)\<lparr>fTxnDoneCb := 0\<rparr>
                    else (TXN_PARAM_SET_AGGREGATE (tTxnStruct b) TXN_AGGREGATE_OFF)
                      \<lparr>fTxnDoneCb := fXferCompleteLocalCb x, hCbHandle := xf_self x\<rparr>);
               t = t\<lparr>uHwAddr := SLV_MEM_DATA\<rparr>;
               x = xf_emit (XfTransact k t) (x\<lparr>xf_blks := (xf_blks x)(k := b\<lparr>tTxnStruct := t\<rparr>)\<rparr>)
           in txXfer_SendPkts twif n (if n > 0 then pNextAggregEntry b else pCurrPkt) (twif (xf_trace x)) x))"

text \<open>The loop of callbacks for \<open>n\<close> packets.\<close>

fun txXfer_CallCbs :: "nat \<Rightarrow> nat option \<Rightarrow> TTxXferObj \<Rightarrow> fault + TTxXferObj" where
  "txXfer_CallCbs 0 pCurrPkt x = Inr x"
| "txXfer_CallCbs (Suc n) pCurrPkt x =
     (case pCurrPkt of
        None \<Rightarrow> Inl NullDeref
      | Some k \<Rightarrow>
          txXfer_CallCbs n (pNextAggregEntry (xf_blks x k))
            (xf_emit (XfTransferred (fSendPacketTransferCb x) (hSendPacketTransferHndl x) k) x))"

text \<open>The packet counter, with the ring of its transactions.\<close>

definition txXfer_SendCounter :: "TTxXferObj \<Rightarrow> fault + TTxXferObj" where
  "txXfer_SendCounter x =
     (let x = x\<lparr>uPktsCntr := uPktsCntr x + uAggregPktsNum x,
                uPktsCntrTxnIndex := (if uPktsCntrTxnIndex x + 1 = CTRL_BLK_ENTRIES_NUM then 0 else uPktsCntrTxnIndex x + 1)\<rparr>;
          i = uPktsCntrTxnIndex x
      in if length (aPktsCntrTxn x) \<le> i then Inl OutOfBounds
         else
           (let t = (pc_tTxnStruct (aPktsCntrTxn x ! i))\<lparr>uHwAddr := HOST_WR_ACCESS_REG\<rparr>;
                c = \<lparr>pc_tTxnStruct = t, pc_uPktsCntr = uPktsCntr x\<rparr>
            in Inr (xf_emit (XfCounter i t (uPktsCntr x)) (x\<lparr>aPktsCntrTxn := (aPktsCntrTxn x)[i := c]\<rparr>))))"

definition txXfer_SendAggregatedPkts :: "xf_twif \<Rightarrow> bool \<Rightarrow> TTxXferObj \<Rightarrow> fault + ETxnStatus \<times> TTxXferObj" where
  "txXfer_SendAggregatedPkts twif bLastPktSentNow x =
     (let num = unat (uAggregPktsNum x) in
      case txXfer_SendPkts twif num (pAggregFirstPkt x) TXN_STATUS_COMPLETE x of
        Inl f \<Rightarrow> Inl f
      | Inr (eStatus, x) \<Rightarrow>
          if length (aDbgCountPktAggreg x) \<le> num then Inl OutOfBounds
          else
            (let x = x\<lparr>aDbgCountPktAggreg := (aDbgCountPktAggreg x)[num := aDbgCountPktAggreg x ! num + 1]\<rparr> in
             if eStatus = TXN_STATUS_ERROR then Inr (eStatus, x)
             else
               (case txXfer_SendCounter x of
                  Inl f \<Rightarrow> Inl f
                | Inr x \<Rightarrow>
                    if fSendPacketTransferCb x \<noteq> 0 \<and> eStatus = TXN_STATUS_COMPLETE then
                      (case txXfer_CallCbs (if bLastPktSentNow then num - 1 else num) (pAggregFirstPkt x) x of
                         Inl f \<Rightarrow> Inl f
                       | Inr x \<Rightarrow> Inr (eStatus, x))
                    else Inr (eStatus, x))))"

section \<open>Operations\<close>

definition xf_set_next :: "nat \<Rightarrow> nat option \<Rightarrow> TTxXferObj \<Rightarrow> TTxXferObj" where
  "xf_set_next k p x = x\<lparr>xf_blks := (xf_blks x)(k := (xf_blks x k)\<lparr>pNextAggregEntry := p\<rparr>)\<rparr>"

text \<open>A new aggregation with the packet \<open>k\<close>.\<close>

definition txXfer_StartAggreg :: "nat \<Rightarrow> u32 \<Rightarrow> TTxXferObj \<Rightarrow> TTxXferObj" where
  "txXfer_StartAggreg k uPktLen x =
     xf_set_next k (Some k)
       (x\<lparr>uAggregPktsNum := 1, uAggregPktsLen := uPktLen, pAggregFirstPkt := Some k, pAggregLastPkt := Some k\<rparr>)"

definition xf_pkt_len :: "TTxCtrlBlk \<Rightarrow> u32" where
  "xf_pkt_len b = push_bit 2 (ucast (td_length (tTxDescriptor b)))"

definition txXfer_SendPacket :: "xf_twif \<Rightarrow> nat \<Rightarrow> TTxXferObj \<Rightarrow> fault + ETxnStatus \<times> TTxXferObj" where
  "txXfer_SendPacket twif k x =
     (let x = xf_emit (XfAccepted k) x;
          uPktLen = xf_pkt_len (xf_blks x k)
      in if uAggregPktsNum x = 0 then
           (let x = txXfer_StartAggreg k uPktLen x in
            if uAggregMaxPkts x \<le> 1 then
              (case txXfer_SendAggregatedPkts twif True x of
                 Inl f \<Rightarrow> Inl f
               | Inr (eStatus, x) \<Rightarrow> Inr (eStatus, x\<lparr>uAggregPktsNum := 0\<rparr>))
            else Inr (TXN_STATUS_PENDING, x))
         else if uAggregPktsNum x + 1 \<le> uAggregMaxPkts x \<and> uAggregPktsLen x + uPktLen \<le> uAggregMaxLen x then
           (case pAggregLastPkt x of
              None \<Rightarrow> Inl NullDeref
            | Some l \<Rightarrow>
                (let x = xf_set_next l (Some k)
                       (x\<lparr>uAggregPktsNum := uAggregPktsNum x + 1, uAggregPktsLen := uAggregPktsLen x + uPktLen\<rparr>);
                     x = xf_set_next k (pAggregFirstPkt x) (x\<lparr>pAggregLastPkt := Some k\<rparr>)
                 in Inr (TXN_STATUS_PENDING, x)))
         else
           (case txXfer_SendAggregatedPkts twif False x of
              Inl f \<Rightarrow> Inl f
            | Inr (_, x) \<Rightarrow> Inr (TXN_STATUS_PENDING, txXfer_StartAggreg k uPktLen x)))"

definition txXfer_EndOfBurst :: "xf_twif \<Rightarrow> TTxXferObj \<Rightarrow> fault + TTxXferObj" where
  "txXfer_EndOfBurst twif x =
     (if uAggregPktsNum x > 0 then
        (case txXfer_SendAggregatedPkts twif False x of
           Inl f \<Rightarrow> Inl f
         | Inr (_, x) \<Rightarrow> Inr (x\<lparr>uAggregPktsNum := 0\<rparr>))
      else Inr x)"

text \<open>The loop of the completion callback: at most \<open>n\<close> packets more.\<close>

fun txXfer_DoneLoop :: "nat \<Rightarrow> nat \<Rightarrow> nat option \<Rightarrow> TTxXferObj \<Rightarrow> fault + TTxXferObj" where
  "txXfer_DoneLoop 0 pInput pCurrPkt x = Inr x"
| "txXfer_DoneLoop (Suc n) pInput pCurrPkt x =
     (if fSendPacketTransferCb x = 0 then Inl NullDeref
      else
        (case pCurrPkt of
           None \<Rightarrow> Inl NullDeref
         | Some k \<Rightarrow>
             (let x = xf_emit (XfTransferred (fSendPacketTransferCb x) (hSendPacketTransferHndl x) k) x in
              if k = pInput then Inr x
              else txXfer_DoneLoop n pInput (pNextAggregEntry (xf_blks x k)) x)))"

definition txXfer_TransferDoneCb :: "nat \<Rightarrow> TTxXferObj \<Rightarrow> fault + TTxXferObj" where
  "txXfer_TransferDoneCb pInput x =
     txXfer_DoneLoop (unat (uAggregMaxPkts x)) pInput (pNextAggregEntry (xf_blks x pInput)) x"

end
