(* ===== verification/SdioBusDrv.thy ===== *)
theory SdioBusDrv
  imports TxnTypes
begin

text \<open>
  \<open>Txn/SdioBusDrv.c\<close>: the bus driver for SDIO. A transaction of up to four buffers goes through a
  DMA buffer and out in at most two parts, a remainder in byte mode and the full blocks in block
  mode; transactions of a Tx aggregation are collected in the DMA buffer first. The host's memory is
  a map from addresses to bytes (\<open>bd_mem\<close>), the clients' transaction structures lie in \<open>bd_txns\<close>. The
  SDIO adapter is the parameter \<open>sdio\<close>: its answer to a call and the bytes the device gives for a
  read, as functions of everything recorded in \<open>bd_trace\<close>. The bytes of a read appear in the DMA
  buffer with the call; if the adapter answers later, nothing looks at the buffer in between. The
  driver is built without \<open>DISABLE_SDIO_MULTI_BLK_MODE\<close>, as in every makefile of the repository.
\<close>

section \<open>Memory\<close>

type_synonym memory = "addr \<Rightarrow> u8"

definition mem_read :: "memory \<Rightarrow> addr \<Rightarrow> nat \<Rightarrow> u8 list" where
  "mem_read m a n = map m [a..<a + n]"

definition mem_write :: "addr \<Rightarrow> u8 list \<Rightarrow> memory \<Rightarrow> memory" where
  "mem_write a bs m = (\<lambda>i. if a \<le> i \<and> i < a + length bs then bs ! (i - a) else m i)"

lemma length_mem_read [simp]: "length (mem_read m a n) = n"
  by (simp add: mem_read_def)

lemma mem_read_append: "mem_read m a (n + k) = mem_read m a n @ mem_read m (a + n) k"
proof -
  have "[a..<a + (n + k)] = [a..<a + n] @ [a + n..<a + n + k]"
    using upt_add_eq_append [of a "a + n" k] by (simp add: add.assoc)
  then show ?thesis by (simp add: mem_read_def)
qed

lemma mem_read_write_same: "length bs = n \<Longrightarrow> mem_read (mem_write a bs m) a n = bs"
  by (rule nth_equalityI) (auto simp: mem_read_def mem_write_def)

lemma mem_read_write_other:
  "a + n \<le> b \<or> b + length bs \<le> a \<Longrightarrow> mem_read (mem_write b bs m) a n = mem_read m a n"
  by (auto simp: mem_read_def mem_write_def)

lemma mem_write_other: "i < a \<or> a + length bs \<le> i \<Longrightarrow> mem_write a bs m i = m i"
  by (auto simp: mem_write_def)

section \<open>State\<close>

definition MAX_TXN_PARTS :: nat where "MAX_TXN_PARTS = MAX_XFER_BUFS * 5"
definition TXN_FUNC_ID_CTRL :: u32 where "TXN_FUNC_ID_CTRL = 0"
definition TXN_PARAM_STATUS_OK :: u32 where "TXN_PARAM_STATUS_OK = 0"
definition TXN_PARAM_STATUS_ERROR :: u32 where "TXN_PARAM_STATUS_ERROR = 1"

record TTxnPart =
  bBlkMode :: bool
  uLength :: u32
  tp_uHwAddr :: u32
  pHostAddr :: addr
  bMore :: bool

definition TTxnPart_zero :: TTxnPart where
  "TTxnPart_zero = \<lparr>bBlkMode = False, uLength = 0, tp_uHwAddr = 0, pHostAddr = 0, bMore = False\<rparr>"

text \<open>The calls of the adapter with the bytes that crossed the bus and its answer
  (\<open>sdioAdapt_Transact\<close>: function, part, direction, whether the device's address is incremented;
  \<open>sdioAdapt_TransactBytes\<close>: the same on function 0), and the completion callback.\<close>

datatype bd_event =
    SdioTransact u32 TTxnPart u32 bool "u8 list" ETxnStatus
  | SdioBytes TTxnPart u32 "u8 list" ETxnStatus
  | BusTxnDone addr addr addr

record TBusDrvObj =
  bd_fTxnDoneCb :: addr
  bd_hCbHandle :: addr
  bd_pCurrTxn :: addr
  eCurrTxnStatus :: ETxnStatus
  aTxnParts :: "TTxnPart list"
  uCurrTxnPartsNum :: u32
  uCurrTxnPartsCount :: u32
  uCurrTxnPartsCountSync :: u32
  uBlkSizeShift :: u32
  uBlkSize :: u32
  uBlkSizeMask :: u32
  pRxDmaBuf :: addr
  uRxDmaBufLen :: u32
  pTxDmaBuf :: addr
  uTxDmaBufLen :: u32
  uTxnLength :: u32
  bd_mem :: memory
  bd_txns :: "addr \<Rightarrow> TTxnStruct"
  bd_trace :: "bd_event list"

type_synonym sdio_adapter = "bd_event list \<Rightarrow> ETxnStatus \<times> (nat \<Rightarrow> u8)"

definition bd_emit :: "bd_event \<Rightarrow> TBusDrvObj \<Rightarrow> TBusDrvObj" where
  "bd_emit e b = b\<lparr>bd_trace := bd_trace b @ [e]\<rparr>"

lemma bd_emit_sel [simp]:
  "bd_fTxnDoneCb (bd_emit e b) = bd_fTxnDoneCb b" "bd_hCbHandle (bd_emit e b) = bd_hCbHandle b"
  "bd_pCurrTxn (bd_emit e b) = bd_pCurrTxn b" "eCurrTxnStatus (bd_emit e b) = eCurrTxnStatus b"
  "aTxnParts (bd_emit e b) = aTxnParts b" "uCurrTxnPartsNum (bd_emit e b) = uCurrTxnPartsNum b"
  "uCurrTxnPartsCount (bd_emit e b) = uCurrTxnPartsCount b"
  "uCurrTxnPartsCountSync (bd_emit e b) = uCurrTxnPartsCountSync b"
  "uBlkSizeShift (bd_emit e b) = uBlkSizeShift b" "uBlkSize (bd_emit e b) = uBlkSize b"
  "uBlkSizeMask (bd_emit e b) = uBlkSizeMask b"
  "pRxDmaBuf (bd_emit e b) = pRxDmaBuf b" "uRxDmaBufLen (bd_emit e b) = uRxDmaBufLen b"
  "pTxDmaBuf (bd_emit e b) = pTxDmaBuf b" "uTxDmaBufLen (bd_emit e b) = uTxDmaBufLen b"
  "uTxnLength (bd_emit e b) = uTxnLength b" "bd_mem (bd_emit e b) = bd_mem b"
  "bd_txns (bd_emit e b) = bd_txns b" "bd_trace (bd_emit e b) = bd_trace b @ [e]"
  by (simp_all add: bd_emit_def)

section \<open>Life cycle\<close>

text \<open>\<open>mem\<close>, \<open>txns\<close>: the host's memory at that time.\<close>

definition busDrv_Create :: "bool \<Rightarrow> memory \<Rightarrow> (addr \<Rightarrow> TTxnStruct) \<Rightarrow> TBusDrvObj option" where
  "busDrv_Create bAlloc mem txns =
     (if bAlloc
      then Some \<lparr>bd_fTxnDoneCb = 0, bd_hCbHandle = 0, bd_pCurrTxn = 0, eCurrTxnStatus = TXN_STATUS_NONE,
        aTxnParts = replicate MAX_TXN_PARTS TTxnPart_zero, uCurrTxnPartsNum = 0, uCurrTxnPartsCount = 0,
        uCurrTxnPartsCountSync = 0, uBlkSizeShift = 0, uBlkSize = 0, uBlkSizeMask = 0, pRxDmaBuf = 0,
        uRxDmaBufLen = 0, pTxDmaBuf = 0, uTxDmaBufLen = 0, uTxnLength = 0, bd_mem = mem, bd_txns = txns,
        bd_trace = []\<rparr>
      else None)"

text \<open>The arguments after the shift are what \<open>sdioAdapt_ConnectBus\<close> hands back: its status, the two DMA
  buffers and their lengths.\<close>

definition busDrv_ConnectBus ::
  "addr \<Rightarrow> addr \<Rightarrow> u32 \<Rightarrow> bool \<Rightarrow> addr \<times> u32 \<Rightarrow> addr \<times> u32 \<Rightarrow> TBusDrvObj \<Rightarrow> ti_status \<times> TBusDrvObj" where
  "busDrv_ConnectBus fCb hCb uShift bOk rx tx b =
     (let b = b\<lparr>bd_fTxnDoneCb := fCb, bd_hCbHandle := hCb, uBlkSizeShift := uShift,
            uBlkSize := push_bit (unat uShift) 1, uBlkSizeMask := push_bit (unat uShift) 1 - 1,
            uCurrTxnPartsCount := 0, uCurrTxnPartsNum := 0, uCurrTxnPartsCountSync := 0, uTxnLength := 0,
            pRxDmaBuf := fst rx, uRxDmaBufLen := snd rx, pTxDmaBuf := fst tx, uTxDmaBufLen := snd tx\<rparr>
      in (if fst rx = 0 \<or> fst tx = 0 then TI_NOK else if bOk then TI_OK else TI_NOK, b))"

section \<open>Preparing the parts\<close>

definition txn_bufs :: "TTxnStruct \<Rightarrow> (u16 \<times> addr) list" where
  "txn_bufs t = take MAX_XFER_BUFS (zip (aLen t) (aBuf t))"

text \<open>The loop over the buffers; running over the Tx DMA buffer is a fault.\<close>

fun busDrv_CopyIn :: "bool \<Rightarrow> (u16 \<times> addr) list \<Rightarrow> TBusDrvObj \<Rightarrow> fault + TBusDrvObj" where
  "busDrv_CopyIn bWrite [] b = Inr b"
| "busDrv_CopyIn bWrite ((uBufLen, pBuf) # bs) b =
     (if uBufLen = 0 then Inr b
      else if bWrite \<and> unat (uTxDmaBufLen b) < unat (uTxnLength b) + unat uBufLen then Inl OutOfBounds
      else busDrv_CopyIn bWrite bs
        (b\<lparr>bd_mem := (if bWrite
                      then mem_write (pTxDmaBuf b + unat (uTxnLength b)) (mem_read (bd_mem b) pBuf (unat uBufLen)) (bd_mem b)
                      else bd_mem b),
           uTxnLength := uTxnLength b + ucast uBufLen\<rparr>))"

text \<open>The remainder and the full blocks.\<close>

definition busDrv_Parts :: "TTxnStruct \<Rightarrow> addr \<Rightarrow> TBusDrvObj \<Rightarrow> TTxnPart list" where
  "busDrv_Parts t pHostBuf b =
     (let uRemainderLen = uTxnLength b AND uBlkSizeMask b;
          uCurrHwAddr = (if uRemainderLen > 0 \<and> TXN_PARAM_GET_FIXED_ADDR t = 0
                         then uHwAddr t + uRemainderLen else uHwAddr t)
      in (if uRemainderLen > 0
          then [\<lparr>bBlkMode = False, uLength = uRemainderLen, tp_uHwAddr = uHwAddr t, pHostAddr = pHostBuf, bMore = True\<rparr>]
          else []) @
         (if uTxnLength b \<ge> uBlkSize b
          then [\<lparr>bBlkMode = True, uLength = uTxnLength b - uRemainderLen, tp_uHwAddr = uCurrHwAddr,
                 pHostAddr = pHostBuf + unat uRemainderLen, bMore = True\<rparr>]
          else []))"

definition busDrv_PrepareTxnParts :: "TTxnStruct \<Rightarrow> TBusDrvObj \<Rightarrow> fault + bool \<times> TBusDrvObj" where
  "busDrv_PrepareTxnParts t b =
     (let bWrite = (TXN_PARAM_GET_DIRECTION t = TXN_DIRECTION_WRITE);
          pHostBuf = (if bWrite then pTxDmaBuf b else pRxDmaBuf b)
      in case busDrv_CopyIn bWrite (txn_bufs t) b of
           Inl f \<Rightarrow> Inl f
         | Inr b \<Rightarrow>
             if TXN_PARAM_GET_AGGREGATE t = TXN_AGGREGATE_ON then Inr (True, b)
             else
               (let ps = busDrv_Parts t pHostBuf b in
                if ps = [] then Inl OutOfBounds
                else
                  (let ps = ps[length ps - 1 := (last ps)\<lparr>bMore := TXN_PARAM_GET_MORE t \<noteq> 0\<rparr>] in
                   Inr (False, b\<lparr>aTxnParts := ps @ drop (length ps) (aTxnParts b),
                                 uCurrTxnPartsNum := of_nat (length ps), uTxnLength := 0\<rparr>))))"

section \<open>Sending the parts\<close>

text \<open>One call of the adapter.\<close>

definition busDrv_Sdio ::
  "sdio_adapter \<Rightarrow> (u8 list \<Rightarrow> ETxnStatus \<Rightarrow> bd_event) \<Rightarrow> TTxnStruct \<Rightarrow> TTxnPart \<Rightarrow> TBusDrvObj \<Rightarrow>
   fault + ETxnStatus \<times> TBusDrvObj" where
  "busDrv_Sdio sdio ev t p b =
     (let n = unat (uLength p); st = fst (sdio (bd_trace b)) in
      if TXN_PARAM_GET_DIRECTION t = TXN_DIRECTION_WRITE
      then Inr (st, bd_emit (ev (mem_read (bd_mem b) (pHostAddr p) n) st) b)
      else if pRxDmaBuf b + unat (uRxDmaBufLen b) < pHostAddr p + n then Inl OutOfBounds
      else
        (let d = map (snd (sdio (bd_trace b))) [0..<n] in
         Inr (st, bd_emit (ev d st) (b\<lparr>bd_mem := mem_write (pHostAddr p) d (bd_mem b)\<rparr>))))"

definition busDrv_SendPart ::
  "sdio_adapter \<Rightarrow> TTxnStruct \<Rightarrow> TTxnPart \<Rightarrow> TBusDrvObj \<Rightarrow> fault + ETxnStatus \<times> TBusDrvObj" where
  "busDrv_SendPart sdio t p b =
     (if TXN_PARAM_GET_SINGLE_STEP t \<noteq> 0 then
        (case busDrv_Sdio sdio (SdioBytes p (TXN_PARAM_GET_DIRECTION t)) t p b of
           Inl f \<Rightarrow> Inl f
         | Inr (st, b) \<Rightarrow>
             if st = TXN_STATUS_ERROR then busDrv_Sdio sdio (SdioBytes p (TXN_PARAM_GET_DIRECTION t)) t p b
             else Inr (st, b))
      else
        busDrv_Sdio sdio (SdioTransact (TXN_PARAM_GET_FUNC_ID t) p (TXN_PARAM_GET_DIRECTION t)
          (TXN_PARAM_GET_FIXED_ADDR t \<noteq> 1)) t p b)"

text \<open>The copy out of the Rx DMA buffer after a read.\<close>

fun busDrv_CopyOut :: "(u16 \<times> addr) list \<Rightarrow> addr \<Rightarrow> memory \<Rightarrow> memory" where
  "busDrv_CopyOut [] pDmaBuf m = m"
| "busDrv_CopyOut ((uBufLen, pBuf) # bs) pDmaBuf m =
     (if uBufLen = 0 then m
      else busDrv_CopyOut bs (pDmaBuf + unat uBufLen) (mem_write pBuf (mem_read m pDmaBuf (unat uBufLen)) m))"

definition busDrv_Report :: "TBusDrvObj \<Rightarrow> fault + TBusDrvObj" where
  "busDrv_Report b =
     (if uCurrTxnPartsCountSync b = uCurrTxnPartsCount b then Inr b
      else if bd_fTxnDoneCb b = 0 then Inl NullDeref
      else Inr (bd_emit (BusTxnDone (bd_fTxnDoneCb b) (bd_hCbHandle b) (bd_pCurrTxn b)) b))"

definition bd_set_error :: "TBusDrvObj \<Rightarrow> TBusDrvObj" where
  "bd_set_error b = b\<lparr>bd_txns := (bd_txns b)(bd_pCurrTxn b :=
     TXN_PARAM_SET_STATUS (bd_txns b (bd_pCurrTxn b)) TXN_PARAM_STATUS_ERROR)\<rparr>"

lemma Sdio_frame:
  "busDrv_Sdio sdio ev t p b = Inr (st, b') \<Longrightarrow>
   uCurrTxnPartsCount b' = uCurrTxnPartsCount b \<and> uCurrTxnPartsNum b' = uCurrTxnPartsNum b"
  by (auto simp: busDrv_Sdio_def Let_def split: if_splits)

lemma SendPart_frame:
  "busDrv_SendPart sdio t p b = Inr (st, b') \<Longrightarrow>
   uCurrTxnPartsCount b' = uCurrTxnPartsCount b \<and> uCurrTxnPartsNum b' = uCurrTxnPartsNum b"
  by (auto simp: busDrv_SendPart_def split: if_splits sum.splits dest!: Sdio_frame)

function busDrv_SendTxnParts :: "sdio_adapter \<Rightarrow> TBusDrvObj \<Rightarrow> fault + TBusDrvObj" where
  "busDrv_SendTxnParts sdio b =
     (let t = bd_txns b (bd_pCurrTxn b) in
      if bd_pCurrTxn b = 0 then Inl NullDeref
      else if uCurrTxnPartsCount b < uCurrTxnPartsNum b then
        (if length (aTxnParts b) \<le> unat (uCurrTxnPartsCount b) then Inl OutOfBounds
         else
           (case busDrv_SendPart sdio t (aTxnParts b ! unat (uCurrTxnPartsCount b))
                   (b\<lparr>uCurrTxnPartsCount := uCurrTxnPartsCount b + 1, eCurrTxnStatus := TXN_STATUS_PENDING\<rparr>) of
              Inl f \<Rightarrow> Inl f
            | Inr (st, b1) \<Rightarrow>
                if st = TXN_STATUS_PENDING then Inr b1
                else
                  (let b2 = b1\<lparr>eCurrTxnStatus := st, uCurrTxnPartsCountSync := uCurrTxnPartsCountSync b1 + 1\<rparr> in
                   if st = TXN_STATUS_ERROR then busDrv_Report (bd_set_error b2)
                   else busDrv_SendTxnParts sdio b2)))
      else
        busDrv_Report
          (if TXN_PARAM_GET_DIRECTION t = TXN_DIRECTION_READ
           then b\<lparr>bd_mem := busDrv_CopyOut (txn_bufs t) (pRxDmaBuf b) (bd_mem b)\<rparr> else b))"
  by pat_completeness auto
termination
  by (relation "measure (\<lambda>(sdio, b). unat (uCurrTxnPartsNum b) - unat (uCurrTxnPartsCount b))")
    (auto dest!: SendPart_frame simp: word_less_nat_alt unat_plus_one)

declare busDrv_SendTxnParts.simps [simp del]

section \<open>Operations\<close>

definition busDrv_Transact :: "sdio_adapter \<Rightarrow> addr \<Rightarrow> TBusDrvObj \<Rightarrow> fault + ETxnStatus \<times> TBusDrvObj" where
  "busDrv_Transact sdio pTxn b =
     (if pTxn = 0 then Inl NullDeref else
      let b = b\<lparr>bd_pCurrTxn := pTxn, uCurrTxnPartsCount := 0, uCurrTxnPartsCountSync := 0,
            bd_txns := (bd_txns b)(pTxn := TXN_PARAM_SET_STATUS (bd_txns b pTxn) TXN_PARAM_STATUS_OK)\<rparr>
      in case busDrv_PrepareTxnParts (bd_txns b pTxn) b of
           Inl f \<Rightarrow> Inl f
         | Inr (bWithinAggregation, b) \<Rightarrow>
             if bWithinAggregation then Inr (TXN_STATUS_COMPLETE, b)
             else
               (case busDrv_SendTxnParts sdio b of
                  Inl f \<Rightarrow> Inl f
                | Inr b \<Rightarrow> Inr (eCurrTxnStatus b, b)))"

definition busDrv_TxnDoneCb :: "sdio_adapter \<Rightarrow> bool \<Rightarrow> TBusDrvObj \<Rightarrow> fault + TBusDrvObj" where
  "busDrv_TxnDoneCb sdio bOk b =
     (if bd_pCurrTxn b = 0 then Inl NullDeref
      else if \<not> bOk then
        (if bd_fTxnDoneCb b = 0 then Inl NullDeref
         else Inr (bd_emit (BusTxnDone (bd_fTxnDoneCb b) (bd_hCbHandle b) (bd_pCurrTxn b)) (bd_set_error b)))
      else busDrv_SendTxnParts sdio b)"

end
