(* ===== verification/SdioBusDrvProps.thy ===== *)
theory SdioBusDrvProps
  imports SdioBusDrv
begin

text \<open>
  The SDIO bus driver of theory \<open>SdioBusDrv\<close>: what a transaction puts on the bus, part by part, up to
  its completion; the bytes and device addresses of writes, aggregations and reads; when the
  completion callback is made.
\<close>

section \<open>The bytes of a transaction\<close>

fun bufs_bytes :: "memory \<Rightarrow> (u16 \<times> addr) list \<Rightarrow> u8 list" where
  "bufs_bytes m [] = []"
| "bufs_bytes m ((l, a) # bs) = (if l = 0 then [] else mem_read m a (unat l) @ bufs_bytes m bs)"

fun bufs_len :: "(u16 \<times> addr) list \<Rightarrow> nat" where
  "bufs_len [] = 0"
| "bufs_len ((l, a) # bs) = (if l = 0 then 0 else unat l + bufs_len bs)"

definition txn_bytes :: "memory \<Rightarrow> TTxnStruct \<Rightarrow> u8 list" where
  "txn_bytes m t = bufs_bytes m (txn_bufs t)"

definition txn_len :: "TTxnStruct \<Rightarrow> nat" where
  "txn_len t = bufs_len (txn_bufs t)"

text \<open>The buffers lie outside \<open>n\<close> bytes from address \<open>d\<close>.\<close>

definition bufs_apart :: "addr \<Rightarrow> nat \<Rightarrow> (u16 \<times> addr) list \<Rightarrow> bool" where
  "bufs_apart d n bs \<longleftrightarrow> (\<forall>(l, a) \<in> set bs. a + unat l \<le> d \<or> d + n \<le> a)"

lemma length_bufs_bytes [simp]: "length (bufs_bytes m bs) = bufs_len bs"
  by (induction bs rule: bufs_len.induct) auto

lemma bufs_bytes_cong:
  "bufs_apart d n bs \<Longrightarrow> \<forall>i. i < d \<or> d + n \<le> i \<longrightarrow> m' i = m i \<Longrightarrow> bufs_bytes m' bs = bufs_bytes m bs"
proof (induction bs)
  case (Cons b bs)
  obtain l a where b: "b = (l, a)" by fastforce
  have "mem_read m' a (unat l) = mem_read m a (unat l)"
    unfolding mem_read_def using Cons.prems by (intro map_cong) (auto simp: bufs_apart_def b)
  moreover have "bufs_bytes m' bs = bufs_bytes m bs" using Cons by (simp add: bufs_apart_def)
  ultimately show ?case by (simp add: b)
qed simp

text \<open>The bytes collected for an aggregation.\<close>

definition bd_acc :: "TBusDrvObj \<Rightarrow> u8 list" where
  "bd_acc b = mem_read (bd_mem b) (pTxDmaBuf b) (unat (uTxnLength b))"

definition bd_same :: "TBusDrvObj \<Rightarrow> TBusDrvObj \<Rightarrow> bool" where
  "bd_same b b' \<longleftrightarrow> bd_fTxnDoneCb b' = bd_fTxnDoneCb b \<and> bd_hCbHandle b' = bd_hCbHandle b \<and>
     uBlkSizeShift b' = uBlkSizeShift b \<and> uBlkSize b' = uBlkSize b \<and> uBlkSizeMask b' = uBlkSizeMask b \<and>
     pRxDmaBuf b' = pRxDmaBuf b \<and> uRxDmaBufLen b' = uRxDmaBufLen b \<and>
     pTxDmaBuf b' = pTxDmaBuf b \<and> uTxDmaBufLen b' = uTxDmaBufLen b"

lemma bd_same_refl [simp]: "bd_same b b"
  by (simp add: bd_same_def)

lemma bd_same_trans: "bd_same a b \<Longrightarrow> bd_same b c \<Longrightarrow> bd_same a c"
  by (simp add: bd_same_def)

lemma CopyIn_write:
  assumes "bufs_apart (pTxDmaBuf b) (unat (uTxDmaBufLen b)) bs"
    and "unat (uTxnLength b) + bufs_len bs \<le> unat (uTxDmaBufLen b)"
  shows "\<exists>m. busDrv_CopyIn True bs b = Inr (b\<lparr>bd_mem := m, uTxnLength := uTxnLength b + of_nat (bufs_len bs)\<rparr>) \<and>
    mem_read m (pTxDmaBuf b) (unat (uTxnLength b) + bufs_len bs) = bd_acc b @ bufs_bytes (bd_mem b) bs \<and>
    (\<forall>i. i < pTxDmaBuf b \<or> pTxDmaBuf b + unat (uTxDmaBufLen b) \<le> i \<longrightarrow> m i = bd_mem b i)"
  using assms
proof (induction bs arbitrary: b)
  case Nil
  then show ?case by (intro exI [of _ "bd_mem b"]) (simp add: bd_acc_def)
next
  case (Cons x bs)
  obtain l a where x: "x = (l, a)" by fastforce
  show ?case
  proof (cases "l = 0")
    case True
    then show ?thesis by (intro exI [of _ "bd_mem b"]) (simp add: x bd_acc_def)
  next
    case False
    let ?L = "unat (uTxnLength b)" and ?n = "unat l" and ?D = "pTxDmaBuf b"
    let ?d = "mem_read (bd_mem b) a ?n"
    let ?b = "b\<lparr>bd_mem := mem_write (?D + ?L) ?d (bd_mem b), uTxnLength := uTxnLength b + ucast l\<rparr>"
    have fits: "?L + ?n + bufs_len bs \<le> unat (uTxDmaBufLen b)" using Cons.prems(2) False by (simp add: x)
    have L: "unat (uTxnLength ?b) = ?L + ?n"
      using fits unat_bound [of "uTxDmaBufLen b"] by (simp add: unat_add_small)
    have acc: "bd_acc ?b = bd_acc b @ ?d"
      unfolding bd_acc_def L by (simp add: mem_read_append mem_read_write_same mem_read_write_other)
    have out: "\<forall>i. i < ?D \<or> ?D + unat (uTxDmaBufLen b) \<le> i \<longrightarrow> bd_mem ?b i = bd_mem b i"
      using fits by (auto intro: mem_write_other)
    have apart: "bufs_apart ?D (unat (uTxDmaBufLen b)) bs" using Cons.prems(1) by (simp add: bufs_apart_def)
    have "bufs_bytes (bd_mem ?b) bs = bufs_bytes (bd_mem b) bs" by (rule bufs_bytes_cong [OF apart out])
    moreover have "unat (uTxnLength ?b) + bufs_len bs \<le> unat (uTxDmaBufLen ?b)" unfolding L using fits by simp
    ultimately obtain m where m: "busDrv_CopyIn True bs ?b =
          Inr (?b\<lparr>bd_mem := m, uTxnLength := uTxnLength ?b + of_nat (bufs_len bs)\<rparr>)"
        "mem_read m ?D (?L + ?n + bufs_len bs) = bd_acc b @ ?d @ bufs_bytes (bd_mem b) bs"
        "\<forall>i. i < ?D \<or> ?D + unat (uTxDmaBufLen b) \<le> i \<longrightarrow> m i = bd_mem ?b i"
      using Cons.IH [of ?b] apart acc L by auto
    have "busDrv_CopyIn True (x # bs) b = busDrv_CopyIn True bs ?b" using False fits by (simp add: x)
    moreover have "uTxnLength b + ucast l + of_nat (bufs_len bs) = uTxnLength b + of_nat (bufs_len (x # bs))"
      using False by (simp add: x add.assoc)
    ultimately show ?thesis using m out False by (intro exI [of _ m]) (simp add: x add.assoc)
  qed
qed

lemma CopyIn_read:
  "busDrv_CopyIn False bs b = Inr (b\<lparr>uTxnLength := uTxnLength b + of_nat (bufs_len bs)\<rparr>)"
proof (induction bs arbitrary: b)
  case (Cons x bs)
  obtain l a where "x = (l, a)" by fastforce
  then show ?case using Cons by (simp add: add.assoc)
qed simp

section \<open>The parts\<close>

fun parts_chain :: "addr \<Rightarrow> TTxnPart list \<Rightarrow> bool" where
  "parts_chain a [] \<longleftrightarrow> True"
| "parts_chain a (p # ps) \<longleftrightarrow> pHostAddr p = a \<and> parts_chain (a + unat (uLength p)) ps"

definition parts_len :: "TTxnPart list \<Rightarrow> nat" where
  "parts_len ps = sum_list (map (\<lambda>p. unat (uLength p)) ps)"

fun parts_addr :: "bool \<Rightarrow> u32 \<Rightarrow> TTxnPart list \<Rightarrow> bool" where
  "parts_addr fixed h [] \<longleftrightarrow> True"
| "parts_addr fixed h (p # ps) \<longleftrightarrow> tp_uHwAddr p = h \<and> parts_addr fixed (if fixed then h else h + uLength p) ps"

text \<open>A connected bus driver.\<close>

definition bd_conn :: "TBusDrvObj \<Rightarrow> bool" where
  "bd_conn b \<longleftrightarrow> bd_fTxnDoneCb b \<noteq> 0 \<and> (\<exists>s < 31. uBlkSize b = push_bit s 1 \<and> uBlkSizeMask b = push_bit s 1 - 1) \<and>
     length (aTxnParts b) = MAX_TXN_PARTS"

lemma Parts_chain:
  fixes t :: TTxnStruct and b :: TBusDrvObj and d :: addr
  assumes c: "bd_conn b"
  defines "ps \<equiv> busDrv_Parts t d b"
  shows "parts_chain d ps" "parts_len ps = unat (uTxnLength b)" "length ps \<le> 2"
    "parts_addr (TXN_PARAM_GET_FIXED_ADDR t \<noteq> 0) (uHwAddr t) ps"
    "\<forall>p \<in> set ps. uLength p \<noteq> 0" "uTxnLength b \<noteq> 0 \<longleftrightarrow> ps \<noteq> []"
proof -
  let ?L = "uTxnLength b" and ?r = "uTxnLength b AND uBlkSizeMask b" and ?B = "uBlkSize b"
  obtain s where s: "s < 31" "?B = push_bit s 1" "uBlkSizeMask b = push_bit s 1 - 1" using c by (auto simp: bd_conn_def)
  have "uBlkSizeMask b = mask s" by (simp add: s(3) mask_eq_exp_minus_1 push_bit_eq_mult)
  then have r: "?r = take_bit s ?L" by (simp add: take_bit_eq_mask)
  have ur: "unat ?r = unat ?L mod 2 ^ s" unfolding r unsigned_take_bit_eq by (simp add: take_bit_eq_mod)
  have "(2 :: nat) ^ s < 2 ^ 32" using s(1) by (intro power_strict_increasing) auto
  then have uB: "unat ?B = 2 ^ s"
    unfolding s(2) unsigned_push_bit_eq using s(1) by (simp add: push_bit_eq_mult take_bit_nat_eq_self)
  have le: "?r \<le> ?L" by (simp add: word_le_nat_alt ur)
  have small: "?r = ?L" if "\<not> ?B \<le> ?L"
    using that by (auto simp: word_le_nat_alt uB word_unat_eq_iff ur)
  have diff: "unat (?L - ?r) = unat ?L - unat ?r" using le by (simp add: unat_sub)
  have full: "?L - ?r \<noteq> 0" if "?B \<le> ?L"
  proof -
    have "unat ?r < 2 ^ s" by (simp add: ur)
    then have "unat ?r < unat ?L" using that by (simp add: word_le_nat_alt uB)
    then show ?thesis by (auto simp: word_less_nat_alt)
  qed
  have pos: "?r > 0 \<longleftrightarrow> ?r \<noteq> 0" by (simp add: word_gt_0)
  show "parts_chain d ps" "length ps \<le> 2" "parts_addr (TXN_PARAM_GET_FIXED_ADDR t \<noteq> 0) (uHwAddr t) ps"
    by (auto simp: ps_def busDrv_Parts_def Let_def pos)
  show "parts_len ps = unat ?L"
    using small diff le
    by (cases "?B \<le> ?L"; cases "?r = 0")
      (auto simp: ps_def busDrv_Parts_def Let_def parts_len_def word_le_nat_alt word_gt_0)
  show "\<forall>p \<in> set ps. uLength p \<noteq> 0" using full by (auto simp: ps_def busDrv_Parts_def Let_def pos)
  show "?L \<noteq> 0 \<longleftrightarrow> ps \<noteq> []"
    using small s(1) uB by (cases "?B \<le> ?L") (auto simp: ps_def busDrv_Parts_def Let_def word_gt_0 word_le_nat_alt)
qed

section \<open>Running the parts\<close>

definition bd_ev :: "TTxnStruct \<Rightarrow> TTxnPart \<Rightarrow> u8 list \<times> ETxnStatus \<Rightarrow> bd_event" where
  "bd_ev t p z = SdioTransact (TXN_PARAM_GET_FUNC_ID t) p (TXN_PARAM_GET_DIRECTION t)
     (TXN_PARAM_GET_FIXED_ADDR t \<noteq> 1) (fst z) (snd z)"

text \<open>A transaction \<open>t\<close>, not for the ELP register, whose parts \<open>ps\<close> are prepared, from address \<open>d\<close> of its DMA buffer.\<close>

definition bd_prog :: "TBusDrvObj \<Rightarrow> TTxnStruct \<Rightarrow> addr \<Rightarrow> TTxnPart list \<Rightarrow> bool" where
  "bd_prog b0 t d ps \<longleftrightarrow> bd_fTxnDoneCb b0 \<noteq> 0 \<and> bd_pCurrTxn b0 \<noteq> 0 \<and> bd_txns b0 (bd_pCurrTxn b0) = t \<and>
     TXN_PARAM_GET_SINGLE_STEP t = 0 \<and> take (length ps) (aTxnParts b0) = ps \<and> length ps \<le> 2 \<and>
     uCurrTxnPartsNum b0 = of_nat (length ps) \<and> parts_chain d ps \<and>
     (TXN_PARAM_GET_DIRECTION t \<noteq> TXN_DIRECTION_WRITE \<longrightarrow>
        d = pRxDmaBuf b0 \<and> parts_len ps \<le> unat (uRxDmaBufLen b0))"

text \<open>The same for any transaction, the ELP register's included.\<close>

definition bd_set :: "TBusDrvObj \<Rightarrow> TTxnStruct \<Rightarrow> addr \<Rightarrow> TTxnPart list \<Rightarrow> bool" where
  "bd_set b0 t d ps \<longleftrightarrow> bd_fTxnDoneCb b0 \<noteq> 0 \<and> bd_pCurrTxn b0 \<noteq> 0 \<and> bd_txns b0 (bd_pCurrTxn b0) = t \<and>
     take (length ps) (aTxnParts b0) = ps \<and> length ps \<le> 2 \<and>
     uCurrTxnPartsNum b0 = of_nat (length ps) \<and> parts_chain d ps \<and>
     (TXN_PARAM_GET_DIRECTION t \<noteq> TXN_DIRECTION_WRITE \<longrightarrow>
        d = pRxDmaBuf b0 \<and> parts_len ps \<le> unat (uRxDmaBufLen b0))"

text \<open>The first parts were sent, with the bytes and the answers \<open>zs\<close>.\<close>

definition bd_ran ::
  "TBusDrvObj \<Rightarrow> TTxnStruct \<Rightarrow> addr \<Rightarrow> TTxnPart list \<Rightarrow> (u8 list \<times> ETxnStatus) list \<Rightarrow> TBusDrvObj \<Rightarrow> bool" where
  "bd_ran b0 t d ps zs b \<longleftrightarrow>
     bd_same b0 b \<and> bd_pCurrTxn b = bd_pCurrTxn b0 \<and> bd_txns b = bd_txns b0 \<and> uTxnLength b = uTxnLength b0 \<and>
     aTxnParts b = aTxnParts b0 \<and> uCurrTxnPartsNum b = uCurrTxnPartsNum b0 \<and>
     length zs \<le> length ps \<and> uCurrTxnPartsCount b = of_nat (length zs) \<and>
     uCurrTxnPartsCountSync b = of_nat (length (filter (\<lambda>z. snd z \<noteq> TXN_STATUS_PENDING) zs)) \<and>
     (zs \<noteq> [] \<longrightarrow> eCurrTxnStatus b = snd (last zs)) \<and>
     bd_trace b = bd_trace b0 @ map2 (bd_ev t) (take (length zs) ps) zs \<and>
     list_all2 (\<lambda>p z. length (fst z) = unat (uLength p)) (take (length zs) ps) zs \<and>
     mem_read (bd_mem b) d (length (concat (map fst zs))) = concat (map fst zs) \<and>
     (TXN_PARAM_GET_DIRECTION t = TXN_DIRECTION_WRITE \<longrightarrow> bd_mem b = bd_mem b0) \<and>
     (\<forall>i. i < pRxDmaBuf b0 \<or> pRxDmaBuf b0 + unat (uRxDmaBufLen b0) \<le> i \<longrightarrow> bd_mem b i = bd_mem b0 i)"

lemma parts_len_take: "parts_len (take k ps) \<le> parts_len ps"
  by (induction ps arbitrary: k) (auto simp: parts_len_def take_Cons split: nat.splits)

lemma parts_len_snoc [simp]: "parts_len (ps @ [p]) = parts_len ps + unat (uLength p)"
  by (simp add: parts_len_def)

lemma chain_nth: "parts_chain d ps \<Longrightarrow> i < length ps \<Longrightarrow> pHostAddr (ps ! i) = d + parts_len (take i ps)"
  by (induction ps arbitrary: d i) (auto simp: parts_len_def nth_Cons split: nat.splits)

lemma ran_len:
  "list_all2 (\<lambda>p z. length (fst z) = unat (uLength p)) ps zs \<Longrightarrow> length (concat (map fst zs)) = parts_len ps"
  by (induction rule: list_all2_induct) (auto simp: parts_len_def)

lemma ran_data:
  "bd_ran b0 t d ps zs b \<Longrightarrow> length (concat (map fst zs)) = n \<Longrightarrow> concat (map fst zs) = mem_read (bd_mem b) d n"
  by (simp add: bd_ran_def)

lemma SendPart_ran:
  assumes g: "bd_prog b0 t d ps" and r: "bd_ran b0 t d ps zs b" and k: "length zs < length ps"
  shows "\<exists>z b1. busDrv_SendPart sdio t (ps ! length zs)
        (b\<lparr>uCurrTxnPartsCount := uCurrTxnPartsCount b + 1, eCurrTxnStatus := TXN_STATUS_PENDING\<rparr>) = Inr (snd z, b1) \<and>
    snd z = fst (sdio (bd_trace b)) \<and> eCurrTxnStatus b1 = TXN_STATUS_PENDING \<and>
    bd_ran b0 t d ps (zs @ [z]) (b1\<lparr>eCurrTxnStatus := snd z, uCurrTxnPartsCountSync :=
      uCurrTxnPartsCountSync b1 + (if snd z = TXN_STATUS_PENDING then 0 else 1)\<rparr>)"
proof -
  let ?p = "ps ! length zs" and ?n = "unat (uLength (ps ! length zs))" and ?c = "concat (map fst zs)"
  let ?b = "b\<lparr>uCurrTxnPartsCount := uCurrTxnPartsCount b + 1, eCurrTxnStatus := TXN_STATUS_PENDING\<rparr>"
  let ?st = "fst (sdio (bd_trace b))"
  note R = r [unfolded bd_ran_def] and G = g [unfolded bd_prog_def]
  have sn: "take (Suc (length zs)) ps = take (length zs) ps @ [?p]" using k by (simp add: take_Suc_conv_app_nth)
  have len: "length ?c = parts_len (take (length zs) ps)" using R by (intro ran_len) simp
  have host: "pHostAddr ?p = d + length ?c" using chain_nth [OF _ k, of d] G by (simp add: len)
  have two: "length zs < 2" using k G by simp
  have trace: "map2 (bd_ev t) (take (length (zs @ [z])) ps) (zs @ [z]) =
      map2 (bd_ev t) (take (length zs) ps) zs @ [bd_ev t ?p z]" for z
    using k by (simp add: sn)
  have ss: "busDrv_SendPart sdio t ?p ?b = busDrv_Sdio sdio (SdioTransact (TXN_PARAM_GET_FUNC_ID t) ?p
      (TXN_PARAM_GET_DIRECTION t) (TXN_PARAM_GET_FIXED_ADDR t \<noteq> 1)) t ?p ?b"
    using G by (simp add: busDrv_SendPart_def)
  show ?thesis
  proof (cases "TXN_PARAM_GET_DIRECTION t = TXN_DIRECTION_WRITE")
    case True
    let ?z = "(mem_read (bd_mem b) (pHostAddr ?p) ?n, ?st)"
    let ?b1 = "bd_emit (bd_ev t ?p ?z) ?b"
    have "busDrv_SendPart sdio t ?p ?b = Inr (snd ?z, ?b1)"
      unfolding ss using True by (simp add: busDrv_Sdio_def Let_def bd_ev_def)
    moreover have "bd_ran b0 t d ps (zs @ [?z]) (?b1\<lparr>eCurrTxnStatus := snd ?z, uCurrTxnPartsCountSync :=
        uCurrTxnPartsCountSync ?b1 + (if snd ?z = TXN_STATUS_PENDING then 0 else 1)\<rparr>)"
      unfolding bd_ran_def trace using R k two
      by (auto simp: bd_same_def sn mem_read_append host intro!: list_all2_appendI)
    ultimately show ?thesis by (intro exI [of _ ?z] exI [of _ ?b1]) simp
  next
    case False
    let ?d = "map (snd (sdio (bd_trace b))) [0..<?n]"
    let ?z = "(?d, ?st)"
    let ?b1 = "bd_emit (bd_ev t ?p ?z) (?b\<lparr>bd_mem := mem_write (pHostAddr ?p) ?d (bd_mem b)\<rparr>)"
    have "length ?c + ?n = parts_len (take (Suc (length zs)) ps)" by (simp add: sn len)
    also have "\<dots> \<le> unat (uRxDmaBufLen b0)" using parts_len_take [of "Suc (length zs)" ps] G False by simp
    finally have fits: "length ?c + ?n \<le> unat (uRxDmaBufLen b0)" .
    have d: "d = pRxDmaBuf b0" "pRxDmaBuf b = pRxDmaBuf b0" "uRxDmaBufLen b = uRxDmaBufLen b0"
      using G R False by (simp_all add: bd_same_def)
    have "busDrv_SendPart sdio t ?p ?b = Inr (snd ?z, ?b1)"
      unfolding ss using False fits d by (simp add: busDrv_Sdio_def Let_def bd_ev_def host)
    moreover have "mem_read (bd_mem ?b1) d (length ?c + ?n) = ?c @ ?d"
      using R by (simp add: mem_read_append host mem_read_write_same mem_read_write_other)
    then have "bd_ran b0 t d ps (zs @ [?z]) (?b1\<lparr>eCurrTxnStatus := snd ?z, uCurrTxnPartsCountSync :=
        uCurrTxnPartsCountSync ?b1 + (if snd ?z = TXN_STATUS_PENDING then 0 else 1)\<rparr>)"
      unfolding bd_ran_def trace using R k two False fits d
      by (auto simp: bd_same_def sn host mem_write_other intro!: list_all2_appendI)
    ultimately show ?thesis by (intro exI [of _ ?z] exI [of _ ?b1]) simp
  qed
qed

text \<open>How a call of \<open>busDrv_SendTxnParts\<close> ends: waiting for the adapter, finished or failed.\<close>

definition bd_noerr :: "(u8 list \<times> ETxnStatus) list \<Rightarrow> bool" where
  "bd_noerr zs \<longleftrightarrow> (\<forall>z \<in> set zs. snd z \<noteq> TXN_STATUS_ERROR)"

definition bd_async :: "(u8 list \<times> ETxnStatus) list \<Rightarrow> bool" where
  "bd_async zs \<longleftrightarrow> (\<exists>z \<in> set zs. snd z = TXN_STATUS_PENDING)"

definition bd_reported :: "(u8 list \<times> ETxnStatus) list \<Rightarrow> TBusDrvObj \<Rightarrow> TBusDrvObj" where
  "bd_reported zs b =
     (if bd_async zs then bd_emit (BusTxnDone (bd_fTxnDoneCb b) (bd_hCbHandle b) (bd_pCurrTxn b)) b else b)"

definition bd_copied :: "TTxnStruct \<Rightarrow> TBusDrvObj \<Rightarrow> TBusDrvObj" where
  "bd_copied t b =
     (if TXN_PARAM_GET_DIRECTION t = TXN_DIRECTION_READ
      then b\<lparr>bd_mem := busDrv_CopyOut (txn_bufs t) (pRxDmaBuf b) (bd_mem b)\<rparr> else b)"

definition bd_waits ::
  "TBusDrvObj \<Rightarrow> TTxnStruct \<Rightarrow> addr \<Rightarrow> TTxnPart list \<Rightarrow> (u8 list \<times> ETxnStatus) list \<Rightarrow> TBusDrvObj \<Rightarrow> bool" where
  "bd_waits b0 t d ps zs s \<longleftrightarrow>
     bd_ran b0 t d ps zs s \<and> zs \<noteq> [] \<and> snd (last zs) = TXN_STATUS_PENDING \<and> bd_noerr zs"

definition bd_finished ::
  "TBusDrvObj \<Rightarrow> TTxnStruct \<Rightarrow> addr \<Rightarrow> TTxnPart list \<Rightarrow> (u8 list \<times> ETxnStatus) list \<Rightarrow> TBusDrvObj \<Rightarrow> bool" where
  "bd_finished b0 t d ps zs s \<longleftrightarrow>
     (\<exists>b. bd_ran b0 t d ps zs b \<and> length zs = length ps \<and> bd_noerr zs \<and> s = bd_reported zs (bd_copied t b))"

definition bd_failed ::
  "TBusDrvObj \<Rightarrow> TTxnStruct \<Rightarrow> addr \<Rightarrow> TTxnPart list \<Rightarrow> (u8 list \<times> ETxnStatus) list \<Rightarrow> TBusDrvObj \<Rightarrow> bool" where
  "bd_failed b0 t d ps zs s \<longleftrightarrow>
     (\<exists>b. bd_ran b0 t d ps zs b \<and> zs \<noteq> [] \<and> snd (last zs) \<in> {TXN_STATUS_ERROR, TXN_STATUS_PENDING} \<and>
       bd_noerr (butlast zs) \<and> s = bd_reported zs (bd_set_error b))"

lemma sync_count:
  assumes "length zs \<le> 2"
  shows "(of_nat (length (filter (\<lambda>z. snd z \<noteq> TXN_STATUS_PENDING) zs)) :: u32) = of_nat (length zs) \<longleftrightarrow> \<not> bd_async zs"
proof -
  let ?k = "length (filter (\<lambda>z. snd z \<noteq> TXN_STATUS_PENDING) zs)"
  have "?k \<le> 2" by (rule le_trans [OF length_filter_le assms])
  then have "?k < 2 ^ 32" "length zs < 2 ^ 32" using assms by simp_all
  then have "(of_nat ?k :: u32) = of_nat (length zs) \<longleftrightarrow> ?k = length zs"
    by (simp add: word_of_nat_eq_iff take_bit_nat_eq_self)
  also have "\<dots> \<longleftrightarrow> \<not> bd_async zs"
  proof (cases "bd_async zs")
    case True
    then obtain z where "z \<in> set zs" "\<not> snd z \<noteq> TXN_STATUS_PENDING" by (auto simp: bd_async_def)
    from length_filter_less [of z zs "\<lambda>z. snd z \<noteq> TXN_STATUS_PENDING", OF this] True show ?thesis by simp
  next
    case False
    then have "filter (\<lambda>z. snd z \<noteq> TXN_STATUS_PENDING) zs = zs" by (intro filter_True) (simp add: bd_async_def)
    with False show ?thesis by simp
  qed
  finally show ?thesis .
qed

lemma ran_report:
  assumes "bd_prog b0 t d ps" "bd_ran b0 t d ps zs b" "bd_same b b'" "bd_pCurrTxn b' = bd_pCurrTxn b"
    "uCurrTxnPartsCount b' = uCurrTxnPartsCount b" "uCurrTxnPartsCountSync b' = uCurrTxnPartsCountSync b"
  shows "busDrv_Report b' = Inr (bd_reported zs b')"
proof -
  have "length zs \<le> 2" using assms(1,2) by (auto simp: bd_prog_def bd_ran_def)
  from sync_count [OF this] show ?thesis
    using assms by (auto simp: busDrv_Report_def bd_reported_def bd_ran_def bd_prog_def bd_same_def)
qed

lemma SendTxnParts_ends:
  assumes g: "bd_prog b0 t d ps"
  shows "bd_ran b0 t d ps zs b \<Longrightarrow> bd_noerr zs \<Longrightarrow>
    \<exists>ys s. busDrv_SendTxnParts sdio b = Inr s \<and> (length zs < length ps \<longrightarrow> ys \<noteq> []) \<and>
      (length zs = length ps \<longrightarrow> bd_finished b0 t d ps zs s) \<and> (\<forall>y \<in> set ys. \<exists>tr. snd y = fst (sdio tr)) \<and>
      (bd_waits b0 t d ps (zs @ ys) s \<or>
       (bd_finished b0 t d ps (zs @ ys) s \<or>
        bd_failed b0 t d ps (zs @ ys) s \<and> snd (last (zs @ ys)) = TXN_STATUS_ERROR) \<and> \<not> bd_async ys)"
proof (induction "length ps - length zs" arbitrary: zs b rule: less_induct)
  case less
  note G = g [unfolded bd_prog_def] and R = less.prems(1) [unfolded bd_ran_def]
  have two: "length zs \<le> 2" "length ps \<le> 2" using G R by auto
  have num: "uCurrTxnPartsCount b < uCurrTxnPartsNum b \<longleftrightarrow> length zs < length ps"
    using G R two by (simp add: word_less_nat_alt take_bit_nat_eq_self unsigned_of_nat)
  have x: "bd_pCurrTxn b \<noteq> 0" "bd_txns b (bd_pCurrTxn b) = t" using G R by simp_all
  show ?case
  proof (cases "length zs < length ps")
    case False
    then have eq: "length zs = length ps" using R by simp
    have "busDrv_Report (bd_copied t b) = Inr (bd_reported zs (bd_copied t b))"
      by (rule ran_report [OF g less.prems(1)]) (simp_all add: bd_copied_def bd_same_def)
    moreover have "busDrv_SendTxnParts sdio b = busDrv_Report (bd_copied t b)"
      using x False num by (subst busDrv_SendTxnParts.simps) (simp add: bd_copied_def)
    ultimately show ?thesis
      using less.prems eq by (intro exI [of _ "[]"] exI [of _ "bd_reported zs (bd_copied t b)"]) (auto simp: bd_finished_def bd_async_def)
  next
    case True
    let ?b = "b\<lparr>uCurrTxnPartsCount := uCurrTxnPartsCount b + 1, eCurrTxnStatus := TXN_STATUS_PENDING\<rparr>"
    from SendPart_ran [OF g less.prems(1) True, of sdio] obtain z b1 where
      z: "busDrv_SendPart sdio t (ps ! length zs) ?b = Inr (snd z, b1)" "snd z = fst (sdio (bd_trace b))" "eCurrTxnStatus b1 = TXN_STATUS_PENDING"
        "bd_ran b0 t d ps (zs @ [z]) (b1\<lparr>eCurrTxnStatus := snd z, uCurrTxnPartsCountSync :=
          uCurrTxnPartsCountSync b1 + (if snd z = TXN_STATUS_PENDING then 0 else 1)\<rparr>)" by blast
    let ?b2 = "b1\<lparr>eCurrTxnStatus := snd z, uCurrTxnPartsCountSync := uCurrTxnPartsCountSync b1 + 1\<rparr>"
    have cnt: "unat (uCurrTxnPartsCount b) = length zs" using R two by (simp add: unsigned_of_nat take_bit_nat_eq_self)
    have "length ps \<le> length (aTxnParts b0)" using G by (metis length_take min.absorb_iff2 min.commute)
    then have len: "\<not> length (aTxnParts b) \<le> length zs" using True R by simp
    have nth: "aTxnParts b ! length zs = ps ! length zs" using R G True by (metis nth_take)
    have za: "\<exists>tr. snd z = fst (sdio tr)" using z(2) by blast
    note z = z(1,3,4)
    from nth have u: "busDrv_SendTxnParts sdio b =
        (if snd z = TXN_STATUS_PENDING then Inr b1
         else if snd z = TXN_STATUS_ERROR then busDrv_Report (bd_set_error ?b2) else busDrv_SendTxnParts sdio ?b2)"
      using x True num z(1) len cnt by (subst busDrv_SendTxnParts.simps) (simp add: Let_def)
    consider (p) "snd z = TXN_STATUS_PENDING" | (e) "snd z = TXN_STATUS_ERROR"
      | (c) "snd z \<noteq> TXN_STATUS_PENDING" "snd z \<noteq> TXN_STATUS_ERROR" by blast
    then show ?thesis
    proof cases
      case p
      then have "b1\<lparr>eCurrTxnStatus := snd z, uCurrTxnPartsCountSync := uCurrTxnPartsCountSync b1 + 0\<rparr> = b1"
        using z(2) by simp
      then have "bd_waits b0 t d ps (zs @ [z]) b1"
        using z(3) less.prems(2) p by (simp add: bd_waits_def bd_noerr_def)
      then show ?thesis using u p by (intro exI [of _ "[z]"] exI [of _ b1]) (use za True in \<open>auto simp: bd_async_def\<close>)
    next
      case e
      then have r: "bd_ran b0 t d ps (zs @ [z]) ?b2" using z(3) by simp
      have "busDrv_Report (bd_set_error ?b2) = Inr (bd_reported (zs @ [z]) (bd_set_error ?b2))"
        by (rule ran_report [OF g r]) (simp_all add: bd_set_error_def bd_same_def)
      moreover have "bd_failed b0 t d ps (zs @ [z]) (bd_reported (zs @ [z]) (bd_set_error ?b2))"
        unfolding bd_failed_def using r less.prems(2) e by (intro exI [of _ ?b2]) simp
      ultimately show ?thesis using u e
        by (intro exI [of _ "[z]"] exI [of _ "bd_reported (zs @ [z]) (bd_set_error ?b2)"]) (use za True in \<open>auto simp: bd_async_def\<close>)
    next
      case c
      then have r: "bd_ran b0 t d ps (zs @ [z]) ?b2" using z(3) by simp
      have "bd_noerr (zs @ [z])" using less.prems(2) c by (simp add: bd_noerr_def)
      moreover have "length ps - length (zs @ [z]) < length ps - length zs" using True by simp
      ultimately obtain ys s where
        "busDrv_SendTxnParts sdio ?b2 = Inr s" "\<forall>y \<in> set ys. \<exists>tr. snd y = fst (sdio tr)"
        "bd_waits b0 t d ps ((zs @ [z]) @ ys) s \<or>
         (bd_finished b0 t d ps ((zs @ [z]) @ ys) s \<or>
          bd_failed b0 t d ps ((zs @ [z]) @ ys) s \<and> snd (last ((zs @ [z]) @ ys)) = TXN_STATUS_ERROR) \<and> \<not> bd_async ys" using less.hyps [OF _ r] by blast
      then show ?thesis using u c by (intro exI [of _ "z # ys"] exI [of _ s]) (use za True in \<open>auto simp: bd_async_def\<close>)
    qed
  qed
qed

section \<open>A whole transaction\<close>

lemma status_fits: "push_bit 8 TXN_PARAM_STATUS_OK AND NOT (0x00000F00 :: u32) = 0"
    "push_bit 8 TXN_PARAM_STATUS_ERROR AND NOT (0x00000F00 :: u32) = 0"
  using txn_in_mask(7) [of TXN_PARAM_STATUS_OK] txn_in_mask(7) [of TXN_PARAM_STATUS_ERROR]
  by (simp_all add: TXN_PARAM_STATUS_OK_def TXN_PARAM_STATUS_ERROR_def)

text \<open>Setting the status leaves the rest of a transaction alone.\<close>

lemma set_status_get:
  assumes "push_bit 8 v AND NOT (0x00000F00 :: u32) = 0"
  shows "TXN_PARAM_GET_FUNC_ID (TXN_PARAM_SET_STATUS t v) = TXN_PARAM_GET_FUNC_ID t"
    "TXN_PARAM_GET_DIRECTION (TXN_PARAM_SET_STATUS t v) = TXN_PARAM_GET_DIRECTION t"
    "TXN_PARAM_GET_FIXED_ADDR (TXN_PARAM_SET_STATUS t v) = TXN_PARAM_GET_FIXED_ADDR t"
    "TXN_PARAM_GET_MORE (TXN_PARAM_SET_STATUS t v) = TXN_PARAM_GET_MORE t"
    "TXN_PARAM_GET_SINGLE_STEP (TXN_PARAM_SET_STATUS t v) = TXN_PARAM_GET_SINGLE_STEP t"
    "TXN_PARAM_GET_AGGREGATE (TXN_PARAM_SET_STATUS t v) = TXN_PARAM_GET_AGGREGATE t"
  using field_other [OF assms, of "0x0000000C" "uTxnParams t"] field_other [OF assms, of "0x00000010" "uTxnParams t"]
    field_other [OF assms, of "0x00000020" "uTxnParams t"] field_other [OF assms, of "0x00000040" "uTxnParams t"]
    field_other [OF assms, of "0x00000080" "uTxnParams t"] field_other [OF assms, of "0x00001000" "uTxnParams t"]
  by (simp_all add: txn_get_defs TXN_PARAM_SET_STATUS_def)

lemmas set_status_ok [simp] = set_status_get [OF status_fits(1)]
lemmas set_status_error [simp] = set_status_get [OF status_fits(2)]

lemma set_status_same [simp]:
  "txn_bufs (TXN_PARAM_SET_STATUS t v) = txn_bufs t" "uHwAddr (TXN_PARAM_SET_STATUS t v) = uHwAddr t"
  "txn_len (TXN_PARAM_SET_STATUS t v) = txn_len t" "txn_bytes m (TXN_PARAM_SET_STATUS t v) = txn_bytes m t"
  by (simp_all add: txn_bufs_def TXN_PARAM_SET_STATUS_def txn_len_def txn_bytes_def)

lemma get_set_status:
  "TXN_PARAM_GET_STATUS (TXN_PARAM_SET_STATUS t TXN_PARAM_STATUS_OK) = TXN_PARAM_STATUS_OK"
  "TXN_PARAM_GET_STATUS (TXN_PARAM_SET_STATUS t TXN_PARAM_STATUS_ERROR) = TXN_PARAM_STATUS_ERROR"
  unfolding TXN_PARAM_GET_STATUS_def TXN_PARAM_SET_STATUS_def
  using field_read_back [OF status_fits(1), of "uTxnParams t"] field_read_back [OF status_fits(2), of "uTxnParams t"]
    txn_in_mask(7) [of TXN_PARAM_STATUS_OK] txn_in_mask(7) [of TXN_PARAM_STATUS_ERROR]
  by (simp_all add: TXN_PARAM_STATUS_OK_def TXN_PARAM_STATUS_ERROR_def)

text \<open>A transaction that fits the DMA buffer it goes through, from where an aggregation before it has left off;
  and one that moreover is no write of the ELP register (\<open>SINGLE_STEP\<close>), whose part goes out by another call of the
  adapter and once more after an error.\<close>

definition bd_room :: "TBusDrvObj \<Rightarrow> TTxnStruct \<Rightarrow> bool" where
  "bd_room b t \<longleftrightarrow>
     (if TXN_PARAM_GET_DIRECTION t = TXN_DIRECTION_WRITE
      then bufs_apart (pTxDmaBuf b) (unat (uTxDmaBufLen b)) (txn_bufs t) \<and>
        unat (uTxnLength b) + txn_len t \<le> unat (uTxDmaBufLen b)
      else uTxnLength b = 0 \<and> txn_len t \<le> unat (uRxDmaBufLen b))"

definition bd_fits :: "TBusDrvObj \<Rightarrow> TTxnStruct \<Rightarrow> bool" where
  "bd_fits b t \<longleftrightarrow> TXN_PARAM_GET_SINGLE_STEP t = 0 \<and> bd_room b t"

lemma fits_status [simp]: "bd_room b (TXN_PARAM_SET_STATUS t TXN_PARAM_STATUS_OK) = bd_room b t"
  "bd_fits b (TXN_PARAM_SET_STATUS t TXN_PARAM_STATUS_OK) = bd_fits b t"
  by (simp_all add: bd_fits_def bd_room_def)

definition bd_dma :: "TBusDrvObj \<Rightarrow> TTxnStruct \<Rightarrow> addr" where
  "bd_dma b t = (if TXN_PARAM_GET_DIRECTION t = TXN_DIRECTION_WRITE then pTxDmaBuf b else pRxDmaBuf b)"

definition bd_begin :: "addr \<Rightarrow> TBusDrvObj \<Rightarrow> TBusDrvObj" where
  "bd_begin x b = b\<lparr>bd_pCurrTxn := x, uCurrTxnPartsCount := 0, uCurrTxnPartsCountSync := 0,
     bd_txns := (bd_txns b)(x := TXN_PARAM_SET_STATUS (bd_txns b x) TXN_PARAM_STATUS_OK)\<rparr>"

lemma bd_begin_sel [simp]:
  "uTxnLength (bd_begin x b) = uTxnLength b" "bd_mem (bd_begin x b) = bd_mem b" "pTxDmaBuf (bd_begin x b) = pTxDmaBuf b"
  "uTxDmaBufLen (bd_begin x b) = uTxDmaBufLen b" "pRxDmaBuf (bd_begin x b) = pRxDmaBuf b"
  "uRxDmaBufLen (bd_begin x b) = uRxDmaBufLen b" "bd_acc (bd_begin x b) = bd_acc b" "bd_trace (bd_begin x b) = bd_trace b"
  "bd_pCurrTxn (bd_begin x b) = x" "bd_same b (bd_begin x b)" "bd_conn (bd_begin x b) = bd_conn b"
  "bd_txns (bd_begin x b) = (bd_txns b)(x := TXN_PARAM_SET_STATUS (bd_txns b x) TXN_PARAM_STATUS_OK)"
  "uCurrTxnPartsCount (bd_begin x b) = 0" "uCurrTxnPartsCountSync (bd_begin x b) = 0" "bd_fTxnDoneCb (bd_begin x b) = bd_fTxnDoneCb b"
  by (simp_all add: bd_begin_def bd_same_def bd_acc_def bd_conn_def)

text \<open>What the loop over the buffers leaves.\<close>

lemma CopyIn_ok:
  assumes f: "bd_room b t" and w: "bWrite = (TXN_PARAM_GET_DIRECTION t = TXN_DIRECTION_WRITE)"
  shows "\<exists>m. busDrv_CopyIn bWrite (txn_bufs t) b = Inr (b\<lparr>bd_mem := m, uTxnLength := uTxnLength b + of_nat (txn_len t)\<rparr>) \<and>
    unat (uTxnLength b + of_nat (txn_len t)) = unat (uTxnLength b) + txn_len t \<and>
    (if bWrite
     then mem_read m (pTxDmaBuf b) (unat (uTxnLength b) + txn_len t) = bd_acc b @ txn_bytes (bd_mem b) t \<and>
       (\<forall>i. i < pTxDmaBuf b \<or> pTxDmaBuf b + unat (uTxDmaBufLen b) \<le> i \<longrightarrow> m i = bd_mem b i)
     else m = bd_mem b)"
proof -
  have small: "unat (uTxnLength b) + txn_len t < 2 ^ 32"
    using f unat_bound [of "uTxDmaBufLen b"] unat_bound [of "uRxDmaBufLen b"] by (auto simp: bd_fits_def bd_room_def split: if_splits)
  then have "unat (of_nat (txn_len t) :: u32) = txn_len t" by (simp add: unsigned_of_nat take_bit_nat_eq_self)
  then have L: "unat (uTxnLength b + of_nat (txn_len t)) = unat (uTxnLength b) + txn_len t"
    using small by (simp add: unat_add_small)
  show ?thesis
  proof (cases bWrite)
    case True
    then show ?thesis using CopyIn_write [of b "txn_bufs t"] f L w by (auto simp: bd_fits_def bd_room_def txn_len_def txn_bytes_def)
  next
    case False
    then show ?thesis using CopyIn_read [of "txn_bufs t" b] L by (intro exI [of _ "bd_mem b"]) (simp add: txn_len_def)
  qed
qed

text \<open>A write inside an aggregation is collected and reported complete.\<close>

lemma Transact_aggregate:
  assumes x: "x \<noteq> 0" and t: "t = bd_txns b x" and f: "bd_fits b t"
    and w: "TXN_PARAM_GET_DIRECTION t = TXN_DIRECTION_WRITE" and a: "TXN_PARAM_GET_AGGREGATE t = TXN_AGGREGATE_ON"
  shows "\<exists>b'. busDrv_Transact sdio x b = Inr (TXN_STATUS_COMPLETE, b') \<and> bd_same b b' \<and> bd_trace b' = bd_trace b \<and>
    bd_acc b' = bd_acc b @ txn_bytes (bd_mem b) t \<and> unat (uTxnLength b') = unat (uTxnLength b) + txn_len t \<and>
    bd_txns b' = (bd_txns b)(x := TXN_PARAM_SET_STATUS t TXN_PARAM_STATUS_OK) \<and> aTxnParts b' = aTxnParts b \<and>
    (\<forall>i. i < pTxDmaBuf b \<or> pTxDmaBuf b + unat (uTxDmaBufLen b) \<le> i \<longrightarrow> bd_mem b' i = bd_mem b i)"
proof -
  let ?t = "TXN_PARAM_SET_STATUS t TXN_PARAM_STATUS_OK"
  have "bd_room (bd_begin x b) ?t" using f by (simp add: bd_fits_def bd_room_def)
  from CopyIn_ok [OF this refl] w obtain m where m:
    "busDrv_CopyIn True (txn_bufs t) (bd_begin x b) =
       Inr ((bd_begin x b)\<lparr>bd_mem := m, uTxnLength := uTxnLength b + of_nat (txn_len t)\<rparr>)"
    "unat (uTxnLength b + of_nat (txn_len t)) = unat (uTxnLength b) + txn_len t"
    "mem_read m (pTxDmaBuf b) (unat (uTxnLength b) + txn_len t) = bd_acc b @ txn_bytes (bd_mem b) t"
    "\<forall>i. i < pTxDmaBuf b \<or> pTxDmaBuf b + unat (uTxDmaBufLen b) \<le> i \<longrightarrow> m i = bd_mem b i"
    by auto
  let ?b = "(bd_begin x b)\<lparr>bd_mem := m, uTxnLength := uTxnLength b + of_nat (txn_len t)\<rparr>"
  have "busDrv_PrepareTxnParts ?t (bd_begin x b) = Inr (True, ?b)"
    using m(1) w a by (simp add: busDrv_PrepareTxnParts_def Let_def)
  then have "busDrv_Transact sdio x b = Inr (TXN_STATUS_COMPLETE, ?b)"
    using x t by (simp add: busDrv_Transact_def Let_def bd_begin_def)
  then show ?thesis using m t by (auto simp: bd_same_def bd_acc_def bd_begin_def)
qed

lemma parts_last:
  fixes more :: bool
  assumes "length ps \<le> 2" "ps \<noteq> []"
  defines "qs \<equiv> ps[length ps - 1 := (last ps)\<lparr>bMore := more\<rparr>]"
  shows "parts_chain d qs = parts_chain d ps" "parts_len qs = parts_len ps" "parts_addr f h qs = parts_addr f h ps"
    "length qs = length ps" "(\<forall>p \<in> set qs. uLength p \<noteq> 0) = (\<forall>p \<in> set ps. uLength p \<noteq> 0)"
proof -
  from assms(1,2) consider p where "ps = [p]" | p q where "ps = [p, q]"
    by (cases ps; cases "tl ps") auto
  then show "parts_chain d qs = parts_chain d ps" "parts_len qs = parts_len ps" "parts_addr f h qs = parts_addr f h ps"
    "length qs = length ps" "(\<forall>p \<in> set qs. uLength p \<noteq> 0) = (\<forall>p \<in> set ps. uLength p \<noteq> 0)"
    by (cases; simp add: qs_def parts_len_def)+
qed

text \<open>Any other transaction is cut into parts and sent.\<close>

lemma Transact_sets:
  assumes c: "bd_conn b" and x: "x \<noteq> 0" and t: "t = TXN_PARAM_SET_STATUS (bd_txns b x) TXN_PARAM_STATUS_OK"
    and f: "bd_room b t" and a: "TXN_PARAM_GET_AGGREGATE t \<noteq> TXN_AGGREGATE_ON"
    and pos: "0 < unat (uTxnLength b) + txn_len t"
  shows "\<exists>b0 ps. bd_set b0 t (bd_dma b t) ps \<and> bd_ran b0 t (bd_dma b t) ps [] b0 \<and> ps \<noteq> [] \<and>
    parts_addr (TXN_PARAM_GET_FIXED_ADDR t \<noteq> 0) (uHwAddr t) ps \<and> parts_len ps = unat (uTxnLength b) + txn_len t \<and>
    bd_txns b0 = (bd_txns b)(x := t) \<and> bd_trace b0 = bd_trace b \<and> bd_same b b0 \<and> bd_pCurrTxn b0 = x \<and> uTxnLength b0 = 0 \<and>
    (if TXN_PARAM_GET_DIRECTION t = TXN_DIRECTION_WRITE
     then mem_read (bd_mem b0) (bd_dma b t) (parts_len ps) = bd_acc b @ txn_bytes (bd_mem b) t
     else bd_mem b0 = bd_mem b) \<and>
    busDrv_Transact sdio x b =
      (case busDrv_SendTxnParts sdio b0 of Inl f \<Rightarrow> Inl f | Inr b \<Rightarrow> Inr (eCurrTxnStatus b, b))"
proof -
  let ?W = "TXN_PARAM_GET_DIRECTION t = TXN_DIRECTION_WRITE"
  have "bd_room (bd_begin x b) t" using f by (simp add: bd_room_def)
  from CopyIn_ok [OF this refl, unfolded bd_begin_sel] obtain m where m:
    "busDrv_CopyIn ?W (txn_bufs t) (bd_begin x b) =
       Inr ((bd_begin x b)\<lparr>bd_mem := m, uTxnLength := uTxnLength b + of_nat (txn_len t)\<rparr>)"
    "unat (uTxnLength b + of_nat (txn_len t)) = unat (uTxnLength b) + txn_len t"
    "if ?W then mem_read m (pTxDmaBuf b) (unat (uTxnLength b) + txn_len t) = bd_acc b @ txn_bytes (bd_mem b) t \<and>
       (\<forall>i. i < pTxDmaBuf b \<or> pTxDmaBuf b + unat (uTxDmaBufLen b) \<le> i \<longrightarrow> m i = bd_mem b i) else m = bd_mem b"
    by blast
  define b1 where "b1 = (bd_begin x b)\<lparr>bd_mem := m, uTxnLength := uTxnLength b + of_nat (txn_len t)\<rparr>"
  define ps where "ps = busDrv_Parts t (bd_dma b t) b1"
  have c1: "bd_conn b1" using c by (simp add: b1_def bd_begin_def bd_conn_def)
  note P = Parts_chain [OF c1, where t = t and d = "bd_dma b t", folded ps_def]
  have ne: "ps \<noteq> []" using P(6) pos m(2) by (auto simp: b1_def)
  define qs where "qs = ps[length ps - 1 := (last ps)\<lparr>bMore := TXN_PARAM_GET_MORE t \<noteq> 0\<rparr>]"
  note Q = parts_last [OF P(3) ne, where more = "TXN_PARAM_GET_MORE t \<noteq> 0", folded qs_def]
  define b0 where "b0 = b1\<lparr>aTxnParts := qs @ drop (length qs) (aTxnParts b1), uCurrTxnPartsNum := of_nat (length qs), uTxnLength := 0\<rparr>"
  have len: "parts_len qs = unat (uTxnLength b) + txn_len t" using Q(2) P(2) m(2) by (simp add: b1_def)
  have "busDrv_PrepareTxnParts t (bd_begin x b) = Inr (False, b0)"
    using m(1) a ne ps_def
    by (cases ?W) (simp_all add: busDrv_PrepareTxnParts_def Let_def bd_dma_def qs_def b0_def b1_def [symmetric])
  then have tr: "busDrv_Transact sdio x b =
      (case busDrv_SendTxnParts sdio b0 of Inl f \<Rightarrow> Inl f | Inr b \<Rightarrow> Inr (eCurrTxnStatus b, b))"
    using x t by (simp add: busDrv_Transact_def Let_def bd_begin_def)
  have pr: "bd_set b0 t (bd_dma b t) qs"
    using c x t f P(1,3) Q(1,4) len by (auto simp: bd_set_def b0_def b1_def bd_room_def bd_dma_def bd_conn_def bd_begin_def)
  have rn: "bd_ran b0 t (bd_dma b t) qs [] b0"
    by (simp add: bd_ran_def b0_def b1_def bd_begin_def mem_read_def)
  have qne: "qs \<noteq> []" using ne by (simp add: qs_def)
  have ad: "parts_addr (TXN_PARAM_GET_FIXED_ADDR t \<noteq> 0) (uHwAddr t) qs" using P(4) Q(3) by simp
  have sel: "bd_txns b0 = (bd_txns b)(x := t)" "bd_trace b0 = bd_trace b" "bd_same b b0" "bd_pCurrTxn b0 = x" "uTxnLength b0 = 0"
    by (simp_all add: b0_def b1_def bd_begin_def bd_same_def t)
  have me: "if ?W then mem_read (bd_mem b0) (bd_dma b t) (parts_len qs) = bd_acc b @ txn_bytes (bd_mem b) t
      else bd_mem b0 = bd_mem b"
    using m(3) by (simp add: b0_def b1_def bd_dma_def len split: if_splits)
  show ?thesis using pr rn qne ad len sel me tr by (intro exI [of _ b0] exI [of _ qs]) blast
qed

lemma Transact_begins:
  assumes "bd_conn b" "x \<noteq> 0" "t = TXN_PARAM_SET_STATUS (bd_txns b x) TXN_PARAM_STATUS_OK"
    and f: "bd_fits b t" and "TXN_PARAM_GET_AGGREGATE t \<noteq> TXN_AGGREGATE_ON"
    and "0 < unat (uTxnLength b) + txn_len t"
  shows "\<exists>b0 ps. bd_prog b0 t (bd_dma b t) ps \<and> bd_ran b0 t (bd_dma b t) ps [] b0 \<and> ps \<noteq> [] \<and>
    parts_addr (TXN_PARAM_GET_FIXED_ADDR t \<noteq> 0) (uHwAddr t) ps \<and> parts_len ps = unat (uTxnLength b) + txn_len t \<and>
    bd_txns b0 = (bd_txns b)(x := t) \<and> bd_trace b0 = bd_trace b \<and> bd_same b b0 \<and> bd_pCurrTxn b0 = x \<and> uTxnLength b0 = 0 \<and>
    (if TXN_PARAM_GET_DIRECTION t = TXN_DIRECTION_WRITE
     then mem_read (bd_mem b0) (bd_dma b t) (parts_len ps) = bd_acc b @ txn_bytes (bd_mem b) t
     else bd_mem b0 = bd_mem b) \<and>
    busDrv_Transact sdio x b =
      (case busDrv_SendTxnParts sdio b0 of Inl f \<Rightarrow> Inl f | Inr b \<Rightarrow> Inr (eCurrTxnStatus b, b))"
proof -
  have f2: "bd_room b t" "TXN_PARAM_GET_SINGLE_STEP t = 0" using f by (simp_all add: bd_fits_def)
  have "bd_prog b0 t d ps = bd_set b0 t d ps" for b0 d ps using f2(2) by (simp add: bd_prog_def bd_set_def)
  then show ?thesis using Transact_sets [OF assms(1-3) f2(1) assms(5,6), of sdio] by presburger
qed

section \<open>Runs\<close>

text \<open>An answer that comes later; the adapter still has to call back for the last part.\<close>

definition bd_late :: "bd_event \<Rightarrow> bool" where
  "bd_late e = (case e of SdioTransact f p dir inc d st \<Rightarrow> st = TXN_STATUS_PENDING
     | SdioBytes p dir d st \<Rightarrow> st = TXN_STATUS_PENDING | BusTxnDone f h x \<Rightarrow> False)"

definition bd_waiting :: "TBusDrvObj \<Rightarrow> bool" where
  "bd_waiting b \<longleftrightarrow> bd_trace b \<noteq> [] \<and> bd_late (last (bd_trace b))"

lemma bd_late_simps [simp]: "bd_late (bd_ev t p z) \<longleftrightarrow> snd z = TXN_STATUS_PENDING" "\<not> bd_late (BusTxnDone f h x)"
  "bd_late (SdioTransact g p dir inc d st) \<longleftrightarrow> st = TXN_STATUS_PENDING" "bd_late (SdioBytes p dir d st) \<longleftrightarrow> st = TXN_STATUS_PENDING"
  by (simp_all add: bd_late_def bd_ev_def)

lemma map2_snoc_nth:
  "length zs \<le> length ps \<Longrightarrow> zs \<noteq> [] \<Longrightarrow>
   map2 f (take (length zs) ps) zs = map2 f (take (length zs - 1) ps) (butlast zs) @ [f (ps ! (length zs - 1)) (last zs)]"
proof -
  assume l: "length zs \<le> length ps" and n: "zs \<noteq> []"
  obtain ys z where zs: "zs = ys @ [z]" using n by (cases zs rule: rev_cases) auto
  then have "take (length zs) ps = take (length ys) ps @ [ps ! length ys]"
    using l by (simp add: take_Suc_conv_app_nth)
  then show ?thesis using l by (simp add: zs)
qed

lemma waits_waiting: "bd_waits b0 t d ps zs s \<Longrightarrow> bd_waiting s"
  by (auto simp: bd_waits_def bd_ran_def bd_waiting_def map2_snoc_nth bd_ev_def)

lemma ended_not_waiting:
  assumes "bd_finished b0 t d ps zs s \<or> bd_failed b0 t d ps zs s" "zs \<noteq> []"
  shows "\<not> bd_waiting s"
proof -
  obtain b where b: "bd_ran b0 t d ps zs b" "bd_trace s = bd_trace (bd_reported zs b)"
      "\<not> bd_async zs \<longrightarrow> snd (last zs) \<noteq> TXN_STATUS_PENDING"
    using assms by (auto simp: bd_finished_def bd_failed_def bd_reported_def bd_copied_def bd_set_error_def bd_async_def)
  show ?thesis
  proof (cases "bd_async zs")
    case True
    then show ?thesis using b(2) by (simp add: bd_waiting_def bd_reported_def)
  next
    case False
    then show ?thesis using b assms(2)
      by (auto simp: bd_waiting_def bd_reported_def bd_ran_def map2_snoc_nth bd_ev_def)
  qed
qed

section \<open>What the device sees\<close>

text \<open>The bytes \<open>bs\<close> from device address \<open>h\<close> on, or all at \<open>h\<close> (a FIFO register).\<close>

fun addressed :: "bool \<Rightarrow> u32 \<Rightarrow> u8 list \<Rightarrow> (u32 \<times> u8) list" where
  "addressed fixed h [] = []"
| "addressed fixed h (b # bs) = (h, b) # addressed fixed (if fixed then h else h + 1) bs"

fun sd_bytes :: "bd_event \<Rightarrow> (u32 \<times> u8) list" where
  "sd_bytes (SdioTransact f p dir inc d st) = addressed (\<not> inc) (tp_uHwAddr p) d"
| "sd_bytes e = []"

definition bd_bus :: "bd_event list \<Rightarrow> (u32 \<times> u8) list" where
  "bd_bus es = concat (map sd_bytes es)"

definition bd_new :: "TBusDrvObj \<Rightarrow> TBusDrvObj \<Rightarrow> bd_event list" where
  "bd_new b s = drop (length (bd_trace b)) (bd_trace s)"

lemma addressed_append:
  "addressed f h (a @ b) = addressed f h a @ addressed f (if f then h else h + of_nat (length a)) b"
  by (induction a arbitrary: h) (auto simp: add.assoc add.commute)

lemma fixed_bit: "TXN_PARAM_GET_FIXED_ADDR t \<noteq> 1 \<longleftrightarrow> \<not> TXN_PARAM_GET_FIXED_ADDR t \<noteq> 0"
proof -
  have "TXN_PARAM_GET_FIXED_ADDR t = take_bit 1 (drop_bit 5 (uTxnParams t))"
    unfolding TXN_PARAM_GET_FIXED_ADDR_def txn_masks(4)
    by (rule bit_word_eqI) (auto simp: bit_simps simp flip: bit_iff_odd_drop_bit)
  then show ?thesis by (simp add: take_bit_eq_mod mod2_eq_if)
qed

lemma ran_bus:
  assumes "list_all2 (\<lambda>p z. length (fst z) = unat (uLength p)) ps zs"
    "parts_addr (TXN_PARAM_GET_FIXED_ADDR t \<noteq> 0) h ps"
  shows "bd_bus (map2 (bd_ev t) ps zs) = addressed (TXN_PARAM_GET_FIXED_ADDR t \<noteq> 0) h (concat (map fst zs))"
  using assms
proof (induction arbitrary: h rule: list_all2_induct)
  case (Cons p ps z zs)
  have "(of_nat (length (fst z)) :: u32) = uLength p" using Cons.hyps(1) by simp
  then show ?case using Cons.prems Cons.IH [of "if TXN_PARAM_GET_FIXED_ADDR t \<noteq> 0 then h else h + uLength p"]
    by (simp add: bd_bus_def bd_ev_def addressed_append fixed_bit)
qed (simp add: bd_bus_def)

lemma bd_bus_append [simp]: "bd_bus (a @ b) = bd_bus a @ bd_bus b"
  by (simp add: bd_bus_def)

lemma finished_bus:
  assumes f: "bd_finished b0 t d ps zs s" and a: "parts_addr (TXN_PARAM_GET_FIXED_ADDR t \<noteq> 0) (uHwAddr t) ps"
  shows "bd_bus (bd_new b0 s) = addressed (TXN_PARAM_GET_FIXED_ADDR t \<noteq> 0) (uHwAddr t) (concat (map fst zs))"
    "length (concat (map fst zs)) = parts_len ps"
proof -
  obtain b where b: "bd_ran b0 t d ps zs b" "length zs = length ps" "s = bd_reported zs (bd_copied t b)"
    using f by (auto simp: bd_finished_def)
  then have l: "list_all2 (\<lambda>p z. length (fst z) = unat (uLength p)) ps zs" by (simp add: bd_ran_def)
  then show "length (concat (map fst zs)) = parts_len ps" by (rule ran_len)
  have tr: "bd_trace b = bd_trace b0 @ map2 (bd_ev t) ps zs" using b(1,2) by (simp add: bd_ran_def)
  have "bd_bus (bd_new b0 s) = bd_bus (map2 (bd_ev t) ps zs)"
    by (simp add: bd_new_def b(3) bd_reported_def bd_copied_def tr bd_bus_def)
  then show "bd_bus (bd_new b0 s) = addressed (TXN_PARAM_GET_FIXED_ADDR t \<noteq> 0) (uHwAddr t) (concat (map fst zs))"
    using ran_bus [OF l a] by simp
qed

section \<open>Running to completion\<close>

text \<open>The adapter calls back, without an error, up to \<open>n\<close> times while it is waited for.\<close>

fun bd_complete :: "sdio_adapter \<Rightarrow> nat \<Rightarrow> TBusDrvObj \<Rightarrow> fault + TBusDrvObj" where
  "bd_complete sdio 0 b = Inr b"
| "bd_complete sdio (Suc n) b =
     (if bd_waiting b
      then (case busDrv_TxnDoneCb sdio True b of Inl f \<Rightarrow> Inl f | Inr b \<Rightarrow> bd_complete sdio n b)
      else Inr b)"

definition bd_exec :: "sdio_adapter \<Rightarrow> addr \<Rightarrow> TBusDrvObj \<Rightarrow> fault + TBusDrvObj" where
  "bd_exec sdio x b =
     (case busDrv_Transact sdio x b of Inl f \<Rightarrow> Inl f | Inr (st, b) \<Rightarrow> bd_complete sdio 2 b)"

lemma complete_finishes:
  assumes g: "bd_prog b0 t d ps" and ok: "\<forall>tr. fst (sdio tr) \<noteq> TXN_STATUS_ERROR"
  shows "bd_waits b0 t d ps zs s \<Longrightarrow> length ps - length zs < n \<Longrightarrow>
    \<exists>zs' s'. bd_complete sdio n s = Inr s' \<and> zs' \<noteq> [] \<and> bd_finished b0 t d ps zs' s'"
proof (induction n arbitrary: zs s)
  case (Suc n)
  note w = Suc.prems(1) [unfolded bd_waits_def]
  have le: "length zs \<le> length ps" using w by (simp add: bd_ran_def)
  from SendTxnParts_ends [OF g, of zs s sdio] w obtain ys s1 where s1: "busDrv_SendTxnParts sdio s = Inr s1"
      "length zs < length ps \<longrightarrow> ys \<noteq> []" "length zs = length ps \<longrightarrow> bd_finished b0 t d ps zs s1"
      "\<forall>y \<in> set ys. \<exists>tr. snd y = fst (sdio tr)"
      "bd_waits b0 t d ps (zs @ ys) s1 \<or> bd_finished b0 t d ps (zs @ ys) s1 \<or>
       bd_failed b0 t d ps (zs @ ys) s1 \<and> snd (last (zs @ ys)) = TXN_STATUS_ERROR" by blast
  have "bd_pCurrTxn s \<noteq> 0" using w g by (simp add: bd_ran_def bd_prog_def)
  then have c: "bd_complete sdio (Suc n) s = bd_complete sdio n s1"
    using waits_waiting [OF Suc.prems(1)] s1(1) by (simp add: busDrv_TxnDoneCb_def)
  have fin: "bd_complete sdio n s1 = Inr s1" if "bd_finished b0 t d ps zs' s1" "zs' \<noteq> []" for zs'
    using ended_not_waiting [of b0 t d ps zs' s1] that by (cases n) auto
  have noerr: "snd (last (zs @ ys)) \<noteq> TXN_STATUS_ERROR"
  proof (cases "ys = []")
    case False
    then have "last (zs @ ys) \<in> set ys" by simp
    then show ?thesis using s1(4) ok by metis
  qed (use w in simp)
  consider "length zs = length ps" | "bd_finished b0 t d ps (zs @ ys) s1"
    | "length zs < length ps" "bd_waits b0 t d ps (zs @ ys) s1" using s1(5) noerr le by linarith
  then show ?case
  proof cases
    case 1 then show ?thesis using s1(3) fin w unfolding c by blast
  next
    case 2 then show ?thesis using fin w unfolding c by blast
  next
    case 3
    then have "length ps - length (zs @ ys) < n" using Suc.prems(2) s1(2) by (cases ys) auto
    from Suc.IH [OF 3(2) this] show ?thesis unfolding c .
  qed
qed simp

lemma exec_finishes:
  assumes g: "bd_prog b0 t d ps" and r0: "bd_ran b0 t d ps [] b0" and ne: "ps \<noteq> []"
    and tr: "busDrv_Transact sdio x b = (case busDrv_SendTxnParts sdio b0 of Inl f \<Rightarrow> Inl f | Inr b \<Rightarrow> Inr (eCurrTxnStatus b, b))"
    and ok: "\<forall>tr. fst (sdio tr) \<noteq> TXN_STATUS_ERROR"
  shows "\<exists>zs s. bd_exec sdio x b = Inr s \<and> zs \<noteq> [] \<and> bd_finished b0 t d ps zs s"
proof -
  from SendTxnParts_ends [OF g r0, of sdio] ne obtain ys s1 where s1: "busDrv_SendTxnParts sdio b0 = Inr s1" "ys \<noteq> []"
      "\<forall>y \<in> set ys. \<exists>tr. snd y = fst (sdio tr)"
      "bd_waits b0 t d ps ys s1 \<or> bd_finished b0 t d ps ys s1 \<or> bd_failed b0 t d ps ys s1 \<and> snd (last ys) = TXN_STATUS_ERROR"
    by (auto simp: bd_noerr_def)
  have "snd (last ys) \<noteq> TXN_STATUS_ERROR" using s1(2,3) ok by (metis last_in_set)
  with s1(4) have "bd_waits b0 t d ps ys s1 \<or> bd_finished b0 t d ps ys s1" by blast
  moreover have e: "bd_exec sdio x b = bd_complete sdio 2 s1" using tr s1(1) by (simp add: bd_exec_def)
  moreover have "bd_complete sdio 2 s1 = Inr s1" if "bd_finished b0 t d ps ys s1"
    using ended_not_waiting [of b0 t d ps ys s1] that s1(2) by (simp add: numeral_2_eq_2)
  moreover have "length ps - length ys < 2" using g s1(2) by (cases ys) (auto simp: bd_prog_def)
  ultimately show ?thesis using complete_finishes [OF g ok] s1(2) unfolding e by blast
qed

section \<open>Properties\<close>

text \<open>Transactions that differ in the status only.\<close>

definition txn_like :: "TTxnStruct \<Rightarrow> TTxnStruct \<Rightarrow> bool" where
  "txn_like t t' \<longleftrightarrow> txn_bufs t' = txn_bufs t \<and> uHwAddr t' = uHwAddr t \<and>
     TXN_PARAM_GET_SINGLE_STEP t' = TXN_PARAM_GET_SINGLE_STEP t \<and>
     TXN_PARAM_GET_DIRECTION t' = TXN_PARAM_GET_DIRECTION t \<and>
     TXN_PARAM_GET_AGGREGATE t' = TXN_PARAM_GET_AGGREGATE t \<and>
     TXN_PARAM_GET_FIXED_ADDR t' = TXN_PARAM_GET_FIXED_ADDR t"

lemma txn_like_refl [simp]: "txn_like t t" "txn_like t (TXN_PARAM_SET_STATUS t TXN_PARAM_STATUS_OK)"
  by (simp_all add: txn_like_def)

lemma txn_like_trans: "txn_like a b \<Longrightarrow> txn_like b c \<Longrightarrow> txn_like a c"
  by (simp add: txn_like_def)

lemma txn_like_len: "txn_like t t' \<Longrightarrow> txn_len t' = txn_len t" "txn_like t t' \<Longrightarrow> txn_bytes m t' = txn_bytes m t"
  by (simp_all add: txn_like_def txn_len_def txn_bytes_def)

text \<open>A write in bytes or blocks whose buffers lie outside the DMA buffer.\<close>

definition bd_write :: "TBusDrvObj \<Rightarrow> u32 \<Rightarrow> addr \<Rightarrow> bool" where
  "bd_write b agg x \<longleftrightarrow> x \<noteq> 0 \<and>
     (let t = bd_txns b x in TXN_PARAM_GET_DIRECTION t = TXN_DIRECTION_WRITE \<and> TXN_PARAM_GET_SINGLE_STEP t = 0 \<and>
        TXN_PARAM_GET_AGGREGATE t = agg \<and> bufs_apart (pTxDmaBuf b) (unat (uTxDmaBufLen b)) (txn_bufs t))"

fun bd_transact_all :: "sdio_adapter \<Rightarrow> addr list \<Rightarrow> TBusDrvObj \<Rightarrow> fault + ETxnStatus list \<times> TBusDrvObj" where
  "bd_transact_all sdio [] b = Inr ([], b)"
| "bd_transact_all sdio (x # xs) b =
     (case busDrv_Transact sdio x b of
        Inl f \<Rightarrow> Inl f
      | Inr (st, b) \<Rightarrow>
          (case bd_transact_all sdio xs b of Inl f \<Rightarrow> Inl f | Inr (sts, b) \<Rightarrow> Inr (st # sts, b)))"

lemma transact_all_collects:
  assumes "list_all (bd_write b TXN_AGGREGATE_ON) xs"
    and "unat (uTxnLength b) + sum_list (map (\<lambda>y. txn_len (bd_txns b y)) xs) \<le> unat (uTxDmaBufLen b)"
  shows "\<exists>b1. bd_transact_all sdio xs b = Inr (replicate (length xs) TXN_STATUS_COMPLETE, b1) \<and>
    bd_same b b1 \<and> bd_trace b1 = bd_trace b \<and> aTxnParts b1 = aTxnParts b \<and>
    bd_acc b1 = bd_acc b @ concat (map (\<lambda>y. txn_bytes (bd_mem b) (bd_txns b y)) xs) \<and>
    unat (uTxnLength b1) = unat (uTxnLength b) + sum_list (map (\<lambda>y. txn_len (bd_txns b y)) xs) \<and>
    (\<forall>y. txn_like (bd_txns b y) (bd_txns b1 y)) \<and>
    (\<forall>i. i < pTxDmaBuf b \<or> pTxDmaBuf b + unat (uTxDmaBufLen b) \<le> i \<longrightarrow> bd_mem b1 i = bd_mem b i)"
  using assms
proof (induction xs arbitrary: b)
  case (Cons x xs)
  let ?t = "bd_txns b x"
  have w: "x \<noteq> 0" "bd_fits b ?t" "TXN_PARAM_GET_DIRECTION ?t = TXN_DIRECTION_WRITE"
      "TXN_PARAM_GET_AGGREGATE ?t = TXN_AGGREGATE_ON"
    using Cons.prems by (auto simp: bd_write_def bd_fits_def bd_room_def Let_def)
  from Transact_aggregate [OF w(1) refl w(2-4), of sdio] obtain b' where b':
    "busDrv_Transact sdio x b = Inr (TXN_STATUS_COMPLETE, b')" "bd_same b b'" "bd_trace b' = bd_trace b"
    "bd_acc b' = bd_acc b @ txn_bytes (bd_mem b) ?t" "unat (uTxnLength b') = unat (uTxnLength b) + txn_len ?t"
    "bd_txns b' = (bd_txns b)(x := TXN_PARAM_SET_STATUS ?t TXN_PARAM_STATUS_OK)" "aTxnParts b' = aTxnParts b"
    "\<forall>i. i < pTxDmaBuf b \<or> pTxDmaBuf b + unat (uTxDmaBufLen b) \<le> i \<longrightarrow> bd_mem b' i = bd_mem b i" by blast
  have like: "txn_like (bd_txns b y) (bd_txns b' y)" for y by (simp add: b'(6))
  have wr: "bd_write b' a y = bd_write b a y" for a y
    using like [of y] b'(2) by (simp add: bd_write_def txn_like_def bd_same_def Let_def)
  have len: "(\<lambda>y. txn_len (bd_txns b' y)) = (\<lambda>y. txn_len (bd_txns b y))" using like txn_like_len(1) by blast
  have bts: "txn_bytes (bd_mem b') (bd_txns b' y) = txn_bytes (bd_mem b) (bd_txns b y)" if "y \<in> set xs" for y
  proof -
    have "bufs_apart (pTxDmaBuf b) (unat (uTxDmaBufLen b)) (txn_bufs (bd_txns b y))"
      using Cons.prems(1) that by (auto simp: list_all_iff bd_write_def Let_def)
    from bufs_bytes_cong [OF this b'(8)] show ?thesis
      using like [of y] by (simp add: txn_bytes_def txn_like_def)
  qed
  have "list_all (bd_write b' TXN_AGGREGATE_ON) xs" using Cons.prems(1) by (simp add: wr list_all_iff)
  moreover have "unat (uTxnLength b') + sum_list (map (\<lambda>y. txn_len (bd_txns b' y)) xs) \<le> unat (uTxDmaBufLen b')"
    using Cons.prems(2) b'(2,5) by (simp add: len bd_same_def)
  ultimately obtain b1 where b1: "bd_transact_all sdio xs b' = Inr (replicate (length xs) TXN_STATUS_COMPLETE, b1)"
      "bd_same b' b1" "bd_trace b1 = bd_trace b'" "aTxnParts b1 = aTxnParts b'"
      "bd_acc b1 = bd_acc b' @ concat (map (\<lambda>y. txn_bytes (bd_mem b') (bd_txns b' y)) xs)"
      "unat (uTxnLength b1) = unat (uTxnLength b') + sum_list (map (\<lambda>y. txn_len (bd_txns b' y)) xs)"
      "\<forall>y. txn_like (bd_txns b' y) (bd_txns b1 y)"
      "\<forall>i. i < pTxDmaBuf b' \<or> pTxDmaBuf b' + unat (uTxDmaBufLen b') \<le> i \<longrightarrow> bd_mem b1 i = bd_mem b' i"
    using Cons.IH [of b'] by blast
  have "map (\<lambda>y. txn_bytes (bd_mem b') (bd_txns b' y)) xs = map (\<lambda>y. txn_bytes (bd_mem b) (bd_txns b y)) xs"
    using bts by simp
  then have "bd_acc b1 = bd_acc b @ concat (map (\<lambda>y. txn_bytes (bd_mem b) (bd_txns b y)) (x # xs))"
    using b1(5) b'(4) by (simp only: concat.simps list.map append_assoc)
  moreover have "\<forall>y. txn_like (bd_txns b y) (bd_txns b1 y)" using b1(7) like txn_like_trans by blast
  moreover have "\<forall>i. i < pTxDmaBuf b \<or> pTxDmaBuf b + unat (uTxDmaBufLen b) \<le> i \<longrightarrow> bd_mem b1 i = bd_mem b i"
    using b1(8) b'(2,8) by (simp add: bd_same_def)
  ultimately show ?case
    using b'(1-3,5,7) b1(1,3,4,6) bd_same_trans [OF b'(2) b1(2)] by (intro exI [of _ b1]) (simp add: len)
qed simp

lemma write_transfers:
  assumes "bd_conn b" "uTxnLength b = 0" "list_all (bd_write b TXN_AGGREGATE_ON) xs" "bd_write b TXN_AGGREGATE_OFF x"
    and "sum_list (map (\<lambda>y. txn_len (bd_txns b y)) (xs @ [x])) \<le> unat (uTxDmaBufLen b)"
    and "txn_len (bd_txns b x) \<noteq> 0" and "\<forall>tr. fst (sdio tr) \<noteq> TXN_STATUS_ERROR"
  shows "\<exists>b1 s. bd_transact_all sdio xs b = Inr (replicate (length xs) TXN_STATUS_COMPLETE, b1) \<and>
    bd_trace b1 = bd_trace b \<and> bd_exec sdio x b1 = Inr s \<and> \<not> bd_waiting s \<and>
    TXN_PARAM_GET_STATUS (bd_txns s x) = TXN_PARAM_STATUS_OK \<and>
    bd_bus (bd_new b s) = addressed (TXN_PARAM_GET_FIXED_ADDR (bd_txns b x) \<noteq> 0) (uHwAddr (bd_txns b x))
      (concat (map (\<lambda>y. txn_bytes (bd_mem b) (bd_txns b y)) (xs @ [x])))"
proof -
  have "unat (uTxnLength b) + sum_list (map (\<lambda>y. txn_len (bd_txns b y)) xs) \<le> unat (uTxDmaBufLen b)"
    using assms(2,5) by simp
  from transact_all_collects [OF assms(3) this, of sdio] obtain b1 where b1:
    "bd_transact_all sdio xs b = Inr (replicate (length xs) TXN_STATUS_COMPLETE, b1)" "bd_same b b1"
    "bd_trace b1 = bd_trace b" "aTxnParts b1 = aTxnParts b"
    "bd_acc b1 = bd_acc b @ concat (map (\<lambda>y. txn_bytes (bd_mem b) (bd_txns b y)) xs)"
    "unat (uTxnLength b1) = sum_list (map (\<lambda>y. txn_len (bd_txns b y)) xs)"
    "txn_like (bd_txns b x) (bd_txns b1 x)"
    "\<forall>i. i < pTxDmaBuf b \<or> pTxDmaBuf b + unat (uTxDmaBufLen b) \<le> i \<longrightarrow> bd_mem b1 i = bd_mem b i"
    using assms(2) by auto
  let ?t = "TXN_PARAM_SET_STATUS (bd_txns b1 x) TXN_PARAM_STATUS_OK"
  have like: "txn_like (bd_txns b x) ?t" using b1(7) txn_like_trans by (metis txn_like_refl(2))
  have W: "x \<noteq> 0" "TXN_PARAM_GET_DIRECTION ?t = TXN_DIRECTION_WRITE" "TXN_PARAM_GET_AGGREGATE ?t \<noteq> TXN_AGGREGATE_ON"
      "bufs_apart (pTxDmaBuf b) (unat (uTxDmaBufLen b)) (txn_bufs (bd_txns b x))"
    using assms(4) like by (auto simp: bd_write_def Let_def txn_like_def txn_const_defs)
  have c: "bd_conn b1" using assms(1) b1(2,4) by (simp add: bd_conn_def bd_same_def)
  have f: "bd_fits b1 ?t"
    using assms(4,5) like W b1(2,6) txn_like_len(1) [OF like]
    by (simp add: bd_fits_def bd_room_def bd_write_def Let_def txn_like_def bd_same_def)
  have p: "0 < unat (uTxnLength b1) + txn_len ?t" using assms(6) txn_like_len(1) [OF like] by simp
  from Transact_begins [OF c W(1) refl f W(3) p, of sdio] W(2) obtain b0 ps where b0:
    "bd_prog b0 ?t (bd_dma b1 ?t) ps" "bd_ran b0 ?t (bd_dma b1 ?t) ps [] b0" "ps \<noteq> []"
    "parts_addr (TXN_PARAM_GET_FIXED_ADDR ?t \<noteq> 0) (uHwAddr ?t) ps" "bd_txns b0 = (bd_txns b1)(x := ?t)"
    "bd_trace b0 = bd_trace b1" "bd_pCurrTxn b0 = x"
    "mem_read (bd_mem b0) (bd_dma b1 ?t) (parts_len ps) = bd_acc b1 @ txn_bytes (bd_mem b1) ?t"
    "busDrv_Transact sdio x b1 = (case busDrv_SendTxnParts sdio b0 of Inl f \<Rightarrow> Inl f | Inr b \<Rightarrow> Inr (eCurrTxnStatus b, b))"
    by auto
  from exec_finishes [OF b0(1,2,3,9) assms(7)] obtain zs s where s: "bd_exec sdio x b1 = Inr s" "zs \<noteq> []"
      "bd_finished b0 ?t (bd_dma b1 ?t) ps zs s" by blast
  obtain b2 where b2: "bd_ran b0 ?t (bd_dma b1 ?t) ps zs b2" "s = bd_reported zs (bd_copied ?t b2)"
    using s(3) by (auto simp: bd_finished_def)
  note B = finished_bus [OF s(3) b0(4)]
  have "concat (map fst zs) = bd_acc b1 @ txn_bytes (bd_mem b1) ?t"
    using b2(1) b0(8) W(2) unfolding ran_data [OF b2(1) B(2)] by (simp add: bd_ran_def)
  also have "bd_acc b1 = concat (map (\<lambda>y. txn_bytes (bd_mem b) (bd_txns b y)) xs)"
    using b1(5) assms(2) by (simp add: bd_acc_def mem_read_def)
  also have "txn_bytes (bd_mem b1) ?t = txn_bytes (bd_mem b) (bd_txns b x)"
    using bufs_bytes_cong [OF W(4) b1(8)] txn_like_len(2) [OF like] by (simp add: txn_bytes_def)
  finally have "concat (map fst zs) = concat (map (\<lambda>y. txn_bytes (bd_mem b) (bd_txns b y)) (xs @ [x]))" by simp
  then have "bd_bus (bd_new b s) = addressed (TXN_PARAM_GET_FIXED_ADDR (bd_txns b x) \<noteq> 0) (uHwAddr (bd_txns b x))
      (concat (map (\<lambda>y. txn_bytes (bd_mem b) (bd_txns b y)) (xs @ [x])))"
    using B(1) like b0(6) b1(3) by (simp add: bd_new_def txn_like_def)
  moreover have "TXN_PARAM_GET_STATUS (bd_txns s x) = TXN_PARAM_STATUS_OK"
    using b2 b0(5) by (simp add: bd_ran_def bd_reported_def bd_copied_def get_set_status)
  moreover have "\<not> bd_waiting s" using ended_not_waiting s(2,3) by blast
  ultimately show ?thesis using b1(1,3) s(1) by blast
qed

text \<open>C10: A write reaches the device whole, also when it closes an aggregation: the transactions xs,
  marked as part of one, are each reported complete without a call of the bus, and when the adapter
  makes no errors the transaction x that closes it is completed, with status OK, having put exactly the
  bytes of all their buffers, in order, to consecutive device addresses (or all to the address of a
  FIFO), whichever of the adapter's answers come late.\<close>

theorem busDrv_write_transfers:
  assumes "bd_conn b" "uTxnLength b = 0" "list_all (bd_write b TXN_AGGREGATE_ON) xs" "bd_write b TXN_AGGREGATE_OFF x"
    and "sum_list (map (\<lambda>y. txn_len (bd_txns b y)) (xs @ [x])) \<le> unat (uTxDmaBufLen b)"
    and "txn_len (bd_txns b x) \<noteq> 0" and "\<forall>tr. fst (sdio tr) \<noteq> TXN_STATUS_ERROR"
  shows "\<exists>b1 s. bd_transact_all sdio xs b = Inr (replicate (length xs) TXN_STATUS_COMPLETE, b1) \<and>
    bd_trace b1 = bd_trace b \<and> bd_exec sdio x b1 = Inr s \<and> \<not> bd_waiting s \<and>
    TXN_PARAM_GET_STATUS (bd_txns s x) = TXN_PARAM_STATUS_OK \<and>
    bd_bus (bd_new b s) = addressed (TXN_PARAM_GET_FIXED_ADDR (bd_txns b x) \<noteq> 0) (uHwAddr (bd_txns b x))
      (concat (map (\<lambda>y. txn_bytes (bd_mem b) (bd_txns b y)) (xs @ [x])))"
  by (rule write_transfers [OF assms])

text \<open>A connected driver with two DMA buffers of 4096 bytes and blocks of 512, transactions of 3 and 2
  bytes at addresses 8 and 16, and adapters that always or never answer at once.\<close>

definition demo_bus_txn :: "u32 \<Rightarrow> u16 \<Rightarrow> addr \<Rightarrow> TTxnStruct" where
  "demo_bus_txn w n a = TTxnStruct_zero\<lparr>uTxnParams := w, uHwAddr := 100, aLen := [n, 0, 0, 0], aBuf := [a, 0, 0, 0]\<rparr>"

definition demo_bus :: "(addr \<Rightarrow> TTxnStruct) \<Rightarrow> TBusDrvObj" where
  "demo_bus txns = snd (busDrv_ConnectBus 5 6 9 True (10000, 4096) (20000, 4096)
     (the (busDrv_Create True (\<lambda>i. of_nat i) txns)))"

definition adapter :: "ETxnStatus \<Rightarrow> sdio_adapter" where
  "adapter st = (\<lambda>tr. (st, \<lambda>i. of_nat (i + 7)))"

lemma demo_bus_sel [simp]:
  "bd_conn (demo_bus txns)" "uTxnLength (demo_bus txns) = 0" "bd_txns (demo_bus txns) = txns"
  "pTxDmaBuf (demo_bus txns) = 20000" "uTxDmaBufLen (demo_bus txns) = 4096" "pRxDmaBuf (demo_bus txns) = 10000"
  "uRxDmaBufLen (demo_bus txns) = 4096" "bd_trace (demo_bus txns) = []" "bd_mem (demo_bus txns) = (\<lambda>i. of_nat i)"
  by (auto simp: demo_bus_def busDrv_ConnectBus_def busDrv_Create_def Let_def bd_conn_def intro!: exI [of _ 9])

lemma demo_txn_sel [simp]:
  "txn_bufs (demo_bus_txn w n a) = [(n, a), (0, 0), (0, 0), (0, 0)]" "uHwAddr (demo_bus_txn w n a) = 100"
  "uTxnParams (demo_bus_txn w n a) = w"
  by (simp_all add: demo_bus_txn_def txn_bufs_def MAX_XFER_BUFS_def)

theorem busDrv_write_transfers_witness:
  "\<exists>b1 s. bd_transact_all (adapter TXN_STATUS_PENDING) [1] (demo_bus ((\<lambda>_. demo_bus_txn 0 2 16)(1 := demo_bus_txn 0x1000 3 8))) =
      Inr ([TXN_STATUS_COMPLETE], b1) \<and>
    bd_exec (adapter TXN_STATUS_PENDING) 2 b1 = Inr s \<and>
    bd_bus (bd_new (demo_bus ((\<lambda>_. demo_bus_txn 0 2 16)(1 := demo_bus_txn 0x1000 3 8))) s) =
      [(100, 8), (101, 9), (102, 10), (103, 16), (104, 17)]"
proof -
  let ?b = "demo_bus ((\<lambda>_. demo_bus_txn 0 2 16)(1 := demo_bus_txn 0x1000 3 8))"
  have w: "list_all (bd_write ?b TXN_AGGREGATE_ON) [1]" "bd_write ?b TXN_AGGREGATE_OFF 2"
    by (simp_all add: bd_write_def Let_def txn_get_defs txn_const_defs bufs_apart_def drop_bit_eq_div)
  have l: "sum_list (map (\<lambda>y. txn_len (bd_txns ?b y)) ([1] @ [2])) \<le> unat (uTxDmaBufLen ?b)" "txn_len (bd_txns ?b 2) \<noteq> 0"
    "\<forall>tr. fst (adapter TXN_STATUS_PENDING tr) \<noteq> TXN_STATUS_ERROR"
    by (simp_all add: txn_len_def adapter_def)
  have e: "addressed (TXN_PARAM_GET_FIXED_ADDR (bd_txns ?b 2) \<noteq> 0) (uHwAddr (bd_txns ?b 2))
      (concat (map (\<lambda>y. txn_bytes (bd_mem ?b) (bd_txns ?b y)) ([1] @ [2]))) =
      [(100, 8), (101, 9), (102, 10), (103, 16), (104, 17)]"
    by (simp add: txn_bytes_def mem_read_def TXN_PARAM_GET_FIXED_ADDR_def)
  from busDrv_write_transfers [OF demo_bus_sel(1,2) w l, unfolded e] obtain b1 s where
    "bd_transact_all (adapter TXN_STATUS_PENDING) [1] ?b = Inr (replicate (length [1 :: addr]) TXN_STATUS_COMPLETE, b1)"
    "bd_exec (adapter TXN_STATUS_PENDING) 2 b1 = Inr s"
    "bd_bus (bd_new ?b s) = [(100, 8), (101, 9), (102, 10), (103, 16), (104, 17)]" by blast
  then show ?thesis by (intro exI [of _ b1] exI [of _ s]) simp
qed

fun bufs_disjoint :: "(u16 \<times> addr) list \<Rightarrow> bool" where
  "bufs_disjoint [] \<longleftrightarrow> True"
| "bufs_disjoint ((l, a) # bs) \<longleftrightarrow> bufs_apart a (unat l) bs \<and> bufs_disjoint bs"

lemma CopyOut_other:
  "bufs_apart a n bs \<Longrightarrow> mem_read (busDrv_CopyOut bs p m) a n = mem_read m a n"
proof (induction bs arbitrary: p m)
  case (Cons x bs)
  obtain l c where x: "x = (l, c)" by fastforce
  have "mem_read (mem_write c (mem_read m p (unat l)) m) a n = mem_read m a n"
    using Cons.prems by (intro mem_read_write_other) (auto simp: bufs_apart_def x)
  moreover have "bufs_apart a n bs" using Cons.prems by (simp add: bufs_apart_def)
  ultimately show ?case using Cons.IH by (simp add: x)
qed simp

lemma CopyOut_bytes:
  "bufs_disjoint bs \<Longrightarrow> bufs_apart d n bs \<Longrightarrow> d \<le> p \<Longrightarrow> p + bufs_len bs \<le> d + n \<Longrightarrow>
   bufs_bytes (busDrv_CopyOut bs p m) bs = mem_read m p (bufs_len bs)"
proof (induction bs arbitrary: p m)
  case (Cons x bs)
  obtain l a where x: "x = (l, a)" by fastforce
  show ?case
  proof (cases "l = 0")
    case False
    let ?m = "mem_write a (mem_read m p (unat l)) m"
    have "bufs_bytes (busDrv_CopyOut bs (p + unat l) ?m) bs = mem_read ?m (p + unat l) (bufs_len bs)"
      using Cons.prems False by (intro Cons.IH) (auto simp: x bufs_apart_def)
    also have "\<dots> = mem_read m (p + unat l) (bufs_len bs)"
      using Cons.prems False by (intro mem_read_write_other) (auto simp: x bufs_apart_def)
    finally have r: "bufs_bytes (busDrv_CopyOut bs (p + unat l) ?m) bs = mem_read m (p + unat l) (bufs_len bs)" .
    have "mem_read (busDrv_CopyOut bs (p + unat l) ?m) a (unat l) = mem_read m p (unat l)"
      using Cons.prems(1) by (simp add: x CopyOut_other mem_read_write_same)
    with r False show ?thesis by (simp add: x mem_read_append)
  qed (simp add: x mem_read_def)
qed (simp add: mem_read_def)

text \<open>C23: A read gives its buffers what the device sent: when the adapter makes no errors the transaction
  is completed with status OK, and the buffers hold, in order, exactly the bytes that crossed the
  bus, read from consecutive device addresses or all from that of a FIFO.\<close>

theorem busDrv_read_transfers:
  assumes "bd_conn b" "uTxnLength b = 0" "x \<noteq> 0" "t = bd_txns b x"
    and "TXN_PARAM_GET_DIRECTION t = TXN_DIRECTION_READ" "TXN_PARAM_GET_SINGLE_STEP t = 0"
    and "TXN_PARAM_GET_AGGREGATE t = TXN_AGGREGATE_OFF" "txn_len t \<noteq> 0" "txn_len t \<le> unat (uRxDmaBufLen b)"
    and "bufs_disjoint (txn_bufs t)" "bufs_apart (pRxDmaBuf b) (unat (uRxDmaBufLen b)) (txn_bufs t)"
    and "\<forall>tr. fst (sdio tr) \<noteq> TXN_STATUS_ERROR"
  shows "\<exists>s. bd_exec sdio x b = Inr s \<and> \<not> bd_waiting s \<and> TXN_PARAM_GET_STATUS (bd_txns s x) = TXN_PARAM_STATUS_OK \<and>
    bd_bus (bd_new b s) = addressed (TXN_PARAM_GET_FIXED_ADDR t \<noteq> 0) (uHwAddr t) (txn_bytes (bd_mem s) t)"
proof -
  let ?t = "TXN_PARAM_SET_STATUS t TXN_PARAM_STATUS_OK"
  have ag: "TXN_PARAM_GET_AGGREGATE ?t \<noteq> TXN_AGGREGATE_ON" using assms(7) by (simp add: txn_const_defs)
  have rd: "TXN_PARAM_GET_DIRECTION ?t \<noteq> TXN_DIRECTION_WRITE" using assms(5) by (simp add: txn_const_defs)
  have f: "bd_fits b ?t" using assms(2,6,9) rd by (simp add: bd_fits_def bd_room_def)
  have p: "0 < unat (uTxnLength b) + txn_len ?t" using assms(8) by simp
  from Transact_begins [OF assms(1,3) _ f ag p, of sdio] assms(4) rd obtain b0 ps where b0:
    "bd_prog b0 ?t (bd_dma b ?t) ps" "bd_ran b0 ?t (bd_dma b ?t) ps [] b0" "ps \<noteq> []"
    "parts_addr (TXN_PARAM_GET_FIXED_ADDR ?t \<noteq> 0) (uHwAddr ?t) ps" "parts_len ps = txn_len t"
    "bd_txns b0 = (bd_txns b)(x := ?t)" "bd_trace b0 = bd_trace b" "bd_pCurrTxn b0 = x" "bd_same b b0"
    "busDrv_Transact sdio x b = (case busDrv_SendTxnParts sdio b0 of Inl f \<Rightarrow> Inl f | Inr b \<Rightarrow> Inr (eCurrTxnStatus b, b))"
    using assms(2) by auto
  from exec_finishes [OF b0(1,2,3,10) assms(12)] obtain zs s where s: "bd_exec sdio x b = Inr s" "zs \<noteq> []"
      "bd_finished b0 ?t (bd_dma b ?t) ps zs s" by blast
  obtain b2 where b2: "bd_ran b0 ?t (bd_dma b ?t) ps zs b2" "s = bd_reported zs (bd_copied ?t b2)"
    using s(3) by (auto simp: bd_finished_def)
  note B = finished_bus [OF s(3) b0(4)]
  have dma: "bd_dma b ?t = pRxDmaBuf b" "pRxDmaBuf b2 = pRxDmaBuf b"
    using rd b2(1) b0(9) by (simp_all add: bd_dma_def bd_ran_def bd_same_def)
  have "bd_mem s = busDrv_CopyOut (txn_bufs t) (pRxDmaBuf b) (bd_mem b2)"
    using b2(2) dma assms(5) by (simp add: bd_reported_def bd_copied_def)
  then have "txn_bytes (bd_mem s) t = mem_read (bd_mem b2) (pRxDmaBuf b) (txn_len t)"
    using CopyOut_bytes [OF assms(10,11), of "pRxDmaBuf b" "bd_mem b2"] assms(9) by (simp add: txn_bytes_def txn_len_def)
  also have "\<dots> = concat (map fst zs)" using ran_data [OF b2(1) B(2)] by (simp add: dma b0(5))
  finally have "bd_bus (bd_new b s) = addressed (TXN_PARAM_GET_FIXED_ADDR t \<noteq> 0) (uHwAddr t) (txn_bytes (bd_mem s) t)"
    using B(1) b0(7) by (simp add: bd_new_def)
  moreover have "TXN_PARAM_GET_STATUS (bd_txns s x) = TXN_PARAM_STATUS_OK"
    using b2 b0(6) by (simp add: bd_ran_def bd_reported_def bd_copied_def get_set_status)
  moreover have "\<not> bd_waiting s" using ended_not_waiting s(2,3) by blast
  ultimately show ?thesis using s(1) by blast
qed

theorem busDrv_read_transfers_witness:
  "\<exists>s. bd_exec (adapter TXN_STATUS_COMPLETE) 1 (demo_bus (\<lambda>_. demo_bus_txn 0x30 3 8)) = Inr s \<and>
    TXN_PARAM_GET_STATUS (bd_txns s 1) = TXN_PARAM_STATUS_OK \<and>
    bd_bus (bd_new (demo_bus (\<lambda>_. demo_bus_txn 0x30 3 8)) s) = addressed True 100 (txn_bytes (bd_mem s) (demo_bus_txn 0x30 3 8))"
proof -
  let ?b = "demo_bus (\<lambda>_. demo_bus_txn 0x30 3 8)" and ?t = "demo_bus_txn 0x30 3 8"
  have h: "(1 :: addr) \<noteq> 0" "?t = bd_txns ?b 1" by simp_all
  have t: "TXN_PARAM_GET_DIRECTION ?t = TXN_DIRECTION_READ" "TXN_PARAM_GET_SINGLE_STEP ?t = 0"
    "TXN_PARAM_GET_AGGREGATE ?t = TXN_AGGREGATE_OFF" "TXN_PARAM_GET_FIXED_ADDR ?t = 1"
    by (simp_all add: txn_get_defs txn_const_defs drop_bit_eq_div)
  have l: "txn_len ?t \<noteq> 0" "txn_len ?t \<le> unat (uRxDmaBufLen ?b)" "bufs_disjoint (txn_bufs ?t)"
    "bufs_apart (pRxDmaBuf ?b) (unat (uRxDmaBufLen ?b)) (txn_bufs ?t)"
    "\<forall>tr. fst (adapter TXN_STATUS_COMPLETE tr) \<noteq> TXN_STATUS_ERROR"
    by (simp_all add: txn_len_def bufs_apart_def adapter_def)
  from busDrv_read_transfers [OF demo_bus_sel(1,2) h t(1-3) l] t(4) show ?thesis by auto
qed

section \<open>Where the code does not do what it means to\<close>

text \<open>A transaction without bytes writes before the table of parts (\<open>aTxnParts[uPartNum - 1]\<close>).\<close>

lemma busDrv_zero_length:
  assumes "bd_conn b" "uTxnLength b = 0" "txn_len t = 0" "TXN_PARAM_GET_AGGREGATE t \<noteq> TXN_AGGREGATE_ON" "bd_room b t"
  shows "busDrv_PrepareTxnParts t b = Inl OutOfBounds"
proof -
  from CopyIn_ok [OF assms(5) refl] assms(2,3) obtain m where
    m: "busDrv_CopyIn (TXN_PARAM_GET_DIRECTION t = TXN_DIRECTION_WRITE) (txn_bufs t) b = Inr (b\<lparr>bd_mem := m, uTxnLength := 0\<rparr>)"
    by auto
  have "bd_conn (b\<lparr>bd_mem := m, uTxnLength := 0\<rparr>)" using assms(1) by (simp add: bd_conn_def)
  from Parts_chain(6) [OF this] have "busDrv_Parts t d (b\<lparr>bd_mem := m, uTxnLength := 0\<rparr>) = []" for d by simp
  then show ?thesis using m assms(4) by (simp add: busDrv_PrepareTxnParts_def Let_def)
qed

text \<open>A transaction that finds bytes of an aggregation that was broken off, as by a restart of the
  transaction queue, is longer by them: nothing but \<open>busDrv_ConnectBus\<close> clears \<open>uTxnLength\<close>.\<close>

lemma busDrv_stale_aggregation:
  assumes "bd_conn b" "uTxnLength b \<noteq> 0" "unat (uTxnLength b) + txn_len t < 2 ^ 32"
    and "TXN_PARAM_GET_DIRECTION t = TXN_DIRECTION_READ" "TXN_PARAM_GET_AGGREGATE t = TXN_AGGREGATE_OFF"
  shows "\<exists>b'. busDrv_PrepareTxnParts t b = Inr (False, b') \<and>
    parts_len (take (unat (uCurrTxnPartsNum b')) (aTxnParts b')) = unat (uTxnLength b) + txn_len t"
proof -
  define b1 where "b1 = b\<lparr>uTxnLength := uTxnLength b + of_nat (txn_len t)\<rparr>"
  have "unat (of_nat (txn_len t) :: u32) = txn_len t" using assms(3) by (simp add: unsigned_of_nat take_bit_nat_eq_self)
  then have L: "unat (uTxnLength b1) = unat (uTxnLength b) + txn_len t" using assms(3) by (simp add: b1_def unat_add_small)
  have rd: "TXN_PARAM_GET_DIRECTION t \<noteq> TXN_DIRECTION_WRITE" "TXN_PARAM_GET_AGGREGATE t \<noteq> TXN_AGGREGATE_ON"
    using assms(4,5) by (simp_all add: txn_const_defs)
  have c: "bd_conn b1" using assms(1) by (simp add: b1_def bd_conn_def)
  define ps where "ps = busDrv_Parts t (pRxDmaBuf b) b1"
  note P = Parts_chain [OF c, where t = t and d = "pRxDmaBuf b", folded ps_def]
  have ne: "ps \<noteq> []" using P(6) L assms(2) by (metis add_is_0 unat_0 unat_0_iff)
  define qs where "qs = ps[length ps - 1 := (last ps)\<lparr>bMore := TXN_PARAM_GET_MORE t \<noteq> 0\<rparr>]"
  note Q = parts_last [OF P(3) ne, where more = "TXN_PARAM_GET_MORE t \<noteq> 0", folded qs_def]
  let ?b = "b1\<lparr>aTxnParts := qs @ drop (length qs) (aTxnParts b1), uCurrTxnPartsNum := of_nat (length qs), uTxnLength := 0\<rparr>"
  have "busDrv_CopyIn False (txn_bufs t) b = Inr b1" by (simp add: CopyIn_read b1_def txn_len_def)
  then have "busDrv_PrepareTxnParts t b = Inr (False, ?b)"
    using rd ne ps_def by (simp add: busDrv_PrepareTxnParts_def Let_def qs_def)
  moreover have "unat (of_nat (length qs) :: u32) = length qs" using Q(4) P(3) by (simp add: unsigned_of_nat take_bit_nat_eq_self)
  ultimately show ?thesis using Q(2) P(2) L by (intro exI [of _ ?b]) simp
qed

text \<open>The length of a write is not compared with that of the DMA buffer.\<close>

lemma busDrv_overruns_dma:
  assumes "TXN_PARAM_GET_DIRECTION t = TXN_DIRECTION_WRITE" "txn_bufs t = (n, a) # bs" "n \<noteq> 0"
    and "unat (uTxDmaBufLen b) < unat (uTxnLength b) + unat n"
  shows "busDrv_PrepareTxnParts t b = Inl OutOfBounds"
  using assms by (simp add: busDrv_PrepareTxnParts_def)

end
