(* ===== verification/TxXferProps.thy ===== *)
theory TxXferProps
  imports TxXfer SdioBusDrvProps
begin

text \<open>
  The packet transfer of theory \<open>TxXfer\<close>: every packet given to it reaches TwIf once, in order, in
  bursts that keep the limits and fit the DMA buffer of the bus driver, and its transfer is reported
  once.
\<close>

section \<open>Bursts\<close>

text \<open>The transactions given to TwIf, cut into bursts at those that end an aggregation; the second
  component is the burst that is not complete yet.\<close>

type_synonym xf_burst = "(nat \<times> TTxnStruct) list"

fun xf_cut :: "xf_event \<Rightarrow> xf_burst list \<times> xf_burst \<Rightarrow> xf_burst list \<times> xf_burst" where
  "xf_cut (XfTransact k t) (gs, g) =
     (if TXN_PARAM_GET_AGGREGATE t = TXN_AGGREGATE_ON then (gs, g @ [(k, t)]) else (gs @ [g @ [(k, t)]], []))"
| "xf_cut e s = s"

definition xf_bursts :: "xf_event list \<Rightarrow> xf_burst list \<times> xf_burst" where
  "xf_bursts tr = fold xf_cut tr ([], [])"

definition xf_accepted :: "xf_event list \<Rightarrow> nat list" where
  "xf_accepted tr = List.map_filter (\<lambda>e. case e of XfAccepted k \<Rightarrow> Some k | _ \<Rightarrow> None) tr"

definition xf_reported :: "xf_event list \<Rightarrow> nat list" where
  "xf_reported tr = List.map_filter (\<lambda>e. case e of XfTransferred f h k \<Rightarrow> Some k | _ \<Rightarrow> None) tr"

lemma xf_bursts_append: "xf_bursts (a @ b) = fold xf_cut b (xf_bursts a)"
  by (simp add: xf_bursts_def)

lemma xf_accepted_simps [simp]:
  "xf_accepted [] = []" "xf_accepted (a @ b) = xf_accepted a @ xf_accepted b" "xf_accepted [XfAccepted k] = [k]"
  "xf_accepted [XfTransact k t] = []" "xf_accepted [XfCounter i t n] = []" "xf_accepted [XfTransferred f h k] = []"
  by (simp_all add: xf_accepted_def map_filter_def)

lemma xf_reported_simps [simp]:
  "xf_reported [] = []" "xf_reported (a @ b) = xf_reported a @ xf_reported b" "xf_reported [XfAccepted k] = []"
  "xf_reported [XfTransact k t] = []" "xf_reported [XfCounter i t n] = []" "xf_reported [XfTransferred f h k] = [k]"
  by (simp_all add: xf_reported_def map_filter_def)

text \<open>A burst as it should be: packets of an aggregation marked so, and without a callback, but for the
  last, which closes it and brings the callback of the whole; together within the limits.\<close>

definition xf_burst_ok :: "TTxXferObj \<Rightarrow> xf_burst \<Rightarrow> bool" where
  "xf_burst_ok x g \<longleftrightarrow> g \<noteq> [] \<and> length g \<le> max 1 (unat (uAggregMaxPkts x)) \<and>
     sum_list (map (\<lambda>(k, t). txn_len t) g) \<le> unat (uAggregMaxLen x) \<and>
     list_all (\<lambda>(k, t). TXN_PARAM_GET_AGGREGATE t = TXN_AGGREGATE_ON \<and> fTxnDoneCb t = 0) (butlast g) \<and>
     TXN_PARAM_GET_AGGREGATE (snd (last g)) = TXN_AGGREGATE_OFF \<and>
     list_all (\<lambda>(k, t). uHwAddr t = SLV_MEM_DATA) g"

text \<open>The transaction of a packet as it is sent.\<close>

definition xf_txn :: "addr \<times> addr \<Rightarrow> bool \<Rightarrow> TTxCtrlBlk \<Rightarrow> TTxnStruct" where
  "xf_txn c ag b =
     (if ag then (TXN_PARAM_SET_AGGREGATE (tTxnStruct b) TXN_AGGREGATE_ON)\<lparr>fTxnDoneCb := 0, uHwAddr := SLV_MEM_DATA\<rparr>
      else (TXN_PARAM_SET_AGGREGATE (tTxnStruct b) TXN_AGGREGATE_OFF)
        \<lparr>fTxnDoneCb := fst c, hCbHandle := snd c, uHwAddr := SLV_MEM_DATA\<rparr>)"

fun xf_group :: "addr \<times> addr \<Rightarrow> (nat \<Rightarrow> TTxCtrlBlk) \<Rightarrow> nat list \<Rightarrow> xf_burst" where
  "xf_group c blks [] = []"
| "xf_group c blks (k # ks) = (k, xf_txn c (ks \<noteq> []) (blks k)) # xf_group c blks ks"

lemma get_set_aggregate:
  "TXN_PARAM_GET_AGGREGATE (TXN_PARAM_SET_AGGREGATE t TXN_AGGREGATE_ON) = TXN_AGGREGATE_ON"
  "TXN_PARAM_GET_AGGREGATE (TXN_PARAM_SET_AGGREGATE t TXN_AGGREGATE_OFF) = TXN_AGGREGATE_OFF"
  unfolding TXN_PARAM_GET_AGGREGATE_def TXN_PARAM_SET_AGGREGATE_def
  using txn_in_mask(8) [of TXN_AGGREGATE_ON] txn_in_mask(8) [of TXN_AGGREGATE_OFF]
    field_read_back [of 12 TXN_AGGREGATE_ON "0x00001000" "uTxnParams t"]
    field_read_back [of 12 TXN_AGGREGATE_OFF "0x00001000" "uTxnParams t"]
  by (simp_all add: txn_const_defs)

lemma xf_txn_sel [simp]:
  "TXN_PARAM_GET_AGGREGATE (xf_txn c True b) = TXN_AGGREGATE_ON"
  "TXN_PARAM_GET_AGGREGATE (xf_txn c False b) = TXN_AGGREGATE_OFF"
  "uHwAddr (xf_txn c ag b) = SLV_MEM_DATA" "fTxnDoneCb (xf_txn c True b) = 0" "fTxnDoneCb (xf_txn c False b) = fst c"
  "txn_len (xf_txn c ag b) = txn_len (tTxnStruct b)"
  using get_set_aggregate
  by (simp_all add: xf_txn_def TXN_PARAM_GET_AGGREGATE_def TXN_PARAM_SET_AGGREGATE_def txn_len_def txn_bufs_def)

lemma aggregate_consts [simp]: "TXN_AGGREGATE_OFF \<noteq> TXN_AGGREGATE_ON"
  by (simp add: txn_const_defs)

lemma map_fst_group [simp]: "map fst (xf_group c blks ks) = ks"
  by (induction ks) simp_all

lemma group_cut:
  "ks \<noteq> [] \<Longrightarrow> fold xf_cut (map (\<lambda>(k, t). XfTransact k t) (xf_group c blks ks)) (gs, g) = (gs @ [g @ xf_group c blks ks], [])"
proof (induction ks arbitrary: g)
  case (Cons k ks)
  then show ?case by (cases "ks = []") simp_all
qed simp

lemma group_shape:
  "ks \<noteq> [] \<Longrightarrow> xf_group c blks ks \<noteq> [] \<and> length (xf_group c blks ks) = length ks \<and>
   list_all (\<lambda>(k, t). TXN_PARAM_GET_AGGREGATE t = TXN_AGGREGATE_ON \<and> fTxnDoneCb t = 0) (butlast (xf_group c blks ks)) \<and>
   TXN_PARAM_GET_AGGREGATE (snd (last (xf_group c blks ks))) = TXN_AGGREGATE_OFF \<and>
   list_all (\<lambda>(k, t). uHwAddr t = SLV_MEM_DATA) (xf_group c blks ks) \<and>
   sum_list (map (\<lambda>(k, t). txn_len t) (xf_group c blks ks)) = sum_list (map (\<lambda>k. txn_len (tTxnStruct (blks k))) ks)"
proof (induction ks)
  case (Cons k ks)
  then show ?case by (cases ks) simp_all
qed simp

section \<open>The ring of an aggregation\<close>

fun xf_chain :: "(nat \<Rightarrow> TTxCtrlBlk) \<Rightarrow> nat option \<Rightarrow> nat list \<Rightarrow> bool" where
  "xf_chain blks p [] \<longleftrightarrow> True"
| "xf_chain blks p (k # ks) \<longleftrightarrow> p = Some k \<and> (ks \<noteq> [] \<longrightarrow> xf_chain blks (pNextAggregEntry (blks k)) ks)"

definition xf_ring :: "(nat \<Rightarrow> TTxCtrlBlk) \<Rightarrow> nat option \<Rightarrow> nat list \<Rightarrow> bool" where
  "xf_ring blks p ks \<longleftrightarrow> xf_chain blks p ks \<and> distinct ks \<and> (ks \<noteq> [] \<longrightarrow> pNextAggregEntry (blks (last ks)) = p)"

lemma chain_cong:
  "\<forall>k \<in> set ks. pNextAggregEntry (blks' k) = pNextAggregEntry (blks k) \<Longrightarrow> xf_chain blks' p ks = xf_chain blks p ks"
  by (induction ks arbitrary: p) auto

lemma ring_cong:
  "\<forall>k \<in> set ks. pNextAggregEntry (blks' k) = pNextAggregEntry (blks k) \<Longrightarrow> xf_ring blks' p ks = xf_ring blks p ks"
  using chain_cong [of ks blks' blks p] by (cases "ks = []") (auto simp: xf_ring_def)

lemma ring_hd: "xf_ring blks p ks \<Longrightarrow> ks \<noteq> [] \<Longrightarrow> p = Some (hd ks)"
  by (cases ks) (auto simp: xf_ring_def)

lemma chain_snoc:
  "xf_chain blks p ks \<Longrightarrow> ks \<noteq> [] \<Longrightarrow> distinct ks \<Longrightarrow> k \<notin> set ks \<Longrightarrow>
   xf_chain (blks(last ks := (blks (last ks))\<lparr>pNextAggregEntry := Some k\<rparr>, k := b)) p (ks @ [k])"
proof (induction ks arbitrary: p)
  case (Cons j js)
  show ?case
  proof (cases "js = []")
    case True
    then show ?thesis using Cons.prems by simp
  next
    case False
    let ?B = "blks(last (j # js) := (blks (last (j # js)))\<lparr>pNextAggregEntry := Some k\<rparr>, k := b)"
    have l: "last (j # js) = last js" using False by simp
    have "j \<noteq> last js" "j \<noteq> k" using Cons.prems(3,4) last_in_set [OF False] by auto
    then have "?B j = blks j" unfolding l by (simp only: fun_upd_other not_False_eq_True)
    moreover have "xf_chain ?B (pNextAggregEntry (blks j)) (js @ [k])"
      unfolding l using Cons.prems False by (intro Cons.IH) simp_all
    ultimately show ?thesis using Cons.prems(1) by (simp only: append_Cons xf_chain.simps simp_thms)
  qed
qed simp

text \<open>Two objects with the same packets in the same ring.\<close>

definition xf_blks_same :: "TTxXferObj \<Rightarrow> TTxXferObj \<Rightarrow> bool" where
  "xf_blks_same x x' \<longleftrightarrow> (\<forall>k. pNextAggregEntry (xf_blks x' k) = pNextAggregEntry (xf_blks x k) \<and>
     tTxDescriptor (xf_blks x' k) = tTxDescriptor (xf_blks x k) \<and>
     txn_len (tTxnStruct (xf_blks x' k)) = txn_len (tTxnStruct (xf_blks x k)))"

definition xf_rest_same :: "TTxXferObj \<Rightarrow> TTxXferObj \<Rightarrow> bool" where
  "xf_rest_same x x' \<longleftrightarrow> xf_self x' = xf_self x \<and> uAggregMaxPkts x' = uAggregMaxPkts x \<and> uAggregMaxLen x' = uAggregMaxLen x \<and>
     uAggregPktsNum x' = uAggregPktsNum x \<and> uAggregPktsLen x' = uAggregPktsLen x \<and>
     pAggregFirstPkt x' = pAggregFirstPkt x \<and> pAggregLastPkt x' = pAggregLastPkt x \<and>
     fSendPacketTransferCb x' = fSendPacketTransferCb x \<and> hSendPacketTransferHndl x' = hSendPacketTransferHndl x \<and>
     fXferCompleteLocalCb x' = fXferCompleteLocalCb x"

lemma SendPkts_run:
  "xf_chain (xf_blks x) p ks \<Longrightarrow> distinct ks \<Longrightarrow>
   \<exists>x'. txXfer_SendPkts twif (length ks) p st x = Inr (if ks = [] then st else twif (xf_trace x'), x') \<and>
     xf_trace x' = xf_trace x @ map (\<lambda>(k, t). XfTransact k t) (xf_group (fXferCompleteLocalCb x, xf_self x) (xf_blks x) ks) \<and>
     (\<exists>B. x' = x\<lparr>xf_blks := B, xf_trace := xf_trace x'\<rparr>) \<and> xf_blks_same x x'"
proof (induction ks arbitrary: p st x)
  case Nil
  have "x = x\<lparr>xf_blks := xf_blks x, xf_trace := xf_trace x\<rparr>" by simp
  moreover have "xf_blks_same x x" by (simp add: xf_blks_same_def)
  moreover have "txXfer_SendPkts twif (length []) p st x = Inr (if [] = [] then st else twif (xf_trace x), x)" by simp
  moreover have "xf_trace x = xf_trace x @ map (\<lambda>(k, t). XfTransact k t) (xf_group c (xf_blks x) [])" for c by simp
  ultimately show ?case by blast
next
  case (Cons k ks)
  let ?c = "(fXferCompleteLocalCb x, xf_self x)"
  let ?t = "xf_txn ?c (ks \<noteq> []) (xf_blks x k)"
  let ?x = "xf_emit (XfTransact k ?t) (x\<lparr>xf_blks := (xf_blks x)(k := (xf_blks x k)\<lparr>tTxnStruct := ?t\<rparr>)\<rparr>)"
  let ?p = "if length ks > 0 then pNextAggregEntry (xf_blks x k) else p"
  have same: "xf_blks_same x ?x" by (simp add: xf_blks_same_def xf_emit_def)
  have "xf_chain (xf_blks x) ?p ks" using Cons.prems(1) by (cases "ks = []") simp_all
  moreover have "xf_chain (xf_blks ?x) ?p ks = xf_chain (xf_blks x) ?p ks"
    by (rule chain_cong) (simp add: xf_emit_def)
  ultimately have ch: "xf_chain (xf_blks ?x) ?p ks" by simp
  have c: "(fXferCompleteLocalCb ?x, xf_self ?x) = ?c" by (simp add: xf_emit_def)
  have d: "distinct ks" using Cons.prems(2) by simp
  obtain x' B where x':
    "txXfer_SendPkts twif (length ks) ?p (twif (xf_trace ?x)) ?x = Inr (if ks = [] then twif (xf_trace ?x) else twif (xf_trace x'), x')"
    "xf_trace x' = xf_trace ?x @ map (\<lambda>(k, t). XfTransact k t) (xf_group ?c (xf_blks ?x) ks)"
    "x' = ?x\<lparr>xf_blks := B, xf_trace := xf_trace x'\<rparr>" "xf_blks_same ?x x'"
    using Cons.IH [OF ch d, of "twif (xf_trace ?x)"] unfolding c by blast
  have g: "xf_group ?c (xf_blks ?x) js = xf_group ?c (xf_blks x) js" if "set js \<subseteq> set ks" for js
    using that Cons.prems(2) by (induction js) (auto simp: xf_emit_def)
  have u: "txXfer_SendPkts twif (length (k # ks)) p st x = txXfer_SendPkts twif (length ks) ?p (twif (xf_trace ?x)) ?x"
    using Cons.prems(1) by (cases "ks = []") (simp_all add: xf_txn_def Let_def)
  have tr: "xf_trace x' = xf_trace x @ map (\<lambda>(k, t). XfTransact k t) (xf_group ?c (xf_blks x) (k # ks))"
    using x'(2) g [of ks] by (simp add: xf_emit_def)
  have e: "ks = [] \<Longrightarrow> xf_trace x' = xf_trace ?x" using x'(2) by simp
  have r: "txXfer_SendPkts twif (length (k # ks)) p st x = Inr (if k # ks = [] then st else twif (xf_trace x'), x')"
    unfolding u x'(1) using e by (cases "ks = []") simp_all
  have f: "x' = x\<lparr>xf_blks := B, xf_trace := xf_trace x'\<rparr>" using x'(3) by (simp add: xf_emit_def)
  have "xf_blks_same x x'" using same x'(4) by (simp add: xf_blks_same_def)
  with r tr f show ?case by blast
qed

lemma CallCbs_run:
  "xf_chain (xf_blks x) p ks \<Longrightarrow> n \<le> length ks \<Longrightarrow>
   txXfer_CallCbs n p x = Inr (x\<lparr>xf_trace := xf_trace x @
     map (XfTransferred (fSendPacketTransferCb x) (hSendPacketTransferHndl x)) (take n ks)\<rparr>)"
proof (induction n arbitrary: p ks x)
  case (Suc n)
  then obtain k js where ks: "ks = k # js" "p = Some k" by (cases ks) auto
  let ?x = "xf_emit (XfTransferred (fSendPacketTransferCb x) (hSendPacketTransferHndl x) k) x"
  have b: "xf_blks ?x = xf_blks x" by (simp add: xf_emit_def)
  show ?case
  proof (cases "js = []")
    case True
    then show ?thesis using Suc.prems(2) ks by (simp add: xf_emit_def)
  next
    case False
    then have "xf_chain (xf_blks ?x) (pNextAggregEntry (xf_blks x k)) js" using Suc.prems(1) ks b by simp
    from Suc.IH [OF this] Suc.prems(2) show ?thesis by (simp add: ks xf_emit_def)
  qed
qed simp

section \<open>The invariant\<close>

definition xf_conf :: "TTxXferObj \<Rightarrow> bool" where
  "xf_conf x \<longleftrightarrow> unat (uAggregMaxPkts x) < DBG_MAX_AGGREG_PKTS \<and> unat (uAggregMaxLen x) < 2 ^ 31 \<and>
     uPktsCntrTxnIndex x < CTRL_BLK_ENTRIES_NUM \<and> length (aPktsCntrTxn x) = CTRL_BLK_ENTRIES_NUM \<and>
     length (aDbgCountPktAggreg x) = DBG_MAX_AGGREG_PKTS"

definition xf_load :: "TTxXferObj \<Rightarrow> nat list \<Rightarrow> nat" where
  "xf_load x ks = sum_list (map (\<lambda>k. unat (xf_pkt_len (xf_blks x k))) ks)"

text \<open>The packets \<open>ks\<close> wait in the ring.\<close>

definition xf_waits :: "TTxXferObj \<Rightarrow> nat list \<Rightarrow> bool" where
  "xf_waits x ks \<longleftrightarrow> unat (uAggregPktsNum x) = length ks \<and> length ks \<le> max 1 (unat (uAggregMaxPkts x)) \<and>
     xf_ring (xf_blks x) (pAggregFirstPkt x) ks \<and>
     (ks \<noteq> [] \<longrightarrow> pAggregLastPkt x = Some (last ks) \<and> unat (uAggregPktsLen x) = xf_load x ks) \<and>
     xf_load x ks \<le> unat (uAggregMaxLen x) \<and>
     (\<forall>k \<in> set ks. txn_len (tTxnStruct (xf_blks x k)) \<le> unat (xf_pkt_len (xf_blks x k)))"

definition xf_record :: "TTxXferObj \<Rightarrow> nat list \<Rightarrow> bool" where
  "xf_record x ks \<longleftrightarrow> snd (xf_bursts (xf_trace x)) = [] \<and>
     xf_accepted (xf_trace x) = map fst (concat (fst (xf_bursts (xf_trace x)))) @ ks \<and>
     list_all (xf_burst_ok x) (fst (xf_bursts (xf_trace x)))"

definition xf_inv :: "TTxXferObj \<Rightarrow> nat list \<Rightarrow> bool" where
  "xf_inv x ks \<longleftrightarrow> xf_conf x \<and> xf_waits x ks \<and> xf_record x ks"

lemma burst_ok_cong: "xf_rest_same x x' \<Longrightarrow> xf_burst_ok x' = xf_burst_ok x"
  by (simp add: xf_burst_ok_def xf_rest_same_def fun_eq_iff)

lemma SendCounter_run:
  assumes "xf_conf x"
  shows "\<exists>x' i t n. txXfer_SendCounter x = Inr x' \<and> xf_trace x' = xf_trace x @ [XfCounter i t n] \<and> xf_rest_same x x' \<and>
    xf_blks x' = xf_blks x \<and> xf_conf x'"
proof -
  have "0 < CTRL_BLK_ENTRIES_NUM" by (simp add: CTRL_BLK_ENTRIES_NUM_def)
  then show ?thesis
    using assms by (auto simp: txXfer_SendCounter_def Let_def xf_conf_def xf_rest_same_def xf_emit_def)
qed

text \<open>What is recorded of a burst and of a series of reports.\<close>

lemma transact_run:
  "xf_accepted (map (\<lambda>(k, t). XfTransact k t) g) = []" "xf_reported (map (\<lambda>(k, t). XfTransact k t) g) = []"
  by (induction g) (auto simp: xf_accepted_def xf_reported_def map_filter_def)

lemma transferred_run:
  "fold xf_cut (map (XfTransferred f h) ks) z = z" "xf_accepted (map (XfTransferred f h) ks) = []"
  "xf_reported (map (XfTransferred f h) ks) = ks"
  by (induction ks arbitrary: z) (auto simp: xf_accepted_def xf_reported_def map_filter_def)

text \<open>The burst of the packets that wait.\<close>

definition xf_out :: "TTxXferObj \<Rightarrow> nat list \<Rightarrow> xf_burst" where
  "xf_out x ks = xf_group (fXferCompleteLocalCb x, xf_self x) (xf_blks x) ks"

lemma out_ok: "xf_waits x ks \<Longrightarrow> ks \<noteq> [] \<Longrightarrow> xf_burst_ok x (xf_out x ks)"
proof -
  assume w: "xf_waits x ks" and ne: "ks \<noteq> []"
  have "sum_list (map (\<lambda>k. txn_len (tTxnStruct (xf_blks x k))) ks) \<le> xf_load x ks"
    unfolding xf_load_def using w by (intro sum_list_mono) (simp add: xf_waits_def)
  then show ?thesis using group_shape [OF ne, of "(fXferCompleteLocalCb x, xf_self x)" "xf_blks x"] w
    by (simp add: xf_burst_ok_def xf_waits_def xf_out_def)
qed

text \<open>The part of the sending up to the counter.\<close>

lemma SendAggregated_burst:
  assumes c: "xf_conf x" and w: "xf_waits x ks" and ne: "ks \<noteq> []"
  shows "\<exists>x1. txXfer_SendAggregatedPkts twif b x = (if twif (xf_trace x1) = TXN_STATUS_ERROR then Inr (TXN_STATUS_ERROR, x1) else
      (case txXfer_SendCounter x1 of Inl f \<Rightarrow> Inl f | Inr y \<Rightarrow>
         if fSendPacketTransferCb y \<noteq> 0 \<and> twif (xf_trace x1) = TXN_STATUS_COMPLETE then
           (case txXfer_CallCbs (if b then length ks - 1 else length ks) (pAggregFirstPkt y) y of Inl f \<Rightarrow> Inl f
            | Inr z \<Rightarrow> Inr (twif (xf_trace x1), z))
         else Inr (twif (xf_trace x1), y))) \<and>
    xf_trace x1 = xf_trace x @ map (\<lambda>(k, t). XfTransact k t) (xf_out x ks) \<and>
    xf_rest_same x x1 \<and> xf_blks_same x x1 \<and> xf_conf x1"
proof -
  have "length ks \<le> max 1 (unat (uAggregMaxPkts x))" "unat (uAggregMaxPkts x) < DBG_MAX_AGGREG_PKTS"
    using w c by (simp_all add: xf_waits_def xf_conf_def)
  then have n: "unat (uAggregPktsNum x) = length ks" "length ks < DBG_MAX_AGGREG_PKTS"
    using w by (simp_all add: xf_waits_def DBG_MAX_AGGREG_PKTS_def)
  have ring: "xf_chain (xf_blks x) (pAggregFirstPkt x) ks" "distinct ks" using w by (simp_all add: xf_waits_def xf_ring_def)
  obtain x1 B where x1:
    "txXfer_SendPkts twif (length ks) (pAggregFirstPkt x) TXN_STATUS_COMPLETE x =
       Inr (if ks = [] then TXN_STATUS_COMPLETE else twif (xf_trace x1), x1)"
    "xf_trace x1 = xf_trace x @ map (\<lambda>(k, t). XfTransact k t) (xf_group (fXferCompleteLocalCb x, xf_self x) (xf_blks x) ks)"
    "x1 = x\<lparr>xf_blks := B, xf_trace := xf_trace x1\<rparr>" "xf_blks_same x x1"
    using SendPkts_run [OF ring, of twif TXN_STATUS_COMPLETE] by blast
  define x2 where "x2 = x1\<lparr>aDbgCountPktAggreg := (aDbgCountPktAggreg x1)[length ks := aDbgCountPktAggreg x1 ! length ks + 1]\<rparr>"
  have rs1: "xf_rest_same x x1" by (subst x1(3)) (simp add: xf_rest_same_def)
  have dbg: "length (aDbgCountPktAggreg x1) = DBG_MAX_AGGREG_PKTS" using c by (subst x1(3)) (simp add: xf_conf_def)
  have "xf_conf (x\<lparr>xf_blks := B, xf_trace := tr\<rparr>)" for tr using c by (simp add: xf_conf_def)
  then have "xf_conf x1" by (subst x1(3))
  then have c2: "xf_conf x2" by (simp add: x2_def xf_conf_def)
  have rs2: "xf_rest_same x x2" using rs1 by (simp add: x2_def xf_rest_same_def)
  have bs2: "xf_blks_same x x2" using x1(4) by (simp add: x2_def xf_blks_same_def)
  have t2: "xf_trace x2 = xf_trace x1" by (simp add: x2_def)
  have sp: "txXfer_SendPkts twif (length ks) (pAggregFirstPkt x) TXN_STATUS_COMPLETE x = Inr (twif (xf_trace x2), x1)"
    using x1(1) ne by (simp only: t2 if_False)
  have l: "(length (aDbgCountPktAggreg x1) \<le> length ks) = False" using dbg n(2) by simp
  have s: "txXfer_SendAggregatedPkts twif b x = (if twif (xf_trace x2) = TXN_STATUS_ERROR then Inr (TXN_STATUS_ERROR, x2) else
      (case txXfer_SendCounter x2 of Inl f \<Rightarrow> Inl f | Inr y \<Rightarrow>
         if fSendPacketTransferCb y \<noteq> 0 \<and> twif (xf_trace x2) = TXN_STATUS_COMPLETE then
           (case txXfer_CallCbs (if b then length ks - 1 else length ks) (pAggregFirstPkt y) y of Inl f \<Rightarrow> Inl f
            | Inr z \<Rightarrow> Inr (twif (xf_trace x2), z))
         else Inr (twif (xf_trace x2), y)))"
    unfolding txXfer_SendAggregatedPkts_def Let_def n(1) sp sum.case prod.case l if_False x2_def [symmetric]
    by (cases "twif (xf_trace x2) = TXN_STATUS_ERROR") (simp_all only: if_True if_False)
  have tr: "xf_trace x2 = xf_trace x @ map (\<lambda>(k, t). XfTransact k t) (xf_out x ks)" by (simp only: t2 x1(2) xf_out_def)
  show ?thesis using s tr rs2 bs2 c2 by blast
qed

text \<open>Sending the aggregation: the packets become one burst, and where TwIf completed it at once the
  packets (but the one just sent by its client, where that is the last) are reported.\<close>

lemma SendAggregated_run:
  assumes c: "xf_conf x" and w: "xf_waits x ks" and ne: "ks \<noteq> []" and r: "snd (xf_bursts (xf_trace x)) = []"
  shows "\<exists>tr x'. txXfer_SendAggregatedPkts twif b x = Inr (twif tr, x') \<and> xf_rest_same x x' \<and> xf_blks_same x x' \<and> xf_conf x' \<and>
    xf_bursts (xf_trace x') = (fst (xf_bursts (xf_trace x)) @ [xf_out x ks], []) \<and>
    xf_accepted (xf_trace x') = xf_accepted (xf_trace x) \<and>
    tr = xf_trace x @ map (\<lambda>(k, t). XfTransact k t) (xf_out x ks) \<and>
    xf_reported (xf_trace x') = xf_reported (xf_trace x) @
      (if fSendPacketTransferCb x \<noteq> 0 \<and> twif tr = TXN_STATUS_COMPLETE
       then take (if b then length ks - 1 else length ks) ks else [])"
proof -
  let ?n = "if b then length ks - 1 else length ks"
  let ?tr = "xf_trace x @ map (\<lambda>(k, t). XfTransact k t) (xf_out x ks)"
  have ring: "xf_chain (xf_blks x) (pAggregFirstPkt x) ks" using w by (simp add: xf_waits_def xf_ring_def)
  obtain x1 where s: "txXfer_SendAggregatedPkts twif b x = (if twif (xf_trace x1) = TXN_STATUS_ERROR then Inr (TXN_STATUS_ERROR, x1) else
      (case txXfer_SendCounter x1 of Inl f \<Rightarrow> Inl f | Inr y \<Rightarrow>
         if fSendPacketTransferCb y \<noteq> 0 \<and> twif (xf_trace x1) = TXN_STATUS_COMPLETE then
           (case txXfer_CallCbs ?n (pAggregFirstPkt y) y of Inl f \<Rightarrow> Inl f
            | Inr z \<Rightarrow> Inr (twif (xf_trace x1), z))
         else Inr (twif (xf_trace x1), y)))"
    and t: "xf_trace x1 = ?tr" and x1: "xf_rest_same x x1" "xf_blks_same x x1" "xf_conf x1"
    using SendAggregated_burst [OF c w ne, of twif b] by blast
  have bu: "xf_bursts ?tr = (fst (xf_bursts (xf_trace x)) @ [xf_out x ks], [])"
  proof -
    have "xf_bursts (xf_trace x) = (fst (xf_bursts (xf_trace x)), [])" using r by (metis prod.collapse)
    then show ?thesis unfolding xf_bursts_append xf_out_def using group_cut [OF ne] by (metis append_Nil)
  qed
  have a: "xf_accepted ?tr = xf_accepted (xf_trace x)" "xf_reported ?tr = xf_reported (xf_trace x)"
    by (simp_all add: transact_run)
  show ?thesis
  proof (cases "twif ?tr = TXN_STATUS_ERROR")
    case True
    then have "txXfer_SendAggregatedPkts twif b x = Inr (twif ?tr, x1)" unfolding s t by simp
    then show ?thesis using x1 bu a True t by (intro exI [of _ ?tr] exI [of _ x1]) (simp only: if_False append_Nil2 simp_thms ETxnStatus.distinct)
  next
    case False
    obtain y i u m where y: "txXfer_SendCounter x1 = Inr y" "xf_trace y = xf_trace x1 @ [XfCounter i u m]"
      "xf_rest_same x1 y" "xf_blks y = xf_blks x1" "xf_conf y" using SendCounter_run [OF x1(3)] by blast
    let ?es = "map (XfTransferred (fSendPacketTransferCb y) (hSendPacketTransferHndl y)) (take ?n ks)"
    have rs: "xf_rest_same x y" using x1(1) y(3) by (simp add: xf_rest_same_def)
    have bs: "xf_blks_same x y" using x1(2) y(4) by (simp add: xf_blks_same_def)
    have f: "fSendPacketTransferCb y = fSendPacketTransferCb x" using rs by (simp add: xf_rest_same_def)
    have "xf_chain (xf_blks y) (pAggregFirstPkt y) ks"
      using ring chain_cong [of ks "xf_blks y" "xf_blks x"] rs bs by (simp add: xf_rest_same_def xf_blks_same_def)
    then have cb: "txXfer_CallCbs ?n (pAggregFirstPkt y) y = Inr (y\<lparr>xf_trace := xf_trace y @ ?es\<rparr>)"
      by (rule CallCbs_run) simp
    have yt: "xf_bursts (xf_trace y) = (fst (xf_bursts (xf_trace x)) @ [xf_out x ks], [])"
      "xf_accepted (xf_trace y) = xf_accepted (xf_trace x)" "xf_reported (xf_trace y) = xf_reported (xf_trace x)"
      using bu a by (simp_all add: y(2) t xf_bursts_append)
    show ?thesis
    proof (cases "fSendPacketTransferCb x \<noteq> 0 \<and> twif ?tr = TXN_STATUS_COMPLETE")
      case True
      let ?z = "y\<lparr>xf_trace := xf_trace y @ ?es\<rparr>"
      have e: "txXfer_SendAggregatedPkts twif b x = Inr (twif ?tr, ?z)"
        unfolding s t using False True by (simp add: y(1) cb f)
      have z: "xf_rest_same x ?z" "xf_blks_same x ?z" "xf_conf ?z"
        using rs bs y(5) by (simp_all add: xf_rest_same_def xf_blks_same_def xf_conf_def)
      have "xf_bursts (xf_trace ?z) = (fst (xf_bursts (xf_trace x)) @ [xf_out x ks], [])"
        "xf_accepted (xf_trace ?z) = xf_accepted (xf_trace x)"
        "xf_reported (xf_trace ?z) = xf_reported (xf_trace x) @ take ?n ks"
        using yt by (simp_all add: xf_bursts_append transferred_run)
      then show ?thesis using e z True by (intro exI [of _ ?tr] exI [of _ ?z]) (simp only: if_True simp_thms)
    next
      case no: False
      then have n: "(fSendPacketTransferCb y \<noteq> 0 \<and> twif ?tr = TXN_STATUS_COMPLETE) = False" by (simp only: f simp_thms)
      have e: "txXfer_SendAggregatedPkts twif b x = Inr (twif ?tr, y)"
        unfolding s t y(1) sum.case n if_False using False by (simp only: if_False)
      then show ?thesis using rs bs y(5) yt no
        by (intro exI [of _ ?tr] exI [of _ y]) (simp only: if_False append_Nil2 simp_thms)
    qed
  qed
qed

lemma record_sent:
  assumes "xf_record x (ks @ js)" "xf_waits x ks" "ks \<noteq> []" "xf_rest_same x x'"
    "xf_bursts (xf_trace x') = (fst (xf_bursts (xf_trace x)) @ [xf_out x ks], [])"
    "xf_accepted (xf_trace x') = xf_accepted (xf_trace x)"
  shows "xf_record x' js"
  using assms(1) out_ok [OF assms(2,3)] burst_ok_cong [OF assms(4)] assms(5,6)
  by (simp add: xf_record_def xf_out_def)

text \<open>Dropping the aggregation that was sent, and beginning one.\<close>

lemma waits_none: "xf_waits (x\<lparr>uAggregPktsNum := 0\<rparr>) []"
  by (simp add: xf_waits_def xf_ring_def xf_load_def)

lemma conf_more [simp]:
  "xf_conf (x\<lparr>uAggregPktsNum := n\<rparr>) = xf_conf x" "xf_conf (x\<lparr>xf_trace := tr\<rparr>) = xf_conf x"
  "xf_conf (x\<lparr>xf_blks := B\<rparr>) = xf_conf x" "xf_conf (txXfer_StartAggreg k l x) = xf_conf x"
  "xf_conf (x\<lparr>pAggregLastPkt := q\<rparr>) = xf_conf x" "xf_conf (x\<lparr>uAggregPktsLen := m\<rparr>) = xf_conf x"
  by (simp_all add: xf_conf_def txXfer_StartAggreg_def xf_set_next_def)

lemma record_more [simp]:
  "xf_record (x\<lparr>uAggregPktsNum := n\<rparr>) ks = xf_record x ks" "xf_record (x\<lparr>xf_blks := B\<rparr>) ks = xf_record x ks"
  "xf_record (txXfer_StartAggreg k l x) ks = xf_record x ks"
  "xf_record (x\<lparr>pAggregLastPkt := q\<rparr>) ks = xf_record x ks" "xf_record (x\<lparr>uAggregPktsLen := m\<rparr>) ks = xf_record x ks"
  using burst_ok_cong [of x] by (simp_all add: xf_record_def txXfer_StartAggreg_def xf_set_next_def xf_burst_ok_def list_all_iff)

lemma record_accept: "xf_record x ks \<Longrightarrow> xf_record (xf_emit (XfAccepted k) x) (ks @ [k])"
  by (simp add: xf_record_def xf_emit_def xf_bursts_append xf_burst_ok_def list_all_iff)

lemma waits_start:
  assumes "unat (xf_pkt_len (xf_blks x k)) \<le> unat (uAggregMaxLen x)"
    "txn_len (tTxnStruct (xf_blks x k)) \<le> unat (xf_pkt_len (xf_blks x k))"
  shows "xf_waits (txXfer_StartAggreg k (xf_pkt_len (xf_blks x k)) x) [k]"
  using assms by (simp add: xf_waits_def txXfer_StartAggreg_def xf_set_next_def xf_ring_def xf_load_def xf_pkt_len_def)

lemma set_next_sel [simp]:
  "xf_pkt_len (xf_blks (xf_set_next k p x) j) = xf_pkt_len (xf_blks x j)"
  "tTxnStruct (xf_blks (xf_set_next k p x) j) = tTxnStruct (xf_blks x j)"
  by (simp_all add: xf_set_next_def xf_pkt_len_def)

lemma load_cong: "(\<And>k. xf_pkt_len (xf_blks x' k) = xf_pkt_len (xf_blks x k)) \<Longrightarrow> xf_load x' ks = xf_load x ks"
  by (simp add: xf_load_def)

text \<open>The packet \<open>k\<close> joins the aggregation.\<close>

lemma waits_join:
  assumes c: "xf_conf x" and w: "xf_waits x ks" and ne: "ks \<noteq> []" and k: "k \<notin> set ks"
    and n: "uAggregPktsNum x + 1 \<le> uAggregMaxPkts x" and l: "uAggregPktsLen x + xf_pkt_len (xf_blks x k) \<le> uAggregMaxLen x"
    and ok: "unat (xf_pkt_len (xf_blks x k)) \<le> unat (uAggregMaxLen x)"
      "txn_len (tTxnStruct (xf_blks x k)) \<le> unat (xf_pkt_len (xf_blks x k))"
  shows "xf_waits (xf_set_next k (pAggregFirstPkt x) (xf_set_next (last ks) (Some k)
     (x\<lparr>uAggregPktsNum := uAggregPktsNum x + 1, uAggregPktsLen := uAggregPktsLen x + xf_pkt_len (xf_blks x k)\<rparr>)
       \<lparr>pAggregLastPkt := Some k\<rparr>)) (ks @ [k])"
    (is "xf_waits ?y _")
proof -
  let ?B = "xf_blks ?y"
  have W: "unat (uAggregPktsNum x) = length ks" "length ks \<le> max 1 (unat (uAggregMaxPkts x))"
    "xf_ring (xf_blks x) (pAggregFirstPkt x) ks" "unat (uAggregPktsLen x) = xf_load x ks"
    "\<forall>j \<in> set ks. txn_len (tTxnStruct (xf_blks x j)) \<le> unat (xf_pkt_len (xf_blks x j))"
    "xf_load x ks \<le> unat (uAggregMaxLen x)"
    using w ne by (simp_all add: xf_waits_def)
  have C: "unat (uAggregMaxPkts x) < 16" "unat (uAggregMaxLen x) < 2 ^ 31"
    using c by (simp_all add: xf_conf_def DBG_MAX_AGGREG_PKTS_def)
  have num: "unat (uAggregPktsNum x + 1) = length (ks @ [k])"
    using W(1,2) C(1) by (subst unat_add_small) (auto simp: W(1))
  have mx: "length (ks @ [k]) \<le> unat (uAggregMaxPkts x)" using n num by (simp add: word_le_nat_alt)
  have len: "unat (uAggregPktsLen x + xf_pkt_len (xf_blks x k)) = unat (uAggregPktsLen x) + unat (xf_pkt_len (xf_blks x k))"
    using W(4,6) C(2) ok(1) by (intro unat_add_small) simp
  have ld: "xf_load ?y (ks @ [k]) = unat (uAggregPktsLen x + xf_pkt_len (xf_blks x k))"
    unfolding len W(4) by (simp add: xf_load_def)
  have lm: "unat (uAggregPktsLen x + xf_pkt_len (xf_blks x k)) \<le> unat (uAggregMaxLen x)"
    using l by (simp add: word_le_nat_alt)
  have B: "?B = (xf_blks x)(last ks := (xf_blks x (last ks))\<lparr>pNextAggregEntry := Some k\<rparr>,
      k := (xf_blks x k)\<lparr>pNextAggregEntry := pAggregFirstPkt x\<rparr>)"
    using k ne by (auto simp: xf_set_next_def)
  have "xf_chain ?B (pAggregFirstPkt x) (ks @ [k])"
    unfolding B using W(3) ne k by (intro chain_snoc) (simp_all add: xf_ring_def)
  then have ring: "xf_ring ?B (pAggregFirstPkt x) (ks @ [k])"
    using W(3) k by (simp add: xf_ring_def B)
  have txl: "\<forall>j \<in> set (ks @ [k]). txn_len (tTxnStruct (?B j)) \<le> unat (xf_pkt_len (?B j))"
    using W(5) ok(2) by simp
  show ?thesis using num mx ring ld lm txl
    by (simp add: xf_waits_def xf_set_next_def)
qed

lemma waits_nil: "xf_waits x ks \<Longrightarrow> uAggregPktsNum x = 0 \<longleftrightarrow> ks = []"
  by (auto simp: xf_waits_def unat_eq_zero)

lemma emit_more [simp]:
  "xf_conf (xf_emit e x) = xf_conf x" "xf_waits (xf_emit e x) = xf_waits x" "xf_blks (xf_emit e x) = xf_blks x"
  "uAggregMaxLen (xf_emit e x) = uAggregMaxLen x" "uAggregMaxPkts (xf_emit e x) = uAggregMaxPkts x"
  "uAggregPktsNum (xf_emit e x) = uAggregPktsNum x" "uAggregPktsLen (xf_emit e x) = uAggregPktsLen x"
  "pAggregLastPkt (xf_emit e x) = pAggregLastPkt x" "fSendPacketTransferCb (xf_emit e x) = fSendPacketTransferCb x"
  by (simp_all add: xf_emit_def xf_conf_def xf_waits_def xf_load_def fun_eq_iff)

lemma start_more [simp]:
  "xf_trace (txXfer_StartAggreg k l x) = xf_trace x" "uAggregMaxPkts (txXfer_StartAggreg k l x) = uAggregMaxPkts x"
  "fSendPacketTransferCb (txXfer_StartAggreg k l x) = fSendPacketTransferCb x"
  by (simp_all add: txXfer_StartAggreg_def xf_set_next_def)

lemma record_tail: "xf_record x ks \<Longrightarrow> snd (xf_bursts (xf_trace x)) = []"
  by (simp add: xf_record_def)

text \<open>The block of a packet as its client hands it over: free, its length field right and within the limit.\<close>

definition xf_client_ok :: "TTxXferObj \<Rightarrow> nat \<Rightarrow> bool" where
  "xf_client_ok x k \<longleftrightarrow> unat (xf_pkt_len (xf_blks x k)) \<le> unat (uAggregMaxLen x) \<and>
     txn_len (tTxnStruct (xf_blks x k)) \<le> unat (xf_pkt_len (xf_blks x k))"

lemma client_ok_cong: "xf_rest_same x x' \<Longrightarrow> xf_blks_same x x' \<Longrightarrow> xf_client_ok x' k = xf_client_ok x k"
  by (simp add: xf_client_ok_def xf_rest_same_def xf_blks_same_def xf_pkt_len_def)

definition xf_set_same :: "TTxXferObj \<Rightarrow> TTxXferObj \<Rightarrow> bool" where
  "xf_set_same x x' \<longleftrightarrow> uAggregMaxPkts x' = uAggregMaxPkts x \<and> uAggregMaxLen x' = uAggregMaxLen x \<and>
     fSendPacketTransferCb x' = fSendPacketTransferCb x \<and> hSendPacketTransferHndl x' = hSendPacketTransferHndl x"

lemma set_same [simp]:
  "xf_set_same x x" "xf_set_same (xf_emit e x) = xf_set_same x" "xf_set_same (txXfer_StartAggreg k l x) = xf_set_same x"
  "xf_set_same x (x'\<lparr>uAggregPktsNum := n\<rparr>) = xf_set_same x x'" "xf_set_same x (txXfer_StartAggreg k l x') = xf_set_same x x'"
  "xf_set_same x (xf_emit e x') = xf_set_same x x'" "xf_rest_same x x' \<Longrightarrow> xf_set_same x x'"
  by (simp_all add: xf_set_same_def xf_emit_def txXfer_StartAggreg_def xf_set_next_def xf_rest_same_def fun_eq_iff)

lemma SendPacket_inv:
  assumes i: "xf_inv x ks" and k: "k \<notin> set ks" and ok: "xf_client_ok x k"
  shows "\<exists>st x' ks'. txXfer_SendPacket twif k x = Inr (st, x') \<and> xf_inv x' ks' \<and> set ks' \<subseteq> insert k (set ks) \<and>
    xf_set_same x x'"
proof -
  let ?l = "xf_pkt_len (xf_blks x k)"
  let ?x = "xf_emit (XfAccepted k) x"
  have I: "xf_conf ?x" "xf_waits ?x ks" "xf_record ?x (ks @ [k])"
    using i record_accept by (simp_all add: xf_inv_def)
  have l: "unat ?l \<le> unat (uAggregMaxLen x)" "txn_len (tTxnStruct (xf_blks x k)) \<le> unat ?l" using ok by (simp_all add: xf_client_ok_def)
  show ?thesis
  proof (cases "ks = []")
    case True
    let ?y = "txXfer_StartAggreg k ?l ?x"
    have n0: "uAggregPktsNum ?x = 0" using I(2) True waits_nil by blast
    have wy: "xf_waits ?y [k]" using waits_start [of ?x k] l by simp
    have y: "xf_conf ?y" "xf_record ?y [k]" using I True by simp_all
    show ?thesis
    proof (cases "uAggregMaxPkts x \<le> 1")
      case sp: True
      obtain tr x' where r: "txXfer_SendAggregatedPkts twif True ?y = Inr (twif tr, x')" "xf_rest_same ?y x'" "xf_conf x'"
        "xf_bursts (xf_trace x') = (fst (xf_bursts (xf_trace ?y)) @ [xf_out ?y [k]], [])"
        "xf_accepted (xf_trace x') = xf_accepted (xf_trace ?y)"
        using SendAggregated_run [OF y(1) wy not_Cons_self2 record_tail [OF y(2)], of twif True] by blast
      have "xf_record x' []" using record_sent [of ?y "[k]" "[]" x'] y(2) wy r by simp
      then have "xf_inv (x'\<lparr>uAggregPktsNum := 0\<rparr>) []" using r(3) waits_none by (simp add: xf_inv_def)
      moreover have "txXfer_SendPacket twif k x = Inr (twif tr, x'\<lparr>uAggregPktsNum := 0\<rparr>)"
        using n0 sp r(1) by (simp add: txXfer_SendPacket_def Let_def)
      moreover have "xf_set_same x (x'\<lparr>uAggregPktsNum := 0\<rparr>)" using set_same(7) [OF r(2)] by simp
      ultimately show ?thesis by (metis empty_set empty_subsetI)
    next
      case False
      then have "txXfer_SendPacket twif k x = Inr (TXN_STATUS_PENDING, ?y)"
        using n0 by (simp add: txXfer_SendPacket_def Let_def)
      moreover have "xf_inv ?y [k]" using y wy by (simp add: xf_inv_def)
      moreover have "xf_set_same x ?y" by simp
      ultimately show ?thesis by (metis list.simps(15) empty_set insert_mono empty_subsetI)
    qed
  next
    case ne: False
    have n0: "uAggregPktsNum ?x \<noteq> 0" using I(2) ne waits_nil by blast
    have la: "pAggregLastPkt ?x = Some (last ks)" using I(2) ne by (simp add: xf_waits_def)
    show ?thesis
    proof (cases "uAggregPktsNum x + 1 \<le> uAggregMaxPkts x \<and> uAggregPktsLen x + ?l \<le> uAggregMaxLen x")
      case join: True
      let ?z = "xf_set_next (last ks) (Some k) (?x\<lparr>uAggregPktsNum := uAggregPktsNum x + 1, uAggregPktsLen := uAggregPktsLen x + ?l\<rparr>)"
      let ?y = "xf_set_next k (pAggregFirstPkt ?x) (?z\<lparr>pAggregLastPkt := Some k\<rparr>)"
      have "pAggregFirstPkt (?z\<lparr>pAggregLastPkt := Some k\<rparr>) = pAggregFirstPkt ?x" by (simp add: xf_set_next_def)
      then have "txXfer_SendPacket twif k x = Inr (TXN_STATUS_PENDING, ?y)"
        using n0 la join by (simp add: txXfer_SendPacket_def Let_def)
      moreover have "xf_waits ?y (ks @ [k])"
        using waits_join [OF I(1,2) ne k] join l by simp
      moreover have "xf_conf ?y" "xf_record ?y (ks @ [k])"
        using I(1,3) by (simp_all add: xf_set_next_def xf_conf_def xf_record_def xf_burst_ok_def list_all_iff)
      moreover have "xf_set_same x ?y" by (simp add: xf_set_same_def xf_set_next_def xf_emit_def)
      ultimately show ?thesis unfolding xf_inv_def by (intro exI [of _ TXN_STATUS_PENDING] exI [of _ ?y] exI [of _ "ks @ [k]"]) simp
    next
      case False
      then have no: "(uAggregPktsNum x + 1 \<le> uAggregMaxPkts x \<and> uAggregPktsLen x + ?l \<le> uAggregMaxLen x) = False" by blast
      obtain tr x' where r: "txXfer_SendAggregatedPkts twif False ?x = Inr (twif tr, x')" "xf_rest_same ?x x'" "xf_blks_same ?x x'" "xf_conf x'"
        "xf_bursts (xf_trace x') = (fst (xf_bursts (xf_trace ?x)) @ [xf_out ?x ks], [])"
        "xf_accepted (xf_trace x') = xf_accepted (xf_trace ?x)"
        using SendAggregated_run [OF I(1,2) ne record_tail [OF I(3)], of twif False] by blast
      have rec: "xf_record x' [k]" using record_sent [OF I(3,2) ne r(2,5,6)] .
      let ?y = "txXfer_StartAggreg k ?l x'"
      have pl: "xf_pkt_len (xf_blks x' k) = ?l" using r(3) by (simp add: xf_blks_same_def xf_pkt_len_def)
      have "xf_client_ok x' k" using client_ok_cong [OF r(2,3)] ok by (simp add: xf_client_ok_def)
      then have "xf_waits ?y [k]" using waits_start [of x' k] unfolding pl xf_client_ok_def by simp
      moreover have "txXfer_SendPacket twif k x = Inr (TXN_STATUS_PENDING, ?y)"
        using n0 r(1) no by (simp only: txXfer_SendPacket_def Let_def emit_more if_False sum.case prod.case)
      moreover have "xf_conf ?y" "xf_record ?y [k]" using r(4) rec by simp_all
      moreover have "xf_set_same x ?y" using set_same(7) [OF r(2)] by simp
      ultimately show ?thesis unfolding xf_inv_def by (intro exI [of _ TXN_STATUS_PENDING] exI [of _ ?y] exI [of _ "[k]"]) simp
    qed
  qed
qed

lemma EndOfBurst_inv:
  assumes i: "xf_inv x ks"
  shows "\<exists>x'. txXfer_EndOfBurst twif x = Inr x' \<and> xf_inv x' []"
proof (cases "ks = []")
  case True
  then have "txXfer_EndOfBurst twif x = Inr x" using i waits_nil [of x ks] by (simp add: txXfer_EndOfBurst_def xf_inv_def)
  then show ?thesis using i True by blast
next
  case ne: False
  have I: "xf_conf x" "xf_waits x ks" "xf_record x (ks @ [])" using i by (simp_all add: xf_inv_def)
  obtain tr x' where r: "txXfer_SendAggregatedPkts twif False x = Inr (twif tr, x')" "xf_rest_same x x'" "xf_conf x'"
    "xf_bursts (xf_trace x') = (fst (xf_bursts (xf_trace x)) @ [xf_out x ks], [])"
    "xf_accepted (xf_trace x') = xf_accepted (xf_trace x)"
    using SendAggregated_run [OF I(1,2) ne record_tail [OF I(3)], of twif False] by blast
  have "xf_record x' []" using record_sent [OF I(3,2) ne r(2,4,5)] .
  then have "xf_inv (x'\<lparr>uAggregPktsNum := 0\<rparr>) []" using r(3) waits_none by (simp add: xf_inv_def)
  moreover have "uAggregPktsNum x > 0" using I(2) ne waits_nil [of x ks] by (simp add: word_gt_0)
  then have "txXfer_EndOfBurst twif x = Inr (x'\<lparr>uAggregPktsNum := 0\<rparr>)" using r(1) by (simp add: txXfer_EndOfBurst_def)
  ultimately show ?thesis by blast
qed

section \<open>Reports of transfers\<close>

lemma DoneLoop_run:
  "xf_chain (xf_blks x) p ks \<Longrightarrow> distinct ks \<Longrightarrow> ks \<noteq> [] \<Longrightarrow> length ks \<le> n \<Longrightarrow> fSendPacketTransferCb x \<noteq> 0 \<Longrightarrow>
   txXfer_DoneLoop n (last ks) p x = Inr (x\<lparr>xf_trace := xf_trace x @
     map (XfTransferred (fSendPacketTransferCb x) (hSendPacketTransferHndl x)) ks\<rparr>)"
proof (induction n arbitrary: p ks x)
  case (Suc n)
  then obtain k js where ks: "ks = k # js" "p = Some k" by (cases ks) auto
  let ?x = "xf_emit (XfTransferred (fSendPacketTransferCb x) (hSendPacketTransferHndl x) k) x"
  show ?case
  proof (cases "js = []")
    case True
    then show ?thesis using Suc.prems ks by (simp add: xf_emit_def)
  next
    case False
    then have ne: "k \<noteq> last js" using Suc.prems(2) ks last_in_set by fastforce
    have "xf_chain (xf_blks ?x) (pNextAggregEntry (xf_blks x k)) js" using Suc.prems(1) ks False by simp
    from Suc.IH [OF this] Suc.prems ks False
    have "txXfer_DoneLoop n (last js) (pNextAggregEntry (xf_blks x k)) ?x =
      Inr (?x\<lparr>xf_trace := xf_trace ?x @ map (XfTransferred (fSendPacketTransferCb x) (hSendPacketTransferHndl x)) js\<rparr>)"
      by (simp add: xf_emit_def)
    then show ?thesis using Suc.prems(5) ks False ne by (simp add: Let_def xf_emit_def)
  qed
qed simp

text \<open>The done callback of a burst whose ring still stands.\<close>

lemma TransferDone_run:
  assumes "xf_ring (xf_blks x) p ks" "ks \<noteq> []" "length ks \<le> unat (uAggregMaxPkts x)" "fSendPacketTransferCb x \<noteq> 0"
  shows "txXfer_TransferDoneCb (last ks) x = Inr (x\<lparr>xf_trace := xf_trace x @
     map (XfTransferred (fSendPacketTransferCb x) (hSendPacketTransferHndl x)) ks\<rparr>)"
proof -
  have "pNextAggregEntry (xf_blks x (last ks)) = p" "xf_chain (xf_blks x) p ks" "distinct ks"
    using assms(1,2) by (simp_all add: xf_ring_def)
  then show ?thesis using DoneLoop_run [of x p ks] assms(2-4) by (simp add: txXfer_TransferDoneCb_def)
qed

lemma DoneLoop_same:
  "txXfer_DoneLoop n k p x = Inr x' \<Longrightarrow>
   \<exists>ks. x' = x\<lparr>xf_trace := xf_trace x @ map (XfTransferred (fSendPacketTransferCb x) (hSendPacketTransferHndl x)) ks\<rparr>"
proof (induction n arbitrary: p x)
  case 0
  then show ?case by (intro exI [of _ "[]"]) simp
next
  case (Suc n)
  from Suc.prems obtain j where j: "fSendPacketTransferCb x \<noteq> 0" "p = Some j" by (auto split: if_splits option.splits)
  let ?x = "xf_emit (XfTransferred (fSendPacketTransferCb x) (hSendPacketTransferHndl x) j) x"
  show ?case
  proof (cases "j = k")
    case True
    then show ?thesis using Suc.prems j by (intro exI [of _ "[j]"]) (simp add: xf_emit_def)
  next
    case False
    then have "txXfer_DoneLoop n k (pNextAggregEntry (xf_blks x j)) ?x = Inr x'"
      using Suc.prems j by (simp add: Let_def)
    from Suc.IH [OF this] obtain ks where "x' = ?x\<lparr>xf_trace := xf_trace ?x @
      map (XfTransferred (fSendPacketTransferCb ?x) (hSendPacketTransferHndl ?x)) ks\<rparr>" by blast
    then show ?thesis by (intro exI [of _ "j # ks"]) (simp add: xf_emit_def)
  qed
qed

section \<open>Reachable states\<close>

text \<open>The packets that wait, in order.\<close>

fun xf_walk :: "(nat \<Rightarrow> TTxCtrlBlk) \<Rightarrow> nat \<Rightarrow> nat option \<Rightarrow> nat list" where
  "xf_walk blks 0 p = []"
| "xf_walk blks (Suc n) p = (case p of None \<Rightarrow> [] | Some k \<Rightarrow> k # xf_walk blks n (pNextAggregEntry (blks k)))"

definition xf_queue :: "TTxXferObj \<Rightarrow> nat list" where
  "xf_queue x = xf_walk (xf_blks x) (unat (uAggregPktsNum x)) (pAggregFirstPkt x)"

lemma walk_chain: "xf_chain blks p ks \<Longrightarrow> xf_walk blks (length ks) p = ks"
proof (induction ks arbitrary: p)
  case (Cons k ks)
  then show ?case by (cases "ks = []") simp_all
qed simp

lemma queue_waits: "xf_waits x ks \<Longrightarrow> xf_queue x = ks"
  by (simp add: xf_waits_def xf_queue_def xf_ring_def walk_chain)

text \<open>The driver configures the object, then its client sends packets (blocks \<open>b\<close> that it filled and that
  do not wait already), ends bursts, gets completions and restarts. A limit of 16 packets or more
  overruns the statistics (\<open>txXfer_overruns_statistics\<close>). A restart begins the record anew.\<close>

inductive xf_reach :: "xf_twif \<Rightarrow> TTxXferObj \<Rightarrow> bool" for twif where
  start: "txXfer_Create a blks = Some x \<Longrightarrow> unat lim < DBG_MAX_AGGREG_PKTS \<Longrightarrow> unat dma < 2 ^ 31 \<Longrightarrow>
    xf_reach twif (txXfer_SetBusParams dma (txXfer_SetDefaults lim (txXfer_Init buf x)))"
| register: "xf_reach twif x \<Longrightarrow> xf_reach twif (txXfer_RegisterCb i f h x)"
| send: "xf_reach twif x \<Longrightarrow> k \<notin> set (xf_queue x) \<Longrightarrow> y = x\<lparr>xf_blks := (xf_blks x)(k := b)\<rparr> \<Longrightarrow> xf_client_ok y k \<Longrightarrow>
    txXfer_SendPacket twif k y = Inr (st, x') \<Longrightarrow> xf_reach twif x'"
| burst: "xf_reach twif x \<Longrightarrow> txXfer_EndOfBurst twif x = Inr x' \<Longrightarrow> xf_reach twif x'"
| finish: "xf_reach twif x \<Longrightarrow> txXfer_TransferDoneCb k x = Inr x' \<Longrightarrow> xf_reach twif x'"
| restart: "xf_reach twif x \<Longrightarrow> xf_reach twif (txXfer_Restart (x\<lparr>xf_trace := []\<rparr>))"
| stats: "xf_reach twif x \<Longrightarrow> xf_reach twif (txXfer_ClearStats x)"

lemma inv_write:
  assumes "xf_inv x ks" "k \<notin> set ks"
  shows "xf_inv (x\<lparr>xf_blks := (xf_blks x)(k := b)\<rparr>) ks"
proof -
  let ?B = "(xf_blks x)(k := b)"
  have o: "\<forall>j \<in> set ks. ?B j = xf_blks x j" using assms(2) by auto
  then have "xf_ring ?B (pAggregFirstPkt x) ks = xf_ring (xf_blks x) (pAggregFirstPkt x) ks" by (intro ring_cong) simp
  moreover have "xf_load (x\<lparr>xf_blks := ?B\<rparr>) ks = xf_load x ks"
    unfolding xf_load_def using o by (intro arg_cong [of _ _ sum_list] map_cong refl) simp
  moreover have "(\<forall>j \<in> set ks. txn_len (tTxnStruct (?B j)) \<le> unat (xf_pkt_len (?B j))) =
      (\<forall>j \<in> set ks. txn_len (tTxnStruct (xf_blks x j)) \<le> unat (xf_pkt_len (xf_blks x j)))"
    using o by (intro ball_cong refl) simp
  ultimately show ?thesis using assms(1) unfolding xf_inv_def xf_waits_def by (simp del: fun_upd_apply)
qed

lemma inv_start:
  assumes "txXfer_Create a blks = Some x" "unat lim < DBG_MAX_AGGREG_PKTS" "unat dma < 2 ^ 31"
  shows "xf_inv (txXfer_SetBusParams dma (txXfer_SetDefaults lim (txXfer_Init buf x))) []"
  using assms
  by (auto simp: txXfer_Create_def txXfer_SetBusParams_def txXfer_SetDefaults_def txXfer_Init_def txXfer_Restart_def
      xf_inv_def xf_conf_def xf_waits_def xf_record_def xf_ring_def xf_load_def xf_bursts_def CTRL_BLK_ENTRIES_NUM_def
      split: if_splits)

lemma inv_done:
  assumes "xf_inv x ks" "txXfer_TransferDoneCb k x = Inr x'"
  shows "xf_inv x' ks"
proof -
  obtain js where x': "x' = x\<lparr>xf_trace := xf_trace x @ map (XfTransferred (fSendPacketTransferCb x) (hSendPacketTransferHndl x)) js\<rparr>"
    using DoneLoop_same assms(2) unfolding txXfer_TransferDoneCb_def by blast
  have "xf_burst_ok x' = xf_burst_ok x" using burst_ok_cong [of x x'] by (simp add: x' xf_rest_same_def)
  then show ?thesis using assms(1)
    by (simp add: x' xf_inv_def xf_waits_def xf_load_def xf_record_def xf_bursts_append transferred_run)
qed

lemma inv_restart: "xf_inv x ks \<Longrightarrow> xf_inv (txXfer_Restart (x\<lparr>xf_trace := []\<rparr>)) []"
  by (auto simp: xf_inv_def xf_conf_def xf_waits_def xf_record_def txXfer_Restart_def xf_ring_def xf_load_def xf_bursts_def
      CTRL_BLK_ENTRIES_NUM_def)

lemma inv_keep:
  assumes "xf_inv x ks" "xf_trace x' = xf_trace x" "xf_blks x' = xf_blks x" "uAggregMaxPkts x' = uAggregMaxPkts x"
    "uAggregMaxLen x' = uAggregMaxLen x" "uAggregPktsNum x' = uAggregPktsNum x" "uAggregPktsLen x' = uAggregPktsLen x"
    "pAggregFirstPkt x' = pAggregFirstPkt x" "pAggregLastPkt x' = pAggregLastPkt x" "uPktsCntrTxnIndex x' = uPktsCntrTxnIndex x"
    "aPktsCntrTxn x' = aPktsCntrTxn x" "length (aDbgCountPktAggreg x') = DBG_MAX_AGGREG_PKTS"
  shows "xf_inv x' ks"
proof -
  have "xf_burst_ok x' = xf_burst_ok x" by (simp add: xf_burst_ok_def fun_eq_iff assms(4,5))
  then show ?thesis using assms(1) by (simp add: xf_inv_def xf_conf_def xf_waits_def xf_record_def xf_load_def assms(2-))
qed

lemma reach_inv: "xf_reach twif x \<Longrightarrow> \<exists>ks. xf_inv x ks \<and> xf_queue x = ks"
proof (induction rule: xf_reach.induct)
  case (start a blks x lim dma buf)
  then show ?case using inv_start [of a blks x lim dma buf] queue_waits xf_inv_def by blast
next
  case (register x i f h)
  then obtain ks where i: "xf_inv x ks" by blast
  have "length (aDbgCountPktAggreg x) = DBG_MAX_AGGREG_PKTS" using i by (simp add: xf_inv_def xf_conf_def)
  then have "xf_inv (txXfer_RegisterCb i f h x) ks" by (intro inv_keep [OF i]) (simp_all add: txXfer_RegisterCb_def)
  then show ?case using queue_waits xf_inv_def by blast
next
  case (send x k y b st x')
  then obtain ks where i: "xf_inv x ks" "xf_queue x = ks" by blast
  have "xf_inv y ks" using inv_write [OF i(1)] send.hyps(2,3) i(2) by simp
  from SendPacket_inv [OF this _ send.hyps(4), of twif] send.hyps(2,5) i(2)
  have "\<exists>ks. xf_inv x' ks" by auto
  then show ?case using queue_waits xf_inv_def by blast
next
  case (burst x x')
  then obtain ks where "xf_inv x ks" by blast
  from EndOfBurst_inv [OF this, of twif] burst.hyps(2) have "xf_inv x' []" by simp
  then show ?case using queue_waits xf_inv_def by blast
next
  case (finish x k x')
  then show ?case using inv_done queue_waits xf_inv_def by blast
next
  case (restart x)
  then show ?case using inv_restart queue_waits xf_inv_def by blast
next
  case (stats x)
  then obtain ks where i: "xf_inv x ks" by blast
  have "xf_inv (txXfer_ClearStats x) ks" by (intro inv_keep [OF i]) (simp_all add: txXfer_ClearStats_def)
  then show ?case using queue_waits xf_inv_def by blast
qed

section \<open>Properties\<close>

text \<open>Two packets an aggregation at most, 4096 bytes at most, packets of 8 bytes each, and TwIf's answer.\<close>

definition demo_xfer :: "u32 \<Rightarrow> addr \<Rightarrow> TTxXferObj" where
  "demo_xfer lim f = txXfer_RegisterCb TWD_INT_SEND_PACKET_TRANSFER f 9
     (txXfer_SetBusParams 4096 (txXfer_SetDefaults lim (txXfer_Init (\<lambda>i. 100 + i)
       (the (txXfer_Create 3 (\<lambda>_. TTxCtrlBlk_zero))))))"

definition demo_pkt :: "nat \<Rightarrow> TTxCtrlBlk" where
  "demo_pkt k = TTxCtrlBlk_zero
     \<lparr>tTxnStruct := TTxnStruct_zero\<lparr>aLen := [8, 0, 0, 0], aBuf := [200 + 8 * k, 0, 0, 0]\<rparr>,
      tTxDescriptor := (tTxDescriptor TTxCtrlBlk_zero)\<lparr>td_length := 2\<rparr>\<rparr>"

fun demo_sends :: "xf_twif \<Rightarrow> nat list \<Rightarrow> TTxXferObj \<Rightarrow> fault + TTxXferObj" where
  "demo_sends twif [] x = Inr x"
| "demo_sends twif (k # ks) x =
     (case txXfer_SendPacket twif k (x\<lparr>xf_blks := (xf_blks x)(k := demo_pkt k)\<rparr>) of
        Inl f \<Rightarrow> Inl f | Inr (st, x) \<Rightarrow> demo_sends twif ks x)"

lemma demo_xfer_reach: "unat lim < DBG_MAX_AGGREG_PKTS \<Longrightarrow> xf_reach twif (demo_xfer lim f)"
  unfolding demo_xfer_def
  by (rule xf_reach.register, rule xf_reach.start [where a = 3]) (simp_all add: txXfer_Create_def)

lemma demo_client: "unat (uAggregMaxLen x) = 4096 \<Longrightarrow> xf_client_ok (x\<lparr>xf_blks := (xf_blks x)(k := demo_pkt k)\<rparr>) k"
  by (simp add: xf_client_ok_def xf_pkt_len_def demo_pkt_def txn_len_def txn_bufs_def MAX_XFER_BUFS_def)

lemma demo_sends_reach:
  "xf_reach twif x \<Longrightarrow> unat (uAggregMaxLen x) = 4096 \<Longrightarrow> distinct ks \<Longrightarrow> set ks \<inter> set (xf_queue x) = {} \<Longrightarrow>
   demo_sends twif ks x = Inr x' \<Longrightarrow> xf_reach twif x' \<and> unat (uAggregMaxLen x') = 4096"
proof (induction ks arbitrary: x)
  case (Cons k ks)
  let ?y = "x\<lparr>xf_blks := (xf_blks x)(k := demo_pkt k)\<rparr>"
  obtain js where i: "xf_inv x js" "xf_queue x = js" using reach_inv [OF Cons.prems(1)] by blast
  have k: "k \<notin> set js" using Cons.prems(4) i(2) by simp
  from SendPacket_inv [OF inv_write [OF i(1) k] k demo_client [OF Cons.prems(2)], of twif] obtain st y ks' where
    y: "txXfer_SendPacket twif k ?y = Inr (st, y)" "xf_inv y ks'" "set ks' \<subseteq> insert k (set js)" "xf_set_same ?y y" by blast
  have r: "xf_reach twif y" using xf_reach.send [OF Cons.prems(1) _ refl demo_client [OF Cons.prems(2)] y(1)] k i(2) by simp
  have q: "xf_queue y = ks'" using y(2) queue_waits by (simp add: xf_inv_def)
  have l: "unat (uAggregMaxLen y) = 4096" using y(4) Cons.prems(2) by (simp add: xf_set_same_def)
  have "distinct ks" using Cons.prems(3) by simp
  moreover have "set ks \<inter> set (xf_queue y) = {}" using Cons.prems(3,4) y(3) i(2) q by auto
  moreover have "demo_sends twif ks y = Inr x'" using Cons.prems(5) y(1) by simp
  ultimately show ?case using Cons.IH [OF r l] by blast
qed simp

lemma demo_obtain:
  assumes "unat lim < DBG_MAX_AGGREG_PKTS" "distinct ks" "isl (demo_sends twif ks (demo_xfer lim f)) = False"
  shows "\<exists>x. demo_sends twif ks (demo_xfer lim f) = Inr x \<and> xf_reach twif x \<and> uAggregMaxLen x = 4096"
proof -
  obtain x where x: "demo_sends twif ks (demo_xfer lim f) = Inr x" using assms(3) by (cases "demo_sends twif ks (demo_xfer lim f)") auto
  have "unat (uAggregMaxLen (demo_xfer lim f)) = 4096" "xf_queue (demo_xfer lim f) = []"
    by (simp_all add: demo_xfer_def txXfer_RegisterCb_def txXfer_SetBusParams_def txXfer_SetDefaults_def txXfer_Init_def
        txXfer_Restart_def xf_queue_def)
  then have "xf_reach twif x \<and> unat (uAggregMaxLen x) = 4096"
    using demo_sends_reach [OF demo_xfer_reach [OF assms(1)] _ assms(2) _ x] by simp
  moreover have "unat w = 4096 \<Longrightarrow> w = 4096" for w :: u32 by (metis of_nat_numeral of_nat_unat ucast_id)
  ultimately show ?thesis using x by blast
qed

definition demo_sent :: "u32 \<Rightarrow> addr \<Rightarrow> u32 \<Rightarrow> addr \<Rightarrow> addr \<Rightarrow> TTxnStruct" where
  "demo_sent w a hw f h = TTxnStruct_zero\<lparr>uTxnParams := w, uHwAddr := hw, fTxnDoneCb := f, hCbHandle := h,
     aLen := [8, 0, 0, 0], aBuf := [a, 0, 0, 0]\<rparr>"

text \<open>The burst of packets 0 and 1.\<close>

definition demo_burst :: "xf_burst" where
  "demo_burst = [(0, demo_sent 0x1000 200 SLV_MEM_DATA 0 0), (1, demo_sent 0 208 SLV_MEM_DATA xf_fDone 3)]"

definition demo_check :: "fault + TTxXferObj \<Rightarrow> xf_burst list \<Rightarrow> nat list \<Rightarrow> bool" where
  "demo_check r bs q = (case r of Inl f \<Rightarrow> False | Inr x \<Rightarrow>
     fst (xf_bursts (xf_trace x)) = bs \<and> xf_queue x = q \<and> fSendPacketTransferCb x = 7 \<and> uAggregMaxPkts x = 2 \<and>
     xf_reported (xf_trace x) = [])"

lemma demo_run: "demo_check (demo_sends (\<lambda>_. TXN_STATUS_PENDING) [0, 1, 2] (demo_xfer 2 7)) [demo_burst] [2]"
  by code_simp

text \<open>C9: Aggregation loses, repeats and reorders no packet: in every reachable state the packets given to
  txXfer_SendPacket since the last restart are, in order, those of the bursts given to TwIf and those
  that wait for the next one, and every burst keeps its limits: at most uAggregMaxPkts packets (or
  one), together at most uAggregMaxLen bytes, all but its last marked as part of an aggregation and
  without a callback, its last one closing it.\<close>

theorem txXfer_bursts:
  assumes "xf_reach twif x"
  shows "xf_accepted (xf_trace x) = map fst (concat (fst (xf_bursts (xf_trace x)))) @ xf_queue x \<and>
    snd (xf_bursts (xf_trace x)) = [] \<and> list_all (xf_burst_ok x) (fst (xf_bursts (xf_trace x))) \<and>
    length (xf_queue x) \<le> max 1 (unat (uAggregMaxPkts x))"
proof -
  obtain ks where i: "xf_inv x ks" "xf_queue x = ks" using reach_inv [OF assms] by blast
  then show ?thesis by (auto simp: xf_inv_def xf_record_def xf_waits_def)
qed

lemma demo_state:
  "\<exists>x. xf_reach (\<lambda>_. TXN_STATUS_PENDING) x \<and> demo_check (Inr x) [demo_burst] [2] \<and>
     demo_sends (\<lambda>_. TXN_STATUS_PENDING) [0, 1, 2] (demo_xfer 2 7) = Inr x \<and> uAggregMaxLen x = 4096"
proof -
  have "isl (demo_sends (\<lambda>_. TXN_STATUS_PENDING) [0, 1, 2] (demo_xfer 2 7)) = False"
    using demo_run by (cases "demo_sends (\<lambda>_. TXN_STATUS_PENDING) [0, 1, 2] (demo_xfer 2 7)") (simp_all add: demo_check_def)
  from demo_obtain [OF _ _ this] demo_run show ?thesis by (auto simp: DBG_MAX_AGGREG_PKTS_def)
qed

theorem txXfer_bursts_witness:
  "\<exists>x. demo_sends (\<lambda>_. TXN_STATUS_PENDING) [0, 1, 2] (demo_xfer 2 7) = Inr x \<and>
     map (map fst) (fst (xf_bursts (xf_trace x))) = [[0, 1]] \<and> xf_queue x = [2] \<and> xf_accepted (xf_trace x) = [0, 1, 2]"
proof -
  obtain x where x: "xf_reach (\<lambda>_. TXN_STATUS_PENDING) x" "demo_check (Inr x) [demo_burst] [2]"
    "demo_sends (\<lambda>_. TXN_STATUS_PENDING) [0, 1, 2] (demo_xfer 2 7) = Inr x" using demo_state by blast
  have "xf_accepted (xf_trace x) = concat (map (map fst) (fst (xf_bursts (xf_trace x)))) @ xf_queue x"
    using txXfer_bursts [OF x(1)] by (simp add: map_concat)
  then show ?thesis using x(2,3) by (intro exI [of _ x]) (simp add: demo_check_def demo_burst_def)
qed

text \<open>C21: The transfer of every packet of a burst is reported once, in order: where TwIf answers the
  burst that txXfer_EndOfBurst sends at once with COMPLETE, by that call; where it answers PENDING, by
  the completion callback of the burst's last packet and not before, however much is sent in between,
  as long as the links of its packets stand. After an error nothing is reported.\<close>

theorem txXfer_reports_once:
  assumes "xf_reach twif x" "xf_queue x = ks" "ks \<noteq> []" "fSendPacketTransferCb x \<noteq> 0" "1 \<le> uAggregMaxPkts x"
    and "st = twif (xf_trace x @ map (\<lambda>(k, t). XfTransact k t) (xf_out x ks))"
  shows "\<exists>x1. txXfer_EndOfBurst twif x = Inr x1 \<and> xf_queue x1 = [] \<and>
    fst (xf_bursts (xf_trace x1)) = fst (xf_bursts (xf_trace x)) @ [xf_out x ks] \<and>
    xf_reported (xf_trace x1) = xf_reported (xf_trace x) @ (if st = TXN_STATUS_COMPLETE then ks else []) \<and>
    (\<forall>y. map (\<lambda>k. pNextAggregEntry (xf_blks y k)) ks = map (\<lambda>k. pNextAggregEntry (xf_blks x1 k)) ks \<and> xf_set_same x1 y \<longrightarrow>
      (\<exists>y'. txXfer_TransferDoneCb (last ks) y = Inr y' \<and> xf_reported (xf_trace y') = xf_reported (xf_trace y) @ ks))"
proof -
  have i: "xf_conf x" "xf_waits x ks" "xf_record x ks" using reach_inv [OF assms(1)] assms(2) by (auto simp: xf_inv_def)
  obtain x' where r: "txXfer_SendAggregatedPkts twif False x = Inr (st, x')" "xf_rest_same x x'" "xf_blks_same x x'"
    "xf_bursts (xf_trace x') = (fst (xf_bursts (xf_trace x)) @ [xf_out x ks], [])"
    "xf_reported (xf_trace x') = xf_reported (xf_trace x) @ (if st = TXN_STATUS_COMPLETE then ks else [])"
    using SendAggregated_run [OF i(1,2) assms(3) record_tail [OF i(3)], of twif False] assms(4,6) by auto
  let ?x1 = "x'\<lparr>uAggregPktsNum := 0\<rparr>"
  have "uAggregPktsNum x > 0" using i(2) assms(3) waits_nil [of x ks] by (simp add: word_gt_0)
  then have e: "txXfer_EndOfBurst twif x = Inr ?x1" using r(1) by (simp add: txXfer_EndOfBurst_def)
  have "\<exists>y'. txXfer_TransferDoneCb (last ks) y = Inr y' \<and> xf_reported (xf_trace y') = xf_reported (xf_trace y) @ ks"
    if y: "map (\<lambda>k. pNextAggregEntry (xf_blks y k)) ks = map (\<lambda>k. pNextAggregEntry (xf_blks ?x1 k)) ks" "xf_set_same ?x1 y" for y
  proof -
    have "xf_ring (xf_blks y) (pAggregFirstPkt x) ks = xf_ring (xf_blks x) (pAggregFirstPkt x) ks"
      using y(1) r(3) by (intro ring_cong) (simp add: xf_blks_same_def)
    then have ring: "xf_ring (xf_blks y) (pAggregFirstPkt x) ks" using i(2) by (simp add: xf_waits_def)
    have s: "uAggregMaxPkts y = uAggregMaxPkts x" "fSendPacketTransferCb y \<noteq> 0"
      using y(2) r(2) assms(4) by (simp_all add: xf_set_same_def xf_rest_same_def)
    have "1 \<le> unat (uAggregMaxPkts x)" using assms(5) by (simp add: word_le_nat_alt)
    then have "length ks \<le> unat (uAggregMaxPkts y)" using i(2) s(1) by (simp add: xf_waits_def)
    from TransferDone_run [OF ring assms(3) this s(2)] show ?thesis by (simp add: transferred_run)
  qed
  then show ?thesis using e r(4,5) by (intro exI [of _ ?x1]) (simp add: xf_queue_def)
qed

theorem txXfer_reports_once_witness:
  "\<exists>x x1 y. demo_sends (\<lambda>_. TXN_STATUS_PENDING) [0, 1, 2] (demo_xfer 2 7) = Inr x \<and>
     txXfer_EndOfBurst (\<lambda>_. TXN_STATUS_PENDING) x = Inr x1 \<and> xf_reported (xf_trace x1) = [] \<and>
     txXfer_TransferDoneCb 2 x1 = Inr y \<and> xf_reported (xf_trace y) = [2]"
proof -
  obtain x where x: "xf_reach (\<lambda>_. TXN_STATUS_PENDING) x" "demo_check (Inr x) [demo_burst] [2]"
    "demo_sends (\<lambda>_. TXN_STATUS_PENDING) [0, 1, 2] (demo_xfer 2 7) = Inr x" using demo_state by blast
  have c: "xf_queue x = [2]" "fSendPacketTransferCb x \<noteq> 0" "1 \<le> uAggregMaxPkts x" "xf_reported (xf_trace x) = []"
    using x(2) by (simp_all add: demo_check_def)
  obtain x1 where x1: "txXfer_EndOfBurst (\<lambda>_. TXN_STATUS_PENDING) x = Inr x1" "xf_reported (xf_trace x1) = []"
    "\<forall>y. map (\<lambda>k. pNextAggregEntry (xf_blks y k)) [2] = map (\<lambda>k. pNextAggregEntry (xf_blks x1 k)) [2] \<and> xf_set_same x1 y \<longrightarrow>
      (\<exists>y'. txXfer_TransferDoneCb (last [2]) y = Inr y' \<and> xf_reported (xf_trace y') = xf_reported (xf_trace y) @ [2])"
    using txXfer_reports_once [OF x(1) c(1) not_Cons_self2 c(2,3) refl] c(4) by auto
  from spec [OF x1(3), of x1] obtain y where "txXfer_TransferDoneCb 2 x1 = Inr y" "xf_reported (xf_trace y) = [2]"
    using x1(2) by auto
  then show ?thesis using x(3) x1(1,2) by blast
qed

text \<open>A client that hands over packets it has filled, and not one that waits already, meets no fault:
  in every reachable state txXfer_SendPacket returns PENDING or what TwIf answered, and
  txXfer_EndOfBurst returns with no packet waiting.\<close>

theorem txXfer_no_fault:
  assumes "xf_reach twif x" "k \<notin> set (xf_queue x)" "xf_client_ok x k"
  shows "(\<exists>st x'. txXfer_SendPacket twif k x = Inr (st, x') \<and> set (xf_queue x') \<subseteq> insert k (set (xf_queue x))) \<and>
    (\<exists>x'. txXfer_EndOfBurst twif x = Inr x' \<and> xf_queue x' = [])"
proof -
  obtain ks where i: "xf_inv x ks" "xf_queue x = ks" using reach_inv [OF assms(1)] by blast
  obtain st x' ks' where s: "txXfer_SendPacket twif k x = Inr (st, x')" "xf_inv x' ks'" "set ks' \<subseteq> insert k (set ks)"
    using SendPacket_inv [OF i(1) _ assms(3), of twif] assms(2) i(2) by auto
  obtain x2 where e: "txXfer_EndOfBurst twif x = Inr x2" "xf_inv x2 []" using EndOfBurst_inv [OF i(1), of twif] by blast
  have "xf_queue x' = ks'" "xf_queue x2 = []" using s(2) e(2) queue_waits by (simp_all add: xf_inv_def)
  then show ?thesis using s(1,3) e(1) i(2) by blast
qed

lemma zero_len: "txn_len TTxnStruct_zero = 0"
  by code_simp

theorem txXfer_no_fault_witness:
  "\<exists>st x. txXfer_SendPacket (\<lambda>_. TXN_STATUS_ERROR) 4 (demo_xfer 0 0) = Inr (st, x) \<and> set (xf_queue x) \<subseteq> {4}"
proof -
  have q: "xf_queue (demo_xfer 0 0) = []" "xf_client_ok (demo_xfer 0 0) 4"
    by (simp_all add: demo_xfer_def txXfer_RegisterCb_def txXfer_SetBusParams_def txXfer_SetDefaults_def txXfer_Init_def
        txXfer_Restart_def txXfer_Create_def xf_queue_def xf_client_ok_def xf_pkt_len_def TTxCtrlBlk_zero_def zero_len)
  have "4 \<notin> set (xf_queue (demo_xfer 0 0))" using q(1) by simp
  from txXfer_no_fault [OF demo_xfer_reach this q(2), of "\<lambda>_. TXN_STATUS_ERROR"] q(1) show ?thesis
    by (simp add: DBG_MAX_AGGREG_PKTS_def)
qed

lemma burst_ok_mem:
  "xf_burst_ok x g \<Longrightarrow> (k, t) \<in> set (butlast g) \<Longrightarrow> TXN_PARAM_GET_AGGREGATE t = TXN_AGGREGATE_ON"
  by (auto simp: xf_burst_ok_def list_all_iff)

text \<open>C22: The bursts are what the bus driver needs: a burst of any reachable state, its transactions held
  by the bus driver with the address hw that TwIf made of theirs, goes through a connected, idle bus
  driver whose Tx DMA buffer has the length that limits the aggregation as one transfer of exactly the
  bytes of its packets, one packet after another; before its last transaction the bus sees nothing.\<close>

theorem txXfer_burst_on_bus:
  assumes "xf_reach twif x" "g \<in> set (fst (xf_bursts (xf_trace x)))"
    and "bd_conn b" "uTxnLength b = 0" "uTxDmaBufLen b = uAggregMaxLen x"
    and "\<forall>(k, t) \<in> set g. A k \<noteq> 0 \<and> bd_txns b (A k) = t\<lparr>uHwAddr := hw\<rparr> \<and> TXN_PARAM_GET_DIRECTION t = TXN_DIRECTION_WRITE \<and>
      TXN_PARAM_GET_SINGLE_STEP t = 0 \<and> bufs_apart (pTxDmaBuf b) (unat (uTxDmaBufLen b)) (txn_bufs t)"
    and "txn_len (snd (last g)) \<noteq> 0" "\<forall>tr. fst (sdio tr) \<noteq> TXN_STATUS_ERROR"
  shows "\<exists>b1 s. bd_transact_all sdio (map (A \<circ> fst) (butlast g)) b = Inr (replicate (length g - 1) TXN_STATUS_COMPLETE, b1) \<and>
    bd_trace b1 = bd_trace b \<and> bd_exec sdio (A (fst (last g))) b1 = Inr s \<and> \<not> bd_waiting s \<and>
    bd_bus (bd_new b s) = addressed (TXN_PARAM_GET_FIXED_ADDR (snd (last g)) \<noteq> 0) hw
      (concat (map (\<lambda>(k, t). txn_bytes (bd_mem b) t) g))"
proof -
  have ok: "xf_burst_ok x g" using reach_inv [OF assms(1)] assms(2) by (auto simp: xf_inv_def xf_record_def list_all_iff)
  then have ne: "g \<noteq> []" and off: "TXN_PARAM_GET_AGGREGATE (snd (last g)) = TXN_AGGREGATE_OFF"
    and len: "sum_list (map (\<lambda>(k, t). txn_len t) g) \<le> unat (uAggregMaxLen x)" by (simp_all add: xf_burst_ok_def)
  have hw: "txn_bufs (t\<lparr>uHwAddr := hw\<rparr>) = txn_bufs t" "TXN_PARAM_GET_AGGREGATE (t\<lparr>uHwAddr := hw\<rparr>) = TXN_PARAM_GET_AGGREGATE t"
    "TXN_PARAM_GET_DIRECTION (t\<lparr>uHwAddr := hw\<rparr>) = TXN_PARAM_GET_DIRECTION t" "TXN_PARAM_GET_FIXED_ADDR (t\<lparr>uHwAddr := hw\<rparr>) = TXN_PARAM_GET_FIXED_ADDR t"
    "TXN_PARAM_GET_SINGLE_STEP (t\<lparr>uHwAddr := hw\<rparr>) = TXN_PARAM_GET_SINGLE_STEP t" for t
    by (simp_all add: txn_bufs_def txn_get_defs)
  have W: "bd_write b (TXN_PARAM_GET_AGGREGATE t) (A k)" "txn_len (bd_txns b (A k)) = txn_len t"
    "txn_bytes m (bd_txns b (A k)) = txn_bytes m t" "bd_txns b (A k) = t\<lparr>uHwAddr := hw\<rparr>" if "(k, t) \<in> set g" for k t m
    using that assms(6) by (auto simp: bd_write_def Let_def hw txn_len_def txn_bytes_def)
  let ?xs = "map (A \<circ> fst) (butlast g)" and ?x = "A (fst (last g))"
  have ap: "?xs @ [?x] = map (A \<circ> fst) g" using arg_cong [OF append_butlast_last_id [OF ne], of "map (A \<circ> fst)"] by simp
  have lg: "(fst (last g), snd (last g)) \<in> set g" using last_in_set [OF ne] by simp
  have on: "list_all (bd_write b TXN_AGGREGATE_ON) ?xs"
    unfolding list_all_iff using W(1) burst_ok_mem [OF ok] in_set_butlastD [of _ g] by fastforce
  have last: "bd_write b TXN_AGGREGATE_OFF ?x" using W(1) [OF lg] off by simp
  have len': "map (\<lambda>y. txn_len (bd_txns b y)) (?xs @ [?x]) = map (\<lambda>(k, t). txn_len t) g"
    unfolding ap using W(2) by auto
  have bytes: "map (\<lambda>y. txn_bytes (bd_mem b) (bd_txns b y)) (?xs @ [?x]) = map (\<lambda>(k, t). txn_bytes (bd_mem b) t) g"
    unfolding ap using W(3) by auto
  have sum: "sum_list (map (\<lambda>y. txn_len (bd_txns b y)) (?xs @ [?x])) \<le> unat (uTxDmaBufLen b)"
    unfolding len' assms(5) by (rule len)
  have nz: "txn_len (bd_txns b ?x) \<noteq> 0" using W(2) [OF lg] assms(7) by simp
  obtain b1 s where s: "bd_transact_all sdio ?xs b = Inr (replicate (length ?xs) TXN_STATUS_COMPLETE, b1)"
    "bd_trace b1 = bd_trace b" "bd_exec sdio ?x b1 = Inr s" "\<not> bd_waiting s"
    "bd_bus (bd_new b s) = addressed (TXN_PARAM_GET_FIXED_ADDR (bd_txns b ?x) \<noteq> 0) (uHwAddr (bd_txns b ?x))
      (concat (map (\<lambda>y. txn_bytes (bd_mem b) (bd_txns b y)) (?xs @ [?x])))"
    using write_transfers [OF assms(3,4) on last sum nz assms(8)] by blast
  have h: "uHwAddr (bd_txns b ?x) = hw" "TXN_PARAM_GET_FIXED_ADDR (bd_txns b ?x) = TXN_PARAM_GET_FIXED_ADDR (snd (last g))"
    using W(4) [OF lg] hw(4) by simp_all
  show ?thesis using s unfolding bytes h by (intro exI [of _ b1] exI [of _ s]) simp
qed

theorem txXfer_burst_on_bus_witness:
  "\<exists>b1 s. bd_transact_all (adapter TXN_STATUS_PENDING) [1]
       (demo_bus ((\<lambda>_. demo_sent 0 208 300 xf_fDone 3)(1 := demo_sent 0x1000 200 300 0 0))) = Inr ([TXN_STATUS_COMPLETE], b1) \<and>
     bd_exec (adapter TXN_STATUS_PENDING) 2 b1 = Inr s \<and>
     bd_bus (bd_new (demo_bus ((\<lambda>_. demo_sent 0 208 300 xf_fDone 3)(1 := demo_sent 0x1000 200 300 0 0))) s) =
       addressed False 300 [200, 201, 202, 203, 204, 205, 206, 207, 208, 209, 210, 211, 212, 213, 214, 215]"
proof -
  let ?b = "demo_bus ((\<lambda>_. demo_sent 0 208 300 xf_fDone 3)(1 := demo_sent 0x1000 200 300 0 0))"
  obtain x where x: "xf_reach (\<lambda>_. TXN_STATUS_PENDING) x" "demo_check (Inr x) [demo_burst] [2]"
    "uAggregMaxLen x = 4096" using demo_state by blast
  have g: "demo_burst \<in> set (fst (xf_bursts (xf_trace x)))" using x(2) by (simp add: demo_check_def)
  have l: "uTxDmaBufLen ?b = uAggregMaxLen x" using x(3) by simp
  have u: "txn_bufs (demo_sent w a hw f h) = [(8, a), (0, 0), (0, 0), (0, 0)]" "uTxnParams (demo_sent w a hw f h) = w"
    "(demo_sent w a hw f h)\<lparr>uHwAddr := 300\<rparr> = demo_sent w a 300 f h" for w a hw f h
    by (simp_all add: demo_sent_def txn_bufs_def MAX_XFER_BUFS_def)
  have t: "\<forall>(k, t) \<in> set demo_burst. Suc k \<noteq> 0 \<and> bd_txns ?b (Suc k) = t\<lparr>uHwAddr := 300\<rparr> \<and>
      TXN_PARAM_GET_DIRECTION t = TXN_DIRECTION_WRITE \<and> TXN_PARAM_GET_SINGLE_STEP t = 0 \<and>
      bufs_apart (pTxDmaBuf ?b) (unat (uTxDmaBufLen ?b)) (txn_bufs t)"
    by (simp add: demo_burst_def u txn_get_defs txn_const_defs bufs_apart_def drop_bit_eq_div)
  have nz: "txn_len (snd (last demo_burst)) \<noteq> 0" by (simp add: demo_burst_def txn_len_def u)
  have ad: "\<forall>tr. fst (adapter TXN_STATUS_PENDING tr) \<noteq> TXN_STATUS_ERROR" by (simp add: adapter_def)
  have e: "map (Suc \<circ> fst) (butlast demo_burst) = [1]" "length demo_burst - 1 = 1" "Suc (fst (last demo_burst)) = 2"
    "TXN_PARAM_GET_FIXED_ADDR (snd (last demo_burst)) \<noteq> 0 \<longleftrightarrow> False"
    "concat (map (\<lambda>(k, t). txn_bytes (bd_mem ?b) t) demo_burst) =
       [200, 201, 202, 203, 204, 205, 206, 207, 208, 209, 210, 211, 212, 213, 214, 215]"
    by (simp_all add: demo_burst_def u txn_bytes_def mem_read_def TXN_PARAM_GET_FIXED_ADDR_def upt_rec)
  from txXfer_burst_on_bus [OF x(1) g demo_bus_sel(1,2) l t nz ad, unfolded e] show ?thesis by auto
qed

section \<open>Findings\<close>

text \<open>A burst of 16 packets or more counts itself outside of \<open>aDbgCountPktAggreg\<close>; the limit may be
  set up to \<open>TWD_TX_AGGREG_PKTS_LIMIT_MAX\<close>.\<close>

lemma txXfer_overruns_statistics:
  assumes "length (aDbgCountPktAggreg x) = DBG_MAX_AGGREG_PKTS" "xf_chain (xf_blks x) (pAggregFirstPkt x) ks" "distinct ks"
    "unat (uAggregPktsNum x) = length ks" "16 \<le> length ks"
  shows "txXfer_SendAggregatedPkts twif b x = Inl OutOfBounds"
proof -
  obtain st x1 B where x1: "txXfer_SendPkts twif (length ks) (pAggregFirstPkt x) TXN_STATUS_COMPLETE x = Inr (st, x1)"
    "x1 = x\<lparr>xf_blks := B, xf_trace := xf_trace x1\<rparr>" using SendPkts_run [OF assms(2,3), of twif TXN_STATUS_COMPLETE] by blast
  have "aDbgCountPktAggreg x1 = aDbgCountPktAggreg x" by (subst x1(2)) simp
  then have "length (aDbgCountPktAggreg x1) \<le> length ks" using assms(1,5) by (simp add: DBG_MAX_AGGREG_PKTS_def)
  then show ?thesis by (simp add: txXfer_SendAggregatedPkts_def Let_def assms(4) x1(1))
qed

text \<open>With the default limit, 0, the completion callback reports nothing, though a packet is sent at once
  and its sender told to wait.\<close>

lemma txXfer_default_limit_unreported:
  assumes "uAggregMaxPkts x = TWD_TX_AGGREG_PKTS_LIMIT_DEF"
  shows "txXfer_TransferDoneCb k x = Inr x"
  using assms by (simp add: txXfer_TransferDoneCb_def TWD_TX_AGGREG_PKTS_LIMIT_DEF_def)

end
