(* ===== verification/SdioBusDrvDone.thy ===== *)
theory SdioBusDrvDone
  imports SdioBusDrvProps
begin

text \<open>
  The completion of a transaction by the SDIO bus driver: how often \<open>fTxnDoneCb\<close> is called and what
  \<open>busDrv_Transact\<close> returns, for all transactions, those for the ELP register with their second attempt
  included, for every answer of the adapter, and with the adapter's callback before or after the return of
  \<open>busDrv_Transact\<close>.
\<close>

section \<open>Sending\<close>

definition bd_dones :: "bd_event list \<Rightarrow> nat" where
  "bd_dones es = length (filter (\<lambda>e. case e of BusTxnDone f h x \<Rightarrow> True | _ \<Rightarrow> False) es)"

definition bd_pended :: "bd_event list \<Rightarrow> bool" where
  "bd_pended es = list_ex bd_late es"

lemma bd_dones_simps [simp]:
  "bd_dones [] = 0" "bd_dones (es @ fs) = bd_dones es + bd_dones fs"
  "bd_dones (e # es) = (case e of BusTxnDone f h x \<Rightarrow> 1 | _ \<Rightarrow> 0) + bd_dones es"
  by (simp_all add: bd_dones_def split: bd_event.split)

lemma bd_pended_simps [simp]:
  "\<not> bd_pended []" "bd_pended (es @ fs) \<longleftrightarrow> bd_pended es \<or> bd_pended fs" "bd_pended (e # es) \<longleftrightarrow> bd_late e \<or> bd_pended es"
  by (simp_all add: bd_pended_def)

lemma late_pended: "es \<noteq> [] \<Longrightarrow> bd_late (last es) \<Longrightarrow> bd_pended es"
  by (auto simp: bd_pended_def list_ex_iff)

text \<open>A part that is read fits the Rx DMA buffer.\<close>

definition bd_part_fits :: "TBusDrvObj \<Rightarrow> TTxnPart \<Rightarrow> bool" where
  "bd_part_fits b p \<longleftrightarrow> pHostAddr p + unat (uLength p) \<le> pRxDmaBuf b + unat (uRxDmaBufLen b)"

lemma Sdio_answers:
  assumes "TXN_PARAM_GET_DIRECTION t = TXN_DIRECTION_WRITE \<or> bd_part_fits b p"
  shows "\<exists>st d m. busDrv_Sdio sdio ev t p b = Inr (st, b\<lparr>bd_mem := m, bd_trace := bd_trace b @ [ev d st]\<rparr>)"
proof (cases "TXN_PARAM_GET_DIRECTION t = TXN_DIRECTION_WRITE")
  case True
  show ?thesis
    by (rule exI [of _ "fst (sdio (bd_trace b))"], rule exI [of _ "mem_read (bd_mem b) (pHostAddr p) (unat (uLength p))"],
        rule exI [of _ "bd_mem b"]) (simp add: True busDrv_Sdio_def Let_def bd_emit_def)
next
  case False
  let ?d = "map (snd (sdio (bd_trace b))) [0..<unat (uLength p)]"
  have "\<not> pRxDmaBuf b + unat (uRxDmaBufLen b) < pHostAddr p + unat (uLength p)"
    using assms False by (simp add: bd_part_fits_def)
  then show ?thesis using False
    by (intro exI [of _ "fst (sdio (bd_trace b))"] exI [of _ ?d] exI [of _ "mem_write (pHostAddr p) ?d (bd_mem b)"])
      (simp add: busDrv_Sdio_def Let_def bd_emit_def)
qed

text \<open>A part is answered by one call of the adapter, or by two for the ELP register.\<close>

lemma SendPart_answers:
  assumes f: "TXN_PARAM_GET_DIRECTION t = TXN_DIRECTION_WRITE \<or> bd_part_fits b p"
  shows "\<exists>st m es. busDrv_SendPart sdio t p b = Inr (st, b\<lparr>bd_mem := m, bd_trace := bd_trace b @ es\<rparr>) \<and> es \<noteq> [] \<and>
    bd_dones es = 0 \<and> (bd_pended es \<longleftrightarrow> st = TXN_STATUS_PENDING) \<and> (bd_late (last es) \<longleftrightarrow> st = TXN_STATUS_PENDING)"
proof (cases "TXN_PARAM_GET_SINGLE_STEP t = 0")
  case True
  obtain st d m where "busDrv_SendPart sdio t p b = Inr (st, b\<lparr>bd_mem := m, bd_trace := bd_trace b @
      [SdioTransact (TXN_PARAM_GET_FUNC_ID t) p (TXN_PARAM_GET_DIRECTION t) (TXN_PARAM_GET_FIXED_ADDR t \<noteq> 1) d st]\<rparr>)"
    using Sdio_answers [OF f, of sdio "SdioTransact (TXN_PARAM_GET_FUNC_ID t) p (TXN_PARAM_GET_DIRECTION t)
      (TXN_PARAM_GET_FIXED_ADDR t \<noteq> 1)"] True by (auto simp: busDrv_SendPart_def)
  then show ?thesis by (intro exI conjI) (assumption | simp)+
next
  case False
  let ?ev = "SdioBytes p (TXN_PARAM_GET_DIRECTION t)"
  obtain st d m where 1: "busDrv_Sdio sdio ?ev t p b = Inr (st, b\<lparr>bd_mem := m, bd_trace := bd_trace b @ [?ev d st]\<rparr>)"
    using Sdio_answers [OF f] by blast
  let ?b = "b\<lparr>bd_mem := m, bd_trace := bd_trace b @ [?ev d st]\<rparr>"
  have f2: "TXN_PARAM_GET_DIRECTION t = TXN_DIRECTION_WRITE \<or> bd_part_fits ?b p" using f by (simp add: bd_part_fits_def)
  obtain st2 d2 m2 where 2: "busDrv_Sdio sdio ?ev t p ?b = Inr (st2, ?b\<lparr>bd_mem := m2, bd_trace := bd_trace ?b @ [?ev d2 st2]\<rparr>)"
    using Sdio_answers [OF f2] by blast
  show ?thesis
  proof (cases "st = TXN_STATUS_ERROR")
    case True
    then have "busDrv_SendPart sdio t p b = Inr (st2, b\<lparr>bd_mem := m2, bd_trace := bd_trace b @ [?ev d st, ?ev d2 st2]\<rparr>)"
      using False 1 2 by (simp add: busDrv_SendPart_def)
    then show ?thesis using True by (intro exI conjI) (assumption | simp)+
  next
    case ok: False
    then have "busDrv_SendPart sdio t p b = Inr (st, b\<lparr>bd_mem := m, bd_trace := bd_trace b @ [?ev d st]\<rparr>)"
      using False 1 by (simp add: busDrv_SendPart_def)
    then show ?thesis by (intro exI conjI) (assumption | simp)+
  qed
qed

text \<open>A transaction whose parts are prepared. \<open>tr\<close>: the trace before it; \<open>es\<close>: what it has put there.\<close>

definition bd_ready :: "TBusDrvObj \<Rightarrow> bool" where
  "bd_ready b \<longleftrightarrow> bd_fTxnDoneCb b \<noteq> 0 \<and> bd_pCurrTxn b \<noteq> 0 \<and> unat (uCurrTxnPartsNum b) \<le> length (aTxnParts b) \<and>
     (TXN_PARAM_GET_DIRECTION (bd_txns b (bd_pCurrTxn b)) = TXN_DIRECTION_WRITE \<or>
      (\<forall>i < unat (uCurrTxnPartsNum b). bd_part_fits b (aTxnParts b ! i)))"

definition bd_sending :: "bd_event list \<Rightarrow> TBusDrvObj \<Rightarrow> bd_event list \<Rightarrow> bool" where
  "bd_sending tr b es \<longleftrightarrow> bd_ready b \<and> bd_trace b = tr @ es \<and> bd_dones es = 0 \<and>
     uCurrTxnPartsCountSync b \<le> uCurrTxnPartsCount b \<and> uCurrTxnPartsCount b \<le> uCurrTxnPartsNum b \<and>
     (uCurrTxnPartsCountSync b = uCurrTxnPartsCount b \<longleftrightarrow> \<not> bd_pended es)"

text \<open>The adapter will call back; all is over.\<close>

definition bd_paused :: "bd_event list \<Rightarrow> TBusDrvObj \<Rightarrow> bd_event list \<Rightarrow> bool" where
  "bd_paused tr b es \<longleftrightarrow> bd_sending tr b es \<and> es \<noteq> [] \<and> bd_late (last es) \<and> eCurrTxnStatus b = TXN_STATUS_PENDING"

definition bd_closed :: "bd_event list \<Rightarrow> TBusDrvObj \<Rightarrow> bd_event list \<Rightarrow> bool" where
  "bd_closed tr b es \<longleftrightarrow> bd_trace b = tr @ es \<and> es \<noteq> [] \<and> \<not> bd_late (last es) \<and> bd_dones es = of_bool (bd_pended es)"

lemma paused_waiting: "bd_paused tr b es \<Longrightarrow> bd_waiting b"
  by (simp add: bd_paused_def bd_sending_def bd_waiting_def)

lemma closed_not_waiting: "bd_closed tr b es \<Longrightarrow> \<not> bd_waiting b"
  by (simp add: bd_closed_def bd_waiting_def)

text \<open>The report at the end, after the last part or a failed one.\<close>

lemma Report_closes:
  assumes s: "bd_sending tr b es" and e: "es \<noteq> []" and b': "bd_trace b' = bd_trace b" "bd_fTxnDoneCb b' = bd_fTxnDoneCb b"
    "uCurrTxnPartsCount b' = uCurrTxnPartsCount b" "uCurrTxnPartsCountSync b' = uCurrTxnPartsCountSync b"
    "eCurrTxnStatus b' = eCurrTxnStatus b"
  shows "\<exists>s fs. busDrv_Report b' = Inr s \<and> bd_closed tr s fs \<and> (bd_pended fs \<longleftrightarrow> bd_pended es) \<and> eCurrTxnStatus s = eCurrTxnStatus b"
proof (cases "bd_pended es")
  case False
  then have "\<not> bd_late (last es)" using e late_pended by blast
  then show ?thesis using s e b' False
    by (intro exI [of _ b'] exI [of _ es]) (simp add: busDrv_Report_def bd_sending_def bd_closed_def)
next
  case True
  let ?e = "BusTxnDone (bd_fTxnDoneCb b') (bd_hCbHandle b') (bd_pCurrTxn b')"
  show ?thesis using s b' True
    by (intro exI [of _ "bd_emit ?e b'"] exI [of _ "es @ [?e]"])
      (simp add: busDrv_Report_def bd_sending_def bd_closed_def bd_ready_def)
qed

lemma ready_cong:
  assumes "bd_fTxnDoneCb b' = bd_fTxnDoneCb b" "bd_pCurrTxn b' = bd_pCurrTxn b" "uCurrTxnPartsNum b' = uCurrTxnPartsNum b"
    "aTxnParts b' = aTxnParts b" "pRxDmaBuf b' = pRxDmaBuf b" "uRxDmaBufLen b' = uRxDmaBufLen b" "bd_txns b' = bd_txns b"
  shows "bd_ready b' = bd_ready b"
  using assms by (simp add: bd_ready_def bd_part_fits_def)

text \<open>\<open>busDrv_SendTxnParts\<close> returns, with the transaction paused or over.\<close>

lemma Send_ends:
  "bd_sending tr b es \<Longrightarrow> uCurrTxnPartsCount b < uCurrTxnPartsNum b \<or> es \<noteq> [] \<Longrightarrow>
   \<exists>s fs. busDrv_SendTxnParts sdio b = Inr s \<and>
     (bd_paused tr s fs \<or>
      bd_closed tr s fs \<and> (bd_pended fs \<longleftrightarrow> bd_pended es) \<and>
        (eCurrTxnStatus s \<noteq> TXN_STATUS_PENDING \<or> \<not> uCurrTxnPartsCount b < uCurrTxnPartsNum b \<and> eCurrTxnStatus s = eCurrTxnStatus b))"
proof (induction "unat (uCurrTxnPartsNum b) - unat (uCurrTxnPartsCount b)" arbitrary: b es rule: less_induct)
  case less
  note S = less.prems(1) [unfolded bd_sending_def]
  let ?t = "bd_txns b (bd_pCurrTxn b)"
  have x: "bd_pCurrTxn b \<noteq> 0" using S by (simp add: bd_ready_def)
  show ?case
  proof (cases "uCurrTxnPartsCount b < uCurrTxnPartsNum b")
    case False
    then have e: "es \<noteq> []" using less.prems(2) by blast
    let ?b = "bd_copied ?t b"
    have c: "bd_trace ?b = bd_trace b" "bd_fTxnDoneCb ?b = bd_fTxnDoneCb b" "uCurrTxnPartsCount ?b = uCurrTxnPartsCount b"
      "uCurrTxnPartsCountSync ?b = uCurrTxnPartsCountSync b" "eCurrTxnStatus ?b = eCurrTxnStatus b"
      by (simp_all add: bd_copied_def)
    obtain s fs where "busDrv_Report ?b = Inr s" "bd_closed tr s fs" "bd_pended fs \<longleftrightarrow> bd_pended es" "eCurrTxnStatus s = eCurrTxnStatus b"
      using Report_closes [OF less.prems(1) e c] by blast
    moreover have "busDrv_SendTxnParts sdio b = busDrv_Report ?b"
      using x False by (subst busDrv_SendTxnParts.simps) (simp add: bd_copied_def)
    ultimately show ?thesis using False by auto
  next
    case True
    let ?n = "unat (uCurrTxnPartsCount b)"
    let ?b = "b\<lparr>uCurrTxnPartsCount := uCurrTxnPartsCount b + 1, eCurrTxnStatus := TXN_STATUS_PENDING\<rparr>"
    have n: "?n < unat (uCurrTxnPartsNum b)" "?n < length (aTxnParts b)"
      using True S by (auto simp: bd_ready_def word_less_nat_alt)
    then have "TXN_PARAM_GET_DIRECTION ?t = TXN_DIRECTION_WRITE \<or> bd_part_fits ?b (aTxnParts b ! ?n)"
      using S by (auto simp: bd_ready_def bd_part_fits_def)
    from SendPart_answers [OF this, of sdio] obtain st m fs where z:
      "busDrv_SendPart sdio ?t (aTxnParts b ! ?n) ?b = Inr (st, ?b\<lparr>bd_mem := m, bd_trace := bd_trace ?b @ fs\<rparr>)" "fs \<noteq> []"
      "bd_dones fs = 0" "bd_pended fs \<longleftrightarrow> st = TXN_STATUS_PENDING" "bd_late (last fs) \<longleftrightarrow> st = TXN_STATUS_PENDING" by blast
    define b1 where "b1 = ?b\<lparr>bd_mem := m, bd_trace := bd_trace ?b @ fs\<rparr>"
    define b2 where "b2 = b1\<lparr>eCurrTxnStatus := st, uCurrTxnPartsCountSync := uCurrTxnPartsCountSync b1 + 1\<rparr>"
    have u: "busDrv_SendTxnParts sdio b = (if st = TXN_STATUS_PENDING then Inr b1
        else if st = TXN_STATUS_ERROR then busDrv_Report (bd_set_error b2) else busDrv_SendTxnParts sdio b2)"
      using x True z(1) n(2) by (subst busDrv_SendTxnParts.simps) (simp add: Let_def b1_def b2_def)
    have rd: "bd_ready b1" "bd_ready b2" using S ready_cong [of b1 b] ready_cong [of b2 b] by (simp_all add: b1_def b2_def)
    have up: "unat (uCurrTxnPartsCount b + 1) = ?n + 1" using unat_plus_one [OF n(1)] by simp
    then have le: "uCurrTxnPartsCount b + 1 \<le> uCurrTxnPartsNum b" "uCurrTxnPartsCountSync b \<le> uCurrTxnPartsCount b + 1"
      "uCurrTxnPartsCountSync b \<noteq> uCurrTxnPartsCount b + 1"
      using n(1) S by (auto simp: word_le_nat_alt)
    have "uCurrTxnPartsCountSync b < uCurrTxnPartsNum b" using S True order_le_less_trans by blast
    from unat_plus_one [OF this [unfolded word_less_nat_alt]] have le2: "uCurrTxnPartsCountSync b + 1 \<le> uCurrTxnPartsCount b + 1"
      using S up by (simp add: word_le_nat_alt)
    consider (p) "st = TXN_STATUS_PENDING" | (e) "st = TXN_STATUS_ERROR" | (c) "st \<noteq> TXN_STATUS_PENDING" "st \<noteq> TXN_STATUS_ERROR" by blast
    then show ?thesis
    proof cases
      case p
      have "bd_paused tr b1 (es @ fs)"
        using S z(2-5) p rd(1) le by (simp add: bd_paused_def bd_sending_def b1_def)
      then show ?thesis using u p by (intro exI [of _ b1] exI [of _ "es @ fs"]) simp
    next
      case e
      have "bd_sending tr b2 (es @ fs)"
        using S z(2-5) e rd(2) le(1) le2 by (simp add: bd_sending_def b2_def b1_def)
      moreover have "es @ fs \<noteq> []" using z(2) by simp
      ultimately obtain s gs where "busDrv_Report (bd_set_error b2) = Inr s"
        "bd_closed tr s gs" "bd_pended gs \<longleftrightarrow> bd_pended (es @ fs)" "eCurrTxnStatus s = eCurrTxnStatus b2"
        using Report_closes [of tr b2 "es @ fs" "bd_set_error b2"] by (auto simp: bd_set_error_def)
      then show ?thesis using u e z(4) by (intro exI [of _ s] exI [of _ gs]) (simp add: b2_def)
    next
      case c
      have sn: "bd_sending tr b2 (es @ fs)"
        using S z(2-5) c rd(2) le(1) le2 by (simp add: bd_sending_def b2_def b1_def)
      have dec: "unat (uCurrTxnPartsNum b2) - unat (uCurrTxnPartsCount b2) < unat (uCurrTxnPartsNum b) - ?n"
        using up n(1) by (simp add: b2_def b1_def)
      have "es @ fs \<noteq> []" using z(2) by simp
      then obtain s gs where s: "busDrv_SendTxnParts sdio b2 = Inr s"
        "bd_paused tr s gs \<or> bd_closed tr s gs \<and> (bd_pended gs \<longleftrightarrow> bd_pended (es @ fs)) \<and>
          (eCurrTxnStatus s \<noteq> TXN_STATUS_PENDING \<or> \<not> uCurrTxnPartsCount b2 < uCurrTxnPartsNum b2 \<and> eCurrTxnStatus s = eCurrTxnStatus b2)"
        using less.hyps [OF dec sn] by blast
      have "eCurrTxnStatus b2 = st" by (simp add: b2_def)
      then show ?thesis using u c s z(4) by (intro exI [of _ s] exI [of _ gs]) auto
    qed
  qed
qed

section \<open>Runs\<close>

text \<open>A run of the transaction \<open>x\<close>: \<open>r\<close> is what \<open>busDrv_Transact\<close> has returned, \<open>None\<close> while it has not.
  After its last call of the adapter the code reads \<open>eCurrTxnStatus\<close> and returns it; the adapter may call
  \<open>busDrv_TxnDoneCb\<close> after that or before it (\<open>early\<close>), as the comment in \<open>busDrv_SendTxnParts\<close> expects
  (a callback within the adapter's call comes to the same, as nothing is written between a late answer and the
  return).\<close>

inductive bd_run :: "sdio_adapter \<Rightarrow> addr \<Rightarrow> TBusDrvObj \<Rightarrow> bool \<Rightarrow> ETxnStatus option \<Rightarrow> TBusDrvObj \<Rightarrow> bool" for sdio x b where
  bd_run_send: "busDrv_Transact sdio x b = Inr (st, s) \<Longrightarrow> bd_run sdio x b False None s"
| bd_run_return: "bd_run sdio x b early None s \<Longrightarrow> bd_run sdio x b early (Some (eCurrTxnStatus s)) s"
| bd_run_done: "bd_run sdio x b early r s \<Longrightarrow> bd_waiting s \<Longrightarrow> busDrv_TxnDoneCb sdio bOk s = Inr s' \<Longrightarrow>
    bd_run sdio x b (early \<or> r = None) r s'"

lemma Transact_ready:
  assumes "bd_conn b" "x \<noteq> 0" "bd_room b (bd_txns b x)" "TXN_PARAM_GET_AGGREGATE (bd_txns b x) \<noteq> TXN_AGGREGATE_ON"
    and "0 < unat (uTxnLength b) + txn_len (bd_txns b x)"
  obtains b0 where "bd_sending (bd_trace b) b0 []" "uCurrTxnPartsCount b0 < uCurrTxnPartsNum b0"
    "busDrv_Transact sdio x b = (case busDrv_SendTxnParts sdio b0 of Inl f \<Rightarrow> Inl f | Inr b \<Rightarrow> Inr (eCurrTxnStatus b, b))"
proof -
  let ?t = "TXN_PARAM_SET_STATUS (bd_txns b x) TXN_PARAM_STATUS_OK"
  have f: "bd_room b ?t" "TXN_PARAM_GET_AGGREGATE ?t \<noteq> TXN_AGGREGATE_ON" "0 < unat (uTxnLength b) + txn_len ?t"
    using assms(3-5) by simp_all
  obtain b0 ps where b0:
    "bd_set b0 ?t (bd_dma b ?t) ps" "bd_ran b0 ?t (bd_dma b ?t) ps [] b0" "ps \<noteq> []" "bd_trace b0 = bd_trace b"
    "busDrv_Transact sdio x b = (case busDrv_SendTxnParts sdio b0 of Inl f \<Rightarrow> Inl f | Inr b \<Rightarrow> Inr (eCurrTxnStatus b, b))"
    using Transact_sets [OF assms(1,2) refl f, of sdio] by blast
  have g: "take (length ps) (aTxnParts b0) = ps" "length ps \<le> 2" "uCurrTxnPartsNum b0 = of_nat (length ps)"
    using b0(1) by (simp_all add: bd_set_def)
  have num: "unat (uCurrTxnPartsNum b0) = length ps" using g(2,3) by (simp add: unsigned_of_nat take_bit_nat_eq_self)
  have len: "length ps \<le> length (aTxnParts b0)" using g(1) by (metis length_take min.absorb_iff2 min.commute)
  have "bd_part_fits b0 (aTxnParts b0 ! i)" if i: "i < length ps" and w: "TXN_PARAM_GET_DIRECTION ?t \<noteq> TXN_DIRECTION_WRITE" for i
  proof -
    have d: "bd_dma b ?t = pRxDmaBuf b0" "parts_len ps \<le> unat (uRxDmaBufLen b0)" "parts_chain (bd_dma b ?t) ps"
      using b0(1) w unfolding bd_set_def by blast+
    have p: "aTxnParts b0 ! i = ps ! i" using g(1) i by (metis nth_take)
    have "parts_len (take i ps) + unat (uLength (ps ! i)) = parts_len (take (Suc i) ps)" using i by (simp add: take_Suc_conv_app_nth)
    also have "\<dots> \<le> parts_len ps" by (rule parts_len_take)
    finally show ?thesis unfolding bd_part_fits_def p using chain_nth [OF d(3) i] d(1,2) by simp
  qed
  then have "bd_ready b0" using b0(1) len num by (auto simp: bd_ready_def bd_set_def)
  moreover have "uCurrTxnPartsCount b0 = 0" "uCurrTxnPartsCountSync b0 = 0" using b0(2) by (simp_all add: bd_ran_def)
  ultimately have "bd_sending (bd_trace b) b0 []" using b0(4) by (simp add: bd_sending_def)
  moreover have "uCurrTxnPartsCount b0 < uCurrTxnPartsNum b0"
    using b0(3) num \<open>uCurrTxnPartsCount b0 = 0\<close> by (simp add: word_less_nat_alt)
  ultimately show thesis using b0(5) that by blast
qed

text \<open>Where a run is.\<close>

definition bd_stage :: "bd_event list \<Rightarrow> bool \<Rightarrow> ETxnStatus option \<Rightarrow> TBusDrvObj \<Rightarrow> bool" where
  "bd_stage tr early r s \<longleftrightarrow>
     (\<exists>es. bd_paused tr s es \<and> (r = None \<or> r = Some TXN_STATUS_PENDING) \<or>
       bd_closed tr s es \<and>
         (early \<or> (case r of None \<Rightarrow> \<not> bd_pended es \<and> eCurrTxnStatus s \<noteq> TXN_STATUS_PENDING
            | Some st \<Rightarrow> st = TXN_STATUS_PENDING \<longleftrightarrow> bd_pended es)))"

lemma Transact_stage:
  assumes "bd_conn b" "x \<noteq> 0" "bd_room b (bd_txns b x)" "TXN_PARAM_GET_AGGREGATE (bd_txns b x) \<noteq> TXN_AGGREGATE_ON"
    and "0 < unat (uTxnLength b) + txn_len (bd_txns b x)"
  shows "\<exists>s. busDrv_Transact sdio x b = Inr (eCurrTxnStatus s, s) \<and> bd_stage (bd_trace b) False None s"
proof -
  obtain b0 where b0: "bd_sending (bd_trace b) b0 []" "uCurrTxnPartsCount b0 < uCurrTxnPartsNum b0"
    "busDrv_Transact sdio x b = (case busDrv_SendTxnParts sdio b0 of Inl f \<Rightarrow> Inl f | Inr b \<Rightarrow> Inr (eCurrTxnStatus b, b))"
    by (rule Transact_ready [OF assms])
  from Send_ends [OF b0(1), of sdio] b0(2) obtain s fs where "busDrv_SendTxnParts sdio b0 = Inr s"
    "bd_paused (bd_trace b) s fs \<or> bd_closed (bd_trace b) s fs \<and> \<not> bd_pended fs \<and> eCurrTxnStatus s \<noteq> TXN_STATUS_PENDING" by auto
  then show ?thesis using b0(3) by (auto simp: bd_stage_def)
qed

lemma TxnDoneCb_stage:
  assumes p: "bd_paused tr s es" and r: "r = None \<or> r = Some TXN_STATUS_PENDING" and d: "busDrv_TxnDoneCb sdio bOk s = Inr s'"
  shows "bd_stage tr (early \<or> r = None) r s'"
proof -
  have S: "bd_sending tr s es" "es \<noteq> []" "bd_late (last es)" using p by (simp_all add: bd_paused_def)
  then have pend: "bd_pended es" and x: "bd_pCurrTxn s \<noteq> 0" by (simp_all add: late_pended bd_sending_def bd_ready_def)
  have "\<exists>fs. bd_paused tr s' fs \<or> bd_closed tr s' fs \<and> bd_pended fs"
  proof (cases bOk)
    case True
    then have "busDrv_SendTxnParts sdio s = Inr s'" using d x by (simp add: busDrv_TxnDoneCb_def)
    then show ?thesis using Send_ends [OF S(1), of sdio] S(2) pend by auto
  next
    case False
    let ?e = "BusTxnDone (bd_fTxnDoneCb s) (bd_hCbHandle s) (bd_pCurrTxn s)"
    have "bd_trace s' = bd_trace s @ [?e]"
      using d x False by (auto simp: busDrv_TxnDoneCb_def bd_set_error_def split: if_splits)
    then have "bd_closed tr s' (es @ [?e])" using S(1) pend by (simp add: bd_closed_def bd_sending_def)
    then show ?thesis using pend by auto
  qed
  then show ?thesis using r by (auto simp: bd_stage_def)
qed

lemma run_stage:
  assumes "bd_conn b" "x \<noteq> 0" "bd_room b (bd_txns b x)" "TXN_PARAM_GET_AGGREGATE (bd_txns b x) \<noteq> TXN_AGGREGATE_ON"
    and "0 < unat (uTxnLength b) + txn_len (bd_txns b x)"
  shows "bd_run sdio x b early r s \<Longrightarrow> bd_stage (bd_trace b) early r s"
proof (induction rule: bd_run.induct)
  case (bd_run_send st s)
  then show ?case using Transact_stage [OF assms, of sdio] by auto
next
  case (bd_run_return early s)
  then show ?case by (auto simp: bd_stage_def bd_paused_def)
next
  case (bd_run_done early r s bOk s')
  then obtain es where "bd_paused (bd_trace b) s es" "r = None \<or> r = Some TXN_STATUS_PENDING"
    using closed_not_waiting by (auto simp: bd_stage_def)
  then show ?case by (rule TxnDoneCb_stage [OF _ _ bd_run_done.hyps(3)])
qed

text \<open>The end of the transaction that a returned status tells.\<close>

definition bd_told :: "ETxnStatus option \<Rightarrow> nat" where
  "bd_told r = (case r of None \<Rightarrow> 0 | Some st \<Rightarrow> of_bool (st \<noteq> TXN_STATUS_PENDING))"

text \<open>C24: A transaction is completed exactly once. Let a transaction with bytes to send that fits the DMA buffer and
  is not inside an aggregation be given, for the ELP register (with its second attempt) or not. busDrv_Transact
  returns; and along every run, whatever the adapter answers and reports, the completion callback has been made
  once if an answer came late and the adapter is not waited for any more, and not at all otherwise. If the adapter
  does not call back before busDrv_Transact has returned, then after that the end of the transaction is told once,
  by a returned status other than PENDING or by the callback, as soon as the adapter is not waited for, and not
  before.\<close>

theorem busDrv_completes_once:
  assumes "bd_conn b" "x \<noteq> 0" "bd_room b (bd_txns b x)" "TXN_PARAM_GET_AGGREGATE (bd_txns b x) \<noteq> TXN_AGGREGATE_ON"
    and "0 < unat (uTxnLength b) + txn_len (bd_txns b x)" "bd_run sdio x b early r s"
  shows "(\<exists>st s0. busDrv_Transact sdio x b = Inr (st, s0)) \<and>
    bd_dones (bd_new b s) = of_bool (bd_pended (bd_new b s) \<and> \<not> bd_waiting s) \<and>
    (\<not> early \<longrightarrow> bd_told r + bd_dones (bd_new b s) = of_bool (r \<noteq> None \<and> \<not> bd_waiting s))"
proof -
  obtain es where es: "bd_paused (bd_trace b) s es \<and> (r = None \<or> r = Some TXN_STATUS_PENDING) \<or>
       bd_closed (bd_trace b) s es \<and>
         (early \<or> (case r of None \<Rightarrow> \<not> bd_pended es \<and> eCurrTxnStatus s \<noteq> TXN_STATUS_PENDING
            | Some st \<Rightarrow> st = TXN_STATUS_PENDING \<longleftrightarrow> bd_pended es))"
    using run_stage [OF assms] unfolding bd_stage_def by blast
  have n: "bd_new b s = es" using es by (auto simp: bd_new_def bd_paused_def bd_sending_def bd_closed_def)
  have "bd_dones es = of_bool (bd_pended es \<and> \<not> bd_waiting s) \<and>
    (\<not> early \<longrightarrow> bd_told r + bd_dones es = of_bool (r \<noteq> None \<and> \<not> bd_waiting s))"
  proof (cases "bd_waiting s")
    case True
    then have "bd_paused (bd_trace b) s es" "r = None \<or> r = Some TXN_STATUS_PENDING" using es closed_not_waiting by blast+
    then show ?thesis using True by (auto simp: bd_paused_def bd_sending_def bd_told_def)
  next
    case False
    then have "bd_closed (bd_trace b) s es" "early \<or> (case r of None \<Rightarrow> \<not> bd_pended es \<and> eCurrTxnStatus s \<noteq> TXN_STATUS_PENDING
            | Some st \<Rightarrow> st = TXN_STATUS_PENDING \<longleftrightarrow> bd_pended es)" using es paused_waiting by blast+
    then show ?thesis using False by (auto simp: bd_closed_def bd_told_def split: option.splits)
  qed
  then show ?thesis using Transact_stage [OF assms(1-5), of sdio] unfolding n by blast
qed

text \<open>A driver with blocks of two bytes, a transaction of three, and an adapter that answers the first call late: one
  part of a byte and one of a block.\<close>

definition demo_two :: "u32 \<Rightarrow> TBusDrvObj" where
  "demo_two w = snd (busDrv_ConnectBus 5 6 1 True (1000, 64) (2000, 64)
     (the (busDrv_Create True (\<lambda>i. of_nat i) (\<lambda>_. demo_bus_txn w 3 8))))"

definition adapter_two :: sdio_adapter where
  "adapter_two = (\<lambda>tr. (if tr = [] then TXN_STATUS_PENDING else TXN_STATUS_COMPLETE, \<lambda>i. of_nat i))"

definition demo_two_sent :: "u32 \<Rightarrow> TBusDrvObj" where
  "demo_two_sent w = snd (projr (busDrv_Transact adapter_two 1 (demo_two w)))"

definition demo_two_over :: "u32 \<Rightarrow> TBusDrvObj" where
  "demo_two_over w = projr (busDrv_TxnDoneCb adapter_two True (demo_two_sent w))"

lemmas bd_eval = busDrv_Transact_def busDrv_PrepareTxnParts_def busDrv_Parts_def busDrv_SendTxnParts.simps
  busDrv_SendPart_def busDrv_Sdio_def bd_emit_def demo_two_def
  busDrv_ConnectBus_def busDrv_Create_def demo_bus_txn_def txn_bufs_def MAX_XFER_BUFS_def
  MAX_TXN_PARTS_def TTxnStruct_zero_def txn_get_defs txn_const_defs TXN_PARAM_SET_STATUS_def TXN_PARAM_STATUS_OK_def adapter_two_def
  drop_bit_eq_div push_bit_eq_mult

lemma demo_two_run:
  assumes "w = 0 \<or> w = 0x80"
  shows "busDrv_Transact adapter_two 1 (demo_two w) = Inr (TXN_STATUS_PENDING, demo_two_sent w)"
 using assms by (auto simp: demo_two_sent_def bd_eval Let_def)

lemma demo_two_sent_sel:
  assumes "w = 0 \<or> w = 0x80"
  shows "bd_pCurrTxn (demo_two_sent w) = 1"  "uCurrTxnPartsCount (demo_two_sent w) = 1" "uCurrTxnPartsNum (demo_two_sent w) = 2"
   "uCurrTxnPartsCountSync (demo_two_sent w) = 0" "bd_fTxnDoneCb (demo_two_sent w) = 5" "eCurrTxnStatus (demo_two_sent w) = TXN_STATUS_PENDING"
   "length (aTxnParts (demo_two_sent w)) = 20" "TXN_PARAM_GET_DIRECTION (bd_txns (demo_two_sent w) 1) = TXN_DIRECTION_WRITE"
   "\<exists>e. bd_trace (demo_two_sent w) = [e] \<and> bd_late e"
 using assms by (auto simp: demo_two_sent_def bd_eval Let_def bd_late_def)

text \<open>The driver before the callback and after it.\<close>

lemma SendPart_write:
  "TXN_PARAM_GET_DIRECTION t = TXN_DIRECTION_WRITE \<Longrightarrow> st = fst (sdio (bd_trace b)) \<Longrightarrow> st \<noteq> TXN_STATUS_ERROR \<Longrightarrow>
  \<exists>e. busDrv_SendPart sdio t p b = Inr (st, bd_emit e b) \<and> (bd_late e \<longleftrightarrow> st = TXN_STATUS_PENDING) \<and> bd_dones [e] = 0"
  by (auto simp: busDrv_SendPart_def busDrv_Sdio_def Let_def)

lemma demo_two_over_sel:
  assumes w: "w = 0 \<or> w = 0x80"
  shows "busDrv_TxnDoneCb adapter_two True (demo_two_sent w) = Inr (demo_two_over w) \<and> eCurrTxnStatus (demo_two_over w) = TXN_STATUS_COMPLETE \<and>
   bd_dones (bd_trace (demo_two_over w)) = 1 \<and> \<not> bd_waiting (demo_two_over w)"
proof -
  let ?s = "demo_two_sent w"
  note s = demo_two_sent_sel [OF w]
  obtain e0 where e0: "bd_trace ?s = [e0]" "bd_late e0" using s(9) by blast
  let ?b = "?s\<lparr>uCurrTxnPartsCount := 2, eCurrTxnStatus := TXN_STATUS_PENDING\<rparr>"
  have a: "fst (adapter_two (bd_trace ?b)) = TXN_STATUS_COMPLETE" by (simp add: adapter_two_def e0)
  obtain e where e: "busDrv_SendPart adapter_two (bd_txns ?s 1) (aTxnParts ?s ! 1) ?b = Inr (TXN_STATUS_COMPLETE, bd_emit e ?b)"
    "\<not> bd_late e" "bd_dones [e] = 0"
    using SendPart_write [where b = ?b and sdio = adapter_two and p = "aTxnParts ?s ! 1", OF s(8) a [symmetric]] by (auto simp: txn_const_defs)
  let ?c = "(bd_emit e ?b)\<lparr>eCurrTxnStatus := TXN_STATUS_COMPLETE, uCurrTxnPartsCountSync := 1\<rparr>"
  let ?e = "BusTxnDone 5 (bd_hCbHandle ?s) 1"
  have 1: "busDrv_SendTxnParts adapter_two ?s = busDrv_SendTxnParts adapter_two ?c"
    using s e(1) by (subst busDrv_SendTxnParts.simps) (simp add: Let_def)
  have 2: "busDrv_SendTxnParts adapter_two ?c = Inr (bd_emit ?e ?c)"
    using s(1-8) by (subst busDrv_SendTxnParts.simps) (simp add: Let_def busDrv_Report_def txn_const_defs)
  have 3: "demo_two_over w = bd_emit ?e ?c" using 1 2 s(1) by (simp add: demo_two_over_def busDrv_TxnDoneCb_def)
  have d: "bd_dones [e0] = 0" using e0(2) by (cases e0) (simp_all add: bd_late_def)
  show ?thesis using 1 2 3 s(1) e e0 d by (simp add: busDrv_TxnDoneCb_def bd_waiting_def)
qed

lemma demo_two_hyps:
  assumes w: "w = 0 \<or> w = 0x80"
  shows "bd_conn (demo_two w)" "bd_room (demo_two w) (bd_txns (demo_two w) 1)"
    "TXN_PARAM_GET_AGGREGATE (bd_txns (demo_two w) 1) \<noteq> TXN_AGGREGATE_ON"
    "0 < unat (uTxnLength (demo_two w)) + txn_len (bd_txns (demo_two w) 1)"
  using w by (auto simp: demo_two_def bd_conn_def bd_room_def bufs_apart_def txn_len_def txn_get_defs txn_const_defs
      busDrv_ConnectBus_def busDrv_Create_def demo_bus_txn_def txn_bufs_def MAX_XFER_BUFS_def TTxnStruct_zero_def
      MAX_TXN_PARTS_def intro!: exI [of _ "1::nat"])

lemma demo_two_new: "w = 0 \<or> w = 0x80 \<Longrightarrow> bd_new (demo_two w) s = bd_trace s"
  by (simp add: bd_new_def demo_two_def busDrv_ConnectBus_def busDrv_Create_def)

lemma demo_two_waiting: "w = 0 \<or> w = 0x80 \<Longrightarrow> bd_waiting (demo_two_sent w)"
  using demo_two_sent_sel(9) [of w] by (auto simp: bd_waiting_def)

text \<open>A transaction for the ELP register, reported after the return.\<close>

lemma busDrv_completes_once_witness:
  "bd_run adapter_two 1 (demo_two 0x80) False (Some TXN_STATUS_PENDING) (demo_two_over 0x80) \<and>
   bd_dones (bd_new (demo_two 0x80) (demo_two_over 0x80)) = 1"
proof -
  have w: "(0x80::u32) = 0 \<or> (0x80::u32) = 0x80" by simp
  note h = demo_two_hyps [OF w]
  have "bd_run adapter_two 1 (demo_two 0x80) False (Some (eCurrTxnStatus (demo_two_sent 0x80))) (demo_two_sent 0x80)"
    by (rule bd_run_return [OF bd_run_send [OF demo_two_run [OF w]]])
  then have "bd_run adapter_two 1 (demo_two 0x80) (False \<or> Some (eCurrTxnStatus (demo_two_sent 0x80)) = None)
      (Some (eCurrTxnStatus (demo_two_sent 0x80))) (demo_two_over 0x80)"
    by (rule bd_run_done [OF _ demo_two_waiting [OF w] conjunct1 [OF demo_two_over_sel [OF w]]])
  then have r: "bd_run adapter_two 1 (demo_two 0x80) False (Some TXN_STATUS_PENDING) (demo_two_over 0x80)"
    by (simp add: demo_two_sent_sel(6) [OF w])
  from busDrv_completes_once [OF h(1) _ h(2-4) r]
  show ?thesis using r demo_two_over_sel [OF w] by (simp add: bd_told_def)
qed

text \<open>The completion callback may preempt \<open>busDrv_Transact\<close> before it returns: when the late part is followed by one
  that the adapter answers at once, the end of the transaction is told twice, by the callback and by the returned
  status.\<close>

theorem busDrv_preempted_twice:
  "bd_run adapter_two 1 (demo_two 0) True (Some TXN_STATUS_COMPLETE) (demo_two_over 0) \<and>
   bd_dones (bd_new (demo_two 0) (demo_two_over 0)) = 1 \<and> bd_told (Some TXN_STATUS_COMPLETE) = 1"
proof -
  have w: "(0::u32) = 0 \<or> (0::u32) = 0x80" by simp
  note o = demo_two_over_sel [OF w]
  have "bd_run adapter_two 1 (demo_two 0) (False \<or> (None :: ETxnStatus option) = None) None (demo_two_over 0)"
    by (rule bd_run_done [OF bd_run_send [OF demo_two_run [OF w]] demo_two_waiting [OF w] conjunct1 [OF o]])
  then have "bd_run adapter_two 1 (demo_two 0) True None (demo_two_over 0)" by simp
  then have "bd_run adapter_two 1 (demo_two 0) True (Some (eCurrTxnStatus (demo_two_over 0))) (demo_two_over 0)"
    by (rule bd_run_return)
  then show ?thesis using o by (simp add: demo_two_new [OF w] bd_told_def txn_const_defs)
qed

end
