(* ===== verification/TxnQueue.thy ===== *)
theory TxnQueue
  imports TxnTypes Queue
begin

text \<open>
  \<open>Txn/TxnQueue.c\<close>: the queue of bus transactions between the functional drivers (here the
  WLAN driver through TwIf) and the bus driver. Each function has a queue per priority; one
  scheduler hands the transactions to the bus, one at a time, and calls the function back when one
  is complete. The transaction structures lie in the clients' memory (\<open>tq_mem\<close>, by address); the
  queues are the abstract ones of theory \<open>Queue\<close>, with a node in use while its transaction is in one
  of them. Parameters of the model: \<open>bus\<close>, what \<open>busDrv_Transact\<close> returns, and \<open>client\<close>, the
  transactions a function issues from its callback, both functions of everything recorded so far in
  \<open>tq_trace\<close>. A critical section is one step: the calls from the bus driver's context happen between
  the other operations.
\<close>

section \<open>State\<close>

definition MAX_FUNCTIONS :: nat where "MAX_FUNCTIONS = 4"
definition MAX_PRIORITY :: nat where "MAX_PRIORITY = 2"
definition TXN_QUE_SIZE :: u32 where "TXN_QUE_SIZE = 0xFFFFFFFF"
definition TXN_DONE_QUE_SIZE :: u32 where "TXN_DONE_QUE_SIZE = 0xFFFFFFFF"
definition TXN_PARAM_STATUS_RECOVERY :: u32 where "TXN_PARAM_STATUS_RECOVERY = 2"

text \<open>A queue handle: NULL, freed by \<open>que_Destroy\<close> but still stored, or a queue.\<close>

datatype tq_handle = TqNull | TqFreed | TqLive "addr aqueue"

datatype EFuncState = FUNC_STATE_NONE | FUNC_STATE_STOPPED | FUNC_STATE_RUNNING | FUNC_STATE_RESTART

record TFuncInfo =
  eState :: EFuncState
  uNumPrios :: nat
  fTxnQueueDoneCb :: addr
  fi_hCbHandle :: addr
  pSingleStep :: addr

definition func_zero :: TFuncInfo where
  "func_zero = \<lparr>eState = FUNC_STATE_NONE, uNumPrios = 0, fTxnQueueDoneCb = 0, fi_hCbHandle = 0, pSingleStep = 0\<rparr>"

text \<open>What the module does to the outside, and (\<open>Submitted\<close>, \<open>Selected\<close>, \<open>Cleared\<close>, \<open>BusSync\<close>,
  \<open>BusDone\<close>) what the specification of theory \<open>TxnQueueProps\<close> reads: a transaction put into a queue
  and taken out of it, the queues of a function being cleared, the bus driver having completed a
  transaction in the call or later. Nothing in the code reads them.\<close>

datatype tq_event =
    Submitted addr "nat \<times> nat"
  | Selected addr "nat \<times> nat"
  | Cleared nat
  | BusTransact addr
  | BusSync addr
  | BusDone addr
  | TxnDoneCb addr addr addr
  | ConnectCb addr addr

text \<open>The arrays are functions of their indices (\<open>aTxnQueues\<close> of function and priority); an access
  outside \<open>MAX_FUNCTIONS\<close> and \<open>MAX_PRIORITY\<close> is a fault. \<open>pAggregQueue\<close> is the place of the queue it
  points to.\<close>

record TTxnQObj =
  aFuncInfo :: "nat \<Rightarrow> TFuncInfo"
  aTxnQueues :: "nat \<times> nat \<Rightarrow> tq_handle"
  hTxnDoneQueue :: tq_handle
  pCurrTxn :: addr
  uMinFuncId :: nat
  uMaxFuncId :: nat
  bSchedulerBusy :: bool
  bSchedulerPend :: bool
  fConnectCb :: addr
  hConnectCb :: addr
  pAggregQueue :: "(nat \<times> nat) option"
  tq_mem :: "addr \<Rightarrow> TTxnStruct"
  tq_trace :: "tq_event list"

type_synonym tq_bus = "tq_event list \<Rightarrow> ETxnStatus"
type_synonym tq_client = "tq_event list \<Rightarrow> (addr \<times> TTxnStruct) list"

definition tq_emit :: "tq_event \<Rightarrow> TTxnQObj \<Rightarrow> TTxnQObj" where
  "tq_emit e q = q\<lparr>tq_trace := tq_trace q @ [e]\<rparr>"

definition tq_slots :: "(nat \<times> nat) list" where
  "tq_slots = concat (map (\<lambda>f. map (\<lambda>p. (f, p)) [0..<MAX_PRIORITY]) [0..<MAX_FUNCTIONS])"

definition tq_items :: "tq_handle \<Rightarrow> addr list" where
  "tq_items h = (case h of TqLive Q \<Rightarrow> aq_items Q | _ \<Rightarrow> [])"

text \<open>The transactions whose node header is linked.\<close>

definition tq_linked :: "TTxnQObj \<Rightarrow> addr set" where
  "tq_linked q = set (concat (map (\<lambda>s. tq_items (aTxnQueues q s)) tq_slots)) \<union> set (tq_items (hTxnDoneQueue q))"

text \<open>\<open>que_Enqueue\<close> and \<open>que_Dequeue\<close> on one of the queues; for \<open>que_Enqueue\<close> a NULL queue is
  \<open>TI_NOK\<close>.\<close>

definition tq_enq :: "TTxnQObj \<Rightarrow> addr \<Rightarrow> tq_handle \<Rightarrow> fault + ti_status \<times> tq_handle" where
  "tq_enq q x h =
     (case h of
        TqNull \<Rightarrow> Inr (TI_NOK, h)
      | TqFreed \<Rightarrow> Inl UseAfterFree
      | TqLive Q \<Rightarrow> (case aq_Enqueue (x \<in> tq_linked q) x Q of (st, Q) \<Rightarrow> Inr (st, TqLive Q)))"

definition tq_deq :: "tq_handle \<Rightarrow> fault + addr option \<times> tq_handle" where
  "tq_deq h =
     (case h of
        TqNull \<Rightarrow> Inl NullDeref
      | TqFreed \<Rightarrow> Inl UseAfterFree
      | TqLive Q \<Rightarrow> (case aq_Dequeue Q of (x, Q) \<Rightarrow> Inr (x, TqLive Q)))"

definition tq_deq_slot :: "nat \<times> nat \<Rightarrow> TTxnQObj \<Rightarrow> fault + addr option \<times> TTxnQObj" where
  "tq_deq_slot s q =
     (if fst s < MAX_FUNCTIONS \<and> snd s < MAX_PRIORITY then
        (case tq_deq (aTxnQueues q s) of
           Inl f \<Rightarrow> Inl f
         | Inr (x, h) \<Rightarrow>
             (let q = q\<lparr>aTxnQueues := (aTxnQueues q)(s := h)\<rparr> in
              Inr (x, case x of None \<Rightarrow> q | Some a \<Rightarrow> tq_emit (Selected a s) q)))
      else Inl OutOfBounds)"

section \<open>Life cycle\<close>

text \<open>\<open>a\<close> and \<open>b\<close>: what \<open>os_memoryAlloc\<close> and \<open>busDrv_Create\<close> returned; \<open>mem\<close>: the clients' memory.\<close>

definition txnQ_Create :: "addr \<Rightarrow> addr \<Rightarrow> (addr \<Rightarrow> TTxnStruct) \<Rightarrow> TTxnQObj option" where
  "txnQ_Create a b mem =
     (if a = 0 \<or> b = 0 then None
      else Some \<lparr>aFuncInfo = (\<lambda>_. func_zero), aTxnQueues = (\<lambda>_. TqNull), hTxnDoneQueue = TqNull, pCurrTxn = 0,
        uMinFuncId = MAX_FUNCTIONS, uMaxFuncId = 0, bSchedulerBusy = False, bSchedulerPend = False,
        fConnectCb = 0, hConnectCb = 0, pAggregQueue = None, tq_mem = mem, tq_trace = []\<rparr>)"

text \<open>\<open>bQue\<close>: the queue could be allocated.\<close>

definition txnQ_Init :: "bool \<Rightarrow> TTxnQObj \<Rightarrow> TTxnQObj" where
  "txnQ_Init bQue q =
     q\<lparr>hTxnDoneQueue := (if bQue then TqLive (aq_Create TXN_DONE_QUE_SIZE) else TqNull)\<rparr>"

definition txnQ_ConnectBus :: "addr \<Rightarrow> addr \<Rightarrow> TTxnQObj \<Rightarrow> TTxnQObj" where
  "txnQ_ConnectBus f h q = q\<lparr>fConnectCb := f, hConnectCb := h\<rparr>"

definition txnQ_ConnectCB :: "TTxnQObj \<Rightarrow> TTxnQObj" where
  "txnQ_ConnectCB q = tq_emit (ConnectCb (fConnectCb q) (hConnectCb q)) q"

text \<open>The loop that creates the queues; \<open>alloc i\<close> tells whether the \<open>i\<close>-th could be allocated.\<close>

fun txnQ_CreateQueues :: "nat \<Rightarrow> (nat \<Rightarrow> bool) \<Rightarrow> nat \<Rightarrow> nat \<Rightarrow> TTxnQObj \<Rightarrow> ti_status \<times> TTxnQObj" where
  "txnQ_CreateQueues f alloc i 0 q = (TI_OK, q)"
| "txnQ_CreateQueues f alloc i (Suc n) q =
     (if alloc i
      then txnQ_CreateQueues f alloc (i + 1) n
             (q\<lparr>aTxnQueues := (aTxnQueues q)((f, i) := TqLive (aq_Create TXN_QUE_SIZE))\<rparr>)
      else (TI_NOK, q\<lparr>aTxnQueues := (aTxnQueues q)((f, i) := TqNull)\<rparr>))"

definition txnQ_Open ::
  "nat \<Rightarrow> nat \<Rightarrow> addr \<Rightarrow> addr \<Rightarrow> (nat \<Rightarrow> bool) \<Rightarrow> TTxnQObj \<Rightarrow> ti_status \<times> TTxnQObj" where
  "txnQ_Open uFuncId numPrios fCb hCb alloc q =
     (if uFuncId \<ge> MAX_FUNCTIONS \<or> numPrios > MAX_PRIORITY then (TI_NOK, q)
      else
        (let q = tq_emit (Cleared uFuncId) q;
             q = q\<lparr>aFuncInfo := (aFuncInfo q)(uFuncId := (aFuncInfo q uFuncId)
               \<lparr>uNumPrios := numPrios, fTxnQueueDoneCb := fCb, fi_hCbHandle := hCb,
                eState := FUNC_STATE_STOPPED\<rparr>)\<rparr>
         in case txnQ_CreateQueues uFuncId alloc 0 numPrios q of
              (TI_OK, q) \<Rightarrow>
                (TI_OK, q\<lparr>uMinFuncId := (if uFuncId < uMinFuncId q then uFuncId else uMinFuncId q),
                          uMaxFuncId := (if uFuncId > uMaxFuncId q then uFuncId else uMaxFuncId q)\<rparr>)
            | (st, q) \<Rightarrow> (TI_NOK, q)))"

text \<open>\<open>txnQ_Close\<close>: the handles stay behind; the range of open functions is computed anew.\<close>

definition tq_open :: "TTxnQObj \<Rightarrow> nat list" where
  "tq_open q = filter (\<lambda>i. eState (aFuncInfo q i) \<noteq> FUNC_STATE_NONE) [0..<MAX_FUNCTIONS]"

definition txnQ_Close :: "nat \<Rightarrow> TTxnQObj \<Rightarrow> fault + TTxnQObj" where
  "txnQ_Close uFuncId q =
     (if uFuncId \<ge> MAX_FUNCTIONS then Inl OutOfBounds
      else
        (let q = tq_emit (Cleared uFuncId) q;
             n = uNumPrios (aFuncInfo q uFuncId);
             q = q\<lparr>aTxnQueues := (\<lambda>s. if fst s = uFuncId \<and> snd s < n then TqFreed else aTxnQueues q s),
                   aFuncInfo := (aFuncInfo q)(uFuncId := (aFuncInfo q uFuncId)
                     \<lparr>uNumPrios := 0, fTxnQueueDoneCb := 0, fi_hCbHandle := 0, eState := FUNC_STATE_NONE\<rparr>)\<rparr>
         in Inr (q\<lparr>uMinFuncId := foldr min (tq_open q) MAX_FUNCTIONS, uMaxFuncId := foldr max (tq_open q) 0\<rparr>)))"

section \<open>Selecting a transaction\<close>

definition txnQ_SelectAggreg :: "nat \<times> nat \<Rightarrow> TTxnQObj \<Rightarrow> fault + addr option \<times> TTxnQObj" where
  "txnQ_SelectAggreg s q =
     (case tq_deq_slot s q of
        Inl f \<Rightarrow> Inl f
      | Inr (None, q) \<Rightarrow> Inr (None, q)
      | Inr (Some x, q) \<Rightarrow>
          Inr (Some x, if TXN_PARAM_GET_AGGREGATE (tq_mem q x) = TXN_AGGREGATE_OFF
                       then q\<lparr>pAggregQueue := None\<rparr> else q))"

text \<open>The loops over priorities and functions, as a walk over the pairs in the loops' order.\<close>

fun txnQ_SelectQueue :: "(nat \<times> nat) list \<Rightarrow> TTxnQObj \<Rightarrow> fault + addr option \<times> TTxnQObj" where
  "txnQ_SelectQueue [] q = Inr (None, q)"
| "txnQ_SelectQueue (s # ss) q =
     (if eState (aFuncInfo q (fst s)) = FUNC_STATE_RUNNING \<and> uNumPrios (aFuncInfo q (fst s)) > snd s then
        (case tq_deq_slot s q of
           Inl f \<Rightarrow> Inl f
         | Inr (None, q) \<Rightarrow> txnQ_SelectQueue ss q
         | Inr (Some x, q) \<Rightarrow>
             Inr (Some x, if TXN_PARAM_GET_AGGREGATE (tq_mem q x) = TXN_AGGREGATE_ON
                          then q\<lparr>pAggregQueue := Some s\<rparr> else q))
      else txnQ_SelectQueue ss q)"

definition tq_order :: "TTxnQObj \<Rightarrow> (nat \<times> nat) list" where
  "tq_order q = concat (map (\<lambda>p. map (\<lambda>f. (f, p)) [uMinFuncId q..<Suc (uMaxFuncId q)]) [0..<MAX_PRIORITY])"

definition txnQ_SelectTxn :: "TTxnQObj \<Rightarrow> fault + addr option \<times> TTxnQObj" where
  "txnQ_SelectTxn q =
     (case pAggregQueue q of
        Some s \<Rightarrow> txnQ_SelectAggreg s q
      | None \<Rightarrow>
          if uMaxFuncId q \<ge> MAX_FUNCTIONS then Inl OutOfBounds
          else
            (case find (\<lambda>f. pSingleStep (aFuncInfo q f) \<noteq> 0) [uMinFuncId q..<Suc (uMaxFuncId q)] of
               Some f \<Rightarrow>
                 Inr (Some (pSingleStep (aFuncInfo q f)),
                      q\<lparr>aFuncInfo := (aFuncInfo q)(f := (aFuncInfo q f)\<lparr>pSingleStep := 0\<rparr>)\<rparr>)
             | None \<Rightarrow> txnQ_SelectQueue (tq_order q) q))"

section \<open>The scheduler\<close>

text \<open>What can be selected: it shrinks with every selection.\<close>

definition tq_waiting :: "TTxnQObj \<Rightarrow> addr list" where
  "tq_waiting q = concat (map (\<lambda>s. tq_items (aTxnQueues q s)) tq_slots)"

definition tq_backlog :: "TTxnQObj \<Rightarrow> nat" where
  "tq_backlog q = length (tq_waiting q) +
     length (filter (\<lambda>f. pSingleStep (aFuncInfo q f) \<noteq> 0) [0..<MAX_FUNCTIONS])"

lemma set_tq_slots: "s \<in> set tq_slots \<longleftrightarrow> fst s < MAX_FUNCTIONS \<and> snd s < MAX_PRIORITY"
  by (cases s) (auto simp: tq_slots_def image_iff)

lemma distinct_tq_slots: "distinct tq_slots"
  by (simp add: tq_slots_def MAX_FUNCTIONS_def MAX_PRIORITY_def upt_rec)

lemma tq_emit_sel [simp]:
  "aFuncInfo (tq_emit e q) = aFuncInfo q" "aTxnQueues (tq_emit e q) = aTxnQueues q"
  "hTxnDoneQueue (tq_emit e q) = hTxnDoneQueue q" "pCurrTxn (tq_emit e q) = pCurrTxn q"
  "uMinFuncId (tq_emit e q) = uMinFuncId q" "uMaxFuncId (tq_emit e q) = uMaxFuncId q"
  "bSchedulerBusy (tq_emit e q) = bSchedulerBusy q" "bSchedulerPend (tq_emit e q) = bSchedulerPend q"
  "pAggregQueue (tq_emit e q) = pAggregQueue q" "tq_mem (tq_emit e q) = tq_mem q"
  "tq_trace (tq_emit e q) = tq_trace q @ [e]" "tq_waiting (tq_emit e q) = tq_waiting q"
  "tq_backlog (tq_emit e q) = tq_backlog q"
  by (simp_all add: tq_emit_def tq_waiting_def tq_backlog_def)

lemma length_concat_update:
  assumes "s \<in> set ss" "distinct ss" "length (g s) + k = length (f s)" "\<And>t. t \<noteq> s \<Longrightarrow> g t = f t"
  shows "length (concat (map g ss)) + k = length (concat (map f ss))"
  using assms
proof (induction ss)
  case (Cons t ss)
  show ?case
  proof (cases "t = s")
    case True
    then have "x \<noteq> s" if "x \<in> set ss" for x using Cons.prems(2) that by auto
    then have e: "map g ss = map f ss" using Cons.prems(4) by simp
    show ?thesis using True Cons.prems(3) by (simp add: e del: map_eq_conv)
  next
    case False
    then show ?thesis using Cons by simp
  qed
qed simp

lemma deq_slot_result:
  assumes "tq_deq_slot s q = Inr (x, q')"
  shows "(x = None \<and> q' = q \<and> tq_items (aTxnQueues q s) = []) \<or>
    (\<exists>a Q. x = Some a \<and> aTxnQueues q s = TqLive Q \<and> fst s < MAX_FUNCTIONS \<and> snd s < MAX_PRIORITY \<and>
       aq_items Q = a # tl (aq_items Q) \<and>
       q' = tq_emit (Selected a s) (q\<lparr>aTxnQueues := (aTxnQueues q)(s := TqLive (Q\<lparr>aq_items := tl (aq_items Q)\<rparr>))\<rparr>))"
proof -
  from assms obtain Q where Q: "aTxnQueues q s = TqLive Q" "fst s < MAX_FUNCTIONS" "snd s < MAX_PRIORITY"
    by (auto simp: tq_deq_slot_def tq_deq_def split: if_splits tq_handle.splits)
  show ?thesis
  proof (cases "aq_items Q")
    case Nil
    have "q\<lparr>aTxnQueues := (aTxnQueues q)(s := TqLive Q)\<rparr> = q"
      using Q(1) by (simp add: fun_upd_idem)
    then show ?thesis using assms Q Nil
      by (simp add: tq_deq_slot_def tq_deq_def aq_Dequeue_def tq_items_def Let_def)
  next
    case (Cons a xs)
    then show ?thesis using assms Q
      by (auto simp: tq_deq_slot_def tq_deq_def aq_Dequeue_def Let_def)
  qed
qed

lemma deq_slot_backlog:
  assumes "tq_deq_slot s q = Inr (Some x, q')"
  shows "tq_backlog q' < tq_backlog q"
proof -
  from deq_slot_result [OF assms] obtain Q where Q: "aTxnQueues q s = TqLive Q" "s \<in> set tq_slots"
      "aq_items Q = x # tl (aq_items Q)"
      "aTxnQueues q' = (aTxnQueues q)(s := TqLive (Q\<lparr>aq_items := tl (aq_items Q)\<rparr>))" "aFuncInfo q' = aFuncInfo q"
    by (auto simp: set_tq_slots)
  have "length (tq_waiting q') + 1 = length (tq_waiting q)"
    unfolding tq_waiting_def
  proof (rule length_concat_update [OF Q(2) distinct_tq_slots])
    have "length (aq_items Q) = Suc (length (tl (aq_items Q)))" using Q(3) by (metis length_Cons)
    then show "length (tq_items (aTxnQueues q' s)) + 1 = length (tq_items (aTxnQueues q s))"
      using Q(1,4) by (simp add: tq_items_def)
    show "tq_items (aTxnQueues q' t) = tq_items (aTxnQueues q t)" if "t \<noteq> s" for t
      using that Q(4) by simp
  qed
  then show ?thesis using Q(5) by (simp add: tq_backlog_def)
qed

lemma backlog_cong:
  "aTxnQueues q' = aTxnQueues q \<Longrightarrow> aFuncInfo q' = aFuncInfo q \<Longrightarrow> tq_backlog q' = tq_backlog q"
  by (simp add: tq_backlog_def tq_waiting_def)

lemma SelectQueue_backlog:
  "txnQ_SelectQueue ss q = Inr (Some x, q') \<Longrightarrow> tq_backlog q' < tq_backlog q"
proof (induction ss arbitrary: q)
  case (Cons s ss)
  show ?case
  proof (cases "eState (aFuncInfo q (fst s)) = FUNC_STATE_RUNNING \<and> uNumPrios (aFuncInfo q (fst s)) > snd s")
    case True
    then obtain y q1 where y: "tq_deq_slot s q = Inr (y, q1)"
      using Cons.prems by (auto split: sum.splits)
    show ?thesis
    proof (cases y)
      case None
      then have "q1 = q" using deq_slot_result [OF y] by auto
      then show ?thesis using Cons.prems Cons.IH [of q] True y None by simp
    next
      case (Some a)
      then have "tq_backlog q' = tq_backlog q1"
        using Cons.prems True y by (auto intro!: backlog_cong split: if_splits)
      then show ?thesis using deq_slot_backlog y Some by simp
    qed
  next
    case False
    then have "txnQ_SelectQueue ss q = Inr (Some x, q')" using Cons.prems by (simp split: if_splits)
    then show ?thesis by (rule Cons.IH)
  qed
qed simp

lemma Select_backlog:
  assumes "txnQ_SelectTxn q = Inr (Some x, q')"
  shows "tq_backlog q' < tq_backlog q"
proof (cases "pAggregQueue q")
  case (Some s)
  then obtain q1 where q1: "tq_deq_slot s q = Inr (Some x, q1)"
      "aTxnQueues q' = aTxnQueues q1" "aFuncInfo q' = aFuncInfo q1"
    using assms by (auto simp: txnQ_SelectTxn_def txnQ_SelectAggreg_def split: sum.splits option.splits if_splits)
  then show ?thesis using deq_slot_backlog [OF q1(1)] backlog_cong [of q' q1] by simp
next
  case None
  show ?thesis
  proof (cases "find (\<lambda>f. pSingleStep (aFuncInfo q f) \<noteq> 0) [uMinFuncId q..<Suc (uMaxFuncId q)]")
    case None2: None
    then show ?thesis using assms None SelectQueue_backlog by (auto simp: txnQ_SelectTxn_def split: if_splits)
  next
    case (Some f)
    have max: "uMaxFuncId q < MAX_FUNCTIONS" using assms None by (simp add: txnQ_SelectTxn_def split: if_splits)
    from Some have f: "pSingleStep (aFuncInfo q f) \<noteq> 0" "f \<in> set [uMinFuncId q..<Suc (uMaxFuncId q)]"
      by (auto simp: find_Some_iff simp del: upt_Suc)
    have q': "q' = q\<lparr>aFuncInfo := (aFuncInfo q)(f := (aFuncInfo q f)\<lparr>pSingleStep := 0\<rparr>)\<rparr>"
      using assms None Some max by (simp add: txnQ_SelectTxn_def)
    have "length (filter (\<lambda>g. pSingleStep (aFuncInfo q' g) \<noteq> 0) [0..<MAX_FUNCTIONS]) <
        length (filter (\<lambda>g. pSingleStep (aFuncInfo q g) \<noteq> 0) [0..<MAX_FUNCTIONS])"
    proof -
      have e: "filter (\<lambda>g. pSingleStep (aFuncInfo q' g) \<noteq> 0) [0..<MAX_FUNCTIONS] =
          filter (\<lambda>g. g \<noteq> f) (filter (\<lambda>g. pSingleStep (aFuncInfo q g) \<noteq> 0) [0..<MAX_FUNCTIONS])"
        unfolding filter_filter by (rule filter_cong) (auto simp: q')
      have "f \<in> set (filter (\<lambda>g. pSingleStep (aFuncInfo q g) \<noteq> 0) [0..<MAX_FUNCTIONS])"
        using f max by auto
      then show ?thesis unfolding e by (rule length_filter_less) simp
    qed
    then show ?thesis by (simp add: tq_backlog_def tq_waiting_def q')
  qed
qed

text \<open>Handing a selected transaction to the bus. \<open>pInput\<close> is the transaction inserted in the
  current context (\<open>0\<close> for none): its completion is told by the return value.\<close>

definition tq_done_enq :: "addr \<Rightarrow> TTxnQObj \<Rightarrow> fault + TTxnQObj" where
  "tq_done_enq x q =
     (case tq_enq q x (hTxnDoneQueue q) of
        Inl f \<Rightarrow> Inl f
      | Inr (st, h) \<Rightarrow> Inr (q\<lparr>hTxnDoneQueue := h\<rparr>))"

lemma done_enq_frame:
  "tq_done_enq x q = Inr q' \<Longrightarrow> aTxnQueues q' = aTxnQueues q \<and> aFuncInfo q' = aFuncInfo q"
  by (auto simp: tq_done_enq_def split: sum.splits)

lemma done_enq_backlog: "tq_done_enq x q = Inr q' \<Longrightarrow> tq_backlog q' = tq_backlog q"
  using done_enq_frame [of x q q'] by (auto intro: backlog_cong)

lemma backlog_curr [simp]: "tq_backlog (q\<lparr>pCurrTxn := x\<rparr>) = tq_backlog q"
  by (rule backlog_cong) simp_all

function txnQ_SendLoop ::
  "tq_bus \<Rightarrow> addr \<Rightarrow> ETxnStatus \<Rightarrow> TTxnQObj \<Rightarrow> fault + ETxnStatus \<times> TTxnQObj" where
  "txnQ_SendLoop bus pInput eInput q =
     (case txnQ_SelectTxn q of
        Inl f \<Rightarrow> Inl f
      | Inr (None, q) \<Rightarrow> Inr (eInput, q)
      | Inr (Some x, q1) \<Rightarrow>
          (let q2 = tq_emit (BusTransact x) (q1\<lparr>pCurrTxn := x\<rparr>);
               eStatus = bus (tq_trace q2);
               eInput = (if x = pInput then eStatus else eInput)
           in if eStatus = TXN_STATUS_PENDING then Inr (eInput, q2)
              else
                (let q3 = tq_emit (BusSync x) (q2\<lparr>pCurrTxn := 0\<rparr>) in
                 if x = pInput then txnQ_SendLoop bus pInput eInput q3
                 else
                   (case tq_done_enq x q3 of
                      Inl f \<Rightarrow> Inl f
                    | Inr q4 \<Rightarrow> txnQ_SendLoop bus pInput eInput q4))))"
  by pat_completeness auto
termination
  by (relation "measure (\<lambda>(bus, pInput, eInput, q). tq_backlog q)")
    (auto dest!: Select_backlog done_enq_backlog)

declare txnQ_SendLoop.simps [simp del]

section \<open>Transactions from the functions\<close>

text \<open>\<open>txnQ_Transact\<close> up to the call of the scheduler.\<close>

definition txnQ_Submit :: "addr \<Rightarrow> TTxnQObj \<Rightarrow> fault + bool \<times> TTxnQObj" where
  "txnQ_Submit pTxn q =
     (let t = tq_mem q pTxn;
          uFuncId = unat (TXN_PARAM_GET_FUNC_ID t);
          uPrio = unat (TXN_PARAM_GET_PRIORITY t)
      in if TXN_PARAM_GET_SINGLE_STEP t \<noteq> 0 then
           Inr (True, q\<lparr>aFuncInfo := (aFuncInfo q)(uFuncId := (aFuncInfo q uFuncId)\<lparr>pSingleStep := pTxn\<rparr>)\<rparr>)
         else if uPrio \<ge> MAX_PRIORITY then Inl OutOfBounds
         else
           (case tq_enq q pTxn (aTxnQueues q (uFuncId, uPrio)) of
              Inl f \<Rightarrow> Inl f
            | Inr (st, h) \<Rightarrow>
                (let q = q\<lparr>aTxnQueues := (aTxnQueues q)((uFuncId, uPrio) := h)\<rparr> in
                 if st = TI_OK then Inr (True, tq_emit (Submitted pTxn (uFuncId, uPrio)) q)
                 else Inr (False, q))))"

text \<open>\<open>txnQ_Transact\<close> from a callback that the scheduler makes: the scheduler is busy, so the call
  of \<open>txnQ_RunScheduler\<close> only leaves its mark.\<close>

fun tq_nested :: "(addr \<times> TTxnStruct) list \<Rightarrow> TTxnQObj \<Rightarrow> fault + TTxnQObj" where
  "tq_nested [] q = Inr q"
| "tq_nested ((x, t) # rs) q =
     (case txnQ_Submit x (q\<lparr>tq_mem := (tq_mem q)(x := t)\<rparr>) of
        Inl f \<Rightarrow> Inl f
      | Inr (ok, q) \<Rightarrow> tq_nested rs (if ok then q\<lparr>bSchedulerPend := True\<rparr> else q))"

definition tq_callback :: "tq_client \<Rightarrow> addr \<Rightarrow> TTxnQObj \<Rightarrow> fault + TTxnQObj" where
  "tq_callback client x q =
     (let f = aFuncInfo q (unat (TXN_PARAM_GET_FUNC_ID (tq_mem q x)));
          q = tq_emit (TxnDoneCb (fTxnQueueDoneCb f) (fi_hCbHandle f) x) q
      in if fTxnQueueDoneCb f = 0 then Inl NullDeref
         else tq_nested (client (tq_trace q)) q)"

definition tq_done_deq :: "TTxnQObj \<Rightarrow> fault + addr option \<times> TTxnQObj" where
  "tq_done_deq q =
     (case tq_deq (hTxnDoneQueue q) of
        Inl f \<Rightarrow> Inl f
      | Inr (x, h) \<Rightarrow> Inr (x, q\<lparr>hTxnDoneQueue := h\<rparr>))"

lemma Submit_frame:
  "txnQ_Submit x q = Inr (ok, q') \<Longrightarrow> hTxnDoneQueue q' = hTxnDoneQueue q \<and> pCurrTxn q' = pCurrTxn q \<and>
   bSchedulerBusy q' = bSchedulerBusy q \<and> bSchedulerPend q' = bSchedulerPend q \<and> uMinFuncId q' = uMinFuncId q \<and>
   uMaxFuncId q' = uMaxFuncId q \<and> pAggregQueue q' = pAggregQueue q \<and> tq_mem q' = tq_mem q"
  by (auto simp: txnQ_Submit_def Let_def split: if_splits sum.splits)

lemma nested_frame:
  "tq_nested rs q = Inr q' \<Longrightarrow> hTxnDoneQueue q' = hTxnDoneQueue q \<and> pCurrTxn q' = pCurrTxn q \<and>
   bSchedulerBusy q' = bSchedulerBusy q \<and> uMinFuncId q' = uMinFuncId q \<and> uMaxFuncId q' = uMaxFuncId q \<and>
   pAggregQueue q' = pAggregQueue q"
proof (induction rs arbitrary: q)
  case (Cons r rs)
  obtain x t where r: "r = (x, t)" by fastforce
  let ?q = "q\<lparr>tq_mem := (tq_mem q)(x := t)\<rparr>"
  obtain ok q1 where s: "txnQ_Submit x ?q = Inr (ok, q1)" using Cons.prems r by (auto split: sum.splits)
  then have "tq_nested rs (if ok then q1\<lparr>bSchedulerPend := True\<rparr> else q1) = Inr q'" using Cons.prems r by simp
  from Cons.IH [OF this] Submit_frame [OF s] show ?case by (simp split: if_splits)
qed simp

lemma callback_frame:
  "tq_callback client x q = Inr q' \<Longrightarrow> hTxnDoneQueue q' = hTxnDoneQueue q \<and> pCurrTxn q' = pCurrTxn q \<and>
   bSchedulerBusy q' = bSchedulerBusy q \<and> uMinFuncId q' = uMinFuncId q \<and> uMaxFuncId q' = uMaxFuncId q \<and>
   pAggregQueue q' = pAggregQueue q"
  using nested_frame by (fastforce simp: tq_callback_def Let_def split: if_splits)

lemma done_deq_result:
  "tq_done_deq q = Inr (x, q') \<Longrightarrow>
   (case tq_items (hTxnDoneQueue q) of [] \<Rightarrow> x = None \<and> q' = q
    | a # as \<Rightarrow> x = Some a \<and> tq_items (hTxnDoneQueue q') = as \<and> (\<exists>h. q' = q\<lparr>hTxnDoneQueue := h\<rparr>))"
  by (auto simp: tq_done_deq_def tq_deq_def aq_Dequeue_def tq_items_def split: tq_handle.splits list.splits)

text \<open>The loop that calls the functions for the completed transactions.\<close>

function txnQ_DoneLoop :: "tq_client \<Rightarrow> TTxnQObj \<Rightarrow> fault + TTxnQObj" where
  "txnQ_DoneLoop client q =
     (case tq_done_deq q of
        Inl f \<Rightarrow> Inl f
      | Inr (None, q) \<Rightarrow> Inr q
      | Inr (Some x, q) \<Rightarrow>
          (case tq_callback client x q of
             Inl f \<Rightarrow> Inl f
           | Inr q \<Rightarrow> txnQ_DoneLoop client q))"
  by pat_completeness auto
termination
  by (relation "measure (\<lambda>(client, q). length (tq_items (hTxnDoneQueue q)))")
    (auto dest!: done_deq_result callback_frame split: list.splits)

declare txnQ_DoneLoop.simps [simp del]

definition txnQ_Scheduler ::
  "tq_bus \<Rightarrow> tq_client \<Rightarrow> addr \<Rightarrow> TTxnQObj \<Rightarrow> fault + ETxnStatus \<times> TTxnQObj" where
  "txnQ_Scheduler bus client pInput q =
     (if pCurrTxn q \<noteq> 0 then Inr (TXN_STATUS_PENDING, q)
      else
        (case txnQ_SendLoop bus pInput TXN_STATUS_PENDING q of
           Inl f \<Rightarrow> Inl f
         | Inr (st, q) \<Rightarrow>
             (case txnQ_DoneLoop client q of Inl f \<Rightarrow> Inl f | Inr q \<Rightarrow> Inr (st, q))))"

text \<open>The iterations of \<open>txnQ_RunScheduler\<close> after the first; \<open>None\<close>: it does not return.\<close>

partial_function (option) txnQ_RunPending ::
  "tq_bus \<Rightarrow> tq_client \<Rightarrow> TTxnQObj \<Rightarrow> (fault + TTxnQObj) option" where
  "txnQ_RunPending bus client q =
     (if \<not> bSchedulerPend q then Some (Inr (q\<lparr>bSchedulerBusy := False\<rparr>))
      else
        (case txnQ_Scheduler bus client 0 (q\<lparr>bSchedulerPend := False\<rparr>) of
           Inl f \<Rightarrow> Some (Inl f)
         | Inr (st, q) \<Rightarrow> txnQ_RunPending bus client q))"

definition txnQ_RunScheduler ::
  "tq_bus \<Rightarrow> tq_client \<Rightarrow> addr \<Rightarrow> TTxnQObj \<Rightarrow> (fault + ETxnStatus \<times> TTxnQObj) option" where
  "txnQ_RunScheduler bus client pInput q =
     (if bSchedulerBusy q then Some (Inr (TXN_STATUS_PENDING, q\<lparr>bSchedulerPend := True\<rparr>))
      else
        (case txnQ_Scheduler bus client pInput (q\<lparr>bSchedulerBusy := True\<rparr>) of
           Inl f \<Rightarrow> Some (Inl f)
         | Inr (st, q) \<Rightarrow> map_option (map_sum id (\<lambda>q. (st, q))) (txnQ_RunPending bus client q)))"

section \<open>Operations\<close>

definition txnQ_Transact ::
  "tq_bus \<Rightarrow> tq_client \<Rightarrow> addr \<Rightarrow> TTxnQObj \<Rightarrow> (fault + ETxnStatus \<times> TTxnQObj) option" where
  "txnQ_Transact bus client pTxn q =
     (case txnQ_Submit pTxn q of
        Inl f \<Rightarrow> Some (Inl f)
      | Inr (ok, q) \<Rightarrow>
          if ok then txnQ_RunScheduler bus client pTxn q else Some (Inr (TXN_STATUS_ERROR, q)))"

definition tq_set_state :: "nat \<Rightarrow> EFuncState \<Rightarrow> TTxnQObj \<Rightarrow> TTxnQObj" where
  "tq_set_state f st q = q\<lparr>aFuncInfo := (aFuncInfo q)(f := (aFuncInfo q f)\<lparr>eState := st\<rparr>)\<rparr>"

definition txnQ_Run :: "tq_bus \<Rightarrow> tq_client \<Rightarrow> nat \<Rightarrow> TTxnQObj \<Rightarrow> (fault + TTxnQObj) option" where
  "txnQ_Run bus client uFuncId q =
     (if uFuncId \<ge> MAX_FUNCTIONS then Some (Inl OutOfBounds)
      else map_option (map_sum id snd)
        (txnQ_RunScheduler bus client 0 (tq_set_state uFuncId FUNC_STATE_RUNNING q)))"

definition txnQ_Stop :: "nat \<Rightarrow> TTxnQObj \<Rightarrow> fault + TTxnQObj" where
  "txnQ_Stop uFuncId q =
     (if uFuncId \<ge> MAX_FUNCTIONS then Inl OutOfBounds else Inr (tq_set_state uFuncId FUNC_STATE_STOPPED q))"

text \<open>\<open>do { pTxn = que_Dequeue (..); } while (pTxn != NULL)\<close> for each priority.\<close>

definition tq_clear_handle :: "tq_handle \<Rightarrow> fault + tq_handle" where
  "tq_clear_handle h =
     (case h of TqNull \<Rightarrow> Inl NullDeref | TqFreed \<Rightarrow> Inl UseAfterFree | TqLive Q \<Rightarrow> Inr (TqLive (Q\<lparr>aq_items := []\<rparr>)))"

fun tq_clear_slots :: "(nat \<times> nat) list \<Rightarrow> TTxnQObj \<Rightarrow> fault + TTxnQObj" where
  "tq_clear_slots [] q = Inr q"
| "tq_clear_slots (s # ss) q =
     (case tq_clear_handle (aTxnQueues q s) of
        Inl f \<Rightarrow> Inl f
      | Inr h \<Rightarrow> tq_clear_slots ss (q\<lparr>aTxnQueues := (aTxnQueues q)(s := h)\<rparr>))"

definition txnQ_ClearQueues :: "nat \<Rightarrow> TTxnQObj \<Rightarrow> fault + TTxnQObj" where
  "txnQ_ClearQueues uFuncId q =
     (if uFuncId \<ge> MAX_FUNCTIONS then Inl OutOfBounds
      else
        (let q = q\<lparr>aFuncInfo := (aFuncInfo q)(uFuncId := (aFuncInfo q uFuncId)\<lparr>pSingleStep := 0\<rparr>)\<rparr> in
         case tq_clear_slots (map (\<lambda>p. (uFuncId, p)) [0..<uNumPrios (aFuncInfo q uFuncId)]) q of
           Inl f \<Rightarrow> Inl f
         | Inr q \<Rightarrow> Inr (tq_set_state uFuncId FUNC_STATE_RUNNING (tq_emit (Cleared uFuncId) q))))"

definition txnQ_Restart :: "nat \<Rightarrow> TTxnQObj \<Rightarrow> fault + ETxnStatus \<times> TTxnQObj" where
  "txnQ_Restart uFuncId q =
     (if uFuncId \<ge> MAX_FUNCTIONS then Inl OutOfBounds
      else if pCurrTxn q \<noteq> 0 \<and> unat (TXN_PARAM_GET_FUNC_ID (tq_mem q (pCurrTxn q))) = uFuncId
      then Inr (TXN_STATUS_PENDING, tq_set_state uFuncId FUNC_STATE_RESTART q)
      else
        (case txnQ_ClearQueues uFuncId q of Inl f \<Rightarrow> Inl f | Inr q \<Rightarrow> Inr (TXN_STATUS_COMPLETE, q)))"

text \<open>The transactions a function issues from the callback that tells it of its restart: these are
  full \<open>txnQ_Transact\<close> calls, but the scheduler finds the bus busy. (\<open>no_client\<close>: no callback is made
  in them.)\<close>

definition no_client :: tq_client where "no_client = (\<lambda>tr. [])"

fun tq_transact_all ::
  "tq_bus \<Rightarrow> (addr \<times> TTxnStruct) list \<Rightarrow> TTxnQObj \<Rightarrow> (fault + TTxnQObj) option" where
  "tq_transact_all bus [] q = Some (Inr q)"
| "tq_transact_all bus ((x, t) # rs) q =
     (case txnQ_Transact bus no_client x (q\<lparr>tq_mem := (tq_mem q)(x := t)\<rparr>) of
        None \<Rightarrow> None
      | Some (Inl f) \<Rightarrow> Some (Inl f)
      | Some (Inr (st, q)) \<Rightarrow> tq_transact_all bus rs q)"

definition txnQ_TxnDoneCb ::
  "tq_bus \<Rightarrow> tq_client \<Rightarrow> addr \<Rightarrow> TTxnQObj \<Rightarrow> (fault + TTxnQObj) option" where
  "txnQ_TxnDoneCb bus client pTxn q =
     (let uFuncId = unat (TXN_PARAM_GET_FUNC_ID (tq_mem q pTxn));
          finish = (\<lambda>q. map_option (map_sum id snd)
            (txnQ_RunScheduler bus client 0 (tq_emit (BusDone pTxn) (q\<lparr>pCurrTxn := 0\<rparr>))))
      in if eState (aFuncInfo q uFuncId) = FUNC_STATE_RESTART then
           (case txnQ_ClearQueues uFuncId q of
              Inl f \<Rightarrow> Some (Inl f)
            | Inr q \<Rightarrow>
                (let q = q\<lparr>tq_mem := (tq_mem q)(pTxn := TXN_PARAM_SET_STATUS (tq_mem q pTxn) TXN_PARAM_STATUS_RECOVERY)\<rparr>;
                     f = aFuncInfo q uFuncId;
                     q = tq_emit (TxnDoneCb (fTxnQueueDoneCb f) (fi_hCbHandle f) pTxn) q
                 in if fTxnQueueDoneCb f = 0 then Some (Inl NullDeref)
                    else
                      (case tq_transact_all bus (client (tq_trace q)) q of
                         None \<Rightarrow> None
                       | Some (Inl f) \<Rightarrow> Some (Inl f)
                       | Some (Inr q) \<Rightarrow> finish q)))
         else
           (case tq_done_enq pTxn q of
              Inl f \<Rightarrow> Some (Inl f)
            | Inr q \<Rightarrow> finish q))"

end
