(* ===== verification/TxnQueueProps.thy ===== *)
theory TxnQueueProps
  imports TxnQueue
begin

text \<open>
  The transaction queue of theory \<open>TxnQueue\<close> as the driver uses it: one function, WLAN, with two
  priorities (\<open>twIf_Init\<close>). Its specification is two monitors of the record of events, a FIFO for each
  queue and a bus that takes one transaction at a time; the theory proves that every reachable state
  satisfies them, that the scheduler leaves no transaction waiting while the bus is idle, and that
  the operations return.
\<close>

section \<open>The specification\<close>

text \<open>The content of queue \<open>s\<close>, or \<open>None\<close> once something was taken out that was not its oldest.\<close>

fun fifo_step :: "nat \<times> nat \<Rightarrow> tq_event \<Rightarrow> addr list option \<Rightarrow> addr list option" where
  "fifo_step s e None = None"
| "fifo_step s (Submitted x s') (Some xs) = Some (if s' = s then xs @ [x] else xs)"
| "fifo_step s (Selected x s') (Some xs) =
     (if s' = s then (case xs of [] \<Rightarrow> None | y # ys \<Rightarrow> if y = x then Some ys else None) else Some xs)"
| "fifo_step s (Cleared f) (Some xs) = Some (if fst s = f then [] else xs)"
| "fifo_step s e (Some xs) = Some xs"

definition fifo_run :: "nat \<times> nat \<Rightarrow> tq_event list \<Rightarrow> addr list option" where
  "fifo_run s tr = fold (fifo_step s) tr (Some [])"

text \<open>The transaction the bus is working on (\<open>0\<close> for none), or \<open>None\<close> once it was given a second
  one or reported one it did not have.\<close>

fun bus_step :: "tq_event \<Rightarrow> addr option \<Rightarrow> addr option" where
  "bus_step e None = None"
| "bus_step (BusTransact x) (Some c) = (if c = 0 \<and> x \<noteq> 0 then Some x else None)"
| "bus_step (BusSync x) (Some c) = (if c = x then Some 0 else None)"
| "bus_step (BusDone x) (Some c) = (if c = x then Some 0 else None)"
| "bus_step e (Some c) = Some c"

definition bus_run :: "tq_event list \<Rightarrow> addr option" where
  "bus_run tr = fold bus_step tr (Some 0)"

definition tq_calls :: "tq_event list \<Rightarrow> nat" where
  "tq_calls tr = length (filter (\<lambda>e. case e of TxnDoneCb f h x \<Rightarrow> True | _ \<Rightarrow> False) tr)"

lemma fifo_run_snoc [simp]: "fifo_run s (tr @ [e]) = fifo_step s e (fifo_run s tr)"
  by (simp add: fifo_run_def)

lemma bus_run_snoc [simp]: "bus_run (tr @ [e]) = bus_step e (bus_run tr)"
  by (simp add: bus_run_def)

lemma tq_calls_append [simp]: "tq_calls (a @ b) = tq_calls a + tq_calls b"
  by (simp add: tq_calls_def)

lemma tq_calls_simps [simp]:
  "tq_calls [] = 0" "tq_calls (e # tr) = (case e of TxnDoneCb f h x \<Rightarrow> 1 | _ \<Rightarrow> 0) + tq_calls tr"
  by (simp_all add: tq_calls_def split: tq_event.splits)

section \<open>The invariant\<close>

definition WLAN :: nat where "WLAN = 2"

definition txn_wlan :: "TTxnStruct \<Rightarrow> bool" where
  "txn_wlan t \<longleftrightarrow> unat (TXN_PARAM_GET_FUNC_ID t) = WLAN \<and> unat (TXN_PARAM_GET_PRIORITY t) < MAX_PRIORITY"

definition tq_live :: "tq_handle \<Rightarrow> bool" where
  "tq_live h \<longleftrightarrow> (\<exists>Q. h = TqLive Q \<and> 0 \<notin> set (aq_items Q))"

definition tq_shape :: "TTxnQObj \<Rightarrow> bool" where
  "tq_shape q \<longleftrightarrow> tq_live (hTxnDoneQueue q) \<and>
     (\<forall>p < MAX_PRIORITY. tq_live (aTxnQueues q (WLAN, p))) \<and>
     (\<forall>s. fst s \<noteq> WLAN \<or> MAX_PRIORITY \<le> snd s \<longrightarrow> aTxnQueues q s = TqNull) \<and>
     uNumPrios (aFuncInfo q WLAN) = MAX_PRIORITY \<and> fTxnQueueDoneCb (aFuncInfo q WLAN) \<noteq> 0 \<and>
     eState (aFuncInfo q WLAN) \<noteq> FUNC_STATE_NONE \<and>
     (\<forall>f. f \<noteq> WLAN \<longrightarrow> eState (aFuncInfo q f) = FUNC_STATE_NONE \<and> pSingleStep (aFuncInfo q f) = 0) \<and>
     uMinFuncId q = WLAN \<and> uMaxFuncId q = WLAN \<and>
     (\<forall>s. pAggregQueue q = Some s \<longrightarrow> fst s = WLAN \<and> snd s < MAX_PRIORITY) \<and> (\<forall>x. txn_wlan (tq_mem q x))"

definition tq_inv :: "TTxnQObj \<Rightarrow> bool" where
  "tq_inv q \<longleftrightarrow> tq_shape q \<and> (\<forall>s. fifo_run s (tq_trace q) = Some (tq_items (aTxnQueues q s))) \<and>
     bus_run (tq_trace q) = Some (pCurrTxn q)"

text \<open>Nothing can be selected.\<close>

definition tq_idle :: "TTxnQObj \<Rightarrow> bool" where
  "tq_idle q \<longleftrightarrow>
     (case pAggregQueue q of
        Some s \<Rightarrow> tq_items (aTxnQueues q s) = []
      | None \<Rightarrow> pSingleStep (aFuncInfo q WLAN) = 0 \<and>
          (eState (aFuncInfo q WLAN) = FUNC_STATE_RUNNING \<longrightarrow>
             (\<forall>p < MAX_PRIORITY. tq_items (aTxnQueues q (WLAN, p)) = [])))"

text \<open>What the scheduler and the callbacks leave alone.\<close>

definition tq_same :: "TTxnQObj \<Rightarrow> TTxnQObj \<Rightarrow> bool" where
  "tq_same q q' \<longleftrightarrow> bSchedulerBusy q' = bSchedulerBusy q \<and> bSchedulerPend q' = bSchedulerPend q \<and>
     tq_calls (tq_trace q') = tq_calls (tq_trace q)"

lemma tq_same_refl [simp]: "tq_same q q"
  by (simp add: tq_same_def)

lemma tq_same_trans: "tq_same a b \<Longrightarrow> tq_same b c \<Longrightarrow> tq_same a c"
  by (simp add: tq_same_def)

lemma WLAN_less [simp]: "WLAN < MAX_FUNCTIONS" "0 < MAX_PRIORITY" "Suc 0 < MAX_PRIORITY"
    "\<not> MAX_FUNCTIONS \<le> WLAN"
  by (simp_all add: WLAN_def MAX_FUNCTIONS_def MAX_PRIORITY_def)

lemma deq_slot_inv:
  assumes i: "tq_inv q" and p: "p < MAX_PRIORITY"
  shows "\<exists>x q'. tq_deq_slot (WLAN, p) q = Inr (x, q') \<and>
    (case x of None \<Rightarrow> q' = q \<and> tq_items (aTxnQueues q (WLAN, p)) = []
     | Some a \<Rightarrow> a \<noteq> 0 \<and> tq_inv q' \<and> tq_same q q' \<and> pCurrTxn q' = pCurrTxn q \<and> tq_mem q' = tq_mem q \<and>
         aFuncInfo q' = aFuncInfo q \<and> pAggregQueue q' = pAggregQueue q)"
proof -
  obtain Q where Q: "aTxnQueues q (WLAN, p) = TqLive Q" "0 \<notin> set (aq_items Q)"
    using i p by (auto simp: tq_inv_def tq_shape_def tq_live_def)
  obtain x q' where r: "tq_deq_slot (WLAN, p) q = Inr (x, q')"
    using Q p by (cases "aq_Dequeue Q") (simp add: tq_deq_slot_def tq_deq_def Let_def)
  from deq_slot_result [OF r] show ?thesis
  proof (elim disjE exE conjE)
    assume "x = None" "q' = q" "tq_items (aTxnQueues q (WLAN, p)) = []"
    then show ?thesis using r by auto
  next
    fix a Q'
    assume a: "x = Some a" "aTxnQueues q (WLAN, p) = TqLive Q'" "aq_items Q' = a # tl (aq_items Q')"
      and q': "q' = tq_emit (Selected a (WLAN, p))
        (q\<lparr>aTxnQueues := (aTxnQueues q)((WLAN, p) := TqLive (Q'\<lparr>aq_items := tl (aq_items Q')\<rparr>))\<rparr>)"
    have Q': "Q' = Q" using a(2) Q(1) by simp
    have nz: "a \<noteq> 0" "0 \<notin> set (tl (aq_items Q))"
      using Q(2) a(3) unfolding Q' by (metis list.set_intros(1), metis list.set_intros(2))
    have "tq_shape q'"
      using i p nz(2) unfolding q' Q' by (auto simp: tq_inv_def tq_shape_def tq_live_def)
    moreover have "fifo_run s (tq_trace q') = Some (tq_items (aTxnQueues q' s))" for s
    proof -
      have "fifo_run s (tq_trace q) = Some (tq_items (aTxnQueues q s))" using i unfolding tq_inv_def by blast
      then show ?thesis
        using a(3) Q(1) unfolding q' Q'
        by (cases "s = (WLAN, p)") (auto simp: tq_items_def split: list.splits)
    qed
    moreover have "bus_run (tq_trace q') = Some (pCurrTxn q')"
      using i unfolding q' by (simp add: tq_inv_def)
    ultimately have "tq_inv q'" by (simp add: tq_inv_def)
    then show ?thesis using r a(1) nz(1) by (simp add: q' tq_same_def)
  qed
qed

lemma inv_fifo: "tq_inv q \<Longrightarrow> fifo_run s (tq_trace q) = Some (tq_items (aTxnQueues q s))"
  unfolding tq_inv_def by blast

text \<open>An event of the bus or a call out.\<close>

lemma inv_emit:
  assumes i: "tq_inv q" and e: "\<And>s xs. fifo_step s e (Some xs) = Some xs"
    and b: "bus_step e (Some (pCurrTxn q)) = Some c"
  shows "tq_inv (tq_emit e (q\<lparr>pCurrTxn := c\<rparr>))"
proof -
  have "tq_shape (tq_emit e (q\<lparr>pCurrTxn := c\<rparr>))" using i by (simp add: tq_inv_def tq_shape_def)
  moreover have "fifo_run s (tq_trace q @ [e]) = Some (tq_items (aTxnQueues q s))" for s
    using inv_fifo [OF i, of s] e by simp
  moreover have "bus_run (tq_trace q @ [e]) = Some c" using i b by (simp add: tq_inv_def)
  ultimately show ?thesis unfolding tq_inv_def by simp
qed

lemma tq_inv_cong:
  assumes "tq_inv q" "tq_shape q'" "aTxnQueues q' = aTxnQueues q" "tq_trace q' = tq_trace q" "pCurrTxn q' = pCurrTxn q"
  shows "tq_inv q'"
  using assms by (simp add: tq_inv_def)

lemma tq_order_wlan:
  assumes "tq_shape q"
  shows "tq_order q = [(WLAN, 0), (WLAN, 1)]"
proof -
  have "[uMinFuncId q..<Suc (uMaxFuncId q)] = [WLAN]" using assms by (simp add: tq_shape_def)
  then show ?thesis by (simp add: tq_order_def MAX_PRIORITY_def upt_rec del: upt_Suc)
qed

lemma Select_inv:
  assumes i: "tq_inv q"
  shows "\<exists>x q'. txnQ_SelectTxn q = Inr (x, q') \<and>
    (case x of None \<Rightarrow> q' = q \<and> tq_idle q
     | Some a \<Rightarrow> a \<noteq> 0 \<and> tq_inv q' \<and> tq_same q q' \<and> pCurrTxn q' = pCurrTxn q)"
proof -
  have sh: "tq_shape q" using i by (simp add: tq_inv_def)
  have one: "[uMinFuncId q..<Suc (uMaxFuncId q)] = [WLAN]" "\<not> MAX_FUNCTIONS \<le> uMaxFuncId q"
    using sh by (simp_all add: tq_shape_def)
  show ?thesis
  proof (cases "pAggregQueue q")
    case (Some s)
    then obtain p where s: "s = (WLAN, p)" "p < MAX_PRIORITY"
      using sh by (cases s) (auto simp: tq_shape_def)
    from deq_slot_inv [OF i s(2)] obtain x q1 where d: "tq_deq_slot (WLAN, p) q = Inr (x, q1)"
        "case x of None \<Rightarrow> q1 = q \<and> tq_items (aTxnQueues q (WLAN, p)) = []
         | Some a \<Rightarrow> a \<noteq> 0 \<and> tq_inv q1 \<and> tq_same q q1 \<and> pCurrTxn q1 = pCurrTxn q \<and> tq_mem q1 = tq_mem q \<and>
             aFuncInfo q1 = aFuncInfo q \<and> pAggregQueue q1 = pAggregQueue q" by blast
    have "tq_inv (q1\<lparr>pAggregQueue := None\<rparr>)" "tq_same q (q1\<lparr>pAggregQueue := None\<rparr>)" if "tq_inv q1" "tq_same q q1"
      using that by (auto simp: tq_inv_def tq_shape_def tq_same_def)
    with d Some s show ?thesis
      by (cases x) (auto simp: txnQ_SelectTxn_def txnQ_SelectAggreg_def tq_idle_def)
  next
    case None
    show ?thesis
    proof (cases "pSingleStep (aFuncInfo q WLAN) \<noteq> 0")
      case True
      let ?q = "q\<lparr>aFuncInfo := (aFuncInfo q)(WLAN := (aFuncInfo q WLAN)\<lparr>pSingleStep := 0\<rparr>)\<rparr>"
      have "tq_inv ?q" using i by (intro tq_inv_cong [OF i]) (auto simp: tq_inv_def tq_shape_def)
      then show ?thesis using True None one by (auto simp: txnQ_SelectTxn_def tq_same_def simp del: upt_Suc)
    next
      case False
      then have sel: "txnQ_SelectTxn q = txnQ_SelectQueue [(WLAN, 0), (WLAN, 1)] q"
        using None one tq_order_wlan [OF sh] by (simp add: txnQ_SelectTxn_def del: upt_Suc)
      show ?thesis
      proof (cases "eState (aFuncInfo q WLAN) = FUNC_STATE_RUNNING")
        case False2: False
        then show ?thesis using False None unfolding sel by (simp add: tq_idle_def)
      next
        case run: True
        have n: "uNumPrios (aFuncInfo q WLAN) = MAX_PRIORITY" using sh by (simp add: tq_shape_def)
        have agg: "tq_inv (q1\<lparr>pAggregQueue := Some (WLAN, p)\<rparr>)" "tq_same q (q1\<lparr>pAggregQueue := Some (WLAN, p)\<rparr>)"
          if "tq_inv q1" "tq_same q q1" "p < MAX_PRIORITY" for q1 p
          using that by (auto simp: tq_inv_def tq_shape_def tq_same_def)
        from deq_slot_inv [OF i WLAN_less(2)] obtain x q1 where d: "tq_deq_slot (WLAN, 0) q = Inr (x, q1)"
          "case x of None \<Rightarrow> q1 = q \<and> tq_items (aTxnQueues q (WLAN, 0)) = []
           | Some a \<Rightarrow> a \<noteq> 0 \<and> tq_inv q1 \<and> tq_same q q1 \<and> pCurrTxn q1 = pCurrTxn q" by (auto split: option.splits)
        from deq_slot_inv [OF i WLAN_less(3)] obtain y q2 where e: "tq_deq_slot (WLAN, 1) q = Inr (y, q2)"
          "case y of None \<Rightarrow> q2 = q \<and> tq_items (aTxnQueues q (WLAN, 1)) = []
           | Some a \<Rightarrow> a \<noteq> 0 \<and> tq_inv q2 \<and> tq_same q q2 \<and> pCurrTxn q2 = pCurrTxn q" by (auto split: option.splits)
        have two: "p < MAX_PRIORITY \<Longrightarrow> p = 0 \<or> p = 1" for p by (auto simp: MAX_PRIORITY_def)
        show ?thesis
        proof (cases x)
          case (Some a)
          then show ?thesis using d run n agg [of q1 0] unfolding sel by simp
        next
          case None2: None
          show ?thesis
          proof (cases y)
            case (Some b)
            then show ?thesis using d e None2 run n agg [of q2 1] unfolding sel by simp
          next
            case None3: None
            then have "tq_idle q" using d e None2 None False two by (auto simp: tq_idle_def)
            then show ?thesis using d e None2 None3 run n unfolding sel by simp
          qed
        qed
      qed
    qed
  qed
qed

section \<open>The scheduler\<close>

lemma linked_enq:
  assumes "tq_live h" "x \<noteq> 0"
  shows "\<exists>st h'. tq_enq q x h = Inr (st, h') \<and> tq_live h' \<and>
    tq_items h' = (if st = TI_OK then tq_items h @ [x] else tq_items h)"
  using assms by (auto simp: tq_enq_def tq_live_def tq_items_def aq_Enqueue_def)

lemma done_enq_inv:
  assumes "tq_inv q" "x \<noteq> 0"
  shows "\<exists>q'. tq_done_enq x q = Inr q' \<and> tq_inv q' \<and> tq_same q q' \<and> pCurrTxn q' = pCurrTxn q"
proof -
  obtain st h where "tq_enq q x (hTxnDoneQueue q) = Inr (st, h)" "tq_live h"
    using linked_enq [of "hTxnDoneQueue q" x q] assms by (auto simp: tq_inv_def tq_shape_def)
  then show ?thesis
    using assms by (auto simp: tq_done_enq_def tq_inv_def tq_shape_def tq_same_def)
qed

lemma SendLoop_inv:
  "tq_inv q \<Longrightarrow> pCurrTxn q = 0 \<Longrightarrow>
   \<exists>st q'. txnQ_SendLoop bus pIn e q = Inr (st, q') \<and> tq_inv q' \<and> tq_same q q' \<and>
     (pCurrTxn q' = 0 \<longrightarrow> tq_idle q')"
proof (induction bus pIn e q rule: txnQ_SendLoop.induct)
  case (1 bus pIn e q)
  obtain y q1 where sel: "txnQ_SelectTxn q = Inr (y, q1)"
      "case y of None \<Rightarrow> q1 = q \<and> tq_idle q
       | Some a \<Rightarrow> a \<noteq> 0 \<and> tq_inv q1 \<and> tq_same q q1 \<and> pCurrTxn q1 = pCurrTxn q"
    using Select_inv [OF 1(3)] by blast
  show ?case
  proof (cases y)
    case None
    then show ?thesis using sel 1(3) by (subst txnQ_SendLoop.simps) simp
  next
    case (Some x)
    then have x: "x \<noteq> 0" "tq_inv q1" "tq_same q q1" "pCurrTxn q1 = 0" using sel(2) 1(4) by auto
    let ?q2 = "tq_emit (BusTransact x) (q1\<lparr>pCurrTxn := x\<rparr>)"
    have q2: "tq_inv ?q2" "tq_same q ?q2"
      using x by (auto simp: tq_same_def intro!: inv_emit)
    show ?thesis
    proof (cases "bus (tq_trace ?q2) = TXN_STATUS_PENDING")
      case True
      then show ?thesis using sel(1) Some q2 x(1) by (subst txnQ_SendLoop.simps) (simp add: Let_def)
    next
      case False
      let ?q3 = "tq_emit (BusSync x) (?q2\<lparr>pCurrTxn := 0\<rparr>)"
      have q3: "tq_inv ?q3" "tq_same q ?q3" "pCurrTxn ?q3 = 0"
        using q2 x(1) by (auto simp: tq_same_def intro!: inv_emit)
      show ?thesis
      proof (cases "x = pIn")
        case eq: True
        let ?e = "bus (tq_trace ?q2)"
        from 1(1) [OF sel(1) refl Some refl refl refl False refl eq q3(1,3)] eq
        obtain st q' where "txnQ_SendLoop bus pIn ?e ?q3 = Inr (st, q')" "tq_inv q'" "tq_same ?q3 q'"
          "pCurrTxn q' = 0 \<longrightarrow> tq_idle q'" by auto
        then show ?thesis using sel(1) Some False eq tq_same_trans [OF q3(2)]
          by (subst txnQ_SendLoop.simps) (simp add: Let_def)
      next
        case neq: False
        obtain q4 where q4: "tq_done_enq x ?q3 = Inr q4" "tq_inv q4" "tq_same ?q3 q4" "pCurrTxn q4 = 0"
          using done_enq_inv [OF q3(1) x(1)] q3(3) by auto
        from 1(2) [OF sel(1) refl Some refl refl refl False refl neq q4(1,2,4)] neq
        obtain st q' where "txnQ_SendLoop bus pIn e q4 = Inr (st, q')" "tq_inv q'" "tq_same q4 q'"
          "pCurrTxn q' = 0 \<longrightarrow> tq_idle q'" by auto
        then show ?thesis
          using sel(1) Some False neq q4(1) tq_same_trans [OF q3(2) tq_same_trans [OF q4(3)]]
          by (subst txnQ_SendLoop.simps) (simp add: Let_def)
      qed
    qed
  qed
qed

text \<open>What a function may ask for: a transaction of its own, at a real address.\<close>

definition wlan_req :: "addr \<times> TTxnStruct \<Rightarrow> bool" where
  "wlan_req r \<longleftrightarrow> fst r \<noteq> 0 \<and> txn_wlan (snd r)"

definition client_wlan :: "tq_client \<Rightarrow> bool" where
  "client_wlan client \<longleftrightarrow> (\<forall>tr. list_all wlan_req (client tr))"

text \<open>The client stops issuing transactions from its callbacks after the \<open>n\<close>-th.\<close>

definition client_stops :: "nat \<Rightarrow> tq_client \<Rightarrow> bool" where
  "client_stops n client \<longleftrightarrow> (\<forall>tr. n < tq_calls tr \<longrightarrow> client tr = [])"

lemma mem_inv: "tq_inv q \<Longrightarrow> txn_wlan t \<Longrightarrow> tq_inv (q\<lparr>tq_mem := (tq_mem q)(x := t)\<rparr>)"
  by (rule tq_inv_cong) (auto simp: tq_inv_def tq_shape_def)

lemma Submit_inv:
  assumes i: "tq_inv q" and x: "x \<noteq> 0"
  shows "\<exists>ok q'. txnQ_Submit x q = Inr (ok, q') \<and> tq_inv q' \<and> tq_same q q' \<and> pCurrTxn q' = pCurrTxn q \<and>
    eState (aFuncInfo q' WLAN) = eState (aFuncInfo q WLAN) \<and> (\<not> ok \<longrightarrow> tq_idle q' = tq_idle q)"
proof -
  let ?t = "tq_mem q x"
  obtain p where t: "unat (TXN_PARAM_GET_FUNC_ID ?t) = WLAN" "unat (TXN_PARAM_GET_PRIORITY ?t) = p" "p < MAX_PRIORITY"
    using i by (auto simp: tq_inv_def tq_shape_def txn_wlan_def)
  show ?thesis
  proof (cases "TXN_PARAM_GET_SINGLE_STEP ?t \<noteq> 0")
    case True
    let ?q = "q\<lparr>aFuncInfo := (aFuncInfo q)(WLAN := (aFuncInfo q WLAN)\<lparr>pSingleStep := x\<rparr>)\<rparr>"
    have "tq_inv ?q" using i by (intro tq_inv_cong [OF i]) (auto simp: tq_inv_def tq_shape_def)
    then show ?thesis using True t
      by (intro exI [of _ True] exI [of _ ?q]) (simp add: txnQ_Submit_def Let_def tq_same_def)
  next
    case False
    have live: "tq_live (aTxnQueues q (WLAN, p))" using i t(3) by (simp add: tq_inv_def tq_shape_def)
    obtain st h where h: "tq_enq q x (aTxnQueues q (WLAN, p)) = Inr (st, h)" "tq_live h"
        "tq_items h = (if st = TI_OK then tq_items (aTxnQueues q (WLAN, p)) @ [x] else tq_items (aTxnQueues q (WLAN, p)))"
      using linked_enq [OF live x] by blast
    let ?q = "q\<lparr>aTxnQueues := (aTxnQueues q)((WLAN, p) := h)\<rparr>"
    have sh: "tq_shape ?q" using i h(2) t(3) by (auto simp: tq_inv_def tq_shape_def)
    show ?thesis
    proof (cases "st = TI_OK")
      case True
      let ?q' = "tq_emit (Submitted x (WLAN, p)) ?q"
      have "fifo_run s (tq_trace ?q') = Some (tq_items (aTxnQueues ?q' s))" for s
        using inv_fifo [OF i, of s] h(3) True by (cases "s = (WLAN, p)") auto
      moreover have "tq_shape ?q'" using sh by (simp add: tq_shape_def)
      moreover have "bus_run (tq_trace ?q') = Some (pCurrTxn ?q')" using i by (simp add: tq_inv_def)
      ultimately have "tq_inv ?q'" unfolding tq_inv_def by blast
      then show ?thesis using True False t h(1)
        by (intro exI [of _ True] exI [of _ ?q']) (simp add: txnQ_Submit_def Let_def tq_same_def)
    next
      case bad: False
      have "fifo_run s (tq_trace ?q) = Some (tq_items (aTxnQueues ?q s))" for s
        using inv_fifo [OF i, of s] h(3) bad by (cases "s = (WLAN, p)") auto
      moreover have "bus_run (tq_trace ?q) = Some (pCurrTxn ?q)" using i by (simp add: tq_inv_def)
      ultimately have "tq_inv ?q" using sh unfolding tq_inv_def by blast
      moreover have "tq_idle ?q = tq_idle q"
        using h(3) bad by (auto simp: tq_idle_def split: option.splits)
      ultimately show ?thesis using bad False t h(1)
        by (intro exI [of _ False] exI [of _ ?q]) (simp add: txnQ_Submit_def Let_def tq_same_def)
    qed
  qed
qed

lemma tq_idle_cong:
  "aTxnQueues q' = aTxnQueues q \<Longrightarrow> aFuncInfo q' = aFuncInfo q \<Longrightarrow> pAggregQueue q' = pAggregQueue q \<Longrightarrow>
   tq_idle q' = tq_idle q"
  by (simp add: tq_idle_def cong: option.case_cong)

lemma nested_inv:
  "tq_inv q \<Longrightarrow> list_all wlan_req rs \<Longrightarrow>
   \<exists>q'. tq_nested rs q = Inr q' \<and> tq_inv q' \<and> tq_calls (tq_trace q') = tq_calls (tq_trace q) \<and>
     pCurrTxn q' = pCurrTxn q \<and> bSchedulerBusy q' = bSchedulerBusy q \<and>
     (bSchedulerPend q \<longrightarrow> bSchedulerPend q') \<and> (rs = [] \<longrightarrow> q' = q) \<and>
     (\<not> bSchedulerPend q' \<longrightarrow> tq_idle q' = tq_idle q)"
proof (induction rs arbitrary: q)
  case (Cons r rs)
  obtain x t where r: "r = (x, t)" "x \<noteq> 0" "txn_wlan t"
    using Cons.prems(2) by (cases r) (auto simp: wlan_req_def)
  let ?q = "q\<lparr>tq_mem := (tq_mem q)(x := t)\<rparr>"
  obtain ok q1 where s: "txnQ_Submit x ?q = Inr (ok, q1)" "tq_inv q1" "tq_same ?q q1" "pCurrTxn q1 = pCurrTxn q"
      "\<not> ok \<longrightarrow> tq_idle q1 = tq_idle ?q"
    using Submit_inv [OF mem_inv [OF Cons.prems(1) r(3), of x] r(2)] by auto
  let ?q2 = "if ok then q1\<lparr>bSchedulerPend := True\<rparr> else q1"
  have "tq_inv (q1\<lparr>bSchedulerPend := True\<rparr>)"
    using s(2) by (intro tq_inv_cong [OF s(2)]) (auto simp: tq_inv_def tq_shape_def)
  then have "tq_inv ?q2" using s(2) by simp
  then obtain q' where q': "tq_nested rs ?q2 = Inr q'" "tq_inv q'" "tq_calls (tq_trace q') = tq_calls (tq_trace ?q2)"
      "pCurrTxn q' = pCurrTxn ?q2" "bSchedulerBusy q' = bSchedulerBusy ?q2"
      "bSchedulerPend ?q2 \<longrightarrow> bSchedulerPend q'" "\<not> bSchedulerPend q' \<longrightarrow> tq_idle q' = tq_idle ?q2"
    using Cons.IH [of ?q2] Cons.prems(2) by auto
  have "tq_idle ?q = tq_idle q" by (rule tq_idle_cong) simp_all
  then show ?case using q' s r(1) by (auto simp: tq_same_def split: if_splits)
qed simp

lemma callback_inv:
  assumes i: "tq_inv q" and cl: "client_wlan client"
  shows "\<exists>q'. tq_callback client x q = Inr q' \<and> tq_inv q' \<and> tq_calls (tq_trace q') = Suc (tq_calls (tq_trace q)) \<and>
    pCurrTxn q' = pCurrTxn q \<and> bSchedulerBusy q' = bSchedulerBusy q \<and>
    (bSchedulerPend q \<longrightarrow> bSchedulerPend q') \<and> (\<not> bSchedulerPend q' \<longrightarrow> tq_idle q' = tq_idle q) \<and>
    (client_stops n client \<and> bSchedulerPend q' \<longrightarrow> bSchedulerPend q \<or> tq_calls (tq_trace q) < n)"
proof -
  let ?f = "aFuncInfo q WLAN"
  let ?q = "tq_emit (TxnDoneCb (fTxnQueueDoneCb ?f) (fi_hCbHandle ?f) x) q"
  have f: "unat (TXN_PARAM_GET_FUNC_ID (tq_mem q x)) = WLAN" "fTxnQueueDoneCb ?f \<noteq> 0"
    using i by (auto simp: tq_inv_def tq_shape_def txn_wlan_def)
  have q: "tq_inv ?q" using inv_emit [OF i, of "TxnDoneCb (fTxnQueueDoneCb ?f) (fi_hCbHandle ?f) x" "pCurrTxn q"] by simp
  have "list_all wlan_req (client (tq_trace ?q))" using cl by (simp add: client_wlan_def)
  from nested_inv [OF q this] obtain q' where n: "tq_nested (client (tq_trace ?q)) ?q = Inr q'" "tq_inv q'"
      "tq_calls (tq_trace q') = Suc (tq_calls (tq_trace q))" "pCurrTxn q' = pCurrTxn q"
      "bSchedulerBusy q' = bSchedulerBusy q" "bSchedulerPend q \<longrightarrow> bSchedulerPend q'"
      "client (tq_trace ?q) = [] \<longrightarrow> q' = ?q" "\<not> bSchedulerPend q' \<longrightarrow> tq_idle q' = tq_idle ?q"
    by auto
  have "bSchedulerPend q \<or> tq_calls (tq_trace q) < n" if "client_stops n client" "bSchedulerPend q'"
  proof (rule disjCI)
    assume "\<not> tq_calls (tq_trace q) < n"
    then have "client (tq_trace ?q) = []" using that(1) by (simp add: client_stops_def)
    then show "bSchedulerPend q" using n(7) that(2) by simp
  qed
  moreover have "tq_idle ?q = tq_idle q" by (rule tq_idle_cong) simp_all
  ultimately show ?thesis using n f by (auto simp: tq_callback_def Let_def)
qed

lemma done_deq_inv:
  assumes i: "tq_inv q"
  shows "\<exists>x q'. tq_done_deq q = Inr (x, q') \<and>
    (case x of None \<Rightarrow> q' = q \<and> tq_items (hTxnDoneQueue q) = []
     | Some a \<Rightarrow> tq_inv q' \<and> tq_same q q' \<and> pCurrTxn q' = pCurrTxn q \<and> tq_idle q' = tq_idle q)"
proof -
  obtain Q where Q: "hTxnDoneQueue q = TqLive Q" "0 \<notin> set (aq_items Q)"
    using i by (auto simp: tq_inv_def tq_shape_def tq_live_def)
  show ?thesis
  proof (cases "aq_items Q")
    case Nil
    then show ?thesis using Q by (auto simp: tq_done_deq_def tq_deq_def aq_Dequeue_def tq_items_def)
  next
    case (Cons a xs)
    let ?q = "q\<lparr>hTxnDoneQueue := TqLive (Q\<lparr>aq_items := xs\<rparr>)\<rparr>"
    have "tq_inv ?q" using i Q Cons by (intro tq_inv_cong [OF i]) (auto simp: tq_inv_def tq_shape_def tq_live_def)
    moreover have "tq_idle ?q = tq_idle q" by (rule tq_idle_cong) simp_all
    ultimately show ?thesis using Q Cons
      by (simp add: tq_done_deq_def tq_deq_def aq_Dequeue_def tq_same_def)
  qed
qed

lemma DoneLoop_inv:
  "tq_inv q \<Longrightarrow> client_wlan client \<Longrightarrow>
   \<exists>q'. txnQ_DoneLoop client q = Inr q' \<and> tq_inv q' \<and> tq_items (hTxnDoneQueue q') = [] \<and>
     tq_calls (tq_trace q) \<le> tq_calls (tq_trace q') \<and> pCurrTxn q' = pCurrTxn q \<and>
     bSchedulerBusy q' = bSchedulerBusy q \<and> (\<not> bSchedulerPend q' \<longrightarrow> tq_idle q' = tq_idle q) \<and>
     (bSchedulerPend q \<longrightarrow> bSchedulerPend q') \<and>
     (client_stops n client \<and> bSchedulerPend q' \<and> \<not> bSchedulerPend q \<longrightarrow>
        tq_calls (tq_trace q) < n \<and> tq_calls (tq_trace q) < tq_calls (tq_trace q'))"
proof (induction client q rule: txnQ_DoneLoop.induct)
  case (1 client q)
  obtain x q1 where d: "tq_done_deq q = Inr (x, q1)"
      "case x of None \<Rightarrow> q1 = q \<and> tq_items (hTxnDoneQueue q) = []
       | Some a \<Rightarrow> tq_inv q1 \<and> tq_same q q1 \<and> pCurrTxn q1 = pCurrTxn q \<and> tq_idle q1 = tq_idle q"
    using done_deq_inv [OF 1(2)] by blast
  show ?case
  proof (cases x)
    case None
    then show ?thesis using d 1(2) by (subst txnQ_DoneLoop.simps) simp
  next
    case (Some a)
    then have q1: "tq_inv q1" "tq_same q q1" "pCurrTxn q1 = pCurrTxn q" "tq_idle q1 = tq_idle q"
      using d(2) by auto
    obtain q2 where q2: "tq_callback client a q1 = Inr q2" "tq_inv q2"
        "tq_calls (tq_trace q2) = Suc (tq_calls (tq_trace q1))" "pCurrTxn q2 = pCurrTxn q1"
        "bSchedulerBusy q2 = bSchedulerBusy q1" "bSchedulerPend q1 \<longrightarrow> bSchedulerPend q2"
        "\<not> bSchedulerPend q2 \<longrightarrow> tq_idle q2 = tq_idle q1"
        "client_stops n client \<and> bSchedulerPend q2 \<longrightarrow> bSchedulerPend q1 \<or> tq_calls (tq_trace q1) < n"
      using callback_inv [OF q1(1) 1(3), of a n] by blast
    from 1(1) [OF d(1) refl Some q2(1) q2(2) 1(3)] obtain q3 where q3: "txnQ_DoneLoop client q2 = Inr q3"
        "tq_inv q3" "tq_items (hTxnDoneQueue q3) = []" "tq_calls (tq_trace q2) \<le> tq_calls (tq_trace q3)"
        "pCurrTxn q3 = pCurrTxn q2" "bSchedulerBusy q3 = bSchedulerBusy q2"
        "\<not> bSchedulerPend q3 \<longrightarrow> tq_idle q3 = tq_idle q2" "bSchedulerPend q2 \<longrightarrow> bSchedulerPend q3"
        "client_stops n client \<and> bSchedulerPend q3 \<and> \<not> bSchedulerPend q2 \<longrightarrow>
          tq_calls (tq_trace q2) < n \<and> tq_calls (tq_trace q2) < tq_calls (tq_trace q3)"
      by blast
    have "txnQ_DoneLoop client q = Inr q3"
      using d(1) Some q2(1) q3(1) by (subst txnQ_DoneLoop.simps) simp
    moreover have "bSchedulerBusy q1 = bSchedulerBusy q" "bSchedulerPend q1 = bSchedulerPend q"
        "tq_calls (tq_trace q1) = tq_calls (tq_trace q)"
      using q1(2) by (simp_all add: tq_same_def)
    ultimately show ?thesis using q1 q2 q3 by (intro exI [of _ q3]) auto
  qed
qed

text \<open>Between the operations.\<close>

definition tq_settled :: "TTxnQObj \<Rightarrow> bool" where
  "tq_settled q \<longleftrightarrow> tq_inv q \<and> \<not> bSchedulerBusy q \<and> \<not> bSchedulerPend q \<and> tq_items (hTxnDoneQueue q) = [] \<and>
     (pCurrTxn q = 0 \<longrightarrow> tq_idle q)"

lemma Scheduler_inv:
  assumes i: "tq_inv q" and cl: "client_wlan client" and p: "\<not> bSchedulerPend q"
    and d: "pCurrTxn q = 0 \<or> tq_items (hTxnDoneQueue q) = []"
  shows "\<exists>st q'. txnQ_Scheduler bus client pIn q = Inr (st, q') \<and> tq_inv q' \<and>
    bSchedulerBusy q' = bSchedulerBusy q \<and> tq_items (hTxnDoneQueue q') = [] \<and>
    (\<not> bSchedulerPend q' \<and> pCurrTxn q' = 0 \<longrightarrow> tq_idle q') \<and>
    (client_stops n client \<and> bSchedulerPend q' \<longrightarrow>
       tq_calls (tq_trace q) < n \<and> tq_calls (tq_trace q) < tq_calls (tq_trace q'))"
proof (cases "pCurrTxn q = 0")
  case False
  then show ?thesis using i d p by (simp add: txnQ_Scheduler_def)
next
  case True
  from SendLoop_inv [OF i True, of bus pIn TXN_STATUS_PENDING] obtain st q1 where q1: "txnQ_SendLoop bus pIn TXN_STATUS_PENDING q = Inr (st, q1)"
      "tq_inv q1" "tq_same q q1" "pCurrTxn q1 = 0 \<longrightarrow> tq_idle q1" by auto
  from DoneLoop_inv [OF q1(2) cl, of n] obtain q2 where q2: "txnQ_DoneLoop client q1 = Inr q2" "tq_inv q2"
      "tq_items (hTxnDoneQueue q2) = []" "pCurrTxn q2 = pCurrTxn q1" "bSchedulerBusy q2 = bSchedulerBusy q1"
      "\<not> bSchedulerPend q2 \<longrightarrow> tq_idle q2 = tq_idle q1"
      "client_stops n client \<and> bSchedulerPend q2 \<and> \<not> bSchedulerPend q1 \<longrightarrow>
        tq_calls (tq_trace q1) < n \<and> tq_calls (tq_trace q1) < tq_calls (tq_trace q2)" by blast
  have "txnQ_Scheduler bus client pIn q = Inr (st, q2)"
    using True q1(1) q2(1) by (simp add: txnQ_Scheduler_def)
  then show ?thesis using q1 q2 p by (auto simp: tq_same_def)
qed

lemma pend_busy_inv: "tq_inv q \<Longrightarrow> tq_inv (q\<lparr>bSchedulerPend := b\<rparr>)" "tq_inv q \<Longrightarrow> tq_inv (q\<lparr>bSchedulerBusy := b\<rparr>)"
  by (auto simp: tq_inv_def tq_shape_def)

lemma idle_flags [simp]: "tq_idle (q\<lparr>bSchedulerPend := b\<rparr>) = tq_idle q" "tq_idle (q\<lparr>bSchedulerBusy := b\<rparr>) = tq_idle q"
  by (rule tq_idle_cong; simp)+

lemma RunPending_settles:
  assumes cl: "client_wlan client" and st: "client_stops n client"
  shows "tq_inv q \<Longrightarrow> tq_items (hTxnDoneQueue q) = [] \<Longrightarrow> (\<not> bSchedulerPend q \<and> pCurrTxn q = 0 \<longrightarrow> tq_idle q) \<Longrightarrow>
    \<exists>q'. txnQ_RunPending bus client q = Some (Inr q') \<and> tq_settled q'"
proof (induction "n - tq_calls (tq_trace q)" arbitrary: q rule: less_induct)
  case less
  have fin: "txnQ_RunPending bus client x = Some (Inr (x\<lparr>bSchedulerBusy := False\<rparr>)) \<and>
      tq_settled (x\<lparr>bSchedulerBusy := False\<rparr>)"
    if "tq_inv x" "\<not> bSchedulerPend x" "tq_items (hTxnDoneQueue x) = []" "pCurrTxn x = 0 \<longrightarrow> tq_idle x" for x
    using that by (subst txnQ_RunPending.simps) (simp add: tq_settled_def pend_busy_inv)
  show ?case
  proof (cases "bSchedulerPend q")
    case False
    then show ?thesis using fin [of q] less.prems by auto
  next
    case True
    let ?q = "q\<lparr>bSchedulerPend := False\<rparr>"
    from Scheduler_inv [OF pend_busy_inv(1) [OF less.prems(1)] cl, of False bus 0 n] less.prems(2)
    obtain s q1 where q1: "txnQ_Scheduler bus client 0 ?q = Inr (s, q1)" "tq_inv q1"
        "tq_items (hTxnDoneQueue q1) = []" "\<not> bSchedulerPend q1 \<and> pCurrTxn q1 = 0 \<longrightarrow> tq_idle q1"
        "bSchedulerPend q1 \<longrightarrow> tq_calls (tq_trace q) < n \<and> tq_calls (tq_trace q) < tq_calls (tq_trace q1)"
      using st by auto
    have u: "txnQ_RunPending bus client q = txnQ_RunPending bus client q1"
      using True q1(1) by (subst txnQ_RunPending.simps) simp
    show ?thesis
    proof (cases "bSchedulerPend q1")
      case True
      then have "n - tq_calls (tq_trace q1) < n - tq_calls (tq_trace q)" using q1(5) by auto
      from less.hyps [OF this q1(2,3)] q1(4) show ?thesis unfolding u by blast
    next
      case False
      then show ?thesis using fin [of q1] q1(2,3,4) unfolding u by auto
    qed
  qed
qed

lemma RunScheduler_settles:
  assumes i: "tq_inv q" and fl: "\<not> bSchedulerBusy q" "\<not> bSchedulerPend q"
    and d: "pCurrTxn q = 0 \<or> tq_items (hTxnDoneQueue q) = []"
    and cl: "client_wlan client" "client_stops n client"
  shows "\<exists>st q'. txnQ_RunScheduler bus client pIn q = Some (Inr (st, q')) \<and> tq_settled q'"
proof -
  from Scheduler_inv [OF pend_busy_inv(2) [OF i] cl(1), of True bus pIn n] fl d
  obtain st q1 where q1: "txnQ_Scheduler bus client pIn (q\<lparr>bSchedulerBusy := True\<rparr>) = Inr (st, q1)" "tq_inv q1"
      "tq_items (hTxnDoneQueue q1) = []" "\<not> bSchedulerPend q1 \<and> pCurrTxn q1 = 0 \<longrightarrow> tq_idle q1" by auto
  from RunPending_settles [OF cl q1(2,3,4)] obtain q' where
    "txnQ_RunPending bus client q1 = Some (Inr q')" "tq_settled q'" by blast
  then show ?thesis using q1(1) fl by (simp add: txnQ_RunScheduler_def)
qed

section \<open>Operations\<close>

lemma Transact_settles:
  assumes s: "tq_settled q" and x: "x \<noteq> 0" and cl: "client_wlan client" "client_stops n client"
  shows "\<exists>st q'. txnQ_Transact bus client x q = Some (Inr (st, q')) \<and> tq_settled q'"
proof -
  have i: "tq_inv q" using s by (simp add: tq_settled_def)
  obtain ok q1 where q1: "txnQ_Submit x q = Inr (ok, q1)" "tq_inv q1" "tq_same q q1" "pCurrTxn q1 = pCurrTxn q"
      "\<not> ok \<longrightarrow> tq_idle q1 = tq_idle q"
    using Submit_inv [OF i x] by blast
  have fl: "\<not> bSchedulerBusy q1" "\<not> bSchedulerPend q1" "tq_items (hTxnDoneQueue q1) = []"
    using q1(3) s Submit_frame [OF q1(1)] by (auto simp: tq_same_def tq_settled_def)
  show ?thesis
  proof (cases ok)
    case True
    then show ?thesis using q1(1) RunScheduler_settles [OF q1(2) fl(1,2) _ cl, of bus x] fl(3)
      by (simp add: txnQ_Transact_def)
  next
    case False
    then have "tq_settled q1" using q1 fl s by (simp add: tq_settled_def)
    then show ?thesis using q1(1) False by (simp add: txnQ_Transact_def)
  qed
qed

lemma shape_state:
  "tq_shape q \<Longrightarrow> st \<noteq> FUNC_STATE_NONE \<Longrightarrow> tq_shape (tq_set_state WLAN st q)"
  by (auto simp: tq_shape_def tq_set_state_def)

lemma set_state_sel [simp]:
  "aTxnQueues (tq_set_state f st q) = aTxnQueues q" "tq_trace (tq_set_state f st q) = tq_trace q"
  "pCurrTxn (tq_set_state f st q) = pCurrTxn q" "hTxnDoneQueue (tq_set_state f st q) = hTxnDoneQueue q"
  "bSchedulerBusy (tq_set_state f st q) = bSchedulerBusy q" "bSchedulerPend (tq_set_state f st q) = bSchedulerPend q"
  "pAggregQueue (tq_set_state f st q) = pAggregQueue q" "tq_mem (tq_set_state f st q) = tq_mem q"
  by (simp_all add: tq_set_state_def)

lemma set_state_inv: "tq_inv q \<Longrightarrow> st \<noteq> FUNC_STATE_NONE \<Longrightarrow> tq_inv (tq_set_state WLAN st q)"
  by (rule tq_inv_cong) (auto simp: tq_inv_def intro: shape_state)

lemma Run_settles:
  assumes s: "tq_settled q" and cl: "client_wlan client" "client_stops n client"
  shows "\<exists>q'. txnQ_Run bus client WLAN q = Some (Inr q') \<and> tq_settled q'"
proof -
  let ?q = "tq_set_state WLAN FUNC_STATE_RUNNING q"
  have "tq_inv ?q" using s by (intro set_state_inv) (simp_all add: tq_settled_def)
  from RunScheduler_settles [OF this _ _ _ cl, of bus 0] s show ?thesis
    by (auto simp: txnQ_Run_def tq_settled_def)
qed

lemma idle_stop: "tq_idle q \<Longrightarrow> st \<noteq> FUNC_STATE_RUNNING \<Longrightarrow> tq_idle (tq_set_state WLAN st q)"
  by (auto simp: tq_idle_def tq_set_state_def split: option.splits)

lemma Stop_settles:
  assumes "tq_settled q"
  shows "\<exists>q'. txnQ_Stop WLAN q = Inr q' \<and> tq_settled q'"
  using assms by (auto simp: txnQ_Stop_def tq_settled_def set_state_inv idle_stop)

lemma clear_slots_result:
  "(\<forall>s \<in> set ss. tq_live (aTxnQueues q s)) \<Longrightarrow>
   \<exists>h. tq_clear_slots ss q = Inr (q\<lparr>aTxnQueues := h\<rparr>) \<and>
     (\<forall>s. if s \<in> set ss then tq_live (h s) \<and> tq_items (h s) = [] else h s = aTxnQueues q s)"
proof (induction ss arbitrary: q)
  case Nil
  show ?case by (rule exI [of _ "aTxnQueues q"]) simp
next
  case (Cons s ss)
  obtain Q where Q: "aTxnQueues q s = TqLive Q" using Cons.prems by (auto simp: tq_live_def)
  let ?q = "q\<lparr>aTxnQueues := (aTxnQueues q)(s := TqLive (Q\<lparr>aq_items := []\<rparr>))\<rparr>"
  have "\<forall>t \<in> set ss. tq_live (aTxnQueues ?q t)" using Cons.prems by (auto simp: tq_live_def)
  from Cons.IH [OF this] obtain h where h: "tq_clear_slots ss ?q = Inr (?q\<lparr>aTxnQueues := h\<rparr>)"
      "\<forall>t. if t \<in> set ss then tq_live (h t) \<and> tq_items (h t) = [] else h t = aTxnQueues ?q t" by blast
  have "if t \<in> set (s # ss) then tq_live (h t) \<and> tq_items (h t) = [] else h t = aTxnQueues q t" for t
    using h(2) [rule_format, of t] by (cases "t = s"; cases "t \<in> set ss") (auto simp: tq_live_def tq_items_def)
  then show ?case using h(1) Q by (intro exI [of _ h]) (simp add: tq_clear_handle_def)
qed

lemma ClearQueues_inv:
  assumes i: "tq_inv q"
  shows "\<exists>q'. txnQ_ClearQueues WLAN q = Inr q' \<and> tq_inv q' \<and> tq_same q q' \<and> pCurrTxn q' = pCurrTxn q \<and>
    hTxnDoneQueue q' = hTxnDoneQueue q \<and> tq_idle q' \<and> pAggregQueue q' = pAggregQueue q \<and> tq_mem q' = tq_mem q \<and>
    fTxnQueueDoneCb (aFuncInfo q' WLAN) \<noteq> 0"
proof -
  have sh: "tq_shape q" using i by (simp add: tq_inv_def)
  let ?q1 = "q\<lparr>aFuncInfo := (aFuncInfo q)(WLAN := (aFuncInfo q WLAN)\<lparr>pSingleStep := 0\<rparr>)\<rparr>"
  let ?ss = "map (\<lambda>p. (WLAN, p)) [0..<uNumPrios (aFuncInfo ?q1 WLAN)]"
  have "\<forall>s \<in> set ?ss. tq_live (aTxnQueues ?q1 s)" using sh by (auto simp: tq_shape_def)
  from clear_slots_result [OF this] obtain h where h: "tq_clear_slots ?ss ?q1 = Inr (?q1\<lparr>aTxnQueues := h\<rparr>)"
      "\<forall>s. if s \<in> set ?ss then tq_live (h s) \<and> tq_items (h s) = [] else h s = aTxnQueues ?q1 s" by blast
  have hs: "h s = aTxnQueues q s" if "fst s \<noteq> WLAN \<or> MAX_PRIORITY \<le> snd s" for s
    using h(2) [rule_format, of s] that sh by (cases s) (auto simp: tq_shape_def split: if_splits)
  have hw: "tq_live (h (WLAN, p)) \<and> tq_items (h (WLAN, p)) = []" if "p < MAX_PRIORITY" for p
    using h(2) [rule_format, of "(WLAN, p)"] that sh by (auto simp: tq_shape_def)
  define q' where "q' = tq_set_state WLAN FUNC_STATE_RUNNING (tq_emit (Cleared WLAN) (?q1\<lparr>aTxnQueues := h\<rparr>))"
  have "txnQ_ClearQueues WLAN q = Inr q'"
    unfolding txnQ_ClearQueues_def Let_def h(1) q'_def by simp
  moreover have shape: "tq_shape q'"
    using sh hs hw by (auto simp: q'_def tq_shape_def tq_set_state_def)
  moreover have "fifo_run s (tq_trace q') = Some (tq_items (aTxnQueues q' s))" for s
  proof (cases "fst s = WLAN")
    case True
    have "tq_items (h s) = []"
    proof (cases "snd s < MAX_PRIORITY")
      case True2: True
      have "s = (WLAN, snd s)" using True by (cases s) simp
      with hw [OF True2] show ?thesis by metis
    next
      case False
      then show ?thesis using hs [of s] sh by (cases s) (auto simp: tq_shape_def tq_items_def)
    qed
    then show ?thesis using inv_fifo [OF i, of s] True by (simp add: q'_def)
  next
    case False
    then show ?thesis using inv_fifo [OF i, of s] hs [of s] by (simp add: q'_def)
  qed
  moreover have "bus_run (tq_trace q') = Some (pCurrTxn q')" using i by (simp add: q'_def tq_inv_def)
  ultimately have r: "txnQ_ClearQueues WLAN q = Inr q'" "tq_inv q'" unfolding tq_inv_def by blast+
  have "tq_idle q'"
  proof (cases "pAggregQueue q")
    case None
    then show ?thesis using hw by (simp add: q'_def tq_idle_def tq_set_state_def)
  next
    case (Some s)
    then have "fst s = WLAN" "snd s < MAX_PRIORITY" using sh by (auto simp: tq_shape_def)
    then have "tq_items (h s) = []" using hw [of "snd s"] by (cases s) simp
    then show ?thesis using Some by (simp add: q'_def tq_idle_def)
  qed
  moreover have "fTxnQueueDoneCb (aFuncInfo q' WLAN) \<noteq> 0" using shape by (simp add: tq_shape_def)
  ultimately show ?thesis using r by (auto simp: q'_def tq_same_def)
qed

lemma Restart_settles:
  assumes s: "tq_settled q"
  shows "\<exists>st q'. txnQ_Restart WLAN q = Inr (st, q') \<and> tq_settled q'"
proof (cases "pCurrTxn q \<noteq> 0")
  case True
  have i: "tq_inv q" using s by (simp add: tq_settled_def)
  then have "unat (TXN_PARAM_GET_FUNC_ID (tq_mem q (pCurrTxn q))) = WLAN"
    by (simp add: tq_inv_def tq_shape_def txn_wlan_def)
  then show ?thesis using True s by (simp add: txnQ_Restart_def tq_settled_def set_state_inv)
next
  case False
  obtain q' where "txnQ_ClearQueues WLAN q = Inr q'" "tq_inv q'" "tq_same q q'" "hTxnDoneQueue q' = hTxnDoneQueue q"
      "tq_idle q'"
    using ClearQueues_inv [of q] s by (auto simp: tq_settled_def)
  then show ?thesis using False s by (auto simp: txnQ_Restart_def tq_settled_def tq_same_def)
qed

lemma blocked_transact:
  assumes i: "tq_inv q" and x: "x \<noteq> 0" and c: "pCurrTxn q \<noteq> 0" and fl: "\<not> bSchedulerBusy q" "\<not> bSchedulerPend q"
  shows "\<exists>st q'. txnQ_Transact bus client x q = Some (Inr (st, q')) \<and> tq_inv q' \<and> pCurrTxn q' = pCurrTxn q \<and>
    hTxnDoneQueue q' = hTxnDoneQueue q \<and> \<not> bSchedulerBusy q' \<and> \<not> bSchedulerPend q'"
proof -
  obtain ok q1 where q1: "txnQ_Submit x q = Inr (ok, q1)" "tq_inv q1" "tq_same q q1" "pCurrTxn q1 = pCurrTxn q"
    using Submit_inv [OF i x] by blast
  have h: "hTxnDoneQueue q1 = hTxnDoneQueue q" using Submit_frame [OF q1(1)] by simp
  have f: "\<not> bSchedulerBusy q1" "\<not> bSchedulerPend q1" using q1(3) fl by (auto simp: tq_same_def)
  have "txnQ_RunPending bus client (q1\<lparr>bSchedulerBusy := True\<rparr>) = Some (Inr (q1\<lparr>bSchedulerBusy := False\<rparr>))"
    using f by (subst txnQ_RunPending.simps) simp
  moreover have "q1\<lparr>bSchedulerBusy := False\<rparr> = q1" using f by simp
  ultimately have "txnQ_RunScheduler bus client x q1 = Some (Inr (TXN_STATUS_PENDING, q1))"
    using f c q1(4) by (simp add: txnQ_RunScheduler_def txnQ_Scheduler_def)
  then show ?thesis using q1 h f by (cases ok) (auto simp: txnQ_Transact_def)
qed

lemma transact_all_blocked:
  "tq_inv q \<Longrightarrow> list_all wlan_req rs \<Longrightarrow> pCurrTxn q \<noteq> 0 \<Longrightarrow> \<not> bSchedulerBusy q \<Longrightarrow> \<not> bSchedulerPend q \<Longrightarrow>
   \<exists>q'. tq_transact_all bus rs q = Some (Inr q') \<and> tq_inv q' \<and> pCurrTxn q' = pCurrTxn q \<and>
     hTxnDoneQueue q' = hTxnDoneQueue q \<and> \<not> bSchedulerBusy q' \<and> \<not> bSchedulerPend q'"
proof (induction rs arbitrary: q)
  case (Cons r rs)
  obtain x t where r: "r = (x, t)" "x \<noteq> 0" "txn_wlan t"
    using Cons.prems(2) by (cases r) (auto simp: wlan_req_def)
  let ?q = "q\<lparr>tq_mem := (tq_mem q)(x := t)\<rparr>"
  have "\<not> bSchedulerBusy ?q" "\<not> bSchedulerPend ?q" "pCurrTxn ?q \<noteq> 0" using Cons.prems by simp_all
  from blocked_transact [OF mem_inv [OF Cons.prems(1) r(3), of x] r(2) this(3,1,2), of bus no_client]
  obtain st q1 where q1: "txnQ_Transact bus no_client x ?q = Some (Inr (st, q1))" "tq_inv q1" "pCurrTxn q1 = pCurrTxn q"
    "hTxnDoneQueue q1 = hTxnDoneQueue q" "\<not> bSchedulerBusy q1" "\<not> bSchedulerPend q1" by auto
  from Cons.IH [OF q1(2)] Cons.prems(2,3) q1 show ?case by (simp add: r(1))
qed simp

lemma set_status_wlan: "txn_wlan t \<Longrightarrow> txn_wlan (TXN_PARAM_SET_STATUS t TXN_PARAM_STATUS_RECOVERY)"
proof -
  have v: "push_bit 8 TXN_PARAM_STATUS_RECOVERY AND NOT (0x00000F00 :: u32) = 0"
    using txn_in_mask(7) [of TXN_PARAM_STATUS_RECOVERY] by (simp add: TXN_PARAM_STATUS_RECOVERY_def)
  have "TXN_PARAM_GET_FUNC_ID (TXN_PARAM_SET_STATUS t TXN_PARAM_STATUS_RECOVERY) = TXN_PARAM_GET_FUNC_ID t"
      "TXN_PARAM_GET_PRIORITY (TXN_PARAM_SET_STATUS t TXN_PARAM_STATUS_RECOVERY) = TXN_PARAM_GET_PRIORITY t"
    using field_other [OF v, of "0x0000000C" "uTxnParams t"] field_other [OF v, of "0x00000003" "uTxnParams t"]
    by (simp_all add: TXN_PARAM_GET_FUNC_ID_def TXN_PARAM_GET_PRIORITY_def TXN_PARAM_SET_STATUS_def)
  then show "txn_wlan t \<Longrightarrow> txn_wlan (TXN_PARAM_SET_STATUS t TXN_PARAM_STATUS_RECOVERY)"
    by (simp add: txn_wlan_def)
qed

lemma finish_settles:
  assumes i: "tq_inv q" "pCurrTxn q = x" and fl: "\<not> bSchedulerBusy q" "\<not> bSchedulerPend q"
    and cl: "client_wlan client" "client_stops n client"
  shows "\<exists>q'. map_option (map_sum id snd) (txnQ_RunScheduler bus client 0 (tq_emit (BusDone x) (q\<lparr>pCurrTxn := 0\<rparr>))) =
    Some (Inr q') \<and> tq_settled q'"
proof -
  have "tq_inv (tq_emit (BusDone x) (q\<lparr>pCurrTxn := 0\<rparr>))" using i by (intro inv_emit) simp_all
  from RunScheduler_settles [OF this _ _ _ cl, of bus 0] fl show ?thesis by auto
qed

lemma TxnDoneCb_settles:
  assumes s: "tq_settled q" and x: "pCurrTxn q = x" "x \<noteq> 0" and cl: "client_wlan client" "client_stops n client"
  shows "\<exists>q'. txnQ_TxnDoneCb bus client x q = Some (Inr q') \<and> tq_settled q'"
proof -
  have i: "tq_inv q" and fl: "\<not> bSchedulerBusy q" "\<not> bSchedulerPend q" using s by (simp_all add: tq_settled_def)
  then have f: "unat (TXN_PARAM_GET_FUNC_ID (tq_mem q x)) = WLAN" "txn_wlan (tq_mem q x)"
    by (simp_all add: tq_inv_def tq_shape_def txn_wlan_def)
  show ?thesis
  proof (cases "eState (aFuncInfo q WLAN) = FUNC_STATE_RESTART")
    case False
    obtain q1 where q1: "tq_done_enq x q = Inr q1" "tq_inv q1" "tq_same q q1" "pCurrTxn q1 = x"
      using done_enq_inv [OF i x(2)] x(1) by auto
    then have "\<not> bSchedulerBusy q1" "\<not> bSchedulerPend q1" using fl by (auto simp: tq_same_def)
    from finish_settles [OF q1(2,4) this cl, of bus] show ?thesis
      using q1(1) f(1) False by (simp add: txnQ_TxnDoneCb_def Let_def)
  next
    case True
    obtain q1 where q1: "txnQ_ClearQueues WLAN q = Inr q1" "tq_inv q1" "tq_same q q1" "pCurrTxn q1 = x"
        "tq_mem q1 = tq_mem q" "fTxnQueueDoneCb (aFuncInfo q1 WLAN) \<noteq> 0"
      using ClearQueues_inv [OF i] x(1) by auto
    let ?q2 = "q1\<lparr>tq_mem := (tq_mem q1)(x := TXN_PARAM_SET_STATUS (tq_mem q1 x) TXN_PARAM_STATUS_RECOVERY)\<rparr>"
    let ?e = "TxnDoneCb (fTxnQueueDoneCb (aFuncInfo q1 WLAN)) (fi_hCbHandle (aFuncInfo q1 WLAN)) x"
    let ?q3 = "tq_emit ?e ?q2"
    have "tq_inv ?q2" using q1(2,5) f(2) by (intro mem_inv set_status_wlan) simp_all
    then have q3: "tq_inv ?q3" using inv_emit [of ?q2 ?e "pCurrTxn ?q2"] by simp
    have "list_all wlan_req (client (tq_trace ?q3))" using cl(1) by (simp add: client_wlan_def)
    moreover have "pCurrTxn ?q3 \<noteq> 0" "\<not> bSchedulerBusy ?q3" "\<not> bSchedulerPend ?q3"
      using q1(3,4) x(2) fl by (auto simp: tq_same_def)
    ultimately obtain q4 where q4: "tq_transact_all bus (client (tq_trace ?q3)) ?q3 = Some (Inr q4)" "tq_inv q4"
        "pCurrTxn q4 = x" "\<not> bSchedulerBusy q4" "\<not> bSchedulerPend q4"
      using transact_all_blocked [OF q3, of "client (tq_trace ?q3)" bus] q1(4) by auto
    from finish_settles [OF q4(2,3,4,5) cl, of bus] show ?thesis
      using q1(1,6) q4(1) f(1) True by (simp add: txnQ_TxnDoneCb_def Let_def)
  qed
qed

section \<open>Reachable states\<close>

text \<open>What \<open>twIf_Init\<close> sets up.\<close>

definition tq_start :: "addr \<Rightarrow> addr \<Rightarrow> TTxnQObj \<Rightarrow> ti_status \<times> TTxnQObj" where
  "tq_start f h q = txnQ_Open WLAN MAX_PRIORITY f h (\<lambda>_. True) (txnQ_Init True q)"

lemma start_settles:
  assumes "txnQ_Create a b mem = Some q" "\<forall>x. txn_wlan (mem x)" "f \<noteq> 0"
  shows "\<exists>q'. tq_start f h q = (TI_OK, q') \<and> tq_settled q' \<and> hTxnDoneQueue q' = TqLive (aq_Create TXN_DONE_QUE_SIZE) \<and>
    (\<forall>p < MAX_PRIORITY. aTxnQueues q' (WLAN, p) = TqLive (aq_Create TXN_QUE_SIZE)) \<and> pCurrTxn q' = 0 \<and> tq_mem q' = mem \<and>
    pSingleStep (aFuncInfo q' WLAN) = 0"
proof -
  have two: "p = 0 \<or> p = 1" if "p < MAX_PRIORITY" for p using that by (auto simp: MAX_PRIORITY_def)
  have q: "q = \<lparr>aFuncInfo = (\<lambda>_. func_zero), aTxnQueues = (\<lambda>_. TqNull), hTxnDoneQueue = TqNull, pCurrTxn = 0,
      uMinFuncId = MAX_FUNCTIONS, uMaxFuncId = 0, bSchedulerBusy = False, bSchedulerPend = False,
      fConnectCb = 0, hConnectCb = 0, pAggregQueue = None, tq_mem = mem, tq_trace = []\<rparr>"
    using assms(1) by (simp add: txnQ_Create_def split: if_splits)
  define q' where "q' = snd (tq_start f h q)"
  have M: "MAX_PRIORITY = Suc (Suc 0)" by (simp add: MAX_PRIORITY_def)
  have lt: "\<not> WLAN \<ge> MAX_FUNCTIONS" "WLAN < MAX_FUNCTIONS" "0 < WLAN" by (simp_all add: WLAN_def MAX_FUNCTIONS_def)
  have r: "tq_start f h q = (TI_OK, q')"
    using lt by (simp add: q'_def tq_start_def txnQ_Open_def txnQ_Init_def Let_def M q)
  have q'_eq: "q' = \<lparr>aFuncInfo = (\<lambda>_. func_zero)(WLAN := func_zero\<lparr>uNumPrios := MAX_PRIORITY, fTxnQueueDoneCb := f,
        fi_hCbHandle := h, eState := FUNC_STATE_STOPPED\<rparr>),
      aTxnQueues = (\<lambda>_. TqNull)((WLAN, 0) := TqLive (aq_Create TXN_QUE_SIZE), (WLAN, 1) := TqLive (aq_Create TXN_QUE_SIZE)),
      hTxnDoneQueue = TqLive (aq_Create TXN_DONE_QUE_SIZE), pCurrTxn = 0, uMinFuncId = WLAN, uMaxFuncId = WLAN,
      bSchedulerBusy = False, bSchedulerPend = False, fConnectCb = 0, hConnectCb = 0, pAggregQueue = None,
      tq_mem = mem, tq_trace = [Cleared WLAN]\<rparr>"
    using lt by (simp add: q'_def tq_start_def txnQ_Open_def txnQ_Init_def Let_def M q tq_emit_def)
  have "tq_shape q'"
    using assms(2,3) two by (auto simp: q'_eq tq_shape_def tq_live_def aq_Create_def func_zero_def MAX_PRIORITY_def)
  moreover have "fifo_run s (tq_trace q') = Some (tq_items (aTxnQueues q' s))" for s
    by (simp add: q'_eq fifo_run_def tq_items_def aq_Create_def)
  moreover have "bus_run (tq_trace q') = Some (pCurrTxn q')" by (simp add: q'_eq bus_run_def)
  ultimately have "tq_inv q'" unfolding tq_inv_def by blast
  then have "tq_settled q'"
    by (simp add: tq_settled_def q'_eq tq_items_def aq_Create_def tq_idle_def func_zero_def)
  moreover have "aTxnQueues q' (WLAN, p) = TqLive (aq_Create TXN_QUE_SIZE)" if "p < MAX_PRIORITY" for p
    using two [OF that] by (auto simp: q'_eq)
  ultimately show ?thesis using r by (intro exI [of _ q']) (simp add: q'_eq func_zero_def)
qed

inductive tq_reach :: "TTxnQObj \<Rightarrow> bool" where
  tq_reach_start: "txnQ_Create a b mem = Some q \<Longrightarrow> \<forall>x. txn_wlan (mem x) \<Longrightarrow> f \<noteq> 0 \<Longrightarrow>
    tq_start f h q = (TI_OK, q') \<Longrightarrow> tq_reach q'"
| tq_reach_transact: "tq_reach q \<Longrightarrow> wlan_req (x, t) \<Longrightarrow> client_wlan client \<Longrightarrow> client_stops n client \<Longrightarrow>
    txnQ_Transact bus client x (q\<lparr>tq_mem := (tq_mem q)(x := t)\<rparr>) = Some (Inr (st, q')) \<Longrightarrow> tq_reach q'"
| tq_reach_done: "tq_reach q \<Longrightarrow> pCurrTxn q \<noteq> 0 \<Longrightarrow> client_wlan client \<Longrightarrow> client_stops n client \<Longrightarrow>
    txnQ_TxnDoneCb bus client (pCurrTxn q) q = Some (Inr q') \<Longrightarrow> tq_reach q'"
| tq_reach_run: "tq_reach q \<Longrightarrow> client_wlan client \<Longrightarrow> client_stops n client \<Longrightarrow>
    txnQ_Run bus client WLAN q = Some (Inr q') \<Longrightarrow> tq_reach q'"
| tq_reach_stop: "tq_reach q \<Longrightarrow> txnQ_Stop WLAN q = Inr q' \<Longrightarrow> tq_reach q'"
| tq_reach_restart: "tq_reach q \<Longrightarrow> txnQ_Restart WLAN q = Inr (st, q') \<Longrightarrow> tq_reach q'"
| tq_reach_clear: "tq_reach q \<Longrightarrow> txnQ_ClearQueues WLAN q = Inr q' \<Longrightarrow> tq_reach q'"

lemma settled_mem:
  assumes "tq_settled q" "txn_wlan t"
  shows "tq_settled (q\<lparr>tq_mem := (tq_mem q)(x := t)\<rparr>)"
proof -
  have "tq_idle (q\<lparr>tq_mem := (tq_mem q)(x := t)\<rparr>) = tq_idle q" by (rule tq_idle_cong) simp_all
  then show ?thesis using assms mem_inv [of q t x] by (simp add: tq_settled_def)
qed

lemma reach_settled: "tq_reach q \<Longrightarrow> tq_settled q"
proof (induction rule: tq_reach.induct)
  case (tq_reach_start a b mem q f h q') then show ?case using start_settles [of a b mem q f h] by auto
next
  case (tq_reach_transact q x t client n bus st q')
  then have "tq_settled (q\<lparr>tq_mem := (tq_mem q)(x := t)\<rparr>)" "x \<noteq> 0" by (auto simp: wlan_req_def intro: settled_mem)
  from Transact_settles [OF this tq_reach_transact(3,4), of bus] tq_reach_transact(5) show ?case by auto
next
  case (tq_reach_done q client n bus q')
  from TxnDoneCb_settles [OF tq_reach_done(6) refl tq_reach_done(2,3,4), of bus] tq_reach_done(5) show ?case by auto
next
  case (tq_reach_run q client n bus q') then show ?case using Run_settles [of q client n bus] by auto
next
  case (tq_reach_stop q q') then show ?case using Stop_settles [of q] by auto
next
  case (tq_reach_restart q st q') then show ?case using Restart_settles [of q] by auto
next
  case (tq_reach_clear q q')
  then have s: "tq_settled q" by simp
  then show ?case using ClearQueues_inv [of q] tq_reach_clear(2) by (auto simp: tq_settled_def tq_same_def)
qed

section \<open>Properties\<close>

definition demo_txn :: "u32 \<Rightarrow> TTxnStruct" where
  "demo_txn w = TTxnStruct_zero\<lparr>uTxnParams := w\<rparr>"

definition demo_txnq :: TTxnQObj where
  "demo_txnq = snd (tq_start 50 60 (the (txnQ_Create 1 2 (\<lambda>_. demo_txn 8))))"

text \<open>\<open>8\<close>: a high priority write of function WLAN; \<open>9\<close>: a low priority one; \<open>136\<close>: single step.\<close>

lemma demo_txn_wlan [simp]: "txn_wlan (demo_txn 8)" "txn_wlan (demo_txn 9)" "txn_wlan (demo_txn 136)"
  by (simp_all add: txn_wlan_def demo_txn_def TXN_PARAM_GET_FUNC_ID_def TXN_PARAM_GET_PRIORITY_def WLAN_def
      MAX_PRIORITY_def TTxnStruct_zero_def drop_bit_eq_div)

lemma demo_txnq_reach: "tq_reach demo_txnq"
proof -
  let ?q = "the (txnQ_Create 1 2 (\<lambda>_. demo_txn 8))"
  have c: "txnQ_Create 1 2 (\<lambda>_. demo_txn 8) = Some ?q" by (simp add: txnQ_Create_def)
  have m: "\<forall>x. txn_wlan ((\<lambda>_. demo_txn 8) x)" by simp
  obtain q' where "tq_start 50 60 ?q = (TI_OK, q')" using start_settles [OF c m, of 50 60] by auto
  moreover from this have "q' = demo_txnq" by (simp add: demo_txnq_def)
  ultimately show ?thesis using tq_reach_start [OF c m, of 50 60 q'] by simp
qed

lemma no_client_ok [simp]: "client_wlan no_client" "client_stops n no_client"
  by (simp_all add: client_wlan_def client_stops_def no_client_def)

text \<open>C3: In every reachable state the record of events obeys the specification: each of the queues
  is a FIFO (what the scheduler takes out is always the oldest transaction submitted to that queue
  and not cleared, and the queue holds exactly the rest), and the bus driver is given one transaction
  at a time, the next one only after the completion of the last.\<close>

theorem txnQ_fifo_one_at_a_time:
  assumes "tq_reach q"
  shows "(\<forall>s. fifo_run s (tq_trace q) = Some (tq_items (aTxnQueues q s))) \<and>
    bus_run (tq_trace q) = Some (pCurrTxn q)"
  using reach_settled [OF assms] by (simp add: tq_settled_def tq_inv_def)

theorem txnQ_fifo_one_at_a_time_witness:
  "\<exists>q' st. txnQ_Transact (\<lambda>_. TXN_STATUS_PENDING) no_client 7
      (demo_txnq\<lparr>tq_mem := (tq_mem demo_txnq)(7 := demo_txn 9)\<rparr>) = Some (Inr (st, q')) \<and>
    fifo_run (WLAN, 1) (tq_trace q') = Some (tq_items (aTxnQueues q' (WLAN, 1))) \<and>
    bus_run (tq_trace q') = Some (pCurrTxn q')"
proof -
  have w: "wlan_req (7, demo_txn 9)" by (simp add: wlan_req_def)
  have "tq_settled (demo_txnq\<lparr>tq_mem := (tq_mem demo_txnq)(7 := demo_txn 9)\<rparr>)"
    by (rule settled_mem [OF reach_settled [OF demo_txnq_reach]]) simp
  from Transact_settles [OF this _ no_client_ok, of 7 "\<lambda>_. TXN_STATUS_PENDING"] obtain st q' where
    q': "txnQ_Transact (\<lambda>_. TXN_STATUS_PENDING) no_client 7
      (demo_txnq\<lparr>tq_mem := (tq_mem demo_txnq)(7 := demo_txn 9)\<rparr>) = Some (Inr (st, q'))" by auto
  have "tq_reach q'" using tq_reach_transact [OF demo_txnq_reach w no_client_ok q'] .
  from txnQ_fifo_one_at_a_time [OF this] q' show ?thesis by blast
qed

text \<open>C16: The scheduler ends and leaves no work behind. When the callbacks of the function stop
  issuing transactions at some point, inserting a transaction and the completion of one return from
  every reachable state, without a fault, and then either the bus is busy or nothing can be
  selected: the aggregation in progress waits for its next transaction, or, without one, there is no
  single step transaction and the queues of a running function are empty.\<close>

theorem txnQ_scheduler_leaves_no_work:
  assumes "tq_reach q" "wlan_req (x, t)" "client_wlan client" "client_stops n client"
  shows "(\<exists>st q'. txnQ_Transact bus client x (q\<lparr>tq_mem := (tq_mem q)(x := t)\<rparr>) = Some (Inr (st, q')) \<and>
      (pCurrTxn q' \<noteq> 0 \<or> tq_idle q')) \<and>
    (pCurrTxn q = 0 \<or>
      (\<exists>q'. txnQ_TxnDoneCb bus client (pCurrTxn q) q = Some (Inr q') \<and> (pCurrTxn q' \<noteq> 0 \<or> tq_idle q')))"
proof
  note s = reach_settled [OF assms(1)]
  have "tq_settled (q\<lparr>tq_mem := (tq_mem q)(x := t)\<rparr>)" "x \<noteq> 0"
    using s assms(2) by (auto simp: wlan_req_def intro: settled_mem)
  from Transact_settles [OF this assms(3,4), of bus]
  show "\<exists>st q'. txnQ_Transact bus client x (q\<lparr>tq_mem := (tq_mem q)(x := t)\<rparr>) = Some (Inr (st, q')) \<and>
      (pCurrTxn q' \<noteq> 0 \<or> tq_idle q')"
    by (auto simp: tq_settled_def)
  show "pCurrTxn q = 0 \<or>
      (\<exists>q'. txnQ_TxnDoneCb bus client (pCurrTxn q) q = Some (Inr q') \<and> (pCurrTxn q' \<noteq> 0 \<or> tq_idle q'))"
    using TxnDoneCb_settles [OF s refl _ assms(3,4), of bus] by (auto simp: tq_settled_def)
qed

theorem txnQ_scheduler_leaves_no_work_witness:
  "\<exists>st q'. txnQ_Transact (\<lambda>_. TXN_STATUS_COMPLETE) no_client 7
      (demo_txnq\<lparr>tq_mem := (tq_mem demo_txnq)(7 := demo_txn 136)\<rparr>) = Some (Inr (st, q')) \<and>
    (pCurrTxn q' \<noteq> 0 \<or> tq_idle q')"
proof -
  have w: "wlan_req (7, demo_txn 136)" by (simp add: wlan_req_def)
  from txnQ_scheduler_leaves_no_work [OF demo_txnq_reach w no_client_ok, of "\<lambda>_. TXN_STATUS_COMPLETE"]
  show ?thesis by blast
qed

section \<open>Where the code does not do what it means to\<close>

text \<open>A restart in the middle of an aggregation clears the queue the aggregation runs on but leaves
  \<open>pAggregQueue\<close> set. From then on nothing else is selected: not even the single step transaction
  that wakes the chip, which \<open>txnQ_Transact\<close> promises to send at once.\<close>

lemma txnQ_restart_blocks_single_step:
  assumes r: "tq_reach q" and a: "pAggregQueue q = Some s" "pCurrTxn q = 0"
    and x: "wlan_req (x, t)" "TXN_PARAM_GET_SINGLE_STEP t \<noteq> 0"
  shows "\<exists>q' q''. txnQ_Restart WLAN q = Inr (TXN_STATUS_COMPLETE, q') \<and>
    txnQ_Transact bus client x (q'\<lparr>tq_mem := (tq_mem q')(x := t)\<rparr>) = Some (Inr (TXN_STATUS_PENDING, q'')) \<and>
    tq_trace q'' = tq_trace q' \<and> pSingleStep (aFuncInfo q'' WLAN) = x"
proof -
  note st = reach_settled [OF r]
  obtain q' where q': "txnQ_ClearQueues WLAN q = Inr q'" "tq_inv q'" "tq_same q q'" "pCurrTxn q' = 0"
      "hTxnDoneQueue q' = hTxnDoneQueue q" "tq_idle q'" "pAggregQueue q' = Some s"
    using ClearQueues_inv [of q] st a by (auto simp: tq_settled_def)
  have fl: "\<not> bSchedulerBusy q'" "\<not> bSchedulerPend q'" using q'(3) st by (auto simp: tq_same_def tq_settled_def)
  define q1 where "q1 = q'\<lparr>tq_mem := (tq_mem q')(x := t),
    aFuncInfo := (aFuncInfo q')(WLAN := (aFuncInfo q' WLAN)\<lparr>pSingleStep := x\<rparr>), bSchedulerBusy := True\<rparr>"
  have sub: "txnQ_Submit x (q'\<lparr>tq_mem := (tq_mem q')(x := t)\<rparr>) = Inr (True, q1\<lparr>bSchedulerBusy := False\<rparr>)"
    using x fl(1) by (simp add: txnQ_Submit_def Let_def wlan_req_def txn_wlan_def q1_def)
  obtain p where s: "s = (WLAN, p)" "p < MAX_PRIORITY"
    using q'(2,7) by (cases s) (auto simp: tq_inv_def tq_shape_def)
  obtain Q where Q: "aTxnQueues q' s = TqLive Q" using q'(2) s by (auto simp: tq_inv_def tq_shape_def tq_live_def)
  have "aq_items Q = []" using q'(6,7) Q by (simp add: tq_idle_def tq_items_def)
  then have "tq_deq_slot s q1 = Inr (None, q1)"
    using Q s by (simp add: tq_deq_slot_def tq_deq_def aq_Dequeue_def Let_def q1_def fun_upd_idem)
  then have sel: "txnQ_SelectTxn q1 = Inr (None, q1)"
    using q'(7) by (simp add: txnQ_SelectTxn_def txnQ_SelectAggreg_def q1_def)
  have "tq_done_deq q1 = Inr (None, q1)"
    using done_deq_inv [OF q'(2)] st q'(5) by (auto simp: tq_done_deq_def q1_def tq_settled_def tq_deq_def
        aq_Dequeue_def tq_items_def split: tq_handle.splits list.splits option.splits)
  then have "txnQ_Scheduler bus client x q1 = Inr (TXN_STATUS_PENDING, q1)"
    using sel q'(4)
    by (simp add: txnQ_Scheduler_def txnQ_SendLoop.simps [of bus x] txnQ_DoneLoop.simps [of client] q1_def)
  moreover have "txnQ_RunPending bus client q1 = Some (Inr (q1\<lparr>bSchedulerBusy := False\<rparr>))"
    using fl(2) by (subst txnQ_RunPending.simps) (simp add: q1_def)
  moreover have "q1\<lparr>bSchedulerBusy := True\<rparr> = q1" by (simp add: q1_def)
  ultimately have "txnQ_Transact bus client x (q'\<lparr>tq_mem := (tq_mem q')(x := t)\<rparr>) =
      Some (Inr (TXN_STATUS_PENDING, q1\<lparr>bSchedulerBusy := False\<rparr>))"
    using sub by (simp add: txnQ_Transact_def txnQ_RunScheduler_def)
  moreover have "txnQ_Restart WLAN q = Inr (TXN_STATUS_COMPLETE, q')"
    using q'(1) a(2) by (simp add: txnQ_Restart_def)
  ultimately show ?thesis
    by (intro exI [of _ q'] exI [of _ "q1\<lparr>bSchedulerBusy := False\<rparr>"]) (simp add: q1_def)
qed

text \<open>The transactions dropped by a restart are not reported: no callback is made.\<close>

lemma txnQ_restart_drops_silently:
  assumes "tq_reach q" "pCurrTxn q = 0"
  shows "\<exists>q'. txnQ_Restart WLAN q = Inr (TXN_STATUS_COMPLETE, q') \<and> tq_calls (tq_trace q') = tq_calls (tq_trace q) \<and>
    (\<forall>p < MAX_PRIORITY. fifo_run (WLAN, p) (tq_trace q') = Some [])"
proof -
  have i: "tq_inv q" using reach_settled [OF assms(1)] by (simp add: tq_settled_def)
  obtain q' where q': "txnQ_ClearQueues WLAN q = Inr q'" "tq_inv q'" "tq_same q q'" using ClearQueues_inv [OF i] by blast
  then obtain es where "tq_trace q' = es @ [Cleared WLAN]"
    by (auto simp: txnQ_ClearQueues_def Let_def split: if_splits sum.splits)
  then have "fifo_run (WLAN, p) (tq_trace q') = Some []" for p
    using inv_fifo [OF q'(2), of "(WLAN, p)"] by (cases "fifo_run (WLAN, p) es") auto
  then show ?thesis using q' assms(2) by (auto simp: txnQ_Restart_def tq_same_def)
qed

text \<open>A second single step transaction overwrites one that waits.\<close>

lemma txnQ_single_step_overwritten:
  assumes "TXN_PARAM_GET_SINGLE_STEP (tq_mem q y) \<noteq> 0" "unat (TXN_PARAM_GET_FUNC_ID (tq_mem q y)) = f"
  shows "\<exists>q'. txnQ_Submit y q = Inr (True, q') \<and> pSingleStep (aFuncInfo q' f) = y \<and> aTxnQueues q' = aTxnQueues q"
  using assms by (simp add: txnQ_Submit_def Let_def)

end
