(* ===== verification/TxnQueueCount.thy ===== *)
theory TxnQueueCount
  imports TxnQueueProps "HOL-Library.Multiset"
begin

text \<open>
  The books of the transaction queue: every transaction given to \<open>txnQ_Transact\<close> is in one place, and
  leaves by the return value or by one callback. The function's callback issues no transactions of its
  own here (\<open>no_client\<close>), as that of TwIf, for which the lemmas of this theory are made.
\<close>

section \<open>Where a transaction is\<close>

definition tq_one :: "addr \<Rightarrow> addr multiset" where
  "tq_one x = (if x = 0 then {#} else {#x#})"

definition tq_single :: "TTxnQObj \<Rightarrow> addr" where
  "tq_single q = pSingleStep (aFuncInfo q WLAN)"

definition tq_all :: "TTxnQObj \<Rightarrow> addr multiset" where
  "tq_all q = mset (tq_waiting q) + mset (tq_items (hTxnDoneQueue q)) + tq_one (pCurrTxn q) + tq_one (tq_single q)"

text \<open>The transactions reported by a callback.\<close>

definition tq_cbs :: "tq_event list \<Rightarrow> addr list" where
  "tq_cbs tr = List.map_filter (\<lambda>e. case e of TxnDoneCb f h x \<Rightarrow> Some x | _ \<Rightarrow> None) tr"

text \<open>The transactions that the bus driver completed in the call.\<close>

definition tq_ended :: "tq_event list \<Rightarrow> addr set" where
  "tq_ended tr = {x. BusSync x \<in> set tr}"

lemma tq_ended_simps [simp]:
  "tq_ended [] = {}" "tq_ended (a @ b) = tq_ended a \<union> tq_ended b"
  "tq_ended (e # es) = (case e of BusSync x \<Rightarrow> {x} | _ \<Rightarrow> {}) \<union> tq_ended es"
  by (auto simp: tq_ended_def split: tq_event.splits)

text \<open>The last single step transaction: the one that waits, or else the last one the bus was given.\<close>

definition tq_bus_last :: "addr set \<Rightarrow> tq_event list \<Rightarrow> addr" where
  "tq_bus_last E tr = fold (\<lambda>e l. case e of BusTransact x \<Rightarrow> if x \<in> E then x else l | _ \<Rightarrow> l) tr 0"

definition tq_elp :: "addr set \<Rightarrow> TTxnQObj \<Rightarrow> addr" where
  "tq_elp E q = (if tq_single q \<noteq> 0 then tq_single q else tq_bus_last E (tq_trace q))"

lemma tq_cbs_simps [simp]:
  "tq_cbs [] = []" "tq_cbs (a @ b) = tq_cbs a @ tq_cbs b"
  "tq_cbs (e # es) = (case e of TxnDoneCb f h x \<Rightarrow> [x] | _ \<Rightarrow> []) @ tq_cbs es"
  by (simp_all add: tq_cbs_def map_filter_def split: tq_event.splits)

lemma tq_bus_last_snoc [simp]:
  "tq_bus_last E (tr @ [e]) = (case e of BusTransact x \<Rightarrow> if x \<in> E then x else tq_bus_last E tr | _ \<Rightarrow> tq_bus_last E tr)"
  by (simp add: tq_bus_last_def split: tq_event.split)

text \<open>The settings of a queue.\<close>

definition tq_limit :: "tq_handle \<Rightarrow> u32" where
  "tq_limit h = (case h of TqLive Q \<Rightarrow> aq_limit Q | _ \<Rightarrow> 0)"

definition tq_roomy :: "TTxnQObj \<Rightarrow> bool" where
  "tq_roomy q \<longleftrightarrow> tq_limit (hTxnDoneQueue q) = 0xFFFFFFFF \<and> (\<forall>p < MAX_PRIORITY. tq_limit (aTxnQueues q (WLAN, p)) = 0xFFFFFFFF)"

text \<open>The transactions but those of \<open>E\<close>: the latter (at most two) may be given to the queue again while
  they are in it. Of the others none is in two places, and there are fewer than a queue may hold.\<close>

definition tq_mine :: "addr set \<Rightarrow> TTxnQObj \<Rightarrow> addr multiset" where
  "tq_mine E q = filter_mset (\<lambda>x. x \<notin> E) (tq_all q)"

definition tq_sound :: "addr set \<Rightarrow> TTxnQObj \<Rightarrow> bool" where
  "tq_sound E q \<longleftrightarrow> (\<forall>x. x \<notin> E \<longrightarrow> count (tq_all q) x \<le> 1) \<and> size (tq_mine E q) < 0xFFFFFFF0 \<and>
     distinct (tq_items (hTxnDoneQueue q)) \<and> finite E \<and> card E \<le> 2"

definition tq_keep :: "TTxnQObj \<Rightarrow> TTxnQObj \<Rightarrow> bool" where
  "tq_keep q q' \<longleftrightarrow> tq_mem q' = tq_mem q \<and> eState (aFuncInfo q' WLAN) = eState (aFuncInfo q WLAN) \<and>
     (tq_roomy q \<longrightarrow> tq_roomy q') \<and> (\<exists>es. tq_trace q' = tq_trace q @ es)"

lemma tq_keep_refl [simp]: "tq_keep q q"
  by (simp add: tq_keep_def)

lemma tq_keep_trans: "tq_keep a b \<Longrightarrow> tq_keep b c \<Longrightarrow> tq_keep a c"
  by (auto simp: tq_keep_def)

lemma tq_sound_sub:
  assumes "tq_sound E q" "tq_all q' \<subseteq># tq_all q" "distinct (tq_items (hTxnDoneQueue q'))"
  shows "tq_sound E q'"
proof -
  have "tq_mine E q' \<subseteq># tq_mine E q" unfolding tq_mine_def by (rule multiset_filter_mono [OF assms(2)])
  then have "size (tq_mine E q') \<le> size (tq_mine E q)" by (rule size_mset_mono)
  moreover have "count (tq_all q') x \<le> count (tq_all q) x" for x using assms(2) by (simp add: subseteq_mset_def)
  ultimately show ?thesis using assms(1,3) unfolding tq_sound_def by (meson le_less_trans le_trans)
qed

lemma tq_sound_not: "tq_sound E q \<Longrightarrow> tq_all q = add_mset x M \<Longrightarrow> x \<notin> E \<Longrightarrow> x \<notin># M"
  unfolding tq_sound_def by (metis count_add_mset count_eq_zero_iff le_zero_eq Suc_le_mono One_nat_def)

lemma tq_sound_done:
  assumes "tq_sound E q"
  shows "length (tq_items (hTxnDoneQueue q)) < 0xFFFFFFFF"
proof -
  let ?d = "tq_items (hTxnDoneQueue q)"
  have "length (filter (\<lambda>x. x \<in> E) ?d) = card (set (filter (\<lambda>x. x \<in> E) ?d))"
    using assms by (intro distinct_card [symmetric]) (simp add: tq_sound_def)
  also have "\<dots> \<le> card E" using assms by (intro card_mono) (auto simp: tq_sound_def)
  finally have e: "length (filter (\<lambda>x. x \<in> E) ?d) \<le> 2" using assms by (simp add: tq_sound_def)
  have "size (filter_mset (\<lambda>x. x \<notin> E) (mset ?d)) \<le> size (tq_mine E q)"
    unfolding tq_mine_def tq_all_def by simp
  then have "length (filter (\<lambda>x. x \<notin> E) ?d) < 0xFFFFFFF0"
    using assms by (simp add: tq_sound_def flip: mset_filter)
  then show ?thesis using e sum_length_filter_compl [of "\<lambda>x. x \<in> E" ?d] by simp
qed

section \<open>Selecting\<close>

text \<open>The queues of the other functions are empty.\<close>

lemma waiting_wlan:
  assumes "tq_shape q"
  shows "tq_waiting q = tq_items (aTxnQueues q (WLAN, 0)) @ tq_items (aTxnQueues q (WLAN, 1))"
proof -
  have "tq_items (aTxnQueues q (f, p)) = []" if "f \<noteq> 2" for f p
    using assms that by (simp add: tq_shape_def tq_items_def WLAN_def)
  moreover have s: "tq_slots = [(0,0),(0,1),(1,0),(1,1),(2,0),(2,1),(3,0),(3,1)]"
    by (simp add: tq_slots_def MAX_FUNCTIONS_def MAX_PRIORITY_def upt_rec)
  ultimately show ?thesis unfolding tq_waiting_def s by (simp add: WLAN_def)
qed

lemma linked_wlan: "tq_linked q = set (tq_waiting q) \<union> set (tq_items (hTxnDoneQueue q))"
  by (simp add: tq_linked_def tq_waiting_def)

lemma deq_slot_count:
  assumes i: "tq_inv q" and p: "p < MAX_PRIORITY" and d: "tq_deq_slot (WLAN, p) q = Inr (Some x, q')"
  shows "mset (tq_waiting q) = add_mset x (mset (tq_waiting q'))" "tq_keep q q'" "hTxnDoneQueue q' = hTxnDoneQueue q"
    "pCurrTxn q' = pCurrTxn q" "tq_single q' = tq_single q" "tq_cbs (tq_trace q') = tq_cbs (tq_trace q)"
    "tq_bus_last E (tq_trace q') = tq_bus_last E (tq_trace q)" "pAggregQueue q' = pAggregQueue q"
proof -
  obtain Q where Q: "aTxnQueues q (WLAN, p) = TqLive Q" "aq_items Q = x # tl (aq_items Q)"
    "q' = tq_emit (Selected x (WLAN, p)) (q\<lparr>aTxnQueues := (aTxnQueues q)((WLAN, p) := TqLive (Q\<lparr>aq_items := tl (aq_items Q)\<rparr>))\<rparr>)"
    using deq_slot_result [OF d] by blast
  have "tq_inv q'" using deq_slot_inv [OF i p] d by auto
  then have sh: "tq_shape q" "tq_shape q'" using i by (simp_all add: tq_inv_def)
  have p2: "p = 0 \<or> p = 1" using p by (auto simp: MAX_PRIORITY_def)
  have "tq_items (aTxnQueues q (WLAN, p)) = x # tq_items (aTxnQueues q' (WLAN, p))"
    using Q by (simp add: tq_items_def)
  moreover have "tq_items (aTxnQueues q (WLAN, r)) = tq_items (aTxnQueues q' (WLAN, r))" if "r \<noteq> p" for r
    using Q that by simp
  ultimately show "mset (tq_waiting q) = add_mset x (mset (tq_waiting q'))"
    using p2 unfolding waiting_wlan [OF sh(1)] waiting_wlan [OF sh(2)] by (elim disjE) simp_all
  show "tq_keep q q'" using Q by (auto simp: tq_keep_def tq_roomy_def tq_limit_def)
  show "hTxnDoneQueue q' = hTxnDoneQueue q" "pCurrTxn q' = pCurrTxn q" "tq_single q' = tq_single q"
    "tq_cbs (tq_trace q') = tq_cbs (tq_trace q)" "tq_bus_last E (tq_trace q') = tq_bus_last E (tq_trace q)"
    "pAggregQueue q' = pAggregQueue q"
    using Q by (simp_all add: tq_single_def)
qed

lemma tq_single_sel [simp]:
  "tq_single (tq_emit e q) = tq_single q" "tq_single (q\<lparr>pCurrTxn := x\<rparr>) = tq_single q"
  "tq_single (q\<lparr>pAggregQueue := s\<rparr>) = tq_single q" "tq_single (q\<lparr>hTxnDoneQueue := h\<rparr>) = tq_single q"
  "tq_waiting (q\<lparr>pCurrTxn := x\<rparr>) = tq_waiting q" "tq_waiting (q\<lparr>pAggregQueue := s\<rparr>) = tq_waiting q"
  "tq_waiting (q\<lparr>hTxnDoneQueue := h\<rparr>) = tq_waiting q"
  by (simp_all add: tq_single_def tq_waiting_def)

lemma tq_keep_upd [simp]:
  "tq_keep q (q'\<lparr>pCurrTxn := x\<rparr>) = tq_keep q q'" "tq_keep q (q'\<lparr>pAggregQueue := s\<rparr>) = tq_keep q q'"
  "tq_keep q (q'\<lparr>bSchedulerBusy := b\<rparr>) = tq_keep q q'" "tq_keep q (q'\<lparr>bSchedulerPend := b\<rparr>) = tq_keep q q'"
  "tq_keep (q\<lparr>pCurrTxn := x\<rparr>) q' = tq_keep q q'" "tq_keep (q\<lparr>bSchedulerBusy := b\<rparr>) q' = tq_keep q q'"
  by (simp_all add: tq_keep_def tq_roomy_def)

lemma tq_keep_emit: "tq_keep q q' \<Longrightarrow> tq_keep q (tq_emit e q')"
  by (auto simp: tq_keep_def tq_roomy_def)

text \<open>What selecting takes out.\<close>

lemma Select_count:
  assumes i: "tq_inv q" and s: "txnQ_SelectTxn q = Inr (Some x, q')"
  shows "mset (tq_waiting q) + tq_one (tq_single q) = add_mset x (mset (tq_waiting q') + tq_one (tq_single q'))"
    "tq_keep q q'" "hTxnDoneQueue q' = hTxnDoneQueue q" "pCurrTxn q' = pCurrTxn q" "tq_cbs (tq_trace q') = tq_cbs (tq_trace q)"
    "tq_bus_last E (tq_trace q') = tq_bus_last E (tq_trace q)"
    "tq_single q' = tq_single q \<and> x \<in> set (tq_waiting q) \<or> tq_single q = x \<and> tq_single q' = 0"
proof -
  define R where "R r \<longleftrightarrow> mset (tq_waiting q) + tq_one (tq_single q) = add_mset x (mset (tq_waiting r) + tq_one (tq_single r)) \<and>
    tq_keep q r \<and> hTxnDoneQueue r = hTxnDoneQueue q \<and> pCurrTxn r = pCurrTxn q \<and> tq_cbs (tq_trace r) = tq_cbs (tq_trace q) \<and>
    tq_bus_last E (tq_trace r) = tq_bus_last E (tq_trace q) \<and>
    (tq_single r = tq_single q \<and> x \<in> set (tq_waiting q) \<or> tq_single q = x \<and> tq_single r = 0)" for r
  have sh: "tq_shape q" using i by (simp add: tq_inv_def)
  have one: "[uMinFuncId q..<Suc (uMaxFuncId q)] = [WLAN]" "\<not> MAX_FUNCTIONS \<le> uMaxFuncId q"
    using sh by (simp_all add: tq_shape_def)
  have slot: "R q1" if d: "tq_deq_slot (WLAN, p) q = Inr (Some x, q1)" "p < MAX_PRIORITY" for q1 p
  proof -
    note c = deq_slot_count [OF i d(2,1)]
    have "x \<in># mset (tq_waiting q)" unfolding c(1) by simp
    then have "x \<in> set (tq_waiting q)" by simp
    then show ?thesis using c by (simp add: R_def)
  qed
  have slot_upd: "R (q1\<lparr>pAggregQueue := a\<rparr>)" if "R q1" for q1 a using that by (simp add: R_def)
  have "R q'"
  proof (cases "pAggregQueue q")
    case (Some t)
    then obtain p where t: "t = (WLAN, p)" "p < MAX_PRIORITY" using sh by (cases t) (auto simp: tq_shape_def)
    then obtain q1 where d: "tq_deq_slot (WLAN, p) q = Inr (Some x, q1)" "q' = q1 \<or> q' = q1\<lparr>pAggregQueue := None\<rparr>"
      using s Some by (auto simp: txnQ_SelectTxn_def txnQ_SelectAggreg_def split: sum.splits option.splits)
    show ?thesis using d(2) slot [OF d(1) t(2)] slot_upd by blast
  next
    case None
    show ?thesis
    proof (cases "pSingleStep (aFuncInfo q WLAN) \<noteq> 0")
      case True
      then have "x = tq_single q" "q' = q\<lparr>aFuncInfo := (aFuncInfo q)(WLAN := (aFuncInfo q WLAN)\<lparr>pSingleStep := 0\<rparr>)\<rparr>"
        using s None one by (simp_all add: txnQ_SelectTxn_def tq_single_def del: upt_Suc)
      then show ?thesis using True by (simp add: R_def tq_single_def tq_one_def tq_waiting_def tq_keep_def tq_roomy_def)
    next
      case False
      then have sel: "txnQ_SelectQueue [(WLAN, 0), (WLAN, 1)] q = Inr (Some x, q')"
        using s None one tq_order_wlan [OF sh] by (simp add: txnQ_SelectTxn_def del: upt_Suc)
      obtain p q1 where d: "tq_deq_slot (WLAN, p) q = Inr (Some x, q1)" "p < MAX_PRIORITY"
        "q' = q1 \<or> (\<exists>a. q' = q1\<lparr>pAggregQueue := a\<rparr>)"
      proof -
        have n: "uNumPrios (aFuncInfo q WLAN) = MAX_PRIORITY" using sh by (simp add: tq_shape_def)
        obtain y q1 where a: "tq_deq_slot (WLAN, 0) q = Inr (y, q1)" using deq_slot_inv [OF i WLAN_less(2)] by blast
        show thesis
        proof (cases y)
          case (Some z)
          then show thesis using that [of 0 q1] a sel n by (auto split: if_splits)
        next
          case No: None
          then have "q1 = q" using deq_slot_result [OF a] by auto
          then have "txnQ_SelectQueue [(WLAN, 1)] q = Inr (Some x, q')" using sel a No by (simp split: if_splits)
          then obtain q2 where "tq_deq_slot (WLAN, 1) q = Inr (Some x, q2)" "q' = q2 \<or> q' = q2\<lparr>pAggregQueue := Some (WLAN, 1)\<rparr>"
            by (auto split: if_splits sum.splits option.splits)
          then show thesis using that [of 1 q2] WLAN_less(3) by auto
        qed
      qed
      show ?thesis using d(3) slot [OF d(1,2)] slot_upd by blast
    qed
  qed
  then show "mset (tq_waiting q) + tq_one (tq_single q) = add_mset x (mset (tq_waiting q') + tq_one (tq_single q'))"
    "tq_keep q q'" "hTxnDoneQueue q' = hTxnDoneQueue q" "pCurrTxn q' = pCurrTxn q" "tq_cbs (tq_trace q') = tq_cbs (tq_trace q)"
    "tq_bus_last E (tq_trace q') = tq_bus_last E (tq_trace q)"
    "tq_single q' = tq_single q \<and> x \<in> set (tq_waiting q) \<or> tq_single q = x \<and> tq_single q' = 0"
    by (simp_all add: R_def)
qed

text \<open>A completed transaction joins the done queue.\<close>

lemma done_enq_count:
  assumes i: "tq_inv q" and r: "tq_roomy q" and s: "tq_sound E q"
  shows "\<exists>h. tq_done_enq x q = Inr (q\<lparr>hTxnDoneQueue := h\<rparr>) \<and> tq_limit h = tq_limit (hTxnDoneQueue q) \<and>
    tq_items h = (if x \<in> tq_linked q then tq_items (hTxnDoneQueue q) else tq_items (hTxnDoneQueue q) @ [x])"
proof -
  obtain Q where Q: "hTxnDoneQueue q = TqLive Q" using i by (auto simp: tq_inv_def tq_shape_def tq_live_def)
  have n: "length (aq_items Q) < unat (aq_limit Q)" using r tq_sound_done [OF s] Q by (simp add: tq_roomy_def tq_limit_def tq_items_def)
  let ?Q = "if x \<in> tq_linked q then Q else Q\<lparr>aq_items := aq_items Q @ [x], aq_max := max (aq_max Q) (aq_Size Q + 1)\<rparr>"
  have "tq_done_enq x q = Inr (q\<lparr>hTxnDoneQueue := TqLive ?Q\<rparr>)"
    using Q n by (simp add: tq_done_enq_def tq_enq_def aq_Enqueue_def)
  then show ?thesis using Q by (intro exI conjI) (assumption, simp_all add: tq_items_def tq_limit_def)
qed

section \<open>The scheduler\<close>

text \<open>The part of a transaction's way that the loop over the bus makes: what leaves \<open>tq_all\<close> is the input
  transaction, if it was completed.\<close>

lemma tq_all_sel [simp]:
  "tq_all (tq_emit e q) = tq_all q" "tq_all (q\<lparr>bSchedulerBusy := b\<rparr>) = tq_all q" "tq_all (q\<lparr>bSchedulerPend := b\<rparr>) = tq_all q"
  by (simp_all add: tq_all_def tq_single_def tq_waiting_def)

definition tq_run :: "TTxnQObj \<Rightarrow> addr multiset" where
  "tq_run q = mset (tq_waiting q) + tq_one (tq_single q)"

lemma tq_all_run: "tq_all q = tq_run q + mset (tq_items (hTxnDoneQueue q)) + tq_one (pCurrTxn q)"
  by (simp add: tq_all_def tq_run_def)

definition tq_elp_ok :: "addr set \<Rightarrow> TTxnQObj \<Rightarrow> bool" where
  "tq_elp_ok E q \<longleftrightarrow> set (tq_waiting q) \<inter> E = {} \<and> tq_single q \<in> insert 0 E"

lemma SendLoop_count:
  "tq_inv q \<Longrightarrow> pCurrTxn q = 0 \<Longrightarrow> tq_roomy q \<Longrightarrow> tq_sound E q \<Longrightarrow>
   \<exists>st q'. txnQ_SendLoop bus pIn e q = Inr (st, q') \<and> tq_keep q q' \<and> tq_cbs (tq_trace q') = tq_cbs (tq_trace q) \<and>
     tq_sound E q' \<and>
     (pIn \<in> E \<longrightarrow> tq_mine E q' = tq_mine E q) \<and>
     (pIn \<notin> E \<and> pIn \<in># tq_run q \<and> e = TXN_STATUS_PENDING \<longrightarrow>
        tq_mine E q = tq_mine E q' + (if st = TXN_STATUS_PENDING then {#} else {#pIn#})) \<and>
     (pIn \<notin> E \<and> pIn \<notin># tq_run q \<longrightarrow> st = e \<and> tq_mine E q' = tq_mine E q) \<and>
     (tq_elp_ok E q \<longrightarrow> tq_elp E q' = tq_elp E q \<and> tq_elp_ok E q')"
proof (induction bus pIn e q rule: txnQ_SendLoop.induct)
  case (1 bus pIn e q)
  note i = 1(3) and c = 1(4) and rm = 1(5) and so = 1(6)
  obtain y q1 where sel: "txnQ_SelectTxn q = Inr (y, q1)"
      "case y of None \<Rightarrow> q1 = q \<and> tq_idle q
       | Some a \<Rightarrow> a \<noteq> 0 \<and> tq_inv q1 \<and> tq_same q q1 \<and> pCurrTxn q1 = pCurrTxn q" using Select_inv [OF i] by blast
  show ?case
  proof (cases y)
    case None
    then have "txnQ_SendLoop bus pIn e q = Inr (e, q)" using sel by (subst txnQ_SendLoop.simps) simp
    then show ?thesis using so by (intro exI [of _ e] exI [of _ q]) simp
  next
    case (Some x)
    have x: "x \<noteq> 0" "tq_inv q1" "pCurrTxn q1 = 0" using sel(2) Some c by simp_all
    note S = Select_count [OF i sel(1) [unfolded Some]]
    have run: "tq_run q = add_mset x (tq_run q1)" using S(1) by (simp add: tq_run_def)
    have all: "tq_all q = add_mset x (tq_all q1)" using run S(3) c x(3) by (simp add: tq_all_run tq_one_def)
    have xn: "x \<notin># tq_all q1" if "x \<notin> E" using tq_sound_not [OF so all that] .
    have mine: "tq_mine E q = (if x \<in> E then {#} else {#x#}) + tq_mine E q1" by (simp add: tq_mine_def all)
    have d1: "distinct (tq_items (hTxnDoneQueue q1))" using so S(3) by (simp add: tq_sound_def)
    have so1: "tq_sound E q1" using d1 by (intro tq_sound_sub [OF so]) (simp_all add: all)
    have elp: "tq_elp_ok E q1" "\<And>q2. tq_single q2 = tq_single q1 \<Longrightarrow>
        tq_bus_last E (tq_trace q2) = (if x \<in> E then x else tq_bus_last E (tq_trace q)) \<Longrightarrow> tq_elp E q2 = tq_elp E q"
      if ok: "tq_elp_ok E q"
    proof -
      have "set (tq_waiting q1) \<subseteq> set (tq_waiting q)"
      proof
        fix z assume "z \<in> set (tq_waiting q1)"
        then have "z \<in># tq_run q1" by (simp add: tq_run_def)
        then have z: "z \<in># tq_run q" unfolding run by simp
        show "z \<in> set (tq_waiting q)"
        proof (cases "z \<in># mset (tq_waiting q)")
          case False
          then have e: "z = tq_single q" "tq_single q \<noteq> 0" using z by (auto simp: tq_run_def tq_one_def split: if_splits)
          have "mset (tq_waiting q) + tq_one (tq_single q) = add_mset x (mset (tq_waiting q1) + tq_one (tq_single q1))" by (rule S(1))
          have "tq_single q \<in> E" using ok e by (simp add: tq_elp_ok_def)
          have "tq_single q1 = tq_single q"
          proof (rule ccontr)
            assume "tq_single q1 \<noteq> tq_single q"
            then have "x = tq_single q" "tq_single q1 = 0" using S(7) by auto
            then have "mset (tq_waiting q) = mset (tq_waiting q1)" using S(1) e(2) by (simp add: tq_one_def)
            then show False using False \<open>z \<in> set (tq_waiting q1)\<close> by (metis set_mset_mset)
          qed
          then have "mset (tq_waiting q) = add_mset x (mset (tq_waiting q1))" using S(1) by simp
          then show ?thesis using \<open>z \<in> set (tq_waiting q1)\<close> by (metis set_mset_mset insert_iff set_mset_add_mset_insert)
        qed simp
      qed
      then show "tq_elp_ok E q1" using ok S(7) by (auto simp: tq_elp_ok_def)
      show "tq_elp E q2 = tq_elp E q" if q2: "tq_single q2 = tq_single q1"
        "tq_bus_last E (tq_trace q2) = (if x \<in> E then x else tq_bus_last E (tq_trace q))" for q2
        using S(7)
      proof
        assume a: "tq_single q1 = tq_single q \<and> x \<in> set (tq_waiting q)"
        then have "x \<notin> E" using ok by (auto simp: tq_elp_ok_def)
        then show ?thesis using a q2 by (simp add: tq_elp_def)
      next
        assume a: "tq_single q = x \<and> tq_single q1 = 0"
        then have "x \<in> E" using ok x(1) by (auto simp: tq_elp_ok_def)
        then show ?thesis using a q2 x(1) by (simp add: tq_elp_def)
      qed
    qed
    let ?q2 = "tq_emit (BusTransact x) (q1\<lparr>pCurrTxn := x\<rparr>)"
    let ?st = "bus (tq_trace ?q2)"
    have k2: "tq_keep q ?q2" using S(2) by (intro tq_keep_emit) simp
    have b2: "tq_bus_last E (tq_trace ?q2) = (if x \<in> E then x else tq_bus_last E (tq_trace q))" using S(6) [of E] by simp
    have cb2: "tq_cbs (tq_trace ?q2) = tq_cbs (tq_trace q)" using S(5) by simp
    have q2: "tq_inv ?q2" using inv_emit [OF x(2), of "BusTransact x" x] x(1,3) by simp
    show ?thesis
    proof (cases "?st = TXN_STATUS_PENDING")
      case True
      have r: "txnQ_SendLoop bus pIn e q = Inr (if x = pIn then ?st else e, ?q2)"
        using sel(1) Some True by (subst txnQ_SendLoop.simps) (simp add: Let_def)
      have a2: "tq_all ?q2 = tq_all q" using all x by (simp add: tq_all_def tq_one_def)
      then have "tq_mine E ?q2 = tq_mine E q" by (simp add: tq_mine_def)
      moreover have "tq_sound E ?q2" using d1 a2 by (intro tq_sound_sub [OF so]) simp_all
      moreover have "tq_elp E ?q2 = tq_elp E q \<and> tq_elp_ok E ?q2" if "tq_elp_ok E q"
        using elp [OF that] b2 by (simp add: tq_elp_ok_def)
      moreover have "x = pIn \<Longrightarrow> pIn \<in># tq_run q" by (simp add: run)
      ultimately show ?thesis using r k2 cb2 True by (intro exI [of _ "if x = pIn then ?st else e"] exI [of _ ?q2]) auto
    next
      case False
      let ?q3 = "tq_emit (BusSync x) (?q2\<lparr>pCurrTxn := 0\<rparr>)"
      have q3: "tq_inv ?q3" using inv_emit [OF q2, of "BusSync x" 0] by simp
      have k3: "tq_keep q ?q3" using k2 by (intro tq_keep_emit) simp
      have rm3: "tq_roomy ?q3" using k3 rm by (simp add: tq_keep_def)
      have a3: "tq_all ?q3 = tq_all q1" "tq_run ?q3 = tq_run q1" using x(3) by (simp_all add: tq_all_def tq_run_def)
      have "tq_trace ?q3 = tq_trace ?q2 @ [BusSync x]" by simp
      then have b3: "tq_bus_last E (tq_trace ?q3) = (if x \<in> E then x else tq_bus_last E (tq_trace q))"
        using b2 by (simp only: tq_bus_last_snoc tq_event.case)
      have so3: "tq_sound E ?q3" using d1 a3(1) by (intro tq_sound_sub [OF so1]) simp_all
      have m3: "tq_mine E ?q3 = tq_mine E q1" by (simp only: tq_mine_def a3(1))
      have ok3: "tq_elp_ok E ?q3" "tq_elp E ?q3 = tq_elp E q" if "tq_elp_ok E q" using elp [OF that] b3 by (simp_all add: tq_elp_ok_def)
      show ?thesis
      proof (cases "x = pIn")
        case eq: True
        have nr: "pIn \<notin># tq_run ?q3" if "pIn \<notin> E" unfolding a3(2) using xn that eq by (simp add: tq_all_run)
        from 1(1) [OF sel(1) refl Some refl refl refl False refl eq q3 _ rm3 so3] eq nr
        obtain st q' where q': "txnQ_SendLoop bus pIn ?st ?q3 = Inr (st, q')" "tq_keep ?q3 q'" "tq_cbs (tq_trace q') = tq_cbs (tq_trace ?q3)"
          "tq_sound E q'" "pIn \<notin> E \<longrightarrow> st = ?st" "tq_mine E q' = tq_mine E ?q3" "tq_elp_ok E ?q3 \<longrightarrow> tq_elp E q' = tq_elp E ?q3 \<and> tq_elp_ok E q'" by auto
        have r: "txnQ_SendLoop bus pIn e q = Inr (st, q')"
          using sel(1) Some False eq q'(1) by (subst txnQ_SendLoop.simps) (simp add: Let_def)
        have "pIn \<in># tq_run q" using eq by (simp add: run)
        moreover have "tq_mine E q = tq_mine E q' + (if pIn \<in> E then {#} else {#pIn#})" using mine eq m3 q'(6) by simp
        moreover have "tq_keep q q'" using tq_keep_trans [OF k3 q'(2)] .
        moreover have "tq_cbs (tq_trace q') = tq_cbs (tq_trace q)" using q'(3) cb2 by simp
        moreover have "tq_elp_ok E q \<longrightarrow> tq_elp E q' = tq_elp E q \<and> tq_elp_ok E q'" using ok3 q'(7) by simp
        ultimately show ?thesis using r q'(4,5) False by (intro exI [of _ st] exI [of _ q']) simp
      next
        case neq: False
        obtain h where h: "tq_done_enq x ?q3 = Inr (?q3\<lparr>hTxnDoneQueue := h\<rparr>)" "tq_limit h = tq_limit (hTxnDoneQueue ?q3)"
          "tq_items h = (if x \<in> tq_linked ?q3 then tq_items (hTxnDoneQueue ?q3) else tq_items (hTxnDoneQueue ?q3) @ [x])"
          using done_enq_count [OF q3 rm3 so3] by blast
        have dh: "distinct (tq_items h)" using h(3) d1 by (auto simp: linked_wlan)
        have nl: "x \<notin> E \<Longrightarrow> x \<notin> tq_linked ?q3" using xn by (auto simp: linked_wlan tq_all_def)
        let ?q4 = "?q3\<lparr>hTxnDoneQueue := h\<rparr>"
        have q4: "tq_inv ?q4" "pCurrTxn ?q4 = 0" using done_enq_inv [OF q3 x(1)] h(1) by auto
        have k4: "tq_keep q ?q4" using k3 h(2) by (simp add: tq_keep_def tq_roomy_def)
        have rm4: "tq_roomy ?q4" using k4 rm by (simp add: tq_keep_def)
        have r4: "tq_run ?q4 = tq_run q1" by (simp add: tq_run_def)
        have a4: "tq_all ?q4 \<subseteq># tq_all q" using all a3 h(3) x(3) by (auto simp: tq_all_def)
        have m4: "tq_mine E ?q4 = tq_mine E q"
        proof (cases "x \<in> E")
          case True
          then show ?thesis using mine h(3) x(3) by (auto simp: tq_mine_def tq_all_def)
        next
          case out: False
          then show ?thesis using mine h(3) nl x(3) by (simp add: tq_mine_def tq_all_def)
        qed
        have so4: "tq_sound E ?q4" using dh a4 by (intro tq_sound_sub [OF so]) simp_all
        from 1(2) [OF sel(1) refl Some refl refl refl False refl neq h(1) q4 rm4 so4] neq
        obtain st q' where q': "txnQ_SendLoop bus pIn e ?q4 = Inr (st, q')" "tq_keep ?q4 q'" "tq_cbs (tq_trace q') = tq_cbs (tq_trace ?q4)"
          "tq_sound E q'" "pIn \<in> E \<longrightarrow> tq_mine E q' = tq_mine E ?q4"
          "pIn \<notin> E \<and> pIn \<in># tq_run ?q4 \<and> e = TXN_STATUS_PENDING \<longrightarrow>
             tq_mine E ?q4 = tq_mine E q' + (if st = TXN_STATUS_PENDING then {#} else {#pIn#})"
          "pIn \<notin> E \<and> pIn \<notin># tq_run ?q4 \<longrightarrow> st = e \<and> tq_mine E q' = tq_mine E ?q4"
          "tq_elp_ok E ?q4 \<longrightarrow> tq_elp E q' = tq_elp E ?q4 \<and> tq_elp_ok E q'" by auto
        have r: "txnQ_SendLoop bus pIn e q = Inr (st, q')"
          using sel(1) Some False neq h(1) q'(1) by (subst txnQ_SendLoop.simps) (simp add: Let_def)
        have "pIn \<in># tq_run ?q4 \<longleftrightarrow> pIn \<in># tq_run q" unfolding r4 run using neq by auto
        moreover have "tq_keep q q'" using tq_keep_trans [OF k4 q'(2)] .
        moreover have "tq_cbs (tq_trace q') = tq_cbs (tq_trace q)" using q'(3) cb2 by simp
        moreover have "tq_elp E ?q4 = tq_elp E ?q3" "tq_elp_ok E ?q4 = tq_elp_ok E ?q3" by (simp_all add: tq_elp_ok_def tq_elp_def)
        then have "tq_elp_ok E q \<longrightarrow> tq_elp E q' = tq_elp E q \<and> tq_elp_ok E q'" using ok3 q'(8) by metis
        ultimately show ?thesis using r q'(4-7) unfolding m4 by (intro exI [of _ st] exI [of _ q']) simp
      qed
    qed
  qed
qed

text \<open>What the loop puts into the done queue has come back from the bus.\<close>

lemma SelectQueue_trace:
  "txnQ_SelectQueue ss q = Inr (y, q') \<Longrightarrow> hTxnDoneQueue q' = hTxnDoneQueue q \<and> (\<exists>es. tq_trace q' = tq_trace q @ es \<and> tq_cbs es = [])"
proof (induction ss arbitrary: q)
  case (Cons s ss)
  show ?case
  proof (cases "eState (aFuncInfo q (fst s)) = FUNC_STATE_RUNNING \<and> uNumPrios (aFuncInfo q (fst s)) > snd s")
    case False
    then show ?thesis using Cons.prems Cons.IH [of q] by (simp split: if_splits)
  next
    case True
    then obtain z q1 where z: "tq_deq_slot s q = Inr (z, q1)" using Cons.prems by (auto split: sum.splits)
    show ?thesis
    proof (cases z)
      case None
      then show ?thesis using deq_slot_result [OF z] Cons.prems Cons.IH [of q] z True by auto
    next
      case (Some a)
      then show ?thesis using deq_slot_result [OF z] Cons.prems z True by (auto split: if_splits)
    qed
  qed
qed simp

lemma Select_trace:
  assumes "txnQ_SelectTxn q = Inr (y, q')"
  shows "hTxnDoneQueue q' = hTxnDoneQueue q \<and> (\<exists>es. tq_trace q' = tq_trace q @ es \<and> tq_cbs es = [])"
proof (cases "pAggregQueue q")
  case None
  then show ?thesis using assms SelectQueue_trace [of "tq_order q" q y q']
    by (auto simp: txnQ_SelectTxn_def split: if_splits option.splits)
next
  case (Some s)
  then obtain z q1 where z: "tq_deq_slot s q = Inr (z, q1)" "q' = q1 \<or> q' = q1\<lparr>pAggregQueue := None\<rparr>"
    using assms by (auto simp: txnQ_SelectTxn_def txnQ_SelectAggreg_def split: sum.splits option.splits if_splits)
  show ?thesis using deq_slot_result [OF z(1)] z(2) by auto
qed

lemma done_enq_trace:
  "tq_done_enq x q = Inr q' \<Longrightarrow> tq_trace q' = tq_trace q \<and> set (tq_items (hTxnDoneQueue q')) \<subseteq> insert x (set (tq_items (hTxnDoneQueue q)))"
  by (auto simp: tq_done_enq_def tq_enq_def tq_items_def aq_Enqueue_def split: tq_handle.splits if_splits)

lemma SendLoop_trace:
  "txnQ_SendLoop bus pIn e q = Inr (st, q') \<Longrightarrow> \<exists>es. tq_trace q' = tq_trace q @ es \<and> tq_cbs es = [] \<and>
     set (tq_items (hTxnDoneQueue q')) \<subseteq> set (tq_items (hTxnDoneQueue q)) \<union> tq_ended es"
proof (induction bus pIn e q rule: txnQ_SendLoop.induct)
  case (1 bus pIn e q)
  obtain y q1 where sel: "txnQ_SelectTxn q = Inr (y, q1)"
    using 1(3) by (subst (asm) txnQ_SendLoop.simps) (auto split: sum.splits)
  obtain es where es: "tq_trace q1 = tq_trace q @ es" "tq_cbs es = []" "hTxnDoneQueue q1 = hTxnDoneQueue q"
    using Select_trace [OF sel] by blast
  show ?case
  proof (cases y)
    case None
    then show ?thesis using 1(3) sel es by (subst (asm) txnQ_SendLoop.simps) auto
  next
    case (Some x)
    define q2 where "q2 = tq_emit (BusTransact x) (q1\<lparr>pCurrTxn := x\<rparr>)"
    define q3 where "q3 = tq_emit (BusSync x) (q2\<lparr>pCurrTxn := 0\<rparr>)"
    have t: "tq_trace q2 = tq_trace q @ es @ [BusTransact x]" "tq_trace q3 = tq_trace q @ es @ [BusTransact x, BusSync x]"
      "hTxnDoneQueue q2 = hTxnDoneQueue q" "hTxnDoneQueue q3 = hTxnDoneQueue q"
      using es by (simp_all add: q2_def q3_def)
    let ?s = "bus (tq_trace q2)"
    let ?e = "if x = pIn then ?s else e"
    show ?thesis
    proof (cases "?s = TXN_STATUS_PENDING")
      case True
      then have "q' = q2" using 1(3) sel Some by (subst (asm) txnQ_SendLoop.simps) (simp add: Let_def q2_def)
      then show ?thesis using t es(2) by (intro exI [of _ "es @ [BusTransact x]"]) simp
    next
      case False
      have go: "\<exists>q4 :: TTxnQObj. tq_trace q4 = tq_trace q3 \<and> set (tq_items (hTxnDoneQueue q4)) \<subseteq> insert x (set (tq_items (hTxnDoneQueue q))) \<and>
        (\<exists>fs. tq_trace q' = tq_trace q4 @ fs \<and> tq_cbs fs = [] \<and>
          set (tq_items (hTxnDoneQueue q')) \<subseteq> set (tq_items (hTxnDoneQueue q4)) \<union> tq_ended fs)"
      proof (cases "x = pIn")
        case True
        then have "txnQ_SendLoop bus pIn ?e q3 = Inr (st, q')"
          using 1(3) sel Some False by (subst (asm) txnQ_SendLoop.simps) (simp add: Let_def q2_def q3_def)
        from 1(1) [OF sel refl Some q2_def refl refl False q3_def True this] t(4) show ?thesis
          by (intro exI [of _ q3] conjI) auto
      next
        case neq: False
        then obtain q4 where q4: "tq_done_enq x q3 = Inr q4" "txnQ_SendLoop bus pIn ?e q4 = Inr (st, q')"
          using 1(3) sel Some False by (subst (asm) txnQ_SendLoop.simps) (auto simp: Let_def q2_def q3_def split: sum.splits)
        show ?thesis using 1(2) [OF sel refl Some q2_def refl refl False q3_def neq q4(1) q4(2)] done_enq_trace [OF q4(1)] t(4)
          by (intro exI [of _ q4]) simp
      qed
      then obtain q4 :: TTxnQObj and fs where "tq_trace q4 = tq_trace q3" "set (tq_items (hTxnDoneQueue q4)) \<subseteq> insert x (set (tq_items (hTxnDoneQueue q)))"
        "tq_trace q' = tq_trace q4 @ fs" "tq_cbs fs = []"
        "set (tq_items (hTxnDoneQueue q')) \<subseteq> set (tq_items (hTxnDoneQueue q4)) \<union> tq_ended fs" by blast
      then show ?thesis using t es(2) by (intro exI [of _ "es @ [BusTransact x, BusSync x] @ fs"]) auto
    qed
  qed
qed

text \<open>The callbacks: the done queue is emptied, in order.\<close>

lemma callback_silent:
  assumes "tq_inv q"
  shows "tq_callback no_client x q = Inr (tq_emit (TxnDoneCb (fTxnQueueDoneCb (aFuncInfo q WLAN)) (fi_hCbHandle (aFuncInfo q WLAN)) x) q)"
  using assms by (simp add: tq_callback_def Let_def no_client_def tq_inv_def tq_shape_def txn_wlan_def)

lemma DoneLoop_count:
  "tq_inv q \<Longrightarrow> tq_items (hTxnDoneQueue q) = ds \<Longrightarrow>
   \<exists>q'. txnQ_DoneLoop no_client q = Inr q' \<and> tq_inv q' \<and> tq_keep q q' \<and> tq_cbs (tq_trace q') = tq_cbs (tq_trace q) @ ds \<and>
     tq_items (hTxnDoneQueue q') = [] \<and> tq_waiting q' = tq_waiting q \<and> tq_single q' = tq_single q \<and> pCurrTxn q' = pCurrTxn q \<and>
     tq_bus_last E (tq_trace q') = tq_bus_last E (tq_trace q) \<and> bSchedulerPend q' = bSchedulerPend q \<and>
     bSchedulerBusy q' = bSchedulerBusy q"
proof (induction ds arbitrary: q)
  case Nil
  then have "tq_done_deq q = Inr (None, q)" using done_deq_inv [OF Nil.prems(1)] done_deq_result [of q] by (auto split: option.splits)
  then have "txnQ_DoneLoop no_client q = Inr q" by (subst txnQ_DoneLoop.simps) simp
  then show ?case using Nil.prems by (intro exI [of _ q]) simp
next
  case (Cons a ds)
  obtain Q where Q: "hTxnDoneQueue q = TqLive Q" using Cons.prems(1) by (auto simp: tq_inv_def tq_shape_def tq_live_def)
  let ?q1 = "q\<lparr>hTxnDoneQueue := TqLive (Q\<lparr>aq_items := ds\<rparr>)\<rparr>"
  have d: "tq_done_deq q = Inr (Some a, ?q1)" using Cons.prems(2) Q by (simp add: tq_done_deq_def tq_deq_def aq_Dequeue_def tq_items_def)
  then have q1: "tq_inv ?q1" using done_deq_inv [OF Cons.prems(1)] by auto
  let ?e = "TxnDoneCb (fTxnQueueDoneCb (aFuncInfo ?q1 WLAN)) (fi_hCbHandle (aFuncInfo ?q1 WLAN)) a"
  let ?q2 = "tq_emit ?e ?q1"
  have c: "tq_callback no_client a ?q1 = Inr ?q2" by (rule callback_silent [OF q1])
  have q2: "tq_inv ?q2" using inv_emit [OF q1, of ?e "pCurrTxn ?q1"] by simp
  have "tq_items (hTxnDoneQueue ?q2) = ds" by (simp add: tq_items_def)
  from Cons.IH [OF q2 this] obtain q' where q': "txnQ_DoneLoop no_client ?q2 = Inr q'" "tq_inv q'" "tq_keep ?q2 q'"
    "tq_cbs (tq_trace q') = tq_cbs (tq_trace ?q2) @ ds" "tq_items (hTxnDoneQueue q') = []" "tq_waiting q' = tq_waiting ?q2"
    "tq_single q' = tq_single ?q2" "pCurrTxn q' = pCurrTxn ?q2" "tq_bus_last E (tq_trace q') = tq_bus_last E (tq_trace ?q2)"
    "bSchedulerPend q' = bSchedulerPend ?q2" "bSchedulerBusy q' = bSchedulerBusy ?q2" by blast
  have "txnQ_DoneLoop no_client q = Inr q'" using d c q'(1) by (subst txnQ_DoneLoop.simps) simp
  moreover have "tq_keep q ?q2" using Q by (intro tq_keep_emit) (simp add: tq_keep_def tq_roomy_def tq_limit_def)
  then have "tq_keep q q'" using tq_keep_trans q'(3) by blast
  ultimately show ?case using q'(2,4-11) by (intro exI [of _ q']) simp
qed

text \<open>One call of the scheduler from an idle moment: the callbacks made are the transactions that left.\<close>

definition tq_moved :: "addr set \<Rightarrow> addr \<Rightarrow> ETxnStatus \<Rightarrow> TTxnQObj \<Rightarrow> TTxnQObj \<Rightarrow> bool" where
  "tq_moved E pIn st q q' \<longleftrightarrow> tq_keep q q' \<and> tq_sound E q' \<and>
     (\<exists>new. tq_cbs (tq_trace q') = tq_cbs (tq_trace q) @ new \<and>
       tq_mine E q = tq_mine E q' + filter_mset (\<lambda>x. x \<notin> E) (mset new) +
         (if pIn \<in> E \<or> st = TXN_STATUS_PENDING then {#} else {#pIn#})) \<and>
     (\<forall>es. tq_trace q' = tq_trace q @ es \<longrightarrow> set (tq_cbs es) \<subseteq> set (tq_items (hTxnDoneQueue q)) \<union> tq_ended es) \<and>
     (tq_elp_ok E q \<longrightarrow> tq_elp E q' = tq_elp E q \<and> tq_elp_ok E q')"

lemma RunScheduler_count:
  assumes i: "tq_inv q" and fl: "\<not> bSchedulerBusy q" "\<not> bSchedulerPend q" and rm: "tq_roomy q" and so: "tq_sound E q"
    and d: "pCurrTxn q = 0 \<or> tq_items (hTxnDoneQueue q) = []"
    and pIn: "pIn \<in># tq_run q \<or> pIn \<in> E \<or> pIn \<notin># tq_run q \<and> pIn = 0"
  shows "\<exists>st q'. txnQ_RunScheduler bus no_client pIn q = Some (Inr (st, q')) \<and> tq_settled q' \<and> tq_moved E pIn st q q' \<and>
    (pIn \<notin> E \<and> pIn \<notin># tq_run q \<longrightarrow> st = TXN_STATUS_PENDING)"
proof -
  obtain st q' where r: "txnQ_RunScheduler bus no_client pIn q = Some (Inr (st, q'))" "tq_settled q'"
    using RunScheduler_settles [OF i fl d no_client_ok, of bus pIn] by blast
  let ?q = "q\<lparr>bSchedulerBusy := True\<rparr>"
  have iq: "tq_inv ?q" by (rule pend_busy_inv(2) [OF i])
  have fin: "txnQ_RunPending bus no_client x = Some (Inr (x\<lparr>bSchedulerBusy := False\<rparr>))" if "\<not> bSchedulerPend x" for x
    using that by (subst txnQ_RunPending.simps) simp
  have upd: "tq_mine E (x\<lparr>bSchedulerBusy := b\<rparr>) = tq_mine E x" "tq_sound E (x\<lparr>bSchedulerBusy := b\<rparr>) = tq_sound E x"
    "tq_elp_ok E (x\<lparr>bSchedulerBusy := b\<rparr>) = tq_elp_ok E x" "tq_elp E (x\<lparr>bSchedulerBusy := b\<rparr>) = tq_elp E x"
    "tq_run (x\<lparr>bSchedulerBusy := b\<rparr>) = tq_run x" for x b
    by (simp_all add: tq_mine_def tq_sound_def tq_elp_ok_def tq_elp_def tq_run_def tq_single_def tq_waiting_def)
  show ?thesis
  proof (cases "pCurrTxn q = 0")
    case False
    then have "txnQ_Scheduler bus no_client pIn ?q = Inr (TXN_STATUS_PENDING, ?q)" by (simp add: txnQ_Scheduler_def)
    then have "st = TXN_STATUS_PENDING \<and> q' = ?q\<lparr>bSchedulerBusy := False\<rparr>" using r(1) fl fin [of ?q] by (simp add: txnQ_RunScheduler_def)
    moreover have "?q\<lparr>bSchedulerBusy := False\<rparr> = q" using fl(1) by simp
    ultimately have e: "st = TXN_STATUS_PENDING" "q' = q" by simp_all
    have "tq_moved E pIn st q q'" unfolding tq_moved_def e using so by simp
    then show ?thesis using r e(1) by blast
  next
    case True
    obtain s1 q1 where q1: "txnQ_SendLoop bus pIn TXN_STATUS_PENDING ?q = Inr (s1, q1)" "tq_keep ?q q1"
      "tq_cbs (tq_trace q1) = tq_cbs (tq_trace ?q)" "tq_sound E q1" "pIn \<in> E \<longrightarrow> tq_mine E q1 = tq_mine E ?q"
      "pIn \<notin> E \<and> pIn \<in># tq_run ?q \<longrightarrow> tq_mine E ?q = tq_mine E q1 + (if s1 = TXN_STATUS_PENDING then {#} else {#pIn#})"
      "pIn \<notin> E \<and> pIn \<notin># tq_run ?q \<longrightarrow> s1 = TXN_STATUS_PENDING \<and> tq_mine E q1 = tq_mine E ?q"
      "tq_elp_ok E ?q \<longrightarrow> tq_elp E q1 = tq_elp E ?q \<and> tq_elp_ok E q1"
      using SendLoop_count [OF iq, of E bus pIn TXN_STATUS_PENDING] True rm so upd(2) by (auto simp: tq_roomy_def)
    have i1: "tq_inv q1" "\<not> bSchedulerPend q1" using SendLoop_inv [OF iq, of bus pIn TXN_STATUS_PENDING] q1(1) True fl(2) by (auto simp: tq_same_def)
    let ?ds = "tq_items (hTxnDoneQueue q1)"
    obtain q2 where q2: "txnQ_DoneLoop no_client q1 = Inr q2" "tq_inv q2" "tq_keep q1 q2"
      "tq_cbs (tq_trace q2) = tq_cbs (tq_trace q1) @ ?ds" "tq_items (hTxnDoneQueue q2) = []" "tq_waiting q2 = tq_waiting q1"
      "tq_single q2 = tq_single q1" "pCurrTxn q2 = pCurrTxn q1" "tq_bus_last E (tq_trace q2) = tq_bus_last E (tq_trace q1)"
      "bSchedulerPend q2 = bSchedulerPend q1"
      using DoneLoop_count [OF i1(1) refl, of E] by blast
    have all: "tq_all q1 = tq_all q2 + mset ?ds" using q2(5-8) by (simp add: tq_all_def)
    have m2: "tq_mine E q1 = tq_mine E q2 + filter_mset (\<lambda>x. x \<notin> E) (mset ?ds)" unfolding tq_mine_def all by simp
    have so2: "tq_sound E q2" using q2(5) all by (intro tq_sound_sub [OF q1(4)]) simp_all
    have "txnQ_Scheduler bus no_client pIn ?q = Inr (s1, q2)" using True q1(1) q2(1) by (simp add: txnQ_Scheduler_def)
    then have e: "st = s1" "q' = q2\<lparr>bSchedulerBusy := False\<rparr>"
      using r(1) fl fin [of q2] q2(10) i1(2) by (simp_all add: txnQ_RunScheduler_def)
    have k: "tq_keep q q'" unfolding e using tq_keep_trans [OF q1(2) q2(3)] by simp
    have "tq_elp E q2 = tq_elp E q1" "tq_elp_ok E q2 = tq_elp_ok E q1" using q2(6,7,9) by (simp_all add: tq_elp_def tq_elp_ok_def)
    then have el: "tq_elp_ok E q \<longrightarrow> tq_elp E q' = tq_elp E q \<and> tq_elp_ok E q'"
      using q1(8) unfolding e upd by simp
    have m: "tq_mine E q = tq_mine E q' + filter_mset (\<lambda>x. x \<notin> E) (mset ?ds) + (if pIn \<in> E \<or> st = TXN_STATUS_PENDING then {#} else {#pIn#})"
    proof (cases "pIn \<in> E")
      case True
      then show ?thesis using q1(5) m2 unfolding e upd by simp
    next
      case out: False
      show ?thesis
      proof (cases "pIn \<in># tq_run q")
        case True
        then have "tq_mine E q = tq_mine E q1 + (if s1 = TXN_STATUS_PENDING then {#} else {#pIn#})" using q1(6) out unfolding upd by blast
        then show ?thesis using out m2 unfolding e upd by simp
      next
        case False
        then have "s1 = TXN_STATUS_PENDING \<and> tq_mine E q1 = tq_mine E q" using q1(7) out unfolding upd by blast
        then show ?thesis using m2 unfolding e upd by simp
      qed
    qed
    have c: "tq_cbs (tq_trace q') = tq_cbs (tq_trace q) @ ?ds" using q1(3) q2(4) by (simp add: e)
    have s: "tq_sound E q'" using so2 unfolding e upd .
    have en: "set (tq_cbs es) \<subseteq> set (tq_items (hTxnDoneQueue q)) \<union> tq_ended es" if "tq_trace q' = tq_trace q @ es" for es
    proof -
      obtain fs where fs: "tq_trace q1 = tq_trace q @ fs" "tq_cbs fs = []" "set ?ds \<subseteq> set (tq_items (hTxnDoneQueue q)) \<union> tq_ended fs"
        using SendLoop_trace [OF q1(1)] by auto
      obtain gs where gs: "tq_trace q2 = tq_trace q1 @ gs" using q2(3) by (auto simp: tq_keep_def)
      have "es = fs @ gs" using that fs(1) gs by (simp add: e)
      moreover have "tq_cbs gs = ?ds" using q2(4) gs by simp
      ultimately show ?thesis using fs(2,3) by auto
    qed
    have "tq_moved E pIn st q q'" unfolding tq_moved_def using k s c m el en by (intro conjI exI [of _ ?ds]) simp_all
    moreover have "pIn \<notin> E \<and> pIn \<notin># tq_run q \<longrightarrow> st = TXN_STATUS_PENDING" using q1(7) unfolding e upd by blast
    ultimately show ?thesis using r by blast
  qed
qed

section \<open>The operations\<close>

definition tq_ok :: "addr set \<Rightarrow> TTxnQObj \<Rightarrow> bool" where
  "tq_ok E q \<longleftrightarrow> tq_settled q \<and> tq_roomy q \<and> tq_sound E q \<and> tq_elp_ok E q \<and> 0 \<notin> E"

text \<open>\<open>new\<close> are the transactions reported by callbacks on the way from \<open>q\<close> to \<open>q'\<close>, those of \<open>X\<close> and those the
  bus driver completed; nothing else in the queue is lost.\<close>

definition tq_went :: "addr set \<Rightarrow> addr set \<Rightarrow> TTxnQObj \<Rightarrow> TTxnQObj \<Rightarrow> addr list \<Rightarrow> addr multiset \<Rightarrow> bool" where
  "tq_went X E q q' new M \<longleftrightarrow>
     (\<exists>es. tq_trace q' = tq_trace q @ es \<and> tq_cbs es = new \<and> set new \<subseteq> X \<union> tq_ended es) \<and>
     M = tq_mine E q' + filter_mset (\<lambda>x. x \<notin> E) (mset new)"

lemma moved_went:
  assumes "tq_moved E pIn st q q'" "tq_settled q'" "tq_roomy q" "tq_elp_ok E q" "0 \<notin> E"
  shows "tq_ok E q'" "\<exists>new. tq_went (set (tq_items (hTxnDoneQueue q))) E q q' new (tq_mine E q - (if pIn \<in> E \<or> st = TXN_STATUS_PENDING then {#} else {#pIn#}))"
    "tq_elp E q' = tq_elp E q" "tq_mem q' = tq_mem q" "eState (aFuncInfo q' WLAN) = eState (aFuncInfo q WLAN)"
proof -
  have k: "tq_keep q q'" "tq_sound E q'" "tq_elp E q' = tq_elp E q" "tq_elp_ok E q'" using assms by (simp_all add: tq_moved_def)
  then show "tq_ok E q'" using assms(2,3,5) by (simp add: tq_ok_def tq_keep_def)
  show "tq_elp E q' = tq_elp E q" by (rule k(3))
  show "tq_mem q' = tq_mem q" "eState (aFuncInfo q' WLAN) = eState (aFuncInfo q WLAN)" using k(1) by (simp_all add: tq_keep_def)
  obtain new where n: "tq_cbs (tq_trace q') = tq_cbs (tq_trace q) @ new"
    "tq_mine E q = tq_mine E q' + filter_mset (\<lambda>x. x \<notin> E) (mset new) + (if pIn \<in> E \<or> st = TXN_STATUS_PENDING then {#} else {#pIn#})"
    using assms(1) by (auto simp: tq_moved_def)
  obtain es where es: "tq_trace q' = tq_trace q @ es" using k(1) by (auto simp: tq_keep_def)
  then have cs: "tq_cbs es = new" using n(1) by simp
  moreover have "set (tq_cbs es) \<subseteq> set (tq_items (hTxnDoneQueue q)) \<union> tq_ended es" using assms(1) es by (simp add: tq_moved_def)
  ultimately show "\<exists>new. tq_went (set (tq_items (hTxnDoneQueue q))) E q q' new (tq_mine E q - (if pIn \<in> E \<or> st = TXN_STATUS_PENDING then {#} else {#pIn#}))"
    using es n(2) unfolding tq_went_def by (intro exI [of _ new]) simp
qed

text \<open>A transaction of the client is accepted.\<close>

lemma Submit_count:
  assumes ok: "tq_ok E q" and x: "x \<noteq> 0" "x \<notin># tq_all q" "TXN_PARAM_GET_SINGLE_STEP (tq_mem q x) = 0"
  shows "\<exists>p h. txnQ_Submit x q = Inr (True, tq_emit (Submitted x (WLAN, p)) (q\<lparr>aTxnQueues := (aTxnQueues q)((WLAN, p) := h)\<rparr>)) \<and>
    p < MAX_PRIORITY \<and> tq_items h = tq_items (aTxnQueues q (WLAN, p)) @ [x] \<and> tq_limit h = tq_limit (aTxnQueues q (WLAN, p))"
proof -
  let ?t = "tq_mem q x"
  have i: "tq_inv q" using ok by (simp add: tq_ok_def tq_settled_def)
  obtain p where t: "unat (TXN_PARAM_GET_FUNC_ID ?t) = WLAN" "unat (TXN_PARAM_GET_PRIORITY ?t) = p" "p < MAX_PRIORITY"
    using i by (auto simp: tq_inv_def tq_shape_def txn_wlan_def)
  obtain Q where Q: "aTxnQueues q (WLAN, p) = TqLive Q" using i t(3) by (auto simp: tq_inv_def tq_shape_def tq_live_def)
  have nl: "x \<notin> tq_linked q" using x(2) by (auto simp: linked_wlan tq_all_def)
  have "aq_limit Q = 0xFFFFFFFF" using ok t(3) Q by (auto simp: tq_ok_def tq_roomy_def tq_limit_def dest!: spec [of _ p])
  moreover have "length (aq_items Q) < 0xFFFFFFFF"
  proof -
    have sh: "tq_shape q" using i by (simp add: tq_inv_def)
    have "p = 0 \<or> p = 1" using t(3) by (auto simp: MAX_PRIORITY_def)
    then have "length (aq_items Q) \<le> length (tq_waiting q)" unfolding waiting_wlan [OF sh] using Q by (auto simp: tq_items_def)
    also have "length (tq_waiting q) = size (filter_mset (\<lambda>x. x \<notin> E) (mset (tq_waiting q)))"
    proof -
      have "filter (\<lambda>x. x \<notin> E) (tq_waiting q) = tq_waiting q" using ok by (intro filter_True) (auto simp: tq_ok_def tq_elp_ok_def)
      then show ?thesis by (simp flip: mset_filter)
    qed
    also have "\<dots> \<le> size (tq_mine E q)" by (simp add: tq_mine_def tq_all_def)
    finally show ?thesis using ok by (simp add: tq_ok_def tq_sound_def)
  qed
  ultimately have e: "tq_enq q x (aTxnQueues q (WLAN, p)) = Inr (TI_OK, TqLive (Q\<lparr>aq_items := aq_items Q @ [x],
      aq_max := max (aq_max Q) (aq_Size Q + 1)\<rparr>))"
    using Q nl by (simp add: tq_enq_def aq_Enqueue_def)
  then have "txnQ_Submit x q = Inr (True, tq_emit (Submitted x (WLAN, p)) (q\<lparr>aTxnQueues := (aTxnQueues q)((WLAN, p) :=
      TqLive (Q\<lparr>aq_items := aq_items Q @ [x], aq_max := max (aq_max Q) (aq_Size Q + 1)\<rparr>))\<rparr>))"
    using t x(3) by (simp add: txnQ_Submit_def Let_def)
  then show ?thesis using t(3) Q by (intro exI conjI) (assumption, simp_all add: tq_items_def tq_limit_def)
qed

lemma Transact_count:
  assumes ok: "tq_ok E q" and x: "x \<noteq> 0" "x \<notin> E" "x \<notin># tq_all q" "TXN_PARAM_GET_SINGLE_STEP (tq_mem q x) = 0"
    and n: "size (tq_mine E q) < 0xFFFFFFE0"
  shows "\<exists>st q' new. txnQ_Transact bus no_client x q = Some (Inr (st, q')) \<and> tq_ok E q' \<and> tq_mem q' = tq_mem q \<and>
    eState (aFuncInfo q' WLAN) = eState (aFuncInfo q WLAN) \<and> tq_elp E q' = tq_elp E q \<and>
    tq_went {} E q q' new (tq_mine E q + (if st = TXN_STATUS_PENDING then {#x#} else {#}))"
proof -
  have i: "tq_inv q" "tq_shape q" and fl: "\<not> bSchedulerBusy q" "\<not> bSchedulerPend q" "tq_items (hTxnDoneQueue q) = []"
    using ok by (simp_all add: tq_ok_def tq_settled_def tq_inv_def)
  obtain p h where s: "txnQ_Submit x q = Inr (True, tq_emit (Submitted x (WLAN, p)) (q\<lparr>aTxnQueues := (aTxnQueues q)((WLAN, p) := h)\<rparr>))"
    "p < MAX_PRIORITY" "tq_items h = tq_items (aTxnQueues q (WLAN, p)) @ [x]" "tq_limit h = tq_limit (aTxnQueues q (WLAN, p))"
    using Submit_count [OF ok x(1,3,4)] by blast
  define q0 where "q0 = tq_emit (Submitted x (WLAN, p)) (q\<lparr>aTxnQueues := (aTxnQueues q)((WLAN, p) := h)\<rparr>)"
  have q0: "txnQ_Submit x q = Inr (True, q0)" using s(1) by (simp add: q0_def)
  have iq: "tq_inv q0" "tq_shape q0" using Submit_inv [OF i(1) x(1)] q0 by (auto simp: tq_inv_def)
  have p2: "p = 0 \<or> p = 1" using s(2) by (auto simp: MAX_PRIORITY_def)
  have w: "mset (tq_waiting q0) = add_mset x (mset (tq_waiting q))"
    unfolding waiting_wlan [OF iq(2)] waiting_wlan [OF i(2)] using p2 s(3) by (elim disjE) (simp_all add: q0_def)
  have ws: "set (tq_waiting q0) = insert x (set (tq_waiting q))" using w by (metis set_mset_add_mset_insert set_mset_mset)
  have sg: "tq_single q0 = tq_single q" by (simp add: tq_single_def q0_def)
  have same: "hTxnDoneQueue q0 = hTxnDoneQueue q" "pCurrTxn q0 = pCurrTxn q" "bSchedulerBusy q0 = bSchedulerBusy q"
    "bSchedulerPend q0 = bSchedulerPend q" "tq_mem q0 = tq_mem q" "aFuncInfo q0 = aFuncInfo q"
    "tq_bus_last E (tq_trace q0) = tq_bus_last E (tq_trace q)" "tq_trace q0 = tq_trace q @ [Submitted x (WLAN, p)]"
    by (simp_all add: q0_def)
  have all: "tq_all q0 = add_mset x (tq_all q)" using w sg same by (simp add: tq_all_def)
  have mine: "tq_mine E q0 = add_mset x (tq_mine E q)" unfolding tq_mine_def all using x(2) by simp
  have rm: "tq_roomy q" "tq_roomy q0" using ok s(4) by (auto simp: tq_ok_def tq_roomy_def q0_def)
  have so: "tq_sound E q0" using ok x(3) n unfolding tq_ok_def tq_sound_def all mine same by (auto simp: not_in_iff)
  have el: "tq_elp_ok E q0" "tq_elp E q0 = tq_elp E q" using ok x(2) by (simp_all add: tq_ok_def tq_elp_ok_def ws sg tq_elp_def same)
  have run: "x \<in># tq_run q0" by (simp add: tq_run_def w)
  have fl': "\<not> bSchedulerBusy q0" "\<not> bSchedulerPend q0" "pCurrTxn q0 = 0 \<or> tq_items (hTxnDoneQueue q0) = []" using fl by (simp_all add: same)
  obtain st q' where r: "txnQ_RunScheduler bus no_client x q0 = Some (Inr (st, q'))" "tq_settled q'" "tq_moved E x st q0 q'"
    using RunScheduler_count [OF iq(1) fl'(1,2) rm(2) so fl'(3), of x bus] run by blast
  have z: "0 \<notin> E" using ok by (simp add: tq_ok_def)
  note M = moved_went [OF r(3,2) rm(2) el(1) z]
  obtain new where new: "tq_went (set (tq_items (hTxnDoneQueue q0))) E q0 q' new (tq_mine E q0 - (if x \<in> E \<or> st = TXN_STATUS_PENDING then {#} else {#x#}))"
    using M(2) by blast
  have "tq_went {} E q q' new (tq_mine E q + (if st = TXN_STATUS_PENDING then {#x#} else {#}))"
    using new x(2) unfolding mine tq_went_def same fl(3) by (auto split: if_splits)
  moreover have "txnQ_Transact bus no_client x q = Some (Inr (st, q'))" using q0 r(1) by (simp add: txnQ_Transact_def)
  ultimately show ?thesis using M(1,3-5) el(2) by (intro exI [of _ st] exI [of _ q'] exI [of _ new]) (simp add: same)
qed

text \<open>A single step transaction of \<open>E\<close>, replacing one that waits.\<close>

lemma Transact_single_count:
  assumes ok: "tq_ok E q" and x: "x \<noteq> 0" "x \<in> E" "TXN_PARAM_GET_SINGLE_STEP (tq_mem q x) \<noteq> 0"
  shows "\<exists>st q' new. txnQ_Transact bus no_client x q = Some (Inr (st, q')) \<and> tq_ok E q' \<and> tq_mem q' = tq_mem q \<and>
    eState (aFuncInfo q' WLAN) = eState (aFuncInfo q WLAN) \<and> tq_elp E q' = x \<and> tq_went {} E q q' new (tq_mine E q)"
proof -
  have i: "tq_inv q" "tq_shape q" and fl: "\<not> bSchedulerBusy q" "\<not> bSchedulerPend q" "tq_items (hTxnDoneQueue q) = []"
    using ok by (simp_all add: tq_ok_def tq_settled_def tq_inv_def)
  have f: "unat (TXN_PARAM_GET_FUNC_ID (tq_mem q x)) = WLAN" using i(2) by (simp add: tq_shape_def txn_wlan_def)
  define q0 where "q0 = q\<lparr>aFuncInfo := (aFuncInfo q)(WLAN := (aFuncInfo q WLAN)\<lparr>pSingleStep := x\<rparr>)\<rparr>"
  have q0: "txnQ_Submit x q = Inr (True, q0)" using x(3) f by (simp add: txnQ_Submit_def Let_def q0_def)
  have iq: "tq_inv q0" using Submit_inv [OF i(1) x(1)] q0 by auto
  have same: "hTxnDoneQueue q0 = hTxnDoneQueue q" "pCurrTxn q0 = pCurrTxn q" "bSchedulerBusy q0 = bSchedulerBusy q"
    "bSchedulerPend q0 = bSchedulerPend q" "tq_mem q0 = tq_mem q" "eState (aFuncInfo q0 WLAN) = eState (aFuncInfo q WLAN)"
    "tq_trace q0 = tq_trace q" "tq_waiting q0 = tq_waiting q" "tq_single q0 = x" "aTxnQueues q0 = aTxnQueues q"
    by (simp_all add: q0_def tq_waiting_def tq_single_def)
  have s0: "tq_single q \<in> insert 0 E" using ok by (simp add: tq_ok_def tq_elp_ok_def)
  have mine: "tq_mine E q0 = tq_mine E q" using s0 x by (auto simp: tq_mine_def tq_all_def same tq_one_def)
  have cnt: "count (tq_all q0) y = count (tq_all q) y" if "y \<notin> E" for y
    using that s0 x by (auto simp: tq_all_def same tq_one_def)
  have so: "tq_sound E q0" using ok by (simp add: tq_ok_def tq_sound_def mine cnt same)
  have rm: "tq_roomy q" "tq_roomy q0" using ok by (simp_all add: tq_ok_def tq_roomy_def same)
  have el: "tq_elp_ok E q0" "tq_elp E q0 = x" using ok x by (simp_all add: tq_ok_def tq_elp_ok_def tq_elp_def same)
  have fl': "\<not> bSchedulerBusy q0" "\<not> bSchedulerPend q0" "pCurrTxn q0 = 0 \<or> tq_items (hTxnDoneQueue q0) = []"
    using fl by (simp_all add: same)
  obtain st q' where r: "txnQ_RunScheduler bus no_client x q0 = Some (Inr (st, q'))" "tq_settled q'" "tq_moved E x st q0 q'"
    using RunScheduler_count [OF iq fl'(1,2) rm(2) so fl'(3), of x bus] x(2) by blast
  have z: "0 \<notin> E" using ok by (simp add: tq_ok_def)
  note M = moved_went [OF r(3,2) rm(2) el(1) z]
  obtain new where "tq_went (set (tq_items (hTxnDoneQueue q0))) E q0 q' new (tq_mine E q0)" using M(2) x(2) by auto
  then have "tq_went {} E q q' new (tq_mine E q)" unfolding mine tq_went_def same fl(3) by simp
  moreover have "txnQ_Transact bus no_client x q = Some (Inr (st, q'))" using q0 r(1) by (simp add: txnQ_Transact_def)
  ultimately show ?thesis using M(1,3-5) el(2) by (intro exI [of _ st] exI [of _ q'] exI [of _ new]) (simp add: same)
qed

text \<open>From a moment at which nothing can be selected, a single step transaction goes out alone.\<close>

lemma deq_slot_empty:
  assumes "tq_inv q" "p < MAX_PRIORITY" "tq_items (aTxnQueues q (WLAN, p)) = []"
  shows "tq_deq_slot (WLAN, p) q = Inr (None, q)"
proof -
  have "(WLAN, p) \<in> set tq_slots" using assms(2) by (simp add: set_tq_slots WLAN_def MAX_FUNCTIONS_def)
  then obtain y q1 where y: "tq_deq_slot (WLAN, p) q = Inr (y, q1)" using deq_slot_inv [OF assms(1)] assms(2) WLAN_less by blast
  then show ?thesis using deq_slot_result [OF y] assms(3) by (auto simp: tq_items_def)
qed

lemma idle_select:
  assumes i: "tq_inv q" and id: "tq_idle q"
  shows "txnQ_SelectTxn q = Inr (None, q)"
proof -
  have sh: "tq_shape q" using i by (simp add: tq_inv_def)
  have one: "[uMinFuncId q..<Suc (uMaxFuncId q)] = [WLAN]" "\<not> MAX_FUNCTIONS \<le> uMaxFuncId q"
    using sh by (simp_all add: tq_shape_def WLAN_def MAX_FUNCTIONS_def)
  show ?thesis
  proof (cases "pAggregQueue q")
    case (Some t)
    then obtain p where t: "t = (WLAN, p)" "p < MAX_PRIORITY" using sh by (cases t) (auto simp: tq_shape_def)
    then have "tq_deq_slot t q = Inr (None, q)" using deq_slot_empty [OF i] id Some by (simp add: tq_idle_def)
    then show ?thesis using Some by (simp add: txnQ_SelectTxn_def txnQ_SelectAggreg_def)
  next
    case None
    have d: "tq_deq_slot (WLAN, p) q = Inr (None, q)"
      if "eState (aFuncInfo q WLAN) = FUNC_STATE_RUNNING" "p < MAX_PRIORITY" for p
      using deq_slot_empty [OF i that(2)] that id None by (simp add: tq_idle_def)
    have "txnQ_SelectQueue [(WLAN, 0), (WLAN, 1)] q = Inr (None, q)" using d [OF _ WLAN_less(2)] d [OF _ WLAN_less(3)] by simp
    then show ?thesis using None id one tq_order_wlan [OF sh] by (simp add: txnQ_SelectTxn_def tq_idle_def del: upt_Suc)
  qed
qed


lemma Transact_single_silent:
  assumes i: "tq_inv q" and fl: "\<not> bSchedulerBusy q" "\<not> bSchedulerPend q" and d: "tq_items (hTxnDoneQueue q) = []"
    and id: "pCurrTxn q = 0 \<longrightarrow> tq_idle q" and x: "x \<noteq> 0" "TXN_PARAM_GET_SINGLE_STEP (tq_mem q x) \<noteq> 0"
    and r: "txnQ_Transact bus no_client x q = Some (Inr (st, q'))"
  shows "tq_cbs (tq_trace q') = tq_cbs (tq_trace q)"
proof -
  have f: "unat (TXN_PARAM_GET_FUNC_ID (tq_mem q x)) = WLAN" using i by (simp add: tq_inv_def tq_shape_def txn_wlan_def)
  define q0 where "q0 = q\<lparr>aFuncInfo := (aFuncInfo q)(WLAN := (aFuncInfo q WLAN)\<lparr>pSingleStep := x\<rparr>), bSchedulerBusy := True\<rparr>"
  have fin: "txnQ_RunPending bus no_client z = Some (Inr (z\<lparr>bSchedulerBusy := False\<rparr>))" if "\<not> bSchedulerPend z" for z
    using that by (subst txnQ_RunPending.simps) simp
  have "\<exists>s q1. txnQ_Scheduler bus no_client x q0 = Inr (s, q1) \<and> \<not> bSchedulerPend q1 \<and> tq_cbs (tq_trace q1) = tq_cbs (tq_trace q)"
  proof (cases "pCurrTxn q = 0")
    case False
    then show ?thesis using fl by (simp add: txnQ_Scheduler_def q0_def)
  next
    case c: True
    then have id: "tq_idle q" using id by simp
    have "\<exists>s q1. txnQ_SendLoop bus x TXN_STATUS_PENDING q0 = Inr (s, q1) \<and> tq_inv q1 \<and> tq_items (hTxnDoneQueue q1) = [] \<and>
      \<not> bSchedulerPend q1 \<and> tq_cbs (tq_trace q1) = tq_cbs (tq_trace q)"
    proof (cases "pAggregQueue q")
      case (Some t)
      have "tq_inv (q\<lparr>aFuncInfo := (aFuncInfo q)(WLAN := (aFuncInfo q WLAN)\<lparr>pSingleStep := x\<rparr>)\<rparr>)"
        using i by (auto simp: tq_inv_def tq_shape_def)
      from pend_busy_inv(2) [OF this, of True] have i0: "tq_inv q0" by (simp add: q0_def)
      have "tq_idle q0" using id Some by (simp add: tq_idle_def q0_def)
      then have "txnQ_SendLoop bus x TXN_STATUS_PENDING q0 = Inr (TXN_STATUS_PENDING, q0)"
        using idle_select [OF i0] by (subst txnQ_SendLoop.simps) simp
      then show ?thesis using i0 d fl by (simp add: q0_def)
    next
      case None
      let ?q = "q\<lparr>bSchedulerBusy := True\<rparr>"
      have iq: "tq_inv ?q" by (rule pend_busy_inv(2) [OF i])
      have z: "pSingleStep (aFuncInfo q WLAN) = 0" using id None by (simp add: tq_idle_def)
      have "[uMinFuncId q..<Suc (uMaxFuncId q)] = [WLAN]" "\<not> MAX_FUNCTIONS \<le> uMaxFuncId q"
        using i by (simp_all add: tq_inv_def tq_shape_def WLAN_def MAX_FUNCTIONS_def)
      then have "txnQ_SelectTxn q0 = Inr (Some x, q0\<lparr>aFuncInfo := (aFuncInfo q0)(WLAN := (aFuncInfo q0 WLAN)\<lparr>pSingleStep := 0\<rparr>)\<rparr>)"
        using None x(1) by (simp add: txnQ_SelectTxn_def q0_def del: upt_Suc)
      moreover have "(aFuncInfo q)(WLAN := (aFuncInfo q WLAN)\<lparr>pSingleStep := 0\<rparr>) = aFuncInfo q" using z by (auto simp: fun_eq_iff)
      then have "q0\<lparr>aFuncInfo := (aFuncInfo q0)(WLAN := (aFuncInfo q0 WLAN)\<lparr>pSingleStep := 0\<rparr>)\<rparr> = ?q" by (simp add: q0_def)
      ultimately have sel: "txnQ_SelectTxn q0 = Inr (Some x, ?q)" by simp
      define q2 where "q2 = tq_emit (BusTransact x) (?q\<lparr>pCurrTxn := x\<rparr>)"
      define q3 where "q3 = tq_emit (BusSync x) (q2\<lparr>pCurrTxn := 0\<rparr>)"
      have i2: "tq_inv q2" unfolding q2_def using iq c x by (intro inv_emit) simp_all
      have i3: "tq_inv q3" unfolding q3_def using i2 x by (intro inv_emit) (simp_all add: q2_def)
      have "tq_idle q3 = tq_idle q" by (rule tq_idle_cong) (simp_all add: q3_def q2_def)
      then have "txnQ_SendLoop bus x e q3 = Inr (e, q3)" for e
        using idle_select [OF i3] id by (subst txnQ_SendLoop.simps) simp
      then have "txnQ_SendLoop bus x TXN_STATUS_PENDING q0 =
          Inr (if bus (tq_trace q2) = TXN_STATUS_PENDING then (TXN_STATUS_PENDING, q2) else (bus (tq_trace q2), q3))"
        using sel by (subst txnQ_SendLoop.simps) (simp add: Let_def q2_def q3_def)
      then show ?thesis using i2 i3 d fl by (simp add: q2_def q3_def)
    qed
    then obtain s q1 where q1: "txnQ_SendLoop bus x TXN_STATUS_PENDING q0 = Inr (s, q1)" "tq_inv q1" "tq_items (hTxnDoneQueue q1) = []"
      "\<not> bSchedulerPend q1" "tq_cbs (tq_trace q1) = tq_cbs (tq_trace q)" by blast
    have "tq_done_deq q1 = Inr (None, q1)" using done_deq_inv [OF q1(2)] done_deq_result [of q1] q1(3) by (auto split: option.splits)
    then have "txnQ_DoneLoop no_client q1 = Inr q1" by (subst txnQ_DoneLoop.simps) simp
    then show ?thesis using c q1 by (simp add: txnQ_Scheduler_def q0_def)
  qed
  then obtain s q1 where q1: "txnQ_Scheduler bus no_client x q0 = Inr (s, q1)" "\<not> bSchedulerPend q1" "tq_cbs (tq_trace q1) = tq_cbs (tq_trace q)"
    by blast
  have "txnQ_Submit x q = Inr (True, q0\<lparr>bSchedulerBusy := False\<rparr>)" using x(2) f fl(1) by (simp add: txnQ_Submit_def Let_def q0_def)
  moreover have "(q0\<lparr>bSchedulerBusy := False\<rparr>)\<lparr>bSchedulerBusy := True\<rparr> = q0" by (simp add: q0_def)
  ultimately have "txnQ_Transact bus no_client x q = Some (Inr (s, q1\<lparr>bSchedulerBusy := False\<rparr>))"
    using q1(1,2) fl fin [of q1] by (simp add: txnQ_Transact_def txnQ_RunScheduler_def q0_def)
  then show ?thesis using r q1(3) by simp
qed

lemma set_state_count [simp]:
  "tq_waiting (tq_set_state f st q) = tq_waiting q" "tq_all (tq_set_state f st q) = tq_all q"
  "tq_single (tq_set_state f st q) = tq_single q" "tq_roomy (tq_set_state f st q) = tq_roomy q"
  "tq_sound E (tq_set_state f st q) = tq_sound E q" "tq_elp_ok E (tq_set_state f st q) = tq_elp_ok E q"
  "tq_elp E (tq_set_state f st q) = tq_elp E q" "tq_mine E (tq_set_state f st q) = tq_mine E q"
  "eState (aFuncInfo (tq_set_state f st q) f) = st"
proof -
  show w: "tq_waiting (tq_set_state f st q) = tq_waiting q" by (simp add: tq_waiting_def)
  show sg: "tq_single (tq_set_state f st q) = tq_single q" by (simp add: tq_single_def tq_set_state_def)
  show a: "tq_all (tq_set_state f st q) = tq_all q" by (simp add: tq_all_def w sg)
  show "tq_roomy (tq_set_state f st q) = tq_roomy q" by (simp add: tq_roomy_def)
  show m: "tq_mine E (tq_set_state f st q) = tq_mine E q" by (simp add: tq_mine_def a)
  show "tq_sound E (tq_set_state f st q) = tq_sound E q" by (simp add: tq_sound_def m a)
  show "tq_elp_ok E (tq_set_state f st q) = tq_elp_ok E q" "tq_elp E (tq_set_state f st q) = tq_elp E q"
    by (simp_all add: tq_elp_ok_def tq_elp_def w sg)
  show "eState (aFuncInfo (tq_set_state f st q) f) = st" by (simp add: tq_set_state_def)
qed

text \<open>The scheduler called without an input transaction.\<close>

lemma live_items: "tq_live h \<Longrightarrow> 0 \<notin> set (tq_items h)"
  by (auto simp: tq_live_def tq_items_def)

lemma run_nonzero:
  assumes "tq_inv q"
  shows "0 \<notin># tq_run q"
proof -
  have sh: "tq_shape q" using assms by (simp add: tq_inv_def)
  have "tq_live (aTxnQueues q (WLAN, 0))" "tq_live (aTxnQueues q (WLAN, 1))"
    using sh WLAN_less(2,3) by (simp_all add: tq_shape_def)
  then have "0 \<notin> set (tq_waiting q)" unfolding waiting_wlan [OF sh] by (simp add: live_items)
  then show ?thesis by (simp add: tq_run_def tq_one_def)
qed

lemma RunScheduler_none:
  assumes i: "tq_inv q" and fl: "\<not> bSchedulerBusy q" "\<not> bSchedulerPend q" and rm: "tq_roomy q" and so: "tq_sound E q"
    and d: "pCurrTxn q = 0 \<or> tq_items (hTxnDoneQueue q) = []" and el: "tq_elp_ok E q" and z: "0 \<notin> E"
  shows "\<exists>st q' new. txnQ_RunScheduler bus no_client 0 q = Some (Inr (st, q')) \<and> tq_ok E q' \<and> tq_mem q' = tq_mem q \<and>
    eState (aFuncInfo q' WLAN) = eState (aFuncInfo q WLAN) \<and> tq_elp E q' = tq_elp E q \<and> tq_went (set (tq_items (hTxnDoneQueue q))) E q q' new (tq_mine E q)"
proof -
  have n: "0 \<notin># tq_run q" by (rule run_nonzero [OF i])
  obtain st q' where r: "txnQ_RunScheduler bus no_client 0 q = Some (Inr (st, q'))" "tq_settled q'" "tq_moved E 0 st q q'"
    "st = TXN_STATUS_PENDING"
    using RunScheduler_count [OF i fl rm so d, of 0 bus] n z by blast
  note M = moved_went [OF r(3,2) rm el z]
  obtain new where "tq_went (set (tq_items (hTxnDoneQueue q))) E q q' new (tq_mine E q)" using M(2) r(4) by auto
  then show ?thesis using r(1) M(1,3-5) by blast
qed

lemma Run_count:
  assumes ok: "tq_ok E q"
  shows "\<exists>q' new. txnQ_Run bus no_client WLAN q = Some (Inr q') \<and> tq_ok E q' \<and> tq_mem q' = tq_mem q \<and>
    eState (aFuncInfo q' WLAN) = FUNC_STATE_RUNNING \<and> tq_elp E q' = tq_elp E q \<and> tq_went {} E q q' new (tq_mine E q)"
proof -
  let ?q = "tq_set_state WLAN FUNC_STATE_RUNNING q"
  have i: "tq_inv ?q" using ok by (intro set_state_inv) (simp_all add: tq_ok_def tq_settled_def)
  have fl: "\<not> bSchedulerBusy ?q" "\<not> bSchedulerPend ?q" "pCurrTxn ?q = 0 \<or> tq_items (hTxnDoneQueue ?q) = []"
    and rm: "tq_roomy ?q" and so: "tq_sound E ?q" and el: "tq_elp_ok E ?q" and z: "0 \<notin> E"
    using ok by (simp_all add: tq_ok_def tq_settled_def)
  obtain st q' new where r: "txnQ_RunScheduler bus no_client 0 ?q = Some (Inr (st, q'))" "tq_ok E q'" "tq_mem q' = tq_mem ?q"
    "eState (aFuncInfo q' WLAN) = eState (aFuncInfo ?q WLAN)" "tq_elp E q' = tq_elp E ?q" "tq_went (set (tq_items (hTxnDoneQueue ?q))) E ?q q' new (tq_mine E ?q)"
    using RunScheduler_none [OF i fl(1,2) rm so fl(3) el z, of bus] by blast
  have "tq_went {} E q q' new (tq_mine E q)" using r(6) ok by (simp add: tq_went_def tq_ok_def tq_settled_def)
  then show ?thesis using r by (intro exI [of _ q'] exI [of _ new]) (simp add: txnQ_Run_def)
qed

lemma Stop_count:
  assumes ok: "tq_ok E q"
  shows "\<exists>q'. txnQ_Stop WLAN q = Inr q' \<and> tq_ok E q' \<and> tq_mem q' = tq_mem q \<and> eState (aFuncInfo q' WLAN) = FUNC_STATE_STOPPED \<and>
    tq_elp E q' = tq_elp E q \<and> tq_mine E q' = tq_mine E q \<and> tq_trace q' = tq_trace q \<and> pCurrTxn q' = pCurrTxn q"
  using ok Stop_settles [of q] by (auto simp: txnQ_Stop_def tq_ok_def)

text \<open>Clearing leaves what the bus is working on.\<close>

lemma ClearQueues_count:
  assumes i: "tq_inv q" and rm: "tq_roomy q"
  shows "\<exists>q'. txnQ_ClearQueues WLAN q = Inr q' \<and> tq_inv q' \<and> tq_roomy q' \<and> tq_waiting q' = [] \<and> tq_single q' = 0 \<and>
    pCurrTxn q' = pCurrTxn q \<and> hTxnDoneQueue q' = hTxnDoneQueue q \<and> tq_idle q' \<and> tq_mem q' = tq_mem q \<and>
    tq_trace q' = tq_trace q @ [Cleared WLAN] \<and> eState (aFuncInfo q' WLAN) = FUNC_STATE_RUNNING \<and>
    bSchedulerBusy q' = bSchedulerBusy q \<and> bSchedulerPend q' = bSchedulerPend q"
proof -
  let ?q1 = "q\<lparr>aFuncInfo := (aFuncInfo q)(WLAN := (aFuncInfo q WLAN)\<lparr>pSingleStep := 0\<rparr>)\<rparr>"
  obtain q' where q': "txnQ_ClearQueues WLAN q = Inr q'" "tq_inv q'" "tq_same q q'" "pCurrTxn q' = pCurrTxn q"
    "hTxnDoneQueue q' = hTxnDoneQueue q" "tq_idle q'" "tq_mem q' = tq_mem q" using ClearQueues_inv [OF i] by blast
  have sh: "tq_shape q" "tq_shape q'" using i q'(2) by (simp_all add: tq_inv_def)
  have n: "uNumPrios (aFuncInfo ?q1 WLAN) = MAX_PRIORITY" using sh(1) by (simp add: tq_shape_def)
  have two: "map (\<lambda>p. (WLAN, p)) [0..<MAX_PRIORITY] = [(WLAN, 0), (WLAN, 1)]" by (simp add: MAX_PRIORITY_def upt_rec)
  have "tq_live (aTxnQueues q (WLAN, 0))" "tq_live (aTxnQueues q (WLAN, 1))"
    using sh(1) WLAN_less(2,3) by (simp_all add: tq_shape_def)
  then obtain Q0 Q1 where Q: "aTxnQueues q (WLAN, 0) = TqLive Q0" "aTxnQueues q (WLAN, 1) = TqLive Q1"
    unfolding tq_live_def by blast
  have e: "q' = tq_set_state WLAN FUNC_STATE_RUNNING (tq_emit (Cleared WLAN) (?q1\<lparr>aTxnQueues := (aTxnQueues q)
      ((WLAN, 0) := TqLive (Q0\<lparr>aq_items := []\<rparr>), (WLAN, 1) := TqLive (Q1\<lparr>aq_items := []\<rparr>))\<rparr>))"
    using q'(1) Q n unfolding txnQ_ClearQueues_def Let_def n two by (simp add: tq_clear_handle_def)
  have "tq_items (aTxnQueues q' (WLAN, 0)) = []" "tq_items (aTxnQueues q' (WLAN, 1)) = []"
    unfolding e by (simp_all add: tq_items_def)
  then have w: "tq_waiting q' = []" unfolding waiting_wlan [OF sh(2)] by simp
  have sg: "tq_single q' = 0" unfolding e by (simp add: tq_single_def tq_set_state_def)
  have "tq_limit (aTxnQueues q' (WLAN, p)) = tq_limit (aTxnQueues q (WLAN, p))" for p
    unfolding e using Q by (simp add: tq_limit_def tq_set_state_def)
  moreover have "hTxnDoneQueue q' = hTxnDoneQueue q" by (rule q'(5))
  ultimately have rm': "tq_roomy q'" using rm by (simp add: tq_roomy_def)
  have "tq_trace q' = tq_trace q @ [Cleared WLAN]" "eState (aFuncInfo q' WLAN) = FUNC_STATE_RUNNING" by (simp_all add: e tq_set_state_def)
  then show ?thesis using q' w sg rm' by (intro exI [of _ q']) (simp add: tq_same_def)
qed

lemma Restart_count:
  assumes ok: "tq_ok E q"
  shows "\<exists>st q'. txnQ_Restart WLAN q = Inr (st, q') \<and> tq_ok E q' \<and> tq_mem q' = tq_mem q \<and> tq_cbs (tq_trace q') = tq_cbs (tq_trace q) \<and>
    (if pCurrTxn q \<noteq> 0
     then st = TXN_STATUS_PENDING \<and> eState (aFuncInfo q' WLAN) = FUNC_STATE_RESTART \<and> pCurrTxn q' = pCurrTxn q \<and>
       tq_mine E q' = tq_mine E q
     else st = TXN_STATUS_COMPLETE \<and> eState (aFuncInfo q' WLAN) = FUNC_STATE_RUNNING \<and> tq_all q' = {#})"
proof (cases "pCurrTxn q \<noteq> 0")
  case True
  have i: "tq_inv q" using ok by (simp add: tq_ok_def tq_settled_def)
  then have "unat (TXN_PARAM_GET_FUNC_ID (tq_mem q (pCurrTxn q))) = WLAN" by (simp add: tq_inv_def tq_shape_def txn_wlan_def)
  then have r: "txnQ_Restart WLAN q = Inr (TXN_STATUS_PENDING, tq_set_state WLAN FUNC_STATE_RESTART q)"
    using True by (simp add: txnQ_Restart_def)
  have "tq_settled (tq_set_state WLAN FUNC_STATE_RESTART q)" using Restart_settles [of q] ok r by (simp add: tq_ok_def)
  then show ?thesis using True r ok by (simp add: tq_ok_def)
next
  case False
  have i: "tq_inv q" "tq_roomy q" "tq_items (hTxnDoneQueue q) = []" "\<not> bSchedulerBusy q" "\<not> bSchedulerPend q" "finite E" "card E \<le> 2" "0 \<notin> E"
    using ok by (simp_all add: tq_ok_def tq_settled_def tq_sound_def)
  obtain q' where q': "txnQ_ClearQueues WLAN q = Inr q'" "tq_inv q'" "tq_roomy q'" "tq_waiting q' = []" "tq_single q' = 0"
    "pCurrTxn q' = pCurrTxn q" "hTxnDoneQueue q' = hTxnDoneQueue q" "tq_idle q'" "tq_mem q' = tq_mem q"
    "tq_trace q' = tq_trace q @ [Cleared WLAN]" "eState (aFuncInfo q' WLAN) = FUNC_STATE_RUNNING"
    "bSchedulerBusy q' = bSchedulerBusy q" "bSchedulerPend q' = bSchedulerPend q"
    using ClearQueues_count [OF i(1,2)] by blast
  have all: "tq_all q' = {#}" using q' i False by (simp add: tq_all_def tq_one_def)
  have "tq_ok E q'" unfolding tq_ok_def tq_settled_def tq_sound_def tq_elp_ok_def tq_mine_def all using q' i by simp
  moreover have "txnQ_Restart WLAN q = Inr (TXN_STATUS_COMPLETE, q')" using False q'(1) by (simp add: txnQ_Restart_def)
  ultimately show ?thesis using False q' all by simp
qed

lemma RunScheduler_empty:
  assumes i: "tq_inv q" and fl: "\<not> bSchedulerBusy q" "\<not> bSchedulerPend q" and a: "tq_all q = {#}"
  shows "txnQ_RunScheduler bus no_client 0 q = Some (Inr (TXN_STATUS_PENDING, q))"
proof -
  let ?q = "q\<lparr>bSchedulerBusy := True\<rparr>"
  have iq: "tq_inv ?q" by (rule pend_busy_inv(2) [OF i])
  have e: "tq_run ?q = {#}" "tq_items (hTxnDoneQueue ?q) = []" "pCurrTxn ?q = 0"
    using a by (auto simp: tq_all_def tq_run_def tq_one_def tq_single_def tq_waiting_def split: if_splits)
  have "txnQ_SelectTxn ?q = Inr (None, ?q)"
  proof -
    obtain y q1 where s: "txnQ_SelectTxn ?q = Inr (y, q1)" "case y of None \<Rightarrow> q1 = ?q \<and> tq_idle ?q | Some a \<Rightarrow> a \<noteq> 0 \<and> tq_inv q1 \<and> tq_same ?q q1 \<and> pCurrTxn q1 = pCurrTxn ?q"
      using Select_inv [OF iq] by blast
    show ?thesis
    proof (cases y)
      case None
      then show ?thesis using s by simp
    next
      case (Some x)
      have "mset (tq_waiting ?q) + tq_one (tq_single ?q) = add_mset x (mset (tq_waiting q1) + tq_one (tq_single q1))"
        by (rule Select_count(1) [OF iq s(1) [unfolded Some]])
      then show ?thesis using e(1) unfolding tq_run_def by (metis add_mset_not_empty)
    qed
  qed
  then have sl: "txnQ_SendLoop bus 0 TXN_STATUS_PENDING ?q = Inr (TXN_STATUS_PENDING, ?q)" by (subst txnQ_SendLoop.simps) simp
  have "tq_done_deq ?q = Inr (None, ?q)" using done_deq_inv [OF iq] done_deq_result [of ?q] e(2) by (auto split: option.splits)
  then have dl: "txnQ_DoneLoop no_client ?q = Inr ?q" by (subst txnQ_DoneLoop.simps) simp
  have "txnQ_Scheduler bus no_client 0 ?q = Inr (TXN_STATUS_PENDING, ?q)" using e(3) sl dl by (simp add: txnQ_Scheduler_def)
  moreover have "txnQ_RunPending bus no_client ?q = Some (Inr (?q\<lparr>bSchedulerBusy := False\<rparr>))"
    using fl(2) by (subst txnQ_RunPending.simps) simp
  moreover have "?q\<lparr>bSchedulerBusy := False\<rparr> = q" using fl(1) by simp
  ultimately show ?thesis using fl by (simp add: txnQ_RunScheduler_def)
qed

text \<open>The bus driver reports the completion of the transaction it has: outside of a restart it and those
  that follow it are reported by callbacks, at a restart it alone, and the queues are left empty.\<close>

lemma TxnDoneCb_count:
  assumes ok: "tq_ok E q" and x: "pCurrTxn q = x" "x \<noteq> 0" and st: "eState (aFuncInfo q WLAN) \<noteq> FUNC_STATE_RESTART"
  shows "\<exists>q' new. txnQ_TxnDoneCb bus no_client x q = Some (Inr q') \<and> tq_ok E q' \<and> tq_mem q' = tq_mem q \<and>
    eState (aFuncInfo q' WLAN) = eState (aFuncInfo q WLAN) \<and> tq_elp E q' = tq_elp E q \<and> tq_went {x} E q q' new (tq_mine E q)"
proof -
  have i: "tq_inv q" and fl: "\<not> bSchedulerBusy q" "\<not> bSchedulerPend q" and d0: "tq_items (hTxnDoneQueue q) = []"
    and rm: "tq_roomy q" and so: "tq_sound E q" and el: "tq_elp_ok E q" and z: "0 \<notin> E"
    using ok by (simp_all add: tq_ok_def tq_settled_def)
  have f: "unat (TXN_PARAM_GET_FUNC_ID (tq_mem q x)) = WLAN" using i by (simp add: tq_inv_def tq_shape_def txn_wlan_def)
  obtain h where h: "tq_done_enq x q = Inr (q\<lparr>hTxnDoneQueue := h\<rparr>)" "tq_limit h = tq_limit (hTxnDoneQueue q)"
    "tq_items h = (if x \<in> tq_linked q then tq_items (hTxnDoneQueue q) else tq_items (hTxnDoneQueue q) @ [x])"
    using done_enq_count [OF i rm so] by blast
  have i1: "tq_inv (q\<lparr>hTxnDoneQueue := h\<rparr>)" using done_enq_inv [OF i x(2)] h(1) by auto
  define q2 where "q2 = tq_emit (BusDone x) (q\<lparr>hTxnDoneQueue := h, pCurrTxn := 0\<rparr>)"
  have i2: "tq_inv q2" using inv_emit [OF i1, of "BusDone x" 0] x(1) by (simp add: q2_def)
  have same: "aFuncInfo q2 = aFuncInfo q" "tq_mem q2 = tq_mem q" "tq_trace q2 = tq_trace q @ [BusDone x]" "tq_waiting q2 = tq_waiting q"
    "tq_single q2 = tq_single q" "bSchedulerBusy q2 = bSchedulerBusy q" "bSchedulerPend q2 = bSchedulerPend q" "pCurrTxn q2 = 0"
    "hTxnDoneQueue q2 = h" "aTxnQueues q2 = aTxnQueues q"
    by (simp_all add: q2_def tq_single_def tq_waiting_def)
  have sub: "tq_all q2 \<subseteq># tq_all q" using d0 h(3) x by (auto simp: tq_all_def same tq_one_def)
  have mine: "tq_mine E q2 = tq_mine E q"
  proof (cases "x \<in> E")
    case True
    then show ?thesis using d0 h(3) x by (auto simp: tq_mine_def tq_all_def same tq_one_def)
  next
    case False
    have "tq_all q = add_mset x (mset (tq_waiting q) + mset (tq_items (hTxnDoneQueue q)) + tq_one (tq_single q))"
      using x by (simp add: tq_all_def tq_one_def)
    from tq_sound_not [OF so this False] have "x \<notin> tq_linked q" by (auto simp: linked_wlan)
    then show ?thesis using d0 h(3) x by (simp add: tq_mine_def tq_all_def same tq_one_def)
  qed
  have so2: "tq_sound E q2" using d0 h(3) sub by (intro tq_sound_sub [OF so]) (auto simp: same)
  have rm2: "tq_roomy q2" using rm h(2) by (simp add: tq_roomy_def same)
  have el2: "tq_elp_ok E q2" "tq_elp E q2 = tq_elp E q" using el by (simp_all add: tq_elp_ok_def tq_elp_def same)
  have fl2: "\<not> bSchedulerBusy q2" "\<not> bSchedulerPend q2" "pCurrTxn q2 = 0 \<or> tq_items (hTxnDoneQueue q2) = []"
    using fl by (simp_all add: same)
  obtain s q' new where r: "txnQ_RunScheduler bus no_client 0 q2 = Some (Inr (s, q'))" "tq_ok E q'" "tq_mem q' = tq_mem q2"
    "eState (aFuncInfo q' WLAN) = eState (aFuncInfo q2 WLAN)" "tq_elp E q' = tq_elp E q2" "tq_went (set (tq_items (hTxnDoneQueue q2))) E q2 q' new (tq_mine E q2)"
    using RunScheduler_none [OF i2 fl2(1,2) rm2 so2 fl2(3) el2(1) z, of bus] by blast
  have "set (tq_items h) \<subseteq> {x}" using h(3) d0 by auto
  moreover obtain es where "tq_trace q' = tq_trace q @ BusDone x # es" "tq_cbs es = new" "set new \<subseteq> set (tq_items h) \<union> tq_ended es"
    "tq_mine E q = tq_mine E q' + filter_mset (\<lambda>x. x \<notin> E) (mset new)"
    using r(6) unfolding mine tq_went_def same by auto
  ultimately have "tq_went {x} E q q' new (tq_mine E q)" unfolding tq_went_def
    by (intro conjI exI [of _ "BusDone x # es"]) auto
  moreover have "txnQ_TxnDoneCb bus no_client x q = Some (Inr q')"
    using f st h(1) r(1) by (simp add: txnQ_TxnDoneCb_def Let_def q2_def)
  ultimately show ?thesis using r(2-5) el2(2) by (intro exI [of _ q'] exI [of _ new]) (simp add: same)
qed

lemma TxnDoneCb_restart_count:
  assumes ok: "tq_ok E q" and x: "pCurrTxn q = x" "x \<noteq> 0" and st: "eState (aFuncInfo q WLAN) = FUNC_STATE_RESTART"
  shows "\<exists>q' f h. txnQ_TxnDoneCb bus no_client x q = Some (Inr q') \<and> tq_ok E q' \<and>
    tq_mem q' = (tq_mem q)(x := TXN_PARAM_SET_STATUS (tq_mem q x) TXN_PARAM_STATUS_RECOVERY) \<and>
    eState (aFuncInfo q' WLAN) = FUNC_STATE_RUNNING \<and> tq_all q' = {#} \<and> tq_trace q' = tq_trace q @ [Cleared WLAN, TxnDoneCb f h x, BusDone x]"
proof -
  have i: "tq_inv q" "tq_roomy q" and d0: "tq_items (hTxnDoneQueue q) = []" and fl: "\<not> bSchedulerBusy q" "\<not> bSchedulerPend q"
    and E: "finite E" "card E \<le> 2" "0 \<notin> E"
    using ok by (simp_all add: tq_ok_def tq_settled_def tq_sound_def)
  have f: "unat (TXN_PARAM_GET_FUNC_ID (tq_mem q x)) = WLAN" "txn_wlan (tq_mem q x)"
    using i(1) by (simp_all add: tq_inv_def tq_shape_def txn_wlan_def)
  obtain q1 where q1: "txnQ_ClearQueues WLAN q = Inr q1" "tq_inv q1" "tq_roomy q1" "tq_waiting q1 = []" "tq_single q1 = 0"
    "pCurrTxn q1 = pCurrTxn q" "hTxnDoneQueue q1 = hTxnDoneQueue q" "tq_idle q1" "tq_mem q1 = tq_mem q"
    "tq_trace q1 = tq_trace q @ [Cleared WLAN]" "eState (aFuncInfo q1 WLAN) = FUNC_STATE_RUNNING"
    "bSchedulerBusy q1 = bSchedulerBusy q" "bSchedulerPend q1 = bSchedulerPend q"
    using ClearQueues_count [OF i] by blast
  let ?e = "TxnDoneCb (fTxnQueueDoneCb (aFuncInfo q1 WLAN)) (fi_hCbHandle (aFuncInfo q1 WLAN)) x"
  define q2 where "q2 = q1\<lparr>tq_mem := (tq_mem q1)(x := TXN_PARAM_SET_STATUS (tq_mem q1 x) TXN_PARAM_STATUS_RECOVERY)\<rparr>"
  define q4 where "q4 = tq_emit (BusDone x) ((tq_emit ?e q2)\<lparr>pCurrTxn := 0\<rparr>)"
  have "tq_inv q2" unfolding q2_def using q1(2,9) f(2) by (intro mem_inv set_status_wlan) simp_all
  then have "tq_inv (tq_emit ?e q2)" using inv_emit [of q2 ?e "pCurrTxn q2"] by simp
  moreover have "pCurrTxn (tq_emit ?e q2) = x" using q1(6) x(1) by (simp add: q2_def)
  ultimately have i4: "tq_inv q4" unfolding q4_def using inv_emit [of "tq_emit ?e q2" "BusDone x" 0] by simp
  have same: "tq_waiting q4 = []" "tq_single q4 = 0" "pCurrTxn q4 = 0" "tq_items (hTxnDoneQueue q4) = []" "bSchedulerBusy q4 = bSchedulerBusy q"
    "bSchedulerPend q4 = bSchedulerPend q" "eState (aFuncInfo q4 WLAN) = FUNC_STATE_RUNNING"
    "tq_trace q4 = tq_trace q @ [Cleared WLAN, ?e, BusDone x]"
    using q1 d0 by (simp_all add: q4_def q2_def tq_single_def tq_waiting_def)
  have all: "tq_all q4 = {#}" using same by (simp add: tq_all_def tq_one_def)
  have fl4: "\<not> bSchedulerBusy q4" "\<not> bSchedulerPend q4" using fl same by simp_all
  have r: "txnQ_RunScheduler bus no_client 0 q4 = Some (Inr (TXN_STATUS_PENDING, q4))" by (rule RunScheduler_empty [OF i4 fl4 all])
  have "fTxnQueueDoneCb (aFuncInfo q1 WLAN) \<noteq> 0" using q1(2) by (simp add: tq_inv_def tq_shape_def)
  then have t: "txnQ_TxnDoneCb bus no_client x q = Some (Inr q4)"
    using f(1) st q1(1) r by (simp add: txnQ_TxnDoneCb_def Let_def no_client_def q4_def q2_def)
  have "tq_idle q4" using q1(8) tq_idle_cong [of q4 q1] by (simp add: q4_def q2_def)
  moreover have "tq_roomy q4" using q1(3) by (simp add: q4_def q2_def tq_roomy_def)
  ultimately have "tq_ok E q4" unfolding tq_ok_def tq_settled_def tq_sound_def tq_elp_ok_def tq_mine_def all
    using i4 fl4 same(1,2,4) E by simp
  then show ?thesis using t all same(7,8) q1(9)
    by (intro exI [of _ q4] exI [of _ "fTxnQueueDoneCb (aFuncInfo q1 WLAN)"] exI [of _ "fi_hCbHandle (aFuncInfo q1 WLAN)"]) (simp add: q4_def q2_def)
qed

text \<open>At the start there is nothing in the queue.\<close>

lemma start_ok:
  assumes "txnQ_Create a b mem = Some q" "\<forall>x. txn_wlan (mem x)" "f \<noteq> 0" and E: "finite E" "card E \<le> 2" "0 \<notin> E"
  shows "\<exists>q'. tq_start f h q = (TI_OK, q') \<and> tq_ok E q' \<and> tq_all q' = {#} \<and> pCurrTxn q' = 0 \<and> tq_mem q' = mem"
proof -
  obtain q' where q': "tq_start f h q = (TI_OK, q')" "tq_settled q'" "hTxnDoneQueue q' = TqLive (aq_Create TXN_DONE_QUE_SIZE)"
    "\<forall>p < MAX_PRIORITY. aTxnQueues q' (WLAN, p) = TqLive (aq_Create TXN_QUE_SIZE)" "pCurrTxn q' = 0" "tq_mem q' = mem"
    "pSingleStep (aFuncInfo q' WLAN) = 0"
    using start_settles [OF assms(1-3), of h] by blast
  have sh: "tq_shape q'" using q'(2) by (simp add: tq_settled_def tq_inv_def)
  have w: "tq_waiting q' = []" unfolding waiting_wlan [OF sh] using q'(4) by (simp add: tq_items_def aq_Create_def)
  have s: "tq_single q' = 0" using q'(7) by (simp add: tq_single_def)
  have d: "tq_items (hTxnDoneQueue q') = []" using q'(3) by (simp add: tq_items_def aq_Create_def)
  have all: "tq_all q' = {#}" using q'(5) by (simp add: tq_all_def w s d tq_one_def)
  have "tq_roomy q'" using q'(3,4) by (simp add: tq_roomy_def tq_limit_def aq_Create_def TXN_DONE_QUE_SIZE_def TXN_QUE_SIZE_def)
  then have "tq_ok E q'" using q'(2) E unfolding tq_ok_def tq_sound_def tq_elp_ok_def tq_mine_def all w s d by simp
  then show ?thesis using q' all by blast
qed

end
