(* ===== verification/TwIf.thy ===== *)
theory TwIf
  imports TxnQueueCount SdioBusDrv
begin

text \<open>
  \<open>TWD/TwIf/TwIf.c\<close>: the transaction interface of the driver. It translates device addresses, counts the
  transactions that are with the transaction queue, wakes the device when one has to wait, lets it sleep
  when none is left and nobody asks to keep it awake, and reports the completed ones to their owners in
  the driver's context. The model carries the state of the transaction queue it sits on (\<open>tw_q\<close>, theory
  \<open>TxnQueue\<close>): the queue's callback \<open>twIf_TxnDoneCb\<close> issues no transactions, so the callbacks that a queue
  operation makes are worked off, in their order, when the operation is over. Parameters: \<open>bus\<close>, what
  \<open>busDrv_Transact\<close> answers, and \<open>client\<close>, what the owner of a transaction asks of TwIf from its callback.
  Locks, schedule requests, timers, freed memory and the callbacks to the upper layers are recorded in
  \<open>tw_trace\<close>. A critical section is one step; completions come between the operations, or from the
  \<open>client\<close>'s list of calls.
\<close>

section \<open>State\<close>

definition PEND_RESTART_TIMEOUT :: nat where "PEND_RESTART_TIMEOUT = 100"
definition ELP_CTRL_REG_SLEEP :: u32 where "ELP_CTRL_REG_SLEEP = 0"
definition ELP_CTRL_REG_AWAKE :: u32 where "ELP_CTRL_REG_AWAKE = 1"
definition PARTITION_REGISTERS_ADDR :: u32 where "PARTITION_REGISTERS_ADDR = 0x1FFC0"
definition ELP_CTRL_REG_ADDR :: u32 where "ELP_CTRL_REG_ADDR = 0x1FFFC"
definition REGISTER_SIZE :: u32 where "REGISTER_SIZE = 4"

datatype ESmState = SM_STATE_AWAKE | SM_STATE_SLEEP | SM_STATE_WAIT_HW

datatype ESmEvent = SM_EVENT_START | SM_EVENT_HW_AVAILABLE | SM_EVENT_SLEEP

text \<open>The sizes of \<open>TTxnStruct\<close> and \<open>TPartitionRegTxn\<close> on the 32 bit target.\<close>

definition SIZEOF_TTxnStruct :: nat where "SIZEOF_TTxnStruct = 56"
definition SIZEOF_TPartitionRegTxn :: nat where "SIZEOF_TPartitionRegTxn = SIZEOF_TTxnStruct + 4"

text \<open>\<open>tHdr\<close> is the address of the transaction structure, whose contents are in \<open>tq_mem\<close>.\<close>

record TElpTxn =
  tHdr :: addr
  uElpData :: u8

record TPartition =
  uMemAdrr :: u32
  uMemSize :: u32

text \<open>The first nine events are calls of the code. The rest record the way of a transaction for the
  specification of theory \<open>TwIfProps\<close> and nothing in the code reads them: given to the queue, its end told
  by the return value, its end counted as it has no callback, taken out with an error, all dropped by a
  restart, all dropped by the handler of the restart's guard timer.\<close>

datatype tw_event =
    WakeLock
  | WakeUnlock
  | Scheduled u32
  | ErrCb addr addr
  | RecoveryCb addr addr
  | UserDoneCb addr addr addr
  | TimerStart addr nat
  | TimerStop addr
  | OsFree addr nat
  | Given addr
  | Returned addr ETxnStatus
  | Counted addr
  | Failed addr
  | Dropped
  | GuardExpired

text \<open>\<open>tw_words\<close> is the memory of the register values that \<open>twIf_SetPartition\<close> writes.\<close>

record TTwIfObj =
  tw_self :: addr
  tw_eState :: ESmState
  tw_hTxnDoneQueue :: tq_handle
  uContextId :: u32
  fErrCb :: addr
  hErrCb :: addr
  fRecoveryCb :: addr
  hRecoveryCb :: addr
  uAwakeReqCount :: u32
  uPendingTxnCount :: u32
  tElpTxnSleep :: TElpTxn
  tElpTxnAwake :: TElpTxn
  uMemAddr1 :: u32
  uMemSize1 :: u32
  uMemAddr2 :: u32
  uMemSize2 :: u32
  uMemAddr3 :: u32
  uMemSize3 :: u32
  uMemAddr4 :: u32
  uDbgCountAwake :: u32
  uDbgCountSleep :: u32
  uDbgCountTxn :: u32
  uDbgCountTxnPending :: u32
  uDbgCountTxnComplete :: u32
  uDbgCountTxnDoneCb :: u32
  bTxnDoneInRecovery :: bool
  bPendRestartTimerRunning :: bool
  hPendRestartTimer :: addr
  tw_q :: TTxnQObj
  tw_words :: "addr \<Rightarrow> u32"
  tw_trace :: "tw_event list"

text \<open>\<open>None\<close>: the operation does not return.\<close>

type_synonym 'a tw_res = "(fault + 'a) option"

definition tw_then :: "'a tw_res \<Rightarrow> ('a \<Rightarrow> 'b tw_res) \<Rightarrow> 'b tw_res" where
  "tw_then m f = (case m of None \<Rightarrow> None | Some (Inl e) \<Rightarrow> Some (Inl e) | Some (Inr a) \<Rightarrow> f a)"

lemma tw_then_simps [simp]:
  "tw_then None f = None" "tw_then (Some (Inl e)) f = Some (Inl e)" "tw_then (Some (Inr a)) f = f a"
  by (simp_all add: tw_then_def)

definition tw_emit :: "tw_event \<Rightarrow> TTwIfObj \<Rightarrow> TTwIfObj" where
  "tw_emit e tw = tw\<lparr>tw_trace := tw_trace tw @ [e]\<rparr>"

definition tw_txn :: "TTwIfObj \<Rightarrow> addr \<Rightarrow> TTxnStruct" where
  "tw_txn tw x = tq_mem (tw_q tw) x"

definition tw_put :: "addr \<Rightarrow> TTxnStruct \<Rightarrow> TTwIfObj \<Rightarrow> TTwIfObj" where
  "tw_put x t tw = tw\<lparr>tw_q := (tw_q tw)\<lparr>tq_mem := (tq_mem (tw_q tw))(x := t)\<rparr>\<rparr>"

section \<open>Completion callback\<close>

text \<open>\<open>uPendingTxnCount\<close> counted down, never below zero.\<close>

definition tw_one_less :: "TTwIfObj \<Rightarrow> TTwIfObj" where
  "tw_one_less tw = (if uPendingTxnCount tw > 0 then tw\<lparr>uPendingTxnCount := uPendingTxnCount tw - 1\<rparr> else tw)"

text \<open>\<open>que_Enqueue\<close> on the done queue: the node header is the one the transaction queue uses.\<close>

definition tw_done_enq :: "addr \<Rightarrow> TTwIfObj \<Rightarrow> fault + TTwIfObj" where
  "tw_done_enq x tw =
     (case tw_hTxnDoneQueue tw of
        TqNull \<Rightarrow> Inr tw
      | TqFreed \<Rightarrow> Inl UseAfterFree
      | TqLive Q \<Rightarrow>
          Inr (tw\<lparr>tw_hTxnDoneQueue := TqLive (snd (aq_Enqueue (x \<in> tq_linked (tw_q tw) \<union> set (aq_items Q)) x Q))\<rparr>))"

definition twIf_TxnDoneCb :: "addr \<Rightarrow> TTwIfObj \<Rightarrow> fault + TTwIfObj" where
  "twIf_TxnDoneCb x tw =
     (let tw = tw\<lparr>uDbgCountTxnDoneCb := uDbgCountTxnDoneCb tw + 1\<rparr>;
          t = tw_txn tw x;
          schedule = tw_emit (Scheduled (uContextId tw))
      in if TXN_PARAM_GET_STATUS t = TXN_PARAM_STATUS_RECOVERY \<and> fRecoveryCb tw \<noteq> 0
         then Inr (schedule (tw\<lparr>bTxnDoneInRecovery := True\<rparr>))
         else if TXN_PARAM_GET_SINGLE_STEP t \<noteq> 0 then Inr tw
         else if fTxnDoneCb t \<noteq> 0 then
           (case tw_done_enq x tw of Inl f \<Rightarrow> Inl f | Inr tw \<Rightarrow> Inr (schedule tw))
         else Inr (schedule (tw_emit (Counted x) (tw_one_less tw))))"

fun tw_callbacks :: "addr list \<Rightarrow> TTwIfObj \<Rightarrow> fault + TTwIfObj" where
  "tw_callbacks [] tw = Inr tw"
| "tw_callbacks (x # xs) tw = (case twIf_TxnDoneCb x tw of Inl f \<Rightarrow> Inl f | Inr tw \<Rightarrow> tw_callbacks xs tw)"

text \<open>What the bus driver leaves in the status field of the transactions it is given: \<open>OK\<close> at the start, and
  \<open>ERROR\<close> with that result. The trace before a \<open>BusSync\<close> is the one that \<open>bus\<close> has answered to.\<close>

fun tw_marks :: "tq_bus \<Rightarrow> tq_event list \<Rightarrow> tq_event list \<Rightarrow> (addr \<Rightarrow> TTxnStruct) \<Rightarrow> (addr \<Rightarrow> TTxnStruct)" where
  "tw_marks bus pre [] m = m"
| "tw_marks bus pre (e # es) m =
     tw_marks bus (pre @ [e]) es
       (case e of
          BusTransact x \<Rightarrow> m(x := TXN_PARAM_SET_STATUS (m x) TXN_PARAM_STATUS_OK)
        | BusSync x \<Rightarrow>
            m(x := TXN_PARAM_SET_STATUS (m x)
                     (if bus pre = TXN_STATUS_ERROR then TXN_PARAM_STATUS_ERROR else TXN_PARAM_STATUS_OK))
        | _ \<Rightarrow> m)"

text \<open>The transaction queue has become \<open>q\<close>.\<close>

definition tw_absorb :: "tq_bus \<Rightarrow> TTxnQObj \<Rightarrow> TTwIfObj \<Rightarrow> fault + TTwIfObj" where
  "tw_absorb bus q tw =
     (let old = tq_trace (tw_q tw);
          new = drop (length old) (tq_trace q)
      in tw_callbacks (tq_cbs new) (tw\<lparr>tw_q := q\<lparr>tq_mem := tw_marks bus old new (tq_mem q)\<rparr>\<rparr>))"

text \<open>\<open>txnQ_Transact\<close>. The queue refuses a transaction whose node header is still linked in the done queue.\<close>

definition tw_refused :: "addr \<Rightarrow> TTxnQObj \<Rightarrow> fault + TTxnQObj" where
  "tw_refused x q =
     (let s = (unat (TXN_PARAM_GET_FUNC_ID (tq_mem q x)), unat (TXN_PARAM_GET_PRIORITY (tq_mem q x))) in
      if snd s \<ge> MAX_PRIORITY then Inl OutOfBounds
      else
        (case aTxnQueues q s of
           TqNull \<Rightarrow> Inr q
         | TqFreed \<Rightarrow> Inl UseAfterFree
         | TqLive Q \<Rightarrow> Inr (q\<lparr>aTxnQueues := (aTxnQueues q)(s := TqLive (snd (aq_Enqueue True x Q)))\<rparr>)))"

definition tw_Transact :: "tq_bus \<Rightarrow> addr \<Rightarrow> TTwIfObj \<Rightarrow> (ETxnStatus \<times> TTwIfObj) tw_res" where
  "tw_Transact bus x tw =
     (if TXN_PARAM_GET_SINGLE_STEP (tw_txn tw x) = 0 \<and> x \<in> set (tq_items (tw_hTxnDoneQueue tw))
      then Some (map_sum id (\<lambda>q. (TXN_STATUS_ERROR, tw\<lparr>tw_q := q\<rparr>)) (tw_refused x (tw_q tw)))
      else
        tw_then (txnQ_Transact bus no_client x (tw_q tw))
          (\<lambda>(st, q). Some (map_sum id (\<lambda>tw. (st, tw)) (tw_absorb bus q tw))))"

section \<open>The state machine\<close>

definition twIf_WriteElpReg :: "tq_bus \<Rightarrow> u32 \<Rightarrow> TTwIfObj \<Rightarrow> TTwIfObj tw_res" where
  "twIf_WriteElpReg bus uValue tw =
     (if uValue = ELP_CTRL_REG_AWAKE then
        tw_then (tw_Transact bus (tHdr (tElpTxnAwake tw)) (tw_emit WakeLock tw)) (\<lambda>(st, tw). Some (Inr tw))
      else
        tw_then (tw_Transact bus (tHdr (tElpTxnSleep tw)) tw) (\<lambda>(st, tw). Some (Inr (tw_emit WakeUnlock tw))))"

definition tw_Run :: "tq_bus \<Rightarrow> TTwIfObj \<Rightarrow> TTwIfObj tw_res" where
  "tw_Run bus tw =
     tw_then (txnQ_Run bus no_client (unat TXN_FUNC_ID_WLAN) (tw_q tw)) (\<lambda>q. Some (tw_absorb bus q tw))"

definition tw_Stop :: "TTwIfObj \<Rightarrow> TTwIfObj tw_res" where
  "tw_Stop tw = Some (map_sum id (\<lambda>q. tw\<lparr>tw_q := q\<rparr>) (txnQ_Stop (unat TXN_FUNC_ID_WLAN) (tw_q tw)))"

fun twIf_HandleSmEvent :: "tq_bus \<Rightarrow> ESmEvent \<Rightarrow> TTwIfObj \<Rightarrow> TTwIfObj tw_res" where
  "twIf_HandleSmEvent bus eEvent tw =
     (case tw_eState tw of
        SM_STATE_AWAKE \<Rightarrow>
          (if eEvent = SM_EVENT_SLEEP then
             tw_then (tw_Stop (tw\<lparr>tw_eState := SM_STATE_SLEEP\<rparr>)) (twIf_WriteElpReg bus ELP_CTRL_REG_SLEEP)
           else Some (Inr tw))
      | SM_STATE_SLEEP \<Rightarrow>
          (if eEvent = SM_EVENT_START then
             twIf_WriteElpReg bus ELP_CTRL_REG_AWAKE (tw\<lparr>tw_eState := SM_STATE_WAIT_HW\<rparr>)
           else if eEvent = SM_EVENT_HW_AVAILABLE then
             tw_then (twIf_WriteElpReg bus ELP_CTRL_REG_AWAKE (tw\<lparr>tw_eState := SM_STATE_AWAKE\<rparr>)) (tw_Run bus)
           else Some (Inr tw))
      | SM_STATE_WAIT_HW \<Rightarrow>
          (if eEvent = SM_EVENT_HW_AVAILABLE then tw_Run bus (tw\<lparr>tw_eState := SM_STATE_AWAKE\<rparr>)
           else Some (Inr tw)))"

declare twIf_HandleSmEvent.simps [simp del]

text \<open>The test for letting the device sleep, made in three places.\<close>

definition tw_sleep_if_idle :: "tq_bus \<Rightarrow> TTwIfObj \<Rightarrow> TTwIfObj tw_res" where
  "tw_sleep_if_idle bus tw =
     (if uAwakeReqCount tw = 0 \<and> uPendingTxnCount tw = 0 then twIf_HandleSmEvent bus SM_EVENT_SLEEP tw
      else Some (Inr tw))"

section \<open>Life cycle\<close>

text \<open>\<open>a\<close>: what \<open>os_memoryAlloc\<close> returned; \<open>sl\<close>, \<open>aw\<close>: the addresses of \<open>tElpTxnSleep\<close> and \<open>tElpTxnAwake\<close> in the
  object; \<open>q\<close>: the transaction queue module.\<close>

definition twIf_Create :: "addr \<Rightarrow> addr \<Rightarrow> addr \<Rightarrow> TTxnQObj \<Rightarrow> TTwIfObj option" where
  "twIf_Create a sl aw q =
     (if a = 0 then None
      else Some \<lparr>tw_self = a, tw_eState = SM_STATE_AWAKE, tw_hTxnDoneQueue = TqNull, uContextId = 0, fErrCb = 0,
        hErrCb = 0, fRecoveryCb = 0, hRecoveryCb = 0, uAwakeReqCount = 0, uPendingTxnCount = 0,
        tElpTxnSleep = \<lparr>tHdr = sl, uElpData = 0\<rparr>, tElpTxnAwake = \<lparr>tHdr = aw, uElpData = 0\<rparr>,
        uMemAddr1 = 0, uMemSize1 = 0, uMemAddr2 = 0, uMemSize2 = 0, uMemAddr3 = 0, uMemSize3 = 0, uMemAddr4 = 0,
        uDbgCountAwake = 0, uDbgCountSleep = 0, uDbgCountTxn = 0, uDbgCountTxnPending = 0,
        uDbgCountTxnComplete = 0, uDbgCountTxnDoneCb = 0, bTxnDoneInRecovery = False,
        bPendRestartTimerRunning = False, hPendRestartTimer = 0,
        tw_q = q\<lparr>tq_mem := (tq_mem q)(sl := TTxnStruct_zero, aw := TTxnStruct_zero)\<rparr>, tw_words = (\<lambda>_. 0),
        tw_trace = []\<rparr>)"

text \<open>\<open>twIf_ClearTxnDoneQueue\<close>: \<open>n\<close> is the number of transactions in the queue.\<close>

definition tw_done_deq :: "TTwIfObj \<Rightarrow> fault + addr option \<times> TTwIfObj" where
  "tw_done_deq tw =
     (case tq_deq (tw_hTxnDoneQueue tw) of
        Inl f \<Rightarrow> Inl f
      | Inr (x, h) \<Rightarrow> Inr (x, tw\<lparr>tw_hTxnDoneQueue := h\<rparr>))"

lemma tw_done_deq_result:
  "tw_done_deq tw = Inr (x, tw') \<Longrightarrow>
   (case tq_items (tw_hTxnDoneQueue tw) of [] \<Rightarrow> x = None \<and> tw' = tw
    | a # as \<Rightarrow> x = Some a \<and> tq_items (tw_hTxnDoneQueue tw') = as \<and> (\<exists>h. tw' = tw\<lparr>tw_hTxnDoneQueue := h\<rparr>))"
  by (auto simp: tw_done_deq_def tq_deq_def aq_Dequeue_def tq_items_def split: tq_handle.splits list.splits)

function twIf_ClearTxnDoneQueue :: "TTwIfObj \<Rightarrow> fault + TTwIfObj" where
  "twIf_ClearTxnDoneQueue tw =
     (case tw_done_deq tw of
        Inl f \<Rightarrow> Inl f
      | Inr (None, tw) \<Rightarrow> Inr tw
      | Inr (Some x, tw) \<Rightarrow> twIf_ClearTxnDoneQueue (tw_one_less tw))"
  by pat_completeness auto
termination
  by (relation "measure (\<lambda>tw. length (tq_items (tw_hTxnDoneQueue tw)))")
    (auto dest!: tw_done_deq_result simp: tw_one_less_def split: list.splits)

declare twIf_ClearTxnDoneQueue.simps [simp del]

definition twIf_Restart :: "TTwIfObj \<Rightarrow> fault + ETxnStatus \<times> TTwIfObj" where
  "twIf_Restart tw =
     (let tw = (if tw_eState tw \<noteq> SM_STATE_SLEEP then tw_emit WakeUnlock (tw\<lparr>tw_eState := SM_STATE_SLEEP\<rparr>) else tw);
          tw = tw\<lparr>uAwakeReqCount := 0, uPendingTxnCount := 0\<rparr>
      in case twIf_ClearTxnDoneQueue tw of
           Inl f \<Rightarrow> Inl f
         | Inr tw \<Rightarrow>
             (case txnQ_Restart (unat TXN_FUNC_ID_WLAN) (tw_q tw) of
                Inl f \<Rightarrow> Inl f
              | Inr (eStatus, q) \<Rightarrow>
                  (let tw = tw_emit Dropped (tw\<lparr>tw_q := q\<rparr>) in
                   Inr (eStatus,
                     if eStatus = TXN_STATUS_PENDING
                     then tw_emit (TimerStart (hPendRestartTimer tw) PEND_RESTART_TIMEOUT)
                            (tw\<lparr>bPendRestartTimerRunning := True\<rparr>)
                     else tw))))"

definition tw_elp_txn :: "u32 \<Rightarrow> addr \<Rightarrow> TTxnStruct" where
  "tw_elp_txn uMore hdr =
     BUILD_TTxnStruct
       (TXN_PARAM_SET_SINGLE_STEP
         (TXN_PARAM_SET_MORE
           (TXN_PARAM_SET TTxnStruct_zero TXN_LOW_PRIORITY TXN_FUNC_ID_WLAN TXN_DIRECTION_WRITE TXN_INC_ADDR) uMore) 1)
       ELP_CTRL_REG_ADDR (hdr + SIZEOF_TTxnStruct) 1 0 0"

text \<open>\<open>bQue\<close>: the done queue could be created; \<open>ctx\<close>: the answer of \<open>context_RegisterClient\<close>; \<open>tmr\<close>: that of
  \<open>tmr_CreateTimer\<close>; \<open>alloc\<close>: which of the queues of \<open>txnQ_Open\<close> could be created; \<open>fCb\<close>: the address of
  \<open>twIf_TxnDoneCb\<close>. The ELP transactions are in memory that \<open>twIf_Create\<close> has cleared.\<close>

definition twIf_Init ::
  "bool \<Rightarrow> u32 \<Rightarrow> addr \<Rightarrow> (nat \<Rightarrow> bool) \<Rightarrow> addr \<Rightarrow> addr \<Rightarrow> addr \<Rightarrow> TTwIfObj \<Rightarrow> fault + TTwIfObj" where
  "twIf_Init bQue ctx tmr alloc fCb fRec hRec tw =
     (let tw = tw\<lparr>fRecoveryCb := fRec, hRecoveryCb := hRec,
            tElpTxnSleep := (tElpTxnSleep tw)\<lparr>uElpData := ucast ELP_CTRL_REG_SLEEP\<rparr>,
            tElpTxnAwake := (tElpTxnAwake tw)\<lparr>uElpData := ucast ELP_CTRL_REG_AWAKE\<rparr>\<rparr>;
          tw = tw_put (tHdr (tElpTxnSleep tw)) (tw_elp_txn 0 (tHdr (tElpTxnSleep tw))) tw;
          tw = tw_put (tHdr (tElpTxnAwake tw)) (tw_elp_txn 1 (tHdr (tElpTxnAwake tw))) tw;
          tw = tw\<lparr>tw_hTxnDoneQueue := (if bQue then TqLive (aq_Create 0xFFFFFFFF) else TqNull), uContextId := ctx,
            hPendRestartTimer := tmr\<rparr>
      in if tmr = 0 then Inr tw
         else
           (let tw = tw\<lparr>bPendRestartTimerRunning := False,
                  tw_q := snd (txnQ_Open (unat TXN_FUNC_ID_WLAN) TXN_NUM_PRIORITYS fCb (tw_self tw) alloc (tw_q tw))\<rparr>
            in map_sum id snd (twIf_Restart tw)))"

text \<open>\<open>twIf_Destroy\<close>: what is left is the transaction queue and what was freed.\<close>

definition twIf_Destroy :: "TTwIfObj option \<Rightarrow> fault + (TTxnQObj \<times> addr list) option" where
  "twIf_Destroy ptw =
     (case ptw of
        None \<Rightarrow> Inr None
      | Some tw \<Rightarrow>
          (case txnQ_Close (unat TXN_FUNC_ID_WLAN) (tw_q tw) of
             Inl f \<Rightarrow> Inl f
           | Inr q \<Rightarrow>
               (case tw_hTxnDoneQueue tw of
                  TqFreed \<Rightarrow> Inl UseAfterFree
                | _ \<Rightarrow>
                    Inr (Some (q, (if hPendRestartTimer tw \<noteq> 0 then [hPendRestartTimer tw] else []) @ [tw_self tw])))))"

definition twIf_RegisterErrCb :: "addr \<Rightarrow> addr \<Rightarrow> TTwIfObj \<Rightarrow> TTwIfObj" where
  "twIf_RegisterErrCb f h tw = tw\<lparr>fErrCb := f, hErrCb := h\<rparr>"

section \<open>Transactions\<close>

definition tw_err :: "TTwIfObj \<Rightarrow> TTwIfObj" where
  "tw_err tw = (if fErrCb tw \<noteq> 0 then tw_emit (ErrCb (fErrCb tw) (hErrCb tw)) tw else tw)"

definition twIf_SendTransaction :: "tq_bus \<Rightarrow> addr \<Rightarrow> TTwIfObj \<Rightarrow> (ETxnStatus \<times> TTwIfObj) tw_res" where
  "twIf_SendTransaction bus pTxn tw =
     (if uHwAddr (tw_txn tw pTxn) AND 3 \<noteq> 0 then Some (Inr (TXN_STATUS_ERROR, tw))
      else
        tw_then (tw_Transact bus pTxn (tw_emit (Given pTxn) (tw\<lparr>uPendingTxnCount := uPendingTxnCount tw + 1\<rparr>)))
          (\<lambda>(eStatus, tw).
             let tw = tw\<lparr>uDbgCountTxn := uDbgCountTxn tw + 1,
                   uDbgCountTxnComplete := uDbgCountTxnComplete tw + (if eStatus = TXN_STATUS_COMPLETE then 1 else 0),
                   uDbgCountTxnPending := uDbgCountTxnPending tw + (if eStatus = TXN_STATUS_PENDING then 1 else 0)\<rparr>
             in if eStatus = TXN_STATUS_PENDING
                then tw_then (twIf_HandleSmEvent bus SM_EVENT_START tw) (\<lambda>tw. Some (Inr (eStatus, tw)))
                else
                  tw_then (tw_sleep_if_idle bus
                      (tw_emit (Returned pTxn eStatus) (tw\<lparr>uPendingTxnCount := uPendingTxnCount tw - 1\<rparr>)))
                    (\<lambda>tw. Some (Inr (eStatus, if eStatus = TXN_STATUS_ERROR then tw_err tw else tw)))))"

definition tw_translate :: "TTwIfObj \<Rightarrow> u32 \<Rightarrow> u32" where
  "tw_translate tw a =
     (if a \<ge> uMemAddr2 tw \<and> a \<le> uMemAddr2 tw + uMemSize2 tw then a - uMemAddr2 tw + uMemSize1 tw
      else a - uMemAddr1 tw)"

definition tw_regular :: "TTxnStruct \<Rightarrow> TTxnStruct" where
  "tw_regular t = TXN_PARAM_SET_SINGLE_STEP (TXN_PARAM_SET_MORE t 1) 0"

definition twIf_Transact :: "tq_bus \<Rightarrow> addr \<Rightarrow> TTwIfObj \<Rightarrow> (ETxnStatus \<times> TTwIfObj) tw_res" where
  "twIf_Transact bus pTxn tw =
     (let t = tw_txn tw pTxn in
      twIf_SendTransaction bus pTxn
        (tw_put pTxn (tw_regular (t\<lparr>uHwAddr := tw_translate tw (uHwAddr t)\<rparr>)) tw))"

definition twIf_TransactReadFWStatus :: "tq_bus \<Rightarrow> addr \<Rightarrow> TTwIfObj \<Rightarrow> (ETxnStatus \<times> TTwIfObj) tw_res" where
  "twIf_TransactReadFWStatus bus pTxn tw =
     twIf_SendTransaction bus pTxn (tw_put pTxn (tw_regular (tw_txn tw pTxn)) tw)"

definition twIf_Awake :: "TTwIfObj \<Rightarrow> TTwIfObj" where
  "twIf_Awake tw = tw\<lparr>uAwakeReqCount := uAwakeReqCount tw + 1, uDbgCountAwake := uDbgCountAwake tw + 1\<rparr>"

definition twIf_Sleep :: "tq_bus \<Rightarrow> TTwIfObj \<Rightarrow> TTwIfObj tw_res" where
  "twIf_Sleep bus tw =
     tw_sleep_if_idle bus
       (tw\<lparr>uAwakeReqCount := (if uAwakeReqCount tw > 0 then uAwakeReqCount tw - 1 else uAwakeReqCount tw),
           uDbgCountSleep := uDbgCountSleep tw + 1\<rparr>)"

definition twIf_HwAvailable :: "tq_bus \<Rightarrow> TTwIfObj \<Rightarrow> TTwIfObj tw_res" where
  "twIf_HwAvailable bus tw = twIf_HandleSmEvent bus SM_EVENT_HW_AVAILABLE tw"

section \<open>Partition\<close>

text \<open>The registers and the values of the seven transactions, in the order they are sent.\<close>

definition tw_partition_regs :: "TTwIfObj \<Rightarrow> (u32 \<times> u32) list" where
  "tw_partition_regs tw =
     [(PARTITION_REGISTERS_ADDR + 4, uMemAddr1 tw), (PARTITION_REGISTERS_ADDR, uMemSize1 tw),
      (PARTITION_REGISTERS_ADDR + 12, uMemAddr2 tw), (PARTITION_REGISTERS_ADDR + 8, uMemSize2 tw),
      (PARTITION_REGISTERS_ADDR + 20, uMemAddr3 tw), (PARTITION_REGISTERS_ADDR + 16, uMemSize3 tw),
      (PARTITION_REGISTERS_ADDR + 24, uMemAddr4 tw)]"

definition tw_partition_hdr :: "addr \<Rightarrow> nat \<Rightarrow> addr" where
  "tw_partition_hdr p i = p + i * SIZEOF_TPartitionRegTxn"

text \<open>\<open>fCb\<close>: the address of \<open>twIf_PartitionTxnDoneCb\<close>, the callback of the last transaction only.\<close>

definition tw_partition_txn :: "addr \<Rightarrow> addr \<Rightarrow> addr \<Rightarrow> nat \<Rightarrow> u32 \<Rightarrow> TTxnStruct" where
  "tw_partition_txn fCb self p i a =
     BUILD_TTxnStruct
       (TXN_PARAM_SET_SINGLE_STEP
         (TXN_PARAM_SET_MORE
           (TXN_PARAM_SET TTxnStruct_zero TXN_LOW_PRIORITY TXN_FUNC_ID_WLAN TXN_DIRECTION_WRITE TXN_INC_ADDR) 1) 0)
       a (tw_partition_hdr p i + SIZEOF_TTxnStruct) REGISTER_SIZE (if i = 6 then fCb else 0) (if i = 6 then self else 0)"

text \<open>The statuses of the transactions sent one after another.\<close>

fun tw_send_all :: "tq_bus \<Rightarrow> (addr \<times> TTxnStruct) list \<Rightarrow> TTwIfObj \<Rightarrow> (ETxnStatus list \<times> TTwIfObj) tw_res" where
  "tw_send_all bus [] tw = Some (Inr ([], tw))"
| "tw_send_all bus ((x, t) # xs) tw =
     tw_then (twIf_SendTransaction bus x (tw_put x t tw))
       (\<lambda>(st, tw). tw_then (tw_send_all bus xs tw) (\<lambda>(sts, tw). Some (Inr (st # sts, tw))))"

text \<open>\<open>p\<close>: what \<open>os_memoryAlloc\<close> returned. The code keeps the status of the sixth transaction.\<close>

definition tw_partition_list :: "addr \<Rightarrow> addr \<Rightarrow> TTwIfObj \<Rightarrow> (addr \<times> TTxnStruct) list" where
  "tw_partition_list fCb p tw =
     map (\<lambda>i. (tw_partition_hdr p i, tw_partition_txn fCb (tw_self tw) p i (fst (tw_partition_regs tw ! i)))) [0..<7]"

definition tw_save_partition :: "TPartition list \<Rightarrow> TTwIfObj \<Rightarrow> TTwIfObj" where
  "tw_save_partition pPartition tw =
     tw\<lparr>uMemAddr1 := uMemAdrr (pPartition ! 0), uMemSize1 := uMemSize (pPartition ! 0),
        uMemAddr2 := uMemAdrr (pPartition ! 1), uMemSize2 := uMemSize (pPartition ! 1),
        uMemAddr3 := uMemAdrr (pPartition ! 2), uMemSize3 := uMemSize (pPartition ! 2),
        uMemAddr4 := uMemAdrr (pPartition ! 3)\<rparr>"

definition tw_partition_data :: "addr \<Rightarrow> TTwIfObj \<Rightarrow> TTwIfObj" where
  "tw_partition_data p tw =
     tw\<lparr>tw_words := fold (\<lambda>i w. w(tw_partition_hdr p i + SIZEOF_TTxnStruct := snd (tw_partition_regs tw ! i)))
        [0..<7] (tw_words tw)\<rparr>"

text \<open>The queue, the bus or the done queue has the transaction.\<close>

definition tw_holds :: "TTwIfObj \<Rightarrow> addr \<Rightarrow> bool" where
  "tw_holds tw x \<longleftrightarrow> x \<in> tq_linked (tw_q tw) \<or> x = tq_single (tw_q tw) \<or> x = pCurrTxn (tw_q tw) \<or>
     x \<in> set (tq_items (tw_hTxnDoneQueue tw))"

text \<open>The memory is freed by the status of the sixth transaction. If one of the seven is still held then, its
  later use is one of freed memory: that is the fault \<open>UseAfterFree\<close>.\<close>

definition twIf_SetPartition :: "tq_bus \<Rightarrow> addr \<Rightarrow> addr \<Rightarrow> TPartition list \<Rightarrow> TTwIfObj \<Rightarrow> TTwIfObj tw_res" where
  "twIf_SetPartition bus fCb p pPartition tw =
     (if length pPartition < 4 then Some (Inl OutOfBounds)
      else
        (let tw = tw_save_partition pPartition tw in
         if p = 0 then Some (Inr tw)
         else
           tw_then (tw_send_all bus (tw_partition_list fCb p tw) (tw_partition_data p tw))
             (\<lambda>(sts, tw). Some
                (if sts ! 5 = TXN_STATUS_PENDING then Inr tw
                 else if \<exists>i \<in> {0..<7}. tw_holds tw (tw_partition_hdr p i) then Inl UseAfterFree
                 else Inr (tw_emit (OsFree p (7 * SIZEOF_TPartitionRegTxn)) tw)))))"

definition twIf_PartitionTxnDoneCb :: "addr \<Rightarrow> TTwIfObj \<Rightarrow> TTwIfObj" where
  "twIf_PartitionTxnDoneCb hTxn tw =
     tw_emit (OsFree (hTxn - 6 * SIZEOF_TPartitionRegTxn) (7 * SIZEOF_TPartitionRegTxn)) tw"

definition twIf_isValidMemoryAddr :: "TTwIfObj \<Rightarrow> u32 \<Rightarrow> u32 \<Rightarrow> bool" where
  "twIf_isValidMemoryAddr tw Address Length \<longleftrightarrow>
     Address \<ge> uMemAddr1 tw \<and> Address + Length < uMemAddr1 tw + uMemSize1 tw"

definition twIf_isValidRegAddr :: "TTwIfObj \<Rightarrow> u32 \<Rightarrow> u32 \<Rightarrow> bool" where
  "twIf_isValidRegAddr tw Address Length \<longleftrightarrow>
     Address \<ge> uMemAddr2 tw \<and> Address < uMemAddr2 tw + uMemSize2 tw"

section \<open>Completed transactions\<close>

text \<open>The bus driver reports the end of the transaction it has, with its status.\<close>

definition tw_BusDone :: "tq_bus \<Rightarrow> bool \<Rightarrow> TTwIfObj \<Rightarrow> TTwIfObj tw_res" where
  "tw_BusDone bus bErr tw =
     (let x = pCurrTxn (tw_q tw);
          tw = tw_put x (TXN_PARAM_SET_STATUS (tw_txn tw x) (if bErr then TXN_PARAM_STATUS_ERROR else TXN_PARAM_STATUS_OK)) tw
      in tw_then (txnQ_TxnDoneCb bus no_client x (tw_q tw)) (\<lambda>q. Some (tw_absorb bus q tw)))"

text \<open>What is called while a transaction's callback runs: the operations above, and completions.\<close>

datatype tw_call =
    CallTransact addr TTxnStruct
  | CallReadFWStatus addr TTxnStruct
  | CallSend addr TTxnStruct
  | CallAwake
  | CallSleep
  | CallHwAvailable
  | CallRestart
  | CallBusDone bool

fun tw_do :: "tq_bus \<Rightarrow> tw_call \<Rightarrow> TTwIfObj \<Rightarrow> TTwIfObj tw_res" where
  "tw_do bus (CallTransact x t) tw = tw_then (twIf_Transact bus x (tw_put x t tw)) (\<lambda>(st, tw). Some (Inr tw))"
| "tw_do bus (CallReadFWStatus x t) tw =
     tw_then (twIf_TransactReadFWStatus bus x (tw_put x t tw)) (\<lambda>(st, tw). Some (Inr tw))"
| "tw_do bus (CallSend x t) tw = tw_then (twIf_SendTransaction bus x (tw_put x t tw)) (\<lambda>(st, tw). Some (Inr tw))"
| "tw_do bus CallAwake tw = Some (Inr (twIf_Awake tw))"
| "tw_do bus CallSleep tw = twIf_Sleep bus tw"
| "tw_do bus CallHwAvailable tw = twIf_HwAvailable bus tw"
| "tw_do bus CallRestart tw = Some (map_sum id snd (twIf_Restart tw))"
| "tw_do bus (CallBusDone e) tw = tw_BusDone bus e tw"

fun tw_do_all :: "tq_bus \<Rightarrow> tw_call list \<Rightarrow> TTwIfObj \<Rightarrow> TTwIfObj tw_res" where
  "tw_do_all bus [] tw = Some (Inr tw)"
| "tw_do_all bus (c # cs) tw = tw_then (tw_do bus c tw) (tw_do_all bus cs)"

type_synonym tw_client = "TTwIfObj \<Rightarrow> tw_call list"

text \<open>The loop of \<open>twIf_HandleTxnDone\<close>; the error callback and the recovery callback are the last thing
  done, so what they call is an operation that follows.\<close>

partial_function (option) tw_HandleLoop :: "tq_bus \<Rightarrow> tw_client \<Rightarrow> TTwIfObj \<Rightarrow> TTwIfObj tw_res" where
  "tw_HandleLoop bus client tw =
     (case tw_done_deq tw of
        Inl f \<Rightarrow> Some (Inl f)
      | Inr (None, tw) \<Rightarrow> tw_sleep_if_idle bus tw
      | Inr (Some x, tw) \<Rightarrow>
          (let tw = tw_one_less tw;
               t = tw_txn tw x
           in if TXN_PARAM_GET_STATUS t = TXN_PARAM_STATUS_ERROR then Some (Inr (tw_err (tw_emit (Failed x) tw)))
              else
                (case (if fTxnDoneCb t \<noteq> 0
                       then (let tw = tw_emit (UserDoneCb (fTxnDoneCb t) (hCbHandle t) x) tw in
                             tw_do_all bus (client tw) tw)
                       else Some (Inr (tw_emit (Counted x) tw))) of
                   None \<Rightarrow> None
                 | Some (Inl f) \<Rightarrow> Some (Inl f)
                 | Some (Inr tw) \<Rightarrow>
                     (case tw_sleep_if_idle bus tw of
                        None \<Rightarrow> None
                      | Some (Inl f) \<Rightarrow> Some (Inl f)
                      | Some (Inr tw) \<Rightarrow> tw_HandleLoop bus client tw))))"

definition tw_recover :: "TTwIfObj \<Rightarrow> fault + TTwIfObj" where
  "tw_recover tw =
     (if fRecoveryCb tw = 0 then Inl NullDeref else Inr (tw_emit (RecoveryCb (fRecoveryCb tw) (hRecoveryCb tw)) tw))"

definition twIf_HandleTxnDone :: "tq_bus \<Rightarrow> tw_client \<Rightarrow> TTwIfObj \<Rightarrow> TTwIfObj tw_res" where
  "twIf_HandleTxnDone bus client tw =
     (if bTxnDoneInRecovery tw then
        (let tw = tw\<lparr>bTxnDoneInRecovery := False\<rparr>;
             tw = (if bPendRestartTimerRunning tw
                   then tw_emit (TimerStop (hPendRestartTimer tw)) (tw\<lparr>bPendRestartTimerRunning := False\<rparr>) else tw)
         in Some (tw_recover tw))
      else tw_HandleLoop bus client tw)"

definition twIf_PendRestratTimeout :: "TTwIfObj \<Rightarrow> fault + TTwIfObj" where
  "twIf_PendRestratTimeout tw =
     (let tw = tw\<lparr>bPendRestartTimerRunning := False\<rparr> in
      case txnQ_ClearQueues (unat TXN_FUNC_ID_WLAN) (tw_q tw) of
        Inl f \<Rightarrow> Inl f
      | Inr q \<Rightarrow> tw_recover (tw_emit GuardExpired (tw\<lparr>tw_q := q\<rparr>)))"

end
