(* ===== verification/TwIfInv.thy ===== *)
theory TwIfInv
  imports TwIf
begin

text \<open>
  The invariant of the transaction interface over the transaction queue below it: the books of what was
  given and reported (\<open>tw_books\<close>), where the transactions are (\<open>tw_out\<close>), the state machine with the value
  last given to the ELP register and the wake lock (\<open>tw_sm\<close>), and for every operation that it returns
  without a fault and keeps the invariant. The properties are in theory \<open>TwIfProps\<close>.
\<close>

section \<open>Specification\<close>

text \<open>The transactions that TwIf has taken and not reported yet, read from the record of events; \<open>None\<close>:
  one was reported that had not been given.\<close>

definition tw_strike :: "addr \<Rightarrow> addr multiset option \<Rightarrow> addr multiset option" where
  "tw_strike x M = (case M of None \<Rightarrow> None | Some N \<Rightarrow> if x \<in># N then Some (N - {#x#}) else None)"

fun tw_book :: "tw_event \<Rightarrow> addr multiset option \<Rightarrow> addr multiset option" where
  "tw_book (Given x) M = map_option (add_mset x) M"
| "tw_book (Returned x st) M = tw_strike x M"
| "tw_book (Counted x) M = tw_strike x M"
| "tw_book (UserDoneCb f h x) M = tw_strike x M"
| "tw_book (Failed x) M = tw_strike x M"
| "tw_book Dropped M = map_option (\<lambda>_. {#}) M"
| "tw_book GuardExpired M = map_option (\<lambda>_. {#}) M"
| "tw_book e M = M"

definition tw_books :: "tw_event list \<Rightarrow> addr multiset option" where
  "tw_books tr = fold tw_book tr (Some {#})"

text \<open>The guard timer of a restart has expired: its handler has dropped everything, but the bus may still have a
  transaction, and the counter of the pending ones is not set back.\<close>

definition tw_lost :: "tw_event list \<Rightarrow> bool" where
  "tw_lost tr \<longleftrightarrow> GuardExpired \<in> set tr"

lemma tw_lost_append [simp]:
  "\<not> tw_lost []" "tw_lost (tr @ es) \<longleftrightarrow> tw_lost tr \<or> tw_lost es" "tw_lost (e # es) \<longleftrightarrow> e = GuardExpired \<or> tw_lost es"
  by (auto simp: tw_lost_def)

text \<open>Wake locks taken less those given back.\<close>

definition tw_balance :: "tw_event list \<Rightarrow> int" where
  "tw_balance tr = int (count_list tr WakeLock) - int (count_list tr WakeUnlock)"

lemma tw_books_append [simp]: "tw_books (tr @ es) = fold tw_book es (tw_books tr)"
  by (simp add: tw_books_def)

lemma tw_balance_append [simp]:
  "tw_balance (tr @ es) = tw_balance tr + tw_balance es" "tw_balance [] = 0"
  "tw_balance (e # es) = (case e of WakeLock \<Rightarrow> 1 | WakeUnlock \<Rightarrow> -1 | _ \<Rightarrow> 0) + tw_balance es"
  by (simp_all add: tw_balance_def split: tw_event.split)

text \<open>The callbacks made.\<close>

definition tw_calls :: "tw_event list \<Rightarrow> nat" where
  "tw_calls tr = length (filter (\<lambda>e. case e of UserDoneCb f h x \<Rightarrow> True | _ \<Rightarrow> False) tr)"

lemma tw_calls_append [simp]:
  "tw_calls (tr @ es) = tw_calls tr + tw_calls es" "tw_calls [] = 0"
  "tw_calls (e # es) = (case e of UserDoneCb f h x \<Rightarrow> 1 | _ \<Rightarrow> 0) + tw_calls es"
  by (simp_all add: tw_calls_def split: tw_event.split)

lemma strike_in [simp]: "x \<in># M \<Longrightarrow> tw_strike x (Some M) = Some (M - {#x#})" "tw_strike x (Some (add_mset x M)) = Some M"
  by (simp_all add: tw_strike_def)

section \<open>Where the transactions are\<close>

definition tw_E :: "TTwIfObj \<Rightarrow> addr set" where
  "tw_E tw = {tHdr (tElpTxnSleep tw), tHdr (tElpTxnAwake tw)}"

definition tw_done :: "TTwIfObj \<Rightarrow> addr list" where
  "tw_done tw = tq_items (tw_hTxnDoneQueue tw)"

definition tw_out :: "TTwIfObj \<Rightarrow> addr multiset" where
  "tw_out tw = tq_mine (tw_E tw) (tw_q tw) + mset (tw_done tw)"

abbreviation tw_fs :: "TTwIfObj \<Rightarrow> EFuncState" where
  "tw_fs tw \<equiv> eState (aFuncInfo (tw_q tw) WLAN)"

text \<open>The shape of the state while the callbacks for \<open>xs\<close> are still to be made, and its books while the
  return for \<open>R\<close> is still to be made. The books are kept until the guard timer expires.\<close>

definition tw_all :: "addr list \<Rightarrow> TTwIfObj \<Rightarrow> addr multiset" where
  "tw_all xs tw = tw_out tw + filter_mset (\<lambda>x. x \<notin> tw_E tw) (mset xs)"

definition tw_fit :: "TTwIfObj \<Rightarrow> addr multiset \<Rightarrow> bool" where
  "tw_fit tw W \<longleftrightarrow> (\<forall>x \<in># W. count W x = 1 \<and> x \<notin> tw_E tw \<and> TXN_PARAM_GET_SINGLE_STEP (tw_txn tw x) = 0) \<and> size W \<le> 0xFFFFFFE0"

definition tw_wf :: "addr list \<Rightarrow> TTwIfObj \<Rightarrow> bool" where
  "tw_wf xs tw \<longleftrightarrow> tHdr (tElpTxnSleep tw) \<noteq> tHdr (tElpTxnAwake tw) \<and> tq_ok (tw_E tw) (tw_q tw) \<and>
     (\<forall>x \<in> tw_E tw. TXN_PARAM_GET_SINGLE_STEP (tw_txn tw x) \<noteq> 0) \<and> tw_fit tw (tw_all xs tw) \<and>
     (\<exists>Q. tw_hTxnDoneQueue tw = TqLive Q \<and> aq_limit Q = 0xFFFFFFFF) \<and>
     (\<forall>x \<in> set (tw_done tw). fTxnDoneCb (tw_txn tw x) \<noteq> 0) \<and> fRecoveryCb tw \<noteq> 0 \<and>
     (\<forall>x \<in> set xs. TXN_PARAM_GET_STATUS (tw_txn tw x) \<noteq> TXN_PARAM_STATUS_RECOVERY)"

definition tw_counted :: "addr multiset \<Rightarrow> addr list \<Rightarrow> TTwIfObj \<Rightarrow> bool" where
  "tw_counted R xs tw \<longleftrightarrow> tw_lost (tw_trace tw) \<or> tw_books (tw_trace tw) = Some (tw_all xs tw + R) \<and>
     unat (uPendingTxnCount tw) = size (tw_all xs tw + R)"

text \<open>What an absorbed queue operation leaves alone.\<close>

definition tw_same :: "TTwIfObj \<Rightarrow> TTwIfObj \<Rightarrow> bool" where
  "tw_same tw tw' \<longleftrightarrow> tElpTxnSleep tw' = tElpTxnSleep tw \<and> tElpTxnAwake tw' = tElpTxnAwake tw \<and>
     fRecoveryCb tw' = fRecoveryCb tw \<and> tw_eState tw' = tw_eState tw \<and> uAwakeReqCount tw' = uAwakeReqCount tw \<and>
     bTxnDoneInRecovery tw' = bTxnDoneInRecovery tw \<and> tw_balance (tw_trace tw') = tw_balance (tw_trace tw) \<and>
     tw_calls (tw_trace tw') = tw_calls (tw_trace tw) \<and> tw_lost (tw_trace tw') = tw_lost (tw_trace tw)"

lemma tw_same_refl [simp]: "tw_same tw tw"
  by (simp add: tw_same_def)

lemma tw_same_trans: "tw_same a b \<Longrightarrow> tw_same b c \<Longrightarrow> tw_same a c"
  by (simp add: tw_same_def)

lemma tw_same_E: "tw_same tw tw' \<Longrightarrow> tw_E tw' = tw_E tw"
  by (simp add: tw_same_def tw_E_def)

lemma tw_emit_sel [simp]:
  "tw_self (tw_emit e tw) = tw_self tw" "tw_eState (tw_emit e tw) = tw_eState tw"
  "tw_hTxnDoneQueue (tw_emit e tw) = tw_hTxnDoneQueue tw" "uContextId (tw_emit e tw) = uContextId tw"
  "fErrCb (tw_emit e tw) = fErrCb tw" "hErrCb (tw_emit e tw) = hErrCb tw" "fRecoveryCb (tw_emit e tw) = fRecoveryCb tw"
  "hRecoveryCb (tw_emit e tw) = hRecoveryCb tw" "uAwakeReqCount (tw_emit e tw) = uAwakeReqCount tw"
  "uPendingTxnCount (tw_emit e tw) = uPendingTxnCount tw" "tElpTxnSleep (tw_emit e tw) = tElpTxnSleep tw"
  "tElpTxnAwake (tw_emit e tw) = tElpTxnAwake tw" "bTxnDoneInRecovery (tw_emit e tw) = bTxnDoneInRecovery tw"
  "bPendRestartTimerRunning (tw_emit e tw) = bPendRestartTimerRunning tw"
  "hPendRestartTimer (tw_emit e tw) = hPendRestartTimer tw" "tw_q (tw_emit e tw) = tw_q tw"
  "tw_words (tw_emit e tw) = tw_words tw" "tw_trace (tw_emit e tw) = tw_trace tw @ [e]"
  "uMemAddr1 (tw_emit e tw) = uMemAddr1 tw" "uMemSize1 (tw_emit e tw) = uMemSize1 tw"
  "uMemAddr2 (tw_emit e tw) = uMemAddr2 tw" "uMemSize2 (tw_emit e tw) = uMemSize2 tw"
  by (simp_all add: tw_emit_def)

lemma tw_put_sel [simp]:
  "tElpTxnSleep (tw_put x t tw) = tElpTxnSleep tw" "tElpTxnAwake (tw_put x t tw) = tElpTxnAwake tw"
  by (simp_all add: tw_put_def)

lemma tw_one_less_sel [simp]:
  "tw_q (tw_one_less tw) = tw_q tw" "tw_hTxnDoneQueue (tw_one_less tw) = tw_hTxnDoneQueue tw"
  "tElpTxnSleep (tw_one_less tw) = tElpTxnSleep tw" "tElpTxnAwake (tw_one_less tw) = tElpTxnAwake tw"
  "tw_trace (tw_one_less tw) = tw_trace tw" "fRecoveryCb (tw_one_less tw) = fRecoveryCb tw" "tw_eState (tw_one_less tw) = tw_eState tw"
  "uAwakeReqCount (tw_one_less tw) = uAwakeReqCount tw" "bTxnDoneInRecovery (tw_one_less tw) = bTxnDoneInRecovery tw"
  "unat (uPendingTxnCount (tw_one_less tw)) = unat (uPendingTxnCount tw) - 1"
  by (simp_all add: tw_one_less_def unat_minus_one_pos word_gt_0)

text \<open>The parts of the description that an update does not touch.\<close>

lemma tw_part_cong:
  "tElpTxnSleep a = tElpTxnSleep b \<Longrightarrow> tElpTxnAwake a = tElpTxnAwake b \<Longrightarrow> tw_E a = tw_E b"
  "tw_hTxnDoneQueue a = tw_hTxnDoneQueue b \<Longrightarrow> tw_done a = tw_done b"
  "tw_q a = tw_q b \<Longrightarrow> tw_txn a = tw_txn b"
  by (simp_all add: tw_E_def tw_done_def tw_txn_def fun_eq_iff)

lemma tw_wf_cong:
  assumes "tElpTxnSleep a = tElpTxnSleep b" "tElpTxnAwake a = tElpTxnAwake b" "tw_hTxnDoneQueue a = tw_hTxnDoneQueue b"
    "tw_q a = tw_q b" "fRecoveryCb a = fRecoveryCb b"
  shows "tw_out a = tw_out b" "tw_all xs a = tw_all xs b" "tw_fit a W = tw_fit b W" "tw_wf xs a = tw_wf xs b"
proof -
  note c = tw_part_cong(1) [OF assms(1,2)] tw_part_cong(2) [OF assms(3)] tw_part_cong(3) [OF assms(4)]
  show o: "tw_out a = tw_out b" using assms by (simp add: tw_out_def c)
  show f: "tw_all xs a = tw_all xs b" by (simp add: tw_all_def o c)
  show g: "tw_fit a W = tw_fit b W" for W by (simp add: tw_fit_def c)
  show "tw_wf xs a = tw_wf xs b" using assms by (simp add: tw_wf_def f g c)
qed

section \<open>The callbacks\<close>

lemma unlinked:
  assumes "tw_wf (x # xs) tw" "x \<notin> tw_E tw"
  shows "x \<notin> tq_linked (tw_q tw) \<union> set (tw_done tw)" "TXN_PARAM_GET_SINGLE_STEP (tw_txn tw x) = 0" "x \<notin># tw_all xs tw"
proof -
  have all: "tw_all (x # xs) tw = add_mset x (tw_all xs tw)" using assms(2) by (simp add: tw_all_def)
  have f: "tw_fit tw (tw_all (x # xs) tw)" using assms(1) by (simp add: tw_wf_def)
  then show "TXN_PARAM_GET_SINGLE_STEP (tw_txn tw x) = 0" by (simp add: tw_fit_def all)
  show n: "x \<notin># tw_all xs tw" using f by (auto simp: tw_fit_def all not_in_iff)
  then have "x \<notin> set (tw_done tw)" "x \<notin># tq_mine (tw_E tw) (tw_q tw)" by (auto simp: tw_all_def tw_out_def)
  then show "x \<notin> tq_linked (tw_q tw) \<union> set (tw_done tw)" using assms(2) by (auto simp: tq_mine_def linked_wlan tq_all_def)
qed

lemma tw_fit_sub:
  assumes "tw_fit tw W" "W' \<subseteq># W"
  shows "tw_fit tw W'"
proof -
  have "size W' \<le> size W" by (rule size_mset_mono [OF assms(2)])
  moreover have "count W' x = 1" if "x \<in># W'" for x
  proof -
    have "count W' x \<le> count W x" using assms(2) by (simp add: subseteq_mset_def)
    moreover have "count W x = 1" using assms that by (auto simp: tw_fit_def dest: mset_subset_eqD)
    moreover have "0 < count W' x" using that by (simp only: count_greater_zero_iff)
    ultimately show ?thesis by linarith
  qed
  ultimately show ?thesis using assms by (auto simp: tw_fit_def dest: mset_subset_eqD)
qed

text \<open>One callback, outside of a restart: the transaction joins the done queue, or is counted off.\<close>

lemma TxnDoneCb_step:
  assumes wf: "tw_wf (x # xs) tw" and cn: "tw_counted R (x # xs) tw"
  shows "\<exists>tw'. twIf_TxnDoneCb x tw = Inr tw' \<and> tw_wf xs tw' \<and> tw_counted R xs tw' \<and> tw_same tw tw' \<and> tw_q tw' = tw_q tw \<and>
    tw_all xs tw' \<subseteq># tw_all (x # xs) tw"
proof -
  let ?t = "tw_txn tw x"
  define a where "a = tw\<lparr>uDbgCountTxnDoneCb := uDbgCountTxnDoneCb tw + 1\<rparr>"
  have aq: "tw_q a = tw_q tw" "tw_hTxnDoneQueue a = tw_hTxnDoneQueue tw" "tElpTxnSleep a = tElpTxnSleep tw" "tElpTxnAwake a = tElpTxnAwake tw"
    "fRecoveryCb a = fRecoveryCb tw" "uPendingTxnCount a = uPendingTxnCount tw" "tw_trace a = tw_trace tw" by (simp_all add: a_def)
  have sa: "tw_same tw a" by (simp add: a_def tw_same_def)
  note ca = tw_wf_cong [OF aq(3,4,2,1,5)]
  have nr: "TXN_PARAM_GET_STATUS ?t \<noteq> TXN_PARAM_STATUS_RECOVERY" using wf by (simp add: tw_wf_def)
  have ta: "tw_txn a x = ?t" by (simp add: tw_txn_def aq)
  show ?thesis
  proof (cases "x \<in> tw_E tw")
    case True
    have "tw_all (x # xs) tw = tw_all xs tw" using True by (simp add: tw_all_def)
    then have "tw_wf xs tw" "tw_counted R xs tw" using wf cn by (simp_all add: tw_wf_def tw_counted_def)
    then have "tw_wf xs a" "tw_counted R xs a" by (simp_all add: ca tw_counted_def aq)
    moreover have "twIf_TxnDoneCb x tw = Inr a" using True wf nr ta by (simp add: twIf_TxnDoneCb_def a_def [symmetric] tw_wf_def)
    moreover have "tw_all xs a \<subseteq># tw_all (x # xs) tw" using True unfolding ca by (simp add: tw_all_def)
    ultimately show ?thesis using sa aq(1) by blast
  next
    case False
    note u = unlinked [OF wf False]
    have all: "tw_all (x # xs) tw = add_mset x (tw_all xs tw)" using False by (simp add: tw_all_def)
    obtain Q where Q: "tw_hTxnDoneQueue tw = TqLive Q" "aq_limit Q = 0xFFFFFFFF" using wf by (auto simp: tw_wf_def)
    have sz: "size (tw_all (x # xs) tw) \<le> 0xFFFFFFE0" using wf by (simp add: tw_wf_def tw_fit_def)
    show ?thesis
    proof (cases "fTxnDoneCb ?t = 0")
      case True
      define b where "b = tw_emit (Scheduled (uContextId a)) (tw_emit (Counted x) (tw_one_less a))"
      have bq: "tw_q b = tw_q a" "tw_hTxnDoneQueue b = tw_hTxnDoneQueue a" "tElpTxnSleep b = tElpTxnSleep a" "tElpTxnAwake b = tElpTxnAwake a"
        "fRecoveryCb b = fRecoveryCb a" by (simp_all add: b_def)
      note cb = tw_wf_cong [OF bq(3,4,2,1,5)]
      have "tw_fit tw (tw_all xs tw)" using wf by (auto simp: tw_wf_def all intro: tw_fit_sub)
      then have "tw_wf xs tw" using wf by (simp add: tw_wf_def)
      then have w: "tw_wf xs b" by (simp add: ca cb)
      have "tw_counted R xs b" using cn unfolding tw_counted_def all cb ca by (auto simp: b_def aq)
      moreover have "tw_same tw b" using sa by (simp add: b_def tw_same_def)
      moreover have "twIf_TxnDoneCb x tw = Inr b" using True nr u(2) ta by (simp add: twIf_TxnDoneCb_def a_def [symmetric] b_def)
      moreover have "tw_all xs b \<subseteq># tw_all (x # xs) tw" unfolding all by (simp add: cb ca)
      ultimately show ?thesis using w bq(1) aq(1) by auto
    next
      case cb: False
      define Q' where "Q' = Q\<lparr>aq_items := aq_items Q @ [x], aq_max := max (aq_max Q) (aq_Size Q + 1)\<rparr>"
      define b where "b = tw_emit (Scheduled (uContextId a)) (a\<lparr>tw_hTxnDoneQueue := TqLive Q'\<rparr>)"
      have "length (aq_items Q) < size (tw_all (x # xs) tw)" using Q unfolding all by (simp add: tw_all_def tw_out_def tw_done_def tq_items_def)
      then have "length (aq_items Q) < unat (aq_limit Q)" using sz Q(2) by simp
      moreover have "x \<notin> tq_linked (tw_q tw) \<union> set (aq_items Q)" using u(1) Q(1) by (simp add: tw_done_def tq_items_def)
      ultimately have e: "tw_done_enq x a = Inr (a\<lparr>tw_hTxnDoneQueue := TqLive Q'\<rparr>)"
        using Q(1) by (simp add: tw_done_enq_def aq aq_Enqueue_def Q'_def)
      have bq: "tw_q b = tw_q tw" "tElpTxnSleep b = tElpTxnSleep tw" "tElpTxnAwake b = tElpTxnAwake tw"
        "fRecoveryCb b = fRecoveryCb tw" "tw_hTxnDoneQueue b = TqLive Q'" "uPendingTxnCount b = uPendingTxnCount tw"
        "tw_trace b = tw_trace tw @ [Scheduled (uContextId a)]"
        by (simp_all add: b_def aq)
      have E: "tw_E b = tw_E tw" using bq by (intro tw_part_cong)
      have tb: "tw_txn b = tw_txn tw" using bq by (intro tw_part_cong)
      have d: "tw_done b = tw_done tw @ [x]" using bq(5) Q(1) by (simp add: tw_done_def tq_items_def Q'_def)
      have al: "tw_all xs b = tw_all (x # xs) tw" by (simp add: all) (simp add: tw_all_def tw_out_def E d bq)
      have "tw_wf xs b" using wf cb Q(2) unfolding tw_wf_def al tw_fit_def E d tb bq by (simp add: Q'_def)
      moreover have "tw_counted R xs b" using cn unfolding tw_counted_def al bq by simp
      moreover have "tw_same tw b" using sa by (simp add: b_def tw_same_def)
      moreover have "twIf_TxnDoneCb x tw = Inr b" using cb nr u(2) ta e by (simp add: twIf_TxnDoneCb_def a_def [symmetric] b_def)
      moreover have "tw_all xs b \<subseteq># tw_all (x # xs) tw" by (simp add: al)
      ultimately show ?thesis using bq(1) by blast
    qed
  qed
qed

lemma callbacks_step:
  "tw_wf xs tw \<Longrightarrow> tw_counted R xs tw \<Longrightarrow>
   \<exists>tw'. tw_callbacks xs tw = Inr tw' \<and> tw_wf [] tw' \<and> tw_counted R [] tw' \<and> tw_same tw tw' \<and> tw_q tw' = tw_q tw \<and>
     tw_out tw' \<subseteq># tw_all xs tw"
proof (induction xs arbitrary: tw)
  case (Cons x xs)
  obtain b where b: "twIf_TxnDoneCb x tw = Inr b" "tw_wf xs b" "tw_counted R xs b" "tw_same tw b" "tw_q b = tw_q tw"
    "tw_all xs b \<subseteq># tw_all (x # xs) tw"
    using TxnDoneCb_step [OF Cons.prems] by blast
  obtain c where c: "tw_callbacks xs b = Inr c" "tw_wf [] c" "tw_counted R [] c" "tw_same b c" "tw_q c = tw_q b" "tw_out c \<subseteq># tw_all xs b"
    using Cons.IH [OF b(2,3)] by blast
  have "tw_same tw c" "tw_out c \<subseteq># tw_all (x # xs) tw" using tw_same_trans [OF b(4) c(4)] subset_mset.order_trans [OF c(6) b(6)] .
  then show ?case using b c by simp
qed (simp add: tw_all_def)

section \<open>Queue operations\<close>

text \<open>The status field leaves the others alone.\<close>

lemma set_status_fields [simp]:
  assumes "v = TXN_PARAM_STATUS_OK \<or> v = TXN_PARAM_STATUS_ERROR \<or> v = TXN_PARAM_STATUS_RECOVERY"
  shows "TXN_PARAM_GET_SINGLE_STEP (TXN_PARAM_SET_STATUS t v) = TXN_PARAM_GET_SINGLE_STEP t"
    "TXN_PARAM_GET_FUNC_ID (TXN_PARAM_SET_STATUS t v) = TXN_PARAM_GET_FUNC_ID t"
    "TXN_PARAM_GET_PRIORITY (TXN_PARAM_SET_STATUS t v) = TXN_PARAM_GET_PRIORITY t"
    "TXN_PARAM_GET_STATUS (TXN_PARAM_SET_STATUS t v) = v"
    "fTxnDoneCb (TXN_PARAM_SET_STATUS t v) = fTxnDoneCb t" "hCbHandle (TXN_PARAM_SET_STATUS t v) = hCbHandle t"
    "uHwAddr (TXN_PARAM_SET_STATUS t v) = uHwAddr t"
proof -
  have "unat v < 16" using assms by (auto simp: TXN_PARAM_STATUS_OK_def TXN_PARAM_STATUS_ERROR_def TXN_PARAM_STATUS_RECOVERY_def)
  note m = txn_in_mask(7) [OF this]
  have k: "(0x00000F00 :: u32) AND 0x00000080 = 0" "(0x00000F00 :: u32) AND 0x0000000C = 0" "(0x00000F00 :: u32) AND 0x00000003 = 0"
    by simp_all
  have e: "uTxnParams (TXN_PARAM_SET_STATUS t v) = (uTxnParams t AND NOT 0x00000F00) OR push_bit 8 v" by (simp add: TXN_PARAM_SET_STATUS_def)
  show "TXN_PARAM_GET_SINGLE_STEP (TXN_PARAM_SET_STATUS t v) = TXN_PARAM_GET_SINGLE_STEP t"
    "TXN_PARAM_GET_FUNC_ID (TXN_PARAM_SET_STATUS t v) = TXN_PARAM_GET_FUNC_ID t"
    "TXN_PARAM_GET_PRIORITY (TXN_PARAM_SET_STATUS t v) = TXN_PARAM_GET_PRIORITY t"
    "TXN_PARAM_GET_STATUS (TXN_PARAM_SET_STATUS t v) = v"
    unfolding txn_get_defs e by (simp only: m k field_other field_read_back refl simp_thms)+
  show "fTxnDoneCb (TXN_PARAM_SET_STATUS t v) = fTxnDoneCb t" "hCbHandle (TXN_PARAM_SET_STATUS t v) = hCbHandle t"
    "uHwAddr (TXN_PARAM_SET_STATUS t v) = uHwAddr t" by (simp_all add: TXN_PARAM_SET_STATUS_def)
qed

lemma status_distinct [simp]:
  "TXN_PARAM_STATUS_OK \<noteq> TXN_PARAM_STATUS_RECOVERY" "TXN_PARAM_STATUS_ERROR \<noteq> TXN_PARAM_STATUS_RECOVERY"
  by (simp_all add: TXN_PARAM_STATUS_OK_def TXN_PARAM_STATUS_ERROR_def TXN_PARAM_STATUS_RECOVERY_def)

lemma marks_fields [simp]:
  "TXN_PARAM_GET_SINGLE_STEP (tw_marks bus pre es m x) = TXN_PARAM_GET_SINGLE_STEP (m x)"
  "fTxnDoneCb (tw_marks bus pre es m x) = fTxnDoneCb (m x)" "txn_wlan (tw_marks bus pre es m x) = txn_wlan (m x)"
  by (induction es arbitrary: pre m) (simp_all add: txn_wlan_def split: tq_event.split)

lemma marks_status:
  "BusSync x \<in> set es \<or> TXN_PARAM_GET_STATUS (m x) \<noteq> TXN_PARAM_STATUS_RECOVERY \<Longrightarrow>
   TXN_PARAM_GET_STATUS (tw_marks bus pre es m x) \<noteq> TXN_PARAM_STATUS_RECOVERY"
proof (induction es arbitrary: pre m)
  case (Cons e es)
  show ?case unfolding tw_marks.simps by (rule Cons.IH) (use Cons.prems in \<open>auto split: tq_event.split\<close>)
qed simp

lemma tq_mem_sel [simp]:
  "tq_waiting (q\<lparr>tq_mem := m\<rparr>) = tq_waiting q" "tq_all (q\<lparr>tq_mem := m\<rparr>) = tq_all q" "tq_mine E (q\<lparr>tq_mem := m\<rparr>) = tq_mine E q"
  "tq_elp E (q\<lparr>tq_mem := m\<rparr>) = tq_elp E q" "tq_single (q\<lparr>tq_mem := m\<rparr>) = tq_single q" "tq_idle (q\<lparr>tq_mem := m\<rparr>) = tq_idle q"
proof -
  show w: "tq_waiting (q\<lparr>tq_mem := m\<rparr>) = tq_waiting q" by (simp add: tq_waiting_def)
  show s: "tq_single (q\<lparr>tq_mem := m\<rparr>) = tq_single q" by (simp add: tq_single_def)
  show a: "tq_all (q\<lparr>tq_mem := m\<rparr>) = tq_all q" by (simp add: tq_all_def w s)
  show "tq_mine E (q\<lparr>tq_mem := m\<rparr>) = tq_mine E q" by (simp add: tq_mine_def a)
  show "tq_elp E (q\<lparr>tq_mem := m\<rparr>) = tq_elp E q" by (simp add: tq_elp_def s)
  show "tq_idle (q\<lparr>tq_mem := m\<rparr>) = tq_idle q" by (rule tq_idle_cong) simp_all
qed

lemma ok_mem:
  assumes "tq_ok E q" "\<And>x. txn_wlan (m x)"
  shows "tq_ok E (q\<lparr>tq_mem := m\<rparr>)"
  using assms
  by (simp add: tq_ok_def tq_settled_def tq_inv_def tq_shape_def tq_roomy_def tq_sound_def tq_elp_ok_def)

lemma ok_wlan: "tq_ok E q \<Longrightarrow> txn_wlan (tq_mem q x)"
  by (simp add: tq_ok_def tq_settled_def tq_inv_def tq_shape_def)

text \<open>The transactions \<open>W\<close> are with TwIf when the queue operation is called.\<close>

lemma absorb_step:
  assumes wf: "tw_wf [] tw" and ok: "tq_ok (tw_E tw) q'" and mem: "tq_mem q' = tq_mem (tw_q tw)"
    and went: "tq_went X (tw_E tw) (tw_q tw) q' new M" and fit: "tw_fit tw (M + mset (tw_done tw))"
    and st: "\<forall>x \<in> X. TXN_PARAM_GET_STATUS (tw_txn tw x) \<noteq> TXN_PARAM_STATUS_RECOVERY"
    and cn: "tw_lost (tw_trace tw) \<or> tw_books (tw_trace tw) = Some (M + mset (tw_done tw) + R) \<and>
      unat (uPendingTxnCount tw) = size (M + mset (tw_done tw) + R)"
  shows "\<exists>tw' m. tw_absorb bus q' tw = Inr tw' \<and> tw_wf [] tw' \<and> tw_counted R [] tw' \<and> tw_same tw tw' \<and>
    tw_q tw' = q'\<lparr>tq_mem := m\<rparr> \<and> tw_out tw' \<subseteq># M + mset (tw_done tw)"
proof -
  let ?E = "tw_E tw"
  obtain es where es: "tq_trace q' = tq_trace (tw_q tw) @ es" "tq_cbs es = new" "set new \<subseteq> X \<union> tq_ended es"
    "M = tq_mine ?E q' + filter_mset (\<lambda>x. x \<notin> ?E) (mset new)" using went by (auto simp: tq_went_def)
  define m where "m = tw_marks bus (tq_trace (tw_q tw)) es (tq_mem q')"
  define a where "a = tw\<lparr>tw_q := q'\<lparr>tq_mem := m\<rparr>\<rparr>"
  have ab: "tw_absorb bus q' tw = tw_callbacks new a" using es(1,2) by (simp add: tw_absorb_def m_def a_def)
  have E: "tw_E a = ?E" and d: "tw_done a = tw_done tw" by (simp_all add: a_def tw_E_def tw_done_def)
  have al: "tw_all new a = M + mset (tw_done tw)" by (simp add: tw_all_def tw_out_def E d es(4)) (simp add: a_def)
  have f: "TXN_PARAM_GET_SINGLE_STEP (tw_txn a x) = TXN_PARAM_GET_SINGLE_STEP (tw_txn tw x)" "fTxnDoneCb (tw_txn a x) = fTxnDoneCb (tw_txn tw x)" for x
    by (simp_all add: a_def tw_txn_def m_def mem)
  have s: "TXN_PARAM_GET_STATUS (tw_txn a x) \<noteq> TXN_PARAM_STATUS_RECOVERY" if x: "x \<in> set new" for x
  proof -
    have "BusSync x \<in> set es \<or> TXN_PARAM_GET_STATUS (tq_mem q' x) \<noteq> TXN_PARAM_STATUS_RECOVERY"
      using x es(3) st by (auto simp: tq_ended_def tw_txn_def mem)
    then show ?thesis unfolding a_def tw_txn_def by (simp add: m_def marks_status)
  qed
  have "tq_ok ?E (q'\<lparr>tq_mem := m\<rparr>)" by (rule ok_mem [OF ok]) (simp add: m_def ok_wlan [OF ok])
  then have ok': "tq_ok ?E (tw_q a)" by (simp add: a_def)
  have fit': "tw_fit a (M + mset (tw_done tw))" using fit by (simp add: tw_fit_def E f)
  have "tw_wf new a" using wf fit' ok' s unfolding tw_wf_def al E d f by (simp add: a_def)
  moreover have "tw_counted R new a" using cn unfolding tw_counted_def al by (simp add: a_def)
  ultimately obtain tw' where tw': "tw_callbacks new a = Inr tw'" "tw_wf [] tw'" "tw_counted R [] tw'" "tw_same a tw'" "tw_q tw' = tw_q a"
    "tw_out tw' \<subseteq># M + mset (tw_done tw)"
    using callbacks_step [of new a] unfolding al by blast
  have sm: "tw_same tw tw'" using tw'(4) by (simp add: tw_same_def a_def)
  show ?thesis using ab sm tw' by (intro exI [of _ tw'] exI [of _ m]) (simp add: a_def)
qed

definition tw_good :: "TTwIfObj \<Rightarrow> bool" where
  "tw_good tw \<longleftrightarrow> tw_wf [] tw \<and> tw_counted {#} [] tw"

lemma tw_good_cong:
  assumes "tElpTxnSleep a = tElpTxnSleep b" "tElpTxnAwake a = tElpTxnAwake b" "tw_hTxnDoneQueue a = tw_hTxnDoneQueue b"
    "tw_q a = tw_q b" "fRecoveryCb a = fRecoveryCb b" "uPendingTxnCount a = uPendingTxnCount b"
    "tw_books (tw_trace a) = tw_books (tw_trace b)" "tw_lost (tw_trace a) = tw_lost (tw_trace b)"
  shows "tw_good a = tw_good b"
  using assms by (simp add: tw_good_def tw_counted_def tw_wf_cong [OF assms(1-5)])

lemma tw_all_Nil [simp]: "tw_all [] tw = tw_out tw"
  by (simp add: tw_all_def)

lemma good_out:
  assumes "tw_good tw"
  shows "tw_fit tw (tw_out tw)" "tq_ok (tw_E tw) (tw_q tw)"
    "tw_lost (tw_trace tw) \<or> tw_books (tw_trace tw) = Some (tw_out tw) \<and> unat (uPendingTxnCount tw) = size (tw_out tw)"
    "tw_lost (tw_trace tw) \<or> (uPendingTxnCount tw = 0 \<longleftrightarrow> tw_out tw = {#})"
  using assms by (auto simp: tw_good_def tw_wf_def tw_counted_def unat_eq_0)

lemma absorb_good:
  assumes g: "tw_good tw" and ok: "tq_ok (tw_E tw) q'" "tq_mem q' = tq_mem (tw_q tw)"
    and went: "tq_went {} (tw_E tw) (tw_q tw) q' new (tq_mine (tw_E tw) (tw_q tw))"
  shows "\<exists>tw'. tw_absorb bus q' tw = Inr tw' \<and> tw_good tw' \<and> tw_same tw tw' \<and> tw_out tw' \<subseteq># tw_out tw \<and>
    tw_fs tw' = eState (aFuncInfo q' WLAN) \<and> tq_elp (tw_E tw') (tw_q tw') = tq_elp (tw_E tw) q' \<and> pCurrTxn (tw_q tw') = pCurrTxn q'"
proof -
  have o: "tq_mine (tw_E tw) (tw_q tw) + mset (tw_done tw) = tw_out tw" by (simp add: tw_out_def)
  have w: "tw_wf [] tw" using g by (simp add: tw_good_def)
  obtain tw' m where r: "tw_absorb bus q' tw = Inr tw'" "tw_wf [] tw'" "tw_counted {#} [] tw'" "tw_same tw tw'"
    "tw_q tw' = q'\<lparr>tq_mem := m\<rparr>" "tw_out tw' \<subseteq># tw_out tw"
    using absorb_step [OF w ok went, of "{#}" bus] good_out [OF g] unfolding o by auto
  then show ?thesis using tw_same_E [OF r(4)] by (intro exI [of _ tw']) (simp add: tw_good_def)
qed

lemma elp_transact:
  assumes g: "tw_good tw" and x: "x \<in> tw_E tw"
  shows "\<exists>st tw'. tw_Transact bus x tw = Some (Inr (st, tw')) \<and> tw_good tw' \<and> tw_same tw tw' \<and> tw_out tw' \<subseteq># tw_out tw \<and>
    tw_fs tw' = tw_fs tw \<and> tq_elp (tw_E tw') (tw_q tw') = x \<and> tw_done tw' = tw_done tw"
proof -
  have ok: "tq_ok (tw_E tw) (tw_q tw)" and ss: "TXN_PARAM_GET_SINGLE_STEP (tq_mem (tw_q tw) x) \<noteq> 0"
    using g x by (auto simp: tw_good_def tw_wf_def tw_txn_def)
  have x0: "x \<noteq> 0" using ok x unfolding tq_ok_def by metis
  obtain st q' new where q': "txnQ_Transact bus no_client x (tw_q tw) = Some (Inr (st, q'))" "tq_ok (tw_E tw) q'" "tq_mem q' = tq_mem (tw_q tw)"
    "eState (aFuncInfo q' WLAN) = tw_fs tw" "tq_elp (tw_E tw) q' = x"
    "tq_went {} (tw_E tw) (tw_q tw) q' new (tq_mine (tw_E tw) (tw_q tw))"
    using Transact_single_count [OF ok x0 x ss, of bus] by blast
  obtain tw' where "tw_absorb bus q' tw = Inr tw'" "tw_good tw'" "tw_same tw tw'" "tw_out tw' \<subseteq># tw_out tw"
    "tw_fs tw' = eState (aFuncInfo q' WLAN)" "tq_elp (tw_E tw') (tw_q tw') = tq_elp (tw_E tw) q'"
    using absorb_good [OF g q'(2,3,6), of bus] by blast
  moreover have "tw_done tw' = tw_done tw"
  proof -
    obtain es where es: "tq_trace q' = tq_trace (tw_q tw) @ es" using q'(6) by (auto simp: tq_went_def)
    have "tq_cbs (tq_trace q') = tq_cbs (tq_trace (tw_q tw))"
      using ok by (intro Transact_single_silent [OF _ _ _ _ _ x0 ss q'(1)]) (simp_all add: tq_ok_def tq_settled_def)
    then have "tq_cbs es = []" unfolding es by simp
    then show ?thesis using calculation(1) es by (auto simp: tw_absorb_def tw_done_def)
  qed
  ultimately show ?thesis using q' ss by (intro exI [of _ st] exI [of _ tw']) (simp add: tw_Transact_def tw_txn_def)
qed

lemma good_emit: "(\<And>M. tw_book e M = M) \<Longrightarrow> e \<noteq> GuardExpired \<Longrightarrow> tw_good (tw_emit e tw) = tw_good tw"
  by (rule tw_good_cong) simp_all

lemma good_state [simp]: "tw_good (tw\<lparr>tw_eState := s\<rparr>) = tw_good tw" "tw_E (tw\<lparr>tw_eState := s\<rparr>) = tw_E tw"
  "tw_out (tw\<lparr>tw_eState := s\<rparr>) = tw_out tw"
  by (rule tw_good_cong, simp_all add: tw_E_def tw_out_def tw_done_def)

lemma emit_parts [simp]: "tw_E (tw_emit e tw) = tw_E tw" "tw_out (tw_emit e tw) = tw_out tw" "tw_done (tw_emit e tw) = tw_done tw"
  by (simp_all add: tw_E_def tw_out_def tw_done_def)

text \<open>The device's side of the state: what the ELP register was last told.\<close>

definition tw_elp :: "TTwIfObj \<Rightarrow> addr" where
  "tw_elp tw = tq_elp (tw_E tw) (tw_q tw)"

lemma WriteElp_step:
  assumes g: "tw_good tw"
  shows "\<exists>tw'. twIf_WriteElpReg bus v tw = Some (Inr tw') \<and> tw_good tw' \<and> tw_out tw' \<subseteq># tw_out tw \<and> tw_fs tw' = tw_fs tw \<and>
    tw_eState tw' = tw_eState tw \<and> tElpTxnSleep tw' = tElpTxnSleep tw \<and> tElpTxnAwake tw' = tElpTxnAwake tw \<and>
    uAwakeReqCount tw' = uAwakeReqCount tw \<and> bTxnDoneInRecovery tw' = bTxnDoneInRecovery tw \<and>
    tw_elp tw' = tHdr (if v = ELP_CTRL_REG_AWAKE then tElpTxnAwake tw else tElpTxnSleep tw) \<and>
    tw_balance (tw_trace tw') = tw_balance (tw_trace tw) + (if v = ELP_CTRL_REG_AWAKE then 1 else -1) \<and>
    tw_calls (tw_trace tw') = tw_calls (tw_trace tw) \<and> tw_lost (tw_trace tw') = tw_lost (tw_trace tw) \<and>
    tw_done tw' = tw_done tw"
proof (cases "v = ELP_CTRL_REG_AWAKE")
  case True
  have g1: "tw_good (tw_emit WakeLock tw)" using g by (simp add: good_emit)
  have x: "tHdr (tElpTxnAwake tw) \<in> tw_E (tw_emit WakeLock tw)" by (simp add: tw_E_def)
  obtain st tw' where "tw_Transact bus (tHdr (tElpTxnAwake tw)) (tw_emit WakeLock tw) = Some (Inr (st, tw'))" "tw_good tw'"
    "tw_same (tw_emit WakeLock tw) tw'" "tw_out tw' \<subseteq># tw_out tw" "tw_fs tw' = tw_fs tw" "tw_elp tw' = tHdr (tElpTxnAwake tw)"
    "tw_done tw' = tw_done tw"
    using elp_transact [OF g1 x, of bus] by (auto simp: tw_elp_def)
  then show ?thesis using True by (simp add: twIf_WriteElpReg_def tw_same_def)
next
  case False
  have x: "tHdr (tElpTxnSleep tw) \<in> tw_E tw" by (simp add: tw_E_def)
  obtain st tw' where "tw_Transact bus (tHdr (tElpTxnSleep tw)) tw = Some (Inr (st, tw'))" "tw_good tw'"
    "tw_same tw tw'" "tw_out tw' \<subseteq># tw_out tw" "tw_fs tw' = tw_fs tw" "tw_elp tw' = tHdr (tElpTxnSleep tw)"
    "tw_done tw' = tw_done tw"
    using elp_transact [OF g x, of bus] by (auto simp: tw_elp_def)
  then show ?thesis using False by (simp add: twIf_WriteElpReg_def tw_same_def good_emit tw_elp_def)
qed

lemma func_wlan [simp]: "unat TXN_FUNC_ID_WLAN = WLAN"
  by (simp add: TXN_FUNC_ID_WLAN_def WLAN_def)

lemma Run_step:
  assumes g: "tw_good tw"
  shows "\<exists>tw'. tw_Run bus tw = Some (Inr tw') \<and> tw_good tw' \<and> tw_same tw tw' \<and> tw_out tw' \<subseteq># tw_out tw \<and>
    tw_fs tw' = FUNC_STATE_RUNNING \<and> tw_elp tw' = tw_elp tw"
proof -
  obtain q' new where q': "txnQ_Run bus no_client WLAN (tw_q tw) = Some (Inr q')" "tq_ok (tw_E tw) q'" "tq_mem q' = tq_mem (tw_q tw)"
    "eState (aFuncInfo q' WLAN) = FUNC_STATE_RUNNING" "tq_elp (tw_E tw) q' = tq_elp (tw_E tw) (tw_q tw)"
    "tq_went {} (tw_E tw) (tw_q tw) q' new (tq_mine (tw_E tw) (tw_q tw))"
    using Run_count [OF good_out(2) [OF g], of bus] by blast
  obtain tw' where "tw_absorb bus q' tw = Inr tw'" "tw_good tw'" "tw_same tw tw'" "tw_out tw' \<subseteq># tw_out tw"
    "tw_fs tw' = eState (aFuncInfo q' WLAN)" "tq_elp (tw_E tw') (tw_q tw') = tq_elp (tw_E tw) q'"
    using absorb_good [OF g q'(2,3,6), of bus] by blast
  then show ?thesis using q' by (intro exI [of _ tw']) (simp add: tw_Run_def tw_elp_def)
qed

lemma Stop_step:
  assumes g: "tw_good tw"
  shows "\<exists>tw'. tw_Stop tw = Some (Inr tw') \<and> tw_good tw' \<and> tw_same tw tw' \<and> tw_out tw' = tw_out tw \<and>
    tw_fs tw' = FUNC_STATE_STOPPED \<and> tw_elp tw' = tw_elp tw \<and> tw_done tw' = tw_done tw"
proof -
  obtain q' where q': "txnQ_Stop WLAN (tw_q tw) = Inr q'" "tq_ok (tw_E tw) q'" "tq_mem q' = tq_mem (tw_q tw)"
    "eState (aFuncInfo q' WLAN) = FUNC_STATE_STOPPED" "tq_elp (tw_E tw) q' = tq_elp (tw_E tw) (tw_q tw)"
    "tq_mine (tw_E tw) q' = tq_mine (tw_E tw) (tw_q tw)"
    using Stop_count [OF good_out(2) [OF g]] by blast
  define b where "b = tw\<lparr>tw_q := q'\<rparr>"
  have p: "tw_E b = tw_E tw" "tw_done b = tw_done tw" by (simp_all add: b_def tw_E_def tw_done_def)
  have t: "tw_txn b = tw_txn tw" using q'(3) by (simp add: b_def tw_txn_def fun_eq_iff)
  have o: "tw_out b = tw_out tw" unfolding tw_out_def p using q'(6) by (simp add: b_def)
  have "tw_good b" using g q'(2) unfolding tw_good_def tw_wf_def tw_counted_def tw_all_Nil tw_fit_def o p t by (simp add: b_def)
  then show ?thesis using q' o p by (intro exI [of _ b]) (simp add: tw_Stop_def tw_elp_def b_def tw_same_def)
qed

section \<open>The state machine\<close>

fun tw_next :: "ESmState \<Rightarrow> ESmEvent \<Rightarrow> ESmState" where
  "tw_next SM_STATE_AWAKE SM_EVENT_SLEEP = SM_STATE_SLEEP"
| "tw_next SM_STATE_SLEEP SM_EVENT_START = SM_STATE_WAIT_HW"
| "tw_next SM_STATE_SLEEP SM_EVENT_HW_AVAILABLE = SM_STATE_AWAKE"
| "tw_next SM_STATE_WAIT_HW SM_EVENT_HW_AVAILABLE = SM_STATE_AWAKE"
| "tw_next s e = s"

text \<open>The wake lock is one behind: \<open>twIf_Init\<close> gives one back that was not taken.\<close>

definition tw_sm :: "TTwIfObj \<Rightarrow> bool" where
  "tw_sm tw \<longleftrightarrow> tw_balance (tw_trace tw) = (if tw_eState tw = SM_STATE_SLEEP then -1 else 0) \<and>
     (tw_lost (tw_trace tw) \<or>
      (case tw_eState tw of
         SM_STATE_AWAKE \<Rightarrow> tw_fs tw = FUNC_STATE_RUNNING \<and> tw_elp tw = tHdr (tElpTxnAwake tw)
       | SM_STATE_WAIT_HW \<Rightarrow> tw_elp tw = tHdr (tElpTxnAwake tw)
       | SM_STATE_SLEEP \<Rightarrow> tw_fs tw = FUNC_STATE_STOPPED \<longrightarrow> tw_elp tw = tHdr (tElpTxnSleep tw)))"

lemma tw_sm_cong:
  assumes "tw_eState a = tw_eState b" "tw_fs a = tw_fs b" "tw_elp a = tw_elp b" "tw_balance (tw_trace a) = tw_balance (tw_trace b)"
    "tElpTxnSleep a = tElpTxnSleep b" "tElpTxnAwake a = tElpTxnAwake b" "tw_lost (tw_trace a) = tw_lost (tw_trace b)"
  shows "tw_sm a = tw_sm b"
  unfolding tw_sm_def assms(1,4,7) using assms by (cases "tw_eState b") simp_all

definition tw_like :: "TTwIfObj \<Rightarrow> TTwIfObj \<Rightarrow> bool" where
  "tw_like tw tw' \<longleftrightarrow> tElpTxnSleep tw' = tElpTxnSleep tw \<and> tElpTxnAwake tw' = tElpTxnAwake tw \<and>
     uAwakeReqCount tw' = uAwakeReqCount tw \<and> bTxnDoneInRecovery tw' = bTxnDoneInRecovery tw \<and>
     tw_calls (tw_trace tw') = tw_calls (tw_trace tw) \<and> tw_lost (tw_trace tw') = tw_lost (tw_trace tw)"

lemma tw_like_refl [simp]: "tw_like tw tw"
  by (simp add: tw_like_def)

lemma tw_like_trans: "tw_like a b \<Longrightarrow> tw_like b c \<Longrightarrow> tw_like a c"
  by (simp add: tw_like_def)

lemma tw_like_same: "tw_same a b \<Longrightarrow> tw_like a b"
  by (simp add: tw_like_def tw_same_def)

lemma SmEvent_step:
  assumes g: "tw_good tw" and s: "tw_sm tw" and f: "tw_fs tw \<noteq> FUNC_STATE_RESTART"
  shows "\<exists>tw'. twIf_HandleSmEvent bus e tw = Some (Inr tw') \<and> tw_good tw' \<and> tw_sm tw' \<and> tw_fs tw' \<noteq> FUNC_STATE_RESTART \<and>
    tw_out tw' \<subseteq># tw_out tw \<and> tw_like tw tw' \<and> tw_eState tw' = tw_next (tw_eState tw) e \<and>
    (e = SM_EVENT_SLEEP \<longrightarrow> tw_done tw' = tw_done tw)"
proof -
  define a where "a n = tw\<lparr>tw_eState := n\<rparr>" for n
  have ga: "tw_good (a n)" "tw_eState (a n) = n" "tw_out (a n) = tw_out tw" "tw_like tw (a n)" "tw_fs (a n) = tw_fs tw"
    "tElpTxnSleep (a n) = tElpTxnSleep tw" "tElpTxnAwake (a n) = tElpTxnAwake tw" "tw_elp (a n) = tw_elp tw"
    "tw_balance (tw_trace (a n)) = tw_balance (tw_trace tw)" "tw_lost (tw_trace (a n)) = tw_lost (tw_trace tw)"
    "tw_done (a n) = tw_done tw" for n
    using g by (simp_all add: a_def tw_like_def tw_elp_def tw_done_def)
  have idle: ?thesis if "tw_next (tw_eState tw) e = tw_eState tw"
  proof -
    have "twIf_HandleSmEvent bus e tw = Some (Inr tw)" using that by (cases "tw_eState tw"; cases e) (simp_all add: twIf_HandleSmEvent.simps)
    then show ?thesis using g s f that by simp
  qed
  have av: "ELP_CTRL_REG_SLEEP \<noteq> ELP_CTRL_REG_AWAKE" by (simp add: ELP_CTRL_REG_SLEEP_def ELP_CTRL_REG_AWAKE_def)
  show ?thesis
  proof (cases "tw_next (tw_eState tw) e = tw_eState tw")
    case True
    then show ?thesis by (rule idle)
  next
    case False
    then consider (sleep) "tw_eState tw = SM_STATE_AWAKE" "e = SM_EVENT_SLEEP"
      | (start) "tw_eState tw = SM_STATE_SLEEP" "e = SM_EVENT_START" | (hw) "tw_eState tw = SM_STATE_SLEEP" "e = SM_EVENT_HW_AVAILABLE"
      | (up) "tw_eState tw = SM_STATE_WAIT_HW" "e = SM_EVENT_HW_AVAILABLE"
      by (cases "tw_eState tw"; cases e) simp_all
    then show ?thesis
    proof cases
      case sleep
      obtain b where b: "tw_Stop (a SM_STATE_SLEEP) = Some (Inr b)" "tw_good b" "tw_same (a SM_STATE_SLEEP) b" "tw_out b = tw_out tw"
        "tw_fs b = FUNC_STATE_STOPPED" "tw_done b = tw_done tw" using Stop_step [OF ga(1)] ga(3,11) by metis
      obtain c where c: "twIf_WriteElpReg bus ELP_CTRL_REG_SLEEP b = Some (Inr c)" "tw_good c" "tw_out c \<subseteq># tw_out b" "tw_fs c = tw_fs b"
        "tw_eState c = tw_eState b" "tElpTxnSleep c = tElpTxnSleep b" "tElpTxnAwake c = tElpTxnAwake b"
        "uAwakeReqCount c = uAwakeReqCount b" "bTxnDoneInRecovery c = bTxnDoneInRecovery b" "tw_elp c = tHdr (tElpTxnSleep b)"
        "tw_balance (tw_trace c) = tw_balance (tw_trace b) - 1" "tw_calls (tw_trace c) = tw_calls (tw_trace b)"
        "tw_lost (tw_trace c) = tw_lost (tw_trace b)" "tw_done c = tw_done b"
        using WriteElp_step [OF b(2), of bus ELP_CTRL_REG_SLEEP] av by auto
      have "twIf_HandleSmEvent bus e tw = Some (Inr c)" using sleep b(1) c(1) by (simp add: twIf_HandleSmEvent.simps a_def)
      moreover have "tw_sm c" using s sleep b(3,5) c(4-11) ga by (simp add: tw_sm_def tw_same_def)
      moreover have "tw_like tw c" using ga(4) b(3) c(6-9,12,13) by (simp add: tw_like_def tw_same_def)
      ultimately show ?thesis using sleep b c ga(2) by (intro exI [of _ c]) (simp add: tw_same_def)
    next
      case start
      obtain c where c: "twIf_WriteElpReg bus ELP_CTRL_REG_AWAKE (a SM_STATE_WAIT_HW) = Some (Inr c)" "tw_good c"
        "tw_out c \<subseteq># tw_out tw" "tw_fs c = tw_fs tw" "tw_eState c = SM_STATE_WAIT_HW" "tElpTxnSleep c = tElpTxnSleep tw"
        "tElpTxnAwake c = tElpTxnAwake tw" "uAwakeReqCount c = uAwakeReqCount tw" "bTxnDoneInRecovery c = bTxnDoneInRecovery tw"
        "tw_elp c = tHdr (tElpTxnAwake tw)" "tw_balance (tw_trace c) = tw_balance (tw_trace tw) + 1" "tw_calls (tw_trace c) = tw_calls (tw_trace tw)"
        "tw_lost (tw_trace c) = tw_lost (tw_trace tw)"
        using WriteElp_step [OF ga(1), of bus ELP_CTRL_REG_AWAKE SM_STATE_WAIT_HW] ga by (auto simp: tw_like_def)
      have "twIf_HandleSmEvent bus e tw = Some (Inr c)" using start c(1) by (simp add: twIf_HandleSmEvent.simps a_def)
      moreover have "tw_sm c" using s start c(4-11,13) by (simp add: tw_sm_def)
      ultimately show ?thesis using start c f by (intro exI [of _ c]) (simp add: tw_like_def)
    next
      case hw
      obtain c where c: "twIf_WriteElpReg bus ELP_CTRL_REG_AWAKE (a SM_STATE_AWAKE) = Some (Inr c)" "tw_good c"
        "tw_out c \<subseteq># tw_out tw" "tw_fs c = tw_fs tw" "tw_eState c = SM_STATE_AWAKE" "tElpTxnSleep c = tElpTxnSleep tw"
        "tElpTxnAwake c = tElpTxnAwake tw" "uAwakeReqCount c = uAwakeReqCount tw" "bTxnDoneInRecovery c = bTxnDoneInRecovery tw"
        "tw_elp c = tHdr (tElpTxnAwake tw)" "tw_balance (tw_trace c) = tw_balance (tw_trace tw) + 1" "tw_calls (tw_trace c) = tw_calls (tw_trace tw)"
        "tw_lost (tw_trace c) = tw_lost (tw_trace tw)"
        using WriteElp_step [OF ga(1), of bus ELP_CTRL_REG_AWAKE SM_STATE_AWAKE] ga by (auto simp: tw_like_def)
      obtain d where d: "tw_Run bus c = Some (Inr d)" "tw_good d" "tw_same c d" "tw_out d \<subseteq># tw_out c" "tw_fs d = FUNC_STATE_RUNNING"
        "tw_elp d = tw_elp c" using Run_step [OF c(2), of bus] by blast
      have "twIf_HandleSmEvent bus e tw = Some (Inr d)" using hw c(1) d(1) by (simp add: twIf_HandleSmEvent.simps a_def)
      moreover have "tw_sm d" using s hw c(5,7,10,11,13) d(3,5,6) by (simp add: tw_sm_def tw_same_def)
      moreover have "tw_out d \<subseteq># tw_out tw" using subset_mset.order_trans [OF d(4) c(3)] .
      ultimately show ?thesis using hw c d by (intro exI [of _ d]) (simp add: tw_like_def tw_same_def)
    next
      case up
      obtain d where d: "tw_Run bus (a SM_STATE_AWAKE) = Some (Inr d)" "tw_good d" "tw_same (a SM_STATE_AWAKE) d" "tw_out d \<subseteq># tw_out tw"
        "tw_fs d = FUNC_STATE_RUNNING" "tw_elp d = tw_elp tw" using Run_step [OF ga(1), of bus SM_STATE_AWAKE] ga(3,8) by auto
      have "twIf_HandleSmEvent bus e tw = Some (Inr d)" using up d(1) by (simp add: twIf_HandleSmEvent.simps a_def)
      moreover have "tw_sm d" using s up ga d(3,5,6) by (simp add: tw_sm_def tw_same_def)
      moreover have "tw_like tw d" using ga(4) d(3) by (simp add: tw_like_def tw_same_def)
      ultimately show ?thesis using up d ga(2) by (intro exI [of _ d]) (simp add: tw_same_def)
    qed
  qed
qed

section \<open>Sending\<close>

text \<open>The state between operations when no restart waits for the bus.\<close>

definition tw_live :: "TTwIfObj \<Rightarrow> bool" where
  "tw_live tw \<longleftrightarrow> tw_good tw \<and> tw_sm tw \<and> tw_fs tw \<noteq> FUNC_STATE_RESTART \<and>
     (tw_eState tw = SM_STATE_SLEEP \<longrightarrow> tw_lost (tw_trace tw) \<or> tw_out tw = {#})"

lemma tw_live_cong:
  assumes "tElpTxnSleep a = tElpTxnSleep b" "tElpTxnAwake a = tElpTxnAwake b" "tw_hTxnDoneQueue a = tw_hTxnDoneQueue b"
    "tw_q a = tw_q b" "fRecoveryCb a = fRecoveryCb b" "uPendingTxnCount a = uPendingTxnCount b"
    "tw_books (tw_trace a) = tw_books (tw_trace b)" "tw_lost (tw_trace a) = tw_lost (tw_trace b)" "tw_balance (tw_trace a) = tw_balance (tw_trace b)" "tw_eState a = tw_eState b"
  shows "tw_live a = tw_live b"
proof -
  have "tw_elp a = tw_elp b" using assms by (simp add: tw_elp_def tw_E_def)
  then have "tw_sm a = tw_sm b" using assms by (intro tw_sm_cong) simp_all
  then show ?thesis using assms tw_good_cong [OF assms(1-8)] tw_wf_cong(1) [OF assms(1-5)] by (simp add: tw_live_def)
qed

lemma live_emit: "(\<And>M. tw_book e M = M) \<Longrightarrow> tw_balance [e] = 0 \<Longrightarrow> e \<noteq> GuardExpired \<Longrightarrow> tw_live (tw_emit e tw) = tw_live tw"
  by (rule tw_live_cong) simp_all

lemma sleep_step:
  assumes l: "tw_live tw"
  shows "\<exists>tw'. tw_sleep_if_idle bus tw = Some (Inr tw') \<and> tw_live tw' \<and> tw_like tw tw' \<and> tw_out tw' \<subseteq># tw_out tw \<and>
    tw_done tw' = tw_done tw \<and>
    (uAwakeReqCount tw' = 0 \<and> uPendingTxnCount tw' = 0 \<longrightarrow> tw_eState tw' \<noteq> SM_STATE_AWAKE)"
proof (cases "uAwakeReqCount tw = 0 \<and> uPendingTxnCount tw = 0")
  case False
  then show ?thesis using l by (auto simp: tw_sleep_if_idle_def)
next
  case True
  have g: "tw_good tw" "tw_sm tw" "tw_fs tw \<noteq> FUNC_STATE_RESTART" using l by (simp_all add: tw_live_def)
  obtain b where b: "twIf_HandleSmEvent bus SM_EVENT_SLEEP tw = Some (Inr b)" "tw_good b" "tw_sm b" "tw_fs b \<noteq> FUNC_STATE_RESTART"
    "tw_out b \<subseteq># tw_out tw" "tw_like tw b" "tw_eState b = tw_next (tw_eState tw) SM_EVENT_SLEEP"
    "tw_done b = tw_done tw"
    using SmEvent_step [OF g, of bus SM_EVENT_SLEEP] by blast
  have "tw_lost (tw_trace tw) \<or> tw_out tw = {#}" using True good_out(4) [OF g(1)] by simp
  then have "tw_lost (tw_trace b) \<or> tw_out b = {#}" using b(5,6) by (auto simp: tw_like_def)
  then have "tw_live b" using b(2,3,4) by (simp add: tw_live_def)
  moreover have "tw_eState b \<noteq> SM_STATE_AWAKE" unfolding b(7) by (cases "tw_eState tw") simp_all
  ultimately show ?thesis using True b by (intro exI [of _ b]) (simp add: tw_sleep_if_idle_def)
qed

text \<open>A transaction that may be given.\<close>

definition tw_new :: "addr \<Rightarrow> TTwIfObj \<Rightarrow> bool" where
  "tw_new x tw \<longleftrightarrow> x \<noteq> 0 \<and> x \<notin> tw_E tw \<and> x \<notin># tw_out tw \<and> size (tw_out tw) < 0xFFFFFFE0"

lemma put_step:
  assumes l: "tw_live tw" and n: "tw_new x tw" and t: "txn_wlan t"
  shows "tw_live (tw_put x t tw)" "tw_new x (tw_put x t tw)" "tw_out (tw_put x t tw) = tw_out tw" "tw_like tw (tw_put x t tw)"
    "tw_txn (tw_put x t tw) x = t"
proof -
  define a where "a = tw_put x t tw"
  have E: "tw_E a = tw_E tw" and d: "tw_done a = tw_done tw" by (simp_all add: a_def tw_put_def tw_E_def tw_done_def)
  have q: "tw_q a = (tw_q tw)\<lparr>tq_mem := (tq_mem (tw_q tw))(x := t)\<rparr>" by (simp add: a_def tw_put_def)
  have o: "tw_out a = tw_out tw" unfolding tw_out_def E d by (simp add: q)
  have tx: "tw_txn a y = (if y = x then t else tw_txn tw y)" for y by (simp add: tw_txn_def q)
  have g: "tw_wf [] tw" "tw_counted {#} [] tw" using l by (simp_all add: tw_live_def tw_good_def)
  have ok: "tq_ok (tw_E tw) (tw_q tw)" using g by (simp add: tw_wf_def)
  have ok': "tq_ok (tw_E tw) (tw_q a)" unfolding q by (rule ok_mem [OF ok]) (simp add: t ok_wlan [OF ok])
  have xn: "x \<notin> tw_E tw" "x \<notin># tw_out tw" "x \<notin> set (tw_done tw)" using n by (simp_all add: tw_new_def tw_out_def)
  have "tw_fit a (tw_out a)" using g(1) xn(2) by (auto simp: tw_wf_def tw_fit_def o E tx)
  moreover have "fRecoveryCb a = fRecoveryCb tw" "tElpTxnSleep a = tElpTxnSleep tw" "tElpTxnAwake a = tElpTxnAwake tw"
    "tw_hTxnDoneQueue a = tw_hTxnDoneQueue tw" by (simp_all add: a_def tw_put_def)
  ultimately have "tw_wf [] a" using g(1) ok' xn unfolding tw_wf_def tw_all_Nil E d tx by auto
  moreover have "tw_counted {#} [] a" using g(2) unfolding tw_counted_def tw_all_Nil o by (simp add: a_def tw_put_def)
  moreover have "tw_sm a = tw_sm tw" by (rule tw_sm_cong) (simp_all add: tw_elp_def E q, simp_all add: a_def tw_put_def)
  ultimately have "tw_live a" using l unfolding tw_live_def tw_good_def o by (simp add: q) (simp add: a_def tw_put_def)
  then show "tw_live (tw_put x t tw)" by (simp add: a_def)
  show "tw_new x (tw_put x t tw)" using n unfolding tw_new_def a_def [symmetric] E o .
  show "tw_out (tw_put x t tw) = tw_out tw" using o by (simp add: a_def)
  show "tw_like tw (tw_put x t tw)" by (simp add: tw_like_def tw_put_def)
  show "tw_txn (tw_put x t tw) x = t" using tx by (simp add: a_def)
qed

lemma Send_step:
  assumes l: "tw_live tw" and n: "tw_new x tw" and ss: "TXN_PARAM_GET_SINGLE_STEP (tw_txn tw x) = 0"
  shows "\<exists>st tw'. twIf_SendTransaction bus x tw = Some (Inr (st, tw')) \<and> tw_live tw' \<and> tw_like tw tw' \<and>
    tw_out tw' \<subseteq># add_mset x (tw_out tw)"
proof (cases "uHwAddr (tw_txn tw x) AND 3 \<noteq> 0")
  case True
  then show ?thesis using l by (intro exI [of _ TXN_STATUS_ERROR] exI [of _ tw]) (simp add: twIf_SendTransaction_def)
next
  case al: False
  let ?E = "tw_E tw"
  have g: "tw_good tw" "tw_sm tw" "tw_fs tw \<noteq> FUNC_STATE_RESTART" using l by (simp_all add: tw_live_def)
  define a where "a = tw_emit (Given x) (tw\<lparr>uPendingTxnCount := uPendingTxnCount tw + 1\<rparr>)"
  have aq: "tElpTxnSleep a = tElpTxnSleep tw" "tElpTxnAwake a = tElpTxnAwake tw" "tw_hTxnDoneQueue a = tw_hTxnDoneQueue tw"
    "tw_q a = tw_q tw" "fRecoveryCb a = fRecoveryCb tw" by (simp_all add: a_def)
  note ca = tw_wf_cong [OF aq]
  have E: "tw_E a = ?E" and d: "tw_done a = tw_done tw" and t: "tw_txn a = tw_txn tw" using aq by (auto intro!: tw_part_cong)
  have sa: "tw_same tw a" by (simp add: a_def tw_same_def)
  have wa: "tw_wf [] a" using g by (simp add: ca tw_good_def)
  have o: "tq_mine ?E (tw_q tw) + mset (tw_done tw) = tw_out tw" by (simp add: tw_out_def)
  have bk: "tw_lost (tw_trace a) \<or>
      tw_books (tw_trace a) = Some (add_mset x (tw_out tw)) \<and> unat (uPendingTxnCount a) = Suc (size (tw_out tw))"
    using good_out(3) [OF g(1)] n by (auto simp: a_def tw_new_def unat_add_small)
  have x: "x \<noteq> 0" "x \<notin> ?E" "x \<notin># tw_out tw" using n by (simp_all add: tw_new_def)
  have xq: "x \<notin># tq_all (tw_q tw)" "x \<notin> set (tw_done tw)" using x by (simp_all add: tw_out_def tq_mine_def)
  have sz: "size (tq_mine ?E (tw_q tw)) < 0xFFFFFFE0" using n by (simp add: tw_new_def tw_out_def)
  have ss': "TXN_PARAM_GET_SINGLE_STEP (tq_mem (tw_q tw) x) = 0" using ss by (simp add: tw_txn_def)
  obtain st q' new where q': "txnQ_Transact bus no_client x (tw_q tw) = Some (Inr (st, q'))" "tq_ok ?E q'" "tq_mem q' = tq_mem (tw_q tw)"
    "eState (aFuncInfo q' WLAN) = tw_fs tw" "tq_elp ?E q' = tw_elp tw"
    "tq_went {} ?E (tw_q tw) q' new (tq_mine ?E (tw_q tw) + (if st = TXN_STATUS_PENDING then {#x#} else {#}))"
    using Transact_count [OF good_out(2) [OF g(1)] x(1,2) xq(1) ss' sz, of bus] by (auto simp: tw_elp_def)
  have fo: "tw_fit tw (tw_out tw)" using good_out(1) [OF g(1)] .
  have fx: "tw_fit a (add_mset x (tw_out tw))" using fo x(2,3) n ss by (auto simp: tw_fit_def tw_new_def E t not_in_iff)
  let ?M = "tq_mine ?E (tw_q tw) + (if st = TXN_STATUS_PENDING then {#x#} else {#})"
  let ?R = "if st = TXN_STATUS_PENDING then {#} else {#x#}"
  have W: "?M + mset (tw_done tw) = tw_out tw + (if st = TXN_STATUS_PENDING then {#x#} else {#})" by (simp add: tw_out_def)
  have "tw_fit a (?M + mset (tw_done tw))" unfolding W using fx by (auto intro: tw_fit_sub)
  moreover have "tw_lost (tw_trace a) \<or> tw_books (tw_trace a) = Some (?M + mset (tw_done tw) + ?R) \<and>
      unat (uPendingTxnCount a) = size (?M + mset (tw_done tw) + ?R)" unfolding W using bk by auto
  ultimately obtain b m where b: "tw_absorb bus q' a = Inr b" "tw_wf [] b" "tw_counted ?R [] b" "tw_same a b" "tw_q b = q'\<lparr>tq_mem := m\<rparr>"
    "tw_out b \<subseteq># ?M + mset (tw_done tw)"
    using absorb_step [OF wa, of q' "{}" new ?M ?R bus] q'(2,3,6) unfolding E d aq(4) by auto
  have tr: "tw_Transact bus x a = Some (Inr (st, b))" using ss xq(2) q'(1) b(1) by (simp add: tw_Transact_def t tw_txn_def aq tw_done_def)
  have sb: "tw_same tw b" using tw_same_trans [OF sa b(4)] .
  have smb: "tw_fs b = tw_fs tw" "tw_elp b = tw_elp tw" using b(5) q'(4,5) tw_same_E [OF sb] by (simp_all add: tw_elp_def)
  define c where "c = b\<lparr>uDbgCountTxn := uDbgCountTxn b + 1,
      uDbgCountTxnComplete := uDbgCountTxnComplete b + (if st = TXN_STATUS_COMPLETE then 1 else 0),
      uDbgCountTxnPending := uDbgCountTxnPending b + (if st = TXN_STATUS_PENDING then 1 else 0)\<rparr>"
  have cq: "tElpTxnSleep c = tElpTxnSleep b" "tElpTxnAwake c = tElpTxnAwake b" "tw_hTxnDoneQueue c = tw_hTxnDoneQueue b"
    "tw_q c = tw_q b" "fRecoveryCb c = fRecoveryCb b" "tw_trace c = tw_trace b" "uPendingTxnCount c = uPendingTxnCount b"
    "tw_eState c = tw_eState b" "uAwakeReqCount c = uAwakeReqCount b" "bTxnDoneInRecovery c = bTxnDoneInRecovery b"
    by (simp_all add: c_def)
  note cc = tw_wf_cong [OF cq(1-5)]
  show ?thesis
  proof (cases "st = TXN_STATUS_PENDING")
    case True
    have gc: "tw_good c" using b(2,3) True by (simp add: tw_good_def cc tw_counted_def cq)
    have "tw_sm c = tw_sm tw" using sb smb by (intro tw_sm_cong) (simp_all add: cq tw_elp_def tw_E_def tw_same_def)
    then have sc: "tw_sm c" "tw_fs c \<noteq> FUNC_STATE_RESTART" using g(2,3) smb by (simp_all add: cq)
    obtain e where e: "twIf_HandleSmEvent bus SM_EVENT_START c = Some (Inr e)" "tw_good e" "tw_sm e" "tw_fs e \<noteq> FUNC_STATE_RESTART"
      "tw_out e \<subseteq># tw_out c" "tw_like c e" "tw_eState e = tw_next (tw_eState c) SM_EVENT_START"
      using SmEvent_step [OF gc sc, of bus SM_EVENT_START] by blast
    have "tw_eState e \<noteq> SM_STATE_SLEEP" unfolding e(7) by (cases "tw_eState c") simp_all
    then have "tw_live e" using e(2,3,4) by (simp add: tw_live_def)
    moreover have "twIf_SendTransaction bus x tw = Some (Inr (st, e))"
      using al tr e(1) True by (simp add: twIf_SendTransaction_def a_def [symmetric] c_def)
    moreover have "tw_like tw e" using sb e(6) by (simp add: tw_like_def tw_same_def cq)
    moreover have "tw_out e \<subseteq># add_mset x (tw_out tw)" using subset_mset.order_trans [OF e(5)] b(6) True unfolding W cc by simp
    ultimately show ?thesis by blast
  next
    case False
    define f where "f = tw_emit (Returned x st) (c\<lparr>uPendingTxnCount := uPendingTxnCount c - 1\<rparr>)"
    have fq: "tElpTxnSleep f = tElpTxnSleep c" "tElpTxnAwake f = tElpTxnAwake c" "tw_hTxnDoneQueue f = tw_hTxnDoneQueue c"
      "tw_q f = tw_q c" "fRecoveryCb f = fRecoveryCb c" "tw_eState f = tw_eState c" "uAwakeReqCount f = uAwakeReqCount c"
      "bTxnDoneInRecovery f = bTxnDoneInRecovery c" "tw_calls (tw_trace f) = tw_calls (tw_trace c)" by (simp_all add: f_def)
    note cf = tw_wf_cong [OF fq(1-5)]
    have ou: "tw_out f \<subseteq># tw_out tw" using b(6) False unfolding W cf cc by simp
    have cn: "tw_lost (tw_trace b) \<or> tw_books (tw_trace b) = Some (add_mset x (tw_out b)) \<and>
        unat (uPendingTxnCount b) = Suc (size (tw_out b))"
      using b(3) False by (simp add: tw_counted_def)
    have "unat (uPendingTxnCount b - 1) = size (tw_out b)" if u: "unat (uPendingTxnCount b) = Suc (size (tw_out b))"
    proof -
      have "uPendingTxnCount b \<noteq> 0" using u by auto
      then show ?thesis using u by (simp add: unat_minus_one_pos)
    qed
    then have "tw_counted {#} [] f" using cn by (simp add: tw_counted_def cf cc) (auto simp: f_def cq)
    then have gf: "tw_good f" using b(2) by (simp add: tw_good_def cf cc)
    have "tw_sm f = tw_sm tw" using sb smb by (intro tw_sm_cong) (simp_all add: fq cq tw_elp_def tw_E_def tw_same_def, simp_all add: f_def cq)
    then have "tw_sm f" using g(2) by simp
    moreover have "tw_fs f \<noteq> FUNC_STATE_RESTART" using g(3) smb by (simp add: fq cq)
    moreover have lf: "tw_lost (tw_trace f) = tw_lost (tw_trace tw)" using sb by (simp add: f_def cq tw_same_def)
    moreover have "tw_lost (tw_trace tw) \<or> tw_out f = {#}" if "tw_eState f = SM_STATE_SLEEP"
    proof -
      have "tw_lost (tw_trace tw) \<or> tw_out tw = {#}" using l sb that by (simp add: tw_live_def fq cq tw_same_def)
      then show ?thesis using ou by auto
    qed
    ultimately have "tw_live f" using gf by (simp add: tw_live_def)
    then obtain h where h: "tw_sleep_if_idle bus f = Some (Inr h)" "tw_live h" "tw_like f h" "tw_out h \<subseteq># tw_out f"
      using sleep_step by blast
    define k where "k = (if st = TXN_STATUS_ERROR then tw_err h else h)"
    have "tw_live k" "tw_like h k" "tw_out k = tw_out h" using h(2) by (simp_all add: k_def tw_err_def live_emit tw_like_def)
    moreover have "twIf_SendTransaction bus x tw = Some (Inr (st, k))"
    proof -
      have "\<not> uHwAddr (tw_txn tw x) AND 3 \<noteq> 0" using al by simp
      then have "twIf_SendTransaction bus x tw = tw_then (tw_sleep_if_idle bus f)
          (\<lambda>tw. Some (Inr (st, if st = TXN_STATUS_ERROR then tw_err tw else tw)))"
        using False by (simp only: twIf_SendTransaction_def a_def [symmetric] tr tw_then_simps prod.case Let_def
            c_def [unfolded if_not_P [OF False], symmetric] f_def [symmetric] if_False)
      then show ?thesis by (simp add: h(1) k_def)
    qed
    moreover have "tw_out h \<subseteq># add_mset x (tw_out tw)" using subset_mset.order_trans [OF subset_mset.order_trans [OF h(4) ou]] by simp
    moreover have "tw_like tw k" using sb h(3) lf \<open>tw_like h k\<close> by (simp add: tw_like_def tw_same_def fq cq)
    ultimately show ?thesis by (intro exI [of _ st] exI [of _ k]) simp
  qed
qed

section \<open>Completions and restart\<close>

text \<open>A restart waits for the transaction that the bus has.\<close>

definition tw_down :: "TTwIfObj \<Rightarrow> bool" where
  "tw_down tw \<longleftrightarrow> tw_wf [] tw \<and> tw_fs tw = FUNC_STATE_RESTART \<and> pCurrTxn (tw_q tw) \<noteq> 0 \<and> tw_eState tw = SM_STATE_SLEEP \<and>
     tw_done tw = [] \<and> uPendingTxnCount tw = 0 \<and> (tw_lost (tw_trace tw) \<or> tw_books (tw_trace tw) = Some {#}) \<and>
     tw_balance (tw_trace tw) = -1"

definition tw_inv :: "TTwIfObj \<Rightarrow> bool" where
  "tw_inv tw \<longleftrightarrow> tw_live tw \<or> tw_down tw"

lemma live_wf: "tw_live tw \<Longrightarrow> tw_wf [] tw"
  by (simp add: tw_live_def tw_good_def)

lemma inv_wf: "tw_inv tw \<Longrightarrow> tw_wf [] tw"
  by (auto simp: tw_inv_def tw_down_def live_wf)

text \<open>A change of a transaction's status.\<close>

lemma put_status:
  fixes x :: addr
  assumes wf: "tw_wf [] tw" and v: "v = TXN_PARAM_STATUS_OK \<or> v = TXN_PARAM_STATUS_ERROR"
  defines "a \<equiv> tw_put x (TXN_PARAM_SET_STATUS (tw_txn tw x) v) tw"
  shows "tw_wf [] a" "tw_out a = tw_out tw" "tw_E a = tw_E tw" "tw_done a = tw_done tw"
    "tw_q a = (tw_q tw)\<lparr>tq_mem := (tq_mem (tw_q tw))(x := TXN_PARAM_SET_STATUS (tw_txn tw x) v)\<rparr>" "tw_same tw a"
    "tw_trace a = tw_trace tw" "uPendingTxnCount a = uPendingTxnCount tw"
    "TXN_PARAM_GET_STATUS (tw_txn a x) \<noteq> TXN_PARAM_STATUS_RECOVERY"
proof -
  let ?t = "TXN_PARAM_SET_STATUS (tw_txn tw x) v"
  have v3: "v = TXN_PARAM_STATUS_OK \<or> v = TXN_PARAM_STATUS_ERROR \<or> v = TXN_PARAM_STATUS_RECOVERY" using v by blast
  note sf = set_status_fields [OF v3]
  show E: "tw_E a = tw_E tw" and d: "tw_done a = tw_done tw" by (simp_all add: a_def tw_put_def tw_E_def tw_done_def)
  show q: "tw_q a = (tw_q tw)\<lparr>tq_mem := (tq_mem (tw_q tw))(x := ?t)\<rparr>" by (simp add: a_def tw_put_def)
  show o: "tw_out a = tw_out tw" unfolding tw_out_def E d by (simp add: q)
  have tx: "tw_txn a y = (if y = x then ?t else tw_txn tw y)" for y by (simp add: tw_txn_def q)
  have f: "TXN_PARAM_GET_SINGLE_STEP (tw_txn a y) = TXN_PARAM_GET_SINGLE_STEP (tw_txn tw y)" "fTxnDoneCb (tw_txn a y) = fTxnDoneCb (tw_txn tw y)" for y
    by (simp_all add: tx sf)
  have ok: "tq_ok (tw_E tw) (tw_q tw)" using wf by (simp add: tw_wf_def)
  have "txn_wlan ?t" using ok_wlan [OF ok, of x] by (simp add: txn_wlan_def sf tw_txn_def)
  then have ok': "tq_ok (tw_E tw) (tw_q a)" unfolding q by (intro ok_mem [OF ok]) (simp add: ok_wlan [OF ok])
  have "tw_fit a W = tw_fit tw W" for W by (simp add: tw_fit_def E f)
  then show "tw_wf [] a" using wf ok' unfolding tw_wf_def tw_all_Nil E d f o by (simp add: a_def tw_put_def)
  show "tw_same tw a" "tw_trace a = tw_trace tw" "uPendingTxnCount a = uPendingTxnCount tw" by (simp_all add: a_def tw_put_def tw_same_def)
  show "TXN_PARAM_GET_STATUS (tw_txn a x) \<noteq> TXN_PARAM_STATUS_RECOVERY"
    using v status_distinct by (metis tx sf(4))
qed

lemma BusDone_live:
  assumes l: "tw_live tw" and x: "pCurrTxn (tw_q tw) \<noteq> 0"
  shows "\<exists>tw'. tw_BusDone bus e tw = Some (Inr tw') \<and> tw_live tw' \<and> tw_like tw tw' \<and> tw_out tw' \<subseteq># tw_out tw"
proof -
  let ?x = "pCurrTxn (tw_q tw)" and ?E = "tw_E tw"
  define v where "v = (if e then TXN_PARAM_STATUS_ERROR else TXN_PARAM_STATUS_OK)"
  have v: "v = TXN_PARAM_STATUS_OK \<or> v = TXN_PARAM_STATUS_ERROR" by (simp add: v_def)
  define a where "a = tw_put ?x (TXN_PARAM_SET_STATUS (tw_txn tw ?x) v) tw"
  note p = put_status [OF live_wf [OF l] v, of ?x, folded a_def]
  have ok: "tq_ok ?E (tw_q a)" using p(1,3) by (simp add: tw_wf_def)
  have qa: "pCurrTxn (tw_q a) = ?x" "tw_fs a = tw_fs tw" "tq_elp ?E (tw_q a) = tw_elp tw" "tq_mine ?E (tw_q a) = tq_mine ?E (tw_q tw)"
    by (simp_all add: p(5) tw_elp_def)
  have f: "tw_fs a \<noteq> FUNC_STATE_RESTART" using l qa by (simp add: tw_live_def)
  obtain q' new where q': "txnQ_TxnDoneCb bus no_client ?x (tw_q a) = Some (Inr q')" "tq_ok ?E q'" "tq_mem q' = tq_mem (tw_q a)"
    "eState (aFuncInfo q' WLAN) = tw_fs a" "tq_elp ?E q' = tq_elp ?E (tw_q a)" "tq_went {?x} ?E (tw_q a) q' new (tq_mine ?E (tw_q a))"
    using TxnDoneCb_count [OF ok qa(1) x f, of bus] by blast
  have o: "tq_mine ?E (tw_q a) + mset (tw_done tw) = tw_out tw" by (simp add: tw_out_def qa)
  have g: "tw_good tw" using l by (simp add: tw_live_def)
  have fit: "tw_fit a (tw_out tw)" using p(1,2) by (simp add: tw_wf_def)
  obtain b m where b: "tw_absorb bus q' a = Inr b" "tw_wf [] b" "tw_counted {#} [] b" "tw_same a b" "tw_q b = q'\<lparr>tq_mem := m\<rparr>"
    "tw_out b \<subseteq># tw_out tw"
    using absorb_step [OF p(1), of q' "{?x}" new "tq_mine ?E (tw_q a)" "{#}" bus] q'(2,3,6) fit good_out [OF g] p(9)
    unfolding p(3,4,7,8) o by auto
  have sb: "tw_same tw b" using tw_same_trans [OF p(6) b(4)] .
  have "tw_sm b = tw_sm tw"
    using sb b(5) q'(4,5) qa tw_same_E [OF sb] by (intro tw_sm_cong) (simp_all add: tw_same_def tw_elp_def)
  moreover have "tw_lost (tw_trace b) \<or> tw_out b = {#}" if "tw_eState b = SM_STATE_SLEEP"
  proof -
    have "tw_lost (tw_trace b) \<or> tw_out tw = {#}" using l sb that by (simp add: tw_live_def tw_same_def)
    then show ?thesis using b(6) by auto
  qed
  ultimately have "tw_live b" using l b(2,3,5) q'(4) qa by (simp add: tw_live_def tw_good_def)
  moreover have "tw_BusDone bus e tw = Some (Inr b)"
    using q'(1) b(1) by (simp add: tw_BusDone_def Let_def v_def [symmetric] a_def [symmetric])
  ultimately show ?thesis using b(6) tw_like_same [OF sb] by blast
qed

text \<open>The completion that a restart waits for: everything is dropped, and the driver's context is asked to tell.\<close>

lemma BusDone_down:
  assumes dn: "tw_down tw"
  shows "\<exists>tw'. tw_BusDone bus e tw = Some (Inr tw') \<and> tw_live tw' \<and> bTxnDoneInRecovery tw' \<and> tw_out tw' = {#} \<and>
    tw_E tw' = tw_E tw \<and> tw_calls (tw_trace tw') = tw_calls (tw_trace tw)"
proof -
  let ?x = "pCurrTxn (tw_q tw)" and ?E = "tw_E tw"
  define v where "v = (if e then TXN_PARAM_STATUS_ERROR else TXN_PARAM_STATUS_OK)"
  have v: "v = TXN_PARAM_STATUS_OK \<or> v = TXN_PARAM_STATUS_ERROR" by (simp add: v_def)
  define a where "a = tw_put ?x (TXN_PARAM_SET_STATUS (tw_txn tw ?x) v) tw"
  have wf: "tw_wf [] tw" and x: "?x \<noteq> 0" and dd: "tw_done tw = []" using dn by (simp_all add: tw_down_def)
  note p = put_status [OF wf v, of ?x, folded a_def]
  have ok: "tq_ok ?E (tw_q a)" using p(1,3) by (simp add: tw_wf_def)
  have qa: "pCurrTxn (tw_q a) = ?x" "tw_fs a = FUNC_STATE_RESTART" using dn by (simp_all add: p(5) tw_down_def)
  obtain q' f h where q': "txnQ_TxnDoneCb bus no_client ?x (tw_q a) = Some (Inr q')" "tq_ok ?E q'"
    "tq_mem q' = (tq_mem (tw_q a))(?x := TXN_PARAM_SET_STATUS (tq_mem (tw_q a) ?x) TXN_PARAM_STATUS_RECOVERY)"
    "eState (aFuncInfo q' WLAN) = FUNC_STATE_RUNNING" "tq_all q' = {#}"
    "tq_trace q' = tq_trace (tw_q a) @ [Cleared WLAN, TxnDoneCb f h ?x, BusDone ?x]"
    using TxnDoneCb_restart_count [OF ok qa(1) x qa(2), of bus] by blast
  define c where "c = a\<lparr>tw_q := q', uDbgCountTxnDoneCb := uDbgCountTxnDoneCb a + 1\<rparr>"
  define b where "b = tw_emit (Scheduled (uContextId c)) (c\<lparr>bTxnDoneInRecovery := True\<rparr>)"
  have tx: "TXN_PARAM_GET_STATUS (tw_txn c ?x) = TXN_PARAM_STATUS_RECOVERY" by (simp add: c_def tw_txn_def q'(3))
  have fr: "fRecoveryCb c \<noteq> 0" using p(1) by (simp add: c_def tw_wf_def)
  have ab: "tw_absorb bus q' a = Inr b"
    using tx fr by (simp add: tw_absorb_def q'(6) twIf_TxnDoneCb_def Let_def c_def b_def)
  have E: "tw_E b = ?E" and d: "tw_done b = []" using p(3,4) dd by (simp_all add: b_def c_def tw_E_def tw_done_def)
  have o: "tw_out b = {#}" unfolding tw_out_def E d using q'(5) by (simp add: b_def c_def tq_mine_def)
  have s: "TXN_PARAM_GET_SINGLE_STEP (tw_txn b y) = TXN_PARAM_GET_SINGLE_STEP (tw_txn a y)" for y
    by (simp add: b_def c_def tw_txn_def q'(3))
  have "tw_wf [] b" using p(1) q'(2) unfolding tw_wf_def tw_all_Nil E d o p(3) s by (simp add: tw_fit_def) (simp add: b_def c_def)
  moreover have bt: "tw_trace b = tw_trace tw @ [Scheduled (uContextId c)]" "uPendingTxnCount b = uPendingTxnCount tw" "tw_eState b = tw_eState tw"
    "tw_fs b = FUNC_STATE_RUNNING" using p(6-8) q'(4) by (simp_all add: b_def c_def tw_same_def)
  ultimately have "tw_live b" using dn by (simp add: tw_live_def tw_good_def tw_counted_def o tw_sm_def tw_down_def)
  moreover have "tw_BusDone bus e tw = Some (Inr b)"
    using q'(1) ab by (simp add: tw_BusDone_def Let_def v_def [symmetric] a_def [symmetric])
  ultimately show ?thesis using o E bt by (intro exI [of _ b]) (simp add: b_def)
qed

text \<open>The queues cleared, whatever the bus has.\<close>

lemma Clear_ok:
  assumes ok: "tq_ok E q"
  shows "\<exists>q'. txnQ_ClearQueues WLAN q = Inr q' \<and> tq_ok E q' \<and> tq_mem q' = tq_mem q \<and>
    eState (aFuncInfo q' WLAN) = FUNC_STATE_RUNNING \<and> tq_mine E q' \<subseteq># tq_mine E q \<and> pCurrTxn q' = pCurrTxn q"
proof -
  have i: "tq_inv q" "tq_roomy q" "tq_items (hTxnDoneQueue q) = []" "\<not> bSchedulerBusy q" "\<not> bSchedulerPend q" "0 \<notin> E" "tq_sound E q"
    using ok by (simp_all add: tq_ok_def tq_settled_def)
  obtain q' where q': "txnQ_ClearQueues WLAN q = Inr q'" "tq_inv q'" "tq_roomy q'" "tq_waiting q' = []" "tq_single q' = 0"
    "pCurrTxn q' = pCurrTxn q" "hTxnDoneQueue q' = hTxnDoneQueue q" "tq_idle q'" "tq_mem q' = tq_mem q"
    "eState (aFuncInfo q' WLAN) = FUNC_STATE_RUNNING" "bSchedulerBusy q' = bSchedulerBusy q" "bSchedulerPend q' = bSchedulerPend q"
    using ClearQueues_count [OF i(1,2)] by blast
  have all: "tq_all q' \<subseteq># tq_all q" using q'(4-7) i(3) by (simp add: tq_all_def tq_one_def)
  have "tq_sound E q'" using i(3) q'(7) by (intro tq_sound_sub [OF i(7) all]) simp
  then have "tq_ok E q'" using q' i by (simp add: tq_ok_def tq_settled_def tq_elp_ok_def)
  moreover have "tq_mine E q' \<subseteq># tq_mine E q" unfolding tq_mine_def by (rule multiset_filter_mono [OF all])
  ultimately show ?thesis using q'(1,6,9,10) by blast
qed

text \<open>Restart, in any state.\<close>

lemma Clear_done:
  "tw_hTxnDoneQueue tw = TqLive Q \<Longrightarrow> uPendingTxnCount tw = 0 \<Longrightarrow>
   twIf_ClearTxnDoneQueue tw = Inr (tw\<lparr>tw_hTxnDoneQueue := TqLive (Q\<lparr>aq_items := []\<rparr>)\<rparr>)"
proof (induction "aq_items Q" arbitrary: Q tw)
  case Nil
  then show ?case by (subst twIf_ClearTxnDoneQueue.simps) (simp add: tw_done_deq_def tq_deq_def aq_Dequeue_def)
next
  case (Cons x xs)
  define a where "a = tw\<lparr>tw_hTxnDoneQueue := TqLive (Q\<lparr>aq_items := xs\<rparr>)\<rparr>"
  have d: "tw_done_deq tw = Inr (Some x, a)" using Cons(3) Cons(2) [symmetric] by (simp add: tw_done_deq_def tq_deq_def aq_Dequeue_def a_def)
  have "tw_one_less a = a" using Cons(4) by (simp add: tw_one_less_def a_def)
  then have "twIf_ClearTxnDoneQueue tw = twIf_ClearTxnDoneQueue a" using d by (subst twIf_ClearTxnDoneQueue.simps) simp
  also have "\<dots> = Inr (a\<lparr>tw_hTxnDoneQueue := TqLive (Q\<lparr>aq_items := []\<rparr>)\<rparr>)"
    using Cons(1) [of "Q\<lparr>aq_items := xs\<rparr>" a] Cons(4) by (simp add: a_def)
  finally show ?case by (simp add: a_def)
qed

text \<open>A queue without transactions of the clients.\<close>

lemma empty_live:
  assumes wf: "tw_wf [] tw" and b: "tw_hTxnDoneQueue b = TqLive Q" "aq_items Q = []" "aq_limit Q = 0xFFFFFFFF"
    "tq_ok (tw_E tw) (tw_q b)" "tq_all (tw_q b) = {#}" "tq_mem (tw_q b) = tq_mem (tw_q tw)" "tw_fs b = FUNC_STATE_RUNNING"
    "tElpTxnSleep b = tElpTxnSleep tw" "tElpTxnAwake b = tElpTxnAwake tw" "fRecoveryCb b = fRecoveryCb tw"
    "uPendingTxnCount b = 0" "tw_eState b = SM_STATE_SLEEP" "tw_lost (tw_trace b) \<or> tw_books (tw_trace b) = Some {#}"
    "tw_balance (tw_trace b) = -1"
  shows "tw_live b" "tw_out b = {#}"
proof -
  have p: "tw_E b = tw_E tw" "tw_txn b = tw_txn tw" "tw_done b = []" using b by (simp_all add: tw_E_def tw_txn_def fun_eq_iff tw_done_def tq_items_def)
  show o: "tw_out b = {#}" unfolding tw_out_def p using b(5) by (simp add: tq_mine_def)
  have "tw_wf [] b" using wf b unfolding tw_wf_def tw_all_Nil p o by (simp add: tw_fit_def)
  then show "tw_live b" using b by (simp add: tw_live_def tw_good_def tw_counted_def o tw_sm_def)
qed

lemma Restart_any:
  assumes wf: "tw_wf [] tw" and bal: "tw_balance (tw_trace tw) = (if tw_eState tw = SM_STATE_SLEEP then -1 else 0)"
    and bk: "tw_lost (tw_trace tw) \<or> (\<exists>M. tw_books (tw_trace tw) = Some M)"
  shows "\<exists>st tw'. twIf_Restart tw = Inr (st, tw') \<and> tw_E tw' = tw_E tw \<and> tw_calls (tw_trace tw') = tw_calls (tw_trace tw) \<and>
    (if st = TXN_STATUS_PENDING then tw_down tw' else tw_live tw' \<and> tw_out tw' = {#}) \<and>
    (pCurrTxn (tw_q tw) = 0 \<longrightarrow> st = TXN_STATUS_COMPLETE) \<and>
    (pCurrTxn (tw_q tw) \<noteq> 0 \<longrightarrow> st = TXN_STATUS_PENDING \<and> pCurrTxn (tw_q tw') = pCurrTxn (tw_q tw)) \<and>
    tw_lost (tw_trace tw') = tw_lost (tw_trace tw)"
proof -
  obtain Q where Q: "tw_hTxnDoneQueue tw = TqLive Q" "aq_limit Q = 0xFFFFFFFF" using wf by (auto simp: tw_wf_def)
  have ok: "tq_ok (tw_E tw) (tw_q tw)" using wf by (simp add: tw_wf_def)
  define a where "a = (if tw_eState tw \<noteq> SM_STATE_SLEEP then tw_emit WakeUnlock (tw\<lparr>tw_eState := SM_STATE_SLEEP\<rparr>) else tw)
    \<lparr>uAwakeReqCount := 0, uPendingTxnCount := 0\<rparr>"
  have aq: "tElpTxnSleep a = tElpTxnSleep tw" "tElpTxnAwake a = tElpTxnAwake tw" "tw_hTxnDoneQueue a = TqLive Q"
    "tw_q a = tw_q tw" "fRecoveryCb a = fRecoveryCb tw" "uPendingTxnCount a = 0" "tw_eState a = SM_STATE_SLEEP"
    "tw_balance (tw_trace a) = -1" "tw_books (tw_trace a) = tw_books (tw_trace tw)" "tw_calls (tw_trace a) = tw_calls (tw_trace tw)"
    "tw_lost (tw_trace a) = tw_lost (tw_trace tw)"
    using Q bal by (auto simp: a_def)
  define c where "c = a\<lparr>tw_hTxnDoneQueue := TqLive (Q\<lparr>aq_items := []\<rparr>)\<rparr>"
  have cl: "twIf_ClearTxnDoneQueue a = Inr c" unfolding c_def by (rule Clear_done [OF aq(3,6)])
  obtain st q' where q': "txnQ_Restart WLAN (tw_q tw) = Inr (st, q')" "tq_ok (tw_E tw) q'" "tq_mem q' = tq_mem (tw_q tw)"
    "if pCurrTxn (tw_q tw) \<noteq> 0
     then st = TXN_STATUS_PENDING \<and> eState (aFuncInfo q' WLAN) = FUNC_STATE_RESTART \<and> pCurrTxn q' = pCurrTxn (tw_q tw) \<and>
       tq_mine (tw_E tw) q' = tq_mine (tw_E tw) (tw_q tw)
     else st = TXN_STATUS_COMPLETE \<and> eState (aFuncInfo q' WLAN) = FUNC_STATE_RUNNING \<and> tq_all q' = {#}"
    using Restart_count [OF ok] by blast
  define d where "d = tw_emit Dropped (c\<lparr>tw_q := q'\<rparr>)"
  have dq: "tElpTxnSleep d = tElpTxnSleep tw" "tElpTxnAwake d = tElpTxnAwake tw" "tw_hTxnDoneQueue d = TqLive (Q\<lparr>aq_items := []\<rparr>)"
    "tw_q d = q'" "fRecoveryCb d = fRecoveryCb tw" "uPendingTxnCount d = 0" "tw_eState d = SM_STATE_SLEEP"
    "tw_balance (tw_trace d) = -1" "tw_lost (tw_trace d) \<or> tw_books (tw_trace d) = Some {#}" "tw_calls (tw_trace d) = tw_calls (tw_trace tw)"
    "tw_lost (tw_trace d) = tw_lost (tw_trace tw)"
    using aq bk by (auto simp: d_def c_def)
  have E: "tw_E d = tw_E tw" using dq by (simp add: tw_E_def)
  show ?thesis
  proof (cases "pCurrTxn (tw_q tw) = 0")
    case True
    then have st: "st = TXN_STATUS_COMPLETE" "tw_fs d = FUNC_STATE_RUNNING" "tq_all q' = {#}" using q'(4) dq by simp_all
    have "tw_live d" "tw_out d = {#}" using empty_live [OF wf, of d "Q\<lparr>aq_items := []\<rparr>"] q'(2,3) dq Q(2) st by simp_all
    moreover have "twIf_Restart tw = Inr (st, d)"
      using cl q'(1) st by (simp add: twIf_Restart_def Let_def a_def [symmetric] d_def c_def aq)
    ultimately show ?thesis using st(1) E dq(10,11) True by simp
  next
    case False
    then have st: "st = TXN_STATUS_PENDING" "eState (aFuncInfo q' WLAN) = FUNC_STATE_RESTART" "pCurrTxn q' \<noteq> 0"
      "tq_mine (tw_E tw) q' = tq_mine (tw_E tw) (tw_q tw)" using q'(4) by simp_all
    define f where "f = tw_emit (TimerStart (hPendRestartTimer d) PEND_RESTART_TIMEOUT) (d\<lparr>bPendRestartTimerRunning := True\<rparr>)"
    have fq: "tElpTxnSleep f = tElpTxnSleep tw" "tElpTxnAwake f = tElpTxnAwake tw" "tw_hTxnDoneQueue f = TqLive (Q\<lparr>aq_items := []\<rparr>)"
      "tw_q f = q'" "fRecoveryCb f = fRecoveryCb tw" "uPendingTxnCount f = 0" "tw_eState f = SM_STATE_SLEEP"
      "tw_balance (tw_trace f) = -1" "tw_lost (tw_trace f) \<or> tw_books (tw_trace f) = Some {#}" "tw_calls (tw_trace f) = tw_calls (tw_trace tw)"
      "tw_lost (tw_trace f) = tw_lost (tw_trace tw)" "pCurrTxn q' = pCurrTxn (tw_q tw)"
      using dq q'(4) False by (simp_all add: f_def)
    have p: "tw_E f = tw_E tw" "tw_txn f = tw_txn tw" "tw_done f = []"
      using fq q'(3) by (simp_all add: tw_E_def tw_txn_def fun_eq_iff tw_done_def tq_items_def)
    have o: "tw_out f \<subseteq># tw_out tw" unfolding tw_out_def p fq st(4) by simp
    have "tw_fit tw (tw_out f)" using wf o by (auto simp: tw_wf_def intro: tw_fit_sub)
    then have "tw_fit f (tw_out f)" by (simp add: tw_fit_def p)
    then have "tw_wf [] f" using wf q'(2) Q(2) fq unfolding tw_wf_def tw_all_Nil p by simp
    then have "tw_down f" using st(2,3) fq p by (simp add: tw_down_def)
    moreover have "twIf_Restart tw = Inr (st, f)"
      using cl q'(1) st by (simp add: twIf_Restart_def Let_def a_def [symmetric] c_def aq d_def f_def)
    ultimately show ?thesis using st(1) p(1) fq(4,10-12) False by simp
  qed
qed

lemma Restart_step:
  assumes inv: "tw_inv tw"
  shows "\<exists>st tw'. twIf_Restart tw = Inr (st, tw') \<and> tw_E tw' = tw_E tw \<and> tw_calls (tw_trace tw') = tw_calls (tw_trace tw) \<and>
    (if st = TXN_STATUS_PENDING then tw_down tw' else tw_live tw' \<and> tw_out tw' = {#}) \<and>
    (pCurrTxn (tw_q tw) \<noteq> 0 \<longrightarrow> st = TXN_STATUS_PENDING \<and> pCurrTxn (tw_q tw') = pCurrTxn (tw_q tw)) \<and>
    tw_lost (tw_trace tw') = tw_lost (tw_trace tw)"
proof -
  have "tw_balance (tw_trace tw) = (if tw_eState tw = SM_STATE_SLEEP then -1 else 0)"
    using inv by (auto simp: tw_inv_def tw_live_def tw_sm_def tw_down_def)
  moreover have "tw_lost (tw_trace tw) \<or> (\<exists>M. tw_books (tw_trace tw) = Some M)"
    using inv by (auto simp: tw_inv_def tw_live_def tw_down_def dest: good_out(3))
  ultimately show ?thesis using Restart_any [OF inv_wf [OF inv]] by blast
qed

text \<open>The guard timer's handler, in any state: everything that waits is dropped, what the bus has is not.\<close>

lemma Timeout_step:
  assumes inv: "tw_inv tw"
  shows "\<exists>tw'. twIf_PendRestratTimeout tw = Inr tw' \<and> tw_live tw' \<and> tw_E tw' = tw_E tw \<and> tw_lost (tw_trace tw') \<and>
    pCurrTxn (tw_q tw') = pCurrTxn (tw_q tw) \<and> uPendingTxnCount tw' = uPendingTxnCount tw \<and> tw_eState tw' = tw_eState tw \<and>
    tw_fs tw' = FUNC_STATE_RUNNING \<and> tw_books (tw_trace tw') = map_option (\<lambda>_. {#}) (tw_books (tw_trace tw))"
proof -
  have wf: "tw_wf [] tw" by (rule inv_wf [OF inv])
  have ok: "tq_ok (tw_E tw) (tw_q tw)" using wf by (simp add: tw_wf_def)
  obtain q' where q': "txnQ_ClearQueues WLAN (tw_q tw) = Inr q'" "tq_ok (tw_E tw) q'" "tq_mem q' = tq_mem (tw_q tw)"
    "eState (aFuncInfo q' WLAN) = FUNC_STATE_RUNNING" "tq_mine (tw_E tw) q' \<subseteq># tq_mine (tw_E tw) (tw_q tw)"
    "pCurrTxn q' = pCurrTxn (tw_q tw)"
    using Clear_ok [OF ok] by blast
  define d where "d = tw_emit (RecoveryCb (fRecoveryCb tw) (hRecoveryCb tw))
    (tw_emit GuardExpired (tw\<lparr>bPendRestartTimerRunning := False, tw_q := q'\<rparr>))"
  have p: "tw_E d = tw_E tw" "tw_txn d = tw_txn tw" "tw_done d = tw_done tw"
    using q'(3) by (simp_all add: d_def tw_E_def tw_txn_def fun_eq_iff tw_done_def)
  have "tw_out d \<subseteq># tw_out tw" unfolding tw_out_def p using q'(5) by (simp add: d_def)
  then have "tw_fit tw (tw_out d)" using wf by (auto simp: tw_wf_def intro: tw_fit_sub)
  then have "tw_fit d (tw_out d)" by (simp add: tw_fit_def p)
  then have "tw_wf [] d" using wf q'(2) unfolding tw_wf_def tw_all_Nil p by (simp add: d_def)
  moreover have "tw_balance (tw_trace tw) = (if tw_eState tw = SM_STATE_SLEEP then -1 else 0)"
    using inv by (auto simp: tw_inv_def tw_live_def tw_sm_def tw_down_def)
  ultimately have "tw_live d" using q'(4) by (simp add: tw_live_def tw_good_def tw_counted_def tw_sm_def) (simp add: d_def)
  moreover have "twIf_PendRestratTimeout tw = Inr d"
    using q'(1) wf by (simp add: twIf_PendRestratTimeout_def tw_recover_def d_def tw_wf_def)
  ultimately show ?thesis using p(1) q'(4,6) by (simp add: d_def)
qed

section \<open>The operations of the interface\<close>

text \<open>What the callers keep to: a transaction is given when TwIf does not have it, and nothing that needs the
  bus is asked while a restart waits for it.\<close>

fun tw_may :: "tw_call \<Rightarrow> TTwIfObj \<Rightarrow> bool" where
  "tw_may (CallTransact x t) tw \<longleftrightarrow> tw_new x tw \<and> txn_wlan t \<and> tw_fs tw \<noteq> FUNC_STATE_RESTART"
| "tw_may (CallReadFWStatus x t) tw \<longleftrightarrow> tw_new x tw \<and> txn_wlan t \<and> tw_fs tw \<noteq> FUNC_STATE_RESTART"
| "tw_may (CallSend x t) tw \<longleftrightarrow>
     tw_new x tw \<and> txn_wlan t \<and> TXN_PARAM_GET_SINGLE_STEP t = 0 \<and> tw_fs tw \<noteq> FUNC_STATE_RESTART"
| "tw_may CallAwake tw \<longleftrightarrow> True"
| "tw_may CallSleep tw \<longleftrightarrow> True"
| "tw_may CallHwAvailable tw \<longleftrightarrow> tw_fs tw \<noteq> FUNC_STATE_RESTART"
| "tw_may CallRestart tw \<longleftrightarrow> True"
| "tw_may (CallBusDone e) tw \<longleftrightarrow> pCurrTxn (tw_q tw) \<noteq> 0"

lemma regular_fields [simp]:
  "TXN_PARAM_GET_SINGLE_STEP (tw_regular t) = 0" "txn_wlan (tw_regular t) = txn_wlan t"
  "fTxnDoneCb (tw_regular t) = fTxnDoneCb t" "uHwAddr (tw_regular t) = uHwAddr t"
proof -
  have o: "(0::u32) < 2" "(1::u32) < 2" by simp_all
  note m = txn_in_mask(5) [OF o(2)] txn_in_mask(6) [OF o(1)]
  have k: "(0x00000080 :: u32) AND 0x0000000C = 0" "(0x00000080 :: u32) AND 0x00000003 = 0"
    "(0x00000040 :: u32) AND 0x0000000C = 0" "(0x00000040 :: u32) AND 0x00000003 = 0" by simp_all
  have e: "uTxnParams (tw_regular t) = ((uTxnParams t AND NOT 0x00000040 OR push_bit 6 1) AND NOT 0x00000080) OR push_bit 7 0"
    by (simp add: tw_regular_def TXN_PARAM_SET_MORE_def TXN_PARAM_SET_SINGLE_STEP_def)
  show "TXN_PARAM_GET_SINGLE_STEP (tw_regular t) = 0"
    unfolding txn_get_defs e by (simp only: m k field_other field_read_back refl simp_thms)
  have "TXN_PARAM_GET_FUNC_ID (tw_regular t) = TXN_PARAM_GET_FUNC_ID t" "TXN_PARAM_GET_PRIORITY (tw_regular t) = TXN_PARAM_GET_PRIORITY t"
    unfolding txn_get_defs e by (simp only: m k field_other field_read_back refl simp_thms)+
  then show "txn_wlan (tw_regular t) = txn_wlan t" by (simp add: txn_wlan_def)
  show "fTxnDoneCb (tw_regular t) = fTxnDoneCb t" "uHwAddr (tw_regular t) = uHwAddr t"
    by (simp_all add: tw_regular_def TXN_PARAM_SET_MORE_def TXN_PARAM_SET_SINGLE_STEP_def)
qed

lemma wlan_addr [simp]: "txn_wlan (t\<lparr>uHwAddr := a\<rparr>) = txn_wlan t"
  by (simp add: txn_wlan_def txn_get_defs)

text \<open>The ways to give a transaction.\<close>

lemma give_step:
  assumes l: "tw_live tw" and n: "tw_new x tw" and t: "txn_wlan t" and u: "txn_wlan u" "TXN_PARAM_GET_SINGLE_STEP u = 0"
  shows "\<exists>st tw'. twIf_SendTransaction bus x (tw_put x u (tw_put x t tw)) = Some (Inr (st, tw')) \<and> tw_live tw' \<and> tw_like tw tw' \<and>
    tw_out tw' \<subseteq># add_mset x (tw_out tw)"
proof -
  note p = put_step [OF l n t]
  note q = put_step [OF p(1,2) u(1)]
  obtain st tw' where "twIf_SendTransaction bus x (tw_put x u (tw_put x t tw)) = Some (Inr (st, tw'))" "tw_live tw'"
    "tw_like (tw_put x u (tw_put x t tw)) tw'" "tw_out tw' \<subseteq># add_mset x (tw_out (tw_put x u (tw_put x t tw)))"
    using Send_step [OF q(1,2), of bus] u(2) q(5) by auto
  then show ?thesis using p(3,4) q(3,4) tw_like_trans by metis
qed

lemma put_twice: "tw_put x t (tw_put x t tw) = tw_put x t tw"
  by (simp add: tw_put_def)

lemma like_E: "tw_like a b \<Longrightarrow> tw_E b = tw_E a"
  by (simp add: tw_like_def tw_E_def)

lemma inv_fs: "tw_inv tw \<Longrightarrow> tw_fs tw \<noteq> FUNC_STATE_RESTART \<Longrightarrow> tw_live tw"
  by (auto simp: tw_inv_def tw_down_def)

text \<open>The test for sleep changes nothing while a restart waits.\<close>

lemma sleep_inv:
  assumes "tw_inv tw"
  shows "\<exists>tw'. tw_sleep_if_idle bus tw = Some (Inr tw') \<and> tw_inv tw' \<and> tw_like tw tw' \<and> tw_out tw' \<subseteq># tw_out tw \<and>
    tw_done tw' = tw_done tw \<and> (tw_live tw \<longrightarrow> tw_live tw') \<and> (uAwakeReqCount tw' = 0 \<and> uPendingTxnCount tw' = 0 \<longrightarrow> tw_eState tw' \<noteq> SM_STATE_AWAKE)"
proof (cases "tw_live tw")
  case True
  then show ?thesis using sleep_step [OF True, of bus] by (auto simp: tw_inv_def)
next
  case False
  then have "tw_eState tw = SM_STATE_SLEEP" using assms by (simp add: tw_inv_def tw_down_def)
  then show ?thesis using assms False by (intro exI [of _ tw]) (simp add: tw_sleep_if_idle_def twIf_HandleSmEvent.simps)
qed

lemma inv_awake:
  assumes "tw_inv tw"
  shows "tw_inv (tw\<lparr>uAwakeReqCount := n, uDbgCountAwake := k\<rparr>)" "tw_inv (tw\<lparr>uAwakeReqCount := n, uDbgCountSleep := k\<rparr>)"
proof -
  have "tw_live (tw\<lparr>uAwakeReqCount := n, uDbgCountAwake := k\<rparr>) = tw_live tw" "tw_live (tw\<lparr>uAwakeReqCount := n, uDbgCountSleep := k\<rparr>) = tw_live tw"
    by (rule tw_live_cong; simp)+
  moreover have "tw_wf [] (tw\<lparr>uAwakeReqCount := n, uDbgCountAwake := k\<rparr>) = tw_wf [] tw" "tw_wf [] (tw\<lparr>uAwakeReqCount := n, uDbgCountSleep := k\<rparr>) = tw_wf [] tw"
    by (rule tw_wf_cong; simp)+
  ultimately show "tw_inv (tw\<lparr>uAwakeReqCount := n, uDbgCountAwake := k\<rparr>)" "tw_inv (tw\<lparr>uAwakeReqCount := n, uDbgCountSleep := k\<rparr>)"
    using assms by (simp_all add: tw_inv_def tw_down_def tw_done_def)
qed

text \<open>No call faults or fails to return.\<close>

lemma do_step:
  assumes inv: "tw_inv tw" and may: "tw_may c tw"
  shows "\<exists>tw'. tw_do bus c tw = Some (Inr tw') \<and> tw_inv tw' \<and> tw_E tw' = tw_E tw \<and> tw_calls (tw_trace tw') = tw_calls (tw_trace tw)"
proof -
  have given: ?thesis
    if n: "tw_new x tw" "txn_wlan t" "txn_wlan u" "TXN_PARAM_GET_SINGLE_STEP u = 0" "tw_fs tw \<noteq> FUNC_STATE_RESTART"
      and e: "tw_do bus c tw = tw_then (twIf_SendTransaction bus x (tw_put x u (tw_put x t tw))) (\<lambda>(st, tw). Some (Inr tw))" for x t u
  proof -
    obtain st tw' where "twIf_SendTransaction bus x (tw_put x u (tw_put x t tw)) = Some (Inr (st, tw'))" "tw_live tw'" "tw_like tw tw'"
      using give_step [OF inv_fs [OF inv n(5)] n(1-4), of bus] by blast
    then show ?thesis using e like_E [of tw tw'] by (intro exI [of _ tw']) (simp add: tw_inv_def tw_like_def)
  qed
  have at: "tw_txn (tw_put x t tw) x = t" for x t by (simp add: tw_txn_def tw_put_def)
  show ?thesis
  proof (cases c)
    case (CallTransact x t)
    define u where "u = tw_regular (t\<lparr>uHwAddr := tw_translate (tw_put x t tw) (uHwAddr t)\<rparr>)"
    have m: "tw_new x tw" "txn_wlan t" "tw_fs tw \<noteq> FUNC_STATE_RESTART" using may CallTransact by simp_all
    have "txn_wlan u" "TXN_PARAM_GET_SINGLE_STEP u = 0" using m by (simp_all add: u_def)
    moreover have "tw_do bus c tw = tw_then (twIf_SendTransaction bus x (tw_put x u (tw_put x t tw))) (\<lambda>(st, tw). Some (Inr tw))"
      unfolding CallTransact tw_do.simps twIf_Transact_def Let_def at u_def ..
    ultimately show ?thesis by (rule given [OF m(1,2) _ _ m(3)])
  next
    case (CallReadFWStatus x t)
    have m: "tw_new x tw" "txn_wlan t" "tw_fs tw \<noteq> FUNC_STATE_RESTART" using may CallReadFWStatus by simp_all
    have "txn_wlan (tw_regular t)" "TXN_PARAM_GET_SINGLE_STEP (tw_regular t) = 0" using m by simp_all
    moreover have "tw_do bus c tw = tw_then (twIf_SendTransaction bus x (tw_put x (tw_regular t) (tw_put x t tw))) (\<lambda>(st, tw). Some (Inr tw))"
      unfolding CallReadFWStatus tw_do.simps twIf_TransactReadFWStatus_def at ..
    ultimately show ?thesis by (rule given [OF m(1,2) _ _ m(3)])
  next
    case (CallSend x t)
    have m: "tw_new x tw" "txn_wlan t" "TXN_PARAM_GET_SINGLE_STEP t = 0" "tw_fs tw \<noteq> FUNC_STATE_RESTART" using may CallSend by simp_all
    have "tw_do bus c tw = tw_then (twIf_SendTransaction bus x (tw_put x t (tw_put x t tw))) (\<lambda>(st, tw). Some (Inr tw))"
      unfolding CallSend tw_do.simps put_twice ..
    then show ?thesis by (rule given [OF m(1,2,2,3,4)])
  next
    case CallAwake
    then show ?thesis using inv_awake(1) [OF inv] by (simp add: twIf_Awake_def tw_E_def)
  next
    case CallSleep
    define a where "a = tw\<lparr>uAwakeReqCount := (if uAwakeReqCount tw > 0 then uAwakeReqCount tw - 1 else uAwakeReqCount tw),
      uDbgCountSleep := uDbgCountSleep tw + 1\<rparr>"
    have "tw_inv a" "tw_E a = tw_E tw" "tw_trace a = tw_trace tw" using inv_awake(2) [OF inv] by (simp_all add: a_def tw_E_def)
    moreover from this obtain b where "tw_sleep_if_idle bus a = Some (Inr b)" "tw_inv b" "tw_like a b" using sleep_inv by blast
    ultimately show ?thesis using CallSleep like_E [of a b]
      by (intro exI [of _ b]) (simp add: twIf_Sleep_def a_def [symmetric] tw_like_def)
  next
    case CallHwAvailable
    then have l: "tw_live tw" using inv may by (simp add: inv_fs)
    then have g: "tw_good tw" "tw_sm tw" "tw_fs tw \<noteq> FUNC_STATE_RESTART" by (simp_all add: tw_live_def)
    obtain b where b: "twIf_HandleSmEvent bus SM_EVENT_HW_AVAILABLE tw = Some (Inr b)" "tw_good b" "tw_sm b" "tw_fs b \<noteq> FUNC_STATE_RESTART"
      "tw_like tw b" "tw_eState b = tw_next (tw_eState tw) SM_EVENT_HW_AVAILABLE"
      using SmEvent_step [OF g, of bus SM_EVENT_HW_AVAILABLE] by blast
    have "tw_eState b \<noteq> SM_STATE_SLEEP" unfolding b(6) by (cases "tw_eState tw") simp_all
    then have "tw_inv b" using b by (simp add: tw_inv_def tw_live_def)
    then show ?thesis using CallHwAvailable b(1,5) like_E [OF b(5)] by (intro exI [of _ b]) (simp add: twIf_HwAvailable_def tw_like_def)
  next
    case CallRestart
    obtain st tw' where "twIf_Restart tw = Inr (st, tw')" "tw_E tw' = tw_E tw" "tw_calls (tw_trace tw') = tw_calls (tw_trace tw)"
      "if st = TXN_STATUS_PENDING then tw_down tw' else tw_live tw' \<and> tw_out tw' = {#}" using Restart_step [OF inv] by blast
    then show ?thesis using CallRestart by (intro exI [of _ tw']) (auto simp: tw_inv_def split: if_splits)
  next
    case (CallBusDone e)
    then have x: "pCurrTxn (tw_q tw) \<noteq> 0" using may by simp
    show ?thesis
    proof (cases "tw_live tw")
      case True
      obtain b where b: "tw_BusDone bus e tw = Some (Inr b)" "tw_live b" "tw_like tw b" using BusDone_live [OF True x, of bus e] by blast
      then show ?thesis using CallBusDone like_E [OF b(3)] by (intro exI [of _ b]) (simp add: tw_inv_def tw_like_def)
    next
      case False
      then have "tw_down tw" using inv by (simp add: tw_inv_def)
      then show ?thesis using BusDone_down [of tw bus e] CallBusDone by (auto simp: tw_inv_def)
    qed
  qed
qed

section \<open>The loop over the completed transactions\<close>

fun tw_legal :: "tq_bus \<Rightarrow> tw_call list \<Rightarrow> TTwIfObj \<Rightarrow> bool" where
  "tw_legal bus [] tw \<longleftrightarrow> True"
| "tw_legal bus (c # cs) tw \<longleftrightarrow> tw_may c tw \<and> (case tw_do bus c tw of Some (Inr tw') \<Rightarrow> tw_legal bus cs tw' | _ \<Rightarrow> True)"

lemma do_all_step:
  "tw_inv tw \<Longrightarrow> tw_legal bus cs tw \<Longrightarrow>
   \<exists>tw'. tw_do_all bus cs tw = Some (Inr tw') \<and> tw_inv tw' \<and> tw_E tw' = tw_E tw \<and> tw_calls (tw_trace tw') = tw_calls (tw_trace tw)"
proof (induction cs arbitrary: tw)
  case (Cons c cs)
  obtain b where b: "tw_do bus c tw = Some (Inr b)" "tw_inv b" "tw_E b = tw_E tw" "tw_calls (tw_trace b) = tw_calls (tw_trace tw)"
    using do_step [OF Cons.prems(1), of c bus] Cons.prems(2) by auto
  then show ?case using Cons.IH [OF b(2)] Cons.prems(2) by auto
qed simp

text \<open>Taking a transaction out of the done queue, with what is recorded then.\<close>

lemma take_step:
  assumes l: "tw_live tw" and d: "tw_done tw = x # xs"
  shows "\<exists>a. tw_done_deq tw = Inr (Some x, a) \<and> fTxnDoneCb (tw_txn a x) \<noteq> 0 \<and> tw_E a = tw_E tw \<and> tw_trace a = tw_trace tw \<and>
    (\<forall>e. tw_book e = tw_strike x \<and> tw_balance [e] = 0 \<and> e \<noteq> GuardExpired \<longrightarrow>
       tw_live (tw_emit e (tw_one_less a)) \<and> tw_out (tw_emit e (tw_one_less a)) = tw_out tw - {#x#} \<and> x \<in># tw_out tw)"
proof -
  have wf: "tw_wf [] tw" and g: "tw_good tw" using l by (simp_all add: tw_live_def tw_good_def)
  obtain Q where Q: "tw_hTxnDoneQueue tw = TqLive Q" "aq_limit Q = 0xFFFFFFFF" using wf by (auto simp: tw_wf_def)
  have it: "aq_items Q = x # xs" using d Q(1) by (simp add: tw_done_def tq_items_def)
  define a where "a = tw\<lparr>tw_hTxnDoneQueue := TqLive (Q\<lparr>aq_items := xs\<rparr>)\<rparr>"
  have dq: "tw_done_deq tw = Inr (Some x, a)" using Q(1) it by (simp add: tw_done_deq_def tq_deq_def aq_Dequeue_def a_def)
  have o: "tw_out tw = add_mset x (tq_mine (tw_E tw) (tw_q tw) + mset xs)" by (simp add: tw_out_def d)
  have cb: "fTxnDoneCb (tw_txn a x) \<noteq> 0" using wf d by (simp add: tw_wf_def a_def tw_txn_def)
  have E: "tw_E a = tw_E tw" by (simp add: a_def tw_E_def)
  have st: "tw_lost (tw_trace tw) \<or> tw_eState tw \<noteq> SM_STATE_SLEEP" using l o by (auto simp: tw_live_def)
  have "tw_live (tw_emit e (tw_one_less a)) \<and> tw_out (tw_emit e (tw_one_less a)) = tw_out tw - {#x#}"
    if e: "tw_book e = tw_strike x" "tw_balance [e] = 0" "e \<noteq> GuardExpired" for e
  proof -
    define b where "b = tw_emit e (tw_one_less a)"
    have bq: "tElpTxnSleep b = tElpTxnSleep tw" "tElpTxnAwake b = tElpTxnAwake tw" "tw_q b = tw_q tw" "fRecoveryCb b = fRecoveryCb tw"
      "tw_hTxnDoneQueue b = TqLive (Q\<lparr>aq_items := xs\<rparr>)" "tw_trace b = tw_trace tw @ [e]" "tw_eState b = tw_eState tw" "tw_lost (tw_trace b) = tw_lost (tw_trace tw)"
      "unat (uPendingTxnCount b) = unat (uPendingTxnCount tw) - 1" using e(3) by (simp_all add: b_def a_def)
    have p: "tw_E b = tw_E tw" "tw_txn b = tw_txn tw" "tw_done b = xs" using bq by (simp_all add: tw_E_def tw_txn_def fun_eq_iff tw_done_def tq_items_def)
    have ob: "tw_out b = tw_out tw - {#x#}" unfolding o unfolding tw_out_def p by (simp add: bq)
    have "tw_fit tw (tw_out b)" using wf unfolding ob by (auto simp: tw_wf_def intro: tw_fit_sub)
    then have f: "tw_fit b (tw_out b)" by (simp add: tw_fit_def p)
    have "tw_wf [] b" using wf Q(2) d f unfolding tw_wf_def tw_all_Nil p bq by auto
    moreover have "tw_counted {#} [] b" using good_out(3) [OF g] e(1) unfolding tw_counted_def tw_all_Nil ob bq(9) by (auto simp: bq o)
    ultimately have gb: "tw_good b" by (simp add: tw_good_def)
    have "tw_sm b = tw_sm tw" using e(2,3) by (intro tw_sm_cong) (simp_all add: bq tw_elp_def p)
    then have "tw_live b" using gb l st bq(8) by (auto simp: tw_live_def bq)
    then show ?thesis using ob by (simp add: b_def)
  qed
  moreover have "x \<in># tw_out tw" "tw_trace a = tw_trace tw" using o by (simp_all add: a_def)
  ultimately show ?thesis using dq cb E by (intro exI [of _ a] conjI allI impI) blast+
qed

definition tw_polite :: "tq_bus \<Rightarrow> tw_client \<Rightarrow> bool" where
  "tw_polite bus client \<longleftrightarrow> (\<forall>tw. tw_legal bus (client tw) tw)"

definition tw_stops :: "nat \<Rightarrow> tw_client \<Rightarrow> bool" where
  "tw_stops n client \<longleftrightarrow> (\<forall>tw. n \<le> tw_calls (tw_trace tw) \<longrightarrow> client tw = [])"

text \<open>The last thing was a failed transaction.\<close>

definition tw_failed :: "tw_event list \<Rightarrow> bool" where
  "tw_failed tr = (case rev tr of Failed x # es \<Rightarrow> True | ErrCb f h # Failed x # es \<Rightarrow> True | _ \<Rightarrow> False)"

definition tw_at_rest :: "TTwIfObj \<Rightarrow> bool" where
  "tw_at_rest tw \<longleftrightarrow> tw_done tw = [] \<and> (uAwakeReqCount tw = 0 \<and> uPendingTxnCount tw = 0 \<longrightarrow> tw_eState tw \<noteq> SM_STATE_AWAKE)"

lemma loop_step:
  assumes pol: "tw_polite bus client" and stp: "tw_stops n client"
  shows "tw_inv tw \<Longrightarrow> \<exists>tw'. tw_HandleLoop bus client tw = Some (Inr tw') \<and> tw_inv tw' \<and> tw_E tw' = tw_E tw \<and>
    (tw_failed (tw_trace tw') \<or> tw_at_rest tw')"
proof (induction tw rule: wf_induct_rule [OF wf_measures [of "[\<lambda>tw. n - tw_calls (tw_trace tw), \<lambda>tw. size (tw_out tw)]"]])
  case (1 tw)
  note inv = 1(2)
  have wf: "tw_wf [] tw" by (rule inv_wf [OF inv])
  obtain Q where Q: "tw_hTxnDoneQueue tw = TqLive Q" using wf by (auto simp: tw_wf_def)
  show ?case
  proof (cases "tw_done tw")
    case Nil
    then have d: "tw_done_deq tw = Inr (None, tw)" using Q by (simp add: tw_done_deq_def tq_deq_def aq_Dequeue_def tw_done_def tq_items_def)
    obtain b where b: "tw_sleep_if_idle bus tw = Some (Inr b)" "tw_inv b" "tw_like tw b" "tw_out b \<subseteq># tw_out tw"
      "uAwakeReqCount b = 0 \<and> uPendingTxnCount b = 0 \<longrightarrow> tw_eState b \<noteq> SM_STATE_AWAKE" "tw_done b = tw_done tw"
      using sleep_inv [OF inv, of bus] by blast
    have "tw_done b = []" using b(6) Nil by simp
    then have "tw_at_rest b" using b(5) by (simp add: tw_at_rest_def)
    moreover have "tw_HandleLoop bus client tw = Some (Inr b)" using d b(1) by (subst tw_HandleLoop.simps) simp
    ultimately show ?thesis using b(2) like_E [OF b(3)] by blast
  next
    case (Cons x xs)
    then have l: "tw_live tw" using inv by (auto simp: tw_inv_def tw_down_def)
    obtain a where a: "tw_done_deq tw = Inr (Some x, a)" "fTxnDoneCb (tw_txn a x) \<noteq> 0" "tw_E a = tw_E tw" "tw_trace a = tw_trace tw"
      "\<And>e. tw_book e = tw_strike x \<Longrightarrow> tw_balance [e] = 0 \<Longrightarrow> e \<noteq> GuardExpired \<Longrightarrow>
        tw_live (tw_emit e (tw_one_less a)) \<and> tw_out (tw_emit e (tw_one_less a)) = tw_out tw - {#x#} \<and> x \<in># tw_out tw"
      using take_step [OF l Cons] by blast
    have t: "tw_txn (tw_one_less a) x = tw_txn a x" by (simp add: tw_txn_def)
    have E1: "tw_E (tw_one_less a) = tw_E tw" using a(3) by (simp add: tw_E_def)
    show ?thesis
    proof (cases "TXN_PARAM_GET_STATUS (tw_txn a x) = TXN_PARAM_STATUS_ERROR")
      case True
      define b where "b = tw_err (tw_emit (Failed x) (tw_one_less a))"
      have "tw_live (tw_emit (Failed x) (tw_one_less a))" using a(5) [of "Failed x"] by (simp add: fun_eq_iff)
      then have "tw_live b" by (simp add: b_def tw_err_def live_emit)
      moreover have "tw_failed (tw_trace b)" "tw_E b = tw_E tw" using E1 by (simp_all add: b_def tw_err_def tw_failed_def)
      moreover have "tw_HandleLoop bus client tw = Some (Inr b)" using a(1) t True by (subst tw_HandleLoop.simps) (simp add: b_def)
      ultimately show ?thesis by (auto simp: tw_inv_def)
    next
      case False
      define e where "e = UserDoneCb (fTxnDoneCb (tw_txn a x)) (hCbHandle (tw_txn a x)) x"
      define b where "b = tw_emit e (tw_one_less a)"
      have b: "tw_live b" "tw_out b = tw_out tw - {#x#}" "x \<in># tw_out tw" using a(5) [of e] by (simp_all add: b_def e_def fun_eq_iff)
      have bc: "tw_calls (tw_trace b) = Suc (tw_calls (tw_trace tw))" "tw_E b = tw_E tw" using a(4) E1 by (simp_all add: b_def e_def)
      have ib: "tw_inv b" using b(1) by (simp add: tw_inv_def)
      have lg: "tw_legal bus (client b) b" using pol by (simp add: tw_polite_def)
      obtain c where c: "tw_do_all bus (client b) b = Some (Inr c)" "tw_inv c" "tw_E c = tw_E b" "tw_calls (tw_trace c) = tw_calls (tw_trace b)"
        using do_all_step [OF ib lg] by blast
      obtain d where d: "tw_sleep_if_idle bus c = Some (Inr d)" "tw_inv d" "tw_like c d" "tw_out d \<subseteq># tw_out c"
        using sleep_inv [OF c(2), of bus] by blast
      have dc: "tw_calls (tw_trace d) = Suc (tw_calls (tw_trace tw))" "tw_E d = tw_E tw" using d(3) c(3,4) bc like_E [OF d(3)] by (simp_all add: tw_like_def)
      have less: "n - tw_calls (tw_trace d) < n - tw_calls (tw_trace tw) \<or>
          n - tw_calls (tw_trace d) = n - tw_calls (tw_trace tw) \<and> size (tw_out d) < size (tw_out tw)"
      proof (cases "tw_calls (tw_trace tw) < n")
        case True
        then show ?thesis unfolding dc(1) by arith
      next
        case no: False
        then have "client b = []" using stp bc by (simp add: tw_stops_def)
        then have "c = b" using c(1) by simp
        then have "size (tw_out d) \<le> size (tw_out tw - {#x#})" using size_mset_mono [OF d(4)] b(2) by simp
        moreover have "size (tw_out tw - {#x#}) < size (tw_out tw)" using b(3) by (rule size_Diff1_less)
        ultimately show ?thesis using no dc by simp
      qed
      then have "(d, tw) \<in> measures [\<lambda>tw. n - tw_calls (tw_trace tw), \<lambda>tw. size (tw_out tw)]" by simp
      from 1(1) [OF this d(2)] obtain tw' where tw': "tw_HandleLoop bus client d = Some (Inr tw')" "tw_inv tw'" "tw_E tw' = tw_E d"
        "tw_failed (tw_trace tw') \<or> tw_at_rest tw'" by blast
      have "tw_HandleLoop bus client tw = tw_HandleLoop bus client d"
        using a(1,2) t False c(1) d(1) by (subst tw_HandleLoop.simps) (simp add: b_def e_def)
      then show ?thesis using tw' dc(2) by simp
    qed
  qed
qed

text \<open>Records that are not booked.\<close>

lemma tw_inv_cong:
  assumes "tElpTxnSleep a = tElpTxnSleep b" "tElpTxnAwake a = tElpTxnAwake b" "tw_hTxnDoneQueue a = tw_hTxnDoneQueue b"
    "tw_q a = tw_q b" "fRecoveryCb a = fRecoveryCb b" "uPendingTxnCount a = uPendingTxnCount b"
    "tw_books (tw_trace a) = tw_books (tw_trace b)" "tw_lost (tw_trace a) = tw_lost (tw_trace b)" "tw_balance (tw_trace a) = tw_balance (tw_trace b)" "tw_eState a = tw_eState b"
  shows "tw_inv a = tw_inv b"
  unfolding tw_inv_def tw_down_def tw_live_cong [OF assms] tw_wf_cong(4) [OF assms(1-5)] tw_part_cong(2) [OF assms(3)] assms(4,6-10) ..

lemma HandleTxnDone_step:
  assumes inv: "tw_inv tw" and cl: "tw_polite bus client" "tw_stops n client"
  shows "\<exists>tw'. twIf_HandleTxnDone bus client tw = Some (Inr tw') \<and> tw_inv tw' \<and> tw_E tw' = tw_E tw \<and>
    (bTxnDoneInRecovery tw \<or> tw_failed (tw_trace tw') \<or> tw_at_rest tw')"
proof (cases "bTxnDoneInRecovery tw")
  case False
  then show ?thesis using loop_step [OF cl inv] by (simp add: twIf_HandleTxnDone_def)
next
  case True
  define a where "a = tw\<lparr>bTxnDoneInRecovery := False\<rparr>"
  define b where "b = (if bPendRestartTimerRunning a
    then tw_emit (TimerStop (hPendRestartTimer a)) (a\<lparr>bPendRestartTimerRunning := False\<rparr>) else a)"
  define c where "c = tw_emit (RecoveryCb (fRecoveryCb b) (hRecoveryCb b)) b"
  have "tw_inv c = tw_inv tw" by (rule tw_inv_cong) (simp_all add: c_def b_def a_def)
  moreover have "fRecoveryCb b \<noteq> 0" using inv_wf [OF inv] by (simp add: b_def a_def tw_wf_def)
  then have "twIf_HandleTxnDone bus client tw = Some (Inr c)"
    using True by (simp add: twIf_HandleTxnDone_def Let_def a_def [symmetric] b_def [symmetric] tw_recover_def c_def)
  moreover have "tw_E c = tw_E tw" by (simp add: c_def b_def a_def tw_E_def)
  ultimately show ?thesis using True inv by blast
qed

section \<open>Partition\<close>

lemma new_sub:
  assumes "tw_new y tw" "tw_E b = tw_E tw" "tw_out b \<subseteq># add_mset x (tw_out tw)" "y \<noteq> x" "size (tw_out tw) + 1 < 0xFFFFFFE0"
  shows "tw_new y b"
proof -
  have "size (tw_out b) \<le> size (add_mset x (tw_out tw))" by (rule size_mset_mono [OF assms(3)])
  moreover have "y \<notin># tw_out b" using assms by (auto simp: tw_new_def dest: mset_subset_eqD)
  ultimately show ?thesis using assms(1,2,5) by (simp add: tw_new_def)
qed

lemma send_all_step:
  "tw_live tw \<Longrightarrow> distinct (map fst xs) \<Longrightarrow> size (tw_out tw) + length xs < 0xFFFFFFE0 \<Longrightarrow>
   \<forall>(x, t) \<in> set xs. tw_new x tw \<and> txn_wlan t \<and> TXN_PARAM_GET_SINGLE_STEP t = 0 \<Longrightarrow>
   \<exists>sts tw'. tw_send_all bus xs tw = Some (Inr (sts, tw')) \<and> length sts = length xs \<and> tw_live tw' \<and> tw_like tw tw'"
proof (induction xs arbitrary: tw)
  case (Cons p xs)
  obtain x t where p: "p = (x, t)" by fastforce
  have n: "tw_new x tw" "txn_wlan t" "TXN_PARAM_GET_SINGLE_STEP t = 0" using Cons.prems(4) p by auto
  obtain st b where b: "twIf_SendTransaction bus x (tw_put x t tw) = Some (Inr (st, b))" "tw_live b" "tw_like tw b"
    "tw_out b \<subseteq># add_mset x (tw_out tw)"
    using give_step [OF Cons.prems(1) n(1,2,2,3), of bus] by (auto simp: put_twice)
  have E: "tw_E b = tw_E tw" by (rule like_E [OF b(3)])
  have sz: "size (tw_out b) \<le> Suc (size (tw_out tw))" using size_mset_mono [OF b(4)] by simp
  have "\<forall>(y, u) \<in> set xs. tw_new y b \<and> txn_wlan u \<and> TXN_PARAM_GET_SINGLE_STEP u = 0"
  proof (clarify, intro conjI)
    fix y u assume y: "(y, u) \<in> set xs"
    then have "y \<noteq> x" using Cons.prems(2) p by (auto simp: image_iff)
    then show "tw_new y b" using new_sub [OF _ E b(4), of y] y Cons.prems(3,4) by auto
    show "txn_wlan u" "TXN_PARAM_GET_SINGLE_STEP u = 0" using y Cons.prems(4) by auto
  qed
  then obtain sts c where c: "tw_send_all bus xs b = Some (Inr (sts, c))" "length sts = length xs" "tw_live c" "tw_like b c"
    using Cons.IH [OF b(2)] Cons.prems(2,3) sz by auto
  then show ?case using b tw_like_trans [OF b(3) c(4)] by (intro exI [of _ "st # sts"] exI [of _ c]) (simp add: p)
qed simp

lemma partition_txn_fields [simp]:
  "txn_wlan (tw_partition_txn f s p i a)" "TXN_PARAM_GET_SINGLE_STEP (tw_partition_txn f s p i a) = 0"
  "fTxnDoneCb (tw_partition_txn f s p i a) = (if i = 6 then f else 0)" "uHwAddr (tw_partition_txn f s p i a) = a"
proof -
  have e: "uTxnParams (tw_partition_txn f s p i a) = 0x49"
    by (simp add: tw_partition_txn_def BUILD_TTxnStruct_def TXN_PARAM_SET_def txn_set_defs txn_const_defs TTxnStruct_zero_def push_bit_eq_mult)
  show "txn_wlan (tw_partition_txn f s p i a)" "TXN_PARAM_GET_SINGLE_STEP (tw_partition_txn f s p i a) = 0"
    by (simp_all add: txn_wlan_def txn_get_defs e WLAN_def MAX_PRIORITY_def drop_bit_eq_div)
  show "fTxnDoneCb (tw_partition_txn f s p i a) = (if i = 6 then f else 0)" "uHwAddr (tw_partition_txn f s p i a) = a"
    by (simp_all add: tw_partition_txn_def BUILD_TTxnStruct_def)
qed

definition tw_partition_free :: "addr \<Rightarrow> TTwIfObj \<Rightarrow> bool" where
  "tw_partition_free p tw \<longleftrightarrow> (\<forall>i < 7. tw_new (tw_partition_hdr p i) tw) \<and> size (tw_out tw) + 7 < 0xFFFFFFE0"

lemma Partition_step:
  assumes l: "tw_live tw" and fr: "p = 0 \<or> tw_partition_free p tw" and n: "4 \<le> length ps"
  shows "(\<exists>tw'. twIf_SetPartition bus f p ps tw = Some (Inr tw') \<and> tw_live tw' \<and> tw_E tw' = tw_E tw) \<or>
    p \<noteq> 0 \<and> twIf_SetPartition bus f p ps tw = Some (Inl UseAfterFree) \<and>
    (\<exists>sts b. tw_send_all bus (tw_partition_list f p (tw_save_partition ps tw)) (tw_partition_data p (tw_save_partition ps tw)) =
       Some (Inr (sts, b)) \<and> sts ! 5 \<noteq> TXN_STATUS_PENDING \<and> (\<exists>i \<in> {0..<7}. tw_holds b (tw_partition_hdr p i)))"
proof (cases "p = 0")
  case True
  have "tw_live (tw_save_partition ps tw) = tw_live tw" by (rule tw_live_cong) (simp_all add: tw_save_partition_def)
  moreover have "tw_E (tw_save_partition ps tw) = tw_E tw" by (simp add: tw_save_partition_def tw_E_def)
  ultimately show ?thesis using True l n by (simp add: twIf_SetPartition_def Let_def)
next
  case False
  then have fr: "tw_partition_free p tw" using fr by blast
  define a where "a = tw_save_partition ps tw"
  define b where "b = tw_partition_data p a"
  have eq: "tw_live b = tw_live tw"
    by (rule tw_live_cong; simp add: a_def b_def tw_save_partition_def tw_partition_data_def)
  have E: "tw_E b = tw_E tw" "tw_out b = tw_out tw"
    by (simp_all add: a_def b_def tw_save_partition_def tw_partition_data_def tw_E_def tw_out_def tw_done_def)
  have new: "tw_new x b = tw_new x tw" for x by (simp add: tw_new_def E)
  define xs where "xs = tw_partition_list f p a"
  have f: "map fst xs = map (tw_partition_hdr p) [0..<7]" by (simp add: xs_def tw_partition_list_def)
  have "inj (tw_partition_hdr p)" by (rule injI) (simp add: tw_partition_hdr_def SIZEOF_TPartitionRegTxn_def)
  then have "distinct (map fst xs)" unfolding f by (auto simp: distinct_map intro: inj_on_subset)
  moreover have "length xs = 7" by (simp add: xs_def tw_partition_list_def)
  moreover have "\<forall>(x, t) \<in> set xs. tw_new x b \<and> txn_wlan t \<and> TXN_PARAM_GET_SINGLE_STEP t = 0"
    using fr unfolding new by (auto simp: xs_def tw_partition_list_def tw_partition_free_def)
  ultimately obtain sts c where c: "tw_send_all bus xs b = Some (Inr (sts, c))" "tw_live c" "tw_like b c"
    using send_all_step [of b xs bus] l fr by (auto simp: eq E tw_partition_free_def)
  let ?e = "tw_emit (OsFree p (7 * SIZEOF_TPartitionRegTxn)) c"
  have r: "twIf_SetPartition bus f p ps tw = Some
      (if sts ! 5 = TXN_STATUS_PENDING then Inr c
       else if \<exists>i \<in> {0..<7}. tw_holds c (tw_partition_hdr p i) then Inl UseAfterFree else Inr ?e)"
    unfolding twIf_SetPartition_def Let_def a_def [symmetric] b_def [symmetric] xs_def [symmetric] using n c(1) False by simp
  have k: "tw_live ?e" "tw_E ?e = tw_E tw" "tw_E c = tw_E tw" using c(2) like_E [OF c(3)] E by (simp_all add: live_emit)
  show ?thesis
  proof (cases "sts ! 5 \<noteq> TXN_STATUS_PENDING \<and> (\<exists>i \<in> {0..<7}. tw_holds c (tw_partition_hdr p i))")
    case True
    then have "twIf_SetPartition bus f p ps tw = Some (Inl UseAfterFree)" using r by simp
    then show ?thesis using True False c(1) [unfolded xs_def b_def a_def] by blast
  next
    case ok: False
    then have "twIf_SetPartition bus f p ps tw = Some (Inr (if sts ! 5 = TXN_STATUS_PENDING then c else ?e))"
      unfolding r by auto
    then show ?thesis using k c(2) by (intro disjI1 exI [of _ "if sts ! 5 = TXN_STATUS_PENDING then c else ?e"]) simp
  qed
qed

section \<open>Reachable states\<close>

lemma elp_txn_fields:
  assumes "m = 0 \<or> m = 1"
  shows "txn_wlan (tw_elp_txn m x)" "TXN_PARAM_GET_SINGLE_STEP (tw_elp_txn m x) \<noteq> 0"
proof -
  have e: "uTxnParams (tw_elp_txn m x) = (if m = 0 then 0x89 else 0xC9)"
    using assms by (auto simp: tw_elp_txn_def BUILD_TTxnStruct_def TXN_PARAM_SET_def txn_set_defs txn_const_defs TTxnStruct_zero_def push_bit_eq_mult)
  show "txn_wlan (tw_elp_txn m x)" "TXN_PARAM_GET_SINGLE_STEP (tw_elp_txn m x) \<noteq> 0"
    using assms by (auto simp: txn_wlan_def txn_get_defs e WLAN_def MAX_PRIORITY_def drop_bit_eq_div)
qed

text \<open>The modules are created and initialized: \<open>sl\<close> and \<open>aw\<close> lie in the allocated object.\<close>

definition tw_begin :: "addr \<Rightarrow> addr \<Rightarrow> addr \<Rightarrow> u32 \<Rightarrow> addr \<Rightarrow> addr \<Rightarrow> addr \<Rightarrow> addr \<Rightarrow> TTxnQObj \<Rightarrow> fault + TTwIfObj" where
  "tw_begin c sl aw ctx tmr fCb fRec hRec q =
     (case twIf_Create c sl aw (txnQ_Init True q) of
        None \<Rightarrow> Inl NullDeref
      | Some tw \<Rightarrow> twIf_Init True ctx tmr (\<lambda>_. True) fCb fRec hRec tw)"

lemma begin_step:
  assumes q: "txnQ_Create a b mem = Some q" "\<forall>x. txn_wlan (mem x)" and c: "c \<noteq> 0" "sl \<noteq> 0" "aw \<noteq> 0" "sl \<noteq> aw" "tmr \<noteq> 0" "fCb \<noteq> 0" "fRec \<noteq> 0"
  shows "\<exists>tw. tw_begin c sl aw ctx tmr fCb fRec hRec q = Inr tw \<and> tw_live tw \<and> tw_E tw = {sl, aw} \<and> tw_out tw = {#}"
proof -
  define m where "m = mem(sl := tw_elp_txn 0 sl, aw := tw_elp_txn 1 aw)"
  have mw: "\<forall>x. txn_wlan (m x)" using q(2) elp_txn_fields(1) by (simp add: m_def)
  have qm: "txnQ_Create a b m = Some (q\<lparr>tq_mem := m\<rparr>)" using q(1) by (auto simp: txnQ_Create_def split: if_splits)
  have E: "finite {sl, aw}" "card {sl, aw} \<le> 2" "0 \<notin> {sl, aw}" using c by (auto simp: card_insert_if)
  obtain q' where q': "tq_start fCb c (q\<lparr>tq_mem := m\<rparr>) = (TI_OK, q')" "tq_ok {sl, aw} q'" "tq_all q' = {#}" "pCurrTxn q' = 0" "tq_mem q' = m"
    using start_ok [OF qm mw c(6) E, of c] by blast
  obtain t0 where t0: "twIf_Create c sl aw (txnQ_Init True q) = Some t0" using c(1) by (simp add: twIf_Create_def)
  have f0: "tw_self t0 = c" "tHdr (tElpTxnSleep t0) = sl" "tHdr (tElpTxnAwake t0) = aw" "tw_eState t0 = SM_STATE_AWAKE" "tw_trace t0 = []"
    "uPendingTxnCount t0 = 0" "tw_q t0 = (txnQ_Init True q)\<lparr>tq_mem := (tq_mem q)(sl := TTxnStruct_zero, aw := TTxnStruct_zero)\<rparr>"
    using t0 c(1) by (auto simp: twIf_Create_def txnQ_Init_def)
  define t1 where "t1 = tw_put aw (tw_elp_txn 1 aw) (tw_put sl (tw_elp_txn 0 sl) (t0\<lparr>fRecoveryCb := fRec, hRecoveryCb := hRec,
      tElpTxnSleep := (tElpTxnSleep t0)\<lparr>uElpData := ucast ELP_CTRL_REG_SLEEP\<rparr>,
      tElpTxnAwake := (tElpTxnAwake t0)\<lparr>uElpData := ucast ELP_CTRL_REG_AWAKE\<rparr>\<rparr>))
      \<lparr>tw_hTxnDoneQueue := TqLive (aq_Create 0xFFFFFFFF), uContextId := ctx, hPendRestartTimer := tmr\<rparr>"
  have qm2: "tq_mem q = mem" using q(1) by (auto simp: txnQ_Create_def split: if_splits)
  have q1: "tw_q t1 = txnQ_Init True (q\<lparr>tq_mem := m\<rparr>)"
    using c(4) by (simp add: t1_def tw_put_def f0 txnQ_Init_def m_def qm2 fun_upd_twist)
  have f1: "tElpTxnSleep t1 = (tElpTxnSleep t0)\<lparr>uElpData := ucast ELP_CTRL_REG_SLEEP\<rparr>"
    "tElpTxnAwake t1 = (tElpTxnAwake t0)\<lparr>uElpData := ucast ELP_CTRL_REG_AWAKE\<rparr>" "tw_hTxnDoneQueue t1 = TqLive (aq_Create 0xFFFFFFFF)"
    "fRecoveryCb t1 = fRec" "tw_self t1 = c" "tw_trace t1 = []" "tw_eState t1 = SM_STATE_AWAKE" "hPendRestartTimer t1 = tmr"
    by (simp_all add: t1_def tw_put_def f0)
  define t2 where "t2 = t1\<lparr>bPendRestartTimerRunning := False,
    tw_q := snd (txnQ_Open (unat TXN_FUNC_ID_WLAN) TXN_NUM_PRIORITYS fCb (tw_self t1) (\<lambda>_. True) (tw_q t1))\<rparr>"
  have n2: "TXN_NUM_PRIORITYS = MAX_PRIORITY" by (simp add: TXN_NUM_PRIORITYS_def MAX_PRIORITY_def)
  have q2: "tw_q t2 = q'" using q'(1) by (simp add: t2_def f1 q1 n2 tq_start_def)
  have f2: "tw_E t2 = {sl, aw}" "tw_done t2 = []" "tw_trace t2 = []" "tw_eState t2 = SM_STATE_AWAKE"
    by (simp_all add: t2_def f1 f0 tw_E_def tw_done_def tq_items_def aq_Create_def)
  have o: "tw_out t2 = {#}" unfolding tw_out_def f2 q2 using q'(3) by (simp add: tq_mine_def)
  have "TXN_PARAM_GET_SINGLE_STEP (tw_txn t2 x) \<noteq> 0" if "x \<in> {sl, aw}" for x
    using that elp_txn_fields(2) by (auto simp: tw_txn_def q2 q'(5) m_def)
  then have "tw_wf [] t2" using q'(2) c unfolding tw_wf_def tw_all_Nil f2 o q2
    by (simp add: tw_fit_def) (simp add: t2_def f1 f0 aq_Create_def)
  moreover have "tw_balance (tw_trace t2) = (if tw_eState t2 = SM_STATE_SLEEP then -1 else 0)" "\<exists>M. tw_books (tw_trace t2) = Some M"
    by (simp_all add: f2 tw_books_def)
  ultimately obtain st tw where r: "twIf_Restart t2 = Inr (st, tw)" "tw_E tw = tw_E t2"
    "if st = TXN_STATUS_PENDING then tw_down tw else tw_live tw \<and> tw_out tw = {#}" "pCurrTxn (tw_q t2) = 0 \<longrightarrow> st = TXN_STATUS_COMPLETE"
    using Restart_any by blast
  moreover have "st \<noteq> TXN_STATUS_PENDING" using r(4) q'(4) by (simp add: q2)
  moreover have "tw_begin c sl aw ctx tmr fCb fRec hRec q = Inr tw"
  proof -
    have "twIf_Init True ctx tmr (\<lambda>_. True) fCb fRec hRec t0 = map_sum id snd (twIf_Restart t2)"
      using c(5) by (simp add: twIf_Init_def Let_def f0 t2_def t1_def)
    then show ?thesis using t0 r(1) by (simp add: tw_begin_def)
  qed
  ultimately show ?thesis using r f2 by simp
qed

end
