(* ===== verification/TwIfProps.thy ===== *)
theory TwIfProps
  imports TwIfInv
begin

text \<open>
  The reachable states of the transaction interface, over every answer of the bus and every order of calls
  and completions, and its properties: what it reports, when the device may sleep, the wake lock, the
  address translation and the partition registers.
\<close>

section \<open>Reachable states\<close>

text \<open>The states that the module comes to. What is asked of its users is named in the rules: the calls of the
  clients, between the operations and in their callbacks, keep to \<open>tw_may\<close> (a transaction is given when
  neither TwIf nor the queue nor the bus has it, and nothing that needs the bus is asked while a restart
  waits for it) and the callbacks stop making calls after some time; the partition is set when no restart
  waits, and its memory is new. The bus completes the transaction it has at any time, and the handler of the
  guard timer runs at any time, so also when a restart waits for a transaction that the bus has.\<close>

inductive tw_reach :: "TTwIfObj \<Rightarrow> bool" where
  tw_reach_start: "txnQ_Create a b mem = Some q \<Longrightarrow> \<forall>x. txn_wlan (mem x) \<Longrightarrow> c \<noteq> 0 \<Longrightarrow> sl \<noteq> 0 \<Longrightarrow> aw \<noteq> 0 \<Longrightarrow> sl \<noteq> aw \<Longrightarrow>
    tmr \<noteq> 0 \<Longrightarrow> fCb \<noteq> 0 \<Longrightarrow> fRec \<noteq> 0 \<Longrightarrow> tw_begin c sl aw ctx tmr fCb fRec hRec q = Inr tw \<Longrightarrow> tw_reach tw"
| tw_reach_call: "tw_reach tw \<Longrightarrow> tw_may c tw \<Longrightarrow> tw_do bus c tw = Some (Inr tw') \<Longrightarrow> tw_reach tw'"
| tw_reach_handle: "tw_reach tw \<Longrightarrow> tw_polite bus client \<Longrightarrow> tw_stops n client \<Longrightarrow>
    twIf_HandleTxnDone bus client tw = Some (Inr tw') \<Longrightarrow> tw_reach tw'"
| tw_reach_partition: "tw_reach tw \<Longrightarrow> tw_fs tw \<noteq> FUNC_STATE_RESTART \<Longrightarrow> p = 0 \<or> tw_partition_free p tw \<Longrightarrow>
    twIf_SetPartition bus f p ps tw = Some (Inr tw') \<Longrightarrow> tw_reach tw'"
| tw_reach_partition_done: "tw_reach tw \<Longrightarrow> tw_reach (twIf_PartitionTxnDoneCb x tw)"
| tw_reach_timeout: "tw_reach tw \<Longrightarrow> twIf_PendRestratTimeout tw = Inr tw' \<Longrightarrow> tw_reach tw'"
| tw_reach_err_cb: "tw_reach tw \<Longrightarrow> tw_reach (twIf_RegisterErrCb f h tw)"

lemma tw_reach_inv: "tw_reach tw \<Longrightarrow> tw_inv tw"
proof (induction rule: tw_reach.induct)
  case (tw_reach_start a b mem q c sl aw tmr fCb fRec ctx hRec tw)
  then show ?case using begin_step [OF tw_reach_start(1-9), of ctx hRec] by (auto simp: tw_inv_def)
next
  case (tw_reach_call tw c bus tw')
  then show ?case using do_step [of tw c bus] by auto
next
  case (tw_reach_handle tw bus client n tw')
  then show ?case using HandleTxnDone_step [of tw bus client n] by auto
next
  case (tw_reach_partition tw p bus f ps tw')
  have "4 \<le> length ps" using tw_reach_partition.hyps(4) by (rule_tac ccontr) (simp add: twIf_SetPartition_def)
  then show ?case using Partition_step [of tw p ps bus f] inv_fs [of tw] tw_reach_partition by (auto simp: tw_inv_def)
next
  case (tw_reach_partition_done tw x)
  have "tw_inv (twIf_PartitionTxnDoneCb x tw) = tw_inv tw" by (rule tw_inv_cong) (simp_all add: twIf_PartitionTxnDoneCb_def)
  then show ?case using tw_reach_partition_done by simp
next
  case (tw_reach_timeout tw tw')
  then show ?case using Timeout_step [of tw] by (auto simp: tw_inv_def)
next
  case (tw_reach_err_cb tw f h)
  have "tw_inv (twIf_RegisterErrCb f h tw) = tw_inv tw" by (rule tw_inv_cong) (simp_all add: twIf_RegisterErrCb_def)
  then show ?case using tw_reach_err_cb by simp
qed

text \<open>A small run: the module is started (\<open>demo_twif\<close>), a transaction is given and the bus does not answer at
  once (\<open>demo_sent\<close>), the bus completes it (\<open>demo_done\<close>), it is reported (\<open>demo_told\<close>).\<close>

definition demo_twif :: TTwIfObj where
  "demo_twif = projr (tw_begin 100 200 300 7 400 50 60 61 (the (txnQ_Create 1 2 (\<lambda>_. demo_txn 8))))"

definition tw_slow :: tq_bus where "tw_slow = (\<lambda>tr. TXN_STATUS_PENDING)"

definition demo_call :: tw_call where
  "demo_call = CallTransact 500 ((demo_txn 8)\<lparr>fTxnDoneCb := 70, hCbHandle := 71\<rparr>)"

definition demo_sent :: TTwIfObj where "demo_sent = projr (the (tw_do tw_slow demo_call demo_twif))"
definition demo_done :: TTwIfObj where "demo_done = projr (the (tw_do tw_slow (CallBusDone False) demo_sent))"

lemma demo_twif_reach: "tw_reach demo_twif"
proof -
  have q: "txnQ_Create 1 2 (\<lambda>_. demo_txn 8) = Some (the (txnQ_Create 1 2 (\<lambda>_. demo_txn 8)))" by (simp add: txnQ_Create_def)
  have m: "\<forall>x. txn_wlan ((\<lambda>_::addr. demo_txn 8) x)" by simp
  obtain tw where tw: "tw_begin 100 200 300 7 400 50 60 61 (the (txnQ_Create 1 2 (\<lambda>_. demo_txn 8))) = Inr tw"
    using begin_step [OF q m, of 100 200 300 400 50 60 7 61] by auto
  then have "demo_twif = tw" by (simp add: demo_twif_def)
  moreover have "tw_reach tw" by (rule tw_reach_start [OF q m _ _ _ _ _ _ _ tw]) simp_all
  ultimately show ?thesis by simp
qed

lemma demo_start: "tw_out demo_twif = {#}" "tw_E demo_twif = {200, 300}" "tw_eState demo_twif = SM_STATE_SLEEP"
  "tw_fs demo_twif = FUNC_STATE_RUNNING" "GuardExpired \<notin> set (tw_trace demo_twif)"
  by code_simp+

lemma demo_kept: "\<not> tw_lost (tw_trace demo_twif)"
  using demo_start(5) by (simp add: tw_lost_def)

lemma demo_given: "tw_reach demo_sent" "tw_fs demo_sent \<noteq> FUNC_STATE_RESTART" "\<not> tw_lost (tw_trace demo_sent)"
proof -
  let ?t = "(demo_txn 8)\<lparr>fTxnDoneCb := 70, hCbHandle := 71\<rparr>"
  have w: "txn_wlan ?t" using demo_txn_wlan(1) by (simp add: txn_wlan_def txn_get_defs)
  have n: "tw_new 500 demo_twif" by (simp add: tw_new_def demo_start)
  have r: "tw_fs demo_twif \<noteq> FUNC_STATE_RESTART" by (simp add: demo_start)
  have l: "tw_live demo_twif" using inv_fs [OF tw_reach_inv [OF demo_twif_reach] r] .
  define u where "u = tw_regular (?t\<lparr>uHwAddr := tw_translate (tw_put 500 ?t demo_twif) (uHwAddr ?t)\<rparr>)"
  have u: "txn_wlan u" "TXN_PARAM_GET_SINGLE_STEP u = 0" using w by (simp_all add: u_def)
  obtain st tw' where s: "twIf_SendTransaction tw_slow 500 (tw_put 500 u (tw_put 500 ?t demo_twif)) = Some (Inr (st, tw'))" "tw_live tw'"
    "tw_like demo_twif tw'"
    using give_step [OF l n w u, of tw_slow] by blast
  have at: "tw_txn (tw_put 500 ?t demo_twif) 500 = ?t" by (simp add: tw_txn_def tw_put_def)
  have d: "tw_do tw_slow demo_call demo_twif = Some (Inr tw')"
    using s(1) unfolding demo_call_def tw_do.simps twIf_Transact_def Let_def at u_def by simp
  then have e: "demo_sent = tw'" by (simp add: demo_sent_def)
  have "tw_may demo_call demo_twif" using n w r by (simp add: demo_call_def)
  then show "tw_reach demo_sent" using tw_reach_call [OF demo_twif_reach _ d] e by simp
  show "tw_fs demo_sent \<noteq> FUNC_STATE_RESTART" using s(2) e by (simp add: tw_live_def)
  show "\<not> tw_lost (tw_trace demo_sent)" using s(3) e demo_kept by (simp add: tw_like_def)
qed

section \<open>Properties\<close>

text \<open>C7: Every transaction is reported once, as long as the guard timer of a restart has not expired: in every
  reachable state in which no restart waits for the bus and GuardExpired has not been recorded, the
  transactions given and not yet reported (by the return value, by the owner's callback, by the error
  callback, or counted off as it has no callback; a restart drops all) are exactly those that the
  transaction queue, the bus and the done queue hold, each in one place, and uPendingTxnCount is their
  number. The clients keep to tw_may: they give a transaction only when TwIf does not have it. (After the
  guard timer this is false, see twIf_timeout_forgets.)\<close>

theorem twIf_reports_each_once:
  assumes "tw_reach tw" "tw_fs tw \<noteq> FUNC_STATE_RESTART" "\<not> tw_lost (tw_trace tw)"
  shows "tw_books (tw_trace tw) = Some (tw_out tw) \<and> unat (uPendingTxnCount tw) = size (tw_out tw) \<and>
    (\<forall>x. count (tw_out tw) x \<le> 1)"
proof -
  have "tw_good tw" using inv_fs [OF tw_reach_inv [OF assms(1)] assms(2)] by (simp add: tw_live_def)
  note g = good_out(1,3) [OF this]
  have "count (tw_out tw) x \<le> 1" for x
    using g(1) by (cases "x \<in># tw_out tw") (auto simp: tw_fit_def not_in_iff)
  then show ?thesis using g assms(3) by blast
qed

theorem twIf_reports_each_once_witness:
  "tw_books (tw_trace demo_sent) = Some (tw_out demo_sent) \<and> unat (uPendingTxnCount demo_sent) = size (tw_out demo_sent)"
  using twIf_reports_each_once [OF demo_given] by blast

text \<open>C8: The device sleeps only when it may, as long as the guard timer of a restart has not expired: in every
  reachable state without GuardExpired in its record, in SLEEP (and no restart waiting) TwIf and the queue
  below it hold no transaction of a client, and if the queue is stopped the last value given for the ELP
  register is sleep; in AWAKE the queue runs, and in AWAKE and WAIT_HW the last value given is awake. The
  clients keep to tw_may. (After the guard timer this is false, see twIf_timeout_forgets.)\<close>

theorem twIf_sleeps_only_when_idle:
  assumes "tw_reach tw" "\<not> tw_lost (tw_trace tw)"
  shows "case tw_eState tw of
     SM_STATE_SLEEP \<Rightarrow> tw_fs tw = FUNC_STATE_RESTART \<or>
       tw_out tw = {#} \<and> uPendingTxnCount tw = 0 \<and> (tw_fs tw = FUNC_STATE_STOPPED \<longrightarrow> tw_elp tw = tHdr (tElpTxnSleep tw))
   | SM_STATE_AWAKE \<Rightarrow> tw_fs tw = FUNC_STATE_RUNNING \<and> tw_elp tw = tHdr (tElpTxnAwake tw)
   | SM_STATE_WAIT_HW \<Rightarrow> tw_elp tw = tHdr (tElpTxnAwake tw)"
proof (cases "tw_fs tw = FUNC_STATE_RESTART")
  case True
  then show ?thesis using tw_reach_inv [OF assms(1)] by (simp add: tw_inv_def tw_live_def tw_down_def)
next
  case False
  then have l: "tw_live tw" using tw_reach_inv [OF assms(1)] by (simp add: inv_fs)
  then show ?thesis using good_out(4) [of tw] assms(2) by (cases "tw_eState tw") (simp_all add: tw_live_def tw_sm_def)
qed

theorem twIf_sleeps_only_when_idle_witness: "tw_out demo_twif = {#} \<and> uPendingTxnCount demo_twif = 0"
  using twIf_sleeps_only_when_idle [OF demo_twif_reach demo_kept] by (simp add: demo_start)

text \<open>C28: The wake lock follows the state: in every reachable state, also after the guard timer has expired, it
  has been given back once more than taken in SLEEP (the extra one is twIf_Init's), and as often as taken in
  the other states, so no path through errors and restarts keeps the phone awake.\<close>

theorem twIf_wake_lock:
  assumes "tw_reach tw"
  shows "tw_balance (tw_trace tw) = (if tw_eState tw = SM_STATE_SLEEP then - 1 else 0)"
  using tw_reach_inv [OF assms] by (auto simp: tw_inv_def tw_live_def tw_sm_def tw_down_def)

theorem twIf_wake_lock_witness: "tw_balance (tw_trace demo_twif) = - 1"
  using twIf_wake_lock [OF demo_twif_reach] by (simp add: demo_start)

text \<open>C27: The operations return, in every reachable state and whatever the bus answers. A call that keeps to
  tw_may (one of the clients, a completion by the bus driver, a restart) returns without a fault; so does the
  handler of the completed transactions, when the calls from the callbacks keep to tw_may and stop after some
  time; so does the handler of the guard timer, at any time. The setting of the partition, with its four
  entries, new memory or none, and no restart waiting, returns too; its only fault is that the memory is freed
  by the status of the sixth transaction while one of the seven is still held.\<close>

theorem twIf_calls_return:
  assumes "tw_reach tw"
  shows "(tw_may c tw \<longrightarrow> (\<exists>tw'. tw_do bus c tw = Some (Inr tw') \<and> tw_reach tw')) \<and>
    (tw_polite bus client \<and> tw_stops n client \<longrightarrow> (\<exists>tw'. twIf_HandleTxnDone bus client tw = Some (Inr tw') \<and> tw_reach tw')) \<and>
    (\<exists>tw'. twIf_PendRestratTimeout tw = Inr tw' \<and> tw_reach tw') \<and>
    (tw_fs tw \<noteq> FUNC_STATE_RESTART \<and> (p = 0 \<or> tw_partition_free p tw) \<and> 4 \<le> length ps \<longrightarrow>
       (\<exists>tw'. twIf_SetPartition bus f p ps tw = Some (Inr tw') \<and> tw_reach tw') \<or>
       p \<noteq> 0 \<and> twIf_SetPartition bus f p ps tw = Some (Inl UseAfterFree) \<and>
         (\<exists>sts b. tw_send_all bus (tw_partition_list f p (tw_save_partition ps tw)) (tw_partition_data p (tw_save_partition ps tw)) =
            Some (Inr (sts, b)) \<and> sts ! 5 \<noteq> TXN_STATUS_PENDING \<and> (\<exists>i \<in> {0..<7}. tw_holds b (tw_partition_hdr p i))))"
proof -
  have i: "tw_inv tw" by (rule tw_reach_inv [OF assms])
  show ?thesis
  proof (intro conjI impI)
    assume m: "tw_may c tw"
    then show "\<exists>tw'. tw_do bus c tw = Some (Inr tw') \<and> tw_reach tw'"
      using do_step [OF i m, of bus] tw_reach_call [OF assms m] by blast
  next
    assume c: "tw_polite bus client \<and> tw_stops n client"
    then show "\<exists>tw'. twIf_HandleTxnDone bus client tw = Some (Inr tw') \<and> tw_reach tw'"
      using HandleTxnDone_step [OF i, of bus client n] tw_reach_handle [OF assms, of bus client n] by blast
  next
    show "\<exists>tw'. twIf_PendRestratTimeout tw = Inr tw' \<and> tw_reach tw'"
      using Timeout_step [OF i] tw_reach_timeout [OF assms] by blast
  next
    assume h: "tw_fs tw \<noteq> FUNC_STATE_RESTART \<and> (p = 0 \<or> tw_partition_free p tw) \<and> 4 \<le> length ps"
    then have "tw_live tw" using inv_fs [OF i] by blast
    from Partition_step [OF this, of p ps bus f] h
    show "(\<exists>tw'. twIf_SetPartition bus f p ps tw = Some (Inr tw') \<and> tw_reach tw') \<or>
       p \<noteq> 0 \<and> twIf_SetPartition bus f p ps tw = Some (Inl UseAfterFree) \<and>
         (\<exists>sts b. tw_send_all bus (tw_partition_list f p (tw_save_partition ps tw)) (tw_partition_data p (tw_save_partition ps tw)) =
            Some (Inr (sts, b)) \<and> sts ! 5 \<noteq> TXN_STATUS_PENDING \<and> (\<exists>i \<in> {0..<7}. tw_holds b (tw_partition_hdr p i)))"
      using tw_reach_partition [OF assms, of p bus f ps] by blast
  qed
qed

theorem twIf_calls_return_witness:
  "(\<exists>tw'. tw_do tw_slow CallRestart demo_sent = Some (Inr tw') \<and> tw_reach tw') \<and>
   (\<exists>tw'. twIf_PendRestratTimeout demo_sent = Inr tw' \<and> tw_reach tw')"
  using twIf_calls_return [OF demo_given(1), of CallRestart tw_slow] by simp

text \<open>C17: The handler of the completed transactions returns, for every client whose callbacks keep to tw_may
  and stop issuing calls, in every reachable state (also after the guard timer has expired), and unless it stopped at a failed transaction the done queue is then empty and the device is not
  kept awake when no transaction is left and nobody asked for it.\<close>

theorem twIf_HandleTxnDone_lets_sleep:
  assumes "tw_reach tw" "\<not> bTxnDoneInRecovery tw" "tw_polite bus client" "tw_stops n client"
  shows "\<exists>tw'. twIf_HandleTxnDone bus client tw = Some (Inr tw') \<and> tw_reach tw' \<and>
    (tw_failed (tw_trace tw') \<or> tw_done tw' = [] \<and>
       (uAwakeReqCount tw' = 0 \<and> uPendingTxnCount tw' = 0 \<longrightarrow> tw_eState tw' \<noteq> SM_STATE_AWAKE))"
  using HandleTxnDone_step [OF tw_reach_inv [OF assms(1)] assms(3,4)] tw_reach_handle [OF assms(1,3,4)] assms(2)
  by (auto simp: tw_at_rest_def)

text \<open>A client that asks to keep the device awake in its first callback.\<close>

definition demo_client :: tw_client where
  "demo_client = (\<lambda>tw. if tw_calls (tw_trace tw) < 2 then [CallAwake] else [])"

theorem twIf_HandleTxnDone_lets_sleep_witness:
  "\<exists>tw'. twIf_HandleTxnDone tw_slow demo_client demo_twif = Some (Inr tw') \<and> tw_reach tw'"
proof -
  have p: "tw_polite tw_slow demo_client" "tw_stops 2 demo_client"
    by (simp_all add: tw_polite_def tw_stops_def demo_client_def)
  have "\<not> bTxnDoneInRecovery demo_twif" by code_simp
  from twIf_HandleTxnDone_lets_sleep [OF demo_twif_reach this p] show ?thesis by blast
qed

text \<open>The state machine: an event moves the state as the table tw_next says, gives the ELP register the
  new value when the device is woken or put to sleep, stops the queue for sleep and runs it when the device
  is awake, and changes nothing else that the clients see.\<close>

theorem twIf_state_machine:
  assumes "tw_reach tw" "tw_fs tw \<noteq> FUNC_STATE_RESTART" "\<not> tw_lost (tw_trace tw)"
  shows "\<exists>tw'. twIf_HandleSmEvent bus e tw = Some (Inr tw') \<and> tw_eState tw' = tw_next (tw_eState tw) e \<and>
    uAwakeReqCount tw' = uAwakeReqCount tw \<and> tw_out tw' \<subseteq># tw_out tw \<and>
    (tw_eState tw' = SM_STATE_AWAKE \<longrightarrow> tw_fs tw' = FUNC_STATE_RUNNING) \<and>
    (tw_eState tw' \<noteq> SM_STATE_SLEEP \<longrightarrow> tw_elp tw' = tHdr (tElpTxnAwake tw)) \<and>
    (tw_eState tw' = SM_STATE_SLEEP \<and> tw_fs tw' = FUNC_STATE_STOPPED \<longrightarrow> tw_elp tw' = tHdr (tElpTxnSleep tw))"
proof -
  have "tw_good tw" "tw_sm tw" using inv_fs [OF tw_reach_inv [OF assms(1)] assms(2)] by (simp_all add: tw_live_def)
  then obtain tw' where t: "twIf_HandleSmEvent bus e tw = Some (Inr tw')" "tw_sm tw'" "tw_out tw' \<subseteq># tw_out tw" "tw_like tw tw'"
    "tw_eState tw' = tw_next (tw_eState tw) e"
    using SmEvent_step [OF _ _ assms(2), of bus e] by blast
  have "(tw_eState tw' = SM_STATE_AWAKE \<longrightarrow> tw_fs tw' = FUNC_STATE_RUNNING) \<and>
    (tw_eState tw' \<noteq> SM_STATE_SLEEP \<longrightarrow> tw_elp tw' = tHdr (tElpTxnAwake tw)) \<and>
    (tw_eState tw' = SM_STATE_SLEEP \<and> tw_fs tw' = FUNC_STATE_STOPPED \<longrightarrow> tw_elp tw' = tHdr (tElpTxnSleep tw))"
    using t(2,4) assms(3) by (cases "tw_eState tw'") (simp_all add: tw_sm_def tw_like_def)
  then show ?thesis using t by (intro exI [of _ tw']) (simp add: tw_like_def)
qed

theorem twIf_state_machine_witness:
  "\<exists>tw'. twIf_HandleSmEvent tw_slow SM_EVENT_HW_AVAILABLE demo_twif = Some (Inr tw') \<and> tw_eState tw' = SM_STATE_AWAKE"
proof -
  have "tw_fs demo_twif \<noteq> FUNC_STATE_RESTART" by (simp add: demo_start)
  from twIf_state_machine [OF demo_twif_reach this demo_kept, of tw_slow SM_EVENT_HW_AVAILABLE] show ?thesis by (auto simp: demo_start)
qed

text \<open>The address translation: with a memory and a registers partition that neither overlap nor wrap, the
  addresses that twIf_isValidMemoryAddr accepts are mapped to the bus window from 0 up to the memory size
  and those that twIf_isValidRegAddr accepts to the registers behind it, each by its offset; so two
  different accepted addresses never meet on the bus.\<close>

theorem twIf_translate_window:
  assumes "unat (uMemAddr1 tw) + unat (uMemSize1 tw) < 2 ^ 32" "unat (uMemAddr2 tw) + unat (uMemSize2 tw) < 2 ^ 32"
    and "unat (uMemSize1 tw) + unat (uMemSize2 tw) < 2 ^ 32"
    and "unat (uMemAddr1 tw) + unat (uMemSize1 tw) \<le> unat (uMemAddr2 tw) \<or>
      unat (uMemAddr2 tw) + unat (uMemSize2 tw) < unat (uMemAddr1 tw)"
  shows "(twIf_isValidMemoryAddr tw a 0 \<longrightarrow>
      unat (tw_translate tw a) = unat a - unat (uMemAddr1 tw) \<and> unat (tw_translate tw a) < unat (uMemSize1 tw)) \<and>
    (twIf_isValidRegAddr tw a n \<longrightarrow>
      unat (tw_translate tw a) = unat (uMemSize1 tw) + (unat a - unat (uMemAddr2 tw)) \<and>
      unat (tw_translate tw a) < unat (uMemSize1 tw) + unat (uMemSize2 tw)) \<and>
    ((twIf_isValidMemoryAddr tw a 0 \<or> twIf_isValidRegAddr tw a n) \<and> (twIf_isValidMemoryAddr tw b 0 \<or> twIf_isValidRegAddr tw b n) \<and>
      tw_translate tw a = tw_translate tw b \<longrightarrow> a = b)"
proof -
  have s1: "unat (uMemAddr1 tw + uMemSize1 tw) = unat (uMemAddr1 tw) + unat (uMemSize1 tw)"
    and s2: "unat (uMemAddr2 tw + uMemSize2 tw) = unat (uMemAddr2 tw) + unat (uMemSize2 tw)"
    using assms(1,2) by (simp_all add: unat_add_small)
  have M: "twIf_isValidMemoryAddr tw x 0 \<longleftrightarrow> unat (uMemAddr1 tw) \<le> unat x \<and> unat x < unat (uMemAddr1 tw) + unat (uMemSize1 tw)" for x
    by (simp add: twIf_isValidMemoryAddr_def word_le_nat_alt word_less_nat_alt s1)
  have R: "twIf_isValidRegAddr tw x n \<longleftrightarrow> unat (uMemAddr2 tw) \<le> unat x \<and> unat x < unat (uMemAddr2 tw) + unat (uMemSize2 tw)" for x
    by (simp add: twIf_isValidRegAddr_def word_le_nat_alt word_less_nat_alt s2)
  have m: "unat (tw_translate tw x) = unat x - unat (uMemAddr1 tw)" "unat (tw_translate tw x) < unat (uMemSize1 tw)"
    if v: "twIf_isValidMemoryAddr tw x 0" for x
  proof -
    have "\<not> (uMemAddr2 tw \<le> x \<and> x \<le> uMemAddr2 tw + uMemSize2 tw)"
      using v assms(4) unfolding M word_le_nat_alt s2 by linarith
    then have "tw_translate tw x = x - uMemAddr1 tw" by (auto simp: tw_translate_def)
    then show "unat (tw_translate tw x) = unat x - unat (uMemAddr1 tw)" using v by (simp add: M unat_sub_le)
    then show "unat (tw_translate tw x) < unat (uMemSize1 tw)" using v unfolding M by linarith
  qed
  have r: "unat (tw_translate tw x) = unat (uMemSize1 tw) + (unat x - unat (uMemAddr2 tw))"
    "unat (tw_translate tw x) < unat (uMemSize1 tw) + unat (uMemSize2 tw)"
    if v: "twIf_isValidRegAddr tw x n" for x
  proof -
    have d: "unat (x - uMemAddr2 tw) = unat x - unat (uMemAddr2 tw)" using v by (simp add: R unat_sub_le)
    have "uMemAddr2 tw \<le> x \<and> x \<le> uMemAddr2 tw + uMemSize2 tw" using v unfolding R word_le_nat_alt s2 by linarith
    then have e: "tw_translate tw x = (x - uMemAddr2 tw) + uMemSize1 tw" by (simp add: tw_translate_def)
    have "unat x - unat (uMemAddr2 tw) + unat (uMemSize1 tw) < unat (uMemSize1 tw) + unat (uMemSize2 tw)" using v unfolding R by linarith
    then have "unat (x - uMemAddr2 tw) + unat (uMemSize1 tw) < 2 ^ LENGTH(32)" using assms(3) unfolding d by simp
    then have "unat (tw_translate tw x) = unat (x - uMemAddr2 tw) + unat (uMemSize1 tw)" unfolding e by (rule unat_add_small)
    then show "unat (tw_translate tw x) = unat (uMemSize1 tw) + (unat x - unat (uMemAddr2 tw))"
      "unat (tw_translate tw x) < unat (uMemSize1 tw) + unat (uMemSize2 tw)" using v unfolding R d by linarith+
  qed
  have "a = b" if v: "twIf_isValidMemoryAddr tw a 0 \<or> twIf_isValidRegAddr tw a n" "twIf_isValidMemoryAddr tw b 0 \<or> twIf_isValidRegAddr tw b n"
    and e: "tw_translate tw a = tw_translate tw b"
  proof -
    have "unat a = unat b" using v m [of a] m [of b] r [of a] r [of b] e unfolding M R by auto
    then show ?thesis by (simp add: word_unat_eq_iff)
  qed
  then show ?thesis using m [of a] r [of a] by blast
qed

text \<open>The partition of the firmware download.\<close>

definition demo_partition :: TTwIfObj where
  "demo_partition = demo_twif\<lparr>uMemAddr1 := 0, uMemSize1 := 0x177C0, uMemAddr2 := 0x300000, uMemSize2 := 0x8800\<rparr>"

theorem twIf_translate_window_witness:
  "unat (tw_translate demo_partition 0x300004) = 0x177C4 \<and> unat (tw_translate demo_partition 0x1000) = 0x1000"
proof -
  have v: "twIf_isValidRegAddr demo_partition 0x300004 4" "twIf_isValidMemoryAddr demo_partition 0x1000 0"
    by (simp_all add: twIf_isValidRegAddr_def twIf_isValidMemoryAddr_def demo_partition_def)
  have s: "unat (uMemAddr1 demo_partition) = 0" "unat (uMemSize1 demo_partition) = 0x177C0" "unat (uMemAddr2 demo_partition) = 0x300000"
    "unat (uMemSize2 demo_partition) = 0x8800" by (simp_all add: demo_partition_def)
  have h: "unat (uMemAddr1 demo_partition) + unat (uMemSize1 demo_partition) < 2 ^ 32"
    "unat (uMemAddr2 demo_partition) + unat (uMemSize2 demo_partition) < 2 ^ 32"
    "unat (uMemSize1 demo_partition) + unat (uMemSize2 demo_partition) < 2 ^ 32"
    "unat (uMemAddr1 demo_partition) + unat (uMemSize1 demo_partition) \<le> unat (uMemAddr2 demo_partition) \<or>
      unat (uMemAddr2 demo_partition) + unat (uMemSize2 demo_partition) < unat (uMemAddr1 demo_partition)" by (simp_all add: s)
  show ?thesis using twIf_translate_window [OF h, of "0x300004" 4 "0x300004"] twIf_translate_window [OF h, of "0x1000" 4 "0x1000"] v s by simp
qed

section \<open>What the model showed\<close>

text \<open>The address behind the registers is taken for one of them: with the partition of the download it is
  that of the partition registers.\<close>

lemma twIf_translate_beyond:
  "\<not> twIf_isValidRegAddr demo_partition 0x308800 4 \<and> tw_translate demo_partition 0x308800 = PARTITION_REGISTERS_ADDR"
  by (simp add: twIf_isValidRegAddr_def tw_translate_def demo_partition_def PARTITION_REGISTERS_ADDR_def)

text \<open>The checks of an access's length: the last bytes of the memory are refused, an access that wraps around
  is accepted, and so is one that starts at the last register.\<close>

lemma twIf_valid_length:
  "\<not> twIf_isValidMemoryAddr demo_partition 0x177BC 4" "twIf_isValidMemoryAddr demo_partition 0xFFFFFFF0 0x20"
  "twIf_isValidRegAddr demo_partition 0x3087FC 0x1000"
  by (simp_all add: twIf_isValidMemoryAddr_def twIf_isValidRegAddr_def demo_partition_def)

text \<open>After \<open>twIf_Init\<close> the state is SLEEP and the queue runs.\<close>

lemma twIf_asleep_and_running: "tw_reach demo_twif" "tw_eState demo_twif = SM_STATE_SLEEP" "tw_fs demo_twif = FUNC_STATE_RUNNING"
  using demo_twif_reach by (simp_all add: demo_start)

text \<open>A transaction without a callback that failed on the bus is counted off without a word.\<close>

lemma twIf_error_unreported:
  assumes "TXN_PARAM_GET_STATUS (tw_txn tw x) = TXN_PARAM_STATUS_ERROR" "fTxnDoneCb (tw_txn tw x) = 0"
    "TXN_PARAM_GET_SINGLE_STEP (tw_txn tw x) = 0"
  shows "\<exists>tw'. twIf_TxnDoneCb x tw = Inr tw' \<and> tw_trace tw' = tw_trace tw @ [Counted x, Scheduled (uContextId tw)] \<and>
    tw_hTxnDoneQueue tw' = tw_hTxnDoneQueue tw"
proof -
  have t: "tw_txn (tw\<lparr>uDbgCountTxnDoneCb := n\<rparr>) x = tw_txn tw x" for n by (simp add: tw_txn_def)
  show ?thesis using assms by (simp add: twIf_TxnDoneCb_def Let_def t tw_one_less_def)
qed

text \<open>The guard timer's handler clears the queues but not \<open>pCurrTxn\<close>: from then on nothing is sent.\<close>

lemma twIf_timeout_blocks_bus:
  assumes inv: "tw_inv tw" and x: "pCurrTxn (tw_q tw) \<noteq> 0" "y \<noteq> 0"
  shows "\<exists>tw'. twIf_PendRestratTimeout tw = Inr tw' \<and> pCurrTxn (tw_q tw') \<noteq> 0 \<and>
    (\<exists>st q'. txnQ_Transact bus no_client y (tw_q tw') = Some (Inr (st, q')) \<and> pCurrTxn q' = pCurrTxn (tw_q tw'))"
proof -
  have wf: "tw_wf [] tw" by (rule inv_wf [OF inv])
  then have ok: "tq_ok (tw_E tw) (tw_q tw)" by (simp add: tw_wf_def)
  then have i: "tq_inv (tw_q tw)" "tq_roomy (tw_q tw)" "\<not> bSchedulerBusy (tw_q tw)" "\<not> bSchedulerPend (tw_q tw)"
    by (simp_all add: tq_ok_def tq_settled_def)
  obtain q' where q': "txnQ_ClearQueues WLAN (tw_q tw) = Inr q'" "tq_inv q'" "pCurrTxn q' = pCurrTxn (tw_q tw)"
    "bSchedulerBusy q' = bSchedulerBusy (tw_q tw)" "bSchedulerPend q' = bSchedulerPend (tw_q tw)"
    using ClearQueues_count [OF i(1,2)] by blast
  obtain st q2 where q2: "txnQ_Transact bus no_client y q' = Some (Inr (st, q2))" "pCurrTxn q2 = pCurrTxn q'"
    using blocked_transact [OF q'(2) x(2), of bus no_client] x(1) q'(3-5) i(3,4) by auto
  have "fRecoveryCb tw \<noteq> 0" using wf by (simp add: tw_wf_def)
  then show ?thesis using q' q2 x(1) by (simp add: twIf_PendRestratTimeout_def tw_recover_def)
qed

text \<open>A restart while the bus has a transaction of a client, and then the guard timer: TwIf has forgotten the
  transaction that the bus still has, in SLEEP and with the queue running. It is out of the books and not
  counted as pending.\<close>

theorem twIf_timeout_forgets:
  assumes "tw_reach tw" "\<not> tw_lost (tw_trace tw)" "pCurrTxn (tw_q tw) \<notin> insert 0 (tw_E tw)"
  shows "\<exists>st a b. twIf_Restart tw = Inr (st, a) \<and> twIf_PendRestratTimeout a = Inr b \<and> tw_reach b \<and>
    pCurrTxn (tw_q tw) \<in># tw_out b \<and> tw_books (tw_trace b) = Some {#} \<and> uPendingTxnCount b = 0 \<and>
    tw_eState b = SM_STATE_SLEEP \<and> tw_fs b = FUNC_STATE_RUNNING"
proof -
  let ?x = "pCurrTxn (tw_q tw)"
  obtain st a where a: "twIf_Restart tw = Inr (st, a)" "tw_E a = tw_E tw" "tw_down a" "pCurrTxn (tw_q a) = ?x"
    "\<not> tw_lost (tw_trace a)"
    using Restart_step [OF tw_reach_inv [OF assms(1)]] assms(2,3) by auto
  have "tw_do tw_slow CallRestart tw = Some (Inr a)" using a(1) by simp
  from tw_reach_call [OF assms(1) _ this] have r: "tw_reach a" by simp
  obtain b where b: "twIf_PendRestratTimeout a = Inr b" "tw_E b = tw_E a" "pCurrTxn (tw_q b) = pCurrTxn (tw_q a)"
    "uPendingTxnCount b = uPendingTxnCount a" "tw_eState b = tw_eState a" "tw_fs b = FUNC_STATE_RUNNING"
    "tw_books (tw_trace b) = map_option (\<lambda>_. {#}) (tw_books (tw_trace a))"
    using Timeout_step [OF tw_reach_inv [OF r]] by blast
  have "?x \<in># tw_out b" using assms(3) a(2,4) b(2,3) by (simp add: tw_out_def tq_mine_def tq_all_def tq_one_def)
  moreover have "tw_reach b" by (rule tw_reach_timeout [OF r b(1)])
  ultimately show ?thesis using a b by (auto simp: tw_down_def)
qed

text \<open>When the sixth partition transaction is not pending the memory of all seven is freed: if the seventh is
  pending, the bus driver uses freed memory, and the callback of the seventh frees it again.\<close>

lemma twIf_partition_freed_twice:
  assumes "4 \<le> length ps" "p \<noteq> 0"
    "tw_send_all bus (tw_partition_list f p (tw_save_partition ps tw)) (tw_partition_data p (tw_save_partition ps tw)) = Some (Inr (sts, b))"
    "sts ! 5 = TXN_STATUS_COMPLETE" "pCurrTxn (tw_q b) = tw_partition_hdr p 6"
  shows "twIf_SetPartition bus f p ps tw = Some (Inl UseAfterFree)"
    "twIf_PartitionTxnDoneCb (tw_partition_hdr p 6) u = tw_emit (OsFree p (7 * SIZEOF_TPartitionRegTxn)) u"
proof -
  have "tw_holds b (tw_partition_hdr p 6)" using assms(5) by (simp add: tw_holds_def)
  then have "\<exists>i \<in> {0..<7}. tw_holds b (tw_partition_hdr p i)" by (intro bexI [of _ 6]) simp_all
  then show "twIf_SetPartition bus f p ps tw = Some (Inl UseAfterFree)" using assms(1-4) by (simp add: twIf_SetPartition_def Let_def)
  show "twIf_PartitionTxnDoneCb (tw_partition_hdr p 6) u = tw_emit (OsFree p (7 * SIZEOF_TPartitionRegTxn)) u"
    by (simp add: twIf_PartitionTxnDoneCb_def tw_partition_hdr_def)
qed

end
