(* ===== verification/Context.thy ===== *)
theory Context
  imports Prelude
begin

text \<open>
  \<open>utils/context.c\<close>: the module that brings the driver's clients (TwIf, the firmware events, the timers, the
  Tx queues, the command handler) from interrupts and foreign threads into the one context of the driver,
  with what it uses of the Linux layer: the wake lock counter and \<open>os_RequestSchedule\<close> of \<open>osapi.c\<close> and the
  work function \<open>wlanDrvIf_DriverTask\<close> of \<open>WlanDrvIf.c\<close>. Parameters: \<open>qw\<close>, the kernel's \<open>queue_work\<close> on the
  driver's work item, and \<open>client\<close>, the calls of this module that a client's callback makes, which may depend
  on all that has happened. This theory runs a call to its end; theory \<open>ContextTask\<close> interleaves them.
\<close>

section \<open>State\<close>

definition MAX_CLIENTS :: nat where "MAX_CLIENTS = 8"
definition MAX_NAME_SIZE :: u32 where "MAX_NAME_SIZE = 16"

record TClientName =
  cn_uSize :: u32
  sName :: "u8 list"

record TContext =
  ctx_hOs :: addr
  ctx_hReport :: addr
  bContextSwitchRequired :: bool
  hProtectionLock :: addr
  uNumClients :: u32
  aClientCbFunc :: "addr list"
  aClientCbHndl :: "addr list"
  aClientEnabled :: "bool list"
  aClientPending :: "bool list"
  aClientName :: "TClientName list"
  aRequestCount :: "u32 list"
  aInvokeCount :: "u32 list"

text \<open>The fields of the driver's OS object that these functions use. \<open>wl_wifi\<close>: the wake lock is held;
  \<open>wl_rxwake\<close>: how often its one second version was taken; \<open>wl_count\<close> is an \<open>int\<close> that never falls below
  zero; \<open>tWork\<close> is the kernel's.\<close>

record 'w TWlanDrvIfObj =
  wl_count :: nat
  wl_wifi :: bool
  wl_packet :: bool
  wl_rxwake :: nat
  tWork :: 'w

datatype ctx_event =
    CxRequested u32
  | CxInvoked u32 addr addr
  | CxProtectLock addr
  | CxProtectUnlock addr
  | CxProtectDestroy addr
  | CxFree

record 'w TSys =
  tContext :: TContext
  tDrv :: "'w TWlanDrvIfObj"
  tTrace :: "ctx_event list"

text \<open>\<open>None\<close>: no result within the fuel.\<close>

type_synonym 'a ctx_res = "(fault + 'a) option"

type_synonym 'w ctx_qw = "'w \<Rightarrow> bool \<times> 'w"

datatype ctx_call = CallRequest u32 | CallEnable u32 | CallDisable u32

type_synonym ctx_client = "addr \<Rightarrow> addr \<Rightarrow> ctx_event list \<Rightarrow> ctx_call list"

definition ctx_then :: "'a ctx_res \<Rightarrow> ('a \<Rightarrow> 'b ctx_res) \<Rightarrow> 'b ctx_res" where
  "ctx_then m f = (case m of None \<Rightarrow> None | Some (Inl e) \<Rightarrow> Some (Inl e) | Some (Inr a) \<Rightarrow> f a)"

lemma ctx_then_simps [simp]:
  "ctx_then None f = None" "ctx_then (Some (Inl e)) f = Some (Inl e)" "ctx_then (Some (Inr a)) f = f a"
  by (simp_all add: ctx_then_def)

definition ctx_emit :: "ctx_event \<Rightarrow> 'w TSys \<Rightarrow> 'w TSys" where
  "ctx_emit e s = s\<lparr>tTrace := tTrace s @ [e]\<rparr>"

section \<open>The Linux layer\<close>

definition os_wake_lock :: "'w TWlanDrvIfObj \<Rightarrow> nat \<times> 'w TWlanDrvIfObj" where
  "os_wake_lock drv =
     (let drv = (if wl_count drv = 0 then drv\<lparr>wl_wifi := True\<rparr> else drv);
          drv = drv\<lparr>wl_count := wl_count drv + 1\<rparr>
      in (wl_count drv, drv))"

definition os_wake_unlock :: "'w TWlanDrvIfObj \<Rightarrow> nat \<times> 'w TWlanDrvIfObj" where
  "os_wake_unlock drv =
     (if wl_count drv \<noteq> 0 then
        (let drv = drv\<lparr>wl_count := wl_count drv - 1\<rparr>;
             drv = (if wl_count drv = 0 then drv\<lparr>wl_wifi := False\<rparr> else drv)
         in (wl_count drv, drv))
      else (0, drv))"

definition os_wake_lock_timeout :: "'w TWlanDrvIfObj \<Rightarrow> bool \<times> 'w TWlanDrvIfObj" where
  "os_wake_lock_timeout drv =
     (wl_packet drv,
      if wl_packet drv then drv\<lparr>wl_packet := False, wl_rxwake := wl_rxwake drv + 1\<rparr> else drv)"

definition os_wake_lock_timeout_enable :: "'w TWlanDrvIfObj \<Rightarrow> bool \<times> 'w TWlanDrvIfObj" where
  "os_wake_lock_timeout_enable drv = (True, drv\<lparr>wl_packet := True\<rparr>)"

definition os_RequestSchedule :: "'w ctx_qw \<Rightarrow> 'w TWlanDrvIfObj \<Rightarrow> ti_status \<times> 'w TWlanDrvIfObj" where
  "os_RequestSchedule qw drv =
     (let (ok, w) = qw (tWork drv); drv = drv\<lparr>tWork := w\<rparr> in if \<not> ok then (TI_NOK, drv) else (TI_OK, drv))"

definition ctx_WakeLock :: "'w TSys \<Rightarrow> 'w TSys" where
  "ctx_WakeLock s = s\<lparr>tDrv := snd (os_wake_lock (tDrv s))\<rparr>"

definition ctx_WakeUnlock :: "'w TSys \<Rightarrow> 'w TSys" where
  "ctx_WakeUnlock s = s\<lparr>tDrv := snd (os_wake_unlock (tDrv s))\<rparr>"

section \<open>Life cycle and registration\<close>

definition context_Create :: "bool \<Rightarrow> TContext option" where
  "context_Create allocated =
     (if \<not> allocated then None
      else Some \<lparr>ctx_hOs = 0, ctx_hReport = 0, bContextSwitchRequired = False, hProtectionLock = 0, uNumClients = 0,
        aClientCbFunc = replicate MAX_CLIENTS 0, aClientCbHndl = replicate MAX_CLIENTS 0,
        aClientEnabled = replicate MAX_CLIENTS False, aClientPending = replicate MAX_CLIENTS False,
        aClientName = replicate MAX_CLIENTS \<lparr>cn_uSize = 0, sName = replicate (unat MAX_NAME_SIZE) 0\<rparr>,
        aRequestCount = replicate MAX_CLIENTS 0, aInvokeCount = replicate MAX_CLIENTS 0\<rparr>)"

definition context_Destroy :: "TContext \<Rightarrow> ti_status \<times> ctx_event list" where
  "context_Destroy ctx = (TI_OK, [CxProtectDestroy (hProtectionLock ctx), CxFree])"

text \<open>\<open>lock\<close>: what \<open>os_protectCreate\<close> returned.\<close>

definition context_Init :: "addr \<Rightarrow> addr \<Rightarrow> addr \<Rightarrow> TContext \<Rightarrow> TContext" where
  "context_Init hOs hReport lock ctx = ctx\<lparr>ctx_hOs := hOs, ctx_hReport := hReport, hProtectionLock := lock\<rparr>"

definition context_SetDefaults :: "bool \<Rightarrow> TContext \<Rightarrow> ti_status \<times> TContext" where
  "context_SetDefaults bSwitch ctx = (TI_OK, ctx\<lparr>bContextSwitchRequired := bSwitch\<rparr>)"

text \<open>\<open>os_memoryCopy\<close> of the first \<open>n\<close> bytes of \<open>src\<close>.\<close>

definition ctx_memcpy :: "nat \<Rightarrow> u8 list \<Rightarrow> u8 list \<Rightarrow> fault + u8 list" where
  "ctx_memcpy n src dst =
     (if n \<le> length src \<and> n \<le> length dst then Inr (take n src @ drop n dst) else Inl OutOfBounds)"

definition ctx_save_name :: "nat \<Rightarrow> u8 list \<Rightarrow> u32 \<Rightarrow> TContext \<Rightarrow> fault + TContext" where
  "ctx_save_name i name uNameSize ctx =
     (if uNameSize \<le> MAX_NAME_SIZE then
        (case ctx_memcpy (unat uNameSize) name (sName (aClientName ctx ! i)) of
           Inl f \<Rightarrow> Inl f
         | Inr nm \<Rightarrow>
             Inr (ctx\<lparr>aClientName := (aClientName ctx)[i := \<lparr>cn_uSize = uNameSize, sName = nm\<rparr>]\<rparr>))
      else Inr ctx)"

definition context_RegisterClient ::
  "addr \<Rightarrow> addr \<Rightarrow> bool \<Rightarrow> u8 list \<Rightarrow> u32 \<Rightarrow> TContext \<Rightarrow> fault + u32 \<times> TContext" where
  "context_RegisterClient fCbFunc hCbHndl bEnable name uNameSize ctx =
     (let uClientId = uNumClients ctx; i = unat uClientId in
      if i = MAX_CLIENTS then Inr (0, ctx)
      else if i > MAX_CLIENTS then Inl OutOfBounds
      else
        (let ctx = ctx\<lparr>aClientCbFunc := (aClientCbFunc ctx)[i := fCbFunc],
               aClientCbHndl := (aClientCbHndl ctx)[i := hCbHndl],
               aClientEnabled := (aClientEnabled ctx)[i := bEnable],
               aClientPending := (aClientPending ctx)[i := False]\<rparr>
         in case ctx_save_name i name uNameSize ctx of
              Inl f \<Rightarrow> Inl f
            | Inr ctx \<Rightarrow> Inr (uClientId, ctx\<lparr>uNumClients := uNumClients ctx + 1\<rparr>)))"

section \<open>Flags of a client\<close>

text \<open>Reading and writing the arrays; an index beyond them is undefined in C.\<close>

definition ctx_enabled :: "u32 \<Rightarrow> 'w TSys \<Rightarrow> bool" where
  "ctx_enabled c s = aClientEnabled (tContext s) ! unat c"

definition ctx_pending :: "u32 \<Rightarrow> 'w TSys \<Rightarrow> bool" where
  "ctx_pending c s = aClientPending (tContext s) ! unat c"

definition ctx_set_enabled :: "u32 \<Rightarrow> bool \<Rightarrow> 'w TSys \<Rightarrow> 'w TSys" where
  "ctx_set_enabled c b s =
     s\<lparr>tContext := (tContext s)\<lparr>aClientEnabled := (aClientEnabled (tContext s))[unat c := b]\<rparr>\<rparr>"

definition ctx_set_pending :: "u32 \<Rightarrow> bool \<Rightarrow> 'w TSys \<Rightarrow> 'w TSys" where
  "ctx_set_pending c b s =
     s\<lparr>tContext := (tContext s)\<lparr>aClientPending := (aClientPending (tContext s))[unat c := b]\<rparr>\<rparr>"

text \<open>The debug counter and the flag: what \<open>context_RequestSchedule\<close> does before it schedules.\<close>

definition ctx_mark :: "u32 \<Rightarrow> 'w TSys \<Rightarrow> 'w TSys" where
  "ctx_mark c s =
     (let ctx = tContext s;
          s = s\<lparr>tContext := ctx\<lparr>aRequestCount := (aRequestCount ctx)[unat c := aRequestCount ctx ! unat c + 1]\<rparr>\<rparr>
      in ctx_emit (CxRequested c) (ctx_set_pending c True s))"

text \<open>What \<open>context_DriverTask\<close> does for a client before it calls it.\<close>

definition ctx_unmark :: "u32 \<Rightarrow> 'w TSys \<Rightarrow> 'w TSys" where
  "ctx_unmark i s =
     (let ctx = tContext s;
          s = s\<lparr>tContext := ctx\<lparr>aInvokeCount := (aInvokeCount ctx)[unat i := aInvokeCount ctx ! unat i + 1]\<rparr>\<rparr>
      in ctx_set_pending i False s)"

section \<open>Operations\<close>

text \<open>The end of \<open>context_RequestSchedule\<close> and of \<open>context_EnableClient\<close>. \<open>task\<close> is \<open>context_DriverTask\<close>, which is
  called from here when no context switch is required.\<close>

definition ctx_schedule :: "'w ctx_qw \<Rightarrow> ('w TSys \<Rightarrow> 'w TSys ctx_res) \<Rightarrow> 'w TSys \<Rightarrow> 'w TSys ctx_res" where
  "ctx_schedule qw task s =
     (let s = ctx_WakeLock s in
      if bContextSwitchRequired (tContext s) then
        (case os_RequestSchedule qw (tDrv s) of
           (st, drv) \<Rightarrow>
             (let s = s\<lparr>tDrv := drv\<rparr> in Some (Inr (if st \<noteq> TI_OK then ctx_WakeUnlock s else s))))
      else ctx_then (task s) (\<lambda>s. Some (Inr (ctx_WakeUnlock s))))"

definition context_RequestSchedule ::
  "'w ctx_qw \<Rightarrow> ('w TSys \<Rightarrow> 'w TSys ctx_res) \<Rightarrow> u32 \<Rightarrow> 'w TSys \<Rightarrow> 'w TSys ctx_res" where
  "context_RequestSchedule qw task c s =
     (if unat c \<ge> MAX_CLIENTS then Some (Inl OutOfBounds) else ctx_schedule qw task (ctx_mark c s))"

definition context_EnableClient ::
  "'w ctx_qw \<Rightarrow> ('w TSys \<Rightarrow> 'w TSys ctx_res) \<Rightarrow> u32 \<Rightarrow> 'w TSys \<Rightarrow> 'w TSys ctx_res" where
  "context_EnableClient qw task c s =
     (if unat c \<ge> MAX_CLIENTS then Some (Inl OutOfBounds)
      else if ctx_enabled c s then Some (Inr s)
      else
        (let s = ctx_set_enabled c True s in
         if ctx_pending c s then ctx_schedule qw task s else Some (Inr s)))"

definition context_DisableClient :: "u32 \<Rightarrow> 'w TSys \<Rightarrow> 'w TSys ctx_res" where
  "context_DisableClient c s =
     (if unat c \<ge> MAX_CLIENTS then Some (Inl OutOfBounds)
      else if \<not> ctx_enabled c s then Some (Inr s)
      else Some (Inr (ctx_set_enabled c False s)))"

definition context_EnterCriticalSection :: "'w TSys \<Rightarrow> 'w TSys" where
  "context_EnterCriticalSection s = ctx_emit (CxProtectLock (hProtectionLock (tContext s))) s"

definition context_LeaveCriticalSection :: "'w TSys \<Rightarrow> 'w TSys" where
  "context_LeaveCriticalSection s = ctx_emit (CxProtectUnlock (hProtectionLock (tContext s))) s"

text \<open>The calls of a callback, in their order.\<close>

fun ctx_do_call :: "'w ctx_qw \<Rightarrow> ('w TSys \<Rightarrow> 'w TSys ctx_res) \<Rightarrow> ctx_call \<Rightarrow> 'w TSys \<Rightarrow> 'w TSys ctx_res" where
  "ctx_do_call qw task (CallRequest c) s = context_RequestSchedule qw task c s"
| "ctx_do_call qw task (CallEnable c) s = context_EnableClient qw task c s"
| "ctx_do_call qw task (CallDisable c) s = context_DisableClient c s"

fun ctx_do_calls :: "'w ctx_qw \<Rightarrow> ('w TSys \<Rightarrow> 'w TSys ctx_res) \<Rightarrow> ctx_call list \<Rightarrow> 'w TSys \<Rightarrow> 'w TSys ctx_res" where
  "ctx_do_calls qw task [] s = Some (Inr s)"
| "ctx_do_calls qw task (c # cs) s = ctx_then (ctx_do_call qw task c s) (ctx_do_calls qw task cs)"

text \<open>The call of the client's callback: through a NULL pointer it is undefined.\<close>

definition ctx_invoke ::
  "'w ctx_qw \<Rightarrow> ctx_client \<Rightarrow> ('w TSys \<Rightarrow> 'w TSys ctx_res) \<Rightarrow> u32 \<Rightarrow> 'w TSys \<Rightarrow> 'w TSys ctx_res" where
  "ctx_invoke qw client task i s =
     (let fCbFunc = aClientCbFunc (tContext s) ! unat i; hCbHndl = aClientCbHndl (tContext s) ! unat i in
      if fCbFunc = 0 then Some (Inl NullDeref)
      else
        (let s = ctx_emit (CxInvoked i fCbFunc hCbHndl) s in
         ctx_do_calls qw task (client fCbFunc hCbHndl (tTrace s)) s))"

definition ctx_serve ::
  "'w ctx_qw \<Rightarrow> ctx_client \<Rightarrow> ('w TSys \<Rightarrow> 'w TSys ctx_res) \<Rightarrow> u32 \<Rightarrow> 'w TSys \<Rightarrow> 'w TSys ctx_res" where
  "ctx_serve qw client task i s =
     (if ctx_pending i s \<and> ctx_enabled i s then ctx_invoke qw client task i (ctx_unmark i s) else Some (Inr s))"

text \<open>The loop over the registered clients.\<close>

function ctx_loop ::
  "'w ctx_qw \<Rightarrow> ctx_client \<Rightarrow> ('w TSys \<Rightarrow> 'w TSys ctx_res) \<Rightarrow> u32 \<Rightarrow> 'w TSys \<Rightarrow> 'w TSys ctx_res" where
  "ctx_loop qw client task i s =
     (if i < uNumClients (tContext s) then
        (if unat i \<ge> MAX_CLIENTS then Some (Inl OutOfBounds)
         else ctx_then (ctx_serve qw client task i s) (ctx_loop qw client task (i + 1)))
      else Some (Inr s))"
  by pat_completeness auto
termination
  by (relation "measure (\<lambda>(qw, client, task, i, s). MAX_CLIENTS - unat i)")
    (auto simp: unat_plus_one word_less_nat_alt)

declare ctx_loop.simps [simp del]

text \<open>\<open>context_DriverTask\<close> with as much nesting of the task in itself as the fuel allows; with a context switch
  there is none.\<close>

fun context_DriverTask :: "'w ctx_qw \<Rightarrow> ctx_client \<Rightarrow> nat \<Rightarrow> 'w TSys \<Rightarrow> 'w TSys ctx_res" where
  "context_DriverTask qw client 0 s = None"
| "context_DriverTask qw client (Suc n) s = ctx_loop qw client (context_DriverTask qw client n) 0 s"

definition wlanDrvIf_DriverTask :: "'w ctx_qw \<Rightarrow> ctx_client \<Rightarrow> nat \<Rightarrow> 'w TSys \<Rightarrow> 'w TSys ctx_res" where
  "wlanDrvIf_DriverTask qw client n s =
     ctx_then (context_DriverTask qw client n s)
       (\<lambda>s. Some (Inr (ctx_WakeUnlock (s\<lparr>tDrv := snd (os_wake_lock_timeout (tDrv s))\<rparr>))))"

end
