(* ===== verification/ContextTask.thy ===== *)
theory ContextTask
  imports Context "HOL-Library.Multiset"
begin

text \<open>
  The module of theory \<open>Context\<close> as it runs: interrupts and foreign threads call it at any time while the
  driver task runs, and each access of a call to the shared flags, the wake lock counter or the work queue is
  a step of its own. Here is the machine, what it must keep, and that each step keeps it.
\<close>

section \<open>The machine\<close>

text \<open>Where a call is: about to set the pending flag, to take the wake lock, to queue the work, to give the
  lock back; to check, set the flag and test in \<open>context_EnableClient\<close> and \<open>context_DisableClient\<close>.\<close>

datatype ctx_pc =
    RsSet u32
  | ScLock
  | ScQueue
  | ScUnlock
  | EnCheck u32
  | EnSet u32
  | EnTest u32
  | DiCheck u32
  | DiSet u32

fun ctx_entry :: "ctx_call \<Rightarrow> ctx_pc" where
  "ctx_entry (CallRequest c) = RsSet c"
| "ctx_entry (CallEnable c) = EnCheck c"
| "ctx_entry (CallDisable c) = DiCheck c"

fun ctx_call_id :: "ctx_call \<Rightarrow> u32" where
  "ctx_call_id (CallRequest c) = c"
| "ctx_call_id (CallEnable c) = c"
| "ctx_call_id (CallDisable c) = c"

text \<open>One step of a call that switches context; \<open>None\<close> when it has returned.\<close>

fun ctx_pc_step :: "'w ctx_qw \<Rightarrow> ctx_pc \<Rightarrow> 'w TSys \<Rightarrow> ctx_pc option \<times> 'w TSys" where
  "ctx_pc_step qw (RsSet c) s = (Some ScLock, ctx_mark c s)"
| "ctx_pc_step qw ScLock s = (Some ScQueue, ctx_WakeLock s)"
| "ctx_pc_step qw ScQueue s =
     (case os_RequestSchedule qw (tDrv s) of
        (st, drv) \<Rightarrow> (if st \<noteq> TI_OK then Some ScUnlock else None, s\<lparr>tDrv := drv\<rparr>))"
| "ctx_pc_step qw ScUnlock s = (None, ctx_WakeUnlock s)"
| "ctx_pc_step qw (EnCheck c) s = (if ctx_enabled c s then None else Some (EnSet c), s)"
| "ctx_pc_step qw (EnSet c) s = (Some (EnTest c), ctx_set_enabled c True s)"
| "ctx_pc_step qw (EnTest c) s = (if ctx_pending c s then Some ScLock else None, s)"
| "ctx_pc_step qw (DiCheck c) s = (if \<not> ctx_enabled c s then None else Some (DiSet c), s)"
| "ctx_pc_step qw (DiSet c) s = (None, ctx_set_enabled c False s)"

text \<open>Where the work function is: not running; in the loop of \<open>context_DriverTask\<close> at client \<open>i\<close>, before it
  reads the pending flag, before it reads the enabled flag, before it clears the pending flag, before it calls
  the callback, in the callback with the calls it still makes, in one of these calls; behind the loop.\<close>

datatype ctx_task =
    TkIdle
  | TkTest u32
  | TkEnabled u32
  | TkClear u32
  | TkFire u32
  | TkCall u32 "ctx_call list"
  | TkIn u32 "ctx_call list" ctx_pc
  | TkTimeout
  | TkUnlock

text \<open>\<open>cm_calls\<close>: the calls of other contexts that are under way; \<open>cm_locks\<close>: the wake locks that other modules
  hold.\<close>

record 'w ctx_mach =
  cm_sys :: "'w TSys"
  cm_calls :: "ctx_pc multiset"
  cm_task :: ctx_task
  cm_locks :: nat

fun ctx_task_step :: "'w ctx_qw \<Rightarrow> ctx_client \<Rightarrow> ctx_task \<Rightarrow> 'w TSys \<Rightarrow> (ctx_task \<times> 'w TSys) option" where
  "ctx_task_step qw client TkIdle s = None"
| "ctx_task_step qw client (TkTest i) s =
     Some (if i < uNumClients (tContext s) then (if ctx_pending i s then TkEnabled i else TkTest (i + 1))
           else TkTimeout, s)"
| "ctx_task_step qw client (TkEnabled i) s = Some (if ctx_enabled i s then TkClear i else TkTest (i + 1), s)"
| "ctx_task_step qw client (TkClear i) s = Some (TkFire i, ctx_unmark i s)"
| "ctx_task_step qw client (TkFire i) s =
     (let f = aClientCbFunc (tContext s) ! unat i; h = aClientCbHndl (tContext s) ! unat i;
          s = ctx_emit (CxInvoked i f h) s;
          calls = client f h (tTrace s)
      in if list_all (\<lambda>c. ctx_call_id c < uNumClients (tContext s)) calls then Some (TkCall i calls, s) else None)"
| "ctx_task_step qw client (TkCall i []) s = Some (TkTest (i + 1), s)"
| "ctx_task_step qw client (TkCall i (c # cs)) s = Some (TkIn i cs (ctx_entry c), s)"
| "ctx_task_step qw client (TkIn i cs pc) s =
     (case ctx_pc_step qw pc s of
        (None, s) \<Rightarrow> Some (TkCall i cs, s)
      | (Some pc, s) \<Rightarrow> Some (TkIn i cs pc, s))"
| "ctx_task_step qw client TkTimeout s =
     Some (TkUnlock, s\<lparr>tDrv := snd (os_wake_lock_timeout (tDrv s))\<rparr>)"
| "ctx_task_step qw client TkUnlock s = Some (TkIdle, ctx_WakeUnlock s)"

text \<open>The kernel's work queue, a parameter: \<open>queue_work\<close>, what the kernel does to the work item when it starts
  the work function, and whether the item is queued. As documented, \<open>queue_work\<close> leaves the item queued and
  says whether it was not so before, and the item is no longer queued when its function is started.\<close>

record 'w ctx_kernel =
  kq_queue :: "'w ctx_qw"
  kq_start :: "'w \<Rightarrow> 'w"
  kq_queued :: "'w \<Rightarrow> bool"

definition kq_ok :: "'w ctx_kernel \<Rightarrow> bool" where
  "kq_ok K \<longleftrightarrow>
     (\<forall>w. fst (kq_queue K w) = (\<not> kq_queued K w) \<and> kq_queued K (snd (kq_queue K w))) \<and>
     (\<forall>w. kq_queued K w \<longrightarrow> \<not> kq_queued K (kq_start K w))"

text \<open>What may happen: a call from another context begins or makes a step; the kernel starts the work, which
  never runs twice at a time; the work function makes a step; a client registers; another module takes a wake
  lock, gives back one that it has, or asks to stay awake for a received packet. Clients use the identifiers
  they were given.\<close>

datatype ctx_label =
    LCall ctx_call
  | LStep ctx_pc
  | LStart
  | LTask
  | LRegister addr addr bool "u8 list" u32
  | LOsLock
  | LOsUnlock
  | LPacket

fun ctx_next :: "'w ctx_kernel \<Rightarrow> ctx_client \<Rightarrow> ctx_label \<Rightarrow> 'w ctx_mach \<Rightarrow> 'w ctx_mach option" where
  "ctx_next K client (LCall c) m =
     (if ctx_call_id c < uNumClients (tContext (cm_sys m)) then Some (m\<lparr>cm_calls := add_mset (ctx_entry c) (cm_calls m)\<rparr>)
      else None)"
| "ctx_next K client (LStep pc) m =
     (if pc \<in># cm_calls m then
        (let (pc', s) = ctx_pc_step (kq_queue K) pc (cm_sys m) in
         Some (m\<lparr>cm_sys := s, cm_calls := cm_calls m - {#pc#} + (case pc' of None \<Rightarrow> {#} | Some pc' \<Rightarrow> {#pc'#})\<rparr>))
      else None)"
| "ctx_next K client LStart m =
     (let s = cm_sys m; drv = tDrv s in
      if kq_queued K (tWork drv) \<and> cm_task m = TkIdle
      then Some (m\<lparr>cm_sys := s\<lparr>tDrv := drv\<lparr>tWork := kq_start K (tWork drv)\<rparr>\<rparr>, cm_task := TkTest 0\<rparr>)
      else None)"
| "ctx_next K client LTask m =
     (case ctx_task_step (kq_queue K) client (cm_task m) (cm_sys m) of
        None \<Rightarrow> None
      | Some (t, s) \<Rightarrow> Some (m\<lparr>cm_sys := s, cm_task := t\<rparr>))"
| "ctx_next K client (LRegister f h en name n) m =
     (case context_RegisterClient f h en name n (tContext (cm_sys m)) of
        Inl e \<Rightarrow> None
      | Inr (c, ctx) \<Rightarrow> if f = 0 then None else Some (m\<lparr>cm_sys := (cm_sys m)\<lparr>tContext := ctx\<rparr>\<rparr>))"
| "ctx_next K client LOsLock m =
     Some (m\<lparr>cm_sys := ctx_WakeLock (cm_sys m), cm_locks := cm_locks m + 1\<rparr>)"
| "ctx_next K client LOsUnlock m =
     (if cm_locks m = 0 then None
      else Some (m\<lparr>cm_sys := ctx_WakeUnlock (cm_sys m), cm_locks := cm_locks m - 1\<rparr>))"
| "ctx_next K client LPacket m =
     (let s = cm_sys m in Some (m\<lparr>cm_sys := s\<lparr>tDrv := snd (os_wake_lock_timeout_enable (tDrv s))\<rparr>\<rparr>))"

text \<open>The module after \<open>context_Create\<close>, \<open>context_Init\<close> and \<open>context_SetDefaults\<close> with a context switch, and the OS
  object as \<open>wlanDrvIf_Create\<close> leaves it.\<close>

definition ctx_boot :: "addr \<Rightarrow> addr \<Rightarrow> addr \<Rightarrow> 'w \<Rightarrow> 'w ctx_mach" where
  "ctx_boot hOs hReport lock w =
     \<lparr>cm_sys = \<lparr>tContext = snd (context_SetDefaults True (context_Init hOs hReport lock (the (context_Create True)))),
        tDrv = \<lparr>wl_count = 0, wl_wifi = False, wl_packet = False, wl_rxwake = 0, tWork = w\<rparr>, tTrace = []\<rparr>,
      cm_calls = {#}, cm_task = TkIdle, cm_locks = 0\<rparr>"

inductive ctx_reach :: "'w ctx_kernel \<Rightarrow> ctx_client \<Rightarrow> 'w ctx_mach \<Rightarrow> bool" for K client where
  boot: "\<not> kq_queued K w \<Longrightarrow> ctx_reach K client (ctx_boot hOs hReport lock w)"
| step: "ctx_reach K client m \<Longrightarrow> ctx_next K client l m = Some m' \<Longrightarrow> ctx_reach K client m'"

text \<open>Running a list of labels.\<close>

fun ctx_run :: "'w ctx_kernel \<Rightarrow> ctx_client \<Rightarrow> ctx_label list \<Rightarrow> 'w ctx_mach \<Rightarrow> 'w ctx_mach option" where
  "ctx_run K client [] m = Some m"
| "ctx_run K client (l # ls) m = (case ctx_next K client l m of None \<Rightarrow> None | Some m \<Rightarrow> ctx_run K client ls m)"

lemma ctx_run_reach: "ctx_reach K client m \<Longrightarrow> ctx_run K client ls m = Some m' \<Longrightarrow> ctx_reach K client m'"
  by (induction ls arbitrary: m) (auto intro: ctx_reach.step split: option.splits)

lemma ctx_run_append:
  "ctx_run K client (a @ b) m = (case ctx_run K client a m of None \<Rightarrow> None | Some m \<Rightarrow> ctx_run K client b m)"
  by (induction a arbitrary: m) (auto split: option.splits)

section \<open>What is kept\<close>

text \<open>The tables are whole and every registered client has a callback.\<close>

definition ctx_wf :: "'w TSys \<Rightarrow> bool" where
  "ctx_wf s \<longleftrightarrow>
     (let ctx = tContext s in
      unat (uNumClients ctx) \<le> MAX_CLIENTS \<and> bContextSwitchRequired ctx \<and>
      length (aClientCbFunc ctx) = MAX_CLIENTS \<and> length (aClientCbHndl ctx) = MAX_CLIENTS \<and>
      length (aClientEnabled ctx) = MAX_CLIENTS \<and> length (aClientPending ctx) = MAX_CLIENTS \<and>
      length (aClientName ctx) = MAX_CLIENTS \<and> list_all (\<lambda>n. length (sName n) = unat MAX_NAME_SIZE) (aClientName ctx) \<and>
      length (aRequestCount ctx) = MAX_CLIENTS \<and> length (aInvokeCount ctx) = MAX_CLIENTS \<and>
      (\<forall>i < unat (uNumClients ctx). aClientCbFunc ctx ! i \<noteq> 0))"

definition ctx_registered :: "u32 \<Rightarrow> 'w TSys \<Rightarrow> bool" where
  "ctx_registered c s \<longleftrightarrow> c < uNumClients (tContext s)"

fun ctx_pc_ok :: "'w TSys \<Rightarrow> ctx_pc \<Rightarrow> bool" where
  "ctx_pc_ok s (RsSet c) = ctx_registered c s"
| "ctx_pc_ok s (EnCheck c) = ctx_registered c s"
| "ctx_pc_ok s (EnSet c) = ctx_registered c s"
| "ctx_pc_ok s (EnTest c) = ctx_registered c s"
| "ctx_pc_ok s (DiCheck c) = ctx_registered c s"
| "ctx_pc_ok s (DiSet c) = ctx_registered c s"
| "ctx_pc_ok s pc = True"

fun ctx_task_ok :: "'w TSys \<Rightarrow> ctx_task \<Rightarrow> bool" where
  "ctx_task_ok s (TkTest i) = (i \<le> uNumClients (tContext s))"
| "ctx_task_ok s (TkEnabled i) = (ctx_registered i s \<and> ctx_pending i s)"
| "ctx_task_ok s (TkClear i) = (ctx_registered i s \<and> ctx_pending i s)"
| "ctx_task_ok s (TkFire i) = ctx_registered i s"
| "ctx_task_ok s (TkCall i cs) = (ctx_registered i s \<and> list_all (\<lambda>c. ctx_registered (ctx_call_id c) s) cs)"
| "ctx_task_ok s (TkIn i cs pc) =
     (ctx_registered i s \<and> list_all (\<lambda>c. ctx_registered (ctx_call_id c) s) cs)"
| "ctx_task_ok s t = True"

text \<open>The loop has client \<open>c\<close> still to visit.\<close>

fun ctx_ahead :: "u32 \<Rightarrow> ctx_task \<Rightarrow> bool" where
  "ctx_ahead c (TkTest i) = (i \<le> c)"
| "ctx_ahead c (TkEnabled i) = (i \<le> c)"
| "ctx_ahead c (TkClear i) = (i \<le> c)"
| "ctx_ahead c (TkFire i) = (i < c)"
| "ctx_ahead c (TkCall i cs) = (i < c)"
| "ctx_ahead c (TkIn i cs pc) = (i < c)"
| "ctx_ahead c t = False"

text \<open>All calls under way, the one from the callback included.\<close>

definition ctx_own :: "ctx_task \<Rightarrow> ctx_pc multiset" where
  "ctx_own t = (case t of TkIn i cs pc \<Rightarrow> {#pc#} | _ \<Rightarrow> {#})"

definition ctx_active :: "'w ctx_mach \<Rightarrow> ctx_pc multiset" where
  "ctx_active m = cm_calls m + ctx_own (cm_task m)"

text \<open>A call that will queue the work for client \<open>c\<close> if that is pending then; and one that holds a wake lock.\<close>

fun ctx_will_queue :: "u32 \<Rightarrow> ctx_pc \<Rightarrow> bool" where
  "ctx_will_queue c ScLock = True"
| "ctx_will_queue c ScQueue = True"
| "ctx_will_queue c (EnTest d) = (d = c)"
| "ctx_will_queue c pc = False"

fun ctx_holds_lock :: "ctx_pc \<Rightarrow> bool" where
  "ctx_holds_lock ScQueue = True"
| "ctx_holds_lock ScUnlock = True"
| "ctx_holds_lock pc = False"

definition ctx_queued :: "'w ctx_kernel \<Rightarrow> 'w TSys \<Rightarrow> bool" where
  "ctx_queued K s = kq_queued K (tWork (tDrv s))"

definition ctx_promised :: "'w ctx_kernel \<Rightarrow> u32 \<Rightarrow> ctx_pc multiset \<Rightarrow> ctx_task \<Rightarrow> 'w TSys \<Rightarrow> bool" where
  "ctx_promised K c A t s \<longleftrightarrow> ctx_queued K s \<or> (\<exists>pc \<in># A. ctx_will_queue c pc) \<or> ctx_ahead c t"

definition ctx_locks :: "'w ctx_kernel \<Rightarrow> nat \<Rightarrow> ctx_pc multiset \<Rightarrow> ctx_task \<Rightarrow> 'w TSys \<Rightarrow> nat" where
  "ctx_locks K L A t s = L + size (filter_mset ctx_holds_lock A) + of_bool (ctx_queued K s) + of_bool (t \<noteq> TkIdle)"

definition ctx_requests :: "u32 \<Rightarrow> 'w TSys \<Rightarrow> nat" where
  "ctx_requests c s = length (filter (\<lambda>e. e = CxRequested c) (tTrace s))"

definition ctx_invocations :: "u32 \<Rightarrow> 'w TSys \<Rightarrow> nat" where
  "ctx_invocations c s = length (filter (\<lambda>e. case e of CxInvoked i f h \<Rightarrow> i = c | _ \<Rightarrow> False) (tTrace s))"

text \<open>The invariant: everything is in range; no enabled client waits without a promise; the wake lock is held
  once for each call between its lock and its unlock, for the queued work and for the running work; no callback
  without a request, and the debug counters are true.\<close>

definition ctx_valid :: "ctx_pc multiset \<Rightarrow> ctx_task \<Rightarrow> 'w TSys \<Rightarrow> bool" where
  "ctx_valid A t s \<longleftrightarrow> ctx_wf s \<and> (\<forall>pc \<in># A. ctx_pc_ok s pc) \<and> ctx_task_ok s t"

definition ctx_served :: "'w ctx_kernel \<Rightarrow> ctx_pc multiset \<Rightarrow> ctx_task \<Rightarrow> 'w TSys \<Rightarrow> bool" where
  "ctx_served K A t s \<longleftrightarrow>
     (\<forall>c. ctx_registered c s \<longrightarrow> ctx_enabled c s \<longrightarrow> ctx_pending c s \<longrightarrow> ctx_promised K c A t s)"

definition ctx_balance :: "'w ctx_kernel \<Rightarrow> nat \<Rightarrow> ctx_pc multiset \<Rightarrow> ctx_task \<Rightarrow> 'w TSys \<Rightarrow> bool" where
  "ctx_balance K L A t s \<longleftrightarrow>
     wl_count (tDrv s) = ctx_locks K L A t s \<and> wl_wifi (tDrv s) = (wl_count (tDrv s) \<noteq> 0)"

definition ctx_counted :: "ctx_task \<Rightarrow> 'w TSys \<Rightarrow> bool" where
  "ctx_counted t s \<longleftrightarrow>
     (\<forall>c. ctx_invocations c s + of_bool (ctx_registered c s \<and> ctx_pending c s) + of_bool (t = TkFire c) \<le> ctx_requests c s) \<and>
     (\<forall>c. unat c < MAX_CLIENTS \<longrightarrow>
        aRequestCount (tContext s) ! unat c = of_nat (ctx_requests c s) \<and>
        aInvokeCount (tContext s) ! unat c = of_nat (ctx_invocations c s + of_bool (t = TkFire c)))"

definition ctx_inv :: "'w ctx_kernel \<Rightarrow> nat \<Rightarrow> ctx_pc multiset \<Rightarrow> ctx_task \<Rightarrow> 'w TSys \<Rightarrow> bool" where
  "ctx_inv K L A t s \<longleftrightarrow> ctx_valid A t s \<and> ctx_served K A t s \<and> ctx_balance K L A t s \<and> ctx_counted t s"

section \<open>Effect of the steps\<close>

lemma ctx_registered_bound:
  assumes "ctx_wf s" "ctx_registered c s"
  shows "unat c < MAX_CLIENTS"
  using assms by (auto simp: ctx_wf_def ctx_registered_def Let_def word_less_nat_alt)

lemma ctx_WakeLock_simps [simp]:
  "tContext (ctx_WakeLock s) = tContext s" "tTrace (ctx_WakeLock s) = tTrace s"
  "wl_count (tDrv (ctx_WakeLock s)) = wl_count (tDrv s) + 1" "tWork (tDrv (ctx_WakeLock s)) = tWork (tDrv s)"
  by (simp_all add: ctx_WakeLock_def os_wake_lock_def Let_def)

lemma ctx_WakeLock_wifi:
  "wl_wifi (tDrv (ctx_WakeLock s)) \<longleftrightarrow> wl_count (tDrv s) = 0 \<or> wl_wifi (tDrv s)"
  by (auto simp: ctx_WakeLock_def os_wake_lock_def Let_def)

lemma ctx_WakeUnlock_simps [simp]:
  "tContext (ctx_WakeUnlock s) = tContext s" "tTrace (ctx_WakeUnlock s) = tTrace s"
  "wl_count (tDrv (ctx_WakeUnlock s)) = wl_count (tDrv s) - 1" "tWork (tDrv (ctx_WakeUnlock s)) = tWork (tDrv s)"
  by (simp_all add: ctx_WakeUnlock_def os_wake_unlock_def Let_def)

lemma ctx_WakeUnlock_wifi:
  "wl_wifi (tDrv (ctx_WakeUnlock s)) \<longleftrightarrow> wl_wifi (tDrv s) \<and> wl_count (tDrv s) \<noteq> 1"
  by (auto simp: ctx_WakeUnlock_def os_wake_unlock_def Let_def)

lemma ctx_emit_simps [simp]:
  "tContext (ctx_emit e s) = tContext s" "tDrv (ctx_emit e s) = tDrv s" "tTrace (ctx_emit e s) = tTrace s @ [e]"
  by (simp_all add: ctx_emit_def)

lemma ctx_mark_simps [simp]:
  "tDrv (ctx_mark c s) = tDrv s" "tTrace (ctx_mark c s) = tTrace s @ [CxRequested c]"
  "uNumClients (tContext (ctx_mark c s)) = uNumClients (tContext s)"
  "aClientCbFunc (tContext (ctx_mark c s)) = aClientCbFunc (tContext s)"
  "aClientCbHndl (tContext (ctx_mark c s)) = aClientCbHndl (tContext s)"
  "aClientEnabled (tContext (ctx_mark c s)) = aClientEnabled (tContext s)"
  "aClientPending (tContext (ctx_mark c s)) = (aClientPending (tContext s))[unat c := True]"
  "aRequestCount (tContext (ctx_mark c s)) = (aRequestCount (tContext s))[unat c := aRequestCount (tContext s) ! unat c + 1]"
  "aInvokeCount (tContext (ctx_mark c s)) = aInvokeCount (tContext s)"
  "ctx_wf (ctx_mark c s) = ctx_wf s"
  by (simp_all add: ctx_mark_def ctx_set_pending_def ctx_wf_def Let_def)

lemma ctx_unmark_simps [simp]:
  "tDrv (ctx_unmark c s) = tDrv s" "tTrace (ctx_unmark c s) = tTrace s"
  "uNumClients (tContext (ctx_unmark c s)) = uNumClients (tContext s)"
  "aClientCbFunc (tContext (ctx_unmark c s)) = aClientCbFunc (tContext s)"
  "aClientCbHndl (tContext (ctx_unmark c s)) = aClientCbHndl (tContext s)"
  "aClientEnabled (tContext (ctx_unmark c s)) = aClientEnabled (tContext s)"
  "aClientPending (tContext (ctx_unmark c s)) = (aClientPending (tContext s))[unat c := False]"
  "aRequestCount (tContext (ctx_unmark c s)) = aRequestCount (tContext s)"
  "aInvokeCount (tContext (ctx_unmark c s)) = (aInvokeCount (tContext s))[unat c := aInvokeCount (tContext s) ! unat c + 1]"
  "ctx_wf (ctx_unmark c s) = ctx_wf s"
  by (simp_all add: ctx_unmark_def ctx_set_pending_def ctx_wf_def Let_def)

lemma ctx_set_enabled_simps [simp]:
  "tDrv (ctx_set_enabled c b s) = tDrv s" "tTrace (ctx_set_enabled c b s) = tTrace s"
  "uNumClients (tContext (ctx_set_enabled c b s)) = uNumClients (tContext s)"
  "aClientCbFunc (tContext (ctx_set_enabled c b s)) = aClientCbFunc (tContext s)"
  "aClientCbHndl (tContext (ctx_set_enabled c b s)) = aClientCbHndl (tContext s)"
  "aClientEnabled (tContext (ctx_set_enabled c b s)) = (aClientEnabled (tContext s))[unat c := b]"
  "aClientPending (tContext (ctx_set_enabled c b s)) = aClientPending (tContext s)"
  "aRequestCount (tContext (ctx_set_enabled c b s)) = aRequestCount (tContext s)"
  "aInvokeCount (tContext (ctx_set_enabled c b s)) = aInvokeCount (tContext s)"
  "ctx_wf (ctx_set_enabled c b s) = ctx_wf s"
  by (simp_all add: ctx_set_enabled_def ctx_wf_def Let_def)

lemma ctx_wf_cong: "tContext s = tContext s' \<Longrightarrow> ctx_wf s = ctx_wf s'"
  by (simp add: ctx_wf_def)

lemma ctx_wf_other [simp]:
  "ctx_wf (ctx_WakeLock s) = ctx_wf s" "ctx_wf (ctx_WakeUnlock s) = ctx_wf s" "ctx_wf (s\<lparr>tDrv := d\<rparr>) = ctx_wf s"
  "ctx_wf (ctx_emit e s) = ctx_wf s"
  by (simp_all add: ctx_wf_def)

lemma nth_update_u32:
  "unat c < length xs \<Longrightarrow> xs[unat i := x] ! unat (c :: u32) = (if i = c then x else xs ! unat c)"
  by (cases "unat i < length xs") (auto simp: nth_list_update word_unat_eq_iff)

lemma ctx_wf_lengths:
  assumes "ctx_wf s"
  shows "length (aClientEnabled (tContext s)) = MAX_CLIENTS" "length (aClientPending (tContext s)) = MAX_CLIENTS"
    "length (aRequestCount (tContext s)) = MAX_CLIENTS" "length (aInvokeCount (tContext s)) = MAX_CLIENTS"
    "length (aClientCbFunc (tContext s)) = MAX_CLIENTS" "length (aClientCbHndl (tContext s)) = MAX_CLIENTS"
  using assms by (simp_all add: ctx_wf_def Let_def)

lemmas ctx_views = ctx_registered_def ctx_queued_def ctx_enabled_def ctx_pending_def ctx_requests_def ctx_invocations_def

lemma ctx_views_cong:
  assumes "tContext s = tContext s'" "tTrace s = tTrace s'"
  shows "ctx_registered c s = ctx_registered c s'" "ctx_enabled c s = ctx_enabled c s'"
    "ctx_pending c s = ctx_pending c s'" "ctx_requests c s = ctx_requests c s'"
    "ctx_invocations c s = ctx_invocations c s'"
  using assms by (simp_all add: ctx_views)

lemma ctx_pc_ok_mono:
  "(\<And>c. ctx_registered c s \<Longrightarrow> ctx_registered c s') \<Longrightarrow> ctx_pc_ok s pc \<Longrightarrow> ctx_pc_ok s' pc"
  by (cases pc) auto

section \<open>A step of a call\<close>

abbreviation ctx_rest :: "ctx_pc option \<Rightarrow> ctx_pc multiset" where
  "ctx_rest p \<equiv> (case p of None \<Rightarrow> {#} | Some pc \<Rightarrow> {#pc#})"

lemma ctx_pc_step_registered:
  "ctx_pc_step qw pc s = (pc', s') \<Longrightarrow> ctx_registered c s' = ctx_registered c s"
  by (cases pc) (auto simp: ctx_registered_def split: prod.splits)

lemma ctx_pc_step_wf: "ctx_pc_step qw pc s = (pc', s') \<Longrightarrow> ctx_wf s \<Longrightarrow> ctx_wf s'"
  by (cases pc) (auto split: prod.splits)

lemma ctx_pc_step_pc_ok:
  "ctx_pc_step qw pc s = (Some pc', s') \<Longrightarrow> ctx_pc_ok s pc \<Longrightarrow> ctx_pc_ok s' pc'"
  by (cases pc) (auto simp: ctx_registered_def split: prod.splits if_splits)

lemma ctx_pc_step_pending:
  assumes "ctx_pc_step qw pc s = (pc', s')" "ctx_wf s" "unat c < MAX_CLIENTS"
  shows "ctx_pending c s' \<longleftrightarrow> ctx_pending c s \<or> pc = RsSet c"
  using assms ctx_wf_lengths [OF assms(2)]
  by (cases pc) (auto simp: ctx_pending_def nth_update_u32 split: prod.splits)

lemma ctx_pc_step_enabled:
  assumes "ctx_pc_step qw pc s = (pc', s')" "ctx_wf s" "unat c < MAX_CLIENTS"
  shows "ctx_enabled c s' \<Longrightarrow> ctx_enabled c s \<or> pc = EnSet c"
  using assms ctx_wf_lengths [OF assms(2)]
  by (cases pc) (auto simp: ctx_enabled_def nth_update_u32 split: prod.splits if_splits)

lemma ctx_task_ok_mono:
  assumes "ctx_task_ok s t" "uNumClients (tContext s') = uNumClients (tContext s)"
    and "\<And>c. ctx_registered c s \<Longrightarrow> ctx_pending c s \<Longrightarrow> ctx_pending c s'"
  shows "ctx_task_ok s' t"
  using assms by (cases t) (auto simp: ctx_registered_def)

lemma ctx_pc_step_valid:
  assumes "ctx_valid (add_mset pc R) t s" "ctx_pc_step qw pc s = (pc', s')"
  shows "ctx_valid (R + ctx_rest pc') t s'"
proof -
  have wf: "ctx_wf s" and ok: "ctx_pc_ok s pc" "\<forall>p \<in># R. ctx_pc_ok s p" "ctx_task_ok s t"
    using assms(1) by (auto simp: ctx_valid_def)
  have "ctx_task_ok s' t"
    by (rule ctx_task_ok_mono [OF ok(3)])
      (use assms(2) wf in \<open>auto simp: ctx_pc_step_pending ctx_registered_bound ctx_registered_def
        dest: ctx_pc_step_registered split: prod.splits elim!: ctx_pc_step.elims\<close>)
  moreover have "\<forall>p \<in># R. ctx_pc_ok s' p"
    using ok(2) ctx_pc_ok_mono ctx_pc_step_registered [OF assms(2)] by blast
  moreover have "\<And>p. pc' = Some p \<Longrightarrow> ctx_pc_ok s' p"
    using assms(2) ok(1) ctx_pc_step_pc_ok by blast
  ultimately show ?thesis
    using ctx_pc_step_wf [OF assms(2) wf] by (auto simp: ctx_valid_def split: option.splits)
qed

lemma ctx_RequestSchedule_kernel:
  assumes "kq_ok K" "os_RequestSchedule (kq_queue K) drv = (st, drv')"
  shows "kq_queued K (tWork drv')" "st = TI_OK \<longleftrightarrow> \<not> kq_queued K (tWork drv)"
    "wl_count drv' = wl_count drv" "wl_wifi drv' = wl_wifi drv"
  using assms by (auto simp: kq_ok_def os_RequestSchedule_def Let_def split: prod.splits if_splits)
    (metis fst_conv snd_conv)+

text \<open>The promises: a step only ends one by queueing the work or by finding nothing pending.\<close>

lemma ctx_pc_step_promised:
  assumes "kq_ok K" "ctx_pc_step (kq_queue K) pc s = (pc', s')" "ctx_pending c s"
    and "ctx_promised K c (add_mset pc R) t s"
  shows "ctx_promised K c (R + ctx_rest pc') t s'"
proof (cases pc)
  case ScQueue
  then show ?thesis
    using assms(2) ctx_RequestSchedule_kernel(1) [OF assms(1)]
    by (auto simp: ctx_promised_def ctx_queued_def split: prod.splits)
next
  case (EnTest d)
  then show ?thesis
    using assms(2-4) by (auto simp: ctx_promised_def split: if_splits)
qed (use assms(2-4) in \<open>auto simp: ctx_promised_def ctx_queued_def split: if_splits\<close>)

lemma ctx_pc_step_served:
  assumes "kq_ok K" "ctx_valid (add_mset pc R) t s" "ctx_served K (add_mset pc R) t s"
    and step: "ctx_pc_step (kq_queue K) pc s = (pc', s')"
  shows "ctx_served K (R + ctx_rest pc') t s'"
  unfolding ctx_served_def
proof (intro allI impI)
  fix c
  assume c: "ctx_registered c s'" "ctx_enabled c s'" "ctx_pending c s'"
  have wf: "ctx_wf s" using assms(2) by (simp add: ctx_valid_def)
  have reg: "ctx_registered c s" using c(1) ctx_pc_step_registered [OF step] by simp
  then have b: "unat c < MAX_CLIENTS" using ctx_registered_bound [OF wf] by blast
  consider "pc = RsSet c" | "pc = EnSet c" | "ctx_enabled c s" "ctx_pending c s"
    using c ctx_pc_step_pending [OF step wf b] ctx_pc_step_enabled [OF step wf b] by blast
  then show "ctx_promised K c (R + ctx_rest pc') t s'"
  proof cases
    case 3
    then show ?thesis
      using ctx_pc_step_promised [OF assms(1) step] reg assms(3) by (simp add: ctx_served_def)
  qed (use step in \<open>auto simp: ctx_promised_def\<close>)
qed

lemma ctx_locks_add: "ctx_locks K L (add_mset pc A) t s = ctx_locks K L A t s + of_bool (ctx_holds_lock pc)"
  by (simp add: ctx_locks_def)

lemma ctx_locks_wake [simp]:
  "ctx_locks K L A t (ctx_WakeLock s) = ctx_locks K L A t s" "ctx_locks K L A t (ctx_WakeUnlock s) = ctx_locks K L A t s"
  by (simp_all add: ctx_locks_def ctx_queued_def)

lemma ctx_locks_cong: "tWork (tDrv s') = tWork (tDrv s) \<Longrightarrow> ctx_locks K L A t s' = ctx_locks K L A t s"
  by (simp add: ctx_locks_def ctx_queued_def)

lemma ctx_balance_drv:
  "tDrv s' = tDrv s \<Longrightarrow> ctx_balance K L A t s \<Longrightarrow> ctx_balance K L A t s'"
  by (simp add: ctx_balance_def ctx_locks_cong [of s' s])

lemma ctx_balance_free: "\<not> ctx_holds_lock pc \<Longrightarrow> ctx_balance K L (add_mset pc A) t s = ctx_balance K L A t s"
  by (simp add: ctx_balance_def ctx_locks_add)

lemma ctx_balance_lock:
  "ctx_holds_lock pc \<Longrightarrow> ctx_balance K L A t s \<Longrightarrow> ctx_balance K L (add_mset pc A) t (ctx_WakeLock s)"
  by (auto simp: ctx_balance_def ctx_locks_add ctx_WakeLock_wifi)

lemma ctx_balance_unlock:
  "ctx_holds_lock pc \<Longrightarrow> ctx_balance K L (add_mset pc A) t s \<Longrightarrow> ctx_balance K L A t (ctx_WakeUnlock s)"
  by (auto simp: ctx_balance_def ctx_locks_add ctx_WakeUnlock_wifi)

lemma ctx_pc_step_balance:
  assumes "kq_ok K" "ctx_balance K L (add_mset pc R) t s"
    and step: "ctx_pc_step (kq_queue K) pc s = (pc', s')"
  shows "ctx_balance K L (R + ctx_rest pc') t s'"
proof (cases "pc = ScLock \<or> pc = ScQueue \<or> pc = ScUnlock")
  case True
  obtain st drv where d: "os_RequestSchedule (kq_queue K) (tDrv s) = (st, drv)" by fastforce
  consider "pc = ScLock" | "pc = ScQueue" | "pc = ScUnlock" using True by blast
  then show ?thesis
  proof cases
    case 1
    then show ?thesis using assms(2) step ctx_balance_lock [of ScQueue K L R t s] by (auto simp: ctx_balance_free)
  next
    case 2
    show ?thesis
      using assms(2) step ctx_RequestSchedule_kernel [OF assms(1) d]
      unfolding 2 by (cases "st = TI_OK") (auto simp: d ctx_balance_def ctx_locks_def ctx_queued_def)
  next
    case 3
    then show ?thesis using assms(2) step ctx_balance_unlock [of ScUnlock K L R t s] by auto
  qed
next
  case False
  have drv: "tDrv s' = tDrv s" using step False by (cases pc) auto
  have free: "\<not> ctx_holds_lock pc" "\<And>p. pc' = Some p \<Longrightarrow> \<not> ctx_holds_lock p"
    using step False by (cases pc; auto split: if_splits)+
  show ?thesis
    using ctx_balance_drv [OF drv, of K L R t] assms(2) free by (auto simp: ctx_balance_free split: option.splits)
qed

lemma ctx_counts_append [simp]:
  assumes "tTrace s' = tTrace s @ [e]"
  shows "ctx_requests c s' = ctx_requests c s + of_bool (e = CxRequested c)"
    "ctx_invocations c s' = ctx_invocations c s + (case e of CxInvoked i f h \<Rightarrow> of_bool (i = c) | _ \<Rightarrow> 0)"
  using assms by (auto simp: ctx_requests_def ctx_invocations_def split: ctx_event.splits)

lemma ctx_pc_step_trace:
  "ctx_pc_step qw pc s = (pc', s') \<Longrightarrow>
   tTrace s' = tTrace s @ (case pc of RsSet c \<Rightarrow> [CxRequested c] | _ \<Rightarrow> [])"
  by (cases pc) (auto split: prod.splits)

lemma ctx_pc_step_counters:
  assumes "ctx_pc_step qw pc s = (pc', s')" "ctx_wf s" "unat c < MAX_CLIENTS"
  shows "aRequestCount (tContext s') ! unat c = aRequestCount (tContext s) ! unat c + of_bool (pc = RsSet c)"
    "aInvokeCount (tContext s') ! unat c = aInvokeCount (tContext s) ! unat c"
  using assms ctx_wf_lengths [OF assms(2)] by (cases pc; auto simp: nth_update_u32 split: prod.splits)+

lemma ctx_pc_step_counted:
  assumes "ctx_valid (add_mset pc R) t s" "ctx_counted t s"
    and step: "ctx_pc_step qw pc s = (pc', s')"
  shows "ctx_counted t s'"
proof -
  have wf: "ctx_wf s" using assms(1) by (simp add: ctx_valid_def)
  have tr: "ctx_requests c s' = ctx_requests c s + of_bool (pc = RsSet c)" "ctx_invocations c s' = ctx_invocations c s" for c
    using ctx_pc_step_trace [OF step]
    by (cases pc; auto simp: ctx_requests_def ctx_invocations_def)+
  have p: "ctx_registered c s' \<and> ctx_pending c s' \<Longrightarrow> ctx_registered c s \<and> ctx_pending c s \<or> pc = RsSet c" for c
    using ctx_pc_step_registered [OF step] ctx_pc_step_pending [OF step wf] ctx_registered_bound [OF wf] by blast
  have "ctx_invocations c s' + of_bool (ctx_registered c s' \<and> ctx_pending c s') + of_bool (t = TkFire c) \<le> ctx_requests c s'" for c
  proof -
    have old: "ctx_invocations c s + of_bool (ctx_registered c s \<and> ctx_pending c s) + of_bool (t = TkFire c) \<le> ctx_requests c s"
      using assms(2) by (simp add: ctx_counted_def)
    show ?thesis
      using old p [of c] unfolding tr by (cases "pc = RsSet c"; auto split: if_splits)
  qed
  moreover have "aRequestCount (tContext s') ! unat c = of_nat (ctx_requests c s') \<and>
      aInvokeCount (tContext s') ! unat c = of_nat (ctx_invocations c s' + of_bool (t = TkFire c))"
    if "unat c < MAX_CLIENTS" for c
    using assms(2) that by (auto simp: ctx_counted_def ctx_pc_step_counters [OF step wf that] tr)
  ultimately show ?thesis by (simp add: ctx_counted_def)
qed

lemma ctx_pc_step_inv:
  assumes "kq_ok K" "ctx_inv K L (add_mset pc R) t s" "ctx_pc_step (kq_queue K) pc s = (pc', s')"
  shows "ctx_inv K L (R + ctx_rest pc') t s'"
  using assms ctx_pc_step_valid [OF _ assms(3)] ctx_pc_step_served [OF assms(1) _ _ assms(3)]
    ctx_pc_step_balance [OF assms(1) _ assms(3)] ctx_pc_step_counted [OF _ _ assms(3), of R t]
  unfolding ctx_inv_def by simp

section \<open>A step of the work function\<close>

lemma ctx_own_simps [simp]:
  "ctx_own TkIdle = {#}" "ctx_own (TkTest i) = {#}" "ctx_own (TkEnabled i) = {#}" "ctx_own (TkClear i) = {#}"
  "ctx_own (TkFire i) = {#}" "ctx_own (TkCall i cs) = {#}" "ctx_own (TkIn i cs pc) = {#pc#}"
  "ctx_own TkTimeout = {#}" "ctx_own TkUnlock = {#}"
  by (simp_all add: ctx_own_def)

lemma ctx_inv_in: "ctx_inv K L A (TkIn i cs pc) s = ctx_inv K L A (TkCall i cs) s"
  by (simp add: ctx_inv_def ctx_valid_def ctx_served_def ctx_promised_def ctx_balance_def ctx_locks_def ctx_counted_def)

text \<open>The work function moves on and changes nothing.\<close>

lemma ctx_inv_move:
  assumes "ctx_inv K L A t s" "ctx_task_ok s t'" "t \<noteq> TkIdle" "t' \<noteq> TkIdle" "\<And>c. t \<noteq> TkFire c" "\<And>c. t' \<noteq> TkFire c"
    and "\<And>c. ctx_registered c s \<Longrightarrow> ctx_enabled c s \<Longrightarrow> ctx_pending c s \<Longrightarrow> ctx_ahead c t \<Longrightarrow> ctx_ahead c t'"
  shows "ctx_inv K L A t' s"
  using assms
  by (auto simp: ctx_inv_def ctx_valid_def ctx_served_def ctx_promised_def ctx_balance_def ctx_locks_def ctx_counted_def)

lemma u32_next: "i \<le> c \<Longrightarrow> i \<noteq> c \<Longrightarrow> i + 1 \<le> (c :: u32)"
  by (simp add: inc_le)

lemma ctx_inv_Test:
  assumes "ctx_inv K L A (TkTest i) s" "ctx_task_step qw client (TkTest i) s = Some (t', s')"
  shows "s' = s \<and> ctx_inv K L A t' s \<and> ctx_own t' = {#}"
proof -
  have t': "s' = s" "t' = (if i < uNumClients (tContext s) then (if ctx_pending i s then TkEnabled i else TkTest (i + 1))
      else TkTimeout)" using assms(2) by auto
  have "ctx_inv K L A t' s"
    by (rule ctx_inv_move [OF assms(1)])
      (auto simp: t'(2) ctx_registered_def inc_le not_less intro: u32_next)
  then show ?thesis by (simp add: t')
qed

lemma ctx_inv_Enabled:
  assumes "ctx_inv K L A (TkEnabled i) s" "ctx_task_step qw client (TkEnabled i) s = Some (t', s')"
  shows "s' = s \<and> ctx_inv K L A t' s \<and> ctx_own t' = {#}"
proof -
  have t': "s' = s" "t' = (if ctx_enabled i s then TkClear i else TkTest (i + 1))" using assms(2) by auto
  have r: "ctx_registered i s" "ctx_pending i s" using assms(1) by (auto simp: ctx_inv_def ctx_valid_def)
  have "ctx_inv K L A t' s"
    by (rule ctx_inv_move [OF assms(1)])
      (use r in \<open>auto simp: t'(2) ctx_registered_def inc_le intro: u32_next\<close>)
  then show ?thesis by (simp add: t')
qed

lemma ctx_inv_Clear:
  assumes "ctx_inv K L A (TkClear i) s"
  shows "ctx_inv K L A (TkFire i) (ctx_unmark i s)"
proof -
  have wf: "ctx_wf s" and r: "ctx_registered i s" "ctx_pending i s"
    using assms by (auto simp: ctx_inv_def ctx_valid_def)
  have b: "unat i < MAX_CLIENTS" using ctx_registered_bound [OF wf r(1)] .
  have reg: "ctx_registered c (ctx_unmark i s) = ctx_registered c s" for c by (simp add: ctx_registered_def)
  have pen: "ctx_pending c (ctx_unmark i s) \<longleftrightarrow> c \<noteq> i \<and> ctx_pending c s" if "ctx_registered c s" for c
    using ctx_registered_bound [OF wf that] ctx_wf_lengths [OF wf] by (auto simp: ctx_pending_def nth_update_u32)
  have en: "ctx_enabled c (ctx_unmark i s) = ctx_enabled c s" for c by (simp add: ctx_enabled_def)
  have tr: "ctx_requests c (ctx_unmark i s) = ctx_requests c s" "ctx_invocations c (ctx_unmark i s) = ctx_invocations c s" for c
    by (simp_all add: ctx_requests_def ctx_invocations_def)
  have "ctx_valid A (TkFire i) (ctx_unmark i s)"
    using assms r(1) reg by (auto simp: ctx_inv_def ctx_valid_def intro: ctx_pc_ok_mono [of s])
  moreover have "ctx_served K A (TkFire i) (ctx_unmark i s)"
    using assms pen by (auto simp: ctx_inv_def ctx_served_def ctx_promised_def reg en ctx_queued_def)
  moreover have "ctx_balance K L A (TkFire i) (ctx_unmark i s)"
  proof -
    have "ctx_locks K L A (TkFire i) (ctx_unmark i s) = ctx_locks K L A (TkClear i) s"
      by (simp add: ctx_locks_def ctx_queued_def)
    then show ?thesis using assms by (simp add: ctx_inv_def ctx_balance_def)
  qed
  moreover have "ctx_counted (TkFire i) (ctx_unmark i s)"
    unfolding ctx_counted_def tr
  proof (intro conjI allI impI)
    fix c
    have "ctx_invocations c s + of_bool (ctx_registered c s \<and> ctx_pending c s) \<le> ctx_requests c s"
      using assms by (auto simp: ctx_inv_def ctx_counted_def)
    then show "ctx_invocations c s + of_bool (ctx_registered c (ctx_unmark i s) \<and> ctx_pending c (ctx_unmark i s)) +
        of_bool (TkFire i = TkFire c) \<le> ctx_requests c s"
      using r pen [of c] reg [of c] by (cases "c = i") auto
  qed (use assms ctx_wf_lengths [OF wf] in \<open>auto simp: ctx_inv_def ctx_counted_def nth_update_u32\<close>)
  ultimately show ?thesis by (simp add: ctx_inv_def)
qed

lemma ctx_inv_Fire:
  assumes "ctx_inv K L A (TkFire i) s"
    and "list_all (\<lambda>c. ctx_call_id c < uNumClients (tContext s)) calls"
  shows "ctx_inv K L A (TkCall i calls) (ctx_emit (CxInvoked i f h) s)"
proof -
  have views: "ctx_registered c (ctx_emit e s) = ctx_registered c s" "ctx_pending c (ctx_emit e s) = ctx_pending c s"
    "ctx_enabled c (ctx_emit e s) = ctx_enabled c s" "ctx_queued K (ctx_emit e s) = ctx_queued K s" for c e
    by (simp_all add: ctx_registered_def ctx_pending_def ctx_enabled_def ctx_queued_def)
  have "ctx_valid A (TkCall i calls) (ctx_emit (CxInvoked i f h) s)"
    using assms
    by (auto simp: ctx_inv_def ctx_valid_def views ctx_registered_def list_all_iff intro: ctx_pc_ok_mono [of s])
  moreover have "ctx_served K A (TkCall i calls) (ctx_emit (CxInvoked i f h) s)"
    using assms(1) by (auto simp: ctx_inv_def ctx_served_def ctx_promised_def views)
  moreover have "ctx_balance K L A (TkCall i calls) (ctx_emit (CxInvoked i f h) s)"
    using assms(1) by (simp add: ctx_inv_def ctx_balance_def ctx_locks_def views)
  moreover have "ctx_counted (TkCall i calls) (ctx_emit (CxInvoked i f h) s)"
    using assms(1) by (simp add: ctx_inv_def ctx_counted_def views ac_simps)
  ultimately show ?thesis by (simp add: ctx_inv_def)
qed

lemma ctx_inv_drv:
  assumes "ctx_inv K L A t s" "wl_count d = wl_count (tDrv s)" "wl_wifi d = wl_wifi (tDrv s)" "tWork d = tWork (tDrv s)"
  shows "ctx_inv K L A t (s\<lparr>tDrv := d\<rparr>)"
proof -
  have "ctx_registered c (s\<lparr>tDrv := d\<rparr>) = ctx_registered c s" "ctx_enabled c (s\<lparr>tDrv := d\<rparr>) = ctx_enabled c s"
    "ctx_pending c (s\<lparr>tDrv := d\<rparr>) = ctx_pending c s" "ctx_requests c (s\<lparr>tDrv := d\<rparr>) = ctx_requests c s"
    "ctx_invocations c (s\<lparr>tDrv := d\<rparr>) = ctx_invocations c s" "ctx_queued K (s\<lparr>tDrv := d\<rparr>) = ctx_queued K s" for c
    using assms(4) by (simp_all add: ctx_views)
  note same = this
  have "ctx_pc_ok (s\<lparr>tDrv := d\<rparr>) pc = ctx_pc_ok s pc" for pc by (cases pc) (simp_all add: same)
  moreover have "ctx_task_ok (s\<lparr>tDrv := d\<rparr>) t = ctx_task_ok s t" by (cases t) (simp_all add: same)
  moreover have "ctx_locks K L A t (s\<lparr>tDrv := d\<rparr>) = ctx_locks K L A t s"
    by (rule ctx_locks_cong) (simp add: assms(4))
  ultimately show ?thesis
    using assms
    by (simp add: ctx_inv_def ctx_valid_def ctx_served_def ctx_promised_def ctx_balance_def ctx_counted_def same)
qed

lemma ctx_inv_Timeout:
  assumes "ctx_inv K L A TkTimeout s"
  shows "ctx_inv K L A TkUnlock (s\<lparr>tDrv := snd (os_wake_lock_timeout (tDrv s))\<rparr>)"
proof (rule ctx_inv_drv)
  show "ctx_inv K L A TkUnlock s" by (rule ctx_inv_move [OF assms]) auto
qed (simp_all add: os_wake_lock_timeout_def)

lemma ctx_inv_Unlock:
  assumes "ctx_inv K L A TkUnlock s"
  shows "ctx_inv K L A TkIdle (ctx_WakeUnlock s)"
proof -
  have "ctx_valid A TkIdle (ctx_WakeUnlock s)" "ctx_served K A TkIdle (ctx_WakeUnlock s)"
    "ctx_counted TkIdle (ctx_WakeUnlock s)"
    using assms
    by (auto simp: ctx_inv_def ctx_valid_def ctx_served_def ctx_promised_def ctx_counted_def ctx_views
        intro: ctx_pc_ok_mono [of s])
  moreover have "ctx_locks K L A TkUnlock s = Suc (ctx_locks K L A TkIdle s)"
    by (simp add: ctx_locks_def)
  then have "ctx_balance K L A TkIdle (ctx_WakeUnlock s)"
    using assms by (auto simp: ctx_inv_def ctx_balance_def ctx_WakeUnlock_wifi)
  ultimately show ?thesis by (simp add: ctx_inv_def)
qed

lemma ctx_task_step_inv:
  assumes K: "kq_ok K" and inv: "ctx_inv K L (C + ctx_own t) t s"
    and step: "ctx_task_step (kq_queue K) client t s = Some (t', s')"
  shows "ctx_inv K L (C + ctx_own t') t' s'"
proof (cases t)
  case (TkTest i)
  then show ?thesis using ctx_inv_Test [of K L C i s] inv step by auto
next
  case (TkEnabled i)
  then show ?thesis using ctx_inv_Enabled [of K L C i s] inv step by auto
next
  case (TkClear i)
  then show ?thesis using ctx_inv_Clear [of K L C i s] inv step by auto
next
  case (TkFire i)
  then show ?thesis using ctx_inv_Fire [of K L C i s] inv step by (auto simp: Let_def split: if_splits)
next
  case (TkCall i cs)
  then have reg: "ctx_registered i s" "list_all (\<lambda>c. ctx_registered (ctx_call_id c) s) cs"
    using inv by (auto simp: ctx_inv_def ctx_valid_def)
  show ?thesis
  proof (cases cs)
    case Nil
    have "ctx_inv K L C (TkTest (i + 1)) s"
      by (rule ctx_inv_move [of K L C "TkCall i cs"])
        (use inv TkCall Nil reg(1) in \<open>auto simp: ctx_registered_def inc_le\<close>)
    then show ?thesis using step TkCall Nil by auto
  next
    case (Cons c cs')
    have "ctx_inv K L C (TkCall i cs') s"
      by (rule ctx_inv_move [of K L C "TkCall i cs"]) (use inv TkCall Cons reg in auto)
    moreover have "ctx_pc_ok s (ctx_entry c)" "\<not> ctx_holds_lock (ctx_entry c)" "\<And>d. \<not> ctx_will_queue d (ctx_entry c)"
      using reg(2) Cons by (cases c; simp)+
    ultimately have "ctx_inv K L (add_mset (ctx_entry c) C) (TkCall i cs') s"
      by (auto simp: ctx_inv_def ctx_valid_def ctx_served_def ctx_promised_def ctx_balance_free)
    then show ?thesis using step TkCall Cons by (auto simp: ctx_inv_in)
  qed
next
  case (TkIn i cs pc)
  obtain pc' s'' where p: "ctx_pc_step (kq_queue K) pc s = (pc', s'')" by fastforce
  have "ctx_inv K L (C + ctx_rest pc') (TkCall i cs) s''"
    using ctx_pc_step_inv [OF K _ p, of L C "TkCall i cs"] inv TkIn by (simp add: ctx_inv_in)
  then show ?thesis using step TkIn p by (auto simp: ctx_inv_in split: option.splits)
next
  case TkTimeout
  then show ?thesis using ctx_inv_Timeout [of K L C s] inv step by auto
next
  case TkUnlock
  then show ?thesis using ctx_inv_Unlock [of K L C s] inv step by auto
qed (use step in simp)

section \<open>All steps\<close>

definition ctx_good :: "'w ctx_kernel \<Rightarrow> 'w ctx_mach \<Rightarrow> bool" where
  "ctx_good K m \<longleftrightarrow> ctx_inv K (cm_locks m) (ctx_active m) (cm_task m) (cm_sys m)"

lemma ctx_inv_call:
  assumes "ctx_inv K L A t s" "ctx_call_id c < uNumClients (tContext s)"
  shows "ctx_inv K L (add_mset (ctx_entry c) A) t s"
proof -
  have "ctx_pc_ok s (ctx_entry c)" "\<not> ctx_holds_lock (ctx_entry c)"
    using assms(2) by (cases c; simp add: ctx_registered_def)+
  then show ?thesis
    using assms(1) by (auto simp: ctx_inv_def ctx_valid_def ctx_served_def ctx_promised_def ctx_balance_free)
qed

lemma ctx_inv_start:
  assumes "kq_ok K" "ctx_inv K L A TkIdle s" "kq_queued K (tWork (tDrv s))"
  shows "ctx_inv K L A (TkTest 0) (s\<lparr>tDrv := (tDrv s)\<lparr>tWork := kq_start K (tWork (tDrv s))\<rparr>\<rparr>)"
proof -
  have "\<not> kq_queued K (kq_start K (tWork (tDrv s)))" using assms(1,3) by (simp add: kq_ok_def)
  then show ?thesis
    using assms(2,3)
    by (auto simp: ctx_inv_def ctx_valid_def ctx_served_def ctx_promised_def ctx_balance_def ctx_locks_def
        ctx_counted_def ctx_views intro: ctx_pc_ok_mono [of s])
qed

lemma ctx_inv_os_lock:
  assumes "ctx_inv K L A t s"
  shows "ctx_inv K (L + 1) A t (ctx_WakeLock s)"
proof -
  have "ctx_valid A t (ctx_WakeLock s)" "ctx_served K A t (ctx_WakeLock s)" "ctx_counted t (ctx_WakeLock s)"
    using assms
    by (auto simp: ctx_inv_def ctx_valid_def ctx_served_def ctx_promised_def ctx_counted_def ctx_views
        intro: ctx_pc_ok_mono [of s] ctx_task_ok_mono [of s])
  moreover have "ctx_locks K (L + 1) A t s = ctx_locks K L A t s + 1" by (simp add: ctx_locks_def)
  then have "ctx_balance K (L + 1) A t (ctx_WakeLock s)"
    using assms by (auto simp: ctx_inv_def ctx_balance_def ctx_WakeLock_wifi)
  ultimately show ?thesis by (simp add: ctx_inv_def)
qed

lemma ctx_inv_os_unlock:
  assumes "ctx_inv K L A t s" "L \<noteq> 0"
  shows "ctx_inv K (L - 1) A t (ctx_WakeUnlock s)"
proof -
  have "ctx_valid A t (ctx_WakeUnlock s)" "ctx_served K A t (ctx_WakeUnlock s)" "ctx_counted t (ctx_WakeUnlock s)"
    using assms
    by (auto simp: ctx_inv_def ctx_valid_def ctx_served_def ctx_promised_def ctx_counted_def ctx_views
        intro: ctx_pc_ok_mono [of s] ctx_task_ok_mono [of s])
  moreover have "ctx_locks K L A t s = Suc (ctx_locks K (L - 1) A t s)" using assms(2) by (simp add: ctx_locks_def)
  then have "ctx_balance K (L - 1) A t (ctx_WakeUnlock s)"
    using assms by (auto simp: ctx_inv_def ctx_balance_def ctx_WakeUnlock_wifi)
  ultimately show ?thesis by (simp add: ctx_inv_def)
qed

lemma ctx_save_name_result:
  "ctx_save_name i name n ctx = Inr ctx' \<Longrightarrow> length (sName (aClientName ctx ! i)) = unat MAX_NAME_SIZE \<Longrightarrow>
   \<exists>e. ctx' = ctx\<lparr>aClientName := (aClientName ctx)[i := e]\<rparr> \<and> length (sName e) = unat MAX_NAME_SIZE"
  by (auto simp: ctx_save_name_def ctx_memcpy_def split: if_splits)
    (metis list_update_id TContext.surjective TContext.update_convs(10))

lemma context_RegisterClient_result:
  assumes "ctx_wf s" "f \<noteq> 0" "context_RegisterClient f h en name n (tContext s) = Inr (c, ctx')"
  shows "c = 0 \<and> ctx' = tContext s \<and> unat (uNumClients (tContext s)) = MAX_CLIENTS \<or>
    (\<exists>e. unat (uNumClients (tContext s)) < MAX_CLIENTS \<and> c = uNumClients (tContext s) \<and> length (sName e) = unat MAX_NAME_SIZE \<and>
      ctx' = (tContext s)\<lparr>uNumClients := c + 1, aClientCbFunc := (aClientCbFunc (tContext s))[unat c := f],
        aClientCbHndl := (aClientCbHndl (tContext s))[unat c := h],
        aClientEnabled := (aClientEnabled (tContext s))[unat c := en],
        aClientPending := (aClientPending (tContext s))[unat c := False],
        aClientName := (aClientName (tContext s))[unat c := e]\<rparr>)"
proof (cases "unat (uNumClients (tContext s)) = MAX_CLIENTS")
  case True
  then show ?thesis using assms(3) by (simp add: context_RegisterClient_def Let_def)
next
  case False
  then have lt: "unat (uNumClients (tContext s)) < MAX_CLIENTS" using assms(1) by (simp add: ctx_wf_def Let_def)
  have len: "length (sName (aClientName (tContext s) ! unat (uNumClients (tContext s)))) = unat MAX_NAME_SIZE"
    using assms(1) lt by (simp add: ctx_wf_def Let_def list_all_length)
  show ?thesis
    using assms(3) lt len
    by (auto simp: context_RegisterClient_def Let_def split: sum.splits dest!: ctx_save_name_result)
qed

lemma ctx_inv_register:
  assumes inv: "ctx_inv K L A t s" and f: "f \<noteq> 0" and reg: "context_RegisterClient f h en name n (tContext s) = Inr (c, ctx')"
  shows "ctx_inv K L A t (s\<lparr>tContext := ctx'\<rparr>)"
proof -
  have wf: "ctx_wf s" using inv by (simp add: ctx_inv_def ctx_valid_def)
  consider "ctx' = tContext s" | e where "unat (uNumClients (tContext s)) < MAX_CLIENTS" "c = uNumClients (tContext s)"
    "length (sName e) = unat MAX_NAME_SIZE"
    "ctx' = (tContext s)\<lparr>uNumClients := c + 1, aClientCbFunc := (aClientCbFunc (tContext s))[unat c := f],
        aClientCbHndl := (aClientCbHndl (tContext s))[unat c := h],
        aClientEnabled := (aClientEnabled (tContext s))[unat c := en],
        aClientPending := (aClientPending (tContext s))[unat c := False],
        aClientName := (aClientName (tContext s))[unat c := e]\<rparr>"
    using context_RegisterClient_result [OF wf f reg] by blast
  then show ?thesis
  proof cases
    case 1
    then show ?thesis using inv by simp
  next
    case 2
    define s' where "s' = s\<lparr>tContext := ctx'\<rparr>"
    have num: "unat (c + 1) = Suc (unat c)" using 2(1,2) by (intro unat_plus_one [of _ 8]) (simp add: MAX_CLIENTS_def)
    have wf': "ctx_wf s'"
      using wf 2(1,3) f num unfolding s'_def 2(4)
      by (auto simp: ctx_wf_def Let_def 2(2) nth_list_update less_Suc_eq list_all_length)
    have r: "ctx_registered d s' \<longleftrightarrow> ctx_registered d s \<or> d = c" for d
      using num by (auto simp: s'_def 2 ctx_registered_def word_less_nat_alt less_Suc_eq word_unat_eq_iff)
    have nr: "\<not> ctx_registered c s" by (simp add: ctx_registered_def 2(2))
    have p: "ctx_pending d s' \<longleftrightarrow> d \<noteq> c \<and> ctx_pending d s" if "ctx_registered d s'" for d
      using ctx_registered_bound [OF wf' that] ctx_wf_lengths [OF wf]
      by (auto simp: s'_def 2(4) ctx_pending_def nth_update_u32)
    have en: "ctx_enabled d s' = ctx_enabled d s" if "ctx_registered d s" for d
      using ctx_registered_bound [OF wf that] ctx_wf_lengths [OF wf] that nr
      by (auto simp: s'_def 2(4) ctx_enabled_def nth_update_u32)
    have same: "tDrv s' = tDrv s" "tTrace s' = tTrace s" "aRequestCount (tContext s') = aRequestCount (tContext s)"
      "aInvokeCount (tContext s') = aInvokeCount (tContext s)" by (simp_all add: s'_def 2(4))
    have cnt: "ctx_requests d s' = ctx_requests d s" "ctx_invocations d s' = ctx_invocations d s"
      "ctx_queued K s' = ctx_queued K s" for d by (simp_all add: ctx_views same)
    have t: "ctx_task_ok s' t"
    proof -
      have le: "uNumClients (tContext s) \<le> uNumClients (tContext s')"
        using num by (simp add: s'_def 2 word_le_nat_alt)
      have pend: "ctx_registered d s \<Longrightarrow> ctx_pending d s \<Longrightarrow> ctx_registered d s' \<and> ctx_pending d s'" for d
        using p [of d] r [of d] nr by auto
      have "ctx_task_ok s t" using inv by (simp add: ctx_inv_def ctx_valid_def)
      then show ?thesis using pend le r by (cases t) (auto simp: list_all_iff)
    qed
    have "ctx_valid A t s'"
      using inv wf' t by (auto simp: ctx_inv_def ctx_valid_def r intro: ctx_pc_ok_mono [of s])
    moreover have "ctx_served K A t s'"
      using inv p en nr by (auto simp: ctx_inv_def ctx_served_def ctx_promised_def r cnt)
    moreover have "ctx_balance K L A t s'"
      using inv ctx_balance_drv [OF same(1)] by (simp add: ctx_inv_def)
    moreover have "ctx_counted t s'"
    proof -
      have "of_bool (ctx_registered d s' \<and> ctx_pending d s') = (of_bool (ctx_registered d s \<and> ctx_pending d s) :: nat)" for d
        using p [of d] r [of d] nr by auto
      then show ?thesis using inv by (simp add: ctx_inv_def ctx_counted_def cnt same)
    qed
    ultimately show ?thesis by (simp add: ctx_inv_def s'_def)
  qed
qed

lemma ctx_next_good:
  assumes K: "kq_ok K" and good: "ctx_good K m" and nxt: "ctx_next K client l m = Some m'"
  shows "ctx_good K m'"
proof (cases l)
  case (LCall c)
  then show ?thesis
    using good nxt ctx_inv_call [of K "cm_locks m" "cm_calls m + ctx_own (cm_task m)"]
    by (auto simp: ctx_good_def ctx_active_def split: if_splits)
next
  case (LStep pc)
  obtain pc' s where p: "ctx_pc_step (kq_queue K) pc (cm_sys m) = (pc', s)" by fastforce
  have pc: "pc \<in># cm_calls m" using nxt LStep by (auto split: if_splits)
  define R where "R = cm_calls m - {#pc#} + ctx_own (cm_task m)"
  have "ctx_inv K (cm_locks m) (add_mset pc R) (cm_task m) (cm_sys m)"
    using good pc by (simp add: ctx_good_def ctx_active_def R_def)
  then have "ctx_inv K (cm_locks m) (R + ctx_rest pc') (cm_task m) s" by (rule ctx_pc_step_inv [OF K _ p])
  then show ?thesis using nxt LStep pc p by (auto simp: ctx_good_def ctx_active_def R_def ac_simps)
next
  case LStart
  then show ?thesis
    using good nxt ctx_inv_start [OF K, of "cm_locks m" "cm_calls m" "cm_sys m"]
    by (auto simp: ctx_good_def ctx_active_def Let_def split: if_splits)
next
  case LTask
  then show ?thesis
    using good nxt ctx_task_step_inv [OF K, of "cm_locks m" "cm_calls m" "cm_task m" "cm_sys m" client]
    by (auto simp: ctx_good_def ctx_active_def split: option.splits)
next
  case (LRegister f h en name n)
  then show ?thesis
    using good nxt ctx_inv_register [of K "cm_locks m" "cm_calls m + ctx_own (cm_task m)" "cm_task m" "cm_sys m" f h en name n]
    by (auto simp: ctx_good_def ctx_active_def split: sum.splits if_splits)
next
  case LOsLock
  then show ?thesis using good nxt ctx_inv_os_lock by (auto simp: ctx_good_def ctx_active_def)
next
  case LOsUnlock
  then show ?thesis
    using good nxt ctx_inv_os_unlock [of K "cm_locks m"] by (auto simp: ctx_good_def ctx_active_def split: if_splits)
next
  case LPacket
  have "ctx_inv K (cm_locks m) (cm_calls m + ctx_own (cm_task m)) (cm_task m)
      ((cm_sys m)\<lparr>tDrv := snd (os_wake_lock_timeout_enable (tDrv (cm_sys m)))\<rparr>)"
    by (rule ctx_inv_drv) (use good in \<open>auto simp: ctx_good_def ctx_active_def os_wake_lock_timeout_enable_def\<close>)
  then show ?thesis using nxt LPacket by (auto simp: ctx_good_def ctx_active_def Let_def)
qed

lemma ctx_boot_good: "\<not> kq_queued K w \<Longrightarrow> ctx_good K (ctx_boot hOs hReport lock w)"
  by (auto simp: ctx_good_def ctx_active_def ctx_boot_def ctx_inv_def ctx_valid_def ctx_wf_def ctx_served_def ctx_balance_def
      ctx_locks_def ctx_counted_def ctx_views context_Create_def context_Init_def context_SetDefaults_def MAX_NAME_SIZE_def
      list_all_iff)

lemma ctx_reach_good:
  assumes "ctx_reach K client m" "kq_ok K"
  shows "ctx_good K m"
  using assms by (induction) (auto simp: ctx_boot_good intro: ctx_next_good)

end
