(* ===== verification/ContextProps.thy ===== *)
theory ContextProps
  imports ContextTask
begin

text \<open>
  What the module of theory \<open>Context\<close> promises its clients: no request is lost, whatever interrupts what, and
  each is served by one run of the driver task; the wake lock is held as long as there is work and given back
  after it; the functions of theory \<open>Context\<close> are the uninterrupted runs of the machine of theory \<open>ContextTask\<close>.
\<close>

section \<open>Uninterrupted runs\<close>

fun ctx_invoked :: "ctx_event list \<Rightarrow> u32 list" where
  "ctx_invoked [] = []"
| "ctx_invoked (CxInvoked i f h # es) = i # ctx_invoked es"
| "ctx_invoked (e # es) = ctx_invoked es"

lemma ctx_invoked_append [simp]: "ctx_invoked (a @ b) = ctx_invoked a @ ctx_invoked b"
  by (induction a rule: ctx_invoked.induct) auto

text \<open>One step of the work function on its place and the state.\<close>

definition ctx_tstep :: "'w ctx_qw \<Rightarrow> ctx_client \<Rightarrow> ctx_task \<times> 'w TSys \<Rightarrow> ctx_task \<times> 'w TSys \<Rightarrow> bool" where
  "ctx_tstep qw client a b \<longleftrightarrow> ctx_task_step qw client (fst a) (snd a) = Some b"

lemma ctx_tstepI: "ctx_task_step qw client t s = Some (t', s') \<Longrightarrow> ctx_tstep qw client (t, s) (t', s')"
  by (simp add: ctx_tstep_def)

text \<open>The steps of a call, from its entry to its return.\<close>

inductive ctx_pc_run :: "'w ctx_qw \<Rightarrow> ctx_pc \<Rightarrow> 'w TSys \<Rightarrow> ctx_pc list \<Rightarrow> 'w TSys \<Rightarrow> bool" for qw where
  last: "ctx_pc_step qw pc s = (None, s') \<Longrightarrow> ctx_pc_run qw pc s [pc] s'"
| more: "ctx_pc_step qw pc s = (Some pc', s') \<Longrightarrow> ctx_pc_run qw pc' s' pcs s'' \<Longrightarrow> ctx_pc_run qw pc s (pc # pcs) s''"

lemma ctx_pc_run_tstep:
  "ctx_pc_run qw pc s pcs s' \<Longrightarrow> (ctx_tstep qw client)\<^sup>*\<^sup>* (TkIn i cs pc, s) (TkCall i cs, s')"
proof (induction rule: ctx_pc_run.induct)
  case (last pc s s')
  then show ?case by (intro r_into_rtranclp ctx_tstepI) simp
next
  case (more pc s pc' s' pcs s'')
  have "ctx_tstep qw client (TkIn i cs pc, s) (TkIn i cs pc', s')" using more(1) by (intro ctx_tstepI) simp
  then show ?case using more.IH by (rule converse_rtranclp_into_rtranclp)
qed

lemma ctx_pc_run_label:
  "ctx_pc_run (kq_queue K) pc (cm_sys m) pcs s' \<Longrightarrow> cm_calls m = add_mset pc C \<Longrightarrow>
   ctx_run K client (map LStep pcs) m = Some (m\<lparr>cm_sys := s', cm_calls := C\<rparr>)"
proof (induction pc "cm_sys m" pcs s' arbitrary: m rule: ctx_pc_run.induct)
  case (last pc s')
  then show ?case by simp
next
  case (more pc pc' s' pcs s'')
  show ?case
    using more(1,4) more(3) [of "m\<lparr>cm_sys := s', cm_calls := add_mset pc' C\<rparr>"] by simp
qed

lemma ctx_schedule_run:
  assumes "bContextSwitchRequired (tContext s)"
  shows "\<exists>s' pcs. ctx_schedule qw task s = Some (Inr s') \<and> ctx_pc_run qw ScLock s pcs s' \<and> tContext s' = tContext s \<and>
    tTrace s' = tTrace s"
proof -
  obtain st drv where d: "os_RequestSchedule qw (tDrv (ctx_WakeLock s)) = (st, drv)" by fastforce
  define s1 where "s1 = (ctx_WakeLock s)\<lparr>tDrv := drv\<rparr>"
  have q: "ctx_pc_step qw ScQueue (ctx_WakeLock s) = (if st \<noteq> TI_OK then Some ScUnlock else None, s1)"
    by (simp add: d s1_def)
  have sched: "ctx_schedule qw task s = Some (Inr (if st \<noteq> TI_OK then ctx_WakeUnlock s1 else s1))"
    using assms by (simp add: ctx_schedule_def Let_def d s1_def)
  have c: "tContext s1 = tContext s" "tTrace s1 = tTrace s" by (simp_all add: s1_def)
  show ?thesis
  proof (cases "st = TI_OK")
    case True
    have "ctx_pc_run qw ScLock s [ScLock, ScQueue] s1"
      using q True by (auto intro!: ctx_pc_run.intros)
    then show ?thesis using sched c True by auto
  next
    case False
    have "ctx_pc_run qw ScLock s [ScLock, ScQueue, ScUnlock] (ctx_WakeUnlock s1)"
      using q False by (auto intro!: ctx_pc_run.intros)
    then show ?thesis using sched c False by auto
  qed
qed

text \<open>What a call does to the flags.\<close>

definition ctx_effect :: "ctx_call \<Rightarrow> 'w TSys \<Rightarrow> 'w TSys \<Rightarrow> bool" where
  "ctx_effect c s s' \<longleftrightarrow> ctx_wf s' \<and> uNumClients (tContext s') = uNumClients (tContext s) \<and>
     ctx_invoked (tTrace s') = ctx_invoked (tTrace s) \<and>
     (\<forall>d. ctx_registered d s \<longrightarrow>
        (ctx_pending d s' \<longleftrightarrow> ctx_pending d s \<or> c = CallRequest d) \<and>
        (ctx_enabled d s' \<longleftrightarrow> ctx_enabled d s \<and> c \<noteq> CallDisable d \<or> c = CallEnable d))"

lemma ctx_mark_effect:
  assumes "ctx_wf s"
  shows "ctx_effect (CallRequest c) s (ctx_mark c s)"
  using assms ctx_wf_lengths [OF assms] ctx_registered_bound [OF assms]
  by (auto simp: ctx_effect_def ctx_pending_def ctx_enabled_def nth_update_u32)

lemma ctx_set_enabled_effect:
  assumes "ctx_wf s"
  shows "ctx_effect (if b then CallEnable c else CallDisable c) s (ctx_set_enabled c b s)"
  using assms ctx_wf_lengths [OF assms] ctx_registered_bound [OF assms]
  by (auto simp: ctx_effect_def ctx_pending_def ctx_enabled_def nth_update_u32)

lemma ctx_effect_views:
  assumes "ctx_effect c s s'" "tContext s'' = tContext s'" "tTrace s'' = tTrace s'"
  shows "ctx_effect c s s''"
  using assms by (simp add: ctx_effect_def ctx_wf_cong [OF assms(2)] ctx_pending_def ctx_enabled_def)

lemma ctx_do_call_run:
  assumes wf: "ctx_wf s" and reg: "ctx_registered (ctx_call_id c) s"
  shows "\<exists>s' pcs. ctx_do_call qw task c s = Some (Inr s') \<and> ctx_pc_run qw (ctx_entry c) s pcs s' \<and> ctx_effect c s s'"
proof (cases c)
  case (CallRequest d)
  have b: "\<not> unat d \<ge> MAX_CLIENTS" using ctx_registered_bound [OF wf reg] CallRequest by simp
  have sw: "bContextSwitchRequired (tContext (ctx_mark d s))"
    using wf by (simp add: ctx_wf_def ctx_mark_def ctx_set_pending_def Let_def)
  obtain s' pcs where s': "ctx_schedule qw task (ctx_mark d s) = Some (Inr s')" "ctx_pc_run qw ScLock (ctx_mark d s) pcs s'"
    "tContext s' = tContext (ctx_mark d s)" "tTrace s' = tTrace (ctx_mark d s)"
    using ctx_schedule_run [OF sw] by blast
  have "ctx_pc_run qw (RsSet d) s (RsSet d # pcs) s'" by (rule ctx_pc_run.more [OF _ s'(2)]) simp
  moreover have "ctx_effect c s s'"
    using ctx_effect_views [OF ctx_mark_effect [OF wf] s'(3,4)] CallRequest by simp
  ultimately show ?thesis using s'(1) b CallRequest by (auto simp: context_RequestSchedule_def)
next
  case (CallEnable d)
  have b: "\<not> unat d \<ge> MAX_CLIENTS" using ctx_registered_bound [OF wf reg] CallEnable by simp
  let ?s = "ctx_set_enabled d True s"
  have eff: "ctx_effect c s ?s" using ctx_set_enabled_effect [OF wf, of True d] CallEnable by simp
  have sw: "bContextSwitchRequired (tContext ?s)"
    using wf by (simp add: ctx_wf_def ctx_set_enabled_def Let_def)
  consider "ctx_enabled d s" | "\<not> ctx_enabled d s" "\<not> ctx_pending d ?s" | "\<not> ctx_enabled d s" "ctx_pending d ?s" by blast
  then show ?thesis
  proof cases
    case 1
    have "ctx_effect c s s" using 1 wf CallEnable by (auto simp: ctx_effect_def)
    then show ?thesis
      using 1 b CallEnable
      by (intro exI [of _ s] exI [of _ "[EnCheck d]"]) (auto simp: context_EnableClient_def intro: ctx_pc_run.last)
  next
    case 2
    have "ctx_pc_run qw (EnCheck d) s [EnCheck d, EnSet d, EnTest d] ?s"
      using 2 by (auto intro!: ctx_pc_run.intros)
    then show ?thesis using 2 b CallEnable eff by (auto simp: context_EnableClient_def Let_def)
  next
    case 3
    obtain s' pcs where s': "ctx_schedule qw task ?s = Some (Inr s')" "ctx_pc_run qw ScLock ?s pcs s'"
      "tContext s' = tContext ?s" "tTrace s' = tTrace ?s"
      using ctx_schedule_run [OF sw] by blast
    have "ctx_pc_run qw (EnTest d) ?s (EnTest d # pcs) s'" by (rule ctx_pc_run.more [OF _ s'(2)]) (simp add: 3)
    then have "ctx_pc_run qw (EnSet d) s (EnSet d # EnTest d # pcs) s'" by (intro ctx_pc_run.more) auto
    then have "ctx_pc_run qw (EnCheck d) s (EnCheck d # EnSet d # EnTest d # pcs) s'"
      using 3 by (intro ctx_pc_run.more) auto
    then show ?thesis
      using 3 b CallEnable s'(1) ctx_effect_views [OF eff s'(3,4)] by (auto simp: context_EnableClient_def Let_def)
  qed
next
  case (CallDisable d)
  have b: "\<not> unat d \<ge> MAX_CLIENTS" using ctx_registered_bound [OF wf reg] CallDisable by simp
  show ?thesis
  proof (cases "ctx_enabled d s")
    case True
    have "ctx_pc_run qw (DiCheck d) s [DiCheck d, DiSet d] (ctx_set_enabled d False s)"
      using True by (auto intro!: ctx_pc_run.intros)
    then show ?thesis
      using True b CallDisable ctx_set_enabled_effect [OF wf, of False d] by (auto simp: context_DisableClient_def)
  next
    case False
    have "ctx_effect c s s" using False wf CallDisable by (auto simp: ctx_effect_def)
    then show ?thesis
      using False b CallDisable
      by (intro exI [of _ s] exI [of _ "[DiCheck d]"]) (auto simp: context_DisableClient_def intro: ctx_pc_run.last)
  qed
qed

text \<open>The state after part of a run of the task: nothing that waited was lost, and an enabled client was only
  disabled by a call for it.\<close>

definition ctx_kept :: "u32 set \<Rightarrow> 'w TSys \<Rightarrow> 'w TSys \<Rightarrow> bool" where
  "ctx_kept D s s' \<longleftrightarrow> ctx_wf s' \<and> uNumClients (tContext s') = uNumClients (tContext s) \<and>
     (\<forall>d. ctx_registered d s \<longrightarrow> ctx_enabled d s \<longrightarrow> d \<notin> D \<longrightarrow> ctx_enabled d s')"

definition ctx_still :: "u32 set \<Rightarrow> u32 \<Rightarrow> 'w TSys \<Rightarrow> 'w TSys \<Rightarrow> bool" where
  "ctx_still R i s s' \<longleftrightarrow>
     (\<forall>d. ctx_registered d s \<longrightarrow> ctx_pending d s \<longrightarrow> d \<noteq> i \<longrightarrow> ctx_pending d s') \<and>
     (\<forall>d. ctx_registered d s \<longrightarrow> ctx_pending d s' \<longrightarrow> d \<notin> R \<longrightarrow> ctx_pending d s \<and> (d = i \<longrightarrow> \<not> ctx_enabled d s))"

definition ctx_client_ok :: "ctx_client \<Rightarrow> 'w TSys \<Rightarrow> bool" where
  "ctx_client_ok client s \<longleftrightarrow> (\<forall>f h tr. list_all (\<lambda>c. ctx_registered (ctx_call_id c) s) (client f h tr))"

definition ctx_disables :: "ctx_client \<Rightarrow> u32 set" where
  "ctx_disables client = {c. \<exists>f h tr. CallDisable c \<in> set (client f h tr)}"

definition ctx_asks :: "ctx_client \<Rightarrow> u32 set" where
  "ctx_asks client = {c. \<exists>f h tr. CallRequest c \<in> set (client f h tr)}"

lemma ctx_registered_cong: "uNumClients (tContext s') = uNumClients (tContext s) \<Longrightarrow> ctx_registered c s' = ctx_registered c s"
  by (simp add: ctx_registered_def)

lemma ctx_do_calls_run:
  assumes "ctx_wf s" "list_all (\<lambda>c. ctx_registered (ctx_call_id c) s) cs"
  shows "\<exists>s'. ctx_do_calls qw task cs s = Some (Inr s') \<and>
    (ctx_tstep qw client)\<^sup>*\<^sup>* (TkCall i cs, s) (TkCall i [], s') \<and>
    ctx_kept {c. CallDisable c \<in> set cs} s s' \<and>
    (\<forall>d. ctx_registered d s \<longrightarrow> (ctx_pending d s' \<longleftrightarrow> ctx_pending d s \<or> CallRequest d \<in> set cs)) \<and>
    ctx_invoked (tTrace s') = ctx_invoked (tTrace s)"
  using assms
proof (induction cs arbitrary: s)
  case Nil
  then show ?case by (auto simp: ctx_kept_def)
next
  case (Cons c cs)
  obtain s1 pcs where s1: "ctx_do_call qw task c s = Some (Inr s1)" "ctx_pc_run qw (ctx_entry c) s pcs s1" "ctx_effect c s s1"
    using ctx_do_call_run [OF Cons.prems(1), of c qw task] Cons.prems(2) by auto
  have num: "uNumClients (tContext s1) = uNumClients (tContext s)" and wf1: "ctx_wf s1"
    using s1(3) by (simp_all add: ctx_effect_def)
  have "list_all (\<lambda>c. ctx_registered (ctx_call_id c) s1) cs"
    using Cons.prems(2) by (simp add: ctx_registered_cong [OF num])
  from Cons.IH [OF wf1 this] obtain s' where s': "ctx_do_calls qw task cs s1 = Some (Inr s')"
    "(ctx_tstep qw client)\<^sup>*\<^sup>* (TkCall i cs, s1) (TkCall i [], s')" "ctx_kept {c. CallDisable c \<in> set cs} s1 s'"
    "\<forall>d. ctx_registered d s1 \<longrightarrow> (ctx_pending d s' \<longleftrightarrow> ctx_pending d s1 \<or> CallRequest d \<in> set cs)"
    "ctx_invoked (tTrace s') = ctx_invoked (tTrace s1)"
    by blast
  have "ctx_tstep qw client (TkCall i (c # cs), s) (TkIn i cs (ctx_entry c), s)" by (rule ctx_tstepI) simp
  then have "(ctx_tstep qw client)\<^sup>*\<^sup>* (TkCall i (c # cs), s) (TkCall i [], s')"
    using ctx_pc_run_tstep [OF s1(2), of client i cs] s'(2) by (meson converse_rtranclp_into_rtranclp rtranclp_trans)
  moreover have "ctx_kept {d. CallDisable d \<in> set (c # cs)} s s'"
    using s'(3) s1(3) by (auto simp: ctx_kept_def ctx_effect_def ctx_registered_cong [OF num])
  ultimately show ?case
    using s' s1 by (intro exI [of _ s']) (auto simp: ctx_effect_def ctx_registered_cong [OF num])
qed

lemma ctx_client_ok_cong:
  "uNumClients (tContext s') = uNumClients (tContext s) \<Longrightarrow> ctx_client_ok client s' = ctx_client_ok client s"
  by (simp add: ctx_client_ok_def ctx_registered_def)

lemma ctx_serve_run:
  assumes wf: "ctx_wf s" and reg: "ctx_registered i s" and ok: "ctx_client_ok client s"
  shows "\<exists>s'. ctx_serve qw client task i s = Some (Inr s') \<and>
    (ctx_tstep qw client)\<^sup>*\<^sup>* (TkTest i, s) (TkTest (i + 1), s') \<and> ctx_kept (ctx_disables client) s s' \<and> ctx_still (ctx_asks client) i s s' \<and>
    ctx_invoked (tTrace s') = ctx_invoked (tTrace s) @ (if ctx_pending i s \<and> ctx_enabled i s then [i] else [])"
proof (cases "ctx_pending i s \<and> ctx_enabled i s")
  case False
  have "(ctx_tstep qw client)\<^sup>*\<^sup>* (TkTest i, s) (TkTest (i + 1), s)"
  proof (cases "ctx_pending i s")
    case True
    have "ctx_tstep qw client (TkTest i, s) (TkEnabled i, s)" "ctx_tstep qw client (TkEnabled i, s) (TkTest (i + 1), s)"
      using True False reg by (auto intro!: ctx_tstepI simp: ctx_registered_def)
    then show ?thesis by (meson r_into_rtranclp rtranclp.rtrancl_into_rtrancl)
  next
    case False
    have "ctx_tstep qw client (TkTest i, s) (TkTest (i + 1), s)"
      using False reg by (auto intro!: ctx_tstepI simp: ctx_registered_def)
    then show ?thesis by blast
  qed
  then show ?thesis using False wf by (auto simp: ctx_serve_def ctx_kept_def ctx_still_def)
next
  case True
  let ?f = "aClientCbFunc (tContext s) ! unat i" and ?h = "aClientCbHndl (tContext s) ! unat i"
  define s1 where "s1 = ctx_unmark i s"
  define s2 where "s2 = ctx_emit (CxInvoked i ?f ?h) s1"
  define cs where "cs = client ?f ?h (tTrace s2)"
  have f: "?f \<noteq> 0" using wf reg by (simp add: ctx_wf_def ctx_registered_def Let_def word_less_nat_alt)
  have num: "uNumClients (tContext s2) = uNumClients (tContext s)" by (simp add: s2_def s1_def)
  have wf2: "ctx_wf s2" using wf by (simp add: s2_def s1_def)
  have ids: "list_all (\<lambda>c. ctx_registered (ctx_call_id c) s2) cs"
    using ok by (simp add: ctx_client_ok_def cs_def ctx_registered_cong [OF num])
  obtain s' where s': "ctx_do_calls qw task cs s2 = Some (Inr s')"
    "(ctx_tstep qw client)\<^sup>*\<^sup>* (TkCall i cs, s2) (TkCall i [], s')" "ctx_kept {c. CallDisable c \<in> set cs} s2 s'"
    "\<forall>d. ctx_registered d s2 \<longrightarrow> (ctx_pending d s' \<longleftrightarrow> ctx_pending d s2 \<or> CallRequest d \<in> set cs)"
    "ctx_invoked (tTrace s') = ctx_invoked (tTrace s2)"
    using ctx_do_calls_run [OF wf2 ids] by blast
  have steps: "ctx_tstep qw client (TkTest i, s) (TkEnabled i, s)" "ctx_tstep qw client (TkEnabled i, s) (TkClear i, s)"
    "ctx_tstep qw client (TkClear i, s) (TkFire i, s1)" "ctx_tstep qw client (TkCall i [], s') (TkTest (i + 1), s')"
    using True reg by (auto intro!: ctx_tstepI simp: ctx_registered_def s1_def)
  have "ctx_tstep qw client (TkFire i, s1) (TkCall i cs, s2)"
    using ids num
    by (intro ctx_tstepI) (simp add: Let_def s2_def s1_def cs_def ctx_registered_def)
  then have run: "(ctx_tstep qw client)\<^sup>*\<^sup>* (TkTest i, s) (TkTest (i + 1), s')"
    using steps s'(2) by (meson converse_rtranclp_into_rtranclp rtranclp.rtrancl_into_rtrancl)
  have "ctx_serve qw client task i s = Some (Inr s')"
    using True f s'(1) by (simp add: ctx_serve_def ctx_invoke_def Let_def s2_def s1_def cs_def)
  moreover have "ctx_kept (ctx_disables client) s s'"
    using s'(3) num by (auto simp: ctx_kept_def ctx_disables_def cs_def ctx_registered_def s2_def s1_def ctx_enabled_def)
  moreover have "ctx_still (ctx_asks client) i s s'"
  proof -
    have "ctx_pending d s2 \<longleftrightarrow> d \<noteq> i \<and> ctx_pending d s" if "ctx_registered d s" for d
      using ctx_registered_bound [OF wf that] ctx_wf_lengths [OF wf]
      by (auto simp: s2_def s1_def ctx_pending_def nth_update_u32)
    moreover have "CallRequest d \<in> set cs \<Longrightarrow> d \<in> ctx_asks client" for d by (auto simp: cs_def ctx_asks_def)
    ultimately show ?thesis using s'(4) by (auto simp: ctx_still_def ctx_registered_cong [OF num])
  qed
  ultimately show ?thesis
    using run True s'(5) by (intro exI [of _ s']) (simp add: s2_def s1_def)
qed

text \<open>A client that is pending after the loop from client \<open>i\<close> on has been requested by a callback, or it was
  pending before and not to be served: before \<open>i\<close>, not enabled, or disabled by a callback.\<close>

definition ctx_left :: "ctx_client \<Rightarrow> u32 \<Rightarrow> 'w TSys \<Rightarrow> 'w TSys \<Rightarrow> bool" where
  "ctx_left client i s s' \<longleftrightarrow>
     (\<forall>d. ctx_registered d s \<longrightarrow> ctx_pending d s' \<longrightarrow> d \<notin> ctx_asks client \<longrightarrow>
        ctx_pending d s \<and> (d < i \<or> \<not> ctx_enabled d s \<or> d \<in> ctx_disables client))"

text \<open>The loop from client \<open>i\<close> on.\<close>

lemma ctx_loop_run:
  assumes "ctx_wf s" "ctx_client_ok client s" "i \<le> uNumClients (tContext s)"
  shows "\<exists>s' cs. ctx_loop qw client task i s = Some (Inr s') \<and>
    (ctx_tstep qw client)\<^sup>*\<^sup>* (TkTest i, s) (TkTimeout, s') \<and>
    ctx_invoked (tTrace s') = ctx_invoked (tTrace s) @ cs \<and> sorted_wrt (<) cs \<and> list_all (\<lambda>c. i \<le> c) cs \<and>
    (\<forall>c. i \<le> c \<longrightarrow> ctx_registered c s \<longrightarrow> ctx_enabled c s \<longrightarrow> ctx_pending c s \<longrightarrow> c \<notin> ctx_disables client \<longrightarrow> c \<in> set cs) \<and>
    (\<forall>c \<in> set cs. ctx_registered c s \<and> (ctx_pending c s \<or> c \<in> ctx_asks client)) \<and>
    ctx_wf s' \<and> uNumClients (tContext s') = uNumClients (tContext s) \<and> ctx_left client i s s' \<and>
    ctx_kept (ctx_disables client) s s'"
  using assms
proof (induction "unat (uNumClients (tContext s)) - unat i" arbitrary: i s)
  case 0
  then have i: "\<not> i < uNumClients (tContext s)" by (simp add: word_less_nat_alt word_le_nat_alt)
  have "ctx_tstep qw client (TkTest i, s) (TkTimeout, s)" using i by (intro ctx_tstepI) simp
  then show ?case
    using i "0.prems"(1) by (intro exI [of _ s] exI [of _ "[]"]) (auto simp: ctx_loop.simps [of _ _ _ i s] ctx_registered_def ctx_left_def ctx_kept_def)
next
  case (Suc n)
  then have lt: "i < uNumClients (tContext s)" by (simp add: word_less_nat_alt)
  then have reg: "ctx_registered i s" by (simp add: ctx_registered_def)
  have b: "\<not> unat i \<ge> MAX_CLIENTS" using ctx_registered_bound [OF Suc.prems(1) reg] by simp
  have inc: "unat (i + 1) = Suc (unat i)" using lt by (intro unat_plus_one) (simp add: word_less_nat_alt)
  have order: "i + 1 \<le> c \<longleftrightarrow> i < c" for c using inc by (simp add: word_le_nat_alt word_less_nat_alt Suc_le_eq)
  obtain s1 where s1: "ctx_serve qw client task i s = Some (Inr s1)"
    "(ctx_tstep qw client)\<^sup>*\<^sup>* (TkTest i, s) (TkTest (i + 1), s1)" "ctx_kept (ctx_disables client) s s1" "ctx_still (ctx_asks client) i s s1"
    "ctx_invoked (tTrace s1) = ctx_invoked (tTrace s) @ (if ctx_pending i s \<and> ctx_enabled i s then [i] else [])"
    using ctx_serve_run [OF Suc.prems(1) reg Suc.prems(2)] by blast
  have num: "uNumClients (tContext s1) = uNumClients (tContext s)" and wf1: "ctx_wf s1"
    using s1(3) by (simp_all add: ctx_kept_def)
  have "n = unat (uNumClients (tContext s1)) - unat (i + 1)" using Suc.hyps(2) inc num by simp
  moreover have "ctx_client_ok client s1" "i + 1 \<le> uNumClients (tContext s1)"
    using Suc.prems(2) lt by (simp_all add: ctx_client_ok_cong [OF num] num order)
  ultimately obtain s' cs where s': "ctx_loop qw client task (i + 1) s1 = Some (Inr s')"
    "(ctx_tstep qw client)\<^sup>*\<^sup>* (TkTest (i + 1), s1) (TkTimeout, s')"
    "ctx_invoked (tTrace s') = ctx_invoked (tTrace s1) @ cs" "sorted_wrt (<) cs" "list_all (\<lambda>c. i + 1 \<le> c) cs"
    "\<forall>c. i + 1 \<le> c \<longrightarrow> ctx_registered c s1 \<longrightarrow> ctx_enabled c s1 \<longrightarrow> ctx_pending c s1 \<longrightarrow> c \<notin> ctx_disables client \<longrightarrow> c \<in> set cs"
    "\<forall>c \<in> set cs. ctx_registered c s1 \<and> (ctx_pending c s1 \<or> c \<in> ctx_asks client)"
    "ctx_wf s'" "uNumClients (tContext s') = uNumClients (tContext s1)" "ctx_left client (i + 1) s1 s'"
    "ctx_kept (ctx_disables client) s1 s'"
    using Suc.hyps(1) [OF _ wf1] by blast
  let ?cs = "(if ctx_pending i s \<and> ctx_enabled i s then [i] else []) @ cs"
  have "ctx_loop qw client task i s = Some (Inr s')"
    using lt b s1(1) s'(1) by (simp add: ctx_loop.simps [of _ _ _ i s])
  moreover have "(ctx_tstep qw client)\<^sup>*\<^sup>* (TkTest i, s) (TkTimeout, s')" using s1(2) s'(2) by (rule rtranclp_trans)
  moreover have "sorted_wrt (<) ?cs" "list_all (\<lambda>c. i \<le> c) ?cs"
    using s'(4,5) by (auto simp: list_all_iff order)
  moreover have "c \<in> set ?cs" if c: "i \<le> c" "ctx_registered c s" "ctx_enabled c s" "ctx_pending c s" "c \<notin> ctx_disables client" for c
  proof (cases "c = i")
    case True
    then show ?thesis using c by simp
  next
    case False
    then have "i + 1 \<le> c" using c(1) by (simp add: order)
    moreover have "ctx_registered c s1" "ctx_enabled c s1" "ctx_pending c s1"
      using c False s1(3,4) by (auto simp: ctx_kept_def ctx_still_def ctx_registered_cong [OF num])
    ultimately show ?thesis using s'(6) c(5) by simp
  qed
  moreover have below: "d < i + 1 \<longleftrightarrow> d < i \<or> d = i" for d
    using inc by (auto simp: word_less_nat_alt less_Suc_eq word_unat_eq_iff)
  have "ctx_left client i s s'"
    using s'(10) s1(3,4) below by (auto simp: ctx_left_def ctx_still_def ctx_kept_def ctx_registered_cong [OF num])
  moreover have "\<forall>c \<in> set ?cs. ctx_registered c s \<and> (ctx_pending c s \<or> c \<in> ctx_asks client)"
    using s'(7) s1(4) reg by (auto simp: ctx_still_def ctx_registered_cong [OF num])
  moreover have "ctx_kept (ctx_disables client) s s'"
    using s1(3) s'(11) by (auto simp: ctx_kept_def ctx_registered_cong [OF num])
  ultimately show ?case
    using s1(5) s'(3,8,9) num by (intro exI [of _ s'] exI [of _ ?cs]) simp
qed

text \<open>The whole work function.\<close>

lemma wlanDrvIf_DriverTask_run:
  assumes "ctx_wf s" "ctx_client_ok client s"
  shows "\<exists>s' cs. wlanDrvIf_DriverTask qw client (Suc n) s = Some (Inr s') \<and>
    (ctx_tstep qw client)\<^sup>*\<^sup>* (TkTest 0, s) (TkIdle, s') \<and>
    ctx_invoked (tTrace s') = ctx_invoked (tTrace s) @ cs \<and> sorted_wrt (<) cs \<and>
    (\<forall>c. ctx_registered c s \<longrightarrow> ctx_enabled c s \<longrightarrow> ctx_pending c s \<longrightarrow> c \<notin> ctx_disables client \<longrightarrow> c \<in> set cs) \<and>
    (\<forall>c \<in> set cs. ctx_registered c s \<and> (ctx_pending c s \<or> c \<in> ctx_asks client)) \<and>
    ctx_wf s' \<and> uNumClients (tContext s') = uNumClients (tContext s) \<and> ctx_left client 0 s s' \<and>
    ctx_kept (ctx_disables client) s s'"
proof -
  obtain s1 cs where s1: "ctx_loop qw client (context_DriverTask qw client n) 0 s = Some (Inr s1)"
    "(ctx_tstep qw client)\<^sup>*\<^sup>* (TkTest 0, s) (TkTimeout, s1)"
    "ctx_invoked (tTrace s1) = ctx_invoked (tTrace s) @ cs" "sorted_wrt (<) cs"
    "\<forall>c. 0 \<le> c \<longrightarrow> ctx_registered c s \<longrightarrow> ctx_enabled c s \<longrightarrow> ctx_pending c s \<longrightarrow> c \<notin> ctx_disables client \<longrightarrow> c \<in> set cs"
    "\<forall>c \<in> set cs. ctx_registered c s \<and> (ctx_pending c s \<or> c \<in> ctx_asks client)"
    "ctx_wf s1" "uNumClients (tContext s1) = uNumClients (tContext s)" "ctx_left client 0 s s1"
    "ctx_kept (ctx_disables client) s s1"
    using ctx_loop_run [OF assms word_zero_le, of qw "context_DriverTask qw client n"] by blast
  let ?s' = "ctx_WakeUnlock (s1\<lparr>tDrv := snd (os_wake_lock_timeout (tDrv s1))\<rparr>)"
  have "ctx_tstep qw client (TkTimeout, s1) (TkUnlock, s1\<lparr>tDrv := snd (os_wake_lock_timeout (tDrv s1))\<rparr>)"
    "ctx_tstep qw client (TkUnlock, s1\<lparr>tDrv := snd (os_wake_lock_timeout (tDrv s1))\<rparr>) (TkIdle, ?s')"
    by (auto intro!: ctx_tstepI)
  then have "(ctx_tstep qw client)\<^sup>*\<^sup>* (TkTest 0, s) (TkIdle, ?s')"
    using s1(2) by (meson rtranclp.rtrancl_into_rtrancl)
  moreover have "ctx_left client 0 s ?s'" using s1(9) by (simp add: ctx_left_def ctx_pending_def)
  moreover have "ctx_kept (ctx_disables client) s ?s'"
    using s1(10) by (simp add: ctx_kept_def ctx_enabled_def)
  ultimately show ?thesis
    using s1(1,3-8) by (intro exI [of _ ?s'] exI [of _ cs]) (simp add: wlanDrvIf_DriverTask_def)
qed

lemma ctx_tstep_run:
  assumes "(ctx_tstep (kq_queue K) client)\<^sup>*\<^sup>* a b" "cm_task m = fst a" "cm_sys m = snd a"
  shows "\<exists>k. ctx_run K client (replicate k LTask) m = Some (m\<lparr>cm_sys := snd b, cm_task := fst b\<rparr>)"
  using assms
proof (induction arbitrary: m rule: converse_rtranclp_induct)
  case base
  then show ?case by (intro exI [of _ 0]) simp
next
  case (step a a')
  let ?m = "m\<lparr>cm_sys := snd a', cm_task := fst a'\<rparr>"
  obtain k where "ctx_run K client (replicate k LTask) ?m = Some (?m\<lparr>cm_sys := snd b, cm_task := fst b\<rparr>)"
    using step.IH [of ?m] by auto
  moreover have "ctx_next K client LTask m = Some ?m"
    using step.hyps(1) step.prems by (auto simp: ctx_tstep_def split: prod.splits)
  ultimately show ?case by (intro exI [of _ "Suc k"]) simp
qed

section \<open>Properties\<close>

text \<open>C4: No request is lost. In every reachable state, whatever calls, driver task and interrupts have
  interleaved, for each enabled client that is pending the work is queued, or a call is under way that will
  queue it, or the running task has the client still to visit; when nothing runs, the work is queued.\<close>

theorem context_no_lost_request:
  assumes "kq_ok K" "ctx_reach K client m"
    and "ctx_registered c (cm_sys m)" "ctx_enabled c (cm_sys m)" "ctx_pending c (cm_sys m)"
  shows "(ctx_queued K (cm_sys m) \<or> (\<exists>pc \<in># ctx_active m. ctx_will_queue c pc) \<or> ctx_ahead c (cm_task m)) \<and>
    (cm_calls m = {#} \<and> cm_task m = TkIdle \<longrightarrow> ctx_queued K (cm_sys m))"
  using ctx_reach_good [OF assms(2,1)] assms(3-5)
  by (auto simp: ctx_good_def ctx_inv_def ctx_served_def ctx_promised_def ctx_active_def)

text \<open>C12: The wake lock. In every reachable state its counter is the number of locks of other modules, of calls
  between their lock and their unlock, and one each for the queued and the running work: it is balanced, and
  the lock is held whenever work is queued or running.\<close>

theorem context_wake_lock:
  assumes "kq_ok K" "ctx_reach K client m"
  shows "wl_count (tDrv (cm_sys m)) =
      cm_locks m + size (filter_mset ctx_holds_lock (ctx_active m)) + of_bool (ctx_queued K (cm_sys m)) +
      of_bool (cm_task m \<noteq> TkIdle) \<and>
    wl_wifi (tDrv (cm_sys m)) = (wl_count (tDrv (cm_sys m)) \<noteq> 0) \<and>
    (ctx_queued K (cm_sys m) \<or> cm_task m \<noteq> TkIdle \<longrightarrow> wl_wifi (tDrv (cm_sys m)))"
proof -
  have bal: "ctx_balance K (cm_locks m) (ctx_active m) (cm_task m) (cm_sys m)"
    using ctx_reach_good [OF assms(2,1)] by (simp add: ctx_good_def ctx_inv_def)
  moreover have "ctx_queued K (cm_sys m) \<or> cm_task m \<noteq> TkIdle \<Longrightarrow>
      ctx_locks K (cm_locks m) (ctx_active m) (cm_task m) (cm_sys m) \<noteq> 0"
    by (auto simp: ctx_locks_def)
  ultimately have "ctx_queued K (cm_sys m) \<or> cm_task m \<noteq> TkIdle \<longrightarrow> wl_wifi (tDrv (cm_sys m))"
    by (simp add: ctx_balance_def)
  then show ?thesis using bal unfolding ctx_balance_def ctx_locks_def by blast
qed

text \<open>A callback is only called for a request: in every reachable state a client has been called at most as
  often as it was requested, one time less while it is pending, and the debug counters of the module say how
  often, up to the wrap-around of 32 bits.\<close>

theorem context_calls_requested:
  assumes "kq_ok K" "ctx_reach K client m" "ctx_registered c (cm_sys m)"
  shows "ctx_invocations c (cm_sys m) + of_bool (ctx_pending c (cm_sys m)) + of_bool (cm_task m = TkFire c)
      \<le> ctx_requests c (cm_sys m) \<and>
    aRequestCount (tContext (cm_sys m)) ! unat c = of_nat (ctx_requests c (cm_sys m)) \<and>
    aInvokeCount (tContext (cm_sys m)) ! unat c =
      of_nat (ctx_invocations c (cm_sys m) + of_bool (cm_task m = TkFire c))"
proof -
  have inv: "ctx_counted (cm_task m) (cm_sys m)" "ctx_wf (cm_sys m)"
    using ctx_reach_good [OF assms(2,1)] by (auto simp: ctx_good_def ctx_inv_def ctx_valid_def)
  have b: "unat c < MAX_CLIENTS" by (rule ctx_registered_bound [OF inv(2) assms(3)])
  show ?thesis using inv(1) b assms(3) by (auto simp: ctx_counted_def dest!: spec [of _ c])
qed

text \<open>C11: A request is served. When an enabled client is pending and nothing runs, the kernel can start the
  work, which returns after finitely many of its own steps; it calls this client, unless a callback disables
  it, no client twice, and none that nobody asked for. An enabled client that still waits afterwards has been
  requested by a callback meanwhile, or been disabled by one.\<close>

theorem context_request_served:
  assumes "kq_ok K" "ctx_reach K client m" "cm_calls m = {#}" "cm_task m = TkIdle"
    and "ctx_registered c (cm_sys m)" "ctx_enabled c (cm_sys m)" "ctx_pending c (cm_sys m)"
    and "ctx_client_ok client (cm_sys m)" "c \<notin> ctx_disables client"
  shows "\<exists>k m' cs. ctx_run K client (LStart # replicate k LTask) m = Some m' \<and> cm_task m' = TkIdle \<and>
    ctx_invoked (tTrace (cm_sys m')) = ctx_invoked (tTrace (cm_sys m)) @ cs \<and> c \<in> set cs \<and> distinct cs \<and>
    list_all (\<lambda>d. ctx_pending d (cm_sys m) \<or> d \<in> ctx_asks client) cs \<and>
    (\<forall>d. ctx_registered d (cm_sys m') \<and> ctx_enabled d (cm_sys m) \<and> ctx_pending d (cm_sys m') \<longrightarrow>
       d \<in> ctx_asks client \<union> ctx_disables client)"
proof -
  let ?s = "cm_sys m"
  have good: "ctx_inv K (cm_locks m) {#} TkIdle ?s"
    using ctx_reach_good [OF assms(2,1)] assms(3,4) by (simp add: ctx_good_def ctx_active_def)
  then have q: "kq_queued K (tWork (tDrv ?s))" and wf: "ctx_wf ?s"
    using assms(5-7) by (auto simp: ctx_inv_def ctx_served_def ctx_promised_def ctx_queued_def ctx_valid_def)
  define s0 where "s0 = ?s\<lparr>tDrv := (tDrv ?s)\<lparr>tWork := kq_start K (tWork (tDrv ?s))\<rparr>\<rparr>"
  have c0: "tContext s0 = tContext ?s" "tTrace s0 = tTrace ?s" by (simp_all add: s0_def)
  have views: "ctx_registered d s0 = ctx_registered d ?s" "ctx_enabled d s0 = ctx_enabled d ?s"
    "ctx_pending d s0 = ctx_pending d ?s" for d
    by (simp_all add: ctx_views_cong [OF c0])
  have "ctx_wf s0" "ctx_client_ok client s0"
    using wf assms(8) by (simp_all add: ctx_wf_cong [OF c0(1)] ctx_client_ok_cong [of s0 "cm_sys m"] c0(1))
  from wlanDrvIf_DriverTask_run [OF this, of "kq_queue K" 0]
  obtain s' cs where s': "(ctx_tstep (kq_queue K) client)\<^sup>*\<^sup>* (TkTest 0, s0) (TkIdle, s')"
    "ctx_invoked (tTrace s') = ctx_invoked (tTrace s0) @ cs" "sorted_wrt (<) cs"
    "\<forall>c. ctx_registered c s0 \<longrightarrow> ctx_enabled c s0 \<longrightarrow> ctx_pending c s0 \<longrightarrow> c \<notin> ctx_disables client \<longrightarrow> c \<in> set cs"
    "\<forall>c \<in> set cs. ctx_registered c s0 \<and> (ctx_pending c s0 \<or> c \<in> ctx_asks client)"
    "uNumClients (tContext s') = uNumClients (tContext s0)" "ctx_left client 0 s0 s'"
    by blast
  have c: "c \<in> set cs" using s'(4) assms(5-7,9) views by simp
  have asked: "list_all (\<lambda>d. ctx_pending d ?s \<or> d \<in> ctx_asks client) cs"
    using s'(5) views by (simp add: list_all_iff)
  have left: "d \<in> ctx_asks client \<union> ctx_disables client"
    if "ctx_registered d s'" "ctx_enabled d ?s" "ctx_pending d s'" for d
    using s'(7) that views by (auto simp: ctx_left_def ctx_registered_cong [OF s'(6)])
  let ?m = "m\<lparr>cm_sys := s0, cm_task := TkTest 0\<rparr>"
  have "ctx_next K client LStart m = Some ?m" using q assms(4) by (simp add: Let_def s0_def)
  moreover obtain k where "ctx_run K client (replicate k LTask) ?m = Some (?m\<lparr>cm_sys := s', cm_task := TkIdle\<rparr>)"
    using ctx_tstep_run [OF s'(1), of ?m] by auto
  ultimately have "ctx_run K client (LStart # replicate k LTask) m = Some (?m\<lparr>cm_sys := s', cm_task := TkIdle\<rparr>)" by simp
  moreover have "distinct cs" using s'(3) by (simp add: strict_sorted_iff)
  ultimately show ?thesis
    using s'(2) c c0(2) asked left
    by (intro exI [of _ k] exI [of _ "?m\<lparr>cm_sys := s', cm_task := TkIdle\<rparr>"] exI [of _ cs]) simp
qed

text \<open>C18: The functions of theory Context are the uninterrupted runs of the machine: in every reachable state a
  call of context_RequestSchedule, context_EnableClient or context_DisableClient returns, with the state that
  its steps reach when nothing comes between them, and so does the work function when it is started.\<close>

theorem context_runs_refine:
  assumes "kq_ok K" "ctx_reach K client m"
  shows "(ctx_registered (ctx_call_id c) (cm_sys m) \<longrightarrow>
      (\<exists>s' pcs. ctx_do_call (kq_queue K) task c (cm_sys m) = Some (Inr s') \<and>
        ctx_run K client (LCall c # map LStep pcs) m = Some (m\<lparr>cm_sys := s'\<rparr>))) \<and>
    (cm_task m = TkTest 0 \<and> ctx_client_ok client (cm_sys m) \<longrightarrow>
      (\<exists>s' k. wlanDrvIf_DriverTask (kq_queue K) client (Suc n) (cm_sys m) = Some (Inr s') \<and>
        ctx_run K client (replicate k LTask) m = Some (m\<lparr>cm_sys := s', cm_task := TkIdle\<rparr>)))"
proof (intro conjI impI)
  have wf: "ctx_wf (cm_sys m)" using ctx_reach_good [OF assms(2,1)] by (simp add: ctx_good_def ctx_inv_def ctx_valid_def)
  show "\<exists>s' pcs. ctx_do_call (kq_queue K) task c (cm_sys m) = Some (Inr s') \<and>
      ctx_run K client (LCall c # map LStep pcs) m = Some (m\<lparr>cm_sys := s'\<rparr>)"
    if reg: "ctx_registered (ctx_call_id c) (cm_sys m)"
  proof -
    obtain s' pcs where s': "ctx_do_call (kq_queue K) task c (cm_sys m) = Some (Inr s')"
      "ctx_pc_run (kq_queue K) (ctx_entry c) (cm_sys m) pcs s'"
      using ctx_do_call_run [OF wf reg] by blast
    let ?m = "m\<lparr>cm_calls := add_mset (ctx_entry c) (cm_calls m)\<rparr>"
    have "ctx_run K client (map LStep pcs) ?m = Some (?m\<lparr>cm_sys := s', cm_calls := cm_calls m\<rparr>)"
      using ctx_pc_run_label [of K "ctx_entry c" ?m pcs s' "cm_calls m" client] s'(2) by simp
    then show ?thesis using s'(1) reg by (auto simp: ctx_registered_def)
  qed
  show "\<exists>s' k. wlanDrvIf_DriverTask (kq_queue K) client (Suc n) (cm_sys m) = Some (Inr s') \<and>
      ctx_run K client (replicate k LTask) m = Some (m\<lparr>cm_sys := s', cm_task := TkIdle\<rparr>)"
    if t: "cm_task m = TkTest 0 \<and> ctx_client_ok client (cm_sys m)"
  proof -
    obtain s' where s': "wlanDrvIf_DriverTask (kq_queue K) client (Suc n) (cm_sys m) = Some (Inr s')"
      "(ctx_tstep (kq_queue K) client)\<^sup>*\<^sup>* (TkTest 0, cm_sys m) (TkIdle, s')"
      using wlanDrvIf_DriverTask_run [OF wf] t by blast
    then show ?thesis using ctx_tstep_run [OF s'(2), of m] t by auto
  qed
qed

section \<open>Registration\<close>

type_synonym ctx_registration = "addr \<times> addr \<times> bool \<times> u8 list \<times> u32"

fun ctx_register_all :: "ctx_registration list \<Rightarrow> TContext \<Rightarrow> fault + u32 list \<times> TContext" where
  "ctx_register_all [] ctx = Inr ([], ctx)"
| "ctx_register_all ((f, h, en, name, n) # rs) ctx =
     (case context_RegisterClient f h en name n ctx of
        Inl e \<Rightarrow> Inl e
      | Inr (c, ctx) \<Rightarrow>
          (case ctx_register_all rs ctx of Inl e \<Rightarrow> Inl e | Inr (cs, ctx) \<Rightarrow> Inr (c # cs, ctx)))"

text \<open>The entries of client \<open>i\<close>.\<close>

definition ctx_entry_of :: "TContext \<Rightarrow> nat \<Rightarrow> addr \<times> addr \<times> bool \<times> bool" where
  "ctx_entry_of ctx i = (aClientCbFunc ctx ! i, aClientCbHndl ctx ! i, aClientEnabled ctx ! i, aClientPending ctx ! i)"

definition ctx_reg_ok :: "ctx_registration \<Rightarrow> bool" where
  "ctx_reg_ok r = (case r of (f, h, en, name, n) \<Rightarrow> n \<le> MAX_NAME_SIZE \<longrightarrow> unat n \<le> length name)"

definition ctx_tables :: "TContext \<Rightarrow> bool" where
  "ctx_tables ctx \<longleftrightarrow> length (aClientCbFunc ctx) = MAX_CLIENTS \<and> length (aClientCbHndl ctx) = MAX_CLIENTS \<and>
     length (aClientEnabled ctx) = MAX_CLIENTS \<and> length (aClientPending ctx) = MAX_CLIENTS \<and>
     length (aClientName ctx) = MAX_CLIENTS \<and> list_all (\<lambda>n. length (sName n) = unat MAX_NAME_SIZE) (aClientName ctx)"

lemma context_RegisterClient_room:
  assumes "ctx_tables ctx" "unat (uNumClients ctx) < MAX_CLIENTS" "ctx_reg_ok (f, h, en, name, n)"
  shows "\<exists>ctx'. context_RegisterClient f h en name n ctx = Inr (uNumClients ctx, ctx') \<and> ctx_tables ctx' \<and>
    unat (uNumClients ctx') = Suc (unat (uNumClients ctx)) \<and>
    (\<forall>i. ctx_entry_of ctx' i =
       (if i = unat (uNumClients ctx) then (f, h, en, False) else ctx_entry_of ctx i))"
proof -
  define c where "c = uNumClients ctx"
  have c: "unat c < MAX_CLIENTS" using assms(2) by (simp add: c_def)
  have num: "unat (c + 1) = Suc (unat c)" using c by (intro unat_plus_one [of _ 8]) (simp add: MAX_CLIENTS_def)
  have len: "length (sName (aClientName ctx ! unat c)) = unat MAX_NAME_SIZE"
    using assms(1) c by (auto simp: ctx_tables_def list_all_length)
  define ctx1 where "ctx1 = ctx\<lparr>aClientCbFunc := (aClientCbFunc ctx)[unat c := f],
      aClientCbHndl := (aClientCbHndl ctx)[unat c := h], aClientEnabled := (aClientEnabled ctx)[unat c := en],
      aClientPending := (aClientPending ctx)[unat c := False]\<rparr>"
  have "\<exists>e. ctx_save_name (unat c) name n ctx1 = Inr (ctx1\<lparr>aClientName := (aClientName ctx1)[unat c := e]\<rparr>) \<and>
      length (sName e) = unat MAX_NAME_SIZE"
  proof (cases "n \<le> MAX_NAME_SIZE")
    case True
    then have "unat n \<le> length name" "unat n \<le> unat MAX_NAME_SIZE"
      using assms(3) by (auto simp: ctx_reg_ok_def word_le_nat_alt)
    then show ?thesis using True len by (auto simp: ctx_save_name_def ctx_memcpy_def ctx1_def)
  next
    case False
    then show ?thesis
      using len by (intro exI [of _ "aClientName ctx ! unat c"]) (auto simp: ctx_save_name_def ctx1_def)
  qed
  then obtain e where e: "ctx_save_name (unat c) name n ctx1 = Inr (ctx1\<lparr>aClientName := (aClientName ctx1)[unat c := e]\<rparr>)"
    "length (sName e) = unat MAX_NAME_SIZE" by blast
  let ?ctx = "ctx1\<lparr>aClientName := (aClientName ctx1)[unat c := e], uNumClients := c + 1\<rparr>"
  have "context_RegisterClient f h en name n ctx = Inr (c, ?ctx)"
    using c e(1) by (simp add: context_RegisterClient_def Let_def ctx1_def c_def)
  moreover have "ctx_tables ?ctx"
    using assms(1) e(2) c by (auto simp: ctx_tables_def ctx1_def list_all_length nth_list_update)
  moreover have "ctx_entry_of ?ctx i = (if i = unat c then (f, h, en, False) else ctx_entry_of ctx i)" for i
    using assms(1) c by (auto simp: ctx_tables_def ctx_entry_of_def ctx1_def)
  ultimately show ?thesis using num by (auto simp: c_def)
qed

lemma ctx_register_all_ids:
  assumes "ctx_tables ctx" "unat (uNumClients ctx) + length rs \<le> MAX_CLIENTS" "list_all ctx_reg_ok rs"
  shows "\<exists>cs ctx'. ctx_register_all rs ctx = Inr (cs, ctx') \<and> ctx_tables ctx' \<and>
    map unat cs = [unat (uNumClients ctx)..<unat (uNumClients ctx) + length rs] \<and>
    unat (uNumClients ctx') = unat (uNumClients ctx) + length rs \<and>
    (\<forall>i < unat (uNumClients ctx). ctx_entry_of ctx' i = ctx_entry_of ctx i) \<and>
    (\<forall>k < length rs. ctx_entry_of ctx' (unat (uNumClients ctx) + k) = (case rs ! k of (f, h, en, name, n) \<Rightarrow> (f, h, en, False)))"
  using assms
proof (induction rs arbitrary: ctx)
  case Nil
  then show ?case by simp
next
  case (Cons r rs)
  obtain f h en name n where r: "r = (f, h, en, name, n)" by (metis prod_cases5)
  have "unat (uNumClients ctx) < MAX_CLIENTS" "ctx_reg_ok (f, h, en, name, n)" using Cons.prems r by auto
  from context_RegisterClient_room [OF Cons.prems(1) this] obtain ctx1 where
    ctx1: "context_RegisterClient f h en name n ctx = Inr (uNumClients ctx, ctx1)" "ctx_tables ctx1"
      "unat (uNumClients ctx1) = Suc (unat (uNumClients ctx))"
      "\<forall>i. ctx_entry_of ctx1 i = (if i = unat (uNumClients ctx) then (f, h, en, False) else ctx_entry_of ctx i)"
    by blast
  have "unat (uNumClients ctx1) + length rs \<le> MAX_CLIENTS" "list_all ctx_reg_ok rs" using Cons.prems ctx1(3) by auto
  from Cons.IH [OF ctx1(2) this] obtain cs ctx' where
    ctx': "ctx_register_all rs ctx1 = Inr (cs, ctx')" "ctx_tables ctx'"
      "map unat cs = [Suc (unat (uNumClients ctx))..<Suc (unat (uNumClients ctx)) + length rs]"
      "unat (uNumClients ctx') = Suc (unat (uNumClients ctx)) + length rs"
      "\<forall>i < Suc (unat (uNumClients ctx)). ctx_entry_of ctx' i = ctx_entry_of ctx1 i"
      "\<forall>k < length rs. ctx_entry_of ctx' (Suc (unat (uNumClients ctx)) + k) = (case rs ! k of (f, h, en, name, n) \<Rightarrow> (f, h, en, False))"
    unfolding ctx1(3) by blast
  have "ctx_entry_of ctx' (unat (uNumClients ctx) + k) = (case (r # rs) ! k of (f, h, en, name, n) \<Rightarrow> (f, h, en, False))"
    if "k < length (r # rs)" for k
    using that ctx'(5,6) ctx1(4) r by (cases k) auto
  moreover have "map unat (uNumClients ctx # cs) = [unat (uNumClients ctx)..<unat (uNumClients ctx) + length (r # rs)]"
    by (simp add: ctx'(3) upt_conv_Cons del: upt_Suc)
  ultimately show ?case
    using ctx1 ctx' r by (intro exI [of _ "uNumClients ctx # cs"] exI [of _ ctx']) auto
qed

text \<open>C40: Registration. The clients registered with the new module, up to eight, get the numbers from zero on in
  their order, each with its callback, its handle and its flag, and not pending; a ninth registration changes
  nothing and is answered with zero, the number of the first client.\<close>

theorem context_RegisterClient_numbers:
  assumes "length rs \<le> MAX_CLIENTS" "list_all ctx_reg_ok rs" "context_Create True = Some ctx0"
  shows "\<exists>cs ctx. ctx_register_all rs (context_Init hOs hReport lock ctx0) = Inr (cs, ctx) \<and>
    map unat cs = [0..<length rs] \<and> unat (uNumClients ctx) = length rs \<and>
    list_all (\<lambda>k. ctx_entry_of ctx k = (case rs ! k of (f, h, en, name, n) \<Rightarrow> (f, h, en, False))) [0..<length rs] \<and>
    (length rs = MAX_CLIENTS \<longrightarrow> context_RegisterClient f h en name n ctx = Inr (0, ctx))"
proof -
  have "ctx_tables (context_Init hOs hReport lock ctx0)" "unat (uNumClients (context_Init hOs hReport lock ctx0)) = 0"
    using assms(3) by (auto simp: context_Create_def context_Init_def ctx_tables_def list_all_iff)
  from ctx_register_all_ids [OF this(1), of rs] this(2) assms(1,2) obtain cs ctx where
    "ctx_register_all rs (context_Init hOs hReport lock ctx0) = Inr (cs, ctx)" "map unat cs = [0..<length rs]"
    "unat (uNumClients ctx) = length rs"
    "\<forall>k < length rs. ctx_entry_of ctx k = (case rs ! k of (f, h, en, name, n) \<Rightarrow> (f, h, en, False))"
    by auto
  then show ?thesis
    by (intro exI [of _ cs] exI [of _ ctx]) (simp add: list_all_iff context_RegisterClient_def Let_def)
qed

section \<open>Without a context switch\<close>

text \<open>When no context switch is configured, \<open>context_RequestSchedule\<close> calls the driver task itself, also from a
  callback that the task has called: a client that asks for its own next call there is called within its call,
  again and again, although only one instance of the task may run at a time. No fuel is enough.\<close>

definition ctx_selfish :: "'w TSys \<Rightarrow> bool" where
  "ctx_selfish s \<longleftrightarrow> \<not> bContextSwitchRequired (tContext s) \<and> uNumClients (tContext s) = 1 \<and>
     length (aClientEnabled (tContext s)) = MAX_CLIENTS \<and> length (aClientPending (tContext s)) = MAX_CLIENTS \<and>
     aClientCbFunc (tContext s) ! 0 \<noteq> 0 \<and> aClientEnabled (tContext s) ! 0 \<and> aClientPending (tContext s) ! 0"

lemma context_DriverTask_nests:
  assumes "\<And>f h tr. client f h tr = [CallRequest 0]" "ctx_selfish s"
  shows "context_DriverTask qw client n s = None"
  using assms(2)
proof (induction n arbitrary: s)
  case 0
  then show ?case by simp
next
  case (Suc n)
  let ?c = "tContext s"
  define s1 where "s1 = ctx_emit (CxInvoked 0 (aClientCbFunc ?c ! 0) (aClientCbHndl ?c ! 0)) (ctx_unmark 0 s)"
  define s2 where "s2 = ctx_WakeLock (ctx_mark 0 s1)"
  have sw: "bContextSwitchRequired (tContext (ctx_mark 0 s1)) = bContextSwitchRequired ?c"
    by (simp add: s1_def ctx_mark_def ctx_unmark_def ctx_set_pending_def Let_def)
  have "ctx_selfish s2"
    using Suc.prems sw by (simp add: ctx_selfish_def s2_def) (simp add: s1_def MAX_CLIENTS_def)
  then have none: "context_DriverTask qw client n s2 = None" by (rule Suc.IH)
  have "ctx_serve qw client (context_DriverTask qw client n) 0 s = None"
    using Suc.prems none sw
    by (simp add: ctx_selfish_def ctx_serve_def ctx_pending_def ctx_enabled_def ctx_invoke_def Let_def assms(1)
        context_RequestSchedule_def MAX_CLIENTS_def ctx_schedule_def s1_def [symmetric] s2_def [symmetric])
  then show ?case
    using Suc.prems by (simp add: ctx_selfish_def ctx_loop.simps [of _ _ _ 0 s] MAX_CLIENTS_def)
qed

section \<open>The contract with the clients\<close>

text \<open>What the clients rely on: a request leaves its client waiting, and serving calls every waiting client once.
  The laws for who waits are those of the settled clients, which nobody but the requests moves; the others
  may do anything when they are called.\<close>

locale deferred_calls =
  fixes inv :: "'s \<Rightarrow> bool"
    and member :: "'c \<Rightarrow> 's \<Rightarrow> bool"
    and settled :: "'c \<Rightarrow> 's \<Rightarrow> bool"
    and request :: "'c \<Rightarrow> 's \<Rightarrow> 's"
    and serve :: "'s \<Rightarrow> 's"
    and waiting :: "'c \<Rightarrow> 's \<Rightarrow> bool"
    and called :: "'s \<Rightarrow> 'c list"
  assumes request_keeps: "inv s \<Longrightarrow> member c s \<Longrightarrow>
      inv (request c s) \<and> member d (request c s) = member d s \<and> settled d (request c s) = settled d s"
    and request_waits: "inv s \<Longrightarrow> member c s \<Longrightarrow> settled d s \<Longrightarrow> waiting d (request c s) \<longleftrightarrow> waiting d s \<or> d = c"
    and request_called: "inv s \<Longrightarrow> member c s \<Longrightarrow> called (request c s) = called s"
    and serve_keeps: "inv s \<Longrightarrow> inv (serve s) \<and> member d (serve s) = member d s \<and> (settled d s \<longrightarrow> settled d (serve s))"
    and serve_waits: "inv s \<Longrightarrow> settled d s \<Longrightarrow> \<not> waiting d (serve s)"
    and serve_calls: "inv s \<Longrightarrow>
      \<exists>cs. called (serve s) = called s @ cs \<and> distinct cs \<and> (\<forall>d. settled d s \<longrightarrow> (d \<in> set cs \<longleftrightarrow> waiting d s))"
begin

text \<open>A burst of requests.\<close>

lemma burst:
  "inv s \<Longrightarrow> list_all (\<lambda>c. member c s) cs \<Longrightarrow>
   inv (fold request cs s) \<and> called (fold request cs s) = called s \<and>
   (\<forall>d. member d (fold request cs s) = member d s \<and> settled d (fold request cs s) = settled d s) \<and>
   (\<forall>d. settled d s \<longrightarrow> (waiting d (fold request cs s) \<longleftrightarrow> waiting d s \<or> d \<in> set cs))"
proof (induction cs arbitrary: s)
  case (Cons c cs)
  then have c: "inv s" "member c s" "list_all (\<lambda>c. member c s) cs" by auto
  have "inv (request c s)" "list_all (\<lambda>d. member d (request c s)) cs"
    using c request_keeps by (auto simp: list_all_iff)
  from Cons.IH [OF this] show ?case
    using request_keeps [OF c(1,2)] request_waits [OF c(1,2)] request_called [OF c(1,2)] by auto
qed simp

lemma coalesce:
  assumes "inv s" "list_all (\<lambda>c. member c s) cs"
  shows "\<exists>ds. called (serve (fold request cs s)) = called s @ ds \<and> distinct ds \<and>
    (\<forall>d. settled d s \<longrightarrow> (d \<in> set ds \<longleftrightarrow> waiting d s \<or> d \<in> set cs))"
  using burst [OF assms] serve_calls [of "fold request cs s"] by fastforce

text \<open>Bursts, each followed by a run of the driver task.\<close>

fun rounds :: "'c list list \<Rightarrow> 's \<Rightarrow> 's" where
  "rounds [] s = s"
| "rounds (cs # bs) s = rounds bs (serve (fold request cs s))"

lemma rounds_called:
  assumes "inv s" "list_all (list_all (\<lambda>c. member c s)) bs"
  shows "\<exists>dss. called (rounds bs s) = called s @ concat dss \<and>
    list_all2 (\<lambda>cs ds. distinct ds \<and> (\<forall>d. settled d s \<and> \<not> waiting d s \<longrightarrow> (d \<in> set ds \<longleftrightarrow> d \<in> set cs))) bs dss"
  using assms
proof (induction bs arbitrary: s)
  case Nil
  then show ?case by (intro exI [of _ "[]"]) simp
next
  case (Cons cs bs)
  let ?s = "serve (fold request cs s)"
  have cs: "list_all (\<lambda>c. member c s) cs" using Cons.prems(2) by simp
  note b = burst [OF Cons.prems(1) cs]
  have k: "inv ?s" "\<And>d. member d ?s = member d s" "\<And>d. settled d s \<Longrightarrow> settled d ?s \<and> \<not> waiting d ?s"
    using b serve_keeps serve_waits by blast+
  obtain ds where ds: "called ?s = called s @ ds" "distinct ds" "\<forall>d. settled d s \<longrightarrow> (d \<in> set ds \<longleftrightarrow> waiting d s \<or> d \<in> set cs)"
    using coalesce [OF Cons.prems(1) cs] by blast
  have "list_all (list_all (\<lambda>c. member c ?s)) bs" using Cons.prems(2) by (simp add: k(2))
  from Cons.IH [OF k(1) this] obtain dss where dss: "called (rounds bs ?s) = called ?s @ concat dss"
    "list_all2 (\<lambda>cs ds. distinct ds \<and> (\<forall>d. settled d ?s \<and> \<not> waiting d ?s \<longrightarrow> (d \<in> set ds \<longleftrightarrow> d \<in> set cs))) bs dss" by blast
  have "list_all2 (\<lambda>cs ds. distinct ds \<and> (\<forall>d. settled d s \<and> \<not> waiting d s \<longrightarrow> (d \<in> set ds \<longleftrightarrow> d \<in> set cs))) bs dss"
    by (rule list_all2_mono [OF dss(2)]) (use k(3) in blast)
  then show ?case using ds dss(1) by (intro exI [of _ "ds # dss"]) simp
qed

end

text \<open>The module keeps the contract: \<open>context_RequestSchedule\<close> and the work function with any clients whose
  callbacks call the module for registered clients only. The settled clients are the enabled ones that no
  callback requests or disables.\<close>

definition ctx_request_fn :: "'w ctx_kernel \<Rightarrow> u32 \<Rightarrow> 'w TSys \<Rightarrow> 'w TSys" where
  "ctx_request_fn K c s =
     (case context_RequestSchedule (kq_queue K) (\<lambda>s. None) c s of Some (Inr s') \<Rightarrow> s' | _ \<Rightarrow> s)"

definition ctx_serve_fn :: "'w ctx_kernel \<Rightarrow> ctx_client \<Rightarrow> 'w TSys \<Rightarrow> 'w TSys" where
  "ctx_serve_fn K client s =
     (case wlanDrvIf_DriverTask (kq_queue K) client (Suc 0) s of Some (Inr s') \<Rightarrow> s' | _ \<Rightarrow> s)"

definition ctx_settled :: "ctx_client \<Rightarrow> u32 \<Rightarrow> 'w TSys \<Rightarrow> bool" where
  "ctx_settled client d s \<longleftrightarrow> ctx_registered d s \<and> ctx_enabled d s \<and> d \<notin> ctx_asks client \<and> d \<notin> ctx_disables client"

lemma ctx_request_fn_effect:
  assumes "ctx_wf s" "ctx_registered c s"
  shows "ctx_effect (CallRequest c) s (ctx_request_fn K c s)"
proof -
  obtain s' where "context_RequestSchedule (kq_queue K) (\<lambda>s. None) c s = Some (Inr s')" "ctx_effect (CallRequest c) s s'"
    using ctx_do_call_run [of s "CallRequest c" "kq_queue K" "\<lambda>s. None"] assms by auto
  then show ?thesis by (simp add: ctx_request_fn_def)
qed

lemma ctx_serve_fn_effect:
  assumes wf: "ctx_wf s" and ok: "ctx_client_ok client s"
  shows "\<exists>cs. ctx_invoked (tTrace (ctx_serve_fn K client s)) = ctx_invoked (tTrace s) @ cs \<and> distinct cs \<and>
    (\<forall>d. ctx_settled client d s \<longrightarrow> (d \<in> set cs \<longleftrightarrow> ctx_pending d s)) \<and>
    ctx_kept (ctx_disables client) s (ctx_serve_fn K client s) \<and>
    (\<forall>d. ctx_settled client d s \<longrightarrow> \<not> ctx_pending d (ctx_serve_fn K client s))"
proof -
  obtain s' cs where s': "wlanDrvIf_DriverTask (kq_queue K) client (Suc 0) s = Some (Inr s')"
    "ctx_invoked (tTrace s') = ctx_invoked (tTrace s) @ cs" "sorted_wrt (<) cs"
    "\<forall>c. ctx_registered c s \<longrightarrow> ctx_enabled c s \<longrightarrow> ctx_pending c s \<longrightarrow> c \<notin> ctx_disables client \<longrightarrow> c \<in> set cs"
    "\<forall>c \<in> set cs. ctx_registered c s \<and> (ctx_pending c s \<or> c \<in> ctx_asks client)" "ctx_left client 0 s s'"
    "ctx_kept (ctx_disables client) s s'"
    using wlanDrvIf_DriverTask_run [OF wf ok, of "kq_queue K" 0] by blast
  have "ctx_settled client d s \<Longrightarrow> \<not> ctx_pending d s'" for d
    using s'(6) by (auto simp: ctx_left_def ctx_settled_def)
  moreover have "distinct cs" using s'(3) by (simp add: strict_sorted_iff)
  ultimately show ?thesis
    using s' by (intro exI [of _ cs]) (auto simp: ctx_serve_fn_def ctx_settled_def)
qed

interpretation serving: deferred_calls "\<lambda>s. ctx_wf s \<and> ctx_client_ok client s" ctx_registered "ctx_settled client"
  "ctx_request_fn K" "ctx_serve_fn K client" ctx_pending "\<lambda>s. ctx_invoked (tTrace s)" for K client
proof unfold_locales
  fix s :: "'a TSys" and c d
  assume inv: "ctx_wf s \<and> ctx_client_ok client s" and c: "ctx_registered c s"
  have e: "ctx_effect (CallRequest c) s (ctx_request_fn K c s)" using ctx_request_fn_effect inv c by blast
  then have num: "uNumClients (tContext (ctx_request_fn K c s)) = uNumClients (tContext s)" by (simp add: ctx_effect_def)
  show "(ctx_wf (ctx_request_fn K c s) \<and> ctx_client_ok client (ctx_request_fn K c s)) \<and>
      ctx_registered d (ctx_request_fn K c s) = ctx_registered d s \<and>
      ctx_settled client d (ctx_request_fn K c s) = ctx_settled client d s"
    using e inv by (auto simp: ctx_effect_def ctx_settled_def ctx_registered_cong [OF num] ctx_client_ok_cong [OF num])
  show "ctx_settled client d s \<Longrightarrow> ctx_pending d (ctx_request_fn K c s) \<longleftrightarrow> ctx_pending d s \<or> d = c"
    and "ctx_invoked (tTrace (ctx_request_fn K c s)) = ctx_invoked (tTrace s)"
    using e by (auto simp: ctx_effect_def ctx_settled_def)
next
  fix s :: "'a TSys" and d
  assume inv: "ctx_wf s \<and> ctx_client_ok client s"
  then obtain cs where e: "ctx_invoked (tTrace (ctx_serve_fn K client s)) = ctx_invoked (tTrace s) @ cs" "distinct cs"
    "\<forall>d. ctx_settled client d s \<longrightarrow> (d \<in> set cs \<longleftrightarrow> ctx_pending d s)"
    "ctx_kept (ctx_disables client) s (ctx_serve_fn K client s)"
    "\<forall>d. ctx_settled client d s \<longrightarrow> \<not> ctx_pending d (ctx_serve_fn K client s)"
    using ctx_serve_fn_effect by blast
  then have num: "uNumClients (tContext (ctx_serve_fn K client s)) = uNumClients (tContext s)" by (simp add: ctx_kept_def)
  show "(ctx_wf (ctx_serve_fn K client s) \<and> ctx_client_ok client (ctx_serve_fn K client s)) \<and>
      ctx_registered d (ctx_serve_fn K client s) = ctx_registered d s \<and>
      (ctx_settled client d s \<longrightarrow> ctx_settled client d (ctx_serve_fn K client s))"
    using e(4) inv by (auto simp: ctx_kept_def ctx_settled_def ctx_registered_cong [OF num] ctx_client_ok_cong [OF num])
  show "ctx_settled client d s \<Longrightarrow> \<not> ctx_pending d (ctx_serve_fn K client s)" using e(5) by blast
  show "\<exists>cs. ctx_invoked (tTrace (ctx_serve_fn K client s)) = ctx_invoked (tTrace s) @ cs \<and> distinct cs \<and>
      (\<forall>d. ctx_settled client d s \<longrightarrow> (d \<in> set cs) = ctx_pending d s)"
    using e by blast
qed

section \<open>Bursts of requests\<close>

primrec ctx_rounds :: "'w ctx_kernel \<Rightarrow> ctx_client \<Rightarrow> u32 list list \<Rightarrow> 'w TSys \<Rightarrow> 'w TSys" where
  "ctx_rounds K client [] s = s"
| "ctx_rounds K client (cs # bs) s = ctx_rounds K client bs (ctx_serve_fn K client (fold (ctx_request_fn K) cs s))"

lemma ctx_rounds_serving: "ctx_rounds K client bs s = serving.rounds K client bs s"
  by (induction bs arbitrary: s) simp_all

text \<open>C39: Requests coalesce. Bursts of requests of registered clients are each followed by a run of the driver task,
  whose callbacks may request, enable and disable registered clients; then no client is called twice in a run, and
  a client that is enabled and not pending at the beginning, and that no callback requests or disables, is called
  in the runs after the bursts that ask for it, once however often they do, and in no other run.\<close>

theorem context_requests_coalesce:
  assumes "ctx_wf s" "ctx_client_ok client s" "list_all (list_all (\<lambda>c. ctx_registered c s)) bs"
  shows "\<exists>dss. ctx_invoked (tTrace (ctx_rounds K client bs s)) = ctx_invoked (tTrace s) @ concat dss \<and>
    list_all2 (\<lambda>cs ds. distinct ds \<and>
      (\<forall>d. ctx_registered d s \<and> ctx_enabled d s \<and> \<not> ctx_pending d s \<and> d \<notin> ctx_asks client \<and> d \<notin> ctx_disables client \<longrightarrow>
         (d \<in> set ds \<longleftrightarrow> d \<in> set cs))) bs dss"
proof -
  obtain dss where "ctx_invoked (tTrace (serving.rounds K client bs s)) = ctx_invoked (tTrace s) @ concat dss"
    "list_all2 (\<lambda>cs ds. distinct ds \<and>
      (\<forall>d. ctx_settled client d s \<and> \<not> ctx_pending d s \<longrightarrow> (d \<in> set ds \<longleftrightarrow> d \<in> set cs))) bs dss"
    using serving.rounds_called [where client = client and s = s and bs = bs and K = K] assms by blast
  moreover from this(2) have "list_all2 (\<lambda>cs ds. distinct ds \<and>
      (\<forall>d. ctx_registered d s \<and> ctx_enabled d s \<and> \<not> ctx_pending d s \<and> d \<notin> ctx_asks client \<and> d \<notin> ctx_disables client \<longrightarrow>
         (d \<in> set ds \<longleftrightarrow> d \<in> set cs))) bs dss"
    by (rule list_all2_mono) (auto simp: ctx_settled_def)
  ultimately show ?thesis unfolding ctx_rounds_serving by blast
qed

section \<open>Examples\<close>

text \<open>A work item as one bit, two clients, and a request of the first one, cut at several places.\<close>

definition ctx_bit :: "bool ctx_kernel" where
  "ctx_bit = \<lparr>kq_queue = (\<lambda>w. (\<not> w, True)), kq_start = (\<lambda>w. False), kq_queued = (\<lambda>w. w)\<rparr>"

lemma ctx_bit_ok: "kq_ok ctx_bit"
  by (simp add: kq_ok_def ctx_bit_def)

definition ctx_demo_client :: ctx_client where
  "ctx_demo_client f h tr = (if f = 7 then [CallRequest 1] else [])"

definition ctx_demo_labels :: "ctx_label list" where
  "ctx_demo_labels = [LRegister 7 1 True [84, 119] 2, LRegister 8 2 True [] 0, LCall (CallRequest 0), LStep (RsSet 0),
     LStep ScLock, LStep ScQueue, LStart]"

definition ctx_demo :: "nat \<Rightarrow> bool ctx_mach" where
  "ctx_demo k = the (ctx_run ctx_bit ctx_demo_client (take k ctx_demo_labels) (ctx_boot 1 2 3 False))"

lemma ctx_demo_run:
  "k \<le> 7 \<Longrightarrow> \<exists>m. ctx_run ctx_bit ctx_demo_client (take k ctx_demo_labels) (ctx_boot 1 2 3 False) = Some m"
proof -
  have "ctx_run ctx_bit ctx_demo_client ctx_demo_labels (ctx_boot 1 2 3 False) \<noteq> None" by code_simp
  then show ?thesis
    using ctx_run_append [of ctx_bit ctx_demo_client "take k ctx_demo_labels" "drop k ctx_demo_labels" "ctx_boot 1 2 3 False"]
    by (auto split: option.splits)
qed

lemma ctx_demo_reach: "k \<le> 7 \<Longrightarrow> ctx_reach ctx_bit ctx_demo_client (ctx_demo k)"
  using ctx_demo_run [of k] ctx_reach.boot [of ctx_bit False ctx_demo_client 1 2 3]
  by (auto simp: ctx_demo_def ctx_bit_def intro: ctx_run_reach)

lemma ctx_demo_4: "ctx_registered 0 (cm_sys (ctx_demo 4)) \<and> ctx_enabled 0 (cm_sys (ctx_demo 4)) \<and> ctx_pending 0 (cm_sys (ctx_demo 4))"
  by code_simp

lemma ctx_demo_6:
  "cm_calls (ctx_demo 6) = {#} \<and> cm_task (ctx_demo 6) = TkIdle \<and> ctx_registered 0 (cm_sys (ctx_demo 6)) \<and>
   ctx_registered 1 (cm_sys (ctx_demo 6)) \<and> ctx_enabled 0 (cm_sys (ctx_demo 6)) \<and> ctx_pending 0 (cm_sys (ctx_demo 6))"
  by code_simp

lemma ctx_demo_7: "cm_task (ctx_demo 7) = TkTest 0 \<and> ctx_registered 0 (cm_sys (ctx_demo 7)) \<and> ctx_registered 1 (cm_sys (ctx_demo 7))"
  by code_simp

lemma ctx_demo_2:
  "uNumClients (tContext (cm_sys (ctx_demo 2))) = 2 \<and> take 2 (aClientEnabled (tContext (cm_sys (ctx_demo 2)))) = [True, True] \<and>
   take 2 (aClientPending (tContext (cm_sys (ctx_demo 2)))) = [False, False]"
  by code_simp

lemma ctx_demo_client_ok: "ctx_registered 1 s \<Longrightarrow> ctx_client_ok ctx_demo_client s"
  by (simp add: ctx_client_ok_def ctx_demo_client_def)

lemma ctx_demo_client_disables: "ctx_disables ctx_demo_client = {}"
  by (simp add: ctx_disables_def ctx_demo_client_def)

lemma context_no_lost_request_witness:
  "ctx_queued ctx_bit (cm_sys (ctx_demo 4)) \<or> (\<exists>pc \<in># ctx_active (ctx_demo 4). ctx_will_queue 0 pc) \<or>
   ctx_ahead 0 (cm_task (ctx_demo 4))"
  using context_no_lost_request [OF ctx_bit_ok ctx_demo_reach [of 4], of 0] ctx_demo_4 by simp

lemma context_wake_lock_witness:
  "wl_count (tDrv (cm_sys (ctx_demo 6))) =
     cm_locks (ctx_demo 6) + size (filter_mset ctx_holds_lock (ctx_active (ctx_demo 6))) +
     of_bool (ctx_queued ctx_bit (cm_sys (ctx_demo 6))) + of_bool (cm_task (ctx_demo 6) \<noteq> TkIdle)"
  using context_wake_lock [OF ctx_bit_ok ctx_demo_reach [of 6]] by simp

lemma context_calls_requested_witness:
  "aRequestCount (tContext (cm_sys (ctx_demo 4))) ! unat (0 :: u32) = of_nat (ctx_requests 0 (cm_sys (ctx_demo 4)))"
  using context_calls_requested [OF ctx_bit_ok ctx_demo_reach [of 4], of 0] ctx_demo_4 by simp

lemma context_request_served_witness:
  "\<exists>k m' cs. ctx_run ctx_bit ctx_demo_client (LStart # replicate k LTask) (ctx_demo 6) = Some m' \<and> cm_task m' = TkIdle \<and>
     ctx_invoked (tTrace (cm_sys m')) = ctx_invoked (tTrace (cm_sys (ctx_demo 6))) @ cs \<and> 0 \<in> set cs \<and> distinct cs"
  using context_request_served [OF ctx_bit_ok ctx_demo_reach [of 6], of 0] ctx_demo_6
    ctx_demo_client_ok [of "cm_sys (ctx_demo 6)"] ctx_demo_client_disables by (simp del: ctx_run.simps) blast

lemma context_runs_refine_witness:
  "\<exists>s' k. wlanDrvIf_DriverTask (kq_queue ctx_bit) ctx_demo_client (Suc 0) (cm_sys (ctx_demo 7)) = Some (Inr s') \<and>
     ctx_run ctx_bit ctx_demo_client (replicate k LTask) (ctx_demo 7) = Some ((ctx_demo 7)\<lparr>cm_sys := s', cm_task := TkIdle\<rparr>)"
  using context_runs_refine [OF ctx_bit_ok ctx_demo_reach [of 7], of "CallRequest 0" "\<lambda>s. None" 0] ctx_demo_7
    ctx_demo_client_ok [of "cm_sys (ctx_demo 7)"] by blast

lemma context_RegisterClient_numbers_witness:
  "\<exists>cs ctx. ctx_register_all [(7, 1, True, [84, 119], 2), (8, 2, False, [], 17)]
       (context_Init 1 2 3 (the (context_Create True))) = Inr (cs, ctx) \<and> map unat cs = [0, 1] \<and>
     unat (uNumClients ctx) = 2"
  using context_RegisterClient_numbers [of "[(7, 1, True, [84, 119], 2), (8, 2, False, [], 17)]" "the (context_Create True)" 1 2 3]
  by (auto simp: MAX_CLIENTS_def ctx_reg_ok_def MAX_NAME_SIZE_def context_Create_def)

text \<open>In two bursts the first client is requested three times and the second one, which its callback asks for, once.\<close>

lemma context_requests_coalesce_witness:
  "\<exists>dss. ctx_invoked (tTrace (ctx_rounds ctx_bit ctx_demo_client [[0, 1, 0], [0]] (cm_sys (ctx_demo 2)))) =
       ctx_invoked (tTrace (cm_sys (ctx_demo 2))) @ concat dss \<and>
     list_all2 (\<lambda>cs ds. distinct ds \<and> ((0 :: u32) \<in> set ds) = (0 \<in> set cs)) [[0 :: u32, 1, 0], [0]] dss"
proof -
  let ?s = "cm_sys (ctx_demo 2)"
  have wf: "ctx_wf ?s"
    using ctx_reach_good [OF ctx_demo_reach [of 2] ctx_bit_ok] by (simp add: ctx_good_def ctx_inv_def ctx_valid_def)
  have reg: "ctx_registered 0 ?s" "ctx_registered 1 ?s" using ctx_demo_2 by (simp_all add: ctx_registered_def)
  then have all: "list_all (list_all (\<lambda>c. ctx_registered c ?s)) [[0, 1, 0], [0]]" by simp
  have q: "ctx_enabled 0 ?s" "\<not> ctx_pending 0 ?s"
    using ctx_demo_2 nth_take [of 0 2 "aClientEnabled (tContext ?s)"] nth_take [of 0 2 "aClientPending (tContext ?s)"]
    by (simp_all add: ctx_enabled_def ctx_pending_def)
  have u: "0 \<notin> ctx_asks ctx_demo_client" "0 \<notin> ctx_disables ctx_demo_client"
    by (auto simp: ctx_asks_def ctx_disables_def ctx_demo_client_def split: if_splits)
  obtain dss where dss: "ctx_invoked (tTrace (ctx_rounds ctx_bit ctx_demo_client [[0, 1, 0], [0]] ?s)) =
      ctx_invoked (tTrace ?s) @ concat dss"
    "list_all2 (\<lambda>cs ds. distinct ds \<and> (\<forall>d. ctx_registered d ?s \<and> ctx_enabled d ?s \<and> \<not> ctx_pending d ?s \<and>
       d \<notin> ctx_asks ctx_demo_client \<and> d \<notin> ctx_disables ctx_demo_client \<longrightarrow> (d \<in> set ds \<longleftrightarrow> d \<in> set cs))) [[0, 1, 0], [0]] dss"
    using context_requests_coalesce [OF wf ctx_demo_client_ok [OF reg(2)] all, of ctx_bit] by blast
  have "list_all2 (\<lambda>cs ds. distinct ds \<and> ((0 :: u32) \<in> set ds) = (0 \<in> set cs)) [[0 :: u32, 1, 0], [0]] dss"
    by (rule list_all2_mono [OF dss(2)]) (use reg(1) q u in blast)
  then show ?thesis using dss(1) by blast
qed

end
