(* ===== verification/TxPath.thy ===== *)
theory TxPath
  imports Queue TxDataClsfr
begin

text \<open>
  \<open>stad/src/Data_link/txMgmtQueue.c\<close>, \<open>txPort.c\<close> and \<open>txDataQueue.c\<close>: the way of a packet from the network
  stack and the driver's own applications to the Tx control module. Packets wait in two management queues
  (management, EAPOL) and in four data queues; a state machine that follows the connection decides which
  packets may go, and the port gives the path either to the management or to the data queues. The three modules
  call each other and are one model. Parameters (\<open>tp_env\<close>): what \<open>txCtrl_XmitMgmt\<close> and \<open>txCtrl_XmitData\<close> answer
  and which queues they stop meanwhile, what the network stack inserts at the points where it may preempt the
  driver task, the contents of the packets and the generic Ethernet type that is configured. A critical section
  is one step; a packet is the address of its control block.
\<close>

section \<open>Types\<close>

datatype EMgmtQueueTypes = QUEUE_TYPE_MGMT | QUEUE_TYPE_EAPOL

datatype ESmEvent_mgmt =
    SM_EVENT_CLOSE
  | SM_EVENT_MGMT
  | SM_EVENT_EAPOL
  | SM_EVENT_OPEN
  | SM_EVENT_QUEUES_EMPTY
  | SM_EVENT_QUEUES_NOT_EMPTY

datatype ESmState_mgmt = SM_STATE_CLOSE | SM_STATE_MGMT | SM_STATE_EAPOL | SM_STATE_OPEN_MGMT | SM_STATE_OPEN_DATA

datatype ESmAction = SM_ACTION_NULL | SM_ACTION_ENABLE_DATA | SM_ACTION_ENABLE_MGMT | SM_ACTION_RUN_SCHEDULER

datatype ETxConnState = TX_CONN_STATE_CLOSE | TX_CONN_STATE_MGMT | TX_CONN_STATE_EAPOL | TX_CONN_STATE_OPEN

datatype EQueuesMuxState = MUX_MGMT_QUEUES | MUX_DATA_QUEUES

datatype EQueueAction = QUEUE_ACTION_NONE | QUEUE_ACTION_STOP | QUEUE_ACTION_WAKE

datatype EStatusXmit = STATUS_XMIT_SUCCESS | STATUS_XMIT_BUSY | STATUS_XMIT_ERROR

definition MGMT_QUEUES_DEPTH :: u32 where "MGMT_QUEUES_DEPTH = 4"
definition MGMT_QUEUES_TID :: u8 where "MGMT_QUEUES_TID = 7"
definition DATA_QUEUE_DEPTH_BE :: u32 where "DATA_QUEUE_DEPTH_BE = 60"
definition DATA_QUEUE_DEPTH_BK :: u32 where "DATA_QUEUE_DEPTH_BK = 10"
definition DATA_QUEUE_DEPTH_VI :: u32 where "DATA_QUEUE_DEPTH_VI = 32"
definition DATA_QUEUE_DEPTH_VO :: u32 where "DATA_QUEUE_DEPTH_VO = 10"
definition MAX_NUM_OF_AC :: nat where "MAX_NUM_OF_AC = 4"
definition TX_SEND_PACE_TIMEOUT_MSEC :: nat where "TX_SEND_PACE_TIMEOUT_MSEC = 1"
definition TX_PKT_TYPE_MGMT :: u8 where "TX_PKT_TYPE_MGMT = 1"
definition TX_PKT_TYPE_EAPOL :: u8 where "TX_PKT_TYPE_EAPOL = 2"
definition TX_PKT_TYPE_ETHER :: u8 where "TX_PKT_TYPE_ETHER = 3"
definition ETHERTYPE_EAPOL :: u16 where "ETHERTYPE_EAPOL = 0x888e"

definition aTidToQueueTable :: "nat list" where
  "aTidToQueueTable = [0, 1, 1, 0, 2, 2, 3, 3]"

text \<open>An array over the queues is a function of the queue; the data queues are numbered below \<open>MAX_NUM_OF_AC\<close>.\<close>

record TDbgCount =
  aEnqueuePackets :: "EMgmtQueueTypes \<Rightarrow> u32"
  aDequeuePackets :: "EMgmtQueueTypes \<Rightarrow> u32"
  aRequeuePackets :: "EMgmtQueueTypes \<Rightarrow> u32"
  aDroppedPackets :: "EMgmtQueueTypes \<Rightarrow> u32"
  aXmittedPackets :: "EMgmtQueueTypes \<Rightarrow> u32"

record TTxMgmtQ =
  bMgmtPortEnable :: bool
  eSmState :: ESmState_mgmt
  eTxConnState :: ETxConnState
  mq_uContextId :: u32
  mq_aQueues :: "EMgmtQueueTypes \<Rightarrow> addr aqueue"
  mq_aQueueBusy :: "EMgmtQueueTypes \<Rightarrow> bool"
  aQueueEnabledBySM :: "EMgmtQueueTypes \<Rightarrow> bool"
  tDbgCounters :: TDbgCount

record TTxPortObj =
  queuesMuxState :: EQueuesMuxState
  txSuspended :: bool
  mgmtQueueEnabled :: bool
  dataQueueEnabled :: bool

record TTxDataQueueDebugCnt =
  uEnqueuePacket :: u32
  uDequeuePacket :: u32
  uRequeuePacket :: u32
  uXmittedPacket :: u32
  uDroppedPacket :: u32

record TTxDataQ =
  tClsfrParams :: TClsfrParams
  bDataPortEnable :: bool
  dq_uContextId :: u32
  hTxSendPaceTimer :: addr
  uNumQueues :: nat
  aQueueMaxSize :: "nat \<Rightarrow> u32"
  aTxSendPaceThresh :: "nat \<Rightarrow> u32"
  dq_aQueues :: "nat \<Rightarrow> addr aqueue"
  dq_aQueueBusy :: "nat \<Rightarrow> bool"
  uLastQueId :: nat
  aNetStackQueueStopped :: "nat \<Rightarrow> bool"
  bStopNetStackTx :: bool
  aQueueCounters :: "nat \<Rightarrow> TTxDataQueueDebugCnt"
  uClsfrMismatchCount :: u32
  uTxSendPaceTimeoutsCount :: u32

datatype tp_queue = MgmtQ EMgmtQueueTypes | DataQ nat

text \<open>What is recorded. \<open>TpXmit\<close> is a call of \<open>txCtrl_XmitMgmt\<close> or \<open>txCtrl_XmitData\<close> with the connection state at
  that time, whether the path was suspended, and the answer; \<open>TpRefused\<close> and \<open>TpFreed\<close> are calls of \<open>txCtrl_FreePacket\<close>, for a packet that a queue
  did not take and for one that was taken out of its queue. \<open>TpAccepted\<close>, \<open>TpLost\<close> (a packet that is in no queue
  any more and was not freed) and \<open>TpPoint\<close> (a point of preemption) are for the specification.\<close>

datatype tp_event =
    TpAccepted tp_queue addr
  | TpRefused addr
  | TpXmit "ETxConnState \<times> bool" tp_queue addr EStatusXmit
  | TpFreed tp_queue addr
  | TpLost tp_queue addr
  | TpEndOfBurst
  | TpSchedule u32
  | TpTimerStart addr nat
  | TpTimerStop addr
  | TpStopTx
  | TpResumeTx
  | TpPoint

record TTxPath =
  tp_mgmt :: TTxMgmtQ
  tp_port :: TTxPortObj
  tp_data :: TTxDataQ
  tp_blk :: "addr \<Rightarrow> TTxCtrlBlk"
  tp_trace :: "tp_event list"

text \<open>\<open>ev_xmit\<close>: the answer of the Tx control module for a packet and the TID bitmap it stops queues with before it returns,
  if it does; \<open>ev_net\<close>: packets with the priorities the OS gave them. Both may depend on all that has happened.\<close>

record tp_env =
  ev_mem :: "addr \<Rightarrow> u8"
  ev_generic :: u16
  ev_xmit :: "tp_event list \<Rightarrow> tp_queue \<Rightarrow> addr \<Rightarrow> EStatusXmit \<times> u32 option"
  ev_net :: "tp_event list \<Rightarrow> (addr \<times> u8) list"

type_synonym 'a tp_res = "(fault + 'a) option"

definition tp_then :: "'a tp_res \<Rightarrow> ('a \<Rightarrow> 'b tp_res) \<Rightarrow> 'b tp_res" where
  "tp_then m f = (case m of None \<Rightarrow> None | Some (Inl e) \<Rightarrow> Some (Inl e) | Some (Inr a) \<Rightarrow> f a)"

lemma tp_then_simps [simp]:
  "tp_then None f = None" "tp_then (Some (Inl e)) f = Some (Inl e)" "tp_then (Some (Inr a)) f = f a"
  by (simp_all add: tp_then_def)

definition tp_emit :: "tp_event \<Rightarrow> TTxPath \<Rightarrow> TTxPath" where
  "tp_emit e s = s\<lparr>tp_trace := tp_trace s @ [e]\<rparr>"

definition tp_q :: "tp_queue \<Rightarrow> TTxPath \<Rightarrow> addr aqueue" where
  "tp_q d s = (case d of MgmtQ q \<Rightarrow> mq_aQueues (tp_mgmt s) q | DataQ i \<Rightarrow> dq_aQueues (tp_data s) i)"

definition tp_set_queue :: "tp_queue \<Rightarrow> addr aqueue \<Rightarrow> TTxPath \<Rightarrow> TTxPath" where
  "tp_set_queue d Q s =
     (case d of
        MgmtQ q \<Rightarrow> s\<lparr>tp_mgmt := (tp_mgmt s)\<lparr>mq_aQueues := (mq_aQueues (tp_mgmt s))(q := Q)\<rparr>\<rparr>
      | DataQ i \<Rightarrow> s\<lparr>tp_data := (tp_data s)\<lparr>dq_aQueues := (dq_aQueues (tp_data s))(i := Q)\<rparr>\<rparr>)"

text \<open>The node header of a packet is linked when the packet is in one of the queues.\<close>

definition tp_queues :: "tp_queue list" where
  "tp_queues = MgmtQ QUEUE_TYPE_MGMT # MgmtQ QUEUE_TYPE_EAPOL # map DataQ [0..<MAX_NUM_OF_AC]"

definition tp_linked :: "addr \<Rightarrow> TTxPath \<Rightarrow> bool" where
  "tp_linked x s = list_ex (\<lambda>d. x \<in> set (aq_items (tp_q d s))) tp_queues"

definition tp_enqueue :: "tp_queue \<Rightarrow> addr \<Rightarrow> TTxPath \<Rightarrow> ti_status \<times> TTxPath" where
  "tp_enqueue d x s =
     (let (st, Q) = aq_Enqueue (tp_linked x s) x (tp_q d s); s = tp_set_queue d Q s
      in (st, if st = TI_OK then tp_emit (TpAccepted d x) s else s))"

definition tp_requeue :: "tp_queue \<Rightarrow> addr \<Rightarrow> TTxPath \<Rightarrow> ti_status \<times> TTxPath" where
  "tp_requeue d x s =
     (let (st, Q) = aq_Requeue (tp_linked x s) x (tp_q d s) in (st, tp_set_queue d Q s))"

definition tp_dequeue :: "tp_queue \<Rightarrow> TTxPath \<Rightarrow> addr option \<times> TTxPath" where
  "tp_dequeue d s = (let (x, Q) = aq_Dequeue (tp_q d s) in (x, tp_set_queue d Q s))"

definition tp_size :: "tp_queue \<Rightarrow> TTxPath \<Rightarrow> u32" where
  "tp_size d s = aq_Size (tp_q d s)"

text \<open>Single assignments.\<close>

definition tp_set_blk :: "addr \<Rightarrow> TTxCtrlBlk \<Rightarrow> TTxPath \<Rightarrow> TTxPath" where
  "tp_set_blk x b s = s\<lparr>tp_blk := (tp_blk s)(x := b)\<rparr>"

definition dq_set_stopped :: "nat \<Rightarrow> bool \<Rightarrow> TTxPath \<Rightarrow> TTxPath" where
  "dq_set_stopped i b s =
     s\<lparr>tp_data := (tp_data s)\<lparr>aNetStackQueueStopped := (aNetStackQueueStopped (tp_data s))(i := b)\<rparr>\<rparr>"

definition dq_mismatch :: "TTxPath \<Rightarrow> TTxPath" where
  "dq_mismatch s = s\<lparr>tp_data := (tp_data s)\<lparr>uClsfrMismatchCount := uClsfrMismatchCount (tp_data s) + 1\<rparr>\<rparr>"

definition dq_select :: "nat \<Rightarrow> TTxPath \<Rightarrow> TTxPath" where
  "dq_select i s = s\<lparr>tp_data := (tp_data s)\<lparr>uLastQueId := i\<rparr>\<rparr>"

section \<open>Busy maps\<close>

definition updateQueuesBusyMap :: "u32 \<Rightarrow> TTxPath \<Rightarrow> TTxPath" where
  "updateQueuesBusyMap uTidBitMap s =
     s\<lparr>tp_mgmt := (tp_mgmt s)\<lparr>mq_aQueueBusy := (\<lambda>q. bit uTidBitMap (unat MGMT_QUEUES_TID))\<rparr>\<rparr>"

definition txMgmtQ_StopQueue :: "u32 \<Rightarrow> TTxPath \<Rightarrow> TTxPath" where
  "txMgmtQ_StopQueue uTidBitMap s = updateQueuesBusyMap uTidBitMap s"

definition txDataQ_UpdateQueuesBusyState :: "u32 \<Rightarrow> TTxPath \<Rightarrow> TTxPath" where
  "txDataQ_UpdateQueuesBusyState uTidBitMap s =
     s\<lparr>tp_data := (tp_data s)\<lparr>dq_aQueueBusy :=
        fold (\<lambda>uTidIdx busy. busy(aTidToQueueTable ! uTidIdx := bit uTidBitMap uTidIdx))
          [0..<unat MAX_NUM_OF_802_1d_TAGS] (dq_aQueueBusy (tp_data s))\<rparr>\<rparr>"

definition txDataQ_StopQueue :: "u32 \<Rightarrow> TTxPath \<Rightarrow> TTxPath" where
  "txDataQ_StopQueue uTidBitMap s = txDataQ_UpdateQueuesBusyState uTidBitMap s"

section \<open>Insertion\<close>

definition mq_count :: "((EMgmtQueueTypes \<Rightarrow> u32) \<Rightarrow> EMgmtQueueTypes \<Rightarrow> u32) \<Rightarrow> (((EMgmtQueueTypes \<Rightarrow> u32) \<Rightarrow> EMgmtQueueTypes \<Rightarrow> u32) \<Rightarrow> TDbgCount \<Rightarrow> TDbgCount) \<Rightarrow> TTxPath \<Rightarrow> TTxPath" where
  "mq_count f upd s = s\<lparr>tp_mgmt := (tp_mgmt s)\<lparr>tDbgCounters := upd f (tDbgCounters (tp_mgmt s))\<rparr>\<rparr>"

definition mq_inc :: "EMgmtQueueTypes \<Rightarrow> (EMgmtQueueTypes \<Rightarrow> u32) \<Rightarrow> EMgmtQueueTypes \<Rightarrow> u32" where
  "mq_inc q f = f(q := f q + 1)"

definition dq_count :: "nat \<Rightarrow> (TTxDataQueueDebugCnt \<Rightarrow> TTxDataQueueDebugCnt) \<Rightarrow> TTxPath \<Rightarrow> TTxPath" where
  "dq_count i upd s =
     s\<lparr>tp_data := (tp_data s)\<lparr>aQueueCounters := (aQueueCounters (tp_data s))(i := upd (aQueueCounters (tp_data s) i))\<rparr>\<rparr>"

text \<open>\<open>txMgmtQ_Xmit\<close> up to the notification: the result, and whether the selected queue was empty before.\<close>

definition mq_insert :: "addr \<Rightarrow> TTxPath \<Rightarrow> ti_status \<times> bool \<times> TTxPath" where
  "mq_insert x s =
     (let s = tp_set_blk x (clsfr_set_tid MGMT_QUEUES_TID (tp_blk s x)) s;
          uQueId = (if uPktType (tTxPktParams (tp_blk s x)) = TX_PKT_TYPE_MGMT then QUEUE_TYPE_MGMT else QUEUE_TYPE_EAPOL);
          (eStatus, s) = tp_enqueue (MgmtQ uQueId) x s;
          uQueSize = tp_size (MgmtQ uQueId) s
      in if eStatus = TI_OK then (eStatus, uQueSize = 1, mq_count (mq_inc uQueId) aEnqueuePackets_update s)
         else (eStatus, False, mq_count (mq_inc uQueId) aDroppedPackets_update (tp_emit (TpRefused x) s)))"

text \<open>\<open>txMgmtQ_Xmit\<close> from an external context.\<close>

definition mq_xmit_external :: "addr \<Rightarrow> TTxPath \<Rightarrow> ti_status \<times> TTxPath" where
  "mq_xmit_external x s =
     (let (eStatus, first, s) = mq_insert x s
      in (eStatus, if first then tp_emit (TpSchedule (mq_uContextId (tp_mgmt s))) s else s))"

text \<open>The data part of \<open>txDataQ_InsertPacket\<close>: the critical section gives the status, the queue and whether to
  schedule and to stop the network stack.\<close>

definition dq_pace :: "nat \<Rightarrow> u32 \<Rightarrow> TTxPath \<Rightarrow> bool \<times> TTxPath" where
  "dq_pace uQueId uQueSize s =
     (let d = tp_data s in
      if \<not> dq_aQueueBusy d uQueId then
        (if uQueSize = aTxSendPaceThresh d uQueId then (True, tp_emit (TpTimerStop (hTxSendPaceTimer d)) s)
         else if uQueSize < aTxSendPaceThresh d uQueId
         then (False, tp_emit (TpTimerStart (hTxSendPaceTimer d) TX_SEND_PACE_TIMEOUT_MSEC) s)
         else (False, s))
      else (False, s))"

definition dq_insert :: "addr \<Rightarrow> nat \<Rightarrow> TTxPath \<Rightarrow> ti_status \<times> TTxPath" where
  "dq_insert x uQueId s =
     (let (eStatus, s) = tp_enqueue (DataQ uQueId) x s;
          uQueSize = tp_size (DataQ uQueId) s;
          (bRequestSchedule, s) = dq_pace uQueId uQueSize s;
          bStopNetStack = (bStopNetStackTx (tp_data s) \<and> uQueSize = aQueueMaxSize (tp_data s) uQueId);
          s = (if bStopNetStack then dq_set_stopped uQueId True s else s);
          s = (if bRequestSchedule \<or> bStopNetStack then tp_emit (TpSchedule (dq_uContextId (tp_data s))) s else s);
          s = (if bStopNetStack then tp_emit TpStopTx s else s)
      in (eStatus,
          if eStatus \<noteq> TI_OK then dq_count uQueId (uDroppedPacket_update (\<lambda>n. n + 1)) (tp_emit (TpRefused x) s)
          else dq_count uQueId (uEnqueuePacket_update (\<lambda>n. n + 1)) s))"

definition tp_eth_type :: "tp_env \<Rightarrow> TTxCtrlBlk \<Rightarrow> u16" where
  "tp_eth_type E blk = load16_net (ev_mem E) (aBuf (tTxnStruct blk) ! 0 + OFS_ETH_TYPE)"

definition tp_set_type :: "u8 \<Rightarrow> addr \<Rightarrow> TTxPath \<Rightarrow> TTxPath" where
  "tp_set_type ty x s =
     tp_set_blk x ((tp_blk s x)\<lparr>tTxPktParams := (tTxPktParams (tp_blk s x))\<lparr>uPktType := ty\<rparr>\<rparr>) s"

definition txDataQ_InsertPacket :: "tp_env \<Rightarrow> addr \<Rightarrow> u8 \<Rightarrow> TTxPath \<Rightarrow> fault + ti_status \<times> TTxPath" where
  "txDataQ_InsertPacket E x uPacketDtag s =
     (if aBuf (tTxnStruct (tp_blk s x)) ! 0 = 0 then Inl NullDeref
      else if tp_eth_type E (tp_blk s x) = ETHERTYPE_EAPOL \<or> tp_eth_type E (tp_blk s x) = ev_generic E
      then Inr (mq_xmit_external x (tp_set_type TX_PKT_TYPE_EAPOL x s))
      else
        (let s = tp_set_type TX_PKT_TYPE_ETHER x s in
         case txDataClsfr_ClassifyTxPacket (ev_mem E) (tClsfrParams (tp_data s)) (tp_blk s x) uPacketDtag of
           Inl f \<Rightarrow> Inl f
         | Inr (st, blk) \<Rightarrow>
             (let s = tp_set_blk x blk s;
                  s = (if st \<noteq> TI_OK then dq_mismatch s else s);
                  t = unat (tid (tTxDescriptor blk))
              in if t \<ge> length aTidToQueueTable then Inl OutOfBounds
                 else Inr (dq_insert x (aTidToQueueTable ! t) s))))"

text \<open>A point where the network stack may preempt the driver task: it inserts some packets.\<close>

fun tp_insert_all :: "tp_env \<Rightarrow> (addr \<times> u8) list \<Rightarrow> TTxPath \<Rightarrow> fault + TTxPath" where
  "tp_insert_all E [] s = Inr s"
| "tp_insert_all E ((x, tag) # ps) s =
     (case txDataQ_InsertPacket E x tag s of Inl f \<Rightarrow> Inl f | Inr (st, s) \<Rightarrow> tp_insert_all E ps s)"

definition tp_preempt :: "tp_env \<Rightarrow> TTxPath \<Rightarrow> fault + TTxPath" where
  "tp_preempt E s = (let s = tp_emit TpPoint s in tp_insert_all E (ev_net E (tp_trace s)) s)"

section \<open>Schedulers\<close>

text \<open>The call of the Tx control module with a packet of queue \<open>d\<close>.\<close>

definition tp_cond :: "TTxPath \<Rightarrow> ETxConnState \<times> bool" where
  "tp_cond s = (eTxConnState (tp_mgmt s), txSuspended (tp_port s))"

definition tp_xmit :: "tp_env \<Rightarrow> tp_queue \<Rightarrow> addr \<Rightarrow> TTxPath \<Rightarrow> fault + EStatusXmit \<times> TTxPath" where
  "tp_xmit E d x s =
     (let (eStatus, stop) = ev_xmit E (tp_trace s) d x;
          s = tp_emit (TpXmit (tp_cond s) d x eStatus) s;
          s = (case stop of
                 None \<Rightarrow> s
               | Some m \<Rightarrow> (case d of MgmtQ q \<Rightarrow> txMgmtQ_StopQueue m s | DataQ i \<Rightarrow> txDataQ_StopQueue m s))
      in case tp_preempt E s of Inl f \<Rightarrow> Inl f | Inr s \<Rightarrow> Inr (eStatus, s))"

definition mq_requeue :: "EMgmtQueueTypes \<Rightarrow> addr \<Rightarrow> TTxPath \<Rightarrow> TTxPath" where
  "mq_requeue q x s =
     (let (st, s) = tp_requeue (MgmtQ q) x s;
          s = (if st = TI_OK then s else tp_emit (TpLost (MgmtQ q) x) s)
      in mq_count (mq_inc q) aRequeuePackets_update s)"

definition dq_requeue :: "nat \<Rightarrow> addr \<Rightarrow> TTxPath \<Rightarrow> TTxPath" where
  "dq_requeue i x s =
     (let (eQueStatus, s) = tp_requeue (DataQ i) x s;
          s = (if eQueStatus \<noteq> TI_OK
               then dq_count i (uDroppedPacket_update (\<lambda>n. n + 1)) (tp_emit (TpFreed (DataQ i) x) s) else s)
      in dq_count i (uRequeuePacket_update (\<lambda>n. n + 1)) s)"

text \<open>One round of the management scheduler at queue \<open>q\<close>, and whether the Tx control module took a packet.\<close>

definition mq_round :: "tp_env \<Rightarrow> EMgmtQueueTypes \<Rightarrow> TTxPath \<Rightarrow> fault + bool \<times> TTxPath" where
  "mq_round E q s =
     (if \<not> mq_aQueueBusy (tp_mgmt s) q \<and> aQueueEnabledBySM (tp_mgmt s) q then
        (case tp_preempt E s of
           Inl f \<Rightarrow> Inl f
         | Inr s \<Rightarrow>
             (case tp_dequeue (MgmtQ q) s of
                (None, s) \<Rightarrow> Inr (False, s)
              | (Some x, s) \<Rightarrow>
                  (case tp_xmit E (MgmtQ q) x (mq_count (mq_inc q) aDequeuePackets_update s) of
                     Inl f \<Rightarrow> Inl f
                   | Inr (eStatus, s) \<Rightarrow>
                       if eStatus = STATUS_XMIT_BUSY then Inr (False, mq_requeue q x s)
                       else Inr (True, mq_count (mq_inc q) aXmittedPackets_update s))))
      else Inr (False, s))"

text \<open>After a packet the loop starts again with the queue of the highest priority, otherwise it goes to the next
  queue; behind the last one the burst ends.\<close>

partial_function (option) mq_loop :: "tp_env \<Rightarrow> EMgmtQueueTypes \<Rightarrow> TTxPath \<Rightarrow> TTxPath tp_res" where
  "mq_loop E q s =
     (if \<not> bMgmtPortEnable (tp_mgmt s) then Some (Inr s)
      else
        (case mq_round E q s of
           Inl f \<Rightarrow> Some (Inl f)
         | Inr (sent, s) \<Rightarrow>
             if sent then mq_loop E QUEUE_TYPE_MGMT s
             else if q = QUEUE_TYPE_MGMT then mq_loop E QUEUE_TYPE_EAPOL s
             else Some (Inr (tp_emit TpEndOfBurst s))))"

declare mq_loop.simps [code]

definition runScheduler :: "tp_env \<Rightarrow> TTxPath \<Rightarrow> TTxPath tp_res" where
  "runScheduler E s = mq_loop E QUEUE_TYPE_MGMT s"

text \<open>A queue found empty: the network stack may go on.\<close>

definition dq_resume :: "nat \<Rightarrow> TTxPath \<Rightarrow> TTxPath" where
  "dq_resume i s =
     (if bStopNetStackTx (tp_data s) \<and> aNetStackQueueStopped (tp_data s) i
      then tp_emit TpResumeTx (dq_set_stopped i False s)
      else s)"

text \<open>One round of the data scheduler at queue \<open>i\<close>, and whether a packet was sent.\<close>

definition dq_round :: "tp_env \<Rightarrow> nat \<Rightarrow> TTxPath \<Rightarrow> fault + bool \<times> TTxPath" where
  "dq_round E i s =
     (if dq_aQueueBusy (tp_data s) i then Inr (False, s)
      else
        (case tp_preempt E s of
           Inl f \<Rightarrow> Inl f
         | Inr s \<Rightarrow>
             (case tp_dequeue (DataQ i) s of
                (None, s) \<Rightarrow> (case tp_preempt E s of Inl f \<Rightarrow> Inl f | Inr s \<Rightarrow> Inr (False, dq_resume i s))
              | (Some x, s) \<Rightarrow>
                  (case tp_xmit E (DataQ i) x (dq_count i (uDequeuePacket_update (\<lambda>n. n + 1)) s) of
                     Inl f \<Rightarrow> Inl f
                   | Inr (eStatus, s) \<Rightarrow>
                       if eStatus = STATUS_XMIT_BUSY then Inr (False, dq_requeue i x s)
                       else Inr (True, dq_count i (uXmittedPacket_update (\<lambda>n. n + 1)) s)))))"

definition dq_next :: "nat \<Rightarrow> TTxPath \<Rightarrow> nat" where
  "dq_next uQueId s = (if uQueId + 1 = uNumQueues (tp_data s) then 0 else uQueId + 1)"

partial_function (option) dq_loop :: "tp_env \<Rightarrow> nat \<Rightarrow> nat \<Rightarrow> TTxPath \<Rightarrow> TTxPath tp_res" where
  "dq_loop E uIdleIterationsCount uQueId s =
     (if \<not> bDataPortEnable (tp_data s) \<or> uIdleIterationsCount \<ge> uNumQueues (tp_data s)
      then Some (Inr (tp_emit TpEndOfBurst s))
      else
        (let i = dq_next uQueId s in
         case dq_round E i (dq_select i s) of
           Inl f \<Rightarrow> Some (Inl f)
         | Inr (sent, s) \<Rightarrow> dq_loop E (if sent then 0 else uIdleIterationsCount + 1) i s))"

declare dq_loop.simps [code]

definition txDataQ_RunScheduler :: "tp_env \<Rightarrow> TTxPath \<Rightarrow> TTxPath tp_res" where
  "txDataQ_RunScheduler E s = dq_loop E 0 (uLastQueId (tp_data s)) s"

section \<open>The state machine and the port\<close>

definition ARE_ALL_MGMT_QUEUES_EMPTY :: "TTxPath \<Rightarrow> bool" where
  "ARE_ALL_MGMT_QUEUES_EMPTY s \<longleftrightarrow>
     tp_size (MgmtQ QUEUE_TYPE_MGMT) s = 0 \<and> tp_size (MgmtQ QUEUE_TYPE_EAPOL) s = 0"

definition mq_enable :: "bool \<Rightarrow> bool \<Rightarrow> TTxMgmtQ \<Rightarrow> TTxMgmtQ" where
  "mq_enable mgmt eapol m =
     m\<lparr>aQueueEnabledBySM := (aQueueEnabledBySM m)(QUEUE_TYPE_MGMT := mgmt, QUEUE_TYPE_EAPOL := eapol)\<rparr>"

text \<open>The first part of \<open>mgmtQueuesSM\<close>: the new state and the action. \<open>bEmpty\<close>: both queues are.\<close>

fun mgmtQueuesSM_step :: "ESmEvent_mgmt \<Rightarrow> bool \<Rightarrow> TTxMgmtQ \<Rightarrow> ESmAction \<times> TTxMgmtQ" where
  "mgmtQueuesSM_step SM_EVENT_CLOSE bEmpty m =
     (if eSmState m = SM_STATE_OPEN_DATA then SM_ACTION_ENABLE_MGMT else SM_ACTION_NULL,
      mq_enable False False (m\<lparr>eSmState := SM_STATE_CLOSE\<rparr>))"
| "mgmtQueuesSM_step SM_EVENT_MGMT bEmpty m =
     (if eSmState m = SM_STATE_OPEN_DATA then SM_ACTION_ENABLE_MGMT else SM_ACTION_RUN_SCHEDULER,
      mq_enable True False (m\<lparr>eSmState := SM_STATE_MGMT\<rparr>))"
| "mgmtQueuesSM_step SM_EVENT_EAPOL bEmpty m =
     (SM_ACTION_RUN_SCHEDULER, mq_enable True True (m\<lparr>eSmState := SM_STATE_EAPOL\<rparr>))"
| "mgmtQueuesSM_step SM_EVENT_OPEN bEmpty m =
     (if bEmpty then (SM_ACTION_ENABLE_DATA, mq_enable False False (m\<lparr>eSmState := SM_STATE_OPEN_DATA\<rparr>))
      else (SM_ACTION_NULL, m\<lparr>eSmState := SM_STATE_OPEN_MGMT\<rparr>))"
| "mgmtQueuesSM_step SM_EVENT_QUEUES_EMPTY bEmpty m =
     (if eSmState m = SM_STATE_OPEN_MGMT
      then (SM_ACTION_ENABLE_DATA, mq_enable False False (m\<lparr>eSmState := SM_STATE_OPEN_DATA\<rparr>))
      else (SM_ACTION_NULL, m))"
| "mgmtQueuesSM_step SM_EVENT_QUEUES_NOT_EMPTY bEmpty m =
     (if eSmState m = SM_STATE_OPEN_DATA
      then (SM_ACTION_ENABLE_MGMT, mq_enable True True (m\<lparr>eSmState := SM_STATE_OPEN_MGMT\<rparr>))
      else if eSmState m = SM_STATE_MGMT \<or> eSmState m = SM_STATE_EAPOL then (SM_ACTION_RUN_SCHEDULER, m)
      else (SM_ACTION_NULL, m))"

definition txMgmtQ_StopAll :: "TTxPath \<Rightarrow> TTxPath" where
  "txMgmtQ_StopAll s = s\<lparr>tp_mgmt := (tp_mgmt s)\<lparr>bMgmtPortEnable := False\<rparr>\<rparr>"

definition txDataQ_StopAll :: "TTxPath \<Rightarrow> TTxPath" where
  "txDataQ_StopAll s = s\<lparr>tp_data := (tp_data s)\<lparr>bDataPortEnable := False\<rparr>\<rparr>"

definition txDataQ_WakeAll :: "tp_env \<Rightarrow> TTxPath \<Rightarrow> TTxPath tp_res" where
  "txDataQ_WakeAll E s = txDataQ_RunScheduler E (s\<lparr>tp_data := (tp_data s)\<lparr>bDataPortEnable := True\<rparr>\<rparr>)"

text \<open>The actions \<open>updateQueuesStates\<close> finds necessary for the management and for the data queues.\<close>

definition port_actions :: "TTxPortObj \<Rightarrow> EQueueAction \<times> EQueueAction" where
  "port_actions p =
     (let stop = (\<lambda>b. if b then QUEUE_ACTION_STOP else QUEUE_ACTION_NONE);
          wake = (\<lambda>b. if \<not> b then QUEUE_ACTION_WAKE else QUEUE_ACTION_NONE)
      in if \<not> txSuspended p then
           (if queuesMuxState p = MUX_MGMT_QUEUES then (wake (mgmtQueueEnabled p), stop (dataQueueEnabled p))
            else (stop (mgmtQueueEnabled p), wake (dataQueueEnabled p)))
         else (stop (mgmtQueueEnabled p), stop (dataQueueEnabled p)))"

text \<open>\<open>wake\<close> is \<open>txMgmtQ_WakeAll\<close>.\<close>

definition updateQueuesStates :: "tp_env \<Rightarrow> (TTxPath \<Rightarrow> TTxPath tp_res) \<Rightarrow> TTxPath \<Rightarrow> TTxPath tp_res" where
  "updateQueuesStates E wake s =
     (let (mgmtQueueAction, dataQueueAction) = port_actions (tp_port s);
          s = (if mgmtQueueAction = QUEUE_ACTION_STOP
               then txMgmtQ_StopAll (s\<lparr>tp_port := (tp_port s)\<lparr>mgmtQueueEnabled := False\<rparr>\<rparr>) else s);
          s = (if dataQueueAction = QUEUE_ACTION_STOP
               then txDataQ_StopAll (s\<lparr>tp_port := (tp_port s)\<lparr>dataQueueEnabled := False\<rparr>\<rparr>) else s)
      in tp_then
           (if mgmtQueueAction = QUEUE_ACTION_WAKE
            then wake (s\<lparr>tp_port := (tp_port s)\<lparr>mgmtQueueEnabled := True\<rparr>\<rparr>) else Some (Inr s))
           (\<lambda>s. if dataQueueAction = QUEUE_ACTION_WAKE
                then txDataQ_WakeAll E (s\<lparr>tp_port := (tp_port s)\<lparr>dataQueueEnabled := True\<rparr>\<rparr>) else Some (Inr s)))"

definition txPort_enableData :: "tp_env \<Rightarrow> (TTxPath \<Rightarrow> TTxPath tp_res) \<Rightarrow> TTxPath \<Rightarrow> TTxPath tp_res" where
  "txPort_enableData E wake s =
     updateQueuesStates E wake (s\<lparr>tp_port := (tp_port s)\<lparr>queuesMuxState := MUX_DATA_QUEUES\<rparr>\<rparr>)"

definition txPort_enableMgmt :: "tp_env \<Rightarrow> (TTxPath \<Rightarrow> TTxPath tp_res) \<Rightarrow> TTxPath \<Rightarrow> TTxPath tp_res" where
  "txPort_enableMgmt E wake s =
     updateQueuesStates E wake (s\<lparr>tp_port := (tp_port s)\<lparr>queuesMuxState := MUX_MGMT_QUEUES\<rparr>\<rparr>)"

text \<open>\<open>runSchedulerNotFromSm\<close> and \<open>txMgmtQ_WakeAll\<close>; \<open>sm\<close> is \<open>mgmtQueuesSM\<close>. The network stack may preempt
  between the scheduler and the tests.\<close>

definition runSchedulerNotFromSm ::
  "tp_env \<Rightarrow> (ESmEvent_mgmt \<Rightarrow> TTxPath \<Rightarrow> TTxPath tp_res) \<Rightarrow> TTxPath \<Rightarrow> TTxPath tp_res" where
  "runSchedulerNotFromSm E sm s =
     (if \<not> ARE_ALL_MGMT_QUEUES_EMPTY s then
        tp_then (runScheduler E s) (\<lambda>s.
          tp_then (Some (tp_preempt E s)) (\<lambda>s.
            if ARE_ALL_MGMT_QUEUES_EMPTY s then sm SM_EVENT_QUEUES_EMPTY s else Some (Inr s)))
      else Some (Inr s))"

definition txMgmtQ_WakeAll ::
  "tp_env \<Rightarrow> (ESmEvent_mgmt \<Rightarrow> TTxPath \<Rightarrow> TTxPath tp_res) \<Rightarrow> TTxPath \<Rightarrow> TTxPath tp_res" where
  "txMgmtQ_WakeAll E sm s = runSchedulerNotFromSm E sm (s\<lparr>tp_mgmt := (tp_mgmt s)\<lparr>bMgmtPortEnable := True\<rparr>\<rparr>)"

text \<open>\<open>mgmtQueuesSM\<close> with as much nesting in itself as the fuel allows: one level, through the port and the
  management scheduler, is all there can be.\<close>

fun mgmtQueuesSM :: "tp_env \<Rightarrow> nat \<Rightarrow> ESmEvent_mgmt \<Rightarrow> TTxPath \<Rightarrow> TTxPath tp_res" where
  "mgmtQueuesSM E 0 eSmEvent s = None"
| "mgmtQueuesSM E (Suc n) eSmEvent s =
     (let (eSmAction, m) = mgmtQueuesSM_step eSmEvent (ARE_ALL_MGMT_QUEUES_EMPTY s) (tp_mgmt s);
          s = s\<lparr>tp_mgmt := m\<rparr>
      in case eSmAction of
           SM_ACTION_NULL \<Rightarrow> Some (Inr s)
         | SM_ACTION_ENABLE_DATA \<Rightarrow> txPort_enableData E (txMgmtQ_WakeAll E (mgmtQueuesSM E n)) s
         | SM_ACTION_ENABLE_MGMT \<Rightarrow> txPort_enableMgmt E (txMgmtQ_WakeAll E (mgmtQueuesSM E n)) s
         | SM_ACTION_RUN_SCHEDULER \<Rightarrow> runScheduler E s)"

definition mq_sm :: "tp_env \<Rightarrow> ESmEvent_mgmt \<Rightarrow> TTxPath \<Rightarrow> TTxPath tp_res" where
  "mq_sm E = mgmtQueuesSM E 2"

section \<open>Operations\<close>

definition txMgmtQ_GetConnState :: "TTxPath \<Rightarrow> ETxConnState" where
  "txMgmtQ_GetConnState s = eTxConnState (tp_mgmt s)"

definition txMgmtQ_Xmit :: "tp_env \<Rightarrow> addr \<Rightarrow> bool \<Rightarrow> TTxPath \<Rightarrow> (ti_status \<times> TTxPath) tp_res" where
  "txMgmtQ_Xmit E x bExternalContext s =
     (if bExternalContext then Some (Inr (mq_xmit_external x s))
      else
        (let (eStatus, first, s) = mq_insert x s in
         if first then tp_then (mq_sm E SM_EVENT_QUEUES_NOT_EMPTY s) (\<lambda>s. Some (Inr (eStatus, s)))
         else Some (Inr (eStatus, s))))"

definition txMgmtQ_QueuesNotEmpty :: "tp_env \<Rightarrow> TTxPath \<Rightarrow> TTxPath tp_res" where
  "txMgmtQ_QueuesNotEmpty E s = mq_sm E SM_EVENT_QUEUES_NOT_EMPTY s"

definition txMgmtQ_UpdateBusyMap :: "tp_env \<Rightarrow> u32 \<Rightarrow> TTxPath \<Rightarrow> TTxPath tp_res" where
  "txMgmtQ_UpdateBusyMap E uTidBitMap s = runSchedulerNotFromSm E (mq_sm E) (updateQueuesBusyMap uTidBitMap s)"

fun conn_event :: "ETxConnState \<Rightarrow> ESmEvent_mgmt" where
  "conn_event TX_CONN_STATE_CLOSE = SM_EVENT_CLOSE"
| "conn_event TX_CONN_STATE_MGMT = SM_EVENT_MGMT"
| "conn_event TX_CONN_STATE_EAPOL = SM_EVENT_EAPOL"
| "conn_event TX_CONN_STATE_OPEN = SM_EVENT_OPEN"

definition txMgmtQ_SetConnState :: "tp_env \<Rightarrow> ETxConnState \<Rightarrow> TTxPath \<Rightarrow> TTxPath tp_res" where
  "txMgmtQ_SetConnState E c s = mq_sm E (conn_event c) (s\<lparr>tp_mgmt := (tp_mgmt s)\<lparr>eTxConnState := c\<rparr>\<rparr>)"

definition txDataQ_UpdateBusyMap :: "tp_env \<Rightarrow> u32 \<Rightarrow> TTxPath \<Rightarrow> TTxPath tp_res" where
  "txDataQ_UpdateBusyMap E tidBitMap s = txDataQ_RunScheduler E (txDataQ_UpdateQueuesBusyState tidBitMap s)"

definition txDataQ_TxSendPaceTimeout :: "tp_env \<Rightarrow> TTxPath \<Rightarrow> TTxPath tp_res" where
  "txDataQ_TxSendPaceTimeout E s =
     txDataQ_RunScheduler E
       (s\<lparr>tp_data := (tp_data s)\<lparr>uTxSendPaceTimeoutsCount := uTxSendPaceTimeoutsCount (tp_data s) + 1\<rparr>\<rparr>)"

definition txPort_suspendTx :: "tp_env \<Rightarrow> TTxPath \<Rightarrow> TTxPath tp_res" where
  "txPort_suspendTx E s =
     updateQueuesStates E (txMgmtQ_WakeAll E (mq_sm E)) (s\<lparr>tp_port := (tp_port s)\<lparr>txSuspended := True\<rparr>\<rparr>)"

definition txPort_resumeTx :: "tp_env \<Rightarrow> TTxPath \<Rightarrow> TTxPath tp_res" where
  "txPort_resumeTx E s =
     updateQueuesStates E (txMgmtQ_WakeAll E (mq_sm E)) (s\<lparr>tp_port := (tp_port s)\<lparr>txSuspended := False\<rparr>\<rparr>)"

text \<open>A queue is emptied and its packets are freed; \<open>tp_linked\<close> packets only.\<close>

function tp_clear :: "tp_queue \<Rightarrow> TTxPath \<Rightarrow> TTxPath" where
  "tp_clear d s =
     (case tp_dequeue d s of (None, s) \<Rightarrow> s | (Some x, s) \<Rightarrow> tp_clear d (tp_emit (TpFreed d x) s))"
  by pat_completeness auto
termination
  by (relation "measure (\<lambda>(d, s). length (aq_items (tp_q d s)))")
    (auto simp: tp_dequeue_def aq_Dequeue_def tp_q_def tp_set_queue_def tp_emit_def Let_def
      split: list.splits tp_queue.splits)

declare tp_clear.simps [simp del]

definition txMgmtQ_ClearQueues :: "TTxPath \<Rightarrow> TTxPath" where
  "txMgmtQ_ClearQueues s = tp_clear (MgmtQ QUEUE_TYPE_EAPOL) (tp_clear (MgmtQ QUEUE_TYPE_MGMT) s)"

definition txDataQ_ClearQueues :: "TTxPath \<Rightarrow> TTxPath" where
  "txDataQ_ClearQueues s = fold (\<lambda>i. tp_clear (DataQ i)) [0..<uNumQueues (tp_data s)] s"

text \<open>\<open>que\<close>: what \<open>que_Destroy\<close> answers for the queues; the objects are freed in any case.\<close>

definition txMgmtQ_Destroy :: "(EMgmtQueueTypes \<Rightarrow> ti_status) \<Rightarrow> ti_status" where
  "txMgmtQ_Destroy que =
     fold (\<lambda>q eStatus. if que q \<noteq> TI_OK then TI_NOK else eStatus) [QUEUE_TYPE_MGMT, QUEUE_TYPE_EAPOL] TI_OK"

definition txDataQ_Destroy :: "(nat \<Rightarrow> ti_status) \<Rightarrow> TTxDataQ \<Rightarrow> ti_status" where
  "txDataQ_Destroy que d = fold (\<lambda>i status. if que i \<noteq> TI_OK then TI_NOK else status) [0..<uNumQueues d] TI_OK"

definition txMgmtQ_ResetQueueStatistics :: "TTxPath \<Rightarrow> TTxPath" where
  "txMgmtQ_ResetQueueStatistics s =
     s\<lparr>tp_mgmt := (tp_mgmt s)\<lparr>tDbgCounters := \<lparr>aEnqueuePackets = (\<lambda>q. 0), aDequeuePackets = (\<lambda>q. 0),
       aRequeuePackets = (\<lambda>q. 0), aDroppedPackets = (\<lambda>q. 0), aXmittedPackets = (\<lambda>q. 0)\<rparr>\<rparr>\<rparr>"

definition TTxDataQueueDebugCnt_zero :: TTxDataQueueDebugCnt where
  "TTxDataQueueDebugCnt_zero =
     \<lparr>uEnqueuePacket = 0, uDequeuePacket = 0, uRequeuePacket = 0, uXmittedPacket = 0, uDroppedPacket = 0\<rparr>"

definition txDataQ_ResetQueueStatistics :: "TTxPath \<Rightarrow> TTxPath" where
  "txDataQ_ResetQueueStatistics s =
     s\<lparr>tp_data := (tp_data s)\<lparr>aQueueCounters := (\<lambda>i. TTxDataQueueDebugCnt_zero), uTxSendPaceTimeoutsCount := 0\<rparr>\<rparr>"

section \<open>Life cycle\<close>

text \<open>The objects as \<open>txMgmtQ_Create\<close>, \<open>txPort_create\<close> and \<open>txDataQ_Create\<close> clear them; \<open>None\<close>: no memory. The
  queues exist after the \<open>Init\<close> functions: their answers \<open>ok\<close> say which could be created, and when one could not,
  the object is freed and there is no Tx path.\<close>

definition txMgmtQ_Create :: "bool \<Rightarrow> TTxMgmtQ option" where
  "txMgmtQ_Create allocated =
     (if \<not> allocated then None
      else Some \<lparr>bMgmtPortEnable = False, eSmState = SM_STATE_CLOSE, eTxConnState = TX_CONN_STATE_CLOSE,
        mq_uContextId = 0, mq_aQueues = (\<lambda>q. aq_Create 0), mq_aQueueBusy = (\<lambda>q. False),
        aQueueEnabledBySM = (\<lambda>q. False),
        tDbgCounters = \<lparr>aEnqueuePackets = (\<lambda>q. 0), aDequeuePackets = (\<lambda>q. 0), aRequeuePackets = (\<lambda>q. 0),
          aDroppedPackets = (\<lambda>q. 0), aXmittedPackets = (\<lambda>q. 0)\<rparr>\<rparr>)"

definition txMgmtQ_Init :: "(EMgmtQueueTypes \<Rightarrow> bool) \<Rightarrow> u32 \<Rightarrow> TTxMgmtQ \<Rightarrow> TTxMgmtQ option" where
  "txMgmtQ_Init ok ctx m =
     (let m = m\<lparr>bMgmtPortEnable := True, eSmState := SM_STATE_CLOSE, eTxConnState := TX_CONN_STATE_CLOSE\<rparr> in
      if list_all ok [QUEUE_TYPE_MGMT, QUEUE_TYPE_EAPOL]
      then Some (m\<lparr>mq_aQueues := (\<lambda>q. aq_Create MGMT_QUEUES_DEPTH), mq_aQueueBusy := (\<lambda>q. False),
        aQueueEnabledBySM := (\<lambda>q. False), mq_uContextId := ctx\<rparr>)
      else None)"

definition txPort_create :: "bool \<Rightarrow> TTxPortObj option" where
  "txPort_create allocated =
     (if \<not> allocated then None
      else Some \<lparr>queuesMuxState = MUX_MGMT_QUEUES, txSuspended = False, mgmtQueueEnabled = False, dataQueueEnabled = False\<rparr>)"

definition txPort_init :: "TTxPortObj \<Rightarrow> TTxPortObj" where
  "txPort_init p =
     p\<lparr>queuesMuxState := MUX_MGMT_QUEUES, txSuspended := False, mgmtQueueEnabled := True, dataQueueEnabled := False\<rparr>"

definition txDataQ_Create :: "bool \<Rightarrow> TTxDataQ option" where
  "txDataQ_Create allocated =
     (if \<not> allocated then None
      else Some \<lparr>tClsfrParams = \<lparr>eClsfrType = 0, uNumActiveEntries = 0,
          ClsfrTable = replicate NUM_OF_CLSFR_TABLE_ENTRIES \<lparr>DstIPAddress = 0, IPPort_DstPortNum = 0, DTag = 0\<rparr>\<rparr>,
        bDataPortEnable = False, dq_uContextId = 0, hTxSendPaceTimer = 0, uNumQueues = 0, aQueueMaxSize = (\<lambda>i. 0),
        aTxSendPaceThresh = (\<lambda>i. 0), dq_aQueues = (\<lambda>i. aq_Create 0), dq_aQueueBusy = (\<lambda>i. False), uLastQueId = 0,
        aNetStackQueueStopped = (\<lambda>i. False), bStopNetStackTx = False, aQueueCounters = (\<lambda>i. TTxDataQueueDebugCnt_zero),
        uClsfrMismatchCount = 0, uTxSendPaceTimeoutsCount = 0\<rparr>)"

definition dq_depth :: "nat \<Rightarrow> u32" where
  "dq_depth i = ((\<lambda>i. 0)(0 := DATA_QUEUE_DEPTH_BE, 1 := DATA_QUEUE_DEPTH_BK, 2 := DATA_QUEUE_DEPTH_VI,
     3 := DATA_QUEUE_DEPTH_VO)) i"

text \<open>\<open>tmr\<close>: what \<open>tmr_CreateTimer\<close> returned; without a timer the module is not registered.\<close>

definition txDataQ_Init :: "(nat \<Rightarrow> bool) \<Rightarrow> addr \<Rightarrow> u32 \<Rightarrow> TTxDataQ \<Rightarrow> TTxDataQ option" where
  "txDataQ_Init ok tmr ctx d =
     (let d = d\<lparr>bDataPortEnable := False, uLastQueId := 0, uNumQueues := MAX_NUM_OF_AC, aQueueMaxSize := dq_depth\<rparr> in
      if list_all ok [0..<MAX_NUM_OF_AC] then
        (let d = d\<lparr>dq_aQueues := (\<lambda>i. aq_Create (dq_depth i)), dq_aQueueBusy := (\<lambda>i. False),
               aNetStackQueueStopped := (\<lambda>i. False), aTxSendPaceThresh := (\<lambda>i. 1), hTxSendPaceTimer := tmr\<rparr>
         in Some (if tmr = 0 then d else d\<lparr>dq_uContextId := ctx\<rparr>))
      else None)"

definition txDataQ_SetDefaults :: "TClsfrParams \<Rightarrow> bool \<Rightarrow> u32 \<Rightarrow> TTxDataQ \<Rightarrow> ti_status \<times> TTxDataQ" where
  "txDataQ_SetDefaults clsfr bStop uTxSendPaceThresh d =
     (case txDataClsfr_Config (tClsfrParams d) clsfr of
        (eStatus, p) \<Rightarrow>
          if eStatus \<noteq> TI_OK then (eStatus, d\<lparr>tClsfrParams := p\<rparr>)
          else (TI_OK, d\<lparr>tClsfrParams := p, bStopNetStackTx := bStop,
                 aTxSendPaceThresh := (aTxSendPaceThresh d)(0 := uTxSendPaceThresh, 1 := uTxSendPaceThresh,
                   2 := uTxSendPaceThresh, 3 := 1)\<rparr>))"

text \<open>The path after the \<open>Init\<close> functions and \<open>txDataQ_SetDefaults\<close>.\<close>

definition tp_boot ::
  "u32 \<Rightarrow> addr \<Rightarrow> u32 \<Rightarrow> TClsfrParams \<Rightarrow> bool \<Rightarrow> u32 \<Rightarrow> (addr \<Rightarrow> TTxCtrlBlk) \<Rightarrow> TTxPath" where
  "tp_boot ctxM tmr ctxD clsfr bStop thresh blk =
     \<lparr>tp_mgmt = the (txMgmtQ_Init (\<lambda>q. True) ctxM (the (txMgmtQ_Create True))),
      tp_port = txPort_init (the (txPort_create True)),
      tp_data = snd (txDataQ_SetDefaults clsfr bStop thresh (the (txDataQ_Init (\<lambda>i. True) tmr ctxD (the (txDataQ_Create True))))),
      tp_blk = blk, tp_trace = []\<rparr>"

section \<open>The operations as one machine\<close>

text \<open>What the other modules, the timer and the context engine call. \<open>OpRunData\<close> is the callback of the data queues.\<close>

datatype tp_op =
    OpInsert addr u8
  | OpXmit addr bool
  | OpQueuesNotEmpty
  | OpRunData
  | OpPaceTimeout
  | OpMgmtBusyMap u32
  | OpDataBusyMap u32
  | OpConn ETxConnState
  | OpSuspend
  | OpResume
  | OpClearMgmt
  | OpClearData
  | OpResetMgmt
  | OpResetData

fun tp_do :: "tp_env \<Rightarrow> tp_op \<Rightarrow> TTxPath \<Rightarrow> TTxPath tp_res" where
  "tp_do E (OpInsert x g) s = Some (case txDataQ_InsertPacket E x g s of Inl f \<Rightarrow> Inl f | Inr (st, s) \<Rightarrow> Inr s)"
| "tp_do E (OpXmit x b) s = tp_then (txMgmtQ_Xmit E x b s) (\<lambda>(st, s). Some (Inr s))"
| "tp_do E OpQueuesNotEmpty s = txMgmtQ_QueuesNotEmpty E s"
| "tp_do E OpRunData s = txDataQ_RunScheduler E s"
| "tp_do E OpPaceTimeout s = txDataQ_TxSendPaceTimeout E s"
| "tp_do E (OpMgmtBusyMap m) s = txMgmtQ_UpdateBusyMap E m s"
| "tp_do E (OpDataBusyMap m) s = txDataQ_UpdateBusyMap E m s"
| "tp_do E (OpConn c) s = txMgmtQ_SetConnState E c s"
| "tp_do E OpSuspend s = txPort_suspendTx E s"
| "tp_do E OpResume s = txPort_resumeTx E s"
| "tp_do E OpClearMgmt s = Some (Inr (txMgmtQ_ClearQueues s))"
| "tp_do E OpClearData s = Some (Inr (txDataQ_ClearQueues s))"
| "tp_do E OpResetMgmt s = Some (Inr (txMgmtQ_ResetQueueStatistics s))"
| "tp_do E OpResetData s = Some (Inr (txDataQ_ResetQueueStatistics s))"

fun tp_run :: "tp_env \<Rightarrow> tp_op list \<Rightarrow> TTxPath \<Rightarrow> TTxPath tp_res" where
  "tp_run E [] s = Some (Inr s)"
| "tp_run E (op # ops) s = tp_then (tp_do E op s) (tp_run E ops)"

end
