(* ===== verification/TxPathInv.thy ===== *)
theory TxPathInv
  imports TxPath
begin

text \<open>
  Lemmas on the Tx path. What a scheduler loop keeps (\<open>tp_rounds\<close>), what it leaves alone (\<open>tp_ctl\<close>, the part of the
  state that says who may send), and the abstract view of that part: the connection state, whose turn it is and
  whether the path is suspended.
\<close>

section \<open>Queues and trace\<close>

lemma tp_emit_trace [simp]: "tp_trace (tp_emit e s) = tp_trace s @ [e]"
  by (simp add: tp_emit_def)

lemma tp_set_queue_trace [simp]: "tp_trace (tp_set_queue d Q s) = tp_trace s"
  by (simp add: tp_set_queue_def split: tp_queue.splits)

lemma tp_q_emit [simp]: "tp_q d (tp_emit e s) = tp_q d s"
  by (simp add: tp_q_def tp_emit_def split: tp_queue.splits)

lemma tp_q_set [simp]: "tp_q d (tp_set_queue d' Q s) = (if d = d' then Q else tp_q d s)"
  by (auto simp: tp_q_def tp_set_queue_def split: tp_queue.splits)

section \<open>Who may send is not changed by sending\<close>

type_synonym tp_control =
  "ESmState_mgmt \<times> ETxConnState \<times> (EMgmtQueueTypes \<Rightarrow> bool) \<times> bool \<times> bool \<times> TTxPortObj \<times> nat"

definition tp_ctl :: "TTxPath \<Rightarrow> tp_control" where
  "tp_ctl s = (eSmState (tp_mgmt s), eTxConnState (tp_mgmt s), aQueueEnabledBySM (tp_mgmt s),
     bMgmtPortEnable (tp_mgmt s), bDataPortEnable (tp_data s), tp_port s, uNumQueues (tp_data s))"

text \<open>The rest that sending does not change, and what inserting packets does not change either: the busy maps.\<close>

definition tp_stat :: "TTxPath \<Rightarrow> tp_control \<times> nat \<times> bool" where
  "tp_stat s = (tp_ctl s, uLastQueId (tp_data s), bStopNetStackTx (tp_data s))"

definition tp_still :: "TTxPath \<Rightarrow> (tp_control \<times> nat \<times> bool) \<times> (nat \<Rightarrow> bool) \<times> (EMgmtQueueTypes \<Rightarrow> bool)" where
  "tp_still s = (tp_stat s, dq_aQueueBusy (tp_data s), mq_aQueueBusy (tp_mgmt s))"

lemma stat_ctl: "tp_stat s' = tp_stat s \<Longrightarrow> tp_ctl s' = tp_ctl s"
  by (simp add: tp_stat_def)

lemma still_stat: "tp_still s' = tp_still s \<Longrightarrow> tp_stat s' = tp_stat s"
  by (simp add: tp_still_def)

lemma tp_still_simps [simp]:
  "tp_still (tp_emit e s) = tp_still s"
  "tp_still (tp_set_queue d Q s) = tp_still s"
  "tp_still (mq_count f u s) = tp_still s"
  "tp_still (dq_count i g s) = tp_still s"
  "tp_still (tp_set_type ty x s) = tp_still s"
  "tp_still (tp_set_blk x b s) = tp_still s"
  "tp_still (dq_mismatch s) = tp_still s"
  "tp_still (dq_set_stopped i b' s) = tp_still s"
  "tp_still (s\<lparr>tp_data := (tp_data s)\<lparr>uTxSendPaceTimeoutsCount := n\<rparr>\<rparr>) = tp_still s"
  by (simp_all add: tp_still_def tp_stat_def tp_ctl_def tp_emit_def tp_set_queue_def mq_count_def dq_count_def tp_set_type_def tp_set_blk_def
      dq_select_def dq_mismatch_def dq_set_stopped_def split: tp_queue.splits)

lemma tp_enqueue_still: "tp_enqueue d x s = (st, s') \<Longrightarrow> tp_still s' = tp_still s"
  by (auto simp: tp_enqueue_def Let_def split: prod.splits if_splits)

lemma tp_requeue_still: "tp_requeue d x s = (st, s') \<Longrightarrow> tp_still s' = tp_still s"
  by (auto simp: tp_requeue_def Let_def split: prod.splits)

lemma tp_dequeue_still: "tp_dequeue d s = (r, s') \<Longrightarrow> tp_still s' = tp_still s"
  by (auto simp: tp_dequeue_def Let_def split: prod.splits)

lemma mq_insert_still: "mq_insert x s = (st, b, s') \<Longrightarrow> tp_still s' = tp_still s"
  by (auto simp: mq_insert_def Let_def split: prod.splits if_splits dest!: tp_enqueue_still)

lemma mq_xmit_external_still: "mq_xmit_external x s = (st, s') \<Longrightarrow> tp_still s' = tp_still s"
  by (auto simp: mq_xmit_external_def split: prod.splits if_splits dest!: mq_insert_still)

lemma dq_pace_still: "dq_pace i n s = (b, s') \<Longrightarrow> tp_still s' = tp_still s"
  by (auto simp: dq_pace_def Let_def split: if_splits)

lemma dq_insert_still: "dq_insert x i s = (st, s') \<Longrightarrow> tp_still s' = tp_still s"
  by (auto simp: dq_insert_def Let_def split: prod.splits if_splits dest!: tp_enqueue_still dq_pace_still)

lemma txDataQ_InsertPacket_still: "txDataQ_InsertPacket E x g s = Inr (st, s') \<Longrightarrow> tp_still s' = tp_still s"
  by (auto simp: txDataQ_InsertPacket_def Let_def split: prod.splits if_splits sum.splits
      dest!: mq_xmit_external_still dq_insert_still)

lemma tp_insert_all_still: "tp_insert_all E ps s = Inr s' \<Longrightarrow> tp_still s' = tp_still s"
  by (induction E ps s rule: tp_insert_all.induct)
    (auto split: sum.splits prod.splits dest!: txDataQ_InsertPacket_still)

lemma tp_preempt_still: "tp_preempt E s = Inr s' \<Longrightarrow> tp_still s' = tp_still s"
  by (auto simp: tp_preempt_def Let_def dest!: tp_insert_all_still)

lemma mq_requeue_still [simp]: "tp_still (mq_requeue q x s) = tp_still s"
  by (auto simp: mq_requeue_def Let_def split: prod.splits dest!: tp_requeue_still)

lemma dq_requeue_still [simp]: "tp_still (dq_requeue i x s) = tp_still s"
  by (auto simp: dq_requeue_def Let_def split: prod.splits dest!: tp_requeue_still)

lemma dq_resume_still [simp]: "tp_still (dq_resume i s) = tp_still s"
  by (simp add: dq_resume_def)

lemmas tp_stat_simps [simp] = tp_still_simps [THEN still_stat] mq_requeue_still [THEN still_stat] dq_requeue_still [THEN still_stat] dq_resume_still [THEN still_stat]
lemmas tp_enqueue_stat = tp_enqueue_still [THEN still_stat]
lemmas tp_requeue_stat = tp_requeue_still [THEN still_stat]
lemmas tp_dequeue_stat = tp_dequeue_still [THEN still_stat]
lemmas mq_insert_stat = mq_insert_still [THEN still_stat]
lemmas mq_xmit_external_stat = mq_xmit_external_still [THEN still_stat]
lemmas dq_pace_stat = dq_pace_still [THEN still_stat]
lemmas dq_insert_stat = dq_insert_still [THEN still_stat]
lemmas txDataQ_InsertPacket_stat = txDataQ_InsertPacket_still [THEN still_stat]
lemmas tp_insert_all_stat = tp_insert_all_still [THEN still_stat]
lemmas tp_preempt_stat = tp_preempt_still [THEN still_stat]

lemma busy_stat [simp]:
  "tp_stat (updateQueuesBusyMap m s) = tp_stat s" "tp_stat (txDataQ_UpdateQueuesBusyState m s) = tp_stat s"
  by (simp_all add: tp_stat_def tp_ctl_def updateQueuesBusyMap_def txDataQ_UpdateQueuesBusyState_def)

lemma tp_xmit_stat: "tp_xmit E d x s = Inr (st, s') \<Longrightarrow> tp_stat s' = tp_stat s"
  by (auto simp: tp_xmit_def txMgmtQ_StopQueue_def txDataQ_StopQueue_def Let_def
      split: prod.splits sum.splits option.splits tp_queue.splits dest!: tp_preempt_stat)

lemma mq_round_stat: "mq_round E q s = Inr (b, s') \<Longrightarrow> tp_stat s' = tp_stat s"
  by (auto simp: mq_round_def split: prod.splits sum.splits option.splits if_splits
      dest!: tp_preempt_stat tp_dequeue_stat tp_xmit_stat)

lemma dq_round_stat: "dq_round E i s = Inr (b, s') \<Longrightarrow> tp_stat s' = tp_stat s"
  by (auto simp: dq_round_def split: prod.splits sum.splits option.splits if_splits
      dest!: tp_preempt_stat tp_dequeue_stat tp_xmit_stat)

lemma dq_select_ctl [simp]: "tp_ctl (dq_select i s) = tp_ctl s"
  by (simp add: dq_select_def tp_ctl_def)

lemmas tp_ctl_simps [simp] = tp_stat_simps [THEN stat_ctl] busy_stat [THEN stat_ctl]
lemmas tp_enqueue_ctl = tp_enqueue_stat [THEN stat_ctl]
lemmas tp_requeue_ctl = tp_requeue_stat [THEN stat_ctl]
lemmas tp_dequeue_ctl = tp_dequeue_stat [THEN stat_ctl]
lemmas mq_insert_ctl = mq_insert_stat [THEN stat_ctl]
lemmas mq_xmit_external_ctl = mq_xmit_external_stat [THEN stat_ctl]
lemmas dq_pace_ctl = dq_pace_stat [THEN stat_ctl]
lemmas dq_insert_ctl = dq_insert_stat [THEN stat_ctl]
lemmas txDataQ_InsertPacket_ctl = txDataQ_InsertPacket_stat [THEN stat_ctl]
lemmas tp_insert_all_ctl = tp_insert_all_stat [THEN stat_ctl]
lemmas tp_preempt_ctl = tp_preempt_stat [THEN stat_ctl]
lemmas tp_xmit_ctl = tp_xmit_stat [THEN stat_ctl]
lemmas mq_round_ctl = mq_round_stat [THEN stat_ctl]
lemmas dq_round_ctl = dq_round_stat [THEN stat_ctl]

section \<open>Loops keep what their rounds keep\<close>

locale tp_rounds =
  fixes E :: tp_env
    and I :: "TTxPath \<Rightarrow> bool"
  assumes keep_mq_round: "I s \<Longrightarrow> bMgmtPortEnable (tp_mgmt s) \<Longrightarrow> mq_round E q s = Inr (b, s') \<Longrightarrow> I s'"
    and keep_dq_round: "I s \<Longrightarrow> bDataPortEnable (tp_data s) \<Longrightarrow>
      dq_round E i (dq_select i s) = Inr (b, s') \<Longrightarrow> I s'"
    and keep_end: "I s \<Longrightarrow> I (tp_emit TpEndOfBurst s)"
begin

lemma mq_loop_keeps:
  assumes "mq_loop E q s = Some r" "I s" "r = Inr s'"
  shows "I s'"
proof -
  have "F = E \<longrightarrow> I s \<longrightarrow> (\<forall>s'. r = Inr s' \<longrightarrow> I s')" if "mq_loop F q s = Some r" for F q s r
  proof (rule mq_loop.raw_induct [OF _ that], goal_cases)
    case (1 loop F q s r)
    show ?case
    proof (intro impI allI)
      fix s' assume F: "F = E" and I: "I s" and r: "r = Inr s'"
      show "I s'"
      proof (cases "bMgmtPortEnable (tp_mgmt s)")
        case False then show ?thesis using 1(2) I r by simp
      next
        case True
        show ?thesis
        proof (cases "mq_round E q s")
          case (Inl f) then show ?thesis using 1(2) True F r by simp
        next
          case (Inr p)
          obtain b t where p: "p = (b, t)" by force
          have It: "I t" using keep_mq_round [OF I True] Inr p by blast
          show ?thesis using 1 True F r Inr p It keep_end [OF It] by (auto split: if_splits)
        qed
      qed
    qed
  qed
  with assms show ?thesis by blast
qed

lemma dq_loop_keeps:
  assumes "dq_loop E n i s = Some r" "I s" "r = Inr s'"
  shows "I s'"
proof -
  have "F = E \<longrightarrow> I s \<longrightarrow> (\<forall>s'. r = Inr s' \<longrightarrow> I s')" if "dq_loop F n i s = Some r" for F n i s r
  proof (rule dq_loop.raw_induct [OF _ that], goal_cases)
    case (1 loop F n i s r)
    show ?case
    proof (intro impI allI)
      fix s' assume F: "F = E" and I: "I s" and r: "r = Inr s'"
      define j where "j = dq_next i s"
      show "I s'"
      proof (cases "\<not> bDataPortEnable (tp_data s) \<or> n \<ge> uNumQueues (tp_data s)")
        case True then show ?thesis using 1(2) keep_end [OF I] r by simp
      next
        case False
        show ?thesis
        proof (cases "dq_round E j (dq_select j s)")
          case (Inl f) then show ?thesis using 1(2) False F r by (simp add: j_def Let_def)
        next
          case (Inr p)
          obtain b t where p: "p = (b, t)" by force
          have It: "I t" using keep_dq_round [OF I] False Inr p by blast
          show ?thesis using 1 False F r Inr p It by (auto simp: j_def Let_def split: if_splits)
        qed
      qed
    qed
  qed
  with assms show ?thesis by blast
qed

end

interpretation rounds_ctl: tp_rounds E "\<lambda>s. tp_ctl s = k" for E k
  by unfold_locales (auto dest!: mq_round_ctl dq_round_ctl)

lemma mq_loop_ctl: "mq_loop E q s = Some (Inr s') \<Longrightarrow> tp_ctl s' = tp_ctl s"
  by (rule rounds_ctl.mq_loop_keeps) simp_all

lemma dq_loop_ctl: "dq_loop E n i s = Some (Inr s') \<Longrightarrow> tp_ctl s' = tp_ctl s"
  by (rule rounds_ctl.dq_loop_keeps) simp_all

section \<open>What is kept along the way of a packet\<close>

text \<open>\<open>tx_permits (c, susp) d\<close>: in connection state \<open>c\<close> packets of queue \<open>d\<close> may go to the Tx control module, and the
  path is not suspended.\<close>

fun conn_permits :: "ETxConnState \<Rightarrow> tp_queue \<Rightarrow> bool" where
  "conn_permits c (MgmtQ QUEUE_TYPE_MGMT) \<longleftrightarrow> c \<noteq> TX_CONN_STATE_CLOSE"
| "conn_permits c (MgmtQ QUEUE_TYPE_EAPOL) \<longleftrightarrow> c = TX_CONN_STATE_EAPOL \<or> c = TX_CONN_STATE_OPEN"
| "conn_permits c (DataQ i) \<longleftrightarrow> c = TX_CONN_STATE_OPEN"

definition tx_permits :: "ETxConnState \<times> bool \<Rightarrow> tp_queue \<Rightarrow> bool" where
  "tx_permits k d \<longleftrightarrow> \<not> snd k \<and> conn_permits (fst k) d"

fun tp_silent :: "tp_event \<Rightarrow> bool" where
  "tp_silent (TpAccepted d x) = False"
| "tp_silent (TpXmit c d x st) = False"
| "tp_silent (TpFreed d x) = False"
| "tp_silent (TpLost d x) = False"
| "tp_silent _ = True"

text \<open>\<open>J fl s\<close>: a property of the queues and the trace; \<open>fl\<close> is the packet that is in the hands of a scheduler, with
  its queue.\<close>

locale tp_kept =
  fixes E :: tp_env
    and J :: "(tp_queue \<times> addr) option \<Rightarrow> TTxPath \<Rightarrow> bool"
  assumes rest: "J fl s \<Longrightarrow> (\<And>d. tp_q d s' = tp_q d s) \<Longrightarrow> tp_trace s' = tp_trace s \<Longrightarrow> J fl s'"
    and silent: "J fl s \<Longrightarrow> tp_silent e \<Longrightarrow> J fl (tp_emit e s)"
    and enqueue: "J fl s \<Longrightarrow> tp_enqueue d x s = (st, s') \<Longrightarrow> J fl s'"
    and take: "J None s \<Longrightarrow> tp_dequeue d s = (Some x, s') \<Longrightarrow> J (Some (d, x)) s'"
    and sent: "J (Some (d, x)) s \<Longrightarrow> r \<noteq> STATUS_XMIT_BUSY \<Longrightarrow> tx_permits c d \<Longrightarrow> J None (tp_emit (TpXmit c d x r) s)"
    and busy: "J (Some (d, x)) s \<Longrightarrow> tx_permits c d \<Longrightarrow> J (Some (d, x)) (tp_emit (TpXmit c d x STATUS_XMIT_BUSY) s)"
    and returned: "J (Some (d, x)) s \<Longrightarrow> tp_requeue d x s = (TI_OK, s') \<Longrightarrow> J None s'"
    and dropped: "J (Some (d, x)) s \<Longrightarrow> tp_requeue d x s = (st, s') \<Longrightarrow> st \<noteq> TI_OK \<Longrightarrow>
      e = TpFreed d x \<or> e = TpLost d x \<Longrightarrow> J None (tp_emit e s')"
    and freed: "J (Some (d, x)) s \<Longrightarrow> J None (tp_emit (TpFreed d x) s)"
begin

lemma keep_simple:
  assumes "J fl s"
  shows "J fl (mq_count f u s)" "J fl (dq_count i g s)" "J fl (tp_set_blk x b s)" "J fl (tp_set_type ty x s)"
    "J fl (dq_set_stopped i b' s)" "J fl (dq_mismatch s)" "J fl (dq_select i s)"
    "J fl (updateQueuesBusyMap m s)" "J fl (txDataQ_UpdateQueuesBusyState m s)"
  by (rule rest [OF assms];
      simp add: tp_q_def mq_count_def dq_count_def tp_set_blk_def tp_set_type_def dq_set_stopped_def dq_mismatch_def
        dq_select_def updateQueuesBusyMap_def txDataQ_UpdateQueuesBusyState_def split: tp_queue.splits)+

lemma keep_mq_insert: "J fl s \<Longrightarrow> mq_insert x s = (st, b, s') \<Longrightarrow> J fl s'"
  by (auto simp: mq_insert_def Let_def split: prod.splits if_splits
      intro!: keep_simple silent intro: enqueue)

lemma keep_mq_xmit_external: "J fl s \<Longrightarrow> mq_xmit_external x s = (st, s') \<Longrightarrow> J fl s'"
  by (auto simp: mq_xmit_external_def split: prod.splits if_splits intro!: silent intro: keep_mq_insert)

lemma keep_dq_pace: "J fl s \<Longrightarrow> dq_pace i n s = (b, s') \<Longrightarrow> J fl s'"
  by (auto simp: dq_pace_def Let_def split: if_splits intro!: silent)

lemma keep_dq_insert: "J fl s \<Longrightarrow> dq_insert x i s = (st, s') \<Longrightarrow> J fl s'"
  by (auto simp: dq_insert_def Let_def split: prod.splits if_splits
      intro!: keep_simple silent intro: keep_dq_pace enqueue)

lemma keep_insert: "J fl s \<Longrightarrow> txDataQ_InsertPacket E x g s = Inr (st, s') \<Longrightarrow> J fl s'"
  by (auto simp: txDataQ_InsertPacket_def Let_def split: prod.splits if_splits sum.splits
      elim!: keep_mq_xmit_external [rotated] keep_dq_insert [rotated] intro!: keep_simple)

lemma keep_insert_all: "tp_insert_all E ps s = Inr s' \<Longrightarrow> J fl s \<Longrightarrow> J fl s'"
proof (induction ps arbitrary: s)
  case (Cons p ps)
  obtain x g where p: "p = (x, g)" by force
  from Cons.prems(1) obtain st t where "txDataQ_InsertPacket E x g s = Inr (st, t)" "tp_insert_all E ps t = Inr s'"
    by (auto simp: p split: sum.splits)
  then show ?case using Cons.IH keep_insert [OF Cons.prems(2)] by blast
qed simp

lemma keep_preempt: "tp_preempt E s = Inr s' \<Longrightarrow> J fl s \<Longrightarrow> J fl s'"
  by (auto simp: tp_preempt_def Let_def elim!: keep_insert_all intro!: silent)

lemma keep_stop: "J fl s \<Longrightarrow>
    J fl (case stop of None \<Rightarrow> s
          | Some m \<Rightarrow> (case d of MgmtQ q \<Rightarrow> txMgmtQ_StopQueue m s | DataQ i \<Rightarrow> txDataQ_StopQueue m s))"
  by (auto simp: txMgmtQ_StopQueue_def txDataQ_StopQueue_def split: option.splits tp_queue.splits intro!: keep_simple)

lemma keep_xmit:
  assumes "J (Some (d, x)) s" "tp_xmit E d x s = Inr (st, s')" "tx_permits (tp_cond s) d"
  shows "J (if st = STATUS_XMIT_BUSY then Some (d, x) else None) s'"
proof -
  obtain st' stop where ev: "ev_xmit E (tp_trace s) d x = (st', stop)" by force
  let ?t = "tp_emit (TpXmit (tp_cond s) d x st') s"
  let ?u = "case stop of None \<Rightarrow> ?t
          | Some m \<Rightarrow> (case d of MgmtQ q \<Rightarrow> txMgmtQ_StopQueue m ?t | DataQ i \<Rightarrow> txDataQ_StopQueue m ?t)"
  have st: "st' = st" and p: "tp_preempt E ?u = Inr s'"
    using assms(2) by (auto simp: tp_xmit_def ev Let_def split: sum.splits)
  have "J (if st = STATUS_XMIT_BUSY then Some (d, x) else None) ?t"
    using busy [OF assms(1,3)] sent [OF assms(1) _ assms(3)] st by simp
  then show ?thesis by (rule keep_preempt [OF p keep_stop])
qed

lemma keep_mq_requeue: "J (Some (MgmtQ q, x)) s \<Longrightarrow> J None (mq_requeue q x s)"
  by (auto simp: mq_requeue_def Let_def split: prod.splits intro!: keep_simple intro: returned dropped)

lemma keep_dq_requeue: "J (Some (DataQ i, x)) s \<Longrightarrow> J None (dq_requeue i x s)"
  by (auto simp: dq_requeue_def Let_def split: prod.splits intro!: keep_simple intro: returned dropped)

lemma tp_dequeue_None: "tp_dequeue d s = (None, s') \<Longrightarrow> J fl s \<Longrightarrow> J fl s'"
  by (rule rest [of fl s]) (auto simp: tp_dequeue_def aq_Dequeue_def tp_q_def tp_set_queue_def split: list.splits tp_queue.splits)

lemma cond_of_ctl: "tp_ctl s' = tp_ctl s \<Longrightarrow> tp_cond s' = tp_cond s"
  by (simp add: tp_ctl_def tp_cond_def)

lemma keep_mq_round:
  assumes "J None s" "mq_round E q s = Inr (b, s')"
    and safe: "aQueueEnabledBySM (tp_mgmt s) q \<Longrightarrow> tx_permits (tp_cond s) (MgmtQ q)"
  shows "J None s'"
proof (cases "\<not> mq_aQueueBusy (tp_mgmt s) q \<and> aQueueEnabledBySM (tp_mgmt s) q")
  case False then show ?thesis using assms(1,2) by (auto simp: mq_round_def)
next
  case True
  then obtain s1 where 1: "tp_preempt E s = Inr s1" using assms(2) by (auto simp: mq_round_def split: sum.splits)
  have J1: "J None s1" by (rule keep_preempt [OF 1 assms(1)])
  obtain r s2 where 2: "tp_dequeue (MgmtQ q) s1 = (r, s2)" by force
  show ?thesis
  proof (cases r)
    case None
    then show ?thesis using assms(2) True 1 2 tp_dequeue_None [OF _ J1] by (auto simp: mq_round_def)
  next
    case (Some x)
    let ?s2 = "mq_count (mq_inc q) aDequeuePackets_update s2"
    obtain st s3 where 3: "tp_xmit E (MgmtQ q) x ?s2 = Inr (st, s3)"
      using assms(2) True 1 2 Some by (auto simp: mq_round_def split: sum.splits)
    have "tp_ctl ?s2 = tp_ctl s" using tp_preempt_ctl [OF 1] tp_dequeue_ctl [OF 2] by simp
    then have "tx_permits (tp_cond ?s2) (MgmtQ q)" using safe True cond_of_ctl [of ?s2 s] by simp
    then have "J (if st = STATUS_XMIT_BUSY then Some (MgmtQ q, x) else None) s3"
      by (rule keep_xmit [OF keep_simple(1) [OF take [OF J1 2 [unfolded Some]]] 3])
    then show ?thesis using assms(2) True 1 2 3 Some keep_mq_requeue keep_simple(1)
      by (auto simp: mq_round_def split: if_splits)
  qed
qed

lemma keep_dq_resume: "J fl s \<Longrightarrow> J fl (dq_resume i s)"
  by (auto simp: dq_resume_def intro!: silent keep_simple)

lemma keep_dq_round:
  assumes "J None s" "dq_round E i s = Inr (b, s')" and safe: "tx_permits (tp_cond s) (DataQ i)"
  shows "J None s'"
proof (cases "dq_aQueueBusy (tp_data s) i")
  case True then show ?thesis using assms(1,2) by (auto simp: dq_round_def)
next
  case False
  then obtain s1 where 1: "tp_preempt E s = Inr s1" using assms(2) by (auto simp: dq_round_def split: sum.splits)
  have J1: "J None s1" by (rule keep_preempt [OF 1 assms(1)])
  obtain r s2 where 2: "tp_dequeue (DataQ i) s1 = (r, s2)" by force
  show ?thesis
  proof (cases r)
    case None
    then have J2: "J None s2" using tp_dequeue_None [OF _ J1] 2 by blast
    obtain s3 where 3: "tp_preempt E s2 = Inr s3" "s' = dq_resume i s3"
      using assms(2) False 1 2 None by (simp add: dq_round_def split: sum.splits)
    show ?thesis unfolding 3(2) by (rule keep_dq_resume [OF keep_preempt [OF 3(1) J2]])
  next
    case (Some x)
    let ?s2 = "dq_count i (uDequeuePacket_update (\<lambda>n. n + 1)) s2"
    obtain st s3 where 3: "tp_xmit E (DataQ i) x ?s2 = Inr (st, s3)"
      using assms(2) False 1 2 Some by (auto simp: dq_round_def split: sum.splits)
    have "tp_ctl ?s2 = tp_ctl s" using tp_preempt_ctl [OF 1] tp_dequeue_ctl [OF 2] by simp
    then have "tx_permits (tp_cond ?s2) (DataQ i)" using safe cond_of_ctl [of ?s2 s] by simp
    then have "J (if st = STATUS_XMIT_BUSY then Some (DataQ i, x) else None) s3"
      by (rule keep_xmit [OF keep_simple(2) [OF take [OF J1 2 [unfolded Some]]] 3])
    then show ?thesis
    proof (cases "st = STATUS_XMIT_BUSY")
      case True
      with \<open>J (if _ then _ else _) s3\<close> have "J None (dq_requeue i x s3)" by (simp add: keep_dq_requeue)
      then show ?thesis using assms(2) False 1 2 3 Some True by (simp add: dq_round_def)
    next
      case no: False
      with \<open>J (if _ then _ else _) s3\<close> have "J None (dq_count i (uXmittedPacket_update (\<lambda>n. n + 1)) s3)"
        by (simp add: keep_simple)
      then show ?thesis using assms(2) False 1 2 3 Some no by (simp add: dq_round_def)
    qed
  qed
qed

lemma keep_clear: "J None s \<Longrightarrow> J None (tp_clear d s)"
proof (induction d s rule: tp_clear.induct)
  case (1 d s)
  show ?case
  proof (cases "tp_dequeue d s")
    case (Pair r t)
    show ?thesis
    proof (cases r)
      case None
      then show ?thesis using tp_dequeue_None [OF _ 1(2)] Pair by (simp add: tp_clear.simps [of d s])
    next
      case (Some x)
      then show ?thesis using 1(1) [OF Pair [symmetric]] freed [OF take [OF 1(2)]] Pair
        by (simp add: tp_clear.simps [of d s])
    qed
  qed
qed

end

section \<open>The view of who may send\<close>

text \<open>The connection state, whether it is the turn of the data queues, and whether the path is suspended. The rest of
  the control state follows: \<open>ctl_of v u\<close> is the state when the state machine is at \<open>v\<close> and the port at \<open>u\<close>.\<close>

record tp_view =
  vw_conn :: ETxConnState
  vw_data :: bool
  vw_susp :: bool

definition vw_ok :: "tp_view \<Rightarrow> bool" where
  "vw_ok v \<longleftrightarrow> (vw_data v \<longrightarrow> vw_conn v = TX_CONN_STATE_OPEN)"

definition sm_of :: "tp_view \<Rightarrow> ESmState_mgmt" where
  "sm_of v = (case vw_conn v of
     TX_CONN_STATE_CLOSE \<Rightarrow> SM_STATE_CLOSE
   | TX_CONN_STATE_MGMT \<Rightarrow> SM_STATE_MGMT
   | TX_CONN_STATE_EAPOL \<Rightarrow> SM_STATE_EAPOL
   | TX_CONN_STATE_OPEN \<Rightarrow> if vw_data v then SM_STATE_OPEN_DATA else SM_STATE_OPEN_MGMT)"

definition enabled_of :: "tp_view \<Rightarrow> EMgmtQueueTypes \<Rightarrow> bool" where
  "enabled_of v q = (case vw_conn v of
     TX_CONN_STATE_CLOSE \<Rightarrow> False
   | TX_CONN_STATE_MGMT \<Rightarrow> q = QUEUE_TYPE_MGMT
   | TX_CONN_STATE_EAPOL \<Rightarrow> True
   | TX_CONN_STATE_OPEN \<Rightarrow> \<not> vw_data v)"

definition port_of :: "tp_view \<Rightarrow> TTxPortObj" where
  "port_of u = \<lparr>queuesMuxState = (if vw_data u then MUX_DATA_QUEUES else MUX_MGMT_QUEUES), txSuspended = vw_susp u,
     mgmtQueueEnabled = (\<not> vw_susp u \<and> \<not> vw_data u), dataQueueEnabled = (\<not> vw_susp u \<and> vw_data u)\<rparr>"

definition ctl_of :: "tp_view \<Rightarrow> tp_view \<Rightarrow> nat \<Rightarrow> tp_control" where
  "ctl_of v u n = (sm_of v, vw_conn v, enabled_of v, \<not> vw_susp u \<and> \<not> vw_data u, \<not> vw_susp u \<and> vw_data u, port_of u, n)"

definition tp_good :: "((tp_queue \<times> addr) option \<Rightarrow> TTxPath \<Rightarrow> bool) \<Rightarrow> nat \<Rightarrow> tp_view \<Rightarrow> TTxPath \<Rightarrow> bool" where
  "tp_good J n v s \<longleftrightarrow> tp_ctl s = ctl_of v v n \<and> vw_ok v \<and> J None s"

lemma susp_same [simp]:
  "sm_of (v\<lparr>vw_susp := b\<rparr>) = sm_of v" "enabled_of (v\<lparr>vw_susp := b\<rparr>) = enabled_of v" "vw_ok (v\<lparr>vw_susp := b\<rparr>) = vw_ok v"
  by (auto simp: sm_of_def enabled_of_def vw_ok_def fun_eq_iff split: ETxConnState.splits)

lemma enabled_permits: "enabled_of v q \<Longrightarrow> conn_permits (vw_conn v) (MgmtQ q)"
  by (cases q) (auto simp: enabled_of_def split: ETxConnState.splits)

lemmas tp_ctl_unfold = tp_ctl_def ctl_of_def port_of_def

context tp_kept
begin

lemma keep_mgmt: "J fl s \<Longrightarrow> mq_aQueues m = mq_aQueues (tp_mgmt s) \<Longrightarrow> J fl (s\<lparr>tp_mgmt := m\<rparr>)"
  by (erule rest) (simp_all add: tp_q_def split: tp_queue.splits)

lemma keep_data: "J fl s \<Longrightarrow> dq_aQueues d = dq_aQueues (tp_data s) \<Longrightarrow> J fl (s\<lparr>tp_data := d\<rparr>)"
  by (erule rest) (simp_all add: tp_q_def split: tp_queue.splits)

lemma keep_port: "J fl s \<Longrightarrow> J fl (s\<lparr>tp_port := p\<rparr>)"
  by (erule rest) (simp_all add: tp_q_def split: tp_queue.splits)

end

sublocale tp_kept \<subseteq> good: tp_rounds E "tp_good J n v" for n v
proof
  fix s q b s'
  assume g: "tp_good J n v s" and b: "bMgmtPortEnable (tp_mgmt s)" and r: "mq_round E q s = Inr (b, s')"
  have "aQueueEnabledBySM (tp_mgmt s) q \<Longrightarrow> tx_permits (tp_cond s) (MgmtQ q)"
    using g b enabled_permits by (simp add: tp_good_def tp_ctl_unfold tx_permits_def tp_cond_def)
  then show "tp_good J n v s'"
    using g keep_mq_round [OF _ r] mq_round_ctl [OF r] by (simp add: tp_good_def)
next
  fix s i b s'
  assume g: "tp_good J n v s" and b: "bDataPortEnable (tp_data s)" and r: "dq_round E i (dq_select i s) = Inr (b, s')"
  have "tx_permits (tp_cond (dq_select i s)) (DataQ i)"
    using g b by (simp add: tp_good_def tp_ctl_unfold vw_ok_def dq_select_def tx_permits_def tp_cond_def)
  then show "tp_good J n v s'"
    using g keep_dq_round [OF keep_simple(7) r] dq_round_ctl [OF r] by (simp add: tp_good_def)
next
  fix s assume "tp_good J n v s"
  then show "tp_good J n v (tp_emit TpEndOfBurst s)" by (simp add: tp_good_def silent)
qed

context tp_kept
begin

lemma good_preempt: "tp_preempt E s = Inr s' \<Longrightarrow> tp_good J n v s \<Longrightarrow> tp_good J n v s'"
  using keep_preempt tp_preempt_ctl by (auto simp: tp_good_def)

lemma good_runScheduler: "runScheduler E s = Some (Inr s') \<Longrightarrow> tp_good J n v s \<Longrightarrow> tp_good J n v s'"
  by (simp add: runScheduler_def good.mq_loop_keeps)

lemma good_RunScheduler: "txDataQ_RunScheduler E s = Some (Inr s') \<Longrightarrow> tp_good J n v s \<Longrightarrow> tp_good J n v s'"
  by (simp add: txDataQ_RunScheduler_def good.dq_loop_keeps)

lemma good_enableData:
  assumes ctl: "tp_ctl s = ctl_of v (v\<lparr>vw_data := False\<rparr>) n" and v: "vw_data v" "vw_ok v" and J: "J None s"
    and run: "txPort_enableData E wake s = Some (Inr s')"
  shows "tp_good J n v s'"
proof (cases "vw_susp v")
  case True
  then have "s' = s\<lparr>tp_port := (tp_port s)\<lparr>queuesMuxState := MUX_DATA_QUEUES\<rparr>\<rparr>"
    using run ctl by (auto simp: txPort_enableData_def updateQueuesStates_def port_actions_def tp_ctl_unfold Let_def)
  then show ?thesis using ctl v True keep_port [OF J] by (simp add: tp_good_def tp_ctl_unfold)
next
  case False
  define t where "t = (let s = s\<lparr>tp_mgmt := (tp_mgmt s)\<lparr>bMgmtPortEnable := False\<rparr>\<rparr>;
      s = s\<lparr>tp_port := (tp_port s)\<lparr>queuesMuxState := MUX_DATA_QUEUES, mgmtQueueEnabled := False, dataQueueEnabled := True\<rparr>\<rparr>
      in s\<lparr>tp_data := (tp_data s)\<lparr>bDataPortEnable := True\<rparr>\<rparr>)"
  have "txDataQ_RunScheduler E t = Some (Inr s')"
    using run ctl v False by (auto simp: txPort_enableData_def updateQueuesStates_def port_actions_def tp_ctl_unfold Let_def
        txMgmtQ_StopAll_def txDataQ_WakeAll_def t_def)
  moreover have "J None t" unfolding t_def Let_def by (intro keep_data keep_mgmt keep_port J) simp_all
  then have "tp_good J n v t" using ctl v False by (simp add: tp_good_def tp_ctl_unfold t_def Let_def)
  ultimately show ?thesis by (rule good_RunScheduler)
qed

text \<open>The state machine may give the turn to the data queues or take it away; the connection state and the
  suspension stay.\<close>

definition turn :: "nat \<Rightarrow> tp_view \<Rightarrow> TTxPath \<Rightarrow> bool" where
  "turn n v s \<longleftrightarrow> (\<exists>d. tp_good J n (v\<lparr>vw_data := d\<rparr>) s)"

lemma turnI: "tp_good J n v s \<Longrightarrow> turn n v s"
  unfolding turn_def by (rule exI [of _ "vw_data v"]) simp

lemma turn_idem: "turn n (v\<lparr>vw_data := d\<rparr>) s \<longleftrightarrow> turn n v s"
  by (simp add: turn_def)

lemma turn_empty:
  assumes "mgmtQueuesSM E m SM_EVENT_QUEUES_EMPTY s = Some (Inr s')" "tp_good J n v s"
  shows "turn n v s'"
proof -
  obtain k where m: "m = Suc k" using assms(1) by (cases m) auto
  show ?thesis
  proof (cases "eSmState (tp_mgmt s) = SM_STATE_OPEN_MGMT")
    case False
    then show ?thesis using assms by (simp add: m turnI)
  next
    case True
    then have v: "vw_conn v = TX_CONN_STATE_OPEN" "\<not> vw_data v"
      using assms(2) by (auto simp: tp_good_def tp_ctl_unfold sm_of_def split: ETxConnState.splits if_splits)
    let ?v = "v\<lparr>vw_data := True\<rparr>"
    let ?s = "s\<lparr>tp_mgmt := mq_enable False False ((tp_mgmt s)\<lparr>eSmState := SM_STATE_OPEN_DATA\<rparr>)\<rparr>"
    have "tp_ctl ?s = ctl_of ?v (?v\<lparr>vw_data := False\<rparr>) n"
      using assms(2) v EMgmtQueueTypes.exhaust
      by (auto simp: tp_good_def tp_ctl_unfold sm_of_def enabled_of_def mq_enable_def fun_eq_iff)
    moreover have "J None ?s" using assms(2) by (intro keep_mgmt) (simp_all add: tp_good_def mq_enable_def)
    moreover have "txPort_enableData E (txMgmtQ_WakeAll E (mgmtQueuesSM E k)) ?s = Some (Inr s')"
      using assms(1) True by (simp add: m)
    ultimately have "tp_good J n ?v s'" using v by (intro good_enableData) (simp_all add: vw_ok_def)
    then show ?thesis using turn_def by blast
  qed
qed

lemma turn_notFromSm:
  assumes "runSchedulerNotFromSm E (mgmtQueuesSM E m) s = Some (Inr s')" "tp_good J n v s"
  shows "turn n v s'"
proof (cases "ARE_ALL_MGMT_QUEUES_EMPTY s")
  case True
  then show ?thesis using assms turnI by (simp add: runSchedulerNotFromSm_def)
next
  case False
  obtain t where t: "runScheduler E s = Some (Inr t)"
    using assms(1) False by (auto simp: runSchedulerNotFromSm_def tp_then_def split: option.splits sum.splits)
  obtain u where u: "tp_preempt E t = Inr u"
    using assms(1) False t by (auto simp: runSchedulerNotFromSm_def tp_then_def split: option.splits sum.splits)
  have g: "tp_good J n v u" using good_preempt [OF u good_runScheduler [OF t assms(2)]] .
  have "(if ARE_ALL_MGMT_QUEUES_EMPTY u then mgmtQueuesSM E m SM_EVENT_QUEUES_EMPTY u else Some (Inr u)) = Some (Inr s')"
    using assms(1) False t u by (simp add: runSchedulerNotFromSm_def)
  then show ?thesis using turn_empty [OF _ g] turnI [OF g] by (auto split: if_splits)
qed

lemma turn_enableMgmt:
  assumes ctl: "tp_ctl s = ctl_of v (v\<lparr>vw_data := True\<rparr>) n" and v: "\<not> vw_data v" and J: "J None s"
    and run: "txPort_enableMgmt E (txMgmtQ_WakeAll E (mgmtQueuesSM E m)) s = Some (Inr s')"
  shows "turn n v s'"
proof (cases "vw_susp v")
  case True
  then have "s' = s\<lparr>tp_port := (tp_port s)\<lparr>queuesMuxState := MUX_MGMT_QUEUES\<rparr>\<rparr>"
    using run ctl by (auto simp: txPort_enableMgmt_def updateQueuesStates_def port_actions_def tp_ctl_unfold Let_def)
  then have "tp_good J n v s'"
    using ctl v True keep_port [OF J] by (simp add: tp_good_def tp_ctl_unfold vw_ok_def)
  then show ?thesis by (rule turnI)
next
  case False
  define t where "t = (let s = s\<lparr>tp_data := (tp_data s)\<lparr>bDataPortEnable := False\<rparr>\<rparr>;
      s = s\<lparr>tp_port := (tp_port s)\<lparr>queuesMuxState := MUX_MGMT_QUEUES, dataQueueEnabled := False, mgmtQueueEnabled := True\<rparr>\<rparr>
      in s\<lparr>tp_mgmt := (tp_mgmt s)\<lparr>bMgmtPortEnable := True\<rparr>\<rparr>)"
  have "runSchedulerNotFromSm E (mgmtQueuesSM E m) t = Some (Inr s')"
    using run ctl v False by (auto simp: txPort_enableMgmt_def updateQueuesStates_def port_actions_def tp_ctl_unfold Let_def
        txDataQ_StopAll_def txMgmtQ_WakeAll_def t_def tp_then_def split: option.splits sum.splits)
  moreover have "J None t" unfolding t_def Let_def by (intro keep_data keep_mgmt keep_port J) simp_all
  then have "tp_good J n v t" using ctl v False by (simp add: tp_good_def tp_ctl_unfold t_def Let_def vw_ok_def)
  ultimately show ?thesis by (rule turn_notFromSm)
qed

lemma turn_notEmpty:
  assumes "mgmtQueuesSM E m SM_EVENT_QUEUES_NOT_EMPTY s = Some (Inr s')" "tp_good J n v s"
  shows "turn n v s'"
proof -
  obtain k where m: "m = Suc k" using assms(1) by (cases m) auto
  have sm: "eSmState (tp_mgmt s) = sm_of v" using assms(2) by (simp add: tp_good_def tp_ctl_unfold)
  consider "sm_of v = SM_STATE_OPEN_DATA" | "sm_of v = SM_STATE_MGMT \<or> sm_of v = SM_STATE_EAPOL"
    | "sm_of v = SM_STATE_CLOSE \<or> sm_of v = SM_STATE_OPEN_MGMT"
    by (cases "sm_of v") auto
  then show ?thesis
  proof cases
    case 1
    then have v: "vw_conn v = TX_CONN_STATE_OPEN" "vw_data v" by (auto simp: sm_of_def split: ETxConnState.splits if_splits)
    let ?v = "v\<lparr>vw_data := False\<rparr>"
    let ?s = "s\<lparr>tp_mgmt := mq_enable True True ((tp_mgmt s)\<lparr>eSmState := SM_STATE_OPEN_MGMT\<rparr>)\<rparr>"
    have "tp_ctl ?s = ctl_of ?v (?v\<lparr>vw_data := True\<rparr>) n"
      using assms(2) v EMgmtQueueTypes.exhaust
      by (auto simp: tp_good_def tp_ctl_unfold sm_of_def enabled_of_def mq_enable_def fun_eq_iff)
    moreover have "J None ?s" using assms(2) by (intro keep_mgmt) (simp_all add: tp_good_def mq_enable_def)
    moreover have "txPort_enableMgmt E (txMgmtQ_WakeAll E (mgmtQueuesSM E k)) ?s = Some (Inr s')"
      using assms(1) 1 sm by (simp add: m)
    ultimately have "turn n ?v s'" by (intro turn_enableMgmt) simp_all
    then show ?thesis by (simp add: turn_idem)
  next
    case 2
    then have "runScheduler E s = Some (Inr s')" using assms(1) sm by (auto simp: m)
    then show ?thesis using good_runScheduler assms(2) turnI by blast
  next
    case 3
    then show ?thesis using assms sm by (auto simp: m turnI)
  qed
qed

text \<open>The changes of the connection state that the state machine expects.\<close>

end

fun conn_expected :: "ETxConnState \<Rightarrow> ETxConnState \<Rightarrow> bool" where
  "conn_expected old TX_CONN_STATE_EAPOL \<longleftrightarrow> old \<noteq> TX_CONN_STATE_OPEN"
| "conn_expected old TX_CONN_STATE_OPEN \<longleftrightarrow> old = TX_CONN_STATE_EAPOL"
| "conn_expected old _ \<longleftrightarrow> True"

lemma mq_fun_eq: "f = g \<longleftrightarrow> f QUEUE_TYPE_MGMT = g QUEUE_TYPE_MGMT \<and> f QUEUE_TYPE_EAPOL = g QUEUE_TYPE_EAPOL"
  by (metis EMgmtQueueTypes.exhaust ext)

lemma conn_step_rest:
  "mgmtQueuesSM_step (conn_event c) b M = (a, m') \<Longrightarrow>
   eTxConnState m' = eTxConnState M \<and> bMgmtPortEnable m' = bMgmtPortEnable M \<and> mq_aQueues m' = mq_aQueues M"
  by (cases c) (auto simp: mq_enable_def split: if_splits)

lemma conn_step_state:
  assumes "mgmtQueuesSM_step (conn_event c) b M = (a, m')"
    and "eSmState M = sm_of v" "aQueueEnabledBySM M = enabled_of v" "conn_expected (vw_conn v) c"
    and w: "w = v\<lparr>vw_conn := c, vw_data := (a = SM_ACTION_ENABLE_DATA)\<rparr>"
  shows "eSmState m' = sm_of w"
  using assms(1,2,4) assms(3) [THEN fun_cong, of QUEUE_TYPE_MGMT] assms(3) [THEN fun_cong, of QUEUE_TYPE_EAPOL]
  unfolding w
  by (cases c; cases "vw_conn v"; cases "vw_data v"; cases b; clarsimp simp: mq_enable_def sm_of_def vw_ok_def)

lemma conn_step_enabled:
  assumes "mgmtQueuesSM_step (conn_event c) b M = (a, m')"
    and "eSmState M = sm_of v" "aQueueEnabledBySM M = enabled_of v" "conn_expected (vw_conn v) c"
    and w: "w = v\<lparr>vw_conn := c, vw_data := (a = SM_ACTION_ENABLE_DATA)\<rparr>"
  shows "aQueueEnabledBySM m' = enabled_of w"
  using assms(1,2,4) assms(3) [THEN fun_cong, of QUEUE_TYPE_MGMT] assms(3) [THEN fun_cong, of QUEUE_TYPE_EAPOL]
  unfolding w mq_fun_eq
  by (cases c; cases "vw_conn v"; cases "vw_data v"; cases b; clarsimp simp: mq_enable_def sm_of_def enabled_of_def)

lemma conn_step_data:
  assumes "mgmtQueuesSM_step (conn_event c) b M = (a, m')"
    and "eSmState M = sm_of v" "aQueueEnabledBySM M = enabled_of v" "conn_expected (vw_conn v) c"
    and w: "w = v\<lparr>vw_conn := c, vw_data := (a = SM_ACTION_ENABLE_DATA)\<rparr>"
  shows "(a = SM_ACTION_ENABLE_DATA \<longrightarrow> c = TX_CONN_STATE_OPEN) \<and> (vw_ok v \<longrightarrow> (vw_data v \<longleftrightarrow> a = SM_ACTION_ENABLE_MGMT))"
  using assms(1,2,4) assms(3) [THEN fun_cong, of QUEUE_TYPE_MGMT] assms(3) [THEN fun_cong, of QUEUE_TYPE_EAPOL]
  unfolding w
  by (cases c; cases "vw_conn v"; cases "vw_data v"; cases b; clarsimp simp: mq_enable_def sm_of_def vw_ok_def)

context tp_kept
begin

lemma turn_conn_event:
  assumes "mgmtQueuesSM E m (conn_event c) (s\<lparr>tp_mgmt := (tp_mgmt s)\<lparr>eTxConnState := c\<rparr>\<rparr>) = Some (Inr s')"
    and g: "tp_good J n v s" and c: "conn_expected (vw_conn v) c"
  shows "turn n (v\<lparr>vw_conn := c\<rparr>) s'"
proof -
  obtain k where m: "m = Suc k" using assms(1) by (cases m) auto
  let ?s = "s\<lparr>tp_mgmt := (tp_mgmt s)\<lparr>eTxConnState := c\<rparr>\<rparr>"
  define b where "b = ARE_ALL_MGMT_QUEUES_EMPTY ?s"
  obtain a m' where st: "mgmtQueuesSM_step (conn_event c) b (tp_mgmt ?s) = (a, m')" by force
  let ?t = "s\<lparr>tp_mgmt := m'\<rparr>"
  let ?v = "v\<lparr>vw_conn := c, vw_data := (a = SM_ACTION_ENABLE_DATA)\<rparr>"
  have sm: "eSmState (tp_mgmt s) = sm_of v" and enabled: "aQueueEnabledBySM (tp_mgmt s) = enabled_of v"
    and ok: "vw_ok v" and ctl: "tp_ctl s = ctl_of v v n" and J: "J None s"
    using g by (simp_all add: tp_good_def tp_ctl_unfold)
  have run: "(case a of SM_ACTION_NULL \<Rightarrow> Some (Inr ?t)
       | SM_ACTION_ENABLE_DATA \<Rightarrow> txPort_enableData E (txMgmtQ_WakeAll E (mgmtQueuesSM E k)) ?t
       | SM_ACTION_ENABLE_MGMT \<Rightarrow> txPort_enableMgmt E (txMgmtQ_WakeAll E (mgmtQueuesSM E k)) ?t
       | SM_ACTION_RUN_SCHEDULER \<Rightarrow> runScheduler E ?t) = Some (Inr s')"
    using assms(1) st by (simp add: m b_def Let_def)
  have "eSmState (tp_mgmt ?s) = sm_of v" "aQueueEnabledBySM (tp_mgmt ?s) = enabled_of v" using sm enabled by simp_all
  note cs = conn_step_state [OF st this c refl] conn_step_enabled [OF st this c refl] conn_step_rest [OF st]
    conn_step_data [OF st this c refl]
  have Jt: "J None ?t" by (rule keep_mgmt [OF J]) (simp add: cs(3))
  have ctl': "tp_ctl ?t = ctl_of ?v v n" using ctl cs(1-3) by (simp add: tp_ctl_unfold)
  have turn: "vw_data v \<longleftrightarrow> a = SM_ACTION_ENABLE_MGMT" "a = SM_ACTION_ENABLE_DATA \<Longrightarrow> c = TX_CONN_STATE_OPEN"
    using cs(4) ok by simp_all
  have J2: "turn n ?v s' \<Longrightarrow> ?thesis" by (simp add: turn_def)
  show ?thesis
  proof (cases a)
    case SM_ACTION_NULL
    then have "tp_good J n ?v ?t" using ctl' turn Jt by (simp add: tp_good_def tp_ctl_unfold vw_ok_def)
    then show ?thesis using run SM_ACTION_NULL J2 turnI by simp
  next
    case SM_ACTION_ENABLE_DATA
    then have "tp_ctl ?t = ctl_of ?v (?v\<lparr>vw_data := False\<rparr>) n" using ctl' turn by (simp add: tp_ctl_unfold)
    then have "tp_good J n ?v s'"
      using run SM_ACTION_ENABLE_DATA turn Jt by (intro good_enableData) (simp_all add: vw_ok_def)
    then show ?thesis using J2 turnI by blast
  next
    case SM_ACTION_ENABLE_MGMT
    then have "tp_ctl ?t = ctl_of ?v (?v\<lparr>vw_data := True\<rparr>) n" using ctl' turn by (simp add: tp_ctl_unfold)
    then have "turn n ?v s'"
      using run SM_ACTION_ENABLE_MGMT Jt by (intro turn_enableMgmt) simp_all
    then show ?thesis by (rule J2)
  next
    case SM_ACTION_RUN_SCHEDULER
    then have "tp_good J n ?v ?t" using ctl' turn Jt by (simp add: tp_good_def tp_ctl_unfold vw_ok_def)
    then show ?thesis using run SM_ACTION_RUN_SCHEDULER J2 turnI good_runScheduler by simp
  qed
qed

lemma turn_RunScheduler: "txDataQ_RunScheduler E s = Some (Inr s') \<Longrightarrow> tp_good J n v s \<Longrightarrow> turn n v s'"
  using good_RunScheduler turnI by blast

lemma turn_suspend:
  assumes "txPort_suspendTx E s = Some (Inr s')" "tp_good J n v s"
  shows "turn n (v\<lparr>vw_susp := True\<rparr>) s'"
proof -
  have "tp_good J n (v\<lparr>vw_susp := True\<rparr>) s'"
  proof (cases "vw_susp v")
    case True
    then have "s' = s\<lparr>tp_port := (tp_port s)\<lparr>txSuspended := True\<rparr>\<rparr>"
      using assms by (auto simp: txPort_suspendTx_def updateQueuesStates_def port_actions_def tp_good_def tp_ctl_unfold Let_def)
    then show ?thesis using assms(2) True keep_port
      by (simp add: tp_good_def tp_ctl_unfold)
  next
    case False
    define t where "t = (if vw_data v
      then s\<lparr>tp_port := (tp_port s)\<lparr>txSuspended := True, dataQueueEnabled := False\<rparr>, tp_data := (tp_data s)\<lparr>bDataPortEnable := False\<rparr>\<rparr>
      else s\<lparr>tp_mgmt := (tp_mgmt s)\<lparr>bMgmtPortEnable := False\<rparr>, tp_port := (tp_port s)\<lparr>txSuspended := True, mgmtQueueEnabled := False\<rparr>\<rparr>)"
    have "s' = t"
      using assms False by (auto simp: txPort_suspendTx_def updateQueuesStates_def port_actions_def tp_good_def tp_ctl_unfold Let_def
        txMgmtQ_StopAll_def txDataQ_StopAll_def t_def)
    moreover have "J None t"
      using assms(2) unfolding t_def by (auto simp: tp_good_def tp_q_def split: tp_queue.splits elim!: rest)
    ultimately show ?thesis using assms(2) False
      by (auto simp: t_def tp_good_def tp_ctl_unfold)
  qed
  then show ?thesis by (rule turnI)
qed

lemma turn_resume:
  assumes run: "txPort_resumeTx E s = Some (Inr s')" and g: "tp_good J n v s"
  shows "turn n (v\<lparr>vw_susp := False\<rparr>) s'"
proof -
  let ?v = "v\<lparr>vw_susp := False\<rparr>"
  show ?thesis
  proof (cases "vw_susp v")
    case False
    then have "s' = s\<lparr>tp_port := (tp_port s)\<lparr>txSuspended := False\<rparr>\<rparr>"
      using run g by (auto simp: txPort_resumeTx_def updateQueuesStates_def port_actions_def tp_good_def tp_ctl_unfold Let_def)
    then have "tp_good J n ?v s'" using g False keep_port by (simp add: tp_good_def tp_ctl_unfold)
    then show ?thesis by (rule turnI)
  next
    case True
    show ?thesis
    proof (cases "vw_data v")
      case d: True
      define t where "t = s\<lparr>tp_port := (tp_port s)\<lparr>txSuspended := False, dataQueueEnabled := True\<rparr>, tp_data := (tp_data s)\<lparr>bDataPortEnable := True\<rparr>\<rparr>"
      have "txDataQ_RunScheduler E t = Some (Inr s')"
        using run g True d by (auto simp: txPort_resumeTx_def updateQueuesStates_def port_actions_def tp_good_def tp_ctl_unfold
            Let_def txDataQ_WakeAll_def t_def)
      moreover have "J None t" using g by (auto simp: t_def tp_good_def tp_q_def split: tp_queue.splits elim!: rest)
      then have "tp_good J n ?v t" using g True d by (auto simp: t_def tp_good_def tp_ctl_unfold)
      ultimately show ?thesis by (rule turn_RunScheduler)
    next
      case d: False
      define t where "t = s\<lparr>tp_port := (tp_port s)\<lparr>txSuspended := False, mgmtQueueEnabled := True\<rparr>, tp_mgmt := (tp_mgmt s)\<lparr>bMgmtPortEnable := True\<rparr>\<rparr>"
      have "runSchedulerNotFromSm E (mgmtQueuesSM E 2) t = Some (Inr s')"
        using run g True d by (auto simp: txPort_resumeTx_def updateQueuesStates_def port_actions_def tp_good_def tp_ctl_unfold
            Let_def txMgmtQ_WakeAll_def t_def mq_sm_def tp_then_def split: option.splits sum.splits)
      moreover have "J None t" using g by (auto simp: t_def tp_good_def tp_q_def split: tp_queue.splits elim!: rest)
      then have "tp_good J n ?v t" using g True d by (auto simp: t_def tp_good_def tp_ctl_unfold)
      ultimately show ?thesis by (rule turn_notFromSm)
    qed
  qed
qed

end

section \<open>Operations and runs\<close>

fun vw_after :: "tp_op \<Rightarrow> tp_view \<Rightarrow> tp_view" where
  "vw_after (OpConn c) v = v\<lparr>vw_conn := c\<rparr>"
| "vw_after OpSuspend v = v\<lparr>vw_susp := True\<rparr>"
| "vw_after OpResume v = v\<lparr>vw_susp := False\<rparr>"
| "vw_after _ v = v"

fun op_expected :: "tp_op \<Rightarrow> tp_view \<Rightarrow> bool" where
  "op_expected (OpConn c) v \<longleftrightarrow> conn_expected (vw_conn v) c"
| "op_expected _ v \<longleftrightarrow> True"

fun ops_expected :: "tp_op list \<Rightarrow> tp_view \<Rightarrow> bool" where
  "ops_expected [] v \<longleftrightarrow> True"
| "ops_expected (op # ops) v \<longleftrightarrow> op_expected op v \<and> ops_expected ops (vw_after op v)"

lemma tp_clear_ctl [simp]: "tp_ctl (tp_clear d s) = tp_ctl s"
proof (induction d s rule: tp_clear.induct)
  case (1 d s)
  then show ?case
    by (subst tp_clear.simps) (auto split: prod.splits option.splits dest!: tp_dequeue_ctl)
qed

lemma tp_then_Inr: "tp_then m f = Some (Inr b) \<longleftrightarrow> (\<exists>a. m = Some (Inr a) \<and> f a = Some (Inr b))"
  by (auto simp: tp_then_def split: option.splits sum.splits)

lemma vw_after_data: "vw_after op (v\<lparr>vw_data := d\<rparr>) = (vw_after op v)\<lparr>vw_data := d\<rparr>"
  by (cases op) simp_all

lemma op_expected_data: "op_expected op (v\<lparr>vw_data := d\<rparr>) = op_expected op v"
  by (cases op) simp_all

lemma ops_expected_data: "ops_expected ops (v\<lparr>vw_data := d\<rparr>) = ops_expected ops v"
  by (induction ops arbitrary: v) (simp_all add: op_expected_data vw_after_data)

context tp_kept
begin

lemma good_simple:
  assumes "tp_good J n v s"
  shows "tp_good J n v (updateQueuesBusyMap m s)" "tp_good J n v (txDataQ_UpdateQueuesBusyState m s)"
  using assms keep_simple by (simp_all add: tp_good_def)

lemma good_clear: "tp_good J n v s \<Longrightarrow> tp_good J n v (tp_clear d s)"
  by (simp add: tp_good_def keep_clear)

lemma good_fold_clear: "tp_good J n v s \<Longrightarrow> tp_good J n v (fold (\<lambda>i. tp_clear (f i)) is s)"
  by (induction "is" arbitrary: s) (simp_all add: good_clear)

lemma turn_Xmit:
  assumes run: "txMgmtQ_Xmit E x b s = Some (Inr (st, s'))" and g: "tp_good J n v s"
  shows "turn n v s'"
proof (cases b)
  case True
  then have "mq_xmit_external x s = (st, s')" using run by (simp add: txMgmtQ_Xmit_def)
  then have "tp_good J n v s'" using g keep_mq_xmit_external mq_xmit_external_ctl by (metis tp_good_def)
  then show ?thesis by (rule turnI)
next
  case False
  obtain st' first t where i: "mq_insert x s = (st', first, t)" by (metis prod_cases3)
  have g': "tp_good J n v t" using g keep_mq_insert [OF _ i] mq_insert_ctl [OF i] by (simp add: tp_good_def)
  show ?thesis
  proof (cases first)
    case True
    then have "mgmtQueuesSM E 2 SM_EVENT_QUEUES_NOT_EMPTY t = Some (Inr s')"
      using run \<open>\<not> b\<close> i by (auto simp: txMgmtQ_Xmit_def mq_sm_def tp_then_Inr)
    then show ?thesis using g' by (rule turn_notEmpty)
  next
    case no: False
    then have "s' = t" using run \<open>\<not> b\<close> i by (auto simp: txMgmtQ_Xmit_def)
    then show ?thesis using turnI [OF g'] by simp
  qed
qed

lemma good_Insert:
  "txDataQ_InsertPacket E x g s = Inr (st, s') \<Longrightarrow> tp_good J n v s \<Longrightarrow> tp_good J n v s'"
  using keep_insert txDataQ_InsertPacket_ctl by (metis tp_good_def)

text \<open>Every operation leads from a view to the next.\<close>

lemma turn_do:
  assumes "tp_do E op s = Some (Inr s')" "tp_good J n v s" "op_expected op v"
  shows "turn n (vw_after op v) s'"
proof (cases op)
  case (OpInsert x g)
  then show ?thesis using assms(1,2) turnI good_Insert by (auto split: sum.splits)
next
  case (OpXmit x b)
  then show ?thesis using assms turn_Xmit by (auto simp: tp_then_Inr)
next
  case OpQueuesNotEmpty
  then show ?thesis using assms turn_notEmpty by (auto simp: txMgmtQ_QueuesNotEmpty_def mq_sm_def)
next
  case OpRunData
  then show ?thesis using assms turn_RunScheduler by simp
next
  case OpPaceTimeout
  have "tp_good J n v (s\<lparr>tp_data := (tp_data s)\<lparr>uTxSendPaceTimeoutsCount := uTxSendPaceTimeoutsCount (tp_data s) + 1\<rparr>\<rparr>)"
    using assms(2) by (auto simp: tp_good_def intro!: keep_data)
  then show ?thesis using OpPaceTimeout assms turn_RunScheduler by (simp add: txDataQ_TxSendPaceTimeout_def)
next
  case (OpMgmtBusyMap m)
  then show ?thesis using assms turn_notFromSm good_simple by (auto simp: txMgmtQ_UpdateBusyMap_def mq_sm_def)
next
  case (OpDataBusyMap m)
  then show ?thesis using assms turn_RunScheduler good_simple by (auto simp: txDataQ_UpdateBusyMap_def)
next
  case (OpConn c)
  then show ?thesis using assms turn_conn_event by (auto simp: txMgmtQ_SetConnState_def mq_sm_def)
next
  case OpSuspend
  then show ?thesis using assms turn_suspend by simp
next
  case OpResume
  then show ?thesis using assms turn_resume by simp
next
  case OpClearMgmt
  then have "s' = txMgmtQ_ClearQueues s" using assms(1) by simp
  then have "tp_good J n v s'" using assms(2) by (simp add: txMgmtQ_ClearQueues_def good_clear)
  then show ?thesis using OpClearMgmt turnI by simp
next
  case OpClearData
  then have "s' = txDataQ_ClearQueues s" using assms(1) by simp
  then have "tp_good J n v s'" using assms(2) by (simp add: txDataQ_ClearQueues_def good_fold_clear)
  then show ?thesis using OpClearData turnI by simp
next
  case OpResetMgmt
  then have "s' = txMgmtQ_ResetQueueStatistics s" using assms(1) by simp
  then have "tp_good J n v s'" using assms(2)
    by (auto simp: txMgmtQ_ResetQueueStatistics_def tp_good_def tp_ctl_def intro!: keep_mgmt)
  then show ?thesis using OpResetMgmt turnI by simp
next
  case OpResetData
  then have "s' = txDataQ_ResetQueueStatistics s" using assms(1) by simp
  then have "tp_good J n v s'" using assms(2)
    by (auto simp: txDataQ_ResetQueueStatistics_def tp_good_def tp_ctl_def intro!: keep_data)
  then show ?thesis using OpResetData turnI by simp
qed

lemma turn_run:
  assumes "tp_run E ops s = Some (Inr s')" "turn n v s" "ops_expected ops v"
  shows "turn n (fold vw_after ops v) s'"
  using assms
proof (induction ops arbitrary: s v)
  case (Cons op ops)
  obtain t where t: "tp_do E op s = Some (Inr t)" "tp_run E ops t = Some (Inr s')"
    using Cons.prems(1) by (auto simp: tp_then_Inr)
  obtain d where "tp_good J n (v\<lparr>vw_data := d\<rparr>) s" using Cons.prems(2) turn_def by blast
  then have "turn n (vw_after op (v\<lparr>vw_data := d\<rparr>)) t"
    using turn_do [OF t(1)] Cons.prems(3) by (simp add: op_expected_data)
  then have "turn n (vw_after op v) t" by (simp add: vw_after_data turn_idem)
  then show ?case using Cons.IH [OF t(2)] Cons.prems(3) by simp
qed simp

end

end
