(* ===== verification/TxPathSpec.thy ===== *)
theory TxPathSpec
  imports TxPathInv
begin

text \<open>
  What the Tx path promises: the view it starts from, \<open>tp_permitted\<close> (nothing was sent that the connection state
  forbids) and \<open>tp_fifo\<close> (what a queue took is what left it, in order, and what is there). Both are kept along the way
  of a packet: they are instances of \<open>tp_kept\<close>.
\<close>

section \<open>The start\<close>


definition boot_view :: tp_view where
  "boot_view = \<lparr>vw_conn = TX_CONN_STATE_CLOSE, vw_data = False, vw_susp = False\<rparr>"

lemma tp_boot_ctl: "tp_ctl (tp_boot ctxM tmr ctxD clsfr bStop thresh blk) = ctl_of boot_view boot_view MAX_NUM_OF_AC"
  by (auto simp: tp_boot_def tp_ctl_unfold boot_view_def sm_of_def enabled_of_def txMgmtQ_Init_def txMgmtQ_Create_def
      txPort_init_def txPort_create_def txDataQ_SetDefaults_def txDataQ_Init_def txDataQ_Create_def Let_def list_all_iff fun_eq_iff
      split: prod.splits)

lemma tp_boot_queues: "aq_items (tp_q d (tp_boot ctxM tmr ctxD clsfr bStop thresh blk)) = []"
  by (auto simp: tp_boot_def tp_q_def txMgmtQ_Init_def txMgmtQ_Create_def aq_Create_def
      txDataQ_SetDefaults_def txDataQ_Init_def txDataQ_Create_def Let_def list_all_iff split: tp_queue.splits prod.splits)

lemma tp_boot_trace: "tp_trace (tp_boot ctxM tmr ctxD clsfr bStop thresh blk) = []"
  by (simp add: tp_boot_def)


section \<open>Permitted packets, and queues in order\<close>

text \<open>Nothing was sent that was not permitted.\<close>

fun ev_permitted :: "tp_event \<Rightarrow> bool" where
  "ev_permitted (TpXmit k d x r) \<longleftrightarrow> tx_permits k d"
| "ev_permitted _ \<longleftrightarrow> True"

definition tp_permitted :: "TTxPath \<Rightarrow> bool" where
  "tp_permitted s \<longleftrightarrow> list_all ev_permitted (tp_trace s)"

interpretation permitted: tp_kept E "\<lambda>fl. tp_permitted" for E
proof (unfold_locales, goal_cases)
  case (2 fl s e) then show ?case by (cases e) (auto simp: tp_permitted_def)
qed (auto simp: tp_permitted_def tp_enqueue_def tp_dequeue_def tp_requeue_def Let_def split: prod.splits if_splits)

text \<open>What a queue took, what left it, and what is there.\<close>

fun ev_accepted :: "tp_queue \<Rightarrow> tp_event \<Rightarrow> addr list" where
  "ev_accepted d (TpAccepted d' x) = (if d' = d then [x] else [])"
| "ev_accepted d _ = []"

fun ev_out :: "tp_queue \<Rightarrow> tp_event \<Rightarrow> addr list" where
  "ev_out d (TpXmit k d' x r) = (if d' = d \<and> r \<noteq> STATUS_XMIT_BUSY then [x] else [])"
| "ev_out d (TpFreed d' x) = (if d' = d then [x] else [])"
| "ev_out d (TpLost d' x) = (if d' = d then [x] else [])"
| "ev_out d _ = []"

definition tp_accepted :: "tp_queue \<Rightarrow> TTxPath \<Rightarrow> addr list" where
  "tp_accepted d s = concat (map (ev_accepted d) (tp_trace s))"

definition tp_out :: "tp_queue \<Rightarrow> TTxPath \<Rightarrow> addr list" where
  "tp_out d s = concat (map (ev_out d) (tp_trace s))"

definition in_hand :: "(tp_queue \<times> addr) option \<Rightarrow> tp_queue \<Rightarrow> addr list" where
  "in_hand fl d = (case fl of None \<Rightarrow> [] | Some (d', x) \<Rightarrow> if d' = d then [x] else [])"

definition tp_fifo :: "(tp_queue \<times> addr) option \<Rightarrow> TTxPath \<Rightarrow> bool" where
  "tp_fifo fl s \<longleftrightarrow> (\<forall>d. tp_accepted d s = tp_out d s @ in_hand fl d @ aq_items (tp_q d s))"

lemma ev_silent: "tp_silent e \<Longrightarrow> ev_accepted d e = [] \<and> ev_out d e = []"
  by (cases e) auto

interpretation fifo: tp_kept E tp_fifo for E
proof (unfold_locales, goal_cases)
  case (1 fl s s') then show ?case by (simp add: tp_fifo_def tp_accepted_def tp_out_def)
next
  case (2 fl s e) then show ?case by (simp add: tp_fifo_def tp_accepted_def tp_out_def ev_silent)
next
  case (3 fl s d x st s')
  then show ?case
    by (auto simp: tp_fifo_def tp_accepted_def tp_out_def tp_enqueue_def aq_Enqueue_def Let_def split: prod.splits if_splits)
next
  case (4 s d x s')
  then show ?case
    by (auto simp: tp_fifo_def tp_accepted_def tp_out_def tp_dequeue_def aq_Dequeue_def in_hand_def Let_def
        split: prod.splits list.splits if_splits)
next
  case (7 d x s s')
  then show ?case
    by (auto simp: tp_fifo_def tp_accepted_def tp_out_def tp_requeue_def aq_Requeue_def in_hand_def Let_def
        split: prod.splits if_splits)
next
  case (8 d x s st s' e)
  then show ?case
    by (auto simp: tp_fifo_def tp_accepted_def tp_out_def tp_requeue_def aq_Requeue_def in_hand_def Let_def
        split: prod.splits if_splits)
qed (auto simp: tp_fifo_def tp_accepted_def tp_out_def in_hand_def)

lemma boot_permitted:
  "tp_good (\<lambda>fl. tp_permitted) MAX_NUM_OF_AC boot_view (tp_boot ctxM tmr ctxD clsfr bStop thresh blk)"
  by (simp add: tp_good_def tp_boot_ctl tp_boot_trace tp_permitted_def vw_ok_def boot_view_def)

lemma boot_fifo: "tp_good tp_fifo MAX_NUM_OF_AC boot_view (tp_boot ctxM tmr ctxD clsfr bStop thresh blk)"
  by (simp add: tp_good_def tp_boot_ctl tp_fifo_def tp_accepted_def tp_out_def tp_boot_trace tp_boot_queues in_hand_def
      vw_ok_def boot_view_def)

lemmas run_permitted = permitted.turn_run [OF _ permitted.turnI [OF boot_permitted]]
lemmas run_fifo = fifo.turn_run [OF _ fifo.turnI [OF boot_fifo]]

end
