(* ===== verification/TxPathEnd.thy ===== *)
theory TxPathEnd
  imports TxPathInv
begin

text \<open>
  Every operation of the Tx path returns. The network stack may insert packets while a scheduler runs; it is assumed to
  stop at some length \<open>N\<close> of the trace. Until then every round that does something makes the trace longer; from then
  on every packet that is sent leaves its queue. The loops go down in the distance to \<open>N\<close>, the packets, and the queues
  still to look at.
\<close>

section \<open>What a round does to the trace and to the packets\<close>

definition tp_len :: "TTxPath \<Rightarrow> nat" where
  "tp_len s = length (tp_trace s)"

definition tp_items :: "tp_queue \<Rightarrow> TTxPath \<Rightarrow> nat" where
  "tp_items d s = length (aq_items (tp_q d s))"

text \<open>A step that leaves queues and trace alone, and one that makes the trace longer.\<close>

definition tp_same :: "TTxPath \<Rightarrow> TTxPath \<Rightarrow> bool" where
  "tp_same s s' \<longleftrightarrow> (\<forall>d. tp_items d s' = tp_items d s) \<and> tp_len s' = tp_len s"

lemma tp_same_simps [simp]:
  "tp_same s (mq_count f u s)" "tp_same s (dq_count i g s)" "tp_same s (dq_select i s)" "tp_same s (dq_set_stopped i b s)"
  "tp_same s (updateQueuesBusyMap m s)" "tp_same s (txDataQ_UpdateQueuesBusyState m s)"
  by (auto simp: tp_same_def tp_items_def tp_len_def tp_q_def mq_count_def dq_count_def dq_select_def dq_set_stopped_def
      updateQueuesBusyMap_def txDataQ_UpdateQueuesBusyState_def split: tp_queue.splits)

lemma tp_same_items: "tp_same s s' \<Longrightarrow> tp_items d s' = tp_items d s"
  by (simp add: tp_same_def)

lemma tp_same_len: "tp_same s s' \<Longrightarrow> tp_len s' = tp_len s"
  by (simp add: tp_same_def)

lemmas tp_counts = tp_same_simps [THEN tp_same_items] tp_same_simps [THEN tp_same_len]

lemma tp_emit_counts [simp]: "tp_len (tp_emit e s) = tp_len s + 1" "tp_items d (tp_emit e s) = tp_items d s"
  by (auto simp: tp_len_def tp_items_def tp_emit_def tp_q_def split: tp_queue.splits)

lemma tp_set_queue_len [simp]: "tp_len (tp_set_queue d Q s) = tp_len s"
  by (simp add: tp_len_def tp_set_queue_def split: tp_queue.splits)

lemma tp_dequeue_counts:
  "tp_dequeue d s = (r, s') \<Longrightarrow>
   tp_len s' = tp_len s \<and> tp_items d s' + (if r = None then 0 else 1) = tp_items d s \<and>
   (\<forall>d'. d' \<noteq> d \<longrightarrow> tp_items d' s' = tp_items d' s)"
  by (auto simp: tp_dequeue_def aq_Dequeue_def tp_items_def Let_def split: prod.splits list.splits)

lemma tp_requeue_counts:
  "tp_requeue d x s = (st, s') \<Longrightarrow>
   tp_len s' = tp_len s \<and> tp_items d s' \<le> tp_items d s + 1 \<and> (\<forall>d'. d' \<noteq> d \<longrightarrow> tp_items d' s' = tp_items d' s)"
  by (auto simp: tp_requeue_def aq_Requeue_def tp_items_def Let_def split: prod.splits if_splits)

text \<open>Inserting packets never shortens the trace.\<close>

lemma tp_enqueue_len: "tp_enqueue d x s = (st, s') \<Longrightarrow> tp_len s \<le> tp_len s'"
  by (auto simp: tp_enqueue_def Let_def split: prod.splits if_splits)

lemma tp_set_blk_len [simp]: "tp_len (tp_set_blk x b s) = tp_len s" "tp_len (tp_set_type ty x s) = tp_len s"
  "tp_len (dq_mismatch s) = tp_len s"
  by (simp_all add: tp_len_def tp_set_blk_def tp_set_type_def dq_mismatch_def)

lemma mq_insert_len: "mq_insert x s = (st, b, s') \<Longrightarrow> tp_len s \<le> tp_len s'"
  by (auto simp: mq_insert_def Let_def tp_counts split: prod.splits if_splits dest!: tp_enqueue_len)

lemma mq_xmit_external_len: "mq_xmit_external x s = (st, s') \<Longrightarrow> tp_len s \<le> tp_len s'"
  by (auto simp: mq_xmit_external_def split: prod.splits if_splits dest!: mq_insert_len)

lemma dq_pace_len: "dq_pace i n s = (b, s') \<Longrightarrow> tp_len s \<le> tp_len s'"
  by (auto simp: dq_pace_def Let_def split: if_splits)

lemma dq_insert_len: "dq_insert x i s = (st, s') \<Longrightarrow> tp_len s \<le> tp_len s'"
  by (auto simp: dq_insert_def Let_def tp_counts split: prod.splits if_splits dest!: tp_enqueue_len dq_pace_len)

lemma txDataQ_InsertPacket_len: "txDataQ_InsertPacket E x g s = Inr (st, s') \<Longrightarrow> tp_len s \<le> tp_len s'"
  by (auto simp: txDataQ_InsertPacket_def Let_def split: prod.splits if_splits sum.splits
      dest!: mq_xmit_external_len dq_insert_len)

lemma tp_insert_all_len: "tp_insert_all E ps s = Inr s' \<Longrightarrow> tp_len s \<le> tp_len s'"
proof (induction ps arbitrary: s)
  case (Cons p ps)
  obtain x g where p: "p = (x, g)" by force
  from Cons.prems obtain st t where "txDataQ_InsertPacket E x g s = Inr (st, t)" "tp_insert_all E ps t = Inr s'"
    by (auto simp: p split: sum.splits)
  then show ?case using Cons.IH txDataQ_InsertPacket_len le_trans by blast
qed simp

lemma tp_preempt_len: "tp_preempt E s = Inr s' \<Longrightarrow> tp_len s < tp_len s'"
  by (auto simp: tp_preempt_def Let_def dest!: tp_insert_all_len)

definition net_ends :: "tp_env \<Rightarrow> nat \<Rightarrow> bool" where
  "net_ends E N \<longleftrightarrow> (\<forall>tr. N \<le> length tr \<longrightarrow> ev_net E tr = [])"

lemma tp_preempt_late:
  assumes "net_ends E N" "N \<le> tp_len s"
  shows "tp_preempt E s = Inr (tp_emit TpPoint s)"
proof -
  have "ev_net E (tp_trace (tp_emit TpPoint s)) = []"
    using assms by (simp add: net_ends_def tp_len_def tp_emit_def)
  then show ?thesis by (simp add: tp_preempt_def)
qed

lemma stop_same: "tp_same s (case stop of None \<Rightarrow> s
      | Some m \<Rightarrow> (case d of MgmtQ q \<Rightarrow> txMgmtQ_StopQueue m s | DataQ i \<Rightarrow> txDataQ_StopQueue m s))"
  by (simp add: txMgmtQ_StopQueue_def txDataQ_StopQueue_def tp_same_def tp_counts split: option.splits tp_queue.splits)

lemma tp_xmit_len: "tp_xmit E d x s = Inr (st, s') \<Longrightarrow> tp_len s < tp_len s'"
proof (goal_cases)
  case 1
  obtain r stop where ev: "ev_xmit E (tp_trace s) d x = (r, stop)" by force
  let ?t = "tp_emit (TpXmit (tp_cond s) d x r) s"
  have "tp_len ?t < tp_len s'"
    using 1 stop_same [where s = ?t and stop = stop and d = d, THEN tp_same_len]
    by (auto simp: tp_xmit_def ev Let_def simp del: tp_emit_counts split: sum.splits dest!: tp_preempt_len)
  then show ?case by simp
qed

lemma tp_xmit_late:
  assumes "net_ends E N" "N \<le> tp_len s" "tp_xmit E d x s = Inr (st, s')"
  shows "tp_items d' s' = tp_items d' s"
proof -
  obtain r stop where ev: "ev_xmit E (tp_trace s) d x = (r, stop)" by force
  let ?t = "tp_emit (TpXmit (tp_cond s) d x r) s"
  let ?u = "case stop of None \<Rightarrow> ?t
      | Some m \<Rightarrow> (case d of MgmtQ q \<Rightarrow> txMgmtQ_StopQueue m ?t | DataQ i \<Rightarrow> txDataQ_StopQueue m ?t)"
  have "N \<le> tp_len ?u" using stop_same [where s = ?t and stop = stop and d = d, THEN tp_same_len] assms(2) by simp
  then have "s' = tp_emit TpPoint ?u"
    using assms(3) tp_preempt_late [OF assms(1)] by (auto simp: tp_xmit_def ev Let_def split: sum.splits)
  then show ?thesis using stop_same [where s = ?t and stop = stop and d = d, THEN tp_same_items] by simp
qed

lemma mq_requeue_counts:
  "tp_len s \<le> tp_len (mq_requeue q x s) \<and> tp_items (MgmtQ q) (mq_requeue q x s) \<le> tp_items (MgmtQ q) s + 1 \<and>
   (\<forall>d. d \<noteq> MgmtQ q \<longrightarrow> tp_items d (mq_requeue q x s) = tp_items d s)"
  by (auto simp: mq_requeue_def Let_def tp_counts split: prod.splits dest!: tp_requeue_counts)

lemma dq_requeue_counts:
  "tp_len s \<le> tp_len (dq_requeue i x s) \<and> tp_items (DataQ i) (dq_requeue i x s) \<le> tp_items (DataQ i) s + 1 \<and>
   (\<forall>d. d \<noteq> DataQ i \<longrightarrow> tp_items d (dq_requeue i x s) = tp_items d s)"
  by (auto simp: dq_requeue_def Let_def tp_counts split: prod.splits dest!: tp_requeue_counts)

text \<open>A round leaves everything alone or makes the trace longer; a late round takes a packet away when it sends one.\<close>

lemma mq_round_len: "mq_round E q s = Inr (b, s') \<Longrightarrow> (\<not> b \<and> s' = s) \<or> tp_len s < tp_len s'"
proof (cases "\<not> mq_aQueueBusy (tp_mgmt s) q \<and> aQueueEnabledBySM (tp_mgmt s) q")
  case False then show "mq_round E q s = Inr (b, s') \<Longrightarrow> ?thesis" by (auto simp: mq_round_def)
next
  case True
  assume r: "mq_round E q s = Inr (b, s')"
  obtain s1 where 1: "tp_preempt E s = Inr s1" using r True by (auto simp: mq_round_def split: sum.splits)
  obtain x s2 where 2: "tp_dequeue (MgmtQ q) s1 = (x, s2)" by force
  have l: "tp_len s < tp_len s2" using tp_preempt_len [OF 1] tp_dequeue_counts [OF 2] by simp
  have "tp_len s < tp_len s'"
  proof (cases x)
    case None
    then have "s' = s2" using r True 1 2 by (simp add: mq_round_def)
    then show ?thesis using l by simp
  next
    case (Some y)
    let ?s2 = "mq_count (mq_inc q) aDequeuePackets_update s2"
    obtain st s3 where 3: "tp_xmit E (MgmtQ q) y ?s2 = Inr (st, s3)"
      using r True 1 2 Some by (auto simp: mq_round_def split: sum.splits)
    have "s' = (if st = STATUS_XMIT_BUSY then mq_requeue q y s3 else mq_count (mq_inc q) aXmittedPackets_update s3)"
      using r True 1 2 3 Some by (simp add: mq_round_def split: if_splits)
    then have "tp_len s3 \<le> tp_len s'" using mq_requeue_counts [of s3 q y] by (simp add: tp_counts)
    then show ?thesis using l tp_xmit_len [OF 3] by (simp add: tp_counts)
  qed
  then show ?thesis ..
qed

lemma mq_round_late:
  assumes "net_ends E N" "N \<le> tp_len s" and r: "mq_round E q s = Inr (b, s')"
  shows "tp_items (MgmtQ q) s' + (if b then 1 else 0) \<le> tp_items (MgmtQ q) s \<and>
    (\<forall>d. d \<noteq> MgmtQ q \<longrightarrow> tp_items d s' = tp_items d s)"
proof (cases "\<not> mq_aQueueBusy (tp_mgmt s) q \<and> aQueueEnabledBySM (tp_mgmt s) q")
  case False then show ?thesis using r by (auto simp: mq_round_def)
next
  case True
  let ?s1 = "tp_emit TpPoint s"
  obtain x s2 where 2: "tp_dequeue (MgmtQ q) ?s1 = (x, s2)" by force
  note c2 = tp_dequeue_counts [OF 2]
  show ?thesis
  proof (cases x)
    case None
    then show ?thesis using r True 2 c2 tp_preempt_late [OF assms(1,2)] by (auto simp: mq_round_def)
  next
    case (Some y)
    let ?s2 = "mq_count (mq_inc q) aDequeuePackets_update s2"
    obtain st s3 where 3: "tp_xmit E (MgmtQ q) y ?s2 = Inr (st, s3)"
      using r True 2 Some tp_preempt_late [OF assms(1,2)] by (auto simp: mq_round_def split: sum.splits)
    have "N \<le> tp_len ?s2" using assms(2) c2 by (simp add: tp_counts)
    then have c3: "tp_items d s3 = tp_items d s2" for d using tp_xmit_late [OF assms(1) _ 3] by (simp add: tp_counts)
    have "b = (st \<noteq> STATUS_XMIT_BUSY)"
      "s' = (if b then mq_count (mq_inc q) aXmittedPackets_update s3 else mq_requeue q y s3)"
      using r True 2 3 Some tp_preempt_late [OF assms(1,2)] by (simp_all add: mq_round_def split: if_splits)
    then show ?thesis using c2 c3 Some mq_requeue_counts [of s3 q y] by (cases b) (simp_all add: tp_counts)
  qed
qed

lemma dq_resume_counts: "tp_len s \<le> tp_len (dq_resume i s)" "tp_items d (dq_resume i s) = tp_items d s"
  by (simp_all add: dq_resume_def tp_counts)

lemma dq_round_len: "dq_round E i s = Inr (b, s') \<Longrightarrow> (\<not> b \<and> s' = s) \<or> tp_len s < tp_len s'"
proof (cases "dq_aQueueBusy (tp_data s) i")
  case True then show "dq_round E i s = Inr (b, s') \<Longrightarrow> ?thesis" by (auto simp: dq_round_def)
next
  case False
  assume r: "dq_round E i s = Inr (b, s')"
  obtain s1 where 1: "tp_preempt E s = Inr s1" using r False by (auto simp: dq_round_def split: sum.splits)
  obtain x s2 where 2: "tp_dequeue (DataQ i) s1 = (x, s2)" by force
  have l: "tp_len s < tp_len s2" using tp_preempt_len [OF 1] tp_dequeue_counts [OF 2] by simp
  show ?thesis
  proof (cases x)
    case None
    obtain s3 where 3: "tp_preempt E s2 = Inr s3" "s' = dq_resume i s3"
      using r False 1 2 None by (auto simp: dq_round_def split: sum.splits)
    then show ?thesis using l tp_preempt_len [OF 3(1)] dq_resume_counts(1) [of s3 i] by simp
  next
    case (Some y)
    let ?s2 = "dq_count i (uDequeuePacket_update (\<lambda>n. n + 1)) s2"
    obtain st s3 where 3: "tp_xmit E (DataQ i) y ?s2 = Inr (st, s3)"
      using r False 1 2 Some by (auto simp: dq_round_def split: sum.splits)
    have "s' = (if st = STATUS_XMIT_BUSY then dq_requeue i y s3
        else dq_count i (uXmittedPacket_update (\<lambda>n. n + 1)) s3)"
      using r False 1 2 3 Some by (simp add: dq_round_def split: if_splits)
    then have "tp_len s3 \<le> tp_len s'" using dq_requeue_counts [of s3 i y] by (simp add: tp_counts)
    then show ?thesis using l tp_xmit_len [OF 3] by (simp add: tp_counts)
  qed
qed

lemma dq_round_late:
  assumes "net_ends E N" "N \<le> tp_len s" and r: "dq_round E i s = Inr (b, s')"
  shows "tp_items (DataQ i) s' + (if b then 1 else 0) \<le> tp_items (DataQ i) s \<and>
    (\<forall>d. d \<noteq> DataQ i \<longrightarrow> tp_items d s' = tp_items d s)"
proof (cases "dq_aQueueBusy (tp_data s) i")
  case True then show ?thesis using r by (auto simp: dq_round_def)
next
  case False
  let ?s1 = "tp_emit TpPoint s"
  obtain x s2 where 2: "tp_dequeue (DataQ i) ?s1 = (x, s2)" by force
  note c2 = tp_dequeue_counts [OF 2]
  have l2: "N \<le> tp_len s2" using assms(2) c2 by simp
  show ?thesis
  proof (cases x)
    case None
    then have "b = False" "s' = dq_resume i (tp_emit TpPoint s2)"
      using r False 2 tp_preempt_late [OF assms(1,2)] tp_preempt_late [OF assms(1) l2] by (auto simp: dq_round_def)
    then show ?thesis using c2 None by (auto simp: dq_resume_counts)
  next
    case (Some y)
    let ?s2 = "dq_count i (uDequeuePacket_update (\<lambda>n. n + 1)) s2"
    obtain st s3 where 3: "tp_xmit E (DataQ i) y ?s2 = Inr (st, s3)"
      using r False 2 Some tp_preempt_late [OF assms(1,2)] by (auto simp: dq_round_def split: sum.splits)
    have "N \<le> tp_len ?s2" using l2 by (simp add: tp_counts)
    then have c3: "tp_items d s3 = tp_items d s2" for d using tp_xmit_late [OF assms(1) _ 3] by (simp add: tp_counts)
    have "b = (st \<noteq> STATUS_XMIT_BUSY)"
      "s' = (if b then dq_count i (uXmittedPacket_update (\<lambda>n. n + 1)) s3 else dq_requeue i y s3)"
      using r False 2 3 Some tp_preempt_late [OF assms(1,2)] by (simp_all add: dq_round_def split: if_splits)
    then show ?thesis using c2 c3 Some dq_requeue_counts [of s3 i y] by (cases b) (simp_all add: tp_counts)
  qed
qed

section \<open>The loops\<close>

text \<open>\<open>uLastQueId\<close> is the number of a data queue; an operation that returns keeps it one.\<close>

definition tp_last :: "TTxPath \<Rightarrow> bool" where
  "tp_last s \<longleftrightarrow> uLastQueId (tp_data s) < uNumQueues (tp_data s)"

definition tp_returns :: "TTxPath tp_res \<Rightarrow> bool" where
  "tp_returns m \<longleftrightarrow> (\<exists>r. m = Some r \<and> (\<forall>s. r = Inr s \<longrightarrow> tp_last s))"

lemma tp_returns_simps [simp]: "tp_returns (Some (Inl f))" "tp_returns (Some (Inr s)) \<longleftrightarrow> tp_last s" "\<not> tp_returns None"
  by (auto simp: tp_returns_def)

lemma tp_returns_then: "tp_returns m \<Longrightarrow> (\<And>s. tp_last s \<Longrightarrow> m = Some (Inr s) \<Longrightarrow> tp_returns (f s)) \<Longrightarrow> tp_returns (tp_then m f)"
  by (auto simp: tp_returns_def tp_then_def split: sum.splits)

lemma tp_last_stat: "tp_stat s' = tp_stat s \<Longrightarrow> tp_last s' = tp_last s"
  by (simp add: tp_last_def tp_stat_def tp_ctl_def)

lemma wf3: "wf (less_than <*lex*> less_than <*lex*> less_than)"
  by (intro wf_lex_prod wf_less_than)

lemma mq_loop_returns:
  assumes net: "net_ends E N"
  shows "tp_last s \<Longrightarrow> tp_returns (mq_loop E q s)"
proof (induction "(N - tp_len s, tp_items (MgmtQ QUEUE_TYPE_MGMT) s + tp_items (MgmtQ QUEUE_TYPE_EAPOL) s,
      if q = QUEUE_TYPE_MGMT then 1 else 0 :: nat)" arbitrary: q s
    rule: wf_induct_rule [OF wf3])
  case (1 q s)
  show ?case
  proof (cases "bMgmtPortEnable (tp_mgmt s)")
    case False then show ?thesis using 1(2) by (simp add: mq_loop.simps [of E q s])
  next
    case True
    show ?thesis
    proof (cases "mq_round E q s")
      case (Inl f) then show ?thesis using True by (simp add: mq_loop.simps [of E q s])
    next
      case (Inr p)
      obtain b t where p: "p = (b, t)" by force
      have r: "mq_round E q s = Inr (b, t)" using Inr p by simp
      have last: "tp_last t" using mq_round_stat [OF r] tp_last_stat 1(2) by blast
      have less: "N - tp_len t < N - tp_len s \<or> N - tp_len t = N - tp_len s \<and>
          (tp_items (MgmtQ QUEUE_TYPE_MGMT) t + tp_items (MgmtQ QUEUE_TYPE_EAPOL) t + (if b then 1 else 0) \<le>
            tp_items (MgmtQ QUEUE_TYPE_MGMT) s + tp_items (MgmtQ QUEUE_TYPE_EAPOL) s)"
      proof (cases "N \<le> tp_len s")
        case late: True
        then show ?thesis using mq_round_late [OF net late r] mq_round_len [OF r] by (cases q; cases b; auto)
      next
        case False
        then show ?thesis using mq_round_len [OF r] by auto
      qed
      have "b \<Longrightarrow> tp_returns (mq_loop E QUEUE_TYPE_MGMT t)"
        using less by (intro 1(1) last) auto
      moreover have "\<not> b \<Longrightarrow> q = QUEUE_TYPE_MGMT \<Longrightarrow> tp_returns (mq_loop E QUEUE_TYPE_EAPOL t)"
        using less by (intro 1(1) last) auto
      moreover have "tp_last (tp_emit TpEndOfBurst t)" using last tp_last_stat [of "tp_emit TpEndOfBurst t" t] by simp
      ultimately show ?thesis using True r by (subst mq_loop.simps) auto
    qed
  qed
qed

definition data_items :: "TTxPath \<Rightarrow> nat" where
  "data_items s = (\<Sum>i<uNumQueues (tp_data s). tp_items (DataQ i) s)"

lemma data_items_less:
  assumes "i < uNumQueues (tp_data s)" "uNumQueues (tp_data t) = uNumQueues (tp_data s)"
    and "tp_items (DataQ i) t + k \<le> tp_items (DataQ i) s" "\<forall>d. d \<noteq> DataQ i \<longrightarrow> tp_items d t = tp_items d s"
  shows "data_items t + k \<le> data_items s"
proof -
  let ?R = "{..<uNumQueues (tp_data s)} - {i}"
  have "data_items u = tp_items (DataQ i) u + (\<Sum>j\<in>?R. tp_items (DataQ j) u)"
    if "uNumQueues (tp_data u) = uNumQueues (tp_data s)" for u
    unfolding data_items_def that using assms(1) by (intro sum.remove) auto
  moreover have "(\<Sum>j\<in>?R. tp_items (DataQ j) t) = (\<Sum>j\<in>?R. tp_items (DataQ j) s)"
    using assms(4) by (intro sum.cong) auto
  ultimately show ?thesis using assms(2,3) by simp
qed

lemma dq_next_less: "i < uNumQueues (tp_data s) \<Longrightarrow> dq_next i s < uNumQueues (tp_data s)"
  by (simp add: dq_next_def)

lemma dq_loop_returns:
  assumes net: "net_ends E N"
  shows "i = uLastQueId (tp_data s) \<Longrightarrow> tp_last s \<Longrightarrow> tp_returns (dq_loop E n i s)"
proof (induction "(N - tp_len s, data_items s, uNumQueues (tp_data s) - n)" arbitrary: n i s rule: wf_induct_rule [OF wf3])
  case (1 n s i)
  show ?case
  proof (cases "\<not> bDataPortEnable (tp_data s) \<or> n \<ge> uNumQueues (tp_data s)")
    case True
    have "tp_last (tp_emit TpEndOfBurst s)" using 1(3) tp_last_stat [of "tp_emit TpEndOfBurst s" s] by simp
    then show ?thesis using True by (subst dq_loop.simps) auto
  next
    case False
    define j where "j = dq_next i s"
    define u where "u = dq_select j s"
    have j: "j < uNumQueues (tp_data s)" using 1(2,3) dq_next_less by (simp add: j_def tp_last_def)
    have u: "uNumQueues (tp_data u) = uNumQueues (tp_data s)" "uLastQueId (tp_data u) = j" "tp_len u = tp_len s"
      "\<And>d. tp_items d u = tp_items d s"
      by (simp_all add: u_def dq_select_def tp_len_def tp_items_def tp_q_def split: tp_queue.splits)
    show ?thesis
    proof (cases "dq_round E j u")
      case (Inl f) then show ?thesis using False by (subst dq_loop.simps) (auto simp: Let_def j_def u_def)
    next
      case (Inr p)
      obtain b t where "p = (b, t)" by force
      with Inr have r: "dq_round E j u = Inr (b, t)" by simp
      have t: "uNumQueues (tp_data t) = uNumQueues (tp_data s)" "uLastQueId (tp_data t) = j"
        using dq_round_stat [OF r] u by (simp_all add: tp_stat_def tp_ctl_def)
      have last: "tp_last t" using t j by (simp add: tp_last_def)
      have less: "N - tp_len t < N - tp_len s \<or> N - tp_len t = N - tp_len s \<and> data_items t + (if b then 1 else 0) \<le> data_items s"
      proof (cases "N \<le> tp_len s")
        case late: True
        have "tp_len s \<le> tp_len t" using dq_round_len [OF r] u by auto
        then show ?thesis
          using dq_round_late [OF net _ r] late u data_items_less [OF j t(1)] by auto
      next
        case early: False
        then consider "\<not> b" "t = u" | "N - tp_len t < N - tp_len s" using dq_round_len [OF r] u by auto
        then show ?thesis by cases (simp_all add: data_items_def u)
      qed
      have "tp_returns (dq_loop E (if b then 0 else n + 1) j t)"
        using less False t by (intro 1(1) last) (auto simp: t)
      then show ?thesis using False r by (subst dq_loop.simps) (simp add: Let_def j_def u_def)
    qed
  qed
qed

section \<open>The operations\<close>

lemma RunScheduler_returns: "net_ends E N \<Longrightarrow> tp_last s \<Longrightarrow> tp_returns (txDataQ_RunScheduler E s)"
  by (simp add: txDataQ_RunScheduler_def dq_loop_returns)

lemma runScheduler_returns: "net_ends E N \<Longrightarrow> tp_last s \<Longrightarrow> tp_returns (runScheduler E s)"
  by (simp add: runScheduler_def mq_loop_returns)

lemma preempt_returns: "tp_last s \<Longrightarrow> tp_returns (Some (tp_preempt E s))"
  by (cases "tp_preempt E s") (auto dest!: tp_preempt_stat tp_last_stat)

text \<open>\<open>wake\<close> need not return when it is the turn of the data queues.\<close>

lemma updateQueuesStates_returns:
  assumes net: "net_ends E N" and last: "tp_last s"
    and wake: "\<And>t. queuesMuxState (tp_port s) = MUX_MGMT_QUEUES \<Longrightarrow> tp_last t \<Longrightarrow> tp_returns (wake t)"
  shows "tp_returns (updateQueuesStates E wake s)"
proof -
  obtain a b where ab: "port_actions (tp_port s) = (a, b)" by force
  define t where "t = (let s = if a = QUEUE_ACTION_STOP
               then txMgmtQ_StopAll (s\<lparr>tp_port := (tp_port s)\<lparr>mgmtQueueEnabled := False\<rparr>\<rparr>) else s
      in if b = QUEUE_ACTION_STOP
               then txDataQ_StopAll (s\<lparr>tp_port := (tp_port s)\<lparr>dataQueueEnabled := False\<rparr>\<rparr>) else s)"
  have last_t: "tp_last t" using last by (simp add: t_def tp_last_def txMgmtQ_StopAll_def txDataQ_StopAll_def)
  have mux: "a = QUEUE_ACTION_WAKE \<Longrightarrow> queuesMuxState (tp_port s) = MUX_MGMT_QUEUES"
    using ab by (auto simp: port_actions_def Let_def split: if_splits intro: EQueuesMuxState.exhaust)
  have "tp_returns (if a = QUEUE_ACTION_WAKE then wake (t\<lparr>tp_port := (tp_port t)\<lparr>mgmtQueueEnabled := True\<rparr>\<rparr>) else Some (Inr t))"
    using wake [OF mux] last_t by (simp add: tp_last_def)
  then have "tp_returns (tp_then (if a = QUEUE_ACTION_WAKE then wake (t\<lparr>tp_port := (tp_port t)\<lparr>mgmtQueueEnabled := True\<rparr>\<rparr>) else Some (Inr t))
      (\<lambda>s. if b = QUEUE_ACTION_WAKE then txDataQ_WakeAll E (s\<lparr>tp_port := (tp_port s)\<lparr>dataQueueEnabled := True\<rparr>\<rparr>)
        else Some (Inr s)))"
    by (rule tp_returns_then)
      (simp add: txDataQ_WakeAll_def RunScheduler_returns [OF net] tp_last_def)
  then show ?thesis unfolding updateQueuesStates_def ab t_def Let_def by (simp only: prod.case)
qed

lemma enableData_returns: "net_ends E N \<Longrightarrow> tp_last s \<Longrightarrow> tp_returns (txPort_enableData E wake s)"
  unfolding txPort_enableData_def by (rule updateQueuesStates_returns) (simp_all add: tp_last_def)

lemma sm_empty_returns: "net_ends E N \<Longrightarrow> tp_last s \<Longrightarrow> tp_returns (mgmtQueuesSM E (Suc k) SM_EVENT_QUEUES_EMPTY s)"
  by (auto simp: Let_def mq_enable_def tp_last_def intro!: enableData_returns)

lemma notFromSm_returns:
  assumes "net_ends E N" "tp_last s"
  shows "tp_returns (runSchedulerNotFromSm E (mgmtQueuesSM E (Suc k)) s)"
proof -
  have "tp_returns (if ARE_ALL_MGMT_QUEUES_EMPTY s then mgmtQueuesSM E (Suc k) SM_EVENT_QUEUES_EMPTY s else Some (Inr s))"
    if "tp_last s" for s
    using sm_empty_returns [OF assms(1) that, of k] that by (simp del: mgmtQueuesSM.simps)
  then show ?thesis unfolding runSchedulerNotFromSm_def using assms
    by (auto simp del: mgmtQueuesSM.simps intro!: tp_returns_then runScheduler_returns preempt_returns)
qed

lemma wakeAll_returns:
  assumes "net_ends E N" "tp_last s"
  shows "tp_returns (txMgmtQ_WakeAll E (mgmtQueuesSM E (Suc k)) s)"
  unfolding txMgmtQ_WakeAll_def by (rule notFromSm_returns [OF assms(1)]) (use assms(2) in \<open>simp add: tp_last_def\<close>)

lemma enableMgmt_returns:
  "net_ends E N \<Longrightarrow> tp_last s \<Longrightarrow> tp_returns (txPort_enableMgmt E (txMgmtQ_WakeAll E (mgmtQueuesSM E (Suc k))) s)"
  unfolding txPort_enableMgmt_def by (rule updateQueuesStates_returns) (auto intro: wakeAll_returns simp: tp_last_def)

lemma mgmtQueuesSM_returns:
  assumes "net_ends E N" "tp_last s"
  shows "tp_returns (mq_sm E ev s)"
proof -
  obtain a m where st: "mgmtQueuesSM_step ev (ARE_ALL_MGMT_QUEUES_EMPTY s) (tp_mgmt s) = (a, m)" by force
  have last: "tp_last (s\<lparr>tp_mgmt := m\<rparr>)" using assms(2) by (simp add: tp_last_def)
  show ?thesis
    unfolding mq_sm_def numeral_2_eq_2 mgmtQueuesSM.simps(2) [of E "Suc 0"] st Let_def prod.case
    using last assms(1) enableData_returns enableMgmt_returns runScheduler_returns
    by (cases a) (simp_all del: mgmtQueuesSM.simps)
qed

lemma tp_clear_last: "tp_last (tp_clear d s) \<longleftrightarrow> tp_last s"
proof (induction d s rule: tp_clear.induct)
  case (1 d s)
  then show ?case
    by (subst tp_clear.simps)
      (auto split: prod.splits option.splits dest!: tp_dequeue_stat [THEN tp_last_stat] simp: tp_last_stat [OF tp_stat_simps(1)])
qed

lemma fold_clear_last: "tp_last (fold (\<lambda>i. tp_clear (f i)) xs s) \<longleftrightarrow> tp_last s"
  by (induction xs arbitrary: s) (simp_all add: tp_clear_last)

lemma tp_do_returns:
  assumes net: "net_ends E N" and last: "tp_last s"
  shows "tp_returns (tp_do E op s)"
proof (cases op)
  case (OpInsert x g)
  then show ?thesis using last
    by (auto split: sum.splits dest!: txDataQ_InsertPacket_stat [THEN tp_last_stat])
next
  case (OpXmit x b)
  show ?thesis
  proof (cases b)
    case True
    obtain st t where t: "mq_xmit_external x s = (st, t)" by force
    have "tp_last t" using mq_xmit_external_stat [OF t, THEN tp_last_stat] last by simp
    then show ?thesis using OpXmit True t by (simp add: txMgmtQ_Xmit_def)
  next
    case False
    obtain st first t where t: "mq_insert x s = (st, first, t)" by (metis prod_cases3)
    have lt: "tp_last t" using mq_insert_stat [OF t, THEN tp_last_stat] last by simp
    have "tp_returns (mq_sm E SM_EVENT_QUEUES_NOT_EMPTY t)" by (rule mgmtQueuesSM_returns [OF net lt])
    then show ?thesis using OpXmit False t lt
      by (cases first) (auto simp: txMgmtQ_Xmit_def tp_returns_def tp_then_def split: sum.splits)
  qed
next
  case OpQueuesNotEmpty
  then show ?thesis using mgmtQueuesSM_returns [OF net last] by (simp add: txMgmtQ_QueuesNotEmpty_def)
next
  case OpRunData
  then show ?thesis using RunScheduler_returns [OF net last] by simp
next
  case OpPaceTimeout
  then show ?thesis using last by (auto simp: txDataQ_TxSendPaceTimeout_def tp_last_def intro!: RunScheduler_returns [OF net])
next
  case (OpMgmtBusyMap m)
  have "tp_last (updateQueuesBusyMap m s)" using last by (simp add: tp_last_def updateQueuesBusyMap_def)
  then show ?thesis using OpMgmtBusyMap notFromSm_returns [OF net, of _ 1]
    by (simp add: txMgmtQ_UpdateBusyMap_def mq_sm_def numeral_2_eq_2 del: mgmtQueuesSM.simps)
next
  case (OpDataBusyMap m)
  have "tp_last (txDataQ_UpdateQueuesBusyState m s)" using last by (simp add: tp_last_def txDataQ_UpdateQueuesBusyState_def)
  then show ?thesis using OpDataBusyMap RunScheduler_returns [OF net] by (simp add: txDataQ_UpdateBusyMap_def)
next
  case (OpConn c)
  then show ?thesis using last by (auto simp: txMgmtQ_SetConnState_def tp_last_def intro!: mgmtQueuesSM_returns [OF net])
next
  case OpSuspend
  then show ?thesis using last wakeAll_returns [OF net, of _ 1]
    by (auto simp: txPort_suspendTx_def tp_last_def mq_sm_def numeral_2_eq_2 simp del: mgmtQueuesSM.simps
        intro!: updateQueuesStates_returns [OF net])
next
  case OpResume
  then show ?thesis using last wakeAll_returns [OF net, of _ 1]
    by (auto simp: txPort_resumeTx_def tp_last_def mq_sm_def numeral_2_eq_2 simp del: mgmtQueuesSM.simps
        intro!: updateQueuesStates_returns [OF net])
next
  case OpClearMgmt
  then show ?thesis using last by (simp add: txMgmtQ_ClearQueues_def tp_clear_last)
next
  case OpClearData
  then show ?thesis using last by (simp add: txDataQ_ClearQueues_def fold_clear_last)
next
  case OpResetMgmt
  then show ?thesis using last by (simp add: txMgmtQ_ResetQueueStatistics_def tp_last_def)
next
  case OpResetData
  then show ?thesis using last by (simp add: txDataQ_ResetQueueStatistics_def tp_last_def)
qed

lemma tp_run_returns: "net_ends E N \<Longrightarrow> tp_last s \<Longrightarrow> tp_returns (tp_run E ops s)"
proof (induction ops arbitrary: s)
  case (Cons op ops)
  have "tp_returns (tp_then (tp_do E op s) (tp_run E ops))"
    using tp_do_returns [OF Cons.prems] Cons.IH [OF Cons.prems(1)] by (rule tp_returns_then)
  then show ?case by (simp only: tp_run.simps)
qed simp

lemma tp_boot_last: "tp_last (tp_boot ctxM tmr ctxD clsfr bStop thresh blk)"
  by (simp add: tp_last_def tp_boot_def txDataQ_SetDefaults_def txDataQ_Init_def txDataQ_Create_def Let_def list_all_iff
      MAX_NUM_OF_AC_def split: prod.splits)

end
