(* ===== verification/TxPathDrain.thy ===== *)
theory TxPathDrain
  imports TxPathSpec TxPathEnd "HOL-Library.Sublist"
begin

text \<open>
  The data scheduler leaves nothing behind that could go: when it ends, every data queue is empty or busy, unless a
  packet was put back or a new one came while it ran.
\<close>

section \<open>Traces grow\<close>

interpretation ext: tp_kept E "\<lambda>fl s. prefix tr (tp_trace s)" for E tr
  by unfold_locales
    (auto simp: tp_enqueue_def tp_dequeue_def tp_requeue_def Let_def intro: prefix_prefix split: prod.splits if_splits)

definition since :: "TTxPath \<Rightarrow> TTxPath \<Rightarrow> tp_event list" where
  "since s s' = drop (length (tp_trace s)) (tp_trace s')"

fun tp_quiet :: "tp_event \<Rightarrow> bool" where
  "tp_quiet (TpAccepted (DataQ i) x) \<longleftrightarrow> False"
| "tp_quiet (TpXmit k d x r) \<longleftrightarrow> r \<noteq> STATUS_XMIT_BUSY"
| "tp_quiet _ \<longleftrightarrow> True"

definition quiet_since :: "TTxPath \<Rightarrow> TTxPath \<Rightarrow> bool" where
  "quiet_since s s' \<longleftrightarrow> prefix (tp_trace s) (tp_trace s') \<and> list_all tp_quiet (since s s')"

lemma since_trace: "prefix (tp_trace s) (tp_trace s') \<Longrightarrow> tp_trace s' = tp_trace s @ since s s'"
  by (auto simp: since_def elim: prefixE)

lemma quiet_split:
  assumes "quiet_since s s'" "prefix (tp_trace s) (tp_trace t)" "prefix (tp_trace t) (tp_trace s')"
  shows "quiet_since s t \<and> quiet_since t s'"
proof -
  have "since s s' = since s t @ since t s'"
    using assms(2,3) by (auto simp: since_def elim!: prefixE)
  then show ?thesis using assms by (auto simp: quiet_since_def)
qed

lemma accepted_quiet: "list_all tp_quiet es \<Longrightarrow> concat (map (ev_accepted (DataQ i)) es) = []"
proof (induction es)
  case (Cons e es)
  then show ?case by (cases e rule: tp_quiet.cases) auto
qed simp

lemma empty_stays:
  assumes "quiet_since u t" "tp_fifo None u" "tp_fifo None t" "aq_items (tp_q (DataQ i) u) = []"
  shows "aq_items (tp_q (DataQ i) t) = []"
proof -
  have t: "tp_trace t = tp_trace u @ since u t" using assms(1) since_trace by (simp add: quiet_since_def)
  have "tp_accepted (DataQ i) t = tp_accepted (DataQ i) u"
    using assms(1) accepted_quiet by (simp add: tp_accepted_def t quiet_since_def)
  moreover have "tp_out (DataQ i) t = tp_out (DataQ i) u @ concat (map (ev_out (DataQ i)) (since u t))"
    by (simp add: tp_out_def t)
  ultimately show ?thesis using assms(2-4) by (simp add: tp_fifo_def in_hand_def)
qed

section \<open>A round that sends nothing\<close>

definition clean :: "TTxPath \<Rightarrow> nat \<Rightarrow> bool" where
  "clean s i \<longleftrightarrow> dq_aQueueBusy (tp_data s) i \<or> aq_items (tp_q (DataQ i) s) = []"

lemma preempt_busy: "tp_preempt E s = Inr s' \<Longrightarrow> dq_aQueueBusy (tp_data s') = dq_aQueueBusy (tp_data s)"
  using tp_preempt_still by (simp add: tp_still_def)

lemma dequeue_busy: "tp_dequeue d s = (r, s') \<Longrightarrow> dq_aQueueBusy (tp_data s') = dq_aQueueBusy (tp_data s)"
  using tp_dequeue_still by (simp add: tp_still_def)

lemma resume_busy: "dq_aQueueBusy (tp_data (dq_resume i s)) = dq_aQueueBusy (tp_data s)"
  using dq_resume_still [of i s] by (simp add: tp_still_def)

lemma tp_xmit_prefix: "tp_xmit E d x s = Inr (r, s') \<Longrightarrow> prefix (tp_trace s @ [TpXmit (tp_cond s) d x r]) (tp_trace s')"
proof -
  assume x: "tp_xmit E d x s = Inr (r, s')"
  obtain r' stop where ev: "ev_xmit E (tp_trace s) d x = (r', stop)" by force
  let ?t = "tp_emit (TpXmit (tp_cond s) d x r') s"
  have "prefix (tp_trace ?t) (tp_trace (case stop of None \<Rightarrow> ?t
      | Some m \<Rightarrow> (case d of MgmtQ q \<Rightarrow> txMgmtQ_StopQueue m ?t | DataQ i \<Rightarrow> txDataQ_StopQueue m ?t)))"
    by (rule ext.keep_stop) simp
  from ext.keep_preempt [OF _ this] show ?thesis using x by (auto simp: tp_xmit_def ev Let_def split: sum.splits)
qed

lemma requeue_prefix: "prefix tr (tp_trace s) \<Longrightarrow> prefix tr (tp_trace (dq_requeue i x s))"
  by (rule ext.keep_dq_requeue)

lemma round_idle:
  assumes fifo: "tp_fifo None u" and cond: "tx_permits (tp_cond u) (DataQ j)"
    and r: "dq_round E j u = Inr (False, t)" and quiet: "quiet_since u t"
  shows "dq_aQueueBusy (tp_data t) = dq_aQueueBusy (tp_data u) \<and> clean t j"
proof (cases "dq_aQueueBusy (tp_data u) j")
  case True then show ?thesis using r by (simp add: dq_round_def clean_def)
next
  case False
  obtain s1 where 1: "tp_preempt E u = Inr s1" using r False by (auto simp: dq_round_def split: sum.splits)
  obtain x s2 where 2: "tp_dequeue (DataQ j) s1 = (x, s2)" by force
  have p1: "prefix (tp_trace u) (tp_trace s1)" using ext.keep_preempt [OF 1] by simp
  have t2: "tp_trace s2 = tp_trace s1" using 2 by (auto simp: tp_dequeue_def Let_def split: prod.splits)
  have ft: "tp_fifo None t" by (rule fifo.keep_dq_round [OF fifo r cond])
  show ?thesis
  proof (cases x)
    case None
    obtain s3 where 3: "tp_preempt E s2 = Inr s3" "t = dq_resume j s3"
      using r False 1 2 None by (auto simp: dq_round_def split: sum.splits)
    have "prefix (tp_trace s1) (tp_trace t)"
      unfolding 3(2) using ext.keep_preempt [OF 3(1)] t2 by (intro ext.keep_dq_resume) simp
    then have "quiet_since s1 t" using quiet_split [OF quiet p1] by blast
    moreover have "tp_fifo None s1" by (rule fifo.keep_preempt [OF 1 fifo])
    moreover have "aq_items (tp_q (DataQ j) s1) = []"
      using 2 None by (auto simp: tp_dequeue_def aq_Dequeue_def Let_def split: prod.splits list.splits)
    ultimately have "clean t j" using empty_stays [OF _ _ ft] by (simp add: clean_def)
    then show ?thesis using preempt_busy [OF 1] dequeue_busy [OF 2] preempt_busy [OF 3(1)] 3(2) resume_busy by simp
  next
    case (Some y)
    let ?s2 = "dq_count j (uDequeuePacket_update (\<lambda>n. n + 1)) s2"
    obtain st s3 where 3: "tp_xmit E (DataQ j) y ?s2 = Inr (st, s3)"
      using r False 1 2 Some by (auto simp: dq_round_def split: sum.splits)
    have st: "st = STATUS_XMIT_BUSY" "t = dq_requeue j y s3"
      using r False 1 2 3 Some by (simp_all add: dq_round_def split: if_splits)
    have "prefix (tp_trace u) (tp_trace ?s2)" using p1 t2 by (simp add: dq_count_def)
    moreover have "prefix (tp_trace ?s2 @ [TpXmit (tp_cond ?s2) (DataQ j) y st]) (tp_trace t)"
      unfolding st(2) by (rule requeue_prefix [OF tp_xmit_prefix [OF 3]])
    ultimately have "TpXmit (tp_cond ?s2) (DataQ j) y st \<in> set (since u t)"
      by (auto simp: since_def elim!: prefixE)
    then show ?thesis using quiet st(1) by (auto simp: quiet_since_def list_all_iff)
  qed
qed

section \<open>The loop\<close>

text \<open>The queues looked at in the last \<open>n\<close> idle rounds, counted from \<open>i0\<close>, are clean.\<close>

definition idle_clean :: "nat \<Rightarrow> nat \<Rightarrow> TTxPath \<Rightarrow> bool" where
  "idle_clean i0 n s \<longleftrightarrow> (\<forall>k. 1 \<le> k \<and> k \<le> n \<longrightarrow> clean s ((i0 + k) mod uNumQueues (tp_data s)))"

lemma idle_clean_all:
  assumes "idle_clean i0 n s" "uNumQueues (tp_data s) \<le> n" "i0 < uNumQueues (tp_data s)" "j < uNumQueues (tp_data s)"
  shows "clean s j"
proof -
  let ?N = "uNumQueues (tp_data s)"
  let ?k = "if i0 < j then j - i0 else j + ?N - i0"
  have "1 \<le> ?k \<and> ?k \<le> n" using assms(2-4) by auto
  moreover have "(i0 + ?k) mod ?N = j" using assms(3,4) by auto
  ultimately show ?thesis using assms(1) unfolding idle_clean_def by metis
qed

lemma idle_clean_Suc:
  assumes "idle_clean i0 n u" "clean t j" "j = (i0 + Suc n) mod uNumQueues (tp_data u)"
    and "uNumQueues (tp_data t) = uNumQueues (tp_data u)" "\<And>i. clean u i \<Longrightarrow> clean t i"
  shows "idle_clean i0 (Suc n) t"
  using assms by (auto simp: idle_clean_def le_Suc_eq)

lemma clean_select [simp]: "clean (dq_select j s) i = clean s i" "tp_trace (dq_select j s) = tp_trace s"
  "uNumQueues (tp_data (dq_select j s)) = uNumQueues (tp_data s)" "tp_cond (dq_select j s) = tp_cond s"
  by (simp_all add: clean_def dq_select_def tp_q_def tp_cond_def)

lemma clean_emit [simp]: "clean (tp_emit e s) i = clean s i" "uNumQueues (tp_data (tp_emit e s)) = uNumQueues (tp_data s)"
  "bDataPortEnable (tp_data (tp_emit e s)) = bDataPortEnable (tp_data s)"
  by (simp_all add: clean_def tp_emit_def tp_q_def)

lemma fifo_select [simp]: "tp_fifo None (dq_select j s) = tp_fifo None s"
  by (simp add: tp_fifo_def tp_accepted_def tp_out_def tp_q_def dq_select_def split: tp_queue.splits)

text \<open>What the loop needs of the state: it is the turn of the data queues.\<close>

definition data_turn :: "TTxPath \<Rightarrow> bool" where
  "data_turn s \<longleftrightarrow> tp_fifo None s \<and> tx_permits (tp_cond s) (DataQ 0) \<and> bDataPortEnable (tp_data s) \<and>
     \<not> bMgmtPortEnable (tp_mgmt s)"

lemma permits_data: "tx_permits k (DataQ i) = tx_permits k (DataQ j)"
  by (simp add: tx_permits_def)

lemma round_turn:
  assumes "data_turn s" "dq_round E j (dq_select j s) = Inr (b, t)"
  shows "data_turn t \<and> uNumQueues (tp_data t) = uNumQueues (tp_data s) \<and> prefix (tp_trace s) (tp_trace t)"
proof -
  have "tp_fifo None (dq_select j s)" "tx_permits (tp_cond (dq_select j s)) (DataQ j)"
    using assms(1) permits_data [of "tp_cond s" j 0] by (simp_all add: data_turn_def)
  note k = fifo.keep_dq_round [OF this(1) assms(2) this(2)]
    ext.keep_dq_round [where tr = "tp_trace s", OF _ assms(2) this(2)] dq_round_ctl [OF assms(2)]
  then show ?thesis using assms(1)
    by (simp add: data_turn_def tp_ctl_def tp_cond_def dq_select_def)
qed

lemma turn_end: "data_turn u \<Longrightarrow> data_turn (tp_emit TpEndOfBurst u)"
  using fifo.silent [of None u TpEndOfBurst] by (simp add: data_turn_def tp_cond_def tp_emit_def)

lemma loop_turn: "dq_loop E n i s = Some (Inr s') \<Longrightarrow> data_turn s \<Longrightarrow> prefix (tp_trace s) (tp_trace s')"
proof -
  assume l: "dq_loop E n i s = Some (Inr s')" and d: "data_turn s"
  have "data_turn s' \<and> prefix (tp_trace s) (tp_trace s')"
  proof (rule tp_rounds.dq_loop_keeps [OF _ l _ refl, where I = "\<lambda>t. data_turn t \<and> prefix (tp_trace s) (tp_trace t)"])
    show "tp_rounds E (\<lambda>t. data_turn t \<and> prefix (tp_trace s) (tp_trace t))"
    proof
      fix u q b t assume "data_turn u \<and> prefix (tp_trace s) (tp_trace u)" "bMgmtPortEnable (tp_mgmt u)"
      then show "data_turn t \<and> prefix (tp_trace s) (tp_trace t)" by (simp add: data_turn_def)
    next
      fix u i b t assume "data_turn u \<and> prefix (tp_trace s) (tp_trace u)" "dq_round E i (dq_select i u) = Inr (b, t)"
      then show "data_turn t \<and> prefix (tp_trace s) (tp_trace t)" using round_turn prefix_order.trans by blast
    next
      fix u assume "data_turn u \<and> prefix (tp_trace s) (tp_trace u)"
      then show "data_turn (tp_emit TpEndOfBurst u) \<and> prefix (tp_trace s) (tp_trace (tp_emit TpEndOfBurst u))"
        using turn_end prefix_prefix by simp
    qed
  qed (use d in simp)
  then show ?thesis ..
qed

lemma idle_step:
  assumes d: "data_turn s" and rd: "dq_round E k (dq_select k s) = Inr (False, t)" and q: "quiet_since s t"
    and c: "idle_clean i0 n s" and k: "k = (i0 + Suc n) mod uNumQueues (tp_data s)"
  shows "idle_clean i0 (Suc n) t"
proof -
  note turn = round_turn [OF d rd]
  have f: "tp_fifo None (dq_select k s)" and cond: "tx_permits (tp_cond (dq_select k s)) (DataQ k)"
    using d permits_data [of "tp_cond s" k 0] by (simp_all add: data_turn_def)
  have "quiet_since (dq_select k s) t" using q by (simp add: quiet_since_def since_def)
  then have idle: "dq_aQueueBusy (tp_data t) = dq_aQueueBusy (tp_data (dq_select k s)) \<and> clean t k"
    using round_idle [OF f cond rd] by simp
  have "tp_fifo None s" "tp_fifo None t" using d turn by (simp_all add: data_turn_def)
  then have keep: "clean t m" if "clean s m" for m
    using that idle empty_stays [OF q] by (auto simp: clean_def dq_select_def)
  show ?thesis by (rule idle_clean_Suc [OF c _ k _ keep]) (use idle turn in auto)
qed

text \<open>\<open>drains j n i s r\<close>: from \<open>s\<close>, with the last \<open>n\<close> queues clean, the loop leaves queue \<open>j\<close> clean.\<close>

definition drains :: "tp_env \<Rightarrow> nat \<Rightarrow> nat \<Rightarrow> nat \<Rightarrow> TTxPath \<Rightarrow> fault + TTxPath \<Rightarrow> bool" where
  "drains E j n i s r \<longleftrightarrow> (\<forall>i0 s'. data_turn s \<longrightarrow> i0 < uNumQueues (tp_data s) \<longrightarrow> i = (i0 + n) mod uNumQueues (tp_data s) \<longrightarrow>
     idle_clean i0 n s \<longrightarrow> dq_loop E n i s = Some r \<longrightarrow> r = Inr s' \<longrightarrow> quiet_since s s' \<longrightarrow>
     j < uNumQueues (tp_data s) \<longrightarrow> clean s' j)"

lemma dq_loop_drains: "dq_loop E n i s = Some r \<Longrightarrow> drains E j n i s r"
proof (erule dq_loop.raw_induct [rotated], goal_cases)
  case (1 loop E n i s r)
  show ?case
    unfolding drains_def
  proof (intro allI impI)
    fix i0 s'
    assume d: "data_turn s" and i0: "i0 < uNumQueues (tp_data s)" and i: "i = (i0 + n) mod uNumQueues (tp_data s)"
      and c: "idle_clean i0 n s" and whole: "dq_loop E n i s = Some r" and r: "r = Inr s'"
      and q: "quiet_since s s'" and j: "j < uNumQueues (tp_data s)"
    have b: "bDataPortEnable (tp_data s)" using d by (simp add: data_turn_def)
    show "clean s' j"
    proof (cases "n \<ge> uNumQueues (tp_data s)")
      case True
      then have "s' = tp_emit TpEndOfBurst s" using 1(2) r by simp
      then show ?thesis using idle_clean_all [OF c True i0 j] by simp
    next
      case False
      define k where "k = dq_next i s"
      have k: "k = (i0 + Suc n) mod uNumQueues (tp_data s)" using i0 i by (simp add: k_def dq_next_def mod_Suc)
      obtain sent t where rd: "dq_round E k (dq_select k s) = Inr (sent, t)"
        using 1(2) False b r by (cases "dq_round E k (dq_select k s)") (auto simp: k_def Let_def)
      note turn = round_turn [OF d rd]
      have next_loop: "loop E (if sent then 0 else n + 1) k t = Some r" using 1(2) False b rd by (simp add: k_def Let_def)
      have next_run: "dq_loop E (if sent then 0 else n + 1) k t = Some r"
        using whole False b rd by (subst (asm) dq_loop.simps) (simp add: k_def Let_def)
      have p: "prefix (tp_trace t) (tp_trace s')" using loop_turn next_run r turn by blast
      have q1: "quiet_since s t" and q2: "quiet_since t s'" using quiet_split [OF q _ p] turn by blast+
      note IH = 1(1) [OF next_loop, unfolded drains_def, rule_format]
      show ?thesis
      proof (cases sent)
        case True
        then show ?thesis using IH [of k s'] next_run turn r q2 j k i0 by (simp add: idle_clean_def)
      next
        case no: False
        then show ?thesis using IH [of i0 s'] idle_step [OF d _ q1 c k] rd next_run turn r q2 j i0 k by simp
      qed
    qed
  qed
qed

lemma RunScheduler_clean:
  assumes "data_turn s" "tp_last s" "txDataQ_RunScheduler E s = Some (Inr s')" "quiet_since s s'"
    and "j < uNumQueues (tp_data s)"
  shows "clean s' j"
proof -
  have "idle_clean (uLastQueId (tp_data s)) 0 s" by (simp add: idle_clean_def)
  then show ?thesis
    using dq_loop_drains [of E 0 "uLastQueId (tp_data s)" s "Inr s'" j] assms
    by (auto simp: drains_def txDataQ_RunScheduler_def tp_last_def)
qed

lemma RunScheduler_trace:
  "txDataQ_RunScheduler E s = Some (Inr s') \<Longrightarrow> data_turn s \<Longrightarrow> prefix (tp_trace s) (tp_trace s')"
  by (simp add: txDataQ_RunScheduler_def loop_turn)

end
