(* ===== verification/TxPathProps.thy ===== *)
theory TxPathProps
  imports TxPathDrain
begin

text \<open>
  Properties of the Tx path (\<open>txMgmtQueue.c\<close>, \<open>txPort.c\<close>, \<open>txDataQueue.c\<close>): the state machine, the port and the
  queues agree on who may send; nothing is sent that the connection state forbids; every queue is first in first out
  and loses nothing unseen; every operation returns; the data scheduler leaves no packet behind that could go. The
  last section holds runs that show where the code departs from its comments.
\<close>

section \<open>A run\<close>

text \<open>Packets 1 to 9 are data, 10 to 14 EAPOL, from 15 on management; the buffers hold nothing but the type.\<close>

definition tpd_blk :: "addr \<Rightarrow> TTxCtrlBlk" where
  "tpd_blk x = TTxCtrlBlk_zero\<lparr>
     tTxnStruct := (tTxnStruct TTxCtrlBlk_zero)\<lparr>aBuf := [if x < 10 then 20 else 1, 0, 0, 0]\<rparr>,
     tTxPktParams := (tTxPktParams TTxCtrlBlk_zero)\<lparr>uPktType := (if x < 15 then 0 else TX_PKT_TYPE_MGMT)\<rparr>\<rparr>"

definition tpd_mem :: "addr \<Rightarrow> u8" where
  "tpd_mem a = (if a = 13 then 0x88 else if a = 14 then 0x8e else 0)"

definition tpd_env :: tp_env where
  "tpd_env = \<lparr>ev_mem = tpd_mem, ev_generic = ETHERTYPE_EAPOL, ev_xmit = (\<lambda>tr d x. (STATUS_XMIT_SUCCESS, None)),
     ev_net = (\<lambda>tr. [])\<rparr>"

definition tpd_clsfr :: TClsfrParams where
  "tpd_clsfr = \<lparr>eClsfrType = D_TAG_CLSFR, uNumActiveEntries = 0,
     ClsfrTable = replicate NUM_OF_CLSFR_TABLE_ENTRIES \<lparr>DstIPAddress = 0, IPPort_DstPortNum = 0, DTag = 0\<rparr>\<rparr>"

abbreviation tpd_boot :: TTxPath where
  "tpd_boot \<equiv> tp_boot 7 5 8 tpd_clsfr True 1 tpd_blk"

definition tpd_ops :: "tp_op list" where
  "tpd_ops = [OpConn TX_CONN_STATE_EAPOL, OpInsert 10 0, OpQueuesNotEmpty, OpConn TX_CONN_STATE_OPEN, OpInsert 1 0,
     OpInsert 2 5, OpRunData, OpSuspend, OpInsert 3 0, OpRunData, OpInsert 4 0]"

text \<open>The definitions that evaluate a run, and the state machine at the fuel it is called with.\<close>

lemmas tp_eval =
  MGMT_QUEUES_DEPTH_def MGMT_QUEUES_TID_def DATA_QUEUE_DEPTH_BE_def DATA_QUEUE_DEPTH_BK_def
  DATA_QUEUE_DEPTH_VI_def DATA_QUEUE_DEPTH_VO_def MAX_NUM_OF_AC_def TX_SEND_PACE_TIMEOUT_MSEC_def
  TX_PKT_TYPE_MGMT_def TX_PKT_TYPE_EAPOL_def TX_PKT_TYPE_ETHER_def ETHERTYPE_EAPOL_def aTidToQueueTable_def
  tp_then_def tp_emit_def tp_q_def tp_set_queue_def tp_queues_def tp_linked_def tp_enqueue_def tp_requeue_def
  tp_dequeue_def tp_size_def tp_set_blk_def dq_set_stopped_def dq_mismatch_def dq_select_def
  updateQueuesBusyMap_def txMgmtQ_StopQueue_def txDataQ_UpdateQueuesBusyState_def txDataQ_StopQueue_def
  mq_count_def mq_inc_def dq_count_def mq_insert_def mq_xmit_external_def dq_pace_def dq_insert_def
  tp_eth_type_def tp_set_type_def txDataQ_InsertPacket_def tp_preempt_def tp_cond_def tp_xmit_def mq_requeue_def
  dq_requeue_def mq_round_def runScheduler_def dq_resume_def dq_round_def dq_next_def txDataQ_RunScheduler_def
  ARE_ALL_MGMT_QUEUES_EMPTY_def mq_enable_def txMgmtQ_StopAll_def txDataQ_StopAll_def txDataQ_WakeAll_def
  port_actions_def updateQueuesStates_def txPort_enableData_def txPort_enableMgmt_def runSchedulerNotFromSm_def
  txMgmtQ_WakeAll_def mq_sm_def txMgmtQ_GetConnState_def txMgmtQ_Xmit_def txMgmtQ_QueuesNotEmpty_def
  txMgmtQ_UpdateBusyMap_def txMgmtQ_SetConnState_def txDataQ_UpdateBusyMap_def txDataQ_TxSendPaceTimeout_def
  txPort_suspendTx_def txPort_resumeTx_def txMgmtQ_ClearQueues_def txDataQ_ClearQueues_def txMgmtQ_Destroy_def
  txDataQ_Destroy_def txMgmtQ_ResetQueueStatistics_def txDataQ_ResetQueueStatistics_def txMgmtQ_Create_def
  txMgmtQ_Init_def txPort_create_def txPort_init_def txDataQ_Create_def dq_depth_def txDataQ_Init_def
  txDataQ_SetDefaults_def tp_boot_def TTxDataQueueDebugCnt_zero_def aq_Create_def aq_Enqueue_def aq_Dequeue_def
  aq_Requeue_def aq_Size_def txDataClsfr_Config_def txDataClsfr_ClassifyTxPacket_def clsfr_set_tid_def
  load16_net_def OFS_ETH_TYPE_def D_TAG_CLSFR_def MAX_NUM_OF_802_1d_TAGS_def TTxCtrlBlk_zero_def
  TTxnStruct_zero_def upt_rec list_all_iff mq_loop.simps dq_loop.simps
  tpd_blk_def tpd_mem_def tpd_env_def tpd_clsfr_def tpd_ops_def

lemmas sm_eval = mgmtQueuesSM.simps(2) [of E "Suc 0" for E, folded numeral_2_eq_2]

definition tpd_state :: TTxPath where
  "tpd_state = (case tp_run tpd_env tpd_ops tpd_boot of Some (Inr s) \<Rightarrow> s | _ \<Rightarrow> tpd_boot)"

lemma tpd_run: "tp_run tpd_env tpd_ops tpd_boot = Some (Inr tpd_state)"
  by (simp add: tpd_state_def tp_eval sm_eval)

lemma tpd_state_at:
  "aq_items (tp_q (DataQ 0) tpd_state) = [3, 4]" "aq_items (tp_q (DataQ 2) tpd_state) = []"
  "TpXmit (TX_CONN_STATE_OPEN, False) (DataQ 0) 1 STATUS_XMIT_SUCCESS \<in> set (tp_trace tpd_state)"
  "tp_accepted (DataQ 0) tpd_state = [1, 3, 4]"
  by (simp_all add: tpd_state_def tp_accepted_def tp_eval sm_eval)

lemma tpd_expected: "ops_expected tpd_ops boot_view"
  by (simp add: tpd_ops_def boot_view_def)

section \<open>The properties\<close>

text \<open>C19: After any sequence of operations from the start, with connection states in the order the state machine expects,
  the state machine, the connection state, the two queue enables, the port's multiplexer and the four port flags agree:
  all are the ones of a view that says the connection state, whose turn it is and whether the path is suspended.\<close>

theorem txpath_control_agrees:
  assumes "tp_run E ops (tp_boot ctxM tmr ctxD clsfr bStop thresh blk) = Some (Inr s)" "ops_expected ops boot_view"
  shows "\<exists>v. tp_ctl s = ctl_of v v MAX_NUM_OF_AC \<and> (vw_data v \<longrightarrow> vw_conn v = TX_CONN_STATE_OPEN) \<and>
    vw_conn v = vw_conn (fold vw_after ops boot_view) \<and> vw_susp v = vw_susp (fold vw_after ops boot_view)"
proof -
  obtain d where "tp_good (\<lambda>fl. tp_permitted) MAX_NUM_OF_AC ((fold vw_after ops boot_view)\<lparr>vw_data := d\<rparr>) s"
    using run_permitted [OF assms] by (auto simp: permitted.turn_def)
  then show ?thesis
    by (intro exI [of _ "(fold vw_after ops boot_view)\<lparr>vw_data := d\<rparr>"]) (simp add: tp_good_def vw_ok_def)
qed

theorem txpath_control_agrees_witness:
  "\<exists>v. tp_ctl tpd_state = ctl_of v v MAX_NUM_OF_AC \<and> vw_conn v = TX_CONN_STATE_OPEN \<and> vw_susp v"
  using txpath_control_agrees [OF tpd_run tpd_expected] by (auto simp: tpd_ops_def boot_view_def)

text \<open>C5: No packet goes to the Tx control module that the connection state of that moment forbids, or while the path is
  suspended: data only in OPEN, EAPOL only in EAPOL and OPEN, nothing in CLOSE.\<close>

theorem txpath_sends_permitted:
  assumes "tp_run E ops (tp_boot ctxM tmr ctxD clsfr bStop thresh blk) = Some (Inr s)" "ops_expected ops boot_view"
    and "TpXmit (c, susp) d x r \<in> set (tp_trace s)"
  shows "\<not> susp \<and> conn_permits c d"
proof -
  have "tp_permitted s" using run_permitted [OF assms(1,2)] by (auto simp: permitted.turn_def tp_good_def)
  then show ?thesis using assms(3) by (auto simp: tp_permitted_def tx_permits_def list_all_iff)
qed

theorem txpath_sends_permitted_witness:
  "TpXmit (TX_CONN_STATE_OPEN, False) (DataQ 0) 1 STATUS_XMIT_SUCCESS \<in> set (tp_trace tpd_state) \<and>
   conn_permits TX_CONN_STATE_OPEN (DataQ 0)"
  using txpath_sends_permitted [OF tpd_run tpd_expected tpd_state_at(3)] tpd_state_at(3) by simp

text \<open>C6: Every queue is first in first out and keeps count of its packets: what it took, in order, is what left it (sent,
  freed, or lost when it could not be put back) followed by what is in it.\<close>

theorem txpath_fifo:
  assumes "tp_run E ops (tp_boot ctxM tmr ctxD clsfr bStop thresh blk) = Some (Inr s)" "ops_expected ops boot_view"
  shows "tp_accepted d s = tp_out d s @ aq_items (tp_q d s)"
proof -
  have "tp_fifo None s" using run_fifo [OF assms] by (auto simp: fifo.turn_def tp_good_def)
  then show ?thesis by (simp add: tp_fifo_def in_hand_def)
qed

theorem txpath_fifo_witness:
  "tp_accepted (DataQ 0) tpd_state = [1, 3, 4] \<and> tp_out (DataQ 0) tpd_state = [1]"
  using txpath_fifo [OF tpd_run tpd_expected, of "DataQ 0"] tpd_state_at by simp

text \<open>C26: Every sequence of operations returns, when the network stack does not insert packets for ever while the
  schedulers run; the nesting of the state machine in itself needs no more than the fuel.\<close>

theorem txpath_returns:
  assumes "net_ends E N"
  shows "\<exists>r. tp_run E ops (tp_boot ctxM tmr ctxD clsfr bStop thresh blk) = Some r"
  using tp_run_returns [OF assms tp_boot_last] unfolding tp_returns_def by blast

theorem txpath_returns_witness: "\<exists>r. tp_run tpd_env tpd_ops tpd_boot = Some r"
  by (rule txpath_returns [of tpd_env 0]) (simp add: net_ends_def tpd_env_def)

text \<open>C20: When the data scheduler has run with the port open, no data packet is left that could go: each queue is empty or
  busy, unless the Tx control module answered BUSY or a new packet came meanwhile.\<close>

theorem txpath_data_drained:
  assumes "net_ends E N"
    and "tp_run E ops (tp_boot ctxM tmr ctxD clsfr bStop thresh blk) = Some (Inr s)" "ops_expected ops boot_view"
    and "bDataPortEnable (tp_data s)" "txDataQ_RunScheduler E s = Some (Inr s')"
    and "list_all tp_quiet (drop (length (tp_trace s)) (tp_trace s'))" "j < MAX_NUM_OF_AC"
  shows "dq_aQueueBusy (tp_data s') j \<or> aq_items (tp_q (DataQ j) s') = []"
proof -
  obtain d where "tp_good tp_fifo MAX_NUM_OF_AC ((fold vw_after ops boot_view)\<lparr>vw_data := d\<rparr>) s"
    using run_fifo [OF assms(2,3)] by (auto simp: fifo.turn_def)
  then have turn: "data_turn s" and n: "uNumQueues (tp_data s) = MAX_NUM_OF_AC"
    using assms(4) by (auto simp: data_turn_def tp_good_def tp_ctl_unfold vw_ok_def tx_permits_def tp_cond_def)
  have "tp_last s" using tp_run_returns [OF assms(1) tp_boot_last] assms(2) by (metis tp_returns_simps(2))
  moreover have "quiet_since s s'"
    using RunScheduler_trace [OF assms(5) turn] assms(6) by (simp add: quiet_since_def since_def)
  ultimately show ?thesis using RunScheduler_clean [OF turn _ assms(5)] assms(7) n by (simp add: clean_def)
qed

definition tpd_wait :: "tp_op list" where
  "tpd_wait = [OpConn TX_CONN_STATE_EAPOL, OpConn TX_CONN_STATE_OPEN, OpInsert 1 0, OpInsert 2 5, OpInsert 3 0]"

definition tpd_waiting :: TTxPath where
  "tpd_waiting = (case tp_run tpd_env tpd_wait tpd_boot of Some (Inr s) \<Rightarrow> s | _ \<Rightarrow> tpd_boot)"

definition tpd_drained :: TTxPath where
  "tpd_drained = (case txDataQ_RunScheduler tpd_env tpd_waiting of Some (Inr s) \<Rightarrow> s | _ \<Rightarrow> tpd_boot)"

lemma tpd_wait_run: "tp_run tpd_env tpd_wait tpd_boot = Some (Inr tpd_waiting)"
  by (simp add: tpd_waiting_def tpd_wait_def tp_eval sm_eval)

lemma tpd_drain_run: "txDataQ_RunScheduler tpd_env tpd_waiting = Some (Inr tpd_drained)"
  by (simp add: tpd_drained_def tpd_waiting_def tpd_wait_def tp_eval sm_eval)

lemma tpd_drain_at:
  "bDataPortEnable (tp_data tpd_waiting)" "aq_items (tp_q (DataQ 0) tpd_waiting) = [1, 3]"
  "list_all tp_quiet (drop (length (tp_trace tpd_waiting)) (tp_trace tpd_drained))"
  "\<not> dq_aQueueBusy (tp_data tpd_drained) 0"
  by (simp_all add: tpd_drained_def tpd_waiting_def tpd_wait_def tp_eval sm_eval)

theorem txpath_data_drained_witness:
  "aq_items (tp_q (DataQ 0) tpd_waiting) = [1, 3] \<and> aq_items (tp_q (DataQ 0) tpd_drained) = []"
  using txpath_data_drained [of tpd_env 0, OF _ tpd_wait_run _ tpd_drain_at(1) tpd_drain_run tpd_drain_at(3), of 0]
    tpd_drain_at
  by (simp add: net_ends_def tpd_env_def tpd_wait_def boot_view_def MAX_NUM_OF_AC_def)

section \<open>Where the code departs from its comments\<close>

text \<open>The callback that \<open>txMgmtQ_Xmit\<close> asked for may come when its packet is gone and the data queues have the path. The
  state machine then takes the path back although there is nothing to send, and nothing gives it away again: data stays
  in its queue, and so does the next management packet, whose event the state machine ignores.\<close>

definition stale_ops :: "tp_op list" where
  "stale_ops = [OpConn TX_CONN_STATE_EAPOL, OpInsert 10 0, OpMgmtBusyMap 0, OpConn TX_CONN_STATE_OPEN,
     OpQueuesNotEmpty, OpInsert 1 0, OpRunData, OpXmit 15 False, OpRunData]"

theorem txpath_stale_callback_stalls:
  "\<exists>s. tp_run tpd_env stale_ops tpd_boot = Some (Inr s) \<and> ops_expected stale_ops boot_view \<and>
     count_list (tp_trace s) (TpSchedule 7) = 1 \<and> tp_cond s = (TX_CONN_STATE_OPEN, False) \<and>
     aq_items (tp_q (DataQ 0) s) = [1] \<and> \<not> dq_aQueueBusy (tp_data s) 0 \<and>
     aq_items (tp_q (MgmtQ QUEUE_TYPE_MGMT) s) = [15] \<and> \<not> mq_aQueueBusy (tp_mgmt s) QUEUE_TYPE_MGMT"
  by (simp add: stale_ops_def boot_view_def tp_eval sm_eval)

text \<open>\<open>runScheduler\<close> does not look at what \<open>que_Requeue\<close> answers: when the network stack filled the EAPOL queue meanwhile,
  the packet is in no queue and is never freed. The data scheduler handles the same case.\<close>

definition full_env :: tp_env where
  "full_env = tpd_env\<lparr>ev_xmit := (\<lambda>tr d x. (STATUS_XMIT_BUSY, Some 0x80)),
     ev_net := (\<lambda>tr. case rev tr of TpPoint # TpXmit k d x r # tr \<Rightarrow> map (\<lambda>y. (y, 0)) [11, 12, 13, 14] | _ \<Rightarrow> [])\<rparr>"

theorem txpath_mgmt_packet_lost:
  "\<exists>s. tp_run full_env [OpConn TX_CONN_STATE_EAPOL, OpInsert 10 0, OpQueuesNotEmpty] tpd_boot = Some (Inr s) \<and>
     TpLost (MgmtQ QUEUE_TYPE_EAPOL) 10 \<in> set (tp_trace s) \<and>
     aq_items (tp_q (MgmtQ QUEUE_TYPE_EAPOL) s) = [11, 12, 13, 14]"
  by (simp add: full_env_def tp_eval sm_eval bit_numeral_rec)

text \<open>A stop of one data queue makes the others not busy: only the last of the two TIDs of a queue counts, and a TID that is
  not in the bitmap counts as free.\<close>

theorem txDataQ_busy_is_last_tid:
  assumes "i < MAX_NUM_OF_AC"
  shows "dq_aQueueBusy (tp_data (txDataQ_StopQueue m s)) i \<longleftrightarrow> bit m ([3, 2, 5, 7] ! i)"
proof -
  from assms have "i = 0 \<or> i = 1 \<or> i = 2 \<or> i = 3" by (auto simp: MAX_NUM_OF_AC_def)
  moreover have "[0..<unat MAX_NUM_OF_802_1d_TAGS] = [0, 1, 2, 3, 4, 5, 6, 7]" by code_simp
  ultimately show ?thesis
    by (elim disjE) (simp_all add: txDataQ_StopQueue_def txDataQ_UpdateQueuesBusyState_def aTidToQueueTable_def)
qed

text \<open>An EAPOL state that follows OPEN is an error the state machine reports and carries on from: the data port stays open
  while the data queues may not send. This is why the properties ask for the expected order.\<close>

theorem txpath_unexpected_eapol:
  "\<exists>s. tp_run tpd_env [OpConn TX_CONN_STATE_EAPOL, OpConn TX_CONN_STATE_OPEN, OpConn TX_CONN_STATE_EAPOL, OpInsert 1 0,
       OpRunData] tpd_boot = Some (Inr s) \<and>
     TpXmit (TX_CONN_STATE_EAPOL, False) (DataQ 0) 1 STATUS_XMIT_SUCCESS \<in> set (tp_trace s)"
  by (simp add: tp_eval sm_eval)

end
