(* ===== verification/Spec2Isabelle.thy ===== *)
theory Spec2Isabelle
  imports TxHwQueue Queue RxProps Timer TxDataClsfr CmdQueueSpec TxXferProps SdioBusDrvDone TwIfProps ContextProps TxPathProps
begin

text \<open>
  Verification of the transfer core of the TI wl1271 Wi-Fi driver (\<open>wgt7310/wl1271\<close>; the paths below
  are relative to it).

  The program. The driver sits between the Linux network stack and the wl1271 chip behind an SDIO or
  SPI bus. Its station part (\<open>stad\<close>) decides what to do: it classifies and queues packets, scans,
  connects, saves power. Its lower part (\<open>TWD\<close>) carries that out: commands go to the firmware through a
  mailbox, packets through the firmware's memory blocks, and everything crosses the bus as
  transactions (\<open>Txn\<close>). All runs in one driver task; other contexts (the bus driver, the OS timers)
  only leave work behind for it. The repository holds further trees, which are vendored supplicants,
  firmware and tools.

  The parts modelled, from the bottom up.

  \<^item> \<open>Prelude\<close>: integer types, status values, faults, shared lemmas.
  \<^item> \<open>Queue\<close> (\<open>utils/queue.c\<close>): the intrusive doubly linked queue that the other modules use, once as
    writes to a heap of node headers and once as a bounded list (\<open>aqueue\<close>); the first refines the
    second, on every branch, and leaves the cells of other queues alone. The other theories use the
    list. The locale \<open>fifo\<close> holds what its clients rely on and is interpreted for both.
  \<^item> \<open>TxnTypes\<close> (\<open>Txn/TxnDefs.h\<close>, \<open>Txn/BusDrv.h\<close>): a bus transaction and its packed parameter word.
  \<^item> \<open>TxnQueue\<close>, \<open>TxnQueueProps\<close> (\<open>Txn/TxnQueue.c\<close>): priorities, aggregation, the scheduler that may not
    be reentered, restart. Specified by two monitors of the record of events; proved are FIFO order
    for each queue, one transaction on the bus at a time, and that the scheduler returns and leaves
    nothing behind that could be sent. \<open>TxnQueueCount\<close> keeps the books: nothing is lost or doubled
    between submission and callback; TwIf's proofs rest on it.
  \<^item> \<open>SdioBusDrv\<close>, \<open>SdioBusDrvProps\<close>, \<open>SdioBusDrvDone\<close> (\<open>Txn/SdioBusDrv.c\<close>): the bus driver that copies a
    transaction to its DMA buffer and splits it into the parts the SDIO adapter takes, with aggregation.
    Proved: the parts carry exactly the bytes of the buffers, in both directions (for transactions other than
    those for the ELP register), and, for all transactions that fit the DMA buffer, that the completion
    callback is made once if an answer came late and never otherwise, and the end is told once if the callback
    does not preempt \<open>busDrv_Transact\<close> (if it does it can be told twice, a finding).
  \<^item> \<open>TwIf\<close>, \<open>TwIfInv\<close>, \<open>TwIfProps\<close> (\<open>TWD/TwIf/TwIf.c\<close>): the transaction interface, composed with the
    transaction queue: address translation and partition, the count of pending transactions, the state
    machine that wakes the device and lets it sleep, completion in the driver's context, restart with
    its guard timer. Proved over every interleaving of calls, completions, restarts and expiries of the guard
    timer, for clients that give a transaction only when TwIf does not have it and ask nothing of the bus
    while a restart waits for it (\<open>tw_may\<close>): the wake lock is balanced, the operations return and fault only
    where \<open>twIf_SetPartition\<close> frees memory that is still in use, the completion handler lets an idle device
    sleep. As long as the guard timer has not expired, each transaction is reported once and the device sleeps
    only when none is held; after it neither holds, as the bus may still have a transaction that TwIf has
    forgotten (\<open>twIf_timeout_forgets\<close>). Translation is injective.
  \<^item> \<open>TxXfer\<close>, \<open>TxXferProps\<close> (\<open>TWD/FW_Transfer/txXfer.c\<close>): Tx packets are aggregated into bursts and sent.
    Proved: no packet is lost, doubled or reordered, the bursts keep their limits, each packet's transfer
    is reported once, and a burst crosses the SDIO bus driver as one transfer of its bytes.
  \<^item> \<open>CmdMBox\<close> (\<open>TWD/FW_Transfer/CmdMBox.c\<close>), \<open>CmdQueue\<close> (\<open>TWD/Ctrl/CmdQueue.c\<close>), with the lemmas in
    \<open>CmdQueueProps\<close> and the properties in \<open>CmdQueueSpec\<close>: commands wait in a ring of 30 nodes, one at a
    time goes to the mailbox, its answer calls the owner, who may send again from the callback. The
    locale \<open>callback_safe\<close> states what a call chain keeps and is interpreted for the settled state, the
    state inside a completion and the state inside a failed one. Proved are order, exactly-once,
    buffer bounds, ownership of answers, draining, and what a recovery reports.
  \<^item> \<open>TxCtrlBlk\<close> (\<open>TWD/Data_Service/txCtrlBlk.c\<close>): the free list of Tx control blocks refines a pool.
  \<^item> \<open>TxHwQueue\<close> (\<open>TWD/Data_Service/txHwQueue.c\<close>): accounting of the firmware's memory blocks per access
    category with 32-bit counters; conservation, guarantees and the block estimate.
  \<^item> \<open>RxQueue\<close>, \<open>RxWindow\<close>, \<open>RxOrder\<close>, \<open>RxProps\<close> (\<open>TWD/Data_Service/RxQueue.c\<close>): reordering of received
    packets in block-ack sessions: model, the circular array seen as a window, in-order delivery, and
    sessions, timeout and errors.
  \<^item> \<open>TxDataClsfr\<close> (\<open>stad/src/Data_link/TxDataClsfr.c\<close>): the classifier table refines a bounded finite map
    and classification is its lookup.
  \<^item> \<open>Timer\<close> (\<open>utils/timer.c\<close>): timers that expire in the OS's context and are served in the driver
    task; every expiry is served once, in order. A timer may be destroyed while it is queued; the invariant
    names those. The locale \<open>tmr_user\<close> states what users may do in their callbacks.
  \<^item> \<open>Context\<close>, \<open>ContextTask\<close>, \<open>ContextProps\<close> (\<open>utils/context.c\<close>, with the wake lock, the scheduling and the
    work function of \<open>platforms/os/linux/src/osapi.c\<close> and \<open>WlanDrvIf.c\<close>): the driver task. \<open>Context\<close> has
    the functions as they run alone, \<open>ContextTask\<close> a machine in which each access to a shared flag, to
    the wake lock counter or to the work queue is a step, and its invariant. Proved for every
    interleaving: no request is lost, a request is served by one run of the task, the wake lock is
    balanced; and that the functions are the uninterrupted runs of the machine. The locale
    \<open>deferred_calls\<close> is the contract with the clients.

  \<^item> \<open>TxPath\<close>, \<open>TxPathInv\<close>, \<open>TxPathSpec\<close>, \<open>TxPathEnd\<close>, \<open>TxPathDrain\<close>, \<open>TxPathProps\<close> (\<open>txMgmtQueue.c\<close>, \<open>txPort.c\<close> and
    \<open>txDataQueue.c\<close> in \<open>stad/src/Data_link\<close>): the management and data queues, the port between them and the state
    machine that follows the connection; they call each other in circles and are one model. The locale
    \<open>tp_rounds\<close> says that a scheduler keeps what its rounds keep, \<open>tp_kept\<close> what is kept along the way of a
    packet; it is interpreted for permission, for order and for the record of events. Proved over every
    sequence of operations, with the network stack inserting packets in between: the parts agree on who may
    send, nothing forbidden is sent, the queues keep order and count, every operation returns, the data
    scheduler leaves nothing that could go.

  How the model corresponds to the code. A C structure is a record with the fields' names (prefixed
  where two structures share one), an integer type a word of its width, an address a natural number
  with 0 for NULL. A function has its C name; its result is the new object with the return value, and
  what it does outside the module (calls to the OS, to other modules, to registered callbacks) is
  appended to a trace field in order. What comes from outside is a parameter: the results of memory
  allocation, what the bus driver returns (\<open>bus\<close>; the SDIO driver itself is the model \<open>SdioBusDrv\<close> over an
  adapter \<open>sdio\<close>), what TwIf returns to its clients (\<open>twif\<close>), the bytes the firmware delivers (\<open>resp\<close>), what a
  client does in its callback (\<open>client\<close>), all but the first as functions of the trace so far, so that
  they may depend on everything that has happened. Undefined behaviour (NULL or freed objects, accesses
  outside an array) is a value of type \<open>fault\<close>. A critical section is one step.

  Loops. A loop over an array is structural recursion or a fold. The loops of the transaction
  scheduler are functions with a termination proof (the number of waiting transactions, the length
  of the done queue). Loops that need not end have the value \<open>None\<close> when they do not:
  \<open>while_option\<close> in \<open>RxQueue\<close>, where the timeout handler really can run forever, and
  \<open>partial_function (option)\<close> for the loop over expired timers, the iterations of the transaction
  scheduler and TwIf's loop over the completed transactions, which end when the callbacks stop starting
  timers and sending transactions; the
  properties that say so have the value \<open>Some\<close> in their conclusions. The loops of the Tx schedulers are
  \<open>partial_function (option)\<close> too and end when the network stack stops inserting. There is fuel in two
  places: the nesting of \<open>context_DriverTask\<close> in itself, where one level is enough with a context switch, as
  proved, and no level without one when a client asks for itself; and the nesting of \<open>mgmtQueuesSM\<close> in itself,
  where two levels are always enough (\<open>txpath_returns\<close>). The number of expiries,
  answers or callbacks in a property is a bound the property quantifies over.

  Not modelled. Trace and debug output (a few trace arguments that read memory excepted); releasing
  objects at unload, except where later code reads the freed object; big-endian hosts; the SDIO
  adapter below \<open>SdioBusDrv.c\<close> and the WSPI bus driver, which drive controllers not in the repository;
  what the error and recovery callbacks of TwIf set off (they are the last thing its functions do, and are
  recorded); interleavings inside a
  critical section, which the context module excludes. The Rx transfer and the Tx results read structures that the
  firmware lays out; the answers of the Tx control module (\<open>txCtrl.c\<close>), which builds headers and descriptors,
  are a parameter of the Tx path; preemption of the Tx path is modelled in its schedulers, where packets are
  in the air, and not in the functions that clear the queues. Command building, the firmware's events and
  download, the MAC services and the station's policy modules have a contract with the firmware or the
  network that the repository does not state.
\<close>

end
